(* ===== verification/Prelude.thy ===== *)
theory Prelude
  imports Complex_Main
    "HOL-Library.AList"
    "HOL-Library.Multiset"
    "HOL-Library.Product_Lexorder"
    "HOL-Library.List_Lexorder"
    "HOL-Library.Char_ord"
begin

text \<open>
  Prelude of the development: the Python notions every component shares.
  A Python \<^verbatim>\<open>dict\<close> is an association list in insertion order (type \<open>dict\<close>): reading is
  \<^const>\<open>map_of\<close>, assignment is \<^const>\<open>AList.update\<close> (in place for an old key, at the end for
  a new one, as CPython does) and \<^verbatim>\<open>pop(key, None)\<close> is \<^const>\<open>AList.delete\<close>; a dict is
  well formed when its keys are distinct. An exception is a value of \<open>pyexc\<close>, an operation that
  may raise returns \<open>pyexc + 'a\<close>. Times and other floats are exact rationals.
\<close>

subsection \<open>Types\<close>

type_synonym ('k, 'v) dict = "('k \<times> 'v) list"

type_synonym time = rat

datatype pyexc =
    TypeError
  | KeyError
  | IndexError
  | ValueError
  | AttributeError
  | ZeroDivisionError
  | OtherError string

type_synonym 'a pyres = "pyexc + 'a"

text \<open>Collections of simplification and introduction rules used by the component proofs.\<close>

named_theorems dict_simps \<open>rewriting of association lists that stand for dicts\<close>
named_theorems op_defs \<open>definitions of the operations of the components\<close>
named_theorems inv_intros \<open>preservation of the component invariants\<close>

subsection \<open>Dictionaries\<close>

abbreviation dict_wf :: "('k, 'v) dict \<Rightarrow> bool" where
  "dict_wf d \<equiv> distinct (map fst d)"

abbreviation dict_keys :: "('k, 'v) dict \<Rightarrow> 'k list" where
  "dict_keys d \<equiv> map fst d"

definition dict_get :: "('k, 'v) dict \<Rightarrow> 'k \<Rightarrow> 'v \<Rightarrow> 'v" where
  "dict_get d k v = (case map_of d k of None \<Rightarrow> v | Some x \<Rightarrow> x)"

declare map_of_eq_Some_iff [simp del] Some_eq_map_of_iff [simp del]

lemma map_of_update [simp, dict_simps]:
  "map_of (AList.update k v d) = (map_of d)(k \<mapsto> v)"
  by (simp add: update_conv')

lemma map_of_delete [simp, dict_simps]:
  "map_of (AList.delete k d) = (map_of d)(k := None)"
  by (simp add: delete_conv')

lemma dict_wf_update [simp, intro]: "dict_wf d \<Longrightarrow> dict_wf (AList.update k v d)"
  by (rule distinct_update)

lemma dict_wf_delete [simp, intro]: "dict_wf d \<Longrightarrow> dict_wf (AList.delete k d)"
  by (rule distinct_delete)

lemma keys_update:
  "dict_keys (AList.update k v d) = (if k \<in> set (dict_keys d) then dict_keys d else dict_keys d @ [k])"
  by (simp add: update_keys)

lemma keys_update_set: "set (dict_keys (AList.update k v d)) = insert k (set (dict_keys d))"
  by (subst keys_update) auto

lemma length_update:
  "length (AList.update k v d) = (if k \<in> set (dict_keys d) then length d else Suc (length d))"
proof -
  have "length (AList.update k v d) = length (dict_keys (AList.update k v d))" by simp
  then show ?thesis by (simp add: keys_update split: if_splits)
qed

lemma length_update_le: "length (AList.update k v d) \<le> Suc (length d)"
  by (simp add: length_update)

lemma keys_delete [dict_simps]: "set (dict_keys (AList.delete k d)) = set (dict_keys d) - {k}"
  by (induction d) auto

lemma delete_keys_filter: "dict_keys (AList.delete k d) = filter (\<lambda>x. x \<noteq> k) (dict_keys d)"
  by (induction d) auto

lemma length_delete_le: "length (AList.delete k d) \<le> length d"
  by (simp add: AList.delete_eq)

lemma delete_absent: "k \<notin> set (dict_keys d) \<Longrightarrow> AList.delete k d = d"
  by (induction d) auto

lemma length_delete_less: "k \<in> set (dict_keys d) \<Longrightarrow> length (AList.delete k d) < length d"
proof (induction d)
  case (Cons p d)
  show ?case
  proof (cases "fst p = k")
    case True
    then show ?thesis using length_delete_le [of k d] by (simp add: le_imp_less_Suc)
  next
    case False
    with Cons show ?thesis by auto
  qed
qed simp

lemma length_delete_present:
  "dict_wf d \<Longrightarrow> k \<in> set (dict_keys d) \<Longrightarrow> Suc (length (AList.delete k d)) = length d"
proof (induction d)
  case (Cons p d)
  then show ?case by (cases "fst p = k") (auto simp: delete_absent)
qed simp

lemma update_absent: "k \<notin> set (dict_keys d) \<Longrightarrow> AList.update k v d = d @ [(k, v)]"
  by (induction d) auto

lemma map_of_Some_key: "map_of d k = Some v \<Longrightarrow> k \<in> set (dict_keys d)"
  by (force dest: map_of_SomeD)

lemma key_map_of_Some: "k \<in> set (dict_keys d) \<Longrightarrow> \<exists>v. map_of d k = Some v"
  by (induction d) auto

lemma map_of_None_key: "map_of d k = None \<longleftrightarrow> k \<notin> set (dict_keys d)"
  by (induction d) auto

lemma dom_dict: "dom (map_of d) = set (dict_keys d)"
  by (simp add: dom_map_of_conv_image_fst)

lemma dict_get_update [dict_simps]:
  "dict_get (AList.update k v d) k' w = (if k' = k then v else dict_get d k' w)"
  by (simp add: dict_get_def)

lemma dict_get_Nil [simp]: "dict_get [] k w = w"
  by (simp add: dict_get_def)

lemma map_eq_all2: "list_all2 (\<lambda>x y. f x = g y) xs ys \<Longrightarrow> map f xs = map g ys"
  by (induction rule: list_all2_induct) auto

text \<open>Python's \<^verbatim>\<open>x or y\<close> on an optional value whose falsy values are \<^term>\<open>None\<close> and zero.\<close>

definition or_num :: "'a::zero option \<Rightarrow> 'a \<Rightarrow> 'a" where
  "or_num x y = (case x of None \<Rightarrow> y | Some v \<Rightarrow> if v = 0 then y else v)"

subsection \<open>Lists\<close>

text \<open>\<^verbatim>\<open>xs.pop(i)\<close> and \<^verbatim>\<open>xs[i]\<close> for an index that is not negative.\<close>

definition pop_nth :: "nat \<Rightarrow> 'a list \<Rightarrow> 'a list" where
  "pop_nth i xs = take i xs @ drop (Suc i) xs"

definition nth_or_raise :: "'a list \<Rightarrow> nat \<Rightarrow> 'a pyres" where
  "nth_or_raise xs i = (if i < length xs then Inr (xs ! i) else Inl IndexError)"

lemma nth_or_raise_in [simp]: "i < length xs \<Longrightarrow> nth_or_raise xs i = Inr (xs ! i)"
  by (simp add: nth_or_raise_def)

lemma nth_pop_nth: "i < length xs \<Longrightarrow> j < length xs - 1 \<Longrightarrow> pop_nth i xs ! j = xs ! (if j < i then j else Suc j)"
  by (auto simp: pop_nth_def nth_append min_def)

lemma length_pop_nth: "i < length xs \<Longrightarrow> length (pop_nth i xs) = length xs - 1"
  by (simp add: pop_nth_def)

subsection \<open>Folds over option-like results\<close>

lemma foldl_invariant:
  "P s \<Longrightarrow> (\<And>s x. P s \<Longrightarrow> x \<in> set xs \<Longrightarrow> P (f s x)) \<Longrightarrow> P (foldl f s xs)"
  by (induction xs arbitrary: s) auto

lemma fold_invariant_set:
  "P s \<Longrightarrow> (\<And>s x. P s \<Longrightarrow> x \<in> set xs \<Longrightarrow> P (f x s)) \<Longrightarrow> P (fold f xs s)"
  by (induction xs arbitrary: s) auto

end
