(* ===== verification/PyHeapq.thy ===== *)
theory PyHeapq
  imports Prelude
begin

text \<open>
  Python's \<^verbatim>\<open>heapq\<close>, which the in-memory cache (\<^verbatim>\<open>caching/in_memory_cache.py\<close>) and the
  scheduler (\<^verbatim>\<open>scheduler.py\<close>) use on lists of tuples: the standard library's own
  algorithm (\<^verbatim>\<open>_siftdown\<close>, \<^verbatim>\<open>_siftup\<close>, \<^verbatim>\<open>heappush\<close>, \<^verbatim>\<open>heappop\<close>, \<^verbatim>\<open>heapify\<close>),
  the heap invariant on array positions, and a locale for what its clients rely on.
\<close>

subsection \<open>The algorithm\<close>

definition parent_pos :: "nat \<Rightarrow> nat" where
  "parent_pos i = (i - 1) div 2"

lemma parent_pos_le: "parent_pos i \<le> i"
  by (simp add: parent_pos_def)

lemma parent_pos_less [simp, intro]: "0 < i \<Longrightarrow> parent_pos i < i"
  by (simp add: parent_pos_def)

lemma parent_pos_bound [simp, intro]: "i < n \<Longrightarrow> parent_pos i < n"
  using parent_pos_le [of i] by simp

lemma parent_pos_child: "0 < i \<Longrightarrow> parent_pos i = p \<longleftrightarrow> i = 2 * p + 1 \<or> i = 2 * p + 2"
  unfolding parent_pos_def by presburger

lemma parent_pos_neq [simp]: "0 < i \<Longrightarrow> parent_pos i \<noteq> i" "0 < i \<Longrightarrow> i \<noteq> parent_pos i"
  by (metis parent_pos_less less_irrefl)+

function siftdown :: "'a::linorder list \<Rightarrow> nat \<Rightarrow> nat \<Rightarrow> 'a \<Rightarrow> 'a list" where
  "siftdown xs startpos pos newitem =
     (if startpos < pos \<and> newitem < xs ! parent_pos pos
      then siftdown (xs[pos := xs ! parent_pos pos]) startpos (parent_pos pos) newitem
      else xs[pos := newitem])"
  by pat_completeness auto
termination
  by (relation "measure (\<lambda>(xs, s, p, v). p)") auto

declare siftdown.simps [simp del]

text \<open>The loop of \<^verbatim>\<open>_siftup\<close>: the smaller child moves up until the hole reaches a leaf.\<close>

definition min_child :: "'a::linorder list \<Rightarrow> nat \<Rightarrow> nat" where
  "min_child xs pos =
     (let c = 2 * pos + 1 in if c + 1 < length xs \<and> \<not> xs ! c < xs ! (c + 1) then c + 1 else c)"

function bubble :: "'a::linorder list \<Rightarrow> nat \<Rightarrow> 'a list \<times> nat" where
  "bubble xs pos =
     (if 2 * pos + 1 < length xs
      then bubble (xs[pos := xs ! min_child xs pos]) (min_child xs pos)
      else (xs, pos))"
  by pat_completeness auto
termination
  by (relation "measure (\<lambda>(xs, p). length xs - p)") (auto simp: min_child_def Let_def)

declare bubble.simps [simp del]

definition siftup :: "'a::linorder list \<Rightarrow> nat \<Rightarrow> 'a list" where
  "siftup xs pos = (case bubble xs pos of (ys, q) \<Rightarrow> siftdown ys pos q (xs ! pos))"

definition heappush :: "'a::linorder list \<Rightarrow> 'a \<Rightarrow> 'a list" where
  "heappush heap item = siftdown (heap @ [item]) 0 (length heap) item"

definition heappop :: "'a::linorder list \<Rightarrow> ('a \<times> 'a list) pyres" where
  "heappop heap =
     (if heap = [] then Inl IndexError
      else let lastelt = last heap; rest = butlast heap in
        if rest = [] then Inr (lastelt, [])
        else Inr (rest ! 0, siftup (rest[0 := lastelt]) 0))"

definition heapify :: "'a::linorder list \<Rightarrow> 'a list" where
  "heapify x = foldl siftup x (rev [0..<length x div 2])"

subsection \<open>The heap invariant\<close>

text \<open>\<open>heap_from s xs\<close>: every position whose parent is at or after \<open>s\<close> is not below its parent.\<close>

definition heap_from :: "nat \<Rightarrow> 'a::linorder list \<Rightarrow> bool" where
  "heap_from s xs \<longleftrightarrow>
     (\<forall>i < length xs. 0 < i \<longrightarrow> s \<le> parent_pos i \<longrightarrow> xs ! parent_pos i \<le> xs ! i)"

abbreviation is_heap :: "'a::linorder list \<Rightarrow> bool" where
  "is_heap xs \<equiv> heap_from 0 xs"

text \<open>\<open>below s i\<close>: position \<open>i\<close> is \<open>s\<close> or lies in the subtree of \<open>s\<close>.\<close>

inductive below :: "nat \<Rightarrow> nat \<Rightarrow> bool" for s where
  below_refl: "below s s"
| below_child: "below s p \<Longrightarrow> 0 < i \<Longrightarrow> parent_pos i = p \<Longrightarrow> below s i"

lemma below_le: "below s i \<Longrightarrow> s \<le> i"
  by (induction rule: below.induct) (use parent_pos_le le_trans in blast)+

lemma below_parent: "below s i \<Longrightarrow> s < i \<Longrightarrow> below s (parent_pos i)"
  by (auto elim: below.cases)

lemma below_zero: "below 0 i"
proof (induction i rule: less_induct)
  case (less i)
  show ?case
  proof (cases "i = 0")
    case True then show ?thesis by (simp add: below_refl)
  next
    case False
    then have "below 0 (parent_pos i)" by (intro less) simp
    then show ?thesis using False by (auto intro: below_child)
  qed
qed

text \<open>
  What \<^const>\<open>siftdown\<close> starts from: with the new item at \<open>pos\<close>, only the pair of \<open>pos\<close> and its
  parent may be out of order, and the children of \<open>pos\<close> are not below the parent of \<open>pos\<close>.
\<close>

definition heap_but_up :: "nat \<Rightarrow> nat \<Rightarrow> 'a::linorder list \<Rightarrow> bool" where
  "heap_but_up s pos xs \<longleftrightarrow>
     (\<forall>i < length xs. 0 < i \<longrightarrow> s \<le> parent_pos i \<longrightarrow> i \<noteq> pos \<longrightarrow> xs ! parent_pos i \<le> xs ! i) \<and>
     (s < pos \<longrightarrow> (\<forall>i < length xs. 0 < i \<longrightarrow> parent_pos i = pos \<longrightarrow> xs ! parent_pos pos \<le> xs ! i))"

lemma heap_but_upD1:
  "heap_but_up s pos xs \<Longrightarrow> i < length xs \<Longrightarrow> 0 < i \<Longrightarrow> s \<le> parent_pos i \<Longrightarrow> i \<noteq> pos \<Longrightarrow>
   xs ! parent_pos i \<le> xs ! i"
  by (simp add: heap_but_up_def)

lemma heap_but_upD2:
  "heap_but_up s pos xs \<Longrightarrow> s < pos \<Longrightarrow> i < length xs \<Longrightarrow> 0 < i \<Longrightarrow> parent_pos i = pos \<Longrightarrow>
   xs ! parent_pos pos \<le> xs ! i"
  by (simp add: heap_but_up_def)

lemma heap_but_up_done:
  assumes "heap_but_up s pos xs" "below s pos" "pos < length xs"
    and "\<not> (s < pos \<and> xs ! pos < xs ! parent_pos pos)"
  shows "heap_from s xs"
  unfolding heap_from_def
proof (intro allI impI)
  fix i assume i: "i < length xs" "0 < i" "s \<le> parent_pos i"
  show "xs ! parent_pos i \<le> xs ! i"
  proof (cases "i = pos")
    case True
    with i parent_pos_less [of i] have "s < pos" by linarith
    with assms(4) True show ?thesis by auto
  next
    case False
    with i heap_but_upD1 [OF assms(1)] show ?thesis by blast
  qed
qed

lemma heap_but_up_step:
  assumes H: "heap_but_up s pos (xs[pos := v])" and b: "below s pos" and len: "pos < length xs"
    and up: "s < pos" "v < xs ! parent_pos pos"
  shows "heap_but_up s (parent_pos pos) (xs[pos := xs ! parent_pos pos, parent_pos pos := v])"
    (is "heap_but_up s ?p ?ys")
proof -
  let ?xs = "xs[pos := v]"
  have p: "?p < pos" "?p < length xs" using up(1) len parent_pos_less [of pos] by linarith+
  have pl: "length ?ys = length xs" by simp
  have nth: "?ys ! j = (if j = ?p then v else if j = pos then xs ! ?p else xs ! j)"
    if "j < length xs" for j using that p len by (auto simp: nth_list_update)
  have xn: "?xs ! j = (if j = pos then v else xs ! j)" if "j < length xs" for j
    using that by (auto simp: nth_list_update)
  show ?thesis
    unfolding heap_but_up_def pl
  proof (intro conjI allI impI)
    fix i assume i: "i < length xs" "0 < i" "s \<le> parent_pos i" "i \<noteq> ?p"
    have pi: "parent_pos i < length xs" using i(1) by (rule parent_pos_bound)
    show "?ys ! parent_pos i \<le> ?ys ! i"
    proof (cases "i = pos")
      case True
      then show ?thesis using nth [OF pi] nth [OF i(1)] p(1) up(2) i(4) by simp
    next
      case ne: False
      have 1: "?xs ! parent_pos i \<le> ?xs ! i" using heap_but_upD1 [OF H, of i] i ne by simp
      show ?thesis
      proof (cases "parent_pos i = pos")
        case True
        have "?xs ! ?p \<le> ?xs ! i" using heap_but_upD2 [OF H up(1), of i] i True by simp
        then show ?thesis using True nth [OF pi] nth [OF i(1)] xn [OF p(2)] xn [OF i(1)] ne i(4) p(1)
          by simp
      next
        case False
        then show ?thesis
          using 1 nth [OF pi] nth [OF i(1)] xn [OF pi] xn [OF i(1)] ne i(4) up(2) by auto
      qed
    qed
  next
    fix i assume s: "s < ?p" and i: "i < length xs" "0 < i" "parent_pos i = ?p"
    have pp: "parent_pos ?p < ?p" using s by simp
    have sp: "s \<le> parent_pos ?p" using below_le [OF below_parent [OF below_parent [OF b up(1)] s]] .
    have 1: "xs ! parent_pos ?p \<le> xs ! ?p"
      using heap_but_upD1 [OF H, of ?p] s sp p xn [OF p(2)] pp by auto
    have 2: "xs ! parent_pos ?p \<le> xs ! i" if "i \<noteq> pos"
    proof -
      have "?xs ! ?p \<le> ?xs ! i" using heap_but_upD1 [OF H, of i] i that s by simp
      then show ?thesis using 1 xn [OF i(1)] xn [OF p(2)] p(1) that by auto
    qed
    have ip: "i \<noteq> ?p" using i(2,3) parent_pos_less [of i] by auto
    show "?ys ! parent_pos ?p \<le> ?ys ! i"
      using 1 2 nth [of "parent_pos ?p"] nth [OF i(1)] pp p ip by auto
  qed
qed

lemma siftdown_length [simp]: "length (siftdown xs s pos v) = length xs"
  by (induction xs s pos v rule: siftdown.induct) (simp add: siftdown.simps)

lemma mset_swap_hole:
  assumes "i < length xs" "j < length xs" "i \<noteq> j"
  shows "mset (xs[i := xs ! j, j := v]) = mset (xs[i := v])"
proof -
  have "mset (xs[i := v, j := (xs[i := v]) ! i, i := (xs[i := v]) ! j]) = mset (xs[i := v])"
    using assms by (intro mset_swap) auto
  moreover have "xs[i := v, j := (xs[i := v]) ! i, i := (xs[i := v]) ! j] = xs[i := xs ! j, j := v]"
    using assms by (auto simp: list_eq_iff_nth_eq nth_list_update)
  ultimately show ?thesis by simp
qed

lemma siftdown_mset: "pos < length xs \<Longrightarrow> mset (siftdown xs s pos v) = mset (xs[pos := v])"
proof (induction xs s pos v rule: siftdown.induct)
  case (1 xs s pos v)
  show ?case
  proof (cases "s < pos \<and> v < xs ! parent_pos pos")
    case True
    then have "mset (siftdown xs s pos v) = mset (xs[pos := xs ! parent_pos pos, parent_pos pos := v])"
      using 1 by (simp add: siftdown.simps [of xs])
    also have "\<dots> = mset (xs[pos := v])"
      using True 1(2) parent_pos_neq [of pos] by (intro mset_swap_hole) auto
    finally show ?thesis .
  next
    case False
    then show ?thesis by (auto simp: siftdown.simps [of xs])
  qed
qed

lemma siftdown_heap:
  "heap_but_up s pos (xs[pos := v]) \<Longrightarrow> below s pos \<Longrightarrow> pos < length xs \<Longrightarrow>
   heap_from s (siftdown xs s pos v)"
proof (induction xs s pos v rule: siftdown.induct)
  case (1 xs s pos v)
  show ?case
  proof (cases "s < pos \<and> v < xs ! parent_pos pos")
    case True
    then have "heap_from s (siftdown (xs[pos := xs ! parent_pos pos]) s (parent_pos pos) v)"
      using 1 heap_but_up_step [OF 1(2,3,4)] below_parent [OF 1(3)] by (intro "1.IH") auto
    with True show ?thesis by (simp add: siftdown.simps [of xs])
  next
    case False
    have "(xs[pos := v]) ! parent_pos pos = xs ! parent_pos pos" if "s < pos"
      using that 1(4) parent_pos_neq [of pos] by (auto simp: nth_list_update)
    then have "heap_from s (xs[pos := v])"
      using False 1 by (intro heap_but_up_done) auto
    with False show ?thesis by (simp only: siftdown.simps [of xs] if_False)
  qed
qed

subsection \<open>Sifting up\<close>

text \<open>The invariant of the loop of \<^verbatim>\<open>_siftup\<close>: the pairs away from the hole are in order.\<close>

definition heap_hole :: "nat \<Rightarrow> nat \<Rightarrow> 'a::linorder list \<Rightarrow> bool" where
  "heap_hole s h xs \<longleftrightarrow>
     (\<forall>i < length xs. 0 < i \<longrightarrow> s \<le> parent_pos i \<longrightarrow> i \<noteq> h \<longrightarrow> parent_pos i \<noteq> h \<longrightarrow>
        xs ! parent_pos i \<le> xs ! i) \<and>
     (s < h \<longrightarrow> (\<forall>i < length xs. 0 < i \<longrightarrow> parent_pos i = h \<longrightarrow> xs ! parent_pos h \<le> xs ! i))"

lemma heap_holeD1:
  "heap_hole s h xs \<Longrightarrow> i < length xs \<Longrightarrow> 0 < i \<Longrightarrow> s \<le> parent_pos i \<Longrightarrow> i \<noteq> h \<Longrightarrow>
   parent_pos i \<noteq> h \<Longrightarrow> xs ! parent_pos i \<le> xs ! i"
  by (simp add: heap_hole_def)

lemma heap_holeD2:
  "heap_hole s h xs \<Longrightarrow> s < h \<Longrightarrow> i < length xs \<Longrightarrow> 0 < i \<Longrightarrow> parent_pos i = h \<Longrightarrow>
   xs ! parent_pos h \<le> xs ! i"
  by (simp add: heap_hole_def)

lemma min_child_props:
  assumes "2 * h + 1 < length xs"
  shows "min_child xs h < length xs" "0 < min_child xs h" "parent_pos (min_child xs h) = h"
    "h < min_child xs h"
    and "\<And>i. i < length xs \<Longrightarrow> 0 < i \<Longrightarrow> parent_pos i = h \<Longrightarrow> xs ! min_child xs h \<le> xs ! i"
proof -
  show "min_child xs h < length xs" "0 < min_child xs h" "parent_pos (min_child xs h) = h"
    "h < min_child xs h" using assms by (auto simp: min_child_def Let_def parent_pos_child)
  fix i assume "i < length xs" "0 < i" "parent_pos i = h"
  then have "i = 2 * h + 1 \<or> i = 2 * h + 2" by (simp add: parent_pos_child)
  then show "xs ! min_child xs h \<le> xs ! i"
    using assms \<open>i < length xs\<close> by (auto simp: min_child_def Let_def not_less)
qed

lemma heap_hole_step:
  assumes H: "heap_hole s h xs" and b: "below s h" and c: "2 * h + 1 < length xs"
  shows "heap_hole s (min_child xs h) (xs[h := xs ! min_child xs h])"
    (is "heap_hole s ?c ?ys")
proof -
  note mc = min_child_props [OF c]
  have h: "h < length xs" using c by simp
  have sh: "s \<le> h" using below_le [OF b] .
  have nth: "?ys ! j = (if j = h then xs ! ?c else xs ! j)" if "j < length xs" for j
    using that h by (auto simp: nth_list_update)
  show ?thesis
    unfolding heap_hole_def length_list_update
  proof (intro conjI allI impI)
    fix i assume i: "i < length xs" "0 < i" "s \<le> parent_pos i" "i \<noteq> ?c" "parent_pos i \<noteq> ?c"
    have pi: "parent_pos i < length xs" using i(1) by (rule parent_pos_bound)
    consider "i = h" | "i \<noteq> h" "parent_pos i = h" | "i \<noteq> h" "parent_pos i \<noteq> h" by blast
    then show "?ys ! parent_pos i \<le> ?ys ! i"
    proof cases
      case 1
      then have "s < h" "parent_pos i \<noteq> h"
        using i parent_pos_less [of h] by (auto intro: le_less_trans)
      then show ?thesis using heap_holeD2 [OF H _ mc(1,2,3)] nth [OF pi] nth [OF i(1)] 1 by simp
    next
      case 2
      then show ?thesis using mc(5) [OF i(1,2)] nth [OF pi] nth [OF i(1)] by simp
    next
      case 3
      then show ?thesis using heap_holeD1 [OF H i(1,2,3)] nth [OF pi] nth [OF i(1)] by simp
    qed
  next
    fix i assume i: "i < length xs" "0 < i" "parent_pos i = ?c"
    have ih: "i \<noteq> h" using i mc(4) parent_pos_less [of i] by auto
    moreover have "xs ! ?c \<le> xs ! i"
      using heap_holeD1 [OF H i(1,2)] i mc(4) sh ih by auto
    ultimately show "?ys ! parent_pos ?c \<le> ?ys ! i"
      using nth [OF h] nth [OF i(1)] mc(3) by simp
  qed
qed

lemma bubble_props:
  "heap_hole s h xs \<Longrightarrow> below s h \<Longrightarrow> h < length xs \<Longrightarrow> bubble xs h = (ys, q) \<Longrightarrow>
   heap_hole s q ys \<and> below s q \<and> q < length ys \<and> length ys \<le> 2 * q + 1 \<and> length ys = length xs \<and>
   mset (ys[q := v]) = mset (xs[h := v])"
proof (induction xs h rule: bubble.induct)
  case (1 xs h)
  show ?case
  proof (cases "2 * h + 1 < length xs")
    case True
    note mc = min_child_props [OF True]
    let ?xs = "xs[h := xs ! min_child xs h]"
    have "below s (min_child xs h)" by (rule below_child [OF 1(3) mc(2,3)])
    moreover have "bubble ?xs (min_child xs h) = (ys, q)"
      using "1.prems"(4) True by (simp add: bubble.simps [of xs])
    moreover have "min_child xs h < length ?xs" using mc(1) by simp
    ultimately have "heap_hole s q ys \<and> below s q \<and> q < length ys \<and> length ys \<le> 2 * q + 1 \<and>
        length ys = length ?xs \<and> mset (ys[q := v]) = mset (?xs[min_child xs h := v])"
      using "1.IH" [OF True heap_hole_step [OF 1(2,3) True]] by blast
    moreover have "mset (?xs[min_child xs h := v]) = mset (xs[h := v])"
      using mc 1(4) by (intro mset_swap_hole) auto
    ultimately show ?thesis by simp
  next
    case False
    then have "ys = xs" "q = h" using "1.prems"(4) by (auto simp: bubble.simps [of xs])
    with 1 False show ?thesis by simp
  qed
qed

lemma siftup_props:
  assumes "heap_hole s s xs" "s < length xs"
  shows "heap_from s (siftup xs s)" "mset (siftup xs s) = mset xs" "length (siftup xs s) = length xs"
proof -
  obtain ys q where yq: "bubble xs s = (ys, q)" by (cases "bubble xs s")
  note b = bubble_props [OF assms(1) below_refl assms(2) yq, of "xs ! s"]
  have leaf: "parent_pos i \<noteq> q" if "i < length ys" "0 < i" for i
    using b that parent_pos_child [of i q] by auto
  have "heap_but_up s q (ys[q := xs ! s])"
    unfolding heap_but_up_def length_list_update
  proof (intro conjI allI impI)
    fix i assume i: "i < length ys" "0 < i" "s \<le> parent_pos i" "i \<noteq> q"
    have "heap_hole s q ys" using b by blast
    from heap_holeD1 [OF this i leaf [OF i(1,2)]] leaf [OF i(1,2)] i(4)
    show "ys[q := xs ! s] ! parent_pos i \<le> ys[q := xs ! s] ! i"
      by (simp add: nth_list_update)
  qed (use leaf in blast)
  then show "heap_from s (siftup xs s)"
    using b yq by (simp add: siftup_def siftdown_heap)
  show "mset (siftup xs s) = mset xs"
    using b yq assms(2) by (simp add: siftup_def siftdown_mset)
  show "length (siftup xs s) = length xs" using b yq by (simp add: siftup_def)
qed

subsection \<open>Correctness of the operations\<close>

lemma heap_from_hole: "heap_from (Suc s) xs \<Longrightarrow> heap_hole s s xs"
  by (auto simp: heap_from_def heap_hole_def)

lemma heappush_heap: "is_heap h \<Longrightarrow> is_heap (heappush h x)"
proof -
  assume h: "is_heap h"
  have old: "i < length h" if "i < Suc (length h)" "i \<noteq> length h" for i using that by simp
  have leaf: "parent_pos i \<noteq> length h" if "i < Suc (length h)" "0 < i" for i
    using that parent_pos_less [of i] by linarith
  have "heap_but_up 0 (length h) (h @ [x])"
    using h leaf by (auto simp: heap_but_up_def heap_from_def nth_append dest!: old)
  then show ?thesis
    using siftdown_heap [of 0 "length h" "h @ [x]" x] below_zero by (simp add: heappush_def)
qed

lemma heappush_mset [simp]: "mset (heappush h x) = add_mset x (mset h)"
  by (simp add: heappush_def siftdown_mset)

lemma heappush_set [simp]: "set (heappush h x) = insert x (set h)"
  using arg_cong [OF heappush_mset [of h x], of set_mset] by (simp del: heappush_mset)

lemma heappush_length [simp]: "length (heappush h x) = Suc (length h)"
  by (simp add: heappush_def)

lemma heappop_error: "heappop h = Inl e \<longleftrightarrow> h = [] \<and> e = IndexError"
  by (auto simp: heappop_def Let_def)

lemma is_heap_root_min:
  assumes "is_heap h" "i < length h"
  shows "h ! 0 \<le> h ! i"
  using assms(2)
proof (induction i rule: less_induct)
  case (less i)
  show ?case
  proof (cases "i = 0")
    case False
    then have "h ! 0 \<le> h ! parent_pos i" using less by auto
    also have "\<dots> \<le> h ! i" using assms(1) less.prems False by (simp add: heap_from_def)
    finally show ?thesis .
  qed simp
qed

lemma is_heap_min: "is_heap h \<Longrightarrow> x \<in> set h \<Longrightarrow> h ! 0 \<le> x"
  by (auto simp: in_set_conv_nth is_heap_root_min)

lemma heap_from_butlast: "heap_from s h \<Longrightarrow> heap_from s (butlast h)"
  unfolding heap_from_def length_butlast
  by (auto simp: nth_butlast intro: less_trans)

lemma heappop_props:
  assumes "is_heap h" "heappop h = Inr (x, h')"
  shows "is_heap h'" "mset h = add_mset x (mset h')" "x = h ! 0" "h \<noteq> []"
proof -
  have ne: "h \<noteq> []" using assms(2) by (auto simp: heappop_def)
  show "h \<noteq> []" by (fact ne)
  have split: "h = butlast h @ [last h]" using ne by simp
  have len: "Suc (length (butlast h)) = length h" using ne by (cases h) auto
  show "is_heap h'" "mset h = add_mset x (mset h')" "x = h ! 0"
  proof (atomize (full), cases "butlast h = []")
    case True
    then have "h = [last h]" using split by simp
    then obtain y where "h = [y]" by blast
    with assms(2) show "is_heap h' \<and> mset h = add_mset x (mset h') \<and> x = h ! 0"
      by (auto simp: heappop_def Let_def heap_from_def)
  next
    case False
    let ?r = "(butlast h)[0 := last h]"
    have bl: "0 < length (butlast h)" using False length_greater_0_conv by blast
    have x: "x = butlast h ! 0" "h' = siftup ?r 0"
      using False assms(2) ne unfolding heappop_def Let_def by (simp_all only: if_False sum.inject prod.inject)
    have "heap_from (Suc 0) ?r"
      using heap_from_butlast [OF assms(1)] by (auto simp: heap_from_def nth_list_update)
    then have hole: "heap_hole 0 0 ?r" by (rule heap_from_hole)
    have z: "0 < length ?r" using bl by simp
    have "butlast h ! 0 = h ! 0" using bl by (rule nth_butlast)
    with x(1) have x0: "x = h ! 0" by simp
    have "mset h = add_mset (last h) (mset (butlast h))" by (subst split) simp
    also have "\<dots> = add_mset x (mset ?r)"
      using bl x(1) nth_mem [OF bl] by (simp add: mset_update)
    finally show "is_heap h' \<and> mset h = add_mset x (mset h') \<and> x = h ! 0"
      using siftup_props [OF hole z] x x0 by simp
  qed
qed

lemma heappop_length: "heappop h = Inr (x, h') \<Longrightarrow> length h = Suc (length h')"
proof -
  assume p: "heappop h = Inr (x, h')"
  have bl: "length (fst (bubble xs i)) = length xs" for xs :: "'a list" and i
  proof (induction xs i rule: bubble.induct)
    case (1 xs pos)
    then show ?case by (simp add: bubble.simps [of xs pos])
  qed
  have "length (siftup xs i) = length xs" for xs :: "'a list" and i
    using bl [of xs i] by (cases "bubble xs i") (simp add: siftup_def)
  with p show ?thesis by (cases h) (auto simp: heappop_def Let_def split: if_splits)
qed

lemma heappop_nonempty: "h \<noteq> [] \<Longrightarrow> \<exists>x h'. heappop h = Inr (x, h')"
  by (auto simp: heappop_def Let_def)

lemma heapify_loop:
  "n \<le> length xs \<Longrightarrow> heap_from n xs \<Longrightarrow>
   is_heap (foldl siftup xs (rev [0..<n])) \<and> mset (foldl siftup xs (rev [0..<n])) = mset xs"
proof (induction n arbitrary: xs)
  case (Suc n)
  have "heap_hole n n xs" by (rule heap_from_hole) (rule Suc)
  then have s: "heap_from n (siftup xs n)" "mset (siftup xs n) = mset xs"
    "length (siftup xs n) = length xs"
    using siftup_props [of n xs] Suc.prems by auto
  then have "is_heap (foldl siftup (siftup xs n) (rev [0..<n])) \<and>
      mset (foldl siftup (siftup xs n) (rev [0..<n])) = mset (siftup xs n)"
    using Suc.prems by (intro Suc.IH) auto
  with s show ?case by simp
qed simp

lemma heapify_correct: "is_heap (heapify xs)" "mset (heapify xs) = mset xs"
proof -
  have "heap_from (length xs div 2) xs"
    unfolding heap_from_def parent_pos_def by (intro allI impI) linarith
  then have "is_heap (heapify xs) \<and> mset (heapify xs) = mset xs"
    unfolding heapify_def by (intro heapify_loop) auto
  then show "is_heap (heapify xs)" "mset (heapify xs) = mset xs" by auto
qed

subsection \<open>The interface\<close>

text \<open>
  What a client of a priority queue on lists relies on. The laws speak of the multiset of the
  entries only; the shape of the array stays inside this theory.
\<close>

locale prio_queue =
  fixes push :: "'q \<Rightarrow> 'a::linorder \<Rightarrow> 'q"
    and pop :: "'q \<Rightarrow> ('a \<times> 'q) pyres"
    and peek_min :: "'q \<Rightarrow> 'a"
    and entries :: "'q \<Rightarrow> 'a multiset"
    and invar :: "'q \<Rightarrow> bool"
  assumes push_entries: "invar q \<Longrightarrow> entries (push q x) = add_mset x (entries q)"
    and push_invar: "invar q \<Longrightarrow> invar (push q x)"
    and pop_empty: "invar q \<Longrightarrow> pop q = Inl e \<Longrightarrow> entries q = {#} \<and> e = IndexError"
    and pop_ok: "invar q \<Longrightarrow> entries q \<noteq> {#} \<Longrightarrow> \<exists>x q'. pop q = Inr (x, q')"
    and pop_entries: "invar q \<Longrightarrow> pop q = Inr (x, q') \<Longrightarrow> entries q = add_mset x (entries q')"
    and pop_invar: "invar q \<Longrightarrow> pop q = Inr (x, q') \<Longrightarrow> invar q'"
    and pop_peek: "invar q \<Longrightarrow> pop q = Inr (x, q') \<Longrightarrow> x = peek_min q"
    and peek_least: "invar q \<Longrightarrow> y \<in># entries q \<Longrightarrow> peek_min q \<le> y"
begin

lemma pop_least: "invar q \<Longrightarrow> pop q = Inr (x, q') \<Longrightarrow> y \<in># entries q \<Longrightarrow> x \<le> y"
  using pop_peek peek_least by metis

lemma pop_push_least:
  assumes "invar q" "pop (push q x) = Inr (y, q')"
  shows "y \<le> x"
  using assms pop_least [of "push q x"] push_invar push_entries by simp

lemma pop_size: "invar q \<Longrightarrow> pop q = Inr (x, q') \<Longrightarrow> size (entries q) = Suc (size (entries q'))"
  using pop_entries by fastforce

end

interpretation hq: prio_queue heappush heappop "\<lambda>h. h ! 0" mset is_heap
proof unfold_locales
  show "is_heap q \<Longrightarrow> mset (heappush q x) = add_mset x (mset q)" for q and x :: 'a by simp
  show "is_heap q \<Longrightarrow> is_heap (heappush q x)" for q and x :: 'a by (rule heappush_heap)
  show "is_heap q \<Longrightarrow> heappop q = Inl e \<Longrightarrow> mset q = {#} \<and> e = IndexError" for q :: "'a list" and e
    by (simp add: heappop_error)
  show "is_heap q \<Longrightarrow> mset q \<noteq> {#} \<Longrightarrow> \<exists>x q'. heappop q = Inr (x, q')" for q :: "'a list"
    by (intro heappop_nonempty) auto
  show "is_heap q \<Longrightarrow> heappop q = Inr (x, q') \<Longrightarrow> mset q = add_mset x (mset q')" for q q' and x :: 'a
    by (rule heappop_props)
  show "is_heap q \<Longrightarrow> heappop q = Inr (x, q') \<Longrightarrow> is_heap q'" for q q' and x :: 'a
    by (rule heappop_props)
  show "is_heap q \<Longrightarrow> heappop q = Inr (x, q') \<Longrightarrow> x = q ! 0" for q q' and x :: 'a
    by (rule heappop_props)
  show "is_heap q \<Longrightarrow> y \<in># mset q \<Longrightarrow> q ! 0 \<le> y" for q and y :: 'a
    by (simp add: is_heap_min)
qed

lemmas heap_simps = heappush_mset heappush_set heappush_length

end
