(* ===== verification/PyValue.thy ===== *)
theory PyValue
  imports Prelude
begin

text \<open>
  Python values that the caches hold, and the parts of the language and its standard library the
  modelled code applies to them: truth value, \<^verbatim>\<open>+\<close>, \<^verbatim>\<open>isinstance\<close> tests and
  \<^verbatim>\<open>json.loads\<close>. A \<^verbatim>\<open>str\<close> is its UTF-8 encoding (byte order on UTF-8 is code point
  order). Finite floats are exact rationals; the infinities and NaN are separate values. Objects of
  user classes and \<^verbatim>\<open>bytes\<close> are not values of this type.
\<close>

subsection \<open>Values\<close>

datatype pyval =
    PNone
  | PBool bool
  | PInt int
  | PFloat rat
  | PInf bool \<comment> \<open>True for the positive infinity\<close>
  | PNaN
  | PStr string
  | PList "pyval list"
  | PTuple "pyval list"
  | PSet "pyval list"
  | PDict "(string \<times> pyval) list"
  | PTimedelta rat \<comment> \<open>in seconds\<close>

fun truthy :: "pyval \<Rightarrow> bool" where
  "truthy PNone = False"
| "truthy (PBool b) = b"
| "truthy (PInt i) = (i \<noteq> 0)"
| "truthy (PFloat q) = (q \<noteq> 0)"
| "truthy (PInf _) = True"
| "truthy PNaN = True"
| "truthy (PStr s) = (s \<noteq> [])"
| "truthy (PList xs) = (xs \<noteq> [])"
| "truthy (PTuple xs) = (xs \<noteq> [])"
| "truthy (PSet xs) = (xs \<noteq> [])"
| "truthy (PDict d) = (d \<noteq> [])"
| "truthy (PTimedelta q) = (q \<noteq> 0)"

text \<open>Python's \<^verbatim>\<open>x or y\<close>.\<close>

definition py_or :: "pyval \<Rightarrow> pyval \<Rightarrow> pyval" where
  "py_or x y = (if truthy x then x else y)"

fun is_dict :: "pyval \<Rightarrow> bool" where
  "is_dict (PDict _) = True"
| "is_dict _ = False"

fun is_list :: "pyval \<Rightarrow> bool" where
  "is_list (PList _) = True"
| "is_list _ = False"

fun is_str :: "pyval \<Rightarrow> bool" where
  "is_str (PStr _) = True"
| "is_str _ = False"

text \<open>\<^verbatim>\<open>isinstance(value, (bool, int, float, str))\<close>.\<close>

fun is_primitive :: "pyval \<Rightarrow> bool" where
  "is_primitive (PBool _) = True"
| "is_primitive (PInt _) = True"
| "is_primitive (PFloat _) = True"
| "is_primitive (PInf _) = True"
| "is_primitive PNaN = True"
| "is_primitive (PStr _) = True"
| "is_primitive _ = False"

fun hashable :: "pyval \<Rightarrow> bool" where
  "hashable (PList _) = False"
| "hashable (PSet _) = False"
| "hashable (PDict _) = False"
| "hashable (PTuple xs) = list_all hashable xs"
| "hashable _ = True"

subsection \<open>Addition\<close>

fun as_int :: "pyval \<Rightarrow> int option" where
  "as_int (PBool b) = Some (if b then 1 else 0)"
| "as_int (PInt i) = Some i"
| "as_int _ = None"

fun as_rat :: "pyval \<Rightarrow> rat option" where
  "as_rat (PBool b) = Some (if b then 1 else 0)"
| "as_rat (PInt i) = Some (of_int i)"
| "as_rat (PFloat q) = Some q"
| "as_rat _ = None"

fun is_nonfinite :: "pyval \<Rightarrow> bool" where
  "is_nonfinite (PInf _) = True"
| "is_nonfinite PNaN = True"
| "is_nonfinite _ = False"

definition add_nonfinite :: "pyval \<Rightarrow> pyval \<Rightarrow> pyval" where
  "add_nonfinite a b =
     (case (a, b) of
        (PInf p, PInf q) \<Rightarrow> if p = q then PInf p else PNaN
      | (PNaN, _) \<Rightarrow> PNaN
      | (_, PNaN) \<Rightarrow> PNaN
      | (PInf p, _) \<Rightarrow> PInf p
      | (_, y) \<Rightarrow> y)"

definition is_number :: "pyval \<Rightarrow> bool" where
  "is_number v \<longleftrightarrow> as_rat v \<noteq> None \<or> is_nonfinite v"

definition py_add :: "pyval \<Rightarrow> pyval \<Rightarrow> pyval pyres" where
  "py_add a b =
     (case (as_int a, as_int b) of
        (Some i, Some j) \<Rightarrow> Inr (PInt (i + j))
      | _ \<Rightarrow>
        (case (as_rat a, as_rat b) of
           (Some x, Some y) \<Rightarrow> Inr (PFloat (x + y))
         | _ \<Rightarrow>
           if is_number a \<and> is_number b then Inr (add_nonfinite a b)
           else (case (a, b) of
              (PStr s, PStr t) \<Rightarrow> Inr (PStr (s @ t))
            | (PList s, PList t) \<Rightarrow> Inr (PList (s @ t))
            | (PTuple s, PTuple t) \<Rightarrow> Inr (PTuple (s @ t))
            | (PTimedelta s, PTimedelta t) \<Rightarrow> Inr (PTimedelta (s + t))
            | _ \<Rightarrow> Inl TypeError)))"

lemma py_add_PInt [simp]: "py_add (PInt a) (PInt b) = Inr (PInt (a + b))"
  by (simp add: py_add_def)

lemma py_add_PFloat [simp]: "py_add (PFloat a) (PFloat b) = Inr (PFloat (a + b))"
  by (simp add: py_add_def)

lemma py_add_number: "is_number a \<Longrightarrow> is_number b \<Longrightarrow> \<exists>c. py_add a b = Inr c"
  by (auto simp: py_add_def split: option.splits)

subsection \<open>UTF-8 and hexadecimal digits\<close>

definition byte :: "nat \<Rightarrow> char" where
  "byte n = char_of n"

definition utf8 :: "nat \<Rightarrow> string" where
  "utf8 n =
     (if n < 128 then [byte n]
      else if n < 2048 then [byte (192 + n div 64), byte (128 + n mod 64)]
      else if n < 65536 then
        [byte (224 + n div 4096), byte (128 + n div 64 mod 64), byte (128 + n mod 64)]
      else [byte (240 + n div 262144), byte (128 + n div 4096 mod 64),
            byte (128 + n div 64 mod 64), byte (128 + n mod 64)])"

definition code :: "char \<Rightarrow> nat" where
  "code c = of_char c"

definition is_digit :: "char \<Rightarrow> bool" where
  "is_digit c \<longleftrightarrow> 48 \<le> code c \<and> code c \<le> 57"

definition hex_digit :: "char \<Rightarrow> nat option" where
  "hex_digit c =
     (let n = code c in
      if 48 \<le> n \<and> n \<le> 57 then Some (n - 48)
      else if 97 \<le> n \<and> n \<le> 102 then Some (n - 87)
      else if 65 \<le> n \<and> n \<le> 70 then Some (n - 55)
      else None)"

definition hex4 :: "string \<Rightarrow> (nat \<times> string) option" where
  "hex4 s =
     (case s of
        a # b # c # d # rest \<Rightarrow>
          (case (hex_digit a, hex_digit b, hex_digit c, hex_digit d) of
             (Some w, Some x, Some y, Some z) \<Rightarrow> Some (4096 * w + 256 * x + 16 * y + z, rest)
           | _ \<Rightarrow> None)
      | _ \<Rightarrow> None)"

lemma hex4_length: "hex4 s = Some (n, r) \<Longrightarrow> length r < length s"
  by (auto simp: hex4_def split: list.splits option.splits)

definition dec_value :: "string \<Rightarrow> nat" where
  "dec_value ds = foldl (\<lambda>n c. 10 * n + (code c - 48)) 0 ds"

subsection \<open>JSON strings\<close>

definition is_json_ws :: "char \<Rightarrow> bool" where
  "is_json_ws c \<longleftrightarrow> code c \<in> {9, 10, 13, 32}"

definition skip_ws :: "string \<Rightarrow> string" where
  "skip_ws s = dropWhile is_json_ws s"

lemma skip_ws_length: "length (skip_ws s) \<le> length s"
  by (simp add: skip_ws_def length_dropWhile_le)

text \<open>The text after a backslash: the decoded characters and what follows.\<close>

definition unescape :: "string \<Rightarrow> (string \<times> string) option" where
  "unescape s =
     (case s of
        [] \<Rightarrow> None
      | e # ds \<Rightarrow>
        if e = CHR 0x22 \<or> e = CHR 0x5C \<or> e = CHR ''/'' then Some ([e], ds)
        else if e = CHR ''b'' then Some ([CHR 0x08], ds)
        else if e = CHR ''f'' then Some ([CHR 0x0C], ds)
        else if e = CHR ''n'' then Some ([CHR 0x0A], ds)
        else if e = CHR ''r'' then Some ([CHR 0x0D], ds)
        else if e = CHR ''t'' then Some ([CHR 0x09], ds)
        else if e = CHR ''u'' then
          (case hex4 ds of
             None \<Rightarrow> None
           | Some (hi, r) \<Rightarrow>
             (case r of
                b # u # r1 \<Rightarrow>
                  if 55296 \<le> hi \<and> hi \<le> 56319 \<and> b = CHR 0x5C \<and> u = CHR ''u'' then
                    (case hex4 r1 of
                       Some (lo, r2) \<Rightarrow>
                         if 56320 \<le> lo \<and> lo \<le> 57343
                         then Some (utf8 (65536 + 1024 * (hi - 55296) + (lo - 56320)), r2)
                         else Some (utf8 hi, r)
                     | None \<Rightarrow> None)
                  else Some (utf8 hi, r)
              | _ \<Rightarrow> Some (utf8 hi, r)))
        else None)"

lemma unescape_length: "unescape s = Some (c, r) \<Longrightarrow> length r < length s"
  by (force simp: unescape_def dest: hex4_length split: list.splits if_splits option.splits)

function json_string :: "string \<Rightarrow> (string \<times> string) option" where
  "json_string s =
     (case s of
        [] \<Rightarrow> None
      | c # cs \<Rightarrow>
        if c = CHR 0x22 then Some ([], cs)
        else if c = CHR 0x5C then
          (case unescape cs of
             None \<Rightarrow> None
           | Some (d, r) \<Rightarrow>
             (case json_string r of None \<Rightarrow> None | Some (t, r') \<Rightarrow> Some (d @ t, r')))
        else if code c < 32 then None
        else (case json_string cs of None \<Rightarrow> None | Some (t, r') \<Rightarrow> Some (c # t, r')))"
  by pat_completeness auto
termination
  by (relation "measure length") (auto dest: unescape_length)

declare json_string.simps [simp del]

lemma json_string_length: "json_string s = Some (t, r) \<Longrightarrow> length r < length s"
proof (induction s arbitrary: t r rule: json_string.induct)
  case (1 s)
  then show ?case
    by (subst (asm) (3) json_string.simps)
      (fastforce dest: unescape_length split: list.splits if_splits option.splits)
qed

subsection \<open>JSON numbers and literals\<close>

fun strip_prefix :: "string \<Rightarrow> string \<Rightarrow> string option" where
  "strip_prefix [] s = Some s"
| "strip_prefix (p # ps) [] = None"
| "strip_prefix (p # ps) (c # cs) = (if p = c then strip_prefix ps cs else None)"

lemma strip_prefix_length: "strip_prefix p s = Some r \<Longrightarrow> length s = length p + length r"
  by (induction p s rule: strip_prefix.induct) (auto split: if_splits)

text \<open>
  The number pattern of the decoder: an optional minus sign, a zero or digits with no leading zero,
  then an optional fraction and an optional exponent, each taken only when complete.
\<close>

definition scan_int :: "string \<Rightarrow> (string \<times> string) option" where
  "scan_int s =
     (case s of
        [] \<Rightarrow> None
      | c # cs \<Rightarrow>
        if c = CHR ''0'' then Some ([c], cs)
        else if is_digit c then Some (takeWhile is_digit s, dropWhile is_digit s)
        else None)"

definition scan_frac :: "string \<Rightarrow> (string \<times> string) option" where
  "scan_frac s =
     (case s of
        c # d # ds \<Rightarrow>
          if c = CHR ''.'' \<and> is_digit d
          then Some (takeWhile is_digit (d # ds), dropWhile is_digit (d # ds)) else None
      | _ \<Rightarrow> None)"

definition scan_exp :: "string \<Rightarrow> (int \<times> string) option" where
  "scan_exp s =
     (case s of
        e # r \<Rightarrow>
          if e = CHR ''e'' \<or> e = CHR ''E'' then
            let (neg, ds) = (case r of
                   [] \<Rightarrow> (False, r)
                 | g # ds \<Rightarrow> if g = CHR ''-'' then (True, ds)
                             else if g = CHR ''+'' then (False, ds) else (False, r));
                k = int (dec_value (takeWhile is_digit ds))
            in if ds \<noteq> [] \<and> is_digit (hd ds)
               then Some (if neg then - k else k, dropWhile is_digit ds) else None
          else None
      | [] \<Rightarrow> None)"

definition pow10 :: "int \<Rightarrow> rat" where
  "pow10 k = (if 0 \<le> k then 10 ^ nat k else 1 / 10 ^ nat (- k))"

definition json_number :: "string \<Rightarrow> (pyval \<times> string) option" where
  "json_number s =
     (let (neg, s1) = (case s of c # cs \<Rightarrow> if c = CHR ''-'' then (True, cs) else (False, s)
                       | [] \<Rightarrow> (False, s)) in
      case scan_int s1 of
        None \<Rightarrow> None
      | Some (ds, r1) \<Rightarrow>
        let i = int (dec_value ds);
            (frac, r2) = (case scan_frac r1 of None \<Rightarrow> (None, r1) | Some (f, r) \<Rightarrow> (Some f, r));
            (ex, r3) = (case scan_exp r2 of None \<Rightarrow> (None, r2) | Some (k, r) \<Rightarrow> (Some k, r))
        in if frac = None \<and> ex = None then Some (PInt (if neg then - i else i), r3)
           else let m = of_int i + (case frac of None \<Rightarrow> 0
                      | Some f \<Rightarrow> of_nat (dec_value f) / 10 ^ length f);
                    q = m * (case ex of None \<Rightarrow> 1 | Some k \<Rightarrow> pow10 k)
                in Some (PFloat (if neg then - q else q), r3))"

definition json_literal :: "string \<Rightarrow> (pyval \<times> string) option" where
  "json_literal s =
     (case strip_prefix ''null'' s of Some r \<Rightarrow> Some (PNone, r) | None \<Rightarrow>
      case strip_prefix ''true'' s of Some r \<Rightarrow> Some (PBool True, r) | None \<Rightarrow>
      case strip_prefix ''false'' s of Some r \<Rightarrow> Some (PBool False, r) | None \<Rightarrow>
      case json_number s of Some x \<Rightarrow> Some x | None \<Rightarrow>
      case strip_prefix ''NaN'' s of Some r \<Rightarrow> Some (PNaN, r) | None \<Rightarrow>
      case strip_prefix ''Infinity'' s of Some r \<Rightarrow> Some (PInf True, r) | None \<Rightarrow>
      case strip_prefix ''-Infinity'' s of Some r \<Rightarrow> Some (PInf False, r) | None \<Rightarrow> None)"

subsection \<open>JSON documents\<close>

fun json_value :: "nat \<Rightarrow> string \<Rightarrow> (pyval \<times> string) option"
  and json_elems :: "nat \<Rightarrow> string \<Rightarrow> (pyval list \<times> string) option"
  and json_members :: "nat \<Rightarrow> string \<Rightarrow> ((string \<times> pyval) list \<times> string) option" where
  "json_value 0 s = None"
| "json_value (Suc n) s =
     (case s of
        [] \<Rightarrow> None
      | c # cs \<Rightarrow>
        if c = CHR 0x22 then map_option (\<lambda>(t, r). (PStr t, r)) (json_string cs)
        else if c = CHR ''{'' then
          (case skip_ws cs of
             d # r \<Rightarrow> if d = CHR ''}'' then Some (PDict [], r)
                      else map_option (\<lambda>(ms, r'). (PDict (AList.updates (map fst ms) (map snd ms) []), r'))
                             (json_members n (d # r))
           | [] \<Rightarrow> None)
        else if c = CHR ''['' then
          (case skip_ws cs of
             d # r \<Rightarrow> if d = CHR '']'' then Some (PList [], r)
                      else map_option (\<lambda>(es, r'). (PList es, r')) (json_elems n (d # r))
           | [] \<Rightarrow> None)
        else json_literal s)"
| "json_elems 0 s = None"
| "json_elems (Suc n) s =
     (case json_value n s of
        None \<Rightarrow> None
      | Some (v, r) \<Rightarrow>
        (case skip_ws r of
           [] \<Rightarrow> None
         | c # cs \<Rightarrow>
           if c = CHR '']'' then Some ([v], cs)
           else if c = CHR '','' then map_option (\<lambda>(es, r'). (v # es, r')) (json_elems n (skip_ws cs))
           else None))"
| "json_members 0 s = None"
| "json_members (Suc n) s =
     (case s of
        [] \<Rightarrow> None
      | q # qs \<Rightarrow>
        if q \<noteq> CHR 0x22 then None
        else (case json_string qs of
          None \<Rightarrow> None
        | Some (k, r) \<Rightarrow>
          (case skip_ws r of
             [] \<Rightarrow> None
           | d # ds \<Rightarrow>
             if d \<noteq> CHR '':'' then None
             else (case json_value n (skip_ws ds) of
               None \<Rightarrow> None
             | Some (v, r1) \<Rightarrow>
               (case skip_ws r1 of
                  [] \<Rightarrow> None
                | c # cs \<Rightarrow>
                  if c = CHR ''}'' then Some ([(k, v)], cs)
                  else if c = CHR '','' then
                    map_option (\<lambda>(ms, r'). ((k, v) # ms, r')) (json_members n (skip_ws cs))
                  else None)))))"

text \<open>
  \<^verbatim>\<open>json.loads\<close> on a string: \<^term>\<open>None\<close> when it raises. Every nested call of the parser
  drops at least one character for each two units of fuel.
\<close>

definition json_loads :: "string \<Rightarrow> pyval option" where
  "json_loads s =
     (case json_value (2 * length s + 2) (skip_ws s) of
        Some (v, r) \<Rightarrow> if skip_ws r = [] then Some v else None
      | None \<Rightarrow> None)"

subsection \<open>The fuel of the parser is enough\<close>

lemma scan_int_length: "scan_int s = Some (d, r) \<Longrightarrow> length r < length s"
  by (auto simp: scan_int_def length_dropWhile_le less_Suc_eq_le split: list.splits if_splits)

lemma scan_frac_length: "scan_frac s = Some (d, r) \<Longrightarrow> length r \<le> length s"
  by (auto simp: scan_frac_def split: list.splits if_splits)
    (meson le_SucI length_dropWhile_le)

lemma scan_exp_length: "scan_exp s = Some (d, r) \<Longrightarrow> length r \<le> length s"
  by (auto simp: scan_exp_def Let_def split: list.splits if_splits prod.splits)
    (meson le_SucI le_trans length_dropWhile_le length_Cons order_refl)+

lemma json_number_length: "json_number s = Some (v, r) \<Longrightarrow> length r < length s"
  unfolding json_number_def Let_def
  by (fastforce dest: scan_int_length scan_frac_length scan_exp_length
      split: list.splits if_splits option.splits prod.splits)

lemma json_literal_length: "json_literal s = Some (v, r) \<Longrightarrow> length r < length s"
  by (auto simp: json_literal_def dest!: strip_prefix_length json_number_length
      split: option.splits)

lemma skip_ws_Cons_length: "skip_ws s = c # r \<Longrightarrow> length r < length s"
  using skip_ws_length [of s] by simp

lemma skip_ws_less: "length s < n \<Longrightarrow> length (skip_ws s) < n"
  using skip_ws_length [of s] by simp

lemma json_lengths:
  shows json_value_length: "json_value n s = Some (v, r) \<Longrightarrow> length r < length s"
    and json_elems_length: "json_elems n s = Some (vs, r) \<Longrightarrow> length r < length s"
    and json_members_length: "json_members n s = Some (ms, r) \<Longrightarrow> length r < length s"
proof (induction n s and n s and n s arbitrary: v r and vs r and ms r
    rule: json_value_json_elems_json_members.induct)
  case (2 n s)
  then show ?case
    by (fastforce dest: json_string_length json_literal_length skip_ws_Cons_length
        split: list.splits if_splits option.splits)
next
  case (4 n s)
  from "4.prems" obtain v1 r1 c cs where v1: "json_value n s = Some (v1, r1)"
    and c: "skip_ws r1 = c # cs"
    by (auto split: option.splits list.splits)
  have l: "length cs < length s"
    using "4.IH"(1) [OF v1] skip_ws_Cons_length [OF c] by simp
  show ?case
  proof (cases "c = CHR '']''")
    case True
    with "4.prems" v1 c l show ?thesis by simp
  next
    case False
    with "4.prems" v1 c obtain es where "c = CHR '',''" "json_elems n (skip_ws cs) = Some (es, r)"
      by (auto split: if_splits)
    then have "length r < length (skip_ws cs)" using "4.IH"(2) [OF v1 refl c] False by simp
    then show ?thesis using l skip_ws_length [of cs] by simp
  qed
next
  case (6 n s)
  from "6.prems" obtain q qs k r0 d ds v1 r1 c cs where s: "s = q # qs" "\<not> q \<noteq> CHR 0x22"
    and k: "json_string qs = Some (k, r0)" and d: "skip_ws r0 = d # ds" "\<not> d \<noteq> CHR '':''"
    and v1: "json_value n (skip_ws ds) = Some (v1, r1)" and c: "skip_ws r1 = c # cs"
    by (auto split: option.splits list.splits if_splits)
  have "length r1 < length (skip_ws ds)" using "6.IH"(1) [OF s k refl d v1] .
  then have l: "length cs < length s"
    using s json_string_length [OF k] skip_ws_Cons_length [OF d(1)] skip_ws_Cons_length [OF c]
      skip_ws_length [of ds] by simp
  show ?case
  proof (cases "c = CHR ''}''")
    case True
    with "6.prems" s k d v1 c l show ?thesis by simp
  next
    case False
    with "6.prems" s k d v1 c obtain es
      where e: "c = CHR '',''" "json_members n (skip_ws cs) = Some (es, r)"
      by (auto split: if_splits)
    then have "length r < length (skip_ws cs)"
      using "6.IH"(2) [OF s k refl d v1 refl c False e(1)] by simp
    then show ?thesis using l skip_ws_length [of cs] by simp
  qed
qed simp_all

lemma json_fuel_step:
  "(\<forall>s. 2 * length s + 1 \<le> n \<longrightarrow> json_value (Suc n) s = json_value n s) \<and>
   (\<forall>s. 2 * length s + 2 \<le> n \<longrightarrow> json_elems (Suc n) s = json_elems n s) \<and>
   (\<forall>s. 2 * length s + 2 \<le> n \<longrightarrow> json_members (Suc n) s = json_members n s)"
proof (induction n)
  case (Suc n)
  have V: "json_value (Suc n) s = json_value n s" if "2 * length s + 1 \<le> n" for s
    using Suc that by blast
  have E: "json_elems (Suc n) s = json_elems n s" if "2 * length s + 2 \<le> n" for s
    using Suc that by blast
  have M: "json_members (Suc n) s = json_members n s" if "2 * length s + 2 \<le> n" for s
    using Suc that by blast
  show ?case
  proof (intro conjI allI impI)
    fix s :: string assume s: "2 * length s + 1 \<le> Suc n"
    show "json_value (Suc (Suc n)) s = json_value (Suc n) s"
    proof (cases s)
      case (Cons c cs)
      have "2 * length (d # r) + 2 \<le> n" if "skip_ws cs = d # r" for d r
        using skip_ws_Cons_length [OF that] s Cons by simp
      then show ?thesis
        using Cons E M by (auto simp del: json_elems.simps json_members.simps split: list.split)
    qed simp
  next
    fix s :: string assume s: "2 * length s + 2 \<le> Suc n"
    have "2 * length (skip_ws cs) + 2 \<le> n" if "json_value n s = Some (v, r)" "skip_ws r = c # cs"
      for v r c cs
      using json_value_length [OF that(1)] skip_ws_Cons_length [OF that(2)] skip_ws_length [of cs] s
      by simp
    then show "json_elems (Suc (Suc n)) s = json_elems (Suc n) s"
      using V [of s] s E
      by (simp only: json_elems.simps) (auto split: option.split list.split)
  next
    fix s :: string assume s: "2 * length s + 2 \<le> Suc n"
    have 1: "2 * length (skip_ws ds) + 1 \<le> n"
      if "s = q # qs" "json_string qs = Some (k, r)" "skip_ws r = d # ds" for q qs k r d ds
      using json_string_length [OF that(2)] skip_ws_Cons_length [OF that(3)]
        skip_ws_length [of ds] s that(1) by simp
    have 2: "2 * length (skip_ws cs) + 2 \<le> n"
      if "s = q # qs" "json_string qs = Some (k, r)" "skip_ws r = d # ds"
        "json_value n (skip_ws ds) = Some (v, r1)" "skip_ws r1 = c # cs" for q qs k r d ds v r1 c cs
      using json_value_length [OF that(4)] skip_ws_Cons_length [OF that(5)] skip_ws_length [of cs]
        1 [OF that(1,2,3)] by simp
    show "json_members (Suc (Suc n)) s = json_members (Suc n) s"
      unfolding json_members.simps(2) [of "Suc n" s] json_members.simps(2) [of n s]
      by (intro list.case_cong option.case_cong if_cong prod.case_cong refl V
          arg_cong [of _ _ "map_option _"] M) (simp_all only:, metis 1, metis 2)
  qed
qed simp

lemma json_value_enough_fuel:
  assumes "2 * length s + 1 \<le> n"
  shows "json_value (n + k) s = json_value n s"
proof (induction k)
  case (Suc k)
  have "json_value (Suc (n + k)) s = json_value (n + k) s"
    using json_fuel_step [of "n + k"] assms by (metis add_leD1 le_add1 le_trans)
  with Suc show ?case by simp
qed simp

lemma json_loads_fuel:
  assumes "2 * length s + 2 \<le> n"
  shows "json_loads s =
     (case json_value n (skip_ws s) of
        Some (v, r) \<Rightarrow> if skip_ws r = [] then Some v else None
      | None \<Rightarrow> None)"
proof -
  obtain k where n: "n = 2 * length s + 2 + k" using assms nat_le_iff_add by auto
  have "json_value n (skip_ws s) = json_value (2 * length s + 2) (skip_ws s)"
    unfolding n using skip_ws_length [of s] by (intro json_value_enough_fuel) simp
  then show ?thesis by (simp only: json_loads_def)
qed

end
