(* ===== verification/KvStore.thy ===== *)
theory KvStore
  imports PyValue
begin

text \<open>
  The interface between the caches and the code that keeps its state in them: what a reader sees
  after writes, and the lemmas on read-modify-write sequences that the scheduler and the counters of
  the router rely on. \<open>view\<close> is what a read makes of a stored value, \<open>fits\<close> says that the cache
  takes a value and \<open>roomy\<close> that a write evicts nothing.
\<close>

locale kv_store =
  fixes put :: "time \<Rightarrow> string \<Rightarrow> pyval \<Rightarrow> 'c \<Rightarrow> 'c"
    and peek :: "time \<Rightarrow> string \<Rightarrow> 'c \<Rightarrow> pyval"
    and after_get :: "time \<Rightarrow> string \<Rightarrow> 'c \<Rightarrow> 'c"
    and view :: "pyval \<Rightarrow> pyval"
    and fits :: "'c \<Rightarrow> pyval \<Rightarrow> bool"
    and roomy :: "'c \<Rightarrow> bool"
    and invar :: "'c \<Rightarrow> bool"
  assumes put_invar: "invar c \<Longrightarrow> invar (put now k v c)"
    and get_invar: "invar c \<Longrightarrow> invar (after_get now k c)"
    and peek_put_same: "invar c \<Longrightarrow> fits c v \<Longrightarrow> peek now k (put now k v c) = view v"
    and peek_put_other:
      "invar c \<Longrightarrow> roomy c \<Longrightarrow> k' \<noteq> k \<Longrightarrow> peek now' k' (put now k v c) = peek now' k' c"
    and peek_put_evict:
      "invar c \<Longrightarrow> k' \<noteq> k \<Longrightarrow> peek now' k' (put now k v c) \<in> {peek now' k' c, PNone}"
    and peek_get: "invar c \<Longrightarrow> peek now k' (after_get now k c) = peek now k' c"
    and fits_put: "invar c \<Longrightarrow> fits (put now k v c) w = fits c w"
    and fits_get: "invar c \<Longrightarrow> fits (after_get now k c) w = fits c w"
    and roomy_get: "invar c \<Longrightarrow> roomy c \<Longrightarrow> roomy (after_get now k c)"
begin

text \<open>Read a key and write back a function of what was read.\<close>

definition rmw :: "time \<Rightarrow> string \<Rightarrow> (pyval \<Rightarrow> pyval) \<Rightarrow> 'c \<Rightarrow> 'c" where
  "rmw now k f c = put now k (f (peek now k c)) (after_get now k c)"

lemma rmw_invar: "invar c \<Longrightarrow> invar (rmw now k f c)"
  by (simp add: rmw_def put_invar get_invar)

lemma fits_rmw: "invar c \<Longrightarrow> fits (rmw now k f c) w = fits c w"
  by (simp add: rmw_def fits_put fits_get get_invar)

lemma rmw_same:
  "invar c \<Longrightarrow> fits c (f (peek now k c)) \<Longrightarrow> peek now k (rmw now k f c) = view (f (peek now k c))"
  by (simp add: rmw_def peek_put_same get_invar fits_get)

lemma rmw_other:
  "invar c \<Longrightarrow> roomy c \<Longrightarrow> k' \<noteq> k \<Longrightarrow> peek now k' (rmw now k f c) = peek now k' c"
  by (simp add: rmw_def peek_put_other get_invar roomy_get peek_get)

lemma rmw_evict: "invar c \<Longrightarrow> k' \<noteq> k \<Longrightarrow> peek now k' (rmw now k f c) \<in> {peek now k' c, PNone}"
  unfolding rmw_def by (metis get_invar peek_get peek_put_evict)

text \<open>A sequence of updates of one key at one time composes as the functions do.\<close>

lemma rmw_sequence:
  assumes "invar c" "\<And>v. fits c v" "\<And>v. view (g v) = g v"
    and "\<And>f. f \<in> set fs \<Longrightarrow> \<exists>h. f = g \<circ> h"
    and "peek now k c = g a"
  shows "peek now k (fold (rmw now k) fs c) = fold (\<lambda>f v. f v) fs (g a)"
  using assms(1,2,4,5)
proof (induction fs arbitrary: c a)
  case (Cons f fs)
  obtain h where f: "f = g \<circ> h" using Cons.prems(3) by (metis list.set_intros(1))
  have "peek now k (rmw now k f c) = view (f (g a))"
    using rmw_same [OF Cons.prems(1), of f now k] Cons.prems(2,4) by simp
  then have p: "peek now k (rmw now k f c) = g (h (g a))" using f assms(3) by simp
  have "peek now k (fold (rmw now k) fs (rmw now k f c)) = fold (\<lambda>f v. f v) fs (g (h (g a)))"
    using Cons.IH [OF rmw_invar [OF Cons.prems(1)] _ _ p] Cons.prems(2,3) fits_rmw [OF Cons.prems(1)]
    by simp
  then show ?case using f by simp
qed simp

end

end
