(* ===== verification/InMemoryCache.thy ===== *)
theory InMemoryCache
  imports PyHeapq KvStore
begin

text \<open>
  \<^verbatim>\<open>caching/in_memory_cache.py\<close>: the bounded in-memory cache with time-to-live. The record
  \<open>imc\<close> is the object's state; each method is a function on it that takes the value of
  \<^verbatim>\<open>time.time()\<close> (one reading per call) and returns the new state with its result. The size of
  an object in the interpreter is a parameter (\<open>py_runtime\<close>). The theory shows that the dicts and
  the heap agree in every reachable state, that eviction never raises, bounds the cache and drops the
  entries that expire first, and what a read returns after a write.
\<close>

subsection \<open>State\<close>

record imc =
  max_size_in_memory :: int
  default_ttl :: rat
  max_size_per_item :: int
  cache_dict :: "(string, pyval) dict"
  ttl_dict :: "(string, time) dict"
  expiration_heap :: "(time \<times> string) list"

text \<open>
  What the interpreter knows of an object: \<^verbatim>\<open>len(str(value))\<close> (\<^term>\<open>None\<close> when \<^verbatim>\<open>str\<close>
  raises) and \<^verbatim>\<open>value.__sizeof__()\<close> in bytes.
\<close>

record py_runtime =
  str_len :: "pyval \<Rightarrow> int option"
  sizeof :: "pyval \<Rightarrow> int"

definition MAX_SIZE_PER_ITEM_IN_MEMORY_CACHE_IN_KB :: int where
  "MAX_SIZE_PER_ITEM_IN_MEMORY_CACHE_IN_KB = 512"

definition imc_init :: "int option \<Rightarrow> rat option \<Rightarrow> int option \<Rightarrow> imc" where
  "imc_init max_size dttl max_item =
     \<lparr>max_size_in_memory = (case max_size of None \<Rightarrow> 200 | Some n \<Rightarrow> n),
      default_ttl = or_num dttl 600,
      max_size_per_item = or_num max_item MAX_SIZE_PER_ITEM_IN_MEMORY_CACHE_IN_KB,
      cache_dict = [], ttl_dict = [], expiration_heap = []\<rparr>"

subsection \<open>Operations\<close>

definition check_value_size :: "py_runtime \<Rightarrow> imc \<Rightarrow> pyval \<Rightarrow> bool" where
  "check_value_size rt c v =
     (let by_size = (rat_of_int (sizeof rt v) / 1024 \<le> rat_of_int (max_size_per_item c)) in
      if is_primitive v then
        (case str_len rt v of
           None \<Rightarrow> False
         | Some n \<Rightarrow> n < max_size_per_item c * MAX_SIZE_PER_ITEM_IN_MEMORY_CACHE_IN_KB \<or> by_size)
      else by_size)"

definition is_key_expired :: "time \<Rightarrow> string \<Rightarrow> imc \<Rightarrow> bool" where
  "is_key_expired now key c = (case map_of (ttl_dict c) key of None \<Rightarrow> False | Some t \<Rightarrow> now > t)"

definition remove_key :: "string \<Rightarrow> imc \<Rightarrow> imc" where
  "remove_key key c =
     c\<lparr>cache_dict := AList.delete key (cache_dict c), ttl_dict := AList.delete key (ttl_dict c)\<rparr>"

definition popped :: "'a::linorder list \<Rightarrow> 'a list" where
  "popped h = (case heappop h of Inl _ \<Rightarrow> h | Inr (_, h') \<Rightarrow> h')"

lemma popped_length: "h \<noteq> [] \<Longrightarrow> length (popped h) < length h"
  using heappop_nonempty [of h] heappop_length [of h] by (force simp: popped_def)

lemma popped_length_Cons [simp]: "length (popped (x # xs)) < Suc (length xs)"
  using popped_length [of "x # xs"] by simp

text \<open>Step 1 of \<^verbatim>\<open>evict_cache\<close>: drop outdated and expired entries from the front of the heap.\<close>

function evict_expired :: "time \<Rightarrow> imc \<Rightarrow> imc" where
  "evict_expired now c =
     (case expiration_heap c of
        [] \<Rightarrow> c
      | (expiration_time, key) # _ \<Rightarrow>
        if map_of (ttl_dict c) key \<noteq> Some expiration_time
        then evict_expired now (c\<lparr>expiration_heap := popped (expiration_heap c)\<rparr>)
        else if expiration_time \<le> now
        then evict_expired now (remove_key key (c\<lparr>expiration_heap := popped (expiration_heap c)\<rparr>))
        else c)"
  by pat_completeness auto
termination
  by (relation "measure (\<lambda>(now, c). length (expiration_heap c))")
    (auto simp: remove_key_def)

text \<open>Step 2: pop the earliest entries until there is room; the pop raises on an empty heap.\<close>

function evict_full :: "imc \<Rightarrow> unit pyres \<times> imc" where
  "evict_full c =
     (if int (length (cache_dict c)) \<ge> max_size_in_memory c then
        (case heappop (expiration_heap c) of
           Inl e \<Rightarrow> (Inl e, c)
         | Inr ((expiration_time, key), h) \<Rightarrow>
           let c1 = c\<lparr>expiration_heap := h\<rparr> in
           evict_full (if map_of (ttl_dict c1) key = Some expiration_time then remove_key key c1 else c1))
      else (Inr (), c))"
  by pat_completeness auto
termination
  by (relation "measure (\<lambda>c. length (expiration_heap c))")
    (auto simp: remove_key_def Let_def dest: heappop_length)

declare evict_expired.simps [simp del] evict_full.simps [simp del]

definition evict_cache :: "time \<Rightarrow> imc \<Rightarrow> unit pyres \<times> imc" where
  "evict_cache now c = evict_full (evict_expired now c)"

definition allow_ttl_override :: "time \<Rightarrow> string \<Rightarrow> imc \<Rightarrow> bool" where
  "allow_ttl_override now key c =
     (case map_of (ttl_dict c) key of None \<Rightarrow> True | Some t \<Rightarrow> t < now)"

definition imc_set_cache ::
  "py_runtime \<Rightarrow> time \<Rightarrow> string \<Rightarrow> pyval \<Rightarrow> rat option \<Rightarrow> imc \<Rightarrow> unit pyres \<times> imc" where
  "imc_set_cache rt now key value ttl c =
     (if max_size_in_memory c = 0 then (Inr (), c)
      else case (if int (length (cache_dict c)) \<ge> max_size_in_memory c then evict_cache now c
                 else (Inr (), c)) of
        (Inl e, c1) \<Rightarrow> (Inl e, c1)
      | (Inr _, c1) \<Rightarrow>
        if \<not> check_value_size rt c1 value then (Inr (), c1)
        else let c2 = c1\<lparr>cache_dict := AList.update key value (cache_dict c1)\<rparr> in
          if allow_ttl_override now key c2 then
            let t = now + (case ttl of Some x \<Rightarrow> x | None \<Rightarrow> default_ttl c2) in
            (Inr (), c2\<lparr>ttl_dict := AList.update key t (ttl_dict c2),
                        expiration_heap := heappush (expiration_heap c2) (t, key)\<rparr>)
          else (Inr (), c2))"

fun imc_set_cache_pipeline ::
  "py_runtime \<Rightarrow> time \<Rightarrow> (string \<times> pyval) list \<Rightarrow> rat option \<Rightarrow> imc \<Rightarrow> unit pyres \<times> imc" where
  "imc_set_cache_pipeline rt now [] ttl c = (Inr (), c)"
| "imc_set_cache_pipeline rt now ((key, value) # rest) ttl c =
     (case imc_set_cache rt now key value ttl c of
        (Inl e, c1) \<Rightarrow> (Inl e, c1)
      | (Inr _, c1) \<Rightarrow> imc_set_cache_pipeline rt now rest ttl c1)"

definition evict_element_if_expired :: "time \<Rightarrow> string \<Rightarrow> imc \<Rightarrow> bool \<times> imc" where
  "evict_element_if_expired now key c =
     (if is_key_expired now key c then (True, remove_key key c) else (False, c))"

text \<open>
  \<^verbatim>\<open>json.loads(original)\<close> with the fall-back to the original on any exception: it raises on
  everything that is not a string, and on a string that is not a JSON document.
\<close>

definition json_view :: "pyval \<Rightarrow> pyval" where
  "json_view v =
     (case v of
        PStr s \<Rightarrow> (case json_loads s of Some w \<Rightarrow> w | None \<Rightarrow> v)
      | _ \<Rightarrow> v)"

definition imc_get_cache :: "time \<Rightarrow> string \<Rightarrow> imc \<Rightarrow> pyval \<times> imc" where
  "imc_get_cache now key c =
     (case map_of (cache_dict c) key of
        None \<Rightarrow> (PNone, c)
      | Some original \<Rightarrow>
        (case evict_element_if_expired now key c of
           (True, c1) \<Rightarrow> (PNone, c1)
         | (False, c1) \<Rightarrow> (json_view original, c1)))"

fun imc_batch_get_cache :: "time \<Rightarrow> string list \<Rightarrow> imc \<Rightarrow> pyval list \<times> imc" where
  "imc_batch_get_cache now [] c = ([], c)"
| "imc_batch_get_cache now (k # ks) c =
     (case imc_get_cache now k c of
        (v, c1) \<Rightarrow> (case imc_batch_get_cache now ks c1 of (vs, c2) \<Rightarrow> (v # vs, c2)))"

definition imc_increment_cache ::
  "py_runtime \<Rightarrow> time \<Rightarrow> string \<Rightarrow> pyval \<Rightarrow> rat option \<Rightarrow> imc \<Rightarrow> pyval pyres \<times> imc" where
  "imc_increment_cache rt now key value ttl c =
     (case imc_get_cache now key c of
        (v, c1) \<Rightarrow>
        (case py_add (py_or v (PInt 0)) value of
           Inl e \<Rightarrow> (Inl e, c1)
         | Inr w \<Rightarrow>
           (case imc_set_cache rt now key w ttl c1 of
              (Inl e, c2) \<Rightarrow> (Inl e, c2)
            | (Inr _, c2) \<Rightarrow> (Inr w, c2))))"

fun imc_increment_pipeline ::
  "py_runtime \<Rightarrow> time \<Rightarrow> (string \<times> pyval) list \<Rightarrow> imc \<Rightarrow> pyval list pyres \<times> imc" where
  "imc_increment_pipeline rt now [] c = (Inr [], c)"
| "imc_increment_pipeline rt now ((k, v) # rest) c =
     (case imc_increment_cache rt now k v None c of
        (Inl e, c1) \<Rightarrow> (Inl e, c1)
      | (Inr w, c1) \<Rightarrow>
        (case imc_increment_pipeline rt now rest c1 of
           (Inl e, c2) \<Rightarrow> (Inl e, c2)
         | (Inr ws, c2) \<Rightarrow> (Inr (w # ws), c2)))"

text \<open>
  \<^verbatim>\<open>async_set_cache_sadd\<close>. A set that the cache already holds is extended in place, so the
  additions before a failing one stay in the cached object; \<^verbatim>\<open>add\<close> raises on an unhashable value
  and on an object that is not a set. Numbers that are equal are one element.
\<close>

definition same_key :: "pyval \<Rightarrow> pyval \<Rightarrow> bool" where
  "same_key a b = (case (as_rat a, as_rat b) of (Some x, Some y) \<Rightarrow> x = y | _ \<Rightarrow> a = b)"

fun set_add_all :: "pyval list \<Rightarrow> pyval list \<Rightarrow> unit pyres \<times> pyval list" where
  "set_add_all xs [] = (Inr (), xs)"
| "set_add_all xs (v # vs) =
     (if \<not> hashable v then (Inl TypeError, xs)
      else set_add_all (if list_ex (same_key v) xs then xs else xs @ [v]) vs)"

definition imc_set_cache_sadd ::
  "py_runtime \<Rightarrow> time \<Rightarrow> string \<Rightarrow> pyval list \<Rightarrow> rat option \<Rightarrow> imc \<Rightarrow> pyval list pyres \<times> imc" where
  "imc_set_cache_sadd rt now key value ttl c =
     (let (v, c1) = imc_get_cache now key c;
          store = (\<lambda>w c'. case imc_set_cache rt now key w ttl c' of
                     (Inl e, c2) \<Rightarrow> (Inl e, c2)
                   | (Inr _, c2) \<Rightarrow> (Inr value, c2)) in
      if \<not> truthy v then
        (case set_add_all [] value of
           (Inl e, _) \<Rightarrow> (Inl e, c1)
         | (Inr _, ys) \<Rightarrow> store (PSet ys) c1)
      else (case v of
        PSet xs \<Rightarrow>
          (case set_add_all xs value of
             (r, ys) \<Rightarrow>
             let c2 = c1\<lparr>cache_dict := AList.update key (PSet ys) (cache_dict c1)\<rparr> in
             (case r of Inl e \<Rightarrow> (Inl e, c2) | Inr _ \<Rightarrow> store (PSet ys) c2))
      | _ \<Rightarrow> if value = [] then store v c1 else (Inl AttributeError, c1)))"

definition imc_flush_cache :: "imc \<Rightarrow> imc" where
  "imc_flush_cache c = c\<lparr>cache_dict := [], ttl_dict := [], expiration_heap := []\<rparr>"

definition imc_delete_cache :: "string \<Rightarrow> imc \<Rightarrow> imc" where
  "imc_delete_cache key c = remove_key key c"

definition imc_get_ttl :: "string \<Rightarrow> imc \<Rightarrow> time option" where
  "imc_get_ttl key c = map_of (ttl_dict c) key"

text \<open>\<^verbatim>\<open>xs[:n]\<close> with Python's meaning of a negative bound.\<close>

definition py_take :: "int \<Rightarrow> 'a list \<Rightarrow> 'a list" where
  "py_take n xs = (if 0 \<le> n then take (nat n) xs else take (length xs - nat (- n)) xs)"

definition imc_get_oldest_n_keys :: "int \<Rightarrow> imc \<Rightarrow> string list" where
  "imc_get_oldest_n_keys n c = map fst (py_take n (sort_key snd (ttl_dict c)))"

subsection \<open>Invariant\<close>

text \<open>
  The keys of the two dicts agree, every recorded expiry is in the heap (the heap may also hold
  outdated entries) and the cache is within its size.
\<close>

definition imc_inv :: "imc \<Rightarrow> bool" where
  "imc_inv c \<longleftrightarrow>
     dict_wf (cache_dict c) \<and> dict_wf (ttl_dict c) \<and>
     dom (map_of (cache_dict c)) = dom (map_of (ttl_dict c)) \<and>
     is_heap (expiration_heap c) \<and>
     (\<forall>k t. map_of (ttl_dict c) k = Some t \<longrightarrow> (t, k) \<in> set (expiration_heap c)) \<and>
     int (length (cache_dict c)) \<le> max 0 (max_size_in_memory c)"

text \<open>The invariant without the bound, which a write breaks for a moment.\<close>

definition imc_inv0 :: "imc \<Rightarrow> bool" where
  "imc_inv0 c \<longleftrightarrow>
     dict_wf (cache_dict c) \<and> dict_wf (ttl_dict c) \<and>
     dom (map_of (cache_dict c)) = dom (map_of (ttl_dict c)) \<and>
     is_heap (expiration_heap c) \<and>
     (\<forall>k t. map_of (ttl_dict c) k = Some t \<longrightarrow> (t, k) \<in> set (expiration_heap c))"

lemma imc_inv_iff:
  "imc_inv c \<longleftrightarrow> imc_inv0 c \<and> int (length (cache_dict c)) \<le> max 0 (max_size_in_memory c)"
  by (auto simp: imc_inv_def imc_inv0_def)

lemma imc_inv_init [inv_intros]: "imc_inv (imc_init m t i)"
  by (simp add: imc_inv_def imc_init_def heap_from_def)

lemma imc_inv0_remove_key [inv_intros]: "imc_inv0 c \<Longrightarrow> imc_inv0 (remove_key k c)"
  by (auto simp: imc_inv0_def remove_key_def dict_simps)

lemma remove_key_size: "length (cache_dict (remove_key k c)) \<le> length (cache_dict c)"
  by (simp add: remove_key_def length_delete_le)

lemma imc_inv_remove_key [inv_intros]: "imc_inv c \<Longrightarrow> imc_inv (remove_key k c)"
  using remove_key_size [of k c]
  by (auto simp: imc_inv_iff imc_inv0_remove_key) (simp_all add: remove_key_def)

lemma imc_inv0_keys:
  "imc_inv0 c \<Longrightarrow> map_of (cache_dict c) k = None \<longleftrightarrow> map_of (ttl_dict c) k = None"
  unfolding imc_inv0_def by (metis domIff)

lemma imc_inv0_entry:
  "imc_inv0 c \<Longrightarrow> map_of (ttl_dict c) k = Some t \<Longrightarrow> (t, k) \<in> set (expiration_heap c)"
  by (simp add: imc_inv0_def)

lemma popped_props:
  assumes "is_heap h" "h \<noteq> []"
  shows "is_heap (popped h)" "mset h = add_mset (h ! 0) (mset (popped h))"
    "set h = insert (h ! 0) (set (popped h))"
proof -
  obtain x h' where p: "heappop h = Inr (x, h')" using heappop_nonempty assms(2) by blast
  note pr = heappop_props [OF assms(1) p]
  show "is_heap (popped h)" "mset h = add_mset (h ! 0) (mset (popped h))"
    using pr p by (auto simp: popped_def)
  then show "set h = insert (h ! 0) (set (popped h))"
    by (metis set_mset_add_mset_insert set_mset_mset)
qed

lemma imc_inv0_pop_outdated:
  assumes "imc_inv0 c" "expiration_heap c = (e, k) # rest" "map_of (ttl_dict c) k \<noteq> Some e"
  shows "imc_inv0 (c\<lparr>expiration_heap := popped (expiration_heap c)\<rparr>)"
proof -
  have h: "is_heap (expiration_heap c)" using assms(1) by (simp add: imc_inv0_def)
  note pr = popped_props [OF h, unfolded assms(2), simplified]
  show ?thesis using assms pr by (auto simp: imc_inv0_def)
qed

lemma imc_inv0_pop_remove:
  assumes "imc_inv0 c" "expiration_heap c = (e, k) # rest"
  shows "imc_inv0 (remove_key k (c\<lparr>expiration_heap := popped (expiration_heap c)\<rparr>))"
proof -
  have h: "is_heap (expiration_heap c)" using assms(1) by (simp add: imc_inv0_def)
  note pr = popped_props [OF h, unfolded assms(2), simplified]
  show ?thesis using assms pr by (auto simp: imc_inv0_def remove_key_def dict_simps)
qed

subsection \<open>Eviction\<close>

text \<open>The entries whose expiry is after \<open>now\<close>.\<close>

definition unexpired :: "time \<Rightarrow> (string \<rightharpoonup> time) \<Rightarrow> string \<rightharpoonup> time" where
  "unexpired now m = (\<lambda>k. case m k of None \<Rightarrow> None | Some t \<Rightarrow> if t \<le> now then None else Some t)"

lemma evict_expired_correct:
  assumes "imc_inv0 c"
  shows "imc_inv0 (evict_expired now c) \<and>
     map_of (ttl_dict (evict_expired now c)) = unexpired now (map_of (ttl_dict c)) \<and>
     (\<forall>k. map_of (ttl_dict (evict_expired now c)) k \<noteq> None \<longrightarrow>
          map_of (cache_dict (evict_expired now c)) k = map_of (cache_dict c) k) \<and>
     length (cache_dict (evict_expired now c)) \<le> length (cache_dict c) \<and>
     max_size_in_memory (evict_expired now c) = max_size_in_memory c \<and>
     max_size_per_item (evict_expired now c) = max_size_per_item c \<and>
     default_ttl (evict_expired now c) = default_ttl c"
  using assms
proof (induction now c rule: evict_expired.induct)
  case (1 now c)
  show ?case
  proof (cases "expiration_heap c")
    case Nil
    then have "map_of (ttl_dict c) = Map.empty"
      using imc_inv0_entry [OF "1.prems"] by (metis empty_iff empty_set not_None_eq)
    then show ?thesis
      using Nil "1.prems" by (simp add: evict_expired.simps [of now c] unexpired_def)
  next
    case (Cons p rest)
    obtain e k where p: "p = (e, k)" by (cases p)
    let ?h = "popped (expiration_heap c)"
    consider (old) "map_of (ttl_dict c) k \<noteq> Some e"
      | (expired) "map_of (ttl_dict c) k = Some e" "e \<le> now"
      | (live) "map_of (ttl_dict c) k = Some e" "now < e" by force
    then show ?thesis
    proof cases
      case old
      have "imc_inv0 (c\<lparr>expiration_heap := ?h\<rparr>)"
        using imc_inv0_pop_outdated "1.prems" Cons p old by blast
      from "1.IH"(1) [OF Cons p [symmetric] _ this] old Cons p show ?thesis
        by (simp add: evict_expired.simps [of now c])
    next
      case expired
      let ?c = "remove_key k (c\<lparr>expiration_heap := ?h\<rparr>)"
      have "imc_inv0 ?c" using imc_inv0_pop_remove "1.prems" Cons p by blast
      from "1.IH"(2) [OF Cons p [symmetric] _ _ this] expired Cons p
      have IH: "imc_inv0 (evict_expired now ?c) \<and>
         map_of (ttl_dict (evict_expired now ?c)) = unexpired now (map_of (ttl_dict ?c)) \<and>
         (\<forall>k. map_of (ttl_dict (evict_expired now ?c)) k \<noteq> None \<longrightarrow>
            map_of (cache_dict (evict_expired now ?c)) k = map_of (cache_dict ?c) k) \<and>
         length (cache_dict (evict_expired now ?c)) \<le> length (cache_dict ?c) \<and>
         max_size_in_memory (evict_expired now ?c) = max_size_in_memory ?c \<and>
         max_size_per_item (evict_expired now ?c) = max_size_per_item ?c \<and>
         default_ttl (evict_expired now ?c) = default_ttl ?c"
        by simp
      have eq: "evict_expired now c = evict_expired now ?c"
        using expired Cons p by (simp add: evict_expired.simps [of now c])
      have un: "unexpired now (map_of (ttl_dict ?c)) = unexpired now (map_of (ttl_dict c))"
        using expired by (auto simp: unexpired_def remove_key_def fun_eq_iff)
      have kn: "unexpired now (map_of (ttl_dict c)) k = None"
        using expired by (simp add: unexpired_def)
      show ?thesis
        unfolding eq using IH un kn length_delete_le [of k "cache_dict c"]
        by (auto simp: remove_key_def fun_upd_def split: if_splits)
    next
      case live
      have "now < t'" if "map_of (ttl_dict c) k' = Some t'" for k' t'
      proof -
        have "(t', k') \<in> set (expiration_heap c)" by (rule imc_inv0_entry [OF "1.prems" that])
        then have "(e, k) \<le> (t', k')"
          using is_heap_min [of "expiration_heap c"] "1.prems" Cons p by (fastforce simp: imc_inv0_def)
        with live show ?thesis by auto
      qed
      then have "unexpired now (map_of (ttl_dict c)) = map_of (ttl_dict c)"
        by (fastforce simp: unexpired_def fun_eq_iff split: option.splits)
      then show ?thesis
        using live Cons p "1.prems" by (simp add: evict_expired.simps [of now c])
    qed
  qed
qed

lemma imc_inv0_heappop:
  assumes "imc_inv0 c" "heappop (expiration_heap c) = Inr ((t, k), h)"
  shows "imc_inv0 (if map_of (ttl_dict c) k = Some t then remove_key k (c\<lparr>expiration_heap := h\<rparr>)
                   else c\<lparr>expiration_heap := h\<rparr>)"
    and "\<And>k' t'. map_of (ttl_dict c) k' = Some t' \<Longrightarrow> (t, k) \<le> (t', k')"
proof -
  have h: "is_heap (expiration_heap c)" using assms(1) by (simp add: imc_inv0_def)
  note pr = heappop_props [OF h assms(2)]
  have set: "set (expiration_heap c) = insert (t, k) (set h)"
    using pr(2) by (metis set_mset_add_mset_insert set_mset_mset)
  show "imc_inv0 (if map_of (ttl_dict c) k = Some t then remove_key k (c\<lparr>expiration_heap := h\<rparr>)
                   else c\<lparr>expiration_heap := h\<rparr>)"
    using assms(1) pr(1) set by (auto simp: imc_inv0_def remove_key_def)
  show "(t, k) \<le> (t', k')" if "map_of (ttl_dict c) k' = Some t'" for k' t'
    using is_heap_min [OF h imc_inv0_entry [OF assms(1) that]] pr(3) by (simp only:)
qed

text \<open>
  What step 2 guarantees: it makes room without raising, keeps what it keeps unchanged, and whatever
  it drops expires no later than whatever it keeps.
\<close>

definition evicts_to :: "imc \<Rightarrow> imc \<Rightarrow> bool" where
  "evicts_to c c' \<longleftrightarrow>
     imc_inv0 c' \<and>
     max_size_in_memory c' = max_size_in_memory c \<and> max_size_per_item c' = max_size_per_item c \<and>
     default_ttl c' = default_ttl c \<and>
     map_of (cache_dict c') \<subseteq>\<^sub>m map_of (cache_dict c) \<and>
     map_of (ttl_dict c') \<subseteq>\<^sub>m map_of (ttl_dict c) \<and>
     (\<forall>k t k' t'. map_of (ttl_dict c) k = Some t \<longrightarrow> map_of (ttl_dict c') k = None \<longrightarrow>
        map_of (ttl_dict c') k' = Some t' \<longrightarrow> (t, k) \<le> (t', k'))"

lemma evicts_to_refl: "imc_inv0 c \<Longrightarrow> evicts_to c c"
  by (simp add: evicts_to_def)

lemma evicts_to_step:
  assumes "imc_inv0 c" "heappop (expiration_heap c) = Inr ((t, k), h)"
    and "evicts_to (if map_of (ttl_dict c) k = Some t then remove_key k (c\<lparr>expiration_heap := h\<rparr>)
                   else c\<lparr>expiration_heap := h\<rparr>) c'" (is "evicts_to ?c1 c'")
  shows "evicts_to c c'"
proof -
  note least = imc_inv0_heappop(2) [OF assms(1,2)]
  have sub: "map_of (cache_dict ?c1) \<subseteq>\<^sub>m map_of (cache_dict c)"
    "map_of (ttl_dict ?c1) \<subseteq>\<^sub>m map_of (ttl_dict c)"
    by (auto simp: remove_key_def map_le_def)
  have "(s, j) \<le> (s', j')"
    if "map_of (ttl_dict c) j = Some s" "map_of (ttl_dict c') j = None"
      "map_of (ttl_dict c') j' = Some s'" for j s j' s'
  proof (cases "map_of (ttl_dict ?c1) j")
    case None
    then have "j = k" "s = t" using that(1) by (auto simp: remove_key_def split: if_splits)
    moreover have "map_of (ttl_dict c) j' = Some s'"
      using assms(3) that(3) sub(2) unfolding evicts_to_def map_le_def by (metis domI)
    ultimately show ?thesis using least by blast
  next
    case (Some s1)
    then have "s1 = s" using that(1) sub(2) unfolding map_le_def by (metis domI option.inject)
    with Some assms(3) that(2,3) show ?thesis unfolding evicts_to_def by blast
  qed
  moreover have "max_size_in_memory ?c1 = max_size_in_memory c"
    "max_size_per_item ?c1 = max_size_per_item c" "default_ttl ?c1 = default_ttl c"
    by (auto simp: remove_key_def)
  ultimately show ?thesis
    using assms(3) sub unfolding evicts_to_def by (auto intro: map_le_trans)
qed

lemma evict_full_correct:
  assumes "imc_inv0 c" "0 < max_size_in_memory c"
  shows "\<exists>c'. evict_full c = (Inr (), c') \<and> evicts_to c c' \<and>
     int (length (cache_dict c')) < max_size_in_memory c"
  using assms
proof (induction c rule: evict_full.induct)
  case (1 c)
  show ?case
  proof (cases "int (length (cache_dict c)) \<ge> max_size_in_memory c")
    case False
    then show ?thesis using 1 by (simp add: evict_full.simps [of c] evicts_to_refl)
  next
    case True
    then have "cache_dict c \<noteq> []" using "1.prems"(2) by auto
    then obtain k where "map_of (cache_dict c) k \<noteq> None"
      by (metis map_of_None_key list.set_intros(1) neq_Nil_conv list.simps(9))
    then have "expiration_heap c \<noteq> []"
      using imc_inv0_keys [OF "1.prems"(1)] imc_inv0_entry [OF "1.prems"(1)] by fastforce
    then obtain x h where x: "heappop (expiration_heap c) = Inr (x, h)"
      using heappop_nonempty by blast
    obtain t k where p: "heappop (expiration_heap c) = Inr ((t, k), h)" using x by (cases x) auto
    let ?c1 = "if map_of (ttl_dict c) k = Some t then remove_key k (c\<lparr>expiration_heap := h\<rparr>)
               else c\<lparr>expiration_heap := h\<rparr>"
    have i: "imc_inv0 ?c1" by (rule imc_inv0_heappop(1) [OF "1.prems"(1) p])
    have m: "max_size_in_memory ?c1 = max_size_in_memory c" by (auto simp: remove_key_def)
    have IH: "\<exists>c'. evict_full ?c1 = (Inr (), c') \<and> evicts_to ?c1 c' \<and>
        int (length (cache_dict c')) < max_size_in_memory ?c1"
      using "1.IH" [OF True p refl refl refl] i m "1.prems"(2) by simp
    then obtain c' where c': "evict_full ?c1 = (Inr (), c')" "evicts_to ?c1 c'"
        "int (length (cache_dict c')) < max_size_in_memory c" unfolding m by blast
    have "evict_full c = (Inr (), c')"
      using c'(1) True p by (simp add: evict_full.simps [of c] Let_def)
    then show ?thesis using c' evicts_to_step [OF "1.prems"(1) p c'(2)] by blast
  qed
qed

lemma evict_full_inv:
  "imc_inv0 c \<Longrightarrow> evict_full c = (r, c') \<Longrightarrow> imc_inv0 c' \<and> max_size_in_memory c' = max_size_in_memory c
     \<and> max_size_per_item c' = max_size_per_item c \<and> default_ttl c' = default_ttl c
     \<and> length (cache_dict c') \<le> length (cache_dict c)"
proof (induction c rule: evict_full.induct)
  case (1 c)
  show ?case
  proof (cases "int (length (cache_dict c)) \<ge> max_size_in_memory c")
    case False
    then show ?thesis using 1 by (auto simp: evict_full.simps [of c])
  next
    case True
    show ?thesis
    proof (cases "heappop (expiration_heap c)")
      case (Inl e)
      then show ?thesis using True 1 by (auto simp: evict_full.simps [of c])
    next
      case (Inr x)
      obtain t k h where p: "heappop (expiration_heap c) = Inr ((t, k), h)"
        using Inr by (cases x) auto
      let ?c1 = "if map_of (ttl_dict c) k = Some t then remove_key k (c\<lparr>expiration_heap := h\<rparr>)
               else c\<lparr>expiration_heap := h\<rparr>"
      have "evict_full ?c1 = (r, c')"
        using "1.prems"(2) True p by (simp add: evict_full.simps [of c] Let_def)
      then have "imc_inv0 c' \<and> max_size_in_memory c' = max_size_in_memory ?c1 \<and>
          max_size_per_item c' = max_size_per_item ?c1 \<and> default_ttl c' = default_ttl ?c1 \<and>
          length (cache_dict c') \<le> length (cache_dict ?c1)"
        using "1.IH" [OF True p refl refl refl] imc_inv0_heappop(1) [OF "1.prems"(1) p] by simp
      then show ?thesis
        by (auto simp: remove_key_def split: if_splits dest: le_trans [OF _ length_delete_le])
    qed
  qed
qed

lemma evict_cache_correct:
  assumes "imc_inv c" "0 < max_size_in_memory c"
  shows "\<exists>c'. evict_cache now c = (Inr (), c') \<and> imc_inv c' \<and>
     int (length (cache_dict c')) < max_size_in_memory c \<and>
     max_size_in_memory c' = max_size_in_memory c \<and> max_size_per_item c' = max_size_per_item c \<and>
     default_ttl c' = default_ttl c \<and>
     map_of (cache_dict c') \<subseteq>\<^sub>m map_of (cache_dict c) \<and>
     map_of (ttl_dict c') \<subseteq>\<^sub>m unexpired now (map_of (ttl_dict c)) \<and>
     (\<forall>k t k' t'. map_of (ttl_dict c) k = Some t \<longrightarrow> map_of (ttl_dict c') k = None \<longrightarrow>
        map_of (ttl_dict c') k' = Some t' \<longrightarrow> (t, k) \<le> (t', k'))"
proof -
  let ?c1 = "evict_expired now c"
  have i: "imc_inv0 c" using assms(1) by (simp add: imc_inv_iff)
  note e = evict_expired_correct [OF i, of now]
  have m: "max_size_in_memory ?c1 = max_size_in_memory c" using e by blast
  obtain c' where c': "evict_full ?c1 = (Inr (), c')" "evicts_to ?c1 c'"
      "int (length (cache_dict c')) < max_size_in_memory c"
    using evict_full_correct [of ?c1] e assms(2) unfolding m by auto
  have cm: "map_of (cache_dict ?c1) \<subseteq>\<^sub>m map_of (cache_dict c)"
    unfolding map_le_def using e imc_inv0_keys [of ?c1] by (metis domIff)
  have last: "(t, k) \<le> (t', k')"
    if "map_of (ttl_dict c) k = Some t" "map_of (ttl_dict c') k = None"
      "map_of (ttl_dict c') k' = Some t'" for k t k' t'
  proof (cases "t \<le> now")
    case True
    have "unexpired now (map_of (ttl_dict c)) k' = Some t'"
      using that(3) c'(2) e unfolding evicts_to_def map_le_def by (metis domI)
    then have "now < t'" by (auto simp: unexpired_def split: option.splits if_splits)
    with True show ?thesis by auto
  next
    case False
    then have "map_of (ttl_dict ?c1) k = Some t" using that(1) e by (simp add: unexpired_def)
    then show ?thesis using c'(2) that(2,3) unfolding evicts_to_def by blast
  qed
  show ?thesis
    using c' e cm last assms(2) unfolding evict_cache_def evicts_to_def imc_inv_iff
    by (auto intro: map_le_trans)
qed

lemma evict_cache_inv:
  assumes "imc_inv c" "evict_cache now c = (r, c')"
  shows "imc_inv c' \<and> max_size_in_memory c' = max_size_in_memory c \<and>
     max_size_per_item c' = max_size_per_item c \<and> default_ttl c' = default_ttl c"
  using evict_full_inv [of "evict_expired now c" r c'] evict_expired_correct [of c now] assms
  by (auto simp: imc_inv_iff evict_cache_def)

subsection \<open>Writes\<close>

text \<open>The last part of \<^verbatim>\<open>set_cache\<close>, after eviction and the size check.\<close>

definition imc_store :: "time \<Rightarrow> string \<Rightarrow> pyval \<Rightarrow> rat option \<Rightarrow> imc \<Rightarrow> imc" where
  "imc_store now key value ttl c =
     (let c2 = c\<lparr>cache_dict := AList.update key value (cache_dict c)\<rparr> in
      if allow_ttl_override now key c2 then
        let t = now + (case ttl of Some x \<Rightarrow> x | None \<Rightarrow> default_ttl c2) in
        c2\<lparr>ttl_dict := AList.update key t (ttl_dict c2),
           expiration_heap := heappush (expiration_heap c2) (t, key)\<rparr>
      else c2)"

definition make_room :: "time \<Rightarrow> imc \<Rightarrow> unit pyres \<times> imc" where
  "make_room now c =
     (if int (length (cache_dict c)) \<ge> max_size_in_memory c then evict_cache now c else (Inr (), c))"

lemma imc_set_cache_eq:
  "imc_set_cache rt now key value ttl c =
     (if max_size_in_memory c = 0 then (Inr (), c)
      else case make_room now c of
        (Inl e, c1) \<Rightarrow> (Inl e, c1)
      | (Inr _, c1) \<Rightarrow>
        if check_value_size rt c1 value then (Inr (), imc_store now key value ttl c1) else (Inr (), c1))"
  by (simp add: imc_set_cache_def make_room_def imc_store_def Let_def split: prod.split sum.split)

definition same_config :: "imc \<Rightarrow> imc \<Rightarrow> bool" where
  "same_config c c' \<longleftrightarrow>
     max_size_in_memory c' = max_size_in_memory c \<and> max_size_per_item c' = max_size_per_item c \<and>
     default_ttl c' = default_ttl c"

lemma same_config_simps [simp]:
  "same_config c c" "same_config c (c\<lparr>cache_dict := d\<rparr>)" "same_config c (c\<lparr>ttl_dict := t\<rparr>)"
  "same_config c (c\<lparr>expiration_heap := h\<rparr>)" "same_config c (remove_key k c)"
  "same_config c (imc_store now k v ttl c)"
  by (auto simp: same_config_def remove_key_def imc_store_def Let_def)

lemma same_config_trans [trans]: "same_config a b \<Longrightarrow> same_config b c \<Longrightarrow> same_config a c"
  by (simp add: same_config_def)

lemma check_value_size_cong: "same_config c c' \<Longrightarrow> check_value_size rt c' v = check_value_size rt c v"
  by (simp add: same_config_def check_value_size_def cong: option.case_cong)

lemma make_room_inv:
  "imc_inv c \<Longrightarrow> make_room now c = (r, c') \<Longrightarrow> imc_inv c' \<and> same_config c c'"
  using evict_cache_inv [of c now r c'] by (auto simp: make_room_def same_config_def split: if_splits)

lemma make_room_ok:
  assumes "imc_inv c" "0 < max_size_in_memory c"
  shows "\<exists>c'. make_room now c = (Inr (), c') \<and> imc_inv c' \<and> same_config c c' \<and>
     int (length (cache_dict c')) < max_size_in_memory c \<and>
     map_of (cache_dict c') \<subseteq>\<^sub>m map_of (cache_dict c) \<and> map_of (ttl_dict c') \<subseteq>\<^sub>m map_of (ttl_dict c) \<and>
     (int (length (cache_dict c)) < max_size_in_memory c \<longrightarrow> c' = c)"
proof (cases "int (length (cache_dict c)) \<ge> max_size_in_memory c")
  case True
  obtain c' where c': "evict_cache now c = (Inr (), c')" "imc_inv c'" "same_config c c'"
      "int (length (cache_dict c')) < max_size_in_memory c"
      "map_of (cache_dict c') \<subseteq>\<^sub>m map_of (cache_dict c)"
      "map_of (ttl_dict c') \<subseteq>\<^sub>m unexpired now (map_of (ttl_dict c))"
    using evict_cache_correct [OF assms, of now] unfolding same_config_def by blast
  have "unexpired now (map_of (ttl_dict c)) \<subseteq>\<^sub>m map_of (ttl_dict c)"
    by (auto simp: unexpired_def map_le_def split: option.splits if_splits)
  then show ?thesis using True c' by (auto simp: make_room_def intro: map_le_trans)
qed (use assms in \<open>simp add: make_room_def\<close>)

lemma imc_store_inv:
  assumes "imc_inv c" "int (length (cache_dict c)) < max_size_in_memory c"
  shows "imc_inv (imc_store now k v ttl c)"
proof -
  have len: "length (AList.update k v (cache_dict c)) \<le> Suc (length (cache_dict c))"
    by (rule length_update_le)
  have heap: "is_heap (expiration_heap c)" using assms(1) by (simp add: imc_inv_def)
  have keep: "map_of (ttl_dict c) k \<noteq> None" if "\<not> allow_ttl_override now k c"
    using that by (auto simp: allow_ttl_override_def split: option.splits)
  show ?thesis
    using assms len heap keep heappush_heap [OF heap]
    by (auto simp: imc_inv_def imc_store_def Let_def allow_ttl_override_def)
qed

lemma imc_set_cache_inv [inv_intros]:
  assumes "imc_inv c" "imc_set_cache rt now k v ttl c = (r, c')"
  shows "imc_inv c' \<and> same_config c c'"
proof (cases "max_size_in_memory c = 0")
  case True
  then show ?thesis using assms by (auto simp: imc_set_cache_eq)
next
  case False
  obtain r1 c1 where m: "make_room now c = (r1, c1)" by (cases "make_room now c")
  note c1 = make_room_inv [OF assms(1) m]
  show ?thesis
  proof (cases r1)
    case (Inl e)
    then show ?thesis using assms(2) False m c1 by (simp add: imc_set_cache_eq)
  next
    case (Inr u)
    have room: "int (length (cache_dict c1)) < max_size_in_memory c1"
    proof (cases "0 < max_size_in_memory c")
      case True
      then show ?thesis
        using make_room_ok [OF assms(1) True, of now] m c1 by (auto simp: same_config_def)
    next
      case neg: False
      then have "cache_dict c = []" "max_size_in_memory c < 0"
        using assms(1) False by (auto simp: imc_inv_def)
      moreover have "fst (evict_full d) \<noteq> Inr ()" if "max_size_in_memory d < 0" for d
        using that by (induction d rule: evict_full.induct)
          (subst evict_full.simps, auto simp: Let_def remove_key_def split: sum.split)
      moreover have "max_size_in_memory (evict_expired now c) = max_size_in_memory c"
        using evict_expired_correct [of c now] assms(1) by (simp add: imc_inv_iff)
      ultimately have "fst (make_room now c) \<noteq> Inr ()"
        by (simp add: make_room_def evict_cache_def)
      then show ?thesis using m Inr by simp
    qed
    show ?thesis
      using assms(2) False m Inr c1 imc_store_inv [OF _ room] same_config_trans [of c c1]
      by (auto simp: imc_set_cache_eq split: if_splits)
  qed
qed

lemma imc_set_cache_total:
  assumes "imc_inv c" "0 \<le> max_size_in_memory c"
  shows "\<exists>c'. imc_set_cache rt now k v ttl c = (Inr (), c')"
  using make_room_ok [OF assms(1), of now] assms(2)
  by (cases "max_size_in_memory c = 0") (auto simp: imc_set_cache_eq)

text \<open>What a write that is stored does, in one place.\<close>

lemma imc_set_cache_stored:
  assumes "imc_inv c" "0 < max_size_in_memory c" "check_value_size rt c v"
  obtains c1 where "imc_set_cache rt now k v ttl c = (Inr (), imc_store now k v ttl c1)"
    "imc_inv c1" "same_config c c1" "int (length (cache_dict c1)) < max_size_in_memory c"
    "map_of (cache_dict c1) \<subseteq>\<^sub>m map_of (cache_dict c)" "map_of (ttl_dict c1) \<subseteq>\<^sub>m map_of (ttl_dict c)"
    "int (length (cache_dict c)) < max_size_in_memory c \<longrightarrow> c1 = c"
proof -
  obtain c1 where c1: "make_room now c = (Inr (), c1)" "imc_inv c1" "same_config c c1"
    "int (length (cache_dict c1)) < max_size_in_memory c"
    "map_of (cache_dict c1) \<subseteq>\<^sub>m map_of (cache_dict c)" "map_of (ttl_dict c1) \<subseteq>\<^sub>m map_of (ttl_dict c)"
    "int (length (cache_dict c)) < max_size_in_memory c \<longrightarrow> c1 = c"
    using make_room_ok [OF assms(1,2), of now] by blast
  then have "imc_set_cache rt now k v ttl c = (Inr (), imc_store now k v ttl c1)"
    using assms by (simp add: imc_set_cache_eq check_value_size_cong)
  with c1 show thesis using that by blast
qed

subsection \<open>Reads\<close>

text \<open>The value a read returns, without its effect on the state.\<close>

definition imc_peek :: "time \<Rightarrow> string \<Rightarrow> imc \<Rightarrow> pyval" where
  "imc_peek now key c = fst (imc_get_cache now key c)"

lemma imc_peek_eq:
  "imc_peek now key c =
     (case map_of (cache_dict c) key of
        None \<Rightarrow> PNone
      | Some v \<Rightarrow> if is_key_expired now key c then PNone else json_view v)"
  by (simp add: imc_peek_def imc_get_cache_def evict_element_if_expired_def split: option.split)

lemma imc_get_cache_state:
  "snd (imc_get_cache now key c) =
     (if map_of (cache_dict c) key \<noteq> None \<and> is_key_expired now key c then remove_key key c else c)"
  by (simp add: imc_get_cache_def evict_element_if_expired_def split: option.split)

lemma imc_get_cache_inv [inv_intros]:
  "imc_inv c \<Longrightarrow> imc_get_cache now key c = (v, c') \<Longrightarrow> imc_inv c' \<and> same_config c c'"
  using imc_get_cache_state [of now key c] imc_inv_remove_key [of c key] by (auto split: if_splits)

text \<open>A read changes no later read, at the same or a later time.\<close>

lemma imc_peek_get:
  assumes "now \<le> now'"
  shows "imc_peek now' k' (snd (imc_get_cache now k c)) = imc_peek now' k' c"
  using assms
  by (auto simp: imc_peek_eq imc_get_cache_state remove_key_def is_key_expired_def
      split: option.splits if_splits)

lemma imc_batch_get_cache_eq:
  "fst (imc_batch_get_cache now ks c) = map (\<lambda>k. imc_peek now k c) ks"
proof (induction ks arbitrary: c)
  case (Cons k ks)
  obtain v c1 where g: "imc_get_cache now k c = (v, c1)" by (cases "imc_get_cache now k c")
  have "imc_peek now k' c1 = imc_peek now k' c" for k'
    using imc_peek_get [of now now k' k c] g by simp
  then show ?case
    using Cons [of c1] g
    by (cases "imc_batch_get_cache now ks c1") (simp add: imc_peek_def [of now k c])
qed simp

lemma imc_batch_get_cache_inv [inv_intros]:
  "imc_inv c \<Longrightarrow> imc_batch_get_cache now ks c = (vs, c') \<Longrightarrow> imc_inv c' \<and> same_config c c'"
proof (induction ks arbitrary: c vs)
  case (Cons k ks)
  obtain v c1 where g: "imc_get_cache now k c = (v, c1)" by (cases "imc_get_cache now k c")
  with Cons imc_get_cache_inv [OF Cons.prems(1) g] show ?case
    by (auto split: prod.splits intro: same_config_trans)
qed simp

lemma imc_increment_cache_inv [inv_intros]:
  assumes "imc_inv c" "imc_increment_cache rt now k v ttl c = (r, c')"
  shows "imc_inv c' \<and> same_config c c'"
proof -
  obtain w c1 where g: "imc_get_cache now k c = (w, c1)" by (cases "imc_get_cache now k c")
  note c1 = imc_get_cache_inv [OF assms(1) g]
  show ?thesis
  proof (cases "py_add (py_or w (PInt 0)) v")
    case (Inl e)
    then show ?thesis using assms(2) g c1 by (simp add: imc_increment_cache_def)
  next
    case (Inr x)
    obtain r2 c2 where s: "imc_set_cache rt now k x ttl c1 = (r2, c2)"
      by (cases "imc_set_cache rt now k x ttl c1")
    then have "c' = c2" using assms(2) g Inr by (auto simp: imc_increment_cache_def split: sum.splits)
    then show ?thesis
      using imc_set_cache_inv [of c1 rt now k x ttl r2 c2] s c1 same_config_trans by blast
  qed
qed

lemma imc_set_cache_pipeline_inv [inv_intros]:
  "imc_inv c \<Longrightarrow> imc_set_cache_pipeline rt now kvs ttl c = (r, c') \<Longrightarrow> imc_inv c' \<and> same_config c c'"
proof (induction rt now kvs ttl c arbitrary: r c' rule: imc_set_cache_pipeline.induct)
  case (2 rt now key v rest ttl c)
  obtain r1 c1 where s: "imc_set_cache rt now key v ttl c = (r1, c1)"
    by (cases "imc_set_cache rt now key v ttl c")
  note c1 = imc_set_cache_inv [OF "2.prems"(1) s]
  show ?case
  proof (cases r1)
    case (Inl e)
    then show ?thesis using "2.prems"(2) s c1 by simp
  next
    case (Inr u)
    then have "imc_set_cache_pipeline rt now rest ttl c1 = (r, c')" using "2.prems"(2) s by simp
    then show ?thesis using "2.IH" [OF s [symmetric] Inr] c1 same_config_trans by blast
  qed
qed simp

lemma imc_increment_pipeline_inv [inv_intros]:
  "imc_inv c \<Longrightarrow> imc_increment_pipeline rt now kvs c = (r, c') \<Longrightarrow> imc_inv c' \<and> same_config c c'"
proof (induction rt now kvs c arbitrary: r c' rule: imc_increment_pipeline.induct)
  case (2 rt now k v rest c)
  obtain r1 c1 where s: "imc_increment_cache rt now k v None c = (r1, c1)"
    by (cases "imc_increment_cache rt now k v None c")
  note c1 = imc_increment_cache_inv [OF "2.prems"(1) s]
  show ?case
  proof (cases r1)
    case (Inl e)
    then show ?thesis using "2.prems"(2) s c1 by simp
  next
    case (Inr u)
    obtain r2 c2 where p: "imc_increment_pipeline rt now rest c1 = (r2, c2)"
      by (cases "imc_increment_pipeline rt now rest c1")
    then have "c' = c2" using "2.prems"(2) s Inr by (auto split: sum.splits)
    then show ?thesis using "2.IH" [OF s [symmetric] Inr _ p] c1 same_config_trans by blast
  qed
qed simp

lemma imc_inv_in_place:
  "imc_inv c \<Longrightarrow> map_of (cache_dict c) k \<noteq> None \<Longrightarrow>
   imc_inv (c\<lparr>cache_dict := AList.update k v (cache_dict c)\<rparr>)"
  using map_of_None_key [of "cache_dict c" k]
  by (auto simp: imc_inv_def length_update simp del: map_of_eq_None_iff)

lemma imc_get_cache_truthy:
  "imc_get_cache now k c = (v, c') \<Longrightarrow> truthy v \<Longrightarrow> map_of (cache_dict c') k \<noteq> None \<and> c' = c"
  by (auto simp: imc_get_cache_def evict_element_if_expired_def split: option.splits if_splits)

lemma imc_set_cache_sadd_inv [inv_intros]:
  assumes "imc_inv c" "imc_set_cache_sadd rt now k vs ttl c = (r, c')"
  shows "imc_inv c' \<and> same_config c c'"
proof -
  obtain v c1 where g: "imc_get_cache now k c = (v, c1)" by (cases "imc_get_cache now k c")
  note c1 = imc_get_cache_inv [OF assms(1) g]
  have store: "imc_inv d' \<and> same_config c d'"
    if "(case imc_set_cache rt now k w ttl d of (Inl e, c2) \<Rightarrow> (Inl e, c2) | (Inr _, c2) \<Rightarrow> (Inr vs, c2))
        = (r, d')" "imc_inv d" "same_config c d" for w d d'
    using that imc_set_cache_inv [OF that(2), of rt now k w ttl] same_config_trans
    by (auto split: prod.splits sum.splits)
  show ?thesis
  proof (cases "truthy v")
    case False
    obtain r1 ys where a: "set_add_all [] vs = (r1, ys)" by (cases "set_add_all [] vs")
    show ?thesis
      using assms(2) g c1 a False store [of "PSet ys" c1 c']
      by (cases r1) (simp_all add: imc_set_cache_sadd_def Let_def)
  next
    case True
    note t = imc_get_cache_truthy [OF g True]
    have up: "imc_inv (c1\<lparr>cache_dict := AList.update k w (cache_dict c1)\<rparr>)" for w
      using imc_inv_in_place c1 t by blast
    have sc: "same_config c (c1\<lparr>cache_dict := AList.update k w (cache_dict c1)\<rparr>)" for w
      using c1 by (auto intro: same_config_trans)
    show ?thesis
    proof (cases "\<exists>xs. v = PSet xs")
      case True
      then obtain xs where v: "v = PSet xs" by blast
      obtain r1 ys where a: "set_add_all xs vs = (r1, ys)" by (cases "set_add_all xs vs")
      show ?thesis
        using assms(2) g v a \<open>truthy v\<close> up sc store [OF _ up sc]
        by (cases r1) (auto simp: imc_set_cache_sadd_def Let_def)
    next
      case no: False
      have "imc_set_cache_sadd rt now k vs ttl c =
          (if vs = [] then (case imc_set_cache rt now k v ttl c1 of
             (Inl e, c2) \<Rightarrow> (Inl e, c2) | (Inr _, c2) \<Rightarrow> (Inr vs, c2)) else (Inl AttributeError, c1))"
        using g no True by (cases v) (simp_all add: imc_set_cache_sadd_def Let_def)
      then show ?thesis using assms(2) c1 store by (auto split: if_splits)
    qed
  qed
qed

lemma imc_flush_inv [inv_intros]: "imc_inv (imc_flush_cache c)"
  by (simp add: imc_inv_def imc_flush_cache_def heap_from_def)

subsection \<open>Reachable states\<close>

text \<open>Every method of the class, called with any arguments at any time.\<close>

inductive imc_step :: "py_runtime \<Rightarrow> imc \<Rightarrow> imc \<Rightarrow> bool" for rt where
  step_set: "imc_step rt c (snd (imc_set_cache rt now k v ttl c))"
| step_set_pipeline: "imc_step rt c (snd (imc_set_cache_pipeline rt now kvs ttl c))"
| step_sadd: "imc_step rt c (snd (imc_set_cache_sadd rt now k vs ttl c))"
| step_get: "imc_step rt c (snd (imc_get_cache now k c))"
| step_batch_get: "imc_step rt c (snd (imc_batch_get_cache now ks c))"
| step_increment: "imc_step rt c (snd (imc_increment_cache rt now k v ttl c))"
| step_increment_pipeline: "imc_step rt c (snd (imc_increment_pipeline rt now kvs c))"
| step_evict: "imc_step rt c (snd (evict_cache now c))"
| step_evict_element: "imc_step rt c (snd (evict_element_if_expired now k c))"
| step_flush: "imc_step rt c (imc_flush_cache c)"
| step_delete: "imc_step rt c (imc_delete_cache k c)"

inductive imc_reachable :: "py_runtime \<Rightarrow> imc \<Rightarrow> bool" for rt where
  reach_init: "imc_reachable rt (imc_init m t i)"
| reach_step: "imc_reachable rt c \<Longrightarrow> imc_step rt c c' \<Longrightarrow> imc_reachable rt c'"

lemma imc_step_inv: "imc_step rt c c' \<Longrightarrow> imc_inv c \<Longrightarrow> imc_inv c'"
proof (induction rule: imc_step.induct)
  case (step_set c now k v ttl)
  then show ?case using imc_set_cache_inv [OF _ prod.collapse [symmetric]] by blast
next
  case (step_set_pipeline c now kvs ttl)
  then show ?case using imc_set_cache_pipeline_inv [OF _ prod.collapse [symmetric]] by blast
next
  case (step_sadd c now k vs ttl)
  then show ?case using imc_set_cache_sadd_inv [OF _ prod.collapse [symmetric]] by blast
next
  case (step_get c now k)
  then show ?case using imc_get_cache_inv [OF _ prod.collapse [symmetric]] by blast
next
  case (step_batch_get c now ks)
  then show ?case using imc_batch_get_cache_inv [OF _ prod.collapse [symmetric]] by blast
next
  case (step_increment c now k v ttl)
  then show ?case using imc_increment_cache_inv [OF _ prod.collapse [symmetric]] by blast
next
  case (step_increment_pipeline c now kvs)
  then show ?case using imc_increment_pipeline_inv [OF _ prod.collapse [symmetric]] by blast
next
  case (step_evict c now)
  then show ?case using evict_cache_inv [OF _ prod.collapse [symmetric]] by blast
next
  case (step_evict_element c now k)
  then show ?case by (simp add: evict_element_if_expired_def imc_inv_remove_key)
qed (simp_all add: imc_flush_inv imc_delete_cache_def imc_inv_remove_key)

lemma imc_reachable_inv: "imc_reachable rt c \<Longrightarrow> imc_inv c"
  by (induction rule: imc_reachable.induct) (auto simp: imc_inv_init intro: imc_step_inv)

subsection \<open>The cache as a key-value store\<close>

definition imc_put :: "py_runtime \<Rightarrow> rat option \<Rightarrow> time \<Rightarrow> string \<Rightarrow> pyval \<Rightarrow> imc \<Rightarrow> imc" where
  "imc_put rt ttl now k v c = snd (imc_set_cache rt now k v ttl c)"

definition imc_usable :: "rat option \<Rightarrow> imc \<Rightarrow> bool" where
  "imc_usable ttl c \<longleftrightarrow>
     imc_inv c \<and> 0 < max_size_in_memory c \<and> 0 \<le> (case ttl of Some t \<Rightarrow> t | None \<Rightarrow> default_ttl c)"

lemma imc_usable_config: "imc_usable ttl c \<Longrightarrow> imc_inv c' \<Longrightarrow> same_config c c' \<Longrightarrow> imc_usable ttl c'"
  by (auto simp: imc_usable_def same_config_def split: option.splits)

lemma imc_put_inv: "imc_inv c \<Longrightarrow> imc_inv (imc_put rt ttl now k v c) \<and> same_config c (imc_put rt ttl now k v c)"
  unfolding imc_put_def using imc_set_cache_inv [OF _ prod.collapse [symmetric]] by blast

lemma imc_put_same:
  assumes "imc_usable ttl c" "check_value_size rt c v"
  shows "imc_peek now k (imc_put rt ttl now k v c) = json_view v"
proof -
  obtain c1 where c1: "imc_set_cache rt now k v ttl c = (Inr (), imc_store now k v ttl c1)" "same_config c c1"
    using imc_set_cache_stored assms unfolding imc_usable_def by metis
  have "\<not> is_key_expired now k (imc_store now k v ttl c1)"
    using assms(1) c1(2) by (auto simp: is_key_expired_def imc_store_def Let_def allow_ttl_override_def
        imc_usable_def same_config_def not_less split: option.splits)
  moreover have "map_of (cache_dict (imc_store now k v ttl c1)) k = Some v"
    by (simp add: imc_store_def Let_def)
  ultimately show ?thesis using c1(1) by (simp add: imc_put_def imc_peek_eq)
qed

lemma imc_peek_store_other:
  "k' \<noteq> k \<Longrightarrow> imc_peek now' k' (imc_store now k v ttl c) = imc_peek now' k' c"
  by (auto simp: imc_peek_eq imc_store_def Let_def is_key_expired_def split: option.split)

lemma imc_put_other:
  "k' \<noteq> k \<Longrightarrow> int (length (cache_dict c)) < max_size_in_memory c \<Longrightarrow>
   imc_peek now' k' (imc_put rt ttl now k v c) = imc_peek now' k' c"
  by (auto simp: imc_put_def imc_set_cache_eq make_room_def imc_peek_store_other)

lemma imc_peek_submap:
  assumes "imc_inv c" "imc_inv c'" "map_of (cache_dict c') \<subseteq>\<^sub>m map_of (cache_dict c)"
    "map_of (ttl_dict c') \<subseteq>\<^sub>m map_of (ttl_dict c)"
  shows "imc_peek now k c' \<in> {imc_peek now k c, PNone}"
proof (cases "map_of (cache_dict c') k")
  case None
  then show ?thesis by (simp add: imc_peek_eq)
next
  case (Some v)
  then obtain t where t: "map_of (ttl_dict c') k = Some t"
    using assms(2) imc_inv0_keys [of c' k] by (auto simp: imc_inv_iff)
  have "map_of (cache_dict c) k = Some v" "map_of (ttl_dict c) k = Some t"
    using assms(3,4) Some t unfolding map_le_def by (metis domI)+
  then show ?thesis using Some t by (simp add: imc_peek_eq is_key_expired_def)
qed

lemma imc_put_evict:
  assumes "imc_usable ttl c" "k' \<noteq> k"
  shows "imc_peek now' k' (imc_put rt ttl now k v c) \<in> {imc_peek now' k' c, PNone}"
proof -
  obtain c1 where c1: "make_room now c = (Inr (), c1)" "imc_inv c1"
    "map_of (cache_dict c1) \<subseteq>\<^sub>m map_of (cache_dict c)" "map_of (ttl_dict c1) \<subseteq>\<^sub>m map_of (ttl_dict c)"
    using make_room_ok assms(1) unfolding imc_usable_def by blast
  have "imc_peek now' k' (imc_put rt ttl now k v c) = imc_peek now' k' c1"
    using c1 assms by (auto simp: imc_put_def imc_set_cache_eq imc_peek_store_other imc_usable_def)
  then show ?thesis using imc_peek_submap [of c c1 now' k'] c1 assms(1) by (simp add: imc_usable_def)
qed

definition imc_after_get :: "time \<Rightarrow> string \<Rightarrow> imc \<Rightarrow> imc" where
  "imc_after_get now k c = snd (imc_get_cache now k c)"

lemma imc_after_get_inv:
  "imc_inv c \<Longrightarrow> imc_inv (imc_after_get now k c) \<and> same_config c (imc_after_get now k c)"
  unfolding imc_after_get_def using imc_get_cache_inv [OF _ prod.collapse [symmetric]] by blast

interpretation imcs: kv_store "imc_put rt ttl" imc_peek imc_after_get json_view "check_value_size rt"
  "\<lambda>c. int (length (cache_dict c)) < max_size_in_memory c" "imc_usable ttl" for rt ttl
proof unfold_locales
  fix c now now' k k' v w
  assume u: "imc_usable ttl c"
  then have i: "imc_inv c" by (simp add: imc_usable_def)
  show "imc_usable ttl (imc_put rt ttl now k v c)"
    using u imc_put_inv [OF i] imc_usable_config by blast
  show "imc_usable ttl (imc_after_get now k c)"
    using u imc_after_get_inv [OF i] imc_usable_config by blast
  show "imc_peek now k (imc_put rt ttl now k v c) = json_view v" if "check_value_size rt c v"
    by (rule imc_put_same [OF u that])
  show "imc_peek now' k' (imc_put rt ttl now k v c) = imc_peek now' k' c"
    if "int (length (cache_dict c)) < max_size_in_memory c" "k' \<noteq> k"
    by (rule imc_put_other [OF that(2,1)])
  show "imc_peek now' k' (imc_put rt ttl now k v c) \<in> {imc_peek now' k' c, PNone}" if "k' \<noteq> k"
    by (rule imc_put_evict [OF u that])
  show "imc_peek now k' (imc_after_get now k c) = imc_peek now k' c"
    by (simp add: imc_after_get_def imc_peek_get)
  show "check_value_size rt (imc_put rt ttl now k v c) w = check_value_size rt c w"
    using imc_put_inv [OF i] check_value_size_cong by blast
  show "check_value_size rt (imc_after_get now k c) w = check_value_size rt c w"
    using imc_after_get_inv [OF i] check_value_size_cong by blast
  show "int (length (cache_dict (imc_after_get now k c))) < max_size_in_memory (imc_after_get now k c)"
    if "int (length (cache_dict c)) < max_size_in_memory c"
    using that remove_key_size [of k c]
    by (auto simp: imc_after_get_def imc_get_cache_state) (simp add: remove_key_def)
qed

text \<open>What is read after a write.\<close>

lemma imc_write_read:
  assumes "imc_inv c" "0 < max_size_in_memory c" "check_value_size rt c v"
    and "imc_set_cache rt now k v ttl c = (r, c')"
  shows "\<exists>t. imc_get_ttl k c' = Some t \<and>
     (\<forall>now'. fst (imc_get_cache now' k c') = (if now' \<le> t then json_view v else PNone)) \<and>
     (t = now + (case ttl of Some x \<Rightarrow> x | None \<Rightarrow> default_ttl c) \<or>
      imc_get_ttl k c = Some t \<and> now \<le> t)"
proof -
  obtain c1 where c1: "imc_set_cache rt now k v ttl c = (Inr (), imc_store now k v ttl c1)"
    "imc_inv c1" "same_config c c1" "map_of (ttl_dict c1) \<subseteq>\<^sub>m map_of (ttl_dict c)"
    using imc_set_cache_stored [OF assms(1,2,3)] by metis
  have c': "c' = imc_store now k v ttl c1" using c1(1) assms(4) by simp
  have ttl: "imc_get_ttl k c' = Some (if allow_ttl_override now k c1
      then now + (case ttl of Some x \<Rightarrow> x | None \<Rightarrow> default_ttl c) else the (map_of (ttl_dict c1) k))"
    using c1(3) by (auto simp: c' imc_get_ttl_def imc_store_def Let_def allow_ttl_override_def
        same_config_def split: option.splits)
  have val: "map_of (cache_dict c') k = Some v" by (simp add: c' imc_store_def Let_def)
  have read: "fst (imc_get_cache now' k c') = (if now' \<le> t then json_view v else PNone)"
    if "imc_get_ttl k c' = Some t" for now' t
    using val that imc_peek_eq [of now' k c'] by (auto simp: imc_peek_def imc_get_ttl_def is_key_expired_def)
  have old: "imc_get_ttl k c = Some t \<and> now \<le> t"
    if "\<not> allow_ttl_override now k c1" "t = the (map_of (ttl_dict c1) k)" for t
    using that c1(4) by (auto simp: allow_ttl_override_def imc_get_ttl_def map_le_def dom_def
        split: option.splits)
  from ttl read old show ?thesis by (cases "allow_ttl_override now k c1") auto
qed

subsection \<open>Properties\<close>

text \<open>
  Property C20. In every state the methods can reach, at any sequence of times, the cache holds at
  most \<^verbatim>\<open>max_size_in_memory\<close> items, the value dict and the expiry dict have the same keys, and
  the expiry of every key is an entry of a well-formed heap.
\<close>

theorem imc_reachable_consistent:
  assumes "imc_reachable rt c"
  shows "int (length (cache_dict c)) \<le> max 0 (max_size_in_memory c) \<and>
    set (dict_keys (cache_dict c)) = set (dict_keys (ttl_dict c)) \<and>
    is_heap (expiration_heap c) \<and>
    (\<forall>k t. map_of (ttl_dict c) k = Some t \<longrightarrow> (t, k) \<in> set (expiration_heap c))"
  using imc_reachable_inv [OF assms] dom_dict [of "cache_dict c"] dom_dict [of "ttl_dict c"]
  by (simp add: imc_inv_def)

abbreviation rt0 :: py_runtime where
  "rt0 \<equiv> \<lparr>str_len = (\<lambda>_. Some 8), sizeof = (\<lambda>_. 56)\<rparr>"

abbreviation c_one :: imc where
  "c_one \<equiv> snd (imc_set_cache rt0 100 ''a'' (PInt 7) (Some 60) (imc_init (Some 1) None None))"

lemma c_one_reachable: "imc_reachable rt0 c_one"
  by (rule reach_step [OF reach_init step_set])

theorem imc_reachable_consistent_witness:
  "imc_reachable rt0 c_one \<and> length (cache_dict c_one) = 1 \<and>
   int (length (cache_dict c_one)) \<le> max 0 (max_size_in_memory c_one)"
proof (intro conjI)
  show "length (cache_dict c_one) = 1" by code_simp
qed (use c_one_reachable imc_reachable_consistent [OF c_one_reachable] in simp_all)

text \<open>
  \<^verbatim>\<open>set_cache\<close> never raises on a reachable cache whose size limit is not negative:
  the pop of the second eviction loop never meets an empty heap, so the loop ends with room.
\<close>

lemma imc_set_cache_never_raises:
  assumes "imc_reachable rt c" "0 \<le> max_size_in_memory c"
  shows "\<exists>c'. imc_set_cache rt now k v ttl c = (Inr (), c') \<and> imc_reachable rt c'"
  using imc_set_cache_total [OF imc_reachable_inv [OF assms(1)] assms(2)]
    reach_step [OF assms(1) step_set] by (metis snd_conv)

text \<open>
  \<^verbatim>\<open>evict_cache\<close> on a reachable cache with a positive limit returns, leaves fewer
  items than the limit, none of them expired and all with the value and expiry they had, and every
  item it drops expires no later (ties broken by key) than every item it keeps.
\<close>

lemma evict_cache_earliest_first:
  assumes "imc_reachable rt c" "0 < max_size_in_memory c"
  shows "\<exists>c'. evict_cache now c = (Inr (), c') \<and>
     int (length (cache_dict c')) < max_size_in_memory c \<and>
     map_of (cache_dict c') \<subseteq>\<^sub>m map_of (cache_dict c) \<and>
     map_of (ttl_dict c') \<subseteq>\<^sub>m map_of (ttl_dict c) \<and>
     (\<forall>k t. map_of (ttl_dict c') k = Some t \<longrightarrow> now < t) \<and>
     (\<forall>k t k' t'. map_of (ttl_dict c) k = Some t \<longrightarrow> map_of (ttl_dict c') k = None \<longrightarrow>
        map_of (ttl_dict c') k' = Some t' \<longrightarrow> (t, k) \<le> (t', k'))"
proof -
  obtain c' where c': "evict_cache now c = (Inr (), c')"
     "int (length (cache_dict c')) < max_size_in_memory c"
     "map_of (cache_dict c') \<subseteq>\<^sub>m map_of (cache_dict c)"
     "map_of (ttl_dict c') \<subseteq>\<^sub>m unexpired now (map_of (ttl_dict c))"
     "\<forall>k t k' t'. map_of (ttl_dict c) k = Some t \<longrightarrow> map_of (ttl_dict c') k = None \<longrightarrow>
        map_of (ttl_dict c') k' = Some t' \<longrightarrow> (t, k) \<le> (t', k')"
    using evict_cache_correct [OF imc_reachable_inv [OF assms(1)] assms(2), of now] by blast
  have "now < t \<and> map_of (ttl_dict c) k = Some t" if "map_of (ttl_dict c') k = Some t" for k t
  proof -
    have "unexpired now (map_of (ttl_dict c)) k = Some t"
      using c'(4) that unfolding map_le_def by (metis domI)
    then show ?thesis by (auto simp: unexpired_def split: option.splits if_splits)
  qed
  then show ?thesis using c' by (auto simp: map_le_def dom_def)
qed

text \<open>
  A value that passes the size check and is written to a reachable cache with a
  positive limit is read back, through \<^verbatim>\<open>json.loads\<close> if it is a string, at every time up to its
  expiry and never after it. The expiry is the write time plus the ttl, or the expiry the key had
  when that has not passed yet.
\<close>

lemma imc_read_your_write:
  assumes "imc_reachable rt c" "0 < max_size_in_memory c" "check_value_size rt c v"
    and "imc_set_cache rt now k v ttl c = (r, c')"
  shows "\<exists>t. imc_get_ttl k c' = Some t \<and>
     (\<forall>now'. fst (imc_get_cache now' k c') = (if now' \<le> t then json_view v else PNone)) \<and>
     (t = now + (case ttl of Some x \<Rightarrow> x | None \<Rightarrow> default_ttl c) \<or>
      imc_get_ttl k c = Some t \<and> now \<le> t)"
  using imc_write_read [OF imc_reachable_inv [OF assms(1)] assms(2-4)] .

text \<open>
  Writing a key that is still live does not move its expiry: when the cache has room,
  the expiry after the write is the one before it, whatever ttl the writer asks for, so an item that
  is rewritten all the time is still dropped when its first ttl ends.
\<close>

lemma imc_ttl_not_refreshed:
  assumes "imc_get_ttl k c = Some t" "now \<le> t"
    and "int (length (cache_dict c)) < max_size_in_memory c"
  shows "imc_get_ttl k (snd (imc_set_cache rt now k v ttl c)) = Some t \<and>
     (\<forall>now' > t. fst (imc_get_cache now' k (snd (imc_set_cache rt now k v ttl c))) = PNone)"
proof -
  let ?c' = "snd (imc_set_cache rt now k v ttl c)"
  have keep: "imc_get_ttl k ?c' = Some t"
    using assms by (auto simp: imc_set_cache_eq make_room_def imc_store_def imc_get_ttl_def Let_def
        allow_ttl_override_def)
  have "imc_peek now' k ?c' = PNone" if "t < now'" for now'
    using keep that by (auto simp: imc_peek_eq imc_get_ttl_def is_key_expired_def split: option.split)
  with keep show ?thesis by (simp add: imc_peek_def)
qed

end
