(* ===== verification/DualCache.thy ===== *)
theory DualCache
  imports InMemoryCache
begin

text \<open>
  \<^verbatim>\<open>caching/dual_cache.py\<close>: the two-level cache. Its first level is the in-memory cache of
  \<open>InMemoryCache\<close>; its second level is an object with the interface of a Redis cache, whose
  operations are a parameter (\<open>redis_ops\<close>): each returns its result, or an exception, and the
  new state of the server. A method that reads the clock before and after it waits for Redis takes
  both readings. The \<^verbatim>\<open>ttl\<close> keyword is \<^term>\<open>None\<close> when the caller does not pass it.

  The theory shows what each method does when Redis fails, that reads fill the first level, and that
  the reservation of batch reads throttles Redis and is undone when the read fails.
\<close>

subsection \<open>The second level\<close>

type_synonym ttl_kwarg = "rat option option"

text \<open>\<^verbatim>\<open>RedisPipelineIncrementOperation\<close>.\<close>

record increment_op =
  op_key :: string
  increment_value :: pyval
  op_ttl :: "int option"

record 'r redis_ops =
  r_set :: "string \<Rightarrow> pyval \<Rightarrow> ttl_kwarg \<Rightarrow> 'r \<Rightarrow> unit pyres \<times> 'r"
  r_get :: "string \<Rightarrow> 'r \<Rightarrow> pyval pyres \<times> 'r"
  r_batch_get :: "string list \<Rightarrow> 'r \<Rightarrow> (string, pyval) dict option pyres \<times> 'r"
  r_set_pipeline :: "(string \<times> pyval) list \<Rightarrow> rat option \<Rightarrow> 'r \<Rightarrow> unit pyres \<times> 'r"
  r_increment :: "string \<Rightarrow> pyval \<Rightarrow> ttl_kwarg \<Rightarrow> 'r \<Rightarrow> pyval pyres \<times> 'r"
  r_async_increment :: "string \<Rightarrow> pyval \<Rightarrow> rat option \<Rightarrow> 'r \<Rightarrow> pyval pyres \<times> 'r"
  r_increment_pipeline :: "increment_op list \<Rightarrow> 'r \<Rightarrow> pyval list option pyres \<times> 'r"
  r_sadd :: "string \<Rightarrow> pyval list \<Rightarrow> rat option \<Rightarrow> 'r \<Rightarrow> unit pyres \<times> 'r"
  r_flush :: "'r \<Rightarrow> unit pyres \<times> 'r"
  r_delete :: "string \<Rightarrow> 'r \<Rightarrow> unit pyres \<times> 'r"
  r_get_ttl :: "string \<Rightarrow> 'r \<Rightarrow> rat option pyres \<times> 'r"

subsection \<open>State\<close>

record 'r dual =
  in_memory_cache :: imc
  redis_cache :: "'r option"
  last_redis_batch_access_time :: "(string, time) dict"
  batch_max_size :: int
  redis_batch_cache_expiry :: rat
  default_in_memory_ttl :: "rat option"
  default_redis_ttl :: "rat option"

definition DEFAULT_MAX_REDIS_BATCH_CACHE_SIZE :: int where
  "DEFAULT_MAX_REDIS_BATCH_CACHE_SIZE = 1000"

text \<open>\<^verbatim>\<open>x or y\<close> on two optional numbers, the second a module setting.\<close>

definition or_opt :: "rat option \<Rightarrow> rat option \<Rightarrow> rat option" where
  "or_opt x y = (case x of Some v \<Rightarrow> if v = 0 then y else x | None \<Rightarrow> y)"

text \<open>The module settings \<^verbatim>\<open>litellm.default_*\<close>, all \<^verbatim>\<open>None\<close> unless the user sets them.\<close>

record cache_settings =
  set_in_memory_ttl :: "rat option"
  set_redis_ttl :: "rat option"
  set_batch_cache_expiry :: "rat option"

definition no_settings :: cache_settings where
  "no_settings = \<lparr>set_in_memory_ttl = None, set_redis_ttl = None, set_batch_cache_expiry = None\<rparr>"

definition dual_init ::
  "cache_settings \<Rightarrow> imc option \<Rightarrow> 'r option \<Rightarrow> rat option \<Rightarrow> rat option \<Rightarrow> rat option \<Rightarrow> int \<Rightarrow> 'r dual" where
  "dual_init cs mem redis mttl rttl bexp bmax =
     \<lparr>in_memory_cache = (case mem of Some c \<Rightarrow> c | None \<Rightarrow> imc_init None None None),
      redis_cache = redis,
      last_redis_batch_access_time = [],
      batch_max_size = bmax,
      redis_batch_cache_expiry = or_num (or_opt bexp (set_batch_cache_expiry cs)) 10,
      default_in_memory_ttl = or_opt mttl (set_in_memory_ttl cs),
      default_redis_ttl = or_opt rttl (set_redis_ttl cs)\<rparr>"

definition update_cache_ttl :: "rat option \<Rightarrow> rat option \<Rightarrow> 'r dual \<Rightarrow> 'r dual" where
  "update_cache_ttl mttl rttl d =
     (let d1 = (case mttl of None \<Rightarrow> d | Some t \<Rightarrow> d\<lparr>default_in_memory_ttl := Some t\<rparr>) in
      case rttl of None \<Rightarrow> d1 | Some t \<Rightarrow> d1\<lparr>default_redis_ttl := Some t\<rparr>)"

text \<open>\<^verbatim>\<open>LimitedSizeOrderedDict.__setitem__\<close>: the oldest item goes first when the dict is full.\<close>

definition lsod_setitem :: "int \<Rightarrow> string \<Rightarrow> time \<Rightarrow> (string, time) dict \<Rightarrow> (string, time) dict pyres" where
  "lsod_setitem max_size key value d =
     (if int (length d) \<ge> max_size
      then (case d of [] \<Rightarrow> Inl KeyError | _ # rest \<Rightarrow> Inr (AList.update key value rest))
      else Inr (AList.update key value d))"

subsection \<open>Plumbing\<close>

definition with_mem :: "'r dual \<Rightarrow> 'a \<times> imc \<Rightarrow> 'a \<times> 'r dual" where
  "with_mem d p = (fst p, d\<lparr>in_memory_cache := snd p\<rparr>)"

definition with_redis :: "'r dual \<Rightarrow> 'a \<times> 'r \<Rightarrow> 'a \<times> 'r dual" where
  "with_redis d p = (fst p, d\<lparr>redis_cache := Some (snd p)\<rparr>)"

text \<open>The ttl that \<^verbatim>\<open>set_cache\<close> and its variants pass on to both levels.\<close>

definition dual_ttl :: "ttl_kwarg \<Rightarrow> 'r dual \<Rightarrow> ttl_kwarg" where
  "dual_ttl ttl d =
     (case (ttl, default_in_memory_ttl d) of (None, Some t) \<Rightarrow> Some (Some t) | _ \<Rightarrow> ttl)"

definition kw_ttl :: "ttl_kwarg \<Rightarrow> rat option" where
  "kw_ttl ttl = (case ttl of None \<Rightarrow> None | Some t \<Rightarrow> t)"

subsection \<open>Operations\<close>

text \<open>\<^verbatim>\<open>set_cache\<close> and \<^verbatim>\<open>async_set_cache\<close>: an exception of either level is logged and dropped.\<close>

definition dual_set_cache ::
  "'r redis_ops \<Rightarrow> py_runtime \<Rightarrow> time \<Rightarrow> string \<Rightarrow> pyval \<Rightarrow> bool \<Rightarrow> ttl_kwarg \<Rightarrow> 'r dual \<Rightarrow> 'r dual" where
  "dual_set_cache ops rt now key value local_only ttl d =
     (let kw = dual_ttl ttl d in
      case with_mem d (imc_set_cache rt now key value (kw_ttl kw) (in_memory_cache d)) of
        (Inl _, d1) \<Rightarrow> d1
      | (Inr _, d1) \<Rightarrow>
        (case redis_cache d1 of
           None \<Rightarrow> d1
         | Some r \<Rightarrow>
           if local_only then d1 else snd (with_redis d1 (r_set ops key value kw r))))"

text \<open>\<^verbatim>\<open>increment_cache\<close>, which logs an exception and raises it again.\<close>

definition dual_increment_cache ::
  "'r redis_ops \<Rightarrow> py_runtime \<Rightarrow> time \<Rightarrow> string \<Rightarrow> pyval \<Rightarrow> bool \<Rightarrow> ttl_kwarg \<Rightarrow> 'r dual \<Rightarrow>
   pyval pyres \<times> 'r dual" where
  "dual_increment_cache ops rt now key value local_only ttl d =
     (case with_mem d (imc_increment_cache rt now key value (kw_ttl ttl) (in_memory_cache d)) of
        (Inl e, d1) \<Rightarrow> (Inl e, d1)
      | (Inr result, d1) \<Rightarrow>
        (case redis_cache d1 of
           None \<Rightarrow> (Inr result, d1)
         | Some r \<Rightarrow>
           if local_only then (Inr result, d1) else with_redis d1 (r_increment ops key value ttl r)))"

text \<open>
  \<^verbatim>\<open>get_cache\<close> and \<^verbatim>\<open>async_get_cache\<close>: a miss in memory is read from Redis and stored in
  memory with the caller's ttl; an exception is logged and the result is \<^verbatim>\<open>None\<close>.
\<close>

definition dual_get_cache ::
  "'r redis_ops \<Rightarrow> py_runtime \<Rightarrow> time \<Rightarrow> time \<Rightarrow> string \<Rightarrow> bool \<Rightarrow> ttl_kwarg \<Rightarrow> 'r dual \<Rightarrow> pyval \<times> 'r dual" where
  "dual_get_cache ops rt now now' key local_only ttl d =
     (case with_mem d (imc_get_cache now key (in_memory_cache d)) of
        (result, d1) \<Rightarrow>
        (case redis_cache d1 of
           None \<Rightarrow> (result, d1)
         | Some r \<Rightarrow>
           if result \<noteq> PNone \<or> local_only then (result, d1)
           else (case with_redis d1 (r_get ops key r) of
              (Inl _, d2) \<Rightarrow> (PNone, d2)
            | (Inr redis_result, d2) \<Rightarrow>
              if redis_result = PNone then (PNone, d2)
              else (case with_mem d2 (imc_set_cache rt now' key redis_result (kw_ttl ttl) (in_memory_cache d2)) of
                 (Inl _, d3) \<Rightarrow> (PNone, d3)
               | (Inr _, d3) \<Rightarrow> (redis_result, d3)))))"

text \<open>
  The loop of \<^verbatim>\<open>_reserve_redis_batch_keys\<close>: the keys to read, what their access time was, and
  the access times with the reservations.
\<close>

type_synonym reservation = "string list \<times> (string, time option) dict"

fun reserve_loop ::
  "int \<Rightarrow> rat \<Rightarrow> time \<Rightarrow> (string \<times> pyval) list \<Rightarrow> reservation \<Rightarrow> (string, time) dict \<Rightarrow>
   reservation pyres \<times> (string, time) dict" where
  "reserve_loop mx expiry now [] acc access = (Inr acc, access)"
| "reserve_loop mx expiry now ((key, value) # rest) acc access =
     (if value \<noteq> PNone then reserve_loop mx expiry now rest acc access
      else if (case map_of access key of None \<Rightarrow> True | Some t \<Rightarrow> now - t \<ge> expiry)
      then (let acc1 = (fst acc @ [key], AList.update key (map_of access key) (snd acc)) in
            case lsod_setitem mx key now access of
              Inl e \<Rightarrow> (Inl e, access)
            | Inr access1 \<Rightarrow> reserve_loop mx expiry now rest acc1 access1)
      else reserve_loop mx expiry now rest acc access)"

definition reserve_redis_batch_keys ::
  "time \<Rightarrow> string list \<Rightarrow> pyval list \<Rightarrow> 'r dual \<Rightarrow> reservation pyres \<times> 'r dual" where
  "reserve_redis_batch_keys now keys result d =
     (case reserve_loop (batch_max_size d) (redis_batch_cache_expiry d) now (zip keys result) ([], [])
             (last_redis_batch_access_time d) of
        (r, access) \<Rightarrow> (r, d\<lparr>last_redis_batch_access_time := access\<rparr>))"

text \<open>The loop of \<^verbatim>\<open>_rollback_redis_batch_key_reservations\<close>.\<close>

fun rollback_loop ::
  "int \<Rightarrow> (string, time option) dict \<Rightarrow> (string, time) dict \<Rightarrow> unit pyres \<times> (string, time) dict" where
  "rollback_loop mx [] access = (Inr (), access)"
| "rollback_loop mx ((key, None) # rest) access = rollback_loop mx rest (AList.delete key access)"
| "rollback_loop mx ((key, Some t) # rest) access =
     (case lsod_setitem mx key t access of
        Inl e \<Rightarrow> (Inl e, access)
      | Inr access1 \<Rightarrow> rollback_loop mx rest access1)"

definition rollback_redis_batch_key_reservations ::
  "(string, time option) dict \<Rightarrow> 'r dual \<Rightarrow> unit pyres \<times> 'r dual" where
  "rollback_redis_batch_key_reservations previous d =
     (case rollback_loop (batch_max_size d) previous (last_redis_batch_access_time d) of
        (r, access) \<Rightarrow> (r, d\<lparr>last_redis_batch_access_time := access\<rparr>))"

text \<open>\<^verbatim>\<open>key_to_index\<close> of the batch read: the last position of the key.\<close>

definition key_to_index :: "string list \<Rightarrow> string \<Rightarrow> nat option" where
  "key_to_index keys k = map_of (rev (zip keys [0..<length keys])) k"

text \<open>The loop that puts what Redis returned into the result and the first level.\<close>

fun batch_fill ::
  "py_runtime \<Rightarrow> time \<Rightarrow> string list \<Rightarrow> rat option \<Rightarrow> (string, pyval) dict \<Rightarrow> pyval list \<Rightarrow> imc \<Rightarrow>
   pyval list pyres \<times> imc" where
  "batch_fill rt now keys ttl [] result c = (Inr result, c)"
| "batch_fill rt now keys ttl ((key, value) # rest) result c =
     (case key_to_index keys key of
        None \<Rightarrow> (Inl KeyError, c)
      | Some i \<Rightarrow>
        if value = PNone then batch_fill rt now keys ttl rest (result[i := value]) c
        else (case imc_set_cache rt now key value ttl c of
           (Inl e, c1) \<Rightarrow> (Inl e, c1)
         | (Inr _, c1) \<Rightarrow> batch_fill rt now keys ttl rest (result[i := value]) c1))"

text \<open>
  \<^verbatim>\<open>async_batch_get_cache\<close> (and \<^verbatim>\<open>batch_get_cache\<close>, which runs it in an event loop):
  \<^term>\<open>None\<close> is the \<^verbatim>\<open>None\<close> that a caller gets when an exception was logged.
\<close>

definition dual_batch_get_cache ::
  "'r redis_ops \<Rightarrow> py_runtime \<Rightarrow> time \<Rightarrow> time \<Rightarrow> string list \<Rightarrow> bool \<Rightarrow> ttl_kwarg \<Rightarrow> 'r dual \<Rightarrow>
   pyval list option \<times> 'r dual" where
  "dual_batch_get_cache ops rt now now' keys local_only ttl d =
     (case with_mem d (imc_batch_get_cache now keys (in_memory_cache d)) of
        (result, d1) \<Rightarrow>
        (case redis_cache d1 of
           None \<Rightarrow> (Some result, d1)
         | Some r \<Rightarrow>
           if PNone \<notin> set result \<or> local_only then (Some result, d1)
           else (case reserve_redis_batch_keys now keys result d1 of
              (Inl _, d2) \<Rightarrow> (None, d2)
            | (Inr (sublist_keys, previous), d2) \<Rightarrow>
              if sublist_keys = [] then (Some result, d2)
              else (case with_redis d2 (r_batch_get ops sublist_keys r) of
                 (Inl _, d3) \<Rightarrow> (None, snd (rollback_redis_batch_key_reservations previous d3))
               | (Inr None, d3) \<Rightarrow> (Some result, d3)
               | (Inr (Some redis_result), d3) \<Rightarrow>
                 if list_all (\<lambda>kv. snd kv = PNone) redis_result then (Some result, d3)
                 else (case with_mem d3 (batch_fill rt now' keys (kw_ttl ttl) redis_result result
                                           (in_memory_cache d3)) of
                    (Inl _, d4) \<Rightarrow> (None, d4)
                  | (Inr result', d4) \<Rightarrow> (Some result', d4))))))"

definition dual_set_cache_pipeline ::
  "'r redis_ops \<Rightarrow> py_runtime \<Rightarrow> time \<Rightarrow> (string \<times> pyval) list \<Rightarrow> bool \<Rightarrow> ttl_kwarg \<Rightarrow> 'r dual \<Rightarrow> 'r dual" where
  "dual_set_cache_pipeline ops rt now cache_list local_only ttl d =
     (let kw = dual_ttl ttl d in
      case with_mem d (imc_set_cache_pipeline rt now cache_list (kw_ttl kw) (in_memory_cache d)) of
        (Inl _, d1) \<Rightarrow> d1
      | (Inr _, d1) \<Rightarrow>
        (case redis_cache d1 of
           None \<Rightarrow> d1
         | Some r \<Rightarrow>
           if local_only then d1
           else snd (with_redis d1 (r_set_pipeline ops cache_list (kw_ttl kw) r))))"

definition dual_async_increment_cache ::
  "'r redis_ops \<Rightarrow> py_runtime \<Rightarrow> time \<Rightarrow> string \<Rightarrow> pyval \<Rightarrow> bool \<Rightarrow> ttl_kwarg \<Rightarrow> 'r dual \<Rightarrow>
   pyval pyres \<times> 'r dual" where
  "dual_async_increment_cache ops rt now key value local_only ttl d =
     (case with_mem d (imc_increment_cache rt now key value (kw_ttl ttl) (in_memory_cache d)) of
        (Inl e, d1) \<Rightarrow> (Inl e, d1)
      | (Inr result, d1) \<Rightarrow>
        (case redis_cache d1 of
           None \<Rightarrow> (Inr result, d1)
         | Some r \<Rightarrow>
           if local_only then (Inr result, d1)
           else with_redis d1 (r_async_increment ops key value (kw_ttl ttl) r)))"

definition dual_increment_cache_pipeline ::
  "'r redis_ops \<Rightarrow> py_runtime \<Rightarrow> time \<Rightarrow> increment_op list \<Rightarrow> bool \<Rightarrow> 'r dual \<Rightarrow>
   pyval list option pyres \<times> 'r dual" where
  "dual_increment_cache_pipeline ops rt now increment_list local_only d =
     (case with_mem d (imc_increment_pipeline rt now
             (map (\<lambda>i. (op_key i, increment_value i)) increment_list) (in_memory_cache d)) of
        (Inl e, d1) \<Rightarrow> (Inl e, d1)
      | (Inr result, d1) \<Rightarrow>
        (case redis_cache d1 of
           None \<Rightarrow> (Inr (Some result), d1)
         | Some r \<Rightarrow>
           if local_only then (Inr (Some result), d1)
           else with_redis d1 (r_increment_pipeline ops increment_list r)))"

definition dual_set_cache_sadd ::
  "'r redis_ops \<Rightarrow> py_runtime \<Rightarrow> time \<Rightarrow> string \<Rightarrow> pyval list \<Rightarrow> bool \<Rightarrow> ttl_kwarg \<Rightarrow> 'r dual \<Rightarrow>
   unit pyres \<times> 'r dual" where
  "dual_set_cache_sadd ops rt now key value local_only ttl d =
     (case with_mem d (imc_set_cache_sadd rt now key value (kw_ttl ttl) (in_memory_cache d)) of
        (Inl e, d1) \<Rightarrow> (Inl e, d1)
      | (Inr _, d1) \<Rightarrow>
        (case redis_cache d1 of
           None \<Rightarrow> (Inr (), d1)
         | Some r \<Rightarrow>
           if local_only then (Inr (), d1) else with_redis d1 (r_sadd ops key value (kw_ttl ttl) r)))"

definition dual_flush_cache :: "'r redis_ops \<Rightarrow> 'r dual \<Rightarrow> unit pyres \<times> 'r dual" where
  "dual_flush_cache ops d =
     (let d1 = d\<lparr>in_memory_cache := imc_flush_cache (in_memory_cache d)\<rparr> in
      case redis_cache d1 of None \<Rightarrow> (Inr (), d1) | Some r \<Rightarrow> with_redis d1 (r_flush ops r))"

text \<open>\<^verbatim>\<open>delete_cache\<close> and \<^verbatim>\<open>async_delete_cache\<close>.\<close>

definition dual_delete_cache :: "'r redis_ops \<Rightarrow> string \<Rightarrow> 'r dual \<Rightarrow> unit pyres \<times> 'r dual" where
  "dual_delete_cache ops key d =
     (let d1 = d\<lparr>in_memory_cache := imc_delete_cache key (in_memory_cache d)\<rparr> in
      case redis_cache d1 of None \<Rightarrow> (Inr (), d1) | Some r \<Rightarrow> with_redis d1 (r_delete ops key r))"

definition dual_get_ttl :: "'r redis_ops \<Rightarrow> string \<Rightarrow> 'r dual \<Rightarrow> rat option pyres \<times> 'r dual" where
  "dual_get_ttl ops key d =
     (case (imc_get_ttl key (in_memory_cache d), redis_cache d) of
        (None, Some r) \<Rightarrow> with_redis d (r_get_ttl ops key r)
      | (ttl, _) \<Rightarrow> (Inr ttl, d))"

subsection \<open>Access times\<close>

lemma lsod_setitem_wf:
  "dict_wf d \<Longrightarrow> lsod_setitem mx k v d = Inr d' \<Longrightarrow> dict_wf d'"
  by (auto simp: lsod_setitem_def split: if_splits list.splits)

lemma lsod_setitem_size:
  assumes "lsod_setitem mx k v d = Inr d'" "int (length d) \<le> max 0 mx"
  shows "int (length d') \<le> max 0 mx"
  using assms length_update_le [of k v d] length_update_le [of k v "tl d"]
  by (auto simp: lsod_setitem_def split: if_splits list.splits)

text \<open>The dict evicts nothing while its keys are among fewer than \<open>mx\<close> keys.\<close>

definition room_for :: "int \<Rightarrow> string set \<Rightarrow> (string, time) dict \<Rightarrow> bool" where
  "room_for mx K d \<longleftrightarrow> finite K \<and> int (card K) < mx \<and> dict_wf d \<and> set (dict_keys d) \<subseteq> K"

lemma room_for_length: "room_for mx K d \<Longrightarrow> int (length d) < mx"
proof -
  assume r: "room_for mx K d"
  have "length d = card (set (dict_keys d))"
    using r distinct_card [of "dict_keys d"] by (simp add: room_for_def)
  also have "\<dots> \<le> card K" using r card_mono unfolding room_for_def by blast
  finally show ?thesis using r by (simp add: room_for_def)
qed

lemma room_for_setitem: "room_for mx K d \<Longrightarrow> lsod_setitem mx k v d = Inr (AList.update k v d)"
  using room_for_length [of mx K d] by (simp add: lsod_setitem_def)

lemma room_for_update: "room_for mx K d \<Longrightarrow> k \<in> K \<Longrightarrow> room_for mx K (AList.update k v d)"
  by (auto simp: room_for_def keys_update)

lemma room_for_delete: "room_for mx K d \<Longrightarrow> room_for mx K (AList.delete k d)"
  unfolding room_for_def using keys_delete [of k d] dict_wf_delete [of d k] by blast

lemma room_for_keys: "room_for mx K d \<Longrightarrow> map_of d k = Some t \<Longrightarrow> k \<in> K"
  unfolding room_for_def by (blast dest: map_of_Some_key)

text \<open>What a reservation does when nothing is evicted.\<close>

definition may_read :: "rat \<Rightarrow> time \<Rightarrow> (string, time) dict \<Rightarrow> string \<Rightarrow> bool" where
  "may_read expiry now d k \<longleftrightarrow> (case map_of d k of None \<Rightarrow> True | Some t \<Rightarrow> now - t \<ge> expiry)"

definition reserved :: "time \<Rightarrow> string list \<Rightarrow> (string \<rightharpoonup> time) \<Rightarrow> (string \<rightharpoonup> time)" where
  "reserved now ks m = (\<lambda>k. if k \<in> set ks then Some now else m k)"

lemma reserve_loop_spec:
  assumes "room_for mx K d" "fst ` set kvs \<subseteq> K" "0 < expiry"
    and "\<forall>k \<in> set (dict_keys (snd acc)). map_of d k = Some now"
  shows "\<exists>sub d'. reserve_loop mx expiry now kvs acc d =
       (Inr (fst acc @ sub, snd acc @ map (\<lambda>k. (k, map_of d k)) sub), d') \<and>
     room_for mx K d' \<and> map_of d' = reserved now sub (map_of d) \<and> distinct sub \<and>
     set sub = {k. (k, PNone) \<in> set kvs \<and> may_read expiry now d k}"
  using assms(1,2,4)
proof (induction kvs arbitrary: acc d)
  case Nil
  then show ?case by (simp add: reserved_def)
next
  case (Cons kv kvs)
  obtain k v where kv: "kv = (k, v)" by (cases kv)
  show ?case
  proof (cases "v = PNone \<and> may_read expiry now d k")
    case False
    then have "reserve_loop mx expiry now (kv # kvs) acc d = reserve_loop mx expiry now kvs acc d"
      by (auto simp: kv may_read_def)
    moreover have "{x. (x, PNone) \<in> set (kv # kvs) \<and> may_read expiry now d x} =
        {x. (x, PNone) \<in> set kvs \<and> may_read expiry now d x}"
      using False by (auto simp: kv)
    ultimately show ?thesis using Cons.IH [of d acc] Cons.prems by simp
  next
    case True
    let ?d1 = "AList.update k now d"
    let ?acc1 = "(fst acc @ [k], AList.update k (map_of d k) (snd acc))"
    have new: "k \<notin> set (dict_keys (snd acc))"
      using True Cons.prems(3) assms(3) by (auto simp: may_read_def)
    then have upd: "AList.update k (map_of d k) (snd acc) = snd acc @ [(k, map_of d k)]"
      by (rule update_absent)
    have r1: "room_for mx K ?d1" using Cons.prems room_for_update by (simp add: kv)
    have inv1: "\<forall>x \<in> set (dict_keys (snd ?acc1)). map_of ?d1 x = Some now"
      using Cons.prems(3) by (simp add: upd)
    have step: "reserve_loop mx expiry now (kv # kvs) acc d = reserve_loop mx expiry now kvs ?acc1 ?d1"
      using True room_for_setitem [OF Cons.prems(1)] by (simp add: kv may_read_def Let_def)
    obtain sub d' where ih: "reserve_loop mx expiry now kvs ?acc1 ?d1 =
        (Inr (fst ?acc1 @ sub, snd ?acc1 @ map (\<lambda>x. (x, map_of ?d1 x)) sub), d')"
      "room_for mx K d'" "map_of d' = reserved now sub (map_of ?d1)" "distinct sub"
      "set sub = {x. (x, PNone) \<in> set kvs \<and> may_read expiry now ?d1 x}"
      using Cons.IH [OF r1 _ inv1] Cons.prems(2) by fastforce
    have notk: "k \<notin> set sub" using ih(5) assms(3) by (simp add: may_read_def)
    have "map (\<lambda>x. (x, map_of ?d1 x)) sub = map (\<lambda>x. (x, map_of d x)) sub" using notk by auto
    then have res: "reserve_loop mx expiry now (kv # kvs) acc d =
        (Inr (fst acc @ (k # sub), snd acc @ map (\<lambda>x. (x, map_of d x)) (k # sub)), d')"
      using step ih(1) by (simp add: upd)
    have m: "map_of d' = reserved now (k # sub) (map_of d)"
      using ih(3) by (auto simp: reserved_def)
    have "set (k # sub) = {x. (x, PNone) \<in> set (kv # kvs) \<and> may_read expiry now d x}"
      using ih(5) True notk by (auto simp: kv may_read_def)
    then show ?thesis using res ih(2,4) m notk by (intro exI [of _ "k # sub"] exI [of _ d']) simp
  qed
qed

lemma rollback_loop_spec:
  assumes "room_for mx K d" "distinct sub" "set sub \<subseteq> K"
  shows "\<exists>d'. rollback_loop mx (map (\<lambda>k. (k, m k)) sub) d = (Inr (), d') \<and> dict_wf d' \<and>
     map_of d' = (\<lambda>k. if k \<in> set sub then m k else map_of d k)"
  using assms
proof (induction sub arbitrary: d)
  case Nil
  then show ?case by (simp add: room_for_def)
next
  case (Cons k sub)
  let ?d1 = "case m k of None \<Rightarrow> AList.delete k d | Some t \<Rightarrow> AList.update k t d"
  have step: "rollback_loop mx (map (\<lambda>k. (k, m k)) (k # sub)) d = rollback_loop mx (map (\<lambda>k. (k, m k)) sub) ?d1"
    using room_for_setitem [OF Cons.prems(1)] by (cases "m k") auto
  have "room_for mx K ?d1"
    using Cons.prems room_for_update room_for_delete by (cases "m k") auto
  then obtain d' where d': "rollback_loop mx (map (\<lambda>k. (k, m k)) sub) ?d1 = (Inr (), d')" "dict_wf d'"
    "map_of d' = (\<lambda>x. if x \<in> set sub then m x else map_of ?d1 x)"
    using Cons.IH [of ?d1] Cons.prems by auto
  moreover have "map_of ?d1 = (map_of d)(k := m k)" by (cases "m k") auto
  ultimately show ?case using step Cons.prems(2) by auto
qed

lemma reserve_loop_wf:
  assumes "dict_wf d" "int (length d) \<le> max 0 mx" "reserve_loop mx expiry now kvs acc d = (r, d')"
  shows "dict_wf d' \<and> int (length d') \<le> max 0 mx"
  using assms
proof (induction mx expiry now kvs acc d rule: reserve_loop.induct)
  case (2 mx expiry now key v rest acc d)
  then show ?case
    using lsod_setitem_wf [of d mx key now] lsod_setitem_size [of mx key now d]
    by (auto simp: Let_def split: if_splits sum.splits option.splits)
qed simp

lemma rollback_loop_wf:
  assumes "dict_wf d" "int (length d) \<le> max 0 mx" "rollback_loop mx ps d = (r, d')"
  shows "dict_wf d' \<and> int (length d') \<le> max 0 mx"
  using assms
proof (induction mx ps d rule: rollback_loop.induct)
  case (2 mx key rest d)
  then show ?case using length_delete_le [of key d] by auto
next
  case (3 mx key t rest d)
  then show ?case
    using lsod_setitem_wf [of d mx key t] lsod_setitem_size [of mx key t d]
    by (auto split: sum.splits)
qed simp

subsection \<open>Invariant\<close>

definition dual_inv :: "'r dual \<Rightarrow> bool" where
  "dual_inv d \<longleftrightarrow> imc_inv (in_memory_cache d) \<and> dict_wf (last_redis_batch_access_time d) \<and>
     int (length (last_redis_batch_access_time d)) \<le> max 0 (batch_max_size d)"

lemma with_mem_simps [simp]:
  "fst (with_mem d p) = fst p" "snd (with_mem d p) = d\<lparr>in_memory_cache := snd p\<rparr>"
  by (simp_all add: with_mem_def)

lemma with_redis_simps [simp]:
  "fst (with_redis d p) = fst p" "snd (with_redis d p) = d\<lparr>redis_cache := Some (snd p)\<rparr>"
  by (simp_all add: with_redis_def)

lemma with_mem_eq: "with_mem d (r, c) = (r, d\<lparr>in_memory_cache := c\<rparr>)"
  by (simp add: with_mem_def)

lemma with_redis_eq: "with_redis d (r, q) = (r, d\<lparr>redis_cache := Some q\<rparr>)"
  by (simp add: with_redis_def)

lemma dual_inv_redis [simp]: "dual_inv (d\<lparr>redis_cache := q\<rparr>) = dual_inv d"
  by (simp add: dual_inv_def)

lemma dual_inv_mem [simp]: "dual_inv d \<Longrightarrow> dual_inv (d\<lparr>in_memory_cache := c\<rparr>) = imc_inv c"
  by (simp add: dual_inv_def)

lemma dual_inv_imc: "dual_inv d \<Longrightarrow> imc_inv (in_memory_cache d)"
  by (simp add: dual_inv_def)

lemma snd_inv: "(\<And>r c'. f = (r, c') \<Longrightarrow> P c') \<Longrightarrow> P (snd f)"
  by (cases f) simp

text \<open>The invariants of the first level, in the form the two-level methods need.\<close>

lemma imc_ops_inv:
  assumes "imc_inv c"
  shows "imc_inv (snd (imc_set_cache rt now k v ttl c))"
    "imc_inv (snd (imc_set_cache_pipeline rt now kvs ttl c))"
    "imc_inv (snd (imc_get_cache now k c))"
    "imc_inv (snd (imc_batch_get_cache now ks c))"
    "imc_inv (snd (imc_increment_cache rt now k v ttl c))"
    "imc_inv (snd (imc_increment_pipeline rt now kvs c))"
    "imc_inv (snd (imc_set_cache_sadd rt now k vs ttl c))"
    "imc_inv (imc_flush_cache c)" "imc_inv (imc_delete_cache k c)"
  using assms
  by (auto intro!: snd_inv [where P = imc_inv] imc_inv_remove_key simp: imc_flush_inv imc_delete_cache_def
      dest: imc_set_cache_inv imc_set_cache_pipeline_inv imc_get_cache_inv imc_batch_get_cache_inv
        imc_increment_cache_inv imc_increment_pipeline_inv imc_set_cache_sadd_inv)

lemma batch_fill_inv:
  "imc_inv c \<Longrightarrow> imc_inv (snd (batch_fill rt now keys ttl kvs result c))"
proof (induction rt now keys ttl kvs result c rule: batch_fill.induct)
  case (2 rt now keys ttl key v rest result c)
  then show ?case
    using imc_ops_inv(1) [OF "2.prems", of rt now key v ttl]
    by (auto split: option.split sum.split prod.split)
qed simp

lemma reserve_inv: "dual_inv d \<Longrightarrow> dual_inv (snd (reserve_redis_batch_keys now keys result d))"
  unfolding reserve_redis_batch_keys_def
  by (auto simp: dual_inv_def split: prod.split dest: reserve_loop_wf)

lemma rollback_inv: "dual_inv d \<Longrightarrow> dual_inv (snd (rollback_redis_batch_key_reservations prev d))"
  unfolding rollback_redis_batch_key_reservations_def
  by (auto simp: dual_inv_def split: prod.split dest: rollback_loop_wf)

lemma reserve_frame:
  "reserve_redis_batch_keys now keys result d = (r, d') \<Longrightarrow>
   in_memory_cache d' = in_memory_cache d \<and> redis_cache d' = redis_cache d"
  by (auto simp: reserve_redis_batch_keys_def split: prod.splits)

lemma dual_batch_get_cache_inv [inv_intros]:
  assumes "dual_inv d"
  shows "dual_inv (snd (dual_batch_get_cache ops rt now now' keys lo ttl d))"
proof -
  let ?p = "imc_batch_get_cache now keys (in_memory_cache d)"
  let ?d1 = "d\<lparr>in_memory_cache := snd ?p\<rparr>"
  have i1: "dual_inv ?d1" using assms imc_ops_inv(4) dual_inv_imc by (metis dual_inv_mem)
  obtain r2 d2 where r2: "reserve_redis_batch_keys now keys (fst ?p) ?d1 = (r2, d2)"
    by (cases "reserve_redis_batch_keys now keys (fst ?p) ?d1")
  have i2: "dual_inv d2" using reserve_inv [OF i1, of now keys "fst ?p"] r2 by simp
  have i3: "dual_inv (snd (rollback_redis_batch_key_reservations prev (d2\<lparr>redis_cache := q\<rparr>)))" for prev q
    using i2 by (intro rollback_inv) simp
  have i4: "imc_inv (snd (batch_fill rt now' keys t kvs res (in_memory_cache d2)))" for t kvs res
    by (rule batch_fill_inv [OF dual_inv_imc [OF i2]])
  show ?thesis
    using i1 i2 i3 i4 r2
    by (auto simp: dual_batch_get_cache_def with_mem_def with_redis_def
        split: option.split sum.split prod.split)
qed

lemma dual_ops_inv [inv_intros]:
  assumes "dual_inv d"
  shows "dual_inv (dual_set_cache ops rt now k v lo ttl d)"
    "dual_inv (snd (dual_increment_cache ops rt now k v lo ttl d))"
    "dual_inv (snd (dual_async_increment_cache ops rt now k v lo ttl d))"
    "dual_inv (snd (dual_increment_cache_pipeline ops rt now incs lo d))"
    "dual_inv (dual_set_cache_pipeline ops rt now kvs lo ttl d)"
    "dual_inv (snd (dual_set_cache_sadd ops rt now k vs lo ttl d))"
    "dual_inv (snd (dual_flush_cache ops d))"
    "dual_inv (snd (dual_delete_cache ops k d))"
    "dual_inv (snd (dual_get_ttl ops k d))"
    "dual_inv (update_cache_ttl mt rtt d)"
proof -
  note m = imc_ops_inv [OF dual_inv_imc [OF assms]]
  show "dual_inv (dual_set_cache ops rt now k v lo ttl d)"
    using assms m(1) [of rt now k v "kw_ttl (dual_ttl ttl d)"]
    by (simp add: dual_set_cache_def Let_def with_mem_def split: option.split sum.split)
  show "dual_inv (snd (dual_increment_cache ops rt now k v lo ttl d))"
    "dual_inv (snd (dual_async_increment_cache ops rt now k v lo ttl d))"
    using assms m(5) [of rt now k v "kw_ttl ttl"]
    by (simp_all add: dual_increment_cache_def dual_async_increment_cache_def with_mem_def
        split: option.split sum.split)
  show "dual_inv (snd (dual_increment_cache_pipeline ops rt now incs lo d))"
    using assms m(6) [of rt now "map (\<lambda>i. (op_key i, increment_value i)) incs"]
    by (simp add: dual_increment_cache_pipeline_def with_mem_def split: option.split sum.split)
  show "dual_inv (dual_set_cache_pipeline ops rt now kvs lo ttl d)"
    using assms m(2) [of rt now kvs "kw_ttl (dual_ttl ttl d)"]
    by (simp add: dual_set_cache_pipeline_def Let_def with_mem_def split: option.split sum.split)
  show "dual_inv (snd (dual_set_cache_sadd ops rt now k vs lo ttl d))"
    using assms m(7) [of rt now k vs "kw_ttl ttl"]
    by (simp add: dual_set_cache_sadd_def with_mem_def split: option.split sum.split)
  show "dual_inv (snd (dual_flush_cache ops d))" "dual_inv (snd (dual_delete_cache ops k d))"
    using assms m(8,9) by (simp_all add: dual_flush_cache_def dual_delete_cache_def Let_def split: option.split)
  show "dual_inv (snd (dual_get_ttl ops k d))"
    using assms by (auto simp: dual_get_ttl_def split: option.split)
  show "dual_inv (update_cache_ttl mt rtt d)"
    using assms by (simp add: update_cache_ttl_def Let_def dual_inv_def split: option.split)
qed

lemma dual_get_cache_inv [inv_intros]:
  assumes "dual_inv d"
  shows "dual_inv (snd (dual_get_cache ops rt now now' k lo ttl d))"
proof -
  let ?c = "snd (imc_get_cache now k (in_memory_cache d))"
  have c: "imc_inv ?c" using imc_ops_inv(3) dual_inv_imc [OF assms] .
  then have "imc_inv (snd (imc_set_cache rt now' k v t ?c))" for v t by (rule imc_ops_inv(1))
  then show ?thesis
    using assms c by (simp add: dual_get_cache_def with_mem_def with_redis_def split: option.split sum.split)
qed

subsection \<open>Reachable states\<close>

text \<open>
  One step of a process that shares the cache. A batch read waits for Redis between its reservation
  and its end, so the reservation, the filling and the rollback are steps of their own, and other
  processes may change what Redis holds at any time (\<open>other\<close>).
\<close>

inductive dual_step :: "'r redis_ops \<Rightarrow> py_runtime \<Rightarrow> 'r dual \<Rightarrow> 'r dual \<Rightarrow> bool" for ops rt where
  dstep_set: "dual_step ops rt d (dual_set_cache ops rt now k v lo ttl d)"
| dstep_increment: "dual_step ops rt d (snd (dual_increment_cache ops rt now k v lo ttl d))"
| dstep_async_increment: "dual_step ops rt d (snd (dual_async_increment_cache ops rt now k v lo ttl d))"
| dstep_increment_pipeline: "dual_step ops rt d (snd (dual_increment_cache_pipeline ops rt now incs lo d))"
| dstep_set_pipeline: "dual_step ops rt d (dual_set_cache_pipeline ops rt now kvs lo ttl d)"
| dstep_sadd: "dual_step ops rt d (snd (dual_set_cache_sadd ops rt now k vs lo ttl d))"
| dstep_get: "dual_step ops rt d (snd (dual_get_cache ops rt now now' k lo ttl d))"
| dstep_batch_get: "dual_step ops rt d (snd (dual_batch_get_cache ops rt now now' keys lo ttl d))"
| dstep_reserve: "dual_step ops rt d (snd (reserve_redis_batch_keys now keys result d))"
| dstep_rollback: "dual_step ops rt d (snd (rollback_redis_batch_key_reservations prev d))"
| dstep_fill: "dual_step ops rt d
    (d\<lparr>in_memory_cache := snd (batch_fill rt now keys t kvs result (in_memory_cache d))\<rparr>)"
| dstep_flush: "dual_step ops rt d (snd (dual_flush_cache ops d))"
| dstep_delete: "dual_step ops rt d (snd (dual_delete_cache ops k d))"
| dstep_get_ttl: "dual_step ops rt d (snd (dual_get_ttl ops k d))"
| dstep_update_ttl: "dual_step ops rt d (update_cache_ttl mt rtt d)"
| dstep_other: "dual_step ops rt d (d\<lparr>redis_cache := map_option f (redis_cache d)\<rparr>)"

inductive dual_reachable :: "'r redis_ops \<Rightarrow> py_runtime \<Rightarrow> 'r dual \<Rightarrow> bool" for ops rt where
  dreach_init: "dual_reachable ops rt (dual_init cs None redis mt rtt be bmax)"
| dreach_step: "dual_reachable ops rt d \<Longrightarrow> dual_step ops rt d d' \<Longrightarrow> dual_reachable ops rt d'"

lemma dual_step_inv: "dual_step ops rt d d' \<Longrightarrow> dual_inv d \<Longrightarrow> dual_inv d'"
  by (induction rule: dual_step.induct)
    (simp_all add: dual_ops_inv dual_get_cache_inv dual_batch_get_cache_inv reserve_inv rollback_inv
      batch_fill_inv dual_inv_imc)

lemma dual_reachable_inv: "dual_reachable ops rt d \<Longrightarrow> dual_inv d"
proof (induction rule: dual_reachable.induct)
  case (dreach_init cs redis mt rtt be bmax)
  then show ?case by (simp add: dual_inv_def dual_init_def imc_inv_init)
qed (rule dual_step_inv)

subsection \<open>The cache without Redis as a key-value store\<close>

definition dual_peek :: "time \<Rightarrow> string \<Rightarrow> 'r dual \<Rightarrow> pyval" where
  "dual_peek now k d = imc_peek now k (in_memory_cache d)"

definition dual_after_get :: "'r redis_ops \<Rightarrow> py_runtime \<Rightarrow> time \<Rightarrow> string \<Rightarrow> 'r dual \<Rightarrow> 'r dual" where
  "dual_after_get ops rt now k d = snd (dual_get_cache ops rt now now k False None d)"

definition dual_local :: "ttl_kwarg \<Rightarrow> 'r dual \<Rightarrow> bool" where
  "dual_local ttl d \<longleftrightarrow>
     redis_cache d = None \<and> imc_usable (kw_ttl (dual_ttl ttl d)) (in_memory_cache d)"

definition dual_put ::
  "'r redis_ops \<Rightarrow> py_runtime \<Rightarrow> ttl_kwarg \<Rightarrow> time \<Rightarrow> string \<Rightarrow> pyval \<Rightarrow> 'r dual \<Rightarrow> 'r dual" where
  "dual_put ops rt ttl now k v d = dual_set_cache ops rt now k v False ttl d"

lemma dual_put_local:
  "redis_cache d = None \<Longrightarrow> dual_put ops rt ttl now k v d =
     d\<lparr>in_memory_cache := imc_put rt (kw_ttl (dual_ttl ttl d)) now k v (in_memory_cache d)\<rparr>"
  by (simp add: dual_put_def dual_set_cache_def Let_def with_mem_def imc_put_def split: sum.split)

lemma dual_get_local:
  "redis_cache d = None \<Longrightarrow> dual_get_cache ops rt now now' k lo ttl d =
     (dual_peek now k d, d\<lparr>in_memory_cache := imc_after_get now k (in_memory_cache d)\<rparr>)"
  by (simp add: dual_get_cache_def with_mem_def imc_after_get_def dual_peek_def imc_peek_def)

lemma dual_ttl_mem [simp]: "dual_ttl ttl (d\<lparr>in_memory_cache := c\<rparr>) = dual_ttl ttl d"
  by (simp add: dual_ttl_def)

abbreviation dual_room :: "'r dual \<Rightarrow> bool" where
  "dual_room d \<equiv> int (length (cache_dict (in_memory_cache d))) < max_size_in_memory (in_memory_cache d)"

interpretation dcs: kv_store "dual_put ops rt ttl" dual_peek "dual_after_get ops rt" json_view
  "\<lambda>d. check_value_size rt (in_memory_cache d)" dual_room "dual_local ttl" for ops rt ttl
proof unfold_locales
  fix d :: "'a dual" and now now' k k' v w
  assume loc: "dual_local ttl d"
  let ?t = "kw_ttl (dual_ttl ttl d)" let ?c = "in_memory_cache d"
  from loc have n: "redis_cache d = None" and u: "imc_usable ?t ?c" by (simp_all add: dual_local_def)
  note put = dual_put_local [OF n, of ops rt ttl now k v]
  have get: "dual_after_get ops rt now k d = d\<lparr>in_memory_cache := imc_after_get now k ?c\<rparr>"
    by (simp add: dual_after_get_def dual_get_local n)
  show "dual_local ttl (dual_put ops rt ttl now k v d)"
    using imcs.put_invar [OF u] n by (simp add: put dual_local_def)
  show "dual_local ttl (dual_after_get ops rt now k d)"
    using imcs.get_invar [OF u] n by (simp add: get dual_local_def)
  show "dual_peek now k (dual_put ops rt ttl now k v d) = json_view v" if "check_value_size rt ?c v"
    using imcs.peek_put_same [OF u that] by (simp add: put dual_peek_def)
  show "dual_peek now' k' (dual_put ops rt ttl now k v d) = dual_peek now' k' d"
    if "dual_room d" "k' \<noteq> k"
    using imcs.peek_put_other [OF u that] by (simp add: put dual_peek_def)
  show "dual_peek now' k' (dual_put ops rt ttl now k v d) \<in> {dual_peek now' k' d, PNone}" if "k' \<noteq> k"
    using imcs.peek_put_evict [OF u that] by (simp add: put dual_peek_def)
  show "dual_peek now k' (dual_after_get ops rt now k d) = dual_peek now k' d"
    using imcs.peek_get [OF u] by (simp add: get dual_peek_def)
  show "check_value_size rt (in_memory_cache (dual_put ops rt ttl now k v d)) w = check_value_size rt ?c w"
    using imcs.fits_put [OF u] by (simp add: put)
  show "check_value_size rt (in_memory_cache (dual_after_get ops rt now k d)) w = check_value_size rt ?c w"
    using imcs.fits_get [OF u] by (simp add: get)
  show "dual_room (dual_after_get ops rt now k d)" if "dual_room d"
    using imcs.roomy_get [OF u that] by (simp add: get)
qed

subsection \<open>Batch reads\<close>

lemma key_to_index_distinct:
  assumes "distinct keys" "i < length keys"
  shows "key_to_index keys (keys ! i) = Some i"
proof -
  let ?ps = "rev (zip keys [0..<length keys])"
  have "distinct (map fst ?ps)" using assms by (simp add: rev_map [symmetric])
  moreover have "(keys ! i, i) \<in> set ?ps" using assms(2) by (force simp: set_zip)
  ultimately show ?thesis unfolding key_to_index_def by (simp add: map_of_is_SomeI)
qed

lemma batch_fill_spec:
  assumes "distinct keys" "dict_wf kvs" "set (dict_keys kvs) \<subseteq> set keys" "length res = length keys"
    and "imc_inv c" "0 \<le> max_size_in_memory c"
  shows "\<exists>c'. batch_fill rt now keys ttl kvs res c =
     (Inr (map (\<lambda>(k, v). dict_get kvs k v) (zip keys res)), c')"
  using assms(2-)
proof (induction kvs arbitrary: res c)
  case Nil
  then show ?case by (auto simp: dict_get_def intro!: nth_equalityI)
next
  case (Cons kv kvs)
  obtain k v where kv: "kv = (k, v)" by (cases kv)
  obtain i where i: "i < length keys" "keys ! i = k"
    using Cons.prems(2) by (auto simp: kv in_set_conv_nth)
  have idx: "key_to_index keys k = Some i" using key_to_index_distinct [OF assms(1) i(1)] i(2) by simp
  have eq: "map (\<lambda>(x, w). dict_get kvs x w) (zip keys (res[i := v])) =
      map (\<lambda>(x, w). dict_get (kv # kvs) x w) (zip keys res)"
  proof (rule nth_equalityI)
    fix j assume j: "j < length (map (\<lambda>(x, w). dict_get kvs x w) (zip keys (res[i := v])))"
    have none: "map_of kvs k = None" using Cons.prems(1) by (auto simp: kv map_of_None_key)
    show "map (\<lambda>(x, w). dict_get kvs x w) (zip keys (res[i := v])) ! j =
        map (\<lambda>(x, w). dict_get (kv # kvs) x w) (zip keys res) ! j"
      using j i none assms(1) nth_eq_iff_index_eq [OF assms(1), of i j]
      by (cases "j = i") (auto simp: kv dict_get_def)
  qed simp
  have ih: "\<exists>c'. batch_fill rt now keys ttl kvs (res[i := v]) c1 =
      (Inr (map (\<lambda>(x, w). dict_get (kv # kvs) x w) (zip keys res)), c')"
    if "imc_inv c1" "0 \<le> max_size_in_memory c1" for c1
    using Cons.IH [of "res[i := v]" c1] that Cons.prems eq by (auto simp: kv)
  show ?case
  proof (cases "v = PNone")
    case True
    then show ?thesis using ih [OF Cons.prems(4,5)] idx by (simp add: kv)
  next
    case False
    obtain c1 where c1: "imc_set_cache rt now k v ttl c = (Inr (), c1)"
      using imc_set_cache_total [OF Cons.prems(4,5)] by blast
    then have "imc_inv c1 \<and> 0 \<le> max_size_in_memory c1"
      using imc_set_cache_inv [OF Cons.prems(4) c1] Cons.prems(5) by (simp add: same_config_def)
    then show ?thesis using ih [of c1] c1 idx False by (simp add: kv)
  qed
qed

text \<open>The misses of a batch read of which the throttle lets none pass, or all.\<close>

lemma reserve_spec:
  assumes "room_for (batch_max_size d) K (last_redis_batch_access_time d)" "set keys \<subseteq> K"
    "0 < redis_batch_cache_expiry d"
  shows "\<exists>sub d'. reserve_redis_batch_keys now keys res d =
       (Inr (sub, map (\<lambda>k. (k, map_of (last_redis_batch_access_time d) k)) sub), d') \<and>
     d' = d\<lparr>last_redis_batch_access_time := last_redis_batch_access_time d'\<rparr> \<and>
     room_for (batch_max_size d) K (last_redis_batch_access_time d') \<and>
     map_of (last_redis_batch_access_time d') = reserved now sub (map_of (last_redis_batch_access_time d)) \<and>
     distinct sub \<and> set sub = {k. (k, PNone) \<in> set (zip keys res) \<and>
       may_read (redis_batch_cache_expiry d) now (last_redis_batch_access_time d) k}"
proof -
  have "fst ` set (zip keys res) \<subseteq> K" using assms(2) by (auto dest: set_zip_leftD)
  from reserve_loop_spec [OF assms(1) this assms(3), of "([], [])" now]
  obtain sub a where "reserve_loop (batch_max_size d) (redis_batch_cache_expiry d) now (zip keys res) ([], [])
      (last_redis_batch_access_time d) =
      (Inr (sub, map (\<lambda>k. (k, map_of (last_redis_batch_access_time d) k)) sub), a)"
    "room_for (batch_max_size d) K a"
    "map_of a = reserved now sub (map_of (last_redis_batch_access_time d))" "distinct sub"
    "set sub = {k. (k, PNone) \<in> set (zip keys res) \<and>
       may_read (redis_batch_cache_expiry d) now (last_redis_batch_access_time d) k}"
    by auto
  then show ?thesis
    by (intro exI [of _ sub] exI [of _ "d\<lparr>last_redis_batch_access_time := a\<rparr>"])
      (simp add: reserve_redis_batch_keys_def)
qed

text \<open>
  A history of batch reads by any number of concurrent callers, as the times and keys of their
  reservations; the result lists which key is read from Redis when.
\<close>

fun redis_reads ::
  "(time \<times> string list \<times> pyval list) list \<Rightarrow> 'r dual \<Rightarrow> (string \<times> time) list" where
  "redis_reads [] d = []"
| "redis_reads ((now, keys, result) # rest) d =
     (case reserve_redis_batch_keys now keys result d of
        (Inl _, d1) \<Rightarrow> redis_reads rest d1
      | (Inr (sub, _), d1) \<Rightarrow> map (\<lambda>k. (k, now)) sub @ redis_reads rest d1)"

lemma redis_reads_spaced:
  assumes "room_for (batch_max_size d) K (last_redis_batch_access_time d)"
    "\<forall>(t, keys, res) \<in> set calls. set keys \<subseteq> K" "0 < redis_batch_cache_expiry d"
  shows "sorted_wrt (\<lambda>(k, t) (k', t'). k = k' \<longrightarrow> t' - t \<ge> redis_batch_cache_expiry d) (redis_reads calls d) \<and>
     (\<forall>(k, t) \<in> set (redis_reads calls d). \<forall>t0. map_of (last_redis_batch_access_time d) k = Some t0 \<longrightarrow>
        t - t0 \<ge> redis_batch_cache_expiry d)"
  using assms
proof (induction calls d rule: redis_reads.induct)
  case (2 now keys res rest d)
  let ?e = "redis_batch_cache_expiry d" let ?m = "map_of (last_redis_batch_access_time d)"
  obtain sub d' where r: "reserve_redis_batch_keys now keys res d = (Inr (sub, map (\<lambda>k. (k, ?m k)) sub), d')"
    "d' = d\<lparr>last_redis_batch_access_time := last_redis_batch_access_time d'\<rparr>"
    "room_for (batch_max_size d) K (last_redis_batch_access_time d')"
    "map_of (last_redis_batch_access_time d') = reserved now sub ?m" "distinct sub"
    "set sub = {k. (k, PNone) \<in> set (zip keys res) \<and> may_read ?e now (last_redis_batch_access_time d) k}"
    using reserve_spec [OF "2.prems"(1) _ "2.prems"(3), of keys now res] "2.prems"(2) by auto
  have e': "redis_batch_cache_expiry d' = ?e" "batch_max_size d' = batch_max_size d" by (subst r(2), simp)+
  have rest: "\<forall>(t, keys, res) \<in> set rest. set keys \<subseteq> K" using "2.prems"(2) by auto
  have ih: "sorted_wrt (\<lambda>(k, t) (k', t'). k = k' \<longrightarrow> t' - t \<ge> ?e) (redis_reads rest d')"
    "\<forall>(k, t) \<in> set (redis_reads rest d'). \<forall>t0. reserved now sub ?m k = Some t0 \<longrightarrow> t - t0 \<ge> ?e"
    using "2.IH"(2) [OF r(1) [symmetric] refl refl] r(3) rest "2.prems"(3) by (simp_all add: e' r(4))
  have own: "now - t0 \<ge> ?e" if "k \<in> set sub" "?m k = Some t0" for k t0
    using that r(6) by (simp add: may_read_def)
  have later: "t - t0 \<ge> ?e" if "(k, t) \<in> set (redis_reads rest d')" "?m k = Some t0" for k t t0
  proof (cases "k \<in> set sub")
    case True
    then have "t - now \<ge> ?e" using ih(2) that(1) by (auto simp: reserved_def)
    with own [OF True that(2)] "2.prems"(3) show ?thesis by linarith
  next
    case False
    then show ?thesis using ih(2) that by (auto simp: reserved_def)
  qed
  have "sorted_wrt (\<lambda>(k, t) (k', t'). k = k' \<longrightarrow> t' - t \<ge> ?e) (map (\<lambda>k. (k, now)) sub)"
    using r(5) by (induction sub) (auto simp: sorted_wrt_map)
  moreover have "\<forall>x \<in> set (map (\<lambda>k. (k, now)) sub). \<forall>y \<in> set (redis_reads rest d').
      fst x = fst y \<longrightarrow> snd y - snd x \<ge> ?e"
    using ih(2) by (auto simp: reserved_def)
  ultimately show ?case
    using ih(1) own later by (fastforce simp: r(1) sorted_wrt_append)
qed simp

subsection \<open>Properties\<close>

text \<open>A Redis that keeps a dict and one that is down, for the witnesses.\<close>

abbreviation redis_up :: "(string, pyval) dict redis_ops" where
  "redis_up \<equiv> \<lparr>r_set = (\<lambda>k v _ r. (Inr (), AList.update k v r)),
     r_get = (\<lambda>k r. (Inr (dict_get r k PNone), r)),
     r_batch_get = (\<lambda>ks r. (Inr (Some (map (\<lambda>k. (k, dict_get r k PNone)) ks)), r)),
     r_set_pipeline = (\<lambda>kvs _ r. (Inr (), fold (\<lambda>(k, v). AList.update k v) kvs r)),
     r_increment = (\<lambda>k v _ r. (Inr v, AList.update k v r)),
     r_async_increment = (\<lambda>k v _ r. (Inr v, AList.update k v r)),
     r_increment_pipeline = (\<lambda>_ r. (Inr None, r)),
     r_sadd = (\<lambda>_ _ _ r. (Inr (), r)),
     r_flush = (\<lambda>r. (Inr (), [])),
     r_delete = (\<lambda>k r. (Inr (), AList.delete k r)),
     r_get_ttl = (\<lambda>_ r. (Inr None, r))\<rparr>"

abbreviation redis_down :: "(string, pyval) dict redis_ops" where
  "redis_down \<equiv> redis_up\<lparr>r_set := (\<lambda>_ _ _ r. (Inl (OtherError ''down''), r)),
     r_get := (\<lambda>_ r. (Inl (OtherError ''down''), r)),
     r_batch_get := (\<lambda>_ r. (Inl (OtherError ''down''), r))\<rparr>"

abbreviation dual0 :: "(string, pyval) dict dual" where
  "dual0 \<equiv> dual_init no_settings None (Some [(''k'', PInt 5)]) None None None
     DEFAULT_MAX_REDIS_BATCH_CACHE_SIZE"

lemma dual0_reachable: "dual_reachable ops rt dual0"
  by (rule dreach_init)

text \<open>
  Property C30. Whatever Redis answers or raises and however the callers interleave, every reachable
  two-level cache keeps its in-memory level consistent and within its size, and the access times of
  batch reads within theirs.
\<close>

theorem dual_reachable_consistent:
  assumes "dual_reachable ops rt d"
  shows "imc_inv (in_memory_cache d) \<and> dict_wf (last_redis_batch_access_time d) \<and>
    int (length (last_redis_batch_access_time d)) \<le> max 0 (batch_max_size d)"
  using dual_reachable_inv [OF assms] by (simp add: dual_inv_def)

theorem dual_reachable_consistent_witness:
  "imc_inv (in_memory_cache (snd (dual_batch_get_cache redis_up rt0 7 8 [''k'', ''j''] False None dual0))) \<and>
   length (last_redis_batch_access_time (snd (dual_batch_get_cache redis_up rt0 7 8 [''k'', ''j''] False None dual0))) = 2"
proof
  show "imc_inv (in_memory_cache (snd (dual_batch_get_cache redis_up rt0 7 8 [''k'', ''j''] False None dual0)))"
    using dual_reachable_consistent [OF dreach_step [OF dual0_reachable dstep_batch_get]] by blast
  show "length (last_redis_batch_access_time (snd (dual_batch_get_cache redis_up rt0 7 8 [''k'', ''j''] False None dual0))) = 2"
    by code_simp
qed

text \<open>
  A write through \<^verbatim>\<open>set_cache\<close> is read back from the in-memory level even when
  Redis raises on every call, and the read does not touch Redis: for every behaviour of the second
  level, the value comes back (through \<^verbatim>\<open>json.loads\<close> if it is a string).
\<close>

lemma dual_read_your_write:
  assumes "dual_reachable ops rt d" "0 < max_size_in_memory (in_memory_cache d)"
    and "check_value_size rt (in_memory_cache d) v" "json_view v \<noteq> PNone"
    and "0 \<le> (case kw_ttl (dual_ttl ttl d) of Some t \<Rightarrow> t | None \<Rightarrow> default_ttl (in_memory_cache d))"
  shows "fst (dual_get_cache ops' rt now now' k lo' ttl' (dual_set_cache ops rt now k v lo ttl d)) = json_view v \<and>
    redis_cache (snd (dual_get_cache ops' rt now now' k lo' ttl' (dual_set_cache ops rt now k v lo ttl d))) =
    redis_cache (dual_set_cache ops rt now k v lo ttl d)"
proof -
  let ?t = "kw_ttl (dual_ttl ttl d)" let ?c = "in_memory_cache d"
  let ?d = "dual_set_cache ops rt now k v lo ttl d"
  have u: "imc_usable ?t ?c"
    using assms dual_inv_imc [OF dual_reachable_inv] by (simp add: imc_usable_def)
  have "in_memory_cache ?d = imc_put rt ?t now k v ?c"
    by (simp add: dual_set_cache_def Let_def with_mem_def imc_put_def split: sum.split option.split)
  then have p: "fst (imc_get_cache now k (in_memory_cache ?d)) = json_view v"
    using imcs.peek_put_same [OF u assms(3), of now k] by (simp add: imc_peek_def)
  show ?thesis
    by (simp add: dual_get_cache_def with_mem_def p assms(4) split: option.split)
qed

text \<open>
  A key that only Redis holds is read through: \<^verbatim>\<open>get_cache\<close> returns what Redis
  returned and keeps it in memory, so the next read, even a local-only one, finds it without Redis. A
  string that is a JSON document comes back as a string the first time and parsed after that.
\<close>

lemma dual_read_through:
  assumes "dual_reachable ops rt d" "redis_cache d = Some r" "r_get ops k r = (Inr v, r')" "v \<noteq> PNone"
    and "imc_peek now k (in_memory_cache d) = PNone"
    and "0 < max_size_in_memory (in_memory_cache d)" "check_value_size rt (in_memory_cache d) v"
    and "0 \<le> (case kw_ttl ttl of Some t \<Rightarrow> t | None \<Rightarrow> default_ttl (in_memory_cache d))"
  shows "\<exists>d'. dual_get_cache ops rt now now' k False ttl d = (v, d') \<and> redis_cache d' = Some r' \<and>
    fst (dual_get_cache ops rt now' now'' k True ttl' d') = json_view v"
proof -
  let ?c = "imc_after_get now k (in_memory_cache d)"
  let ?d' = "d\<lparr>in_memory_cache := imc_put rt (kw_ttl ttl) now' k v ?c, redis_cache := Some r'\<rparr>"
  have inv: "imc_inv (in_memory_cache d)" using dual_inv_imc [OF dual_reachable_inv [OF assms(1)]] .
  have c: "imc_inv ?c" "same_config (in_memory_cache d) ?c"
    using imc_after_get_inv [OF inv, of now k] by auto
  have u: "imc_usable (kw_ttl ttl) ?c" "check_value_size rt ?c v"
    using imc_usable_config [OF _ c, of "kw_ttl ttl"] inv assms(6-8) check_value_size_cong [OF c(2)]
    by (simp_all add: imc_usable_def)
  have ok: "imc_set_cache rt now' k v (kw_ttl ttl) ?c = (Inr (), imc_put rt (kw_ttl ttl) now' k v ?c)"
    using imc_set_cache_total [of ?c rt now' k v "kw_ttl ttl"] u(1) by (auto simp: imc_put_def imc_usable_def)
  have g: "imc_get_cache now k (in_memory_cache d) = (PNone, ?c)"
    using assms(5) by (simp add: imc_peek_def imc_after_get_def prod_eq_iff)
  have "dual_get_cache ops rt now now' k False ttl d = (v, ?d')"
    using assms(2-4) ok by (simp add: dual_get_cache_def with_mem_def with_redis_def g)
  moreover have "fst (dual_get_cache ops rt now' now'' k True ttl' ?d') = json_view v"
    using imcs.peek_put_same [OF u, of now' k] by (simp add: dual_get_cache_def with_mem_def imc_peek_def)
  ultimately show ?thesis by (intro exI [of _ ?d']) simp
qed



text \<open>
  A batch read whose Redis call raises returns \<^verbatim>\<open>None\<close> and leaves every access
  time as it was, so the failure does not throttle the next callers.
\<close>

lemma failed_batch_read_not_throttled:
  assumes "redis_cache d = Some r" "r_batch_get ops = (\<lambda>ks q. (Inl (e ks), f q))"
    and "finite K" "int (card K) < batch_max_size d" "dict_wf (last_redis_batch_access_time d)"
    "set (dict_keys (last_redis_batch_access_time d)) \<subseteq> K" "set keys \<subseteq> K" "0 < redis_batch_cache_expiry d"
    and "k \<in> set keys" "imc_peek now k (in_memory_cache d) = PNone"
    "may_read (redis_batch_cache_expiry d) now (last_redis_batch_access_time d) k"
  shows "\<exists>d'. dual_batch_get_cache ops rt now now' keys False ttl d = (None, d') \<and>
    map_of (last_redis_batch_access_time d') = map_of (last_redis_batch_access_time d)"
proof -
  let ?p = "imc_batch_get_cache now keys (in_memory_cache d)"
  let ?d1 = "d\<lparr>in_memory_cache := snd ?p\<rparr>" let ?m = "map_of (last_redis_batch_access_time d)"
  have room: "room_for (batch_max_size ?d1) K (last_redis_batch_access_time ?d1)"
    using assms(3-6) by (simp add: room_for_def)
  obtain sub d2 where r: "reserve_redis_batch_keys now keys (fst ?p) ?d1 = (Inr (sub, map (\<lambda>k. (k, ?m k)) sub), d2)"
    "d2 = ?d1\<lparr>last_redis_batch_access_time := last_redis_batch_access_time d2\<rparr>"
    "room_for (batch_max_size d) K (last_redis_batch_access_time d2)"
    "map_of (last_redis_batch_access_time d2) = reserved now sub ?m" "distinct sub"
    "set sub = {k. (k, PNone) \<in> set (zip keys (fst ?p)) \<and>
       may_read (redis_batch_cache_expiry d) now (last_redis_batch_access_time d) k}"
    using reserve_spec [OF room assms(7), of now "fst ?p"] assms(8) by auto
  have miss: "(k, PNone) \<in> set (zip keys (fst ?p))"
    using assms(9,10) by (force simp: imc_batch_get_cache_eq in_set_zip in_set_conv_nth)
  then have k: "k \<in> set sub" "PNone \<in> set (fst ?p)" using assms(11) r(6) by (auto dest: set_zip_rightD)
  let ?d3 = "d2\<lparr>redis_cache := Some (f r)\<rparr>"
  have sub: "set sub \<subseteq> K" using r(6) assms(7) by (auto dest: set_zip_leftD)
  have bm: "batch_max_size d2 = batch_max_size d" by (subst r(2)) simp
  obtain a where a: "rollback_loop (batch_max_size d) (map (\<lambda>k. (k, ?m k)) sub) (last_redis_batch_access_time d2) =
      (Inr (), a)" "map_of a = (\<lambda>k. if k \<in> set sub then ?m k else reserved now sub ?m k)"
    using rollback_loop_spec [OF r(3,5) sub, of ?m] unfolding r(4) by blast
  have "map_of a = ?m" using a(2) by (auto simp: reserved_def)
  moreover have "dual_batch_get_cache ops rt now now' keys False ttl d =
      (None, ?d3\<lparr>last_redis_batch_access_time := a\<rparr>)"
    using assms(1,2) k r(1) a(1)
    by (auto simp: dual_batch_get_cache_def with_mem_def with_redis_def bm
        rollback_redis_batch_key_reservations_def)
  ultimately show ?thesis by simp
qed

text \<open>
  A batch read of distinct keys returns, in the order asked, the in-memory value of
  each key memory holds and for the others what Redis returned, when no miss is throttled and Redis
  answers for exactly the keys it was asked.
\<close>

lemma batch_read_merges:
  assumes "dual_inv d" "0 \<le> max_size_in_memory (in_memory_cache d)" "redis_cache d = Some r"
    and "r_batch_get ops = (\<lambda>ks q. (Inr (Some (map (\<lambda>k. (k, g q k)) ks)), f q))"
    and "finite K" "int (card K) < batch_max_size d" "set (dict_keys (last_redis_batch_access_time d)) \<subseteq> K"
    "set keys \<subseteq> K" "0 < redis_batch_cache_expiry d" "distinct keys"
    "\<forall>k \<in> set keys. may_read (redis_batch_cache_expiry d) now (last_redis_batch_access_time d) k"
  shows "\<exists>d'. dual_batch_get_cache ops rt now now' keys False ttl d =
     (Some (map (\<lambda>k. if imc_peek now k (in_memory_cache d) \<noteq> PNone then imc_peek now k (in_memory_cache d)
                     else g r k) keys), d')"
proof -
  let ?p = "imc_batch_get_cache now keys (in_memory_cache d)" let ?pk = "\<lambda>k. imc_peek now k (in_memory_cache d)"
  let ?d1 = "d\<lparr>in_memory_cache := snd ?p\<rparr>"
  have p: "fst ?p = map ?pk keys" by (rule imc_batch_get_cache_eq)
  have room: "room_for (batch_max_size ?d1) K (last_redis_batch_access_time ?d1)"
    using assms(1,5-7) by (simp add: room_for_def dual_inv_def)
  obtain sub prev d2 where r: "reserve_redis_batch_keys now keys (fst ?p) ?d1 = (Inr (sub, prev), d2)"
    "d2 = ?d1\<lparr>last_redis_batch_access_time := last_redis_batch_access_time d2\<rparr>" "distinct sub"
    "set sub = {k. (k, PNone) \<in> set (zip keys (fst ?p)) \<and>
       may_read (redis_batch_cache_expiry d) now (last_redis_batch_access_time d) k}"
    using reserve_spec [OF room assms(8), of now "fst ?p"] assms(9) by auto
  have sub: "set sub = {k \<in> set keys. ?pk k = PNone}"
    using r(4) assms(11) by (auto simp: p zip_map2 zip_same_conv_map)
  obtain vs where vs: "r_batch_get ops sub r = (Inr (Some vs), f r)" "dict_wf vs" "dict_keys vs = sub"
    "\<forall>k \<in> set sub. map_of vs k = Some (g r k)"
    using assms(4) r(3) map_of_map_restrict [of "g r" sub] by (auto simp: o_def restrict_map_def)
  let ?c2 = "snd ?p"
  have c2: "imc_inv ?c2" "0 \<le> max_size_in_memory ?c2" "in_memory_cache d2 = ?c2"
    using imc_batch_get_cache_inv [OF dual_inv_imc [OF assms(1)] prod.collapse [symmetric], of now keys] assms(2)
    by (auto simp: same_config_def) (subst r(2), simp)
  obtain c' where fill: "batch_fill rt now' keys (kw_ttl ttl) vs (fst ?p) ?c2 =
      (Inr (map (\<lambda>(k, v). dict_get vs k v) (zip keys (fst ?p))), c')"
    using batch_fill_spec [OF assms(10) vs(2) _ _ c2(1,2), of "fst ?p" rt now' "kw_ttl ttl"] vs(3) sub
    by (auto simp: p)
  let ?out = "map (\<lambda>k. if ?pk k \<noteq> PNone then ?pk k else g r k) keys"
  have get: "dict_get vs k (?pk k) = (if ?pk k \<noteq> PNone then ?pk k else g r k)" if "k \<in> set keys" for k
    using that vs(3,4) sub map_of_None_key [of vs k] by (auto simp: dict_get_def)
  then have out: "map (\<lambda>(k, v). dict_get vs k v) (zip keys (fst ?p)) = ?out"
    by (simp add: p zip_map2 zip_same_conv_map)
  have none: "fst ?p = ?out" if "list_all (\<lambda>kv. snd kv = PNone) vs"
  proof -
    have "g r k = PNone" if "k \<in> set sub" for k
      using \<open>list_all _ vs\<close> vs(4) that by (fastforce simp: list_all_iff dest!: map_of_SomeD)
    then show ?thesis using sub by (auto simp: p)
  qed
  have empty: "fst ?p = ?out" if "sub = []" using that sub by (auto simp: p)
  have miss: "fst ?p = ?out" if "PNone \<notin> set (fst ?p)" using that by (auto simp: p image_iff)
  show ?thesis
    using assms(3) r(1) vs(1) fill out none empty miss c2(3)
    by (auto simp: dual_batch_get_cache_def with_mem_def with_redis_def)
qed

end
