(* ===== verification/CacheAlias.thy ===== *)
theory CacheAlias
  imports DualCache
begin

text \<open>
  Objects that a cache hands out. \<^verbatim>\<open>get_cache\<close> returns the very list or dict the in-memory level
  holds, so a caller that changes it changes the cache before, or without, writing it back. The
  counters of the routing strategies are dicts that are changed this way (\<open>count_in_cache\<close>).
\<close>

definition imc_alias :: "string \<Rightarrow> pyval \<Rightarrow> pyval \<Rightarrow> imc \<Rightarrow> imc" where
  "imc_alias key old new c =
     (if map_of (cache_dict c) key = Some old
      then c\<lparr>cache_dict := AList.update key new (cache_dict c)\<rparr> else c)"

definition dual_alias :: "string \<Rightarrow> pyval \<Rightarrow> pyval \<Rightarrow> 'r dual \<Rightarrow> 'r dual" where
  "dual_alias key old new d = d\<lparr>in_memory_cache := imc_alias key old new (in_memory_cache d)\<rparr>"

text \<open>
  The cache after the caller of \<^verbatim>\<open>get_cache(key) or {}\<close>, which read \<open>v\<close>, has changed the
  object it got to \<open>new\<close>: a falsy \<open>v\<close> was replaced by a fresh dict.
\<close>

definition hand_out :: "string \<Rightarrow> pyval \<Rightarrow> pyval \<Rightarrow> 'r dual \<Rightarrow> 'r dual" where
  "hand_out key v new d = (if truthy v then dual_alias key v new d else d)"

lemma imc_alias_inv: "imc_inv c \<Longrightarrow> imc_inv (imc_alias k old new c)"
proof (cases "map_of (cache_dict c) k = Some old")
  case True
  assume i: "imc_inv c"
  have k: "k \<in> set (dict_keys (cache_dict c))" using True by (rule map_of_Some_key)
  have d: "insert k (dom (map_of (cache_dict c))) = dom (map_of (cache_dict c))" using True by auto
  from i have "insert k (dom (map_of (ttl_dict c))) = dom (map_of (ttl_dict c))"
    using d by (simp add: imc_inv_def)
  then show ?thesis using i True k by (simp add: imc_alias_def imc_inv_def length_update)
qed (simp add: imc_alias_def)

lemma imc_alias_usable: "imc_usable ttl c \<Longrightarrow> imc_usable ttl (imc_alias k old new c)"
  using imc_usable_config [of ttl c "imc_alias k old new c"] imc_alias_inv [of c k old new]
  by (simp add: imc_usable_def imc_alias_def)

lemma dual_alias_local:
  assumes "dual_local ttl d"
  shows "dual_local ttl (dual_alias k old new d)"
    "check_value_size rt (in_memory_cache (dual_alias k old new d)) v = check_value_size rt (in_memory_cache d) v"
proof -
  show "dual_local ttl (dual_alias k old new d)"
    using assms imc_alias_usable by (auto simp: dual_local_def dual_alias_def)
  have "same_config (in_memory_cache d) (imc_alias k old new (in_memory_cache d))" by (simp add: imc_alias_def)
  from check_value_size_cong [OF this]
  show "check_value_size rt (in_memory_cache (dual_alias k old new d)) v = check_value_size rt (in_memory_cache d) v"
    by (simp add: dual_alias_def)
qed

lemma hand_out_local:
  assumes "dual_local ttl d"
  shows "dual_local ttl (hand_out k v new d)"
    "check_value_size rt (in_memory_cache (hand_out k v new d)) w = check_value_size rt (in_memory_cache d) w"
  using dual_alias_local [OF assms] assms by (simp_all add: hand_out_def)

subsection \<open>What a cache holds\<close>

text \<open>
  Every value in a cache without Redis satisfies \<open>R\<close>; a read, a change of an object that was handed
  out and a write keep this.
\<close>

definition cache_all :: "(string \<Rightarrow> pyval \<Rightarrow> bool) \<Rightarrow> 'r dual \<Rightarrow> bool" where
  "cache_all R d \<longleftrightarrow> redis_cache d = None \<and> imc_inv (in_memory_cache d) \<and> 0 < max_size_in_memory (in_memory_cache d) \<and>
     (\<forall>k v. map_of (cache_dict (in_memory_cache d)) k = Some v \<longrightarrow> R k v)"

lemma cache_all_peek: "cache_all R d \<Longrightarrow> dual_peek t k d = PNone \<or> (\<exists>v. R k v \<and> dual_peek t k d = json_view v)"
  by (auto simp: cache_all_def dual_peek_def imc_peek_eq split: option.split)

lemma cache_all_get:
  assumes "cache_all R d" "dual_get_cache ops rt t t' k lo ttl d = (v, d')"
  shows "v = dual_peek t k d \<and> cache_all R d'"
proof -
  let ?c = "in_memory_cache d"
  have d': "v = dual_peek t k d" "d' = d\<lparr>in_memory_cache := imc_after_get t k ?c\<rparr>"
    using assms by (auto simp: cache_all_def dual_get_local)
  have "imc_inv (imc_after_get t k ?c)" "same_config ?c (imc_after_get t k ?c)"
    using assms(1) imc_after_get_inv unfolding cache_all_def by blast+
  moreover have "map_of (cache_dict (imc_after_get t k ?c)) \<subseteq>\<^sub>m map_of (cache_dict ?c)"
    by (auto simp: imc_after_get_def imc_get_cache_state remove_key_def map_le_def split: if_splits)
  ultimately show ?thesis
    using assms(1) d' by (auto simp: cache_all_def same_config_def map_le_def) (metis domI)
qed

lemma cache_all_hand_out:
  assumes "cache_all R d" "R k new"
  shows "cache_all R (hand_out k v new d)"
  using assms imc_alias_inv [of "in_memory_cache d" k v new]
  by (auto simp: cache_all_def hand_out_def dual_alias_def imc_alias_def)

lemma cache_all_set:
  assumes "cache_all R d" "R k v"
  shows "cache_all R (dual_set_cache ops rt t k v False ttl d)"
proof -
  let ?c = "in_memory_cache d" and ?t = "kw_ttl (dual_ttl ttl d)"
  have c: "redis_cache d = None" "imc_inv ?c" "0 < max_size_in_memory ?c"
    "\<forall>k v. map_of (cache_dict ?c) k = Some v \<longrightarrow> R k v" using assms(1) by (auto simp: cache_all_def)
  obtain c1 where c1: "make_room t ?c = (Inr (), c1)" "same_config ?c c1" "map_of (cache_dict c1) \<subseteq>\<^sub>m map_of (cache_dict ?c)"
    using make_room_ok [OF c(2,3)] by blast
  have p: "imc_put rt ?t t k v ?c = (if check_value_size rt c1 v then imc_store t k v ?t c1 else c1)"
    using c1(1) c(3) by (simp add: imc_put_def imc_set_cache_eq)
  have "R k' v'" if "map_of (cache_dict (imc_put rt ?t t k v ?c)) k' = Some v'" for k' v'
    using that c(4) c1(3) assms(2) unfolding p
    by (auto simp: imc_store_def Let_def map_le_def split: if_splits) (metis domI)+
  moreover have "imc_inv (imc_put rt ?t t k v ?c) \<and> same_config ?c (imc_put rt ?t t k v ?c)"
    by (rule imc_put_inv [OF c(2)])
  ultimately show ?thesis
    using c dual_put_local [OF c(1), of ops rt ttl t k v] by (auto simp: cache_all_def dual_put_def same_config_def)
qed

subsection \<open>Counters\<close>

text \<open>
  \<^verbatim>\<open>d = cache.get_cache(key) or {}; d[id] = d.get(id, 0) + n; cache.set_cache(key, d)\<close>, where
  an exception ends the update.
\<close>

definition count_in_cache ::
  "'r redis_ops \<Rightarrow> py_runtime \<Rightarrow> time \<Rightarrow> time \<Rightarrow> time \<Rightarrow> string \<Rightarrow> string \<Rightarrow> pyval \<Rightarrow> ttl_kwarg \<Rightarrow> 'r dual \<Rightarrow> unit pyres \<times> 'r dual" where
  "count_in_cache ops rt t0 t1 t2 key i n ttl d =
     (case dual_get_cache ops rt t0 t1 key False None d of
        (v, d1) \<Rightarrow>
        (case py_or v (PDict []) of
           PDict m \<Rightarrow>
             (case py_add (dict_get m i (PInt 0)) n of
                Inl e \<Rightarrow> (Inl e, d1)
              | Inr c \<Rightarrow>
                let m' = AList.update i c m in
                (Inr (), dual_set_cache ops rt t2 key (PDict m') False ttl (hand_out key v (PDict m') d1)))
         | _ \<Rightarrow> (Inl AttributeError, d1)))"

definition counts_at :: "time \<Rightarrow> string \<Rightarrow> 'r dual \<Rightarrow> (string, pyval) dict" where
  "counts_at t key d = (case dual_peek t key d of PDict m \<Rightarrow> m | _ \<Rightarrow> [])"

text \<open>Without Redis the next reader sees the new count.\<close>

lemma count_in_cache_local:
  assumes "dual_local ttl d" "dual_peek t0 key d = PNone \<or> dual_peek t0 key d = PDict m" "m = counts_at t0 key d"
    and "py_add (dict_get m i (PInt 0)) n = Inr c" "m' = AList.update i c m"
    and "check_value_size rt (in_memory_cache d) (PDict m')"
  shows "\<exists>d'. count_in_cache ops rt t0 t1 t2 key i n ttl d = (Inr (), d') \<and> dual_local ttl d' \<and>
    dual_peek t2 key d' = PDict m' \<and>
    (\<forall>w. check_value_size rt (in_memory_cache d') w = check_value_size rt (in_memory_cache d) w)"
proof -
  let ?d1 = "dual_after_get ops rt t0 key d"
  let ?d2 = "hand_out key (dual_peek t0 key d) (PDict m') ?d1"
  have n: "redis_cache d = None" using assms(1) by (simp add: dual_local_def)
  have get: "dual_get_cache ops rt t0 t1 key False None d = (dual_peek t0 key d, ?d1)"
    using n by (simp add: dual_get_local dual_after_get_def)
  have or: "py_or (dual_peek t0 key d) (PDict []) = PDict m"
  proof (cases "dual_peek t0 key d = PNone")
    case True
    then show ?thesis using assms(3) by (simp add: py_or_def counts_at_def)
  next
    case False
    then have "dual_peek t0 key d = PDict m" using assms(2) by blast
    then show ?thesis by (cases m) (simp_all add: py_or_def)
  qed
  have l1: "dual_local ttl ?d1" using dcs.get_invar [OF assms(1)] .
  note l2 = hand_out_local [OF l1, where k = key and v = "dual_peek t0 key d" and new = "PDict m'"]
  have f: "check_value_size rt (in_memory_cache ?d2) w = check_value_size rt (in_memory_cache d) w" for w
    using l2(2) dcs.fits_get [OF assms(1)] by simp
  let ?d3 = "dual_put ops rt ttl t2 key (PDict m') ?d2"
  have "count_in_cache ops rt t0 t1 t2 key i n ttl d = (Inr (), ?d3)"
    using assms(4,5) by (simp add: count_in_cache_def get or dual_put_def Let_def)
  moreover have "dual_local ttl ?d3" using dcs.put_invar [OF l2(1)] .
  moreover have "dual_peek t2 key ?d3 = PDict m'"
    using dcs.peek_put_same [OF l2(1)] f assms(6) by (simp add: json_view_def)
  moreover have "check_value_size rt (in_memory_cache ?d3) w = check_value_size rt (in_memory_cache d) w" for w
    using dcs.fits_put [OF l2(1)] f by simp
  ultimately show ?thesis by blast
qed

lemma count_in_cache_invar:
  assumes "dual_local ttl d"
  shows "dual_local ttl (snd (count_in_cache ops rt t0 t1 t2 key i n ttl d))"
proof -
  let ?d1 = "dual_after_get ops rt t0 key d"
  have get: "dual_get_cache ops rt t0 t1 key False None d = (dual_peek t0 key d, ?d1)"
    using assms by (simp add: dual_get_local dual_after_get_def dual_local_def)
  have l: "dual_local ttl ?d1" using dcs.get_invar [OF assms] .
  have "dual_local ttl (dual_set_cache ops rt t2 key v False ttl (hand_out key w v ?d1))" for v w
    using dcs.put_invar [OF hand_out_local(1) [OF l]] unfolding dual_put_def .
  then show ?thesis using l by (simp add: count_in_cache_def get Let_def split: pyval.split sum.split)
qed

subsection \<open>A cache without Redis\<close>

abbreviation ops0 :: "unit redis_ops" where
  "ops0 \<equiv> \<lparr>r_set = (\<lambda>_ _ _ r. (Inr (), r)), r_get = (\<lambda>_ r. (Inr PNone, r)),
     r_batch_get = (\<lambda>_ r. (Inr None, r)), r_set_pipeline = (\<lambda>_ _ r. (Inr (), r)),
     r_increment = (\<lambda>_ v _ r. (Inr v, r)), r_async_increment = (\<lambda>_ v _ r. (Inr v, r)),
     r_increment_pipeline = (\<lambda>_ r. (Inr None, r)), r_sadd = (\<lambda>_ _ _ r. (Inr (), r)),
     r_flush = (\<lambda>r. (Inr (), r)), r_delete = (\<lambda>_ r. (Inr (), r)), r_get_ttl = (\<lambda>_ r. (Inr None, r))\<rparr>"

abbreviation mem_dual :: "unit dual" where
  "mem_dual \<equiv> dual_init no_settings None None None None None 1000"

lemma mem_dual_facts:
  "dual_local ttl mem_dual \<longleftrightarrow> (case ttl of Some (Some t) \<Rightarrow> 0 \<le> t | _ \<Rightarrow> True)"
  "dual_peek t k mem_dual = PNone" "check_value_size rt0 (in_memory_cache mem_dual) (PDict m)"
  by (simp_all add: dual_local_def dual_init_def no_settings_def dual_ttl_def kw_ttl_def or_opt_def imc_usable_def
      imc_inv_init dual_peek_def imc_peek_eq check_value_size_def MAX_SIZE_PER_ITEM_IN_MEMORY_CACHE_IN_KB_def
      split: option.split) (simp_all add: imc_init_def or_num_def MAX_SIZE_PER_ITEM_IN_MEMORY_CACHE_IN_KB_def)

end
