(* ===== verification/PyCompare.thy ===== *)
theory PyCompare
  imports PyHeapq PyValue
begin

text \<open>
  Comparison of Python values and \<^verbatim>\<open>heapq\<close> on lists of them, where a comparison may raise
  (a tuple and a list are not ordered) and leaves the list as far as it was sifted. The functions
  follow the C version of the module, which swaps in place. The locale \<open>lt_encoding\<close> relates
  them to the heap functions on a linear order for every encoding of it that Python compares the
  same way. Two dicts or sets are equal here when they list their elements in the same order.
\<close>

subsection \<open>Comparison\<close>

fun py_eq :: "pyval \<Rightarrow> pyval \<Rightarrow> bool"
and py_eq_list :: "pyval list \<Rightarrow> pyval list \<Rightarrow> bool" where
  "py_eq PNone b = (b = PNone)"
| "py_eq (PBool x) b = (as_rat b = Some (if x then 1 else 0))"
| "py_eq (PInt i) b = (as_rat b = Some (of_int i))"
| "py_eq (PFloat q) b = (as_rat b = Some q)"
| "py_eq (PInf s) b = (b = PInf s)"
| "py_eq PNaN b = False"
| "py_eq (PStr s) b = (b = PStr s)"
| "py_eq (PList xs) b = (case b of PList ys \<Rightarrow> py_eq_list xs ys | _ \<Rightarrow> False)"
| "py_eq (PTuple xs) b = (case b of PTuple ys \<Rightarrow> py_eq_list xs ys | _ \<Rightarrow> False)"
| "py_eq (PSet xs) b = (b = PSet xs)"
| "py_eq (PDict d) b = (b = PDict d)"
| "py_eq (PTimedelta q) b = (b = PTimedelta q)"
| "py_eq_list [] ys = (ys = [])"
| "py_eq_list (x # xs) ys = (case ys of [] \<Rightarrow> False | y # zs \<Rightarrow> py_eq x y \<and> py_eq_list xs zs)"

definition num_lt :: "pyval \<Rightarrow> pyval \<Rightarrow> bool pyres" where
  "num_lt a b =
     (if \<not> is_number a \<or> \<not> is_number b then Inl TypeError
      else if a = PNaN \<or> b = PNaN then Inr False
      else case (as_rat a, as_rat b) of
        (Some x, Some y) \<Rightarrow> Inr (x < y)
      | (Some _, None) \<Rightarrow> Inr (b = PInf True)
      | (None, Some _) \<Rightarrow> Inr (a = PInf False)
      | (None, None) \<Rightarrow> Inr (a = PInf False \<and> b = PInf True))"

text \<open>\<^verbatim>\<open>a < b\<close>: sequences of one type are compared at the first elements that are not equal.\<close>

fun py_lt :: "pyval \<Rightarrow> pyval \<Rightarrow> bool pyres"
and py_lt_list :: "pyval list \<Rightarrow> pyval list \<Rightarrow> bool pyres" where
  "py_lt PNone b = Inl TypeError"
| "py_lt (PBool x) b = num_lt (PBool x) b"
| "py_lt (PInt i) b = num_lt (PInt i) b"
| "py_lt (PFloat q) b = num_lt (PFloat q) b"
| "py_lt (PInf s) b = num_lt (PInf s) b"
| "py_lt PNaN b = num_lt PNaN b"
| "py_lt (PStr s) b = (case b of PStr t \<Rightarrow> Inr (s < t) | _ \<Rightarrow> Inl TypeError)"
| "py_lt (PList xs) b = (case b of PList ys \<Rightarrow> py_lt_list xs ys | _ \<Rightarrow> Inl TypeError)"
| "py_lt (PTuple xs) b = (case b of PTuple ys \<Rightarrow> py_lt_list xs ys | _ \<Rightarrow> Inl TypeError)"
| "py_lt (PSet xs) b =
     (case b of PSet ys \<Rightarrow> Inr (set xs \<subset> set ys) | _ \<Rightarrow> Inl TypeError)"
| "py_lt (PDict d) b = Inl TypeError"
| "py_lt (PTimedelta q) b = (case b of PTimedelta r \<Rightarrow> Inr (q < r) | _ \<Rightarrow> Inl TypeError)"
| "py_lt_list [] ys = Inr (ys \<noteq> [])"
| "py_lt_list (x # xs) ys =
     (case ys of [] \<Rightarrow> Inr False | y # zs \<Rightarrow> if py_eq x y then py_lt_list xs zs else py_lt x y)"

text \<open>\<^verbatim>\<open>x[1]\<close>.\<close>

fun py_index1 :: "pyval \<Rightarrow> pyval pyres" where
  "py_index1 (PList xs) = (if 1 < length xs then Inr (xs ! 1) else Inl IndexError)"
| "py_index1 (PTuple xs) = (if 1 < length xs then Inr (xs ! 1) else Inl IndexError)"
| "py_index1 (PStr s) = (if 1 < length s then Inr (PStr [s ! 1]) else Inl IndexError)"
| "py_index1 (PDict d) = Inl KeyError"
| "py_index1 _ = Inl TypeError"

subsection \<open>Heaps of values\<close>

function siftdown_py :: "pyval list \<Rightarrow> nat \<Rightarrow> nat \<Rightarrow> pyval \<Rightarrow> unit pyres \<times> pyval list" where
  "siftdown_py xs startpos pos newitem =
     (if startpos < pos
      then (case py_lt newitem (xs ! parent_pos pos) of
              Inl e \<Rightarrow> (Inl e, xs[pos := newitem])
            | Inr True \<Rightarrow> siftdown_py (xs[pos := xs ! parent_pos pos]) startpos (parent_pos pos) newitem
            | Inr False \<Rightarrow> (Inr (), xs[pos := newitem]))
      else (Inr (), xs[pos := newitem]))"
  by pat_completeness auto
termination
  by (relation "measure (\<lambda>(xs, s, p, v). p)") auto

definition min_child_py :: "pyval list \<Rightarrow> nat \<Rightarrow> nat pyres" where
  "min_child_py xs pos =
     (let c = 2 * pos + 1 in
      if c + 1 < length xs
      then (case py_lt (xs ! c) (xs ! (c + 1)) of
              Inl e \<Rightarrow> Inl e
            | Inr lt \<Rightarrow> Inr (if lt then c else c + 1))
      else Inr c)"

lemma min_child_py_bound: "min_child_py xs pos = Inr c \<Longrightarrow> pos < c"
  by (auto simp: min_child_py_def Let_def split: if_splits sum.splits)

function bubble_py :: "pyval list \<Rightarrow> nat \<Rightarrow> unit pyres \<times> pyval list \<times> nat" where
  "bubble_py xs pos =
     (if 2 * pos + 1 < length xs
      then (case min_child_py xs pos of
              Inl e \<Rightarrow> (Inl e, xs, pos)
            | Inr c \<Rightarrow> bubble_py (xs[pos := xs ! c]) c)
      else (Inr (), xs, pos))"
  by pat_completeness auto
termination
proof (relation "measure (\<lambda>(xs, p). length xs - p)")
  fix xs :: "pyval list" and pos c
  assume "2 * pos + 1 < length xs" "min_child_py xs pos = Inr c"
  then show "((xs[pos := xs ! c], c), xs, pos) \<in> measure (\<lambda>(xs, p). length xs - p)"
    using min_child_py_bound [of xs pos c] by auto
qed simp

declare siftdown_py.simps [simp del] bubble_py.simps [simp del]

definition siftup_py :: "pyval list \<Rightarrow> nat \<Rightarrow> unit pyres \<times> pyval list" where
  "siftup_py xs pos =
     (case bubble_py xs pos of
        (Inl e, ys, q) \<Rightarrow> (Inl e, ys[q := xs ! pos])
      | (Inr _, ys, q) \<Rightarrow> siftdown_py ys pos q (xs ! pos))"

definition heappush_py :: "pyval list \<Rightarrow> pyval \<Rightarrow> unit pyres \<times> pyval list" where
  "heappush_py heap item = siftdown_py (heap @ [item]) 0 (length heap) item"

definition heappop_py :: "pyval list \<Rightarrow> pyval pyres \<times> pyval list" where
  "heappop_py heap =
     (if heap = [] then (Inl IndexError, heap)
      else let lastelt = last heap; rest = butlast heap in
        if rest = [] then (Inr lastelt, [])
        else (case siftup_py (rest[0 := lastelt]) 0 of
                (Inl e, h) \<Rightarrow> (Inl e, h)
              | (Inr _, h) \<Rightarrow> (Inr (rest ! 0), h)))"

fun heapify_loop_py :: "nat list \<Rightarrow> pyval list \<Rightarrow> unit pyres \<times> pyval list" where
  "heapify_loop_py [] x = (Inr (), x)"
| "heapify_loop_py (i # is) x =
     (case siftup_py x i of (Inl e, y) \<Rightarrow> (Inl e, y) | (Inr _, y) \<Rightarrow> heapify_loop_py is y)"

definition heapify_py :: "pyval list \<Rightarrow> unit pyres \<times> pyval list" where
  "heapify_py x = heapify_loop_py (rev [0..<length x div 2]) x"

lemma bubble_bound:
  "pos < length xs \<Longrightarrow> snd (bubble xs pos) < length xs \<and> length (fst (bubble xs pos)) = length xs"
proof (induction xs pos rule: bubble.induct)
  case (1 xs pos)
  then show ?case
    using min_child_props [of pos xs] by (simp add: bubble.simps [of xs pos])
qed

lemma bubble_len: "length (fst (bubble xs pos)) = length xs"
proof (induction xs pos rule: bubble.induct)
  case (1 xs pos)
  then show ?case by (simp add: bubble.simps [of xs pos])
qed

lemma siftup_len [simp]: "length (siftup xs pos) = length xs"
  using bubble_len [of xs pos] by (auto simp: siftup_def split: prod.split)

subsection \<open>Encodings of a linear order\<close>

locale lt_encoding =
  fixes enc :: "'a::linorder \<Rightarrow> pyval"
  assumes lt_enc: "py_lt (enc a) (enc b) = Inr (a < b)"
begin

lemma siftdown_enc:
  "pos < length xs \<Longrightarrow>
   siftdown_py (map enc xs) s pos (enc v) = (Inr (), map enc (siftdown xs s pos v))"
proof (induction xs s pos v rule: siftdown.induct)
  case (1 xs s pos v)
  note unf = siftdown_py.simps [of "map enc xs" s pos "enc v"] siftdown.simps [of xs s pos v]
  have p: "parent_pos pos < length xs" using "1.prems" by auto
  show ?case
    using "1.IH" "1.prems" p by (simp add: unf lt_enc map_update)
qed

lemma min_child_enc: "min_child_py (map enc xs) pos = Inr (min_child xs pos)"
  by (simp add: min_child_py_def min_child_def Let_def lt_enc)

lemma bubble_enc:
  "bubble_py (map enc xs) pos = (Inr (), map enc (fst (bubble xs pos)), snd (bubble xs pos))"
proof (induction xs pos rule: bubble.induct)
  case (1 xs pos)
  have "min_child xs pos < length xs" if "2 * pos + 1 < length xs"
    using that by (auto simp: min_child_def Let_def)
  then show ?case
    using "1.IH"
    by (simp add: bubble_py.simps [of "map enc xs" pos] bubble.simps [of xs pos] min_child_enc map_update)
qed

lemma siftup_enc:
  assumes "pos < length xs"
  shows "siftup_py (map enc xs) pos = (Inr (), map enc (siftup xs pos))"
proof -
  obtain ys q where b: "bubble xs pos = (ys, q)" by (cases "bubble xs pos")
  have "q < length ys" using bubble_bound [OF assms] b by auto
  then show ?thesis
    using assms siftdown_enc [of q ys pos "xs ! pos"] by (simp add: siftup_py_def siftup_def bubble_enc b)
qed

lemma heappush_enc: "heappush_py (map enc h) (enc x) = (Inr (), map enc (heappush h x))"
  using siftdown_enc [of "length h" "h @ [x]" 0 x] by (simp add: heappush_py_def heappush_def)

lemma heappop_enc:
  "heappop_py (map enc h) =
     (case heappop h of Inl e \<Rightarrow> (Inl e, map enc h) | Inr (x, h') \<Rightarrow> (Inr (enc x), map enc h'))"
proof (cases "butlast h = []")
  case True
  then show ?thesis by (auto simp: heappop_py_def heappop_def Let_def last_map map_butlast [symmetric])
next
  case False
  then have h: "h \<noteq> []" "0 < length (butlast h)"
    by (cases h; auto split: if_splits)+
  then have "siftup_py ((map enc (butlast h))[0 := enc (last h)]) 0 =
      (Inr (), map enc (siftup ((butlast h)[0 := last h]) 0))"
    using siftup_enc [of 0 "(butlast h)[0 := last h]"] by (simp only: map_update length_list_update)
  then show ?thesis
    using False h by (simp add: heappop_py_def heappop_def Let_def last_map map_butlast [symmetric])
qed

lemma heapify_loop_enc:
  "\<forall>i \<in> set is. i < length xs \<Longrightarrow>
   heapify_loop_py is (map enc xs) = (Inr (), map enc (foldl siftup xs is))"
proof (induction "is" arbitrary: xs)
  case (Cons i "is")
  then show ?case using siftup_enc [of i xs] by simp
qed simp

lemma heapify_enc: "heapify_py (map enc xs) = (Inr (), map enc (heapify xs))"
proof -
  have "\<forall>i \<in> set (rev [0..<length xs div 2]). i < length xs" by auto
  from heapify_loop_enc [OF this] show ?thesis by (simp add: heapify_py_def heapify_def)
qed

end

definition py_gt :: "pyval \<Rightarrow> pyval \<Rightarrow> bool pyres" where
  "py_gt a b = py_lt b a"

definition py_ge :: "pyval \<Rightarrow> pyval \<Rightarrow> bool pyres" where
  "py_ge a b =
     (case py_lt a b of Inl e \<Rightarrow> Inl e | Inr r \<Rightarrow> Inr (\<not> r \<and> a \<noteq> PNaN \<and> b \<noteq> PNaN))"

end
