(* ===== verification/Scheduler.thy ===== *)
theory Scheduler
  imports CacheAlias PyCompare
begin

text \<open>
  \<^verbatim>\<open>scheduler.py\<close>: the priority queue of waiting requests, one queue per model group, kept as a
  list in the two-level cache. \<^verbatim>\<open>get_queue\<close> hands out the very list object the in-memory level
  holds, so \<^verbatim>\<open>heappush\<close> and \<^verbatim>\<open>heappop\<close> change the cached list before it is saved
  (\<open>alias_write\<close>). The theory shows that without Redis requests are served by priority, that the
  queue does not outlive the expiry of its first save, and what happens to a queue that came back
  from Redis.
\<close>

subsection \<open>State and operations\<close>

record FlowItem =
  priority :: int
  request_id :: string
  model_name :: string

record 'r scheduler =
  sched_queue :: "pyval list"
  sched_cache :: "'r dual"
  polling_interval :: rat

definition DEFAULT_IN_MEMORY_TTL :: rat where
  "DEFAULT_IN_MEMORY_TTL = 5"

definition DEFAULT_POLLING_INTERVAL :: rat where
  "DEFAULT_POLLING_INTERVAL = 3 / 100"

definition scheduler_init :: "cache_settings \<Rightarrow> rat option \<Rightarrow> 'r option \<Rightarrow> 'r scheduler" where
  "scheduler_init cs polling redis =
     \<lparr>sched_queue = [],
      sched_cache = dual_init cs None redis
        (if redis = None then None else Some DEFAULT_IN_MEMORY_TTL) None None
        DEFAULT_MAX_REDIS_BATCH_CACHE_SIZE,
      polling_interval = or_num polling DEFAULT_POLLING_INTERVAL\<rparr>"

definition queue_key :: "string \<Rightarrow> string" where
  "queue_key model = ''scheduler:queue:'' @ model"

definition get_queue ::
  "'r redis_ops \<Rightarrow> py_runtime \<Rightarrow> time \<Rightarrow> time \<Rightarrow> string \<Rightarrow> 'r scheduler \<Rightarrow> pyval list \<times> 'r scheduler" where
  "get_queue ops rt now now' model s =
     (case dual_get_cache ops rt now now' (queue_key model) False None (sched_cache s) of
        (response, d) \<Rightarrow>
        (case response of PList q \<Rightarrow> q | _ \<Rightarrow> [], s\<lparr>sched_cache := d\<rparr>))"

definition save_queue ::
  "'r redis_ops \<Rightarrow> py_runtime \<Rightarrow> time \<Rightarrow> pyval list \<Rightarrow> string \<Rightarrow> 'r scheduler \<Rightarrow> 'r scheduler" where
  "save_queue ops rt now queue model s =
     s\<lparr>sched_cache := dual_set_cache ops rt now (queue_key model) (PList queue) False None (sched_cache s)\<rparr>"

text \<open>
  The cached list when the caller changes the list that \<^verbatim>\<open>get_queue\<close> returned: the in-memory
  level holds that object unless the queue was a fresh list or came from a JSON string.
\<close>

definition alias_write :: "string \<Rightarrow> pyval list \<Rightarrow> pyval list \<Rightarrow> 'r scheduler \<Rightarrow> 'r scheduler" where
  "alias_write model old new s =
     s\<lparr>sched_cache := (sched_cache s)\<lparr>in_memory_cache :=
         imc_alias (queue_key model) (PList old) (PList new) (in_memory_cache (sched_cache s))\<rparr>\<rparr>"

definition add_request ::
  "'r redis_ops \<Rightarrow> py_runtime \<Rightarrow> time \<Rightarrow> time \<Rightarrow> time \<Rightarrow> FlowItem \<Rightarrow> 'r scheduler \<Rightarrow>
   unit pyres \<times> 'r scheduler" where
  "add_request ops rt t0 t1 t2 request s =
     (case get_queue ops rt t0 t1 (model_name request) s of
        (queue, s1) \<Rightarrow>
        (case heappush_py queue (PTuple [PInt (priority request), PStr (request_id request)]) of
           (r, queue') \<Rightarrow>
           let s2 = alias_write (model_name request) queue queue' s1 in
           (case r of
              Inl e \<Rightarrow> (Inl e, s2)
            | Inr _ \<Rightarrow> (Inr (), save_queue ops rt t2 queue' (model_name request) s2))))"

definition bad_queue :: pyexc where
  "bad_queue = OtherError ''Incorrectly setup. Queue is invalid.''"

definition poll ::
  "'r redis_ops \<Rightarrow> py_runtime \<Rightarrow> time \<Rightarrow> time \<Rightarrow> time \<Rightarrow> string \<Rightarrow> string \<Rightarrow> 'h list \<Rightarrow> 'r scheduler \<Rightarrow>
   bool pyres \<times> 'r scheduler" where
  "poll ops rt t0 t1 t2 rid model health_deployments s =
     (case get_queue ops rt t0 t1 model s of
        (queue, s1) \<Rightarrow>
        if queue = [] then (Inl bad_queue, s1)
        else if health_deployments = [] then
          (case py_index1 (queue ! 0) of
             Inl e \<Rightarrow> (Inl e, s1)
           | Inr head_id \<Rightarrow>
             if head_id = PStr rid then
               (case heappop_py queue of
                  (r, queue') \<Rightarrow>
                  let s2 = alias_write model queue queue' s1 in
                  (case r of
                     Inl e \<Rightarrow> (Inl e, s2)
                   | Inr _ \<Rightarrow> (Inr True, save_queue ops rt t2 queue' model s2)))
             else (Inr False, s1))
        else (Inr True, s1))"

text \<open>The list comprehension of \<^verbatim>\<open>remove_request\<close>.\<close>

fun without_request :: "string \<Rightarrow> pyval list \<Rightarrow> pyval list pyres" where
  "without_request rid [] = Inr []"
| "without_request rid (item # rest) =
     (case py_index1 item of
        Inl e \<Rightarrow> Inl e
      | Inr x \<Rightarrow>
        (case without_request rid rest of
           Inl e \<Rightarrow> Inl e
         | Inr ys \<Rightarrow> Inr (if x \<noteq> PStr rid then item # ys else ys)))"

definition remove_request ::
  "'r redis_ops \<Rightarrow> py_runtime \<Rightarrow> time \<Rightarrow> time \<Rightarrow> time \<Rightarrow> string \<Rightarrow> string \<Rightarrow> 'r scheduler \<Rightarrow>
   unit pyres \<times> 'r scheduler" where
  "remove_request ops rt t0 t1 t2 rid model s =
     (case get_queue ops rt t0 t1 model s of
        (queue, s1) \<Rightarrow>
        (case without_request rid queue of
           Inl e \<Rightarrow> (Inl e, s1)
         | Inr filtered \<Rightarrow>
           (case heapify_py filtered of
              (Inl e, _) \<Rightarrow> (Inl e, s1)
            | (Inr _, filtered') \<Rightarrow> (Inr (), save_queue ops rt t2 filtered' model s1))))"

definition peek ::
  "'r redis_ops \<Rightarrow> py_runtime \<Rightarrow> time \<Rightarrow> time \<Rightarrow> string \<Rightarrow> string \<Rightarrow> 'r scheduler \<Rightarrow>
   bool pyres \<times> 'r scheduler" where
  "peek ops rt t0 t1 rid model s =
     (case get_queue ops rt t0 t1 model s of
        (queue, s1) \<Rightarrow>
        if queue = [] then (Inl bad_queue, s1)
        else (case py_index1 (queue ! 0) of
                Inl e \<Rightarrow> (Inl e, s1)
              | Inr head_id \<Rightarrow> (Inr (head_id = PStr rid), s1)))"

definition get_queue_status :: "'r scheduler \<Rightarrow> pyval list" where
  "get_queue_status s = sched_queue s"

subsection \<open>Items\<close>

definition enc_item :: "int \<times> string \<Rightarrow> pyval" where
  "enc_item x = PTuple [PInt (fst x), PStr (snd x)]"

lemma pair_lt_items:
  "py_lt_list [PInt p, PStr i] [PInt q, PStr j] = Inr ((p, i) < (q, j))"
  by (auto simp: num_lt_def is_number_def less_prod_def' less_le)

interpretation items: lt_encoding enc_item
  by unfold_locales (auto simp: enc_item_def pair_lt_items simp del: py_lt_list.simps)

text \<open>The form the items have after a round trip through JSON.\<close>

definition enc_json_item :: "int \<times> string \<Rightarrow> pyval" where
  "enc_json_item x = PList [PInt (fst x), PStr (snd x)]"

interpretation jitems: lt_encoding enc_json_item
  by unfold_locales (auto simp: enc_json_item_def pair_lt_items simp del: py_lt_list.simps)

lemma index1_enc [simp]: "py_index1 (enc_item x) = Inr (PStr (snd x))"
  by (simp add: enc_item_def)

lemma without_request_enc:
  "without_request rid (map enc_item xs) = Inr (map enc_item (filter (\<lambda>x. snd x \<noteq> rid) xs))"
  by (induction xs) simp_all

subsection \<open>Without Redis\<close>

definition sched_local :: "'r scheduler \<Rightarrow> bool" where
  "sched_local s \<longleftrightarrow> dual_local None (sched_cache s)"

definition sched_fits :: "py_runtime \<Rightarrow> 'r scheduler \<Rightarrow> pyval list \<Rightarrow> bool" where
  "sched_fits rt s q \<longleftrightarrow> check_value_size rt (in_memory_cache (sched_cache s)) (PList q)"

text \<open>The queue of a model group that a reader sees at a time.\<close>

definition queue_at :: "time \<Rightarrow> string \<Rightarrow> 'r scheduler \<Rightarrow> pyval list" where
  "queue_at t model s =
     (case dual_peek t (queue_key model) (sched_cache s) of PList q \<Rightarrow> q | _ \<Rightarrow> [])"

lemma queue_key_eq [simp]: "queue_key a = queue_key b \<longleftrightarrow> a = b"
  by (simp add: queue_key_def)

lemma get_queue_local:
  assumes "sched_local s"
  shows "get_queue ops rt t0 t1 m s =
    (queue_at t0 m s, s\<lparr>sched_cache := dual_after_get ops rt t0 (queue_key m) (sched_cache s)\<rparr>)"
  using assms
  by (simp add: get_queue_def sched_local_def dual_local_def dual_get_local queue_at_def dual_after_get_def)

lemma alias_write_local:
  assumes "sched_local s"
  shows "sched_local (alias_write m old new s)" "sched_fits rt (alias_write m old new s) q = sched_fits rt s q"
proof -
  show "sched_local (alias_write m old new s)"
    using assms imc_alias_usable by (auto simp: sched_local_def dual_local_def alias_write_def)
  have "same_config (in_memory_cache (sched_cache s))
      (imc_alias (queue_key m) (PList old) (PList new) (in_memory_cache (sched_cache s)))"
    by (simp add: imc_alias_def)
  from check_value_size_cong [OF this] show "sched_fits rt (alias_write m old new s) q = sched_fits rt s q"
    by (simp add: sched_fits_def alias_write_def)
qed

lemma after_get_local:
  assumes "sched_local s" "get_queue ops rt t0 t1 m s = (q, s1)"
  shows "sched_local s1" "sched_fits rt s1 w = sched_fits rt s w" "queue_at t0 m' s1 = queue_at t0 m' s"
  using assms dcs.get_invar [of None "sched_cache s"] dcs.fits_get [of None "sched_cache s"]
    dcs.peek_get [of None "sched_cache s"]
  by (auto simp: get_queue_local sched_local_def sched_fits_def queue_at_def)

lemma save_queue_local:
  assumes "sched_local s"
  shows "sched_local (save_queue ops rt t q m s)"
    "sched_fits rt (save_queue ops rt t q m s) w = sched_fits rt s w"
    "sched_fits rt s q \<Longrightarrow> queue_at t m (save_queue ops rt t q m s) = q"
  using assms dcs.put_invar [of None "sched_cache s" ops rt t "queue_key m" "PList q"]
    dcs.fits_put [of None "sched_cache s" rt ops t "queue_key m" "PList q"]
    dcs.peek_put_same [of None "sched_cache s" rt "PList q" t "queue_key m" ops]
  by (simp_all add: sched_local_def sched_fits_def save_queue_def queue_at_def dual_put_def json_view_def)

text \<open>A write back of a changed queue.\<close>

lemma write_back_local:
  assumes "sched_local s" "get_queue ops rt t0 t1 m s = (q, s1)" "sched_fits rt s q'"
  shows "sched_local (save_queue ops rt t2 q' m (alias_write m q q' s1))"
    "sched_fits rt (save_queue ops rt t2 q' m (alias_write m q q' s1)) w = sched_fits rt s w"
    "queue_at t2 m (save_queue ops rt t2 q' m (alias_write m q q' s1)) = q'"
proof -
  let ?s2 = "alias_write m q q' s1"
  note s1 = after_get_local [OF assms(1,2)]
  note s2 = alias_write_local(1) [OF s1(1), of m q q'] alias_write_local(2) [OF s1(1), of rt m q q']
  note s3 = save_queue_local [OF s2(1), where ops = ops and rt = rt and t = t2 and q = q' and m = m]
  show "sched_local (save_queue ops rt t2 q' m ?s2)" by (rule s3(1))
  show "sched_fits rt (save_queue ops rt t2 q' m ?s2) w = sched_fits rt s w"
    by (simp add: s3(2) s2(2) s1(2))
  show "queue_at t2 m (save_queue ops rt t2 q' m ?s2) = q'"
    using s3(3) assms(3) by (simp add: s2(2) s1(2))
qed

lemma add_request_local:
  assumes "sched_local s" "queue_at t0 (model_name r) s = map enc_item h"
    and "sched_fits rt s (map enc_item (heappush h (priority r, request_id r)))"
  shows "\<exists>s'. add_request ops rt t0 t1 t2 r s = (Inr (), s') \<and> sched_local s' \<and>
    (\<forall>w. sched_fits rt s' w = sched_fits rt s w) \<and>
    queue_at t2 (model_name r) s' = map enc_item (heappush h (priority r, request_id r))"
proof -
  let ?q = "map enc_item (heappush h (priority r, request_id r))"
  obtain s1 where g: "get_queue ops rt t0 t1 (model_name r) s = (map enc_item h, s1)"
    using get_queue_local [OF assms(1)] assms(2) by simp
  have p: "heappush_py (map enc_item h) (PTuple [PInt (priority r), PStr (request_id r)]) = (Inr (), ?q)"
    using items.heappush_enc [of h "(priority r, request_id r)"] by (simp add: enc_item_def)
  show ?thesis
    using write_back_local [OF assms(1) g assms(3), of t2] by (simp add: add_request_def g p Let_def)
qed

lemma poll_local:
  assumes "sched_local s" "queue_at t0 m s = map enc_item h" "h \<noteq> []" "heappop h = Inr (x, h')"
    and "x = h ! 0" "sched_fits rt s (map enc_item h')"
  shows "\<exists>s'. poll ops rt t0 t1 t2 rid m ([] :: 'h list) s = (Inr (snd x = rid), s') \<and> sched_local s' \<and>
    (\<forall>w. sched_fits rt s' w = sched_fits rt s w) \<and>
    (if snd x = rid then queue_at t2 m s' = map enc_item h' else queue_at t0 m s' = map enc_item h)"
proof -
  obtain s1 where g: "get_queue ops rt t0 t1 m s = (map enc_item h, s1)"
    using get_queue_local [OF assms(1)] assms(2) by simp
  have p: "heappop_py (map enc_item h) = (Inr (enc_item x), map enc_item h')"
    using items.heappop_enc [of h] assms(4) by simp
  show ?thesis
    using write_back_local [OF assms(1) g assms(6), of t2] after_get_local [OF assms(1) g] assms(2,3,5)
    by (auto simp: poll_def g p Let_def)
qed

text \<open>Adding requests one after another, and serving a queue while no deployment is healthy.\<close>

fun add_all ::
  "'r redis_ops \<Rightarrow> py_runtime \<Rightarrow> time \<Rightarrow> FlowItem list \<Rightarrow> 'r scheduler \<Rightarrow> unit pyres \<times> 'r scheduler" where
  "add_all ops rt t [] s = (Inr (), s)"
| "add_all ops rt t (r # rs) s =
     (case add_request ops rt t t t r s of
        (Inl e, s1) \<Rightarrow> (Inl e, s1)
      | (Inr _, s1) \<Rightarrow> add_all ops rt t rs s1)"

fun serve ::
  "'r redis_ops \<Rightarrow> py_runtime \<Rightarrow> time \<Rightarrow> string \<Rightarrow> string list \<Rightarrow> 'r scheduler \<Rightarrow> string list \<times> 'r scheduler" where
  "serve ops rt t m [] s = ([], s)"
| "serve ops rt t m (rid # rids) s =
     (case poll ops rt t t t rid m ([] :: unit list) s of
        (Inr True, s1) \<Rightarrow> (case serve ops rt t m rids s1 of (served, s2) \<Rightarrow> (rid # served, s2))
      | (_, s1) \<Rightarrow> serve ops rt t m rids s1)"

abbreviation item_of :: "FlowItem \<Rightarrow> int \<times> string" where
  "item_of r \<equiv> (priority r, request_id r)"

lemma add_all_local:
  assumes "sched_local s" "queue_at t m s = map enc_item h" "is_heap h" "\<forall>r \<in> set rs. model_name r = m"
    and "\<forall>q. length q \<le> length h + length rs \<longrightarrow> sched_fits rt s q"
  shows "\<exists>s' h'. add_all ops rt t rs s = (Inr (), s') \<and> sched_local s' \<and> is_heap h' \<and>
    (\<forall>w. sched_fits rt s' w = sched_fits rt s w) \<and>
    queue_at t m s' = map enc_item h' \<and> mset h' = mset h + mset (map item_of rs)"
  using assms
proof (induction rs arbitrary: s h)
  case Nil
  then show ?case by auto
next
  case (Cons r rs)
  have fits: "sched_fits rt s (map enc_item (heappush h (item_of r)))" using Cons.prems(5) by simp
  obtain s1 where s1: "add_request ops rt t t t r s = (Inr (), s1)" "sched_local s1"
    "\<forall>w. sched_fits rt s1 w = sched_fits rt s w" "queue_at t m s1 = map enc_item (heappush h (item_of r))"
    using add_request_local [OF Cons.prems(1) _ fits, of t ops t t] Cons.prems(2,4) by auto
  obtain s' h' where "add_all ops rt t rs s1 = (Inr (), s')" "sched_local s'" "is_heap h'"
    "\<forall>w. sched_fits rt s' w = sched_fits rt s w" "queue_at t m s' = map enc_item h'"
    "mset h' = mset (heappush h (item_of r)) + mset (map item_of rs)"
    using Cons.IH [OF s1(2,4) heappush_heap [OF Cons.prems(3)]] Cons.prems(4,5) s1(3) by auto
  then show ?case using s1(1) by auto
qed

lemma heap_sorted_hd:
  assumes "is_heap h" "h \<noteq> []" "heappop h = Inr (x, h')"
  shows "x = h ! 0" "is_heap h'" "sorted_list_of_multiset (mset h) = x # sorted_list_of_multiset (mset h')"
proof -
  note p = heappop_props [OF assms(1,3)]
  show "x = h ! 0" "is_heap h'" using p by auto
  have "x \<le> y" if "y \<in> set h'" for y
    using is_heap_min [OF assms(1), of y] p that by (metis insert_iff set_mset_add_mset_insert set_mset_mset)
  then have "insort x (sorted_list_of_multiset (mset h')) = x # sorted_list_of_multiset (mset h')"
    by (intro insort_is_Cons) simp
  then show "sorted_list_of_multiset (mset h) = x # sorted_list_of_multiset (mset h')"
    using p by simp
qed

lemma serve_local:
  assumes "sched_local s" "queue_at t m s = map enc_item h" "is_heap h"
    and "map snd (sorted_list_of_multiset (mset h)) = rids" "\<forall>q. length q \<le> length h \<longrightarrow> sched_fits rt s q"
  shows "\<exists>s'. serve ops rt t m rids s = (rids, s') \<and> queue_at t m s' = []"
  using assms
proof (induction rids arbitrary: s h)
  case Nil
  then have "mset h = {#}" by (metis map_is_Nil_conv mset_sorted_list_of_multiset mset.simps(1))
  then show ?case using Nil.prems(2) by simp
next
  case (Cons rid rids)
  then have h: "h \<noteq> []" by auto
  obtain x h' where pop: "heappop h = Inr (x, h')" using heappop_nonempty [OF h] by blast
  note x = heap_sorted_hd [OF Cons.prems(3) h pop]
  have rid: "snd x = rid" "map snd (sorted_list_of_multiset (mset h')) = rids"
    using Cons.prems(4) x(3) by auto
  have len: "length h = Suc (length h')" using pop by (rule heappop_length)
  then have fits: "sched_fits rt s (map enc_item h')" using Cons.prems(5) by simp
  obtain s1 where s1: "poll ops rt t t t rid m ([] :: unit list) s = (Inr True, s1)" "sched_local s1"
    "\<forall>w. sched_fits rt s1 w = sched_fits rt s w" "queue_at t m s1 = map enc_item h'"
    using poll_local [OF Cons.prems(1,2) h pop x(1) fits, of ops t t rid, where 'h = unit] rid(1) by auto
  obtain s' where "serve ops rt t m rids s1 = (rids, s')" "queue_at t m s' = []"
    using Cons.IH [OF s1(2,4) x(2) rid(2)] Cons.prems(5) s1(3) len by auto
  then show ?case using s1(1) by simp
qed

subsection \<open>Properties\<close>

abbreviation sched0 :: "unit scheduler" where
  "sched0 \<equiv> scheduler_init no_settings None None"

lemma scheduler_init_local:
  "sched_local (scheduler_init no_settings p (None :: 'r option))"
  "queue_at t m (scheduler_init no_settings p (None :: 'r option)) = []"
  by (simp_all add: sched_local_def dual_local_def scheduler_init_def dual_init_def no_settings_def
      dual_ttl_def kw_ttl_def or_opt_def imc_usable_def imc_inv_init queue_at_def dual_peek_def imc_peek_eq)
    (simp_all add: imc_init_def or_num_def)

lemma sched0_fits: "sched_fits rt0 sched0 q"
  by (simp add: sched_fits_def check_value_size_def scheduler_init_def dual_init_def imc_init_def or_num_def
      MAX_SIZE_PER_ITEM_IN_MEMORY_CACHE_IN_KB_def)

abbreviation one_request :: "unit scheduler" where
  "one_request \<equiv> snd (add_request ops0 rt0 0 0 0
     \<lparr>priority = 2, request_id = ''a'', model_name = ''m''\<rparr> sched0)"

lemma one_request_local:
  "sched_local one_request" "sched_fits rt0 one_request w" "queue_at 0 ''m'' one_request = map enc_item [(2, ''a'')]"
proof -
  let ?r = "\<lparr>priority = 2, request_id = ''a'', model_name = ''m''\<rparr>"
  have "heappush [] (2, ''a'') = [(2 :: int, ''a'')]" by code_simp
  then show "sched_local one_request" "sched_fits rt0 one_request w"
    "queue_at 0 ''m'' one_request = map enc_item [(2, ''a'')]"
    using add_request_local [OF scheduler_init_local(1), of 0 ?r None "[]" rt0 ops0 0 0]
      scheduler_init_local(2) [where 'r = unit] sched0_fits by auto
qed



text \<open>
  Without Redis and while no deployment is healthy, \<^verbatim>\<open>poll\<close> lets a request through
  exactly if it is the least waiting one by priority and request id; then that item leaves the queue,
  otherwise the queue stays as it is.
\<close>

lemma poll_lets_least_through:
  assumes "sched_local s" "queue_at t0 m s = map enc_item h" "is_heap h" "h \<noteq> []"
    and "\<forall>q. length q < length h \<longrightarrow> sched_fits rt s q"
  shows "\<exists>x s'. x \<in> set h \<and> (\<forall>y \<in> set h. x \<le> y) \<and>
    poll ops rt t0 t1 t2 rid m ([] :: 'h list) s = (Inr (snd x = rid), s') \<and>
    (snd x = rid \<longrightarrow> (\<exists>h'. queue_at t2 m s' = map enc_item h' \<and> is_heap h' \<and> mset h = add_mset x (mset h'))) \<and>
    (snd x \<noteq> rid \<longrightarrow> queue_at t0 m s' = map enc_item h)"
proof -
  obtain x h' where pop: "heappop h = Inr (x, h')" using heappop_nonempty [OF assms(4)] by blast
  note p = heappop_props [OF assms(3) pop] note x = heap_sorted_hd [OF assms(3,4) pop]
  have fits: "sched_fits rt s (map enc_item h')" using assms(5) heappop_length [OF pop] by simp
  have "x \<in> set h" "\<forall>y \<in> set h. x \<le> y" using assms(4) x(1) is_heap_min [OF assms(3)] by auto
  then show ?thesis
    using poll_local [OF assms(1,2,4) pop x(1) fits, of ops t1 t2 rid] p x(1,2)
    by (intro exI [of _ x]) (auto split: if_splits)
qed

text \<open>
  Without Redis, \<^verbatim>\<open>remove_request\<close> drops exactly the items with the request's id
  and leaves a heap of the others.
\<close>

lemma remove_request_drops_id:
  assumes "sched_local s" "queue_at t0 m s = map enc_item h"
    and "\<forall>q. length q \<le> length h \<longrightarrow> sched_fits rt s q"
  shows "\<exists>s' h'. remove_request ops rt t0 t1 t2 rid m s = (Inr (), s') \<and>
    queue_at t2 m s' = map enc_item h' \<and> is_heap h' \<and> mset h' = mset (filter (\<lambda>x. snd x \<noteq> rid) h)"
proof -
  let ?f = "filter (\<lambda>x. snd x \<noteq> rid) h"
  obtain s1 where g: "get_queue ops rt t0 t1 m s = (map enc_item h, s1)"
    using get_queue_local [OF assms(1)] assms(2) by simp
  note s1 = after_get_local [OF assms(1) g]
  have len: "length (heapify ?f) = length ?f"
    using heapify_correct(2) [of ?f] by (metis size_mset)
  have fits: "sched_fits rt s1 (map enc_item (heapify ?f))"
    using assms(3) length_filter_le [of "\<lambda>x. snd x \<noteq> rid" h] by (simp add: s1(2) len)
  then have "queue_at t2 m (save_queue ops rt t2 (map enc_item (heapify ?f)) m s1) = map enc_item (heapify ?f)"
    by (rule save_queue_local(3) [OF s1(1)])
  moreover have "remove_request ops rt t0 t1 t2 rid m s =
      (Inr (), save_queue ops rt t2 (map enc_item (heapify ?f)) m s1)"
    by (simp add: remove_request_def g without_request_enc items.heapify_enc)
  ultimately show ?thesis using heapify_correct [of ?f] by blast
qed

text \<open>
  The queue of a model group does not outlive the expiry its key got when it was first
  saved: a request added while that expiry has not passed is lost after it, however recently it was
  added, and then \<^verbatim>\<open>poll\<close> and \<^verbatim>\<open>peek\<close> raise.
\<close>

lemma queue_lost_at_expiry:
  assumes "sched_local s" "dual_room (sched_cache s)"
    and "imc_get_ttl (queue_key (model_name r)) (in_memory_cache (sched_cache s)) = Some t"
    and "t0 \<le> t" "t2 \<le> t" "t < t3" "add_request ops rt t0 t1 t2 r s = (res, s')"
  shows "fst (poll ops rt t3 t3 t3 rid (model_name r) hds s') = Inl bad_queue \<and>
    fst (peek ops rt t3 t3 rid (model_name r) s') = Inl bad_queue"
proof -
  let ?k = "queue_key (model_name r)"
  let ?c1 = "imc_after_get t0 ?k (in_memory_cache (sched_cache s))"
  obtain q s1 where g: "get_queue ops rt t0 t1 (model_name r) s = (q, s1)" by fastforce
  note s1 = after_get_local [OF assms(1) g]
  have c1: "in_memory_cache (sched_cache s1) = in_memory_cache (sched_cache s)"
    using g assms(1,3,4)
    by (auto simp: get_queue_local sched_local_def dual_after_get_def dual_get_local dual_local_def
        imc_after_get_def imc_get_cache_state is_key_expired_def imc_get_ttl_def)
  have none: "queue_at t3 (model_name r) x = []"
    if "imc_get_ttl ?k (in_memory_cache (sched_cache x)) = Some t" for x :: "'a scheduler"
    using that assms(6) by (auto simp: queue_at_def dual_peek_def imc_peek_eq imc_get_ttl_def is_key_expired_def
        split: option.split)
  let ?a = "\<lambda>q'. alias_write (model_name r) q q' s1"
  have a: "imc_get_ttl ?k (in_memory_cache (sched_cache (?a q'))) = Some t" "dual_room (sched_cache (?a q'))"
    "sched_local (?a q')" for q'
    using assms(2,3) alias_write_local(1) [OF s1(1)]
    by (auto simp: alias_write_def c1 imc_alias_def imc_get_ttl_def length_update dest: map_of_Some_key)
  have sv: "imc_get_ttl ?k (in_memory_cache (sched_cache (save_queue ops rt t2 q' (model_name r) (?a q')))) = Some t"
    for q'
    using a [of q'] assms(5)
    by (auto simp: save_queue_def dual_put_local [unfolded dual_put_def] sched_local_def dual_local_def
        imc_put_def imc_set_cache_eq make_room_def imc_store_def imc_get_ttl_def Let_def allow_ttl_override_def)
  have "sched_local s' \<and> imc_get_ttl ?k (in_memory_cache (sched_cache s')) = Some t"
    using assms(7) a sv save_queue_local(1) [OF a(3)]
    by (auto simp: add_request_def g Let_def split: prod.splits sum.splits)
  then show ?thesis using none [of s'] by (simp add: poll_def peek_def get_queue_local)
qed

text \<open>
  With Redis, a queue that comes back from it has lists for items, because JSON has no
  tuples. \<^verbatim>\<open>add_request\<close> then compares its tuple with a list and raises: no request can be
  added to a waiting queue that was read from Redis.
\<close>

lemma add_request_fails_after_redis:
  assumes "redis_cache (sched_cache s) = Some r" "h \<noteq> []"
    and "r_get ops (queue_key (model_name item)) r = (Inr (PList (map enc_json_item h)), r')"
    and "imc_peek t0 (queue_key (model_name item)) (in_memory_cache (sched_cache s)) = PNone"
    and "dual_inv (sched_cache s)" "0 \<le> max_size_in_memory (in_memory_cache (sched_cache s))"
  shows "fst (add_request ops rt t0 t1 t2 item s) = Inl TypeError"
proof -
  let ?k = "queue_key (model_name item)" let ?q = "map enc_json_item h"
  let ?it = "PTuple [PInt (priority item), PStr (request_id item)]"
  let ?c = "imc_after_get t0 ?k (in_memory_cache (sched_cache s))"
  have c: "imc_inv ?c" "0 \<le> max_size_in_memory ?c"
    using imc_after_get_inv [OF dual_inv_imc [OF assms(5)], of t0 ?k] assms(6) by (auto simp: same_config_def)
  obtain c' where c': "imc_set_cache rt t1 ?k (PList ?q) None ?c = (Inr (), c')"
    using imc_set_cache_total [OF c] by blast
  have "imc_get_cache t0 ?k (in_memory_cache (sched_cache s)) = (PNone, ?c)"
    using assms(4) by (simp add: imc_peek_def imc_after_get_def prod_eq_iff)
  then obtain s1 where g: "get_queue ops rt t0 t1 (model_name item) s = (?q, s1)"
    using assms(1,3) c'
    by (simp add: get_queue_def dual_get_cache_def with_mem_def with_redis_def kw_ttl_def)
  have p: "parent_pos (length ?q) < length ?q" using assms(2) by (intro parent_pos_less) simp
  have "py_lt ?it ((?q @ [?it]) ! parent_pos (length ?q)) = Inl TypeError"
    using p by (simp add: nth_append enc_json_item_def)
  then have "fst (heappush_py ?q ?it) = Inl TypeError"
    using assms(2) by (simp add: heappush_py_def siftdown_py.simps [of _ 0])
  then show ?thesis by (auto simp: add_request_def g Let_def split: prod.split sum.split)
qed

end
