(* ===== verification/PyText.thy ===== *)
theory PyText
  imports PyValue
begin

text \<open>
  String functions of Python that the modelled code calls: membership, \<^verbatim>\<open>int(s)\<close>,
  \<^verbatim>\<open>str(i)\<close>, \<^verbatim>\<open>split\<close>, \<^verbatim>\<open>lower\<close>, \<^verbatim>\<open>strip\<close> and indexing by
  character of a UTF-8 string. Case, white space and digits are those of ASCII.
\<close>

subsection \<open>Substrings\<close>

fun starts_with :: "string \<Rightarrow> string \<Rightarrow> bool" where
  "starts_with [] s = True"
| "starts_with (c # p) [] = False"
| "starts_with (c # p) (d # s) = (c = d \<and> starts_with p s)"

lemma starts_with_iff: "starts_with p s \<longleftrightarrow> (\<exists>t. s = p @ t)"
  by (induction p s rule: starts_with.induct) auto

definition ends_with :: "string \<Rightarrow> string \<Rightarrow> bool" where
  "ends_with p s = starts_with (rev p) (rev s)"

lemma ends_with_iff: "ends_with p s \<longleftrightarrow> (\<exists>t. s = t @ p)"
proof
  assume "ends_with p s"
  then obtain t where "rev s = rev p @ t" by (auto simp: ends_with_def starts_with_iff)
  then have "s = rev t @ p" by (metis rev_append rev_rev_ident)
  then show "\<exists>t. s = t @ p" ..
qed (auto simp: ends_with_def starts_with_iff)

text \<open>\<^verbatim>\<open>sub in s\<close>.\<close>

fun str_in :: "string \<Rightarrow> string \<Rightarrow> bool" where
  "str_in sub [] = (sub = [])"
| "str_in sub (c # s) = (starts_with sub (c # s) \<or> str_in sub s)"

lemma str_in_iff: "str_in sub s \<longleftrightarrow> (\<exists>a b. s = a @ sub @ b)"
proof (induction s)
  case (Cons c s)
  show ?case
  proof
    assume "str_in sub (c # s)"
    then consider t where "c # s = sub @ t" | a b where "s = a @ sub @ b"
      using Cons by (auto simp: starts_with_iff)
    then show "\<exists>a b. c # s = a @ sub @ b"
    proof cases
      case (1 t)
      then show ?thesis by (intro exI [of _ "[]"] exI [of _ t]) simp
    next
      case (2 a b)
      then show ?thesis by (intro exI [of _ "c # a"] exI [of _ b]) simp
    qed
  next
    assume "\<exists>a b. c # s = a @ sub @ b"
    then obtain a b where "c # s = a @ sub @ b" by blast
    then have "starts_with sub (c # s) \<or> (\<exists>a b. s = a @ sub @ b)"
      by (cases a) (auto simp: starts_with_iff)
    then show "str_in sub (c # s)" using Cons by simp
  qed
qed auto

subsection \<open>Case, white space, splitting\<close>

definition to_lower :: "char \<Rightarrow> char" where
  "to_lower c = (if 65 \<le> code c \<and> code c \<le> 90 then byte (code c + 32) else c)"

definition lower :: "string \<Rightarrow> string" where
  "lower s = map to_lower s"

definition is_space :: "char \<Rightarrow> bool" where
  "is_space c \<longleftrightarrow> (9 \<le> code c \<and> code c \<le> 13) \<or> (28 \<le> code c \<and> code c \<le> 32)"

definition strip :: "string \<Rightarrow> string" where
  "strip s = rev (dropWhile is_space (rev (dropWhile is_space s)))"

text \<open>\<^verbatim>\<open>s.split(c)\<close> for a separator of one character.\<close>

fun split_on :: "char \<Rightarrow> string \<Rightarrow> string list" where
  "split_on c [] = [[]]"
| "split_on c (d # s) =
     (if d = c then [] # split_on c s
      else (case split_on c s of [] \<Rightarrow> [[d]] | w # ws \<Rightarrow> (d # w) # ws))"

lemma split_on_nonempty [simp]: "split_on c s \<noteq> []"
  by (cases s) (auto split: list.splits)

fun join_with :: "string \<Rightarrow> string list \<Rightarrow> string" where
  "join_with sep [] = []"
| "join_with sep [w] = w"
| "join_with sep (w # v # ws) = w @ sep @ join_with sep (v # ws)"

lemma join_split: "join_with [c] (split_on c s) = s"
proof (induction s)
  case (Cons d s)
  obtain w ws where w: "split_on c s = w # ws" by (cases "split_on c s") auto
  then show ?case using Cons by (cases ws) auto
qed simp

lemma split_on_no_sep: "w \<in> set (split_on c s) \<Longrightarrow> c \<notin> set w"
proof (induction s arbitrary: w)
  case (Cons d s)
  obtain v vs where "split_on c s = v # vs" by (cases "split_on c s") auto
  then show ?case using Cons by (auto split: if_splits)
qed simp

lemma append_sep_eq:
  "c \<notin> set a \<Longrightarrow> c \<notin> set b \<Longrightarrow> a @ c # x = b @ c # y \<longleftrightarrow> a = b \<and> x = y"
proof (induction a arbitrary: b)
  case Nil
  then show ?case by (cases b) auto
next
  case (Cons d a)
  then show ?case by (cases b) auto
qed

lemma split_on_sep: "c \<notin> set a \<Longrightarrow> split_on c (a @ c # s) = a # split_on c s"
  by (induction a) auto

subsection \<open>Integers\<close>

definition digit_val :: "char \<Rightarrow> nat" where
  "digit_val c = code c - 48"

text \<open>Digits with single underscores between them.\<close>

fun int_digits :: "bool \<Rightarrow> nat \<Rightarrow> string \<Rightarrow> nat option" where
  "int_digits after_digit acc [] = (if after_digit then Some acc else None)"
| "int_digits after_digit acc (c # s) =
     (if is_digit c then int_digits True (10 * acc + digit_val c) s
      else if c = CHR ''_'' \<and> after_digit \<and> s \<noteq> [] \<and> is_digit (hd s) then int_digits False acc s
      else None)"

text \<open>\<^verbatim>\<open>int(s)\<close>; \<^term>\<open>None\<close> when it raises \<^verbatim>\<open>ValueError\<close>.\<close>

definition int_of_str :: "string \<Rightarrow> int option" where
  "int_of_str s =
     (case strip s of
        [] \<Rightarrow> None
      | c # t \<Rightarrow>
        if c = CHR ''-'' then map_option (\<lambda>n. - int n) (int_digits False 0 t)
        else if c = CHR ''+'' then map_option int (int_digits False 0 t)
        else map_option int (int_digits False 0 (c # t)))"

text \<open>\<^verbatim>\<open>str(i)\<close>.\<close>

fun str_of_nat :: "nat \<Rightarrow> string" where
  "str_of_nat n = (if n < 10 then [byte (48 + n)] else str_of_nat (n div 10) @ [byte (48 + n mod 10)])"

declare str_of_nat.simps [simp del]

definition str_of_int :: "int \<Rightarrow> string" where
  "str_of_int i = (if i < 0 then CHR ''-'' # str_of_nat (nat (- i)) else str_of_nat (nat i))"

lemma code_byte [simp]: "n < 256 \<Longrightarrow> code (byte n) = n"
  by (simp add: code_def byte_def)

lemma digit_byte: "n < 10 \<Longrightarrow> is_digit (byte (48 + n)) \<and> digit_val (byte (48 + n)) = n"
  by (simp add: is_digit_def digit_val_def)

lemma int_digits_snoc:
  "int_digits b acc s = Some v \<Longrightarrow> is_digit c \<Longrightarrow> int_digits b acc (s @ [c]) = Some (10 * v + digit_val c)"
proof (induction b acc s rule: int_digits.induct)
  case (2 b acc d s)
  then show ?case by (cases s) (auto split: if_splits)
qed (auto split: if_splits)

lemma int_digits_str: "int_digits False 0 (str_of_nat n) = Some n"
proof (induction n rule: str_of_nat.induct)
  case (1 n)
  show ?case
  proof (cases "n < 10")
    case True
    then show ?thesis using digit_byte [of n] by (simp add: str_of_nat.simps [of n])
  next
    case False
    have "int_digits False 0 (str_of_nat (n div 10) @ [byte (48 + n mod 10)]) = Some (10 * (n div 10) + n mod 10)"
      using int_digits_snoc [OF "1.IH" [OF False], of "byte (48 + n mod 10)"] digit_byte [of "n mod 10"] by simp
    then show ?thesis using False by (simp add: str_of_nat.simps [of n])
  qed
qed

lemma str_of_nat_digits: "c \<in> set (str_of_nat n) \<Longrightarrow> is_digit c"
proof (induction n rule: str_of_nat.induct)
  case (1 n)
  then show ?case
    using digit_byte [of n] digit_byte [of "n mod 10"]
    by (cases "n < 10") (auto simp: str_of_nat.simps [of n])
qed

lemma str_of_nat_nonempty [simp]: "str_of_nat n \<noteq> []"
  by (subst str_of_nat.simps) simp

lemma strip_no_space: "\<forall>c \<in> set s. \<not> is_space c \<Longrightarrow> strip s = s"
proof -
  assume a: "\<forall>c \<in> set s. \<not> is_space c"
  have d: "dropWhile is_space t = t" if "\<forall>c \<in> set t. \<not> is_space c" for t
    using that by (cases t) auto
  show ?thesis using d [OF a] d [of "rev s"] a by (simp add: strip_def)
qed

lemma digit_not_space: "is_digit c \<Longrightarrow> \<not> is_space c"
  by (auto simp: is_digit_def is_space_def)

text \<open>\<^verbatim>\<open>int(str(i)) == i\<close>.\<close>

lemma int_of_str_str: "int_of_str (str_of_int i) = Some i"
proof -
  have ns: "strip (str_of_nat n) = str_of_nat n" for n
    by (rule strip_no_space) (use str_of_nat_digits digit_not_space in blast)
  have neg: "strip (CHR ''-'' # str_of_nat n) = CHR ''-'' # str_of_nat n" for n
    by (rule strip_no_space)
      (use str_of_nat_digits digit_not_space in \<open>auto simp: is_space_def code_def\<close>)
  have hd: "c \<noteq> CHR ''-'' \<and> c \<noteq> CHR ''+''" if "str_of_nat n = c # t" for n c t
    using str_of_nat_digits [of c n] that by (auto simp: is_digit_def code_def)
  show ?thesis
  proof (cases "i < 0")
    case True
    then show ?thesis by (simp add: str_of_int_def int_of_str_def neg int_digits_str)
  next
    case False
    obtain c t where ct: "str_of_nat (nat i) = c # t" by (cases "str_of_nat (nat i)") auto
    then show ?thesis
      using False hd [OF ct] int_digits_str [of "nat i"] ns [of "nat i"]
      by (simp add: str_of_int_def int_of_str_def)
  qed
qed

subsection \<open>Characters\<close>

text \<open>The characters of a UTF-8 string: a lead byte with its continuation bytes.\<close>

definition is_cont :: "char \<Rightarrow> bool" where
  "is_cont c \<longleftrightarrow> 128 \<le> code c \<and> code c < 192"

fun chars_aux :: "string \<Rightarrow> string \<Rightarrow> string list" where
  "chars_aux cur [] = [cur]"
| "chars_aux cur (c # s) = (if is_cont c then chars_aux (cur @ [c]) s else cur # chars_aux [c] s)"

definition py_chars :: "string \<Rightarrow> string list" where
  "py_chars s = (case s of [] \<Rightarrow> [] | c # t \<Rightarrow> chars_aux [c] t)"

lemma concat_chars_aux: "concat (chars_aux cur s) = cur @ s"
  by (induction s arbitrary: cur) auto

lemma concat_py_chars [simp]: "concat (py_chars s) = s"
  by (simp add: py_chars_def concat_chars_aux split: list.split)

definition py_len :: "string \<Rightarrow> nat" where
  "py_len s = length (py_chars s)"

subsection \<open>Text of a value\<close>

text \<open>\<^verbatim>\<open>str(v)\<close>; that of a float or a container is a parameter.\<close>

definition val_str :: "(pyval \<Rightarrow> string) \<Rightarrow> pyval \<Rightarrow> string" where
  "val_str py_str v =
     (case v of
        PStr s \<Rightarrow> s
      | PInt i \<Rightarrow> str_of_int i
      | PBool b \<Rightarrow> (if b then ''True'' else ''False'')
      | PNone \<Rightarrow> ''None''
      | _ \<Rightarrow> py_str v)"

end
