(* ===== verification/Deployments.thy ===== *)
theory Deployments
  imports PyText
begin

text \<open>
  What the routing code reads of a deployment, and \<^verbatim>\<open>router_strategy/simple_shuffle.py\<close>: the
  weighted random pick. Deployments have passed the validation of the router's \<^verbatim>\<open>Deployment\<close>
  class: they have an id and typed parameters; an optional field is a key that may be missing. A
  number drawn by \<^verbatim>\<open>random.random()\<close> is an argument \<open>u\<close> with 0 \<open>\<le>\<close> u < 1. The theory shows that a
  deployment is picked for a range of \<open>u\<close> that is as wide as its share of the weights.
\<close>

record deployment =
  dep_id :: string
  dep_model :: string
  lp_weight :: "rat option"
  lp_rpm :: "rat option"
  lp_tpm :: "rat option"
  top_rpm :: "rat option"
  top_tpm :: "rat option"
  mi_rpm :: "rat option"
  mi_tpm :: "rat option"
  dep_tags :: "string list option"
  lp_input_cost :: "rat option"
  lp_output_cost :: "rat option"
  lp_rest :: "(string, pyval) dict" \<comment> \<open>the other \<^verbatim>\<open>litellm_params\<close>\<close>
  dep_name :: string \<comment> \<open>\<^verbatim>\<open>model_name\<close>\<close>
  mi_team_id :: "string option"
  mi_team_public :: "string option"
  mi_access_groups :: "string list"
  mi_environments :: "string list option"
  mi_rest :: "(string, pyval) dict" \<comment> \<open>the other \<^verbatim>\<open>model_info\<close>\<close>

subsection \<open>Random choice\<close>

text \<open>\<^verbatim>\<open>bisect.bisect_right(a, x, lo, hi)\<close>.\<close>

function bisect_right :: "rat list \<Rightarrow> rat \<Rightarrow> nat \<Rightarrow> nat \<Rightarrow> nat" where
  "bisect_right a x lo hi =
     (if lo < hi then
        (let mid = (lo + hi) div 2 in
         if x < a ! mid then bisect_right a x lo mid else bisect_right a x (mid + 1) hi)
      else lo)"
  by pat_completeness auto
termination by (relation "measure (\<lambda>(a, x, lo, hi). hi - lo)") auto

declare bisect_right.simps [simp del]

fun accumulate :: "rat \<Rightarrow> rat list \<Rightarrow> rat list" where
  "accumulate s [] = []"
| "accumulate s (w # ws) = (s + w) # accumulate (s + w) ws"

text \<open>\<^verbatim>\<open>random.choices(range(len(weights)), weights=weights)[0]\<close>.\<close>

definition random_choices :: "rat list \<Rightarrow> rat \<Rightarrow> nat pyres" where
  "random_choices weights u =
     (if weights = [] then Inl IndexError
      else let cum = accumulate 0 weights; total = last cum in
        if total \<le> 0 then Inl ValueError
        else Inr (bisect_right cum (u * total) 0 (length weights - 1)))"

text \<open>\<^verbatim>\<open>random.choice(xs)\<close>, where \<^verbatim>\<open>randbelow\<close> returns a number below its argument.\<close>

definition random_choice :: "(nat \<Rightarrow> nat) \<Rightarrow> 'a list \<Rightarrow> 'a pyres" where
  "random_choice randbelow xs =
     (if xs = [] then Inl IndexError
      else if randbelow (length xs) < length xs then Inr (xs ! randbelow (length xs)) else Inl IndexError)"

subsection \<open>Simple shuffle\<close>

definition weighted_pick ::
  "(deployment \<Rightarrow> rat option) \<Rightarrow> rat \<Rightarrow> deployment list \<Rightarrow> deployment pyres" where
  "weighted_pick weight_by u ds =
     (let weights = map (\<lambda>m. case weight_by m of None \<Rightarrow> 0 | Some w \<Rightarrow> w) ds; total_weight = sum_list weights in
      if total_weight = 0 then Inl ZeroDivisionError
      else case random_choices (map (\<lambda>w. w / total_weight) weights) u of
        Inl e \<Rightarrow> Inl e
      | Inr i \<Rightarrow> Inr (ds ! i))"

definition simple_shuffle :: "(nat \<Rightarrow> nat) \<Rightarrow> rat \<Rightarrow> deployment list \<Rightarrow> deployment pyres" where
  "simple_shuffle randbelow u ds =
     (case ds of
        [] \<Rightarrow> Inl IndexError
      | d # _ \<Rightarrow>
        if lp_weight d \<noteq> None then weighted_pick lp_weight u ds
        else if lp_rpm d \<noteq> None then weighted_pick lp_rpm u ds
        else if lp_tpm d \<noteq> None then weighted_pick lp_tpm u ds
        else random_choice randbelow ds)"

subsection \<open>Lemmas\<close>

lemma length_accumulate [simp]: "length (accumulate s ws) = length ws"
  by (induction ws arbitrary: s) auto

lemma accumulate_nth: "i < length ws \<Longrightarrow> accumulate s ws ! i = s + sum_list (take (Suc i) ws)"
proof (induction ws arbitrary: s i)
  case (Cons w ws)
  then show ?case by (cases i) (auto simp: algebra_simps)
qed simp

lemma last_accumulate: "ws \<noteq> [] \<Longrightarrow> last (accumulate s ws) = s + sum_list ws"
  by (simp add: last_conv_nth accumulate_nth flip: length_greater_0_conv)

text \<open>On a sorted list the search returns the boundary between the numbers up to \<open>x\<close> and the rest.\<close>

lemma bisect_right_correct:
  assumes "sorted a" "hi \<le> length a" "lo \<le> hi"
  shows "lo \<le> bisect_right a x lo hi \<and> bisect_right a x lo hi \<le> hi \<and>
    (\<forall>i. lo \<le> i \<and> i < bisect_right a x lo hi \<longrightarrow> a ! i \<le> x) \<and>
    (\<forall>i. bisect_right a x lo hi \<le> i \<and> i < hi \<longrightarrow> x < a ! i)"
  using assms
proof (induction a x lo hi rule: bisect_right.induct)
  case (1 a x lo hi)
  let ?mid = "(lo + hi) div 2"
  show ?case
  proof (cases "lo < hi")
    case False
    then have "bisect_right a x lo hi = lo" by (subst bisect_right.simps) simp
    then show ?thesis using False "1.prems"(3) by simp
  next
    case True
    have m: "lo \<le> ?mid" "?mid < hi" using True by auto
    have mono: "a ! i \<le> a ! j" if "i \<le> j" "j < hi" for i j
      using that sorted_nth_mono [OF "1.prems"(1)] "1.prems"(2) by auto
    show ?thesis
    proof (cases "x < a ! ?mid")
      case less: True
      have e: "bisect_right a x lo hi = bisect_right a x lo ?mid"
        using True less by (subst bisect_right.simps) (simp add: Let_def)
      have "x < a ! i" if "?mid \<le> i" "i < hi" for i using that less mono [of ?mid i] by simp
      then show ?thesis
        using "1.IH"(1) [OF True refl less] "1.prems" m unfolding e by (meson le_trans less_imp_le not_le)
    next
      case False
      have e: "bisect_right a x lo hi = bisect_right a x (?mid + 1) hi"
        using True False by (subst bisect_right.simps) (simp add: Let_def)
      have "a ! i \<le> x" if "i \<le> ?mid" for i using that False mono [of i ?mid] m by simp
      note low = this
      define r where "r = bisect_right a x (?mid + 1) hi"
      have r: "?mid + 1 \<le> r" "r \<le> hi" "\<forall>i. ?mid + 1 \<le> i \<and> i < r \<longrightarrow> a ! i \<le> x" "\<forall>i. r \<le> i \<and> i < hi \<longrightarrow> x < a ! i"
        using "1.IH"(2) [OF True refl False "1.prems"(1,2)] m(2) by (simp_all add: r_def)
      have "a ! i \<le> x" if "i < r" for i using that low [of i] r(3) by (cases "i \<le> ?mid") auto
      then show ?thesis unfolding e r_def [symmetric] using m(1) r(1,2,4) by simp
    qed
  qed
qed

lemma sorted_accumulate: "\<forall>w \<in> set ws. 0 \<le> w \<Longrightarrow> sorted (accumulate s ws)"
proof (induction ws arbitrary: s)
  case (Cons w ws)
  have "s + w \<le> y" if "y \<in> set (accumulate (s + w) ws)" for y
  proof -
    obtain i where i: "i < length ws" "y = accumulate (s + w) ws ! i" using \<open>y \<in> _\<close> by (metis in_set_conv_nth length_accumulate)
    have "0 \<le> sum_list (take (Suc i) ws)" using Cons.prems by (intro sum_list_nonneg) (auto dest: in_set_takeD)
    then show ?thesis using i by (simp add: accumulate_nth)
  qed
  then show ?case using Cons by simp
qed simp

lemma random_choices_interval:
  assumes "\<forall>w \<in> set ws. 0 \<le> w" "0 < sum_list ws" "0 \<le> u" "u < 1"
  shows "\<exists>i < length ws. random_choices ws u = Inr i \<and>
    sum_list (take i ws) \<le> u * sum_list ws \<and> u * sum_list ws < sum_list (take (Suc i) ws)"
proof -
  let ?x = "u * sum_list ws" and ?c = "accumulate 0 ws"
  have ne: "ws \<noteq> []" using assms(2) by auto
  let ?i = "bisect_right ?c ?x 0 (length ws - 1)"
  from bisect_right_correct [OF sorted_accumulate [OF assms(1)], of "length ws - 1" 0 0 ?x]
  have i: "?i \<le> length ws - 1" "\<forall>j < ?i. ?c ! j \<le> ?x" "\<forall>j. ?i \<le> j \<and> j < length ws - 1 \<longrightarrow> ?x < ?c ! j"
    by auto
  have len: "?i < length ws" using i(1) ne by (cases ws) auto
  have "sum_list (take ?i ws) \<le> ?x"
  proof (cases ?i)
    case 0
    then show ?thesis using assms by simp
  next
    case (Suc j)
    then show ?thesis using i(2) len accumulate_nth [of j ws 0] by (metis Suc_lessD add_0 lessI)
  qed
  moreover have "?x < sum_list (take (Suc ?i) ws)"
  proof (cases "?i < length ws - 1")
    case True
    then show ?thesis using i(3) len accumulate_nth [of ?i ws 0] by (metis add_0 le_refl)
  next
    case False
    then have "Suc ?i = length ws" using i(1) len by simp
    then show ?thesis using assms(2,4) mult_strict_right_mono [of u 1 "sum_list ws"] by simp
  qed
  moreover have "random_choices ws u = Inr ?i"
    using ne assms(2) last_accumulate [OF ne, of 0] by (simp add: random_choices_def Let_def)
  ultimately show ?thesis using len by blast
qed

subsection \<open>Properties\<close>

definition weights_of :: "(deployment \<Rightarrow> rat option) \<Rightarrow> deployment list \<Rightarrow> rat list" where
  "weights_of f ds = map (\<lambda>m. case f m of None \<Rightarrow> 0 | Some w \<Rightarrow> w) ds"

text \<open>The parameter that decides the weights: \<^verbatim>\<open>weight\<close>, \<^verbatim>\<open>rpm\<close> or \<^verbatim>\<open>tpm\<close> of the first deployment.\<close>

definition weight_field :: "deployment \<Rightarrow> (deployment \<Rightarrow> rat option) option" where
  "weight_field d =
     (if lp_weight d \<noteq> None then Some lp_weight else if lp_rpm d \<noteq> None then Some lp_rpm
      else if lp_tpm d \<noteq> None then Some lp_tpm else None)"

lemma sum_list_divide: "sum_list (map (\<lambda>w. w / t) ws) = sum_list ws / (t :: rat)"
  by (induction ws) (simp_all add: add_divide_distrib)

text \<open>
  With weights that are not negative and not all zero, the pick of \<^verbatim>\<open>simple_shuffle\<close>
  is a listed deployment of positive weight, and the draws \<open>u\<close> that pick it are exactly those between
  the share of the weights before it and that share plus its own.
\<close>

lemma shuffle_by_weight:
  assumes "weight_field (hd ds) = Some f" "ds \<noteq> []" "\<forall>w \<in> set (weights_of f ds). 0 \<le> w"
    and "0 < sum_list (weights_of f ds)" "0 \<le> u" "u < 1"
  shows "\<exists>i < length ds. simple_shuffle randbelow u ds = Inr (ds ! i) \<and>
    sum_list (take i (weights_of f ds)) \<le> u * sum_list (weights_of f ds) \<and>
    u * sum_list (weights_of f ds) < sum_list (take i (weights_of f ds)) + weights_of f ds ! i \<and>
    0 < weights_of f ds ! i"
proof -
  let ?ws = "weights_of f ds"
  let ?t = "sum_list ?ws"
  let ?ns = "map (\<lambda>w. w / ?t) ?ws"
  have one: "sum_list ?ns = 1" using assms(4) by (simp add: sum_list_divide)
  obtain i where i: "i < length ?ns" "random_choices ?ns u = Inr i"
    "sum_list (take i ?ns) \<le> u" "u < sum_list (take (Suc i) ?ns)"
    using random_choices_interval [of ?ns u] assms(3,4,5,6) one by auto
  have sh: "simple_shuffle randbelow u ds = weighted_pick f u ds"
    using assms(1,2) by (cases ds) (auto simp: simple_shuffle_def weight_field_def split: if_splits)
  have p: "weighted_pick f u ds = Inr (ds ! i)"
    using i(2) assms(4) by (simp add: weighted_pick_def weights_of_def Let_def)
  have len: "i < length ?ws" "i < length ds" using i(1) by (simp_all add: weights_of_def)
  have a: "sum_list (take i ?ws) \<le> u * ?t" using i(3) assms(4) by (simp add: take_map sum_list_divide divide_le_eq)
  have "u * ?t < sum_list (take (Suc i) ?ws)" using i(4) assms(4) by (simp add: take_map sum_list_divide less_divide_eq)
  then have b: "u * ?t < sum_list (take i ?ws) + ?ws ! i" using len by (simp add: take_Suc_conv_app_nth)
  then have "0 < ?ws ! i" using a by simp
  then show ?thesis using sh p len a b by (intro exI [of _ i]) simp
qed

definition dep :: "string \<Rightarrow> rat option \<Rightarrow> deployment" where
  "dep i w = \<lparr>dep_id = i, dep_model = i, lp_weight = w, lp_rpm = None, lp_tpm = None, top_rpm = None, top_tpm = None,
     mi_rpm = None, mi_tpm = None, dep_tags = None, lp_input_cost = None,
     lp_output_cost = None, lp_rest = [], dep_name = [], mi_team_id = None, mi_team_public = None,
     mi_access_groups = [], mi_environments = None, mi_rest = []\<rparr>"

end
