(* ===== verification/Wildcards.thy ===== *)
theory Wildcards
  imports Deployments
begin

text \<open>
  \<^verbatim>\<open>router_utils/pattern_match_deployments.py\<close>: deployments whose model name is a wildcard
  pattern. A pattern is turned into a regular expression and kept under it; a requested model is
  matched against the expressions from the most specific to the least, and what the wildcards matched
  is put into the model of the deployment. Of \<^verbatim>\<open>re\<close> the theory models \<^verbatim>\<open>re.escape\<close> and
  \<^verbatim>\<open>re.match\<close> on expressions of escaped characters and groups \<^verbatim>\<open>(.*)\<close>, which are greedy, do not
  cross a line end and are tried from the longest match down. The provider of a model is an argument.
\<close>

subsection \<open>Regular expressions\<close>

definition special_chars :: string where
  "special_chars = ''()[]{}?*+-|^$'' @ [CHR 0x5C] @ ''.&~# '' @ [CHR 0x09, CHR 0x0A, CHR 0x0D, CHR 0x0B, CHR 0x0C]"

abbreviation backslash :: char where "backslash \<equiv> CHR 0x5C"

definition escape_char :: "char \<Rightarrow> string" where
  "escape_char c = (if c \<in> set special_chars then [backslash, c] else [c])"

text \<open>\<^verbatim>\<open>re.escape(pattern).replace(r"\*", "(.*)")\<close>.\<close>

definition pattern_to_regex :: "string \<Rightarrow> string" where
  "pattern_to_regex pattern = concat (map (\<lambda>c. if c = CHR ''*'' then ''(.*)'' else escape_char c) pattern)"

datatype item = Lit char | Group

fun parse_regex :: "string \<Rightarrow> item list" where
  "parse_regex [] = []"
| "parse_regex (c # s) =
     (if c = backslash then (case s of [] \<Rightarrow> [] | d # t \<Rightarrow> Lit d # parse_regex t)
      else if starts_with ''(.*)'' (c # s) then Group # parse_regex (drop 3 s)
      else Lit c # parse_regex s)"

text \<open>Groups are matched greedily: \<open>n\<close> counts down from the longest run without a line end.\<close>

fun match_items :: "item list \<Rightarrow> string \<Rightarrow> string list option"
and match_group :: "nat \<Rightarrow> item list \<Rightarrow> string \<Rightarrow> string list option" where
  "match_items [] s = Some []"
| "match_items (Lit c # is) s = (case s of [] \<Rightarrow> None | d # t \<Rightarrow> if c = d then match_items is t else None)"
| "match_items (Group # is) s = match_group (length (takeWhile (\<lambda>c. c \<noteq> CHR 0x0A) s)) is s"
| "match_group n is s =
     (case match_items is (drop n s) of
        Some gs \<Rightarrow> Some (take n s # gs)
      | None \<Rightarrow> (case n of 0 \<Rightarrow> None | Suc k \<Rightarrow> match_group k is s))"

text \<open>The groups of \<^verbatim>\<open>re.match(regex, s)\<close>, which need not match to the end of \<open>s\<close>.\<close>

definition re_match :: "string \<Rightarrow> string \<Rightarrow> string list option" where
  "re_match regex s = match_items (parse_regex regex) s"

subsection \<open>The pattern router\<close>

type_synonym patterns = "(string, deployment list) dict"

definition calculate_pattern_specificity :: "string \<Rightarrow> nat \<times> nat" where
  "calculate_pattern_specificity pattern =
     (length pattern, length (filter (\<lambda>c. c \<in> set (''*+?'' @ [backslash] @ ''^$|()'')) pattern))"

definition sorted_patterns :: "patterns \<Rightarrow> patterns" where
  "sorted_patterns ps = rev (sort_key (\<lambda>x. calculate_pattern_specificity (fst x)) (rev ps))"

definition add_pattern :: "string \<Rightarrow> deployment \<Rightarrow> patterns \<Rightarrow> patterns" where
  "add_pattern pattern llm_deployment ps =
     (let regex = pattern_to_regex pattern in
      AList.update regex (dict_get ps regex [] @ [llm_deployment]) ps)"

text \<open>\<^verbatim>\<open>s.replace("*", segment, 1)\<close>.\<close>

fun replace_star :: "string \<Rightarrow> string \<Rightarrow> string" where
  "replace_star segment [] = []"
| "replace_star segment (c # s) = (if c = CHR ''*'' then segment @ s else c # replace_star segment s)"

definition set_deployment_model_name :: "string \<Rightarrow> string list \<Rightarrow> string \<Rightarrow> string" where
  "set_deployment_model_name matched_string dynamic_segments model =
     (if CHR ''*'' \<notin> set model then model
      else if length (filter (\<lambda>c. c = CHR ''*'') model) < length dynamic_segments then matched_string
      else fold replace_star dynamic_segments model)"

definition return_pattern_matched_deployments :: "string \<Rightarrow> string list \<Rightarrow> deployment list \<Rightarrow> deployment list" where
  "return_pattern_matched_deployments matched_string segments ds =
     map (\<lambda>d. d\<lparr>dep_model := set_deployment_model_name matched_string segments (dep_model d)\<rparr>) ds"

fun route_loop :: "string list option \<Rightarrow> string \<Rightarrow> patterns \<Rightarrow> deployment list option" where
  "route_loop filtered request [] = None"
| "route_loop filtered request ((pattern, llm_deployments) # rest) =
     (if (case filtered of None \<Rightarrow> False | Some names \<Rightarrow> pattern \<notin> set (map pattern_to_regex names))
      then route_loop filtered request rest
      else case re_match pattern request of
        Some segments \<Rightarrow> Some (return_pattern_matched_deployments request segments llm_deployments)
      | None \<Rightarrow> route_loop filtered request rest)"

definition route :: "patterns \<Rightarrow> string option \<Rightarrow> string list option \<Rightarrow> deployment list option" where
  "route ps request filtered_model_names =
     (case request of
        None \<Rightarrow> None
      | Some r \<Rightarrow> route_loop filtered_model_names r (sorted_patterns ps))"

text \<open>\<^verbatim>\<open>get_pattern\<close>; the provider that \<^verbatim>\<open>get_llm_provider\<close> finds, if any, is an argument.\<close>

definition get_pattern :: "(string \<Rightarrow> string option) \<Rightarrow> patterns \<Rightarrow> string \<Rightarrow> string option \<Rightarrow> deployment list option" where
  "get_pattern get_llm_provider ps model custom_llm_provider =
     (let provider = (case custom_llm_provider of Some p \<Rightarrow> Some p | None \<Rightarrow> get_llm_provider model);
          first = route ps (Some model) None in
      case first of
        Some (d # ds) \<Rightarrow> first
      | _ \<Rightarrow> route ps (Some ((case provider of Some p \<Rightarrow> p | None \<Rightarrow> ''None'') @ ''/'' @ model)) None)"

definition get_deployments_by_pattern ::
  "(string \<Rightarrow> string option) \<Rightarrow> patterns \<Rightarrow> string \<Rightarrow> string option \<Rightarrow> deployment list" where
  "get_deployments_by_pattern get_llm_provider ps model custom_llm_provider =
     (case get_pattern get_llm_provider ps model custom_llm_provider of Some ds \<Rightarrow> ds | None \<Rightarrow> [])"

subsection \<open>Lemmas\<close>

definition items_of :: "string \<Rightarrow> item list" where
  "items_of pattern = map (\<lambda>c. if c = CHR ''*'' then Group else Lit c) pattern"

text \<open>The expression of a pattern matches its characters and lets a star match anything.\<close>

lemma parse_pattern: "parse_regex (pattern_to_regex pattern) = items_of pattern"
proof (induction pattern)
  case Nil
  then show ?case by (simp add: pattern_to_regex_def items_of_def)
next
  case (Cons c pattern)
  consider "c = CHR ''*''" | "c \<noteq> CHR ''*''" "c \<in> set special_chars" | "c \<noteq> CHR ''*''" "c \<notin> set special_chars" by blast
  then show ?case
  proof cases
    case 1
    then show ?thesis using Cons by (simp add: pattern_to_regex_def items_of_def)
  next
    case 2
    then show ?thesis using Cons by (simp add: pattern_to_regex_def items_of_def escape_char_def)
  next
    case 3
    then have "c \<noteq> CHR ''(''" "c \<noteq> backslash" by (auto simp: special_chars_def)
    then show ?thesis using 3 Cons by (simp add: pattern_to_regex_def items_of_def escape_char_def)
  qed
qed

lemma match_literal: "CHR ''*'' \<notin> set a \<Longrightarrow> match_items (items_of a @ is) s =
    (if starts_with a s then match_items is (drop (length a) s) else None)"
proof (induction a arbitrary: s)
  case (Cons c a)
  then show ?case by (cases s) (auto simp: items_of_def)
qed (simp add: items_of_def)

lemma match_group_longest:
  assumes "n \<le> N" "match_items is (drop n s) = Some gs" "\<forall>k. n < k \<and> k \<le> N \<longrightarrow> match_items is (drop k s) = None"
  shows "match_group N is s = Some (take n s # gs)"
  using assms
proof (induction "N - n" arbitrary: N)
  case 0
  then show ?case by simp
next
  case (Suc m)
  then obtain N' where N: "N = Suc N'" by (cases N) auto
  have "match_group N' is s = Some (take n s # gs)" using Suc.hyps(1) [of N'] Suc.hyps(2) Suc.prems N by auto
  moreover have "match_items is (drop N s) = None" using Suc.hyps(2) Suc.prems by auto
  ultimately show ?case using N by simp
qed

lemma starts_with_length: "starts_with p s \<Longrightarrow> length p \<le> length s"
  by (auto simp: starts_with_iff)

lemma match_one_star:
  assumes "CHR ''*'' \<notin> set a" "CHR ''*'' \<notin> set b" "CHR 0x0A \<notin> set x"
  shows "re_match (pattern_to_regex (a @ ''*'' @ b)) (a @ x @ b) = Some [x]"
proof -
  let ?s = "x @ b"
  have i: "items_of (a @ ''*'' @ b) = items_of a @ Group # items_of b" by (simp add: items_of_def)
  have b: "match_items (items_of b) t = (if starts_with b t then Some [] else None)" for t
    using match_literal [OF assms(2), of "[]" t] by simp
  have "match_group (length (takeWhile (\<lambda>c. c \<noteq> CHR 0x0A) ?s)) (items_of b) ?s = Some (take (length x) ?s # [])"
  proof (rule match_group_longest)
    show "length x \<le> length (takeWhile (\<lambda>c. c \<noteq> CHR 0x0A) ?s)" using assms(3) by (subst takeWhile_append2) auto
    show "match_items (items_of b) (drop (length x) ?s) = Some []" by (simp add: b starts_with_iff)
    show "\<forall>k. length x < k \<and> k \<le> length (takeWhile (\<lambda>c. c \<noteq> CHR 0x0A) ?s) \<longrightarrow> match_items (items_of b) (drop k ?s) = None"
    proof (intro allI impI)
      fix k assume k: "length x < k \<and> k \<le> length (takeWhile (\<lambda>c. c \<noteq> CHR 0x0A) ?s)"
      have "k \<le> length ?s" using k length_takeWhile_le order_trans by blast
      then have "length (drop k ?s) < length b" using k by auto
      then have "\<not> starts_with b (drop k ?s)" using starts_with_length not_le by blast
      then show "match_items (items_of b) (drop k ?s) = None" by (simp add: b)
    qed
  qed
  moreover have "starts_with a (a @ x @ b)" by (simp add: starts_with_iff)
  ultimately show ?thesis
    using match_literal [OF assms(1), of "Group # items_of b" "a @ x @ b"]
    unfolding re_match_def parse_pattern i by simp
qed

lemma replace_star_one: "CHR ''*'' \<notin> set a \<Longrightarrow> replace_star x (a @ CHR ''*'' # b) = a @ x @ b"
  by (induction a) auto

lemma set_sorted_patterns [simp]: "set (sorted_patterns ps) = set ps"
  by (simp add: sorted_patterns_def)

lemma sorted_patterns_descending:
  "sorted_wrt (\<lambda>x y. calculate_pattern_specificity (fst y) \<le> calculate_pattern_specificity (fst x)) (sorted_patterns ps)"
  unfolding sorted_patterns_def sorted_wrt_rev
  using sorted_sort_key [of "\<lambda>x. calculate_pattern_specificity (fst x)" "rev ps"] by (simp add: sorted_map)

lemma route_loop_first:
  assumes "sorted_wrt (\<lambda>x y. f (fst y) \<le> (f (fst x) :: nat \<times> nat)) ps"
  shows "case route_loop None r ps of
      None \<Rightarrow> \<forall>(p, l) \<in> set ps. re_match p r = None
    | Some ds \<Rightarrow> \<exists>(p, l) \<in> set ps. \<exists>segs. re_match p r = Some segs \<and> ds = return_pattern_matched_deployments r segs l \<and>
        (\<forall>(q, l') \<in> set ps. re_match q r \<noteq> None \<longrightarrow> f q \<le> f p)"
  using assms
proof (induction ps)
  case (Cons x ps)
  obtain p l where x: "x = (p, l)" by (cases x)
  show ?case
  proof (cases "re_match p r")
    case (Some segs)
    then show ?thesis using Cons.prems x by fastforce
  next
    case None
    then show ?thesis using Cons x by (auto split: option.splits)
  qed
qed simp

subsection \<open>Properties\<close>

text \<open>
  A requested model is routed to the deployments of a pattern that matches it and than
  which no matching pattern is more specific, each with its model filled in from the match; nothing is
  returned exactly if no pattern matches.
\<close>

lemma route_most_specific:
  "case route ps (Some r) None of
     None \<Rightarrow> \<forall>(p, l) \<in> set ps. re_match p r = None
   | Some ds \<Rightarrow> \<exists>(p, l) \<in> set ps. \<exists>segs. re_match p r = Some segs \<and> ds = return_pattern_matched_deployments r segs l \<and>
       (\<forall>(q, l') \<in> set ps. re_match q r \<noteq> None \<longrightarrow> calculate_pattern_specificity q \<le> calculate_pattern_specificity p)"
  using route_loop_first [OF sorted_patterns_descending [of ps], of r] unfolding set_sorted_patterns by (simp add: route_def)

text \<open>
  Property C37. What a wildcard matched comes back in the place of the wildcard of the deployment's
  model: a request of the form \<open>a x b\<close> to the pattern \<open>a*b\<close> of a deployment with the model \<open>a'*b'\<close>
  is sent to \<open>a' x b'\<close>.
\<close>

theorem wildcard_roundtrip:
  assumes "CHR ''*'' \<notin> set a" "CHR ''*'' \<notin> set b" "CHR ''*'' \<notin> set a'" "CHR 0x0A \<notin> set x"
    and "dep_model d = a' @ ''*'' @ b'"
  shows "route (add_pattern (a @ ''*'' @ b) d []) (Some (a @ x @ b)) None = Some [d\<lparr>dep_model := a' @ x @ b'\<rparr>]"
proof -
  have "set_deployment_model_name (a @ x @ b) [x] (dep_model d) = a' @ x @ b'"
    using assms(3) by (simp add: set_deployment_model_name_def assms(5) replace_star_one)
  then show ?thesis
    using match_one_star [OF assms(1,2,4)]
    by (simp add: route_def add_pattern_def sorted_patterns_def dict_get_def Let_def return_pattern_matched_deployments_def)
qed

theorem wildcard_roundtrip_witness:
  "route (add_pattern ''llmengine/*'' ((dep ''1'' None)\<lparr>dep_model := ''openai/*''\<rparr>) []) (Some ''llmengine/foo'') None =
     Some [(dep ''1'' None)\<lparr>dep_model := ''openai/foo''\<rparr>]"
  using wildcard_roundtrip [of "''llmengine/''" "[]" "''openai/''" "''foo''" "(dep ''1'' None)\<lparr>dep_model := ''openai/*''\<rparr>" "[]"]
  by simp

text \<open>An expression need not match to the end: what follows the last literal of a pattern is dropped.\<close>

lemma trailing_text_dropped:
  "route (add_pattern ''a/*-v1'' ((dep ''1'' None)\<lparr>dep_model := ''b/*-v1''\<rparr>) []) (Some ''a/x-v1-beta'') None =
     Some [(dep ''1'' None)\<lparr>dep_model := ''b/x-v1''\<rparr>]"
  by code_simp

end
