(* ===== verification/RouterModels.thy ===== *)
theory RouterModels
  imports Wildcards
begin

text \<open>
  The deployments of a \<^verbatim>\<open>Router\<close> (\<^verbatim>\<open>router.py\<close>): the list of deployments, its two indices (by id and
  by model name), the wildcard patterns and the cached access groups, with the operations that set, add,
  replace and delete deployments and those that look them up. What a deployment goes through before it
  is added is an argument: the check of its provider, the set-up of pass-through endpoints and of the
  automatic routers, the id that is computed as a hash and the values of secrets. The cache of model group
  information and the price list are left out, and so are the environment variables that the data sources
  of a vision model may name. The model and the typed parameters of a deployment are no secrets.
\<close>

subsection \<open>State\<close>

datatype alias_item = AliasName string | AliasItem string bool \<comment> \<open>the model, and whether it is hidden\<close>

record router =
  model_list :: "deployment list"
  model_id_to_deployment_index_map :: "(string, nat) dict"
  model_name_to_deployment_indices :: "(string, nat list) dict"
  model_names :: "string set"
  deployment_names :: "string list"
  pattern_router :: patterns
  team_pattern_routers :: "(string, patterns) dict"
  provider_default_deployment_ids :: "string list"
  model_group_alias :: "(string, alias_item) dict"
  access_groups_cache :: "(string, string list) dict option"
  default_deployment :: "deployment option"
  router_fallbacks :: "pyval list option"
  ignore_invalid_deployments :: bool

record setup_env =
  check_provider :: "deployment \<Rightarrow> unit pyres"
  initialize :: "deployment \<Rightarrow> unit pyres"
  litellm_environment :: "string option"
  generate_model_id :: "string \<Rightarrow> deployment \<Rightarrow> string"
  get_secret :: "string \<Rightarrow> pyval"

abbreviation id_index where "id_index \<equiv> model_id_to_deployment_index_map"
abbreviation name_index where "name_index \<equiv> model_name_to_deployment_indices"

subsection \<open>Adding deployments\<close>

definition invalidate_access_groups_cache :: "router \<Rightarrow> router" where
  "invalidate_access_groups_cache r = r\<lparr>access_groups_cache := None\<rparr>"

definition VALID_LITELLM_ENVIRONMENTS :: "string list" where
  "VALID_LITELLM_ENVIRONMENTS = [''development'', ''staging'', ''production'']"

definition deployment_is_active_for_environment :: "string option \<Rightarrow> deployment \<Rightarrow> bool pyres" where
  "deployment_is_active_for_environment environment d =
     (case mi_environments d of
        None \<Rightarrow> Inr True
      | Some supported \<Rightarrow>
        (case environment of
           None \<Rightarrow> Inl ValueError
         | Some env \<Rightarrow>
           if env \<notin> set VALID_LITELLM_ENVIRONMENTS then Inl ValueError
           else if \<exists>e \<in> set supported. e \<notin> set VALID_LITELLM_ENVIRONMENTS then Inl ValueError
           else Inr (env \<in> set supported)))"

definition add_model_to_list_and_index_map :: "deployment \<Rightarrow> string option \<Rightarrow> router \<Rightarrow> router" where
  "add_model_to_list_and_index_map model model_id r =
     (let idx = length (model_list r);
          r1 = invalidate_access_groups_cache (r\<lparr>model_list := model_list r @ [model]\<rparr>);
          r2 = r1\<lparr>model_id_to_deployment_index_map :=
                 AList.update (case model_id of Some i \<Rightarrow> i | None \<Rightarrow> dep_id model) idx (id_index r1)\<rparr> in
      if dep_name model = [] then r2
      else r2\<lparr>model_name_to_deployment_indices :=
             AList.update (dep_name model) (dict_get (name_index r2) (dep_name model) [] @ [idx]) (name_index r2)\<rparr>)"

text \<open>
  \<^verbatim>\<open>_add_deployment\<close>: limits at the top level become parameters, wildcard names become patterns.
  The result is the changed deployment; what was recorded before an exception stays.
\<close>

definition star_in :: "string \<Rightarrow> bool" where
  "star_in s \<longleftrightarrow> CHR ''*'' \<in> set s"

definition limits_as_params :: "deployment \<Rightarrow> deployment" where
  "limits_as_params d = d\<lparr>lp_rpm := (case lp_rpm d of None \<Rightarrow> top_rpm d | Some q \<Rightarrow> Some q),
     lp_tpm := (case lp_tpm d of None \<Rightarrow> top_tpm d | Some q \<Rightarrow> Some q)\<rparr>"

definition add_patterns :: "deployment \<Rightarrow> router \<Rightarrow> router" where
  "add_patterns d r =
     (let r1 = (if star_in (dep_name d)
                then r\<lparr>pattern_router := add_pattern (dep_name d) d (pattern_router r),
                       provider_default_deployment_ids :=
                         provider_default_deployment_ids r @ (if dep_id d = [] then [] else [dep_id d])\<rparr>
                else r) in
      case (mi_team_id d, mi_team_public d) of
        (Some team, Some public) \<Rightarrow>
          if star_in public
          then r1\<lparr>team_pattern_routers :=
                 AList.update team (add_pattern public d (dict_get (team_pattern_routers r1) team [])) (team_pattern_routers r1)\<rparr>
          else r1
      | _ \<Rightarrow> r1)"

definition prepare_deployment :: "setup_env \<Rightarrow> deployment \<Rightarrow> router \<Rightarrow> deployment pyres \<times> router" where
  "prepare_deployment S d r =
     (case check_provider S d of
        Inl e \<Rightarrow> (Inl e, r)
      | Inr _ \<Rightarrow>
        (let d1 = limits_as_params d;
             r1 = add_patterns d1 (r\<lparr>deployment_names := deployment_names r @ [dep_model d]\<rparr>) in
         case initialize S d1 of
           Inl e \<Rightarrow> (Inl e, r1)
         | Inr _ \<Rightarrow> (Inr d1, r1)))"

definition create_deployment :: "setup_env \<Rightarrow> deployment \<Rightarrow> router \<Rightarrow> deployment option pyres \<times> router" where
  "create_deployment S d r =
     (case deployment_is_active_for_environment (litellm_environment S) d of
        Inl e \<Rightarrow> (if ignore_invalid_deployments r then Inr None else Inl e, r)
      | Inr False \<Rightarrow> (Inr None, r)
      | Inr True \<Rightarrow>
        (case prepare_deployment S d r of
           (Inl e, r1) \<Rightarrow> (if ignore_invalid_deployments r1 then Inr None else Inl e, r1)
         | (Inr d1, r1) \<Rightarrow> (Inr (Some d1), add_model_to_list_and_index_map d1 (Some (dep_id d1)) r1)))"

text \<open>
  An entry of the configuration: its deployment, the id it names and the organizations it is repeated for.
\<close>

record raw_model =
  raw_deployment :: deployment
  raw_id :: "string option"
  raw_organizations :: "string list option"

definition resolve_secrets :: "setup_env \<Rightarrow> (string, pyval) dict \<Rightarrow> (string, pyval) dict" where
  "resolve_secrets S params =
     map (\<lambda>(k, v). (k, case v of PStr s \<Rightarrow> if starts_with ''os.environ/'' s then get_secret S s else v | _ \<Rightarrow> v)) params"

definition with_id :: "setup_env \<Rightarrow> raw_model \<Rightarrow> deployment" where
  "with_id S m =
     (let d = (raw_deployment m)\<lparr>lp_rest := resolve_secrets S (lp_rest (raw_deployment m))\<rparr> in
      d\<lparr>dep_id := (case raw_id m of Some i \<Rightarrow> i | None \<Rightarrow> generate_model_id S (dep_name d) d)\<rparr>)"

definition expand_organizations :: "setup_env \<Rightarrow> raw_model \<Rightarrow> deployment list" where
  "expand_organizations S m =
     (let d = with_id S m in
      case raw_organizations m of
        None \<Rightarrow> [d]
      | Some orgs \<Rightarrow> map (\<lambda>org. d\<lparr>lp_rest := AList.update ''organization'' (PStr org) (lp_rest d)\<rparr>) orgs)"

fun create_deployments :: "setup_env \<Rightarrow> deployment list \<Rightarrow> router \<Rightarrow> unit pyres \<times> router" where
  "create_deployments S [] r = (Inr (), r)"
| "create_deployments S (d # ds) r =
     (case create_deployment S d r of
        (Inl e, r1) \<Rightarrow> (Inl e, r1)
      | (Inr _, r1) \<Rightarrow> create_deployments S ds r1)"

definition set_model_list :: "setup_env \<Rightarrow> raw_model list \<Rightarrow> router \<Rightarrow> unit pyres \<times> router" where
  "set_model_list S models r =
     (case create_deployments S (concat (map (expand_organizations S) models))
             (invalidate_access_groups_cache
               (r\<lparr>model_list := [], model_id_to_deployment_index_map := [], model_name_to_deployment_indices := []\<rparr>)) of
        (Inl e, r1) \<Rightarrow> (Inl e, r1)
      | (Inr _, r1) \<Rightarrow> (Inr (), r1\<lparr>model_names := set (map (dep_name \<circ> raw_deployment) models)\<rparr>))"

definition has_model_id :: "string \<Rightarrow> router \<Rightarrow> bool" where
  "has_model_id candidate_id r \<longleftrightarrow> map_of (id_index r) candidate_id \<noteq> None"

text \<open>
  \<^verbatim>\<open>add_deployment\<close>. The model that is stored is taken before the limits become parameters, the one
  that is returned after.
\<close>

definition add_deployment :: "setup_env \<Rightarrow> deployment \<Rightarrow> router \<Rightarrow> deployment option pyres \<times> router" where
  "add_deployment S d r =
     (if dep_id d \<noteq> [] \<and> has_model_id (dep_id d) r then (Inr None, r)
      else case prepare_deployment S d r of
        (Inl e, r1) \<Rightarrow> (Inl e, r1)
      | (Inr d1, r1) \<Rightarrow>
        (let r2 = add_model_to_list_and_index_map d (Some (dep_id d)) r1 in
         (Inr (Some d1), r2\<lparr>model_names := insert (dep_name d) (model_names r2)\<rparr>)))"

subsection \<open>Removing deployments\<close>

definition shift_index :: "nat \<Rightarrow> nat \<Rightarrow> nat" where
  "shift_index removal_idx idx = (if removal_idx < idx then idx - 1 else idx)"

fun shift_name_index :: "nat \<Rightarrow> (string, nat list) dict \<Rightarrow> (string, nat list) dict" where
  "shift_name_index removal_idx [] = []"
| "shift_name_index removal_idx ((model_name, indices) # rest) =
     (let updated_indices = map (shift_index removal_idx) (remove1 removal_idx indices) in
      if updated_indices = [] then shift_name_index removal_idx rest
      else (model_name, updated_indices) # shift_name_index removal_idx rest)"

definition update_deployment_indices_after_removal :: "string \<Rightarrow> nat \<Rightarrow> router \<Rightarrow> router" where
  "update_deployment_indices_after_removal model_id removal_idx r =
     r\<lparr>model_id_to_deployment_index_map :=
         AList.delete model_id (map (\<lambda>(i, k). (i, shift_index removal_idx k)) (id_index r)),
       model_name_to_deployment_indices := shift_name_index removal_idx (name_index r)\<rparr>"

text \<open>\<^verbatim>\<open>model_list.pop(idx)\<close> with what follows it; an index out of range raises.\<close>

definition remove_at :: "string \<Rightarrow> nat \<Rightarrow> router \<Rightarrow> deployment pyres \<times> router" where
  "remove_at model_id idx r =
     (case nth_or_raise (model_list r) idx of
        Inl e \<Rightarrow> (Inl e, r)
      | Inr item \<Rightarrow>
        (Inr item, update_deployment_indices_after_removal model_id idx
           (invalidate_access_groups_cache (r\<lparr>model_list := pop_nth idx (model_list r)\<rparr>))))"

definition delete_deployment :: "string \<Rightarrow> router \<Rightarrow> deployment option \<times> router" where
  "delete_deployment i r =
     (case map_of (id_index r) i of
        None \<Rightarrow> (None, r)
      | Some idx \<Rightarrow>
        (case remove_at i idx r of
           (Inl _, r1) \<Rightarrow> (None, r1)
         | (Inr item, r1) \<Rightarrow> (Some item, r1)))"

definition get_deployment :: "string \<Rightarrow> router \<Rightarrow> deployment option pyres" where
  "get_deployment model_id r =
     (case map_of (id_index r) model_id of
        None \<Rightarrow> Inr None
      | Some idx \<Rightarrow> map_sum id Some (nth_or_raise (model_list r) idx))"

text \<open>The parameters of a deployment, as \<^verbatim>\<open>upsert_deployment\<close> compares them.\<close>

definition litellm_params :: "deployment \<Rightarrow> deployment" where
  "litellm_params d = d\<lparr>dep_id := [], top_rpm := None, top_tpm := None, mi_rpm := None, mi_tpm := None, dep_name := [],
     mi_team_id := None, mi_team_public := None, mi_access_groups := [], mi_environments := None, mi_rest := []\<rparr>"

definition upsert_deployment :: "setup_env \<Rightarrow> deployment \<Rightarrow> router \<Rightarrow> deployment option pyres \<times> router" where
  "upsert_deployment S d r =
     (let failed = (\<lambda>e r1. (if ignore_invalid_deployments r1 then Inr None else Inl e, r1));
          add = (\<lambda>r1. case add_deployment S d r1 of
            (Inl e, r2) \<Rightarrow> failed e r2
          | (Inr None, r2) \<Rightarrow> (Inr (Some d), r2)
          | (Inr (Some d1), r2) \<Rightarrow> (Inr (Some d1), r2)) in
      case get_deployment (dep_id d) r of
        Inl e \<Rightarrow> failed e r
      | Inr None \<Rightarrow> add r
      | Inr (Some on_router) \<Rightarrow>
        if litellm_params d = litellm_params on_router then (Inr None, r)
        else case map_of (id_index r) (dep_id d) of
          None \<Rightarrow> add r
        | Some removal_idx \<Rightarrow>
          (case remove_at (dep_id d) removal_idx r of
             (Inl e, r1) \<Rightarrow> failed e r1
           | (Inr _, r1) \<Rightarrow> add r1))"

subsection \<open>Looking up deployments\<close>

text \<open>\<^verbatim>\<open>[self.model_list[idx] for idx in indices]\<close>.\<close>

fun at_indices :: "router \<Rightarrow> nat list \<Rightarrow> deployment list pyres" where
  "at_indices r [] = Inr []"
| "at_indices r (k # ks) =
     (case nth_or_raise (model_list r) k of Inl e \<Rightarrow> Inl e | Inr d \<Rightarrow>
      case at_indices r ks of Inl e \<Rightarrow> Inl e | Inr ds \<Rightarrow> Inr (d # ds))"

definition get_deployment_by_model_group_name :: "string \<Rightarrow> router \<Rightarrow> deployment option pyres" where
  "get_deployment_by_model_group_name model_group_name r =
     (case map_of (name_index r) model_group_name of
        Some (k # _) \<Rightarrow> map_sum id Some (nth_or_raise (model_list r) k)
      | _ \<Rightarrow> Inr None)"

definition get_model_info :: "string \<Rightarrow> router \<Rightarrow> deployment option pyres" where
  "get_model_info i r =
     (case map_of (id_index r) i of None \<Rightarrow> Inr None | Some idx \<Rightarrow> map_sum id Some (nth_or_raise (model_list r) idx))"

definition truthy_team :: "deployment \<Rightarrow> bool" where
  "truthy_team d \<longleftrightarrow> mi_team_id d \<noteq> None \<and> mi_team_id d \<noteq> Some []"

definition get_model_ids :: "string option \<Rightarrow> bool \<Rightarrow> router \<Rightarrow> string list pyres" where
  "get_model_ids model_name exclude_team_models r =
     (let keep = (\<lambda>d. \<not> (exclude_team_models \<and> truthy_team d)) in
      case model_name of
        Some n \<Rightarrow>
          map_sum id (\<lambda>ds. map dep_id (filter keep ds)) (at_indices r (dict_get (name_index r) n []))
      | None \<Rightarrow>
          map_sum id (\<lambda>ds. map fst (filter (\<lambda>p. keep (snd p)) (zip (dict_keys (id_index r)) ds)))
            (at_indices r (map snd (id_index r))))"

definition should_include_deployment :: "string \<Rightarrow> deployment \<Rightarrow> string option \<Rightarrow> bool" where
  "should_include_deployment model_name model team_id =
     (if team_id \<noteq> None \<and> mi_team_id model = team_id \<and> mi_team_public model = Some model_name then True
      else dep_name model = model_name)"

definition rename :: "string option \<Rightarrow> deployment \<Rightarrow> deployment" where
  "rename model_alias d = (case model_alias of None \<Rightarrow> d | Some a \<Rightarrow> d\<lparr>dep_name := a\<rparr>)"

definition get_all_deployments :: "string \<Rightarrow> string option \<Rightarrow> string option \<Rightarrow> router \<Rightarrow> deployment list pyres" where
  "get_all_deployments model_name model_alias team_id r =
     (let pick = (\<lambda>ds. map (rename model_alias) (filter (\<lambda>m. should_include_deployment model_name m team_id) ds)) in
      case map_of (name_index r) model_name of
        Some indices \<Rightarrow> map_sum id pick (at_indices r indices)
      | None \<Rightarrow> if team_id \<noteq> None then Inr (pick (model_list r)) else Inr [])"

fun alias_deployments :: "router \<Rightarrow> (string, alias_item) dict \<Rightarrow> deployment list pyres" where
  "alias_deployments r [] = Inr []"
| "alias_deployments r ((model_alias, model_value) # rest) =
     (case model_value of
        AliasItem _ True \<Rightarrow> alias_deployments r rest
      | AliasItem n False \<Rightarrow>
        (case get_all_deployments n (Some model_alias) None r of Inl e \<Rightarrow> Inl e | Inr ds \<Rightarrow>
         case alias_deployments r rest of Inl e \<Rightarrow> Inl e | Inr es \<Rightarrow> Inr (ds @ es))
      | AliasName n \<Rightarrow>
        (case get_all_deployments n (Some model_alias) None r of Inl e \<Rightarrow> Inl e | Inr ds \<Rightarrow>
         case alias_deployments r rest of Inl e \<Rightarrow> Inl e | Inr es \<Rightarrow> Inr (ds @ es)))"

definition get_model_list_from_model_alias :: "string option \<Rightarrow> router \<Rightarrow> deployment list pyres" where
  "get_model_list_from_model_alias model_name r =
     alias_deployments r
       (case model_name of
          None \<Rightarrow> model_group_alias r
        | Some n \<Rightarrow> (case map_of (model_group_alias r) n of None \<Rightarrow> [] | Some v \<Rightarrow> [(n, v)]))"

text \<open>The wildcard deployments for a name that nothing else serves, with that name put in.\<close>

definition wildcard_models :: "string \<Rightarrow> string option \<Rightarrow> router \<Rightarrow> deployment list" where
  "wildcard_models n team_id r =
     (let some_list = (\<lambda>x. case x of None \<Rightarrow> [] | Some ds \<Rightarrow> ds);
          team_only = (case team_id of
            None \<Rightarrow> []
          | Some t \<Rightarrow> (case map_of (team_pattern_routers r) t of
              None \<Rightarrow> []
            | Some ps \<Rightarrow> some_list (route ps (Some n) None))) in
      map (\<lambda>m. m\<lparr>dep_name := n\<rparr>) (some_list (route (pattern_router r) (Some n) None) @ team_only))"

definition get_model_list :: "string option \<Rightarrow> string option \<Rightarrow> router \<Rightarrow> deployment list pyres" where
  "get_model_list model_name team_id r =
     (case (case model_name of None \<Rightarrow> Inr [] | Some n \<Rightarrow> get_all_deployments n None team_id r) of
        Inl e \<Rightarrow> Inl e
      | Inr own \<Rightarrow>
        (case get_model_list_from_model_alias model_name r of
           Inl e \<Rightarrow> Inl e
         | Inr aliased \<Rightarrow>
           Inr (case model_name of
             None \<Rightarrow> own @ aliased @ model_list r
           | Some n \<Rightarrow> if own @ aliased = [] then wildcard_models n team_id r else own @ aliased)))"

definition get_team_specific_model :: "deployment \<Rightarrow> string option \<Rightarrow> string option" where
  "get_team_specific_model d team_id = (if team_id = mi_team_id d then mi_team_public d else None)"

definition get_model_names :: "string option \<Rightarrow> router \<Rightarrow> string list pyres" where
  "get_model_names team_id r =
     map_sum id
       (\<lambda>ds. concat (map (\<lambda>d. if truthy_team d
          then (case get_team_specific_model d team_id of Some n \<Rightarrow> if n = [] then [] else [n] | None \<Rightarrow> [])
          else [dep_name d]) ds))
       (get_model_list None None r)"

definition map_team_model :: "string \<Rightarrow> string \<Rightarrow> router \<Rightarrow> string option pyres" where
  "map_team_model team_model_name team_id r =
     map_sum id (\<lambda>ds. map_option dep_name (find (\<lambda>m. mi_team_id m = Some team_id) ds))
       (get_model_list (Some team_model_name) (Some team_id) r)"

definition resolve_model_name_from_model_id :: "string \<Rightarrow> router \<Rightarrow> string option pyres" where
  "resolve_model_name_from_model_id model_id r =
     (if model_id = [] then Inr None
      else if model_id \<in> model_names r \<or> has_model_id model_id r then Inr (Some model_id)
      else map_sum id
        (\<lambda>ds. map_option dep_name (find (\<lambda>d.
           (dep_model d = model_id \<or> ends_with (''/'' @ model_id) (dep_model d) \<or> ends_with ('':'' @ model_id) (dep_model d)) \<and>
           dep_name d \<noteq> []) ds))
        (get_model_list None None r))"

text \<open>The access groups of a list of models, and the cache of those of all models.\<close>

definition access_groups_of :: "string option \<Rightarrow> deployment list \<Rightarrow> (string, string list) dict" where
  "access_groups_of model_access_group ds =
     fold (\<lambda>(g, n) acc. AList.update g (dict_get acc g [] @ [n]) acc)
       (concat (map (\<lambda>m. map (\<lambda>g. (g, dep_name m))
          (filter (\<lambda>g. case model_access_group of None \<Rightarrow> True | Some a \<Rightarrow> g = a) (mi_access_groups m))) ds)) []"

definition get_model_access_groups ::
  "string option \<Rightarrow> string option \<Rightarrow> string option \<Rightarrow> router \<Rightarrow> (string, string list) dict pyres \<times> router" where
  "get_model_access_groups model_name model_access_group team_id r =
     (let use_cache = (model_name = None \<and> model_access_group = None \<and> team_id = None) in
      case (if use_cache then access_groups_cache r else None) of
        Some groups \<Rightarrow> (Inr groups, r)
      | None \<Rightarrow>
        (case get_model_list model_name team_id r of
           Inl e \<Rightarrow> (Inl e, r)
         | Inr ds \<Rightarrow>
           (let groups = access_groups_of model_access_group ds in
            (Inr groups, if use_cache then r\<lparr>access_groups_cache := Some groups\<rparr> else r))))"

text \<open>\<^verbatim>\<open>update_settings\<close> for the aliases of model groups.\<close>

definition update_model_group_alias :: "(string, alias_item) dict \<Rightarrow> router \<Rightarrow> router" where
  "update_model_group_alias aliases r = r\<lparr>model_group_alias := aliases\<rparr>"

subsection \<open>The deployments for a request\<close>

definition get_model_from_alias :: "string \<Rightarrow> router \<Rightarrow> string option" where
  "get_model_from_alias model r =
     map_option (\<lambda>item. case item of AliasName n \<Rightarrow> n | AliasItem n _ \<Rightarrow> n) (map_of (model_group_alias r) model)"

definition get_deployment_by_litellm_model :: "string \<Rightarrow> router \<Rightarrow> deployment list" where
  "get_deployment_by_litellm_model model r = filter (\<lambda>m. dep_model m = model) (model_list r)"

definition has_default_fallbacks :: "router \<Rightarrow> bool" where
  "has_default_fallbacks r \<longleftrightarrow>
     (case router_fallbacks r of
        None \<Rightarrow> False
      | Some fs \<Rightarrow> \<exists>f \<in> set fs. case f of PDict m \<Rightarrow> map_of m ''*'' \<noteq> None | _ \<Rightarrow> False)"

fun first_default :: "pyval list \<Rightarrow> pyval option" where
  "first_default [] = None"
| "first_default (f # fs) =
     (case f of
        PDict m \<Rightarrow> (case map_of m ''*'' of Some (PList (x # _)) \<Rightarrow> Some x | _ \<Rightarrow> first_default fs)
      | _ \<Rightarrow> first_default fs)"

definition get_first_default_fallback :: "router \<Rightarrow> pyval option" where
  "get_first_default_fallback r = (case router_fallbacks r of None \<Rightarrow> None | Some fs \<Rightarrow> first_default fs)"

datatype candidates = OneOf "deployment list" | Specific deployment

text \<open>
  A name that the router does not know: the patterns, those of the team, the default deployment.
\<close>

definition unknown_model ::
  "(string \<Rightarrow> string option) \<Rightarrow> string \<Rightarrow> string option \<Rightarrow> router \<Rightarrow> candidates option" where
  "unknown_model get_llm_provider model request_team_id r =
     (let by_pattern = (\<lambda>ps. get_deployments_by_pattern get_llm_provider ps model None);
          general = by_pattern (pattern_router r);
          team_only = (case request_team_id of
            None \<Rightarrow> []
          | Some t \<Rightarrow> (case map_of (team_pattern_routers r) t of None \<Rightarrow> [] | Some ps \<Rightarrow> by_pattern ps)) in
      if general \<noteq> [] then Some (OneOf general)
      else if team_only \<noteq> [] then Some (OneOf team_only)
      else map_option (\<lambda>d. Specific (d\<lparr>dep_model := model\<rparr>)) (default_deployment r))"

text \<open>The deployments of a name, those of a default fallback if it has none.\<close>

definition named_deployments :: "string \<Rightarrow> router \<Rightarrow> (string \<times> deployment list) pyres" where
  "named_deployments model r =
     (case get_all_deployments model None None r of
        Inl e \<Rightarrow> Inl e
      | Inr ds \<Rightarrow>
        (let ds1 = (if ds = [] then get_deployment_by_litellm_model model r else ds) in
         if ds1 \<noteq> [] then Inr (model, ds1)
         else case (if has_default_fallbacks r then get_first_default_fallback r else None) of
           Some (PStr (c # cs)) \<Rightarrow>
             (case get_all_deployments (c # cs) None None r of
                Inl e \<Rightarrow> Inl e
              | Inr [] \<Rightarrow> Inl (OtherError ''BadRequestError'')
              | Inr (d # es) \<Rightarrow> Inr (c # cs, d # es))
         | Some v \<Rightarrow> if truthy v \<and> \<not> hashable v then Inl TypeError else Inl (OtherError ''BadRequestError'')
         | None \<Rightarrow> Inl (OtherError ''BadRequestError'')))"

definition common_checks_available_deployment ::
  "(string \<Rightarrow> string option) \<Rightarrow> (string, string) dict \<Rightarrow> string \<Rightarrow> bool \<Rightarrow> string option \<Rightarrow> router \<Rightarrow> (string \<times> candidates) pyres" where
  "common_checks_available_deployment get_llm_provider model_alias_map model specific_deployment request_team_id r =
     (if specific_deployment then Inr (model, OneOf (get_deployment_by_litellm_model model r))
      else if has_model_id model r then
        (case get_deployment model r of
           Inl e \<Rightarrow> Inl e
         | Inr None \<Rightarrow> Inl ValueError
         | Inr (Some d) \<Rightarrow> Inr (dep_model d, Specific d))
      else
        (let model1 = (case get_model_from_alias model r of Some m \<Rightarrow> m | None \<Rightarrow> model) in
         case (if model1 \<in> model_names r then None else unknown_model get_llm_provider model1 request_team_id r) of
           Some c \<Rightarrow> Inr (model1, c)
         | None \<Rightarrow>
           map_sum id (\<lambda>(m, ds). (dict_get model_alias_map m m, OneOf ds)) (named_deployments model1 r)))"

subsection \<open>The indices agree with the list\<close>

definition named_at :: "deployment list \<Rightarrow> string \<Rightarrow> nat list" where
  "named_at ds n = filter (\<lambda>k. dep_name (ds ! k) = n) [0..<length ds]"

text \<open>Every name has exactly the indices of its deployments, in the order of the list.\<close>

definition names_indexed :: "router \<Rightarrow> bool" where
  "names_indexed r \<longleftrightarrow> dict_wf (name_index r) \<and>
     (\<forall>n. map_of (name_index r) n = (if n = [] \<or> named_at (model_list r) n = [] then None else Some (named_at (model_list r) n)))"

text \<open>An indexed id belongs to the deployment at its index.\<close>

definition ids_indexed :: "router \<Rightarrow> bool" where
  "ids_indexed r \<longleftrightarrow> dict_wf (id_index r) \<and>
     (\<forall>i k. map_of (id_index r) i = Some k \<longrightarrow> k < length (model_list r) \<and> dep_id (model_list r ! k) = i)"

lemma find_filter: "find P xs = (case filter P xs of [] \<Rightarrow> None | x # _ \<Rightarrow> Some x)"
  by (induction xs) auto

lemma named_at_snoc: "named_at (ds @ [d]) n = named_at ds n @ (if dep_name d = n then [length ds] else [])"
proof -
  have "filter (\<lambda>k. dep_name ((ds @ [d]) ! k) = n) [0..<length ds] = named_at ds n"
    unfolding named_at_def by (rule filter_cong) (auto simp: nth_append)
  then show ?thesis by (simp add: named_at_def)
qed

lemma named_at_pop:
  assumes "k < length ds"
  shows "named_at (pop_nth k ds) n = map (shift_index k) (remove1 k (named_at ds n))"
proof -
  let ?P = "\<lambda>j. dep_name (ds ! j) = n"
  have split: "[0..<length ds] = [0..<k] @ k # [Suc k..<length ds]"
    using assms upt_add_eq_append [of 0 k "length ds - k"] by (simp add: upt_conv_Cons)
  have "remove1 k (named_at ds n) = filter ?P [0..<k] @ filter ?P [Suc k..<length ds]"
    unfolding named_at_def split by (simp add: remove1_append)
  moreover have "map (shift_index k) (filter ?P [0..<k]) = filter ?P [0..<k]"
    by (rule map_idI) (simp add: shift_index_def)
  moreover have "map (shift_index k) (filter ?P [Suc k..<length ds]) = filter (\<lambda>j. ?P (Suc j)) [k..<length ds - 1]"
  proof -
    have "Suc (length ds - 1) = length ds" using assms by simp
    then have s: "[Suc k..<length ds] = map Suc [k..<length ds - 1]" by (simp only: map_Suc_upt)
    have "map (shift_index k) (map Suc (filter (\<lambda>j. ?P (Suc j)) [k..<length ds - 1])) = filter (\<lambda>j. ?P (Suc j)) [k..<length ds - 1]"
      unfolding map_map by (rule map_idI) (simp add: shift_index_def)
    then show ?thesis unfolding s by (simp add: filter_map comp_def)
  qed
  moreover have "named_at (pop_nth k ds) n = filter ?P [0..<k] @ filter (\<lambda>j. ?P (Suc j)) [k..<length ds - 1]"
  proof -
    have "[0..<length ds - 1] = [0..<k] @ [k..<length ds - 1]"
      using assms upt_add_eq_append [of 0 k "length ds - 1 - k"] by simp
    moreover have "filter (\<lambda>j. dep_name (pop_nth k ds ! j) = n) [0..<k] = filter ?P [0..<k]"
      by (rule filter_cong) (use assms in \<open>auto simp: nth_pop_nth\<close>)
    moreover have "filter (\<lambda>j. dep_name (pop_nth k ds ! j) = n) [k..<length ds - 1] = filter (\<lambda>j. ?P (Suc j)) [k..<length ds - 1]"
      by (rule filter_cong) (use assms in \<open>auto simp: nth_pop_nth\<close>)
    ultimately show ?thesis by (simp add: named_at_def length_pop_nth assms)
  qed
  ultimately show ?thesis by simp
qed

lemma shift_name_index_keys: "set (dict_keys (shift_name_index k m)) \<subseteq> set (dict_keys m)"
  by (induction k m rule: shift_name_index.induct) (auto simp: Let_def)

lemma shift_name_index_wf: "dict_wf m \<Longrightarrow> dict_wf (shift_name_index k m)"
proof (induction k m rule: shift_name_index.induct)
  case (2 k n ks m)
  then show ?case using shift_name_index_keys [of k m] by (auto simp: Let_def)
qed simp

lemma shift_name_index_lookup:
  "dict_wf m \<Longrightarrow> map_of (shift_name_index k m) n =
     (case map_of m n of
        None \<Rightarrow> None
      | Some ks \<Rightarrow> let ks' = map (shift_index k) (remove1 k ks) in if ks' = [] then None else Some ks')"
proof (induction k m rule: shift_name_index.induct)
  case (2 k n' ks m)
  have "map_of (shift_name_index k m) n' = None"
    using 2 shift_name_index_keys [of k m] by (auto simp: map_of_None_key)
  then show ?case using 2 by (auto simp: Let_def split: option.split)
qed simp

lemma add_model_indexed:
  assumes "names_indexed r" "ids_indexed r"
  shows "names_indexed (add_model_to_list_and_index_map d (Some (dep_id d)) r)"
    and "ids_indexed (add_model_to_list_and_index_map d (Some (dep_id d)) r)"
proof -
  let ?r = "add_model_to_list_and_index_map d (Some (dep_id d)) r" and ?ds = "model_list r"
  have l: "model_list ?r = ?ds @ [d]"
    by (simp add: add_model_to_list_and_index_map_def invalidate_access_groups_cache_def Let_def)
  have i: "id_index ?r = AList.update (dep_id d) (length ?ds) (id_index r)"
    by (simp add: add_model_to_list_and_index_map_def invalidate_access_groups_cache_def Let_def)
  have n: "name_index ?r = (if dep_name d = [] then name_index r
    else AList.update (dep_name d) (dict_get (name_index r) (dep_name d) [] @ [length ?ds]) (name_index r))"
    by (simp add: add_model_to_list_and_index_map_def invalidate_access_groups_cache_def Let_def)
  show "ids_indexed ?r"
    unfolding ids_indexed_def l i using assms(2) by (fastforce simp: ids_indexed_def nth_append split: if_splits)
  have g: "dict_get (name_index r) (dep_name d) [] = named_at ?ds (dep_name d)" if "dep_name d \<noteq> []"
    using assms(1) that by (simp add: names_indexed_def dict_get_def)
  show "names_indexed ?r"
    unfolding names_indexed_def l n named_at_snoc using assms(1) g by (auto simp: names_indexed_def)
qed

lemma remove_at_indexed:
  assumes "names_indexed r" "ids_indexed r" "map_of (id_index r) i = Some k"
  shows "\<exists>r'. remove_at i k r = (Inr (model_list r ! k), r') \<and> k < length (model_list r) \<and>
    model_list r' = pop_nth k (model_list r) \<and> names_indexed r' \<and> ids_indexed r' \<and>
    access_groups_cache r' = None \<and> id_index r' = AList.delete i (map (\<lambda>(i, j). (i, shift_index k j)) (id_index r))"
proof -
  let ?ds = "model_list r"
  have k: "k < length ?ds" "dep_id (?ds ! k) = i" using assms(2,3) by (auto simp: ids_indexed_def)
  define r' where "r' = update_deployment_indices_after_removal i k (invalidate_access_groups_cache (r\<lparr>model_list := pop_nth k ?ds\<rparr>))"
  have l: "model_list r' = pop_nth k ?ds" "access_groups_cache r' = None"
    and ii: "id_index r' = AList.delete i (map (\<lambda>(i, j). (i, shift_index k j)) (id_index r))"
    and ni: "name_index r' = shift_name_index k (name_index r)"
    by (simp_all add: r'_def update_deployment_indices_after_removal_def invalidate_access_groups_cache_def)
  have "names_indexed r'"
    using assms(1) k(1) unfolding names_indexed_def l ni
    by (auto simp: shift_name_index_wf shift_name_index_lookup named_at_pop Let_def)
  moreover have "ids_indexed r'"
    unfolding ids_indexed_def l ii
  proof (intro conjI allI impI)
    show "dict_wf (AList.delete i (map (\<lambda>(i, j). (i, shift_index k j)) (id_index r)))"
      using assms(2) by (intro dict_wf_delete) (simp add: ids_indexed_def comp_def case_prod_beta)
    fix i' k' assume "map_of (AList.delete i (map (\<lambda>(i, j). (i, shift_index k j)) (id_index r))) i' = Some k'"
    then obtain j where j: "i' \<noteq> i" "map_of (id_index r) i' = Some j" "k' = shift_index k j"
      by (auto simp: map_of_map split: if_splits)
    then have "j < length ?ds" "dep_id (?ds ! j) = i'" "j \<noteq> k" using assms(2) k(2) by (auto simp: ids_indexed_def)
    then have "k' < length ?ds - 1" "pop_nth k ?ds ! k' = ?ds ! j"
      using k(1) j(3) by (auto simp: shift_index_def nth_pop_nth)
    then show "k' < length (pop_nth k ?ds)" "dep_id (pop_nth k ?ds ! k') = i'"
      using k(1) \<open>dep_id (?ds ! j) = i'\<close> by (simp_all add: length_pop_nth)
  qed
  ultimately show ?thesis using k(1) l ii by (simp add: remove_at_def r'_def)
qed

lemma at_indices_nth: "\<forall>k \<in> set ks. k < length (model_list r) \<Longrightarrow> at_indices r ks = Inr (map ((!) (model_list r)) ks)"
  by (induction r ks rule: at_indices.induct) auto

lemma at_named: "at_indices r (named_at (model_list r) n) = Inr (filter (\<lambda>d. dep_name d = n) (model_list r))"
proof -
  have "map ((!) xs) (filter (\<lambda>k. dep_name (xs ! k) = n) [0..<length xs]) = filter (\<lambda>d. dep_name d = n) xs" for xs
  proof -
    have "filter (\<lambda>d. dep_name d = n) (map ((!) xs) [0..<length xs]) = map ((!) xs) (filter (\<lambda>k. dep_name (xs ! k) = n) [0..<length xs])"
      by (simp add: filter_map comp_def)
    then show ?thesis by (simp add: map_nth)
  qed
  then show ?thesis by (subst at_indices_nth) (auto simp: named_at_def)
qed

lemma named_at_Nil: "named_at ds n = [] \<longleftrightarrow> (\<forall>d \<in> set ds. dep_name d \<noteq> n)"
  by (force simp: named_at_def filter_empty_conv in_set_conv_nth)

text \<open>What \<^verbatim>\<open>_get_all_deployments\<close> returns, by a scan of the list.\<close>

definition scan_deployments :: "string \<Rightarrow> string option \<Rightarrow> string option \<Rightarrow> deployment list \<Rightarrow> deployment list" where
  "scan_deployments n model_alias team_id ds =
     map (rename model_alias)
       (filter (\<lambda>m. if n \<noteq> [] \<and> (\<exists>x \<in> set ds. dep_name x = n) then dep_name m = n
                    else team_id \<noteq> None \<and> should_include_deployment n m team_id) ds)"

lemma get_all_scan:
  assumes "names_indexed r"
  shows "get_all_deployments n model_alias team_id r = Inr (scan_deployments n model_alias team_id (model_list r))"
proof (cases "n \<noteq> [] \<and> (\<exists>x \<in> set (model_list r). dep_name x = n)")
  case True
  then have "map_of (name_index r) n = Some (named_at (model_list r) n)"
    using assms named_at_Nil [of "model_list r" n] by (auto simp: names_indexed_def)
  moreover have "filter (\<lambda>m. should_include_deployment n m team_id) (filter (\<lambda>d. dep_name d = n) (model_list r)) =
    filter (\<lambda>d. dep_name d = n) (model_list r)"
    by (rule filter_True) (simp add: should_include_deployment_def)
  ultimately show ?thesis using True
    by (simp add: get_all_deployments_def at_named scan_deployments_def Let_def del: filter_filter)
next
  case False
  then have "map_of (name_index r) n = None"
    using assms named_at_Nil [of "model_list r" n] by (auto simp: names_indexed_def)
  then show ?thesis using False by (auto simp: get_all_deployments_def scan_deployments_def Let_def)
qed

subsection \<open>Access groups\<close>

fun alias_scan :: "deployment list \<Rightarrow> (string, alias_item) dict \<Rightarrow> deployment list" where
  "alias_scan ds [] = []"
| "alias_scan ds ((a, v) # rest) =
     (case v of
        AliasItem _ True \<Rightarrow> []
      | AliasItem n False \<Rightarrow> scan_deployments n (Some a) None ds
      | AliasName n \<Rightarrow> scan_deployments n (Some a) None ds) @ alias_scan ds rest"

lemma alias_deployments_scan: "names_indexed r \<Longrightarrow> alias_deployments r as = Inr (alias_scan (model_list r) as)"
  by (induction r as rule: alias_deployments.induct) (auto simp: get_all_scan split: alias_item.split bool.split)

text \<open>All models of a router, those behind aliases first.\<close>

definition all_models :: "router \<Rightarrow> deployment list" where
  "all_models r = alias_scan (model_list r) (model_group_alias r) @ model_list r"

lemma get_model_list_all: "names_indexed r \<Longrightarrow> get_model_list None None r = Inr (all_models r)"
  by (simp add: get_model_list_def get_model_list_from_model_alias_def alias_deployments_scan all_models_def)

definition groups_cached :: "router \<Rightarrow> bool" where
  "groups_cached r \<longleftrightarrow> (\<forall>g. access_groups_cache r = Some g \<longrightarrow> g = access_groups_of None (all_models r))"

definition router_inv :: "router \<Rightarrow> bool" where
  "router_inv r \<longleftrightarrow> names_indexed r \<and> ids_indexed r \<and> groups_cached r"

lemma prepare_keeps:
  assumes "prepare_deployment S d r = (x, r')"
  shows "model_list r' = model_list r" "id_index r' = id_index r" "name_index r' = name_index r"
    "access_groups_cache r' = access_groups_cache r" "model_group_alias r' = model_group_alias r" "model_names r' = model_names r"
  using assms
  by (auto simp: prepare_deployment_def add_patterns_def Let_def split: sum.splits option.splits if_splits)

lemma prepare_result: "prepare_deployment S d r = (Inr d1, r') \<Longrightarrow> d1 = limits_as_params d"
  by (auto simp: prepare_deployment_def Let_def split: sum.splits)

lemma router_inv_cong:
  assumes "router_inv r" "model_list r' = model_list r" "id_index r' = id_index r" "name_index r' = name_index r"
    and "access_groups_cache r' = access_groups_cache r" "model_group_alias r' = model_group_alias r"
  shows "router_inv r'"
  using assms by (simp add: router_inv_def names_indexed_def ids_indexed_def groups_cached_def all_models_def)

lemma add_model_inv: "router_inv r \<Longrightarrow> router_inv (add_model_to_list_and_index_map d (Some (dep_id d)) r)"
  using add_model_indexed
  by (simp add: router_inv_def groups_cached_def add_model_to_list_and_index_map_def invalidate_access_groups_cache_def Let_def)

lemma add_model_list [simp]: "model_list (add_model_to_list_and_index_map d i r) = model_list r @ [d]"
  by (simp add: add_model_to_list_and_index_map_def invalidate_access_groups_cache_def Let_def)

lemma dep_id_limits [simp]: "dep_id (limits_as_params d) = dep_id d" "dep_name (limits_as_params d) = dep_name d"
  by (simp_all add: limits_as_params_def)

subsection \<open>Unique ids\<close>

text \<open>Deployments with ids of their own, each of which is indexed.\<close>

definition unique_ids :: "router \<Rightarrow> bool" where
  "unique_ids r \<longleftrightarrow> distinct (map dep_id (model_list r)) \<and> [] \<notin> dep_id ` set (model_list r) \<and>
     dep_id ` set (model_list r) \<subseteq> dom (map_of (id_index r))"

lemma unique_ids_cong:
  "unique_ids r \<Longrightarrow> model_list r' = model_list r \<Longrightarrow> id_index r' = id_index r \<Longrightarrow> unique_ids r'"
  by (simp add: unique_ids_def)

lemma id_index_dom:
  assumes "ids_indexed r" "unique_ids r"
  shows "dom (map_of (id_index r)) = dep_id ` set (model_list r)"
proof
  show "dom (map_of (id_index r)) \<subseteq> dep_id ` set (model_list r)"
  proof
    fix i assume "i \<in> dom (map_of (id_index r))"
    then obtain k where "map_of (id_index r) i = Some k" by blast
    then have "k < length (model_list r)" "i = dep_id (model_list r ! k)" using assms(1) by (auto simp: ids_indexed_def)
    then show "i \<in> dep_id ` set (model_list r)" by simp
  qed
qed (use assms(2) in \<open>simp add: unique_ids_def\<close>)

lemma add_model_unique:
  assumes "unique_ids r" "dep_id d \<noteq> []" "dep_id d \<notin> dep_id ` set (model_list r)"
  shows "unique_ids (add_model_to_list_and_index_map d (Some (dep_id d)) r)"
  using assms
  by (auto simp: unique_ids_def add_model_to_list_and_index_map_def invalidate_access_groups_cache_def Let_def)

lemma pop_nth_unique:
  assumes "distinct (map dep_id ds)" "k < length ds"
  shows "pop_nth k ds = filter (\<lambda>d. dep_id d \<noteq> dep_id (ds ! k)) ds"
proof -
  have ds: "ds = take k ds @ ds ! k # drop (Suc k) ds" using assms(2) by (rule id_take_nth_drop)
  have "distinct (map dep_id (take k ds @ ds ! k # drop (Suc k) ds))" using assms(1) ds by simp
  then have "\<forall>x \<in> set (take k ds). dep_id x \<noteq> dep_id (ds ! k)" "\<forall>x \<in> set (drop (Suc k) ds). dep_id x \<noteq> dep_id (ds ! k)"
    by (auto simp del: nth_mem) (metis image_eqI)+
  then have "filter (\<lambda>d. dep_id d \<noteq> dep_id (ds ! k)) (take k ds) = take k ds"
    "filter (\<lambda>d. dep_id d \<noteq> dep_id (ds ! k)) (drop (Suc k) ds) = drop (Suc k) ds"
    by (simp_all add: filter_id_conv)
  then have "filter (\<lambda>d. dep_id d \<noteq> dep_id (ds ! k)) (take k ds @ ds ! k # drop (Suc k) ds) = pop_nth k ds"
    by (simp add: pop_nth_def)
  then show ?thesis using ds by simp
qed

lemma remove_at_unique:
  assumes "router_inv r" "unique_ids r" "map_of (id_index r) i = Some k"
  shows "\<exists>r'. remove_at i k r = (Inr (model_list r ! k), r') \<and> k < length (model_list r) \<and> dep_id (model_list r ! k) = i \<and>
    model_list r' = filter (\<lambda>d. dep_id d \<noteq> i) (model_list r) \<and> router_inv r' \<and> unique_ids r'"
proof -
  let ?ds = "model_list r"
  have inv: "names_indexed r" "ids_indexed r" using assms(1) by (auto simp: router_inv_def)
  obtain r' where r': "remove_at i k r = (Inr (?ds ! k), r')" "k < length ?ds" "model_list r' = pop_nth k ?ds"
    "names_indexed r'" "ids_indexed r'" "access_groups_cache r' = None"
    "id_index r' = AList.delete i (map (\<lambda>(i, j). (i, shift_index k j)) (id_index r))"
    using remove_at_indexed [OF inv assms(3)] by blast
  have k: "dep_id (?ds ! k) = i" using inv(2) assms(3) by (simp add: ids_indexed_def)
  have l: "model_list r' = filter (\<lambda>d. dep_id d \<noteq> i) ?ds"
    using pop_nth_unique [OF _ r'(2)] assms(2) r'(3) k by (simp add: unique_ids_def)
  have "unique_ids r'"
    using assms(2) unfolding unique_ids_def l r'(7)
    by (auto simp: distinct_map_filter map_of_map dom_def)
  moreover have "router_inv r'" using r'(4-6) by (simp add: router_inv_def groups_cached_def)
  ultimately show ?thesis using r'(1,2) k l by blast
qed

lemma find_unique:
  assumes "distinct (map dep_id ds)" "k < length ds"
  shows "find (\<lambda>d. dep_id d = dep_id (ds ! k)) ds = Some (ds ! k)"
proof -
  have "find (\<lambda>d. dep_id d = dep_id (ds ! k)) ds \<noteq> None"
    using assms(2) unfolding find_None_iff by (metis nth_mem)
  then obtain x where x: "find (\<lambda>d. dep_id d = dep_id (ds ! k)) ds = Some x" by blast
  then obtain j where "j < length ds" "x = ds ! j" "dep_id (ds ! j) = dep_id (ds ! k)" by (auto simp: find_Some_iff)
  then show ?thesis using x assms nth_eq_iff_index_eq [OF assms(1), of j k] by simp
qed

lemma get_deployment_find:
  assumes "ids_indexed r" "unique_ids r"
  shows "get_deployment i r = Inr (find (\<lambda>d. dep_id d = i) (model_list r))"
proof (cases "map_of (id_index r) i")
  case None
  then have "i \<notin> dep_id ` set (model_list r)" using id_index_dom [OF assms] by (auto simp: domIff)
  then have "find (\<lambda>d. dep_id d = i) (model_list r) = None" by (auto simp: find_None_iff)
  then show ?thesis using None by (simp add: get_deployment_def)
next
  case (Some k)
  then have "k < length (model_list r)" "dep_id (model_list r ! k) = i" using assms(1) by (auto simp: ids_indexed_def)
  then show ?thesis using Some find_unique [of "model_list r" k] assms(2) by (auto simp: get_deployment_def unique_ids_def)
qed

subsection \<open>Reachable states\<close>

lemma create_deployment_effect:
  assumes "create_deployment S d r = (x, r')" "router_inv r"
  shows "router_inv r' \<and> (model_list r' = model_list r \<and> id_index r' = id_index r \<or>
    (\<exists>r1. model_list r1 = model_list r \<and> id_index r1 = id_index r \<and>
      r' = add_model_to_list_and_index_map (limits_as_params d) (Some (dep_id d)) r1))"
proof -
  obtain y r1 where p: "prepare_deployment S d r = (y, r1)" by (cases "prepare_deployment S d r")
  note keep = prepare_keeps [OF p]
  have i1: "router_inv r1" using router_inv_cong [OF assms(2)] keep by blast
  have add: "router_inv (add_model_to_list_and_index_map (limits_as_params d) (Some (dep_id d)) r1)"
    using add_model_inv [OF i1, of "limits_as_params d"] by simp
  show ?thesis
  proof (cases y)
    case (Inl e)
    then show ?thesis using assms p i1 keep by (auto simp: create_deployment_def split: sum.splits bool.splits)
  next
    case (Inr d1)
    then have "d1 = limits_as_params d" using p prepare_result by blast
    then show ?thesis using assms p Inr i1 add keep by (auto simp: create_deployment_def split: sum.splits bool.splits)
  qed
qed

lemma create_deployments_inv: "create_deployments S ds r = (x, r') \<Longrightarrow> router_inv r \<Longrightarrow> router_inv r'"
proof (induction ds arbitrary: r)
  case (Cons d ds)
  obtain y r1 where c: "create_deployment S d r = (y, r1)" by (cases "create_deployment S d r")
  have "router_inv r1" using create_deployment_effect [OF c Cons.prems(2)] by blast
  then show ?case using Cons.IH [of r1] Cons.prems(1) c by (auto split: sum.splits)
qed auto

lemma create_deployments_unique:
  "create_deployments S ds r = (x, r') \<Longrightarrow> router_inv r \<Longrightarrow> unique_ids r \<Longrightarrow>
   distinct (map dep_id (model_list r @ ds)) \<Longrightarrow> [] \<notin> dep_id ` set ds \<Longrightarrow> unique_ids r'"
proof (induction ds arbitrary: r)
  case (Cons d ds)
  obtain y r1 where c: "create_deployment S d r = (y, r1)" by (cases "create_deployment S d r")
  note eff = create_deployment_effect [OF c Cons.prems(2)]
  have r1: "unique_ids r1 \<and> distinct (map dep_id (model_list r1 @ ds))"
  proof (cases "model_list r1 = model_list r \<and> id_index r1 = id_index r")
    case True
    then show ?thesis using Cons.prems unique_ids_cong [OF Cons.prems(3)] by simp
  next
    case False
    then obtain r0 where r0: "model_list r0 = model_list r" "id_index r0 = id_index r"
      "r1 = add_model_to_list_and_index_map (limits_as_params d) (Some (dep_id (limits_as_params d))) r0" using eff by auto
    have "unique_ids r0" using unique_ids_cong [OF Cons.prems(3)] r0 by simp
    then have "unique_ids r1" unfolding r0(3)
      by (rule add_model_unique) (use Cons.prems r0 in auto)
    then show ?thesis using Cons.prems r0 by auto
  qed
  then show ?case using Cons.IH [of r1] Cons.prems(1,5) c eff by (auto split: sum.splits)
qed auto

lemma add_deployment_effect:
  assumes "add_deployment S d r = (x, r')" "router_inv r"
  shows "router_inv r' \<and>
    (case x of
       Inr (Some _) \<Rightarrow> \<not> (dep_id d \<noteq> [] \<and> has_model_id (dep_id d) r) \<and> model_list r' = model_list r @ [d] \<and>
         (unique_ids r \<longrightarrow> dep_id d \<noteq> [] \<longrightarrow> dep_id d \<notin> dep_id ` set (model_list r) \<longrightarrow> unique_ids r')
     | Inr None \<Rightarrow> r' = r \<and> has_model_id (dep_id d) r
     | Inl _ \<Rightarrow> model_list r' = model_list r \<and> id_index r' = id_index r)"
proof (cases "dep_id d \<noteq> [] \<and> has_model_id (dep_id d) r")
  case True
  then show ?thesis using assms by (auto simp: add_deployment_def)
next
  case False
  obtain y r1 where p: "prepare_deployment S d r = (y, r1)" by (cases "prepare_deployment S d r")
  note keep = prepare_keeps [OF p]
  have i1: "router_inv r1" using router_inv_cong [OF assms(2)] keep by blast
  let ?r2 = "add_model_to_list_and_index_map d (Some (dep_id d)) r1"
  have i2: "router_inv (?r2\<lparr>model_names := N\<rparr>)" for N using router_inv_cong [OF add_model_inv [OF i1, of d]] by simp
  have u: "unique_ids (?r2\<lparr>model_names := N\<rparr>)" if "unique_ids r" "dep_id d \<noteq> []" "dep_id d \<notin> dep_id ` set (model_list r)" for N
    using add_model_unique [of r1 d] unique_ids_cong [OF that(1)] unique_ids_cong [of ?r2] that keep by simp
  show ?thesis
  proof (cases y)
    case (Inl e)
    then show ?thesis using assms(1) p i1 keep False by (auto simp: add_deployment_def)
  next
    case (Inr d1)
    then have "x = Inr (Some d1)" "r' = ?r2\<lparr>model_names := insert (dep_name d) (model_names ?r2)\<rparr>"
      using assms(1) p False by (auto simp: add_deployment_def Let_def)
    then show ?thesis using i2 u keep False by simp
  qed
qed

lemma has_model_id_list:
  "router_inv r \<Longrightarrow> unique_ids r \<Longrightarrow> has_model_id i r \<longleftrightarrow> i \<in> dep_id ` set (model_list r)"
  using id_index_dom [of r] by (auto simp: has_model_id_def router_inv_def domIff set_eq_iff)

lemma delete_deployment_effect:
  assumes "router_inv r" "delete_deployment i r = (x, r')"
  shows "router_inv r'"
    and "unique_ids r \<Longrightarrow> unique_ids r' \<and> x = find (\<lambda>d. dep_id d = i) (model_list r) \<and>
      model_list r' = filter (\<lambda>d. dep_id d \<noteq> i) (model_list r)"
proof -
  have inv: "names_indexed r" "ids_indexed r" using assms(1) by (auto simp: router_inv_def)
  show "router_inv r'"
    using assms remove_at_indexed [OF inv]
    by (fastforce simp: delete_deployment_def router_inv_def groups_cached_def split: option.splits)
  assume u: "unique_ids r"
  show "unique_ids r' \<and> x = find (\<lambda>d. dep_id d = i) (model_list r) \<and> model_list r' = filter (\<lambda>d. dep_id d \<noteq> i) (model_list r)"
  proof (cases "map_of (id_index r) i")
    case None
    then have n: "i \<notin> dep_id ` set (model_list r)" using id_index_dom [OF inv(2) u] by (auto simp: domIff)
    then have "find (\<lambda>d. dep_id d = i) (model_list r) = None" "filter (\<lambda>d. dep_id d \<noteq> i) (model_list r) = model_list r"
      by (auto simp: find_None_iff filter_id_conv)
    then show ?thesis using None assms(2) u by (simp add: delete_deployment_def)
  next
    case (Some k)
    then obtain r1 where r1: "remove_at i k r = (Inr (model_list r ! k), r1)" "k < length (model_list r)"
      "dep_id (model_list r ! k) = i" "model_list r1 = filter (\<lambda>d. dep_id d \<noteq> i) (model_list r)" "unique_ids r1"
      using remove_at_unique [OF assms(1) u] by blast
    then have "find (\<lambda>d. dep_id d = i) (model_list r) = Some (model_list r ! k)"
      using find_unique [of "model_list r" k] u by (simp add: unique_ids_def)
    then show ?thesis using r1 Some assms(2) by (simp add: delete_deployment_def)
  qed
qed

lemma upsert_deployment_inv: "router_inv r \<Longrightarrow> router_inv (snd (upsert_deployment S d r))"
proof -
  assume i: "router_inv r"
  have inv: "names_indexed r" "ids_indexed r" using i by (auto simp: router_inv_def)
  have add: "router_inv r2" if "add_deployment S d r1 = (x, r2)" "router_inv r1" for x r1 r2
    using add_deployment_effect [OF that] by blast
  have rem: "router_inv r1" if "remove_at (dep_id d) k r = (y, r1)" "map_of (id_index r) (dep_id d) = Some k" for k y r1
    using remove_at_indexed [OF inv that(2)] that(1) by (auto simp: router_inv_def groups_cached_def)
  show ?thesis
    unfolding upsert_deployment_def Let_def
    by (auto split: sum.split option.split prod.split simp: i dest: add [OF _ i] add [OF _ rem] rem)
qed

text \<open>What \<^verbatim>\<open>upsert_deployment\<close> does to the list of a router with unique ids.\<close>

definition upsert_spec :: "deployment \<Rightarrow> deployment list \<Rightarrow> deployment option pyres \<Rightarrow> deployment list \<Rightarrow> bool" where
  "upsert_spec d ds x ds' \<longleftrightarrow>
     (case x of
        Inr (Some _) \<Rightarrow> ds' = filter (\<lambda>e. dep_id e \<noteq> dep_id d) ds @ [d]
      | _ \<Rightarrow> ds' \<in> {ds, filter (\<lambda>e. dep_id e \<noteq> dep_id d) ds})"

lemma upsert_deployment_effect:
  assumes "router_inv r" "unique_ids r" "dep_id d \<noteq> []" "upsert_deployment S d r = (x, r')"
  shows "unique_ids r' \<and> upsert_spec d (model_list r) x (model_list r')"
proof -
  let ?ds = "model_list r" and ?rest = "filter (\<lambda>e. dep_id e \<noteq> dep_id d) (model_list r)"
  have inv: "ids_indexed r" using assms(1) by (simp add: router_inv_def)
  have add: "unique_ids r2 \<and>
      (case y of Inr (Some _) \<Rightarrow> model_list r2 = model_list r1 @ [d] | Inr None \<Rightarrow> False | Inl _ \<Rightarrow> model_list r2 = model_list r1)"
    if "add_deployment S d r1 = (y, r2)" "router_inv r1" "unique_ids r1" "dep_id d \<notin> dep_id ` set (model_list r1)" for y r1 r2
    using add_deployment_effect [OF that(1,2)] that assms(3) has_model_id_list [OF that(2,3)] unique_ids_cong [OF that(3)]
    by (auto split: sum.splits option.splits)
  have after: "unique_ids r' \<and> upsert_spec d ?ds x (model_list r')"
    if "router_inv r1" "unique_ids r1" "model_list r1 = ?rest"
      "(x, r') = (case add_deployment S d r1 of
          (Inl e, r2) \<Rightarrow> (if ignore_invalid_deployments r2 then Inr None else Inl e, r2)
        | (Inr None, r2) \<Rightarrow> (Inr (Some d), r2)
        | (Inr (Some d1), r2) \<Rightarrow> (Inr (Some d1), r2))" for r1
  proof -
    obtain y r2 where y: "add_deployment S d r1 = (y, r2)" by (cases "add_deployment S d r1")
    have "dep_id d \<notin> dep_id ` set (model_list r1)" using that(3) by auto
    from add [OF y that(1,2) this] show ?thesis
      using that(3,4) y by (auto simp: upsert_spec_def split: sum.splits option.splits if_splits)
  qed
  show ?thesis
  proof (cases "map_of (id_index r) (dep_id d)")
    case None
    then have "dep_id d \<notin> dep_id ` set ?ds" using id_index_dom [OF inv assms(2)] by (auto simp: domIff)
    then have "?rest = ?ds" unfolding filter_id_conv by (metis image_eqI)
    moreover have "get_deployment (dep_id d) r = Inr None" using None by (simp add: get_deployment_def)
    ultimately show ?thesis
      using after [OF assms(1,2)] assms(4) by (simp add: upsert_deployment_def Let_def)
  next
    case (Some k)
    obtain r1 where r1: "remove_at (dep_id d) k r = (Inr (?ds ! k), r1)" "k < length ?ds" "model_list r1 = ?rest"
      "router_inv r1" "unique_ids r1" using remove_at_unique [OF assms(1,2) Some] by blast
    have g: "get_deployment (dep_id d) r = Inr (Some (?ds ! k))" using Some r1(2) by (simp add: get_deployment_def)
    show ?thesis
    proof (cases "litellm_params d = litellm_params (?ds ! k)")
      case True
      then have "x = Inr None" "r' = r" using assms(4) g by (auto simp: upsert_deployment_def Let_def)
      then show ?thesis using assms(2) by (simp add: upsert_spec_def)
    next
      case False
      then show ?thesis using after [OF r1(4,5,3)] assms(4) g Some r1(1) by (simp add: upsert_deployment_def Let_def)
    qed
  qed
qed

text \<open>
  The operations of a router in any order; \<open>u\<close> says that the configured ids are unique and not empty.
\<close>

inductive router_step :: "setup_env \<Rightarrow> bool \<Rightarrow> router \<Rightarrow> router \<Rightarrow> bool" for S u where
  step_set: "(u \<Longrightarrow> distinct (map dep_id (concat (map (expand_organizations S) ms))) \<and>
      [] \<notin> dep_id ` set (concat (map (expand_organizations S) ms))) \<Longrightarrow>
    router_step S u r (snd (set_model_list S ms r))"
| step_add: "(u \<Longrightarrow> dep_id d \<noteq> []) \<Longrightarrow> router_step S u r (snd (add_deployment S d r))"
| step_upsert: "(u \<Longrightarrow> dep_id d \<noteq> []) \<Longrightarrow> router_step S u r (snd (upsert_deployment S d r))"
| step_delete: "router_step S u r (snd (delete_deployment i r))"
| step_groups: "router_step S u r (snd (get_model_access_groups n g t r))"

inductive router_reachable :: "setup_env \<Rightarrow> bool \<Rightarrow> router \<Rightarrow> bool" for S u where
  reach_start: "model_list r = [] \<Longrightarrow> id_index r = [] \<Longrightarrow> name_index r = [] \<Longrightarrow> access_groups_cache r = None \<Longrightarrow>
    router_reachable S u r"
| reach_step: "router_reachable S u r \<Longrightarrow> router_step S u r r' \<Longrightarrow> router_reachable S u r'"

lemma set_model_list_inv:
  "router_inv (snd (set_model_list S ms r))"
  "distinct (map dep_id (concat (map (expand_organizations S) ms))) \<Longrightarrow>
   [] \<notin> dep_id ` set (concat (map (expand_organizations S) ms)) \<Longrightarrow> unique_ids (snd (set_model_list S ms r))"
proof -
  let ?ds = "concat (map (expand_organizations S) ms)"
  let ?r0 = "invalidate_access_groups_cache
    (r\<lparr>model_list := [], model_id_to_deployment_index_map := [], model_name_to_deployment_indices := []\<rparr>)"
  obtain x r1 where c: "create_deployments S ?ds ?r0 = (x, r1)" by (cases "create_deployments S ?ds ?r0")
  have i0: "router_inv ?r0" and u0: "unique_ids ?r0" and l0: "model_list ?r0 = []"
    by (simp_all add: invalidate_access_groups_cache_def router_inv_def names_indexed_def named_at_def ids_indexed_def
        groups_cached_def unique_ids_def)
  have snd: "snd (set_model_list S ms r) \<in> {r1, r1\<lparr>model_names := set (map (dep_name \<circ> raw_deployment) ms)\<rparr>}"
    using c by (auto simp: set_model_list_def split: sum.split)
  have "router_inv r1" using create_deployments_inv [OF c i0] .
  then show "router_inv (snd (set_model_list S ms r))" using snd router_inv_cong [of r1] by auto
  assume "distinct (map dep_id ?ds)" "[] \<notin> dep_id ` set ?ds"
  then have "unique_ids r1" using create_deployments_unique [OF c i0 u0] l0 by simp
  then show "unique_ids (snd (set_model_list S ms r))" using snd unique_ids_cong [of r1] by auto
qed

lemma access_groups_state:
  assumes "get_model_access_groups n g t r = (x, r')" "router_inv r"
  shows "router_inv r' \<and> (unique_ids r \<longrightarrow> unique_ids r')"
proof -
  have "r' = r \<or> r' = r\<lparr>access_groups_cache := Some (access_groups_of None (all_models r))\<rparr>"
    using assms get_model_list_all [of r]
    by (auto simp: get_model_access_groups_def Let_def router_inv_def split: option.splits sum.splits if_splits)
  moreover have "router_inv (r\<lparr>access_groups_cache := Some (access_groups_of None (all_models r))\<rparr>)"
    using assms(2) by (simp add: router_inv_def names_indexed_def ids_indexed_def groups_cached_def all_models_def)
  ultimately show ?thesis using assms(2) unique_ids_cong [of r] by auto
qed

lemma router_step_inv:
  assumes "router_step S u r r'" "router_inv r" "u \<Longrightarrow> unique_ids r"
  shows "router_inv r' \<and> (u \<longrightarrow> unique_ids r')"
  using assms
proof (induction rule: router_step.induct)
  case (step_set ms r)
  then show ?case using set_model_list_inv [of S ms r] by blast
next
  case (step_add d r)
  obtain x r' where a: "add_deployment S d r = (x, r')" by (cases "add_deployment S d r")
  have "unique_ids r'" if u
    using add_deployment_effect [OF a step_add(2)] step_add(1,3) that has_model_id_list [OF step_add(2)] unique_ids_cong [of r r']
    by (auto split: sum.splits option.splits)
  then show ?case using add_deployment_effect [OF a step_add(2)] a by simp
next
  case (step_upsert d r)
  then show ?case
    using upsert_deployment_inv [of r S d] upsert_deployment_effect [OF _ _ _ prod.collapse [symmetric], of r d S] by blast
next
  case (step_delete r i)
  then show ?case using delete_deployment_effect [OF _ prod.collapse [symmetric], of r i] by blast
next
  case (step_groups r n g t)
  then show ?case using access_groups_state [OF prod.collapse [symmetric], of r] by blast
qed

lemma router_reachable_inv: "router_reachable S u r \<Longrightarrow> router_inv r \<and> (u \<longrightarrow> unique_ids r)"
proof (induction rule: router_reachable.induct)
  case (reach_start r)
  then show ?case
    by (simp add: router_inv_def names_indexed_def named_at_def ids_indexed_def groups_cached_def unique_ids_def)
next
  case (reach_step r r')
  then show ?case using router_step_inv by blast
qed

subsection \<open>Properties\<close>

text \<open>
  Property C3. With unique ids a router is a registry of deployments: in every reachable state the
  index answers as a search of the list, deleting an id removes exactly its deployment, adding appends a
  deployment with a new id and leaves the list alone otherwise, and an update that succeeds puts the new
  deployment in place of the old one.
\<close>

theorem router_refines_registry:
  assumes "router_reachable S True r" "dep_id d \<noteq> []" "ds = model_list r"
  shows "get_deployment i r = Inr (find (\<lambda>e. dep_id e = i) ds) \<and>
    (case delete_deployment i r of (x, r') \<Rightarrow>
       x = find (\<lambda>e. dep_id e = i) ds \<and> model_list r' = filter (\<lambda>e. dep_id e \<noteq> i) ds) \<and>
    (case add_deployment S d r of (x, r') \<Rightarrow>
       (if dep_id d \<in> dep_id ` set ds then x = Inr None \<and> model_list r' = ds
        else (\<exists>d1. x = Inr (Some d1)) \<and> model_list r' = ds @ [d] \<or> (\<exists>e. x = Inl e) \<and> model_list r' = ds)) \<and>
    (case upsert_deployment S d r of (x, r') \<Rightarrow>
       (\<forall>d1. x = Inr (Some d1) \<longrightarrow> model_list r' = filter (\<lambda>e. dep_id e \<noteq> dep_id d) ds @ [d]))"
proof -
  have inv: "router_inv r" "unique_ids r" using router_reachable_inv [OF assms(1)] by auto
  obtain x1 r1 where del: "delete_deployment i r = (x1, r1)" by (cases "delete_deployment i r")
  obtain x2 r2 where add: "add_deployment S d r = (x2, r2)" by (cases "add_deployment S d r")
  obtain x3 r3 where ups: "upsert_deployment S d r = (x3, r3)" by (cases "upsert_deployment S d r")
  have "get_deployment i r = Inr (find (\<lambda>e. dep_id e = i) ds)"
    using get_deployment_find [of r i] inv assms(3) by (simp add: router_inv_def)
  moreover have "x1 = find (\<lambda>e. dep_id e = i) ds \<and> model_list r1 = filter (\<lambda>e. dep_id e \<noteq> i) ds"
    using delete_deployment_effect(2) [OF inv(1) del inv(2)] assms(3) by simp
  moreover have "if dep_id d \<in> dep_id ` set ds then x2 = Inr None \<and> model_list r2 = ds
      else (\<exists>d1. x2 = Inr (Some d1)) \<and> model_list r2 = ds @ [d] \<or> (\<exists>e. x2 = Inl e) \<and> model_list r2 = ds"
  proof (cases "dep_id d \<in> dep_id ` set ds")
    case True
    then have "has_model_id (dep_id d) r" using has_model_id_list [OF inv] assms(3) by simp
    then show ?thesis using add assms(2,3) True by (auto simp: add_deployment_def)
  next
    case False
    then have "\<not> has_model_id (dep_id d) r" using has_model_id_list [OF inv] assms(3) by simp
    then show ?thesis using add_deployment_effect [OF add inv(1)] assms(3) False by (auto split: sum.splits option.splits)
  qed
  moreover have "model_list r3 = filter (\<lambda>e. dep_id e \<noteq> dep_id d) ds @ [d]" if "x3 = Inr (Some d1)" for d1
    using upsert_deployment_effect [OF inv assms(2) ups] that assms(3) by (simp add: upsert_spec_def)
  ultimately show ?thesis using del add ups by auto
qed

definition empty_router :: router where
  "empty_router = \<lparr>model_list = [], model_id_to_deployment_index_map = [], model_name_to_deployment_indices = [],
     model_names = {}, deployment_names = [], pattern_router = [], team_pattern_routers = [],
     provider_default_deployment_ids = [], model_group_alias = [], access_groups_cache = None, default_deployment = None,
     router_fallbacks = None, ignore_invalid_deployments = False\<rparr>"

text \<open>A set-up in which the model \<^verbatim>\<open>bad\<close> has no supported provider.\<close>

definition plain_setup :: setup_env where
  "plain_setup = \<lparr>check_provider = (\<lambda>d. if dep_model d = ''bad'' then Inl (OtherError ''Unsupported provider'') else Inr ()),
     initialize = (\<lambda>_. Inr ()), litellm_environment = None, generate_model_id = (\<lambda>n d. n @ ''/'' @ dep_model d),
     get_secret = (\<lambda>_. PNone)\<rparr>"

definition named :: "string \<Rightarrow> deployment \<Rightarrow> deployment" where
  "named n d = d\<lparr>dep_name := n\<rparr>"

abbreviation two_models :: router where
  "two_models \<equiv> snd (add_deployment plain_setup (named ''g'' (dep ''b'' None))
     (snd (add_deployment plain_setup (named ''g'' (dep ''a'' None)) empty_router)))"

lemma two_models_reachable: "router_reachable plain_setup u two_models"
  by (intro reach_step [OF reach_step [OF reach_start step_add] step_add])
    (simp_all add: empty_router_def named_def dep_def)

lemma two_models_list: "model_list two_models = [named ''g'' (dep ''a'' None), named ''g'' (dep ''b'' None)]"
  by (simp add: add_deployment_def prepare_deployment_def add_patterns_def plain_setup_def empty_router_def named_def dep_def
      has_model_id_def add_model_to_list_and_index_map_def invalidate_access_groups_cache_def star_in_def limits_as_params_def Let_def)

theorem router_refines_registry_witness:
  "get_deployment ''b'' two_models = Inr (Some (named ''g'' (dep ''b'' None))) \<and>
   model_list (snd (delete_deployment ''a'' two_models)) = [named ''g'' (dep ''b'' None)]"
proof -
  have d: "dep_id (named ''g'' (dep ''a'' None)) = ''a''" "dep_id (named ''g'' (dep ''b'' None)) = ''b''"
    by (simp_all add: named_def dep_def)
  have n: "dep_id (named ''g'' (dep ''a'' None)) \<noteq> []" by (simp add: d)
  have g: "get_deployment ''b'' two_models = Inr (Some (named ''g'' (dep ''b'' None)))"
    using router_refines_registry [OF two_models_reachable n refl, of "''b''"] unfolding two_models_list by (simp add: d)
  have "model_list (snd (delete_deployment ''a'' two_models)) = [named ''g'' (dep ''b'' None)]"
    using router_refines_registry [OF two_models_reachable n refl, of "''a''"] unfolding two_models_list
    by (simp add: d split: prod.splits)
  then show ?thesis using g by blast
qed

text \<open>
  Whatever the ids, in every reachable state the lookups by model name answer as a scan
  of the list: all deployments of the name in the order of the list, and for a name that no deployment
  has those whose public team name it is.
\<close>

lemma name_lookup_is_scan:
  assumes "router_reachable S u r" "ds = model_list r"
  shows "get_all_deployments n model_alias team_id r = Inr (scan_deployments n model_alias team_id ds) \<and>
    get_deployment_by_model_group_name n r = Inr (if n = [] then None else find (\<lambda>d. dep_name d = n) ds) \<and>
    get_model_ids (Some n) False r = Inr (if n = [] then [] else map dep_id (filter (\<lambda>d. dep_name d = n) ds))"
proof -
  have inv: "names_indexed r" using router_reachable_inv [OF assms(1)] by (simp add: router_inv_def)
  have ids: "get_model_ids (Some n) False r = Inr (if n = [] then [] else map dep_id (filter (\<lambda>d. dep_name d = n) ds))"
  proof (cases "n = [] \<or> named_at ds n = []")
    case True
    then show ?thesis using inv assms(2) named_at_Nil [of ds n]
      by (auto simp: get_model_ids_def names_indexed_def dict_get_def filter_empty_conv)
  next
    case False
    then have "dict_get (name_index r) n [] = named_at ds n" using inv assms(2) by (simp add: names_indexed_def dict_get_def)
    then show ?thesis using False at_named [of r n] assms(2) by (simp add: get_model_ids_def)
  qed
  have "get_deployment_by_model_group_name n r = Inr (if n = [] then None else find (\<lambda>d. dep_name d = n) ds)"
  proof (cases "n = [] \<or> named_at ds n = []")
    case True
    then show ?thesis using inv assms(2) named_at_Nil [of ds n]
      by (auto simp: get_deployment_by_model_group_name_def names_indexed_def find_filter filter_empty_conv)
  next
    case False
    then obtain k ks where k: "named_at ds n = k # ks" by (cases "named_at ds n") auto
    have b: "\<forall>j \<in> set (k # ks). j < length ds" unfolding k [symmetric] by (simp add: named_at_def)
    then have m: "map ((!) ds) (k # ks) = filter (\<lambda>d. dep_name d = n) ds"
      using at_named [of r n] at_indices_nth [of "k # ks" r] assms(2) k by simp
    have "find (\<lambda>d. dep_name d = n) ds = Some (ds ! k)" using m [symmetric] by (simp add: find_filter)
    then show ?thesis using False inv assms(2) k b by (simp add: get_deployment_by_model_group_name_def names_indexed_def)
  qed
  then show ?thesis using get_all_scan [OF inv] ids assms(2) by simp
qed

lemma fold_groups:
  "dict_get (fold (\<lambda>(g, n) acc. AList.update g (dict_get acc g [] @ [n]) acc) ps acc) g [] =
   dict_get acc g [] @ map snd (filter (\<lambda>p. fst p = g) ps)"
  by (induction ps arbitrary: acc) (auto simp: dict_get_update)

lemma access_groups_members:
  "n \<in> set (dict_get (access_groups_of None ds) g []) \<longleftrightarrow> (\<exists>m \<in> set ds. g \<in> set (mi_access_groups m) \<and> dep_name m = n)"
  by (force simp: access_groups_of_def fold_groups)



text \<open>
  A request for the id of a deployment gets this deployment. A request for a model name
  that the router knows and that is neither an id nor an alias gets exactly the deployments of that name.
\<close>

lemma request_candidates:
  assumes "router_reachable S True r" "d \<in> set (model_list r)"
  shows "common_checks_available_deployment provider alias_map (dep_id d) False team r = Inr (dep_model d, Specific d) \<and>
    (dep_name d \<noteq> [] \<and> dep_name d \<in> model_names r \<and> dep_name d \<notin> dep_id ` set (model_list r) \<and>
       map_of (model_group_alias r) (dep_name d) = None \<longrightarrow>
     common_checks_available_deployment provider alias_map (dep_name d) False team r =
       Inr (dict_get alias_map (dep_name d) (dep_name d), OneOf (filter (\<lambda>e. dep_name e = dep_name d) (model_list r))))"
proof (intro conjI impI)
  have inv: "router_inv r" "unique_ids r" using router_reachable_inv [OF assms(1)] by auto
  have "find (\<lambda>e. dep_id e = dep_id d) (model_list r) = Some d"
    using find_unique [of "model_list r"] assms(2) inv(2) unfolding unique_ids_def by (metis in_set_conv_nth)
  then show "common_checks_available_deployment provider alias_map (dep_id d) False team r = Inr (dep_model d, Specific d)"
    using get_deployment_find [of r "dep_id d"] inv has_model_id_list [OF inv, of "dep_id d"] assms(2)
    by (simp add: common_checks_available_deployment_def router_inv_def)
  assume n: "dep_name d \<noteq> [] \<and> dep_name d \<in> model_names r \<and> dep_name d \<notin> dep_id ` set (model_list r) \<and>
    map_of (model_group_alias r) (dep_name d) = None"
  have "\<exists>x \<in> set (model_list r). dep_name x = dep_name d" using assms(2) by blast
  moreover have "rename None = id" by (simp add: rename_def fun_eq_iff)
  ultimately have "get_all_deployments (dep_name d) None None r = Inr (filter (\<lambda>e. dep_name e = dep_name d) (model_list r))"
    using get_all_scan [of r "dep_name d" None None] inv(1) n by (simp add: router_inv_def scan_deployments_def)
  moreover have "filter (\<lambda>e. dep_name e = dep_name d) (model_list r) \<noteq> []" using assms(2) by (auto simp: filter_empty_conv)
  ultimately show "common_checks_available_deployment provider alias_map (dep_name d) False team r =
      Inr (dict_get alias_map (dep_name d) (dep_name d), OneOf (filter (\<lambda>e. dep_name e = dep_name d) (model_list r)))"
    using n has_model_id_list [OF inv, of "dep_name d"]
    by (simp add: common_checks_available_deployment_def get_model_from_alias_def named_deployments_def Let_def)
qed

subsection \<open>Where the operations do not keep what they promise\<close>

text \<open>Deleting the deployment of a wildcard leaves its pattern, so requests are still routed to it.\<close>

lemma deleted_wildcard_still_served:
  "let d = named ''a/*'' ((dep ''1'' None)\<lparr>dep_model := ''b/*''\<rparr>);
       r = snd (delete_deployment ''1'' (snd (add_deployment plain_setup d empty_router))) in
   model_list r = [] \<and>
   common_checks_available_deployment (\<lambda>_. None) [] ''a/x'' False None r = Inr (''a/x'', OneOf [d\<lparr>dep_model := ''b/x''\<rparr>])"
  by code_simp

text \<open>An update to a deployment that cannot be added loses the one it should replace.\<close>

lemma failed_update_loses_deployment:
  "let r = snd (add_deployment plain_setup (named ''g'' (dep ''1'' None)) empty_router);
       (x, r') = upsert_deployment plain_setup ((named ''g'' (dep ''1'' None))\<lparr>dep_model := ''bad''\<rparr>) r in
   x = Inl (OtherError ''Unsupported provider'') \<and> model_list r' = []"
  by code_simp

text \<open>
  The deployments that an entry with several organizations is expanded to share one id: the index knows
  only the last one, and the other cannot be deleted.
\<close>

lemma organizations_share_id:
  "let r = snd (set_model_list plain_setup
             [\<lparr>raw_deployment = named ''g'' (dep [] None), raw_id = None, raw_organizations = Some [''o'', ''p'']\<rparr>] empty_router);
       r' = snd (delete_deployment ''g/'' r) in
   length (model_list r) = 2 \<and> get_model_ids None False r = Inr [''g/''] \<and>
   length (model_list r') = 1 \<and> fst (delete_deployment ''g/'' r') = None"
  by code_simp

text \<open>New aliases do not invalidate the cached access groups.\<close>

lemma alias_change_keeps_stale_groups:
  "let r = snd (get_model_access_groups None None None
             (snd (add_deployment plain_setup ((named ''g'' (dep ''1'' None))\<lparr>mi_access_groups := [''beta'']\<rparr>) empty_router)));
       r' = update_model_group_alias [(''x'', AliasName ''g'')] r in
   fst (get_model_access_groups None None None r') = Inr [(''beta'', [''g''])] \<and>
   fst (get_model_access_groups None None None (invalidate_access_groups_cache r')) = Inr [(''beta'', [''x'', ''g''])]"
  by code_simp

text \<open>
  A limit at the top level becomes a parameter of deployments from the configuration but not of those
  that are added later.
\<close>

lemma added_deployment_without_limit:
  "let d = (named ''g'' (dep ''1'' None))\<lparr>top_rpm := Some 5\<rparr> in
   map lp_rpm (model_list (snd (add_deployment plain_setup d empty_router))) = [None] \<and>
   map lp_rpm (model_list (snd (create_deployment plain_setup d empty_router))) = [Some 5]"
  by code_simp

end
