(* ===== verification/Calendar.thy ===== *)
theory Calendar
  imports PyValue
begin

text \<open>
  Dates and times of Python's \<^verbatim>\<open>datetime\<close> module as far as the duration code uses them: the
  proleptic Gregorian calendar with the ordinal of a day (1 January of year 1 has ordinal 1), and
  wall-clock fields. The theory shows that \<^verbatim>\<open>fromordinal\<close> inverts \<^verbatim>\<open>toordinal\<close>
  and how long a number of months is.
\<close>

subsection \<open>The calendar\<close>

definition is_leap :: "int \<Rightarrow> bool" where
  "is_leap y \<longleftrightarrow> y mod 4 = 0 \<and> (y mod 100 \<noteq> 0 \<or> y mod 400 = 0)"

definition days_in_month :: "int \<Rightarrow> int \<Rightarrow> int" where
  "days_in_month y m =
     (if m = 2 then (if is_leap y then 29 else 28) else if m \<in> {4, 6, 9, 11} then 30 else 31)"

definition days_before_year :: "int \<Rightarrow> int" where
  "days_before_year y = (y - 1) * 365 + (y - 1) div 4 - (y - 1) div 100 + (y - 1) div 400"

definition days_before_month :: "int \<Rightarrow> int \<Rightarrow> int" where
  "days_before_month y m = (\<Sum>i\<leftarrow>[1..m - 1]. days_in_month y i)"

definition ymd2ord :: "int \<Rightarrow> int \<Rightarrow> int \<Rightarrow> int" where
  "ymd2ord y m d = days_before_year y + days_before_month y m + d"

lemma days_before_year_Suc: "days_before_year (y + 1) = days_before_year y + (if is_leap y then 366 else 365)"
proof -
  have d: "y div k = (y - 1) div k + (if y mod k = 0 then 1 else 0)" if k: "k > 0" for k :: int
  proof (cases "y mod k = 0")
    case True
    then have "y - 1 = k * (y div k - 1) + (k - 1)"
      using mult_div_mod_eq [of k y] by (simp add: right_diff_distrib)
    then have "(y - 1) div k = y div k - 1" using k int_div_pos_eq [of "y - 1" k "y div k - 1" "k - 1"] by simp
    then show ?thesis using True by simp
  next
    case False
    then have "0 < y mod k" "y mod k < k" using k by (simp_all add: order_le_neq_trans)
    moreover have "y - 1 = k * (y div k) + (y mod k - 1)" by simp
    ultimately have "(y - 1) div k = y div k" using int_div_pos_eq [of "y - 1" k "y div k" "y mod k - 1"] by simp
    then show ?thesis using False by simp
  qed
  have m: "y mod 400 = 0 \<Longrightarrow> y mod 100 = 0" "y mod 100 = 0 \<Longrightarrow> y mod 4 = 0"
    using dvd_trans [of 100 400 y] dvd_trans [of 4 100 y] by (simp_all add: mod_eq_0_iff_dvd)
  have e: "y div 4 = (y - 1) div 4 + (if y mod 4 = 0 then 1 else 0)"
    "y div 100 = (y - 1) div 100 + (if y mod 100 = 0 then 1 else 0)"
    "y div 400 = (y - 1) div 400 + (if y mod 400 = 0 then 1 else 0)" by (rule d; simp)+
  have "days_before_year (y + 1) = days_before_year y + 365 + (if y mod 4 = 0 then 1 else 0) -
      (if y mod 100 = 0 then 1 else 0) + (if y mod 400 = 0 then 1 else 0)"
    unfolding days_before_year_def by (simp add: e)
  then show ?thesis
    using m by (cases "y mod 4 = 0"; cases "y mod 100 = 0"; cases "y mod 400 = 0") (simp_all add: is_leap_def)
qed

function find_year :: "int \<Rightarrow> int \<Rightarrow> int" where
  "find_year n y = (if days_before_year (y + 1) < n then find_year n (y + 1) else y)"
  by pat_completeness auto
termination
proof (relation "measure (\<lambda>(n, y). nat (n - days_before_year (y + 1)))")
  fix n y :: int
  assume "days_before_year (y + 1) < n"
  then show "((n, y + 1), n, y) \<in> measure (\<lambda>(n, y). nat (n - days_before_year (y + 1)))"
    using days_before_year_Suc [of "y + 1"] by auto
qed simp

function find_month :: "int \<Rightarrow> int \<Rightarrow> int \<Rightarrow> int \<times> int" where
  "find_month y m n =
     (if m < 12 \<and> days_in_month y m < n then find_month y (m + 1) (n - days_in_month y m) else (m, n))"
  by pat_completeness auto
termination by (relation "measure (\<lambda>(y, m, n). nat (12 - m))") auto

declare find_year.simps [simp del] find_month.simps [simp del]

definition ord2ymd :: "int \<Rightarrow> int \<times> int \<times> int" where
  "ord2ymd n =
     (let y = find_year n (n div 366 + 1); md = find_month y 1 (n - days_before_year y) in (y, fst md, snd md))"

lemma days_in_month_bounds: "28 \<le> days_in_month y m" "days_in_month y m \<le> 31"
  by (auto simp: days_in_month_def)

lemma days_before_month_Suc: "1 \<le> m \<Longrightarrow> days_before_month y (m + 1) = days_before_month y m + days_in_month y m"
  by (simp add: days_before_month_def upto_rec2)

lemma days_before_month_1 [simp]: "days_before_month y 1 = 0"
  by (simp add: days_before_month_def)

lemma days_before_month_13: "days_before_month y 13 = (if is_leap y then 366 else 365)"
proof -
  have "[1..12::int] = [1, 2, 3, 4, 5, 6, 7, 8, 9, 10, 11, 12]" by (simp add: upto_rec1)
  then show ?thesis by (simp add: days_before_month_def days_in_month_def)
qed

definition valid_date :: "int \<Rightarrow> int \<Rightarrow> int \<Rightarrow> bool" where
  "valid_date y m d \<longleftrightarrow> 1 \<le> y \<and> 1 \<le> m \<and> m \<le> 12 \<and> 1 \<le> d \<and> d \<le> days_in_month y m"

lemma days_before_year_mono: "y \<le> z \<Longrightarrow> days_before_year y + (z - y) * 365 \<le> days_before_year z"
proof (induction rule: int_ge_induct)
  case (step z)
  then show ?case using days_before_year_Suc [of z] by (auto split: if_splits)
qed simp

lemma days_before_month_mono:
  assumes "1 \<le> m" "m \<le> k"
  shows "days_before_month y m \<le> days_before_month y k"
  using assms(2,1)
proof (induction rule: int_ge_induct)
  case (step k)
  then show ?case using days_before_month_Suc [of k y] days_in_month_bounds(1) [of y k] by auto
qed simp

lemma find_year_correct:
  "days_before_year y < n \<Longrightarrow>
   days_before_year (find_year n y) < n \<and> n \<le> days_before_year (find_year n y + 1) \<and> y \<le> find_year n y"
proof (induction n y rule: find_year.induct)
  case (1 n y)
  then show ?case by (subst (1 2 3) find_year.simps) auto
qed

lemma find_month_correct:
  "1 \<le> m \<Longrightarrow> m \<le> 12 \<Longrightarrow> 0 < n \<Longrightarrow> n \<le> days_before_month y 13 - days_before_month y m \<Longrightarrow>
   find_month y m n = (m', d) \<Longrightarrow>
   1 \<le> m' \<and> m' \<le> 12 \<and> 0 < d \<and> d \<le> days_in_month y m' \<and> days_before_month y m' + d = days_before_month y m + n"
proof (induction y m n rule: find_month.induct)
  case (1 y m n)
  show ?case
  proof (cases "m < 12 \<and> days_in_month y m < n")
    case True
    then show ?thesis using 1 days_before_month_Suc [of m y] find_month.simps [of y m n] by auto
  next
    case False
    moreover have "n \<le> days_in_month y m" if "m = 12"
      using that "1.prems"(4) days_before_month_Suc [of 12 y] by simp
    ultimately show ?thesis using 1 find_month.simps [of y m n] by force
  qed
qed

lemma year_guess: "1 \<le> n \<Longrightarrow> days_before_year (n div 366 + 1) < n"
proof -
  assume n: "1 \<le> n"
  let ?k = "n div 366"
  have "0 \<le> ?k" "?k * 366 \<le> n" using n by (auto simp: pos_imp_zdiv_nonneg_iff)
  moreover have "days_before_year (?k + 1) \<le> ?k * 365 + ?k div 4"
    using \<open>0 \<le> ?k\<close> div_le_mono2 [of 100 400 "nat ?k"] by (auto simp: days_before_year_def zdiv_mono2)
  moreover have "?k div 4 < ?k \<or> ?k = 0" using \<open>0 \<le> ?k\<close> by auto
  ultimately show ?thesis using n by auto
qed

lemma ord2ymd_valid:
  assumes "1 \<le> n" "ord2ymd n = (y, m, d)"
  shows "valid_date y m d \<and> ymd2ord y m d = n"
proof -
  have y: "days_before_year y < n" "n \<le> days_before_year (y + 1)" "n div 366 + 1 \<le> y"
    using find_year_correct [OF year_guess [OF assms(1)]] assms(2) by (auto simp: ord2ymd_def Let_def)
  have "1 \<le> y" using y(3) assms(1) by (auto simp: pos_imp_zdiv_nonneg_iff)
  moreover have "n - days_before_year y \<le> days_before_month y 13"
    using y(2) days_before_year_Suc [of y] by (simp add: days_before_month_13)
  moreover have "find_month y 1 (n - days_before_year y) = (m, d)"
    using assms(2) by (auto simp: ord2ymd_def Let_def)
  ultimately show ?thesis
    using find_month_correct [of 1 "n - days_before_year y" y m d] y(1)
    by (auto simp: valid_date_def ymd2ord_def)
qed

lemma ymd2ord_year:
  assumes "valid_date y m d"
  shows "days_before_year y < ymd2ord y m d" "ymd2ord y m d \<le> days_before_year (y + 1)"
proof -
  have "0 \<le> days_before_month y m" using days_before_month_mono [of 1 m y] assms by (simp add: valid_date_def)
  then show "days_before_year y < ymd2ord y m d" using assms by (simp add: ymd2ord_def valid_date_def)
  have "days_before_month y m + d \<le> days_before_month y (m + 1)"
    using assms days_before_month_Suc [of m y] by (simp add: valid_date_def)
  also have "\<dots> \<le> days_before_month y 13" using assms by (intro days_before_month_mono) (auto simp: valid_date_def)
  finally show "ymd2ord y m d \<le> days_before_year (y + 1)"
    by (simp add: ymd2ord_def days_before_year_Suc days_before_month_13)
qed

lemma ymd2ord_pos: "valid_date y m d \<Longrightarrow> 1 \<le> ymd2ord y m d"
  using ymd2ord_year(1) [of y m d] days_before_year_mono [of 1 y] by (auto simp: valid_date_def days_before_year_def)

lemma ymd2ord_inj:
  assumes "valid_date y m d" "valid_date y' m' d'" "ymd2ord y m d = ymd2ord y' m' d'"
  shows "y = y' \<and> m = m' \<and> d = d'"
proof -
  have lt: "ymd2ord a b c < ymd2ord a' b' c'"
    if "valid_date a b c" "valid_date a' b' c'" "a < a' \<or> a = a' \<and> b < b'" for a b c a' b' c'
    using that(3)
  proof
    assume "a < a'"
    then have "days_before_year (a + 1) \<le> days_before_year a'" using days_before_year_mono [of "a + 1" a'] by simp
    then show ?thesis using ymd2ord_year(2) [OF that(1)] ymd2ord_year(1) [OF that(2)] by simp
  next
    assume ab: "a = a' \<and> b < b'"
    then have "days_before_month a (b + 1) \<le> days_before_month a b'"
      using that(1) by (intro days_before_month_mono) (auto simp: valid_date_def)
    then show ?thesis using ab that days_before_month_Suc [of b a] by (auto simp: ymd2ord_def valid_date_def)
  qed
  have "y = y'" "m = m'"
    using lt [OF assms(1,2)] lt [OF assms(2,1)] assms(3) by (metis less_irrefl linorder_cases)+
  then show ?thesis using assms(3) by (simp add: ymd2ord_def)
qed

text \<open>\<^verbatim>\<open>date.fromordinal\<close> inverts \<^verbatim>\<open>toordinal\<close>.\<close>

lemma ord2ymd_ymd2ord:
  assumes "valid_date y m d"
  shows "ord2ymd (ymd2ord y m d) = (y, m, d)"
proof -
  obtain y' m' d' where o: "ord2ymd (ymd2ord y m d) = (y', m', d')" by (cases "ord2ymd (ymd2ord y m d)") auto
  from ord2ymd_valid [OF ymd2ord_pos [OF assms] o] ymd2ord_inj [OF _ assms, of y' m' d'] o show ?thesis by auto
qed

subsection \<open>Date and time\<close>

record datetime =
  year :: int
  month :: int
  day :: int
  hour :: int
  minute :: int
  second :: int
  microsecond :: int

definition toordinal :: "datetime \<Rightarrow> int" where
  "toordinal t = ymd2ord (year t) (month t) (day t)"

definition weekday :: "datetime \<Rightarrow> int" where
  "weekday t = (toordinal t + 6) mod 7"

definition OverflowError :: pyexc where
  "OverflowError = OtherError ''OverflowError''"

text \<open>\<^verbatim>\<open>t + timedelta(days=n)\<close>; the last day is 31 December 9999.\<close>

definition add_days :: "datetime \<Rightarrow> int \<Rightarrow> datetime pyres" where
  "add_days t n =
     (let o' = toordinal t + n in
      if o' < 1 \<or> 3652059 < o' then Inl OverflowError
      else case ord2ymd o' of (y, m, d) \<Rightarrow> Inr (t\<lparr>year := y, month := m, day := d\<rparr>))"

text \<open>\<^verbatim>\<open>datetime(year=y, month=m, day=d, hour=0, ...)\<close> with the range check of the year.\<close>

definition mk_date :: "int \<Rightarrow> int \<Rightarrow> int \<Rightarrow> datetime pyres" where
  "mk_date y m d =
     (if y < 1 \<or> 9999 < y \<or> m < 1 \<or> 12 < m \<or> d < 1 \<or> days_in_month y m < d then Inl ValueError
      else Inr \<lparr>year = y, month = m, day = d, hour = 0, minute = 0, second = 0, microsecond = 0\<rparr>)"

definition midnight :: "datetime \<Rightarrow> datetime" where
  "midnight t = t\<lparr>hour := 0, minute := 0, second := 0, microsecond := 0\<rparr>"

text \<open>Seconds since midnight, and the wall clock in microseconds.\<close>

definition time_of_day :: "datetime \<Rightarrow> int" where
  "time_of_day t = (hour t * 60 + minute t) * 60 + second t"

definition wall_seconds :: "datetime \<Rightarrow> int" where
  "wall_seconds t = toordinal t * 86400 + time_of_day t"

definition wall :: "datetime \<Rightarrow> int" where
  "wall t = wall_seconds t * 1000000 + microsecond t"

definition datetime_ok :: "datetime \<Rightarrow> bool" where
  "datetime_ok t \<longleftrightarrow> valid_date (year t) (month t) (day t) \<and> year t \<le> 9999 \<and> 0 \<le> hour t \<and> hour t < 24 \<and>
     0 \<le> minute t \<and> minute t < 60 \<and> 0 \<le> second t \<and> second t < 60 \<and> 0 \<le> microsecond t \<and> microsecond t < 1000000"

subsection \<open>Months\<close>

lemma div_mod_12:
  fixes y r :: int
  assumes "0 \<le> r" "r < 12"
  shows "(12 * y + r) div 12 = y" "(12 * y + r) mod 12 = r"
  using assms by (simp_all add: div_pos_pos_trivial mod_pos_pos_trivial)

text \<open>The first day of the month with index \<open>k\<close>, counted from January of year 0.\<close>

definition month_start :: "int \<Rightarrow> int" where
  "month_start k = ymd2ord (k div 12) (k mod 12 + 1) 1"

definition month_len :: "int \<Rightarrow> int" where
  "month_len k = days_in_month (k div 12) (k mod 12 + 1)"

lemma month_start_Suc: "month_start (k + 1) = month_start k + month_len k"
proof -
  define y m where "y = k div 12" and "m = k mod 12 + 1"
  have now: "month_start k = ymd2ord y m 1" "month_len k = days_in_month y m"
    by (simp_all only: month_start_def month_len_def y_def m_def)
  have k: "k = 12 * y + m - 1" unfolding y_def m_def by simp
  have m: "1 \<le> m" "m \<le> 12" unfolding m_def using pos_mod_bound [of 12 k] by simp_all
  show ?thesis
  proof (cases "m = 12")
    case True
    then have "k + 1 = 12 * (y + 1) + 0" using k by simp
    then have "(k + 1) div 12 = y + 1" "(k + 1) mod 12 + 1 = 1" using div_mod_12 [of 0 "y + 1"] by simp_all
    then have "month_start (k + 1) = ymd2ord (y + 1) 1 1" by (simp only: month_start_def)
    then show ?thesis
      using True now days_before_month_Suc [of 12 y] days_before_year_Suc [of y]
      by (simp add: ymd2ord_def days_before_month_13)
  next
    case False
    then have "k + 1 = 12 * y + m" "0 \<le> m" "m < 12" using k m by simp_all
    then have "(k + 1) div 12 = y" "(k + 1) mod 12 + 1 = m + 1" "1 \<le> m" using div_mod_12 [of m y] m by simp_all
    then have "month_start (k + 1) = ymd2ord y (m + 1) 1" "1 \<le> m" by (simp_all only: month_start_def)
    then show ?thesis using now days_before_month_Suc [of m y] by (simp add: ymd2ord_def)
  qed
qed

lemma month_start_bounds: "month_start k + 28 * int n \<le> month_start (k + int n) \<and> month_start (k + int n) \<le> month_start k + 31 * int n"
proof (induction n)
  case (Suc n)
  have "month_start (k + int (Suc n)) = month_start (k + int n) + month_len (k + int n)"
    using month_start_Suc [of "k + int n"] by (simp add: algebra_simps)
  then show ?case
    using Suc days_in_month_bounds [of "(k + int n) div 12" "(k + int n) mod 12 + 1"] by (simp add: month_len_def)
qed simp

lemma ymd2ord_max: "valid_date y m d \<Longrightarrow> y \<le> z \<Longrightarrow> ymd2ord y m d \<le> days_before_year (z + 1)"
  using ymd2ord_year(2) [of y m d] days_before_year_mono [of "y + 1" "z + 1"] by simp

lemma days_before_10000: "days_before_year 10000 = 3652059"
  by (simp add: days_before_year_def)

lemma add_days_date:
  assumes "valid_date y m d" "y \<le> 9999" "toordinal t + n = ymd2ord y m d"
  shows "add_days t n = Inr (t\<lparr>year := y, month := m, day := d\<rparr>)"
  using assms ymd2ord_pos [OF assms(1)] ymd2ord_max [OF assms(1), of 9999] ord2ymd_ymd2ord [OF assms(1)]
  by (simp add: add_days_def Let_def days_before_10000)

subsection \<open>Later days\<close>

lemma toordinal_room: "datetime_ok t \<Longrightarrow> year t < 9999 \<Longrightarrow> 1 \<le> toordinal t \<and> toordinal t + 365 \<le> 3652059"
  using ymd2ord_pos [of "year t" "month t" "day t"] ymd2ord_max [of "year t" "month t" "day t" 9998]
    days_before_year_Suc [of 9999] days_before_10000
  by (auto simp: datetime_ok_def toordinal_def is_leap_def)

lemma ord2ymd_year: "1 \<le> n \<Longrightarrow> n \<le> 3652059 \<Longrightarrow> ord2ymd n = (y, m, d) \<Longrightarrow> y \<le> 9999"
  using ord2ymd_valid [of n y m d] ymd2ord_year(1) [of y m d] days_before_year_mono [of 10000 y] days_before_10000
  by fastforce

lemma add_days_later:
  assumes "datetime_ok t" "year t < 9999" "0 \<le> n" "n \<le> 365"
  shows "\<exists>r. add_days t n = Inr r \<and> datetime_ok r \<and> toordinal r = toordinal t + n \<and>
    hour r = hour t \<and> minute r = minute t \<and> second r = second t \<and> microsecond r = microsecond t"
proof -
  let ?o = "toordinal t + n"
  obtain y m d where o: "ord2ymd ?o = (y, m, d)" by (cases "ord2ymd ?o") auto
  have b: "1 \<le> ?o" "?o \<le> 3652059" using toordinal_room [OF assms(1,2)] assms(3,4) by auto
  show ?thesis
    using o b ord2ymd_valid [OF b(1) o] ord2ymd_year [OF b o] assms(1)
    by (auto simp: add_days_def Let_def datetime_ok_def toordinal_def)
qed

lemma midnight_ok [simp]: "datetime_ok t \<Longrightarrow> datetime_ok (midnight t)"
  by (simp add: datetime_ok_def midnight_def)

lemma midnight_simps [simp]:
  "toordinal (midnight t) = toordinal t" "year (midnight t) = year t" "hour (midnight t) = 0"
  "minute (midnight t) = 0" "second (midnight t) = 0" "microsecond (midnight t) = 0"
  by (simp_all add: midnight_def toordinal_def)

end
