(* ===== verification/RequestCounts.thy ===== *)
theory RequestCounts
  imports CacheAlias PyCompare Deployments Calendar
begin

text \<open>
  What the routing strategies share that count requests or tokens per deployment in the router's
  cache: whose request it was, and the zero counts of deployments without an entry. A deployment id
  is a string or a number. The lemmas describe the cached dicts by integer counts.
\<close>

text \<open>The model group and the deployment id of a request, if it has both.\<close>

definition group_and_id :: "(pyval \<Rightarrow> string) \<Rightarrow> (string, pyval) dict \<Rightarrow> (string, pyval) dict \<Rightarrow> (string \<times> string) option" where
  "group_and_id py_str md mi =
     (let model_group = dict_get md ''model_group'' PNone in
      if model_group = PNone then None
      else case dict_get mi ''id'' PNone of
        PStr i \<Rightarrow> Some (val_str py_str model_group, i)
      | PInt i \<Rightarrow> Some (val_str py_str model_group, str_of_int i)
      | PBool b \<Rightarrow> Some (val_str py_str model_group, if b then ''True'' else ''False'')
      | _ \<Rightarrow> None)"

definition request_target :: "(pyval \<Rightarrow> string) \<Rightarrow> (string, pyval) dict \<Rightarrow> (string \<times> string) option" where
  "request_target py_str kwargs =
     (case map_of kwargs ''litellm_params'' of
        Some (PDict lp) \<Rightarrow>
          (case (dict_get lp ''metadata'' PNone, dict_get lp ''model_info'' (PDict [])) of
             (PDict md, PDict mi) \<Rightarrow> group_and_id py_str md mi
           | _ \<Rightarrow> None)
      | _ \<Rightarrow> None)"

definition fill_zero :: "deployment list \<Rightarrow> (string, pyval) dict \<Rightarrow> (string, pyval) dict" where
  "fill_zero ds m = fold (\<lambda>d m. if map_of m (dep_id d) = None then AList.update (dep_id d) (PInt 0) m else m) ds m"

text \<open>Counts of a minute are kept under its time of day.\<close>

definition pad2 :: "int \<Rightarrow> string" where
  "pad2 n = (if n < 10 then ''0'' @ str_of_int n else str_of_int n)"

text \<open>\<^verbatim>\<open>datetime.now().strftime("%H-%M")\<close>.\<close>

definition current_minute :: "datetime \<Rightarrow> string" where
  "current_minute now = pad2 (hour now) @ ''-'' @ pad2 (minute now)"

definition first_limit :: "rat option list \<Rightarrow> pyval" where
  "first_limit ls = (case find (\<lambda>l. l \<noteq> None) ls of Some (Some q) \<Rightarrow> PFloat q | _ \<Rightarrow> PInf True)"

subsection \<open>Counts\<close>

definition enc_counts :: "(string, int) dict \<Rightarrow> (string, pyval) dict" where
  "enc_counts c = map (\<lambda>(k, n). (k, PInt n)) c"

lemma enc_counts_lookup: "map_of (enc_counts c) k = map_option PInt (map_of c k)"
  by (simp add: enc_counts_def map_of_map)

lemma enc_counts_get: "dict_get (enc_counts c) k (PInt 0) = PInt (dict_get c k 0)"
  by (simp add: dict_get_def enc_counts_lookup split: option.split)

lemma enc_counts_update: "AList.update k (PInt n) (enc_counts c) = enc_counts (AList.update k n c)"
  by (induction c) (auto simp: enc_counts_def)

definition fill_counts :: "deployment list \<Rightarrow> (string, int) dict \<Rightarrow> (string, int) dict" where
  "fill_counts ds c = fold (\<lambda>d c. if map_of c (dep_id d) = None then AList.update (dep_id d) 0 c else c) ds c"

lemma fill_zero_Cons:
  "fill_zero (d # ds) m = fill_zero ds (if map_of m (dep_id d) = None then AList.update (dep_id d) (PInt 0) m else m)"
  by (simp add: fill_zero_def)

lemma fill_zero_counts: "fill_zero ds (enc_counts c) = enc_counts (fill_counts ds c)"
  unfolding fill_zero_def fill_counts_def
  by (induction ds arbitrary: c) (simp_all add: enc_counts_lookup enc_counts_update)

lemma fill_counts_props:
  "dict_wf c \<Longrightarrow> dict_wf (fill_counts ds c)"
  "dict_get (fill_counts ds c) i 0 = dict_get c i 0"
  "set (dict_keys (fill_counts ds c)) = set (dict_keys c) \<union> dep_id ` set ds"
proof -
  show "dict_wf c \<Longrightarrow> dict_wf (fill_counts ds c)"
    unfolding fill_counts_def by (induction ds arbitrary: c) (auto simp: distinct_update)
  show "dict_get (fill_counts ds c) i 0 = dict_get c i 0"
  proof (induction ds arbitrary: c)
    case (Cons d ds)
    have "dict_get (if map_of c (dep_id d) = None then AList.update (dep_id d) 0 c else c) i 0 = dict_get c i 0"
      by (auto simp: dict_get_def)
    then show ?case using Cons by (simp add: fill_counts_def)
  qed (simp add: fill_counts_def)
  show "set (dict_keys (fill_counts ds c)) = set (dict_keys c) \<union> dep_id ` set ds"
  proof (induction ds arbitrary: c)
    case (Cons d ds)
    have "set (dict_keys (if map_of c (dep_id d) = None then AList.update (dep_id d) 0 c else c)) =
      insert (dep_id d) (set (dict_keys c))"
      using keys_update_set [of "dep_id d" "0::int" c] by (auto simp: map_of_eq_None_iff insert_absorb)
    then show ?case using Cons by (simp add: fill_counts_def)
  qed (simp add: fill_counts_def)
qed

definition kwargs_for :: "string \<Rightarrow> string \<Rightarrow> (string, pyval) dict" where
  "kwargs_for g i = [(''litellm_params'', PDict [(''metadata'', PDict [(''model_group'', PStr g)]),
     (''model_info'', PDict [(''id'', PStr i)])])]"

lemma target_kwargs [simp]: "request_target py_str (kwargs_for g i) = Some (g, i)"
  by (simp add: request_target_def group_and_id_def kwargs_for_def dict_get_def val_str_def)

abbreviation noon :: datetime where
  "noon \<equiv> \<lparr>year = 2025, month = 1, day = 2, hour = 12, minute = 5, second = 0, microsecond = 0\<rparr>"

lemma find_rev_id:
  assumes "distinct (map dep_id ds)" "m \<in> set ds"
  shows "find (\<lambda>x. dep_id m = dep_id x) (rev ds) = Some m"
proof -
  have "find (\<lambda>x. dep_id m = dep_id x) (rev ds) \<noteq> None" using assms(2) by (auto simp: find_None_iff)
  then obtain x where x: "find (\<lambda>x. dep_id m = dep_id x) (rev ds) = Some x" by blast
  then have "x \<in> set (rev ds)" "dep_id x = dep_id m" unfolding find_Some_iff by (metis nth_mem)+
  then have "x \<in> set ds" "dep_id x = dep_id m" by simp_all
  then show ?thesis using x assms by (metis distinct_map inj_onD)
qed

end
