(* ===== verification/LowestTpm.thy ===== *)
theory LowestTpm
  imports RequestCounts Calendar
begin

text \<open>
  \<^verbatim>\<open>router_strategy/lowest_tpm_rpm.py\<close>: the strategy that counts the tokens and the requests of
  every deployment per wall-clock minute in the router's cache and picks, among the deployments within
  their limits, one with the fewest tokens. \<^verbatim>\<open>async_log_success_event\<close> has the body of
  \<^verbatim>\<open>log_success_event\<close> up to \<^verbatim>\<open>await\<close>; both swallow every exception. The number of tokens of the
  request at hand is an argument. The cached values are dicts or absent, as the handler writes them;
  the model reports any other value as a \<open>TypeError\<close>. The theory shows that the pick is the least
  used deployment within its limits, and that none is returned exactly if none is within its limits.
\<close>

definition tpm_key :: "string \<Rightarrow> datetime \<Rightarrow> string" where
  "tpm_key model_group now = model_group @ '':tpm:'' @ current_minute now"

definition rpm_key :: "string \<Rightarrow> datetime \<Rightarrow> string" where
  "rpm_key model_group now = model_group @ '':rpm:'' @ current_minute now"

text \<open>\<^verbatim>\<open>response_obj["usage"]["total_tokens"]\<close>, if there is one.\<close>

definition total_tokens :: "pyval \<Rightarrow> pyval option" where
  "total_tokens response_obj =
     (case response_obj of
        PDict r \<Rightarrow> (case map_of r ''usage'' of Some (PDict u) \<Rightarrow> map_of u ''total_tokens'' | _ \<Rightarrow> None)
      | _ \<Rightarrow> None)"

definition tpm_log_success_event ::
  "'r redis_ops \<Rightarrow> py_runtime \<Rightarrow> (pyval \<Rightarrow> string) \<Rightarrow> rat \<Rightarrow> datetime \<Rightarrow> time \<Rightarrow> (string, pyval) dict \<Rightarrow> pyval \<Rightarrow> 'r dual \<Rightarrow> 'r dual" where
  "tpm_log_success_event ops rt py_str routing_ttl now t kwargs response_obj d =
     (case (request_target py_str kwargs, total_tokens response_obj) of
        (Some (g, i), Some n) \<Rightarrow>
          (case count_in_cache ops rt t t t (tpm_key g now) i n (Some (Some routing_ttl)) d of
             (Inl _, d1) \<Rightarrow> d1
           | (Inr _, d1) \<Rightarrow> snd (count_in_cache ops rt t t t (rpm_key g now) i (PInt 1) (Some (Some routing_ttl)) d1))
      | _ \<Rightarrow> d)"

definition deployment_tpm :: "deployment \<Rightarrow> pyval" where
  "deployment_tpm d = first_limit [top_tpm d, lp_tpm d, mi_tpm d]"

definition deployment_rpm :: "deployment \<Rightarrow> pyval" where
  "deployment_rpm d = first_limit [top_rpm d, lp_rpm d, mi_rpm d]"

text \<open>\<^verbatim>\<open>(rpm_dict is not None and item in rpm_dict) and rpm_dict[item] + 1 >= limit\<close>.\<close>

definition rpm_exceeded :: "pyval \<Rightarrow> string \<Rightarrow> pyval \<Rightarrow> bool pyres" where
  "rpm_exceeded rpm_dict item limit =
     (case rpm_dict of
        PNone \<Rightarrow> Inr False
      | PDict r \<Rightarrow>
        (case map_of r item of
           None \<Rightarrow> Inr False
         | Some n \<Rightarrow> (case py_add n (PInt 1) of Inl e \<Rightarrow> Inl e | Inr n' \<Rightarrow> py_ge n' limit))
      | _ \<Rightarrow> Inl TypeError)"

fun tpm_loop ::
  "pyval \<Rightarrow> int \<Rightarrow> deployment list \<Rightarrow> (string, pyval) dict \<Rightarrow> pyval \<Rightarrow> deployment option \<Rightarrow> deployment option pyres" where
  "tpm_loop rpm_dict input_tokens ds [] lowest_tpm deployment = Inr deployment"
| "tpm_loop rpm_dict input_tokens ds ((item, item_tpm) # rest) lowest_tpm deployment =
     (case find (\<lambda>m. item = dep_id m) (rev ds) of
        None \<Rightarrow> tpm_loop rpm_dict input_tokens ds rest lowest_tpm deployment
      | Some m \<Rightarrow>
        (case py_add item_tpm (PInt input_tokens) of Inl e \<Rightarrow> Inl e | Inr want \<Rightarrow>
         case py_gt want (deployment_tpm m) of
           Inl e \<Rightarrow> Inl e
         | Inr True \<Rightarrow> tpm_loop rpm_dict input_tokens ds rest lowest_tpm deployment
         | Inr False \<Rightarrow>
           (case rpm_exceeded rpm_dict item (deployment_rpm m) of
              Inl e \<Rightarrow> Inl e
            | Inr True \<Rightarrow> tpm_loop rpm_dict input_tokens ds rest lowest_tpm deployment
            | Inr False \<Rightarrow>
              (case py_lt item_tpm lowest_tpm of
                 Inl e \<Rightarrow> Inl e
               | Inr True \<Rightarrow> tpm_loop rpm_dict input_tokens ds rest item_tpm (Some m)
               | Inr False \<Rightarrow> tpm_loop rpm_dict input_tokens ds rest lowest_tpm deployment))))"

text \<open>
  The pick. The dict of token counts is the object the in-memory level holds, so the zero counts
  that are filled in stay in the cache.
\<close>

definition tpm_get_available_deployments ::
  "'r redis_ops \<Rightarrow> py_runtime \<Rightarrow> datetime \<Rightarrow> time \<Rightarrow> int pyres \<Rightarrow> string \<Rightarrow> deployment list \<Rightarrow> 'r dual \<Rightarrow>
   deployment option pyres \<times> 'r dual" where
  "tpm_get_available_deployments ops rt now t token_counter model_group ds d =
     (let (tpm_dict, d1) = dual_get_cache ops rt t t (tpm_key model_group now) False None d;
          (rpm_dict, d2) = dual_get_cache ops rt t t (rpm_key model_group now) False None d1;
          input_tokens = (case token_counter of Inl _ \<Rightarrow> 0 | Inr n \<Rightarrow> n) in
      case tpm_dict of
        PNone \<Rightarrow>
          (let all_deployments = fold (\<lambda>m. AList.update (dep_id m) (PInt 0)) ds [] in
           (tpm_loop rpm_dict input_tokens ds all_deployments (PInf True) None, d2))
      | PDict m \<Rightarrow>
          (let all_deployments = fill_zero ds m in
           (tpm_loop rpm_dict input_tokens ds all_deployments (PInf True) None,
            dual_alias (tpm_key model_group now) tpm_dict (PDict all_deployments) d2))
      | _ \<Rightarrow> (Inl TypeError, d2))"

subsection \<open>The loop\<close>

text \<open>The counts \<open>c\<close> of tokens and \<open>r\<close> of requests leave room for the request.\<close>

definition under_limit :: "rat option list \<Rightarrow> (rat \<Rightarrow> bool) \<Rightarrow> bool" where
  "under_limit ls p \<longleftrightarrow> (case find (\<lambda>l. l \<noteq> None) ls of Some (Some q) \<Rightarrow> p q | _ \<Rightarrow> True)"

definition eligible :: "(string, int) dict \<Rightarrow> (string, int) dict \<Rightarrow> int \<Rightarrow> deployment \<Rightarrow> bool" where
  "eligible c r n m \<longleftrightarrow>
     under_limit [top_tpm m, lp_tpm m, mi_tpm m] (\<lambda>q. of_int (dict_get c (dep_id m) 0 + n) \<le> q) \<and>
     (case map_of r (dep_id m) of
        None \<Rightarrow> True
      | Some k \<Rightarrow> under_limit [top_rpm m, lp_rpm m, mi_rpm m] (\<lambda>q. of_int (k + 1) < q))"

lemma gt_limit: "py_gt (PInt n) (first_limit ls) = Inr (\<not> under_limit ls (\<lambda>q. of_int n \<le> q))"
  by (auto simp: py_gt_def first_limit_def under_limit_def num_lt_def is_number_def not_le split: option.split)

lemma ge_limit: "py_ge (PInt n) (first_limit ls) = Inr (\<not> under_limit ls (\<lambda>q. of_int n < q))"
  by (auto simp: py_ge_def first_limit_def under_limit_def num_lt_def is_number_def split: option.split)

definition enc_opt :: "(string, int) dict option \<Rightarrow> pyval" where
  "enc_opt r = (case r of None \<Rightarrow> PNone | Some c \<Rightarrow> PDict (enc_counts c))"

lemma rpm_exceeded_counts:
  "rpm_exceeded (enc_opt r) i (deployment_rpm m) =
   Inr (case r of None \<Rightarrow> False | Some c \<Rightarrow>
     (case map_of c i of None \<Rightarrow> False | Some k \<Rightarrow> \<not> under_limit [top_rpm m, lp_rpm m, mi_rpm m] (\<lambda>q. of_int (k + 1) < q)))"
  by (auto simp: rpm_exceeded_def enc_opt_def enc_counts_lookup deployment_rpm_def ge_limit split: option.split)

text \<open>The loop keeps the least used eligible deployment of the entries it has passed.\<close>

definition least_of :: "(string, int) dict \<Rightarrow> deployment set \<Rightarrow> deployment option \<Rightarrow> bool" where
  "least_of c S b \<longleftrightarrow>
     (case b of
        None \<Rightarrow> S = {}
      | Some m \<Rightarrow> m \<in> S \<and> (\<forall>x \<in> S. dict_get c (dep_id m) 0 \<le> dict_get c (dep_id x) 0))"

definition best_val :: "(string, int) dict \<Rightarrow> deployment option \<Rightarrow> pyval" where
  "best_val c b = (case b of None \<Rightarrow> PInf True | Some m \<Rightarrow> PInt (dict_get c (dep_id m) 0))"

lemma least_of_insert:
  assumes "least_of c S b"
  shows "least_of c (insert m S) (if py_lt (PInt (dict_get c (dep_id m) 0)) (best_val c b) = Inr True then Some m else b)"
  using assms by (cases b) (auto simp: least_of_def best_val_def num_lt_def is_number_def)

lemma lt_best: "\<exists>t. py_lt (PInt n) (best_val c b) = Inr t"
  by (cases b) (auto simp: best_val_def num_lt_def is_number_def)

abbreviation reqs :: "(string, int) dict option \<Rightarrow> (string, int) dict" where
  "reqs r \<equiv> (case r of None \<Rightarrow> [] | Some c \<Rightarrow> c)"

lemma tpm_loop_step:
  assumes "distinct (map dep_id ds)" "m \<in> set ds"
  shows "tpm_loop (enc_opt r) n ds ((dep_id m, PInt (dict_get c (dep_id m) 0)) # rest) (best_val c b) b =
    (let b' = (if eligible c (reqs r) n m \<and> py_lt (PInt (dict_get c (dep_id m) 0)) (best_val c b) = Inr True
               then Some m else b) in
     tpm_loop (enc_opt r) n ds rest (best_val c b') b')"
proof -
  obtain t where t: "py_lt (PInt (dict_get c (dep_id m) 0)) (best_val c b) = Inr t" using lt_best by blast
  have g: "py_gt (PInt (dict_get c (dep_id m) 0 + n)) (deployment_tpm m) =
    Inr (\<not> under_limit [top_tpm m, lp_tpm m, mi_tpm m] (\<lambda>q. of_int (dict_get c (dep_id m) 0 + n) \<le> q))"
    unfolding deployment_tpm_def by (rule gt_limit)
  show ?thesis
    using find_rev_id [OF assms] t
    by (cases r) (auto simp: g rpm_exceeded_counts eligible_def Let_def best_val_def split: option.split bool.split)
qed

lemma tpm_loop_least:
  assumes "distinct (map dep_id ds)" "\<forall>(i, k) \<in> set es. k = dict_get c i 0" "least_of c S b"
  shows "\<exists>b'. tpm_loop (enc_opt r) n ds (enc_counts es) (best_val c b) b = Inr b' \<and>
    least_of c (S \<union> {m \<in> set ds. dep_id m \<in> set (dict_keys es) \<and> eligible c (reqs r) n m}) b'"
  using assms(2,3)
proof (induction es arbitrary: S b)
  case Nil
  then show ?case by (simp add: enc_counts_def)
next
  case (Cons e es)
  obtain i where e: "e = (i, dict_get c i 0)" using Cons.prems(1) by auto
  show ?case
  proof (cases "\<exists>m \<in> set ds. dep_id m = i")
    case False
    then have "find (\<lambda>m. i = dep_id m) (rev ds) = None" by (auto simp: find_None_iff)
    then have "tpm_loop (enc_opt r) n ds (enc_counts (e # es)) (best_val c b) b =
      tpm_loop (enc_opt r) n ds (enc_counts es) (best_val c b) b"
      by (simp add: enc_counts_def e)
    moreover have "{m \<in> set ds. dep_id m \<in> set (dict_keys (e # es)) \<and> eligible c (reqs r) n m} =
      {m \<in> set ds. dep_id m \<in> set (dict_keys es) \<and> eligible c (reqs r) n m}" using False e by auto
    ultimately show ?thesis using Cons.IH [OF _ Cons.prems(2)] Cons.prems(1) by simp
  next
    case True
    then obtain m where m: "m \<in> set ds" "dep_id m = i" by blast
    let ?b = "if eligible c (reqs r) n m \<and> py_lt (PInt (dict_get c (dep_id m) 0)) (best_val c b) = Inr True
               then Some m else b"
    let ?S = "if eligible c (reqs r) n m then insert m S else S"
    have step: "tpm_loop (enc_opt r) n ds (enc_counts (e # es)) (best_val c b) b =
      tpm_loop (enc_opt r) n ds (enc_counts es) (best_val c ?b) ?b"
      using tpm_loop_step [OF assms(1) m(1), of r n c "enc_counts es" b] by (simp add: enc_counts_def e m(2) Let_def)
    have l: "least_of c ?S ?b"
      using Cons.prems(2) least_of_insert [OF Cons.prems(2), of m] by (cases "eligible c (reqs r) n m") (simp_all only: if_True if_False simp_thms)
    have "m = x" if "x \<in> set ds" "dep_id x = i" for x using that m assms(1) by (metis distinct_map inj_onD)
    then have "?S \<union> {m \<in> set ds. dep_id m \<in> set (dict_keys es) \<and> eligible c (reqs r) n m} =
      S \<union> {m \<in> set ds. dep_id m \<in> set (dict_keys (e # es)) \<and> eligible c (reqs r) n m}"
      unfolding e using m by (cases "eligible c (reqs r) n m") force+
    then show ?thesis using Cons.IH [OF _ l] Cons.prems(1) step by simp
  qed
qed

subsection \<open>Properties\<close>

lemma update_id: "map_of c k = Some v \<Longrightarrow> AList.update k v c = c"
  by (induction c) (auto split: if_splits)

lemma zeros_fill:
  assumes "\<forall>i k. map_of c i = Some k \<longrightarrow> k = 0"
  shows "fold (\<lambda>m. AList.update (dep_id m) (PInt 0)) ds (enc_counts c) = fill_zero ds (enc_counts c)"
  using assms
proof (induction ds arbitrary: c)
  case (Cons m ds)
  let ?c = "AList.update (dep_id m) 0 c"
  have z: "\<forall>i k. map_of ?c i = Some k \<longrightarrow> k = 0" using Cons.prems by (auto simp: update_conv')
  have "(if map_of (enc_counts c) (dep_id m) = None then enc_counts ?c else enc_counts c) = enc_counts ?c"
    using Cons.prems by (auto simp: enc_counts_lookup update_id)
  then have "fill_zero (m # ds) (enc_counts c) = fill_zero ds (enc_counts ?c)"
    by (simp only: fill_zero_Cons enc_counts_update)
  then show ?case using Cons.IH [OF z] by (simp add: enc_counts_update)
qed (simp add: fill_zero_def)

text \<open>
  Without Redis, with the token counts \<open>c\<close> and the request counts \<open>r\<close> of the
  minute in the cache, the pick is a healthy deployment within its limits with the fewest tokens of
  all those; no deployment is returned exactly if none is within its limits.
\<close>

lemma lowest_tpm_pick:
  assumes "dual_local ttl d" "distinct (map dep_id ds)" "dict_wf (reqs c)"
    and "dual_peek t (tpm_key g now) d = enc_opt c" "dual_peek t (rpm_key g now) d = enc_opt r"
  shows "\<exists>b. fst (tpm_get_available_deployments ops rt now t (Inr n) g ds d) = Inr b \<and>
    least_of (reqs c) {m \<in> set ds. eligible (reqs c) (reqs r) n m} b"
proof -
  let ?f = "fill_counts ds (reqs c)"
  have v: "\<forall>(i, k) \<in> set ?f. k = dict_get (reqs c) i 0"
  proof (clarify)
    fix i k assume "(i, k) \<in> set ?f"
    then have "dict_get ?f i 0 = k" using fill_counts_props(1) [OF assms(3)] by (simp add: dict_get_def)
    then show "k = dict_get (reqs c) i 0" using fill_counts_props(2) by simp
  qed
  have k: "dep_id m \<in> set (dict_keys ?f)" if "m \<in> set ds" for m using that fill_counts_props(3) [of ds "reqs c"] by simp
  have "least_of (reqs c) {} None" by (simp add: least_of_def)
  from tpm_loop_least [OF assms(2) v this, of r n] obtain b where
    b: "tpm_loop (enc_opt r) n ds (enc_counts ?f) (PInf True) None = Inr b"
      "least_of (reqs c) {m \<in> set ds. dep_id m \<in> set (dict_keys ?f) \<and> eligible (reqs c) (reqs r) n m} b"
    by (auto simp: best_val_def)
  have s: "{m \<in> set ds. dep_id m \<in> set (dict_keys ?f) \<and> eligible (reqs c) (reqs r) n m} =
    {m \<in> set ds. eligible (reqs c) (reqs r) n m}" using k by blast
  have z: "fold (\<lambda>m. AList.update (dep_id m) (PInt 0)) ds [] = enc_counts (fill_counts ds [])"
    using zeros_fill [of "[]" ds] fill_zero_counts [of ds "[]"] by (simp add: enc_counts_def)
  let ?d1 = "dual_after_get ops rt t (tpm_key g now) d"
  have n: "redis_cache d = None" "redis_cache ?d1 = None"
    using assms(1) dcs.get_invar [OF assms(1)] by (simp_all add: dual_local_def)
  have "dual_get_cache ops rt t t (tpm_key g now) False None d = (enc_opt c, ?d1)"
    using n(1) assms(4) by (simp add: dual_get_local dual_after_get_def)
  moreover have "dual_get_cache ops rt t t (rpm_key g now) False None ?d1 = (enc_opt r, dual_after_get ops rt t (rpm_key g now) ?d1)"
    using n(2) assms(5) dcs.peek_get [OF assms(1)] by (simp add: dual_get_local dual_after_get_def)
  ultimately have "fst (tpm_get_available_deployments ops rt now t (Inr n) g ds d) =
    tpm_loop (enc_opt r) n ds (enc_counts ?f) (PInf True) None"
    using z by (cases c) (simp_all add: tpm_get_available_deployments_def enc_opt_def fill_zero_counts Let_def)
  then show ?thesis using b s by simp
qed

text \<open>A request that succeeds adds its tokens and one request.\<close>

lemma tpm_log_counts:
  assumes "dual_local (Some (Some ttl)) d" "\<forall>m. check_value_size rt (in_memory_cache d) (PDict m)"
    and "dual_peek t (tpm_key g now) d = enc_opt c"
    and "total_tokens resp = Some (PInt n)"
  shows "\<exists>d1. count_in_cache ops rt t t t (tpm_key g now) i (PInt n) (Some (Some ttl)) d = (Inr (), d1) \<and>
    dual_peek t (tpm_key g now) d1 = PDict (enc_counts (AList.update i (dict_get (reqs c) i 0 + n) (reqs c))) \<and>
    tpm_log_success_event ops rt py_str ttl now t (kwargs_for g i) resp d =
      snd (count_in_cache ops rt t t t (rpm_key g now) i (PInt 1) (Some (Some ttl)) d1)"
proof -
  let ?m = "enc_counts (reqs c)"
  have m: "dual_peek t (tpm_key g now) d = PNone \<or> dual_peek t (tpm_key g now) d = PDict ?m" "?m = counts_at t (tpm_key g now) d"
    using assms(3) by (auto simp: enc_opt_def counts_at_def enc_counts_def split: option.splits)
  have "py_add (dict_get ?m i (PInt 0)) (PInt n) = Inr (PInt (dict_get (reqs c) i 0 + n))" by (simp add: enc_counts_get)
  from count_in_cache_local [OF assms(1) m this refl, of rt ops t t] assms(2) obtain d1 where
    "count_in_cache ops rt t t t (tpm_key g now) i (PInt n) (Some (Some ttl)) d = (Inr (), d1)"
    "dual_peek t (tpm_key g now) d1 = PDict (AList.update i (PInt (dict_get (reqs c) i 0 + n)) ?m)" by blast
  then show ?thesis using assms(4) by (simp add: tpm_log_success_event_def enc_counts_update)
qed

definition dep_limits :: "string \<Rightarrow> rat option \<Rightarrow> rat option \<Rightarrow> deployment" where
  "dep_limits i tpm rpm = (dep i None)\<lparr>top_tpm := tpm, top_rpm := rpm\<rparr>"

abbreviation used_dual :: "unit dual" where
  "used_dual \<equiv> tpm_log_success_event ops0 rt0 (\<lambda>_. []) 60 noon 9 (kwargs_for ''g'' ''a'')
     (PDict [(''usage'', PDict [(''total_tokens'', PInt 30)])]) mem_dual"

lemma tpm_log_invar:
  assumes "dual_local (Some (Some ttl)) d"
  shows "dual_local (Some (Some ttl)) (tpm_log_success_event ops rt py_str ttl now t kw resp d)"
proof (cases "request_target py_str kw = None \<or> total_tokens resp = None")
  case True
  then show ?thesis using assms by (auto simp: tpm_log_success_event_def split: option.split)
next
  case False
  then obtain g i n where e: "request_target py_str kw = Some (g, i)" "total_tokens resp = Some n" by auto
  obtain r d1 where c: "count_in_cache ops rt t t t (tpm_key g now) i n (Some (Some ttl)) d = (r, d1)" by fastforce
  have d1: "dual_local (Some (Some ttl)) d1" using count_in_cache_invar [OF assms] c by (metis snd_conv)
  show ?thesis
    using d1 count_in_cache_invar [OF d1] by (cases r) (simp_all add: tpm_log_success_event_def e c)
qed

lemma used_dual_local: "dual_local (Some (Some 60)) used_dual"
  by (rule tpm_log_invar) (simp add: mem_dual_facts)

text \<open>
  The comparison with the limit of requests admits one request fewer than the limit, unless the
  deployment has not been used in the minute.
\<close>

lemma rpm_limit_one_short:
  assumes "map_of r (dep_id m) = Some k" "top_rpm m = Some (of_int (k + 1))"
  shows "\<not> eligible c r n m"
  using assms by (simp add: eligible_def under_limit_def)

end
