(* ===== verification/Masker.thy ===== *)
theory Masker
  imports PyText
begin

text \<open>
  \<^verbatim>\<open>litellm_core_utils/sensitive_data_masker.py\<close>: masking of secrets in configuration data and
  in exception texts. \<^verbatim>\<open>str()\<close> of a value that is no string, number or list is a parameter;
  objects with a \<^verbatim>\<open>__dict__\<close> are not values of the model. The theory shows what a masked value
  reveals and that the masked data do not depend on the hidden part.
\<close>

record masker =
  sensitive_patterns :: "string list"
  non_sensitive_overrides :: "string list"
  visible_prefix :: nat
  visible_suffix :: nat
  mask_char :: string

definition DEFAULT_MAX_RECURSE_DEPTH_SENSITIVE_DATA_MASKER :: int where
  "DEFAULT_MAX_RECURSE_DEPTH_SENSITIVE_DATA_MASKER = 10"

definition masker_init :: "string list option \<Rightarrow> string list option \<Rightarrow> nat \<Rightarrow> nat \<Rightarrow> string \<Rightarrow> masker" where
  "masker_init patterns overrides vp vs mc =
     \<lparr>sensitive_patterns = (case patterns of
         Some (p # ps) \<Rightarrow> p # ps
       | _ \<Rightarrow> [''password'', ''secret'', ''key'', ''token'', ''auth'', ''authorization'', ''credential'',
               ''access'', ''private'', ''certificate'', ''fingerprint'', ''tenancy'']),
      non_sensitive_overrides = (case overrides of Some (p # ps) \<Rightarrow> p # ps | _ \<Rightarrow> [''cost'']),
      visible_prefix = vp, visible_suffix = vs, mask_char = mc\<rparr>"

text \<open>\<^verbatim>\<open>_mask_value\<close> on a string, by character.\<close>

definition mask_value :: "masker \<Rightarrow> string \<Rightarrow> string" where
  "mask_value m value =
     (if value = [] \<or> py_len value < visible_prefix m + visible_suffix m then value
      else let masked_length = py_len value - (visible_prefix m + visible_suffix m);
               shown = concat (take (visible_prefix m) (py_chars value));
               mask = concat (replicate masked_length (mask_char m)) in
        if visible_suffix m = 0 then shown @ mask
        else shown @ mask @ concat (drop (py_len value - visible_suffix m) (py_chars value)))"

definition is_sensitive_key :: "masker \<Rightarrow> string list option \<Rightarrow> string \<Rightarrow> bool" where
  "is_sensitive_key m excluded_keys key =
     (if (case excluded_keys of None \<Rightarrow> False | Some ks \<Rightarrow> key \<in> set ks) then False
      else let key_segments = split_on CHR ''_''
                 (map (\<lambda>c. if c = CHR ''-'' then CHR ''_'' else c) (lower key)) in
        if list_ex (\<lambda>x. x \<in> set key_segments) (non_sensitive_overrides m) then False
        else list_ex (\<lambda>x. x \<in> set key_segments) (sensitive_patterns m))"

text \<open>A value that is kept as it is; any other is replaced by its \<^verbatim>\<open>str\<close>.\<close>

definition plain_value :: "(pyval \<Rightarrow> string) \<Rightarrow> pyval \<Rightarrow> pyval" where
  "plain_value py_str v = (if is_primitive v \<or> is_list v then v else PStr (py_str v))"

text \<open>
  One entry of the loop of \<^verbatim>\<open>mask_dict\<close> or \<^verbatim>\<open>_mask_sequence\<close> (\<open>seq\<close>) that runs at
  \<open>depth\<close>, with the recursive call of either inlined.
\<close>

lemma size_dict_entry: "(k, w) \<in> set d \<Longrightarrow> size w < size (PDict d)"
  using size_list_estimation' [of "(k, w)" d "size w" "size_prod (\<lambda>_. 0) size"] by simp

lemma size_list_entry: "x \<in> set xs \<Longrightarrow> size x < size (PList xs)"
  using size_list_estimation' [of x xs "size x" size] by simp

function (sequential) mask_val ::
  "masker \<Rightarrow> (pyval \<Rightarrow> string) \<Rightarrow> string list option \<Rightarrow> int \<Rightarrow> int \<Rightarrow> bool \<Rightarrow> bool \<Rightarrow> pyval \<Rightarrow> pyval" where
  "mask_val m st ex mx depth seq sens (PDict d) =
     PDict (if depth + 1 \<ge> mx then d
            else map (\<lambda>(k, w). (k, mask_val m st ex mx (depth + 1) False (is_sensitive_key m ex k) w)) d)"
| "mask_val m st ex mx depth seq sens (PList xs) =
     PList (if depth + 1 \<ge> mx then xs else map (mask_val m st ex mx (depth + 1) True sens) xs)"
| "mask_val m st ex mx depth seq sens v =
     (if sens \<and> (\<not> seq \<or> is_str v)
      then PStr (mask_value m (case v of PNone \<Rightarrow> [] | PStr s \<Rightarrow> s | _ \<Rightarrow> st v))
      else plain_value st v)"
  by pat_completeness auto
termination
  by (relation "measure (\<lambda>(m, st, ex, mx, depth, seq, sens, v). size v)")
    (auto dest: size_dict_entry size_list_entry)

definition mask_sequence ::
  "masker \<Rightarrow> (pyval \<Rightarrow> string) \<Rightarrow> string list option \<Rightarrow> int \<Rightarrow> int \<Rightarrow> bool \<Rightarrow> pyval list \<Rightarrow> pyval list" where
  "mask_sequence m st ex depth mx sens values =
     (if depth \<ge> mx then values else map (mask_val m st ex mx depth True sens) values)"

definition mask_dict ::
  "masker \<Rightarrow> (pyval \<Rightarrow> string) \<Rightarrow> string list option \<Rightarrow> int \<Rightarrow> int \<Rightarrow> (string \<times> pyval) list \<Rightarrow>
   (string \<times> pyval) list" where
  "mask_dict m st ex depth mx data =
     (if depth \<ge> mx then data
      else map (\<lambda>(k, v). (k, mask_val m st ex mx depth False (is_sensitive_key m ex k) v)) data)"

text \<open>The recursion as the code has it.\<close>

lemma mask_val_calls:
  "mask_val m st ex mx depth seq sens (PDict d) = PDict (mask_dict m st ex (depth + 1) mx d)"
  "mask_val m st ex mx depth seq sens (PList xs) = PList (mask_sequence m st ex (depth + 1) mx sens xs)"
  by (simp_all add: mask_dict_def mask_sequence_def)

subsection \<open>What a mask reveals\<close>

text \<open>Two texts that the mask should not tell apart: equal in length, shown prefix and suffix.\<close>

definition same_shown :: "masker \<Rightarrow> string \<Rightarrow> string \<Rightarrow> bool" where
  "same_shown m s t \<longleftrightarrow> py_len s = py_len t \<and> visible_prefix m + visible_suffix m \<le> py_len s \<and>
     take (visible_prefix m) (py_chars s) = take (visible_prefix m) (py_chars t) \<and>
     drop (py_len s - visible_suffix m) (py_chars s) = drop (py_len t - visible_suffix m) (py_chars t)"

lemma py_len_0 [simp]: "py_len s = 0 \<longleftrightarrow> s = []"
  by (metis concat.simps(1) concat_py_chars length_0_conv list.simps(4) py_chars_def py_len_def)

lemma mask_value_same: "same_shown m s t \<Longrightarrow> mask_value m s = mask_value m t"
  using py_len_0 [of s] py_len_0 [of t] by (auto simp: same_shown_def mask_value_def Let_def)

text \<open>Data that differ only in hidden text below sensitive keys, as far as the recursion reaches.\<close>

inductive same_public :: "masker \<Rightarrow> string list option \<Rightarrow> int \<Rightarrow> int \<Rightarrow> bool \<Rightarrow> pyval \<Rightarrow> pyval \<Rightarrow> bool"
  for m ex mx where
  pub_refl: "same_public m ex mx depth sens v v"
| pub_str: "same_shown m s t \<Longrightarrow> same_public m ex mx depth True (PStr s) (PStr t)"
| pub_list: "depth + 1 < mx \<Longrightarrow> list_all2 (same_public m ex mx (depth + 1) sens) xs ys \<Longrightarrow>
    same_public m ex mx depth sens (PList xs) (PList ys)"
| pub_dict: "depth + 1 < mx \<Longrightarrow>
    list_all2 (\<lambda>p q. fst p = fst q \<and> same_public m ex mx (depth + 1) (is_sensitive_key m ex (fst p)) (snd p) (snd q)) d e \<Longrightarrow>
    same_public m ex mx depth sens (PDict d) (PDict e)"
monos list_all2_mono

lemma mask_val_same:
  "same_public m ex mx depth sens v w \<Longrightarrow>
   mask_val m st ex mx depth seq sens v = mask_val m st ex mx depth seq sens w"
proof (induction arbitrary: seq rule: same_public.induct)
  case (pub_str s t depth)
  then show ?case using mask_value_same by simp
next
  case (pub_list depth sens xs ys)
  then show ?case by (auto simp: list_all2_conv_all_nth intro!: nth_equalityI)
next
  case (pub_dict depth d e sens)
  then show ?case by (auto simp: case_prod_beta intro!: map_eq_all2 elim!: list_all2_mono)
qed simp

subsection \<open>Properties\<close>

text \<open>
  Property C31. Masking hides what it should: two configurations that differ only in text below
  sensitive keys, with the same length and the same shown characters, have the same masked form, at
  every nesting the depth limit reaches.
\<close>

theorem mask_dict_noninterference:
  assumes "depth < mx"
    "list_all2 (\<lambda>p q. fst p = fst q \<and> same_public m ex mx depth (is_sensitive_key m ex (fst p)) (snd p) (snd q)) d e"
  shows "mask_dict m st ex depth mx d = mask_dict m st ex depth mx e"
  using assms
  by (auto simp: mask_dict_def case_prod_beta intro!: map_eq_all2 mask_val_same elim!: list_all2_mono)

theorem mask_dict_noninterference_witness:
  "mask_dict (masker_init None None 4 4 ''*'') (\<lambda>_. []) None 0 10
      [(''api_key'', PStr ''sk-1234567890abcd''), (''n'', PDict [(''x-token'', PList [PStr ''abcdefghijkl''])])] =
   mask_dict (masker_init None None 4 4 ''*'') (\<lambda>_. []) None 0 10
      [(''api_key'', PStr ''sk-1999999999abcd''), (''n'', PDict [(''x-token'', PList [PStr ''abcdXXXXijkl''])])]"
proof (rule mask_dict_noninterference)
  let ?m = "masker_init None None 4 4 ''*''"
  have s: "same_shown ?m ''sk-1234567890abcd'' ''sk-1999999999abcd''"
    "same_shown ?m ''abcdefghijkl'' ''abcdXXXXijkl''" "is_sensitive_key ?m None ''api_key''"
    "is_sensitive_key ?m None ''x-token''" unfolding same_shown_def by code_simp+
  then show "list_all2 (\<lambda>p q. fst p = fst q \<and> same_public ?m None 10 0 (is_sensitive_key ?m None (fst p)) (snd p) (snd q))
      [(''api_key'', PStr ''sk-1234567890abcd''), (''n'', PDict [(''x-token'', PList [PStr ''abcdefghijkl''])])]
      [(''api_key'', PStr ''sk-1999999999abcd''), (''n'', PDict [(''x-token'', PList [PStr ''abcdXXXXijkl''])])]"
    by (auto intro!: pub_str pub_dict pub_list)
qed simp

text \<open>
  A value under a sensitive key that is no longer than the characters the mask shows
  is not masked at all: with the default of four and four, a secret of eight characters is printed in
  full.
\<close>

lemma short_secret_in_clear:
  assumes "py_len s \<le> visible_prefix m + visible_suffix m" "depth < mx"
  shows "mask_dict m st ex depth mx [(k, PStr s)] = [(k, PStr s)]"
proof -
  have "mask_value m s = s" if n: "py_len s = visible_prefix m + visible_suffix m"
  proof -
    have "concat (take (visible_prefix m) (py_chars s)) @ concat (drop (visible_prefix m) (py_chars s)) = s"
      by (metis append_take_drop_id concat_append concat_py_chars)
    then show ?thesis using n py_len_def [of s] by (auto simp: mask_value_def Let_def)
  qed
  then have "mask_value m s = s" using assms(1) by (cases "py_len s = visible_prefix m + visible_suffix m")
    (auto simp: mask_value_def)
  then show ?thesis using assms(2) by (simp add: mask_dict_def plain_value_def)
qed

end
