(* ===== verification/Errors.thy ===== *)
theory Errors
  imports Prelude
begin

text \<open>
  The exceptions of \<^verbatim>\<open>litellm/exceptions.py\<close> as the router tells them apart, and which HTTP status
  codes are retried. An exception without a class of its own here is \<open>BadRequestError\<close> if it is a
  subclass of it and \<open>OtherClass\<close> otherwise.
\<close>

datatype exc_class =
    AuthenticationError
  | Timeout
  | RateLimitError
  | ContentPolicyViolationError
  | ContextWindowExceededError
  | NotFoundError
  | BadRequestError
  | OtherClass

record exc =
  exc_class_of :: exc_class
  exc_str :: string

text \<open>
  \<^verbatim>\<open>isinstance(exception, c)\<close>: a content policy violation and an exceeded context window are
  bad requests.
\<close>

definition exc_isinstance :: "'a exc_scheme \<Rightarrow> exc_class \<Rightarrow> bool" where
  "exc_isinstance e c \<longleftrightarrow> exc_class_of e = c \<or>
     (exc_class_of e \<in> {ContentPolicyViolationError, ContextWindowExceededError} \<and> c = BadRequestError)"

definition should_retry :: "int \<Rightarrow> bool" where
  "should_retry status_code =
     (if status_code = 408 then True
      else if status_code = 409 then True
      else if status_code = 429 then True
      else 500 \<le> status_code)"

end
