(* ===== verification/Cooldown.thy ===== *)
theory Cooldown
  imports DualCache Masker Errors
begin

text \<open>
  \<^verbatim>\<open>router_utils/cooldown_cache.py\<close>, \<^verbatim>\<open>router_utils/cooldown_handlers.py\<close> and
  \<^verbatim>\<open>router_callbacks/track_deployment_metrics.py\<close>: when a failing deployment is taken out of
  rotation and for how long. The record \<open>crouter\<close> holds what these functions read and write of the
  router; the model group of a deployment and the list of model ids are what the router's own
  lookups return. The event callback that is started after a cooldown changes none of this state.
\<close>

subsection \<open>State\<close>

datatype status = SInt int | SStr string

record AllowedFailsPolicy =
  BadRequestErrorAllowedFails :: "int option"
  AuthenticationErrorAllowedFails :: "int option"
  TimeoutErrorAllowedFails :: "int option"
  RateLimitErrorAllowedFails :: "int option"
  ContentPolicyViolationErrorAllowedFails :: "int option"

record 'r crouter =
  router_cache :: "'r dual" \<comment> \<open>also the cache of the cooldown cache\<close>
  failed_calls :: imc
  allowed_fails :: int
  allowed_fails_policy :: "AllowedFailsPolicy option"
  cooldown_time :: rat
  disable_cooldowns :: bool
  provider_default_deployment_ids :: "string list"
  model_group_of :: "string \<Rightarrow> string list option"
  model_ids :: "string list"

definition DEFAULT_COOLDOWN_TIME_SECONDS :: rat where
  "DEFAULT_COOLDOWN_TIME_SECONDS = 5"

definition DEFAULT_FAILURE_THRESHOLD_PERCENT :: rat where
  "DEFAULT_FAILURE_THRESHOLD_PERCENT = 1 / 2"

definition DEFAULT_FAILURE_THRESHOLD_MINIMUM_REQUESTS :: rat where
  "DEFAULT_FAILURE_THRESHOLD_MINIMUM_REQUESTS = 5"

definition SINGLE_DEPLOYMENT_TRAFFIC_FAILURE_THRESHOLD :: rat where
  "SINGLE_DEPLOYMENT_TRAFFIC_FAILURE_THRESHOLD = 1000"

definition litellm_allowed_fails :: int where
  "litellm_allowed_fails = 3"

definition crouter_init ::
  "'r dual \<Rightarrow> int option \<Rightarrow> AllowedFailsPolicy option \<Rightarrow> rat option \<Rightarrow> bool \<Rightarrow> (string \<Rightarrow> string list option) \<Rightarrow>
   string list \<Rightarrow> 'r crouter" where
  "crouter_init d fails policy ct dis groups ids =
     \<lparr>router_cache = d, failed_calls = imc_init None None None,
      allowed_fails = (case fails of Some n \<Rightarrow> n | None \<Rightarrow> litellm_allowed_fails),
      allowed_fails_policy = policy,
      cooldown_time = or_num ct DEFAULT_COOLDOWN_TIME_SECONDS,
      disable_cooldowns = dis, provider_default_deployment_ids = [],
      model_group_of = groups, model_ids = ids\<rparr>"

subsection \<open>Cooldown cache\<close>

definition get_cooldown_cache_key :: "string \<Rightarrow> string" where
  "get_cooldown_cache_key model_id = ''deployment:'' @ model_id @ '':cooldown''"

definition exception_masker :: masker where
  "exception_masker = masker_init None None 50 0 ''*''"

definition common_add_cooldown_logic :: "time \<Rightarrow> string \<Rightarrow> exc \<Rightarrow> int \<Rightarrow> rat \<Rightarrow> string \<times> pyval" where
  "common_add_cooldown_logic now model_id e st ct =
     (get_cooldown_cache_key model_id,
      PDict [(''exception_received'', PStr (mask_value exception_masker (exc_str e))),
             (''status_code'', PStr (str_of_int st)),
             (''timestamp'', PFloat now),
             (''cooldown_time'', PFloat ct)])"

definition add_deployment_to_cooldown ::
  "'r redis_ops \<Rightarrow> py_runtime \<Rightarrow> time \<Rightarrow> string \<Rightarrow> exc \<Rightarrow> int \<Rightarrow> rat option \<Rightarrow> 'r crouter \<Rightarrow> 'r crouter" where
  "add_deployment_to_cooldown ops rt now model_id e st ct r =
     (let t = (case ct of None \<Rightarrow> cooldown_time r | Some x \<Rightarrow> x) in
      case common_add_cooldown_logic now model_id e st t of
        (key, data) \<Rightarrow>
        r\<lparr>router_cache := dual_set_cache ops rt now key data False (Some (Some t)) (router_cache r)\<rparr>)"

definition cooldown_entries :: "string list \<Rightarrow> pyval list \<Rightarrow> (string \<times> pyval) list" where
  "cooldown_entries ids results = filter (\<lambda>(i, v). truthy v \<and> is_dict v) (zip ids results)"

definition async_get_active_cooldowns ::
  "'r redis_ops \<Rightarrow> py_runtime \<Rightarrow> time \<Rightarrow> time \<Rightarrow> string list \<Rightarrow> 'r crouter \<Rightarrow> (string \<times> pyval) list \<times> 'r crouter" where
  "async_get_active_cooldowns ops rt now now' ids r =
     (case dual_batch_get_cache ops rt now now' (map get_cooldown_cache_key ids) False None (router_cache r) of
        (results, d) \<Rightarrow>
        (case results of
           None \<Rightarrow> []
         | Some vs \<Rightarrow> if list_all (\<lambda>v. v = PNone) vs then [] else cooldown_entries ids vs,
         r\<lparr>router_cache := d\<rparr>))"

definition get_active_cooldowns ::
  "'r redis_ops \<Rightarrow> py_runtime \<Rightarrow> time \<Rightarrow> time \<Rightarrow> string list \<Rightarrow> 'r crouter \<Rightarrow> (string \<times> pyval) list \<times> 'r crouter" where
  "get_active_cooldowns ops rt now now' ids r =
     (case dual_batch_get_cache ops rt now now' (map get_cooldown_cache_key ids) False None (router_cache r) of
        (results, d) \<Rightarrow>
        (cooldown_entries ids (case results of None \<Rightarrow> [] | Some vs \<Rightarrow> vs), r\<lparr>router_cache := d\<rparr>))"

text \<open>
  The loop of \<^verbatim>\<open>get_min_cooldown\<close>: a missing \<^verbatim>\<open>cooldown_time\<close> is a \<^verbatim>\<open>KeyError\<close>, one
  that is no number cannot be compared.
\<close>

fun min_cooldown_loop :: "(string \<times> pyval) list \<Rightarrow> rat option \<Rightarrow> rat option pyres" where
  "min_cooldown_loop [] m = Inr m"
| "min_cooldown_loop ((i, v) # rest) m =
     (case v of
        PDict d \<Rightarrow>
          (case map_of d ''cooldown_time'' of
             None \<Rightarrow> Inl KeyError
           | Some w \<Rightarrow>
             (case as_rat w of
                None \<Rightarrow> Inl TypeError
              | Some x \<Rightarrow>
                min_cooldown_loop rest (case m of None \<Rightarrow> Some x | Some y \<Rightarrow> if x < y then Some x else m)))
      | _ \<Rightarrow> min_cooldown_loop rest m)"

definition get_min_cooldown ::
  "'r redis_ops \<Rightarrow> py_runtime \<Rightarrow> time \<Rightarrow> time \<Rightarrow> string list \<Rightarrow> 'r crouter \<Rightarrow> rat pyres \<times> 'r crouter" where
  "get_min_cooldown ops rt now now' ids r =
     (case get_active_cooldowns ops rt now now' ids r of
        (entries, r1) \<Rightarrow>
        (case min_cooldown_loop entries None of
           Inl e \<Rightarrow> (Inl e, r1)
         | Inr m \<Rightarrow> (Inr (or_num m (cooldown_time r)), r1)))"

subsection \<open>Requests per minute\<close>

definition increment_deployment_successes ::
  "'r redis_ops \<Rightarrow> py_runtime \<Rightarrow> time \<Rightarrow> string \<Rightarrow> 'r crouter \<Rightarrow> string pyres \<times> 'r crouter" where
  "increment_deployment_successes ops rt now i r =
     (case dual_increment_cache ops rt now (i @ '':successes'') (PInt 1) True (Some (Some 60)) (router_cache r) of
        (Inl e, d) \<Rightarrow> (Inl e, r\<lparr>router_cache := d\<rparr>)
      | (Inr _, d) \<Rightarrow> (Inr (i @ '':successes''), r\<lparr>router_cache := d\<rparr>))"

definition increment_deployment_failures ::
  "'r redis_ops \<Rightarrow> py_runtime \<Rightarrow> time \<Rightarrow> string \<Rightarrow> 'r crouter \<Rightarrow> unit pyres \<times> 'r crouter" where
  "increment_deployment_failures ops rt now i r =
     (case dual_increment_cache ops rt now (i @ '':fails'') (PInt 1) True (Some (Some 60)) (router_cache r) of
        (Inl e, d) \<Rightarrow> (Inl e, r\<lparr>router_cache := d\<rparr>)
      | (Inr _, d) \<Rightarrow> (Inr (), r\<lparr>router_cache := d\<rparr>))"

definition get_deployment_successes ::
  "'r redis_ops \<Rightarrow> py_runtime \<Rightarrow> time \<Rightarrow> string \<Rightarrow> 'r crouter \<Rightarrow> pyval \<times> 'r crouter" where
  "get_deployment_successes ops rt now i r =
     (case dual_get_cache ops rt now now (i @ '':successes'') True None (router_cache r) of
        (v, d) \<Rightarrow> (py_or v (PInt 0), r\<lparr>router_cache := d\<rparr>))"

definition get_deployment_failures ::
  "'r redis_ops \<Rightarrow> py_runtime \<Rightarrow> time \<Rightarrow> string \<Rightarrow> 'r crouter \<Rightarrow> pyval \<times> 'r crouter" where
  "get_deployment_failures ops rt now i r =
     (case dual_get_cache ops rt now now (i @ '':fails'') True None (router_cache r) of
        (v, d) \<Rightarrow> (py_or v (PInt 0), r\<lparr>router_cache := d\<rparr>))"

subsection \<open>Decision\<close>

definition cast_exception_status_to_int :: "status \<Rightarrow> int" where
  "cast_exception_status_to_int st =
     (case st of SInt i \<Rightarrow> i | SStr s \<Rightarrow> (case int_of_str s of Some i \<Rightarrow> i | None \<Rightarrow> 500))"

definition is_cooldown_required :: "status \<Rightarrow> string option \<Rightarrow> bool" where
  "is_cooldown_required st exception_str =
     (if (case exception_str of None \<Rightarrow> False | Some s \<Rightarrow> str_in ''APIConnectionError'' s) then False
      else if st = SStr [] then False
      else case (case st of SInt i \<Rightarrow> Some i | SStr s \<Rightarrow> int_of_str s) of
        None \<Rightarrow> True
      | Some i \<Rightarrow>
        if 400 \<le> i \<and> i < 500 then i = 429 \<or> i = 401 \<or> i = 408 \<or> i = 404 else True)"

text \<open>\<^verbatim>\<open>math.isclose(a=t, b=0.0, abs_tol=1e-9)\<close> with the default relative tolerance.\<close>

definition is_close_to_zero :: "rat \<Rightarrow> bool" where
  "is_close_to_zero t \<longleftrightarrow> \<bar>t\<bar> \<le> max (\<bar>t\<bar> / 1000000000) (1 / 1000000000)"

definition should_run_cooldown_logic :: "'r crouter \<Rightarrow> string option \<Rightarrow> status \<Rightarrow> exc \<Rightarrow> rat option \<Rightarrow> bool" where
  "should_run_cooldown_logic r deployment st e ct =
     (case deployment of
        None \<Rightarrow> False
      | Some i \<Rightarrow>
        if model_group_of r i = None then False
        else if (case ct of None \<Rightarrow> False | Some t \<Rightarrow> is_close_to_zero t) then False
        else if disable_cooldowns r then False
        else if \<not> is_cooldown_required st (Some (exc_str e)) then False
        else if i \<in> set (provider_default_deployment_ids r) then False
        else True)"

definition is_allowed_fails_set_on_router :: "'r crouter \<Rightarrow> bool" where
  "is_allowed_fails_set_on_router r \<longleftrightarrow> allowed_fails r \<noteq> litellm_allowed_fails"

definition get_allowed_fails_from_policy :: "exc \<Rightarrow> 'r crouter \<Rightarrow> int option" where
  "get_allowed_fails_from_policy e r =
     (case allowed_fails_policy r of
        None \<Rightarrow> None
      | Some p \<Rightarrow>
        if exc_isinstance e AuthenticationError \<and> AuthenticationErrorAllowedFails p \<noteq> None
        then AuthenticationErrorAllowedFails p
        else if exc_isinstance e Timeout \<and> TimeoutErrorAllowedFails p \<noteq> None
        then TimeoutErrorAllowedFails p
        else if exc_isinstance e RateLimitError \<and> RateLimitErrorAllowedFails p \<noteq> None
        then RateLimitErrorAllowedFails p
        else if exc_isinstance e ContentPolicyViolationError \<and> ContentPolicyViolationErrorAllowedFails p \<noteq> None
        then ContentPolicyViolationErrorAllowedFails p
        else if exc_isinstance e BadRequestError \<and> BadRequestErrorAllowedFails p \<noteq> None
        then BadRequestErrorAllowedFails p
        else None)"

text \<open>
  The count of failures is an integer that only this function writes; what is not a number is
  rejected by the addition, as in Python.
\<close>

definition should_cooldown_based_on_allowed_fails_policy ::
  "py_runtime \<Rightarrow> time \<Rightarrow> string \<Rightarrow> exc \<Rightarrow> 'r crouter \<Rightarrow> bool pyres \<times> 'r crouter" where
  "should_cooldown_based_on_allowed_fails_policy rt now deployment e r =
     (let allowed = or_num (get_allowed_fails_from_policy e r) (allowed_fails r);
          ct = or_num (Some (cooldown_time r)) DEFAULT_COOLDOWN_TIME_SECONDS in
      case imc_get_cache now deployment (failed_calls r) of
        (v, c1) \<Rightarrow>
        (case py_add (py_or v (PInt 0)) (PInt 1) of
           Inl x \<Rightarrow> (Inl x, r\<lparr>failed_calls := c1\<rparr>)
         | Inr updated \<Rightarrow>
           (case as_rat updated of
              None \<Rightarrow> (Inl TypeError, r\<lparr>failed_calls := c1\<rparr>)
            | Some u \<Rightarrow>
              if of_int allowed < u then (Inr True, r\<lparr>failed_calls := c1\<rparr>)
              else (case imc_set_cache rt now deployment updated (Some ct) c1 of
                 (Inl x, c2) \<Rightarrow> (Inl x, r\<lparr>failed_calls := c2\<rparr>)
               | (Inr _, c2) \<Rightarrow> (Inr False, r\<lparr>failed_calls := c2\<rparr>)))))"

definition should_cooldown_deployment ::
  "'r redis_ops \<Rightarrow> py_runtime \<Rightarrow> time \<Rightarrow> string \<Rightarrow> status \<Rightarrow> exc \<Rightarrow> 'r crouter \<Rightarrow> bool pyres \<times> 'r crouter" where
  "should_cooldown_deployment ops rt now deployment st e r =
     (let single = (case model_group_of r deployment of None \<Rightarrow> False | Some g \<Rightarrow> length g = 1) in
      if allowed_fails_policy r = None \<and> \<not> is_allowed_fails_set_on_router r then
        (case get_deployment_successes ops rt now deployment r of
           (s, r1) \<Rightarrow>
           (case get_deployment_failures ops rt now deployment r1 of
              (f, r2) \<Rightarrow>
              (case (as_rat s, as_rat f) of
                 (Some s', Some f') \<Rightarrow>
                   let total = s' + f';
                       percent_fails = (if 0 < total then f' / total else 0);
                       i = cast_exception_status_to_int st in
                   (Inr (i = 429 \<and> \<not> single
                      \<or> percent_fails = 1 \<and> SINGLE_DEPLOYMENT_TRAFFIC_FAILURE_THRESHOLD \<le> total
                      \<or> DEFAULT_FAILURE_THRESHOLD_PERCENT < percent_fails
                         \<and> DEFAULT_FAILURE_THRESHOLD_MINIMUM_REQUESTS \<le> total \<and> \<not> single
                      \<or> \<not> should_retry i), r2)
               | _ \<Rightarrow> (Inl TypeError, r2))))
      else should_cooldown_based_on_allowed_fails_policy rt now deployment e r)"

definition set_cooldown_deployments ::
  "'r redis_ops \<Rightarrow> py_runtime \<Rightarrow> time \<Rightarrow> exc \<Rightarrow> status \<Rightarrow> string option \<Rightarrow> rat option \<Rightarrow> 'r crouter \<Rightarrow>
   bool pyres \<times> 'r crouter" where
  "set_cooldown_deployments ops rt now e st deployment ct r =
     (if \<not> should_run_cooldown_logic r deployment st e ct then (Inr False, r)
      else case deployment of
        None \<Rightarrow> (Inr False, r)
      | Some i \<Rightarrow>
        (case should_cooldown_deployment ops rt now i st e r of
           (Inr True, r1) \<Rightarrow>
             (Inr True, add_deployment_to_cooldown ops rt now i e (cast_exception_status_to_int st) ct r1)
         | res \<Rightarrow> res))"

definition async_get_cooldown_deployments ::
  "'r redis_ops \<Rightarrow> py_runtime \<Rightarrow> time \<Rightarrow> time \<Rightarrow> 'r crouter \<Rightarrow> string list \<times> 'r crouter" where
  "async_get_cooldown_deployments ops rt now now' r =
     (case async_get_active_cooldowns ops rt now now' (model_ids r) r of (es, r1) \<Rightarrow> (map fst es, r1))"

definition async_get_cooldown_deployments_with_debug_info ::
  "'r redis_ops \<Rightarrow> py_runtime \<Rightarrow> time \<Rightarrow> time \<Rightarrow> 'r crouter \<Rightarrow> (string \<times> pyval) list \<times> 'r crouter" where
  "async_get_cooldown_deployments_with_debug_info ops rt now now' r =
     async_get_active_cooldowns ops rt now now' (model_ids r) r"

definition get_cooldown_deployments ::
  "'r redis_ops \<Rightarrow> py_runtime \<Rightarrow> time \<Rightarrow> time \<Rightarrow> 'r crouter \<Rightarrow> string list \<times> 'r crouter" where
  "get_cooldown_deployments ops rt now now' r =
     (case get_active_cooldowns ops rt now now' (model_ids r) r of (es, r1) \<Rightarrow> (map fst es, r1))"

subsection \<open>Lemmas\<close>

lemma cooldown_entries_map:
  "cooldown_entries ids (map f ids) = map (\<lambda>i. (i, f i)) (filter (\<lambda>i. truthy (f i) \<and> is_dict (f i)) ids)"
  by (induction ids) (auto simp: cooldown_entries_def)

lemma dual_batch_get_local:
  "redis_cache d = None \<Longrightarrow>
   fst (dual_batch_get_cache ops rt now now' keys lo ttl d) = Some (map (\<lambda>k. imc_peek now k (in_memory_cache d)) keys)"
  by (simp add: dual_batch_get_cache_def with_mem_def imc_batch_get_cache_eq)

lemma in_cooldown_local:
  assumes "redis_cache (router_cache r) = None"
  shows "i \<in> set (fst (get_cooldown_deployments ops rt now now' r)) \<longleftrightarrow> i \<in> set (model_ids r) \<and>
    truthy (imc_peek now (get_cooldown_cache_key i) (in_memory_cache (router_cache r))) \<and>
    is_dict (imc_peek now (get_cooldown_cache_key i) (in_memory_cache (router_cache r)))"
  using dual_batch_get_local [OF assms, of ops rt now now' "map get_cooldown_cache_key (model_ids r)" False None]
  by (auto simp: get_cooldown_deployments_def get_active_cooldowns_def cooldown_entries_map comp_def image_image
      split: prod.splits)

text \<open>What the decision leaves of the caches.\<close>

definition cooldown_frame :: "'r crouter \<Rightarrow> 'r crouter \<Rightarrow> bool" where
  "cooldown_frame r r' \<longleftrightarrow>
     redis_cache (router_cache r') = redis_cache (router_cache r) \<and> model_ids r' = model_ids r \<and>
     cooldown_time r' = cooldown_time r \<and>
     (imc_inv (in_memory_cache (router_cache r)) \<longrightarrow> imc_inv (in_memory_cache (router_cache r'))) \<and>
     same_config (in_memory_cache (router_cache r)) (in_memory_cache (router_cache r')) \<and>
     (\<forall>k. imc_get_ttl k (in_memory_cache (router_cache r)) = None \<longrightarrow>
          imc_get_ttl k (in_memory_cache (router_cache r')) = None)"

lemma imc_get_frame:
  "same_config c (snd (imc_get_cache now k c))"
  "imc_get_ttl k' c = None \<Longrightarrow> imc_get_ttl k' (snd (imc_get_cache now k c)) = None"
  by (simp add: imc_get_cache_state, simp add: imc_get_cache_state imc_get_ttl_def remove_key_def)

lemma local_read_frame:
  "dual_get_cache ops rt now now' k True ttl d =
     (imc_peek now k (in_memory_cache d), d\<lparr>in_memory_cache := snd (imc_get_cache now k (in_memory_cache d))\<rparr>)"
  by (simp add: dual_get_cache_def with_mem_def imc_peek_def split: option.split)

lemma should_cooldown_frame:
  assumes "should_cooldown_deployment ops rt now i st e r = (res, r')"
  shows "cooldown_frame r r'"
proof (cases "allowed_fails_policy r = None \<and> \<not> is_allowed_fails_set_on_router r")
  case True
  let ?c = "in_memory_cache (router_cache r)"
  let ?c1 = "snd (imc_get_cache now (i @ '':successes'') ?c)"
  let ?c2 = "snd (imc_get_cache now (i @ '':fails'') ?c1)"
  have "r' = r\<lparr>router_cache := (router_cache r)\<lparr>in_memory_cache := ?c2\<rparr>\<rparr>"
    using assms True
    by (auto simp: should_cooldown_deployment_def get_deployment_successes_def get_deployment_failures_def
        local_read_frame Let_def split: option.splits)
  moreover have "same_config ?c ?c2"
    by (rule same_config_trans [OF imc_get_frame(1) imc_get_frame(1)])
  moreover have "imc_inv ?c2" if "imc_inv ?c" by (intro imc_ops_inv(3) that)
  moreover have "imc_get_ttl k ?c2 = None" if "imc_get_ttl k ?c = None" for k
    by (intro imc_get_frame(2) that)
  ultimately show ?thesis by (simp add: cooldown_frame_def)
next
  case False
  then have "router_cache r' = router_cache r \<and> model_ids r' = model_ids r \<and> cooldown_time r' = cooldown_time r"
    using assms
    by (auto simp: should_cooldown_deployment_def should_cooldown_based_on_allowed_fails_policy_def Let_def
        split: prod.splits sum.splits option.splits if_splits)
  then show ?thesis by (simp add: cooldown_frame_def)
qed

text \<open>Failures of one deployment at a list of times, with the answers of the allowed-fails rule.\<close>

fun fail_answers :: "py_runtime \<Rightarrow> time list \<Rightarrow> string \<Rightarrow> exc \<Rightarrow> 'r crouter \<Rightarrow> bool pyres list" where
  "fail_answers rt [] i e r = []"
| "fail_answers rt (t # ts) i e r =
     (case should_cooldown_based_on_allowed_fails_policy rt t i e r of
        (b, r1) \<Rightarrow> b # fail_answers rt ts i e r1)"

definition counts_fails :: "string \<Rightarrow> int \<Rightarrow> time \<Rightarrow> imc \<Rightarrow> bool" where
  "counts_fails i j T c \<longleftrightarrow> int (length (cache_dict c)) < max_size_in_memory c \<and>
     map_of (cache_dict c) i = Some (PInt j) \<and> map_of (ttl_dict c) i = Some T"

lemma int_fits: "str_len rt (PInt j) \<noteq> None \<Longrightarrow> sizeof rt (PInt j) \<le> 524288 \<Longrightarrow> max_size_per_item c = 512 \<Longrightarrow>
  check_value_size rt c (PInt j)"
  by (auto simp: check_value_size_def divide_le_eq)

lemma fail_step:
  assumes "counts_fails i j T (failed_calls r)" "t \<le> T" "0 < j" "max_size_per_item (failed_calls r) = 512"
    and "str_len rt (PInt (j + 1)) \<noteq> None" "sizeof rt (PInt (j + 1)) \<le> 524288"
    and "or_num (get_allowed_fails_from_policy e r) (allowed_fails r) = n"
  shows "if j < n
    then \<exists>c. should_cooldown_based_on_allowed_fails_policy rt t i e r = (Inr False, r\<lparr>failed_calls := c\<rparr>) \<and>
      counts_fails i (j + 1) T c \<and> max_size_per_item c = 512
    else fst (should_cooldown_based_on_allowed_fails_policy rt t i e r) = Inr True"
proof -
  let ?c = "failed_calls r"
  let ?ct = "or_num (Some (cooldown_time r)) DEFAULT_COOLDOWN_TIME_SECONDS"
  have get: "imc_get_cache t i ?c = (PInt j, ?c)"
    using assms(1,2)
    by (simp add: counts_fails_def imc_get_cache_def evict_element_if_expired_def is_key_expired_def json_view_def)
  have or: "py_or (PInt j) (PInt 0) = PInt j" using assms(3) by (simp add: py_or_def)
  have fits: "check_value_size rt ?c (PInt (j + 1))" using int_fits assms(4-6) by blast
  have set_eq: "imc_set_cache rt t i (PInt (j + 1)) (Some ?ct) ?c =
      (Inr (), ?c\<lparr>cache_dict := AList.update i (PInt (j + 1)) (cache_dict ?c)\<rparr>)"
    using assms(1,2) fits
    by (auto simp: imc_set_cache_eq make_room_def imc_store_def Let_def counts_fails_def allow_ttl_override_def)
  have len: "length (AList.update i (PInt (j + 1)) (cache_dict ?c)) = length (cache_dict ?c)"
    using assms(1) by (auto simp: counts_fails_def length_update dest: map_of_Some_key)
  have "(rat_of_int n < rat_of_int (j + 1)) = (\<not> j < n)" by (simp only: of_int_less_iff) auto
  then show ?thesis
    using assms(1,4,7) set_eq len
    by (auto simp: should_cooldown_based_on_allowed_fails_policy_def Let_def get or counts_fails_def)
qed

lemma policy_failed_calls [simp]:
  "get_allowed_fails_from_policy e (r\<lparr>failed_calls := c\<rparr>) = get_allowed_fails_from_policy e r"
  by (simp add: get_allowed_fails_from_policy_def)

lemma fail_answers_run:
  assumes "counts_fails i j T (failed_calls r)" "0 < j" "j + int (length ts) = n + 1" "ts \<noteq> []" "\<forall>t \<in> set ts. t \<le> T"
    "max_size_per_item (failed_calls r) = 512"
    and "\<forall>j. str_len rt (PInt j) \<noteq> None \<and> sizeof rt (PInt j) \<le> 524288"
    and "or_num (get_allowed_fails_from_policy e r) (allowed_fails r) = n"
  shows "fail_answers rt ts i e r = replicate (nat (n - j)) (Inr False) @ [Inr True]"
  using assms
proof (induction ts arbitrary: j r)
  case (Cons t ts)
  note st = fail_step [OF Cons.prems(1) _ Cons.prems(2,6) _ _ Cons.prems(8), of t rt]
  show ?case
  proof (cases "ts = []")
    case True
    then show ?thesis using Cons.prems st by (auto split: prod.split)
  next
    case False
    then have j: "j < n" using Cons.prems(3) by (cases ts) auto
    then obtain c where c: "should_cooldown_based_on_allowed_fails_policy rt t i e r = (Inr False, r\<lparr>failed_calls := c\<rparr>)"
      "counts_fails i (j + 1) T c" "max_size_per_item c = 512"
      using st Cons.prems(5,7) by auto
    have "fail_answers rt ts i e (r\<lparr>failed_calls := c\<rparr>) = replicate (nat (n - (j + 1))) (Inr False) @ [Inr True]"
      by (rule Cons.IH) (use Cons.prems False c in auto)
    moreover have "nat (n - j) = Suc (nat (n - (j + 1)))" using j by simp
    ultimately show ?thesis using c(1) by simp
  qed
qed simp

subsection \<open>Properties\<close>

abbreviation exc0 :: exc where
  "exc0 \<equiv> \<lparr>exc_class_of = RateLimitError, exc_str = ''rate limited''\<rparr>"

abbreviation crouter0 :: "unit crouter" where
  "crouter0 \<equiv> crouter_init (dual_init no_settings None None None None None 1000) None None (Some 30) False
     (\<lambda>i. if i = ''d1'' then Some [''d1''] else if i = ''d2'' then Some [''d2'', ''d3''] else None) [''d1'', ''d2'', ''d3'']"

abbreviation no_redis :: "unit redis_ops" where
  "no_redis \<equiv> \<lparr>r_set = (\<lambda>_ _ _ r. (Inr (), r)), r_get = (\<lambda>_ r. (Inr PNone, r)),
     r_batch_get = (\<lambda>_ r. (Inr None, r)), r_set_pipeline = (\<lambda>_ _ r. (Inr (), r)),
     r_increment = (\<lambda>_ v _ r. (Inr v, r)), r_async_increment = (\<lambda>_ v _ r. (Inr v, r)),
     r_increment_pipeline = (\<lambda>_ r. (Inr None, r)), r_sadd = (\<lambda>_ _ _ r. (Inr (), r)),
     r_flush = (\<lambda>r. (Inr (), r)), r_delete = (\<lambda>_ r. (Inr (), r)), r_get_ttl = (\<lambda>_ r. (Inr None, r))\<rparr>"

text \<open>The entry that \<^verbatim>\<open>_set_cooldown_deployments\<close> leaves in the cache.\<close>

lemma cooldown_entry:
  assumes "set_cooldown_deployments ops rt now e st (Some i) ct r = (Inr True, r')"
    and "redis_cache (router_cache r) = None" "imc_inv (in_memory_cache (router_cache r))"
    "0 < max_size_in_memory (in_memory_cache (router_cache r))"
    and "imc_get_ttl (get_cooldown_cache_key i) (in_memory_cache (router_cache r)) = None"
    and "\<forall>d. check_value_size rt (in_memory_cache (router_cache r)) (PDict d)"
    and "t = (case ct of None \<Rightarrow> cooldown_time r | Some x \<Rightarrow> x)"
  shows "redis_cache (router_cache r') = None \<and> model_ids r' = model_ids r \<and>
    (\<exists>v. truthy v \<and> is_dict v \<and>
      (\<forall>now'. imc_peek now' (get_cooldown_cache_key i) (in_memory_cache (router_cache r')) = (if now' \<le> now + t then v else PNone)))"
proof -
  let ?k = "get_cooldown_cache_key i"
  obtain r1 where r1: "should_cooldown_deployment ops rt now i st e r = (Inr True, r1)"
    "r' = add_deployment_to_cooldown ops rt now i e (cast_exception_status_to_int st) ct r1"
    using assms(1) by (auto simp: set_cooldown_deployments_def split: if_splits prod.splits sum.splits bool.splits)
  have fr: "cooldown_frame r r1" using should_cooldown_frame [OF r1(1)] .
  let ?c1 = "in_memory_cache (router_cache r1)"
  let ?v = "snd (common_add_cooldown_logic now i e (cast_exception_status_to_int st) t)"
  have sc: "same_config (in_memory_cache (router_cache r)) ?c1" using fr by (simp add: cooldown_frame_def)
  have c1: "imc_inv ?c1" "0 < max_size_in_memory ?c1" "check_value_size rt ?c1 ?v" "imc_get_ttl ?k ?c1 = None"
    "redis_cache (router_cache r1) = None" "model_ids r1 = model_ids r" "cooldown_time r1 = cooldown_time r"
    using fr assms(2-6)
    by (simp_all add: cooldown_frame_def check_value_size_cong [OF sc] common_add_cooldown_logic_def)
      (simp add: same_config_def)
  obtain s c2 where set_eq: "imc_set_cache rt now ?k ?v (Some t) ?c1 = (s, c2)" by fastforce
  have r': "in_memory_cache (router_cache r') = c2" "redis_cache (router_cache r') = None" "model_ids r' = model_ids r"
    using set_eq c1(5-7) assms(7)
    by (auto simp: r1(2) add_deployment_to_cooldown_def common_add_cooldown_logic_def dual_set_cache_def
        with_mem_def dual_ttl_def kw_ttl_def Let_def split: option.splits sum.splits)
  obtain t' where "\<forall>n. fst (imc_get_cache n ?k c2) = (if n \<le> t' then json_view ?v else PNone)" "t' = now + t"
    using imc_write_read [OF c1(1-3) set_eq] c1(4) by auto
  then have "\<forall>now'. imc_peek now' ?k c2 = (if now' \<le> now + t then ?v else PNone)"
    by (simp add: imc_peek_def common_add_cooldown_logic_def json_view_def)
  then show ?thesis using r' by (intro conjI exI [of _ ?v]) (simp_all add: common_add_cooldown_logic_def)
qed

text \<open>
  A deployment that \<^verbatim>\<open>_set_cooldown_deployments\<close> puts in cooldown is in the list
  of cooling deployments until exactly its cooldown time has passed and not after, when it was not
  cooling before and the cache is local: the dynamic cooldown time if one is given, else the router's.
\<close>

lemma cooldown_lasts_its_time:
  assumes "set_cooldown_deployments ops rt now e st (Some i) ct r = (Inr True, r')" "i \<in> set (model_ids r)"
    and "redis_cache (router_cache r) = None" "imc_inv (in_memory_cache (router_cache r))"
    "0 < max_size_in_memory (in_memory_cache (router_cache r))"
    and "imc_get_ttl (get_cooldown_cache_key i) (in_memory_cache (router_cache r)) = None"
    and "\<forall>d. check_value_size rt (in_memory_cache (router_cache r)) (PDict d)"
    and "t = (case ct of None \<Rightarrow> cooldown_time r | Some x \<Rightarrow> x)"
  shows "i \<in> set (fst (get_cooldown_deployments ops rt now' now'' r')) \<longleftrightarrow> now' \<le> now + t"
  using cooldown_entry [OF assms(1,3-8)] in_cooldown_local [of r' i ops rt now' now''] assms(2)
  by (auto split: if_splits)

text \<open>
  Client errors of the caller never take a deployment out of rotation: a status from
  400 to 499 other than 401, 404, 408 and 429 leaves the router unchanged, whatever the policy and
  the counts, and so does an exception that names \<^verbatim>\<open>APIConnectionError\<close>.
\<close>

lemma client_errors_never_cool_down:
  assumes "(\<exists>i. (st = SInt i \<or> st = SStr s \<and> int_of_str s = Some i) \<and> 400 \<le> i \<and> i < 500 \<and> i \<notin> {401, 404, 408, 429}) \<or>
    (\<exists>a b. exc_str e = a @ ''APIConnectionError'' @ b)"
  shows "set_cooldown_deployments ops rt now e st deployment ct r = (Inr False, r)"
proof -
  have "\<not> is_cooldown_required st (Some (exc_str e))"
    using assms str_in_iff [of "''APIConnectionError''" "exc_str e"] by (auto simp: is_cooldown_required_def)
  then show ?thesis
    by (auto simp: set_cooldown_deployments_def should_run_cooldown_logic_def split: option.split)
qed

text \<open>
  The only deployment of a model group is kept in rotation under the default settings:
  for an error that is retried (408, 409, 429 and 500 upwards) it is not put in cooldown before it has
  seen 1000 requests in the minute, even if all of them failed.
\<close>

lemma single_deployment_kept:
  assumes "model_group_of r i = Some [g]" "allowed_fails_policy r = None" "allowed_fails r = litellm_allowed_fails"
    and "should_retry (cast_exception_status_to_int st)"
    and "imc_peek now (i @ '':successes'') (in_memory_cache (router_cache r)) = PInt s"
    "imc_peek now (i @ '':fails'') (in_memory_cache (router_cache r)) = PInt f" "s + f < 1000"
  shows "fst (set_cooldown_deployments ops rt now e st (Some i) ct r) = Inr False"
proof -
  let ?c = "in_memory_cache (router_cache r)"
  have "imc_peek now (i @ '':fails'') (snd (imc_get_cache now (i @ '':successes'') ?c)) = PInt f"
    using imc_peek_get [of now now "i @ '':fails''" "i @ '':successes''" ?c] assms(6) by simp
  moreover have "as_rat (py_or (PInt n) (PInt 0)) = Some (of_int n)" for n by (simp add: py_or_def)
  moreover have "rat_of_int s + rat_of_int f < 1000" using assms(7) by (metis of_int_add of_int_less_iff of_int_numeral)
  ultimately have "fst (should_cooldown_deployment ops rt now i st e r) = Inr False"
    using assms(1-5)
    by (simp add: should_cooldown_deployment_def get_deployment_successes_def get_deployment_failures_def
        local_read_frame is_allowed_fails_set_on_router_def Let_def SINGLE_DEPLOYMENT_TRAFFIC_FAILURE_THRESHOLD_def)
  then show ?thesis
    by (auto simp: set_cooldown_deployments_def split: prod.split sum.split bool.split)
qed

text \<open>
  The allowed-fails rule counts: with a limit of \<open>n\<close> failures, positive and from the
  policy or the router, a deployment with no failures on record stays up for its first \<open>n\<close> failures
  and is cooled down by the next one, when all of them come before the count expires, one cooldown
  time after the first.
\<close>

lemma allowed_fails_counted:
  assumes "failed_calls r = imc_init None None None" "0 < n" "length ts = nat n"
    and "or_num (get_allowed_fails_from_policy e r) (allowed_fails r) = n"
    and "\<forall>t \<in> set ts. t \<le> t0 + or_num (Some (cooldown_time r)) DEFAULT_COOLDOWN_TIME_SECONDS"
    and "\<forall>j. str_len rt (PInt j) \<noteq> None \<and> sizeof rt (PInt j) \<le> 524288"
  shows "fail_answers rt (t0 # ts) i e r = replicate (nat n) (Inr False) @ [Inr True]"
proof -
  let ?ct = "or_num (Some (cooldown_time r)) DEFAULT_COOLDOWN_TIME_SECONDS"
  let ?c0 = "imc_init None None None" let ?c1 = "imc_store t0 i (PInt 1) (Some ?ct) ?c0"
  have fits: "check_value_size rt ?c0 (PInt 1)"
    using assms(6) by (intro int_fits)
      (auto simp: imc_init_def or_num_def MAX_SIZE_PER_ITEM_IN_MEMORY_CACHE_IN_KB_def)
  have set1: "imc_set_cache rt t0 i (PInt 1) (Some ?ct) ?c0 = (Inr (), ?c1)"
    using fits by (simp add: imc_set_cache_eq make_room_def) (simp add: imc_init_def)
  have get0: "imc_get_cache t0 i ?c0 = (PNone, ?c0)" by (simp add: imc_get_cache_def imc_init_def)
  have first: "should_cooldown_based_on_allowed_fails_policy rt t0 i e r = (Inr False, r\<lparr>failed_calls := ?c1\<rparr>)"
    using assms(1,2,4) set1
    by (simp add: should_cooldown_based_on_allowed_fails_policy_def Let_def get0 py_or_def)
  have c1: "counts_fails i 1 (t0 + ?ct) ?c1" "max_size_per_item ?c1 = 512"
    by (simp_all add: counts_fails_def imc_store_def imc_init_def Let_def allow_ttl_override_def or_num_def
        MAX_SIZE_PER_ITEM_IN_MEMORY_CACHE_IN_KB_def)
  have "fail_answers rt ts i e (r\<lparr>failed_calls := ?c1\<rparr>) = replicate (nat (n - 1)) (Inr False) @ [Inr True]"
    using assms(2-6) c1 by (intro fail_answers_run [where T = "t0 + ?ct"]) auto
  moreover have "nat n = Suc (nat (n - 1))" using assms(2) by simp
  ultimately show ?thesis using first by simp
qed

text \<open>
  An allowed-fails policy of zero for an exception class is not honoured: the limit
  of the router applies instead, exactly as if the policy had no entry.
\<close>

lemma zero_allowed_fails_ignored:
  assumes "get_allowed_fails_from_policy e r = Some 0"
  shows "fst (should_cooldown_based_on_allowed_fails_policy rt now i e r) =
    fst (should_cooldown_based_on_allowed_fails_policy rt now i e (r\<lparr>allowed_fails_policy := None\<rparr>))"
proof -
  have "get_allowed_fails_from_policy e (r\<lparr>allowed_fails_policy := None\<rparr>) = None"
    by (simp add: get_allowed_fails_from_policy_def)
  then show ?thesis
    using assms
    by (auto simp: should_cooldown_based_on_allowed_fails_policy_def or_num_def Let_def
        split: prod.split sum.split option.split)
qed

text \<open>
  The asynchronous and the synchronous list of active cooldowns agree, with every
  behaviour of Redis.
\<close>

lemma async_cooldowns_agree:
  "async_get_active_cooldowns ops rt now now' ids r = get_active_cooldowns ops rt now now' ids r"
proof -
  have "cooldown_entries ids vs = []" if "list_all (\<lambda>v. v = PNone) vs" for vs
    using that by (auto simp: cooldown_entries_def list_all_iff filter_empty_conv dest!: set_zip_rightD)
  then show ?thesis
    by (auto simp: async_get_active_cooldowns_def get_active_cooldowns_def cooldown_entries_def
        split: prod.split option.split)
qed

end
