(* ===== verification/PreCallChecks.thy ===== *)
theory PreCallChecks
  imports RouterModels LowestTpm Cooldown
begin

text \<open>
  The filters of \<^verbatim>\<open>router.py\<close> that a list of candidates passes before a strategy picks one:
  \<^verbatim>\<open>_pre_call_checks\<close> with \<^verbatim>\<open>_get_order_filtered_deployments\<close> and \<^verbatim>\<open>is_region_allowed\<close> of
  \<^verbatim>\<open>utils.py\<close>, the filters for teams and web search of \<^verbatim>\<open>router_utils/common_utils.py\<close>, cooldown and
  pass-through, and the count of requests per deployment. The model map, the lookup of a provider and
  the token counter are parameters (\<open>model_facts\<close>). Limits and base models have the types that
  \<^verbatim>\<open>LiteLLM_Params\<close> declares: integers and strings. The theory shows which deployments pass the checks.
\<close>

subsection \<open>Model information\<close>

record model_facts =
  llm_provider :: "string \<Rightarrow> deployment \<Rightarrow> (string \<times> string) pyres"
  model_map_info :: "string \<Rightarrow> (string, pyval) dict pyres"
  supported_openai_params :: "string \<Rightarrow> string \<Rightarrow> string list option"
  drop_params :: bool
  count_message_tokens :: "pyval \<Rightarrow> int pyres"

definition base_model :: "deployment \<Rightarrow> string option" where
  "base_model d =
     (case dict_get (mi_rest d) ''base_model'' PNone of
        PStr s \<Rightarrow> Some s
      | _ \<Rightarrow> (case dict_get (lp_rest d) ''base_model'' PNone of PStr s \<Rightarrow> Some s | _ \<Rightarrow> None))"

text \<open>The model of the deployment among those a wildcard pattern matches.\<close>

definition matched_model :: "router \<Rightarrow> string \<Rightarrow> deployment \<Rightarrow> string \<Rightarrow> string" where
  "matched_model r received_model_name d model =
     (if \<not> star_in model then model
      else case route (pattern_router r) (Some received_model_name) None of
        None \<Rightarrow> model
      | Some ps \<Rightarrow> (case find (\<lambda>p. dep_id p = dep_id d) ps of None \<Rightarrow> model | Some p \<Rightarrow> dep_model p))"

definition get_router_model_info ::
  "model_facts \<Rightarrow> router \<Rightarrow> deployment \<Rightarrow> string \<Rightarrow> (string, pyval) dict pyres" where
  "get_router_model_info F r d received_model_name =
     (case llm_provider F (dep_model d) d of
        Inl e \<Rightarrow> Inl e
      | Inr (m, custom_llm_provider) \<Rightarrow>
        (let model = (if custom_llm_provider = ''azure'' then (case base_model d of Some b \<Rightarrow> b | None \<Rightarrow> m)
                      else matched_model r received_model_name d m);
             model_info_name = (if starts_with (custom_llm_provider @ ''/'') model then model
                                else custom_llm_provider @ ''/'' @ model) in
         map_sum id (\<lambda>info. fold (\<lambda>(k, v). AList.update k v) (mi_rest d) info) (model_map_info F model_info_name)))"

subsection \<open>Checks before a call\<close>

text \<open>\<^verbatim>\<open>isinstance(x, int)\<close>.\<close>

fun int_of :: "pyval \<Rightarrow> int option" where
  "int_of (PInt i) = Some i"
| "int_of (PBool b) = Some (if b then 1 else 0)"
| "int_of _ = None"

definition is_region_allowed :: "deployment \<Rightarrow> pyval \<Rightarrow> bool" where
  "is_region_allowed d allowed_model_region \<longleftrightarrow> py_eq (dict_get (lp_rest d) ''region_name'' PNone) allowed_model_region"

text \<open>
  \<^verbatim>\<open>_get_order_filtered_deployments\<close>: the least \<^verbatim>\<open>order\<close> and the deployments that have it.
\<close>

fun min_order :: "pyval list \<Rightarrow> pyval \<Rightarrow> pyval pyres" where
  "min_order [] m = Inr m"
| "min_order (v # vs) m = (case py_lt v m of Inl e \<Rightarrow> Inl e | Inr b \<Rightarrow> min_order vs (if b then v else m))"

definition orders_of :: "deployment list \<Rightarrow> pyval list" where
  "orders_of ds = concat (map (\<lambda>d. case map_of (lp_rest d) ''order'' of None \<Rightarrow> [] | Some v \<Rightarrow> [v]) ds)"

definition get_order_filtered_deployments :: "deployment list \<Rightarrow> deployment list pyres" where
  "get_order_filtered_deployments ds =
     (case orders_of ds of
        [] \<Rightarrow> Inr ds
      | v # vs \<Rightarrow>
        (case min_order vs v of
           Inl e \<Rightarrow> Inl e
         | Inr m \<Rightarrow>
           Inr (if m = PNone then ds else filter (\<lambda>d. py_eq (dict_get (lp_rest d) ''order'' PNone) m) ds)))"

text \<open>
  The state of the loop of \<^verbatim>\<open>_pre_call_checks\<close>: the variable \<^verbatim>\<open>model\<close>, which its rounds overwrite,
  the usage of the model group, and the cache. When the usage came from the cache (\<open>shared\<close>) its
  changes are seen there.
\<close>

record 'r pre_call =
  pc_model :: string
  pc_group :: pyval
  pc_cache :: "'r dual"

datatype verdict = Keep | ContextTooLong | RateLimited | Unfit

text \<open>The check of the context window; an exception is logged and the check is skipped.\<close>

definition context_window_check ::
  "model_facts \<Rightarrow> router \<Rightarrow> int \<Rightarrow> deployment \<Rightarrow> string \<Rightarrow> bool \<times> string" where
  "context_window_check F r input_tokens d model =
     (case get_router_model_info F r d model of
        Inl _ \<Rightarrow> (False, model)
      | Inr info \<Rightarrow>
        (case int_of (dict_get info ''max_input_tokens'' PNone) of None \<Rightarrow> False | Some n \<Rightarrow> n < input_tokens,
         case base_model d of Some b \<Rightarrow> if b = [] then dep_model d else b | None \<Rightarrow> dep_model d))"

text \<open>The check of the requests per minute: whether the limit is reached.\<close>

definition rpm_check ::
  "'r redis_ops \<Rightarrow> py_runtime \<Rightarrow> time \<Rightarrow> string \<Rightarrow> string \<Rightarrow> bool \<Rightarrow> deployment \<Rightarrow> 'r pre_call \<Rightarrow> bool pyres \<times> 'r pre_call" where
  "rpm_check ops rt t strategy group_key shared d st =
     (let (v, d1) = dual_get_cache ops rt t t (dep_id d) True None (pc_cache st);
          local_count = py_or v (PInt 0);
          st1 = st\<lparr>pc_cache := d1\<rparr> in
      case pc_group st of
        PDict m \<Rightarrow>
          if strategy = ''usage-based-routing-v2'' then (Inr False, st1)
          else
            (let n = dict_get m (dep_id d) (PInt 0);
                 m1 = PDict (AList.update (dep_id d) n m);
                 st2 = st1\<lparr>pc_group := m1, pc_cache := (if shared then dual_alias group_key (PDict m) m1 d1 else d1)\<rparr> in
             case py_gt n local_count of
               Inl e \<Rightarrow> (Inl e, st2)
             | Inr b \<Rightarrow>
               (case lp_rpm d of
                  None \<Rightarrow> (Inr False, st2)
                | Some limit \<Rightarrow> (py_ge (if b then n else local_count) (PFloat limit), st2)))
      | _ \<Rightarrow> (Inr False, st1))"

text \<open>The check that the parameters of the request are supported, with the model name it leaves.\<close>

definition params_check ::
  "model_facts \<Rightarrow> (string, pyval) dict option \<Rightarrow> deployment \<Rightarrow> string \<Rightarrow> (bool \<times> string) pyres" where
  "params_check F request_kwargs d model =
     (case request_kwargs of
        None \<Rightarrow> Inr (True, model)
      | Some kwargs \<Rightarrow>
        if drop_params F then Inr (True, model)
        else case llm_provider F model d of
          Inl e \<Rightarrow> Inl e
        | Inr (m, custom_llm_provider) \<Rightarrow>
          Inr (case supported_openai_params F m custom_llm_provider of
                 None \<Rightarrow> True
               | Some ps \<Rightarrow> dict_get kwargs ''response_format'' PNone = PNone \<or> ''response_format'' \<in> set ps, m))"

definition region_check :: "(string, pyval) dict option \<Rightarrow> deployment \<Rightarrow> bool" where
  "region_check request_kwargs d =
     (case request_kwargs of
        None \<Rightarrow> True
      | Some kwargs \<Rightarrow>
        (case dict_get kwargs ''allowed_model_region'' PNone of PNone \<Rightarrow> True | region \<Rightarrow> is_region_allowed d region))"

definition pre_call_round ::
  "'r redis_ops \<Rightarrow> py_runtime \<Rightarrow> time \<Rightarrow> model_facts \<Rightarrow> router \<Rightarrow> string \<Rightarrow> (string, pyval) dict option \<Rightarrow> int \<Rightarrow> string \<Rightarrow> bool \<Rightarrow>
   deployment \<Rightarrow> 'r pre_call \<Rightarrow> verdict pyres \<times> 'r pre_call" where
  "pre_call_round ops rt t F r strategy request_kwargs input_tokens group_key shared d st =
     (let (too_long, model) = context_window_check F r input_tokens d (pc_model st);
          st1 = st\<lparr>pc_model := model\<rparr> in
      if too_long then (Inr ContextTooLong, st1)
      else case rpm_check ops rt t strategy group_key shared d st1 of
        (Inl e, st2) \<Rightarrow> (Inl e, st2)
      | (Inr True, st2) \<Rightarrow> (Inr RateLimited, st2)
      | (Inr False, st2) \<Rightarrow>
        if \<not> region_check request_kwargs d then (Inr Unfit, st2)
        else (case params_check F request_kwargs d (pc_model st2) of
           Inl e \<Rightarrow> (Inl e, st2)
         | Inr (fits, model') \<Rightarrow> (Inr (if fits then Keep else Unfit), st2\<lparr>pc_model := model'\<rparr>)))"

fun pre_call_loop ::
  "'r redis_ops \<Rightarrow> py_runtime \<Rightarrow> time \<Rightarrow> model_facts \<Rightarrow> router \<Rightarrow> string \<Rightarrow> (string, pyval) dict option \<Rightarrow> int \<Rightarrow> string \<Rightarrow> bool \<Rightarrow>
   deployment list \<Rightarrow> 'r pre_call \<Rightarrow> verdict list pyres \<times> 'r pre_call" where
  "pre_call_loop ops rt t F r strategy request_kwargs input_tokens group_key shared [] st = (Inr [], st)"
| "pre_call_loop ops rt t F r strategy request_kwargs input_tokens group_key shared (d # ds) st =
     (case pre_call_round ops rt t F r strategy request_kwargs input_tokens group_key shared d st of
        (Inl e, st1) \<Rightarrow> (Inl e, st1)
      | (Inr v, st1) \<Rightarrow>
        (case pre_call_loop ops rt t F r strategy request_kwargs input_tokens group_key shared ds st1 of
           (Inl e, st2) \<Rightarrow> (Inl e, st2)
         | (Inr vs, st2) \<Rightarrow> (Inr (v # vs), st2)))"

text \<open>The deployments that are left, or the error that says why none is.\<close>

definition after_checks :: "deployment list \<Rightarrow> verdict list \<Rightarrow> deployment list pyres" where
  "after_checks ds vs =
     (let kept = map fst (filter (\<lambda>(d, v). v = Keep) (zip ds vs)) in
      if kept = [] \<and> RateLimited \<in> set vs then Inl (OtherError ''RouterRateLimitErrorBasic'')
      else if kept = [] \<and> ContextTooLong \<in> set vs then Inl (OtherError ''ContextWindowExceededError'')
      else if kept = [] then Inr []
      else get_order_filtered_deployments kept)"

definition pre_call_checks ::
  "'r redis_ops \<Rightarrow> py_runtime \<Rightarrow> time \<Rightarrow> datetime \<Rightarrow> model_facts \<Rightarrow> router \<Rightarrow> string \<Rightarrow> string \<Rightarrow> deployment list \<Rightarrow> pyval \<Rightarrow>
   (string, pyval) dict option \<Rightarrow> 'r dual \<Rightarrow> deployment list pyres \<times> 'r dual" where
  "pre_call_checks ops rt t now F r strategy model ds messages request_kwargs d =
     (case count_message_tokens F messages of
        Inl _ \<Rightarrow> (Inr ds, d)
      | Inr input_tokens \<Rightarrow>
        (let group_key = rpm_key model now;
             (v, d1) = dual_get_cache ops rt t t group_key True None d in
         case pre_call_loop ops rt t F r strategy request_kwargs input_tokens group_key (truthy v) ds
                \<lparr>pc_model = model, pc_group = py_or v (PDict []), pc_cache = d1\<rparr> of
           (Inl e, st) \<Rightarrow> (Inl e, pc_cache st)
         | (Inr vs, st) \<Rightarrow> (after_checks ds vs, pc_cache st)))"

subsection \<open>Further filters\<close>

definition filter_cooldown_deployments :: "deployment list \<Rightarrow> string list \<Rightarrow> deployment list" where
  "filter_cooldown_deployments ds cooldown_deployments = filter (\<lambda>d. dep_id d \<notin> set cooldown_deployments) ds"

definition use_in_pass_through :: "deployment \<Rightarrow> bool" where
  "use_in_pass_through d \<longleftrightarrow> truthy (dict_get (lp_rest d) ''use_in_pass_through'' PNone)"

definition filter_pass_through_deployments :: "deployment list \<Rightarrow> deployment list" where
  "filter_pass_through_deployments ds = filter use_in_pass_through ds"

text \<open>\<^verbatim>\<open>metadata.get("user_api_key_team_id") or litellm_metadata.get("user_api_key_team_id")\<close>.\<close>

definition metadata_get :: "(string, pyval) dict \<Rightarrow> string \<Rightarrow> pyval pyres" where
  "metadata_get kwargs variable =
     (case py_or (dict_get kwargs variable PNone) (PDict []) of
        PDict m \<Rightarrow> Inr (dict_get m ''user_api_key_team_id'' PNone)
      | _ \<Rightarrow> Inl AttributeError)"

definition request_team_id :: "(string, pyval) dict option \<Rightarrow> pyval pyres" where
  "request_team_id request_kwargs =
     (case request_kwargs of
        None \<Rightarrow> Inr PNone
      | Some kwargs \<Rightarrow>
        (case metadata_get kwargs ''metadata'' of
           Inl e \<Rightarrow> Inl e
         | Inr v \<Rightarrow> if truthy v then Inr v else metadata_get kwargs ''litellm_metadata''))"

definition filter_team_based_models :: "candidates \<Rightarrow> (string, pyval) dict option \<Rightarrow> candidates pyres" where
  "filter_team_based_models cs request_kwargs =
     (if request_kwargs = None then Inr cs
      else case request_team_id request_kwargs of
        Inl e \<Rightarrow> Inl e
      | Inr team \<Rightarrow>
        (case cs of
           Specific d \<Rightarrow> Inr cs
         | OneOf ds \<Rightarrow>
           (let ids_to_remove = dep_id ` set (filter (\<lambda>d. case mi_team_id d of None \<Rightarrow> False | Some i \<Rightarrow> PStr i \<noteq> team) ds) in
            Inr (OneOf (filter (\<lambda>d. dep_id d \<notin> ids_to_remove) ds)))))"

definition deployment_supports_web_search :: "deployment \<Rightarrow> bool" where
  "deployment_supports_web_search d \<longleftrightarrow>
     (case map_of (mi_rest d) ''supports_web_search'' of None \<Rightarrow> True | Some v \<Rightarrow> truthy v)"

fun is_web_search_request :: "pyval list \<Rightarrow> bool pyres" where
  "is_web_search_request [] = Inr False"
| "is_web_search_request (PDict tool # tools) =
     (if dict_get tool ''type'' PNone \<in> {PStr ''web_search'', PStr ''web_search_preview''} then Inr True
      else is_web_search_request tools)"
| "is_web_search_request (v # tools) = Inl AttributeError"

definition tools_of :: "(string, pyval) dict \<Rightarrow> pyval list pyres" where
  "tools_of kwargs =
     (case py_or (dict_get kwargs ''tools'' PNone) (PList []) of
        PList vs \<Rightarrow> Inr vs
      | PTuple vs \<Rightarrow> Inr vs
      | PSet vs \<Rightarrow> Inr vs
      | PDict m \<Rightarrow> Inr (map (PStr \<circ> fst) m)
      | PStr s \<Rightarrow> Inr (map (\<lambda>c. PStr [c]) s)
      | _ \<Rightarrow> Inl TypeError)"

definition filter_web_search_deployments :: "candidates \<Rightarrow> (string, pyval) dict option \<Rightarrow> candidates pyres" where
  "filter_web_search_deployments cs request_kwargs =
     (case (request_kwargs, cs) of
        (Some kwargs, OneOf ds) \<Rightarrow>
          (case tools_of kwargs of
             Inl e \<Rightarrow> Inl e
           | Inr tools \<Rightarrow>
             map_sum id (\<lambda>web. OneOf (if web then filter deployment_supports_web_search ds else ds)) (is_web_search_request tools))
      | _ \<Rightarrow> Inr cs)"

text \<open>\<^verbatim>\<open>_update_usage\<close>: the requests of the last minute, which \<open>rpm_check\<close> reads.\<close>

definition update_usage ::
  "'r redis_ops \<Rightarrow> py_runtime \<Rightarrow> time \<Rightarrow> string \<Rightarrow> 'r dual \<Rightarrow> pyval pyres \<times> 'r dual" where
  "update_usage ops rt t deployment_id d =
     (let (request_count, d1) = dual_get_cache ops rt t t deployment_id True None d in
      if request_count = PNone then (Inr (PInt 1), dual_set_cache ops rt t deployment_id (PInt 1) True (Some (Some 60)) d1)
      else case py_add request_count (PInt 1) of
        Inl e \<Rightarrow> (Inl e, d1)
      | Inr n \<Rightarrow> (Inr n, dual_set_cache ops rt t deployment_id n True None d1))"

subsection \<open>Which deployments pass\<close>

lemma int_compare:
  "py_gt (PInt a) (PInt b) = Inr (b < a)" "py_ge (PInt a) (PFloat q) = Inr (q \<le> of_int a)" "py_lt (PInt a) (PInt b) = Inr (a < b)"
  "py_eq (PInt a) (PInt b) \<longleftrightarrow> a = b"
  by (auto simp: py_gt_def py_ge_def num_lt_def is_number_def not_less)

lemma alias_peek_other: "k \<noteq> key \<Longrightarrow> imc_peek t k (imc_alias key old new c) = imc_peek t k c"
  by (simp add: imc_alias_def imc_peek_eq is_key_expired_def split: option.split)

text \<open>What the rounds read: the counts of requests \<open>c\<close> of the deployments and \<open>g\<close> in their group.\<close>

definition rpm_counts :: "time \<Rightarrow> (deployment \<Rightarrow> int) \<Rightarrow> (deployment \<Rightarrow> int) \<Rightarrow> deployment list \<Rightarrow> 'r pre_call \<Rightarrow> bool" where
  "rpm_counts t c g ds st \<longleftrightarrow> (\<exists>m. pc_group st = PDict m \<and> (\<forall>d \<in> set ds.
     py_or (imc_peek t (dep_id d) (in_memory_cache (pc_cache st))) (PInt 0) = PInt (c d) \<and>
     dict_get m (dep_id d) (PInt 0) = PInt (g d)))"

definition under_rpm :: "(deployment \<Rightarrow> int) \<Rightarrow> (deployment \<Rightarrow> int) \<Rightarrow> deployment \<Rightarrow> bool" where
  "under_rpm c g d \<longleftrightarrow> (case lp_rpm d of None \<Rightarrow> True | Some q \<Rightarrow> of_int (max (c d) (g d)) < q)"

lemma rpm_check_counts:
  assumes "rpm_counts t c g ds st" "d \<in> set ds" "strategy \<noteq> ''usage-based-routing-v2''" "group_key \<notin> dep_id ` set ds"
  shows "\<exists>st'. rpm_check ops rt t strategy group_key shared d st = (Inr (\<not> under_rpm c g d), st') \<and>
    pc_model st' = pc_model st \<and> rpm_counts t c g ds st'"
proof -
  obtain m where m: "pc_group st = PDict m"
    "\<And>e. e \<in> set ds \<Longrightarrow> py_or (imc_peek t (dep_id e) (in_memory_cache (pc_cache st))) (PInt 0) = PInt (c e)"
    "\<And>e. e \<in> set ds \<Longrightarrow> dict_get m (dep_id e) (PInt 0) = PInt (g e)"
    using assms(1) unfolding rpm_counts_def by blast
  let ?mem = "snd (imc_get_cache t (dep_id d) (in_memory_cache (pc_cache st)))"
  let ?m1 = "PDict (AList.update (dep_id d) (PInt (g d)) m)"
  let ?d1 = "(pc_cache st)\<lparr>in_memory_cache := ?mem\<rparr>"
  let ?d2 = "if shared then dual_alias group_key (PDict m) ?m1 ?d1 else ?d1"
  let ?st = "st\<lparr>pc_group := ?m1, pc_cache := ?d2\<rparr>"
  have "rpm_check ops rt t strategy group_key shared d st = (Inr (\<not> under_rpm c g d), ?st)"
    using m assms(2,3)
    by (simp add: rpm_check_def local_read_frame int_compare under_rpm_def not_less max_def Let_def split: option.split)
  moreover have "rpm_counts t c g ds ?st"
  proof -
    have "imc_peek t (dep_id e) (in_memory_cache ?d2) = imc_peek t (dep_id e) (in_memory_cache (pc_cache st))" if "e \<in> set ds" for e
    proof -
      have "dep_id e \<noteq> group_key" using that assms(4) by blast
      then show ?thesis by (simp add: dual_alias_def imc_peek_get alias_peek_other)
    qed
    moreover have "dict_get (AList.update (dep_id d) (PInt (g d)) m) (dep_id e) (PInt 0) = PInt (g e)" if "e \<in> set ds" for e
      using m(3) [OF assms(2)] m(3) [OF that] by (auto simp: dict_get_def)
    ultimately show ?thesis using m(2) by (simp add: rpm_counts_def)
  qed
  ultimately show ?thesis by (intro exI [of _ ?st]) simp
qed

text \<open>The name of the model of a deployment, and its verdict.\<close>

definition own_model :: "deployment \<Rightarrow> string" where
  "own_model d = (case base_model d of Some b \<Rightarrow> if b = [] then dep_model d else b | None \<Rightarrow> dep_model d)"

definition fits_window :: "(deployment \<Rightarrow> (string, pyval) dict) \<Rightarrow> int \<Rightarrow> deployment \<Rightarrow> bool" where
  "fits_window info input_tokens d \<longleftrightarrow>
     (case int_of (dict_get (info d) ''max_input_tokens'' PNone) of None \<Rightarrow> True | Some n \<Rightarrow> input_tokens \<le> n)"

definition verdict_of :: "bool \<Rightarrow> bool \<Rightarrow> bool \<Rightarrow> verdict" where
  "verdict_of window rpm fit = (if \<not> window then ContextTooLong else if \<not> rpm then RateLimited else if fit then Keep else Unfit)"

lemma pre_call_loop_verdicts:
  assumes "rpm_counts t c g all st" "set ds \<subseteq> set all" "strategy \<noteq> ''usage-based-routing-v2''" "group_key \<notin> dep_id ` set all"
    and "\<And>d n. d \<in> set ds \<Longrightarrow> get_router_model_info F r d n = Inr (info d)"
    and "\<And>d. d \<in> set ds \<Longrightarrow> \<exists>m. params_check F kw d (own_model d) = Inr (supported d, m)"
  shows "\<exists>st'. pre_call_loop ops rt t F r strategy kw n group_key shared ds st =
    (Inr (map (\<lambda>d. verdict_of (fits_window info n d) (under_rpm c g d) (region_check kw d \<and> supported d)) ds), st')"
  using assms
proof (induction ds arbitrary: st)
  case (Cons d ds)
  let ?st1 = "st\<lparr>pc_model := own_model d\<rparr>"
  let ?v = "verdict_of (fits_window info n d) (under_rpm c g d) (region_check kw d \<and> supported d)"
  have w: "context_window_check F r n d (pc_model st) = (\<not> fits_window info n d, own_model d)"
    using Cons.prems(5) [of d]
    by (auto simp: context_window_check_def fits_window_def own_model_def not_less split: option.split)
  have c1: "rpm_counts t c g all ?st1" using Cons.prems(1) by (simp add: rpm_counts_def)
  have "d \<in> set all" using Cons.prems(2) by simp
  from rpm_check_counts [OF c1 this Cons.prems(3,4), of ops rt shared] obtain st2 where
    r: "rpm_check ops rt t strategy group_key shared d ?st1 = (Inr (\<not> under_rpm c g d), st2)"
      "pc_model st2 = own_model d" "rpm_counts t c g all st2" by auto
  obtain m where pm: "params_check F kw d (own_model d) = Inr (supported d, m)" using Cons.prems(6) [of d] by auto
  have "\<exists>st3. pre_call_round ops rt t F r strategy kw n group_key shared d st = (Inr ?v, st3) \<and> rpm_counts t c g all st3"
  proof (cases "fits_window info n d")
    case False
    then show ?thesis using w c1 by (simp add: pre_call_round_def verdict_of_def)
  next
    case win: True
    show ?thesis
    proof (cases "under_rpm c g d")
      case False
      then show ?thesis using w r win by (simp add: pre_call_round_def verdict_of_def)
    next
      case True
      have "rpm_counts t c g all (st2\<lparr>pc_model := m\<rparr>)" using r(3) by (simp add: rpm_counts_def)
      then show ?thesis using w r win pm True by (simp add: pre_call_round_def verdict_of_def)
    qed
  qed
  then obtain st3 where s: "pre_call_round ops rt t F r strategy kw n group_key shared d st = (Inr ?v, st3)" "rpm_counts t c g all st3"
    by blast
  have "set ds \<subseteq> set all" using Cons.prems(2) by simp
  from Cons.IH [OF s(2) this Cons.prems(3,4)] Cons.prems(5,6) obtain st4 where
    "pre_call_loop ops rt t F r strategy kw n group_key shared ds st3 =
      (Inr (map (\<lambda>d. verdict_of (fits_window info n d) (under_rpm c g d) (region_check kw d \<and> supported d)) ds), st4)" by auto
  then show ?case using s(1) by simp
qed simp

text \<open>The deployments with the least order, if any has one.\<close>

definition least_order :: "(deployment \<Rightarrow> int option) \<Rightarrow> deployment list \<Rightarrow> deployment list" where
  "least_order ord ds =
     (case List.map_filter ord ds of
        [] \<Rightarrow> ds
      | n # ns \<Rightarrow> filter (\<lambda>d. ord d = Some (Min (set (n # ns)))) ds)"

lemma min_order_Min: "min_order (map PInt ns) (PInt n) = Inr (PInt (Min (set (n # ns))))"
proof (induction ns arbitrary: n)
  case (Cons a ns)
  have "Min (insert (if a < n then a else n) (set ns)) = Min (insert n (insert a (set ns)))"
    by (cases "ns = []") (auto simp: min_def)
  moreover have "num_lt (PInt a) (PInt n) = Inr (a < n)" by (simp add: num_lt_def is_number_def)
  ultimately show ?case using Cons.IH [of "if a < n then a else n"] by (simp add: if_distrib [of PInt])
qed simp

lemma order_filter_least:
  assumes "\<And>d. d \<in> set ds \<Longrightarrow> map_of (lp_rest d) ''order'' = map_option PInt (ord d)"
  shows "get_order_filtered_deployments ds = Inr (least_order ord ds)"
proof -
  have o: "orders_of ds = map PInt (List.map_filter ord ds)"
    using assms by (induction ds) (auto simp: orders_of_def map_filter_simps split: option.split)
  show ?thesis
  proof (cases "List.map_filter ord ds")
    case (Cons n ns)
    have "py_eq (dict_get (lp_rest d) ''order'' PNone) (PInt k) \<longleftrightarrow> ord d = Some k" if "d \<in> set ds" for d k
      using assms [OF that] by (cases "ord d") (auto simp: dict_get_def int_compare)
    then show ?thesis
      using Cons o by (auto simp: get_order_filtered_deployments_def least_order_def min_order_Min intro!: filter_cong)
  qed (simp add: get_order_filtered_deployments_def least_order_def o)
qed

lemma kept_by_verdict: "map fst (filter (\<lambda>(d, v). v = Keep) (zip ds (map f ds))) = filter (\<lambda>d. f d = Keep) ds"
  by (induction ds) auto

subsection \<open>Properties\<close>


definition plain_facts :: model_facts where
  "plain_facts = \<lparr>llm_provider = (\<lambda>m d. if m = ''none'' then Inl ValueError else Inr (m, ''p'')),
     model_map_info = (\<lambda>m. if m = ''p/own'' then Inl ValueError else Inr [(''max_input_tokens'', PInt 100)]),
     supported_openai_params = (\<lambda>m p. Some (if m = ''old'' then [] else [''response_format''])),
     drop_params = False, count_message_tokens = (\<lambda>_. Inr 20)\<rparr>"

abbreviation checked :: "deployment list" where
  "checked \<equiv> [(dep ''a'' None)\<lparr>lp_rpm := Some 3\<rparr>, (dep ''b'' None)\<lparr>lp_rest := [(''order'', PInt 2)]\<rparr>,
     (dep ''c'' None)\<lparr>lp_rest := [(''order'', PInt 1)]\<rparr>]"

abbreviation counted_cache :: "unit dual" where
  "counted_cache \<equiv> snd (update_usage ops0 rt0 2 ''a'' (snd (update_usage ops0 rt0 1 ''a'' (snd (update_usage ops0 rt0 0 ''a'' mem_dual)))))"


text \<open>
  The variable that names the model keeps the previous deployment's name where the model of a
  deployment is not mapped, so a deployment can be dropped for what another one does not support.
\<close>

lemma unmapped_model_judged_by_previous:
  "let kw = Some [(''response_format'', PDict [(''type'', PStr ''json_object'')])];
       a = (dep ''a'' None)\<lparr>dep_model := ''old''\<rparr>; b = (dep ''b'' None)\<lparr>dep_model := ''own''\<rparr>;
       check = (\<lambda>ds. fst (pre_call_checks ops0 rt0 9 noon plain_facts empty_router ''simple-shuffle'' ''g'' ds (PList []) kw mem_dual)) in
   check [b, a] = Inr [b] \<and> check [a, b] = Inr []"
  by code_simp

end
