(* ===== verification/TagRouting.thy ===== *)
theory TagRouting
  imports Deployments
begin

text \<open>
  \<^verbatim>\<open>router_strategy/tag_based_routing.py\<close>: which deployments may serve a request with tags. The
  tags of a request come from its metadata as any value; those of a deployment are strings. The theory
  shows who gets which deployments.
\<close>

subsection \<open>Operations\<close>

text \<open>The elements of \<^verbatim>\<open>set(v)\<close>.\<close>

definition set_of :: "pyval \<Rightarrow> pyval list pyres" where
  "set_of v =
     (let hashed = (\<lambda>xs. if \<forall>x \<in> set xs. hashable x then Inr xs else Inl TypeError) in
      case v of
        PList xs \<Rightarrow> hashed xs
      | PTuple xs \<Rightarrow> hashed xs
      | PSet xs \<Rightarrow> Inr xs
      | PStr s \<Rightarrow> Inr (map (\<lambda>c. PStr [c]) s)
      | PDict d \<Rightarrow> Inr (map (PStr \<circ> fst) d)
      | _ \<Rightarrow> Inl TypeError)"

definition is_valid_deployment_tag :: "string list \<Rightarrow> pyval \<Rightarrow> bool \<Rightarrow> bool pyres" where
  "is_valid_deployment_tag deployment_tags request_tags match_any =
     (if \<not> truthy request_tags then Inr False
      else case set_of request_tags of
        Inl e \<Rightarrow> Inl e
      | Inr req \<Rightarrow>
        if match_any then Inr (\<exists>t \<in> set deployment_tags. PStr t \<in> set req)
        else Inr (set req \<subseteq> PStr ` set deployment_tags))"

record tag_router =
  enable_tag_filtering :: bool
  tag_filtering_match_any :: bool

fun tag_loop ::
  "pyval \<Rightarrow> bool \<Rightarrow> deployment list \<Rightarrow> deployment list \<Rightarrow> deployment list \<Rightarrow> (deployment list \<times> deployment list) pyres" where
  "tag_loop request_tags match_any [] new defaults = Inr (new, defaults)"
| "tag_loop request_tags match_any (d # ds) new defaults =
     (case dep_tags d of
        None \<Rightarrow> tag_loop request_tags match_any ds new defaults
      | Some tags \<Rightarrow>
        (case is_valid_deployment_tag tags request_tags match_any of
           Inl e \<Rightarrow> Inl e
         | Inr v \<Rightarrow>
           tag_loop request_tags match_any ds (if v then new @ [d] else new)
             (if ''default'' \<in> set tags then defaults @ [d] else defaults)))"

text \<open>For untagged requests: the deployments with the tag \<^verbatim>\<open>default\<close>, or all.\<close>

definition default_deployments :: "deployment list \<Rightarrow> deployment list" where
  "default_deployments ds =
     (case filter (\<lambda>d. ''default'' \<in> set (case dep_tags d of Some ts \<Rightarrow> ts | None \<Rightarrow> [])) ds of
        [] \<Rightarrow> ds
      | x # xs \<Rightarrow> x # xs)"

definition get_deployments_for_tag ::
  "tag_router \<Rightarrow> deployment list \<Rightarrow> (string, pyval) dict option \<Rightarrow> string \<Rightarrow> deployment list pyres" where
  "get_deployments_for_tag r ds request_kwargs metadata_variable_name =
     (if \<not> enable_tag_filtering r then Inr ds
      else case request_kwargs of
        None \<Rightarrow> Inr ds
      | Some kwargs \<Rightarrow>
        (case map_of kwargs metadata_variable_name of
           None \<Rightarrow> Inr (default_deployments ds)
         | Some (PDict metadata) \<Rightarrow>
           (let request_tags = dict_get metadata ''tags'' PNone in
            if truthy request_tags then
              (case tag_loop request_tags (tag_filtering_match_any r) ds [] [] of
                 Inl e \<Rightarrow> Inl e
               | Inr (new, defaults) \<Rightarrow>
                 if new = [] \<and> defaults = [] then Inl ValueError
                 else Inr (if new \<noteq> [] then new else defaults))
            else Inr (default_deployments ds))
         | Some _ \<Rightarrow> Inl AttributeError))"

text \<open>The tags of a request; the metadata may be in \<^verbatim>\<open>litellm_params\<close>.\<close>

definition tags_of :: "pyval \<Rightarrow> pyval pyres" where
  "tags_of metadata =
     (case py_or metadata (PDict []) of
        PDict m \<Rightarrow> (case dict_get m ''tags'' (PList []) of PNone \<Rightarrow> Inr (PList []) | t \<Rightarrow> Inr t)
      | _ \<Rightarrow> Inl AttributeError)"

definition get_tags_from_request_kwargs :: "(string, pyval) dict option \<Rightarrow> string \<Rightarrow> pyval pyres" where
  "get_tags_from_request_kwargs request_kwargs metadata_variable_name =
     (case request_kwargs of
        None \<Rightarrow> Inr (PList [])
      | Some kwargs \<Rightarrow>
        (case map_of kwargs metadata_variable_name of
           Some metadata \<Rightarrow> tags_of metadata
         | None \<Rightarrow>
           (case map_of kwargs ''litellm_params'' of
              None \<Rightarrow> Inr (PList [])
            | Some lp \<Rightarrow>
              (case py_or lp (PDict []) of
                 PDict p \<Rightarrow> tags_of (dict_get p metadata_variable_name (PDict []))
               | _ \<Rightarrow> Inl AttributeError))))"

subsection \<open>Lemmas\<close>

text \<open>The tags of a deployment serve a request with the tags \<open>ts\<close>.\<close>

definition serves :: "bool \<Rightarrow> string list \<Rightarrow> deployment \<Rightarrow> bool" where
  "serves match_any ts d \<longleftrightarrow>
     (case dep_tags d of
        None \<Rightarrow> False
      | Some tags \<Rightarrow> if match_any then set tags \<inter> set ts \<noteq> {} else set ts \<subseteq> set tags)"

definition is_default :: "deployment \<Rightarrow> bool" where
  "is_default d \<longleftrightarrow> (case dep_tags d of None \<Rightarrow> False | Some tags \<Rightarrow> ''default'' \<in> set tags)"

lemma valid_tag:
  "ts \<noteq> [] \<Longrightarrow> is_valid_deployment_tag tags (PList (map PStr ts)) match_any =
     Inr (if match_any then set tags \<inter> set ts \<noteq> {} else set ts \<subseteq> set tags)"
  by (auto simp: is_valid_deployment_tag_def set_of_def)

lemma tag_loop_filter:
  "ts \<noteq> [] \<Longrightarrow> tag_loop (PList (map PStr ts)) match_any ds new defaults =
     Inr (new @ filter (serves match_any ts) ds, defaults @ filter is_default ds)"
  by (induction ds arbitrary: new defaults) (auto simp: valid_tag serves_def is_default_def split: option.split)

subsection \<open>Properties\<close>



text \<open>With the default setting one common tag is enough; the request's tags need not be a subset.\<close>

lemma one_common_tag_is_enough:
  "serves True [''free'', ''eu''] ((dep ''1'' None)\<lparr>dep_tags := Some [''free'']\<rparr>)"
  by (simp add: serves_def)

end
