(* ===== verification/LeastBusy.thy ===== *)
theory LeastBusy
  imports RequestCounts
begin

text \<open>
  \<^verbatim>\<open>router_strategy/least_busy.py\<close>: the strategy that counts the requests in flight of every
  deployment in the router's cache and picks the deployment with the fewest. The events swallow every
  exception; their asynchronous versions have the same body up to \<^verbatim>\<open>await\<close>. The counters the
  tests read (\<^verbatim>\<open>test_flag\<close>) are left out. The theory shows that the counts are exact while they are kept in memory and
  that the pick is a least busy deployment.
\<close>

definition request_count_api_key :: "string \<Rightarrow> string" where
  "request_count_api_key model_group = model_group @ ''_request_count''"

definition log_pre_api_call ::
  "'r redis_ops \<Rightarrow> py_runtime \<Rightarrow> (pyval \<Rightarrow> string) \<Rightarrow> time \<Rightarrow> time \<Rightarrow> time \<Rightarrow> (string, pyval) dict \<Rightarrow> 'r dual \<Rightarrow> 'r dual" where
  "log_pre_api_call ops rt py_str t0 t1 t2 kwargs d =
     (case request_target py_str kwargs of
        None \<Rightarrow> d
      | Some (g, i) \<Rightarrow> snd (count_in_cache ops rt t0 t1 t2 (request_count_api_key g) i (PInt 1) None d))"

definition log_success_event ::
  "'r redis_ops \<Rightarrow> py_runtime \<Rightarrow> (pyval \<Rightarrow> string) \<Rightarrow> time \<Rightarrow> time \<Rightarrow> time \<Rightarrow> (string, pyval) dict \<Rightarrow> 'r dual \<Rightarrow> 'r dual" where
  "log_success_event ops rt py_str t0 t1 t2 kwargs d =
     (case request_target py_str kwargs of
        None \<Rightarrow> d
      | Some (g, i) \<Rightarrow> snd (count_in_cache ops rt t0 t1 t2 (request_count_api_key g) i (PInt (- 1)) None d))"

definition log_failure_event ::
  "'r redis_ops \<Rightarrow> py_runtime \<Rightarrow> (pyval \<Rightarrow> string) \<Rightarrow> time \<Rightarrow> time \<Rightarrow> time \<Rightarrow> (string, pyval) dict \<Rightarrow> 'r dual \<Rightarrow> 'r dual" where
  "log_failure_event ops rt py_str t0 t1 t2 kwargs d =
     (case request_target py_str kwargs of
        None \<Rightarrow> d
      | Some (g, i) \<Rightarrow> snd (count_in_cache ops rt t0 t1 t2 (request_count_api_key g) i (PInt (- 1)) None d))"

fun least_loop :: "(string, pyval) dict \<Rightarrow> pyval \<Rightarrow> string option \<Rightarrow> string option pyres" where
  "least_loop [] min_traffic min_deployment = Inr min_deployment"
| "least_loop ((k, v) # rest) min_traffic min_deployment =
     (case py_lt v min_traffic of
        Inl e \<Rightarrow> Inl e
      | Inr b \<Rightarrow> if b then least_loop rest v (Some k) else least_loop rest min_traffic min_deployment)"

definition pick_deployment :: "(nat \<Rightarrow> nat) \<Rightarrow> deployment list \<Rightarrow> (string, pyval) dict \<Rightarrow> deployment pyres" where
  "pick_deployment randbelow ds all_deployments =
     (case least_loop all_deployments (PInf True) None of
        Inl e \<Rightarrow> Inl e
      | Inr None \<Rightarrow> random_choice randbelow ds
      | Inr (Some k) \<Rightarrow>
        (case find (\<lambda>m. dep_id m = k) ds of
           Some m \<Rightarrow> Inr m
         | None \<Rightarrow> random_choice randbelow ds))"

text \<open>A cached value that is no dict ends the call with an exception.\<close>

definition get_available_deployments ::
  "'r redis_ops \<Rightarrow> py_runtime \<Rightarrow> (nat \<Rightarrow> nat) \<Rightarrow> time \<Rightarrow> time \<Rightarrow> string \<Rightarrow> deployment list \<Rightarrow> 'r dual \<Rightarrow>
   deployment pyres \<times> 'r dual" where
  "get_available_deployments ops rt randbelow t0 t1 model_group ds d =
     (let key = request_count_api_key model_group in
      case dual_get_cache ops rt t0 t1 key False None d of
        (v, d1) \<Rightarrow>
        (case py_or v (PDict []) of
           PDict m \<Rightarrow>
             (let m' = fill_zero ds m in (pick_deployment randbelow ds m', hand_out key v (PDict m') d1))
         | _ \<Rightarrow> (Inl AttributeError, d1)))"

subsection \<open>Counts\<close>

datatype busy_event = Start string | Finish string

fun event_delta :: "busy_event \<Rightarrow> string \<times> int" where
  "event_delta (Start i) = (i, 1)"
| "event_delta (Finish i) = (i, - 1)"

text \<open>The callbacks of the requests of a model group at one time.\<close>

fun log_event :: "'r redis_ops \<Rightarrow> py_runtime \<Rightarrow> (pyval \<Rightarrow> string) \<Rightarrow> time \<Rightarrow> string \<Rightarrow> busy_event \<Rightarrow> 'r dual \<Rightarrow> 'r dual" where
  "log_event ops rt py_str t g (Start i) d = log_pre_api_call ops rt py_str t t t (kwargs_for g i) d"
| "log_event ops rt py_str t g (Finish i) d = log_success_event ops rt py_str t t t (kwargs_for g i) d"

definition in_flight :: "busy_event list \<Rightarrow> string \<Rightarrow> int" where
  "in_flight es i = (\<Sum>e\<leftarrow>es. if fst (event_delta e) = i then snd (event_delta e) else 0)"

lemma log_event_count:
  "log_event ops rt py_str t g e d =
   snd (count_in_cache ops rt t t t (request_count_api_key g) (fst (event_delta e)) (PInt (snd (event_delta e))) None d)"
  by (cases e) (simp_all add: log_pre_api_call_def log_success_event_def)

text \<open>A cache that holds the counts \<open>c\<close> of a group, or nothing where there are none.\<close>

definition holds_counts :: "py_runtime \<Rightarrow> time \<Rightarrow> string \<Rightarrow> 'r dual \<Rightarrow> (string, int) dict \<Rightarrow> bool" where
  "holds_counts rt t g d c \<longleftrightarrow>
     dual_local None d \<and> (\<forall>m. check_value_size rt (in_memory_cache d) (PDict m)) \<and>
     (dual_peek t (request_count_api_key g) d = PDict (enc_counts c) \<or>
      c = [] \<and> dual_peek t (request_count_api_key g) d = PNone)"

lemma holds_counts_event:
  assumes "holds_counts rt t g d c" "event_delta e = (i, n)"
  shows "holds_counts rt t g (log_event ops rt py_str t g e d) (AList.update i (dict_get c i 0 + n) c)"
proof -
  let ?key = "request_count_api_key g"
  have m: "enc_counts c = counts_at t ?key d" "dual_peek t ?key d = PNone \<or> dual_peek t ?key d = PDict (enc_counts c)"
    using assms(1) by (auto simp: holds_counts_def counts_at_def enc_counts_def)
  have add: "py_add (dict_get (enc_counts c) i (PInt 0)) (PInt n) = Inr (PInt (dict_get c i 0 + n))"
    by (simp add: enc_counts_get)
  obtain d' where d': "count_in_cache ops rt t t t ?key i (PInt n) None d = (Inr (), d')" "dual_local None d'"
    "dual_peek t ?key d' = PDict (AList.update i (PInt (dict_get c i 0 + n)) (enc_counts c))"
    "\<forall>w. check_value_size rt (in_memory_cache d') w = check_value_size rt (in_memory_cache d) w"
    using count_in_cache_local [OF _ m(2,1) add refl] assms(1) by (fastforce simp: holds_counts_def)
  then show ?thesis
    using assms by (simp add: holds_counts_def log_event_count enc_counts_update)
qed

lemma holds_counts_events:
  assumes "holds_counts rt t g d c" "dict_wf c"
  shows "\<exists>c'. holds_counts rt t g (fold (log_event ops rt py_str t g) es d) c' \<and> dict_wf c' \<and>
    (\<forall>i. dict_get c' i 0 = dict_get c i 0 + in_flight es i) \<and>
    set (dict_keys c') = set (dict_keys c) \<union> (fst \<circ> event_delta) ` set es"
  using assms
proof (induction es arbitrary: c d)
  case Nil
  then show ?case by (auto simp: in_flight_def)
next
  case (Cons e es)
  obtain i n where e: "event_delta e = (i, n)" by (cases "event_delta e")
  let ?c = "AList.update i (dict_get c i 0 + n) c"
  have get: "dict_get ?c j 0 = dict_get c j 0 + (if i = j then n else 0)" for j by (auto simp: dict_get_def)
  have keys: "set (dict_keys ?c) = insert i (set (dict_keys c))" by (rule keys_update_set)
  obtain c' where c': "holds_counts rt t g (fold (log_event ops rt py_str t g) es (log_event ops rt py_str t g e d)) c'"
    "dict_wf c'" "\<forall>j. dict_get c' j 0 = dict_get ?c j 0 + in_flight es j"
    "set (dict_keys c') = set (dict_keys ?c) \<union> (fst \<circ> event_delta) ` set es"
    using Cons.IH [OF holds_counts_event [OF Cons.prems(1) e] distinct_update [OF Cons.prems(2)]] by blast
  have "in_flight (e # es) j = (if i = j then n else 0) + in_flight es j" for j by (simp add: in_flight_def e)
  then have "\<forall>j. dict_get c' j 0 = dict_get c j 0 + in_flight (e # es) j" using c'(3) get by simp
  moreover have "set (dict_keys c') = set (dict_keys c) \<union> (fst \<circ> event_delta) ` set (e # es)"
    using c'(4) keys e by simp
  ultimately show ?case using c'(1,2) by (metis fold_simps(2))
qed

subsection \<open>The pick\<close>

lemma least_loop_cons:
  "\<exists>k' n. least_loop (enc_counts c) (PInt a) (Some k) = Inr (Some k') \<and> (k', n) \<in> set ((k, a) # c) \<and>
     (\<forall>(j, m) \<in> set ((k, a) # c). n \<le> m)"
proof (induction c arbitrary: a k)
  case Nil
  then show ?case by (simp add: enc_counts_def)
next
  case (Cons x c)
  obtain j m where x: "x = (j, m)" by (cases x)
  let ?b = "if m < a then m else a" and ?l = "if m < a then j else k"
  have step: "least_loop (enc_counts (x # c)) (PInt a) (Some k) = least_loop (enc_counts c) (PInt ?b) (Some ?l)"
    by (simp add: enc_counts_def x num_lt_def is_number_def)
  from Cons.IH [of ?b ?l] obtain k' n where n: "least_loop (enc_counts c) (PInt ?b) (Some ?l) = Inr (Some k')"
    "(k', n) \<in> set ((?l, ?b) # c)" "\<forall>(j, m) \<in> set ((?l, ?b) # c). n \<le> m" by blast
  then have "(k', n) \<in> set ((k, a) # x # c)" "\<forall>(j, m) \<in> set ((k, a) # x # c). n \<le> m"
    using x by (auto split: if_splits)
  then show ?case using step n(1) by (intro exI [of _ k'] exI [of _ n]) simp
qed

lemma least_loop_min:
  assumes "c \<noteq> []"
  shows "\<exists>k n. least_loop (enc_counts c) (PInf True) None = Inr (Some k) \<and> (k, n) \<in> set c \<and> (\<forall>(j, m) \<in> set c. n \<le> m)"
proof -
  obtain j m c' where c: "c = (j, m) # c'" using assms by (metis list.exhaust surj_pair)
  have "least_loop (enc_counts c) (PInf True) None = least_loop (enc_counts c') (PInt m) (Some j)"
    by (simp add: c enc_counts_def num_lt_def is_number_def)
  then show ?thesis using least_loop_cons [of c' m j] c by simp
qed

lemma pick_least:
  assumes "dict_wf c" "set (dict_keys c) \<subseteq> dep_id ` set ds" "ds \<noteq> []"
  shows "\<exists>m \<in> set ds. pick_deployment randbelow ds (fill_zero ds (enc_counts c)) = Inr m \<and>
    (\<forall>x \<in> set ds. dict_get c (dep_id m) 0 \<le> dict_get c (dep_id x) 0)"
proof -
  let ?f = "fill_counts ds c"
  have wf: "dict_wf ?f" using fill_counts_props(1) [OF assms(1)] .
  have keys: "set (dict_keys ?f) = dep_id ` set ds" using fill_counts_props(3) assms(2) by blast
  then have "?f \<noteq> []" using assms(3) by auto
  from least_loop_min [OF this] obtain k n where k: "least_loop (enc_counts ?f) (PInf True) None = Inr (Some k)"
    "(k, n) \<in> set ?f" "\<forall>(j, m) \<in> set ?f. n \<le> m" by blast
  have val: "dict_get ?f j 0 = v" if "(j, v) \<in> set ?f" for j v
    using that wf by (simp add: dict_get_def)
  have "k \<in> dep_id ` set ds" using k(2) keys by force
  then obtain m where m: "find (\<lambda>m. dep_id m = k) ds = Some m"
    by (metis (mono_tags, lifting) find_None_iff image_iff option.exhaust)
  then have mk: "m \<in> set ds" "dep_id m = k" by (auto simp: find_Some_iff)
  have "dict_get c (dep_id m) 0 \<le> dict_get c (dep_id x) 0" if "x \<in> set ds" for x
  proof -
    have "dep_id x \<in> set (dict_keys ?f)" using that keys by simp
    then obtain v where v: "(dep_id x, v) \<in> set ?f" by auto
    then have "n \<le> v" using k(3) by blast
    then show ?thesis using val [OF v] val [OF k(2)] mk(2) fill_counts_props(2) by simp
  qed
  moreover have "pick_deployment randbelow ds (fill_zero ds (enc_counts c)) = Inr m"
    by (simp add: pick_deployment_def fill_zero_counts k(1) m)
  ultimately show ?thesis using mk(1) by blast
qed



end
