(* ===== verification/BaseRouting.thy ===== *)
theory BaseRouting
  imports CacheAlias PyCompare
begin

text \<open>
  \<^verbatim>\<open>router_strategy/base_routing_strategy.py\<close>: counters that live in memory and are pushed to Redis
  in batches by a periodic task. An increment changes the in-memory counter at once and is queued;
  a synchronisation takes a snapshot of the counters, compresses the queue to one operation per key,
  waits for Redis, drops what was pushed and merges the answers into memory. Other requests run while
  it waits, so it is modelled in two parts: up to the call of Redis, and from its answer on. The
  operations in the queue are objects that the compression changes in place. Sleeping and the start
  of the task are left out; \<^verbatim>\<open>float\<close> of a string is a parameter. The set of keys is listed in
  the order in which keys were added. The theory shows that no increment is lost or pushed twice while
  Redis answers, whatever the interleaving, and what the merge leaves in memory.
\<close>

subsection \<open>State and operations\<close>

record 'r strategy =
  dual_cache :: "'r dual"
  redis_increment_operation_queue :: "increment_op list"
  in_memory_keys_to_update :: "string list"

definition strategy_mem :: "'r strategy \<Rightarrow> imc \<Rightarrow> 'r strategy" where
  "strategy_mem s c = s\<lparr>dual_cache := (dual_cache s)\<lparr>in_memory_cache := c\<rparr>\<rparr>"

abbreviation mem_of :: "'r strategy \<Rightarrow> imc" where
  "mem_of s \<equiv> in_memory_cache (dual_cache s)"

definition increment_value_in_current_window ::
  "py_runtime \<Rightarrow> time \<Rightarrow> string \<Rightarrow> pyval \<Rightarrow> int \<Rightarrow> 'r strategy \<Rightarrow> pyval pyres \<times> 'r strategy" where
  "increment_value_in_current_window rt now key value ttl s =
     (case imc_increment_cache rt now key value (Some (of_int ttl)) (mem_of s) of
        (Inl e, c) \<Rightarrow> (Inl e, strategy_mem s c)
      | (Inr result, c) \<Rightarrow>
        (Inr result, (strategy_mem s c)
           \<lparr>redis_increment_operation_queue := redis_increment_operation_queue s @
              [\<lparr>op_key = key, increment_value = value, op_ttl = Some ttl\<rparr>],
            in_memory_keys_to_update := List.insert key (in_memory_keys_to_update s)\<rparr>))"

fun increment_value_list_in_current_window ::
  "py_runtime \<Rightarrow> time \<Rightarrow> (string \<times> pyval) list \<Rightarrow> int \<Rightarrow> 'r strategy \<Rightarrow> pyval list pyres \<times> 'r strategy" where
  "increment_value_list_in_current_window rt now [] ttl s = (Inr [], s)"
| "increment_value_list_in_current_window rt now ((key, value) # rest) ttl s =
     (case increment_value_in_current_window rt now key value ttl s of
        (Inl e, s1) \<Rightarrow> (Inl e, s1)
      | (Inr result, s1) \<Rightarrow>
        (case increment_value_list_in_current_window rt now rest ttl s1 of
           (Inl e, s2) \<Rightarrow> (Inl e, s2)
         | (Inr results, s2) \<Rightarrow> (Inr (result # results), s2)))"

text \<open>
  The compression. The dict refers to operations of the queue, by their position; a further
  operation on a key is added to the first one, where it stands in the queue.
\<close>

fun compress_loop :: "nat list \<Rightarrow> (string, nat) dict \<Rightarrow> increment_op list \<Rightarrow> (string, nat) dict pyres \<times> increment_op list" where
  "compress_loop [] compressed_ops q = (Inr compressed_ops, q)"
| "compress_loop (idx # rest) compressed_ops q =
     (case map_of compressed_ops (op_key (q ! idx)) of
        None \<Rightarrow> compress_loop rest (AList.update (op_key (q ! idx)) idx compressed_ops) q
      | Some j \<Rightarrow>
        (case py_add (increment_value (q ! j)) (increment_value (q ! idx)) of
           Inl e \<Rightarrow> (Inl e, q)
         | Inr v \<Rightarrow> compress_loop rest compressed_ops (q[j := (q ! j)\<lparr>increment_value := v\<rparr>])))"

text \<open>
  \<^verbatim>\<open>_push_in_memory_increments_to_redis\<close> up to the call of Redis: the operations to push and the
  number of queued operations they stand for. An exception empties the queue.
\<close>

type_synonym push = "increment_op list \<times> nat"

definition push_begin :: "'r strategy \<Rightarrow> push option \<times> 'r strategy" where
  "push_begin s =
     (let q = redis_increment_operation_queue s in
      if redis_cache (dual_cache s) = None \<or> q = [] then (None, s)
      else case compress_loop [0..<length q] [] q of
        (Inl _, _) \<Rightarrow> (None, s\<lparr>redis_increment_operation_queue := []\<rparr>)
      | (Inr compressed_ops, q1) \<Rightarrow>
        (Some (map (\<lambda>(_, j). q1 ! j) compressed_ops, length q), s\<lparr>redis_increment_operation_queue := q1\<rparr>))"

text \<open>And from its answer on.\<close>

definition answers_of :: "push \<Rightarrow> pyval list option \<Rightarrow> (string, pyval) dict" where
  "answers_of p increment_result =
     (case increment_result of
        None \<Rightarrow> []
      | Some vs \<Rightarrow> fold (\<lambda>(o1, v). AList.update (op_key o1) v) (zip (fst p) vs) [])"

definition push_end :: "push \<Rightarrow> pyval list option pyres \<Rightarrow> 'r strategy \<Rightarrow> (string, pyval) dict option \<times> 'r strategy" where
  "push_end p answer s =
     (case answer of
        Inl _ \<Rightarrow> (None, s\<lparr>redis_increment_operation_queue := []\<rparr>)
      | Inr increment_result \<Rightarrow>
        (Some (answers_of p increment_result),
         s\<lparr>redis_increment_operation_queue := drop (snd p) (redis_increment_operation_queue s)\<rparr>))"

definition push_to_redis :: "'r redis_ops \<Rightarrow> push \<Rightarrow> 'r strategy \<Rightarrow> (string, pyval) dict option \<times> 'r strategy" where
  "push_to_redis ops p s =
     (case redis_cache (dual_cache s) of
        None \<Rightarrow> push_end p (Inl AttributeError) s
      | Some r \<Rightarrow>
        (case with_redis (dual_cache s) (r_increment_pipeline ops (fst p) r) of
           (answer, d) \<Rightarrow> push_end p answer (s\<lparr>dual_cache := d\<rparr>)))"

definition push_in_memory_increments_to_redis ::
  "'r redis_ops \<Rightarrow> 'r strategy \<Rightarrow> (string, pyval) dict option \<times> 'r strategy" where
  "push_in_memory_increments_to_redis ops s =
     (case push_begin s of
        (None, s1) \<Rightarrow> (None, s1)
      | (Some p, s1) \<Rightarrow> push_to_redis ops p s1)"

subsection \<open>Synchronisation\<close>

text \<open>\<^verbatim>\<open>float(v)\<close>, \<^verbatim>\<open>float(v or 0)\<close>, and the negative of a number.\<close>

fun py_float :: "(string \<Rightarrow> pyval pyres) \<Rightarrow> pyval \<Rightarrow> pyval pyres" where
  "py_float float_str (PBool b) = Inr (PFloat (if b then 1 else 0))"
| "py_float float_str (PInt i) = Inr (PFloat (of_int i))"
| "py_float float_str (PFloat q) = Inr (PFloat q)"
| "py_float float_str (PInf b) = Inr (PInf b)"
| "py_float float_str PNaN = Inr PNaN"
| "py_float float_str (PStr s) = float_str s"
| "py_float float_str v = Inl TypeError"

definition float_or_zero :: "(string \<Rightarrow> pyval pyres) \<Rightarrow> pyval \<Rightarrow> pyval pyres" where
  "float_or_zero float_str v = py_float float_str (py_or v (PInt 0))"

fun py_neg :: "pyval \<Rightarrow> pyval" where
  "py_neg (PFloat q) = PFloat (- q)"
| "py_neg (PInf b) = PInf (\<not> b)"
| "py_neg (PInt i) = PInt (- i)"
| "py_neg (PBool b) = PInt (if b then - 1 else 0)"
| "py_neg v = v"

text \<open>The snapshot of the counters.\<close>

fun floats_of :: "(string \<Rightarrow> pyval pyres) \<Rightarrow> (string \<times> pyval) list \<Rightarrow> (string, pyval) dict \<Rightarrow> (string, pyval) dict pyres" where
  "floats_of float_str [] acc = Inr acc"
| "floats_of float_str ((k, v) # rest) acc =
     (case float_or_zero float_str v of
        Inl e \<Rightarrow> Inl e
      | Inr f \<Rightarrow> floats_of float_str rest (AList.update k f acc))"

text \<open>The merge of the answers of Redis into the counters.\<close>

fun merge_loop ::
  "py_runtime \<Rightarrow> (string \<Rightarrow> pyval pyres) \<Rightarrow> time \<Rightarrow> (string, pyval) dict \<Rightarrow> (string, pyval) dict \<Rightarrow> string list \<Rightarrow> imc \<Rightarrow> unit pyres \<times> imc" where
  "merge_loop rt float_str now in_memory_before redis_values [] c = (Inr (), c)"
| "merge_loop rt float_str now in_memory_before redis_values (key # keys) c =
     (case float_or_zero float_str (dict_get redis_values key (PInt 0)) of Inl e \<Rightarrow> (Inl e, c) | Inr redis_val \<Rightarrow>
      case float_or_zero float_str (dict_get in_memory_before key (PInt 0)) of Inl e \<Rightarrow> (Inl e, c) | Inr before \<Rightarrow>
      case imc_get_cache now key c of (v, c1) \<Rightarrow>
      case float_or_zero float_str v of Inl e \<Rightarrow> (Inl e, c1) | Inr after \<Rightarrow>
      case py_add after (py_neg before) of Inl e \<Rightarrow> (Inl e, c1) | Inr delta \<Rightarrow>
      case py_ge redis_val after of
        Inl e \<Rightarrow> (Inl e, c1)
      | Inr False \<Rightarrow> merge_loop rt float_str now in_memory_before redis_values keys c1
      | Inr True \<Rightarrow>
        (case py_add redis_val delta of
           Inl e \<Rightarrow> (Inl e, c1)
         | Inr merged \<Rightarrow>
           (case imc_set_cache rt now key merged None c1 of
              (Inl e, c2) \<Rightarrow> (Inl e, c2)
            | (Inr _, c2) \<Rightarrow> merge_loop rt float_str now in_memory_before redis_values keys c2)))"

text \<open>
  \<^verbatim>\<open>_sync_in_memory_spend_with_redis\<close> up to the call of Redis: the keys, the snapshot and the push
  that is under way, if it comes to that. Exceptions are logged and dropped.
\<close>

record pending_sync =
  cache_keys_list :: "string list"
  in_memory_before :: "(string, pyval) dict"
  pending_push :: push

definition sync_begin :: "(string \<Rightarrow> pyval pyres) \<Rightarrow> time \<Rightarrow> 'r strategy \<Rightarrow> pending_sync option \<times> 'r strategy" where
  "sync_begin float_str now s =
     (if redis_cache (dual_cache s) = None then (None, s)
      else
        (let keys = in_memory_keys_to_update s;
             (values, c) = imc_batch_get_cache now keys (mem_of s);
             s1 = strategy_mem s c in
         case floats_of float_str (zip keys values) [] of
           Inl _ \<Rightarrow> (None, s1)
         | Inr before \<Rightarrow>
           (case push_begin s1 of
              (None, s2) \<Rightarrow> (None, s2)
            | (Some p, s2) \<Rightarrow> (Some \<lparr>cache_keys_list = keys, in_memory_before = before, pending_push = p\<rparr>, s2))))"

definition sync_end ::
  "'r redis_ops \<Rightarrow> py_runtime \<Rightarrow> (string \<Rightarrow> pyval pyres) \<Rightarrow> time \<Rightarrow> pending_sync \<Rightarrow> 'r strategy \<Rightarrow> 'r strategy" where
  "sync_end ops rt float_str now p s =
     (case push_to_redis ops (pending_push p) s of
        (None, s1) \<Rightarrow> s1
      | (Some redis_values, s1) \<Rightarrow>
        strategy_mem s1 (snd (merge_loop rt float_str now (in_memory_before p) redis_values (cache_keys_list p) (mem_of s1))))"

definition sync_in_memory_spend_with_redis ::
  "'r redis_ops \<Rightarrow> py_runtime \<Rightarrow> (string \<Rightarrow> pyval pyres) \<Rightarrow> time \<Rightarrow> time \<Rightarrow> 'r strategy \<Rightarrow> 'r strategy" where
  "sync_in_memory_spend_with_redis ops rt float_str now now' s =
     (case sync_begin float_str now s of
        (None, s1) \<Rightarrow> s1
      | (Some p, s1) \<Rightarrow> sync_end ops rt float_str now' p s1)"

text \<open>
  The periodic task beside requests: increments may come while it waits for Redis. \<open>sync_run\<close> also lists
  the increments whose calls returned.
\<close>

datatype sync_event = Increment time string pyval int | SyncBegin time | SyncEnd time

type_synonym 'r sync_state = "'r strategy \<times> pending_sync option \<times> (string \<times> pyval) list"

fun sync_step ::
  "'r redis_ops \<Rightarrow> py_runtime \<Rightarrow> (string \<Rightarrow> pyval pyres) \<Rightarrow> sync_event \<Rightarrow> 'r sync_state \<Rightarrow> 'r sync_state" where
  "sync_step ops rt float_str (Increment now key value ttl) (s, p, counted) =
     (case increment_value_in_current_window rt now key value ttl s of
        (Inl _, s1) \<Rightarrow> (s1, p, counted)
      | (Inr _, s1) \<Rightarrow> (s1, p, counted @ [(key, value)]))"
| "sync_step ops rt float_str (SyncBegin now) (s, p, counted) =
     (case p of
        Some _ \<Rightarrow> (s, p, counted)
      | None \<Rightarrow> (case sync_begin float_str now s of (p1, s1) \<Rightarrow> (s1, p1, counted)))"
| "sync_step ops rt float_str (SyncEnd now) (s, p, counted) =
     (case p of None \<Rightarrow> (s, p, counted) | Some p1 \<Rightarrow> (sync_end ops rt float_str now p1 s, None, counted))"

definition sync_run ::
  "'r redis_ops \<Rightarrow> py_runtime \<Rightarrow> (string \<Rightarrow> pyval pyres) \<Rightarrow> sync_event list \<Rightarrow> 'r strategy \<Rightarrow> 'r sync_state" where
  "sync_run ops rt float_str events s = fold (sync_step ops rt float_str) events (s, None, [])"

subsection \<open>Batch reads without Redis\<close>

lemma batch_get_keeps_peek: "imc_peek t k (snd (imc_batch_get_cache t ks c)) = imc_peek t k c"
proof (induction ks arbitrary: c)
  case (Cons j ks)
  have "imc_peek t k (snd (imc_get_cache t j c)) = imc_peek t k c" by (simp add: imc_peek_get)
  then show ?case using Cons [of "snd (imc_get_cache t j c)"] by (simp add: case_prod_beta)
qed simp

lemma batch_get_local:
  assumes "redis_cache d = None"
  shows "dual_batch_get_cache ops rt t t' ks lo ttl d =
    (Some (map (\<lambda>k. dual_peek t k d) ks), d\<lparr>in_memory_cache := snd (imc_batch_get_cache t ks (in_memory_cache d))\<rparr>)"
  using assms imc_batch_get_cache_eq [of t ks "in_memory_cache d"] by (simp add: dual_batch_get_cache_def with_mem_def dual_peek_def)

subsection \<open>No increment is lost\<close>

definition rat_of :: "pyval \<Rightarrow> rat" where
  "rat_of v = (case as_rat v of Some q \<Rightarrow> q | None \<Rightarrow> 0)"

definition amount :: "string \<Rightarrow> (string \<times> pyval) list \<Rightarrow> rat" where
  "amount k xs = sum_list (map (rat_of \<circ> snd) (filter (\<lambda>x. fst x = k) xs))"

definition op_pair :: "increment_op \<Rightarrow> string \<times> pyval" where
  "op_pair o1 = (op_key o1, increment_value o1)"

abbreviation op_amount :: "string \<Rightarrow> increment_op list \<Rightarrow> rat" where
  "op_amount k q \<equiv> amount k (map op_pair q)"

definition numeric :: "increment_op \<Rightarrow> bool" where
  "numeric o1 \<longleftrightarrow> as_rat (increment_value o1) \<noteq> None"

lemma amount_simps [simp]:
  "amount k [] = 0"
  "amount k (x # xs) = (if fst x = k then rat_of (snd x) else 0) + amount k xs"
  "amount k (xs @ ys) = amount k xs + amount k ys"
  by (simp_all add: amount_def)

lemma add_rats:
  assumes "as_rat a = Some x" "as_rat b = Some y"
  shows "\<exists>v. py_add a b = Inr v \<and> as_rat v = Some (x + y)"
  using assms by (cases a; cases b) (auto simp: py_add_def)

text \<open>The dict of the compression: the sums of the operations before position \<open>i\<close>.\<close>

definition compressed_upto :: "nat \<Rightarrow> increment_op list \<Rightarrow> (string, nat) dict \<Rightarrow> increment_op list \<Rightarrow> bool" where
  "compressed_upto i q0 m q \<longleftrightarrow> length q = length q0 \<and> drop i q = drop i q0 \<and> dict_wf m \<and> (\<forall>o1 \<in> set q. numeric o1) \<and>
     (\<forall>k j. map_of m k = Some j \<longrightarrow> j < i \<and> op_key (q ! j) = k) \<and>
     (\<forall>k. op_amount k (take i q0) = (case map_of m k of None \<Rightarrow> 0 | Some j \<Rightarrow> rat_of (increment_value (q ! j))))"

lemma compressed_step_new:
  assumes c: "compressed_upto i q0 m q" "i < length q0" and n: "map_of m (op_key (q ! i)) = None"
  shows "compressed_upto (Suc i) q0 (AList.update (op_key (q ! i)) i m) q"
proof -
  have d: "length q = length q0" "drop i q = drop i q0" using c(1) by (simp_all add: compressed_upto_def)
  have qi: "q ! i = q0 ! i" "drop (Suc i) q = drop (Suc i) q0" using d assms(2) by (metis Cons_nth_drop_Suc list.inject)+
  have "op_amount k (take (Suc i) q0) = (case map_of (AList.update (op_key (q ! i)) i m) k of
      None \<Rightarrow> 0 | Some j \<Rightarrow> rat_of (increment_value (q ! j)))" for k
    using c n unfolding take_Suc_conv_app_nth [OF assms(2)]
    by (auto simp: compressed_upto_def op_pair_def qi(1))
  moreover have "\<forall>k j. map_of (AList.update (op_key (q ! i)) i m) k = Some j \<longrightarrow> j < Suc i \<and> op_key (q ! j) = k"
  proof (intro allI impI)
    fix k j assume a: "map_of (AList.update (op_key (q ! i)) i m) k = Some j"
    show "j < Suc i \<and> op_key (q ! j) = k"
    proof (cases "k = op_key (q ! i)")
      case False
      then have "map_of m k = Some j" using a by simp
      then have "j < i \<and> op_key (q ! j) = k" using c(1) unfolding compressed_upto_def by blast
      then show ?thesis by simp
    qed (use a in simp)
  qed
  moreover have "dict_wf (AList.update (op_key (q ! i)) i m)" "\<forall>o1 \<in> set q. numeric o1"
    using c(1) by (auto simp: compressed_upto_def)
  ultimately show ?thesis using d(1) qi(2) unfolding compressed_upto_def by blast
qed

lemma compressed_step_add:
  assumes c: "compressed_upto i q0 m q" "i < length q0" and j: "map_of m (op_key (q ! i)) = Some j"
  shows "\<exists>v. py_add (increment_value (q ! j)) (increment_value (q ! i)) = Inr v \<and>
    compressed_upto (Suc i) q0 m (q[j := (q ! j)\<lparr>increment_value := v\<rparr>])"
proof -
  have d: "length q = length q0" "drop i q = drop i q0" using c(1) by (simp_all add: compressed_upto_def)
  have qi: "q ! i = q0 ! i" "drop (Suc i) q = drop (Suc i) q0" using d assms(2) by (metis Cons_nth_drop_Suc list.inject)+
  have ji: "j < i" "op_key (q ! j) = op_key (q ! i)" using c(1) j by (auto simp: compressed_upto_def)
  have "q ! j \<in> set q" "q ! i \<in> set q" using ji assms(2) d(1) by simp_all
  then have "numeric (q ! j)" "numeric (q ! i)" using c(1) unfolding compressed_upto_def by blast+
  then obtain x y where xy: "as_rat (increment_value (q ! j)) = Some x" "as_rat (increment_value (q ! i)) = Some y"
    by (auto simp: numeric_def)
  then obtain v where v: "py_add (increment_value (q ! j)) (increment_value (q ! i)) = Inr v" "as_rat v = Some (x + y)"
    using add_rats by blast
  let ?q = "q[j := (q ! j)\<lparr>increment_value := v\<rparr>]"
  have "op_amount k (take (Suc i) q0) = (case map_of m k of None \<Rightarrow> 0 | Some l \<Rightarrow> rat_of (increment_value (?q ! l)))" for k
  proof -
    have inj: "l = j \<Longrightarrow> k = op_key (q ! i)" if "map_of m k = Some l" for l using c(1) that ji by (auto simp: compressed_upto_def)
    have jl: "j < length q" using ji d assms(2) by simp
    show ?thesis
      using c(1) j xy v(2) inj jl unfolding take_Suc_conv_app_nth [OF assms(2)]
      by (auto simp: compressed_upto_def op_pair_def qi(1) rat_of_def nth_list_update split: option.splits)
  qed
  moreover have "\<forall>o1 \<in> set ?q. numeric o1"
  proof
    fix o1 assume "o1 \<in> set ?q"
    then have "o1 = (q ! j)\<lparr>increment_value := v\<rparr> \<or> o1 \<in> set q" using set_update_subset_insert [of q j] by blast
    then show "numeric o1" using c(1) v(2) by (auto simp: compressed_upto_def numeric_def)
  qed
  moreover have "\<forall>k l. map_of m k = Some l \<longrightarrow> l < Suc i \<and> op_key (?q ! l) = k"
    using c(1) ji d assms(2) by (auto simp: compressed_upto_def nth_list_update less_SucI)
  ultimately show ?thesis using v(1) c(1) qi(2) ji(1) by (auto simp: compressed_upto_def)
qed

lemma compress_loop_sums:
  assumes "compressed_upto i q0 m q" "i \<le> length q0"
  shows "\<exists>m' q'. compress_loop [i..<length q0] m q = (Inr m', q') \<and> compressed_upto (length q0) q0 m' q'"
  using assms
proof (induction "length q0 - i" arbitrary: i m q)
  case 0
  then show ?case by simp
next
  case (Suc n)
  then have i: "i < length q0" "[i..<length q0] = i # [Suc i..<length q0]" by (simp_all add: upt_conv_Cons)
  show ?case
  proof (cases "map_of m (op_key (q ! i))")
    case None
    from Suc.hyps(1) [OF _ compressed_step_new [OF Suc.prems(1) i(1) None]] Suc.hyps(2) i show ?thesis by (simp add: None)
  next
    case (Some j)
    from compressed_step_add [OF Suc.prems(1) i(1) Some] obtain v where
      v: "py_add (increment_value (q ! j)) (increment_value (q ! i)) = Inr v"
        "compressed_upto (Suc i) q0 m (q[j := (q ! j)\<lparr>increment_value := v\<rparr>])" by blast
    from Suc.hyps(1) [OF _ v(2)] Suc.hyps(2) i show ?thesis by (simp add: Some v(1))
  qed
qed

lemma op_amount_compressed:
  assumes "dict_wf m" "\<forall>(k, j) \<in> set m. op_key (q ! j) = k"
  shows "op_amount k (map (\<lambda>(_, j). q ! j) m) = (case map_of m k of None \<Rightarrow> 0 | Some j \<Rightarrow> rat_of (increment_value (q ! j)))"
  using assms
proof (induction m)
  case (Cons x m)
  obtain k' j where x: "x = (k', j)" by (cases x)
  show ?case
  proof (cases "k' = k")
    case True
    then have "map_of m k = None" using Cons.prems x by (auto simp: map_of_eq_None_iff)
    then show ?thesis using Cons x True by (auto simp: op_pair_def)
  qed (use Cons x in \<open>auto simp: op_pair_def\<close>)
qed simp

lemma compress_all:
  assumes "\<forall>o1 \<in> set q. numeric o1"
  shows "\<exists>m q'. compress_loop [0..<length q] [] q = (Inr m, q') \<and> length q' = length q \<and>
    (\<forall>k. op_amount k (map (\<lambda>(_, j). q' ! j) m) = op_amount k q) \<and> (\<forall>o1 \<in> set (map (\<lambda>(_, j). q' ! j) m). numeric o1)"
proof -
  have "compressed_upto 0 q [] q" using assms by (simp add: compressed_upto_def)
  from compress_loop_sums [OF this] obtain m q' where
    m: "compress_loop [0..<length q] [] q = (Inr m, q')" "compressed_upto (length q) q m q'" by auto
  have "\<forall>(k, j) \<in> set m. op_key (q' ! j) = k" using m(2) by (auto simp: compressed_upto_def dest: map_of_is_SomeI)
  then have "op_amount k (map (\<lambda>(_, j). q' ! j) m) = op_amount k q" for k
    using op_amount_compressed [of m q' k] m(2) by (simp add: compressed_upto_def)
  moreover have "numeric (q' ! j)" if "(k, j) \<in> set m" for k j
  proof -
    have "map_of m k = Some j" using that m(2) by (simp add: compressed_upto_def)
    then have "j < length q'" using m(2) by (auto simp: compressed_upto_def)
    then show ?thesis using m(2) unfolding compressed_upto_def by (metis nth_mem)
  qed
  ultimately show ?thesis using m by (auto simp: compressed_upto_def)
qed

text \<open>
  What the code relies on: a pipeline of increments that Redis takes adds every operation to the
  counter of its key.
\<close>

definition counts_increments :: "'r redis_ops \<Rightarrow> ('r \<Rightarrow> string \<Rightarrow> rat) \<Rightarrow> bool" where
  "counts_increments ops redis_total \<longleftrightarrow>
     (\<forall>l r. (\<forall>o1 \<in> set l. numeric o1) \<longrightarrow>
       (\<exists>vs r'. r_increment_pipeline ops l r = (Inr vs, r') \<and> (\<forall>k. redis_total r' k = redis_total r k + op_amount k l)))"

text \<open>What is still to be pushed: while a push is under way, its operations and those queued behind them.\<close>

definition unpushed :: "pending_sync option \<Rightarrow> 'r strategy \<Rightarrow> increment_op list" where
  "unpushed p s =
     (case p of
        None \<Rightarrow> redis_increment_operation_queue s
      | Some p1 \<Rightarrow> fst (pending_push p1) @ drop (snd (pending_push p1)) (redis_increment_operation_queue s))"

definition conserved :: "('r \<Rightarrow> string \<Rightarrow> rat) \<Rightarrow> 'r \<Rightarrow> 'r sync_state \<Rightarrow> bool" where
  "conserved redis_total r0 = (\<lambda>(s, p, counted). \<exists>r. redis_cache (dual_cache s) = Some r \<and>
     (\<forall>k. redis_total r k + op_amount k (unpushed p s) = redis_total r0 k + amount k counted) \<and>
     (\<forall>o1 \<in> set (unpushed p s). numeric o1) \<and>
     (case p of None \<Rightarrow> True | Some p1 \<Rightarrow> snd (pending_push p1) \<le> length (redis_increment_operation_queue s)))"

lemma strategy_mem_simps [simp]:
  "redis_increment_operation_queue (strategy_mem s c) = redis_increment_operation_queue s"
  "in_memory_keys_to_update (strategy_mem s c) = in_memory_keys_to_update s"
  "redis_cache (dual_cache (strategy_mem s c)) = redis_cache (dual_cache s)"
  "mem_of (strategy_mem s c) = c"
  "unpushed p (strategy_mem s c) = unpushed p s"
  by (simp_all add: strategy_mem_def unpushed_def split: option.split)

lemma conserved_mem [simp]: "conserved T r (strategy_mem s c, p, n) = conserved T r (s, p, n)"
  by (simp add: conserved_def split: option.split)

lemma conserved_increment:
  assumes "conserved T r (s, p, n)" "as_rat v \<noteq> None"
  shows "conserved T r (sync_step ops rt fs (Increment now k v ttl) (s, p, n))"
proof (cases "imc_increment_cache rt now k v (Some (of_int ttl)) (mem_of s)")
  case (Pair x c)
  show ?thesis
  proof (cases x)
    case (Inl e)
    then show ?thesis using assms(1) by (simp add: Pair increment_value_in_current_window_def)
  next
    case (Inr w)
    then show ?thesis using assms Pair
      by (cases p) (auto simp: increment_value_in_current_window_def conserved_def unpushed_def op_pair_def numeric_def algebra_simps)
  qed
qed

lemma conserved_push_begin:
  assumes "conserved T r (s, None, n)" "push_begin s = (p, s1)"
  shows "case p of None \<Rightarrow> conserved T r (s1, None, n)
    | Some p1 \<Rightarrow> conserved T r (s1, Some \<lparr>cache_keys_list = ks, in_memory_before = b, pending_push = p1\<rparr>, n)"
proof (cases "redis_cache (dual_cache s) = None \<or> redis_increment_operation_queue s = []")
  case True
  then show ?thesis using assms by (auto simp: push_begin_def Let_def)
next
  case False
  let ?q = "redis_increment_operation_queue s"
  have num: "\<forall>o1 \<in> set ?q. numeric o1" using assms(1) by (auto simp: conserved_def unpushed_def)
  from compress_all [OF num] obtain m q where q: "compress_loop [0..<length ?q] [] ?q = (Inr m, q)" "length q = length ?q"
    "\<And>k. op_amount k (map (\<lambda>(_, j). q ! j) m) = op_amount k ?q" "\<forall>o1 \<in> set (map (\<lambda>(_, j). q ! j) m). numeric o1" by blast
  have "p = Some (map (\<lambda>(_, j). q ! j) m, length ?q)" "s1 = s\<lparr>redis_increment_operation_queue := q\<rparr>"
    using assms(2) False q(1) by (auto simp: push_begin_def Let_def)
  then show ?thesis using assms(1) q(2-4) by (auto simp: conserved_def unpushed_def)
qed

lemma conserved_sync_begin:
  assumes "conserved T r (s, None, n)"
  shows "conserved T r (sync_step ops rt fs (SyncBegin now) (s, None, n))"
proof (cases "redis_cache (dual_cache s) = None")
  case True
  then show ?thesis using assms by (simp add: sync_begin_def)
next
  case False
  obtain vs c where v: "imc_batch_get_cache now (in_memory_keys_to_update s) (mem_of s) = (vs, c)" by fastforce
  obtain p s1 where p: "push_begin (strategy_mem s c) = (p, s1)" by fastforce
  have "conserved T r (strategy_mem s c, None, n)" using assms by simp
  note b = conserved_push_begin [OF this p]
  show ?thesis
    using False assms b by (cases "floats_of fs (zip (in_memory_keys_to_update s) vs) []"; cases p)
      (simp_all add: sync_begin_def v p)
qed

lemma conserved_sync_end:
  assumes "conserved T r (s, Some p, n)" "counts_increments ops T"
  shows "conserved T r (sync_step ops rt fs (SyncEnd now) (s, Some p, n))"
proof -
  let ?l = "fst (pending_push p)" and ?rest = "drop (snd (pending_push p)) (redis_increment_operation_queue s)"
  from assms(1) obtain r1 where r1: "redis_cache (dual_cache s) = Some r1" "\<forall>o1 \<in> set ?l \<union> set ?rest. numeric o1"
    "\<And>k. T r1 k + op_amount k ?l + op_amount k ?rest = T r k + amount k n"
    by (auto simp: conserved_def unpushed_def algebra_simps)
  obtain vs r2 where r2: "r_increment_pipeline ops ?l r1 = (Inr vs, r2)" "\<And>k. T r2 k = T r1 k + op_amount k ?l"
    using assms(2) r1(2) unfolding counts_increments_def by (metis Un_iff)
  let ?s = "s\<lparr>dual_cache := (dual_cache s)\<lparr>redis_cache := Some r2\<rparr>, redis_increment_operation_queue := ?rest\<rparr>"
  obtain m where "push_to_redis ops (pending_push p) s = (Some m, ?s)"
    using r1(1) r2(1) by (simp add: push_to_redis_def push_end_def with_redis_def)
  then have "sync_step ops rt fs (SyncEnd now) (s, Some p, n) =
      (strategy_mem ?s (snd (merge_loop rt fs now (in_memory_before p) m (cache_keys_list p) (mem_of ?s))), None, n)"
    by (simp add: sync_end_def)
  moreover have "conserved T r (?s, None, n)" using r1 r2(2) by (auto simp: conserved_def unpushed_def)
  ultimately show ?thesis by simp
qed

lemma conserved_step:
  assumes "conserved T r (s, p, n)" "counts_increments ops T" "case e of Increment _ _ v _ \<Rightarrow> as_rat v \<noteq> None | _ \<Rightarrow> True"
  shows "conserved T r (sync_step ops rt fs e (s, p, n))"
proof (cases e)
  case (Increment t k v ttl)
  then show ?thesis using conserved_increment [OF assms(1)] assms(3) by simp
next
  case (SyncBegin t)
  then show ?thesis using conserved_sync_begin [of T r s n] assms(1) by (cases p) simp_all
next
  case (SyncEnd t)
  then show ?thesis using conserved_sync_end [of T r s _ n] assms(1,2) by (cases p) simp_all
qed

lemma conserved_run:
  assumes "counts_increments ops T" "\<forall>e \<in> set es. case e of Increment _ _ v _ \<Rightarrow> as_rat v \<noteq> None | _ \<Rightarrow> True"
    and "conserved T r x"
  shows "conserved T r (fold (sync_step ops rt fs) es x)"
  using assms(2,3)
proof (induction es arbitrary: x)
  case (Cons e es)
  have "conserved T r (sync_step ops rt fs e x)"
    using conserved_step [of T r "fst x" "fst (snd x)" "snd (snd x)"] Cons.prems assms(1) by simp
  then show ?case using Cons by simp
qed simp

text \<open>
  Property C4. While Redis takes the pushes, whatever requests come between and during the
  synchronisations, for every key what Redis has counted and what is still to be pushed amount to
  the increments whose calls returned; nothing is lost or pushed twice.
\<close>

theorem increments_conserved:
  assumes "counts_increments ops redis_total" "redis_cache (dual_cache s) = Some r" "redis_increment_operation_queue s = []"
    and "\<forall>e \<in> set events. case e of Increment _ _ v _ \<Rightarrow> as_rat v \<noteq> None | _ \<Rightarrow> True"
    and "sync_run ops rt float_str events s = (s', p, counted)"
  shows "\<exists>r'. redis_cache (dual_cache s') = Some r' \<and>
    (\<forall>k. redis_total r' k + op_amount k (unpushed p s') = redis_total r k + amount k counted)"
proof -
  have "conserved redis_total r (s, None, [])" using assms(2,3) by (simp add: conserved_def unpushed_def)
  from conserved_run [OF assms(1,4) this, of rt float_str] show ?thesis
    using assms(5) by (auto simp: sync_run_def conserved_def)
qed

text \<open>A Redis that counts, and one that fails.\<close>

fun count_ops :: "increment_op list \<Rightarrow> (string, pyval) dict \<Rightarrow> pyval list pyres \<times> (string, pyval) dict" where
  "count_ops [] r = (Inr [], r)"
| "count_ops (o1 # l) r =
     (let v = PFloat (rat_of (dict_get r (op_key o1) (PInt 0)) + rat_of (increment_value o1)) in
      case count_ops l (AList.update (op_key o1) v r) of
        (Inl e, r1) \<Rightarrow> (Inl e, r1)
      | (Inr vs, r1) \<Rightarrow> (Inr (v # vs), r1))"

abbreviation redis_counting :: "(string, pyval) dict redis_ops" where
  "redis_counting \<equiv> redis_up\<lparr>r_increment_pipeline := (\<lambda>l r. case count_ops l r of (x, r1) \<Rightarrow> (map_sum id Some x, r1))\<rparr>"

lemma count_ops_total: "\<exists>vs r'. count_ops l r = (Inr vs, r') \<and>
    (\<forall>k. rat_of (dict_get r' k (PInt 0)) = rat_of (dict_get r k (PInt 0)) + op_amount k l)"
proof (induction l arbitrary: r)
  case (Cons o1 l)
  let ?v = "PFloat (rat_of (dict_get r (op_key o1) (PInt 0)) + rat_of (increment_value o1))"
  from Cons [of "AList.update (op_key o1) ?v r"] show ?case
    by (auto simp: Let_def dict_get_update op_pair_def rat_of_def)
qed simp

lemma counting_counts: "counts_increments redis_counting (\<lambda>r k. rat_of (dict_get r k (PInt 0)))"
  unfolding counts_increments_def
proof (intro allI impI)
  fix l r
  from count_ops_total [of l r] obtain vs r' where "count_ops l r = (Inr vs, r')"
    "\<forall>k. rat_of (dict_get r' k (PInt 0)) = rat_of (dict_get r k (PInt 0)) + op_amount k l" by blast
  then show "\<exists>vs r'. r_increment_pipeline redis_counting l r = (Inr vs, r') \<and>
    (\<forall>k. rat_of (dict_get r' k (PInt 0)) = rat_of (dict_get r k (PInt 0)) + op_amount k l)" by simp
qed

abbreviation fresh_strategy :: "(string, pyval) dict strategy" where
  "fresh_strategy \<equiv> \<lparr>dual_cache = dual0, redis_increment_operation_queue = [], in_memory_keys_to_update = []\<rparr>"

abbreviation some_events :: "sync_event list" where
  "some_events \<equiv> [Increment 0 ''k'' (PInt 2) 60, Increment 0 ''k'' (PInt 3) 60, SyncBegin 1, Increment 2 ''k'' (PInt 4) 60]"

lemma sync_run_end:
  "snd (sync_run ops rt fs (es @ [SyncEnd t]) s) = (None, snd (snd (sync_run ops rt fs es s)))"
  by (cases "fold (sync_step ops rt fs) es (s, None, [])"; cases "fst (snd (fold (sync_step ops rt fs) es (s, None, [])))")
    (simp_all add: sync_run_def)

lemma pair_with_snd: "snd x = b \<Longrightarrow> \<exists>a. x = (a, b)"
  by (cases x) simp

theorem increments_conserved_witness:
  "\<exists>s' r'. sync_run redis_counting rt0 (\<lambda>_. Inl ValueError) (some_events @ [SyncEnd 3]) fresh_strategy =
      (s', None, [(''k'', PInt 2), (''k'', PInt 3), (''k'', PInt 4)]) \<and>
    redis_cache (dual_cache s') = Some r' \<and> rat_of (dict_get r' ''k'' (PInt 0)) + op_amount ''k'' (redis_increment_operation_queue s') = 14"
proof -
  let ?x = "sync_run redis_counting rt0 (\<lambda>_. Inl ValueError) (some_events @ [SyncEnd 3]) fresh_strategy"
  let ?y = "sync_run redis_counting rt0 (\<lambda>_. Inl ValueError) some_events fresh_strategy"
  have y: "snd (snd ?y) = [(''k'', PInt 2), (''k'', PInt 3), (''k'', PInt 4)]" by code_simp
  have "snd ?x = (None, snd (snd ?y))" by (rule sync_run_end)
  note this [unfolded y]
  from pair_with_snd [OF this] obtain s' where x: "?x = (s', None, [(''k'', PInt 2), (''k'', PInt 3), (''k'', PInt 4)])" by (elim exE)
  have s: "redis_cache (dual_cache fresh_strategy) = Some [(''k'', PInt 5)]" "redis_increment_operation_queue fresh_strategy = []"
    by (simp_all add: dual_init_def)
  have e: "\<forall>e \<in> set (some_events @ [SyncEnd 3]). case e of Increment _ _ v _ \<Rightarrow> as_rat v \<noteq> None | _ \<Rightarrow> True" by simp
  from increments_conserved [OF counting_counts s e x] obtain r' where "redis_cache (dual_cache s') = Some r'"
    "rat_of (dict_get r' ''k'' (PInt 0)) + op_amount ''k'' (unpushed None s') =
     rat_of (dict_get [(''k'', PInt 5)] ''k'' (PInt 0)) + amount ''k'' [(''k'', PInt 2), (''k'', PInt 3), (''k'', PInt 4)]" by blast
  then show ?thesis using x by (simp add: unpushed_def rat_of_def dict_get_def)
qed

text \<open>
  When Redis raises, all queued increments are lost, those that came in while it was waited for too.
\<close>

lemma failed_push_loses_increments: "push_end p (Inl e) s = (None, s\<lparr>redis_increment_operation_queue := []\<rparr>)"
  by (simp add: push_end_def)

subsection \<open>What a merge leaves in memory\<close>

lemma merge_step:
  assumes "float_or_zero fs (dict_get rv k (PInt 0)) = Inr (PFloat r)" "float_or_zero fs (dict_get b k (PInt 0)) = Inr (PFloat x)"
    and "float_or_zero fs (imc_peek t k c) = Inr (PFloat a)" "imc_usable None c"
  shows "merge_loop rt fs t b rv (k # ks) c = merge_loop rt fs t b rv ks
    (if a \<le> r then imc_put rt None t k (PFloat (r + (a - x))) (imc_after_get t k c) else imc_after_get t k c)"
proof -
  have g: "imc_get_cache t k c = (imc_peek t k c, imc_after_get t k c)" by (simp add: imc_peek_def imc_after_get_def)
  have u: "imc_usable None (imc_after_get t k c)" using imcs.get_invar [OF assms(4)] .
  have "fst (imc_set_cache rt t k v None (imc_after_get t k c)) = Inr ()" for v
    using imc_set_cache_total [of "imc_after_get t k c"] u unfolding imc_usable_def by (metis fst_conv less_imp_le)
  then have set: "imc_set_cache rt t k v None (imc_after_get t k c) = (Inr (), imc_put rt None t k v (imc_after_get t k c))" for v
    by (simp add: imc_put_def prod_eq_iff)
  show ?thesis
    by (auto simp: assms(1-3) g set py_ge_def num_lt_def is_number_def)
qed

lemma put_room:
  "int (length (cache_dict c)) + 1 \<le> max_size_in_memory c \<Longrightarrow> int (length (cache_dict (imc_put rt ttl t k v c))) \<le> int (length (cache_dict c)) + 1"
  using length_update_le [of k v "cache_dict c"]
  by (auto simp: imc_put_def imc_set_cache_eq make_room_def imc_store_def Let_def)

lemma merge_loop_peek:
  assumes "distinct ks" "imc_usable None c" "int (length (cache_dict c)) + int (length ks) < max_size_in_memory c"
    and "\<forall>q. check_value_size rt c (PFloat q)"
    and "\<forall>k \<in> set ks. float_or_zero fs (dict_get rv k (PInt 0)) = Inr (PFloat (r k)) \<and>
      float_or_zero fs (dict_get b k (PInt 0)) = Inr (PFloat (x k)) \<and> float_or_zero fs (imc_peek t k c) = Inr (PFloat (a k))"
  shows "fst (merge_loop rt fs t b rv ks c) = Inr () \<and>
    imc_peek t j (snd (merge_loop rt fs t b rv ks c)) =
      (if j \<in> set ks \<and> a j \<le> r j then PFloat (r j + (a j - x j)) else imc_peek t j c)"
  using assms
proof (induction ks arbitrary: c)
  case (Cons k ks)
  let ?c1 = "imc_after_get t k c" and ?v = "PFloat (r k + (a k - x k))"
  let ?c = "if a k \<le> r k then imc_put rt None t k ?v ?c1 else ?c1"
  have u1: "imc_usable None ?c1" using imcs.get_invar [OF Cons.prems(2)] .
  have l1: "length (cache_dict ?c1) \<le> length (cache_dict c)" "max_size_in_memory ?c1 = max_size_in_memory c"
    using remove_key_size [of k c] by (auto simp: imc_after_get_def imc_get_cache_state) (simp add: remove_key_def)
  have room1: "int (length (cache_dict ?c1)) < max_size_in_memory ?c1" using l1 Cons.prems(3) by simp
  have u: "imc_usable None ?c" using u1 imcs.put_invar [OF u1] by simp
  have "same_config ?c1 (imc_put rt None t k ?v ?c1)" using imc_put_inv u1 unfolding imc_usable_def by blast
  then have l: "int (length (cache_dict ?c)) + int (length ks) < max_size_in_memory ?c"
    using put_room [of ?c1 rt None t k ?v] room1 l1 Cons.prems(3) by (auto simp: same_config_def)
  have f: "\<forall>q. check_value_size rt ?c (PFloat q)"
    using Cons.prems(4) imcs.fits_get [OF Cons.prems(2)] imcs.fits_put [OF u1] by simp
  have pk: "imc_peek t i ?c = (if i = k \<and> a k \<le> r k then ?v else imc_peek t i c)" for i
  proof -
    have "imc_peek t k (imc_put rt None t k ?v ?c1) = ?v"
      using imcs.peek_put_same [OF u1] Cons.prems(4) imcs.fits_get [OF Cons.prems(2)] by (simp add: json_view_def)
    moreover have "i \<noteq> k \<Longrightarrow> imc_peek t i (imc_put rt None t k ?v ?c1) = imc_peek t i ?c1"
      using imcs.peek_put_other [OF u1 room1] by blast
    ultimately show ?thesis using imcs.peek_get [OF Cons.prems(2), of t i k] by auto
  qed
  have step: "merge_loop rt fs t b rv (k # ks) c = merge_loop rt fs t b rv ks ?c"
    using merge_step [where rt = rt and t = t and c = c and ks = ks and a = "a k"] Cons.prems(2,5) by (meson list.set_intros(1))
  have "\<forall>j \<in> set ks. float_or_zero fs (dict_get rv j (PInt 0)) = Inr (PFloat (r j)) \<and>
      float_or_zero fs (dict_get b j (PInt 0)) = Inr (PFloat (x j)) \<and> float_or_zero fs (imc_peek t j ?c) = Inr (PFloat (a j))"
    using Cons.prems(1,5) unfolding pk by auto
  from Cons.IH [OF _ u l f this] Cons.prems(1) show ?case
    unfolding step pk by (auto split: if_splits)
qed simp

text \<open>
  When Redis answers a synchronisation with \<open>r k\<close> for a key that had \<open>x k\<close> in memory
  at its start and has \<open>a k\<close> now, memory gets the answer and what was counted meanwhile, unless it
  is ahead of the answer; all other keys keep their values.
\<close>

lemma sync_merges_answers:
  assumes "redis_cache (dual_cache s) = Some q" "r_increment_pipeline ops (fst (pending_push p)) q = (Inr answer, q')"
    and "distinct (cache_keys_list p)" "imc_usable None (mem_of s)" "\<forall>v. check_value_size rt (mem_of s) (PFloat v)"
    and "int (length (cache_dict (mem_of s))) + int (length (cache_keys_list p)) < max_size_in_memory (mem_of s)"
    and "\<forall>k \<in> set (cache_keys_list p).
      float_or_zero float_str (dict_get (answers_of (pending_push p) answer) k (PInt 0)) = Inr (PFloat (r k)) \<and>
      float_or_zero float_str (dict_get (in_memory_before p) k (PInt 0)) = Inr (PFloat (x k)) \<and>
      float_or_zero float_str (imc_peek now k (mem_of s)) = Inr (PFloat (a k))"
  shows "imc_peek now k (mem_of (sync_end ops rt float_str now p s)) =
    (if k \<in> set (cache_keys_list p) \<and> a k \<le> r k then PFloat (r k + (a k - x k)) else imc_peek now k (mem_of s))"
proof -
  have "mem_of (sync_end ops rt float_str now p s) =
    snd (merge_loop rt float_str now (in_memory_before p) (answers_of (pending_push p) answer) (cache_keys_list p) (mem_of s))"
    using assms(1,2) by (simp add: sync_end_def push_to_redis_def push_end_def with_redis_def)
  then show ?thesis using merge_loop_peek [OF assms(3,4,6,5,7), of k] by (simp del: merge_loop.simps)
qed

text \<open>
  A synchronisation with nothing to push returns before it reads Redis, so the counts of other
  instances stay unknown to an instance that has no traffic of its own.
\<close>

lemma idle_instance_not_synced:
  assumes "redis_increment_operation_queue s = []"
  shows "mem_of (sync_in_memory_spend_with_redis ops rt fs t t' s) \<in>
    {mem_of s, snd (imc_batch_get_cache t (in_memory_keys_to_update s) (mem_of s))}"
  using assms by (auto simp: sync_in_memory_spend_with_redis_def sync_begin_def push_begin_def Let_def split: prod.split sum.split)

end
