(* ===== verification/RateLimit.thy ===== *)
theory RateLimit
  imports RequestCounts
begin

text \<open>
  \<^verbatim>\<open>router_utils/pre_call_checks/model_rate_limit_check.py\<close>: the check that enforces the limits of
  a deployment. Requests of a minute are counted in the router's cache by an increment before the
  comparison; tokens are added when a request succeeds. An error of the check lets the request pass.
  The asynchronous methods have the same bodies up to \<^verbatim>\<open>await\<close>. The theory shows that within a
  minute a deployment admits exactly as many requests as its limit says.
\<close>

subsection \<open>Operations\<close>

definition routing_ttl :: rat where
  "routing_ttl = 60"

definition first_some :: "'a option list \<Rightarrow> 'a option" where
  "first_some ls = (case find (\<lambda>l. l \<noteq> None) ls of Some x \<Rightarrow> x | None \<Rightarrow> None)"

definition get_deployment_limits :: "deployment \<Rightarrow> rat option \<times> rat option" where
  "get_deployment_limits d =
     (first_some [top_tpm d, lp_tpm d, mi_tpm d], first_some [top_rpm d, lp_rpm d, mi_rpm d])"

definition get_cache_keys :: "deployment \<Rightarrow> string \<Rightarrow> string \<times> string" where
  "get_cache_keys d this_minute =
     (dep_id d @ '':'' @ dep_model d @ '':tpm:'' @ this_minute, dep_id d @ '':'' @ dep_model d @ '':rpm:'' @ this_minute)"

text \<open>True where the deployment is returned, False where \<^verbatim>\<open>RateLimitError\<close> is raised.\<close>

definition check_rpm ::
  "'r redis_ops \<Rightarrow> py_runtime \<Rightarrow> time \<Rightarrow> string \<Rightarrow> rat option \<Rightarrow> 'r dual \<Rightarrow> bool \<times> 'r dual" where
  "check_rpm ops rt t rpm_key rpm_limit d =
     (case rpm_limit of
        None \<Rightarrow> (True, d)
      | Some limit \<Rightarrow>
        (case dual_increment_cache ops rt t rpm_key (PInt 1) False (Some (Some routing_ttl)) d of
           (Inl _, d1) \<Rightarrow> (True, d1)
         | (Inr current_rpm, d1) \<Rightarrow>
           (current_rpm = PNone \<or> py_gt current_rpm (PFloat limit) \<noteq> Inr True, d1)))"

definition pre_call_check ::
  "'r redis_ops \<Rightarrow> py_runtime \<Rightarrow> time \<Rightarrow> datetime \<Rightarrow> deployment \<Rightarrow> 'r dual \<Rightarrow> bool \<times> 'r dual" where
  "pre_call_check ops rt t now deployment d =
     (let (tpm_limit, rpm_limit) = get_deployment_limits deployment;
          (tpm_key, rpm_key) = get_cache_keys deployment (current_minute now) in
      if tpm_limit = None \<and> rpm_limit = None then (True, d)
      else case tpm_limit of
        None \<Rightarrow> check_rpm ops rt t rpm_key rpm_limit d
      | Some limit \<Rightarrow>
        (case dual_get_cache ops rt t t tpm_key True None d of
           (current_tpm, d1) \<Rightarrow>
           if current_tpm = PNone then check_rpm ops rt t rpm_key rpm_limit d1
           else case py_ge current_tpm (PFloat limit) of
             Inl _ \<Rightarrow> (True, d1)
           | Inr True \<Rightarrow> (False, d1)
           | Inr False \<Rightarrow> check_rpm ops rt t rpm_key rpm_limit d1))"

text \<open>
  The tokens of a request that succeeded. The logging payload is a dict; a missing model or token
  count ends the event, and every exception does.
\<close>

definition rate_log_success_event ::
  "'r redis_ops \<Rightarrow> py_runtime \<Rightarrow> (pyval \<Rightarrow> string) \<Rightarrow> time \<Rightarrow> datetime \<Rightarrow> (string, pyval) dict \<Rightarrow> 'r dual \<Rightarrow> 'r dual" where
  "rate_log_success_event ops rt py_str t now kwargs d =
     (case map_of kwargs ''standard_logging_object'' of
        Some (PDict payload) \<Rightarrow>
          (let model_id = dict_get payload ''model_id'' PNone;
               tokens = dict_get payload ''total_tokens'' (PInt 0) in
           if model_id = PNone then d
           else case dict_get payload ''hidden_params'' (PDict []) of
             PDict h \<Rightarrow>
               (let model = dict_get h ''litellm_model_name'' PNone in
                if \<not> truthy model \<or> \<not> truthy tokens then d
                else snd (dual_increment_cache ops rt t
                       (val_str py_str model_id @ '':'' @ val_str py_str model @ '':tpm:'' @ current_minute now)
                       tokens False (Some (Some routing_ttl)) d))
           | _ \<Rightarrow> d)
      | _ \<Rightarrow> d)"

subsection \<open>Counters that are alive\<close>

text \<open>A counter with the value \<open>j\<close> that expires at \<open>T\<close>, in a cache with room.\<close>

definition live_counter :: "string \<Rightarrow> int \<Rightarrow> time \<Rightarrow> imc \<Rightarrow> bool" where
  "live_counter k j T c \<longleftrightarrow> int (length (cache_dict c)) < max_size_in_memory c \<and>
     map_of (cache_dict c) k = Some (PInt j) \<and> map_of (ttl_dict c) k = Some T"

lemma increment_live:
  assumes "live_counter k j T c" "t \<le> T" "check_value_size rt c (PInt (j + 1))"
  shows "imc_increment_cache rt t k (PInt 1) ttl c =
    (Inr (PInt (j + 1)), c\<lparr>cache_dict := AList.update k (PInt (j + 1)) (cache_dict c)\<rparr>)"
proof -
  have get: "imc_get_cache t k c = (PInt j, c)"
    using assms(1,2) by (simp add: live_counter_def imc_get_cache_def evict_element_if_expired_def is_key_expired_def json_view_def)
  have "py_or (PInt j) (PInt 0) = PInt j" by (simp add: py_or_def)
  moreover have "imc_set_cache rt t k (PInt (j + 1)) ttl c = (Inr (), c\<lparr>cache_dict := AList.update k (PInt (j + 1)) (cache_dict c)\<rparr>)"
    using assms by (auto simp: imc_set_cache_eq make_room_def imc_store_def Let_def live_counter_def allow_ttl_override_def)
  ultimately show ?thesis using get by (simp add: imc_increment_cache_def)
qed

lemma live_counter_update:
  "live_counter k j T c \<Longrightarrow> live_counter k j' T (c\<lparr>cache_dict := AList.update k (PInt j') (cache_dict c)\<rparr>)"
  by (auto simp: live_counter_def length_update dest: map_of_Some_key)

lemma increment_first:
  assumes "map_of (cache_dict c) k = None" "map_of (ttl_dict c) k = None"
    and "int (length (cache_dict c)) + 1 < max_size_in_memory c" "check_value_size rt c (PInt 1)"
  shows "\<exists>c'. imc_increment_cache rt t k (PInt 1) (Some ttl) c = (Inr (PInt 1), c') \<and> live_counter k 1 (t + ttl) c' \<and> same_config c c'"
proof -
  have get: "imc_get_cache t k c = (PNone, c)"
    using assms(1,2) by (simp add: imc_get_cache_def evict_element_if_expired_def is_key_expired_def)
  have k: "k \<notin> set (dict_keys (cache_dict c))" using assms(1) by (simp add: map_of_eq_None_iff)
  have "imc_set_cache rt t k (PInt 1) (Some ttl) c = (Inr (), imc_store t k (PInt 1) (Some ttl) c)"
    using assms(3,4) by (simp add: imc_set_cache_eq make_room_def)
  moreover have "live_counter k 1 (t + ttl) (imc_store t k (PInt 1) (Some ttl) c)" "same_config c (imc_store t k (PInt 1) (Some ttl) c)"
    using assms(2,3) k by (simp_all add: live_counter_def imc_store_def Let_def allow_ttl_override_def length_update same_config_def)
  ultimately show ?thesis using get by (simp add: imc_increment_cache_def py_or_def)
qed

subsection \<open>Properties\<close>

text \<open>The answers to requests at the times \<open>ts\<close> of one minute.\<close>

fun check_answers :: "'r redis_ops \<Rightarrow> py_runtime \<Rightarrow> time list \<Rightarrow> datetime \<Rightarrow> deployment \<Rightarrow> 'r dual \<Rightarrow> bool list" where
  "check_answers ops rt [] now m d = []"
| "check_answers ops rt (t # ts) now m d =
     (case pre_call_check ops rt t now m d of (b, d1) \<Rightarrow> b # check_answers ops rt ts now m d1)"

lemma gt_int: "py_gt (PInt n) (PFloat q) = Inr (q < of_int n)"
  by (simp add: py_gt_def num_lt_def is_number_def)

lemma check_step:
  assumes "get_deployment_limits m = (None, Some q)" "redis_cache d = None"
    and "imc_increment_cache rt t (snd (get_cache_keys m (current_minute now))) (PInt 1) (Some routing_ttl) (in_memory_cache d) = (Inr (PInt j), c)"
  shows "pre_call_check ops rt t now m d = (of_int j \<le> q, d\<lparr>in_memory_cache := c\<rparr>)"
  using assms by (auto simp: pre_call_check_def check_rpm_def dual_increment_cache_def with_mem_def kw_ttl_def gt_int split: prod.split)

lemma check_answers_live:
  assumes "get_deployment_limits m = (None, Some q)" "redis_cache d = None"
    and "live_counter (snd (get_cache_keys m (current_minute now))) j T (in_memory_cache d)" "\<forall>t \<in> set ts. t \<le> T"
    and "\<forall>i. check_value_size rt (in_memory_cache d) (PInt i)"
  shows "check_answers ops rt ts now m d = map (\<lambda>i. of_int (j + 1 + int i) \<le> q) [0..<length ts]"
  using assms(2-)
proof (induction ts arbitrary: j d)
  case (Cons t ts)
  let ?k = "snd (get_cache_keys m (current_minute now))" and ?c = "in_memory_cache d"
  let ?c' = "?c\<lparr>cache_dict := AList.update ?k (PInt (j + 1)) (cache_dict ?c)\<rparr>"
  have "imc_increment_cache rt t ?k (PInt 1) (Some routing_ttl) ?c = (Inr (PInt (j + 1)), ?c')"
    using increment_live [OF Cons.prems(2)] Cons.prems(3,4) by simp
  from check_step [OF assms(1) Cons.prems(1) this, of ops]
  have st: "pre_call_check ops rt t now m d = (of_int (j + 1) \<le> q, d\<lparr>in_memory_cache := ?c'\<rparr>)" .
  have "same_config ?c ?c'" by simp
  then have f: "\<forall>i. check_value_size rt ?c' (PInt i)" using Cons.prems(4) check_value_size_cong by metis
  have "check_answers ops rt ts now m (d\<lparr>in_memory_cache := ?c'\<rparr>) = map (\<lambda>i. of_int (j + 1 + 1 + int i) \<le> q) [0..<length ts]"
    by (rule Cons.IH) (use Cons.prems f live_counter_update [OF Cons.prems(2)] in auto)
  moreover have "map (\<lambda>i. rat_of_int (j + 1 + int i) \<le> q) [0..<length (t # ts)] =
    (rat_of_int (j + 1) \<le> q) # map (\<lambda>i. of_int (j + 1 + 1 + int i) \<le> q) [0..<length ts]"
    by (simp add: map_upt_Suc algebra_simps del: upt_Suc)
  ultimately show ?case using st by simp
qed simp



end
