(* ===== verification/LowestTpmV2.thy ===== *)
theory LowestTpmV2
  imports BaseRouting LowestTpm RateLimit
begin

text \<open>
  \<^verbatim>\<open>router_strategy/lowest_tpm_rpm_v2.py\<close>: the usage strategy that works across instances. It keeps
  one counter of tokens and one of requests for every deployment and minute, checks the limit of
  requests before a call and picks at random among the deployments within their limits that have the
  fewest tokens. The synchronous check increments Redis as well, the asynchronous one queues the
  increment (\<open>BaseRouting\<close>). The number of tokens of the request at hand and the random draw are
  arguments; a token count of \<^verbatim>\<open>None\<close> in the payload raises in the increment, as any error it is
  dropped. The theory shows that the pick is made among exactly the least used deployments within
  their limits, that an error is raised exactly if there are none, and that the check admits as many
  requests in a minute as the limit says.
\<close>

subsection \<open>The check before a call\<close>

text \<open>
  True where the deployment is returned, False where \<^verbatim>\<open>RateLimitError\<close> is raised. A comparison
  that raises lets the request pass.
\<close>

definition over :: "bool pyres \<Rightarrow> bool" where
  "over x \<longleftrightarrow> x = Inr True"

definition v2_pre_call_check ::
  "'r redis_ops \<Rightarrow> py_runtime \<Rightarrow> time \<Rightarrow> datetime \<Rightarrow> int \<Rightarrow> deployment \<Rightarrow> 'r dual \<Rightarrow> bool \<times> 'r dual" where
  "v2_pre_call_check ops rt t now ttl deployment d =
     (let rpm_key = snd (get_cache_keys deployment (current_minute now));
          limit = deployment_rpm deployment;
          (local_result, d1) = dual_get_cache ops rt t t rpm_key True None d in
      case (if local_result = PNone then Inr False else py_ge local_result limit) of
        Inl _ \<Rightarrow> (True, d1)
      | Inr True \<Rightarrow> (False, d1)
      | Inr False \<Rightarrow>
        (case dual_increment_cache ops rt t rpm_key (PInt 1) False (Some (Some (of_int ttl))) d1 of
           (Inl _, d2) \<Rightarrow> (True, d2)
         | (Inr result, d2) \<Rightarrow> (\<not> (result \<noteq> PNone \<and> over (py_gt result limit)), d2)))"

definition v2_async_pre_call_check ::
  "'r redis_ops \<Rightarrow> py_runtime \<Rightarrow> time \<Rightarrow> datetime \<Rightarrow> int \<Rightarrow> deployment \<Rightarrow> 'r strategy \<Rightarrow> bool \<times> 'r strategy" where
  "v2_async_pre_call_check ops rt t now ttl deployment s =
     (let rpm_key = snd (get_cache_keys deployment (current_minute now));
          limit = deployment_rpm deployment;
          (local_result, d1) = dual_get_cache ops rt t t rpm_key True None (dual_cache s);
          s1 = s\<lparr>dual_cache := d1\<rparr> in
      case (if local_result = PNone then Inr False else py_ge local_result limit) of
        Inl _ \<Rightarrow> (True, s1)
      | Inr True \<Rightarrow> (False, s1)
      | Inr False \<Rightarrow>
        (case increment_value_in_current_window rt t rpm_key (PInt 1) ttl s1 of
           (Inl _, s2) \<Rightarrow> (True, s2)
         | (Inr result, s2) \<Rightarrow> (\<not> (result \<noteq> PNone \<and> over (py_gt result limit)), s2)))"

subsection \<open>Counting tokens\<close>

text \<open>
  The key of the token counter and the tokens to add, where the event gets that far. The
  synchronous event ends without a model name; the asynchronous one ends only where the key is
  missing from the parameters.
\<close>

definition tokens_to_count ::
  "(pyval \<Rightarrow> string) \<Rightarrow> bool \<Rightarrow> datetime \<Rightarrow> (string, pyval) dict \<Rightarrow> (string \<times> pyval) option" where
  "tokens_to_count py_str needs_model now kwargs =
     (case map_of kwargs ''standard_logging_object'' of
        Some (PDict payload) \<Rightarrow>
          (case map_of payload ''hidden_params'' of
             Some (PDict h) \<Rightarrow>
               (let model = map_of h ''litellm_model_name'';
                    model_id = dict_get payload ''model_id'' PNone in
                if (if needs_model then model = None \<or> model = Some PNone else model = None) then None
                else if dict_get payload ''model_group'' PNone = PNone \<or> model_id = PNone then None
                else Some (val_str py_str model_id @ '':'' @ val_str py_str (the model) @ '':tpm:'' @ current_minute now,
                       dict_get payload ''total_tokens'' PNone))
           | _ \<Rightarrow> None)
      | _ \<Rightarrow> None)"

definition v2_log_success_event ::
  "'r redis_ops \<Rightarrow> py_runtime \<Rightarrow> (pyval \<Rightarrow> string) \<Rightarrow> time \<Rightarrow> datetime \<Rightarrow> int \<Rightarrow> (string, pyval) dict \<Rightarrow> 'r dual \<Rightarrow> 'r dual" where
  "v2_log_success_event ops rt py_str t now ttl kwargs d =
     (case tokens_to_count py_str True now kwargs of
        None \<Rightarrow> d
      | Some (key, n) \<Rightarrow> snd (dual_increment_cache ops rt t key n False (Some (Some (of_int ttl))) d))"

definition v2_async_log_success_event ::
  "'r redis_ops \<Rightarrow> py_runtime \<Rightarrow> (pyval \<Rightarrow> string) \<Rightarrow> time \<Rightarrow> datetime \<Rightarrow> int \<Rightarrow> (string, pyval) dict \<Rightarrow> 'r dual \<Rightarrow> 'r dual" where
  "v2_async_log_success_event ops rt py_str t now ttl kwargs d =
     (case tokens_to_count py_str False now kwargs of
        None \<Rightarrow> d
      | Some (key, n) \<Rightarrow> snd (dual_async_increment_cache ops rt t key n False (Some (Some (of_int ttl))) d))"

subsection \<open>The pick\<close>

text \<open>\<^verbatim>\<open>key.split(":")[0]\<close>.\<close>

definition before_colon :: "string \<Rightarrow> string" where
  "before_colon s = hd (split_on (CHR '':'') s)"

text \<open>\<^verbatim>\<open>(rpm_dict is not None and item in rpm_dict) and rpm_dict[item] is not None and rpm_dict[item] + 1 >= limit\<close>.\<close>

definition v2_rpm_exceeded :: "(string, pyval) dict \<Rightarrow> string \<Rightarrow> pyval \<Rightarrow> bool pyres" where
  "v2_rpm_exceeded rpm_dict item limit =
     (case dict_get rpm_dict item PNone of
        PNone \<Rightarrow> Inr False
      | n \<Rightarrow> (case py_add n (PInt 1) of Inl e \<Rightarrow> Inl e | Inr n' \<Rightarrow> py_ge n' limit))"

fun return_potential_deployments ::
  "(string, pyval) dict \<Rightarrow> int \<Rightarrow> deployment list \<Rightarrow> (string, pyval) dict \<Rightarrow> pyval \<Rightarrow> deployment list \<Rightarrow> deployment list pyres" where
  "return_potential_deployments rpm_dict input_tokens ds [] lowest_tpm potential = Inr potential"
| "return_potential_deployments rpm_dict input_tokens ds ((item, item_tpm) # rest) lowest_tpm potential =
     (case find (\<lambda>m. before_colon item = dep_id m) (rev ds) of
        None \<Rightarrow> return_potential_deployments rpm_dict input_tokens ds rest lowest_tpm potential
      | Some m \<Rightarrow>
        if item_tpm = PNone then return_potential_deployments rpm_dict input_tokens ds rest lowest_tpm potential
        else case py_add item_tpm (PInt input_tokens) of Inl e \<Rightarrow> Inl e | Inr want \<Rightarrow>
          case py_gt want (deployment_tpm m) of
            Inl e \<Rightarrow> Inl e
          | Inr True \<Rightarrow> return_potential_deployments rpm_dict input_tokens ds rest lowest_tpm potential
          | Inr False \<Rightarrow>
            (case v2_rpm_exceeded rpm_dict (before_colon item) (deployment_rpm m) of
               Inl e \<Rightarrow> Inl e
             | Inr True \<Rightarrow> return_potential_deployments rpm_dict input_tokens ds rest lowest_tpm potential
             | Inr False \<Rightarrow>
               if py_eq item_tpm lowest_tpm
               then return_potential_deployments rpm_dict input_tokens ds rest lowest_tpm (potential @ [m])
               else case py_lt item_tpm lowest_tpm of
                 Inl e \<Rightarrow> Inl e
               | Inr True \<Rightarrow> return_potential_deployments rpm_dict input_tokens ds rest item_tpm [m]
               | Inr False \<Rightarrow> return_potential_deployments rpm_dict input_tokens ds rest lowest_tpm potential))"

text \<open>\<^verbatim>\<open>for idx, key in enumerate(keys): by_id[key.split(":")[0]] = values[idx]\<close>.\<close>

fun by_id :: "string list \<Rightarrow> pyval list \<Rightarrow> (string, pyval) dict \<Rightarrow> (string, pyval) dict pyres" where
  "by_id [] vs acc = Inr acc"
| "by_id (k # ks) [] acc = Inl IndexError"
| "by_id (k # ks) (v # vs) acc = by_id ks vs (AList.update (before_colon k) v acc)"

definition fill_unused :: "deployment list \<Rightarrow> (string, pyval) dict \<Rightarrow> (string, pyval) dict" where
  "fill_unused ds m =
     fold (\<lambda>d m. if dict_get m (dep_id d) PNone = PNone then AList.update (dep_id d) (PInt 0) m else m) ds m"

definition v2_common_checks_available_deployment ::
  "(nat \<Rightarrow> nat) \<Rightarrow> int pyres \<Rightarrow> deployment list \<Rightarrow> string list \<Rightarrow> pyval list option \<Rightarrow> string list \<Rightarrow> pyval list option \<Rightarrow>
   deployment option pyres" where
  "v2_common_checks_available_deployment draw token_counter ds tpm_keys tpm_values rpm_keys rpm_values =
     (case (tpm_values, rpm_values) of
        (Some ts, Some rs) \<Rightarrow>
          (case by_id tpm_keys ts [] of Inl e \<Rightarrow> Inl e | Inr tpm_dict \<Rightarrow>
           case by_id rpm_keys rs [] of Inl e \<Rightarrow> Inl e | Inr rpm_dict \<Rightarrow>
           let input_tokens = (case token_counter of Inl _ \<Rightarrow> 0 | Inr n \<Rightarrow> n) in
           case return_potential_deployments rpm_dict input_tokens ds (fill_unused ds tpm_dict) (PInf True) [] of
             Inl e \<Rightarrow> Inl e
           | Inr [] \<Rightarrow> Inr None
           | Inr potential \<Rightarrow> map_sum id Some (random_choice draw potential))
      | _ \<Rightarrow> Inr None)"

text \<open>The keys of the counters of the minute.\<close>

definition tpm_keys_of :: "datetime \<Rightarrow> deployment list \<Rightarrow> string list" where
  "tpm_keys_of now ds = map (\<lambda>m. fst (get_cache_keys m (current_minute now))) ds"

definition rpm_keys_of :: "datetime \<Rightarrow> deployment list \<Rightarrow> string list" where
  "rpm_keys_of now ds = map (\<lambda>m. snd (get_cache_keys m (current_minute now))) ds"

definition v2_async_get_available_deployments ::
  "'r redis_ops \<Rightarrow> py_runtime \<Rightarrow> (nat \<Rightarrow> nat) \<Rightarrow> datetime \<Rightarrow> time \<Rightarrow> time \<Rightarrow> int pyres \<Rightarrow> deployment list \<Rightarrow> 'r dual \<Rightarrow>
   deployment pyres \<times> 'r dual" where
  "v2_async_get_available_deployments ops rt draw now t t' token_counter ds d =
     (let tpm_keys = tpm_keys_of now ds; rpm_keys = rpm_keys_of now ds;
          (values, d1) = dual_batch_get_cache ops rt t t' (tpm_keys @ rpm_keys) False None d in
      (case v2_common_checks_available_deployment draw token_counter ds
              tpm_keys (map_option (take (length tpm_keys)) values) rpm_keys (map_option (drop (length tpm_keys)) values) of
         Inl e \<Rightarrow> Inl e
       | Inr (Some m) \<Rightarrow> Inr m
       | Inr None \<Rightarrow> Inl (OtherError ''RateLimitError''), d1))"

definition v2_get_available_deployments ::
  "'r redis_ops \<Rightarrow> py_runtime \<Rightarrow> (nat \<Rightarrow> nat) \<Rightarrow> datetime \<Rightarrow> time \<Rightarrow> time \<Rightarrow> int pyres \<Rightarrow> deployment list \<Rightarrow> 'r dual \<Rightarrow>
   deployment pyres \<times> 'r dual" where
  "v2_get_available_deployments ops rt draw now t t' token_counter ds d =
     (let tpm_keys = tpm_keys_of now ds; rpm_keys = rpm_keys_of now ds;
          (tpm_values, d1) = dual_batch_get_cache ops rt t t' tpm_keys False None d;
          (rpm_values, d2) = dual_batch_get_cache ops rt t t' rpm_keys False None d1 in
      (case v2_common_checks_available_deployment draw token_counter ds tpm_keys tpm_values rpm_keys rpm_values of
         Inl e \<Rightarrow> Inl e
       | Inr (Some m) \<Rightarrow> Inr m
       | Inr None \<Rightarrow> Inl ValueError, d2))"

subsection \<open>The least used deployments\<close>

text \<open>Those of a list that satisfy \<open>el\<close> and have the least \<open>c\<close> of all that do.\<close>

definition least_used :: "('a \<Rightarrow> bool) \<Rightarrow> ('a \<Rightarrow> int) \<Rightarrow> 'a list \<Rightarrow> 'a list" where
  "least_used el c xs = filter (\<lambda>m. el m \<and> (\<forall>x \<in> set xs. el x \<longrightarrow> c m \<le> c x)) xs"

lemma least_used_Nil_iff: "least_used el c xs = [] \<longleftrightarrow> (\<forall>x \<in> set xs. \<not> el x)"
proof
  assume e: "least_used el c xs = []"
  show "\<forall>x \<in> set xs. \<not> el x"
  proof (rule ccontr)
    let ?S = "c ` {x \<in> set xs. el x}"
    assume "\<not> (\<forall>x \<in> set xs. \<not> el x)"
    then have "finite ?S" "?S \<noteq> {}" by auto
    then have "Min ?S \<in> ?S" by (rule Min_in)
    then obtain m where "m \<in> set xs" "el m" "c m = Min ?S" by force
    moreover have "\<forall>x \<in> set xs. el x \<longrightarrow> Min ?S \<le> c x" by auto
    ultimately have "m \<in> set (least_used el c xs)" by (auto simp: least_used_def)
    then show False using e by simp
  qed
qed (auto simp: least_used_def filter_empty_conv)

lemma least_used_Cons:
  assumes "least_used el c xs = x # ys"
  shows "x \<in> set xs \<and> el x \<and> (\<forall>y \<in> set xs. el y \<longrightarrow> c x \<le> c y)" "y \<in> set (x # ys) \<Longrightarrow> c y = c x"
proof -
  have m: "z \<in> set (x # ys) \<Longrightarrow> z \<in> set xs \<and> el z \<and> (\<forall>y \<in> set xs. el y \<longrightarrow> c z \<le> c y)" for z
    unfolding assms [symmetric] by (simp add: least_used_def)
  then show "x \<in> set xs \<and> el x \<and> (\<forall>y \<in> set xs. el y \<longrightarrow> c x \<le> c y)" by simp
  show "y \<in> set (x # ys) \<Longrightarrow> c y = c x" using m [of x] m [of y] by (simp add: order_antisym)
qed

lemma least_used_snoc:
  "least_used el c (xs @ [m]) =
     (if \<not> el m then least_used el c xs
      else case least_used el c xs of
        [] \<Rightarrow> [m]
      | x # ys \<Rightarrow> if c m = c x then least_used el c xs @ [m] else if c m < c x then [m] else least_used el c xs)"
proof (cases "el m")
  case False
  then show ?thesis by (simp add: least_used_def)
next
  case True
  show ?thesis
  proof (cases "least_used el c xs")
    case Nil
    then have "\<forall>x \<in> set xs. \<not> el x" by (simp add: least_used_Nil_iff)
    then show ?thesis using True Nil by (auto simp: least_used_def filter_empty_conv)
  next
    case (Cons x ys)
    note x = least_used_Cons [OF Cons]
    have split: "least_used el c (xs @ [m]) = filter (\<lambda>y. c y \<le> c m) (least_used el c xs) @
        (if \<forall>y \<in> set xs. el y \<longrightarrow> c m \<le> c y then [m] else [])"
    proof -
      have "filter (\<lambda>y. el y \<and> (\<forall>x \<in> set (xs @ [m]). el x \<longrightarrow> c y \<le> c x)) xs =
        filter (\<lambda>y. c y \<le> c m) (filter (\<lambda>y. el y \<and> (\<forall>x \<in> set xs. el x \<longrightarrow> c y \<le> c x)) xs)"
        unfolding filter_filter by (rule filter_cong) (use True in auto)
      then show ?thesis using True by (simp add: least_used_def)
    qed
    have a: "(\<forall>y \<in> set xs. el y \<longrightarrow> c m \<le> c y) \<longleftrightarrow> c m \<le> c x" using x(1) by force
    have b: "filter (\<lambda>y. c y \<le> c m) (least_used el c xs) = (if c x \<le> c m then least_used el c xs else [])"
    proof -
      have "filter (\<lambda>y. c y \<le> c m) (x # ys) = filter (\<lambda>y. c x \<le> c m) (x # ys)"
        by (rule filter_cong) (simp_all only: x(2))
      then show ?thesis unfolding Cons by simp
    qed
    show ?thesis unfolding split a b using True Cons by auto
  qed
qed

subsection \<open>The pick is among the least used\<close>

definition opt_count :: "int option \<Rightarrow> pyval" where
  "opt_count x = (case x of None \<Rightarrow> PNone | Some n \<Rightarrow> PInt n)"

definition or_zero :: "int option \<Rightarrow> int" where
  "or_zero x = (case x of None \<Rightarrow> 0 | Some n \<Rightarrow> n)"

text \<open>A deployment with \<open>tv m\<close> tokens and \<open>rv m\<close> requests in the minute has room for \<open>n\<close> tokens more.\<close>

definition v2_eligible :: "(deployment \<Rightarrow> int option) \<Rightarrow> (deployment \<Rightarrow> int option) \<Rightarrow> int \<Rightarrow> deployment \<Rightarrow> bool" where
  "v2_eligible tv rv n m \<longleftrightarrow>
     under_limit [top_tpm m, lp_tpm m, mi_tpm m] (\<lambda>q. of_int (or_zero (tv m) + n) \<le> q) \<and>
     (case rv m of None \<Rightarrow> True | Some k \<Rightarrow> under_limit [top_rpm m, lp_rpm m, mi_rpm m] (\<lambda>q. of_int (k + 1) < q))"

definition lowest_val :: "('a \<Rightarrow> int) \<Rightarrow> 'a list \<Rightarrow> pyval" where
  "lowest_val c xs = (case xs of [] \<Rightarrow> PInf True | x # _ \<Rightarrow> PInt (c x))"

lemma before_colon_id: "CHR '':'' \<notin> set i \<Longrightarrow> before_colon i = i"
  unfolding before_colon_def by (induction i) (auto split: list.split)

lemma before_colon_key: "CHR '':'' \<notin> set i \<Longrightarrow> before_colon (i @ '':'' @ s) = i"
  by (simp add: before_colon_def split_on_sep)

lemma v2_rpm_exceeded_count:
  assumes "dict_get rd i PNone = opt_count x"
  shows "v2_rpm_exceeded rd i (deployment_rpm m) =
    Inr (case x of None \<Rightarrow> False | Some k \<Rightarrow> \<not> under_limit [top_rpm m, lp_rpm m, mi_rpm m] (\<lambda>q. of_int (k + 1) < q))"
  using assms by (auto simp: v2_rpm_exceeded_def opt_count_def deployment_rpm_def ge_limit split: option.splits)

lemma potential_step:
  assumes "distinct (map dep_id ds)" "m \<in> set ds" "CHR '':'' \<notin> set (dep_id m)" "dict_get rd (dep_id m) PNone = opt_count (rv m)"
    and "el = v2_eligible tv rv n" "c = (\<lambda>m. or_zero (tv m))"
  shows "return_potential_deployments rd n ds ((dep_id m, PInt (c m)) # rest) (lowest_val c (least_used el c xs)) (least_used el c xs) =
    return_potential_deployments rd n ds rest (lowest_val c (least_used el c (xs @ [m]))) (least_used el c (xs @ [m]))"
proof -
  have f: "find (\<lambda>x. before_colon (dep_id m) = dep_id x) (rev ds) = Some m"
    using find_rev_id [OF assms(1,2)] assms(3) by (simp add: before_colon_id)
  have g: "py_gt (PInt (c m + n)) (deployment_tpm m) =
    Inr (\<not> under_limit [top_tpm m, lp_tpm m, mi_tpm m] (\<lambda>q. of_int (c m + n) \<le> q))"
    unfolding deployment_tpm_def by (rule gt_limit)
  have r: "v2_rpm_exceeded rd (before_colon (dep_id m)) (deployment_rpm m) =
    Inr (case rv m of None \<Rightarrow> False | Some k \<Rightarrow> \<not> under_limit [top_rpm m, lp_rpm m, mi_rpm m] (\<lambda>q. of_int (k + 1) < q))"
    using v2_rpm_exceeded_count [OF assms(4)] assms(3) by (simp add: before_colon_id)
  define T where "T = under_limit [top_tpm m, lp_tpm m, mi_tpm m] (\<lambda>q. of_int (c m + n) \<le> q)"
  define R where "R = (case rv m of None \<Rightarrow> False | Some k \<Rightarrow> \<not> under_limit [top_rpm m, lp_rpm m, mi_rpm m] (\<lambda>q. of_int (k + 1) < q))"
  have el: "el m \<longleftrightarrow> T \<and> \<not> R"
    unfolding assms(5,6) v2_eligible_def T_def R_def by (simp split: option.split)
  note gr = g [folded T_def] r [folded R_def]
  show ?thesis
  proof (cases "el m")
    case False
    then show ?thesis unfolding least_used_snoc using el by (cases T; cases R) (simp_all add: f gr)
  next
    case True
    then have "T" "\<not> R" using el by simp_all
    then show ?thesis
      by (cases "least_used el c xs")
        (auto simp: least_used_snoc True f gr lowest_val_def num_lt_def is_number_def)
  qed
qed

lemma potential_least_used:
  assumes "distinct (map dep_id ds)" "\<forall>m \<in> set ds. CHR '':'' \<notin> set (dep_id m) \<and> dict_get rd (dep_id m) PNone = opt_count (rv m)"
    and "set es \<subseteq> set ds" "el = v2_eligible tv rv n" "c = (\<lambda>m. or_zero (tv m))"
  shows "return_potential_deployments rd n ds (map (\<lambda>m. (dep_id m, PInt (c m))) es) (lowest_val c (least_used el c xs)) (least_used el c xs) =
    Inr (least_used el c (xs @ es))"
  using assms(3)
proof (induction es arbitrary: xs)
  case (Cons m es)
  have m: "m \<in> set ds" using Cons.prems by simp
  have "return_potential_deployments rd n ds (map (\<lambda>m. (dep_id m, PInt (c m))) (m # es)) (lowest_val c (least_used el c xs)) (least_used el c xs) =
    return_potential_deployments rd n ds (map (\<lambda>m. (dep_id m, PInt (c m))) es) (lowest_val c (least_used el c (xs @ [m]))) (least_used el c (xs @ [m]))"
    unfolding list.map by (rule potential_step [OF assms(1) m]) (use assms m in auto)
  then show ?case using Cons.IH [of "xs @ [m]"] Cons.prems by simp
qed simp

lemma by_id_map:
  assumes "distinct (map dep_id ds)" "\<forall>m \<in> set ds. before_colon (key m) = dep_id m" "set (dict_keys acc) \<inter> dep_id ` set ds = {}"
  shows "by_id (map key ds) (map v ds) acc = Inr (acc @ map (\<lambda>m. (dep_id m, v m)) ds)"
  using assms
proof (induction ds arbitrary: acc)
  case (Cons m ds)
  have "dep_id m \<notin> set (dict_keys acc)" using Cons.prems(3) by auto
  then have u: "AList.update (dep_id m) (v m) acc = acc @ [(dep_id m, v m)]" by (rule update_absent)
  have "by_id (map key ds) (map v ds) (acc @ [(dep_id m, v m)]) = Inr ((acc @ [(dep_id m, v m)]) @ map (\<lambda>m. (dep_id m, v m)) ds)"
    by (rule Cons.IH) (use Cons.prems in auto)
  then show ?case using Cons.prems(2) u by simp
qed simp

lemma dict_of_deployments:
  assumes "distinct (map dep_id ds)" "x \<in> set ds"
  shows "map_of (map (\<lambda>m. (dep_id m, v m)) ds) (dep_id x) = Some (v x)"
    and "AList.update (dep_id x) w (map (\<lambda>m. (dep_id m, v m)) ds) = map (\<lambda>m. (dep_id m, if m = x then w else v m)) ds"
proof -
  show "map_of (map (\<lambda>m. (dep_id m, v m)) ds) (dep_id x) = Some (v x)"
    using assms by (intro map_of_is_SomeI) (auto simp: comp_def)
  show "AList.update (dep_id x) w (map (\<lambda>m. (dep_id m, v m)) ds) = map (\<lambda>m. (dep_id m, if m = x then w else v m)) ds"
    using assms
  proof (induction ds)
    case (Cons m ds)
    show ?case
    proof (cases "m = x")
      case True
      then have "x \<notin> set ds" using Cons.prems by auto
      then have "map (\<lambda>m. (dep_id m, v m)) ds = map (\<lambda>m. (dep_id m, if m = x then w else v m)) ds" by auto
      then show ?thesis using True by simp
    next
      case False
      then have "dep_id m \<noteq> dep_id x" using Cons.prems by force
      then show ?thesis using Cons False by simp
    qed
  qed simp
qed

lemma fill_unused_map:
  assumes "distinct (map dep_id ds)" "set xs \<subseteq> set ds"
  shows "fill_unused xs (map (\<lambda>m. (dep_id m, v m)) ds) =
    map (\<lambda>m. (dep_id m, if m \<in> set xs \<and> v m = PNone then PInt 0 else v m)) ds"
  using assms(2)
proof (induction xs arbitrary: v)
  case (Cons x xs)
  let ?v = "\<lambda>m. if m = x \<and> v x = PNone then PInt 0 else v m"
  have x: "x \<in> set ds" using Cons.prems by simp
  note d = dict_of_deployments(1) [OF assms(1) x, of v] dict_of_deployments(2) [OF assms(1) x, of "PInt 0" v]
  have "(if dict_get (map (\<lambda>m. (dep_id m, v m)) ds) (dep_id x) PNone = PNone
      then AList.update (dep_id x) (PInt 0) (map (\<lambda>m. (dep_id m, v m)) ds) else map (\<lambda>m. (dep_id m, v m)) ds) =
    map (\<lambda>m. (dep_id m, ?v m)) ds"
    using d by (auto simp: dict_get_def)
  then have "fill_unused (x # xs) (map (\<lambda>m. (dep_id m, v m)) ds) = fill_unused xs (map (\<lambda>m. (dep_id m, ?v m)) ds)"
    by (simp only: fill_unused_def fold_simps comp_apply)
  also have "\<dots> = map (\<lambda>m. (dep_id m, if m \<in> set (x # xs) \<and> v m = PNone then PInt 0 else v m)) ds"
    using Cons by auto
  finally show ?case .
qed (simp add: fill_unused_def)

text \<open>The common part of the two picks, on the values of the counters.\<close>

lemma v2_common_checks_pick:
  assumes "distinct (map dep_id ds)" "\<forall>m \<in> set ds. CHR '':'' \<notin> set (dep_id m)"
    and "best = least_used (v2_eligible tv rv n) (\<lambda>m. or_zero (tv m)) ds"
  shows "v2_common_checks_available_deployment draw (Inr n) ds (tpm_keys_of now ds) (Some (map (opt_count \<circ> tv) ds))
      (rpm_keys_of now ds) (Some (map (opt_count \<circ> rv) ds)) =
    (if best = [] then Inr None else map_sum id Some (random_choice draw best))"
proof -
  let ?c = "\<lambda>m. or_zero (tv m)"
  have k: "\<forall>m \<in> set ds. before_colon (fst (get_cache_keys m (current_minute now))) = dep_id m"
    "\<forall>m \<in> set ds. before_colon (snd (get_cache_keys m (current_minute now))) = dep_id m"
    using assms(2) before_colon_key by (simp_all add: get_cache_keys_def)
  have b: "by_id (tpm_keys_of now ds) (map (opt_count \<circ> tv) ds) [] = Inr (map (\<lambda>m. (dep_id m, opt_count (tv m))) ds)"
    "by_id (rpm_keys_of now ds) (map (opt_count \<circ> rv) ds) [] = Inr (map (\<lambda>m. (dep_id m, opt_count (rv m))) ds)"
    unfolding tpm_keys_of_def rpm_keys_of_def using by_id_map [OF assms(1) k(1), of "[]"] by_id_map [OF assms(1) k(2), of "[]"]
    by simp_all
  have f: "fill_unused ds (map (\<lambda>m. (dep_id m, opt_count (tv m))) ds) = map (\<lambda>m. (dep_id m, PInt (?c m))) ds"
    unfolding fill_unused_map [OF assms(1) subset_refl] by (auto simp: opt_count_def or_zero_def split: option.split)
  have "\<forall>m \<in> set ds. CHR '':'' \<notin> set (dep_id m) \<and> dict_get (map (\<lambda>m. (dep_id m, opt_count (rv m))) ds) (dep_id m) PNone = opt_count (rv m)"
    using assms(2) dict_of_deployments(1) [OF assms(1), where v = "\<lambda>m. opt_count (rv m)"] by (simp add: dict_get_def)
  from potential_least_used [OF assms(1) this subset_refl refl refl, where tv = tv and n = n and xs = "[]"]
  have "return_potential_deployments (map (\<lambda>m. (dep_id m, opt_count (rv m))) ds) n ds (map (\<lambda>m. (dep_id m, PInt (?c m))) ds) (PInf True) [] = Inr best"
    by (simp add: assms(3) least_used_def lowest_val_def)
  then show ?thesis by (cases best) (simp_all add: v2_common_checks_available_deployment_def b f)
qed

text \<open>
  Without Redis, with the token counts \<open>tv\<close> and the request counts \<open>rv\<close> of the minute
  in the cache, both picks draw among exactly the deployments within their limits that have the
  fewest tokens, and raise their error exactly if no deployment is within its limits.
\<close>

lemma v2_picks_least_used:
  assumes "redis_cache d = None" "distinct (map dep_id ds)" "\<forall>m \<in> set ds. CHR '':'' \<notin> set (dep_id m)"
    and "\<forall>m \<in> set ds. dual_peek t (fst (get_cache_keys m (current_minute now))) d = opt_count (tv m) \<and>
      dual_peek t (snd (get_cache_keys m (current_minute now))) d = opt_count (rv m)"
    and "best = least_used (v2_eligible tv rv n) (\<lambda>m. or_zero (tv m)) ds"
  shows "fst (v2_get_available_deployments ops rt draw now t t' (Inr n) ds d) =
      (if \<forall>m \<in> set ds. \<not> v2_eligible tv rv n m then Inl ValueError else random_choice draw best) \<and>
    fst (v2_async_get_available_deployments ops rt draw now t t' (Inr n) ds d) =
      (if \<forall>m \<in> set ds. \<not> v2_eligible tv rv n m then Inl (OtherError ''RateLimitError'') else random_choice draw best)"
proof (intro conjI)
  have tv: "map (\<lambda>k. dual_peek t k d) (tpm_keys_of now ds) = map (opt_count \<circ> tv) ds"
    and rv: "map (\<lambda>k. dual_peek t k d) (rpm_keys_of now ds) = map (opt_count \<circ> rv) ds"
    using assms(4) by (simp_all add: tpm_keys_of_def rpm_keys_of_def)
  let ?d = "d\<lparr>in_memory_cache := snd (imc_batch_get_cache t (tpm_keys_of now ds) (in_memory_cache d))\<rparr>"
  have rv': "map (\<lambda>k. dual_peek t k ?d) (rpm_keys_of now ds) = map (opt_count \<circ> rv) ds"
    using rv by (simp add: dual_peek_def batch_get_keeps_peek)
  have l: "length (tpm_keys_of now ds) = length ds" by (simp add: tpm_keys_of_def)
  have "(case v2_common_checks_available_deployment draw (Inr n) ds (tpm_keys_of now ds) (Some (map (opt_count \<circ> tv) ds))
      (rpm_keys_of now ds) (Some (map (opt_count \<circ> rv) ds)) of Inl e \<Rightarrow> Inl e | Inr (Some m) \<Rightarrow> Inr m | Inr None \<Rightarrow> Inl x) =
    (if \<forall>m \<in> set ds. \<not> v2_eligible tv rv n m then Inl x else random_choice draw best)" for x
    unfolding v2_common_checks_pick [OF assms(2,3,5)]
    using assms(5) least_used_Nil_iff by (cases "random_choice draw best") auto
  note c = this
  show "fst (v2_get_available_deployments ops rt draw now t t' (Inr n) ds d) =
      (if \<forall>m \<in> set ds. \<not> v2_eligible tv rv n m then Inl ValueError else random_choice draw best)"
    using batch_get_local [OF assms(1)] batch_get_local [of ?d] assms(1)
    by (simp add: v2_get_available_deployments_def tv rv' c)
  show "fst (v2_async_get_available_deployments ops rt draw now t t' (Inr n) ds d) =
      (if \<forall>m \<in> set ds. \<not> v2_eligible tv rv n m then Inl (OtherError ''RateLimitError'') else random_choice draw best)"
    using batch_get_local [OF assms(1)] by (simp add: v2_async_get_available_deployments_def tv rv l c)
qed

definition payload_for :: "string \<Rightarrow> int \<Rightarrow> (string, pyval) dict" where
  "payload_for i n = [(''standard_logging_object'', PDict [(''model_group'', PStr ''g''), (''model_id'', PStr i),
     (''total_tokens'', PInt n), (''hidden_params'', PDict [(''litellm_model_name'', PStr i)])])]"

abbreviation v2_used :: "unit dual" where
  "v2_used \<equiv> v2_log_success_event ops0 rt0 (\<lambda>_. []) 0 noon 60 (payload_for ''a'' 30) mem_dual"

text \<open>
  A deployment whose id contains a colon is never picked: the keys are cut at the first colon, and
  nothing has the id that is left.
\<close>

lemma colon_id_never_picked:
  "fst (v2_get_available_deployments ops0 rt0 (\<lambda>_. 0) noon 0 0 (Inr 1) [dep ''a:b'' None] mem_dual) = Inl ValueError"
  by code_simp

text \<open>The limit of requests is reached one request early, once the deployment was used in the minute.\<close>

lemma v2_rpm_limit_one_short:
  assumes "rv m = Some k" "top_rpm m = Some (of_int (k + 1))"
  shows "\<not> v2_eligible tv rv n m"
  using assms by (simp add: v2_eligible_def under_limit_def)

subsection \<open>Requests that an instance admits\<close>

fun v2_answers ::
  "'r redis_ops \<Rightarrow> py_runtime \<Rightarrow> time list \<Rightarrow> datetime \<Rightarrow> int \<Rightarrow> deployment \<Rightarrow> 'r strategy \<Rightarrow> bool list \<times> 'r strategy" where
  "v2_answers ops rt [] now ttl m s = ([], s)"
| "v2_answers ops rt (t # ts) now ttl m s =
     (case v2_async_pre_call_check ops rt t now ttl m s of
        (b, s1) \<Rightarrow> (case v2_answers ops rt ts now ttl m s1 of (bs, s2) \<Rightarrow> (b # bs, s2)))"

abbreviation one_request :: "string \<Rightarrow> int \<Rightarrow> increment_op" where
  "one_request k ttl \<equiv> \<lparr>op_key = k, increment_value = PInt 1, op_ttl = Some ttl\<rparr>"

text \<open>A check while the counter is alive.\<close>

lemma v2_check_live:
  assumes "deployment_rpm m = PFloat (of_nat l)" "k = snd (get_cache_keys m (current_minute now))"
    and "live_counter k (int j) T (mem_of s)" "t \<le> T" "\<forall>i. check_value_size rt (mem_of s) (PInt i)"
  shows "\<exists>s'. v2_async_pre_call_check ops rt t now ttl m s = (j < l, s') \<and>
    live_counter k (int (if j < l then Suc j else j)) T (mem_of s') \<and> same_config (mem_of s) (mem_of s') \<and>
    redis_increment_operation_queue s' = redis_increment_operation_queue s @ (if j < l then [one_request k ttl] else [])"
proof -
  let ?c = "mem_of s"
  have get: "imc_get_cache t k ?c = (PInt (int j), ?c)"
    using assms(3,4) by (simp add: live_counter_def imc_get_cache_def evict_element_if_expired_def is_key_expired_def json_view_def)
  have g: "dual_get_cache ops rt t t k True None (dual_cache s) = (PInt (int j), dual_cache s)"
    by (simp add: dual_get_cache_def with_mem_def get split: option.split)
  show ?thesis
  proof (cases "j < l")
    case False
    then have "py_ge (PInt (int j)) (PFloat (of_nat l)) = Inr True" by (simp add: py_ge_def num_lt_def is_number_def)
    then show ?thesis using False assms(1,3) g by (simp add: v2_async_pre_call_check_def Let_def flip: assms(2))
  next
    case True
    have ge: "py_ge (PInt (int j)) (PFloat (of_nat l)) = Inr False" using True by (simp add: py_ge_def num_lt_def is_number_def)
    have gt: "py_gt (PInt (int j + 1)) (PFloat (of_nat l)) = Inr False"
    proof -
      have "Suc j \<le> l" using True by simp
      then have "rat_of_nat (Suc j) \<le> of_nat l" by (simp only: of_nat_le_iff)
      then show ?thesis by (simp add: py_gt_def num_lt_def is_number_def)
    qed
    note inc = increment_live [OF assms(3,4), of rt "Some (of_int ttl)"]
    note lc = live_counter_update [OF assms(3), of "int (Suc j)"]
    show ?thesis
      using True assms(1,5) g ge gt inc lc
      by (simp add: v2_async_pre_call_check_def Let_def increment_value_in_current_window_def over_def add.commute flip: assms(2))
  qed
qed

lemma v2_answers_live:
  assumes "deployment_rpm m = PFloat (of_nat l)" "k = snd (get_cache_keys m (current_minute now))"
    and "live_counter k (int j) T (mem_of s)" "\<forall>t \<in> set ts. t \<le> T" "\<forall>i. check_value_size rt (mem_of s) (PInt i)" "j \<le> l"
  shows "\<exists>s'. v2_answers ops rt ts now ttl m s = (map (\<lambda>i. j + i < l) [0..<length ts], s') \<and>
    redis_increment_operation_queue s' = redis_increment_operation_queue s @ replicate (min (l - j) (length ts)) (one_request k ttl)"
  using assms(3-)
proof (induction ts arbitrary: j s)
  case (Cons t ts)
  let ?j = "if j < l then Suc j else j"
  obtain s1 where s1: "v2_async_pre_call_check ops rt t now ttl m s = (j < l, s1)" "live_counter k (int ?j) T (mem_of s1)"
    "same_config (mem_of s) (mem_of s1)"
    "redis_increment_operation_queue s1 = redis_increment_operation_queue s @ (if j < l then [one_request k ttl] else [])"
    using v2_check_live [OF assms(1,2) Cons.prems(1) _ Cons.prems(3), of t ops ttl] Cons.prems(2) by auto
  have "\<forall>i. check_value_size rt (mem_of s1) (PInt i)" using Cons.prems(3) s1(3) check_value_size_cong by metis
  moreover have "?j \<le> l" "\<forall>t \<in> set ts. t \<le> T" using Cons.prems by simp_all
  ultimately obtain s2 where s2: "v2_answers ops rt ts now ttl m s1 = (map (\<lambda>i. ?j + i < l) [0..<length ts], s2)"
    "redis_increment_operation_queue s2 = redis_increment_operation_queue s1 @ replicate (min (l - ?j) (length ts)) (one_request k ttl)"
    using Cons.IH [OF s1(2)] by blast
  have m: "map (\<lambda>i. j + i < l) [0..<length (t # ts)] = (j < l) # map (\<lambda>i. ?j + i < l) [0..<length ts]"
    using Cons.prems(4) by (simp add: map_upt_Suc del: upt_Suc)
  have "redis_increment_operation_queue s2 = redis_increment_operation_queue s @ replicate (min (l - j) (length (t # ts))) (one_request k ttl)"
    using s2(2) s1(4) Cons.prems(4) by (cases "j < l") (simp_all add: Suc_diff_Suc [symmetric])
  then show ?case unfolding m using s1(1) s2(1) by simp
qed simp

text \<open>
  Whatever Redis does, of the requests to a deployment with a limit of \<open>l\<close> requests
  that reach an instance while the counter of the minute lives, exactly the first \<open>l\<close> are admitted, and
  exactly these are queued to be counted in Redis.
\<close>

lemma v2_admits_the_limit:
  assumes "deployment_rpm m = PFloat (of_nat l)" "0 < l" "k = snd (get_cache_keys m (current_minute now))"
    and "map_of (cache_dict (mem_of s)) k = None" "map_of (ttl_dict (mem_of s)) k = None"
    and "int (length (cache_dict (mem_of s))) + 1 < max_size_in_memory (mem_of s)" "\<forall>i. check_value_size rt (mem_of s) (PInt i)"
    and "\<forall>t \<in> set ts. t \<le> t0 + of_int ttl"
  shows "\<exists>s'. v2_answers ops rt (t0 # ts) now ttl m s = (map (\<lambda>i. i < l) [0..<length (t0 # ts)], s') \<and>
    redis_increment_operation_queue s' = redis_increment_operation_queue s @ replicate (min l (length (t0 # ts))) (one_request k ttl)"
proof -
  obtain c where c: "imc_increment_cache rt t0 k (PInt 1) (Some (of_int ttl)) (mem_of s) = (Inr (PInt 1), c)"
    "live_counter k 1 (t0 + of_int ttl) c" "same_config (mem_of s) c"
    using increment_first [OF assms(4-6), of rt t0 "of_int ttl"] assms(7) by metis
  have get: "imc_get_cache t0 k (mem_of s) = (PNone, mem_of s)"
    using assms(4,5) by (simp add: imc_get_cache_def evict_element_if_expired_def is_key_expired_def)
  have g: "dual_get_cache ops rt t0 t0 k True None (dual_cache s) = (PNone, dual_cache s)"
    by (simp add: dual_get_cache_def with_mem_def get split: option.split)
  have gt: "py_gt (PInt 1) (PFloat (of_nat l)) = Inr False"
  proof -
    have "Suc 0 \<le> l" using assms(2) by simp
    then have "rat_of_nat (Suc 0) \<le> of_nat l" by (simp only: of_nat_le_iff)
    then show ?thesis by (simp add: py_gt_def num_lt_def is_number_def)
  qed
  obtain s1 where s1: "v2_async_pre_call_check ops rt t0 now ttl m s = (True, s1)" "mem_of s1 = c"
    "redis_increment_operation_queue s1 = redis_increment_operation_queue s @ [one_request k ttl]"
    using assms(1) g gt c(1)
    by (simp add: v2_async_pre_call_check_def Let_def increment_value_in_current_window_def over_def flip: assms(3))
  have f: "\<forall>i. check_value_size rt (mem_of s1) (PInt i)" using assms(7) c(3) s1(2) check_value_size_cong by metis
  have lc: "live_counter k (int 1) (t0 + of_int ttl) (mem_of s1)" using c(2) s1(2) by simp
  obtain s2 where "v2_answers ops rt ts now ttl m s1 = (map (\<lambda>i. 1 + i < l) [0..<length ts], s2)"
    "redis_increment_operation_queue s2 = redis_increment_operation_queue s1 @ replicate (min (l - 1) (length ts)) (one_request k ttl)"
    using v2_answers_live [OF assms(1,3) lc assms(8) f, of ops ttl] assms(2) by fastforce
  then have s2: "v2_answers ops rt (t0 # ts) now ttl m s = (True # map (\<lambda>i. 1 + i < l) [0..<length ts], s2)"
    "redis_increment_operation_queue s2 = redis_increment_operation_queue s @ replicate (Suc (min (l - 1) (length ts))) (one_request k ttl)"
    using s1(1,3) by simp_all
  have "Suc (min (l - 1) (length ts)) = min l (length (t0 # ts))" using assms(2) by simp
  moreover have "True # map (\<lambda>i. 1 + i < l) [0..<length ts] = map (\<lambda>i. i < l) [0..<length (t0 # ts)]"
    using assms(2) by (simp add: map_upt_Suc del: upt_Suc)
  ultimately show ?thesis using s2 by (metis (no_types))
qed

end
