(* ===== verification/UsageMap.thy ===== *)
theory UsageMap
  imports RequestCounts
begin

text \<open>
  The usage map of a model group that \<^verbatim>\<open>router_strategy/lowest_cost.py\<close> and
  \<^verbatim>\<open>lowest_latency.py\<close> keep in the router's cache: for every deployment id a dict with the tokens
  and requests of each minute. The nested dicts are the objects the cache holds, so an update that
  raises half way leaves what it has changed. The code reads the clock three times for the name of the
  minute; here it is read once. The theory describes well-typed maps by their counts and shows that
  updates keep them well typed.
\<close>

subsection \<open>Operations\<close>

text \<open>\<^verbatim>\<open>"%Y-%m-%d"\<close>, \<^verbatim>\<open>"%H"\<close> and \<^verbatim>\<open>"%M"\<close> joined by hyphens.\<close>

definition precise_minute :: "datetime \<Rightarrow> string" where
  "precise_minute now =
     str_of_int (year now) @ ''-'' @ pad2 (month now) @ ''-'' @ pad2 (day now) @ ''-'' @ pad2 (hour now) @ ''-'' @ pad2 (minute now)"

definition map_key :: "string \<Rightarrow> string" where
  "map_key model_group = model_group @ ''_map''"

text \<open>The usage of a response: completion tokens and all tokens.\<close>

type_synonym usage = "(int \<times> int) option"

type_synonym usage_map = "(string, pyval) dict"

text \<open>The counters of a minute: tokens first, then the request.\<close>

definition add_counts :: "pyval \<Rightarrow> (string, pyval) dict \<Rightarrow> unit pyres \<times> (string, pyval) dict" where
  "add_counts total_tokens c =
     (case py_add (dict_get c ''tpm'' (PInt 0)) total_tokens of
        Inl e \<Rightarrow> (Inl e, c)
      | Inr n \<Rightarrow>
        (let c1 = AList.update ''tpm'' n c in
         case py_add (dict_get c1 ''rpm'' (PInt 0)) (PInt 1) of
           Inl e \<Rightarrow> (Inl e, c1)
         | Inr k \<Rightarrow> (Inr (), AList.update ''rpm'' k c1)))"

definition add_minute :: "string \<Rightarrow> pyval \<Rightarrow> (string, pyval) dict \<Rightarrow> unit pyres \<times> (string, pyval) dict" where
  "add_minute this_minute total_tokens u =
     (let u1 = (if map_of u this_minute = None then AList.update this_minute (PDict []) u else u) in
      case map_of u1 this_minute of
        Some (PDict c) \<Rightarrow>
          (case add_counts total_tokens c of (r, c1) \<Rightarrow> (r, AList.update this_minute (PDict c1) u1))
      | _ \<Rightarrow> (Inl AttributeError, u1))"

text \<open>\<^verbatim>\<open>a or b or c or float("inf")\<close> on limits: a limit of 0 counts as none.\<close>

definition or_limit :: "rat option list \<Rightarrow> pyval" where
  "or_limit ls = (case find (\<lambda>l. l \<noteq> None \<and> l \<noteq> Some 0) ls of Some (Some q) \<Rightarrow> PFloat q | _ \<Rightarrow> PInf True)"

definition minute_count :: "string \<Rightarrow> string \<Rightarrow> (string, pyval) dict \<Rightarrow> pyval pyres" where
  "minute_count this_minute what item_map =
     (case dict_get item_map this_minute (PDict []) of
        PDict c \<Rightarrow> Inr (dict_get c what (PInt 0))
      | _ \<Rightarrow> Inl AttributeError)"

text \<open>\<^verbatim>\<open>item_tpm + input_tokens > tpm or item_rpm + 1 > rpm\<close>.\<close>

definition over_limits :: "string \<Rightarrow> int \<Rightarrow> deployment \<Rightarrow> (string, pyval) dict \<Rightarrow> bool pyres" where
  "over_limits this_minute input_tokens m item_map =
     (case minute_count this_minute ''rpm'' item_map of Inl e \<Rightarrow> Inl e | Inr item_rpm \<Rightarrow>
      case minute_count this_minute ''tpm'' item_map of Inl e \<Rightarrow> Inl e | Inr item_tpm \<Rightarrow>
      case py_add item_tpm (PInt input_tokens) of Inl e \<Rightarrow> Inl e | Inr tokens \<Rightarrow>
      case py_gt tokens (or_limit [top_tpm m, lp_tpm m, mi_tpm m]) of
        Inl e \<Rightarrow> Inl e
      | Inr True \<Rightarrow> Inr True
      | Inr False \<Rightarrow>
        (case py_add item_rpm (PInt 1) of Inl e \<Rightarrow> Inl e | Inr requests \<Rightarrow>
         py_gt requests (or_limit [top_rpm m, lp_rpm m, mi_rpm m])))"

text \<open>
  The deployments within their limits, each with the value it is chosen by; \<open>value_of\<close> stands for
  the part in which the two strategies differ.
\<close>

fun potential_deployments ::
  "(deployment \<Rightarrow> (string, pyval) dict \<Rightarrow> rat pyres) \<Rightarrow> string \<Rightarrow> int \<Rightarrow> deployment list \<Rightarrow> usage_map \<Rightarrow> (deployment \<times> rat) list pyres" where
  "potential_deployments value_of this_minute input_tokens ds [] = Inr []"
| "potential_deployments value_of this_minute input_tokens ds ((item, item_map) # rest) =
     (case find (\<lambda>m. item = dep_id m) (rev ds) of
        None \<Rightarrow> potential_deployments value_of this_minute input_tokens ds rest
      | Some m \<Rightarrow>
        (case item_map of
           PDict im \<Rightarrow>
             (case value_of m im of Inl e \<Rightarrow> Inl e | Inr v \<Rightarrow>
              case over_limits this_minute input_tokens m im of Inl e \<Rightarrow> Inl e | Inr over \<Rightarrow>
              case potential_deployments value_of this_minute input_tokens ds rest of Inl e \<Rightarrow> Inl e | Inr ps \<Rightarrow>
              Inr (if over then ps else (m, v) # ps))
         | _ \<Rightarrow> Inl AttributeError))"

text \<open>
  One update of the entry of a deployment by \<open>f\<close>; an exception ends it before the map is written back.
\<close>

definition record_usage ::
  "'r redis_ops \<Rightarrow> py_runtime \<Rightarrow> time \<Rightarrow> string \<Rightarrow> bool \<Rightarrow> ttl_kwarg \<Rightarrow> string \<Rightarrow>
   ((string, pyval) dict \<Rightarrow> unit pyres \<times> (string, pyval) dict) \<Rightarrow> 'r dual \<Rightarrow> 'r dual" where
  "record_usage ops rt t key local_only ttl i f d =
     (case dual_get_cache ops rt t t key local_only None d of
        (v, d1) \<Rightarrow>
        (case py_or v (PDict []) of
           PDict m \<Rightarrow>
             (let m1 = (if map_of m i = None then AList.update i (PDict []) m else m) in
              case map_of m1 i of
                Some (PDict u) \<Rightarrow>
                  (case f u of
                     (r, u1) \<Rightarrow>
                     (let m2 = AList.update i (PDict u1) m1; d2 = hand_out key v (PDict m2) d1 in
                      case r of
                        Inl _ \<Rightarrow> d2
                      | Inr _ \<Rightarrow> dual_set_cache ops rt t key (PDict m2) False ttl d2))
              | _ \<Rightarrow> hand_out key v (PDict m1) d1)
         | _ \<Rightarrow> d1))"

text \<open>The entries of healthy deployments that have not been used yet.\<close>

definition fill_usage :: "pyval \<Rightarrow> deployment list \<Rightarrow> usage_map \<Rightarrow> usage_map" where
  "fill_usage fresh ds m = fold (\<lambda>d m. if map_of m (dep_id d) = None then AList.update (dep_id d) fresh m else m) ds m"

subsection \<open>Well-typed maps\<close>

definition is_int :: "pyval \<Rightarrow> bool" where
  "is_int v \<longleftrightarrow> (case v of PInt _ \<Rightarrow> True | _ \<Rightarrow> False)"

definition typed_minute :: "string \<Rightarrow> (string, pyval) dict \<Rightarrow> bool" where
  "typed_minute this_minute im \<longleftrightarrow>
     (case map_of im this_minute of
        None \<Rightarrow> True
      | Some (PDict c) \<Rightarrow> is_int (dict_get c ''tpm'' (PInt 0)) \<and> is_int (dict_get c ''rpm'' (PInt 0))
      | _ \<Rightarrow> False)"

definition count_of :: "string \<Rightarrow> string \<Rightarrow> (string, pyval) dict \<Rightarrow> int" where
  "count_of this_minute what im =
     (case map_of im this_minute of
        Some (PDict c) \<Rightarrow> (case dict_get c what (PInt 0) of PInt n \<Rightarrow> n | _ \<Rightarrow> 0)
      | _ \<Rightarrow> 0)"

lemma minute_count_typed:
  "typed_minute mi im \<Longrightarrow> minute_count mi ''tpm'' im = Inr (PInt (count_of mi ''tpm'' im)) \<and>
     minute_count mi ''rpm'' im = Inr (PInt (count_of mi ''rpm'' im))"
  by (auto simp: typed_minute_def minute_count_def count_of_def is_int_def dict_get_def
      split: option.splits pyval.splits)

lemma add_minute_typed:
  assumes "typed_minute mi im"
  shows "\<exists>im'. add_minute mi (PInt n) im = (Inr (), im') \<and> typed_minute mi im' \<and>
    count_of mi ''tpm'' im' = count_of mi ''tpm'' im + n \<and> count_of mi ''rpm'' im' = count_of mi ''rpm'' im + 1 \<and>
    (\<forall>k. k \<noteq> mi \<longrightarrow> map_of im' k = map_of im k)"
proof -
  define c where "c = (case map_of im mi of Some (PDict c) \<Rightarrow> c | _ \<Rightarrow> [])"
  obtain a b where ab: "dict_get c ''tpm'' (PInt 0) = PInt a" "dict_get c ''rpm'' (PInt 0) = PInt b"
    "count_of mi ''tpm'' im = a" "count_of mi ''rpm'' im = b"
    using assms by (auto simp: c_def typed_minute_def count_of_def is_int_def dict_get_def split: option.splits pyval.splits)
  let ?u = "if map_of im mi = None then AList.update mi (PDict []) im else im"
  let ?c = "AList.update ''rpm'' (PInt (b + 1)) (AList.update ''tpm'' (PInt (a + n)) c)"
  have u: "map_of ?u mi = Some (PDict c)"
    using assms by (auto simp: c_def typed_minute_def split: option.splits pyval.splits)
  have "dict_get (AList.update ''tpm'' (PInt (a + n)) c) ''rpm'' (PInt 0) = PInt b" using ab(2) by (simp add: dict_get_def)
  then have "add_counts (PInt n) c = (Inr (), ?c)" using ab(1) by (simp add: add_counts_def Let_def)
  then have r: "add_minute mi (PInt n) im = (Inr (), AList.update mi (PDict ?c) ?u)"
    using u by (simp add: add_minute_def Let_def)
  show ?thesis unfolding r
    by (intro exI [of _ "AList.update mi (PDict ?c) ?u"])
      (use ab in \<open>auto simp: typed_minute_def count_of_def is_int_def dict_get_def\<close>)
qed

subsection \<open>Limits\<close>

definition under :: "rat option list \<Rightarrow> rat \<Rightarrow> bool" where
  "under ls n \<longleftrightarrow> (case find (\<lambda>l. l \<noteq> None \<and> l \<noteq> Some 0) ls of Some (Some q) \<Rightarrow> n \<le> q | _ \<Rightarrow> True)"

lemma gt_or_limit: "py_gt (PInt n) (or_limit ls) = Inr (\<not> under ls (of_int n))"
  by (auto simp: py_gt_def or_limit_def under_def num_lt_def is_number_def not_le split: option.split)

definition has_room :: "string \<Rightarrow> int \<Rightarrow> deployment \<Rightarrow> (string, pyval) dict \<Rightarrow> bool" where
  "has_room mi n m im \<longleftrightarrow>
     under [top_tpm m, lp_tpm m, mi_tpm m] (of_int (count_of mi ''tpm'' im + n)) \<and>
     under [top_rpm m, lp_rpm m, mi_rpm m] (of_int (count_of mi ''rpm'' im + 1))"

lemma over_limits_typed: "typed_minute mi im \<Longrightarrow> over_limits mi n m im = Inr (\<not> has_room mi n m im)"
  using minute_count_typed [of mi im] by (auto simp: over_limits_def gt_or_limit has_room_def split: bool.split)

subsection \<open>The deployments within their limits\<close>

lemma potential_set:
  assumes "distinct (map dep_id ds)"
    and "\<forall>(i, v) \<in> set us. \<forall>m \<in> set ds. dep_id m = i \<longrightarrow> (\<exists>im x. v = PDict im \<and> typed_minute mi im \<and> value_of m im = Inr x)"
  shows "\<exists>ps. potential_deployments value_of mi n ds us = Inr ps \<and>
    set ps = {(m, x). m \<in> set ds \<and> (\<exists>im. (dep_id m, PDict im) \<in> set us \<and> value_of m im = Inr x \<and> has_room mi n m im)}"
  using assms(2)
proof (induction us)
  case Nil
  then show ?case by simp
next
  case (Cons u us)
  obtain i v where u: "u = (i, v)" by (cases u)
  have "\<forall>(i, v) \<in> set us. \<forall>m \<in> set ds. dep_id m = i \<longrightarrow> (\<exists>im x. v = PDict im \<and> typed_minute mi im \<and> value_of m im = Inr x)"
    using Cons.prems by simp
  from Cons.IH [OF this] obtain ps where ps: "potential_deployments value_of mi n ds us = Inr ps"
    "set ps = {(m, x). m \<in> set ds \<and> (\<exists>im. (dep_id m, PDict im) \<in> set us \<and> value_of m im = Inr x \<and> has_room mi n m im)}"
    by blast
  show ?case
  proof (cases "\<exists>m \<in> set ds. dep_id m = i")
    case False
    then have "find (\<lambda>m. i = dep_id m) (rev ds) = None" by (auto simp: find_None_iff)
    then show ?thesis using ps u False by auto
  next
    case True
    then obtain m where m: "m \<in> set ds" "dep_id m = i" by blast
    then obtain im x where im: "v = PDict im" "typed_minute mi im" "value_of m im = Inr x"
      using Cons.prems u by auto
    have f: "find (\<lambda>m. i = dep_id m) (rev ds) = Some m" using find_rev_id [OF assms(1) m(1)] m(2) by simp
    have uniq: "m' = m" if "m' \<in> set ds" "dep_id m' = i" for m'
      using that m assms(1) by (metis distinct_map inj_onD)
    let ?new = "if has_room mi n m im then (m, x) # ps else ps"
    have "potential_deployments value_of mi n ds (u # us) = Inr ?new"
      using ps(1) f im over_limits_typed [OF im(2), of n m] by (simp add: u)
    moreover have "set ?new = {(m, x). m \<in> set ds \<and> (\<exists>im. (dep_id m, PDict im) \<in> set (u # us) \<and> value_of m im = Inr x \<and> has_room mi n m im)}"
    proof -
      have "{(m, x). m \<in> set ds \<and> (\<exists>im. (dep_id m, PDict im) \<in> set (u # us) \<and> value_of m im = Inr x \<and> has_room mi n m im)} =
        {(m', y). m' = m \<and> y = x \<and> has_room mi n m im} \<union> set ps"
        unfolding ps(2) u im(1) using m im(3) by (auto dest: uniq)
      then show ?thesis by auto
    qed
    ultimately show ?thesis by blast
  qed
qed

subsection \<open>Filled maps\<close>

lemma fill_usage_lookup:
  "map_of (fill_usage fresh ds m) i = (case map_of m i of Some v \<Rightarrow> Some v | None \<Rightarrow> if i \<in> dep_id ` set ds then Some fresh else None)"
  unfolding fill_usage_def
  by (induction ds arbitrary: m) (auto split: option.split)

lemma fill_usage_wf: "dict_wf m \<Longrightarrow> dict_wf (fill_usage fresh ds m)"
  unfolding fill_usage_def by (induction ds arbitrary: m) (auto simp: distinct_update)

text \<open>The entry of a deployment, and \<open>fresh\<close> for one without.\<close>

definition entry_or :: "(string, pyval) dict \<Rightarrow> usage_map \<Rightarrow> deployment \<Rightarrow> (string, pyval) dict" where
  "entry_or fresh m x = (case map_of m (dep_id x) of Some (PDict im) \<Rightarrow> im | _ \<Rightarrow> fresh)"

definition typed_map :: "string \<Rightarrow> deployment list \<Rightarrow> usage_map \<Rightarrow> bool" where
  "typed_map mi ds m \<longleftrightarrow> dict_wf m \<and>
     (\<forall>x \<in> set ds. case map_of m (dep_id x) of None \<Rightarrow> True | Some (PDict im) \<Rightarrow> typed_minute mi im | _ \<Rightarrow> False)"

lemma filled_entry:
  assumes "typed_map mi ds m" "x \<in> set ds" "typed_minute mi fresh"
  shows "map_of (fill_usage (PDict fresh) ds m) (dep_id x) = Some (PDict (entry_or fresh m x))"
    and "typed_minute mi (entry_or fresh m x)"
proof -
  have "case map_of m (dep_id x) of None \<Rightarrow> True | Some (PDict im) \<Rightarrow> typed_minute mi im | _ \<Rightarrow> False"
    using assms(1,2) by (simp add: typed_map_def)
  then consider "map_of m (dep_id x) = None" | im where "map_of m (dep_id x) = Some (PDict im)" "typed_minute mi im"
    by (auto split: option.splits pyval.splits)
  then show "map_of (fill_usage (PDict fresh) ds m) (dep_id x) = Some (PDict (entry_or fresh m x))"
    "typed_minute mi (entry_or fresh m x)"
    by (cases, use assms(2,3) in \<open>simp_all add: fill_usage_lookup entry_or_def\<close>)+
qed

lemma potential_filled:
  assumes "typed_map mi ds m" "distinct (map dep_id ds)" "typed_minute mi fresh"
    and "set us = set (fill_usage (PDict fresh) ds m)"
    and "\<forall>x \<in> set ds. \<exists>y. value_of x (entry_or fresh m x) = Inr y"
  shows "\<exists>ps. potential_deployments value_of mi n ds us = Inr ps \<and>
    set ps = {(x, y). x \<in> set ds \<and> value_of x (entry_or fresh m x) = Inr y \<and> has_room mi n x (entry_or fresh m x)}"
proof -
  have wf: "dict_wf (fill_usage (PDict fresh) ds m)" using assms(1) by (simp add: fill_usage_wf typed_map_def)
  have look: "(dep_id x, v) \<in> set us \<longleftrightarrow> v = PDict (entry_or fresh m x)" if "x \<in> set ds" for x v
    using map_of_eq_Some_iff [OF wf] filled_entry(1) [OF assms(1) that assms(3)] assms(4) by (metis option.inject)
  have "\<forall>(i, v) \<in> set us. \<forall>x \<in> set ds. dep_id x = i \<longrightarrow> (\<exists>im y. v = PDict im \<and> typed_minute mi im \<and> value_of x im = Inr y)"
    using look filled_entry(2) [OF assms(1) _ assms(3)] assms(5) by blast
  from potential_set [OF assms(2) this, of n] show ?thesis using look by auto
qed

text \<open>The first of the deployments sorted by their value has the least value.\<close>

lemma sorted_hd_least:
  "case sort_key snd (ps :: (deployment \<times> rat) list) of [] \<Rightarrow> ps = [] | (x, v) # _ \<Rightarrow> (x, v) \<in> set ps \<and> (\<forall>(y, w) \<in> set ps. v \<le> w)"
proof (cases "sort_key snd ps")
  case Nil
  then have "set ps = {}" by (metis set_empty set_sort)
  then show ?thesis using Nil by simp
next
  case (Cons p qs)
  have s: "sorted (map snd (p # qs))" using sorted_sort_key [of snd ps] Cons by simp
  have e: "set ps = set (p # qs)" by (metis Cons set_sort)
  then have "\<forall>(y, w) \<in> set ps. snd p \<le> w" using s by auto
  then show ?thesis using Cons e by (auto split: prod.splits)
qed

subsection \<open>Maps in the cache\<close>

definition map_with :: "((string, pyval) dict \<Rightarrow> bool) \<Rightarrow> pyval \<Rightarrow> bool" where
  "map_with Q v \<longleftrightarrow> (\<exists>m. v = PDict m \<and> dict_wf m \<and> (\<forall>i e. map_of m i = Some e \<longrightarrow> (\<exists>u. e = PDict u \<and> Q u)))"

lemma map_with_update: "map_with Q (PDict m) \<Longrightarrow> Q u \<Longrightarrow> map_with Q (PDict (AList.update i (PDict u) m))"
  by (auto simp: map_with_def distinct_update)

text \<open>The map that a reader works on.\<close>

lemma cached_map:
  assumes "cache_all R d" "\<And>v. R k v \<Longrightarrow> map_with Q v"
  shows "\<exists>m. py_or (dual_peek t k d) (PDict []) = PDict m \<and> map_with Q (PDict m)"
proof (cases "dual_peek t k d = PNone")
  case True
  then show ?thesis by (simp add: py_or_def map_with_def)
next
  case False
  then obtain v where "R k v" "dual_peek t k d = json_view v" using cache_all_peek [OF assms(1)] by blast
  moreover from this obtain m where "v = PDict m" "map_with Q (PDict m)"
    using assms(2) [of v] by (auto simp: map_with_def)
  ultimately have "dual_peek t k d = PDict m" "map_with Q (PDict m)" by (simp_all add: json_view_def)
  then show ?thesis by (cases m) (simp_all add: py_or_def)
qed

lemma record_usage_maps:
  assumes "cache_all R d" "\<And>u. u = [] \<or> Q u \<Longrightarrow> Q (snd (f u))"
    and "\<And>v. R k v \<longleftrightarrow> map_with Q v"
  shows "cache_all R (record_usage ops rt t k lo ttl i f d)"
proof -
  obtain v d1 where g: "dual_get_cache ops rt t t k lo None d = (v, d1)" by (cases "dual_get_cache ops rt t t k lo None d")
  note g' = cache_all_get [OF assms(1) g]
  obtain m where m: "py_or v (PDict []) = PDict m" "map_with Q (PDict m)"
    using cached_map [OF assms(1), of k Q t] assms(3) g' by auto
  let ?m1 = "if map_of m i = None then AList.update i (PDict []) m else m"
  obtain u where u: "map_of ?m1 i = Some (PDict u)" "u = [] \<or> Q u"
    using m(2) by (cases "map_of m i") (auto simp: map_with_def)
  obtain r u1 where f: "f u = (r, u1)" by (cases "f u")
  let ?m2 = "PDict (AList.update i (PDict u1) m)"
  have "Q u1" using assms(2) [OF u(2)] f by simp
  then have R: "R k ?m2" using map_with_update [OF m(2)] assms(3) by simp
  note h = cache_all_hand_out [OF conjunct2 [OF g'] R, of v]
  have "record_usage ops rt t k lo ttl i f d \<in>
    {hand_out k v ?m2 d1, dual_set_cache ops rt t k ?m2 False ttl (hand_out k v ?m2 d1)}"
    using u(1) by (simp add: record_usage_def g m(1) f Let_def split: sum.split if_splits)
  then show ?thesis using h cache_all_set [OF h R] by auto
qed

lemma record_usage_first:
  assumes "dual_local ttl d" "dual_peek t k d = PNone" "f [] = (Inr (), u)"
    and "check_value_size rt (in_memory_cache d) (PDict [(i, PDict u)])"
  shows "dual_peek t k (record_usage ops rt t k lo ttl i f d) = PDict [(i, PDict u)]"
proof -
  let ?d1 = "dual_after_get ops rt t k d"
  have "dual_get_cache ops rt t t k lo None d = (PNone, ?d1)"
    using assms(1,2) by (simp add: dual_get_local dual_after_get_def dual_local_def)
  then have "record_usage ops rt t k lo ttl i f d = dual_put ops rt ttl t k (PDict [(i, PDict u)]) ?d1"
    using assms(3) by (simp add: record_usage_def py_or_def hand_out_def dual_put_def Let_def)
  then show ?thesis
    using dcs.peek_put_same [OF dcs.get_invar [OF assms(1)]] dcs.fits_get [OF assms(1)] assms(4) by (simp add: json_view_def)
qed

end
