(* ===== verification/LowestLatency.thy ===== *)
theory LowestLatency
  imports UsageMap Errors
begin

text \<open>
  \<^verbatim>\<open>router_strategy/lowest_latency.py\<close>: the strategy that picks among the deployments whose average
  latency is close to the lowest. The entry of a deployment in the usage map also holds its latest
  latencies and, for streamed requests, its times to the first token per completion token. The
  infinities and NaN, which no event writes, count as no latency here. The averages that are written
  into the metadata of the request for debugging are left out.
\<close>

subsection \<open>Operations\<close>

record latency_args =
  lat_ttl :: rat
  lowest_latency_buffer :: rat
  max_latency_list_size :: int

definition default_latency_args :: latency_args where
  "default_latency_args = \<lparr>lat_ttl = 1 * 60 * 60, lowest_latency_buffer = 0, max_latency_list_size = 10\<rparr>"

definition safe_divide_seconds :: "rat \<Rightarrow> int \<Rightarrow> rat option \<Rightarrow> rat option" where
  "safe_divide_seconds seconds denominator dflt = (if denominator \<le> 0 then dflt else Some (seconds / of_int denominator))"

definition select_metadata_field :: "(string, pyval) dict option \<Rightarrow> string option" where
  "select_metadata_field request_kwargs =
     (case request_kwargs of
        None \<Rightarrow> None
      | Some kw \<Rightarrow> Some (if map_of kw ''litellm_metadata'' \<noteq> None then ''litellm_metadata'' else ''metadata''))"

text \<open>Whose latency it is; an exception on the way ends the event like a missing group or id.\<close>

definition latency_target :: "(pyval \<Rightarrow> string) \<Rightarrow> (string, pyval) dict \<Rightarrow> (string \<times> string) option" where
  "latency_target py_str kwargs =
     (case (map_of kwargs ''litellm_params'', select_metadata_field (Some kwargs)) of
        (Some (PDict lp), Some field) \<Rightarrow>
          (case (dict_get lp field PNone, py_or (dict_get lp ''model_info'' PNone) (PDict [])) of
             (PDict md, PDict mi) \<Rightarrow> group_and_id py_str md mi
           | _ \<Rightarrow> None)
      | _ \<Rightarrow> None)"

text \<open>The start and the end of a call: both a \<^verbatim>\<open>datetime\<close> or both a number of seconds.\<close>

datatype call_time = AtTime rat | Stamp rat

fun time_minus :: "call_time \<Rightarrow> call_time \<Rightarrow> pyval pyres" where
  "time_minus (AtTime a) (AtTime b) = Inr (PTimedelta (a - b))"
| "time_minus (Stamp a) (Stamp b) = Inr (PFloat (a - b))"
| "time_minus _ _ = Inl TypeError"

definition seconds_of :: "pyval \<Rightarrow> rat" where
  "seconds_of v = (case v of PTimedelta q \<Rightarrow> q | PFloat q \<Rightarrow> q | _ \<Rightarrow> 0)"

text \<open>
  A value at the end of one of the lists. A full list keeps its oldest values and loses its newest.
\<close>

definition push_latency :: "int \<Rightarrow> string \<Rightarrow> pyval \<Rightarrow> (string, pyval) dict \<Rightarrow> unit pyres \<times> (string, pyval) dict" where
  "push_latency max_size field v u =
     (case dict_get u field (PList []) of
        PList xs \<Rightarrow>
          if int (length xs) < max_size then (Inr (), AList.update field (PList (xs @ [v])) u)
          else if map_of u field = None then (Inl KeyError, u)
          else (Inr (), AList.update field (PList (py_take (max_size - 1) xs @ [v])) u)
      | _ \<Rightarrow> (Inl TypeError, u))"

text \<open>
  The latency and the time to the first token of a response. Without a usage the response time is
  stored as it is; the asynchronous event also stores it as it is where there are no completion
  tokens, the synchronous one in seconds.
\<close>

definition final_value :: "bool \<Rightarrow> pyval \<Rightarrow> usage \<Rightarrow> pyval" where
  "final_value sync response_ms usage =
     (case usage of
        None \<Rightarrow> response_ms
      | Some (completion_tokens, _) \<Rightarrow>
        (case safe_divide_seconds (seconds_of response_ms) completion_tokens None of
           Some q \<Rightarrow> PFloat q
         | None \<Rightarrow> if sync then PFloat (seconds_of response_ms) else response_ms))"

definition first_token :: "pyval option \<Rightarrow> usage \<Rightarrow> pyval option" where
  "first_token ttft_response_time usage =
     (case (ttft_response_time, usage) of
        (Some v, Some (completion_tokens, _)) \<Rightarrow>
          map_option PFloat (safe_divide_seconds (seconds_of v) completion_tokens None)
      | _ \<Rightarrow> None)"

definition push_success :: "int \<Rightarrow> string \<Rightarrow> pyval \<Rightarrow> pyval option \<Rightarrow> int \<Rightarrow> (string, pyval) dict \<Rightarrow> unit pyres \<times> (string, pyval) dict" where
  "push_success max_size mi latency ttft total_tokens u =
     (case push_latency max_size ''latency'' latency u of
        (Inl e, u1) \<Rightarrow> (Inl e, u1)
      | (Inr _, u1) \<Rightarrow>
        (case (case ttft of None \<Rightarrow> (Inr (), u1) | Some v \<Rightarrow> push_latency max_size ''time_to_first_token'' v u1) of
           (Inl e, u2) \<Rightarrow> (Inl e, u2)
         | (Inr _, u2) \<Rightarrow> add_minute mi (PInt total_tokens) u2))"

text \<open>
  \<^verbatim>\<open>log_success_event\<close> and \<^verbatim>\<open>async_log_success_event\<close>, which reads only the in-memory level.
  \<open>first_chunk\<close> is \<^verbatim>\<open>kwargs["completion_start_time"]\<close>, if it is there; an exception ends the event.
\<close>

definition latency_log_success ::
  "bool \<Rightarrow> 'r redis_ops \<Rightarrow> py_runtime \<Rightarrow> (pyval \<Rightarrow> string) \<Rightarrow> latency_args \<Rightarrow> datetime \<Rightarrow> time \<Rightarrow> (string, pyval) dict \<Rightarrow>
   call_time option option \<Rightarrow> usage \<Rightarrow> call_time \<Rightarrow> call_time \<Rightarrow> 'r dual \<Rightarrow> 'r dual" where
  "latency_log_success sync ops rt py_str args now t kwargs first_chunk usage start_time end_time d =
     (case latency_target py_str kwargs of
        None \<Rightarrow> d
      | Some (g, i) \<Rightarrow>
        (case time_minus end_time start_time of
           Inl _ \<Rightarrow> d
         | Inr response_ms \<Rightarrow>
           (case (if map_of kwargs ''stream'' = Some (PBool True)
                  then (case first_chunk of
                          None \<Rightarrow> map_sum id Some (time_minus end_time start_time)
                        | Some None \<Rightarrow> Inl TypeError
                        | Some (Some c) \<Rightarrow> map_sum id Some (time_minus c start_time))
                  else Inr None) of
              Inl _ \<Rightarrow> d
            | Inr ttft_response_time \<Rightarrow>
              record_usage ops rt t (map_key g) (\<not> sync) (Some (Some (lat_ttl args))) i
                (push_success (max_latency_list_size args) (precise_minute now) (final_value sync response_ms usage)
                  (first_token ttft_response_time usage) (case usage of None \<Rightarrow> 0 | Some (_, n) \<Rightarrow> n)) d)))"

definition latency_log_success_event ::
  "'r redis_ops \<Rightarrow> py_runtime \<Rightarrow> (pyval \<Rightarrow> string) \<Rightarrow> latency_args \<Rightarrow> datetime \<Rightarrow> time \<Rightarrow> (string, pyval) dict \<Rightarrow>
   call_time option option \<Rightarrow> usage \<Rightarrow> call_time \<Rightarrow> call_time \<Rightarrow> 'r dual \<Rightarrow> 'r dual" where
  "latency_log_success_event = latency_log_success True"

definition latency_async_log_success_event ::
  "'r redis_ops \<Rightarrow> py_runtime \<Rightarrow> (pyval \<Rightarrow> string) \<Rightarrow> latency_args \<Rightarrow> datetime \<Rightarrow> time \<Rightarrow> (string, pyval) dict \<Rightarrow>
   call_time option option \<Rightarrow> usage \<Rightarrow> call_time \<Rightarrow> call_time \<Rightarrow> 'r dual \<Rightarrow> 'r dual" where
  "latency_async_log_success_event = latency_log_success False"

text \<open>A timeout counts as a latency of 1000 seconds; other failures are not recorded.\<close>

definition latency_log_failure ::
  "'r redis_ops \<Rightarrow> py_runtime \<Rightarrow> (pyval \<Rightarrow> string) \<Rightarrow> latency_args \<Rightarrow> time \<Rightarrow> (string, pyval) dict \<Rightarrow> exc option \<Rightarrow>
   'r dual \<Rightarrow> 'r dual" where
  "latency_log_failure ops rt py_str args t kwargs exception d =
     (if (case exception of None \<Rightarrow> False | Some e \<Rightarrow> exc_isinstance e Timeout) then
        case latency_target py_str kwargs of
          None \<Rightarrow> d
        | Some (g, i) \<Rightarrow>
          record_usage ops rt t (map_key g) False (Some (Some (lat_ttl args))) i
            (push_latency (max_latency_list_size args) ''latency'' (PFloat 1000)) d
      else d)"

text \<open>What \<^verbatim>\<open>for x in v\<close> goes through, and \<^verbatim>\<open>len(v)\<close> counts.\<close>

definition iterate :: "pyval \<Rightarrow> pyval list pyres" where
  "iterate v =
     (case v of
        PList xs \<Rightarrow> Inr xs
      | PTuple xs \<Rightarrow> Inr xs
      | PSet xs \<Rightarrow> Inr xs
      | PStr s \<Rightarrow> Inr (map (\<lambda>c. PStr [c]) s)
      | PDict d \<Rightarrow> Inr (map (PStr \<circ> fst) d)
      | _ \<Rightarrow> Inl TypeError)"

text \<open>The sum of the floats of a list, divided by the number of all its values.\<close>

definition as_latency :: "pyval \<Rightarrow> rat" where
  "as_latency v = (case v of PFloat q \<Rightarrow> q | _ \<Rightarrow> 0)"

definition mean_latency :: "pyval list \<Rightarrow> rat" where
  "mean_latency xs = (\<Sum>x\<leftarrow>xs. as_latency x) / of_nat (length xs)"

definition average_latency :: "bool \<Rightarrow> (string, pyval) dict \<Rightarrow> rat pyres" where
  "average_latency streaming item_map =
     (case (if streaming then iterate (dict_get item_map ''time_to_first_token'' (PList [])) else Inr []) of
        Inl e \<Rightarrow> Inl e
      | Inr ttfts \<Rightarrow>
        if ttfts \<noteq> [] then Inr (mean_latency ttfts)
        else (case iterate (dict_get item_map ''latency'' (PList [])) of
           Inl e \<Rightarrow> Inl e
         | Inr ls \<Rightarrow> if ls = [] then Inl ZeroDivisionError else Inr (mean_latency ls)))"

text \<open>The counts of the minute are read before the average.\<close>

definition item_latency :: "bool \<Rightarrow> string \<Rightarrow> (string, pyval) dict \<Rightarrow> rat pyres" where
  "item_latency streaming mi item_map =
     (case minute_count mi ''rpm'' item_map of Inl e \<Rightarrow> Inl e | Inr _ \<Rightarrow>
      case minute_count mi ''tpm'' item_map of Inl e \<Rightarrow> Inl e | Inr _ \<Rightarrow>
      average_latency streaming item_map)"

definition fresh_latency :: "string \<Rightarrow> (string, pyval) dict" where
  "fresh_latency mi = [(''latency'', PList [PInt 0]), (mi, PDict [(''tpm'', PInt 0), (''rpm'', PInt 0)])]"

text \<open>
  \<^verbatim>\<open>_get_available_deployments\<close>; \<open>sample\<close> is the permutation that \<^verbatim>\<open>random.sample\<close> draws.
  Returned with the pick are the entries after the healthy deployments without one were added.
\<close>

definition pick_latency ::
  "latency_args \<Rightarrow> bool \<Rightarrow> (usage_map \<Rightarrow> usage_map) \<Rightarrow> (nat \<Rightarrow> nat) \<Rightarrow> string \<Rightarrow> int pyres \<Rightarrow> deployment list \<Rightarrow> usage_map \<Rightarrow>
   deployment option pyres \<times> usage_map" where
  "pick_latency args streaming sample randbelow mi token_counter ds m =
     (let m1 = fill_usage (PDict (fresh_latency mi)) ds m;
          input_tokens = (case token_counter of Inl _ \<Rightarrow> 0 | Inr n \<Rightarrow> n) in
      (case potential_deployments (\<lambda>_. item_latency streaming mi) mi input_tokens ds (sample m1) of
         Inl e \<Rightarrow> Inl e
       | Inr ps \<Rightarrow>
         (case sort_key snd ps of
            [] \<Rightarrow> Inr None
          | (x, lowest_latency) # rest \<Rightarrow>
            (let buffer = lowest_latency_buffer args * lowest_latency;
                 valid = filter (\<lambda>p. snd p \<le> lowest_latency + buffer) ((x, lowest_latency) # rest) in
             map_sum id (Some \<circ> fst) (random_choice randbelow valid))), m1))"

definition latency_get_available_deployments ::
  "'r redis_ops \<Rightarrow> py_runtime \<Rightarrow> latency_args \<Rightarrow> bool \<Rightarrow> (usage_map \<Rightarrow> usage_map) \<Rightarrow> (nat \<Rightarrow> nat) \<Rightarrow> datetime \<Rightarrow> time \<Rightarrow> int pyres \<Rightarrow>
   string \<Rightarrow> deployment list \<Rightarrow> 'r dual \<Rightarrow> deployment option pyres \<times> 'r dual" where
  "latency_get_available_deployments ops rt args streaming sample randbelow now t token_counter g ds d =
     (let key = map_key g in
      case dual_get_cache ops rt t t key False None d of
        (v, d1) \<Rightarrow>
        (case py_or v (PDict []) of
           PDict m \<Rightarrow>
             (case pick_latency args streaming sample randbelow (precise_minute now) token_counter ds m of
                (r, m1) \<Rightarrow> (r, hand_out key v (PDict m1) d1))
         | _ \<Rightarrow> (Inl AttributeError, d1)))"

subsection \<open>Typing\<close>

definition is_latency :: "pyval \<Rightarrow> bool" where
  "is_latency v \<longleftrightarrow> (case v of PFloat q \<Rightarrow> 0 \<le> q | PTimedelta _ \<Rightarrow> True | PInt n \<Rightarrow> n = 0 | _ \<Rightarrow> False)"

abbreviation latency_fields :: "string set" where
  "latency_fields \<equiv> {''latency'', ''time_to_first_token''}"

text \<open>A list of at most \<open>n\<close> latencies that is not empty, and the counts of a minute.\<close>

definition latency_list :: "int \<Rightarrow> pyval \<Rightarrow> bool" where
  "latency_list n v \<longleftrightarrow> (\<exists>xs. v = PList xs \<and> xs \<noteq> [] \<and> int (length xs) \<le> n \<and> (\<forall>x \<in> set xs. is_latency x))"

definition minute_counts :: "pyval \<Rightarrow> bool" where
  "minute_counts v \<longleftrightarrow> (\<exists>c. v = PDict c \<and> is_int (dict_get c ''tpm'' (PInt 0)) \<and> is_int (dict_get c ''rpm'' (PInt 0)))"

definition typed_fields :: "int \<Rightarrow> (string, pyval) dict \<Rightarrow> bool" where
  "typed_fields n u \<longleftrightarrow> (\<forall>k v. map_of u k = Some v \<longrightarrow> (if k \<in> latency_fields then latency_list n v else minute_counts v))"

definition typed_entry :: "int \<Rightarrow> (string, pyval) dict \<Rightarrow> bool" where
  "typed_entry n u \<longleftrightarrow> typed_fields n u \<and> map_of u ''latency'' \<noteq> None"

lemma push_latency_typed:
  assumes "typed_fields n u" "1 \<le> n" "is_latency v" "field \<in> latency_fields"
  shows "\<exists>u'. push_latency n field v u = (Inr (), u') \<and> typed_fields n u' \<and> map_of u' field \<noteq> None \<and>
    (\<forall>k. k \<noteq> field \<longrightarrow> map_of u' k = map_of u k)"
proof -
  obtain xs where xs: "dict_get u field (PList []) = PList xs" "int (length xs) \<le> n" "\<forall>x \<in> set xs. is_latency x"
    "xs \<noteq> [] \<Longrightarrow> map_of u field \<noteq> None"
  proof (cases "map_of u field")
    case None
    then show ?thesis using that [of "[]"] assms(2) by (simp add: dict_get_def)
  next
    case (Some w)
    then have "latency_list n w" using assms(1,4) by (simp add: typed_fields_def)
    then obtain xs where "w = PList xs" "int (length xs) \<le> n" "\<forall>x \<in> set xs. is_latency x"
      by (auto simp: latency_list_def)
    then show ?thesis using that [of xs] Some by (simp add: dict_get_def)
  qed
  let ?ys = "(if int (length xs) < n then xs else py_take (n - 1) xs) @ [v]"
  have p: "push_latency n field v u = (Inr (), AList.update field (PList ?ys) u)"
  proof (cases "int (length xs) < n")
    case False
    then have "xs \<noteq> []" using assms(2) by auto
    then show ?thesis using xs(1,4) False by (simp add: push_latency_def)
  qed (simp add: push_latency_def xs(1))
  have "latency_list n (PList ?ys)"
    using xs(2,3) assms(2,3) by (auto simp: latency_list_def py_take_def dest: in_set_takeD)
  then have "typed_fields n (AList.update field (PList ?ys) u)"
    using assms(1,4) by (auto simp: typed_fields_def)
  then show ?thesis using p by simp
qed

lemma typed_fields_minute:
  assumes "typed_fields n u" "mi \<notin> latency_fields"
  shows "typed_minute mi u"
proof (cases "map_of u mi")
  case (Some v)
  then have "minute_counts v" using assms by (simp add: typed_fields_def)
  then show ?thesis using Some by (auto simp: minute_counts_def typed_minute_def)
qed (simp add: typed_minute_def)

lemma add_minute_fields:
  assumes "typed_fields n u" "mi \<notin> latency_fields"
  shows "typed_fields n (snd (add_minute mi (PInt k) u)) \<and> map_of (snd (add_minute mi (PInt k) u)) ''latency'' = map_of u ''latency''"
proof -
  from add_minute_typed [OF typed_fields_minute [OF assms], of k] obtain u' where u': "add_minute mi (PInt k) u = (Inr (), u')" "typed_minute mi u'"
    "\<forall>j. j \<noteq> mi \<longrightarrow> map_of u' j = map_of u j" by blast
  have "minute_counts v" if "map_of u' mi = Some v" for v
    using that u'(2) by (auto simp: typed_minute_def minute_counts_def split: pyval.splits)
  then have "typed_fields n u'" using u'(3) assms unfolding typed_fields_def by metis
  then show ?thesis using u'(1,3) assms(2) by auto
qed

lemma push_success_typed:
  assumes "u = [] \<or> typed_entry n u" "1 \<le> n" "is_latency v" "\<forall>w. ttft = Some w \<longrightarrow> is_latency w" "mi \<notin> latency_fields"
  shows "typed_entry n (snd (push_success n mi v ttft k u))"
proof -
  have u: "typed_fields n u" using assms(1) by (auto simp: typed_entry_def typed_fields_def)
  obtain u1 where u1: "push_latency n ''latency'' v u = (Inr (), u1)" "typed_fields n u1" "map_of u1 ''latency'' \<noteq> None"
    using push_latency_typed [OF u assms(2,3), of "''latency''"] by auto
  obtain u2 where u2: "(case ttft of None \<Rightarrow> (Inr (), u1) | Some v \<Rightarrow> push_latency n ''time_to_first_token'' v u1) = (Inr (), u2)"
    "typed_fields n u2" "map_of u2 ''latency'' \<noteq> None"
  proof (cases ttft)
    case (Some w)
    then show ?thesis
      using that push_latency_typed [OF u1(2) assms(2), of w "''time_to_first_token''"] assms(4) u1(3) by auto
  qed (use that u1 in auto)
  have "push_success n mi v ttft k u = add_minute mi (PInt k) u2" by (simp add: push_success_def u1(1) u2(1))
  then show ?thesis using add_minute_fields [OF u2(2) assms(5), of k] u2(3) by (simp add: typed_entry_def)
qed

lemma push_timeout_typed:
  "u = [] \<or> typed_entry n u \<Longrightarrow> 1 \<le> n \<Longrightarrow> typed_entry n (snd (push_latency n ''latency'' (PFloat 1000) u))"
  using push_latency_typed [of n u "PFloat 1000" "''latency''"]
  by (auto simp: typed_entry_def is_latency_def) (auto simp: typed_fields_def)

lemma minute_no_field: "precise_minute now \<notin> latency_fields"
proof -
  have "CHR ''-'' \<in> set (precise_minute now)" by (simp add: precise_minute_def)
  moreover have "CHR ''-'' \<notin> set ''latency''" "CHR ''-'' \<notin> set ''time_to_first_token''" by simp_all
  ultimately have "precise_minute now \<noteq> ''latency''" "precise_minute now \<noteq> ''time_to_first_token''" by metis+
  then show ?thesis by simp
qed

lemma fresh_latency_typed: "1 \<le> n \<Longrightarrow> mi \<notin> latency_fields \<Longrightarrow> typed_entry n (fresh_latency mi)"
  by (auto simp: typed_entry_def typed_fields_def fresh_latency_def latency_list_def is_latency_def minute_counts_def
      is_int_def dict_get_def)

text \<open>Times that do not run backwards give latencies.\<close>

fun time_le :: "call_time \<Rightarrow> call_time \<Rightarrow> bool" where
  "time_le (AtTime a) (AtTime b) = (a \<le> b)"
| "time_le (Stamp a) (Stamp b) = (a \<le> b)"
| "time_le _ _ = True"

lemma time_minus_latency: "time_le a b \<Longrightarrow> time_minus b a = Inr v \<Longrightarrow> is_latency v \<and> 0 \<le> seconds_of v"
  by (cases a; cases b) (auto simp: is_latency_def seconds_of_def)

lemma final_value_latency: "is_latency v \<Longrightarrow> 0 \<le> seconds_of v \<Longrightarrow> is_latency (final_value sync v usage)"
  by (auto simp: final_value_def safe_divide_seconds_def is_latency_def[of "PFloat _"] split: option.split)

lemma first_token_latency:
  "(\<forall>w. v = Some w \<longrightarrow> 0 \<le> seconds_of w) \<Longrightarrow> first_token v usage = Some x \<Longrightarrow> is_latency x"
  by (auto simp: first_token_def safe_divide_seconds_def is_latency_def split: option.splits if_splits)

subsection \<open>Reachable states\<close>

text \<open>Events and picks of a strategy with its own cache, in any order and at any times.\<close>

inductive latency_step :: "'r redis_ops \<Rightarrow> py_runtime \<Rightarrow> latency_args \<Rightarrow> 'r dual \<Rightarrow> 'r dual \<Rightarrow> bool" for ops rt args where
  lat_success: "time_le start_time end_time \<Longrightarrow> \<forall>c. first_chunk = Some (Some c) \<longrightarrow> time_le start_time c \<Longrightarrow>
    latency_step ops rt args d (latency_log_success_event ops rt py_str args now t kwargs first_chunk usage start_time end_time d)"
| lat_async_success: "time_le start_time end_time \<Longrightarrow> \<forall>c. first_chunk = Some (Some c) \<longrightarrow> time_le start_time c \<Longrightarrow>
    latency_step ops rt args d (latency_async_log_success_event ops rt py_str args now t kwargs first_chunk usage start_time end_time d)"
| lat_failure: "latency_step ops rt args d (latency_log_failure ops rt py_str args t kwargs exception d)"
| lat_pick: "latency_step ops rt args d
    (snd (latency_get_available_deployments ops rt args streaming sample randbelow now t token_counter g ds d))"

inductive latency_reachable :: "'r redis_ops \<Rightarrow> py_runtime \<Rightarrow> latency_args \<Rightarrow> 'r dual \<Rightarrow> bool" for ops rt args where
  lat_init: "latency_reachable ops rt args (dual_init cs None None mt rtt be bmax)"
| lat_step: "latency_reachable ops rt args d \<Longrightarrow> latency_step ops rt args d d' \<Longrightarrow> latency_reachable ops rt args d'"

abbreviation latency_maps :: "int \<Rightarrow> string \<Rightarrow> pyval \<Rightarrow> bool" where
  "latency_maps n \<equiv> \<lambda>k v. (\<exists>g. k = map_key g) \<longrightarrow> map_with (typed_entry n) v"

lemma success_keeps:
  assumes "cache_all (latency_maps (max_latency_list_size args)) d" "1 \<le> max_latency_list_size args"
    and "time_le start_time end_time" "\<forall>c. first_chunk = Some (Some c) \<longrightarrow> time_le start_time c"
  shows "cache_all (latency_maps (max_latency_list_size args))
    (latency_log_success sync ops rt py_str args now t kwargs first_chunk usage start_time end_time d)"
proof -
  let ?n = "max_latency_list_size args" and ?mi = "precise_minute now"
  have rec: "cache_all (latency_maps ?n) (record_usage ops rt t (map_key g) lo ttl i
      (push_success ?n ?mi (final_value sync v usage) (first_token w usage) k) d)"
    if "is_latency v" "0 \<le> seconds_of v" "\<forall>x. w = Some x \<longrightarrow> 0 \<le> seconds_of x" for g lo ttl i v w k
  proof (rule record_usage_maps [OF assms(1)])
    fix u assume "u = [] \<or> typed_entry ?n u"
    then show "typed_entry ?n (snd (push_success ?n ?mi (final_value sync v usage) (first_token w usage) k u))"
      by (rule push_success_typed)
        (use assms(2) final_value_latency [OF that(1,2)] first_token_latency [OF that(3)] minute_no_field in auto)
  qed auto
  show ?thesis
    using assms(1) rec time_minus_latency [OF assms(3)] time_minus_latency [of start_time] assms(4)
    unfolding latency_log_success_def
    by (auto split: option.split sum.split simp: map_sum_def)
qed

lemma failure_keeps:
  assumes "cache_all (latency_maps (max_latency_list_size args)) d" "1 \<le> max_latency_list_size args"
  shows "cache_all (latency_maps (max_latency_list_size args)) (latency_log_failure ops rt py_str args t kwargs exception d)"
proof -
  let ?n = "max_latency_list_size args"
  have "cache_all (latency_maps ?n) (record_usage ops rt t (map_key g) False ttl i (push_latency ?n ''latency'' (PFloat 1000)) d)"
    for g ttl i
    by (rule record_usage_maps [OF assms(1), where Q = "typed_entry ?n"]) (use push_timeout_typed assms(2) in auto)
  then show ?thesis using assms(1) by (auto simp: latency_log_failure_def split: option.split)
qed

lemma fill_usage_maps:
  assumes "map_with Q (PDict m)" "Q u"
  shows "map_with Q (PDict (fill_usage (PDict u) ds m))"
  using assms fill_usage_wf [of m "PDict u" ds] by (auto simp: map_with_def fill_usage_lookup split: option.splits if_splits)

lemma pick_keeps:
  assumes "cache_all (latency_maps (max_latency_list_size args)) d" "1 \<le> max_latency_list_size args"
  shows "cache_all (latency_maps (max_latency_list_size args))
    (snd (latency_get_available_deployments ops rt args streaming sample randbelow now t token_counter g ds d))"
proof -
  let ?n = "max_latency_list_size args" and ?k = "map_key g"
  let ?f = "fill_usage (PDict (fresh_latency (precise_minute now))) ds"
  obtain v d1 where g: "dual_get_cache ops rt t t ?k False None d = (v, d1)" by (cases "dual_get_cache ops rt t t ?k False None d")
  note g' = cache_all_get [OF assms(1) g]
  obtain m where m: "py_or v (PDict []) = PDict m" "map_with (typed_entry ?n) (PDict m)"
    using cached_map [OF assms(1), of ?k "typed_entry ?n" t] g' by auto
  have "latency_maps ?n ?k (PDict (?f m))"
    using fill_usage_maps [OF m(2) fresh_latency_typed [OF assms(2) minute_no_field]] by simp
  from cache_all_hand_out [OF conjunct2 [OF g'] this, of v]
  show ?thesis by (simp add: latency_get_available_deployments_def g m(1) pick_latency_def Let_def)
qed

lemma latency_step_keeps:
  assumes "latency_step ops rt args d d'" "1 \<le> max_latency_list_size args"
    and "cache_all (latency_maps (max_latency_list_size args)) d"
  shows "cache_all (latency_maps (max_latency_list_size args)) d'"
  using assms by (induction rule: latency_step.induct) 
    (simp_all only: latency_log_success_event_def latency_async_log_success_event_def success_keeps failure_keeps pick_keeps)

lemma latency_reachable_maps:
  assumes "latency_reachable ops rt args d" "1 \<le> max_latency_list_size args"
  shows "cache_all (latency_maps (max_latency_list_size args)) d"
  using assms(1)
proof (induction rule: latency_reachable.induct)
  case (lat_init cs mt rtt be bmax)
  then show ?case by (simp add: cache_all_def dual_init_def imc_inv_init) (simp add: imc_init_def or_num_def)
next
  case (lat_step d d')
  then show ?case using latency_step_keeps assms(2) by blast
qed

subsection \<open>The pick\<close>

lemma mean_latency_nonneg: "\<forall>x \<in> set xs. is_latency x \<Longrightarrow> 0 \<le> mean_latency xs"
  unfolding mean_latency_def
  by (intro divide_nonneg_nonneg sum_list_nonneg) (auto simp: is_latency_def as_latency_def split: pyval.splits)

lemma average_typed:
  assumes "typed_entry n u"
  shows "\<exists>q \<ge> 0. average_latency streaming u = Inr q"
proof -
  obtain ls where ls: "map_of u ''latency'' = Some (PList ls)" "ls \<noteq> []" "\<forall>x \<in> set ls. is_latency x"
    using assms by (fastforce simp: typed_entry_def typed_fields_def latency_list_def)
  obtain ts where ts: "dict_get u ''time_to_first_token'' (PList []) = PList ts" "\<forall>x \<in> set ts. is_latency x"
    using assms by (fastforce simp: typed_entry_def typed_fields_def latency_list_def dict_get_def split: option.splits)
  show ?thesis
    using ls ts mean_latency_nonneg
    by (auto simp: average_latency_def iterate_def dict_get_def[of u "''latency''"])
qed

lemma item_latency_typed:
  assumes "typed_entry n u" "mi \<notin> latency_fields"
  shows "item_latency streaming mi u = average_latency streaming u"
  using minute_count_typed [OF typed_fields_minute [of n u mi]] assms by (simp add: item_latency_def typed_entry_def)

lemma entry_or_typed:
  assumes "map_with (typed_entry n) (PDict m)" "typed_entry n u"
  shows "typed_entry n (entry_or u m x)"
  using assms by (cases "map_of m (dep_id x)") (force simp: map_with_def entry_or_def)+

lemma typed_map_with:
  assumes "map_with (typed_entry n) (PDict m)" "mi \<notin> latency_fields"
  shows "typed_map mi ds m"
  unfolding typed_map_def
proof (intro conjI ballI)
  show "dict_wf m" using assms(1) by (simp add: map_with_def)
  fix x assume "x \<in> set ds"
  show "case map_of m (dep_id x) of None \<Rightarrow> True | Some (PDict im) \<Rightarrow> typed_minute mi im | _ \<Rightarrow> False"
  proof (cases "map_of m (dep_id x)")
    case (Some e)
    then obtain u where "e = PDict u" "typed_entry n u" using assms(1) by (auto simp: map_with_def)
    then show ?thesis using Some typed_fields_minute [OF _ assms(2)] unfolding typed_entry_def by simp blast
  qed simp
qed

text \<open>The latency a deployment is chosen by.\<close>

definition latency_of :: "bool \<Rightarrow> string \<Rightarrow> usage_map \<Rightarrow> deployment \<Rightarrow> rat" where
  "latency_of streaming mi m x =
     (case average_latency streaming (entry_or (fresh_latency mi) m x) of Inr q \<Rightarrow> q | Inl _ \<Rightarrow> 0)"

lemma random_choice_in:
  "xs \<noteq> [] \<Longrightarrow> \<forall>n > 0. randbelow n < n \<Longrightarrow> \<exists>x \<in> set xs. random_choice randbelow xs = Inr x"
  by (simp add: random_choice_def)

lemma pick_latency_best:
  assumes "map_with (typed_entry k) (PDict m)" "1 \<le> k" "mi \<notin> latency_fields" "distinct (map dep_id ds)"
    and "0 \<le> lowest_latency_buffer args" "\<forall>xs. mset (sample xs) = mset xs" "\<forall>n > 0. randbelow n < n"
    and "S = {x \<in> set ds. has_room mi n x (entry_or (fresh_latency mi) m x)}" "L = latency_of streaming mi m"
  shows "\<exists>b. fst (pick_latency args streaming sample randbelow mi (Inr n) ds m) = Inr b \<and>
    (case b of None \<Rightarrow> S = {} | Some x \<Rightarrow> x \<in> S \<and> (\<forall>y \<in> S. L x \<le> (1 + lowest_latency_buffer args) * L y))"
proof -
  let ?fresh = "fresh_latency mi" and ?V = "\<lambda>_. item_latency streaming mi"
  have fresh: "typed_entry k ?fresh" by (rule fresh_latency_typed [OF assms(2,3)])
  have val: "?V x (entry_or ?fresh m x) = Inr (L x) \<and> 0 \<le> L x" for x
    using item_latency_typed [OF _ assms(3)] average_typed [of k _ streaming] entry_or_typed [OF assms(1) fresh, of x] assms(9)
    by (force simp: latency_of_def)
  have "set (sample (fill_usage (PDict ?fresh) ds m)) = set (fill_usage (PDict ?fresh) ds m)"
    using assms(6) by (metis set_mset_mset)
  from potential_filled [OF typed_map_with [OF assms(1,3)] assms(4) typed_fields_minute [OF _ assms(3)] this, of k ?V n] fresh val
  obtain ps where ps: "potential_deployments ?V mi n ds (sample (fill_usage (PDict ?fresh) ds m)) = Inr ps"
    "set ps = (\<lambda>x. (x, L x)) ` S"
    using assms(8) by (fastforce simp: typed_entry_def)
  show ?thesis
  proof (cases "sort_key snd ps")
    case Nil
    then have "S = {}" using sorted_hd_least [of ps] ps(2) by simp
    then show ?thesis using ps(1) Nil by (intro exI [of _ None]) (simp add: pick_latency_def Let_def)
  next
    case (Cons p rest)
    obtain x l where p: "p = (x, l)" by (cases p)
    let ?valid = "filter (\<lambda>q. snd q \<le> l + lowest_latency_buffer args * l) (p # rest)"
    have low: "(x, l) \<in> set ps" "\<forall>(y, w) \<in> set ps. l \<le> w" using sorted_hd_least [of ps] Cons p by auto
    then have l: "0 \<le> l" "\<forall>y \<in> S. l \<le> L y" using ps(2) val by auto
    then have "?valid \<noteq> []" using assms(5) p by simp
    from random_choice_in [OF this assms(7)] obtain q where q: "q \<in> set ?valid" "random_choice randbelow ?valid = Inr q" by blast
    have "q \<in> set ps" using q(1) Cons by (metis filter_is_subset set_sort subsetD)
    then obtain z where z: "z \<in> S" "q = (z, L z)" using ps(2) by auto
    have "snd q \<le> l + lowest_latency_buffer args * l" using q(1) by (simp only: set_filter mem_Collect_eq)
    then have "L z \<le> (1 + lowest_latency_buffer args) * l" using z(2) by (simp add: algebra_simps)
    moreover have "(1 + lowest_latency_buffer args) * l \<le> (1 + lowest_latency_buffer args) * L y" if "y \<in> S" for y
      using l(2) that assms(5) by (intro mult_left_mono) auto
    ultimately have "\<forall>y \<in> S. L z \<le> (1 + lowest_latency_buffer args) * L y" by (meson order_trans)
    then show ?thesis
      using ps(1) Cons q(2) z p by (intro exI [of _ "Some z"]) (simp add: pick_latency_def Let_def)
  qed
qed

subsection \<open>Properties\<close>

lemma reachable_counts:
  assumes "latency_reachable ops rt args d" "1 \<le> max_latency_list_size args"
  shows "py_or (dual_peek t (map_key g) d) (PDict []) = PDict (counts_at t (map_key g) d)"
    and "map_with (typed_entry (max_latency_list_size args)) (PDict (counts_at t (map_key g) d))"
proof -
  obtain m where m: "py_or (dual_peek t (map_key g) d) (PDict []) = PDict m"
    "map_with (typed_entry (max_latency_list_size args)) (PDict m)"
    using cached_map [OF latency_reachable_maps [OF assms], of "map_key g" "typed_entry (max_latency_list_size args)" t] by auto
  moreover have "counts_at t (map_key g) d = m"
    using m(1) by (auto simp: py_or_def counts_at_def split: if_splits pyval.split)
  ultimately show "py_or (dual_peek t (map_key g) d) (PDict []) = PDict (counts_at t (map_key g) d)"
    "map_with (typed_entry (max_latency_list_size args)) (PDict (counts_at t (map_key g) d))" by simp_all
qed

text \<open>A group with one deployment that has timed out once.\<close>

abbreviation slow_dual :: "unit dual" where
  "slow_dual \<equiv> latency_log_failure ops0 rt0 (\<lambda>_. []) default_latency_args 9 (kwargs_for ''g'' ''a'')
     (Some \<lparr>exc_class_of = Timeout, exc_str = []\<rparr>) mem_dual"

lemma slow_dual_reachable: "latency_reachable ops rt args mem_dual \<and> latency_reachable ops0 rt0 default_latency_args slow_dual"
  by (blast intro: lat_init lat_step lat_failure)

lemma slow_dual_counts:
  "counts_at 9 (map_key ''g'') slow_dual = [(''a'', PDict [(''latency'', PList [PFloat 1000])])]"
proof -
  let ?u = "[(''latency'', PList [PFloat 1000])]"
  have t: "latency_target (\<lambda>_. []) (kwargs_for ''g'' ''a'') = Some (''g'', ''a'')"
    by (simp add: latency_target_def kwargs_for_def select_metadata_field_def dict_get_def py_or_def group_and_id_def val_str_def)
  have p: "push_latency 10 ''latency'' (PFloat 1000) [] = (Inr (), ?u)" by (simp add: push_latency_def dict_get_def)
  have l: "dual_local (Some (Some 3600)) mem_dual" by (simp add: mem_dual_facts)
  from record_usage_first [where lo = False and k = "map_key ''g''" and f = "push_latency 10 ''latency'' (PFloat 1000)" and t = 9
      and i = "''a''" and ops = ops0, OF l mem_dual_facts(2) p mem_dual_facts(3)]
  have "dual_peek 9 (map_key ''g'') slow_dual = PDict [(''a'', PDict ?u)]"
    by (simp add: latency_log_failure_def t default_latency_args_def exc_isinstance_def)
  then show ?thesis by (simp add: counts_at_def)
qed



text \<open>
  In every reachable state the strategy answers without an exception: it returns a
  healthy deployment within its limits whose average latency is at most the configured share above
  that of any other one within its limits, and none exactly if no healthy deployment is within its
  limits.
\<close>

lemma latency_pick_near_lowest:
  assumes "latency_reachable ops rt args d" "1 \<le> max_latency_list_size args" "0 \<le> lowest_latency_buffer args"
    and "distinct (map dep_id ds)" "\<forall>xs. mset (sample xs) = mset xs" "\<forall>n > 0. randbelow n < n"
    and "mi = precise_minute now" "m = counts_at t (map_key g) d"
    and "S = {x \<in> set ds. has_room mi n x (entry_or (fresh_latency mi) m x)}"
  shows "\<exists>b. fst (latency_get_available_deployments ops rt args streaming sample randbelow now t (Inr n) g ds d) = Inr b \<and>
    (case b of
       None \<Rightarrow> S = {}
     | Some x \<Rightarrow> x \<in> S \<and>
         (\<forall>y \<in> S. latency_of streaming mi m x \<le> (1 + lowest_latency_buffer args) * latency_of streaming mi m y))"
proof -
  have r: "redis_cache d = None" using latency_reachable_maps [OF assms(1,2)] by (simp add: cache_all_def)
  note m = reachable_counts [OF assms(1,2), of t g]
  have "fst (latency_get_available_deployments ops rt args streaming sample randbelow now t (Inr n) g ds d) =
    fst (pick_latency args streaming sample randbelow mi (Inr n) ds m)"
    using r m(1) assms(7,8)
    by (simp add: latency_get_available_deployments_def dual_get_local Let_def split: prod.split)
  then show ?thesis
    using pick_latency_best [OF _ assms(2) _ assms(4,3,5,6,9) refl] m(2) minute_no_field assms(7,8) by simp
qed

text \<open>
  A list of the default size that is full: the new latency replaces the one before it, the nine oldest
  ones stay.
\<close>

lemma full_list_keeps_oldest:
  "map_of u ''latency'' = Some (PList xs) \<Longrightarrow> length xs = 10 \<Longrightarrow>
   push_latency 10 ''latency'' v u = (Inr (), AList.update ''latency'' (PList (take 9 xs @ [v])) u)"
  by (simp add: push_latency_def dict_get_def py_take_def)

text \<open>Without a usage, as for embeddings, a latency is stored as a \<^verbatim>\<open>timedelta\<close> and averaged as 0.\<close>

lemma timedelta_counts_as_zero:
  "time_minus (AtTime b) (AtTime a) = Inr v \<Longrightarrow> mean_latency [final_value sync v None] = 0"
  by (auto simp: final_value_def mean_latency_def as_latency_def)

end
