(* ===== verification/LowestCost.thy ===== *)
theory LowestCost
  imports UsageMap
begin

text \<open>
  \<^verbatim>\<open>router_strategy/lowest_cost.py\<close>: the strategy that picks the cheapest deployment within its
  limits. \<^verbatim>\<open>log_success_event\<close> and \<^verbatim>\<open>async_log_success_event\<close> have the same body up to
  \<^verbatim>\<open>await\<close>. The price list \<^verbatim>\<open>litellm.model_cost\<close> and the number of tokens of the request at hand
  are arguments; the costs per deployment that are collected for debugging are left out.
\<close>

subsection \<open>Operations\<close>

text \<open>A response without completion tokens ends the event with \<^verbatim>\<open>ZeroDivisionError\<close>.\<close>

definition cost_log_success_event ::
  "'r redis_ops \<Rightarrow> py_runtime \<Rightarrow> (pyval \<Rightarrow> string) \<Rightarrow> datetime \<Rightarrow> time \<Rightarrow> (string, pyval) dict \<Rightarrow> usage \<Rightarrow> 'r dual \<Rightarrow> 'r dual" where
  "cost_log_success_event ops rt py_str now t kwargs usage d =
     (case request_target py_str kwargs of
        None \<Rightarrow> d
      | Some (g, i) \<Rightarrow>
        (case usage of
           None \<Rightarrow> record_usage ops rt t (map_key g) False None i (add_minute (precise_minute now) (PInt 0)) d
         | Some (completion_tokens, total_tokens) \<Rightarrow>
           if completion_tokens = 0 then d
           else record_usage ops rt t (map_key g) False None i (add_minute (precise_minute now) (PInt total_tokens)) d))"

text \<open>Input and output price of a model in the price list.\<close>

type_synonym price_list = "string \<Rightarrow> (rat option \<times> rat option) option"

definition own_or :: "rat option \<Rightarrow> rat option \<Rightarrow> rat" where
  "own_or own listed =
     (case own of
        Some q \<Rightarrow> if q \<noteq> 0 then q else (case listed of Some l \<Rightarrow> l | None \<Rightarrow> 5)
      | None \<Rightarrow> (case listed of Some l \<Rightarrow> l | None \<Rightarrow> 5))"

definition item_cost :: "price_list \<Rightarrow> deployment \<Rightarrow> rat" where
  "item_cost model_cost m =
     (let (listed_in, listed_out) = (case model_cost (dep_model m) of None \<Rightarrow> (None, None) | Some p \<Rightarrow> p) in
      own_or (lp_input_cost m) listed_in + own_or (lp_output_cost m) listed_out)"

definition fresh_minute :: "string \<Rightarrow> pyval" where
  "fresh_minute mi = PDict [(mi, PDict [(''tpm'', PInt 0), (''rpm'', PInt 0)])]"

definition cost_get_available_deployments ::
  "'r redis_ops \<Rightarrow> py_runtime \<Rightarrow> price_list \<Rightarrow> datetime \<Rightarrow> time \<Rightarrow> int pyres \<Rightarrow> string \<Rightarrow> deployment list \<Rightarrow> 'r dual \<Rightarrow>
   deployment option pyres \<times> 'r dual" where
  "cost_get_available_deployments ops rt model_cost now t token_counter g ds d =
     (let mi = precise_minute now; key = map_key g in
      case dual_get_cache ops rt t t key False None d of
        (v, d1) \<Rightarrow>
        (case py_or v (PDict []) of
           PDict m \<Rightarrow>
             (let m1 = fill_usage (fresh_minute mi) ds m; d2 = hand_out key v (PDict m1) d1;
                  input_tokens = (case token_counter of Inl _ \<Rightarrow> 0 | Inr n \<Rightarrow> n) in
              case potential_deployments (\<lambda>x _. Inr (item_cost model_cost x)) mi input_tokens ds m1 of
                Inl e \<Rightarrow> (Inl e, d2)
              | Inr ps \<Rightarrow>
                (Inr (case sort_key snd ps of [] \<Rightarrow> None | (x, _) # _ \<Rightarrow> Some x), d2))
         | _ \<Rightarrow> (Inl AttributeError, d1)))"

subsection \<open>Lemmas\<close>

lemma fresh_minute_typed: "typed_minute mi [(mi, PDict [(''tpm'', PInt 0), (''rpm'', PInt 0)])]"
  by (simp add: typed_minute_def is_int_def dict_get_def)

text \<open>A deployment that has not been used has the room of an empty entry.\<close>

lemma fresh_minute_room:
  "has_room mi n x (entry_or [(mi, PDict [(''tpm'', PInt 0), (''rpm'', PInt 0)])] m x) = has_room mi n x (entry_or [] m x)"
  by (simp add: entry_or_def has_room_def count_of_def dict_get_def split: option.split pyval.split)

subsection \<open>The pick\<close>

text \<open>
  Without Redis and with a well-typed usage map in the cache, the pick is a healthy
  deployment within its limits that no other one is cheaper than; none is returned exactly if no
  healthy deployment is within its limits.
\<close>

lemma lowest_cost_pick:
  assumes "redis_cache d = None" "py_or (dual_peek t (map_key g) d) (PDict []) = PDict m"
    and "typed_map (precise_minute now) ds m" "distinct (map dep_id ds)"
    and "S = {x \<in> set ds. has_room (precise_minute now) n x (entry_or [] m x)}"
  shows "\<exists>b. fst (cost_get_available_deployments ops rt model_cost now t (Inr n) g ds d) = Inr b \<and>
    (case b of None \<Rightarrow> S = {} | Some x \<Rightarrow> x \<in> S \<and> (\<forall>y \<in> S. item_cost model_cost x \<le> item_cost model_cost y))"
proof -
  obtain ps where ps: "potential_deployments (\<lambda>x _. Inr (item_cost model_cost x)) (precise_minute now) n ds
      (fill_usage (fresh_minute (precise_minute now)) ds m) = Inr ps"
    "set ps = (\<lambda>x. (x, item_cost model_cost x)) ` S"
    using potential_filled [OF assms(3,4) fresh_minute_typed refl, of "\<lambda>x _. Inr (item_cost model_cost x)" n] assms(5)
    by (fastforce simp: fresh_minute_room fresh_minute_def)
  have "fst (cost_get_available_deployments ops rt model_cost now t (Inr n) g ds d) =
    Inr (case sort_key snd ps of [] \<Rightarrow> None | (x, _) # _ \<Rightarrow> Some x)"
    using assms(1,2) ps(1) by (simp add: cost_get_available_deployments_def dual_get_local Let_def)
  moreover have "case (case sort_key snd ps of [] \<Rightarrow> None | (x, _) # _ \<Rightarrow> Some x) of
      None \<Rightarrow> S = {} | Some x \<Rightarrow> x \<in> S \<and> (\<forall>y \<in> S. item_cost model_cost x \<le> item_cost model_cost y)"
    using sorted_hd_least [of ps] ps(2) by (auto split: list.splits prod.splits)
  ultimately show ?thesis by blast
qed

end
