(* ===== verification/StrategyPick.thy ===== *)
theory StrategyPick
  imports LeastBusy LowestTpmV2 LowestLatency LowestCost
begin

text \<open>
  What the router relies on when it hands a list of deployments to a routing strategy: a deployment that
  is picked is one of the list. The locale states it, and every strategy interprets it, whatever its
  counters, the draws and the clock are.
\<close>

locale strategy_pick =
  fixes pick :: "deployment list \<Rightarrow> 'd \<Rightarrow> deployment option pyres \<times> 'd"
  assumes pick_member: "fst (pick ds d) = Inr (Some m) \<Longrightarrow> m \<in> set ds"
begin

text \<open>Filtering before the pick constrains what is picked.\<close>

lemma pick_filtered: "fst (pick (filter P ds) d) = Inr (Some m) \<Longrightarrow> P m \<and> m \<in> set ds"
  by (drule pick_member) simp

lemma pick_none: "fst (pick [] d) \<noteq> Inr (Some m)"
  by (rule notI, drule pick_member) simp

end

subsection \<open>The strategies\<close>

lemma random_choice_member: "random_choice draw ds = Inr m \<Longrightarrow> m \<in> set ds"
  by (auto simp: random_choice_def split: if_splits)

lemma bisect_right_le: "lo \<le> hi \<Longrightarrow> bisect_right a x lo hi \<le> hi"
proof (induction a x lo hi rule: bisect_right.induct)
  case (1 a x lo hi)
  show ?case
  proof (cases "lo < hi")
    case True
    let ?mid = "(lo + hi) div 2"
    have "bisect_right a x lo ?mid \<le> ?mid" if "x < a ! ?mid" using 1(1) [OF True refl] that True by simp
    moreover have "bisect_right a x (?mid + 1) hi \<le> hi" if "\<not> x < a ! ?mid" using 1(2) [OF True refl] that True by simp
    moreover have "?mid \<le> hi" using True by simp
    ultimately show ?thesis using True by (subst bisect_right.simps) (auto simp: Let_def intro: le_trans)
  next
    case False
    then show ?thesis using 1(3) by (subst bisect_right.simps) simp
  qed
qed

lemma random_choices_less: "random_choices ws u = Inr i \<Longrightarrow> i < length ws"
  using bisect_right_le [of 0 "length ws - 1" "accumulate 0 ws" "u * last (accumulate 0 ws)"]
  by (cases ws) (auto simp: random_choices_def Let_def split: if_splits)

lemma weighted_pick_member: "weighted_pick f u ds = Inr m \<Longrightarrow> m \<in> set ds"
  by (auto simp: weighted_pick_def Let_def dest!: random_choices_less split: if_splits sum.splits)

lemma shuffle_member: "simple_shuffle draw u ds = Inr m \<Longrightarrow> m \<in> set ds"
  by (auto simp: simple_shuffle_def split: list.splits if_splits dest: weighted_pick_member random_choice_member)

lemma least_busy_member: "fst (get_available_deployments ops rt draw t0 t1 g ds d) = Inr m \<Longrightarrow> m \<in> set ds"
  by (auto simp: get_available_deployments_def pick_deployment_def Let_def find_Some_iff
      dest: random_choice_member split: prod.splits pyval.splits sum.splits option.splits)

lemma found_member: "find P (rev ds) = Some m \<Longrightarrow> m \<in> set ds"
  by (auto simp: find_Some_iff) (metis length_rev nth_mem set_rev)

lemma tpm_loop_member:
  "tpm_loop rpm n ds items low best = Inr (Some m) \<Longrightarrow> set_option best \<subseteq> set ds \<Longrightarrow> m \<in> set ds"
proof (induction items arbitrary: low best)
  case (Cons it items)
  obtain item item_tpm where it: "it = (item, item_tpm)" by (cases it)
  show ?case
    using Cons.prems(1) Cons.IH [OF _ Cons.prems(2)] Cons.IH [of item_tpm]
    by (auto simp: it dest: found_member split: option.splits sum.splits bool.splits)
qed simp

lemma tpm_member: "fst (tpm_get_available_deployments ops rt now t tc g ds d) = Inr (Some m) \<Longrightarrow> m \<in> set ds"
  by (auto simp: tpm_get_available_deployments_def Let_def dest!: tpm_loop_member split: prod.splits pyval.splits)

lemma potential_members: "potential_deployments f mi n ds us = Inr ps \<Longrightarrow> (m, x) \<in> set ps \<Longrightarrow> m \<in> set ds"
proof (induction us arbitrary: ps)
  case (Cons u us)
  obtain item item_map where u: "u = (item, item_map)" by (cases u)
  show ?case
    using Cons.prems Cons.IH
    by (auto simp: u dest: found_member split: option.splits sum.splits pyval.splits if_splits)
qed simp

lemma v2_potential_members:
  "return_potential_deployments rpm n ds items low ps = Inr qs \<Longrightarrow> set ps \<subseteq> set ds \<Longrightarrow> set qs \<subseteq> set ds"
proof (induction items arbitrary: low ps)
  case (Cons it items)
  obtain item item_tpm where it: "it = (item, item_tpm)" by (cases it)
  note ih = Cons.IH [OF _ Cons.prems(2)]
  show ?case
  proof (cases "find (\<lambda>m. before_colon item = dep_id m) (rev ds)")
    case None
    then show ?thesis using Cons.prems(1) ih by (simp add: it)
  next
    case (Some m)
    then have "set (ps @ [m]) \<subseteq> set ds" "set [m] \<subseteq> set ds" using Cons.prems(2) found_member [OF Some] by auto
    then show ?thesis
      using Cons.prems(1) ih Cons.IH [of item_tpm "[m]"] Cons.IH [of low "ps @ [m]"] Some
      by (simp add: it split: sum.splits bool.splits if_splits)
  qed
qed simp

lemma picked_some: "map_sum id Some x = Inr (Some m) \<longleftrightarrow> x = Inr m"
  by (cases x) auto

lemma v2_common_member:
  "v2_common_checks_available_deployment draw tc ds tk tv rk rv = Inr (Some m) \<Longrightarrow> m \<in> set ds"
  by (auto simp: v2_common_checks_available_deployment_def Let_def picked_some split: option.splits sum.splits list.splits
      dest!: v2_potential_members dest: random_choice_member)

lemma v2_async_member: "fst (v2_async_get_available_deployments ops rt draw now t t' tc ds d) = Inr m \<Longrightarrow> m \<in> set ds"
  by (auto simp: v2_async_get_available_deployments_def Let_def split: prod.splits sum.splits option.splits dest: v2_common_member)

lemma v2_member: "fst (v2_get_available_deployments ops rt draw now t t' tc ds d) = Inr m \<Longrightarrow> m \<in> set ds"
  by (auto simp: v2_get_available_deployments_def Let_def split: prod.splits sum.splits option.splits dest: v2_common_member)

lemma cost_member: "fst (cost_get_available_deployments ops rt mc now t tc g ds d) = Inr (Some m) \<Longrightarrow> m \<in> set ds"
proof -
  have "m \<in> set ds" if "potential_deployments f mi n ds us = Inr ps" "sort_key snd ps = (m, x) # qs" for f mi n us ps x qs
  proof -
    have "(m, x) \<in> set (sort_key snd ps)" unfolding that(2) by simp
    then show ?thesis using potential_members [OF that(1)] by simp
  qed
  then show "fst (cost_get_available_deployments ops rt mc now t tc g ds d) = Inr (Some m) \<Longrightarrow> m \<in> set ds"
    by (auto simp: cost_get_available_deployments_def Let_def split: prod.splits pyval.splits sum.splits list.splits)
qed

lemma pick_latency_member:
  assumes "fst (pick_latency args st sample draw mi tc ds us) = Inr (Some m)"
  shows "m \<in> set ds"
proof -
  define P where "P = potential_deployments (\<lambda>_. item_latency st mi) mi (case tc of Inl _ \<Rightarrow> 0 | Inr n \<Rightarrow> n) ds
    (sample (fill_usage (PDict (fresh_latency mi)) ds us))"
  let ?pick = "\<lambda>ps. case sort_key snd ps of [] \<Rightarrow> Inr None
      | (x, low) # rest \<Rightarrow> map_sum id (Some \<circ> fst)
          (random_choice draw (filter (\<lambda>p. snd p \<le> low + lowest_latency_buffer args * low) ((x, low) # rest)))"
  have eq: "fst (pick_latency args st sample draw mi tc ds us) = (case P of Inl e \<Rightarrow> Inl e | Inr ps \<Rightarrow> ?pick ps)"
    by (simp add: pick_latency_def P_def Let_def split: sum.split list.split)
  obtain ps where P: "P = Inr ps" using assms unfolding eq by (cases P) auto
  have ps: "potential_deployments (\<lambda>_. item_latency st mi) mi (case tc of Inl _ \<Rightarrow> 0 | Inr n \<Rightarrow> n) ds
    (sample (fill_usage (PDict (fresh_latency mi)) ds us)) = Inr ps" using P by (simp add: P_def)
  have c: "?pick ps = Inr (Some m)" using assms unfolding eq P by simp
  obtain x low rest where q: "sort_key snd ps = (x, low) # rest" using c by (cases "sort_key snd ps") auto
  let ?valid = "filter (\<lambda>p. snd p \<le> low + lowest_latency_buffer args * low) ((x, low) # rest)"
  have "map_sum id (Some \<circ> fst) (random_choice draw ?valid) = Inr (Some m)"
    using c unfolding q by (simp only: list.case prod.case)
  then obtain q where r: "random_choice draw ?valid = Inr q" "m = fst q"
    by (cases "random_choice draw ?valid") (simp_all only: map_sum.simps comp_def sum.inject option.inject sum.distinct)
  have "q \<in> set (sort_key snd ps)" unfolding q using random_choice_member [OF r(1)] by (auto split: if_splits)
  then show ?thesis using potential_members [OF ps, of m "snd q"] r(2) by simp
qed

lemma latency_member:
  "fst (latency_get_available_deployments ops rt args st sample draw now t tc g ds d) = Inr (Some m) \<Longrightarrow> m \<in> set ds"
  by (rule pick_latency_member [of args st sample draw "precise_minute now" tc ds
        "case py_or (fst (dual_get_cache ops rt t t (map_key g) False None d)) (PDict []) of PDict us \<Rightarrow> us | _ \<Rightarrow> []"])
    (simp add: latency_get_available_deployments_def Let_def split: prod.splits pyval.splits)

text \<open>The pick of each strategy as the router calls it.\<close>

definition some_pick :: "deployment pyres \<times> 'd \<Rightarrow> deployment option pyres \<times> 'd" where
  "some_pick x = (map_sum id Some (fst x), snd x)"

interpretation shuffle: strategy_pick "\<lambda>ds d. some_pick (simple_shuffle draw u ds, d)" for draw u
  by unfold_locales (simp add: some_pick_def picked_some shuffle_member)

interpretation least_busy: strategy_pick "\<lambda>ds d. some_pick (get_available_deployments ops rt draw t t g ds d)" for ops rt draw t g
  by unfold_locales (simp add: some_pick_def picked_some least_busy_member)

interpretation usage: strategy_pick "\<lambda>ds. tpm_get_available_deployments ops rt now t tc g ds" for ops rt now t tc g
  by unfold_locales (rule tpm_member)

interpretation usage_v2: strategy_pick "\<lambda>ds d. some_pick (v2_get_available_deployments ops rt draw now t t tc ds d)" for ops rt draw now t tc
  by unfold_locales (simp add: some_pick_def picked_some v2_member)

interpretation async_usage_v2: strategy_pick "\<lambda>ds d. some_pick (v2_async_get_available_deployments ops rt draw now t t tc ds d)"
  for ops rt draw now t tc
  by unfold_locales (simp add: some_pick_def picked_some v2_async_member)

interpretation cost: strategy_pick "\<lambda>ds. cost_get_available_deployments ops rt mc now t tc g ds" for ops rt mc now t tc g
  by unfold_locales (rule cost_member)

interpretation latency: strategy_pick "\<lambda>ds. latency_get_available_deployments ops rt args st sample draw now t tc g ds"
  for ops rt args st sample draw now t tc g
  by unfold_locales (rule latency_member)

end
