(* ===== verification/RouterSelect.thy ===== *)
theory RouterSelect
  imports PreCallChecks TagRouting StrategyPick
begin

text \<open>
  The choice of the deployment for a request in \<^verbatim>\<open>router.py\<close>: \<^verbatim>\<open>async_get_available_deployment\<close> and
  \<^verbatim>\<open>get_available_deployment\<close> with their variants for pass-through endpoints. A request passes the
  candidates for its model through the filters for teams, web search, cooldown, callbacks, pre-call checks
  and tags, and a strategy picks one of those left. The cache of the router is the one the
  cooldowns and the strategies share. Everything a choice reads from outside is in \<open>select_env\<close>:
  the clock, random draws, token counts, prices, provider lookup, the filters that callbacks register,
  and the hooks of the auto and complexity routers. The loggers of a strategy exist exactly when it is
  the strategy of the router. Logging and telemetry are left out. The theory shows that a chosen
  deployment is one the request may use.
\<close>

subsection \<open>State\<close>

record 'r selector =
  sel_models :: router
  sel_cooldown :: "'r crouter"
  routing_strategy :: string
  enable_pre_call_checks :: bool
  sel_tags :: tag_router

type_synonym kwargs = "(string, pyval) dict"

text \<open>A hook may change the model and the messages; a callback filters deployments and may use the cache.\<close>

type_synonym routing_hook = "string \<Rightarrow> kwargs \<Rightarrow> pyval option \<Rightarrow> (string \<times> pyval option) option pyres"

type_synonym 'r deployment_filter =
  "string \<Rightarrow> deployment list \<Rightarrow> pyval option \<Rightarrow> kwargs \<Rightarrow> 'r dual \<Rightarrow> deployment list pyres \<times> 'r dual"

record 'r select_env =
  env_ops :: "'r redis_ops"
  env_rt :: py_runtime
  env_time :: time
  env_date :: datetime
  env_draw :: "nat \<Rightarrow> nat"
  env_uniform :: rat
  env_sample :: "usage_map \<Rightarrow> usage_map"
  env_tokens :: "pyval option \<Rightarrow> pyval option \<Rightarrow> int pyres" \<comment> \<open>of messages and input\<close>
  env_prices :: price_list
  env_latency :: latency_args
  env_facts :: model_facts
  env_provider :: "string \<Rightarrow> string option"
  env_alias_map :: "(string, string) dict"
  env_callbacks :: "'r deployment_filter list"
  auto_routers :: "(string, routing_hook) dict"
  complexity_routers :: "(string, routing_hook) dict"

text \<open>Sequencing of calls that may raise.\<close>

definition and_then :: "'a pyres \<times> 's \<Rightarrow> ('a \<Rightarrow> 's \<Rightarrow> 'b pyres \<times> 's) \<Rightarrow> 'b pyres \<times> 's" where
  "and_then x f = (case x of (Inl e, s) \<Rightarrow> (Inl e, s) | (Inr a, s) \<Rightarrow> f a s)"

definition on_cache :: "('r dual \<Rightarrow> 'a \<times> 'r dual) \<Rightarrow> 'r selector \<Rightarrow> 'a \<times> 'r selector" where
  "on_cache f s =
     (case f (router_cache (sel_cooldown s)) of
        (x, d) \<Rightarrow> (x, s\<lparr>sel_cooldown := (sel_cooldown s)\<lparr>router_cache := d\<rparr>\<rparr>))"

subsection \<open>Healthy deployments\<close>

text \<open>The deployments that are cooling down, among all ids of the router.\<close>

definition with_model_ids :: "('r crouter \<Rightarrow> 'a \<times> 'r crouter) \<Rightarrow> 'r selector \<Rightarrow> 'a pyres \<times> 'r selector" where
  "with_model_ids f s =
     (case get_model_ids None False (sel_models s) of
        Inl e \<Rightarrow> (Inl e, s)
      | Inr ids \<Rightarrow> (case f ((sel_cooldown s)\<lparr>model_ids := ids\<rparr>) of (x, c) \<Rightarrow> (Inr x, s\<lparr>sel_cooldown := c\<rparr>)))"

definition async_cooling :: "'r select_env \<Rightarrow> 'r selector \<Rightarrow> string list pyres \<times> 'r selector" where
  "async_cooling E s = with_model_ids (async_get_cooldown_deployments (env_ops E) (env_rt E) (env_time E) (env_time E)) s"

definition sync_cooling :: "'r select_env \<Rightarrow> 'r selector \<Rightarrow> string list pyres \<times> 'r selector" where
  "sync_cooling E s = with_model_ids (get_cooldown_deployments (env_ops E) (env_rt E) (env_time E) (env_time E)) s"

text \<open>The error for a model without available deployments; finding out its details may raise another one.\<close>

definition min_cooldown_of :: "'r select_env \<Rightarrow> string \<Rightarrow> 'r selector \<Rightarrow> rat pyres \<times> 'r selector" where
  "min_cooldown_of E model s =
     (case get_model_ids (Some model) False (sel_models s) of
        Inl e \<Rightarrow> (Inl e, s)
      | Inr ids \<Rightarrow>
        (case get_min_cooldown (env_ops E) (env_rt E) (env_time E) (env_time E) ids (sel_cooldown s) of
           (x, c) \<Rightarrow> (x, s\<lparr>sel_cooldown := c\<rparr>)))"

definition async_raise_no_deployment_exception :: "'r select_env \<Rightarrow> string \<Rightarrow> 'r selector \<Rightarrow> 'a pyres \<times> 'r selector" where
  "async_raise_no_deployment_exception E model s =
     and_then (min_cooldown_of E model s) (\<lambda>_ s1.
     and_then (with_model_ids
       (async_get_cooldown_deployments_with_debug_info (env_ops E) (env_rt E) (env_time E) (env_time E)) s1) (\<lambda>_ s2.
     (Inl (OtherError ''RouterRateLimitError''), s2)))"

definition raise_no_deployment :: "'r select_env \<Rightarrow> string \<Rightarrow> 'r selector \<Rightarrow> 'a pyres \<times> 'r selector" where
  "raise_no_deployment E model s =
     and_then (min_cooldown_of E model s) (\<lambda>_ s1.
     and_then (sync_cooling E s1) (\<lambda>_ s2.
     (Inl (OtherError ''RouterRateLimitError''), s2)))"

fun callback_loop ::
  "'r deployment_filter list \<Rightarrow> string \<Rightarrow> deployment list \<Rightarrow> pyval option \<Rightarrow> kwargs \<Rightarrow> 'r dual \<Rightarrow> deployment list pyres \<times> 'r dual" where
  "callback_loop [] model ds messages kw d = (Inr ds, d)"
| "callback_loop (f # fs) model ds messages kw d =
     and_then (f model ds messages kw d) (\<lambda>ds1 d1. callback_loop fs model ds1 messages kw d1)"

definition async_callback_filter_deployments ::
  "'r select_env \<Rightarrow> string \<Rightarrow> deployment list \<Rightarrow> pyval option \<Rightarrow> kwargs \<Rightarrow> 'r selector \<Rightarrow> deployment list pyres \<times> 'r selector" where
  "async_callback_filter_deployments E model ds messages kw s =
     on_cache (callback_loop (env_callbacks E) model ds messages kw) s"

definition run_pre_call_checks ::
  "'r select_env \<Rightarrow> string \<Rightarrow> deployment list \<Rightarrow> pyval option \<Rightarrow> kwargs option \<Rightarrow> 'r selector \<Rightarrow> deployment list pyres \<times> 'r selector" where
  "run_pre_call_checks E model ds messages request_kwargs s =
     (case messages of
        Some ms \<Rightarrow>
          if enable_pre_call_checks s
          then on_cache (pre_call_checks (env_ops E) (env_rt E) (env_time E) (env_date E) (env_facts E) (sel_models s)
                 (routing_strategy s) model ds ms request_kwargs) s
          else (Inr ds, s)
      | None \<Rightarrow> (Inr ds, s))"

definition get_metadata_variable_name_from_kwargs :: "kwargs \<Rightarrow> string" where
  "get_metadata_variable_name_from_kwargs kw =
     (if map_of kw ''litellm_metadata'' \<noteq> None then ''litellm_metadata'' else ''metadata'')"

definition team_name :: "pyval \<Rightarrow> string option" where
  "team_name v = (case v of PStr i \<Rightarrow> Some i | _ \<Rightarrow> None)"

definition request_candidates_for ::
  "'r select_env \<Rightarrow> string \<Rightarrow> bool \<Rightarrow> kwargs option \<Rightarrow> 'r selector \<Rightarrow> (string \<times> candidates) pyres" where
  "request_candidates_for E model specific_deployment request_kwargs s =
     (case request_team_id request_kwargs of
        Inl e \<Rightarrow> Inl e
      | Inr team \<Rightarrow>
        common_checks_available_deployment (env_provider E) (env_alias_map E) model specific_deployment (team_name team) (sel_models s))"

definition async_get_healthy_deployments ::
  "'r select_env \<Rightarrow> string \<Rightarrow> kwargs \<Rightarrow> pyval option \<Rightarrow> bool \<Rightarrow> 'r selector \<Rightarrow> candidates pyres \<times> 'r selector" where
  "async_get_healthy_deployments E model kw messages specific_deployment s =
     and_then (request_candidates_for E model specific_deployment (Some kw) s, s) (\<lambda>(model1, cs) s.
     and_then (filter_team_based_models cs (Some kw), s) (\<lambda>cs1 s.
     and_then (filter_web_search_deployments cs1 (Some kw), s) (\<lambda>cs2 s.
     case cs2 of
       Specific d \<Rightarrow> (Inr (Specific d), s)
     | OneOf ds \<Rightarrow>
       and_then (async_cooling E s) (\<lambda>cooldown_deployments s.
       and_then (async_callback_filter_deployments E model1 (filter_cooldown_deployments ds cooldown_deployments) messages kw s) (\<lambda>ds1 s.
       and_then (run_pre_call_checks E model1 ds1 messages (Some kw) s) (\<lambda>ds2 s.
       and_then (get_deployments_for_tag (sel_tags s) ds2 (Some kw) (get_metadata_variable_name_from_kwargs kw), s) (\<lambda>ds3 s.
       if ds3 = [] then async_raise_no_deployment_exception E model1 s else (Inr (OneOf ds3), s))))))))"

subsection \<open>Picking one\<close>

definition streams :: "kwargs option \<Rightarrow> bool" where
  "streams request_kwargs \<longleftrightarrow> (case request_kwargs of None \<Rightarrow> False | Some kw \<Rightarrow> map_of kw ''stream'' = Some (PBool True))"

definition latency_pick ::
  "'r select_env \<Rightarrow> string \<Rightarrow> deployment list \<Rightarrow> int pyres \<Rightarrow> kwargs option \<Rightarrow> 'r selector \<Rightarrow> deployment option pyres \<times> 'r selector" where
  "latency_pick E model ds tokens request_kwargs s =
     on_cache (latency_get_available_deployments (env_ops E) (env_rt E) (env_latency E) (streams request_kwargs) (env_sample E) (env_draw E)
       (env_date E) (env_time E) tokens model ds) s"

text \<open>The branches of the asynchronous choice, but for costs, which only the first caller below has.\<close>

definition async_strategy_pick ::
  "'r select_env \<Rightarrow> string \<Rightarrow> deployment list \<Rightarrow> pyval option \<Rightarrow> pyval option \<Rightarrow> kwargs \<Rightarrow> 'r selector \<Rightarrow> deployment option pyres \<times> 'r selector" where
  "async_strategy_pick E model ds messages input kw s =
     (if routing_strategy s = ''usage-based-routing-v2'' then
        on_cache (\<lambda>d. some_pick (v2_async_get_available_deployments (env_ops E) (env_rt E) (env_draw E) (env_date E) (env_time E) (env_time E)
          (env_tokens E messages input) ds d)) s
      else if routing_strategy s = ''latency-based-routing'' then latency_pick E model ds (env_tokens E messages input) (Some kw) s
      else if routing_strategy s = ''simple-shuffle'' then some_pick (simple_shuffle (env_draw E) (env_uniform E) ds, s)
      else if routing_strategy s = ''least-busy'' then
        on_cache (\<lambda>d. some_pick (get_available_deployments (env_ops E) (env_rt E) (env_draw E) (env_time E) (env_time E) model ds d)) s
      else (Inr None, s))"

definition async_pick ::
  "'r select_env \<Rightarrow> string \<Rightarrow> deployment list \<Rightarrow> pyval option \<Rightarrow> pyval option \<Rightarrow> kwargs \<Rightarrow> 'r selector \<Rightarrow> deployment option pyres \<times> 'r selector" where
  "async_pick E model ds messages input kw s =
     (if routing_strategy s = ''cost-based-routing'' then
        on_cache (cost_get_available_deployments (env_ops E) (env_rt E) (env_prices E) (env_date E) (env_time E)
          (env_tokens E messages input) model ds) s
      else async_strategy_pick E model ds messages input kw s)"

definition sync_strategy_pick ::
  "'r select_env \<Rightarrow> string \<Rightarrow> deployment list \<Rightarrow> pyval option \<Rightarrow> pyval option \<Rightarrow> kwargs option \<Rightarrow> 'r selector \<Rightarrow> deployment option pyres \<times> 'r selector" where
  "sync_strategy_pick E model ds messages input request_kwargs s =
     (if routing_strategy s = ''least-busy'' then
        on_cache (\<lambda>d. some_pick (get_available_deployments (env_ops E) (env_rt E) (env_draw E) (env_time E) (env_time E) model ds d)) s
      else if routing_strategy s = ''simple-shuffle'' then some_pick (simple_shuffle (env_draw E) (env_uniform E) ds, s)
      else if routing_strategy s = ''latency-based-routing'' then latency_pick E model ds (env_tokens E None None) request_kwargs s
      else if routing_strategy s = ''usage-based-routing'' then
        on_cache (tpm_get_available_deployments (env_ops E) (env_rt E) (env_date E) (env_time E) (env_tokens E messages input) model ds) s
      else if routing_strategy s = ''usage-based-routing-v2'' then
        on_cache (\<lambda>d. some_pick (v2_get_available_deployments (env_ops E) (env_rt E) (env_draw E) (env_date E) (env_time E) (env_time E)
          (env_tokens E messages input) ds d)) s
      else (Inr None, s))"

definition async_pre_routing_hook ::
  "'r select_env \<Rightarrow> string \<Rightarrow> kwargs \<Rightarrow> pyval option \<Rightarrow> (string \<times> pyval option) option pyres" where
  "async_pre_routing_hook E model kw messages =
     (case map_of (auto_routers E) model of
        Some hook \<Rightarrow> hook model kw messages
      | None \<Rightarrow>
        (case map_of (complexity_routers E) model of
           Some hook \<Rightarrow> hook model kw messages
         | None \<Rightarrow> Inr None))"

definition get_available_deployment ::
  "'r select_env \<Rightarrow> string \<Rightarrow> pyval option \<Rightarrow> pyval option \<Rightarrow> bool \<Rightarrow> kwargs option \<Rightarrow> 'r selector \<Rightarrow> deployment pyres \<times> 'r selector" where
  "get_available_deployment E model messages input specific_deployment request_kwargs s =
     and_then (request_candidates_for E model specific_deployment None s, s) (\<lambda>(model1, cs) s.
     case cs of
       Specific d \<Rightarrow> (Inr d, s)
     | OneOf ds \<Rightarrow>
       and_then (sync_cooling E s) (\<lambda>cooldown_deployments s.
       and_then (run_pre_call_checks E model1 (filter_cooldown_deployments ds cooldown_deployments) messages request_kwargs s) (\<lambda>ds1 s.
       if ds1 = [] then raise_no_deployment E model1 s
       else and_then (sync_strategy_pick E model1 ds1 messages input request_kwargs s) (\<lambda>x s.
         case x of None \<Rightarrow> raise_no_deployment E model1 s | Some d \<Rightarrow> (Inr d, s)))))"

definition async_strategies :: "string set" where
  "async_strategies =
     {''usage-based-routing-v2'', ''simple-shuffle'', ''cost-based-routing'', ''latency-based-routing'', ''least-busy''}"

definition hooked :: "string \<Rightarrow> pyval option \<Rightarrow> (string \<times> pyval option) option \<Rightarrow> string \<times> pyval option" where
  "hooked model messages response = (case response of None \<Rightarrow> (model, messages) | Some p \<Rightarrow> p)"

definition async_get_available_deployment ::
  "'r select_env \<Rightarrow> string \<Rightarrow> kwargs \<Rightarrow> pyval option \<Rightarrow> pyval option \<Rightarrow> bool \<Rightarrow> 'r selector \<Rightarrow> deployment pyres \<times> 'r selector" where
  "async_get_available_deployment E model kw messages input specific_deployment s =
     (if routing_strategy s \<notin> async_strategies
      then get_available_deployment E model messages input specific_deployment (Some kw) s
      else
        and_then (async_pre_routing_hook E model kw messages, s) (\<lambda>response s.
        let (model1, messages1) = hooked model messages response in
        and_then (async_get_healthy_deployments E model1 kw messages1 specific_deployment s) (\<lambda>cs s.
        case cs of
          Specific d \<Rightarrow> (Inr d, s)
        | OneOf ds \<Rightarrow>
          if truthy (dict_get kw ''_encrypted_content_affinity_pinned'' PNone) \<and> length ds = 1 then (Inr (hd ds), s)
          else and_then (async_pick E model1 ds messages1 input kw s) (\<lambda>x s.
            case x of None \<Rightarrow> async_raise_no_deployment_exception E model1 s | Some d \<Rightarrow> (Inr d, s)))))"

text \<open>For pass-through endpoints only deployments that are configured for them.\<close>

definition async_get_available_deployment_for_pass_through ::
  "'r select_env \<Rightarrow> string \<Rightarrow> kwargs \<Rightarrow> pyval option \<Rightarrow> pyval option \<Rightarrow> bool \<Rightarrow> 'r selector \<Rightarrow> deployment pyres \<times> 'r selector" where
  "async_get_available_deployment_for_pass_through E model kw messages input specific_deployment s =
     and_then (async_pre_routing_hook E model kw messages, s) (\<lambda>response s.
     let (model1, messages1) = hooked model messages response in
     and_then (async_get_healthy_deployments E model1 kw messages1 specific_deployment s) (\<lambda>cs s.
     case cs of
       Specific d \<Rightarrow> (if use_in_pass_through d then Inr d else Inl (OtherError ''BadRequestError''), s)
     | OneOf ds \<Rightarrow>
       (case filter_pass_through_deployments ds of
          [] \<Rightarrow> (Inl (OtherError ''BadRequestError''), s)
        | ds1 \<Rightarrow>
          and_then (async_strategy_pick E model1 ds1 messages1 input kw s) (\<lambda>x s.
            case x of None \<Rightarrow> async_raise_no_deployment_exception E model1 s | Some d \<Rightarrow> (Inr d, s)))))"

definition get_available_deployment_for_pass_through ::
  "'r select_env \<Rightarrow> string \<Rightarrow> pyval option \<Rightarrow> pyval option \<Rightarrow> bool \<Rightarrow> kwargs option \<Rightarrow> 'r selector \<Rightarrow> deployment pyres \<times> 'r selector" where
  "get_available_deployment_for_pass_through E model messages input specific_deployment request_kwargs s =
     and_then (request_candidates_for E model specific_deployment None s, s) (\<lambda>(model1, cs) s.
     case cs of
       Specific d \<Rightarrow> (if use_in_pass_through d then Inr d else Inl (OtherError ''BadRequestError''), s)
     | OneOf ds \<Rightarrow>
       (case filter_pass_through_deployments ds of
          [] \<Rightarrow> (Inl (OtherError ''BadRequestError''), s)
        | ds1 \<Rightarrow>
          and_then (sync_cooling E s) (\<lambda>cooldown_deployments s.
          and_then (run_pre_call_checks E model1 (filter_cooldown_deployments ds1 cooldown_deployments) messages request_kwargs s) (\<lambda>ds2 s.
          if ds2 = [] then raise_no_deployment E model1 s
          else and_then (sync_strategy_pick E model1 ds2 messages input request_kwargs s) (\<lambda>x s.
            case x of None \<Rightarrow> raise_no_deployment E model1 s | Some d \<Rightarrow> (Inr d, s))))))"

subsection \<open>Lemmas\<close>

lemma and_then_simps [simp]: "and_then (Inr a, s) f = f a s" "and_then (Inl e, s) f = (Inl e, s)"
  by (simp_all add: and_then_def)

lemma and_then_Inr: "and_then x f = (Inr b, s') \<longleftrightarrow> (\<exists>a s1. x = (Inr a, s1) \<and> f a s1 = (Inr b, s'))"
  by (auto simp: and_then_def split: prod.split sum.split)

lemma raise_never_returns:
  "async_raise_no_deployment_exception E model s \<noteq> (Inr x, s')" "raise_no_deployment E model s \<noteq> (Inr x, s')"
  by (auto simp: async_raise_no_deployment_exception_def raise_no_deployment_def and_then_Inr)

text \<open>No step changes the configuration of the router.\<close>

definition same_settings :: "'r selector \<Rightarrow> 'r selector \<Rightarrow> bool" where
  "same_settings s s' \<longleftrightarrow> sel_models s' = sel_models s \<and> routing_strategy s' = routing_strategy s \<and>
     enable_pre_call_checks s' = enable_pre_call_checks s \<and> sel_tags s' = sel_tags s"

lemma on_cache_settings: "on_cache f s = (x, s') \<Longrightarrow> same_settings s s'"
  by (auto simp: on_cache_def same_settings_def split: prod.splits)

lemma on_cache_fst: "on_cache f s = (x, s') \<Longrightarrow> fst (f (router_cache (sel_cooldown s))) = x"
  by (auto simp: on_cache_def split: prod.splits)

lemma cooling_settings:
  "async_cooling E s = (x, s') \<Longrightarrow> same_settings s s'" "sync_cooling E s = (x, s') \<Longrightarrow> same_settings s s'"
  by (auto simp: async_cooling_def sync_cooling_def with_model_ids_def same_settings_def split: prod.splits sum.splits)

text \<open>Every filter only removes deployments.\<close>

lemma order_filtered_subset: "get_order_filtered_deployments ds = Inr ds' \<Longrightarrow> set ds' \<subseteq> set ds"
  by (auto simp: get_order_filtered_deployments_def split: list.splits sum.splits if_splits)

lemma after_checks_subset:
  assumes "after_checks ds vs = Inr ds'"
  shows "set ds' \<subseteq> set ds"
proof -
  have "set (map fst (filter (\<lambda>(d, v). v = Keep) (zip ds vs))) \<subseteq> set ds" by (auto dest: set_zip_leftD)
  then show ?thesis using assms order_filtered_subset by (fastforce simp: after_checks_def Let_def split: if_splits)
qed

lemma pre_call_checks_subset:
  "fst (pre_call_checks ops rt t now F r st model ds ms kw d) = Inr ds' \<Longrightarrow> set ds' \<subseteq> set ds"
  by (simp add: pre_call_checks_def Let_def split: sum.splits prod.splits) (auto dest: after_checks_subset)

lemma run_pre_call_subset:
  assumes "run_pre_call_checks E model ds messages kw s = (Inr ds', s')"
  shows "set ds' \<subseteq> set ds \<and> same_settings s s'"
proof (cases "messages \<noteq> None \<and> enable_pre_call_checks s")
  case True
  then obtain ms where c: "on_cache (pre_call_checks (env_ops E) (env_rt E) (env_time E) (env_date E) (env_facts E) (sel_models s)
      (routing_strategy s) model ds ms kw) s = (Inr ds', s')"
    using assms by (auto simp: run_pre_call_checks_def)
  then show ?thesis using on_cache_settings [OF c] pre_call_checks_subset on_cache_fst [OF c] by blast
qed (use assms in \<open>auto simp: run_pre_call_checks_def same_settings_def split: option.splits\<close>)

lemma tag_loop_subset:
  "tag_loop q any ds new defaults = Inr (new', defaults') \<Longrightarrow> set new' \<subseteq> set new \<union> set ds \<and> set defaults' \<subseteq> set defaults \<union> set ds"
  by (induction ds arbitrary: new defaults) (fastforce split: option.splits sum.splits if_splits)+

lemma tags_subset: "get_deployments_for_tag r ds kw v = Inr ds' \<Longrightarrow> set ds' \<subseteq> set ds"
  by (auto simp: get_deployments_for_tag_def default_deployments_def Let_def dest!: tag_loop_subset
      split: if_splits option.splits pyval.splits sum.splits list.splits)

lemma tagged_served:
  assumes "get_deployments_for_tag r ds (Some kw) v = Inr ds'" "enable_tag_filtering r" "map_of kw v = Some (PDict md)"
    "map_of md ''tags'' = Some (PList (map PStr ts))" "ts \<noteq> []" "d \<in> set ds'"
  shows "serves (tag_filtering_match_any r) ts d \<or> is_default d"
  using assms by (auto simp: get_deployments_for_tag_def dict_get_def tag_loop_filter Let_def split: if_splits)

text \<open>The filters of callbacks are expected to filter.\<close>

definition narrows :: "'r deployment_filter list \<Rightarrow> bool" where
  "narrows fs \<longleftrightarrow> (\<forall>f \<in> set fs. \<forall>model ds messages kw d ds'. fst (f model ds messages kw d) = Inr ds' \<longrightarrow> set ds' \<subseteq> set ds)"

lemma narrowsD: "narrows fs \<Longrightarrow> f \<in> set fs \<Longrightarrow> f model ds messages kw d = (Inr ds', d') \<Longrightarrow> set ds' \<subseteq> set ds"
  unfolding narrows_def by (metis fst_conv)

lemma callback_loop_subset:
  "callback_loop fs model ds messages kw d = (Inr ds', d') \<Longrightarrow> narrows fs \<Longrightarrow> set ds' \<subseteq> set ds"
proof (induction fs arbitrary: ds d)
  case (Cons f fs)
  then obtain ds1 d1 where f: "f model ds messages kw d = (Inr ds1, d1)" "callback_loop fs model ds1 messages kw d1 = (Inr ds', d')"
    by (auto simp: and_then_Inr)
  have "set ds1 \<subseteq> set ds" by (rule narrowsD [where f = f, OF Cons.prems(2) _ f(1)]) simp
  moreover have "set ds' \<subseteq> set ds1" using Cons f(2) by (simp add: narrows_def)
  ultimately show ?case by simp
qed simp

lemma callbacks_subset:
  assumes "async_callback_filter_deployments E model ds messages kw s = (Inr ds', s')" "narrows (env_callbacks E)"
  shows "set ds' \<subseteq> set ds \<and> same_settings s s'"
  using assms on_cache_fst [of "callback_loop (env_callbacks E) model ds messages kw" s]
    on_cache_settings [of "callback_loop (env_callbacks E) model ds messages kw" s]
  by (metis async_callback_filter_deployments_def callback_loop_subset prod.collapse)

lemma team_filtered:
  assumes "filter_team_based_models (OneOf ds) (Some kw) = Inr cs"
  shows "\<exists>team ds'. cs = OneOf ds' \<and> request_team_id (Some kw) = Inr team \<and> set ds' \<subseteq> set ds \<and>
    (\<forall>d \<in> set ds'. \<forall>i. mi_team_id d = Some i \<longrightarrow> PStr i = team)"
proof -
  obtain team where t: "request_team_id (Some kw) = Inr team"
    using assms by (auto simp: filter_team_based_models_def split: sum.splits)
  let ?other = "\<lambda>d. case mi_team_id d of None \<Rightarrow> False | Some i \<Rightarrow> PStr i \<noteq> team"
  let ?ds = "filter (\<lambda>d. dep_id d \<notin> dep_id ` set (filter ?other ds)) ds"
  have "PStr i = team" if "d \<in> set ?ds" "mi_team_id d = Some i" for d i
  proof (rule ccontr)
    assume "PStr i \<noteq> team"
    then have "d \<in> set (filter ?other ds)" using that by simp
    then show False using that(1) by auto
  qed
  moreover have "cs = OneOf ?ds" using assms t by (simp add: filter_team_based_models_def Let_def)
  ultimately show ?thesis using t by (intro exI [of _ team] exI [of _ ?ds]) auto
qed

lemma team_specific: "filter_team_based_models (Specific d) (Some kw) = Inr cs \<Longrightarrow> cs = Specific d"
  by (auto simp: filter_team_based_models_def split: sum.splits)

lemma web_filtered:
  "filter_web_search_deployments (OneOf ds) (Some kw) = Inr cs \<Longrightarrow> \<exists>ds'. cs = OneOf ds' \<and> set ds' \<subseteq> set ds"
  "filter_web_search_deployments (Specific d) (Some kw) = Inr cs \<Longrightarrow> cs = Specific d"
proof -
  assume w: "filter_web_search_deployments (OneOf ds) (Some kw) = Inr cs"
  then obtain tools web where "tools_of kw = Inr tools" "is_web_search_request tools = Inr web"
    by (auto simp: filter_web_search_deployments_def split: sum.splits) (metis map_sum.simps(1) obj_sumE sum.distinct(1))
  then show "\<exists>ds'. cs = OneOf ds' \<and> set ds' \<subseteq> set ds" using w by (auto simp: filter_web_search_deployments_def split: if_splits)
qed (simp add: filter_web_search_deployments_def)

text \<open>What a deployment must be like to serve a request.\<close>

definition may_serve :: "'r select_env \<Rightarrow> kwargs \<Rightarrow> 'r selector \<Rightarrow> deployment \<Rightarrow> bool" where
  "may_serve E kw s d \<longleftrightarrow>
     (\<exists>team. request_team_id (Some kw) = Inr team \<and> (\<forall>i. mi_team_id d = Some i \<longrightarrow> PStr i = team)) \<and>
     (\<exists>ids. fst (async_cooling E s) = Inr ids \<and> dep_id d \<notin> set ids) \<and>
     (\<forall>md ts. enable_tag_filtering (sel_tags s) \<longrightarrow>
        map_of kw (get_metadata_variable_name_from_kwargs kw) = Some (PDict md) \<longrightarrow>
        map_of md ''tags'' = Some (PList (map PStr ts)) \<longrightarrow> ts \<noteq> [] \<longrightarrow>
        serves (tag_filtering_match_any (sel_tags s)) ts d \<or> is_default d)"

lemma healthy_may_serve:
  assumes "async_get_healthy_deployments E model kw messages specific s = (Inr cs, s')" "narrows (env_callbacks E)"
  shows "same_settings s s' \<and> (\<exists>model1 cs0. request_candidates_for E model specific (Some kw) s = Inr (model1, cs0) \<and>
    (case cs of Specific d \<Rightarrow> cs0 = Specific d
     | OneOf ds \<Rightarrow> ds \<noteq> [] \<and> (\<exists>ds0. cs0 = OneOf ds0 \<and> set ds \<subseteq> set ds0 \<and> (\<forall>d \<in> set ds. may_serve E kw s d))))"
proof -
  obtain model1 cs0 cs1 cs2 where c: "request_candidates_for E model specific (Some kw) s = Inr (model1, cs0)"
    "filter_team_based_models cs0 (Some kw) = Inr cs1" "filter_web_search_deployments cs1 (Some kw) = Inr cs2"
    using assms(1) by (auto simp: async_get_healthy_deployments_def and_then_Inr)
  note run = assms(1) [unfolded async_get_healthy_deployments_def c and_then_simps prod.case]
  show ?thesis
  proof (cases cs0)
    case (Specific d)
    then have "cs2 = Specific d" using c(2,3) team_specific [of d kw cs1] web_filtered(2) [of d kw cs2] by simp
    then have "cs = Specific d" "s' = s" using run by auto
    then show ?thesis using c(1) Specific by (simp add: same_settings_def)
  next
    case (OneOf ds0)
    obtain team ds1 where t: "cs1 = OneOf ds1" "request_team_id (Some kw) = Inr team" "set ds1 \<subseteq> set ds0"
      "\<forall>d \<in> set ds1. \<forall>i. mi_team_id d = Some i \<longrightarrow> PStr i = team"
      using team_filtered c(2) OneOf by blast
    obtain ds2 where w: "cs2 = OneOf ds2" "set ds2 \<subseteq> set ds1" using web_filtered(1) c(3) t(1) by blast
    obtain ids s1 ds3 s2 ds4 s3 ds5 where
      cool: "async_cooling E s = (Inr ids, s1)"
      and cb: "async_callback_filter_deployments E model1 (filter_cooldown_deployments ds2 ids) messages kw s1 = (Inr ds3, s2)"
      and pc: "run_pre_call_checks E model1 ds3 messages (Some kw) s2 = (Inr ds4, s3)"
      and tg: "get_deployments_for_tag (sel_tags s3) ds4 (Some kw) (get_metadata_variable_name_from_kwargs kw) = Inr ds5"
      and fin: "(if ds5 = [] then async_raise_no_deployment_exception E model1 s3 else (Inr (OneOf ds5), s3)) = (Inr cs, s')"
      using run by (auto simp: w(1) and_then_Inr)
    have cs: "cs = OneOf ds5" "ds5 \<noteq> []" "s' = s3" using fin by (auto simp: raise_never_returns split: if_splits)
    note s1 = cooling_settings(1) [OF cool] and s2 = callbacks_subset [OF cb assms(2)] and s3 = run_pre_call_subset [OF pc]
    have settings: "same_settings s s3" using s1 s2 s3 by (simp add: same_settings_def)
    have sub: "set ds5 \<subseteq> set (filter_cooldown_deployments ds2 ids)" using s2 s3 tags_subset [OF tg] by blast
    have "may_serve E kw s d" if "d \<in> set ds5" for d
    proof -
      have "d \<in> set ds2" "dep_id d \<notin> set ids" using sub that by (auto simp: filter_cooldown_deployments_def)
      then show ?thesis
        using t(2,4) w(2) cool tagged_served [OF tg _ _ _ _ that] settings
        by (auto simp: may_serve_def same_settings_def)
    qed
    moreover have "set ds5 \<subseteq> set ds0" using sub w(2) t(3) by (auto simp: filter_cooldown_deployments_def)
    ultimately show ?thesis using c(1) OneOf cs settings by auto
  qed
qed

lemma shuffle_picked: "some_pick (simple_shuffle draw u ds, s) = (Inr (Some d), s') \<Longrightarrow> d \<in> set ds"
  using shuffle.pick_member [of draw u ds s d] by simp

lemma strategy_pick_member: "async_strategy_pick E model ds messages input kw s = (Inr (Some d), s') \<Longrightarrow> d \<in> set ds"
  by (auto simp: async_strategy_pick_def latency_pick_def dest!: on_cache_fst
      dest: latency.pick_member least_busy.pick_member async_usage_v2.pick_member shuffle_picked split: if_splits)

lemma async_pick_member: "async_pick E model ds messages input kw s = (Inr (Some d), s') \<Longrightarrow> d \<in> set ds"
  by (auto simp: async_pick_def dest!: on_cache_fst dest: cost.pick_member strategy_pick_member split: if_splits)

lemma sync_pick_member: "sync_strategy_pick E model ds messages input kw s = (Inr (Some d), s') \<Longrightarrow> d \<in> set ds"
  by (auto simp: sync_strategy_pick_def latency_pick_def dest!: on_cache_fst
      dest: latency.pick_member least_busy.pick_member usage.pick_member usage_v2.pick_member shuffle_picked split: if_splits)

lemma async_chosen:
  assumes "async_get_available_deployment E model kw messages input specific s = (Inr d, s')"
    and "routing_strategy s \<in> async_strategies" "async_pre_routing_hook E model kw messages = Inr response"
    and "narrows (env_callbacks E)"
  shows "\<exists>model1 cs. request_candidates_for E (fst (hooked model messages response)) specific (Some kw) s = Inr (model1, cs) \<and>
    (case cs of Specific d' \<Rightarrow> d = d' | OneOf ds \<Rightarrow> d \<in> set ds \<and> may_serve E kw s d)"
proof -
  obtain m ms where h: "hooked model messages response = (m, ms)" by fastforce
  obtain cs s1 where healthy: "async_get_healthy_deployments E m kw ms specific s = (Inr cs, s1)"
    and pick: "(case cs of Specific d \<Rightarrow> (Inr d, s1)
      | OneOf ds \<Rightarrow>
        if truthy (dict_get kw ''_encrypted_content_affinity_pinned'' PNone) \<and> length ds = 1 then (Inr (hd ds), s1)
        else and_then (async_pick E m ds ms input kw s1) (\<lambda>x s.
          case x of None \<Rightarrow> async_raise_no_deployment_exception E m s | Some d \<Rightarrow> (Inr d, s))) = (Inr d, s')"
    using assms(1) by (auto simp: async_get_available_deployment_def assms(2,3) h and_then_Inr)
  obtain model1 cs0 where c: "request_candidates_for E m specific (Some kw) s = Inr (model1, cs0)"
    and e: "case cs of Specific d \<Rightarrow> cs0 = Specific d
     | OneOf ds \<Rightarrow> ds \<noteq> [] \<and> (\<exists>ds0. cs0 = OneOf ds0 \<and> set ds \<subseteq> set ds0 \<and> (\<forall>d \<in> set ds. may_serve E kw s d))"
    using healthy_may_serve [OF healthy assms(4)] by blast
  show ?thesis
  proof (cases cs)
    case (Specific d')
    then show ?thesis using pick e c h by simp
  next
    case (OneOf ds)
    have "d \<in> set ds"
    proof (cases "truthy (dict_get kw ''_encrypted_content_affinity_pinned'' PNone) \<and> length ds = 1")
      case True
      then show ?thesis using pick OneOf e by auto
    next
      case False
      then have "\<exists>x s2. async_pick E m ds ms input kw s1 = (Inr x, s2) \<and>
          (case x of None \<Rightarrow> async_raise_no_deployment_exception E m s2 | Some d \<Rightarrow> (Inr d, s2)) = (Inr d, s')"
        using pick OneOf by (auto simp: and_then_Inr)
      then show ?thesis by (auto simp: raise_never_returns dest: async_pick_member split: option.splits)
    qed
    then show ?thesis using e c h OneOf by auto
  qed
qed

text \<open>Without Redis, the cooling deployments are those with an entry in memory.\<close>

definition cools :: "time \<Rightarrow> 'r crouter \<Rightarrow> string \<Rightarrow> bool" where
  "cools t c i \<longleftrightarrow> (let v = imc_peek t (get_cooldown_cache_key i) (in_memory_cache (router_cache c)) in truthy v \<and> is_dict v)"

lemma async_cooling_local:
  assumes "redis_cache (router_cache (sel_cooldown s)) = None" "get_model_ids None False (sel_models s) = Inr ids"
  shows "\<exists>cs s'. async_cooling E s = (Inr cs, s') \<and> same_settings s s' \<and>
    (\<forall>i. i \<in> set cs \<longleftrightarrow> i \<in> set ids \<and> cools (env_time E) (sel_cooldown s) i)"
proof -
  let ?c = "(sel_cooldown s)\<lparr>model_ids := ids\<rparr>"
  let ?r = "async_get_cooldown_deployments (env_ops E) (env_rt E) (env_time E) (env_time E) ?c"
  have "async_cooling E s = (Inr (fst ?r), s\<lparr>sel_cooldown := snd ?r\<rparr>)"
    by (simp add: async_cooling_def with_model_ids_def assms(2) split: prod.split)
  moreover have "i \<in> set (fst ?r) \<longleftrightarrow> i \<in> set ids \<and> cools (env_time E) (sel_cooldown s) i" for i
    using in_cooldown_local [of ?c i "env_ops E" "env_rt E" "env_time E" "env_time E"] assms(1)
    by (simp add: cools_def Let_def async_get_cooldown_deployments_def async_cooldowns_agree get_cooldown_deployments_def)
  ultimately show ?thesis by (intro exI [of _ "fst ?r"] exI [of _ "s\<lparr>sel_cooldown := snd ?r\<rparr>"]) (simp add: same_settings_def)
qed

lemma candidates_cong [simp]: "request_candidates_for E model specific kw (s\<lparr>sel_cooldown := c\<rparr>) = request_candidates_for E model specific kw s"
  by (simp add: request_candidates_for_def split: sum.split)

subsection \<open>Properties\<close>


definition plain_env :: "time \<Rightarrow> unit select_env" where
  "plain_env t = \<lparr>env_ops = ops0, env_rt = rt0, env_time = t, env_date = noon, env_draw = (\<lambda>_. 0), env_uniform = 0, env_sample = id,
     env_tokens = (\<lambda>_ _. Inr 5), env_prices = (\<lambda>_. None), env_latency = default_latency_args, env_facts = plain_facts,
     env_provider = (\<lambda>_. None), env_alias_map = [], env_callbacks = [], auto_routers = [], complexity_routers = []\<rparr>"

definition two_selector :: "unit selector" where
  "two_selector = \<lparr>sel_models = two_models, sel_cooldown = crouter_init mem_dual None None None False (\<lambda>_. Some [''a'', ''b'']) [],
     routing_strategy = ''simple-shuffle'', enable_pre_call_checks = False,
     sel_tags = \<lparr>enable_tag_filtering = False, tag_filtering_match_any = True\<rparr>\<rparr>"

lemma narrows_Nil [simp]: "narrows []"
  by (simp add: narrows_def)

abbreviation chosen_first where
  "chosen_first \<equiv> async_get_available_deployment (plain_env 9) ''g'' [] None None False two_selector"



abbreviation selector_b where
  "selector_b \<equiv> two_selector\<lparr>sel_cooldown := snd (set_cooldown_deployments ops0 rt0 5 exc0 (SStr ''429'') (Some ''a'') (Some 30) (sel_cooldown two_selector))\<rparr>"


lemma callbacks_none: "env_callbacks E = [] \<Longrightarrow> \<exists>s'. async_callback_filter_deployments E model ds messages kw s = (Inr ds, s') \<and> same_settings s s'"
  by (simp add: async_callback_filter_deployments_def on_cache_def same_settings_def)

lemma raises:
  fixes s :: "'a selector"
  shows "\<exists>e. fst (async_raise_no_deployment_exception E model s :: 'b pyres \<times> 'a selector) = Inl e"
proof (cases "fst (async_raise_no_deployment_exception E model s :: 'b pyres \<times> 'a selector)")
  case (Inr x)
  then show ?thesis
    using raise_never_returns(1) [of E model s x "snd (async_raise_no_deployment_exception E model s :: 'b pyres \<times> 'a selector)"]
    by (simp add: prod_eq_iff)
qed simp

text \<open>
  Without Redis, tags and further checks, the asynchronous shuffle is the shuffle of exactly the
  candidates of the request's team that are not cooling down; it fails when all of them are.
\<close>

lemma shuffle_choice_exact:
  assumes "routing_strategy s = ''simple-shuffle''" "async_pre_routing_hook E model kw messages = Inr None"
    and "request_candidates_for E model specific (Some kw) s = Inr (model1, OneOf ds)"
    and "request_team_id (Some kw) = Inr team" "distinct (map dep_id ds)" "map_of kw ''tools'' = None"
    and "\<not> truthy (dict_get kw ''_encrypted_content_affinity_pinned'' PNone)"
    and "get_model_ids None False (sel_models s) = Inr ids" "dep_id ` set ds \<subseteq> set ids"
    and "redis_cache (router_cache (sel_cooldown s)) = None" "env_callbacks E = []" "messages = None \<or> \<not> enable_pre_call_checks s"
    and "\<not> enable_tag_filtering (sel_tags s)"
    and "free = filter (\<lambda>d. (\<forall>i. mi_team_id d = Some i \<longrightarrow> PStr i = team) \<and> \<not> cools (env_time E) (sel_cooldown s) (dep_id d)) ds"
  shows "if free = [] then \<exists>e. fst (async_get_available_deployment E model kw messages input specific s) = Inl e
    else fst (async_get_available_deployment E model kw messages input specific s) = simple_shuffle (env_draw E) (env_uniform E) free"
proof -
  let ?own = "\<lambda>d. \<forall>i. mi_team_id d = Some i \<longrightarrow> PStr i = team"
  let ?other = "\<lambda>d. case mi_team_id d of None \<Rightarrow> False | Some i \<Rightarrow> PStr i \<noteq> team"
  have "dep_id d \<in> dep_id ` set (filter ?other ds) \<longleftrightarrow> ?other d" if "d \<in> set ds" for d
    using assms(5) that by (force simp: distinct_map inj_on_def)
  moreover have "?other d \<longleftrightarrow> \<not> ?own d" for d by (cases "mi_team_id d") simp_all
  ultimately have "dep_id d \<notin> dep_id ` set (filter ?other ds) \<longleftrightarrow> ?own d" if "d \<in> set ds" for d
    using that by blast
  then have team: "filter_team_based_models (OneOf ds) (Some kw) = Inr (OneOf (filter ?own ds))"
    unfolding filter_team_based_models_def assms(4) Let_def by (simp only: sum.case candidates.case option.distinct if_False cong: filter_cong)
  have web: "filter_web_search_deployments (OneOf xs) (Some kw) = Inr (OneOf xs)" for xs
    using assms(6) by (simp add: filter_web_search_deployments_def tools_of_def dict_get_def py_or_def)
  obtain cs s1 where cool: "async_cooling E s = (Inr cs, s1)" "same_settings s s1"
    "\<And>i. i \<in> set cs \<longleftrightarrow> i \<in> set ids \<and> cools (env_time E) (sel_cooldown s) i"
    using async_cooling_local [OF assms(10,8), of E] by blast
  have free: "filter_cooldown_deployments (filter ?own ds) cs = free"
    using assms(9,14) by (auto simp: filter_cooldown_deployments_def cool(3) intro!: filter_cong)
  obtain s2 where cb: "async_callback_filter_deployments E model1 free messages kw s1 = (Inr free, s2)" "same_settings s1 s2"
    using callbacks_none [OF assms(11)] by blast
  have set2: "sel_tags s2 = sel_tags s" "enable_pre_call_checks s2 = enable_pre_call_checks s" "routing_strategy s2 = routing_strategy s"
    using cool(2) cb(2) by (simp_all add: same_settings_def)
  have pc: "run_pre_call_checks E model1 free messages (Some kw) s2 = (Inr free, s2)"
    using assms(12) set2(2) by (auto simp: run_pre_call_checks_def split: option.split)
  have tag: "get_deployments_for_tag (sel_tags s2) free (Some kw) v = Inr free" for v
    using assms(13) set2(1) by (simp add: get_deployments_for_tag_def)
  have healthy: "async_get_healthy_deployments E model kw messages specific s =
      (if free = [] then async_raise_no_deployment_exception E model1 s2 else (Inr (OneOf free), s2))"
    by (simp add: async_get_healthy_deployments_def assms(3) team web cool(1) free cb(1) pc tag)
  show ?thesis
  proof (cases "free = []")
    case True
    obtain e s3 where "async_raise_no_deployment_exception E model1 s2 = (Inl e :: candidates pyres, s3)"
      using raises [of E model1 s2] by (metis prod.collapse)
    then show ?thesis
      using True by (simp add: async_get_available_deployment_def assms(1,2) async_strategies_def hooked_def healthy)
  next
    case False
    then show ?thesis
      using assms(7)
      by (cases "simple_shuffle (env_draw E) (env_uniform E) free")
        (simp_all add: async_get_available_deployment_def assms(1,2) async_strategies_def hooked_def healthy
          async_pick_def async_strategy_pick_def set2(3) some_pick_def)
  qed
qed

text \<open>
  The strategies without an asynchronous pick, and the synchronous interface, choose from all candidates,
  also those of other teams. Neither the synchronous choice nor the one for pass-through endpoints
  knows the costs.
\<close>

definition team_selector :: "string \<Rightarrow> unit selector" where
  "team_selector strategy = two_selector
     \<lparr>sel_models := snd (add_deployment plain_setup ((named ''g'' (dep ''a'' None))\<lparr>mi_team_id := Some ''t'', lp_rest := [(''use_in_pass_through'', PBool True)]\<rparr>) empty_router),
      routing_strategy := strategy\<rparr>"

lemma usage_routing_ignores_team:
  "let kw = [(''metadata'', PDict [(''user_api_key_team_id'', PStr ''other'')])];
       chosen = (\<lambda>strategy. fst (async_get_available_deployment (plain_env 9) ''g'' kw None None False (team_selector strategy))) in
   chosen ''simple-shuffle'' = Inl (OtherError ''RouterRateLimitError'') \<and>
   map_sum id dep_id (chosen ''usage-based-routing'') = Inr ''a''"
  by code_simp

lemma cost_strategy_not_everywhere:
  "let kw = [(''metadata'', PDict [(''user_api_key_team_id'', PStr ''t'')])]; s = team_selector ''cost-based-routing'' in
   map_sum id dep_id (fst (async_get_available_deployment (plain_env 9) ''g'' kw None None False s)) = Inr ''a'' \<and>
   fst (get_available_deployment (plain_env 9) ''g'' None None False (Some kw) s) = Inl (OtherError ''RouterRateLimitError'') \<and>
   fst (async_get_available_deployment_for_pass_through (plain_env 9) ''g'' kw None None False s) = Inl (OtherError ''RouterRateLimitError'')"
  by code_simp

end
