(* ===== verification/ModelAccess.thy ===== *)
theory ModelAccess
  imports RouterModels
begin

text \<open>
  \<^verbatim>\<open>proxy/auth/auth_checks.py\<close>: which models a key, a user, a team, an organization or a project may call. A
  list of allowed models holds names, wildcard patterns and access groups of the router; an empty list
  allows everything. \<^verbatim>\<open>get_model_from_request\<close> of \<^verbatim>\<open>auth_utils.py\<close> finds out what a request asks for.
  A pattern is turned into a regular expression without escaping it; the match is modelled for patterns
  whose only special characters are the star and the dot, and is a parameter for all others.
  The provider of a model and the models behind access group ids, which are read from the database, are
  parameters too. The theory shows what the check admits, in terms of the deployments.
\<close>

subsection \<open>Patterns\<close>

datatype pattern_item = Literal char | AnyChar | AnyRun

definition pattern_items :: "string \<Rightarrow> pattern_item list" where
  "pattern_items p = map (\<lambda>c. if c = CHR ''*'' then AnyRun else if c = CHR ''.'' then AnyChar else Literal c) p"

text \<open>The items at the start of a string and \<^verbatim>\<open>$\<close>, which also matches before a last newline.\<close>

fun match_to_end :: "pattern_item list \<Rightarrow> string \<Rightarrow> bool" where
  "match_to_end [] s = (s = [] \<or> s = [CHR 0x0A])"
| "match_to_end (Literal c # g) s = (case s of [] \<Rightarrow> False | x # s' \<Rightarrow> x = c \<and> match_to_end g s')"
| "match_to_end (AnyChar # g) s = (case s of [] \<Rightarrow> False | x # s' \<Rightarrow> x \<noteq> CHR 0x0A \<and> match_to_end g s')"
| "match_to_end (AnyRun # g) s =
     (match_to_end g s \<or> (case s of [] \<Rightarrow> False | x # s' \<Rightarrow> x \<noteq> CHR 0x0A \<and> match_to_end (AnyRun # g) s'))"

definition plain_pattern :: "string \<Rightarrow> bool" where
  "plain_pattern p \<longleftrightarrow> set p \<inter> set (CHR 0x5C # ''^$+?{}[]|()'') = {}"

record access_env =
  llm_router :: "router option"
  model_alias_map :: "(string, string) dict"
  provider_of :: "string \<Rightarrow> (string \<times> string) pyres"
  regex_match :: "string \<Rightarrow> string \<Rightarrow> bool pyres" \<comment> \<open>for patterns with other special characters\<close>
  models_from_access_groups :: "string list \<Rightarrow> string list"

definition is_model_allowed_by_pattern :: "access_env \<Rightarrow> string \<Rightarrow> string \<Rightarrow> bool pyres" where
  "is_model_allowed_by_pattern E model allowed_model_pattern =
     (if \<not> star_in allowed_model_pattern then Inr False
      else if plain_pattern allowed_model_pattern then Inr (match_to_end (pattern_items allowed_model_pattern) model)
      else regex_match E allowed_model_pattern model)"

definition is_wildcard_pattern :: "string \<Rightarrow> bool" where
  "is_wildcard_pattern allowed_model_pattern \<longleftrightarrow> star_in allowed_model_pattern"

definition model_custom_llm_provider_matches_wildcard_pattern :: "access_env \<Rightarrow> string \<Rightarrow> string \<Rightarrow> bool pyres" where
  "model_custom_llm_provider_matches_wildcard_pattern E model allowed_model_pattern =
     (case provider_of E model of
        Inl _ \<Rightarrow> Inr False
      | Inr (m, custom_llm_provider) \<Rightarrow> is_model_allowed_by_pattern E (custom_llm_provider @ ''/'' @ m) allowed_model_pattern)"

text \<open>\<^verbatim>\<open>any(...)\<close>.\<close>

fun any_of :: "('a \<Rightarrow> bool pyres) \<Rightarrow> 'a list \<Rightarrow> bool pyres" where
  "any_of f [] = Inr False"
| "any_of f (x # xs) = (case f x of Inl e \<Rightarrow> Inl e | Inr b \<Rightarrow> if b then Inr True else any_of f xs)"

definition model_matches_any_wildcard_pattern_in_list :: "access_env \<Rightarrow> string \<Rightarrow> string list \<Rightarrow> bool pyres" where
  "model_matches_any_wildcard_pattern_in_list E model allowed_model_list =
     (case any_of (\<lambda>p. if is_wildcard_pattern p then is_model_allowed_by_pattern E model p else Inr False) allowed_model_list of
        Inl e \<Rightarrow> Inl e
      | Inr True \<Rightarrow> Inr True
      | Inr False \<Rightarrow>
        any_of (\<lambda>p. if is_wildcard_pattern p then model_custom_llm_provider_matches_wildcard_pattern E model p else Inr False) allowed_model_list)"

subsection \<open>Access\<close>

definition model_in_team_aliases :: "string \<Rightarrow> (string, string) dict option \<Rightarrow> bool" where
  "model_in_team_aliases model team_model_aliases \<longleftrightarrow> (case team_model_aliases of None \<Rightarrow> False | Some m \<Rightarrow> map_of m model \<noteq> None)"

definition access_groups_for :: "access_env \<Rightarrow> string \<Rightarrow> string option \<Rightarrow> (string, string list) dict pyres" where
  "access_groups_for E model team_id =
     (case llm_router E of None \<Rightarrow> Inr [] | Some r \<Rightarrow> fst (get_model_access_groups (Some model) None team_id r))"

definition check_model_access_helper ::
  "access_env \<Rightarrow> string \<Rightarrow> string list \<Rightarrow> (string, string) dict option \<Rightarrow> string option \<Rightarrow> bool pyres" where
  "check_model_access_helper E model models team_model_aliases team_id =
     (case access_groups_for E model team_id of
        Inl e \<Rightarrow> Inl e
      | Inr groups \<Rightarrow>
        (let filtered_models = filter (\<lambda>m. map_of groups m = None) models in
         if \<exists>m \<in> set models. map_of groups m \<noteq> None then Inr True
         else if model_in_team_aliases model team_model_aliases then Inr True
         else case model_matches_any_wildcard_pattern_in_list E model filtered_models of
           Inl e \<Rightarrow> Inl e
         | Inr True \<Rightarrow> Inr True
         | Inr False \<Rightarrow>
           Inr (model \<in> set filtered_models \<or> (filtered_models = [] \<and> models = []) \<or> ''*'' \<in> set filtered_models \<or>
             ''all-proxy-models'' \<in> set filtered_models)))"

text \<open>A model or a list of models, which may be nested.\<close>

datatype requested = Model string | Models "requested list"

definition DEFAULT_MAX_RECURSE_DEPTH :: nat where
  "DEFAULT_MAX_RECURSE_DEPTH = 100"

definition potential_models :: "access_env \<Rightarrow> string \<Rightarrow> string list" where
  "potential_models E model =
     (case map_of (model_alias_map E) model of
        Some m \<Rightarrow> [model, m]
      | None \<Rightarrow>
        (case (case llm_router E of None \<Rightarrow> None | Some r \<Rightarrow> get_model_from_alias model r) of
           Some m \<Rightarrow> if m = [] then [model] else [model, m]
         | None \<Rightarrow> [model]))"

abbreviation access_denied :: pyexc where
  "access_denied \<equiv> OtherError ''ProxyException''"

fun can_object_call_model ::
  "access_env \<Rightarrow> string list \<Rightarrow> (string, string) dict option \<Rightarrow> string option \<Rightarrow> nat \<Rightarrow> requested \<Rightarrow> unit pyres"
and can_object_call_models ::
  "access_env \<Rightarrow> string list \<Rightarrow> (string, string) dict option \<Rightarrow> string option \<Rightarrow> nat \<Rightarrow> requested list \<Rightarrow> unit pyres" where
  "can_object_call_model E models team_model_aliases team_id fallback_depth (Models ms) =
     (if DEFAULT_MAX_RECURSE_DEPTH \<le> fallback_depth then Inl (OtherError ''Exception'')
      else can_object_call_models E models team_model_aliases team_id (fallback_depth + 1) ms)"
| "can_object_call_model E models team_model_aliases team_id fallback_depth (Model model) =
     (if DEFAULT_MAX_RECURSE_DEPTH \<le> fallback_depth then Inl (OtherError ''Exception'')
      else case any_of (\<lambda>m. check_model_access_helper E m models team_model_aliases team_id) (potential_models E model) of
        Inl e \<Rightarrow> Inl e
      | Inr True \<Rightarrow> Inr ()
      | Inr False \<Rightarrow> Inl access_denied)"
| "can_object_call_models E models team_model_aliases team_id fallback_depth [] = Inr ()"
| "can_object_call_models E models team_model_aliases team_id fallback_depth (m # ms) =
     (case can_object_call_model E models team_model_aliases team_id fallback_depth m of
        Inl e \<Rightarrow> Inl e
      | Inr _ \<Rightarrow> can_object_call_models E models team_model_aliases team_id fallback_depth ms)"

text \<open>The objects of the database, with the fields that the checks read.\<close>

record key_obj =
  key_models :: "string list"
  key_team_model_aliases :: "(string, string) dict option"
  key_team_id :: "string option"
  key_access_group_ids :: "string list option"
  key_spend :: "rat option"
  key_max_budget :: "rat option"
  key_user_id :: "string option"
  key_org_id :: "string option"
  key_allowed_routes :: "string list option"
  key_metadata :: "(string, pyval) dict"
  key_team_metadata :: "(string, pyval) dict option"
  key_permissions :: "(string, pyval) dict"

record team_obj =
  team_id_of :: string
  team_models :: "string list"
  team_access_group_ids :: "string list option"
  team_blocked :: bool
  team_spend :: "rat option"
  team_max_budget :: "rat option"
  team_organization_id :: "string option"

record org_membership =
  membership_org :: string
  membership_role :: "string option"

record user_obj =
  user_models :: "string list"
  user_spend :: rat
  user_max_budget :: "rat option"
  user_id_of :: string
  user_role_of :: "string option"
  organization_memberships :: "org_membership list option"

record project_obj =
  project_models :: "string list"
  project_blocked :: bool
  project_spend :: "rat option"
  project_max_budget :: "rat option"

text \<open>The second chance through access group ids.\<close>

definition or_access_groups ::
  "access_env \<Rightarrow> string list option \<Rightarrow> (string list \<Rightarrow> unit pyres) \<Rightarrow> unit pyres \<Rightarrow> unit pyres" where
  "or_access_groups E access_group_ids check native =
     (if native \<noteq> Inl access_denied then native
      else case access_group_ids of
        Some (i # ids) \<Rightarrow>
          (case models_from_access_groups E (i # ids) of [] \<Rightarrow> native | ms \<Rightarrow> check ms)
      | _ \<Rightarrow> native)"

definition can_key_call_model :: "access_env \<Rightarrow> requested \<Rightarrow> key_obj \<Rightarrow> unit pyres" where
  "can_key_call_model E model valid_token =
     (let check = (\<lambda>models. can_object_call_model E models (key_team_model_aliases valid_token) (key_team_id valid_token) 0 model) in
      or_access_groups E (key_access_group_ids valid_token) check (check (key_models valid_token)))"

definition can_org_access_model :: "access_env \<Rightarrow> requested \<Rightarrow> string list option \<Rightarrow> (string, string) dict option \<Rightarrow> unit pyres" where
  "can_org_access_model E model org_models team_model_aliases =
     can_object_call_model E (case org_models of None \<Rightarrow> [] | Some ms \<Rightarrow> ms) team_model_aliases None 0 model"

definition can_team_access_model ::
  "access_env \<Rightarrow> requested \<Rightarrow> team_obj option \<Rightarrow> (string, string) dict option \<Rightarrow> unit pyres" where
  "can_team_access_model E model team_object team_model_aliases =
     (let check = (\<lambda>models. can_object_call_model E models team_model_aliases (map_option team_id_of team_object) 0 model) in
      case team_object of
        None \<Rightarrow> check []
      | Some t \<Rightarrow> or_access_groups E (team_access_group_ids t) check (check (team_models t)))"

definition can_project_access_model :: "access_env \<Rightarrow> requested \<Rightarrow> project_obj \<Rightarrow> unit pyres" where
  "can_project_access_model E model project_object = can_object_call_model E (project_models project_object) None None 0 model"

definition can_user_call_model :: "access_env \<Rightarrow> requested \<Rightarrow> user_obj option \<Rightarrow> unit pyres" where
  "can_user_call_model E model user_object =
     (case user_object of
        None \<Rightarrow> Inr ()
      | Some u \<Rightarrow>
        if ''no-default-models'' \<in> set (user_models u) then Inl access_denied
        else can_object_call_model E (user_models u) None None 0 model)"

definition model_in_access_group :: "access_env \<Rightarrow> string \<Rightarrow> string list option \<Rightarrow> bool pyres" where
  "model_in_access_group E model allowed =
     (case allowed of
        None \<Rightarrow> Inr True
      | Some ms \<Rightarrow>
        if model \<in> set ms then Inr True
        else map_sum id (\<lambda>groups. (\<exists>m \<in> set ms. map_of groups m \<noteq> None) \<or> model \<in> set (filter (\<lambda>m. map_of groups m = None) ms))
          (access_groups_for E model None))"

subsection \<open>What a pattern matches\<close>

text \<open>The strings that a pattern stands for when each star is replaced by some string.\<close>

inductive star_instance :: "string \<Rightarrow> string \<Rightarrow> bool" where
  star_nil: "star_instance [] []"
| star_char: "c \<noteq> CHR ''*'' \<Longrightarrow> star_instance p s \<Longrightarrow> star_instance (c # p) (c # s)"
| star_run: "star_instance p s \<Longrightarrow> star_instance (CHR ''*'' # p) (x @ s)"

inductive_cases star_instance_NilE: "star_instance [] s"
inductive_cases star_instance_ConsE: "star_instance (c # p) s"

lemma match_run: "match_to_end (AnyRun # g) s \<longleftrightarrow> (\<exists>x s'. s = x @ s' \<and> CHR 0x0A \<notin> set x \<and> match_to_end g s')"
proof (induction s)
  case (Cons a s)
  show ?case
  proof
    assume "match_to_end (AnyRun # g) (a # s)"
    then consider "match_to_end g (a # s)" | "a \<noteq> CHR 0x0A" "match_to_end (AnyRun # g) s" by auto
    then show "\<exists>x s'. a # s = x @ s' \<and> CHR 0x0A \<notin> set x \<and> match_to_end g s'"
    proof cases
      case 1
      then show ?thesis by (intro exI [of _ "[]"] exI [of _ "a # s"]) simp
    next
      case 2
      then obtain x s' where "s = x @ s'" "CHR 0x0A \<notin> set x" "match_to_end g s'" using Cons.IH by blast
      then show ?thesis using 2(1) by (intro exI [of _ "a # x"] exI [of _ s']) simp
    qed
  next
    assume "\<exists>x s'. a # s = x @ s' \<and> CHR 0x0A \<notin> set x \<and> match_to_end g s'"
    then obtain x s' where x: "a # s = x @ s'" "CHR 0x0A \<notin> set x" "match_to_end g s'" by blast
    then show "match_to_end (AnyRun # g) (a # s)" using Cons.IH by (cases x) auto
  qed
qed simp

lemma match_star_instance:
  assumes "CHR ''.'' \<notin> set p" "CHR 0x0A \<notin> set s"
  shows "match_to_end (pattern_items p) s \<longleftrightarrow> star_instance p s"
  using assms
proof (induction p arbitrary: s)
  case Nil
  then show ?case by (auto simp: pattern_items_def intro: star_nil elim: star_instance_NilE)
next
  case (Cons c p)
  show ?case
  proof (cases "c = CHR ''*''")
    case True
    have "match_to_end (pattern_items (c # p)) s \<longleftrightarrow> (\<exists>x s'. s = x @ s' \<and> CHR 0x0A \<notin> set x \<and> match_to_end (pattern_items p) s')"
      using True match_run by (simp add: pattern_items_def del: match_to_end.simps)
    also have "\<dots> \<longleftrightarrow> (\<exists>x s'. s = x @ s' \<and> star_instance p s')"
    proof -
      have "CHR 0x0A \<notin> set x \<and> match_to_end (pattern_items p) s' \<longleftrightarrow> star_instance p s'" if "s = x @ s'" for x s'
        using Cons that by simp
      then show ?thesis by blast
    qed
    also have "\<dots> \<longleftrightarrow> star_instance (c # p) s" using True by (auto intro: star_run) (erule star_instance_ConsE, auto)
    finally show ?thesis .
  next
    case False
    then show ?thesis
      using Cons by (cases s) (auto simp: pattern_items_def intro: star_char elim: star_instance_ConsE)
  qed
qed

subsection \<open>What is admitted\<close>

lemma any_of_total: "(\<And>x. x \<in> set xs \<Longrightarrow> f x = Inr (g x)) \<Longrightarrow> any_of f xs = Inr (\<exists>x \<in> set xs. g x)"
  by (induction xs) auto

definition models_for :: "string \<Rightarrow> string option \<Rightarrow> router \<Rightarrow> deployment list" where
  "models_for n team_id r = (case get_model_list (Some n) team_id r of Inl _ \<Rightarrow> [] | Inr ds \<Rightarrow> ds)"

lemma get_model_list_for: "router_inv r \<Longrightarrow> get_model_list (Some n) team_id r = Inr (models_for n team_id r)"
  by (simp add: models_for_def get_model_list_def get_model_list_from_model_alias_def router_inv_def get_all_scan alias_deployments_scan)

lemma fold_groups_dom:
  "map_of (fold (\<lambda>(g, n) acc. AList.update g (dict_get acc g [] @ [n]) acc) ps acc) g \<noteq> None \<longleftrightarrow> map_of acc g \<noteq> None \<or> g \<in> fst ` set ps"
  by (induction ps arbitrary: acc) auto

lemma access_group_of: "map_of (access_groups_of None ds) g \<noteq> None \<longleftrightarrow> (\<exists>d \<in> set ds. g \<in> set (mi_access_groups d))"
  unfolding access_groups_of_def fold_groups_dom by force

text \<open>The pattern \<open>p\<close> admits a model by its name or by its name behind that of its provider.\<close>

definition pattern_admits :: "access_env \<Rightarrow> string \<Rightarrow> string \<Rightarrow> bool" where
  "pattern_admits E p model \<longleftrightarrow> star_in p \<and>
     (match_to_end (pattern_items p) model \<or>
      (\<exists>m q. provider_of E model = Inr (m, q) \<and> match_to_end (pattern_items p) (q @ ''/'' @ m)))"

lemma wildcards_admit:
  assumes "\<And>p. p \<in> set ps \<Longrightarrow> plain_pattern p"
  shows "model_matches_any_wildcard_pattern_in_list E model ps = Inr (\<exists>p \<in> set ps. pattern_admits E p model)"
proof -
  let ?by = "\<lambda>n p. star_in p \<and> match_to_end (pattern_items p) n"
  have 1: "any_of (\<lambda>p. if is_wildcard_pattern p then is_model_allowed_by_pattern E model p else Inr False) ps = Inr (\<exists>p \<in> set ps. ?by model p)"
    by (rule any_of_total) (simp add: assms is_wildcard_pattern_def is_model_allowed_by_pattern_def)
  have 2: "any_of (\<lambda>p. if is_wildcard_pattern p then model_custom_llm_provider_matches_wildcard_pattern E model p else Inr False) ps =
      Inr (\<exists>p \<in> set ps. \<exists>m q. provider_of E model = Inr (m, q) \<and> ?by (q @ ''/'' @ m) p)"
    by (rule any_of_total)
      (auto simp: assms is_wildcard_pattern_def is_model_allowed_by_pattern_def model_custom_llm_provider_matches_wildcard_pattern_def
        split: sum.split)
  show ?thesis
    unfolding model_matches_any_wildcard_pattern_in_list_def 1 2 by (auto simp: pattern_admits_def split: bool.split)
qed

text \<open>What a list of allowed models admits, given the deployments that serve the model.\<close>

definition admits :: "access_env \<Rightarrow> deployment list \<Rightarrow> (string, string) dict option \<Rightarrow> string list \<Rightarrow> string \<Rightarrow> bool" where
  "admits E ds aliases models model \<longleftrightarrow>
     models = [] \<or> model \<in> set models \<or> ''*'' \<in> set models \<or> ''all-proxy-models'' \<in> set models \<or>
     (\<exists>d \<in> set ds. set (mi_access_groups d) \<inter> set models \<noteq> {}) \<or>
     model_in_team_aliases model aliases \<or> (\<exists>p \<in> set models. pattern_admits E p model)"

lemma access_helper_admits:
  assumes "llm_router E = Some r" "router_inv r" "\<And>p. p \<in> set models \<Longrightarrow> plain_pattern p"
  shows "check_model_access_helper E model models aliases team_id = Inr (admits E (models_for model team_id r) aliases models model)"
proof -
  let ?g = "access_groups_of None (models_for model team_id r)"
  have g: "access_groups_for E model team_id = Inr ?g"
    by (simp add: access_groups_for_def assms(1) get_model_access_groups_def get_model_list_for [OF assms(2)] Let_def)
  show ?thesis
  proof (cases "\<exists>m \<in> set models. map_of ?g m \<noteq> None")
    case True
    moreover have "\<exists>d \<in> set (models_for model team_id r). set (mi_access_groups d) \<inter> set models \<noteq> {}"
      using True access_group_of by blast
    ultimately show ?thesis by (simp add: check_model_access_helper_def g admits_def)
  next
    case False
    then have f: "filter (\<lambda>m. map_of ?g m = None) models = models" by (simp add: filter_id_conv)
    have n: "\<not> (\<exists>d \<in> set (models_for model team_id r). set (mi_access_groups d) \<inter> set models \<noteq> {})"
      using False access_group_of by blast
    have "check_model_access_helper E model models aliases team_id =
        (if model_in_team_aliases model aliases \<or> (\<exists>p \<in> set models. pattern_admits E p model) then Inr True
         else Inr (model \<in> set models \<or> models = [] \<or> ''*'' \<in> set models \<or> ''all-proxy-models'' \<in> set models))"
      using False by (simp add: check_model_access_helper_def g f wildcards_admit [OF assms(3)] Let_def split: bool.split)
    then show ?thesis using n by (auto simp: admits_def)
  qed
qed

lemma can_call_one:
  assumes "llm_router E = Some r" "router_inv r" "\<And>p. p \<in> set models \<Longrightarrow> plain_pattern p"
  shows "can_object_call_model E models aliases team_id 0 (Model m) =
    (if \<exists>n \<in> set (potential_models E m). admits E (models_for n team_id r) aliases models n then Inr () else Inl access_denied)"
proof -
  have "any_of (\<lambda>n. check_model_access_helper E n models aliases team_id) (potential_models E m) =
      Inr (\<exists>n \<in> set (potential_models E m). admits E (models_for n team_id r) aliases models n)"
    by (rule any_of_total) (rule access_helper_admits [OF assms])
  then show ?thesis by (simp add: DEFAULT_MAX_RECURSE_DEPTH_def split: bool.split)
qed

text \<open>All models of a request, in the order in which they are checked.\<close>

fun flatten :: "requested \<Rightarrow> string list" where
  "flatten (Model m) = [m]"
| "flatten (Models ms) = concat (map flatten ms)"

lemma can_call_all:
  "can_object_call_model E models aliases team_id depth q = Inr () \<Longrightarrow> m \<in> set (flatten q) \<Longrightarrow>
     can_object_call_model E models aliases team_id 0 (Model m) = Inr ()"
  "can_object_call_models E models aliases team_id depth qs = Inr () \<Longrightarrow> m \<in> set (concat (map flatten qs)) \<Longrightarrow>
     can_object_call_model E models aliases team_id 0 (Model m) = Inr ()"
  by (induction E models aliases team_id depth q and E models aliases team_id depth qs
      rule: can_object_call_model_can_object_call_models.induct)
    (auto simp: DEFAULT_MAX_RECURSE_DEPTH_def split: if_splits sum.splits bool.splits, blast+)

subsection \<open>Properties\<close>

text \<open>
  Property C15. In every reachable state of the router a key may call a model exactly if its list of models
  admits the model or the model behind its alias: the list is empty, names it or all models, names an
  access group of a deployment that serves it, has a pattern that matches it or its name behind the
  provider, or the team has it as an alias; or else if the models of its access group ids admit it.
\<close>

theorem key_model_access_exact:
  assumes "router_reachable S u r" "llm_router E = Some r"
    and "\<And>p. p \<in> set (key_models k) \<Longrightarrow> plain_pattern p"
    and "groups = (case key_access_group_ids k of None \<Rightarrow> [] | Some [] \<Rightarrow> [] | Some ids \<Rightarrow> models_from_access_groups E ids)"
    and "\<And>p. p \<in> set groups \<Longrightarrow> plain_pattern p"
    and "may = (\<lambda>models. \<exists>n \<in> set (potential_models E m). admits E (models_for n (key_team_id k) r) (key_team_model_aliases k) models n)"
  shows "can_key_call_model E (Model m) k = (if may (key_models k) \<or> (groups \<noteq> [] \<and> may groups) then Inr () else Inl access_denied)"
proof -
  let ?check = "\<lambda>models. can_object_call_model E models (key_team_model_aliases k) (key_team_id k) 0 (Model m)"
  have inv: "router_inv r" using router_reachable_inv [OF assms(1)] by simp
  have native: "?check (key_models k) = (if may (key_models k) then Inr () else Inl access_denied)"
    using can_call_one [OF assms(2) inv assms(3)] by (simp add: assms(6))
  have "?check groups = (if may groups then Inr () else Inl access_denied)"
    using can_call_one [OF assms(2) inv assms(5)] by (simp add: assms(6))
  then show ?thesis
    using assms(4) native
    by (auto simp: can_key_call_model_def or_access_groups_def Let_def simp del: can_object_call_model.simps split: option.splits list.splits)
qed

definition plain_access :: access_env where
  "plain_access = \<lparr>llm_router = Some two_models, model_alias_map = [], provider_of = (\<lambda>m. Inr (m, ''openai'')),
     regex_match = (\<lambda>_ _. Inr False), models_from_access_groups = (\<lambda>_. [])\<rparr>"

definition plain_key :: "string list \<Rightarrow> key_obj" where
  "plain_key models = \<lparr>key_models = models, key_team_model_aliases = None, key_team_id = None, key_access_group_ids = None,
     key_spend = None, key_max_budget = None, key_user_id = None, key_org_id = None, key_allowed_routes = Some [],
     key_metadata = [], key_team_metadata = None, key_permissions = []\<rparr>"

theorem key_model_access_exact_witness:
  "can_key_call_model plain_access (Model ''gpt-4'') (plain_key [''openai/*'']) = Inr () \<and>
   can_key_call_model plain_access (Model ''gpt-4'') (plain_key [''g'']) = Inl access_denied"
proof -
  have e: "llm_router plain_access = Some two_models" by (simp add: plain_access_def)
  have pot: "potential_models plain_access ''gpt-4'' = [''gpt-4'']" by code_simp
  have ds: "models_for ''gpt-4'' None two_models = []" by code_simp
  have a: "admits plain_access [] None [''openai/*''] ''gpt-4''" "\<not> admits plain_access [] None [''g''] ''gpt-4''"
    by (simp_all add: admits_def pattern_admits_def model_in_team_aliases_def star_in_def pattern_items_def plain_access_def)
  have k: "key_models (plain_key ms) = ms" "key_team_id (plain_key ms) = None" "key_team_model_aliases (plain_key ms) = None"
    "key_access_group_ids (plain_key ms) = None" for ms by (simp_all add: plain_key_def)
  show ?thesis
    using key_model_access_exact [OF two_models_reachable [of False] e, of "plain_key [''openai/*'']" "[]", OF _ _ _ refl, of "''gpt-4''"]
      key_model_access_exact [OF two_models_reachable [of False] e, of "plain_key [''g'']" "[]", OF _ _ _ refl, of "''gpt-4''"]
    by (simp add: k pot ds a plain_pattern_def)
qed

text \<open>
  A pattern without other special characters allows exactly the models that it becomes when
  its stars are replaced by some text.
\<close>

lemma pattern_allows_instances:
  assumes "star_in p" "plain_pattern p" "CHR ''.'' \<notin> set p" "CHR 0x0A \<notin> set model"
  shows "is_model_allowed_by_pattern E model p = Inr (star_instance p model)"
  using match_star_instance [OF assms(3,4)] assms(1,2) by (simp add: is_model_allowed_by_pattern_def)

text \<open>A dot in a pattern stands for any character.\<close>

lemma dot_not_escaped:
  "can_key_call_model plain_access (Model ''gpt-3x5-turbo'') (plain_key [''gpt-3.5*'']) = Inr ()"
  by code_simp

end
