(* ===== verification/RouteTables.thy ===== *)
theory RouteTables
  imports Prelude
begin

text \<open>
  \<^verbatim>\<open>LiteLLMRoutes\<close> of \<^verbatim>\<open>proxy/_types.py\<close>: the tables of routes that the checks of the proxy compare
  the route of a request with, and the table of the tables by name, which a key may name in its own list
  of routes. An entry is a route, a route with placeholders in braces, or a prefix with a final star. The
  routes of \<^verbatim>\<open>KeyManagementRoutes\<close> are written out.
\<close>

definition openai_route_names :: "string list" where
  "openai_route_names = [
     ''chat_completion'', ''completion'', ''embeddings'', ''image_generation'', ''video_generation'',
     ''audio_transcriptions'', ''moderations'', ''model_list'']"

definition openai_routes :: "string list" where
  "openai_routes = [
     ''/engines/{model}/chat/completions'', ''/openai/deployments/{model}/chat/completions'',
     ''/chat/completions'', ''/v1/chat/completions'', ''/cursor/chat/completions'',
     ''/engines/{model}/completions'', ''/openai/deployments/{model}/completions'', ''/completions'',
     ''/v1/completions'', ''/engines/{model}/embeddings'', ''/openai/deployments/{model}/embeddings'',
     ''/embeddings'', ''/v1/embeddings'', ''/images/generations'', ''/v1/images/generations'',
     ''/images/edits'', ''/v1/images/edits'', ''/videos'', ''/v1/videos'', ''/videos/{video_id}'',
     ''/v1/videos/{video_id}'', ''/videos/{video_id}/content'', ''/v1/videos/{video_id}/content'',
     ''/videos/{video_id}/remix'', ''/v1/videos/{video_id}/remix'', ''/audio/transcriptions'',
     ''/v1/audio/transcriptions'', ''/audio/speech'', ''/v1/audio/speech'', ''/moderations'',
     ''/v1/moderations'', ''/v1/batches'', ''/batches'', ''/v1/batches/{batch_id}'', ''/batches/{batch_id}'',
     ''/v1/batches/{batch_id}/cancel'', ''/batches/{batch_id}/cancel'', ''/v1/files'', ''/files'',
     ''/v1/files/{file_id}'', ''/files/{file_id}'', ''/v1/files/{file_id}/content'',
     ''/files/{file_id}/content'', ''/fine_tuning/jobs'', ''/v1/fine_tuning/jobs'',
     ''/fine_tuning/jobs/{fine_tuning_job_id}/cancel'', ''/v1/fine_tuning/jobs/{fine_tuning_job_id}/cancel'',
     ''/assistants'', ''/v1/assistants'', ''/v1/assistants/{assistant_id}'', ''/assistants/{assistant_id}'',
     ''/threads'', ''/v1/threads'', ''/threads/{thread_id}'', ''/v1/threads/{thread_id}'',
     ''/threads/{thread_id}/messages'', ''/v1/threads/{thread_id}/messages'', ''/threads/{thread_id}/runs'',
     ''/v1/threads/{thread_id}/runs'', ''/models'', ''/v1/models'', ''/utils/token_counter'',
     ''/utils/transform_request'', ''/rerank'', ''/v1/rerank'', ''/v2/rerank'', ''/realtime'',
     ''/v1/realtime'', ''/realtime?{model}'', ''/v1/realtime?{model}'', ''/responses'', ''/v1/responses'',
     ''/responses/{response_id}'', ''/v1/responses/{response_id}'', ''/responses/{response_id}/input_items'',
     ''/v1/responses/{response_id}/input_items'', ''/responses/{response_id}/cancel'',
     ''/v1/responses/{response_id}/cancel'', ''/vector_stores'', ''/v1/vector_stores'',
     ''/vector_stores/{vector_store_id}/search'', ''/v1/vector_stores/{vector_store_id}/search'',
     ''/vector_stores/{vector_store_id}/files'', ''/v1/vector_stores/{vector_store_id}/files'',
     ''/vector_stores/{vector_store_id}/files/{file_id}'',
     ''/v1/vector_stores/{vector_store_id}/files/{file_id}'',
     ''/vector_stores/{vector_store_id}/files/{file_id}/content'',
     ''/v1/vector_stores/{vector_store_id}/files/{file_id}/content'', ''/vector_store/list'',
     ''/v1/vector_store/list'', ''/search'', ''/v1/search'', ''/search/{search_tool_name}'',
     ''/v1/search/{search_tool_name}'', ''/ocr'', ''/v1/ocr'', ''/containers'', ''/v1/containers'',
     ''/containers/*'', ''/v1/containers/*'']"

definition mapped_pass_through_routes :: "string list" where
  "mapped_pass_through_routes = [
     ''/bedrock'', ''/vertex-ai'', ''/vertex_ai'', ''/cohere'', ''/cursor'', ''/gemini'', ''/anthropic'',
     ''/langfuse'', ''/azure'', ''/azure_ai'', ''/openai'', ''/openai_passthrough'', ''/assemblyai'',
     ''/eu.assemblyai'', ''/vllm'', ''/mistral'', ''/milvus'']"

definition passthrough_routes_wildcard :: "string list" where
  "passthrough_routes_wildcard = map (\<lambda>r. r @ ''/*'') mapped_pass_through_routes"

definition litellm_native_routes :: "string list" where
  "litellm_native_routes = [
     ''/rag/ingest'', ''/v1/rag/ingest'', ''/rag/query'', ''/v1/rag/query'']"

definition anthropic_routes :: "string list" where
  "anthropic_routes = [
     ''/v1/messages'', ''/v1/messages/count_tokens'', ''/v1/skills'', ''/v1/skills/{skill_id}'']"

definition mcp_routes :: "string list" where
  "mcp_routes = [
     ''/mcp'', ''/mcp/'', ''/mcp/{subpath}'', ''/mcp/tools'', ''/mcp/tools/list'', ''/mcp/tools/call'',
     ''/mcp-rest/tools/list'', ''/mcp-rest/tools/call'', ''/v1/mcp/server'']"

definition agent_routes :: "string list" where
  "agent_routes = [
     ''/v1/agents'', ''/v1/agents/{agent_id}'', ''/agents'', ''/a2a/{agent_id}'',
     ''/a2a/{agent_id}/message/send'', ''/a2a/{agent_id}/message/stream'',
     ''/a2a/{agent_id}/.well-known/agent-card.json'']"

definition google_routes :: "string list" where
  "google_routes = [
     ''/v1beta/models/{model_name:path}:countTokens'', ''/v1beta/models/{model_name:path}:generateContent'',
     ''/v1beta/models/{model_name:path}:streamGenerateContent'', ''/models/{model_name:path}:countTokens'',
     ''/models/{model_name:path}:generateContent'', ''/models/{model_name:path}:streamGenerateContent'',
     ''/interactions'', ''/v1beta/interactions'', ''/interactions/{interaction_id}'',
     ''/v1beta/interactions/{interaction_id}'', ''/interactions/{interaction_id}/cancel'',
     ''/v1beta/interactions/{interaction_id}/cancel'']"

definition apply_guardrail_routes :: "string list" where
  "apply_guardrail_routes = [
     ''/guardrails/apply_guardrail'']"

definition llm_api_routes :: "string list" where
  "llm_api_routes = openai_routes @ anthropic_routes @ google_routes @ mapped_pass_through_routes @ passthrough_routes_wildcard @ apply_guardrail_routes @ mcp_routes @ litellm_native_routes @ agent_routes"

definition info_routes :: "string list" where
  "info_routes = [
     ''/key/info'', ''/key/health'', ''/team/info'', ''/team/list'', ''/v2/team/list'',
     ''/organization/list'', ''/team/available'', ''/user/info'', ''/model/info'', ''/v1/model/info'',
     ''/v2/model/info'', ''/v2/key/info'', ''/model_group/info'', ''/health'', ''/key/list'',
     ''/user/filter/ui'', ''/models'', ''/v1/models'']"

definition master_key_only_routes :: "string list" where
  "master_key_only_routes = [
     ''/global/spend/reset'', ''/memory-usage-in-mem-cache'', ''/memory-usage-in-mem-cache-items'']"

definition key_management_routes :: "string list" where
  "key_management_routes = [
     ''/key/generate'', ''/key/update'', ''/key/delete'', ''/key/info'', ''/key/regenerate'',
     ''/key/service-account/generate'', ''/key/{key_id}/regenerate'', ''/key/list'', ''/key/block'',
     ''/key/unblock'', ''/key/bulk_update'', ''/team/daily/activity'', ''/key/{key_id}/reset_spend'',
     ''/key/aliases'']"

definition management_routes :: "string list" where
  "management_routes = [
     ''/user/new'', ''/user/update'', ''/user/delete'', ''/user/info'', ''/user/list'',
     ''/user/daily/activity'', ''/user/daily/activity/aggregated'', ''/team/new'', ''/team/update'',
     ''/team/delete'', ''/team/list'', ''/v2/team/list'', ''/team/info'', ''/team/block'', ''/team/unblock'',
     ''/team/available'', ''/team/permissions_list'', ''/team/permissions_update'', ''/team/daily/activity'',
     ''/model/new'', ''/model/update'', ''/model/delete'', ''/model/info'', ''/jwt/key/mapping/new'',
     ''/jwt/key/mapping/update'', ''/jwt/key/mapping/delete'', ''/jwt/key/mapping/list'',
     ''/jwt/key/mapping/info''] @ key_management_routes"

definition spend_tracking_routes :: "string list" where
  "spend_tracking_routes = [
     ''/spend/keys'', ''/spend/users'', ''/spend/tags'', ''/spend/calculate'', ''/spend/logs'',
     ''/cost/estimate'']"

definition global_spend_tracking_routes :: "string list" where
  "global_spend_tracking_routes = [
     ''/global/spend/logs'', ''/global/spend'', ''/global/spend/keys'', ''/global/spend/teams'',
     ''/global/spend/end_users'', ''/global/spend/models'', ''/global/predict/spend/logs'',
     ''/global/spend/report'', ''/global/spend/provider'', ''/global/spend/tags'']"

definition public_routes :: "string list" where
  "public_routes = [
     ''/routes'', ''/'', ''/health/liveliness'', ''/health/liveness'', ''/health/readiness'', ''/test'',
     ''/config/yaml'', ''/metrics'', ''/litellm/.well-known/litellm-ui-config'',
     ''/.well-known/litellm-ui-config'', ''/public/model_hub'', ''/public/agent_hub'', ''/public/mcp_hub'',
     ''/public/litellm_model_cost_map'']"

definition ui_routes :: "string list" where
  "ui_routes = [
     ''/sso'', ''/sso/get/ui_settings'', ''/get/ui_settings'', ''/login'', ''/key/info'', ''/config'',
     ''/spend'', ''/model/info'', ''/v2/model/info'', ''/v2/key/info'', ''/models'', ''/v1/models'',
     ''/global/spend'', ''/global/spend/logs'', ''/global/spend/keys'', ''/global/spend/models'',
     ''/global/spend/tags'', ''/global/predict/spend/logs'', ''/global/activity'', ''/health/services''] @ info_routes"

definition internal_user_routes :: "string list" where
  "internal_user_routes = [
     ''/global/spend/tags'', ''/global/spend/keys'', ''/global/spend/models'', ''/global/spend/provider'',
     ''/global/spend/end_users'', ''/global/activity'', ''/global/activity/model'',
     ''/v1/models/{model_id}'', ''/models/{model_id}'', ''/guardrails/list'', ''/v2/guardrails/list''] @ spend_tracking_routes @ key_management_routes"

definition internal_user_view_only_routes :: "string list" where
  "internal_user_view_only_routes = spend_tracking_routes @ global_spend_tracking_routes"

definition self_managed_routes :: "string list" where
  "self_managed_routes = [
     ''/team/member_add'', ''/team/member_delete'', ''/team/member_update'', ''/team/permissions_list'',
     ''/team/permissions_update'', ''/team/daily/activity'', ''/model/new'', ''/model/update'',
     ''/model/delete'', ''/user/daily/activity'', ''/user/available_roles'', ''/user/list'',
     ''/model/{model_id}/update'', ''/prompt/list'', ''/prompt/info'', ''/invitation/new'',
     ''/invitation/delete'', ''/guardrails/register'']"

definition org_admin_only_routes :: "string list" where
  "org_admin_only_routes = [
     ''/organization/info'', ''/organization/delete'', ''/organization/member_add'',
     ''/organization/member_update'']"

definition admin_viewer_routes :: "string list" where
  "admin_viewer_routes = [
     ''/user/list'', ''/user/available_users'', ''/user/available_roles'', ''/user/daily/activity'',
     ''/team/daily/activity'', ''/tag/daily/activity'', ''/tag/list'', ''/audit'', ''/audit/{id}''] @ info_routes"

definition org_admin_allowed_routes :: "string list" where
  "org_admin_allowed_routes = org_admin_only_routes @ management_routes @ self_managed_routes @ admin_viewer_routes"

definition LiteLLMRoutes :: "(string \<times> string list) list" where
  "LiteLLMRoutes = [
     (''openai_route_names'', openai_route_names),
     (''openai_routes'', openai_routes),
     (''mapped_pass_through_routes'', mapped_pass_through_routes),
     (''passthrough_routes_wildcard'', passthrough_routes_wildcard),
     (''litellm_native_routes'', litellm_native_routes),
     (''anthropic_routes'', anthropic_routes),
     (''mcp_routes'', mcp_routes),
     (''agent_routes'', agent_routes),
     (''google_routes'', google_routes),
     (''apply_guardrail_routes'', apply_guardrail_routes),
     (''llm_api_routes'', llm_api_routes),
     (''info_routes'', info_routes),
     (''master_key_only_routes'', master_key_only_routes),
     (''key_management_routes'', key_management_routes),
     (''management_routes'', management_routes),
     (''spend_tracking_routes'', spend_tracking_routes),
     (''global_spend_tracking_routes'', global_spend_tracking_routes),
     (''public_routes'', public_routes),
     (''ui_routes'', ui_routes),
     (''internal_user_routes'', internal_user_routes),
     (''internal_user_view_only_routes'', internal_user_view_only_routes),
     (''self_managed_routes'', self_managed_routes),
     (''org_admin_only_routes'', org_admin_only_routes),
     (''admin_viewer_routes'', admin_viewer_routes),
     (''org_admin_allowed_routes'', org_admin_allowed_routes)]"

end
