(* ===== verification/PolicyMatch.thy ===== *)
theory PolicyMatch
  imports PyText
begin

text \<open>
  The part of the policy engine that decides which policies apply to a request:
  \<^verbatim>\<open>types/proxy/policy_engine/policy_types.py\<close>, \<^verbatim>\<open>condition_evaluator.py\<close>,
  \<^verbatim>\<open>policy_matcher.py\<close> and the in-memory half of \<^verbatim>\<open>attachment_registry.py\<close>. The answer
  of \<^verbatim>\<open>re.fullmatch\<close> is a parameter, \<^term>\<open>None\<close> standing for \<^verbatim>\<open>re.error\<close>.
\<close>

subsection \<open>Types\<close>

record PolicyMatchContext =
  team_alias :: "string option"
  key_alias :: "string option"
  ctx_model :: "string option"
  ctx_tags :: "string list option"

datatype model_condition = OneModel string | ManyModels "string list"

record PolicyCondition =
  cond_model :: "model_condition option"

record PolicyScope =
  scope_teams :: "string list option"
  scope_keys :: "string list option"
  scope_models :: "string list option"
  scope_tags :: "string list option"

definition or_list :: "string list option \<Rightarrow> string list \<Rightarrow> string list" where
  "or_list x d = (case x of Some (y # ys) \<Rightarrow> y # ys | _ \<Rightarrow> d)"

definition get_teams :: "PolicyScope \<Rightarrow> string list" where
  "get_teams s = or_list (scope_teams s) [''*'']"

definition get_keys :: "PolicyScope \<Rightarrow> string list" where
  "get_keys s = or_list (scope_keys s) [''*'']"

definition get_models :: "PolicyScope \<Rightarrow> string list" where
  "get_models s = or_list (scope_models s) [''*'']"

definition get_tags :: "PolicyScope \<Rightarrow> string list" where
  "get_tags s = or_list (scope_tags s) []"

record PolicyAttachment =
  att_policy :: string
  att_scope :: "string option"
  att_teams :: "string list option"
  att_keys :: "string list option"
  att_models :: "string list option"
  att_tags :: "string list option"

definition is_global :: "PolicyAttachment \<Rightarrow> bool" where
  "is_global a \<longleftrightarrow> att_scope a = Some ''*''"

definition to_policy_scope :: "PolicyAttachment \<Rightarrow> PolicyScope" where
  "to_policy_scope a =
     (if is_global a
      then \<lparr>scope_teams = Some [''*''], scope_keys = Some [''*''], scope_models = Some [''*''], scope_tags = None\<rparr>
      else \<lparr>scope_teams = att_teams a, scope_keys = att_keys a, scope_models = att_models a,
            scope_tags = att_tags a\<rparr>)"

subsection \<open>Conditions\<close>

definition cond_matches_pattern :: "(string \<Rightarrow> string \<Rightarrow> bool option) \<Rightarrow> string \<Rightarrow> string \<Rightarrow> bool" where
  "cond_matches_pattern fullmatch pattern value =
     (if pattern = value then True
      else case fullmatch pattern value of None \<Rightarrow> False | Some b \<Rightarrow> b)"

definition evaluate_model_condition ::
  "(string \<Rightarrow> string \<Rightarrow> bool option) \<Rightarrow> model_condition \<Rightarrow> string option \<Rightarrow> bool" where
  "evaluate_model_condition fullmatch condition model =
     (case model of
        None \<Rightarrow> False
      | Some m \<Rightarrow>
        (case condition of
           ManyModels ps \<Rightarrow> list_ex (\<lambda>p. cond_matches_pattern fullmatch p m) ps
         | OneModel p \<Rightarrow> cond_matches_pattern fullmatch p m))"

definition evaluate ::
  "(string \<Rightarrow> string \<Rightarrow> bool option) \<Rightarrow> PolicyCondition option \<Rightarrow> PolicyMatchContext \<Rightarrow> bool" where
  "evaluate fullmatch condition context =
     (case condition of
        None \<Rightarrow> True
      | Some c \<Rightarrow>
        (case cond_model c of
           None \<Rightarrow> True
         | Some mc \<Rightarrow> evaluate_model_condition fullmatch mc (ctx_model context)))"

subsection \<open>Scopes\<close>

definition route_matches_wildcard_pattern :: "string \<Rightarrow> string \<Rightarrow> bool" where
  "route_matches_wildcard_pattern route pattern =
     (if ends_with ''*'' pattern then starts_with (butlast pattern) route else route = pattern)"

definition matches_pattern :: "string option \<Rightarrow> string list \<Rightarrow> bool" where
  "matches_pattern value patterns =
     (case value of
        None \<Rightarrow> ''*'' \<in> set patterns
      | Some v \<Rightarrow> list_ex (route_matches_wildcard_pattern v) patterns)"

definition scope_matches :: "PolicyScope \<Rightarrow> PolicyMatchContext \<Rightarrow> bool" where
  "scope_matches scope context =
     (if \<not> matches_pattern (team_alias context) (get_teams scope) then False
      else if \<not> matches_pattern (key_alias context) (get_keys scope) then False
      else if \<not> matches_pattern (ctx_model context) (get_models scope) then False
      else if get_tags scope \<noteq> [] then
        (case ctx_tags context of
           Some (t # ts) \<Rightarrow> list_ex (\<lambda>tag. matches_pattern (Some tag) (get_tags scope)) (t # ts)
         | _ \<Rightarrow> False)
      else True)"

subsection \<open>Attachments\<close>

record attachment_registry =
  attachments :: "PolicyAttachment list"
  att_initialized :: bool

definition attachment_registry_init :: attachment_registry where
  "attachment_registry_init = \<lparr>attachments = [], att_initialized = False\<rparr>"

text \<open>The model's validation of a field: a string, or a list of strings, or \<^verbatim>\<open>None\<close>.\<close>

definition opt_str :: "pyval option \<Rightarrow> string option option" where
  "opt_str v = (case v of None \<Rightarrow> Some None | Some PNone \<Rightarrow> Some None | Some (PStr s) \<Rightarrow> Some (Some s) | _ \<Rightarrow> None)"

fun all_strs :: "pyval list \<Rightarrow> string list option" where
  "all_strs [] = Some []"
| "all_strs (PStr s # vs) = map_option (Cons s) (all_strs vs)"
| "all_strs (_ # vs) = None"

definition opt_strs :: "pyval option \<Rightarrow> string list option option" where
  "opt_strs v =
     (case v of
        None \<Rightarrow> Some None
      | Some PNone \<Rightarrow> Some None
      | Some (PList vs) \<Rightarrow> map_option Some (all_strs vs)
      | Some (PTuple vs) \<Rightarrow> map_option Some (all_strs vs)
      | _ \<Rightarrow> None)"

definition parse_attachment :: "(string \<times> pyval) list \<Rightarrow> PolicyAttachment option" where
  "parse_attachment d =
     (case (opt_str (Some (dict_get d ''policy'' (PStr []))), opt_str (map_of d ''scope''),
            opt_strs (map_of d ''teams''), opt_strs (map_of d ''keys''),
            opt_strs (map_of d ''models''), opt_strs (map_of d ''tags'')) of
        (Some (Some p), Some s, Some t, Some k, Some m, Some g) \<Rightarrow>
          Some \<lparr>att_policy = p, att_scope = s, att_teams = t, att_keys = k, att_models = m, att_tags = g\<rparr>
      | _ \<Rightarrow> None)"

fun load_loop :: "(string \<times> pyval) list list \<Rightarrow> attachment_registry \<Rightarrow> unit pyres \<times> attachment_registry" where
  "load_loop [] r = (Inr (), r\<lparr>att_initialized := True\<rparr>)"
| "load_loop (d # ds) r =
     (case parse_attachment d of
        None \<Rightarrow> (Inl ValueError, r)
      | Some a \<Rightarrow> load_loop ds (r\<lparr>attachments := attachments r @ [a]\<rparr>))"

definition load_attachments ::
  "(string \<times> pyval) list list \<Rightarrow> attachment_registry \<Rightarrow> unit pyres \<times> attachment_registry" where
  "load_attachments config r = load_loop config (r\<lparr>attachments := []\<rparr>)"

definition nonempty_str :: "string option \<Rightarrow> bool" where
  "nonempty_str s \<longleftrightarrow> s \<noteq> None \<and> s \<noteq> Some []"

definition describe_match_reason :: "PolicyAttachment \<Rightarrow> PolicyMatchContext \<Rightarrow> string" where
  "describe_match_reason a c =
     (if is_global a then ''scope:*''
      else let tags = filter (\<lambda>t. matches_pattern (Some t) (or_list (att_tags a) [])) (or_list (ctx_tags c) []);
               reasons =
                 (if or_list (att_tags a) [] \<noteq> [] \<and> tags \<noteq> [] then [''tag:'' @ hd tags] else []) @
                 (if or_list (att_teams a) [] \<noteq> [] \<and> nonempty_str (team_alias c)
                  then [''team:'' @ the (team_alias c)] else []) @
                 (if or_list (att_keys a) [] \<noteq> [] \<and> nonempty_str (key_alias c)
                  then [''key:'' @ the (key_alias c)] else []) @
                 (if or_list (att_models a) [] \<noteq> [] \<and> nonempty_str (ctx_model c)
                  then [''model:'' @ the (ctx_model c)] else []) in
        if reasons \<noteq> [] then join_with ''+'' reasons else ''scope:default'')"

text \<open>The loop of \<^verbatim>\<open>get_attached_policies_with_reasons\<close>: each policy once, at its first match.\<close>

fun attached_loop :: "PolicyAttachment list \<Rightarrow> PolicyMatchContext \<Rightarrow> string list \<Rightarrow> (string \<times> string) list" where
  "attached_loop [] c seen = []"
| "attached_loop (a # as) c seen =
     (if scope_matches (to_policy_scope a) c \<and> att_policy a \<notin> set seen
      then (att_policy a, describe_match_reason a c) # attached_loop as c (att_policy a # seen)
      else attached_loop as c seen)"

definition get_attached_policies_with_reasons ::
  "attachment_registry \<Rightarrow> PolicyMatchContext \<Rightarrow> (string \<times> string) list" where
  "get_attached_policies_with_reasons r c = attached_loop (attachments r) c []"

definition get_attached_policies :: "attachment_registry \<Rightarrow> PolicyMatchContext \<Rightarrow> string list" where
  "get_attached_policies r c = map fst (get_attached_policies_with_reasons r c)"

definition is_policy_attached :: "string \<Rightarrow> attachment_registry \<Rightarrow> PolicyMatchContext \<Rightarrow> bool" where
  "is_policy_attached p r c = (p \<in> set (get_attached_policies r c))"

definition get_attachments_for_policy :: "string \<Rightarrow> attachment_registry \<Rightarrow> PolicyAttachment list" where
  "get_attachments_for_policy p r = filter (\<lambda>a. att_policy a = p) (attachments r)"

definition attachments_clear :: "attachment_registry \<Rightarrow> attachment_registry" where
  "attachments_clear r = r\<lparr>attachments := [], att_initialized := False\<rparr>"

definition add_attachment :: "PolicyAttachment \<Rightarrow> attachment_registry \<Rightarrow> attachment_registry" where
  "add_attachment a r = r\<lparr>attachments := attachments r @ [a]\<rparr>"

definition remove_attachments_for_policy :: "string \<Rightarrow> attachment_registry \<Rightarrow> nat \<times> attachment_registry" where
  "remove_attachments_for_policy p r =
     (let kept = filter (\<lambda>a. att_policy a \<noteq> p) (attachments r) in
      (length (attachments r) - length kept, r\<lparr>attachments := kept\<rparr>))"

definition get_matching_policies :: "attachment_registry \<Rightarrow> PolicyMatchContext \<Rightarrow> string list" where
  "get_matching_policies r c = (if \<not> att_initialized r then [] else get_attached_policies r c)"

subsection \<open>Lemmas\<close>

lemma wildcard_spec:
  "route_matches_wildcard_pattern v p \<longleftrightarrow> v = p \<and> \<not> ends_with ''*'' p \<or> (\<exists>q t. p = q @ ''*'' \<and> v = q @ t)"
  by (auto simp: route_matches_wildcard_pattern_def ends_with_iff starts_with_iff)

lemma star_matches [simp]: "matches_pattern v [''*'']"
  by (cases v) (auto simp: matches_pattern_def route_matches_wildcard_pattern_def ends_with_iff)

lemma attached_loop_spec:
  "set (map fst (attached_loop as c seen)) =
     {p. p \<notin> set seen \<and> (\<exists>a \<in> set as. att_policy a = p \<and> scope_matches (to_policy_scope a) c)} \<and>
   distinct (map fst (attached_loop as c seen))"
proof (induction as arbitrary: seen)
  case (Cons a as)
  show ?case
    using Cons [of seen] Cons [of "att_policy a # seen"] by (auto simp del: set_map)
qed simp

lemma attached_set:
  "set (get_attached_policies r c) = {p. \<exists>a \<in> set (attachments r). att_policy a = p \<and> scope_matches (to_policy_scope a) c}"
  "distinct (get_attached_policies r c)"
  using attached_loop_spec [of "attachments r" c "[]"]
  by (simp_all add: get_attached_policies_def get_attached_policies_with_reasons_def)

subsection \<open>Properties\<close>

text \<open>
  The policies attached to a request are exactly those with an attachment whose scope
  matches: every field that the attachment names has a pattern that the request's value equals, or
  starts with before a final star; no policy is listed twice, and a global attachment always applies.
\<close>

lemma attached_policies_exact:
  "set (get_attached_policies r c) = {p. \<exists>a \<in> set (attachments r). att_policy a = p \<and> (is_global a \<or>
      matches_pattern (team_alias c) (or_list (att_teams a) [''*'']) \<and>
      matches_pattern (key_alias c) (or_list (att_keys a) [''*'']) \<and>
      matches_pattern (ctx_model c) (or_list (att_models a) [''*'']) \<and>
      (or_list (att_tags a) [] = [] \<or>
       (\<exists>t \<in> set (or_list (ctx_tags c) []). matches_pattern (Some t) (or_list (att_tags a) []))))} \<and>
   distinct (get_attached_policies r c)"
proof -
  have glob: "scope_matches (to_policy_scope a) c" if "is_global a" for a
    using that by (simp add: scope_matches_def to_policy_scope_def get_teams_def get_keys_def get_models_def
        get_tags_def or_list_def)
  have local: "scope_matches (to_policy_scope a) c \<longleftrightarrow>
      matches_pattern (team_alias c) (or_list (att_teams a) [''*'']) \<and>
      matches_pattern (key_alias c) (or_list (att_keys a) [''*'']) \<and>
      matches_pattern (ctx_model c) (or_list (att_models a) [''*'']) \<and>
      (or_list (att_tags a) [] = [] \<or>
       (\<exists>t \<in> set (or_list (ctx_tags c) []). matches_pattern (Some t) (or_list (att_tags a) [])))" if "\<not> is_global a" for a
    using that
    by (auto simp: scope_matches_def to_policy_scope_def get_teams_def get_keys_def get_models_def get_tags_def
        list_ex_iff or_list_def [of "ctx_tags c"] split: option.split list.split)
  show ?thesis using attached_set [of r c] glob local by blast
qed

end
