(* ===== verification/RouteMatch.thy ===== *)
theory RouteMatch
  imports PolicyMatch "HOL-Library.Sublist"
begin

text \<open>
  How \<^verbatim>\<open>RouteChecks\<close> of \<^verbatim>\<open>proxy/auth/route_checks.py\<close> compares a route with an entry of a table: a prefix up to
  a final star, a path at or below an allowed route, and an expression with placeholders. The expression
  is the entry with the placeholders replaced and nothing escaped, so a dot stands for any character and a
  star or a question mark repeats what is before it. Other special characters, which no table of the proxy
  has, are taken literally. The theory shows that an entry whose segments are names and placeholders
  is matched segment by segment, and that the paths allowed by a route are those that extend its segments.
\<close>

subsection \<open>Expressions\<close>

datatype char_class = This char | AnyBut char | NoNewline

datatype repeat = Once | AtMostOnce | AnyTimes | AtLeastOnce

type_synonym route_expr = "(char_class \<times> repeat) list"

fun in_class :: "char_class \<Rightarrow> char \<Rightarrow> bool" where
  "in_class (This c) x = (x = c)"
| "in_class (AnyBut c) x = (x \<noteq> c)"
| "in_class NoNewline x = (x \<noteq> CHR 0x0A)"

text \<open>A placeholder at the start of a pattern, and what is behind it.\<close>

definition placeholder :: "string \<Rightarrow> (string \<times> string) option" where
  "placeholder s =
     (case s of
        [] \<Rightarrow> None
      | c # t \<Rightarrow>
        let name = takeWhile (\<lambda>x. x \<noteq> CHR ''}'') t in
        if c = CHR ''{'' \<and> name \<noteq> [] \<and> length name < length t then Some (name, drop (Suc (length name)) t) else None)"

lemma placeholder_shorter: "placeholder s = Some (name, t) \<Longrightarrow> length t < length s"
  by (auto simp: placeholder_def Let_def split: list.splits if_splits)

definition placeholder_to_regex :: "string \<Rightarrow> char_class \<times> repeat" where
  "placeholder_to_regex name = (AnyBut (if ends_with '':path'' name then CHR '':'' else CHR ''/''), AtLeastOnce)"

function route_expr :: "string \<Rightarrow> route_expr" where
  "route_expr [] = []"
| "route_expr (c # s) =
     (case placeholder (c # s) of
        Some (name, t) \<Rightarrow> placeholder_to_regex name # route_expr t
      | None \<Rightarrow>
        (let k = (if c = CHR ''.'' then NoNewline else This c) in
         case s of
           [] \<Rightarrow> [(k, Once)]
         | q # t \<Rightarrow>
           if q = CHR ''*'' then (k, AnyTimes) # route_expr t
           else if q = CHR ''?'' then (k, AtMostOnce) # route_expr t
           else (k, Once) # route_expr s))"
  by pat_completeness auto
termination
  by (relation "measure length") (auto dest: placeholder_shorter)

fun matches_all :: "route_expr \<Rightarrow> string \<Rightarrow> bool" where
  "matches_all [] s = (s = [])"
| "matches_all ((k, Once) # g) s = (case s of [] \<Rightarrow> False | x # t \<Rightarrow> in_class k x \<and> matches_all g t)"
| "matches_all ((k, AtMostOnce) # g) s =
     (matches_all g s \<or> (case s of [] \<Rightarrow> False | x # t \<Rightarrow> in_class k x \<and> matches_all g t))"
| "matches_all ((k, AnyTimes) # g) s =
     (matches_all g s \<or> (case s of [] \<Rightarrow> False | x # t \<Rightarrow> in_class k x \<and> matches_all ((k, AnyTimes) # g) t))"
| "matches_all ((k, AtLeastOnce) # g) s =
     (case s of [] \<Rightarrow> False | x # t \<Rightarrow> in_class k x \<and> matches_all ((k, AnyTimes) # g) t)"

text \<open>The match is anchored; \<^verbatim>\<open>$\<close> also matches before a newline at the end.\<close>

definition route_matches_pattern :: "string \<Rightarrow> string \<Rightarrow> bool" where
  "route_matches_pattern route pattern =
     (let g = route_expr pattern in
      matches_all g route \<or> (ends_with [CHR 0x0A] route \<and> matches_all g (butlast route)))"

subsection \<open>Tables\<close>

definition route_is_wildcard_pattern :: "string \<Rightarrow> bool" where
  "route_is_wildcard_pattern pattern = ends_with ''*'' pattern"

definition route_matches_allowed_route :: "string \<Rightarrow> string \<Rightarrow> bool" where
  "route_matches_allowed_route route allowed_route =
     (if route = allowed_route then True else starts_with (allowed_route @ ''/'') route)"

definition check_route_access :: "string \<Rightarrow> string list \<Rightarrow> bool" where
  "check_route_access route allowed_routes =
     (if route \<in> set allowed_routes then True
      else if list_ex (route_matches_wildcard_pattern route) (filter route_is_wildcard_pattern allowed_routes) then True
      else list_ex (route_matches_pattern route) allowed_routes)"

subsection \<open>Matching by segments\<close>

text \<open>The segments of a path, and an entry whose segments are names and placeholders.\<close>

abbreviation segments :: "string \<Rightarrow> string list" where
  "segments path \<equiv> split_on (CHR ''/'') path"

definition is_placeholder :: "string \<Rightarrow> bool" where
  "is_placeholder p \<longleftrightarrow> (case placeholder p of Some (_, []) \<Rightarrow> True | _ \<Rightarrow> False)"

definition special_chars :: string where
  "special_chars = CHR 0x5C # ''^$+?{}[]|().*''"

definition plain_segment :: "string \<Rightarrow> bool" where
  "plain_segment p \<longleftrightarrow>
     is_placeholder p \<and> \<not> ends_with '':path}'' p \<or> list_all (\<lambda>c. c \<notin> set special_chars) p"

definition segment_matches :: "string \<Rightarrow> string \<Rightarrow> bool" where
  "segment_matches p s = (if is_placeholder p then s \<noteq> [] else s = p)"

definition segment_expr :: "string \<Rightarrow> route_expr" where
  "segment_expr p = (if is_placeholder p then [(AnyBut (CHR ''/''), AtLeastOnce)] else map (\<lambda>c. (This c, Once)) p)"

lemma placeholder_some_iff:
  "placeholder s = Some (name, t) \<longleftrightarrow> s = CHR ''{'' # name @ CHR ''}'' # t \<and> name \<noteq> [] \<and> CHR ''}'' \<notin> set name"
proof
  assume "placeholder s = Some (name, t)"
  then obtain u where s: "s = CHR ''{'' # u" and n: "name = takeWhile (\<lambda>x. x \<noteq> CHR ''}'') u" "name \<noteq> []" "length name < length u"
    and t: "t = drop (Suc (length name)) u"
    by (auto simp: placeholder_def Let_def split: list.splits if_splits)
  have "u ! length name = CHR ''}''" using nth_length_takeWhile [of "\<lambda>x. x \<noteq> CHR ''}''" u] n by simp
  then have "u = name @ CHR ''}'' # t"
    using id_take_nth_drop [OF n(3)] takeWhile_eq_take [of "\<lambda>x. x \<noteq> CHR ''}''" u] n(1) t by simp
  then show "s = CHR ''{'' # name @ CHR ''}'' # t \<and> name \<noteq> [] \<and> CHR ''}'' \<notin> set name"
    using s n(1,2) by (auto dest: set_takeWhileD)
next
  assume "s = CHR ''{'' # name @ CHR ''}'' # t \<and> name \<noteq> [] \<and> CHR ''}'' \<notin> set name"
  moreover from this have "takeWhile (\<lambda>x. x \<noteq> CHR ''}'') (name @ CHR ''}'' # t) = name"
    by (subst takeWhile_append2) auto
  ultimately show "placeholder s = Some (name, t)" by (simp add: placeholder_def Let_def)
qed

lemma is_placeholder_iff:
  "is_placeholder p \<longleftrightarrow> (\<exists>name. p = CHR ''{'' # name @ ''}'' \<and> name \<noteq> [] \<and> CHR ''}'' \<notin> set name)"
  by (auto simp: is_placeholder_def placeholder_some_iff split: option.splits list.splits)
     (metis list.distinct(1) not_None_eq option.inject placeholder_some_iff prod.inject surj_pair)+

lemma route_expr_literal:
  assumes "list_all (\<lambda>c. c \<notin> set special_chars) p" "t = [] \<or> hd t \<notin> {CHR ''*'', CHR ''?''}"
  shows "route_expr (p @ t) = map (\<lambda>c. (This c, Once)) p @ route_expr t"
  using assms(1)
proof (induction p)
  case (Cons c p)
  have c: "c \<noteq> CHR ''{''" "c \<noteq> CHR ''.''" using Cons.prems by (auto simp: special_chars_def)
  then have "placeholder (c # p @ t) = None" by (simp add: placeholder_def Let_def)
  moreover have "p @ t = [] \<or> hd (p @ t) \<notin> {CHR ''*'', CHR ''?''}"
    using Cons.prems assms(2) by (cases p) (auto simp: special_chars_def)
  ultimately show ?case using Cons c(2) by (cases "p @ t") auto
qed simp

lemma route_expr_segment:
  assumes "plain_segment p" "t = [] \<or> hd t = CHR ''/''"
  shows "route_expr (p @ t) = segment_expr p @ route_expr t"
proof (cases "is_placeholder p")
  case True
  then obtain name where p: "p = CHR ''{'' # name @ ''}''" "name \<noteq> []" "CHR ''}'' \<notin> set name"
    by (auto simp: is_placeholder_iff)
  then have "placeholder (p @ t) = Some (name, t)" by (simp add: placeholder_some_iff)
  moreover have "\<not> ends_with '':path'' name"
    using True assms(1) p by (auto simp: plain_segment_def ends_with_iff special_chars_def)
  ultimately show ?thesis using p(1) True by (simp add: segment_expr_def placeholder_to_regex_def)
next
  case False
  then have "list_all (\<lambda>c. c \<notin> set special_chars) p" using assms(1) by (simp add: plain_segment_def)
  with False assms(2) show ?thesis using route_expr_literal [of p t] by (auto simp: segment_expr_def)
qed

lemma matches_literal:
  "matches_all (map (\<lambda>c. (This c, Once)) p @ g) s \<longleftrightarrow> (\<exists>t. s = p @ t \<and> matches_all g t)"
  by (induction p arbitrary: s) (auto split: list.splits)

lemma matches_any_times:
  "matches_all ((k, AnyTimes) # g) s \<longleftrightarrow> (\<exists>a t. s = a @ t \<and> (\<forall>c \<in> set a. in_class k c) \<and> matches_all g t)"
proof (induction s)
  case Nil
  then show ?case by simp
next
  case (Cons x s)
  show ?case
  proof
    assume "matches_all ((k, AnyTimes) # g) (x # s)"
    then consider "matches_all g (x # s)" | "in_class k x" "matches_all ((k, AnyTimes) # g) s" by auto
    then show "\<exists>a t. x # s = a @ t \<and> (\<forall>c \<in> set a. in_class k c) \<and> matches_all g t"
    proof cases
      case 1
      then show ?thesis by (intro exI [of _ "[]"] exI [of _ "x # s"]) simp
    next
      case 2
      then obtain a t where "s = a @ t" "\<forall>c \<in> set a. in_class k c" "matches_all g t" using Cons by auto
      then show ?thesis using 2(1) by (intro exI [of _ "x # a"] exI [of _ t]) simp
    qed
  next
    assume "\<exists>a t. x # s = a @ t \<and> (\<forall>c \<in> set a. in_class k c) \<and> matches_all g t"
    then obtain a t where a: "x # s = a @ t" "\<forall>c \<in> set a. in_class k c" "matches_all g t" by blast
    show "matches_all ((k, AnyTimes) # g) (x # s)"
    proof (cases a)
      case Nil
      then show ?thesis using a by simp
    next
      case (Cons y b)
      then show ?thesis using a Cons.IH by auto
    qed
  qed
qed

lemma matches_segment:
  assumes "CHR ''/'' \<notin> set p"
  shows "matches_all (segment_expr p @ g) s \<longleftrightarrow>
    (\<exists>a t. s = a @ t \<and> CHR ''/'' \<notin> set a \<and> segment_matches p a \<and> matches_all g t)"
proof (cases "is_placeholder p")
  case True
  have "matches_all (segment_expr p @ g) s \<longleftrightarrow>
      (\<exists>x u. s = x # u \<and> x \<noteq> CHR ''/'' \<and> (\<exists>b t. u = b @ t \<and> CHR ''/'' \<notin> set b \<and> matches_all g t))"
    using True by (auto simp: segment_expr_def matches_any_times split: list.splits simp del: matches_all.simps(4))
  also have "\<dots> \<longleftrightarrow> (\<exists>a t. s = a @ t \<and> CHR ''/'' \<notin> set a \<and> a \<noteq> [] \<and> matches_all g t)"
    by (auto simp: neq_Nil_conv) (metis append_Cons list.set_intros(1) set_ConsD)+
  finally show ?thesis using True by (simp add: segment_matches_def)
next
  case False
  then show ?thesis using assms by (auto simp: segment_expr_def segment_matches_def matches_literal)
qed

lemma split_on_plain [simp]: "c \<notin> set a \<Longrightarrow> split_on c a = [a]"
  by (induction a) auto

lemma split_on_single: "split_on c s = [z] \<longleftrightarrow> s = z \<and> c \<notin> set z"
  using join_split [of c s] split_on_no_sep [of z c s] by auto

lemma split_on_Cons2:
  "split_on c s = a # w # ws \<longleftrightarrow> (\<exists>b. s = a @ c # b \<and> c \<notin> set a \<and> split_on c b = w # ws)"
proof
  assume l: "split_on c s = a # w # ws"
  have a: "c \<notin> set a" using split_on_no_sep [of a c s] l by simp
  have s: "s = a @ c # join_with [c] (w # ws)" using join_split [of c s] l by simp
  then have "split_on c (join_with [c] (w # ws)) = w # ws" using split_on_sep [OF a, of "join_with [c] (w # ws)"] l by simp
  then show "\<exists>b. s = a @ c # b \<and> c \<notin> set a \<and> split_on c b = w # ws" using s a by blast
qed (auto simp: split_on_sep)

lemma list_all2_split_on:
  "list_all2 P (p # q # ps) (split_on c s) \<longleftrightarrow>
    (\<exists>a b. s = a @ c # b \<and> c \<notin> set a \<and> P p a \<and> list_all2 P (q # ps) (split_on c b))"
proof
  assume "list_all2 P (p # q # ps) (split_on c s)"
  then obtain a w ws where "split_on c s = a # w # ws" "P p a" "list_all2 P (q # ps) (w # ws)"
    by (auto simp: list_all2_Cons1)
  moreover from this(1) obtain b where "s = a @ c # b" "c \<notin> set a" "split_on c b = w # ws"
    by (auto simp: split_on_Cons2)
  ultimately show "\<exists>a b. s = a @ c # b \<and> c \<notin> set a \<and> P p a \<and> list_all2 P (q # ps) (split_on c b)"
    by (intro exI [of _ a] exI [of _ b]) simp
qed (auto simp: split_on_sep)

lemma join_head:
  assumes "\<forall>p \<in> set (q # ps). plain_segment p"
  shows "join_with ''/'' (q # ps) = [] \<or> hd (join_with ''/'' (q # ps)) \<notin> {CHR ''*'', CHR ''?''}"
proof (cases q)
  case Nil
  then show ?thesis by (cases ps) auto
next
  case (Cons c r)
  then have "c \<notin> {CHR ''*'', CHR ''?''}" using assms by (auto simp: plain_segment_def is_placeholder_iff special_chars_def)
  then show ?thesis using Cons by (cases ps) auto
qed

lemma route_expr_join:
  assumes "ps \<noteq> []" "\<forall>p \<in> set ps. plain_segment p \<and> CHR ''/'' \<notin> set p"
  shows "matches_all (route_expr (join_with ''/'' ps)) s \<longleftrightarrow> list_all2 segment_matches ps (segments s)"
  using assms
proof (induction ps arbitrary: s rule: induct_list012)
  case 1
  then show ?case by simp
next
  case (2 p)
  have "matches_all (route_expr p) s \<longleftrightarrow> CHR ''/'' \<notin> set s \<and> segment_matches p s"
    using route_expr_segment [of p "[]"] matches_segment [of p "[]" s] 2 by auto
  also have "\<dots> \<longleftrightarrow> list_all2 segment_matches [p] (segments s)"
    by (auto simp: list_all2_Cons1 split_on_single)
  finally show ?case by simp
next
  case (3 p q ps)
  let ?rest = "join_with ''/'' (q # ps)"
  have "route_expr (CHR ''/'' # ?rest) = (This (CHR ''/''), Once) # route_expr ?rest"
    using route_expr_literal [of "''/''" ?rest] join_head [of q ps] 3(4) by (simp add: special_chars_def)
  then have e: "route_expr (join_with ''/'' (p # q # ps)) = segment_expr p @ (This (CHR ''/''), Once) # route_expr ?rest"
    using route_expr_segment [of p "CHR ''/'' # ?rest"] 3(4) by simp
  have "matches_all (route_expr (join_with ''/'' (p # q # ps))) s \<longleftrightarrow>
      (\<exists>a b. s = a @ CHR ''/'' # b \<and> CHR ''/'' \<notin> set a \<and> segment_matches p a \<and> matches_all (route_expr ?rest) b)"
    unfolding e using matches_segment [of p "(This (CHR ''/''), Once) # route_expr ?rest" s] 3(4)
    by (auto split: list.splits) (metis list.exhaust)+
  also have "\<dots> \<longleftrightarrow> (\<exists>a b. s = a @ CHR ''/'' # b \<and> CHR ''/'' \<notin> set a \<and> segment_matches p a \<and>
      list_all2 segment_matches (q # ps) (segments b))"
    using 3(2) 3(4) by simp
  also have "\<dots> \<longleftrightarrow> list_all2 segment_matches (p # q # ps) (segments s)"
    by (simp only: list_all2_split_on)
  finally show ?case .
qed

text \<open>What a route allows extends its segments.\<close>

lemma allowed_route_prefix: "route_matches_allowed_route route a \<longleftrightarrow> prefix (segments a) (segments route)"
proof -
  have "prefix (segments a) (segments route) \<longleftrightarrow> (\<exists>ws. segments route = segments a @ ws)" by (auto simp: prefix_def)
  also have "\<dots> \<longleftrightarrow> route = a \<or> (\<exists>t. route = a @ CHR ''/'' # t)"
  proof
    assume "\<exists>ws. segments route = segments a @ ws"
    then obtain ws where ws: "segments route = segments a @ ws" ..
    have j: "join_with ''/'' (xs @ ys) = (if ys = [] then join_with ''/'' xs else join_with ''/'' xs @ ''/'' @ join_with ''/'' ys)"
      if "xs \<noteq> []" for xs ys
      using that by (induction xs rule: induct_list012) (auto simp: neq_Nil_conv)
    show "route = a \<or> (\<exists>t. route = a @ CHR ''/'' # t)"
      using j [of "segments a" ws] join_split [of "CHR ''/''" route, unfolded ws] join_split [of "CHR ''/''" a] by (auto split: if_splits)
  next
    assume "route = a \<or> (\<exists>t. route = a @ CHR ''/'' # t)"
    moreover have "split_on c (x @ c # y) = split_on c x @ split_on c y" for c x y
      by (induction x) (auto split: list.splits)
    ultimately show "\<exists>ws. segments route = segments a @ ws" by auto
  qed
  finally show ?thesis by (auto simp: route_matches_allowed_route_def starts_with_iff)
qed

subsection \<open>Properties\<close>

text \<open>
  Property C17. An entry of a table whose segments are names and placeholders matches exactly the routes with
  as many segments, in which every name is the same and every placeholder stands for something that is
  not empty: a placeholder never reaches over a slash.
\<close>

theorem pattern_matches_by_segments:
  assumes "\<forall>p \<in> set (segments pattern). plain_segment p" "CHR 0x0A \<notin> set route"
  shows "route_matches_pattern route pattern \<longleftrightarrow> list_all2 segment_matches (segments pattern) (segments route)"
proof -
  have "\<forall>p \<in> set (segments pattern). plain_segment p \<and> CHR ''/'' \<notin> set p"
    using assms(1) split_on_no_sep by blast
  from route_expr_join [OF split_on_nonempty this]
  have "matches_all (route_expr pattern) route \<longleftrightarrow> list_all2 segment_matches (segments pattern) (segments route)"
    by (simp only: join_split)
  then show ?thesis using assms(2) by (auto simp: route_matches_pattern_def Let_def ends_with_iff)
qed

theorem pattern_matches_by_segments_witness:
  "route_matches_pattern ''/key/k1/regenerate'' ''/key/{key_id}/regenerate'' \<and>
   \<not> route_matches_pattern ''/key/a/b/regenerate'' ''/key/{key_id}/regenerate''"
proof -
  have p: "\<forall>p \<in> set (segments ''/key/{key_id}/regenerate''). plain_segment p" by code_simp
  have "list_all2 segment_matches (segments ''/key/{key_id}/regenerate'') (segments ''/key/k1/regenerate'')" by code_simp
  moreover have "\<not> list_all2 segment_matches (segments ''/key/{key_id}/regenerate'') (segments ''/key/a/b/regenerate'')" by code_simp
  ultimately show ?thesis
    using pattern_matches_by_segments [OF p, of "''/key/k1/regenerate''"] pattern_matches_by_segments [OF p, of "''/key/a/b/regenerate''"]
    by auto
qed

end
