(* ===== verification/Retries.thy ===== *)
theory Retries
  imports PyText Errors
begin

text \<open>
  The retries of the router: \<^verbatim>\<open>Router.async_function_with_retries\<close>,
  \<^verbatim>\<open>should_retry_this_error\<close>, \<^verbatim>\<open>_time_to_sleep_before_retry\<close> and
  \<^verbatim>\<open>_async_get_healthy_deployments\<close> of \<^verbatim>\<open>router.py\<close>, the back-off of \<^verbatim>\<open>utils.py\<close>, the retry
  policy of \<^verbatim>\<open>router_utils/get_retry_from_policy.py\<close> and the headers of
  \<^verbatim>\<open>router_utils/add_retry_fallback_headers.py\<close>. What the code does not control is an argument
  \<open>world\<close> over a state of any type: the call of the model, the deployments of a model group and those
  in cooldown, the clock, \<^verbatim>\<open>random.random()\<close>, sleeping, and the parser of HTTP dates of the
  standard library. A request is the dict of its keyword arguments without the metadata, which holds
  what is logged about the attempts; it has no retry policy and no mock flags of its own. The theory
  shows which errors are retried, how often and how long the waits are.
\<close>

subsection \<open>Data\<close>

record call_exc = exc +
  status_code :: "int option"
  exc_num_retries :: "int option" \<comment> \<open>attribute \<^verbatim>\<open>num_retries\<close>\<close>
  retry_after_header :: "string option option" \<comment> \<open>outer \<open>None\<close>: the exception has no response headers\<close>
  litellm_type :: bool \<comment> \<open>\<^verbatim>\<open>type(e) in litellm.LITELLM_EXCEPTION_TYPES\<close>\<close>

record response =
  is_base_model :: bool
  additional_headers :: "(string, int) dict"
  body :: string

record RetryPolicy =
  BadRequestErrorRetries :: "int option"
  AuthenticationErrorRetries :: "int option"
  TimeoutErrorRetries :: "int option"
  RateLimitErrorRetries :: "int option"
  ContentPolicyViolationErrorRetries :: "int option"

record retry_router =
  r_fallbacks :: pyval
  r_context_window_fallbacks :: pyval
  r_content_policy_fallbacks :: pyval
  r_retry_policy :: "RetryPolicy option"
  r_model_group_retry_policy :: "(string, RetryPolicy) dict option"
  r_retry_after :: rat
  r_max_fallbacks :: int

type_synonym kwargs = "(string, pyval) dict"

text \<open>What \<^verbatim>\<open>_common_checks_available_deployment\<close> finds for a model.\<close>

datatype available = DeploymentList "string list" | OneDeployment | NoModel

record 's world =
  w_call :: "kwargs \<Rightarrow> 's \<Rightarrow> (call_exc + response) \<times> 's"
  w_available :: "string \<Rightarrow> 's \<Rightarrow> available"
  w_cooling :: "'s \<Rightarrow> string list"
  w_clock :: "'s \<Rightarrow> rat"
  w_random :: "'s \<Rightarrow> rat"
  w_sleep :: "rat \<Rightarrow> 's \<Rightarrow> 's"
  w_http_date :: "string \<Rightarrow> rat option"

subsection \<open>Headers\<close>

definition add_headers_to_response :: "response \<Rightarrow> (string, int) dict \<Rightarrow> response" where
  "add_headers_to_response r headers =
     (if \<not> is_base_model r then r
      else r\<lparr>additional_headers := fold (\<lambda>(k, v). AList.update k v) headers (additional_headers r)\<rparr>)"

definition add_retry_headers_to_response :: "response \<Rightarrow> int \<Rightarrow> int option \<Rightarrow> response" where
  "add_retry_headers_to_response r attempted_retries max_retries =
     add_headers_to_response r
       ((''x-litellm-attempted-retries'', attempted_retries) #
        (case max_retries of None \<Rightarrow> [] | Some m \<Rightarrow> [(''x-litellm-max-retries'', m)]))"

definition add_fallback_headers_to_response :: "response \<Rightarrow> int \<Rightarrow> response" where
  "add_fallback_headers_to_response r attempted_fallbacks =
     add_headers_to_response r [(''x-litellm-attempted-fallbacks'', attempted_fallbacks)]"

subsection \<open>Waiting\<close>

definition INITIAL_RETRY_DELAY :: rat where "INITIAL_RETRY_DELAY = 1 / 2"

definition MAX_RETRY_DELAY :: rat where "MAX_RETRY_DELAY = 8"

definition JITTER :: rat where "JITTER = 3 / 4"

text \<open>\<^verbatim>\<open>int(x)\<close> of a float.\<close>

definition truncate :: "rat \<Rightarrow> int" where
  "truncate q = (if q < 0 then - \<lfloor>- q\<rfloor> else \<lfloor>q\<rfloor>)"

definition get_retry_after_from_exception_header :: "(string \<Rightarrow> rat option) \<Rightarrow> rat \<Rightarrow> string option option \<Rightarrow> int" where
  "get_retry_after_from_exception_header http_date now headers =
     (case headers of
        None \<Rightarrow> - 1
      | Some None \<Rightarrow> - 1
      | Some (Some retry_header) \<Rightarrow>
        (case int_of_str retry_header of
           Some n \<Rightarrow> n
         | None \<Rightarrow> (case http_date retry_header of None \<Rightarrow> - 1 | Some t \<Rightarrow> truncate (t - now))))"

definition pow2 :: "int \<Rightarrow> rat" where
  "pow2 n = (if 0 \<le> n then 2 ^ nat n else 1 / 2 ^ nat (- n))"

definition calculate_retry_after :: "int \<Rightarrow> rat \<Rightarrow> int \<Rightarrow> int \<Rightarrow> rat \<Rightarrow> rat" where
  "calculate_retry_after retry_after random remaining_retries max_retries min_timeout =
     (let jitter = JITTER * random in
      if 0 < retry_after \<and> retry_after \<le> 60 then of_int retry_after + jitter
      else
        let sleep_seconds = INITIAL_RETRY_DELAY * pow2 (max_retries - remaining_retries);
            sleep_seconds = max sleep_seconds min_timeout;
            sleep_seconds = min sleep_seconds MAX_RETRY_DELAY in
        sleep_seconds + jitter)"

definition num_deployments :: "available \<Rightarrow> nat" where
  "num_deployments a = (case a of DeploymentList ds \<Rightarrow> length ds | _ \<Rightarrow> 0)"

text \<open>A model that is a single deployment is a dict, whose length is its number of keys; that is not 1.\<close>

definition time_to_sleep_before_retry ::
  "'s world \<Rightarrow> retry_router \<Rightarrow> call_exc \<Rightarrow> int \<Rightarrow> int \<Rightarrow> string list \<Rightarrow> available \<Rightarrow> 's \<Rightarrow> rat" where
  "time_to_sleep_before_retry W R e remaining_retries num_retries healthy all_deployments s =
     (if num_deployments all_deployments \<noteq> 1 \<and> healthy \<noteq> [] then 0
      else calculate_retry_after
             (get_retry_after_from_exception_header (w_http_date W) (w_clock W s) (retry_after_header e))
             (w_random W s) remaining_retries num_retries (r_retry_after R))"

subsection \<open>Retrying\<close>

definition get_num_retries_from_retry_policy ::
  "'a exc_scheme \<Rightarrow> RetryPolicy option \<Rightarrow> string option \<Rightarrow> (string, RetryPolicy) dict option \<Rightarrow> int option" where
  "get_num_retries_from_retry_policy e retry_policy model_group model_group_retry_policy =
     (let retry_policy =
        (case (model_group_retry_policy, model_group) of
           (Some ps, Some g) \<Rightarrow> (case map_of ps g of Some p \<Rightarrow> Some p | None \<Rightarrow> retry_policy)
         | _ \<Rightarrow> retry_policy) in
      case retry_policy of
        None \<Rightarrow> None
      | Some p \<Rightarrow>
        if exc_isinstance e AuthenticationError \<and> AuthenticationErrorRetries p \<noteq> None then AuthenticationErrorRetries p
        else if exc_isinstance e Timeout \<and> TimeoutErrorRetries p \<noteq> None then TimeoutErrorRetries p
        else if exc_isinstance e RateLimitError \<and> RateLimitErrorRetries p \<noteq> None then RateLimitErrorRetries p
        else if exc_isinstance e ContentPolicyViolationError \<and> ContentPolicyViolationErrorRetries p \<noteq> None
          then ContentPolicyViolationErrorRetries p
        else if exc_isinstance e BadRequestError \<and> BadRequestErrorRetries p \<noteq> None then BadRequestErrorRetries p
        else None)"

text \<open>False where the code raises the error it was given.\<close>

definition should_retry_this_error :: "call_exc \<Rightarrow> nat \<Rightarrow> nat \<Rightarrow> pyval \<Rightarrow> pyval \<Rightarrow> pyval \<Rightarrow> bool" where
  "should_retry_this_error e num_healthy num_all context_window_fallbacks content_policy_fallbacks regular_fallbacks =
     (if exc_isinstance e ContextWindowExceededError \<and> context_window_fallbacks \<noteq> PNone then False
      else if exc_isinstance e ContentPolicyViolationError \<and> content_policy_fallbacks \<noteq> PNone then False
      else if (case status_code e of None \<Rightarrow> False | Some c \<Rightarrow> \<not> should_retry c \<and> c \<notin> {401, 403}) then False
      else if exc_isinstance e NotFoundError then False
      else if exc_isinstance e RateLimitError \<and> num_healthy = 0 \<and> regular_fallbacks \<noteq> PNone \<and> truthy regular_fallbacks
        then False
      else if exc_isinstance e AuthenticationError \<and> num_all \<le> 1 then False
      else if num_healthy = 0 then False
      else True)"

definition get_healthy_deployments :: "'s world \<Rightarrow> string \<Rightarrow> 's \<Rightarrow> string list \<times> available" where
  "get_healthy_deployments W model s =
     (case w_available W model s of
        OneDeployment \<Rightarrow> ([], OneDeployment)
      | NoModel \<Rightarrow> ([], DeploymentList [])
      | DeploymentList ds \<Rightarrow> (filter (\<lambda>d. d \<notin> set (w_cooling W s)) ds, DeploymentList ds))"

text \<open>The fallback lists that decide whether an error is retried.\<close>

record retry_ctx =
  c_fallbacks :: pyval
  c_context_window :: pyval
  c_content_policy :: pyval
  c_policy_applies :: bool

definition may_retry :: "retry_ctx \<Rightarrow> call_exc \<Rightarrow> string list \<Rightarrow> available \<Rightarrow> bool" where
  "may_retry c e healthy all_deployments \<longleftrightarrow>
     c_policy_applies c \<or>
     should_retry_this_error e (length healthy) (num_deployments all_deployments)
       (c_context_window c) (c_content_policy c) (c_fallbacks c)"

text \<open>The attempts \<^verbatim>\<open>num_retries - k, ..., num_retries - 1\<close> of the loop.\<close>

fun retry_loop ::
  "'s world \<Rightarrow> retry_router \<Rightarrow> retry_ctx \<Rightarrow> kwargs \<Rightarrow> available \<Rightarrow> int \<Rightarrow> nat \<Rightarrow> call_exc \<Rightarrow> 's \<Rightarrow> (call_exc + response) \<times> 's" where
  "retry_loop W R c kw all_deployments num_retries 0 e s =
     (Inl (if litellm_type e then e\<lparr>exc_num_retries := Some num_retries\<rparr> else e), s)"
| "retry_loop W R c kw all_deployments num_retries (Suc k) e0 s =
     (case w_call W kw s of
        (Inr r, s1) \<Rightarrow> (Inr (add_retry_headers_to_response r (num_retries - int k) (Some num_retries)), s1)
      | (Inl e, s1) \<Rightarrow>
        (let healthy = (case map_of kw ''model'' of
                          Some (PStr m) \<Rightarrow> fst (get_healthy_deployments W m s1)
                        | _ \<Rightarrow> []) in
         if \<not> may_retry c e healthy all_deployments then (Inl e, s1)
         else retry_loop W R c kw all_deployments num_retries k e
                (w_sleep W (time_to_sleep_before_retry W R e (int k) num_retries healthy all_deployments s1) s1)))"

definition plain_exc :: "string \<Rightarrow> call_exc" where
  "plain_exc msg = \<lparr>exc_class_of = OtherClass, exc_str = msg, status_code = None, exc_num_retries = None,
     retry_after_header = None, litellm_type = False\<rparr>"

definition kwargs_pop :: "string list \<Rightarrow> kwargs \<Rightarrow> kwargs" where
  "kwargs_pop ks kw = fold AList.delete ks kw"

definition model_name_of :: "kwargs \<Rightarrow> string option" where
  "model_name_of kw = (case map_of kw ''model'' of Some (PStr m) \<Rightarrow> Some m | _ \<Rightarrow> None)"

definition policy_retries :: "retry_router \<Rightarrow> kwargs \<Rightarrow> call_exc \<Rightarrow> int option" where
  "policy_retries R kw e =
     (if r_retry_policy R \<noteq> None \<or> r_model_group_retry_policy R \<noteq> None
      then get_num_retries_from_retry_policy e (r_retry_policy R) (model_name_of kw) (r_model_group_retry_policy R)
      else None)"

text \<open>The number of retries after the first attempt has failed with \<open>e\<close>.\<close>

definition effective_retries :: "retry_router \<Rightarrow> kwargs \<Rightarrow> int \<Rightarrow> call_exc \<Rightarrow> int" where
  "effective_retries R kw num_retries e =
     (case policy_retries R kw e of
        Some n \<Rightarrow> n
      | None \<Rightarrow> (case exc_num_retries e of Some n \<Rightarrow> n | None \<Rightarrow> num_retries))"

definition async_function_with_retries ::
  "'s world \<Rightarrow> retry_router \<Rightarrow> kwargs \<Rightarrow> 's \<Rightarrow> (call_exc + response) \<times> 's" where
  "async_function_with_retries W R kwargs s =
     (case map_of kwargs ''num_retries'' of
        Some (PInt num_retries) \<Rightarrow>
          (let kw = kwargs_pop [''fallbacks'', ''context_window_fallbacks'', ''content_policy_fallbacks'', ''num_retries''] kwargs in
           case w_call W kw s of
             (Inr r, s1) \<Rightarrow> (Inr (add_retry_headers_to_response r 0 None), s1)
           | (Inl e, s1) \<Rightarrow>
             (let (healthy, all_deployments) = get_healthy_deployments W (case model_name_of kw of Some m \<Rightarrow> m | None \<Rightarrow> []) s1;
                  c = \<lparr>c_fallbacks = dict_get kwargs ''fallbacks'' (r_fallbacks R),
                       c_context_window = dict_get kwargs ''context_window_fallbacks'' (r_context_window_fallbacks R),
                       c_content_policy = dict_get kwargs ''content_policy_fallbacks'' (r_content_policy_fallbacks R),
                       c_policy_applies = policy_retries R kw e \<noteq> None\<rparr>;
                  n = effective_retries R kw num_retries e in
              if \<not> may_retry c e healthy all_deployments then (Inl e, s1)
              else if n \<le> 0 then (Inl e, s1)
              else retry_loop W R c kw all_deployments n (nat n) e
                     (w_sleep W (time_to_sleep_before_retry W R e n n healthy all_deployments s1) s1)))
      | _ \<Rightarrow> (Inl (plain_exc ''num_retries''), s))"

subsection \<open>The calls that are made\<close>

text \<open>A world that also keeps the outcomes of the calls.\<close>

type_synonym outcome = "call_exc + response"

definition traced :: "'s world \<Rightarrow> (outcome list \<times> 's) world" where
  "traced W =
     \<lparr>w_call = (\<lambda>kw (tr, s). case w_call W kw s of (out, s') \<Rightarrow> (out, (tr @ [out], s'))),
      w_available = (\<lambda>m p. w_available W m (snd p)), w_cooling = (\<lambda>p. w_cooling W (snd p)),
      w_clock = (\<lambda>p. w_clock W (snd p)), w_random = (\<lambda>p. w_random W (snd p)),
      w_sleep = (\<lambda>t p. (fst p, w_sleep W t (snd p))), w_http_date = w_http_date W\<rparr>"

lemma traced_simps:
  "w_call (traced W) kw (tr, s) = (fst (w_call W kw s), (tr @ [fst (w_call W kw s)], snd (w_call W kw s)))"
  "w_sleep (traced W) t p = (fst p, w_sleep W t (snd p))"
  "get_healthy_deployments (traced W) m p = get_healthy_deployments W m (snd p)"
  "time_to_sleep_before_retry (traced W) R e i n h a p = time_to_sleep_before_retry W R e i n h a (snd p)"
  by (simp_all add: traced_def get_healthy_deployments_def time_to_sleep_before_retry_def split: prod.split available.split)

text \<open>The result tells what the last call returned or raised.\<close>

fun same_outcome :: "outcome \<Rightarrow> outcome \<Rightarrow> bool" where
  "same_outcome (Inr r) (Inr r') = (body r = body r')"
| "same_outcome (Inl e) (Inl e') = (exc_class_of e = exc_class_of e' \<and> exc_str e = exc_str e' \<and> status_code e = status_code e')"
| "same_outcome _ _ = False"

definition tells :: "outcome \<Rightarrow> outcome list \<Rightarrow> nat \<Rightarrow> bool" where
  "tells out tr n \<longleftrightarrow> tr \<noteq> [] \<and> (\<forall>o' \<in> set (butlast tr). isl o') \<and> same_outcome out (last tr) \<and> length tr \<le> n"

lemma same_headers: "same_outcome (Inr (add_retry_headers_to_response r i m)) (Inr r)"
  by (simp add: add_retry_headers_to_response_def add_headers_to_response_def)

lemma tells_one: "same_outcome out o' \<Longrightarrow> tells out [o'] (Suc n)"
  by (simp add: tells_def)

lemma tells_Cons: "tells out tr n \<Longrightarrow> tells out (Inl e # tr) (Suc n)"
  by (auto simp: tells_def)

lemma retry_loop_tells:
  "\<exists>tr' s'. retry_loop (traced W) R c kw a n k e (tr, s) = (fst (retry_loop W R c kw a n k e s), (tr @ tr', s')) \<and>
     s' = snd (retry_loop W R c kw a n k e s) \<and> tells (fst (retry_loop W R c kw a n k e s)) (Inl e # tr') (Suc k)"
proof (induction k arbitrary: e tr s)
  case 0
  then show ?case by (simp add: tells_def)
next
  case (Suc k)
  obtain out s1 where call: "w_call W kw s = (out, s1)" by fastforce
  show ?case
  proof (cases out)
    case (Inr r)
    then show ?thesis using call tells_Cons [OF tells_one [OF same_headers]] by (simp add: traced_simps)
  next
    case (Inl e1)
    define h where "h = (case map_of kw ''model'' of Some (PStr m) \<Rightarrow> fst (get_healthy_deployments W m s1) | _ \<Rightarrow> [])"
    have h': "(case map_of kw ''model'' of Some (PStr m) \<Rightarrow> fst (get_healthy_deployments (traced W) m (tr', s1)) | _ \<Rightarrow> []) = h" for tr'
      by (simp add: h_def traced_simps split: option.split pyval.split)
    show ?thesis
    proof (cases "may_retry c e1 h a")
      case False
      then show ?thesis
        using call Inl h' by (simp add: traced_simps(1) flip: h_def) (simp add: tells_def)
    next
      case True
      let ?s = "w_sleep W (time_to_sleep_before_retry W R e1 (int k) n h a s1) s1"
      have u: "retry_loop W R c kw a n (Suc k) e s = retry_loop W R c kw a n k e1 ?s"
        using call Inl True by (simp flip: h_def)
      have v: "retry_loop (traced W) R c kw a n (Suc k) e (tr, s) = retry_loop (traced W) R c kw a n k e1 (tr @ [Inl e1], ?s)"
        using call Inl True h' by (simp add: traced_simps)
      from Suc.IH [of e1 "tr @ [Inl e1]" ?s] show ?thesis unfolding u v by (auto intro: tells_Cons)
    qed
  qed
qed

subsection \<open>Properties\<close>

definition pop_retry_args :: "kwargs \<Rightarrow> kwargs" where
  "pop_retry_args kw = kwargs_pop [''fallbacks'', ''context_window_fallbacks'', ''content_policy_fallbacks'', ''num_retries''] kw"

text \<open>
  Property C19. A request with \<open>num_retries\<close> is tried at least once and, if the first attempt
  fails with \<open>e\<close>, at most once more than the number of retries that the policy, the exception or the
  request sets; every attempt but the last has failed, and the response or error that is returned is
  that of the last attempt.
\<close>

theorem retries_bounded:
  assumes "map_of kw ''num_retries'' = Some (PInt n)"
  shows "\<exists>tr s'. async_function_with_retries (traced W) R kw ([], s) = (fst (async_function_with_retries W R kw s), (tr, s')) \<and>
    tells (fst (async_function_with_retries W R kw s)) tr
      (case fst (w_call W (pop_retry_args kw) s) of
         Inr _ \<Rightarrow> 1
       | Inl e \<Rightarrow> 1 + nat (effective_retries R (pop_retry_args kw) n e))"
proof -
  let ?kw = "pop_retry_args kw"
  obtain out s1 where call: "w_call W ?kw s = (out, s1)" by fastforce
  show ?thesis
  proof (cases out)
    case (Inr r)
    then show ?thesis
      using assms call tells_one [OF same_headers, of r 0 None 0]
      by (simp add: async_function_with_retries_def traced_simps flip: pop_retry_args_def)
  next
    case (Inl e)
    obtain h a where ha: "get_healthy_deployments W (case model_name_of ?kw of Some m \<Rightarrow> m | None \<Rightarrow> []) s1 = (h, a)" by fastforce
    define c where "c = \<lparr>c_fallbacks = dict_get kw ''fallbacks'' (r_fallbacks R),
       c_context_window = dict_get kw ''context_window_fallbacks'' (r_context_window_fallbacks R),
       c_content_policy = dict_get kw ''content_policy_fallbacks'' (r_content_policy_fallbacks R),
       c_policy_applies = policy_retries R ?kw e \<noteq> None\<rparr>"
    let ?n = "effective_retries R ?kw n e"
    let ?s = "w_sleep W (time_to_sleep_before_retry W R e ?n ?n h a s1) s1"
    note defs = async_function_with_retries_def traced_simps assms call Inl ha
    have u: "async_function_with_retries W R kw s =
      (if \<not> may_retry c e h a \<or> ?n \<le> 0 then (Inl e, s1) else retry_loop W R c ?kw a ?n (nat ?n) e ?s)"
      by (simp add: defs Let_def c_def flip: pop_retry_args_def)
    have v: "async_function_with_retries (traced W) R kw ([], s) =
      (if \<not> may_retry c e h a \<or> ?n \<le> 0 then (Inl e, ([Inl e], s1))
       else retry_loop (traced W) R c ?kw a ?n (nat ?n) e ([Inl e], ?s))"
      by (simp add: defs Let_def c_def flip: pop_retry_args_def)
    show ?thesis
      using retry_loop_tells [of W R c ?kw a ?n "nat ?n" e "[Inl e]" ?s] unfolding u v
      by (auto simp: call Inl tells_one)
  qed
qed

text \<open>A model that fails until its counter is down, and a request with two retries.\<close>

definition flaky :: "nat world" where
  "flaky =
     \<lparr>w_call = (\<lambda>kw s. case s of
          0 \<Rightarrow> (Inr \<lparr>is_base_model = True, additional_headers = [], body = ''ok''\<rparr>, 0)
        | Suc k \<Rightarrow> (Inl ((plain_exc ''busy'')\<lparr>status_code := Some (if k = 7 then 400 else 503)\<rparr>), k)),
      w_available = (\<lambda>_ _. DeploymentList [''d1'', ''d2'']), w_cooling = (\<lambda>_. [''d2'']), w_clock = (\<lambda>_. 0),
      w_random = (\<lambda>_. 1 / 2), w_sleep = (\<lambda>_ s. s), w_http_date = (\<lambda>_. None)\<rparr>"

definition plain_router :: retry_router where
  "plain_router = \<lparr>r_fallbacks = PList [], r_context_window_fallbacks = PNone, r_content_policy_fallbacks = PNone,
     r_retry_policy = None, r_model_group_retry_policy = None, r_retry_after = 0, r_max_fallbacks = 5\<rparr>"

definition two_retries :: kwargs where
  "two_retries = [(''model'', PStr ''m''), (''num_retries'', PInt 2)]"

theorem retries_bounded_witness:
  "\<exists>tr s'. async_function_with_retries (traced flaky) plain_router two_retries ([], 9) =
     (fst (async_function_with_retries flaky plain_router two_retries 9), (tr, s')) \<and>
     tells (fst (async_function_with_retries flaky plain_router two_retries 9)) tr 3"
proof -
  have n: "map_of two_retries ''num_retries'' = Some (PInt 2)" by code_simp
  have c: "fst (w_call flaky (pop_retry_args two_retries) 9) = Inl ((plain_exc ''busy'')\<lparr>status_code := Some 503\<rparr>)"
    by (simp add: flaky_def eval_nat_numeral)
  have e: "effective_retries plain_router (pop_retry_args two_retries) 2 ((plain_exc ''busy'')\<lparr>status_code := Some 503\<rparr>) = 2"
    by code_simp
  show ?thesis using retries_bounded [OF n, of flaky plain_router 9] unfolding c sum.case e by (simp add: eval_nat_numeral)
qed

text \<open>
  An error that reports a client error (a status below 500 other than 401, 403, 408,
  409 and 429) is not retried, unless a retry policy has a number of retries for it: the call is made
  once and its error is raised.
\<close>

lemma client_errors_not_retried:
  assumes "map_of kw ''num_retries'' = Some (PInt n)" "w_call W (pop_retry_args kw) s = (Inl e, s')"
    and "status_code e = Some c" "c < 500" "c \<notin> {401, 403, 408, 409, 429}"
    and "policy_retries R (pop_retry_args kw) e = None"
  shows "async_function_with_retries W R kw s = (Inl e, s')"
  using assms by (simp add: async_function_with_retries_def may_retry_def should_retry_this_error_def should_retry_def
      Let_def split: prod.split flip: pop_retry_args_def)

text \<open>
  The wait before a retry is never negative and never longer than the sixty seconds a
  server may ask for plus the jitter; without such an answer of the server it is at most the maximal
  delay plus the jitter.
\<close>

lemma retry_wait_bounds:
  assumes "0 \<le> w_random W s" "w_random W s \<le> 1"
    and "t = time_to_sleep_before_retry W R e i n h a s"
    and "ra = get_retry_after_from_exception_header (w_http_date W) (w_clock W s) (retry_after_header e)"
  shows "0 \<le> t \<and> t \<le> (if 0 < ra \<and> ra \<le> 60 then of_int ra else MAX_RETRY_DELAY) + JITTER \<and> t \<le> 60 + JITTER"
proof -
  let ?j = "JITTER * w_random W s"
  have j: "0 \<le> ?j" "?j \<le> JITTER" using assms(1,2) mult_left_mono [of "w_random W s" 1 JITTER] by (simp_all add: JITTER_def)
  have p: "0 < INITIAL_RETRY_DELAY * pow2 (n - i)" by (simp add: INITIAL_RETRY_DELAY_def pow2_def)
  define d where "d = min (max (INITIAL_RETRY_DELAY * pow2 (n - i)) (r_retry_after R)) MAX_RETRY_DELAY"
  have d: "0 \<le> d" "d \<le> MAX_RETRY_DELAY" using p by (simp_all add: d_def MAX_RETRY_DELAY_def le_max_iff_disj)
  have t: "t = 0 \<or> t = (if 0 < ra \<and> ra \<le> 60 then of_int ra + ?j else d + ?j)"
    unfolding assms(3,4) by (auto simp: time_to_sleep_before_retry_def calculate_retry_after_def d_def Let_def)
  have "of_int ra \<le> (60 :: rat)" if "ra \<le> 60" using of_int_le_iff [of ra 60, where 'a = rat] that by simp
  moreover have "0 \<le> JITTER" "0 \<le> MAX_RETRY_DELAY" "MAX_RETRY_DELAY \<le> 60" by (simp_all add: JITTER_def MAX_RETRY_DELAY_def)
  ultimately show ?thesis using t j d by (auto split: if_splits)
qed

end
