(* ===== verification/Fallbacks.thy ===== *)
theory Fallbacks
  imports Retries
begin

text \<open>
  The fallbacks of the router: \<^verbatim>\<open>router_utils/fallback_event_handlers.py\<close> and
  \<^verbatim>\<open>Router.async_function_with_fallbacks\<close>. A request that fails on its model group is sent to the
  groups its fallback lists name, and each of those has fallbacks of its own up to a depth. The lists
  are values of the configuration or of the request; the list of providers and the parameter names
  of a deployment are arguments, as are the attempt itself (the router passes
  \<^verbatim>\<open>async_function_with_retries\<close>) and what the callbacks of a fallback do. As in the theory of
  retries the metadata of a request, where \<^verbatim>\<open>log_retry\<close> records failed attempts, is left out, and
  so are the texts added to the message of an exception and the mock flags. The depth and the maximal
  depth are integers. The theory shows that the recursion ends, how many attempts it makes, which
  models it can reach, and which error the caller sees.
\<close>

subsection \<open>Fallback lists\<close>

text \<open>\<^verbatim>\<open>s.replace(p, "")\<close>.\<close>

function remove_all :: "string \<Rightarrow> string \<Rightarrow> string" where
  "remove_all p [] = []"
| "remove_all p (c # s) =
     (if p \<noteq> [] \<and> starts_with p (c # s) then remove_all p (drop (length p) (c # s)) else c # remove_all p s)"
  by pat_completeness auto
termination by (relation "measure (\<lambda>(p, s). length s)") (auto simp: neq_Nil_conv)

definition check_stripped_model_group :: "string list \<Rightarrow> string \<Rightarrow> string \<Rightarrow> bool" where
  "check_stripped_model_group provider_list model_group fallback_key \<longleftrightarrow>
     (\<exists>p \<in> set provider_list. starts_with (p @ ''/'') model_group \<and> remove_all (p @ ''/'') model_group = fallback_key)"

text \<open>
  The loop over \<^verbatim>\<open>enumerate(fallbacks)\<close>: a string is popped from the list that is iterated, so
  the item after it is skipped.
\<close>

function fallback_loop ::
  "string list \<Rightarrow> string \<Rightarrow> nat \<Rightarrow> pyval list \<Rightarrow> nat option \<Rightarrow> pyval \<Rightarrow> pyval \<Rightarrow>
   (pyval list \<times> nat option \<times> pyval \<times> pyval) pyres" where
  "fallback_loop provider_list model_group idx fallbacks generic stripped fallback_model_group =
     (if length fallbacks \<le> idx then Inr (fallbacks, generic, stripped, fallback_model_group)
      else case fallbacks ! idx of
        PDict [] \<Rightarrow> Inl IndexError
      | PDict ((k, v) # d) \<Rightarrow>
        if k = model_group then Inr (fallbacks, generic, stripped, v)
        else if check_stripped_model_group provider_list model_group k
          then fallback_loop provider_list model_group (idx + 1) fallbacks generic v fallback_model_group
        else if k = ''*''
          then fallback_loop provider_list model_group (idx + 1) fallbacks (Some idx) stripped fallback_model_group
        else fallback_loop provider_list model_group (idx + 1) fallbacks generic stripped fallback_model_group
      | PStr m \<Rightarrow> fallback_loop provider_list model_group (idx + 1) (pop_nth idx fallbacks) generic stripped (PList [PStr m])
      | _ \<Rightarrow> fallback_loop provider_list model_group (idx + 1) fallbacks generic stripped fallback_model_group)"
  by pat_completeness auto
termination
  by (relation "measure (\<lambda>(p, m, idx, fallbacks, g, st, f). length fallbacks - idx)") (auto simp: pop_nth_def)

declare fallback_loop.simps [simp del]

text \<open>The group found, the index of the generic fallback, and the list as it is left behind.\<close>

definition get_fallback_model_group ::
  "string list \<Rightarrow> pyval list \<Rightarrow> string \<Rightarrow> (pyval \<times> nat option \<times> pyval list) pyres" where
  "get_fallback_model_group provider_list fallbacks model_group =
     (case fallback_loop provider_list model_group 0 fallbacks None PNone PNone of
        Inl e \<Rightarrow> Inl e
      | Inr (fallbacks', generic, stripped, fallback_model_group) \<Rightarrow>
        if fallback_model_group \<noteq> PNone then Inr (fallback_model_group, generic, fallbacks')
        else if stripped \<noteq> PNone then Inr (stripped, generic, fallbacks')
        else case generic of
          None \<Rightarrow> Inr (PNone, None, fallbacks')
        | Some i \<Rightarrow>
          if length fallbacks' \<le> i then Inl IndexError
          else case fallbacks' ! i of
            PDict d \<Rightarrow> (case map_of d ''*'' of None \<Rightarrow> Inl KeyError | Some v \<Rightarrow> Inr (v, generic, fallbacks'))
          | _ \<Rightarrow> Inl TypeError)"

fun get_fallback_model_group_from_fallbacks :: "pyval list \<Rightarrow> string \<Rightarrow> pyval pyres" where
  "get_fallback_model_group_from_fallbacks [] model_group = Inr PNone"
| "get_fallback_model_group_from_fallbacks (item # rest) model_group =
     (case item of
        PDict [] \<Rightarrow> Inl IndexError
      | PDict ((k, v) # d) \<Rightarrow> if k = model_group then Inr v else get_fallback_model_group_from_fallbacks rest model_group
      | _ \<Rightarrow> Inl AttributeError)"

definition check_non_standard_fallback_format :: "string list \<Rightarrow> pyval \<Rightarrow> bool" where
  "check_non_standard_fallback_format params fallbacks =
     (case fallbacks of
        PList (item # rest) \<Rightarrow>
          if (\<forall>x \<in> set (item # rest). case x of PStr _ \<Rightarrow> True | _ \<Rightarrow> False) then True
          else if (\<forall>x \<in> set (item # rest). case x of PDict _ \<Rightarrow> True | _ \<Rightarrow> False)
          then (case item of PDict d \<Rightarrow> \<exists>k \<in> set params. k \<in> set (dict_keys d) | _ \<Rightarrow> False)
          else False
      | _ \<Rightarrow> False)"

subsection \<open>The choice of the fallbacks\<close>

datatype plan = RaiseOriginal | Fallback pyval

definition plan_of :: "pyval pyres \<Rightarrow> plan" where
  "plan_of r = (case r of Inl _ \<Rightarrow> RaiseOriginal | Inr v \<Rightarrow> if v = PNone then RaiseOriginal else Fallback v)"

definition from_list :: "pyval \<Rightarrow> (pyval list \<Rightarrow> pyval pyres) \<Rightarrow> pyval pyres" where
  "from_list v f = (case v of PList xs \<Rightarrow> f xs | _ \<Rightarrow> Inl TypeError)"

text \<open>
  Which groups \<^verbatim>\<open>async_function_with_fallbacks_common_utils\<close> falls back to; every exception in it
  ends with the original exception. A list of one kind of items is not changed by the search.
\<close>

definition fallback_plan ::
  "string list \<Rightarrow> string list \<Rightarrow> call_exc \<Rightarrow> pyval \<Rightarrow> pyval \<Rightarrow> pyval \<Rightarrow> string \<Rightarrow> plan" where
  "fallback_plan providers params e fallbacks context_window_fallbacks content_policy_fallbacks model_group =
     (if check_non_standard_fallback_format params fallbacks then Fallback fallbacks
      else if exc_isinstance e ContextWindowExceededError \<and> context_window_fallbacks \<noteq> PNone
        then plan_of (from_list context_window_fallbacks (\<lambda>xs. get_fallback_model_group_from_fallbacks xs model_group))
      else if exc_isinstance e ContentPolicyViolationError \<and> content_policy_fallbacks \<noteq> PNone
        then plan_of (from_list content_policy_fallbacks (\<lambda>xs. get_fallback_model_group_from_fallbacks xs model_group))
      else if fallbacks \<noteq> PNone
        then plan_of (from_list fallbacks (\<lambda>xs. map_sum id fst (get_fallback_model_group providers xs model_group)))
      else RaiseOriginal)"

subsection \<open>Falling back\<close>

text \<open>What a \<^verbatim>\<open>for\<close> loop over a value goes through; \<open>None\<close> where it raises \<open>TypeError\<close>.\<close>

definition py_iter :: "pyval \<Rightarrow> pyval list option" where
  "py_iter v =
     (case v of
        PList xs \<Rightarrow> Some xs
      | PTuple xs \<Rightarrow> Some xs
      | PStr s \<Rightarrow> Some (map (\<lambda>c. PStr [c]) s)
      | PDict d \<Rightarrow> Some (map (PStr \<circ> fst) d)
      | _ \<Rightarrow> None)"

record 's fb_env =
  fe_router :: retry_router
  fe_providers :: "string list"
  fe_params :: "string list"
  fe_attempt :: "kwargs \<Rightarrow> 's \<Rightarrow> (call_exc + response) \<times> 's"
  fe_event :: "bool \<Rightarrow> 's \<Rightarrow> 's" \<comment> \<open>the callbacks of a successful or failed fallback\<close>

definition fe_plan :: "'s fb_env \<Rightarrow> kwargs \<Rightarrow> call_exc \<Rightarrow> string \<Rightarrow> plan" where
  "fe_plan E kw e m =
     fallback_plan (fe_providers E) (fe_params E) e
       (dict_get kw ''fallbacks'' (r_fallbacks (fe_router E)))
       (dict_get kw ''context_window_fallbacks'' (r_context_window_fallbacks (fe_router E)))
       (dict_get kw ''content_policy_fallbacks'' (r_content_policy_fallbacks (fe_router E))) m"

definition depth_of :: "kwargs \<Rightarrow> int option" where
  "depth_of kw = (case dict_get kw ''fallback_depth'' (PInt 0) of PInt d \<Rightarrow> Some d | _ \<Rightarrow> None)"

definition max_of :: "'s fb_env \<Rightarrow> kwargs \<Rightarrow> int option" where
  "max_of E kw = (case dict_get kw ''max_fallbacks'' (PInt (r_max_fallbacks (fe_router E))) of PInt m \<Rightarrow> Some m | _ \<Rightarrow> None)"

text \<open>The arguments of the next attempt.\<close>

definition fallback_kwargs :: "pyval \<Rightarrow> int \<Rightarrow> int \<Rightarrow> kwargs \<Rightarrow> kwargs" where
  "fallback_kwargs mg depth mx kw =
     AList.update ''max_fallbacks'' (PInt mx) (AList.update ''fallback_depth'' (PInt depth)
       (case mg of
          PStr m \<Rightarrow> AList.update ''model'' (PStr m) kw
        | PDict d \<Rightarrow> fold (\<lambda>(k, v). AList.update k v) d kw
        | _ \<Rightarrow> kw))"

lemma fallback_kwargs_depth [simp]:
  "depth_of (fallback_kwargs mg d m kw) = Some d" "max_of E (fallback_kwargs mg d m kw) = Some m"
  by (simp_all add: depth_of_def max_of_def fallback_kwargs_def dict_get_def)

definition gap :: "int option \<Rightarrow> int option \<Rightarrow> nat" where
  "gap d m = (case (d, m) of (Some d, Some m) \<Rightarrow> nat (m - d) | _ \<Rightarrow> 0)"

lemma pop_depth [simp]:
  "depth_of (kwargs_pop [''disable_fallbacks'', ''mock_timeout''] kw) = depth_of kw"
  "max_of E (kwargs_pop [''disable_fallbacks'', ''mock_timeout''] kw) = max_of E kw"
  by (simp_all add: depth_of_def max_of_def kwargs_pop_def dict_get_def)

function async_function_with_fallbacks :: "'s fb_env \<Rightarrow> kwargs \<Rightarrow> 's \<Rightarrow> (call_exc + response) \<times> 's"
  and run_async_fallback ::
    "'s fb_env \<Rightarrow> pyval \<Rightarrow> pyval \<Rightarrow> call_exc \<Rightarrow> int \<Rightarrow> int \<Rightarrow> kwargs \<Rightarrow> 's \<Rightarrow> (call_exc + response) \<times> 's"
  and fallback_groups ::
    "'s fb_env \<Rightarrow> pyval list \<Rightarrow> pyval \<Rightarrow> call_exc \<Rightarrow> int \<Rightarrow> int \<Rightarrow> kwargs \<Rightarrow> 's \<Rightarrow> (call_exc + response) \<times> 's" where
  "async_function_with_fallbacks E kw s =
     (let kw1 = kwargs_pop [''disable_fallbacks'', ''mock_timeout''] kw in
      case fe_attempt E kw1 s of
        (Inr r, s1) \<Rightarrow> (Inr (add_fallback_headers_to_response r 0), s1)
      | (Inl e, s1) \<Rightarrow>
        (case (model_name_of kw1, depth_of kw1, max_of E kw1) of
           (Some model_group, Some fallback_depth, Some max_fallbacks) \<Rightarrow>
             if dict_get kw ''disable_fallbacks'' (PBool False) = PBool True then (Inl e, s1)
             else
               (case fe_plan E kw1 e model_group of
                  RaiseOriginal \<Rightarrow> (Inl e, s1)
                | Fallback groups \<Rightarrow>
                  (case run_async_fallback E groups (PStr model_group) e max_fallbacks fallback_depth
                          (kwargs_pop [''fallback_depth'', ''max_fallbacks''] kw1) s1 of
                     (Inr r, s2) \<Rightarrow> (Inr r, s2)
                   | (Inl _, s2) \<Rightarrow> (Inl e, s2)))
         | _ \<Rightarrow> (Inl e, s1)))"
| "run_async_fallback E groups original_model_group original_exception max_fallbacks fallback_depth kw s =
     (if max_fallbacks \<le> fallback_depth then (Inl original_exception, s)
      else case py_iter groups of
        None \<Rightarrow> (Inl (plain_exc ''TypeError''), s)
      | Some targets \<Rightarrow> fallback_groups E targets original_model_group original_exception max_fallbacks fallback_depth kw s)"
| "fallback_groups E [] original_model_group error_from_fallbacks max_fallbacks fallback_depth kw s =
     (Inl error_from_fallbacks, s)"
| "fallback_groups E (mg # rest) original_model_group error_from_fallbacks max_fallbacks fallback_depth kw s =
     (if mg = original_model_group
      then fallback_groups E rest original_model_group error_from_fallbacks max_fallbacks fallback_depth kw s
      else
        (let fallback_depth1 = fallback_depth + 1; kw1 = fallback_kwargs mg fallback_depth1 max_fallbacks kw in
         case async_function_with_fallbacks E kw1 s of
           (Inr r, s1) \<Rightarrow> (Inr (add_fallback_headers_to_response r fallback_depth1), fe_event E True s1)
         | (Inl e, s1) \<Rightarrow>
           fallback_groups E rest original_model_group e max_fallbacks fallback_depth1 kw1 (fe_event E False s1)))"
  by pat_completeness auto
termination
  by (relation "measures [\<lambda>x. case x of
        Inl (E, kw, s) \<Rightarrow> 3 * gap (depth_of kw) (max_of E kw) + 2
      | Inr (Inl (E, g, om, e, m, d, kw, s)) \<Rightarrow> 3 * nat (m - d) + 1
      | Inr (Inr (E, ts, om, e, m, d, kw, s)) \<Rightarrow> max 3 (3 * nat (m - d)),
     \<lambda>x. case x of Inr (Inr (E, ts, om, e, m, d, kw, s)) \<Rightarrow> length ts | _ \<Rightarrow> 0]")
    (auto simp: gap_def max_def split: option.splits)

declare async_function_with_fallbacks.simps [simp del] run_async_fallback.simps [simp del]

subsection \<open>Lists of one kind\<close>

text \<open>The value names at most \<open>L\<close> groups, all of them in \<open>M\<close>.\<close>

definition names_groups :: "nat \<Rightarrow> string set \<Rightarrow> pyval \<Rightarrow> bool" where
  "names_groups L M v \<longleftrightarrow> (\<exists>ys. v = PList (map PStr ys) \<and> length ys \<le> L \<and> set ys \<subseteq> M)"

definition dict_fallbacks :: "nat \<Rightarrow> string set \<Rightarrow> pyval list \<Rightarrow> bool" where
  "dict_fallbacks L M xs \<longleftrightarrow> (\<forall>x \<in> set xs. \<exists>k v d. x = PDict ((k, v) # d) \<and> names_groups L M v)"

lemma fallback_loop_dicts:
  assumes "dict_fallbacks L M xs" "stripped = PNone \<or> names_groups L M stripped"
    and "\<forall>i. generic = Some i \<longrightarrow> i < length xs \<and> (\<exists>v d. xs ! i = PDict ((''*'', v) # d) \<and> names_groups L M v)"
  shows "\<exists>g st f. fallback_loop providers model_group idx xs generic stripped PNone = Inr (xs, g, st, f) \<and>
    (f = PNone \<or> names_groups L M f) \<and> (st = PNone \<or> names_groups L M st) \<and>
    (\<forall>i. g = Some i \<longrightarrow> i < length xs \<and> (\<exists>v d. xs ! i = PDict ((''*'', v) # d) \<and> names_groups L M v))"
  using assms
proof (induction "length xs - idx" arbitrary: idx generic stripped)
  case 0
  then show ?case by (simp add: fallback_loop.simps)
next
  case (Suc n)
  have idx: "idx < length xs" "n = length xs - (idx + 1)" using Suc.hyps(2) by simp_all
  obtain k v d where x: "xs ! idx = PDict ((k, v) # d)" "names_groups L M v"
    using Suc.prems(1) idx(1) unfolding dict_fallbacks_def by (metis nth_mem)
  note IH = Suc.hyps(1) [OF idx(2) Suc.prems(1)]
  consider "k = model_group" | "k \<noteq> model_group" "check_stripped_model_group providers model_group k"
    | "k \<noteq> model_group" "\<not> check_stripped_model_group providers model_group k" "k = ''*''"
    | "k \<noteq> model_group" "\<not> check_stripped_model_group providers model_group k" "k \<noteq> ''*''" by blast
  then show ?case
  proof cases
    case 1
    then show ?thesis using Suc.prems x idx(1) by (subst fallback_loop.simps) simp
  next
    case 2
    then show ?thesis using IH [of v generic] Suc.prems(3) x idx(1) by (subst fallback_loop.simps) simp
  next
    case 3
    then show ?thesis using IH [of stripped "Some idx"] Suc.prems(2) x idx(1) by (subst fallback_loop.simps) simp
  next
    case 4
    then show ?thesis using IH [of stripped generic] Suc.prems(2,3) x idx(1) by (subst fallback_loop.simps) simp
  qed
qed

lemma get_fallback_model_group_dicts:
  assumes "dict_fallbacks L M xs"
  shows "\<exists>v g. get_fallback_model_group providers xs model_group = Inr (v, g, xs) \<and> (v = PNone \<or> names_groups L M v)"
proof -
  from fallback_loop_dicts [OF assms, of PNone None providers model_group 0] obtain g st f where
    f: "fallback_loop providers model_group 0 xs None PNone PNone = Inr (xs, g, st, f)"
      "f = PNone \<or> names_groups L M f" "st = PNone \<or> names_groups L M st"
      "\<forall>i. g = Some i \<longrightarrow> i < length xs \<and> (\<exists>v d. xs ! i = PDict ((''*'', v) # d) \<and> names_groups L M v)" by auto
  show ?thesis
  proof (cases "f = PNone \<and> st = PNone")
    case True
    show ?thesis
    proof (cases g)
      case None
      then show ?thesis using f True by (simp add: get_fallback_model_group_def)
    next
      case (Some i)
      then obtain v d where "i < length xs" "xs ! i = PDict ((''*'', v) # d)" "names_groups L M v" using f(4) by auto
      then show ?thesis using f(1) True Some by (simp add: get_fallback_model_group_def)
    qed
  qed (use f in \<open>auto simp: get_fallback_model_group_def\<close>)
qed

lemma from_fallbacks_dicts:
  assumes "dict_fallbacks L M xs"
  shows "\<exists>v. get_fallback_model_group_from_fallbacks xs model_group = Inr v \<and> (v = PNone \<or> names_groups L M v)"
  using assms by (induction xs) (auto simp: dict_fallbacks_def)

text \<open>A configuration whose lists are absent or hold dicts, with groups of at most \<open>L\<close> models.\<close>

definition good_list :: "nat \<Rightarrow> string set \<Rightarrow> pyval \<Rightarrow> bool" where
  "good_list L M v \<longleftrightarrow> v = PNone \<or> (\<exists>xs. v = PList xs \<and> dict_fallbacks L M xs)"

definition good_config :: "nat \<Rightarrow> string set \<Rightarrow> 's fb_env \<Rightarrow> bool" where
  "good_config L M E \<longleftrightarrow>
     good_list L M (r_fallbacks (fe_router E)) \<and> good_list L M (r_context_window_fallbacks (fe_router E)) \<and>
     good_list L M (r_content_policy_fallbacks (fe_router E)) \<and>
     \<not> check_non_standard_fallback_format (fe_params E) (r_fallbacks (fe_router E))"

lemma plan_good_list:
  assumes "good_list L M v" "v \<noteq> PNone" "\<And>xs. dict_fallbacks L M xs \<Longrightarrow> \<exists>w. f xs = Inr w \<and> (w = PNone \<or> names_groups L M w)"
    and "plan_of (from_list v f) = Fallback g"
  shows "names_groups L M g"
proof -
  obtain xs where xs: "v = PList xs" "dict_fallbacks L M xs" using assms(1,2) by (auto simp: good_list_def)
  then show ?thesis using assms(3) [OF xs(2)] assms(4) by (auto simp: plan_of_def from_list_def split: if_splits)
qed

text \<open>A request without fallback lists of its own.\<close>

definition plain_request :: "kwargs \<Rightarrow> bool" where
  "plain_request kw \<longleftrightarrow> (\<forall>k \<in> {''fallbacks'', ''context_window_fallbacks'', ''content_policy_fallbacks''}. map_of kw k = None)"

lemma fe_plan_good:
  assumes "good_config L M E" "plain_request kw" "fe_plan E kw e m = Fallback g"
  shows "names_groups L M g"
proof -
  let ?fb = "r_fallbacks (fe_router E)" and ?cw = "r_context_window_fallbacks (fe_router E)"
    and ?cp = "r_content_policy_fallbacks (fe_router E)"
  have p: "fallback_plan (fe_providers E) (fe_params E) e ?fb ?cw ?cp m = Fallback g"
    using assms(2,3) by (simp add: fe_plan_def plain_request_def dict_get_def)
  have c: "good_list L M ?fb" "good_list L M ?cw" "good_list L M ?cp"
    "\<not> check_non_standard_fallback_format (fe_params E) ?fb" using assms(1) by (simp_all add: good_config_def)
  consider "?cw \<noteq> PNone" "plan_of (from_list ?cw (\<lambda>xs. get_fallback_model_group_from_fallbacks xs m)) = Fallback g"
    | "?cp \<noteq> PNone" "plan_of (from_list ?cp (\<lambda>xs. get_fallback_model_group_from_fallbacks xs m)) = Fallback g"
    | "?fb \<noteq> PNone" "plan_of (from_list ?fb (\<lambda>xs. map_sum id fst (get_fallback_model_group (fe_providers E) xs m))) = Fallback g"
    using p c(4) unfolding fallback_plan_def by (metis plan.distinct(1))
  then show ?thesis
  proof cases
    case 1
    show ?thesis by (rule plan_good_list [OF c(2) 1(1) from_fallbacks_dicts 1(2)])
  next
    case 2
    show ?thesis by (rule plan_good_list [OF c(3) 2(1) from_fallbacks_dicts 2(2)])
  next
    case 3
    have w: "\<exists>w. map_sum id fst (get_fallback_model_group (fe_providers E) xs m) = Inr w \<and> (w = PNone \<or> names_groups L M w)"
      if "dict_fallbacks L M xs" for xs
      using get_fallback_model_group_dicts [OF that, of "fe_providers E" m] by auto
    show ?thesis by (rule plan_good_list [OF c(1) 3(1) w 3(2)])
  qed
qed

subsection \<open>The attempts that are made\<close>

text \<open>An environment that also keeps the arguments of the attempts.\<close>

definition traced_env :: "'s fb_env \<Rightarrow> (kwargs list \<times> 's) fb_env" where
  "traced_env E =
     \<lparr>fe_router = fe_router E, fe_providers = fe_providers E, fe_params = fe_params E,
      fe_attempt = (\<lambda>kw p. case fe_attempt E kw (snd p) of (out, s') \<Rightarrow> (out, (fst p @ [kw], s'))),
      fe_event = (\<lambda>b p. (fst p, fe_event E b (snd p)))\<rparr>"

lemma traced_env_simps [simp]:
  "fe_plan (traced_env E) = fe_plan E" "max_of (traced_env E) = max_of E"
  "fe_attempt (traced_env E) kw (tr, s) = (fst (fe_attempt E kw s), (tr @ [kw], snd (fe_attempt E kw s)))"
  "fe_event (traced_env E) b (tr, s) = (tr, fe_event E b s)"
  by (simp_all add: traced_env_def fe_plan_def max_of_def fun_eq_iff split: prod.split)

definition in_models :: "string set \<Rightarrow> kwargs \<Rightarrow> bool" where
  "in_models M kw \<longleftrightarrow> (\<exists>m \<in> M. map_of kw ''model'' = Some (PStr m))"

text \<open>The traced run is the run itself with at most \<open>n\<close> new attempts, all of them on models of \<open>M\<close>.\<close>

definition attempts_ok ::
  "string set \<Rightarrow> nat \<Rightarrow> kwargs list \<Rightarrow> outcome \<times> 's \<Rightarrow> outcome \<times> (kwargs list \<times> 's) \<Rightarrow> bool" where
  "attempts_ok M n tr r r' \<longleftrightarrow>
     (\<exists>new. r' = (fst r, (tr @ new, snd r)) \<and> length new \<le> n \<and> (\<forall>kw \<in> set new. in_models M kw))"

lemma attempts_ok_mono: "attempts_ok M n tr r r' \<Longrightarrow> n \<le> n' \<Longrightarrow> attempts_ok M n' tr r r'"
  unfolding attempts_ok_def using order_trans by blast

lemma fallback_kwargs_plain:
  "plain_request kw \<Longrightarrow> plain_request (fallback_kwargs (PStr m) d mx kw)"
  "in_models M (fallback_kwargs (PStr m) d mx kw) \<longleftrightarrow> m \<in> M"
  by (simp_all add: plain_request_def in_models_def fallback_kwargs_def)

definition fallbacks_ok :: "'s fb_env \<Rightarrow> nat \<Rightarrow> string set \<Rightarrow> nat \<Rightarrow> bool" where
  "fallbacks_ok E L M g \<longleftrightarrow>
     (\<forall>kw tr s. plain_request kw \<longrightarrow> in_models M kw \<longrightarrow> gap (depth_of kw) (max_of E kw) \<le> g \<longrightarrow>
        attempts_ok M ((1 + L) ^ g) tr (async_function_with_fallbacks E kw s)
          (async_function_with_fallbacks (traced_env E) kw (tr, s)))"

lemma fallback_groups_ok:
  assumes "fallbacks_ok E L M g" "plain_request kw" "set ys \<subseteq> M" "nat (mx - d) \<le> Suc g"
  shows "attempts_ok M (length ys * (1 + L) ^ g) tr (fallback_groups E (map PStr ys) om e mx d kw s)
     (fallback_groups (traced_env E) (map PStr ys) om e mx d kw (tr, s))"
  using assms(2-)
proof (induction ys arbitrary: e d kw tr s)
  case Nil
  then show ?case by (simp add: attempts_ok_def)
next
  case (Cons y ys)
  show ?case
  proof (cases "PStr y = om")
    case True
    have "attempts_ok M (length ys * (1 + L) ^ g) tr (fallback_groups E (map PStr ys) om e mx d kw s)
       (fallback_groups (traced_env E) (map PStr ys) om e mx d kw (tr, s))"
      using Cons.IH [OF Cons.prems(1) _ Cons.prems(3)] Cons.prems(2) by simp
    then show ?thesis using True attempts_ok_mono by (fastforce intro: attempts_ok_mono)
  next
    case False
    let ?kw = "fallback_kwargs (PStr y) (d + 1) mx kw"
    have p: "plain_request ?kw" "in_models M ?kw" using Cons.prems(1,2) by (simp_all add: fallback_kwargs_plain)
    have "gap (depth_of ?kw) (max_of E ?kw) \<le> g" using Cons.prems(3) by (simp add: gap_def)
    then have "attempts_ok M ((1 + L) ^ g) tr (async_function_with_fallbacks E ?kw s)
        (async_function_with_fallbacks (traced_env E) ?kw (tr, s))"
      using assms(1) p unfolding fallbacks_ok_def by blast
    then obtain new where new: "async_function_with_fallbacks (traced_env E) ?kw (tr, s) =
        (fst (async_function_with_fallbacks E ?kw s), (tr @ new, snd (async_function_with_fallbacks E ?kw s)))"
      "length new \<le> (1 + L) ^ g" "\<forall>kw \<in> set new. in_models M kw" unfolding attempts_ok_def by blast
    obtain out s1 where call: "async_function_with_fallbacks E ?kw s = (out, s1)" by fastforce
    show ?thesis
    proof (cases out)
      case (Inr r)
      then show ?thesis using False new call by (auto simp: Let_def attempts_ok_def)
    next
      case (Inl e1)
      have "attempts_ok M (length ys * (1 + L) ^ g) (tr @ new)
         (fallback_groups E (map PStr ys) om e1 mx (d + 1) ?kw (fe_event E False s1))
         (fallback_groups (traced_env E) (map PStr ys) om e1 mx (d + 1) ?kw (tr @ new, fe_event E False s1))"
        using Cons.IH [OF p(1)] Cons.prems(2,3) by simp
      then show ?thesis using False new call Inl by (auto simp: Let_def attempts_ok_def)
    qed
  qed
qed

abbreviation base_kwargs :: "kwargs \<Rightarrow> kwargs" where
  "base_kwargs kw \<equiv> kwargs_pop [''disable_fallbacks'', ''mock_timeout''] kw"

text \<open>The request goes on to the fallback groups \<open>groups\<close> after its own attempt has failed with \<open>e\<close>.\<close>

definition falls_back :: "'s fb_env \<Rightarrow> kwargs \<Rightarrow> call_exc \<Rightarrow> string \<Rightarrow> int \<Rightarrow> int \<Rightarrow> pyval \<Rightarrow> bool" where
  "falls_back E kw e m d mx groups \<longleftrightarrow>
     model_name_of (base_kwargs kw) = Some m \<and> depth_of kw = Some d \<and> max_of E kw = Some mx \<and> d < mx \<and>
     dict_get kw ''disable_fallbacks'' (PBool False) \<noteq> PBool True \<and> fe_plan E (base_kwargs kw) e m = Fallback groups"

lemma async_no_fallback:
  assumes "fe_attempt E (base_kwargs kw) s = (Inl e, s1)" "\<nexists>m d mx groups. falls_back E kw e m d mx groups"
  shows "async_function_with_fallbacks E kw s = (Inl e, s1)"
  using assms by (subst async_function_with_fallbacks.simps)
    (auto simp: run_async_fallback.simps falls_back_def not_less Let_def split: option.split plan.split prod.split sum.split)

lemma async_fallback:
  assumes "fe_attempt E (base_kwargs kw) s = (Inl e, s1)" "falls_back E kw e m d mx (PList ts)"
  shows "async_function_with_fallbacks E kw s =
    (case fallback_groups E ts (PStr m) e mx d (kwargs_pop [''fallback_depth'', ''max_fallbacks''] (base_kwargs kw)) s1 of
       (out, s2) \<Rightarrow> (case out of Inr r \<Rightarrow> Inr r | Inl _ \<Rightarrow> Inl e, s2))"
  using assms by (subst async_function_with_fallbacks.simps)
    (auto simp: run_async_fallback.simps falls_back_def py_iter_def split: prod.split sum.split)

lemma async_success:
  "fe_attempt E (base_kwargs kw) s = (Inr r, s1) \<Longrightarrow>
   async_function_with_fallbacks E kw s = (Inr (add_fallback_headers_to_response r 0), s1)"
  by (subst async_function_with_fallbacks.simps) simp

lemma falls_back_traced [simp]: "falls_back (traced_env E) = falls_back E"
  by (simp add: falls_back_def fun_eq_iff)

lemma attempts_ok_one:
  assumes "in_models M kw" "0 < n"
  shows "attempts_ok M n tr (out, s) (out, (tr @ [kw], s))"
  using assms by (auto simp: attempts_ok_def)

lemma bound_step: "1 + n * (1 + L) ^ g \<le> (1 + L) ^ Suc g" if "n \<le> L" for n L g :: nat
proof -
  have "n * (1 + L) ^ g \<le> L * (1 + L) ^ g" using that by simp
  moreover have "1 \<le> (1 + L) ^ g" by simp
  ultimately have "1 + n * (1 + L) ^ g \<le> (1 + L) ^ g + L * (1 + L) ^ g" by linarith
  then show ?thesis by simp
qed

lemma async_fallbacks_ok:
  assumes "good_config L M E"
  shows "fallbacks_ok E L M g"
proof (induction g)
  case 0
  show ?case unfolding fallbacks_ok_def
  proof (intro allI impI)
    fix kw tr s assume kw: "plain_request kw" "in_models M kw" "gap (depth_of kw) (max_of E kw) \<le> 0"
    have m: "in_models M (base_kwargs kw)" using kw(2) by (simp add: in_models_def kwargs_pop_def)
    have n: "\<nexists>m d mx groups. falls_back E kw e m d mx groups" for e using kw(3) by (auto simp: falls_back_def gap_def)
    obtain out s1 where a: "fe_attempt E (base_kwargs kw) s = (out, s1)" by fastforce
    then have t: "fe_attempt (traced_env E) (base_kwargs kw) (tr, s) = (out, (tr @ [base_kwargs kw], s1))" by simp
    show "attempts_ok M ((1 + L) ^ 0) tr (async_function_with_fallbacks E kw s)
        (async_function_with_fallbacks (traced_env E) kw (tr, s))"
      using a t n m by (cases out) (simp_all add: async_success async_no_fallback attempts_ok_one)
  qed
next
  case (Suc g)
  show ?case unfolding fallbacks_ok_def
  proof (intro allI impI)
    fix kw tr s assume kw: "plain_request kw" "in_models M kw" "gap (depth_of kw) (max_of E kw) \<le> Suc g"
    have m: "in_models M (base_kwargs kw)" using kw(2) by (simp add: in_models_def kwargs_pop_def)
    have pl: "plain_request (base_kwargs kw)" "plain_request (kwargs_pop [''fallback_depth'', ''max_fallbacks''] (base_kwargs kw))"
      using kw(1) by (simp_all add: plain_request_def kwargs_pop_def)
    obtain out s1 where a: "fe_attempt E (base_kwargs kw) s = (out, s1)" by fastforce
    then have t: "fe_attempt (traced_env E) (base_kwargs kw) (tr, s) = (out, (tr @ [base_kwargs kw], s1))" by simp
    have pos: "0 < (1 + L) ^ Suc g" by simp
    show "attempts_ok M ((1 + L) ^ Suc g) tr (async_function_with_fallbacks E kw s)
        (async_function_with_fallbacks (traced_env E) kw (tr, s))"
    proof (cases "\<exists>e m d mx groups. out = Inl e \<and> falls_back E kw e m d mx groups")
      case False
      then show ?thesis
        using a t m pos by (cases out) (simp_all add: async_success async_no_fallback attempts_ok_one del: power_Suc)
    next
      case True
      then obtain e m d mx groups where f: "out = Inl e" "falls_back E kw e m d mx groups" by blast
      then have "names_groups L M groups" using fe_plan_good [OF assms pl(1)] unfolding falls_back_def by blast
      then obtain ys where ys: "groups = PList (map PStr ys)" "length ys \<le> L" "set ys \<subseteq> M"
        unfolding names_groups_def by blast
      have "nat (mx - d) \<le> Suc g" using kw(3) f(2) by (simp add: falls_back_def gap_def)
      from fallback_groups_ok [OF Suc.IH pl(2) ys(3) this, of "tr @ [base_kwargs kw]" "PStr m" e s1] obtain new where
        new: "fallback_groups (traced_env E) (map PStr ys) (PStr m) e mx d (kwargs_pop [''fallback_depth'', ''max_fallbacks''] (base_kwargs kw)) (tr @ [base_kwargs kw], s1) =
          (fst (fallback_groups E (map PStr ys) (PStr m) e mx d (kwargs_pop [''fallback_depth'', ''max_fallbacks''] (base_kwargs kw)) s1),
           ((tr @ [base_kwargs kw]) @ new, snd (fallback_groups E (map PStr ys) (PStr m) e mx d (kwargs_pop [''fallback_depth'', ''max_fallbacks''] (base_kwargs kw)) s1)))"
        "length new \<le> length ys * (1 + L) ^ g" "\<forall>kw \<in> set new. in_models M kw"
        unfolding attempts_ok_def by blast
      have len: "length (base_kwargs kw # new) \<le> (1 + L) ^ Suc g" using bound_step [OF ys(2), of g] new(2) by simp
      show ?thesis
        unfolding attempts_ok_def
        using async_fallback [of E kw s e s1 m d mx "map PStr ys"] async_fallback [of "traced_env E" kw "(tr, s)" e _ m d mx "map PStr ys"]
          a t f ys(1) new(1,3) len m
        by (intro exI [of _ "base_kwargs kw # new"]) (simp split: prod.split)
    qed
  qed
qed

subsection \<open>Properties\<close>

text \<open>The router: an attempt is a call with retries.\<close>

definition router_env :: "'s world \<Rightarrow> retry_router \<Rightarrow> string list \<Rightarrow> string list \<Rightarrow> (bool \<Rightarrow> 's \<Rightarrow> 's) \<Rightarrow> 's fb_env" where
  "router_env W R providers params event =
     \<lparr>fe_router = R, fe_providers = providers, fe_params = params, fe_attempt = async_function_with_retries W R, fe_event = event\<rparr>"

definition m_to_b :: "nat fb_env" where
  "m_to_b = router_env flaky
     (plain_router\<lparr>r_fallbacks := PList [PDict [(''m'', PList [PStr ''b''])]], r_max_fallbacks := 1\<rparr>)
     [''openai''] [''model''] (\<lambda>_ s. s)"

definition ask_m :: kwargs where
  "ask_m = [(''model'', PStr ''m''), (''num_retries'', PInt 0)]"

lemma m_to_b_facts:
  "good_config 1 {''m'', ''b''} m_to_b" "plain_request ask_m" "in_models {''m'', ''b''} ask_m"
  "depth_of ask_m = Some 0" "max_of m_to_b ask_m = Some 1"
proof -
  have "names_groups 1 {''m'', ''b''} (PList [PStr ''b''])" unfolding names_groups_def by (intro exI [of _ "[''b'']"]) simp
  then show "good_config 1 {''m'', ''b''} m_to_b"
    by (simp add: good_config_def good_list_def dict_fallbacks_def m_to_b_def router_env_def plain_router_def
        check_non_standard_fallback_format_def)
qed (simp_all add: plain_request_def in_models_def ask_m_def depth_of_def max_of_def dict_get_def m_to_b_def router_env_def)

text \<open>
  Property C10. With lists of at most \<open>L\<close> groups, all of them in \<open>M\<close>, and a request without
  lists of its own, the recursion of fallbacks makes at most \<open>(1 + L)\<close> to the power of the remaining
  depth attempts, every one of them on a model of \<open>M\<close>, whatever the attempts return.
\<close>

theorem fallback_attempts_bounded:
  assumes "good_config L M E" "plain_request kw" "in_models M kw"
  shows "\<exists>new. async_function_with_fallbacks (traced_env E) kw ([], s) =
      (fst (async_function_with_fallbacks E kw s), (new, snd (async_function_with_fallbacks E kw s))) \<and>
    length new \<le> (1 + L) ^ gap (depth_of kw) (max_of E kw) \<and> (\<forall>k \<in> set new. in_models M k)"
  using async_fallbacks_ok [OF assms(1), of "gap (depth_of kw) (max_of E kw)"] assms(2,3)
  unfolding fallbacks_ok_def attempts_ok_def by fastforce

theorem fallback_attempts_bounded_witness:
  "\<exists>new. async_function_with_fallbacks (traced_env m_to_b) ask_m ([], 5) =
      (fst (async_function_with_fallbacks m_to_b ask_m 5), (new, snd (async_function_with_fallbacks m_to_b ask_m 5))) \<and>
    length new \<le> 2 \<and> (\<forall>k \<in> set new. in_models {''m'', ''b''} k)"
  using fallback_attempts_bounded [OF m_to_b_facts(1,2,3), of 5] unfolding m_to_b_facts(4,5) by (simp add: gap_def numeral_2_eq_2)



text \<open>The specification of a chain of fallbacks: the first group that answers.\<close>

fun try_in_order :: "'s fb_env \<Rightarrow> string list \<Rightarrow> int \<Rightarrow> int \<Rightarrow> kwargs \<Rightarrow> 's \<Rightarrow> response option \<times> 's" where
  "try_in_order E [] mx d kw s = (None, s)"
| "try_in_order E (y # ys) mx d kw s =
     (let kw1 = fallback_kwargs (PStr y) (d + 1) mx kw in
      case fe_attempt E (base_kwargs kw1) s of
        (Inr r, s1) \<Rightarrow> (Some (add_fallback_headers_to_response (add_fallback_headers_to_response r 0) (d + 1)), fe_event E True s1)
      | (Inl e, s1) \<Rightarrow> try_in_order E ys mx (d + 1) kw1 (fe_event E False s1))"

lemma fallback_groups_in_order:
  assumes "\<forall>y \<in> set ys. PStr y \<noteq> om \<and> (\<forall>k e. plain_request k \<longrightarrow> fe_plan E k e y = RaiseOriginal)" "plain_request kw"
  shows "fallback_groups E (map PStr ys) om e mx d kw s = (Inl e', s') \<Longrightarrow> try_in_order E ys mx d kw s = (None, s')"
    and "fallback_groups E (map PStr ys) om e mx d kw s = (Inr r, s') \<Longrightarrow> try_in_order E ys mx d kw s = (Some r, s')"
proof -
  have "case fallback_groups E (map PStr ys) om e mx d kw s of (out, s') \<Rightarrow>
      try_in_order E ys mx d kw s = (case out of Inl _ \<Rightarrow> None | Inr r \<Rightarrow> Some r, s')"
    using assms
  proof (induction ys arbitrary: e d kw s)
    case (Cons y ys)
    let ?kw = "fallback_kwargs (PStr y) (d + 1) mx kw"
    have pl: "plain_request ?kw" "plain_request (base_kwargs ?kw)"
      using fallback_kwargs_plain(1) [OF Cons.prems(2)] by (simp_all add: plain_request_def kwargs_pop_def)
    have "model_name_of (base_kwargs ?kw) = Some y" by (simp add: model_name_of_def kwargs_pop_def fallback_kwargs_def)
    then have n: "\<nexists>m d mx groups. falls_back E ?kw e1 m d mx groups" for e1
      using Cons.prems(1) pl(2) by (auto simp: falls_back_def)
    obtain out s1 where a: "fe_attempt E (base_kwargs ?kw) s = (out, s1)" by fastforce
    show ?case
    proof (cases out)
      case (Inr r)
      then show ?thesis using Cons.prems(1) async_success [of E ?kw s r s1] a by (simp add: Let_def)
    next
      case (Inl e1)
      then have "async_function_with_fallbacks E ?kw s = (Inl e1, s1)" using async_no_fallback a n by metis
      then show ?thesis using Cons.IH [OF _ pl(1), where e = e1 and d = "d + 1" and s = "fe_event E False s1"] Cons.prems(1) a Inl by (simp add: Let_def)
    qed
  qed simp
  then show "fallback_groups E (map PStr ys) om e mx d kw s = (Inl e', s') \<Longrightarrow> try_in_order E ys mx d kw s = (None, s')"
    "fallback_groups E (map PStr ys) om e mx d kw s = (Inr r, s') \<Longrightarrow> try_in_order E ys mx d kw s = (Some r, s')"
    by auto
qed

text \<open>
  Property C24. A request that fails and falls back to groups without fallbacks of their own gets the
  answer of the first of them, in the order of the list, that answers; if none does, its own error is
  raised.
\<close>

theorem fallbacks_refine_order:
  assumes "fe_attempt E (base_kwargs kw) s = (Inl e, s1)" "falls_back E kw e m d mx (PList (map PStr ys))" "plain_request kw"
    and "m \<notin> set ys" "\<forall>y \<in> set ys. \<forall>k e. plain_request k \<longrightarrow> fe_plan E k e y = RaiseOriginal"
  shows "async_function_with_fallbacks E kw s =
    (case try_in_order E ys mx d (kwargs_pop [''fallback_depth'', ''max_fallbacks''] (base_kwargs kw)) s1 of
       (Some r, s2) \<Rightarrow> (Inr r, s2)
     | (None, s2) \<Rightarrow> (Inl e, s2))"
proof -
  let ?kw = "kwargs_pop [''fallback_depth'', ''max_fallbacks''] (base_kwargs kw)"
  have pl: "plain_request ?kw" using assms(3) by (simp add: plain_request_def kwargs_pop_def)
  have ys: "\<forall>y \<in> set ys. PStr y \<noteq> PStr m \<and> (\<forall>k e. plain_request k \<longrightarrow> fe_plan E k e y = RaiseOriginal)"
    using assms(4,5) by auto
  obtain out s2 where o: "fallback_groups E (map PStr ys) (PStr m) e mx d ?kw s1 = (out, s2)" by fastforce
  then show ?thesis
    using async_fallback [OF assms(1,2)] fallback_groups_in_order [OF ys pl, of e mx d s1] by (cases out) simp_all
qed

theorem fallbacks_refine_order_witness:
  "\<exists>r s'. async_function_with_fallbacks m_to_b ask_m 1 = (Inr r, s') \<and> body r = ''ok''"
proof -
  let ?e = "(plain_exc ''busy'')\<lparr>status_code := Some 503\<rparr>"
  have a: "fe_attempt m_to_b (base_kwargs ask_m) 1 = (Inl ?e, 0)" by code_simp
  have f: "falls_back m_to_b ask_m ?e ''m'' 0 1 (PList (map PStr [''b'']))" by code_simp
  have b: "fe_plan m_to_b k e ''b'' = RaiseOriginal" if "plain_request k" for k e
  proof -
    have "get_fallback_model_group [''openai''] [PDict [(''m'', PList [PStr ''b''])]] ''b'' = Inr (PNone, None, [PDict [(''m'', PList [PStr ''b''])]])"
      by code_simp
    then show ?thesis
      using that by (simp add: fe_plan_def fallback_plan_def plain_request_def dict_get_def m_to_b_def router_env_def plain_router_def
        check_non_standard_fallback_format_def plan_of_def from_list_def)
  qed
  have t: "try_in_order m_to_b [''b''] 1 0 (kwargs_pop [''fallback_depth'', ''max_fallbacks''] (base_kwargs ask_m)) 0 =
    (Some \<lparr>is_base_model = True, additional_headers = [(''x-litellm-attempted-retries'', 0), (''x-litellm-attempted-fallbacks'', 1)],
       body = ''ok''\<rparr>, 0)" by code_simp
  show ?thesis using fallbacks_refine_order [OF a f m_to_b_facts(2)] b t by simp
qed

text \<open>
  A string in a list that also holds dicts is taken out of the list, which is the one of the
  configuration: the next request finds no fallback.
\<close>

lemma mixed_list_consumed:
  "get_fallback_model_group [] [PDict [(''a'', PList [])], PStr ''b''] ''m'' =
     Inr (PList [PStr ''b''], None, [PDict [(''a'', PList [])]])"
  "get_fallback_model_group [] [PDict [(''a'', PList [])]] ''m'' = Inr (PNone, None, [PDict [(''a'', PList [])]])"
  by code_simp+

end
