(* ===== verification/RouteChecks.thy ===== *)
theory RouteChecks
  imports ModelAccess RouteTables RouteMatch Masker Fallbacks
begin

text \<open>
  \<^verbatim>\<open>RouteChecks\<close> of \<^verbatim>\<open>proxy/auth/route_checks.py\<close>, the checks of roles in organizations of
  \<^verbatim>\<open>auth_checks_organization.py\<close> and \<^verbatim>\<open>_is_allowed_route\<close> of \<^verbatim>\<open>auth_checks.py\<close>: which routes of the proxy a key and
  its user may call. The check of the enterprise package is a parameter (\<open>route_env\<close>), as are the settings,
  the root path of the server and the keys of the registry of pass-through endpoints. The text of
  the exceptions is left out. The theory shows what a key with routes of its own may call and who may
  call the routes that create, change or delete users and teams.
\<close>

subsection \<open>Roles and settings\<close>

datatype LitellmUserRoles =
    PROXY_ADMIN | PROXY_ADMIN_VIEW_ONLY | ORG_ADMIN | INTERNAL_USER | INTERNAL_USER_VIEW_ONLY | TEAM | CUSTOMER

fun role_value :: "LitellmUserRoles \<Rightarrow> string" where
  "role_value PROXY_ADMIN = ''proxy_admin''"
| "role_value PROXY_ADMIN_VIEW_ONLY = ''proxy_admin_viewer''"
| "role_value ORG_ADMIN = ''org_admin''"
| "role_value INTERNAL_USER = ''internal_user''"
| "role_value INTERNAL_USER_VIEW_ONLY = ''internal_user_viewer''"
| "role_value TEAM = ''team''"
| "role_value CUSTOMER = ''customer''"

definition all_roles :: "LitellmUserRoles list" where
  "all_roles = [PROXY_ADMIN, PROXY_ADMIN_VIEW_ONLY, ORG_ADMIN, INTERNAL_USER, INTERNAL_USER_VIEW_ONLY, TEAM, CUSTOMER]"

record route_env =
  enterprise_route_check :: "string \<Rightarrow> unit pyres"
  admin_only_routes :: "string list option" \<comment> \<open>of \<^verbatim>\<open>general_settings\<close>\<close>
  premium_user :: bool
  server_root_path :: string
  pass_through_keys :: "string list" \<comment> \<open>of \<^verbatim>\<open>_registered_pass_through_routes\<close>\<close>

abbreviation http_error :: "'a pyres" where "http_error \<equiv> Inl (OtherError ''HTTPException'')"

abbreviation admin_only_error :: "unit pyres" where "admin_only_error \<equiv> Inl (OtherError ''Exception'')"

definition get_user_role :: "user_obj option \<Rightarrow> LitellmUserRoles option" where
  "get_user_role user_obj =
     (case user_obj of
        None \<Rightarrow> None
      | Some u \<Rightarrow>
        (case find (\<lambda>r. user_role_of u = Some (role_value r)) all_roles of
           Some r \<Rightarrow> Some r
         | None \<Rightarrow> Some INTERNAL_USER))"

definition is_user_proxy_admin :: "user_obj option \<Rightarrow> bool" where
  "is_user_proxy_admin user_obj \<longleftrightarrow>
     (case user_obj of None \<Rightarrow> False | Some u \<Rightarrow> user_role_of u = Some (role_value PROXY_ADMIN))"

subsection \<open>Kinds of routes\<close>

text \<open>The two expressions of the code are those of these patterns.\<close>

definition is_azure_openai_route :: "string \<Rightarrow> bool" where
  "is_azure_openai_route path \<longleftrightarrow>
     route_matches_pattern path ''/openai/deployments/{provider}/{model}/chat/completions'' \<or>
     route_matches_pattern path ''/engines/{model}/chat/completions''"

definition is_llm_api_route :: "string \<Rightarrow> bool" where
  "is_llm_api_route path \<longleftrightarrow>
     path \<in> set openai_routes \<or>
     path \<in> set anthropic_routes \<or>
     path \<in> set google_routes \<or>
     check_route_access path mcp_routes \<or>
     check_route_access path agent_routes \<or>
     path \<in> set litellm_native_routes \<or>
     list_ex (\<lambda>p. CHR ''{'' \<in> set p \<and> route_matches_pattern path p \<or>
                  route_is_wildcard_pattern p \<and> route_matches_wildcard_pattern path p) openai_routes \<or>
     list_ex (\<lambda>p. CHR ''{'' \<in> set p \<and> route_matches_pattern path p) google_routes \<or>
     list_ex (\<lambda>p. CHR ''{'' \<in> set p \<and> route_matches_pattern path p) anthropic_routes \<or>
     is_azure_openai_route path \<or>
     list_ex (\<lambda>p. str_in p path) mapped_pass_through_routes"

definition is_management_route :: "string \<Rightarrow> bool" where
  "is_management_route path \<longleftrightarrow> path \<in> set management_routes"

definition is_info_route :: "string \<Rightarrow> bool" where
  "is_info_route path \<longleftrightarrow> path \<in> set info_routes"

definition is_mcp_route :: "string \<Rightarrow> bool" where
  "is_mcp_route path \<longleftrightarrow> path \<in> set mcp_routes \<or> check_route_access path mcp_routes"

definition is_generate_content_route :: "string \<Rightarrow> bool" where
  "is_generate_content_route path \<longleftrightarrow> str_in ''generateContent'' path \<or> str_in ''streamGenerateContent'' path"

definition is_assistants_api_request :: "string \<Rightarrow> bool" where
  "is_assistants_api_request path \<longleftrightarrow> str_in ''thread'' path \<or> str_in ''assistant'' path"

subsection \<open>Registered pass-through endpoints\<close>

definition normalize_route_for_root_path :: "string \<Rightarrow> string \<Rightarrow> string option" where
  "normalize_route_for_root_path root_path path =
     (if root_path \<noteq> [] \<and> root_path \<noteq> ''/''
      then if starts_with (root_path @ ''/'') path then Some (drop (length root_path) path) else None
      else Some path)"

definition build_full_path_with_root :: "string \<Rightarrow> string \<Rightarrow> string" where
  "build_full_path_with_root root_path p = (if root_path = ''/'' then p else root_path @ p)"

text \<open>A key is \<^verbatim>\<open>id:exact:path\<close> or \<^verbatim>\<open>id:subpath:path\<close>, perhaps with methods behind.\<close>

definition key_registers :: "string \<Rightarrow> string \<Rightarrow> string \<Rightarrow> bool" where
  "key_registers root_path path key \<longleftrightarrow>
     (case split_on (CHR '':'') key of
        _ # route_type # reg # _ \<Rightarrow>
          let registered_path = build_full_path_with_root root_path reg in
          route_type = ''exact'' \<and> path = registered_path \<or>
          route_type = ''subpath'' \<and> (path = registered_path \<or> starts_with (registered_path @ ''/'') path)
      | _ \<Rightarrow> False)"

definition is_registered_pass_through_route :: "route_env \<Rightarrow> string \<Rightarrow> bool" where
  "is_registered_pass_through_route E path \<longleftrightarrow>
     (case normalize_route_for_root_path (server_root_path E) path of
        None \<Rightarrow> False
      | Some r \<Rightarrow> list_ex (\<lambda>p. starts_with p r) mapped_pass_through_routes) \<or>
     list_ex (key_registers (server_root_path E) path) (pass_through_keys E)"

subsection \<open>Routes of a key\<close>

definition group_allows :: "route_env \<Rightarrow> string \<Rightarrow> string \<Rightarrow> bool" where
  "group_allows E path allowed_route \<longleftrightarrow>
     (case map_of LiteLLMRoutes allowed_route of
        None \<Rightarrow> False
      | Some routes \<Rightarrow>
        check_route_access path routes \<or>
        allowed_route = ''llm_api_routes'' \<and> is_registered_pass_through_route E path)"

definition is_virtual_key_allowed_to_call_route :: "route_env \<Rightarrow> string \<Rightarrow> key_obj \<Rightarrow> bool pyres" where
  "is_virtual_key_allowed_to_call_route E path valid_token =
     (case key_allowed_routes valid_token of
        None \<Rightarrow> Inr True
      | Some [] \<Rightarrow> Inr True
      | Some rs \<Rightarrow>
        if list_ex (route_matches_allowed_route path) rs then Inr True
        else if list_ex (group_allows E path) rs then Inr True
        else if list_ex (route_matches_wildcard_pattern path) rs then Inr True
        else http_error)"

definition should_call_route :: "route_env \<Rightarrow> string \<Rightarrow> key_obj \<Rightarrow> bool pyres" where
  "should_call_route E path valid_token =
     (if enterprise_route_check E path = http_error then http_error
      else case is_virtual_key_allowed_to_call_route E path valid_token of
        Inl e \<Rightarrow> Inl e
      | Inr _ \<Rightarrow> Inr True)"

subsection \<open>Routes of a user\<close>

definition mask_user_id :: "string \<Rightarrow> string" where
  "mask_user_id user_id =
     (if user_id = [] \<or> py_len user_id \<le> 4 then ''***''
      else mask_value (masker_init None None 6 2 ''*'') user_id)"

definition custom_admin_only_route_check :: "route_env \<Rightarrow> string \<Rightarrow> unit pyres" where
  "custom_admin_only_route_check E path =
     (case admin_only_routes E of
        None \<Rightarrow> Inr ()
      | Some rs \<Rightarrow> if \<not> premium_user E then Inr () else if path \<in> set rs then http_error else Inr ())"

text \<open>The loop over the values that the metadata of a key or a team allow.\<close>

definition check_passthrough_route_access :: "string \<Rightarrow> key_obj \<Rightarrow> bool pyres" where
  "check_passthrough_route_access path k =
     (let metadata = key_metadata k;
          team_metadata = (case key_team_metadata k of None \<Rightarrow> [] | Some m \<Rightarrow> m);
          n = ''allowed_passthrough_routes'' in
      if map_of metadata n = None \<and> map_of team_metadata n = None then Inr False
      else if dict_get metadata n PNone = PNone \<and> dict_get team_metadata n PNone = PNone then Inr False
      else case py_iter (py_or (py_or (dict_get metadata n PNone) (dict_get team_metadata n PNone)) (PList [])) of
        None \<Rightarrow> Inl TypeError
      | Some xs \<Rightarrow>
        any_of (\<lambda>x. case x of PStr a \<Rightarrow> Inr (route_matches_allowed_route path a) | _ \<Rightarrow> Inl TypeError) xs)"

definition viewer_blocked_routes :: "string list" where
  "viewer_blocked_routes = [
     ''/user/new'', ''/user/delete'', ''/team/new'', ''/team/update'', ''/team/delete'', ''/model/new'',
     ''/model/update'', ''/model/delete'', ''/key/generate'', ''/key/delete'', ''/key/update'',
     ''/key/regenerate'', ''/key/service-account/generate'', ''/key/block'', ''/key/unblock'']"

definition check_proxy_admin_viewer_access :: "string \<Rightarrow> (string, pyval) dict \<Rightarrow> unit pyres" where
  "check_proxy_admin_viewer_access path request_data =
     (if is_llm_api_route path then http_error
      else if check_route_access path management_routes then
        (if path = ''/user/update''
         then if list_ex (\<lambda>param. param \<notin> {''user_email'', ''password''}) (dict_keys request_data) then http_error else Inr ()
         else if path \<in> set viewer_blocked_routes \<or> starts_with ''/key/'' path \<and> ends_with ''/regenerate'' path then http_error
         else Inr ())
      else if check_route_access path admin_viewer_routes then Inr ()
      else if check_route_access path global_spend_tracking_routes then Inr ()
      else http_error)"

definition candidate_org_ids :: "(string, pyval) dict \<Rightarrow> pyval list" where
  "candidate_org_ids request_data =
     (let singular = dict_get request_data ''organization_id'' PNone in
      (if singular \<noteq> PNone then [singular] else []) @
      (case dict_get request_data ''organizations'' PNone of PList xs \<Rightarrow> xs | _ \<Rightarrow> []))"

definition user_is_org_admin :: "(string, pyval) dict \<Rightarrow> user_obj option \<Rightarrow> bool" where
  "user_is_org_admin request_data user_object \<longleftrightarrow>
     (case user_object of
        None \<Rightarrow> False
      | Some u \<Rightarrow>
        (case organization_memberships u of
           None \<Rightarrow> False
         | Some ms \<Rightarrow>
           list_ex (\<lambda>m. PStr (membership_org m) \<in> set (candidate_org_ids request_data) \<and>
                        membership_role m = Some (role_value ORG_ADMIN)) ms))"

text \<open>\<open>query_user_id\<close> is the parameter of the query.\<close>

definition non_proxy_admin_allowed_routes_check ::
  "route_env \<Rightarrow> user_obj option \<Rightarrow> LitellmUserRoles option \<Rightarrow> string \<Rightarrow> string option \<Rightarrow> key_obj \<Rightarrow> (string, pyval) dict \<Rightarrow> unit pyres" where
  "non_proxy_admin_allowed_routes_check E user_obj role path query_user_id valid_token request_data =
     (case custom_admin_only_route_check E path of
        Inl e \<Rightarrow> Inl e
      | Inr _ \<Rightarrow>
        if is_llm_api_route path then Inr ()
        else if is_info_route path then
          (if path = ''/user/info'' \<and> (case query_user_id of None \<Rightarrow> False | Some i \<Rightarrow> i \<noteq> [] \<and> key_user_id valid_token \<noteq> Some i)
           then http_error else Inr ())
        else if path \<in> set global_spend_tracking_routes \<and> map_of (key_permissions valid_token) ''get_spend_routes'' \<noteq> None then Inr ()
        else if role = Some PROXY_ADMIN_VIEW_ONLY then check_proxy_admin_viewer_access path request_data
        else if role = Some INTERNAL_USER \<and> check_route_access path internal_user_routes then Inr ()
        else if user_is_org_admin request_data user_obj \<and> check_route_access path org_admin_allowed_routes then Inr ()
        else if role = Some INTERNAL_USER_VIEW_ONLY \<and> check_route_access path internal_user_view_only_routes then Inr ()
        else if check_route_access path self_managed_routes then Inr ()
        else if starts_with ''/v1/mcp/'' path \<or> starts_with ''/mcp-rest/'' path then Inr ()
        else case check_passthrough_route_access path valid_token of
          Inl e \<Rightarrow> Inl e
        | Inr True \<Rightarrow> Inr ()
        | Inr False \<Rightarrow>
          (case key_allowed_routes valid_token of
             None \<Rightarrow> admin_only_error
           | Some rs \<Rightarrow>
             if list_ex (\<lambda>a. route_matches_allowed_route path a \<or> route_matches_wildcard_pattern path a) rs
             then Inr () else admin_only_error))"

definition is_ui_route :: "string \<Rightarrow> bool" where
  "is_ui_route path \<longleftrightarrow>
     list_ex (\<lambda>a. starts_with a path) ui_routes \<or> list_ex (route_matches_pattern path) ui_routes"

definition is_api_route_allowed ::
  "route_env \<Rightarrow> string \<Rightarrow> string option \<Rightarrow> (string, pyval) dict \<Rightarrow> key_obj option \<Rightarrow> user_obj option \<Rightarrow> unit pyres" where
  "is_api_route_allowed E path query_user_id request_data valid_token user_obj =
     (case valid_token of
        None \<Rightarrow> Inl (OtherError ''Exception'')
      | Some k \<Rightarrow>
        if \<not> is_user_proxy_admin user_obj
        then non_proxy_admin_allowed_routes_check E user_obj (get_user_role user_obj) path query_user_id k request_data
        else Inr ())"

definition is_allowed_route ::
  "route_env \<Rightarrow> string \<Rightarrow> bool \<Rightarrow> string option \<Rightarrow> (string, pyval) dict \<Rightarrow> key_obj option \<Rightarrow> user_obj option \<Rightarrow> unit pyres" where
  "is_allowed_route E path ui_token query_user_id request_data valid_token user_obj =
     (if ui_token \<and> is_ui_route path then Inr ()
      else is_api_route_allowed E path query_user_id request_data valid_token user_obj)"

subsection \<open>Roles in organizations\<close>

definition get_user_organization_info :: "user_obj \<Rightarrow> string list \<times> (string, string option) dict" where
  "get_user_organization_info u =
     (let ms = (case organization_memberships u of None \<Rightarrow> [] | Some ms \<Rightarrow> ms) in
      (map membership_org ms, fold (\<lambda>m. AList.update (membership_org m) (membership_role m)) ms []))"

text \<open>\<^verbatim>\<open>mapping.get(v)\<close> of a dict with strings as keys.\<close>

definition role_get :: "(string, string option) dict \<Rightarrow> pyval \<Rightarrow> string option pyres" where
  "role_get mapping v =
     (case v of
        PStr s \<Rightarrow> Inr (dict_get mapping s None)
      | PList _ \<Rightarrow> Inl TypeError
      | PSet _ \<Rightarrow> Inl TypeError
      | PDict _ \<Rightarrow> Inl TypeError
      | _ \<Rightarrow> Inr None)"

definition organization_role_based_access_check :: "(string, pyval) dict \<Rightarrow> user_obj option \<Rightarrow> string \<Rightarrow> unit pyres" where
  "organization_role_based_access_check request_body user_object path =
     (case user_object of
        None \<Rightarrow> Inr ()
      | Some u \<Rightarrow>
        let passed_organization_id = dict_get request_body ''organization_id'' PNone;
            required = (case role_get (snd (get_user_organization_info u)) passed_organization_id of
                Inl e \<Rightarrow> Inl e
              | Inr user_role \<Rightarrow> if user_role \<noteq> Some (role_value ORG_ADMIN) then Inl access_denied else Inr ()) in
        if path = ''/organization/new'' \<and> user_role_of u \<noteq> Some (role_value PROXY_ADMIN) then Inl access_denied
        else if user_role_of u = Some (role_value PROXY_ADMIN) then Inr ()
        else if path \<in> set org_admin_only_routes then
          (if organization_memberships u = None then Inl access_denied
           else if passed_organization_id = PNone then Inl access_denied
           else required)
        else if path = ''/team/new'' then
          (case organization_memberships u of
             Some (_ # _) \<Rightarrow> if passed_organization_id = PNone then Inl access_denied else required
           | _ \<Rightarrow> Inr ())
        else Inr ())"

subsection \<open>Routes that change users and teams\<close>

definition account_routes :: "string list" where
  "account_routes = [''/user/new'', ''/user/delete'', ''/team/new'', ''/team/update'', ''/team/delete'']"

text \<open>What the tables say of them.\<close>

definition only_for_admins :: "string \<Rightarrow> bool" where
  "only_for_admins path \<longleftrightarrow>
     \<not> is_llm_api_route path \<and> \<not> is_info_route path \<and> path \<notin> set global_spend_tracking_routes \<and>
     \<not> check_route_access path internal_user_routes \<and> \<not> check_route_access path internal_user_view_only_routes \<and>
     \<not> check_route_access path self_managed_routes \<and> \<not> starts_with ''/v1/mcp/'' path \<and> \<not> starts_with ''/mcp-rest/'' path \<and>
     \<not> is_ui_route path"

lemma account_routes_only_for_admins: "list_all only_for_admins account_routes"
  by code_simp

lemma account_route_tables:
  assumes "path \<in> set account_routes"
  shows "path \<in> set management_routes" "path \<in> set viewer_blocked_routes" "path \<noteq> ''/user/update''"
  using assms by (auto simp: account_routes_def management_routes_def viewer_blocked_routes_def)

lemma viewer_refused:
  assumes "path \<in> set account_routes"
  shows "check_proxy_admin_viewer_access path request_data = http_error"
  using account_route_tables [OF assms] by (simp add: check_proxy_admin_viewer_access_def check_route_access_def)

text \<open>The routes that the metadata of a key or of its team list, and what covers a path.\<close>

definition passthrough_routes_of :: "key_obj \<Rightarrow> string set" where
  "passthrough_routes_of k =
     {a. \<exists>m xs. (m = key_metadata k \<or> key_team_metadata k = Some m) \<and>
          py_iter (dict_get m ''allowed_passthrough_routes'' PNone) = Some xs \<and> PStr a \<in> set xs}"

definition below :: "string \<Rightarrow> string \<Rightarrow> bool" where
  "below path a \<longleftrightarrow> prefix (segments a) (segments path)"

definition within_star :: "string \<Rightarrow> string \<Rightarrow> bool" where
  "within_star path a \<longleftrightarrow> (\<exists>p t. a = p @ ''*'' \<and> path = p @ t)"

lemma allowed_or_wildcard:
  "route_matches_allowed_route path a \<or> route_matches_wildcard_pattern path a \<longleftrightarrow> below path a \<or> within_star path a"
  by (auto simp: allowed_route_prefix below_def within_star_def wildcard_spec)

lemma any_of_true: "any_of f xs = Inr True \<Longrightarrow> \<exists>x \<in> set xs. f x = Inr True"
  by (induction xs) (auto split: sum.splits if_splits)

lemma passthrough_access_true:
  assumes "check_passthrough_route_access path k = Inr True"
  shows "\<exists>a \<in> passthrough_routes_of k. below path a"
proof -
  let ?n = "''allowed_passthrough_routes''"
  let ?m = "dict_get (key_metadata k) ?n PNone"
  let ?t = "dict_get (case key_team_metadata k of None \<Rightarrow> [] | Some m \<Rightarrow> m) ?n PNone"
  obtain xs where xs: "py_iter (py_or (py_or ?m ?t) (PList [])) = Some xs"
    and "any_of (\<lambda>x. case x of PStr a \<Rightarrow> Inr (route_matches_allowed_route path a) | _ \<Rightarrow> Inl TypeError) xs = Inr True"
    using assms by (auto simp: check_passthrough_route_access_def Let_def split: if_splits option.splits)
  from any_of_true [OF this(2)] obtain x where "x \<in> set xs"
    "(case x of PStr a \<Rightarrow> Inr (route_matches_allowed_route path a) | _ \<Rightarrow> Inl TypeError) = Inr True" by blast
  then obtain a where a: "PStr a \<in> set xs" "route_matches_allowed_route path a" by - (cases x; auto)
  have "py_or (py_or ?m ?t) (PList []) \<in> {?m, ?t, PList []}" by (simp add: py_or_def)
  moreover have "py_or (py_or ?m ?t) (PList []) \<noteq> PList []" using xs a(1) by (auto simp: py_iter_def)
  ultimately consider "py_iter ?m = Some xs" | "py_iter ?t = Some xs" using xs by auto
  then have "a \<in> passthrough_routes_of k"
  proof cases
    case 1
    then show ?thesis using a(1) by (auto simp: passthrough_routes_of_def)
  next
    case 2
    then show ?thesis using a(1) by (cases "key_team_metadata k") (auto simp: passthrough_routes_of_def dict_get_def py_iter_def)
  qed
  then show ?thesis using a(2) by (auto simp: allowed_route_prefix below_def)
qed

subsection \<open>Properties\<close>


definition plain_routes :: route_env where
  "plain_routes = \<lparr>enterprise_route_check = (\<lambda>_. Inr ()), admin_only_routes = None, premium_user = False,
     server_root_path = [], pass_through_keys = []\<rparr>"

definition routes_key :: "string list \<Rightarrow> key_obj" where
  "routes_key rs = (plain_key [])\<lparr>key_allowed_routes := Some rs\<rparr>"

definition user_with_role :: "LitellmUserRoles \<Rightarrow> user_obj" where
  "user_with_role r = \<lparr>user_models = [], user_spend = 0, user_max_budget = None, user_id_of = ''u'',
     user_role_of = Some (role_value r), organization_memberships = None\<rparr>"

lemma plain_routes_pass: "custom_admin_only_route_check plain_routes path = Inr ()"
  by (simp add: custom_admin_only_route_check_def plain_routes_def)


text \<open>
  Property C16. A key with a list of routes that names none of the tables may call exactly the routes at or below
  one of its routes, segment by segment, and those that begin with what is before a final star; with any
  other route it is refused.
\<close>

theorem key_confined_to_its_routes:
  assumes "key_allowed_routes k = Some rs" "rs \<noteq> []" "\<forall>a \<in> set rs. map_of LiteLLMRoutes a = None"
    and "enterprise_route_check E path \<noteq> http_error"
  shows "should_call_route E path k =
    (if \<exists>a \<in> set rs. below path a \<or> within_star path a then Inr True else http_error)"
proof -
  have "\<not> list_ex (group_allows E path) rs" using assms(3) by (auto simp: list_ex_iff group_allows_def)
  then have "is_virtual_key_allowed_to_call_route E path k =
      (if \<exists>a \<in> set rs. route_matches_allowed_route path a \<or> route_matches_wildcard_pattern path a then Inr True else http_error)"
    using assms(1,2) by (auto simp: is_virtual_key_allowed_to_call_route_def list_ex_iff split: list.split)
  then show ?thesis using assms(4) by (simp add: should_call_route_def allowed_or_wildcard)
qed

theorem key_confined_to_its_routes_witness:
  "should_call_route plain_routes ''/v1/files/f1'' (routes_key [''/v1/files'']) = Inr True \<and>
   should_call_route plain_routes ''/v1/files2'' (routes_key [''/v1/files'']) = http_error"
proof -
  have k: "key_allowed_routes (routes_key [''/v1/files'']) = Some [''/v1/files'']" by (simp add: routes_key_def)
  have g: "\<forall>a \<in> set [''/v1/files'']. map_of LiteLLMRoutes a = None" by (simp add: LiteLLMRoutes_def)
  have e: "enterprise_route_check plain_routes path \<noteq> http_error" for path by (simp add: plain_routes_def)
  show ?thesis
    using key_confined_to_its_routes [OF k _ g e, of "''/v1/files/f1''"] key_confined_to_its_routes [OF k _ g e, of "''/v1/files2''"]
    by (auto simp: below_def within_star_def)
qed

subsection \<open>What the checks let pass\<close>

text \<open>
  A path is a route of models if it contains the prefix of a provider anywhere, so every user may change or
  delete a credential whose name begins like one.
\<close>

lemma credential_open_to_all:
  "is_allowed_route plain_routes ''/credentials/openai'' ui_token query_user_id request_data (Some k) user = Inr ()"
proof -
  have "is_llm_api_route ''/credentials/openai''" by (simp add: is_llm_api_route_def mapped_pass_through_routes_def)
  then show ?thesis
    by (simp add: is_allowed_route_def is_api_route_allowed_def non_proxy_admin_allowed_routes_check_def plain_routes_pass)
qed

text \<open>The refusal of models to a viewing admin is never reached: the route has passed before.\<close>

lemma viewer_calls_models:
  assumes "is_llm_api_route path"
  shows "check_proxy_admin_viewer_access path request_data = http_error \<and>
    is_allowed_route plain_routes path ui_token query_user_id request_data (Some k) (Some (user_with_role PROXY_ADMIN_VIEW_ONLY)) = Inr ()"
  using assms by (simp add: check_proxy_admin_viewer_access_def is_allowed_route_def is_api_route_allowed_def
      non_proxy_admin_allowed_routes_check_def plain_routes_pass)

lemma chat_is_llm_route: "is_llm_api_route ''/chat/completions''"
  by (simp add: is_llm_api_route_def openai_routes_def)

text \<open>The list of what a viewing admin must not call lacks routes that write.\<close>

lemma viewer_blocks_teams:
  "is_allowed_route plain_routes ''/team/block'' ui_token query_user_id request_data (Some k)
     (Some (user_with_role PROXY_ADMIN_VIEW_ONLY)) = Inr ()"
proof -
  have "get_user_role (Some (user_with_role PROXY_ADMIN_VIEW_ONLY)) = Some PROXY_ADMIN_VIEW_ONLY" by code_simp
  moreover have "check_proxy_admin_viewer_access ''/team/block'' request_data = Inr () \<or> is_llm_api_route ''/team/block''"
    by (simp add: check_proxy_admin_viewer_access_def check_route_access_def management_routes_def viewer_blocked_routes_def ends_with_def)
  ultimately show ?thesis
    by (auto simp: is_allowed_route_def is_api_route_allowed_def non_proxy_admin_allowed_routes_check_def plain_routes_pass)
qed

text \<open>A short user id is shown as a whole.\<close>

lemma short_user_id_shown: "mask_user_id ''alice-12'' = ''alice-12'' \<and> mask_user_id ''bob-1'' = ''bob-1''"
  by code_simp

end
