(* ===== verification/CommonChecks.thy ===== *)
theory CommonChecks
  imports RouteChecks
begin

text \<open>
  \<^verbatim>\<open>common_checks\<close> of \<^verbatim>\<open>proxy/auth/auth_checks.py\<close>, which every request passes: blocked teams and projects,
  access of the team, the user and the project to the models, the budgets, and what the settings ask
  for. The checks change nothing, so the whole is the list of their outcomes and the first error is
  raised. Alerts, which soft budgets only send, are left out. The checks of agents, vector stores and tools
  are parameters (\<open>check_env\<close>), as are the rows of the database. The theory shows what holds of every
  request that passes.
\<close>

subsection \<open>The model of a request\<close>

text \<open>\<^verbatim>\<open>re.search\<close> of an expression that \<open>f\<close> matches at the start of a string.\<close>

fun re_search :: "(string \<Rightarrow> string option) \<Rightarrow> string \<Rightarrow> string option" where
  "re_search f [] = f []"
| "re_search f (c # s) = (case f (c # s) of Some x \<Rightarrow> Some x | None \<Rightarrow> re_search f s)"

text \<open>\<^verbatim>\<open>([^:]+):\<close> and, for another character too, \<^verbatim>\<open>([^:]+)\<close>; both behind a prefix.\<close>

definition up_to_colon :: "string \<Rightarrow> string option" where
  "up_to_colon s = (let g = takeWhile (\<lambda>c. c \<noteq> CHR '':'') s in if g \<noteq> [] \<and> length g < length s then Some g else None)"

definition run_without :: "char \<Rightarrow> string \<Rightarrow> string option" where
  "run_without sep s = (let g = takeWhile (\<lambda>c. c \<noteq> sep) s in if g \<noteq> [] then Some g else None)"

definition behind :: "string \<Rightarrow> (string \<Rightarrow> string option) \<Rightarrow> string \<Rightarrow> string option" where
  "behind p f s = (case strip_prefix p s of None \<Rightarrow> None | Some r \<Rightarrow> f r)"

definition or_else :: "'a option \<Rightarrow> 'a option \<Rightarrow> 'a option" where
  "or_else x y = (case x of None \<Rightarrow> y | Some a \<Rightarrow> Some a)"

definition model_from_route :: "string \<Rightarrow> string option" where
  "model_from_route path =
     (let vertex = starts_with ''/vertex'' (lower path) in
      or_else (behind ''/openai/deployments/'' (run_without (CHR ''/'')) path)
        (if vertex then re_search (behind ''/models/'' (run_without (CHR '':''))) path
         else or_else
           (re_search (\<lambda>s. or_else (behind ''/v1beta/models/'' up_to_colon s) (behind ''/beta/models/'' up_to_colon s)) path)
           (behind ''/models/'' up_to_colon path)))"

definition get_model_from_request :: "(string, pyval) dict \<Rightarrow> string \<Rightarrow> requested option pyres" where
  "get_model_from_request request_data path =
     (case py_or (dict_get request_data ''model'' PNone) (dict_get request_data ''target_model_names'' PNone) of
        PNone \<Rightarrow> Inr (map_option Model (model_from_route path))
      | PStr s \<Rightarrow>
        Inr (Some (case split_on (CHR '','') s of [m] \<Rightarrow> Model (strip m) | ms \<Rightarrow> Models (map (Model \<circ> strip) ms)))
      | _ \<Rightarrow> Inl AttributeError)"

definition given :: "requested option \<Rightarrow> bool" where
  "given q \<longleftrightarrow> (case q of None \<Rightarrow> False | Some (Model m) \<Rightarrow> m \<noteq> [] | Some (Models ms) \<Rightarrow> ms \<noteq> [])"

subsection \<open>Checks\<close>

record check_env =
  access :: access_env
  route_checks :: route_env
  database_connected :: bool
  team_membership :: "string \<Rightarrow> string \<Rightarrow> (rat option \<times> rat option) option pyres" \<comment> \<open>of user and team: spend and budget\<close>
  organization :: "string \<Rightarrow> (rat \<times> rat option) option pyres"
  tag_object :: "string \<Rightarrow> (rat option \<times> rat option) option"
  request_tags :: "(string, pyval) dict \<Rightarrow> string list"
  litellm_max_budget :: rat
  enforce_user_param :: bool
  reject_clientside_metadata_tags :: bool
  agent_check :: "unit pyres"
  later_checks :: "unit pyres list" \<comment> \<open>of vector stores and tools\<close>

record end_user_obj =
  end_user_spend :: rat
  end_user_max_budget :: "rat option"

abbreviation passed :: "unit pyres" where "passed \<equiv> Inr ()"

abbreviation over_budget_error :: "unit pyres" where "over_budget_error \<equiv> Inl (OtherError ''BudgetExceededError'')"

fun first_error :: "unit pyres list \<Rightarrow> unit pyres" where
  "first_error [] = passed"
| "first_error (c # cs) = (case c of Inl e \<Rightarrow> Inl e | Inr _ \<Rightarrow> first_error cs)"

text \<open>A budget that may be reached, and one that may not.\<close>

definition above :: "rat option \<Rightarrow> rat option \<Rightarrow> bool" where
  "above spend max_budget \<longleftrightarrow> (case (spend, max_budget) of (Some s, Some b) \<Rightarrow> s > b | _ \<Rightarrow> False)"

definition reached :: "rat option \<Rightarrow> rat option \<Rightarrow> bool" where
  "reached spend max_budget \<longleftrightarrow> (case (spend, max_budget) of (Some s, Some b) \<Rightarrow> s \<ge> b | _ \<Rightarrow> False)"

definition budget_error :: "bool \<Rightarrow> unit pyres" where
  "budget_error b = (if b then over_budget_error else passed)"

definition virtual_key_max_budget_check :: "key_obj \<Rightarrow> unit pyres" where
  "virtual_key_max_budget_check k = budget_error (reached (key_spend k) (key_max_budget k))"

definition team_max_budget_check :: "team_obj option \<Rightarrow> unit pyres" where
  "team_max_budget_check team_object =
     budget_error (case team_object of None \<Rightarrow> False | Some t \<Rightarrow> above (team_spend t) (team_max_budget t))"

definition project_max_budget_check :: "project_obj \<Rightarrow> unit pyres" where
  "project_max_budget_check p = budget_error (above (project_spend p) (project_max_budget p))"

definition organization_max_budget_check :: "check_env \<Rightarrow> key_obj option \<Rightarrow> team_obj option \<Rightarrow> unit pyres" where
  "organization_max_budget_check C valid_token team_object =
     (case valid_token of
        None \<Rightarrow> passed
      | Some k \<Rightarrow>
        if \<not> database_connected C then passed
        else case (case key_org_id k of Some i \<Rightarrow> Some i
                   | None \<Rightarrow> (case team_object of None \<Rightarrow> None | Some t \<Rightarrow> team_organization_id t)) of
          None \<Rightarrow> passed
        | Some org_id \<Rightarrow>
          (case organization C org_id of
             Inr (Some (spend, Some b)) \<Rightarrow> budget_error (b > 0 \<and> spend \<ge> b)
           | _ \<Rightarrow> passed))"

definition tag_max_budget_check :: "check_env \<Rightarrow> (string, pyval) dict \<Rightarrow> unit pyres" where
  "tag_max_budget_check C request_body =
     budget_error (database_connected C \<and>
       (\<exists>tag \<in> set (request_tags C request_body). case tag_object C tag of None \<Rightarrow> False | Some (s, b) \<Rightarrow> above s b))"

definition personal_budget_check :: "team_obj option \<Rightarrow> user_obj option \<Rightarrow> unit pyres" where
  "personal_budget_check team_object user_object =
     (case (team_object, user_object) of
        (None, Some u) \<Rightarrow> budget_error (above (Some (user_spend u)) (user_max_budget u))
      | _ \<Rightarrow> passed)"

definition check_team_member_budget :: "check_env \<Rightarrow> team_obj option \<Rightarrow> user_obj option \<Rightarrow> key_obj option \<Rightarrow> unit pyres" where
  "check_team_member_budget C team_object user_object valid_token =
     (case (team_object, user_object, valid_token) of
        (Some t, Some _, Some k) \<Rightarrow>
          (case key_user_id k of
             None \<Rightarrow> passed
           | Some i \<Rightarrow>
             (case team_membership C i (team_id_of t) of
                Inl e \<Rightarrow> Inl e
              | Inr None \<Rightarrow> passed
              | Inr (Some (spend, b)) \<Rightarrow> budget_error (reached (Some (case spend of None \<Rightarrow> 0 | Some s \<Rightarrow> s)) b)))
      | _ \<Rightarrow> passed)"

definition end_user_budget_check :: "end_user_obj option \<Rightarrow> unit pyres" where
  "end_user_budget_check end_user_object =
     budget_error (case end_user_object of None \<Rightarrow> False | Some e \<Rightarrow> above (Some (end_user_spend e)) (end_user_max_budget e))"

definition run_project_checks :: "check_env \<Rightarrow> project_obj option \<Rightarrow> requested option \<Rightarrow> bool \<Rightarrow> unit pyres" where
  "run_project_checks C project_object model skip_budget_checks =
     (case project_object of
        None \<Rightarrow> passed
      | Some p \<Rightarrow>
        first_error
          [if project_blocked p then Inl (OtherError ''Exception'') else passed,
           if given model \<and> project_models p \<noteq> [] then can_project_access_model (access C) (the model) p else passed,
           if skip_budget_checks then passed else project_max_budget_check p])"

definition enforce_user_param_check :: "check_env \<Rightarrow> bool \<Rightarrow> (string, pyval) dict \<Rightarrow> string \<Rightarrow> unit pyres" where
  "enforce_user_param_check C is_post_method request_body path =
     (if enforce_user_param C \<and> is_post_method \<and> is_llm_api_route path \<and> \<not> is_mcp_route path \<and> map_of request_body ''user'' = None
      then Inl (OtherError ''Exception'') else passed)"

definition reject_clientside_metadata_tags_check :: "check_env \<Rightarrow> (string, pyval) dict \<Rightarrow> string \<Rightarrow> unit pyres" where
  "reject_clientside_metadata_tags_check C request_body path =
     (if reject_clientside_metadata_tags C \<and> is_llm_api_route path \<and>
         (case map_of request_body ''metadata'' of Some (PDict m) \<Rightarrow> map_of m ''tags'' \<noteq> None | _ \<Rightarrow> False)
      then Inl access_denied else passed)"

definition global_proxy_budget_check :: "check_env \<Rightarrow> rat option \<Rightarrow> bool \<Rightarrow> string \<Rightarrow> unit pyres" where
  "global_proxy_budget_check C global_proxy_spend skip_budget_checks path =
     budget_error (litellm_max_budget C > 0 \<and> \<not> skip_budget_checks \<and> is_llm_api_route path \<and>
       path \<noteq> ''/v1/models'' \<and> path \<noteq> ''/models'' \<and> above global_proxy_spend (Some (litellm_max_budget C)))"

text \<open>The metadata of the team is an argument; a team may forbid requests to change guardrails.\<close>

definition can_modify_guardrails :: "(string, pyval) dict option \<Rightarrow> bool" where
  "can_modify_guardrails team_metadata \<longleftrightarrow>
     (case team_metadata of
        None \<Rightarrow> True
      | Some md \<Rightarrow> (case map_of md ''guardrails'' of Some (PDict g) \<Rightarrow> map_of g ''modify_guardrails'' \<noteq> Some (PBool False) | _ \<Rightarrow> True))"

definition guardrail_modification_check :: "(string, pyval) dict \<Rightarrow> (string, pyval) dict option \<Rightarrow> unit pyres" where
  "guardrail_modification_check request_body team_metadata =
     (case py_or (dict_get request_body ''metadata'' PNone) (PDict []) of
        PDict m \<Rightarrow>
          if truthy (dict_get m ''guardrails'' PNone) \<and> \<not> can_modify_guardrails team_metadata
          then Inl (OtherError ''HTTPException'') else passed
      | _ \<Rightarrow> Inl AttributeError)"

record request_ctx =
  request_body :: "(string, pyval) dict"
  request_route :: string
  is_post :: bool
  query_user_id :: "string option"
  team_object :: "team_obj option"
  team_metadata :: "(string, pyval) dict option"
  user_object :: "user_obj option"
  end_user_object :: "end_user_obj option"
  valid_token :: "key_obj option"
  project_object :: "project_obj option"
  global_proxy_spend :: "rat option"
  skip_budget_checks :: bool

definition budget_checks :: "check_env \<Rightarrow> request_ctx \<Rightarrow> unit pyres list" where
  "budget_checks C q =
     [team_max_budget_check (team_object q),
      organization_max_budget_check C (valid_token q) (team_object q),
      tag_max_budget_check C (request_body q),
      personal_budget_check (team_object q) (user_object q),
      check_team_member_budget C (team_object q) (user_object q) (valid_token q),
      end_user_budget_check (end_user_object q)]"

definition common_checks :: "check_env \<Rightarrow> request_ctx \<Rightarrow> unit pyres" where
  "common_checks C q =
     (case get_model_from_request (request_body q) (request_route q) of
        Inl e \<Rightarrow> Inl e
      | Inr model \<Rightarrow>
        first_error
          ([case team_object q of Some t \<Rightarrow> if team_blocked t then Inl (OtherError ''Exception'') else passed | None \<Rightarrow> passed,
            if given model \<and> team_object q \<noteq> None
            then can_team_access_model (access C) (the model) (team_object q)
                   (case valid_token q of None \<Rightarrow> None | Some k \<Rightarrow> key_team_model_aliases k)
            else passed,
            agent_check C,
            if given model \<and> team_object q = None then can_user_call_model (access C) (the model) (user_object q) else passed,
            run_project_checks C (project_object q) model (skip_budget_checks q)] @
           (if skip_budget_checks q then [] else budget_checks C q) @
           [enforce_user_param_check C (is_post q) (request_body q) (request_route q),
            reject_clientside_metadata_tags_check C (request_body q) (request_route q),
            global_proxy_budget_check C (global_proxy_spend q) (skip_budget_checks q) (request_route q),
            guardrail_modification_check (request_body q) (team_metadata q),
            organization_role_based_access_check (request_body q) (user_object q) (request_route q),
            is_allowed_route (route_checks C) (request_route q)
              (case valid_token q of None \<Rightarrow> False | Some k \<Rightarrow> key_team_id k = Some ''litellm-dashboard'')
              (query_user_id q) (request_body q) (valid_token q) (user_object q)] @
           later_checks C))"

subsection \<open>Lemmas\<close>

lemma first_error_passed: "first_error cs = passed \<longleftrightarrow> (\<forall>c \<in> set cs. c = passed)"
  by (induction cs) (auto split: sum.split)

lemma budget_error_passed [simp]: "budget_error b = passed \<longleftrightarrow> \<not> b"
  by (simp add: budget_error_def)

text \<open>What a list of models admits of a request, whose alias may stand for another model.\<close>

definition may_call :: "access_env \<Rightarrow> router \<Rightarrow> string option \<Rightarrow> (string, string) dict option \<Rightarrow> string list \<Rightarrow> string \<Rightarrow> bool" where
  "may_call E r team_id aliases models m \<longleftrightarrow> (\<exists>n \<in> set (potential_models E m). admits E (models_for n team_id r) aliases models n)"

lemma can_call_each:
  assumes "can_object_call_model E models aliases team_id 0 q = passed" "m \<in> set (flatten q)"
    and "llm_router E = Some r" "router_inv r" "\<forall>p \<in> set models. plain_pattern p"
  shows "may_call E r team_id aliases models m"
  using can_call_all(1) [OF assms(1,2)] can_call_one [OF assms(3,4), of models aliases team_id m] assms(5)
  by (simp add: may_call_def del: can_object_call_model.simps split: if_splits)

lemma or_access_groups_passed:
  assumes "or_access_groups E ids check (check models) = passed"
  shows "check models = passed \<or> (\<exists>is. ids = Some is \<and> is \<noteq> [] \<and> check (models_from_access_groups E is) = passed)"
  using assms by (auto simp: or_access_groups_def split: if_splits option.splits list.splits)

lemma team_access_each:
  assumes "can_team_access_model E q (Some t) aliases = passed" "m \<in> set (flatten q)" "llm_router E = Some r" "router_inv r"
    and "\<forall>p \<in> set (team_models t). plain_pattern p" "\<forall>ids. \<forall>p \<in> set (models_from_access_groups E ids). plain_pattern p"
  shows "may_call E r (Some (team_id_of t)) aliases (team_models t) m \<or>
    (\<exists>ids. team_access_group_ids t = Some ids \<and> may_call E r (Some (team_id_of t)) aliases (models_from_access_groups E ids) m)"
proof -
  let ?check = "\<lambda>models. can_object_call_model E models aliases (Some (team_id_of t)) 0 q"
  have "or_access_groups E (team_access_group_ids t) ?check (?check (team_models t)) = passed"
    using assms(1) by (simp add: can_team_access_model_def Let_def)
  from or_access_groups_passed [OF this] show ?thesis
    using can_call_each [OF _ assms(2-4)] assms(5,6) by blast
qed

subsection \<open>Properties\<close>

text \<open>
  Property C6. If the checks let a request pass then every model it asks for, also of a list of models, is
  one its team may call by the models of the team or of its access groups, or, for a request without
  a team, one its user may call, and one its project may call if the project lists models; neither the
  team nor the project is blocked.
\<close>

theorem admitted_request_authorized:
  assumes "common_checks C q = passed" "get_model_from_request (request_body q) (request_route q) = Inr (Some req)"
    and "given (Some req)" "m \<in> set (flatten req)" "llm_router (access C) = Some r" "router_reachable S u r"
    and "\<forall>t. team_object q = Some t \<longrightarrow> (\<forall>p \<in> set (team_models t). plain_pattern p)"
    and "\<forall>x. user_object q = Some x \<longrightarrow> (\<forall>p \<in> set (user_models x). plain_pattern p)"
    and "\<forall>x. project_object q = Some x \<longrightarrow> (\<forall>p \<in> set (project_models x). plain_pattern p)"
    and "\<forall>ids. \<forall>p \<in> set (models_from_access_groups (access C) ids). plain_pattern p"
    and "aliases = (case valid_token q of None \<Rightarrow> None | Some k \<Rightarrow> key_team_model_aliases k)"
  shows "(\<forall>t. team_object q = Some t \<longrightarrow> \<not> team_blocked t \<and>
      (may_call (access C) r (Some (team_id_of t)) aliases (team_models t) m \<or>
       (\<exists>ids. team_access_group_ids t = Some ids \<and>
          may_call (access C) r (Some (team_id_of t)) aliases (models_from_access_groups (access C) ids) m))) \<and>
    (\<forall>x. team_object q = None \<longrightarrow> user_object q = Some x \<longrightarrow>
       ''no-default-models'' \<notin> set (user_models x) \<and> may_call (access C) r None None (user_models x) m) \<and>
    (\<forall>x. project_object q = Some x \<longrightarrow> \<not> project_blocked x \<and>
       (project_models x = [] \<or> may_call (access C) r None None (project_models x) m))"
proof -
  have inv: "router_inv r" using router_reachable_inv [OF assms(6)] by simp
  note checks = assms(1) [unfolded common_checks_def assms(2) sum.case first_error_passed set_append ball_Un list.set ball_simps]
  have team: "\<not> team_blocked t" "can_team_access_model (access C) req (Some t) aliases = passed" if "team_object q = Some t" for t
    using checks assms(3) that by (auto simp: assms(11) split: if_splits)
  have user: "can_user_call_model (access C) req (user_object q) = passed" if "team_object q = None"
    using checks assms(3) that by auto
  have project: "\<not> project_blocked x" "project_models x \<noteq> [] \<Longrightarrow> can_project_access_model (access C) req x = passed"
    if "project_object q = Some x" for x
    using checks assms(3) that by (auto simp: run_project_checks_def first_error_passed simp del: first_error.simps split: if_splits)
  have "may_call (access C) r None None (user_models x) m \<and> ''no-default-models'' \<notin> set (user_models x)"
    if "team_object q = None" "user_object q = Some x" for x
    using user [OF that(1)] can_call_each [OF _ assms(4,5) inv, of "user_models x" None None] assms(8) that(2)
    by (auto simp: can_user_call_model_def split: if_splits)
  moreover have "may_call (access C) r None None (project_models x) m" if "project_object q = Some x" "project_models x \<noteq> []" for x
    using project(2) [OF that] can_call_each [OF _ assms(4,5) inv, of "project_models x" None None] assms(9) that(1)
    by (auto simp: can_project_access_model_def)
  moreover have "may_call (access C) r (Some (team_id_of t)) aliases (team_models t) m \<or>
      (\<exists>ids. team_access_group_ids t = Some ids \<and> may_call (access C) r (Some (team_id_of t)) aliases (models_from_access_groups (access C) ids) m)"
    if "team_object q = Some t" for t
    using team_access_each [OF team(2) [OF that] assms(4,5) inv _ assms(10)] assms(7) that by blast
  ultimately show ?thesis using team(1) project(1) by blast
qed


definition plain_checks :: check_env where
  "plain_checks = \<lparr>access = plain_access, route_checks = plain_routes, database_connected = True,
     team_membership = (\<lambda>_ _. Inr (Some (Some 3, Some 4))), organization = (\<lambda>_. Inr (Some (5, Some 6))), tag_object = (\<lambda>_. None),
     request_tags = (\<lambda>_. []), litellm_max_budget = 0, enforce_user_param = False, reject_clientside_metadata_tags = False,
     agent_check = passed, later_checks = []\<rparr>"

definition team_request :: "string \<Rightarrow> request_ctx" where
  "team_request model =
     \<lparr>request_body = [(''model'', PStr model)], request_route = ''/chat/completions'', is_post = True, query_user_id = None,
      team_object = Some \<lparr>team_id_of = ''t'', team_models = [''g'', ''h*''], team_access_group_ids = None, team_blocked = False,
        team_spend = Some 10, team_max_budget = Some 10, team_organization_id = None\<rparr>,
      team_metadata = None, user_object = None, end_user_object = None,
      valid_token = Some ((plain_key [])\<lparr>key_org_id := Some ''o''\<rparr>), project_object = None, global_proxy_spend = None,
      skip_budget_checks = False\<rparr>"

theorem admitted_request_authorized_witness:
  "may_call plain_access two_models (Some ''t'') None [''g'', ''h*''] ''h1'' \<and> \<not> team_blocked (the (team_object (team_request ''g, h1'')))"
proof -
  have p: "common_checks plain_checks (team_request ''g, h1'') = passed" by code_simp
  have m: "get_model_from_request (request_body (team_request ''g, h1'')) (request_route (team_request ''g, h1'')) =
    Inr (Some (Models [Model ''g'', Model ''h1'']))" by code_simp
  have a: "access plain_checks = plain_access" "llm_router plain_access = Some two_models" "\<And>ids. models_from_access_groups plain_access ids = []"
    by (simp_all add: plain_checks_def plain_access_def)
  show ?thesis
    using admitted_request_authorized [OF p m, of "''h1''" two_models plain_setup False None] two_models_reachable [of False]
    by (simp add: a team_request_def given_def plain_pattern_def plain_key_def)
qed


text \<open>A key is refused when it has spent its budget, a team only when it has spent more.\<close>

lemma budget_boundaries_differ:
  "virtual_key_max_budget_check ((plain_key [])\<lparr>key_spend := Some 10, key_max_budget := Some 10\<rparr>) = over_budget_error \<and>
   team_max_budget_check (team_object (team_request ''g'')) = passed"
  by code_simp

end
