(* ===== verification/SpendQueue.thy ===== *)
theory SpendQueue
  imports PyText
begin

text \<open>
  \<^verbatim>\<open>proxy/db/db_transaction_queue\<close>: the in-memory buffers of spend updates on their way to the
  database (\<^verbatim>\<open>base_update_queue.py\<close>, \<^verbatim>\<open>spend_update_queue.py\<close> and
  \<^verbatim>\<open>daily_spend_update_queue.py\<close>). An \<^verbatim>\<open>asyncio.Queue\<close> is a list with a maximal size; a
  \<^verbatim>\<open>put\<close> on a full queue waits (\<^term>\<open>None\<close>). With items in the queue and room for the new
  ones neither \<^verbatim>\<open>get\<close> nor \<^verbatim>\<open>put\<close> waits, so each method runs without interruption. The
  theory shows that no spend is lost or made up between a request and the flush. Metric events are
  left out.
\<close>

subsection \<open>The base queue\<close>

definition LITELLM_ASYNCIO_QUEUE_MAXSIZE :: nat where
  "LITELLM_ASYNCIO_QUEUE_MAXSIZE = 1000"

definition MAX_SIZE_IN_MEMORY_QUEUE :: nat where
  "MAX_SIZE_IN_MEMORY_QUEUE = 800"

definition MAX_IN_MEMORY_QUEUE_FLUSH_COUNT :: nat where
  "MAX_IN_MEMORY_QUEUE_FLUSH_COUNT = 1000"

definition queue_put :: "'u \<Rightarrow> 'u list \<Rightarrow> 'u list option" where
  "queue_put u q = (if length q < LITELLM_ASYNCIO_QUEUE_MAXSIZE then Some (q @ [u]) else None)"

fun queue_put_all :: "'u list \<Rightarrow> 'u list \<Rightarrow> 'u list option" where
  "queue_put_all [] q = Some q"
| "queue_put_all (u # us) q = (case queue_put u q of None \<Rightarrow> None | Some q1 \<Rightarrow> queue_put_all us q1)"

definition base_add_update :: "'u \<Rightarrow> 'u list \<Rightarrow> 'u list option" where
  "base_add_update u q = queue_put u q"

text \<open>The loop of \<^verbatim>\<open>flush_all_updates_from_in_memory_queue\<close>: the updates and the rest.\<close>

fun flush_loop :: "'u list \<Rightarrow> 'u list \<Rightarrow> 'u list \<times> 'u list" where
  "flush_loop ups [] = (ups, [])"
| "flush_loop ups (u # q) =
     (if MAX_IN_MEMORY_QUEUE_FLUSH_COUNT \<le> length ups then (ups, u # q) else flush_loop (ups @ [u]) q)"

definition flush_all_updates :: "'u list \<Rightarrow> 'u list \<times> 'u list" where
  "flush_all_updates q = flush_loop [] q"

text \<open>
  \<^verbatim>\<open>add_update\<close> and \<^verbatim>\<open>aggregate_queue_updates\<close> of both subclasses, which differ in how
  they aggregate; an exception of the aggregation leaves the queue flushed.
\<close>

definition aggregate_queue_with :: "('u list \<Rightarrow> 'u list pyres) \<Rightarrow> 'u list \<Rightarrow> (unit pyres \<times> 'u list) option" where
  "aggregate_queue_with agg q =
     (case flush_all_updates q of
        (ups, rest) \<Rightarrow>
        (case agg ups of
           Inl e \<Rightarrow> Some (Inl e, rest)
         | Inr vs \<Rightarrow> map_option (\<lambda>q'. (Inr (), q')) (queue_put_all vs rest)))"

definition add_update_with :: "('u list \<Rightarrow> 'u list pyres) \<Rightarrow> 'u \<Rightarrow> 'u list \<Rightarrow> (unit pyres \<times> 'u list) option" where
  "add_update_with agg u q =
     (case queue_put u q of
        None \<Rightarrow> None
      | Some q1 \<Rightarrow>
        if MAX_SIZE_IN_MEMORY_QUEUE \<le> length q1 then aggregate_queue_with agg q1 else Some (Inr (), q1))"

fun add_updates_with :: "('u list \<Rightarrow> 'u list pyres) \<Rightarrow> 'u list \<Rightarrow> 'u list \<Rightarrow> (unit pyres \<times> 'u list) option" where
  "add_updates_with agg [] q = Some (Inr (), q)"
| "add_updates_with agg (u # us) q =
     (case add_update_with agg u q of
        None \<Rightarrow> None
      | Some (Inl e, q1) \<Rightarrow> Some (Inl e, q1)
      | Some (Inr _, q1) \<Rightarrow> add_updates_with agg us q1)"

lemma flush_loop_take:
  "length ups \<le> MAX_IN_MEMORY_QUEUE_FLUSH_COUNT \<Longrightarrow>
   flush_loop ups q = (ups @ take (MAX_IN_MEMORY_QUEUE_FLUSH_COUNT - length ups) q,
     drop (MAX_IN_MEMORY_QUEUE_FLUSH_COUNT - length ups) q)"
proof (induction ups q rule: flush_loop.induct)
  case (2 ups u q)
  then show ?case
    by (cases "MAX_IN_MEMORY_QUEUE_FLUSH_COUNT \<le> length ups") (auto simp: Suc_diff_le take_Cons' drop_Cons')
qed simp

lemma flush_all_within: "length q \<le> LITELLM_ASYNCIO_QUEUE_MAXSIZE \<Longrightarrow> flush_all_updates q = (q, [])"
  by (simp add: flush_all_updates_def flush_loop_take LITELLM_ASYNCIO_QUEUE_MAXSIZE_def
      MAX_IN_MEMORY_QUEUE_FLUSH_COUNT_def)

lemma queue_put_all_room:
  "length q + length us \<le> LITELLM_ASYNCIO_QUEUE_MAXSIZE \<Longrightarrow> queue_put_all us q = Some (q @ us)"
  by (induction us arbitrary: q) (auto simp: queue_put_def)

text \<open>
  What an aggregation promises: on acceptable updates it returns, it keeps every total, and it does
  not make the queue longer.
\<close>

locale spend_buffer =
  fixes agg :: "'u list \<Rightarrow> 'u list pyres"
    and total :: "'k \<Rightarrow> 'u \<Rightarrow> rat"
    and ok :: "'u \<Rightarrow> bool"
  assumes agg_ok: "list_all ok us \<Longrightarrow> us \<noteq> [] \<Longrightarrow> \<exists>vs. agg us = Inr vs \<and> list_all ok vs \<and>
      length vs \<le> length us \<and> (\<forall>k. (\<Sum>v\<leftarrow>vs. total k v) = (\<Sum>u\<leftarrow>us. total k u))"
begin

lemma add_update_total:
  assumes "list_all ok (u # q)" "length q < LITELLM_ASYNCIO_QUEUE_MAXSIZE"
  shows "\<exists>q'. add_update_with agg u q = Some (Inr (), q') \<and> list_all ok q' \<and> length q' \<le> Suc (length q) \<and>
    (\<forall>k. (\<Sum>v\<leftarrow>q'. total k v) = total k u + (\<Sum>v\<leftarrow>q. total k v))"
proof -
  have put: "queue_put u q = Some (q @ [u])" using assms(2) by (simp add: queue_put_def)
  show ?thesis
  proof (cases "MAX_SIZE_IN_MEMORY_QUEUE \<le> length (q @ [u])")
    case False
    then show ?thesis using put assms(1) by (simp add: add_update_with_def)
  next
    case True
    obtain vs where vs: "agg (q @ [u]) = Inr vs" "list_all ok vs" "length vs \<le> length (q @ [u])"
      "\<forall>k. (\<Sum>v\<leftarrow>vs. total k v) = (\<Sum>v\<leftarrow>q @ [u]. total k v)"
      using agg_ok [of "q @ [u]"] assms(1) by auto
    have "aggregate_queue_with agg (q @ [u]) = Some (Inr (), vs)"
      using assms(2) vs(1,3) by (simp add: aggregate_queue_with_def flush_all_within queue_put_all_room)
    then show ?thesis using True put vs by (simp add: add_update_with_def)
  qed
qed

text \<open>However many updates are added, if none of them waits the totals of the queue are right.\<close>

lemma add_updates_total:
  assumes "list_all ok us" "list_all ok q" "length q \<le> LITELLM_ASYNCIO_QUEUE_MAXSIZE"
    and "add_updates_with agg us q = Some (r, q')"
  shows "r = Inr () \<and> list_all ok q' \<and> length q' \<le> LITELLM_ASYNCIO_QUEUE_MAXSIZE \<and>
    (\<forall>k. (\<Sum>v\<leftarrow>q'. total k v) = (\<Sum>v\<leftarrow>us. total k v) + (\<Sum>v\<leftarrow>q. total k v))"
  using assms
proof (induction us arbitrary: q)
  case (Cons u us)
  show ?case
  proof (cases "length q < LITELLM_ASYNCIO_QUEUE_MAXSIZE")
    case False
    then show ?thesis using Cons.prems(4) by (simp add: add_update_with_def queue_put_def)
  next
    case True
    obtain q1 where q1: "add_update_with agg u q = Some (Inr (), q1)" "list_all ok q1" "length q1 \<le> Suc (length q)"
      "\<forall>k. (\<Sum>v\<leftarrow>q1. total k v) = total k u + (\<Sum>v\<leftarrow>q. total k v)"
      using add_update_total [OF _ True, of u] Cons.prems(1,2) by auto
    have "length q1 \<le> LITELLM_ASYNCIO_QUEUE_MAXSIZE" using q1(3) True by simp
    from Cons.IH [OF _ q1(2) this] q1(1,4) Cons.prems(1,4) show ?thesis by (simp add: algebra_simps)
  qed
qed auto

end

subsection \<open>Spend per entity\<close>

datatype Litellm_EntityType =
  KEY | USER | END_USER | TEAM | TEAM_MEMBER | ORGANIZATION | PROJECT | TAG | AGENT | PROXY

text \<open>A missing key of the item and \<^verbatim>\<open>None\<close> are read the same way everywhere.\<close>

record SpendUpdateQueueItem =
  entity_type :: "Litellm_EntityType option"
  entity_id :: "string option"
  response_cost :: "rat option"

record DBSpendUpdateTransactions =
  user_list_transactions :: "(string, rat) dict"
  end_user_list_transactions :: "(string, rat) dict"
  key_list_transactions :: "(string, rat) dict"
  team_list_transactions :: "(string, rat) dict"
  team_member_list_transactions :: "(string, rat) dict"
  org_list_transactions :: "(string, rat) dict"
  tag_list_transactions :: "(string, rat) dict"
  agent_list_transactions :: "(string, rat) dict"

text \<open>\<^verbatim>\<open>f"{entity_type}:{entity_id}"\<close>.\<close>

definition entity_type_str :: "Litellm_EntityType option \<Rightarrow> string" where
  "entity_type_str t =
     (case t of
        None \<Rightarrow> ''None''
      | Some x \<Rightarrow> ''Litellm_EntityType.'' @
        (case x of KEY \<Rightarrow> ''KEY'' | USER \<Rightarrow> ''USER'' | END_USER \<Rightarrow> ''END_USER'' | TEAM \<Rightarrow> ''TEAM''
         | TEAM_MEMBER \<Rightarrow> ''TEAM_MEMBER'' | ORGANIZATION \<Rightarrow> ''ORGANIZATION'' | PROJECT \<Rightarrow> ''PROJECT''
         | TAG \<Rightarrow> ''TAG'' | AGENT \<Rightarrow> ''AGENT'' | PROXY \<Rightarrow> ''PROXY''))"

definition entity_key :: "SpendUpdateQueueItem \<Rightarrow> string" where
  "entity_key u = entity_type_str (entity_type u) @ '':'' @ (case entity_id u of None \<Rightarrow> ''None'' | Some i \<Rightarrow> i)"

definition cost :: "SpendUpdateQueueItem \<Rightarrow> rat" where
  "cost u = (case response_cost u of None \<Rightarrow> 0 | Some c \<Rightarrow> c)"

definition agg_step :: "SpendUpdateQueueItem \<Rightarrow> (string, SpendUpdateQueueItem) dict \<Rightarrow> (string, SpendUpdateQueueItem) dict" where
  "agg_step u m =
     (let k = entity_key u in
      case map_of m k of
        None \<Rightarrow> AList.update k u m
      | Some v \<Rightarrow> AList.update k (v\<lparr>response_cost := Some (cost v + cost u)\<rparr>) m)"

definition get_aggregated_spend_update_queue_item :: "SpendUpdateQueueItem list \<Rightarrow> SpendUpdateQueueItem list" where
  "get_aggregated_spend_update_queue_item updates = map snd (fold agg_step updates [])"

definition spend_agg :: "SpendUpdateQueueItem list \<Rightarrow> SpendUpdateQueueItem list pyres" where
  "spend_agg us = Inr (get_aggregated_spend_update_queue_item us)"

definition spend_aggregate_queue_updates where
  "spend_aggregate_queue_updates q = aggregate_queue_with spend_agg q"

definition spend_add_update where
  "spend_add_update u q = add_update_with spend_agg u q"

definition empty_transactions :: DBSpendUpdateTransactions where
  "empty_transactions = \<lparr>user_list_transactions = [], end_user_list_transactions = [], key_list_transactions = [],
     team_list_transactions = [], team_member_list_transactions = [], org_list_transactions = [],
     tag_list_transactions = [], agent_list_transactions = []\<rparr>"

text \<open>\<^verbatim>\<open>transactions_dict[entity_id] += response_cost\<close>, from 0 for a new id.\<close>

definition add_cost :: "string \<Rightarrow> rat \<Rightarrow> (string, rat) dict \<Rightarrow> (string, rat) dict" where
  "add_cost i c d = AList.update i (dict_get d i 0 + c) d"

definition transaction_step :: "SpendUpdateQueueItem \<Rightarrow> DBSpendUpdateTransactions \<Rightarrow> DBSpendUpdateTransactions" where
  "transaction_step u tx =
     (let i = (case entity_id u of None \<Rightarrow> [] | Some x \<Rightarrow> x); add = add_cost i (cost u) in
      case entity_type u of
        None \<Rightarrow> tx
      | Some USER \<Rightarrow> tx\<lparr>user_list_transactions := add (user_list_transactions tx)\<rparr>
      | Some END_USER \<Rightarrow> tx\<lparr>end_user_list_transactions := add (end_user_list_transactions tx)\<rparr>
      | Some KEY \<Rightarrow> tx\<lparr>key_list_transactions := add (key_list_transactions tx)\<rparr>
      | Some TEAM \<Rightarrow> tx\<lparr>team_list_transactions := add (team_list_transactions tx)\<rparr>
      | Some TEAM_MEMBER \<Rightarrow> tx\<lparr>team_member_list_transactions := add (team_member_list_transactions tx)\<rparr>
      | Some ORGANIZATION \<Rightarrow> tx\<lparr>org_list_transactions := add (org_list_transactions tx)\<rparr>
      | Some TAG \<Rightarrow> tx\<lparr>tag_list_transactions := add (tag_list_transactions tx)\<rparr>
      | Some AGENT \<Rightarrow> tx\<lparr>agent_list_transactions := add (agent_list_transactions tx)\<rparr>
      | Some PROJECT \<Rightarrow> tx
      | Some PROXY \<Rightarrow> tx)"

definition get_aggregated_db_spend_update_transactions :: "SpendUpdateQueueItem list \<Rightarrow> DBSpendUpdateTransactions" where
  "get_aggregated_db_spend_update_transactions updates = fold transaction_step updates empty_transactions"

definition flush_and_get_aggregated_db_spend ::
  "SpendUpdateQueueItem list \<Rightarrow> DBSpendUpdateTransactions \<times> SpendUpdateQueueItem list" where
  "flush_and_get_aggregated_db_spend q =
     (case flush_all_updates q of (ups, rest) \<Rightarrow> (get_aggregated_db_spend_update_transactions ups, rest))"

subsection \<open>Totals per entity\<close>

definition id_or_empty :: "SpendUpdateQueueItem \<Rightarrow> string" where
  "id_or_empty u = (case entity_id u of None \<Rightarrow> [] | Some x \<Rightarrow> x)"

definition spent :: "Litellm_EntityType \<times> string \<Rightarrow> SpendUpdateQueueItem \<Rightarrow> rat" where
  "spent k u = (if entity_type u = Some (fst k) \<and> id_or_empty u = snd k then cost u else 0)"

text \<open>The cost of an update, if its entity is one of those in question.\<close>

definition spent_where :: "(Litellm_EntityType option \<Rightarrow> string option \<Rightarrow> bool) \<Rightarrow> SpendUpdateQueueItem \<Rightarrow> rat" where
  "spent_where P u = (if P (entity_type u) (entity_id u) then cost u else 0)"

lemma spent_is_where: "spent k = spent_where (\<lambda>t i. t = Some (fst k) \<and> (case i of None \<Rightarrow> [] | Some x \<Rightarrow> x) = snd k)"
  by (simp add: fun_eq_iff spent_def spent_where_def id_or_empty_def)

definition proper_id :: "SpendUpdateQueueItem \<Rightarrow> bool" where
  "proper_id u \<longleftrightarrow> entity_id u \<noteq> Some ''None''"

lemma entity_type_str_inj: "entity_type_str s = entity_type_str t \<Longrightarrow> s = t"
  by (auto simp: entity_type_str_def split: option.splits Litellm_EntityType.splits)

lemma entity_type_str_colon: "CHR '':'' \<notin> set (entity_type_str t)"
  by (auto simp: entity_type_str_def split: option.splits Litellm_EntityType.splits)

lemma entity_key_eq:
  assumes "proper_id u" "proper_id v" "entity_key u = entity_key v"
  shows "entity_type u = entity_type v \<and> entity_id u = entity_id v"
proof -
  let ?i = "\<lambda>u. case entity_id u of None \<Rightarrow> ''None'' | Some i \<Rightarrow> i"
  have "entity_type_str (entity_type u) = entity_type_str (entity_type v) \<and> ?i u = ?i v"
    using assms(3) append_sep_eq [OF entity_type_str_colon entity_type_str_colon] by (simp add: entity_key_def)
  then show ?thesis
    using entity_type_str_inj assms(1,2) by (auto simp: proper_id_def split: option.splits)
qed

lemma sum_update_old:
  "dict_wf m \<Longrightarrow> map_of m k = Some v \<Longrightarrow>
   (\<Sum>p\<leftarrow>AList.update k w m. f (snd p)) = (\<Sum>p\<leftarrow>m. f (snd p)) - f v + (f w :: rat)"
  by (induction m) auto

definition agg_inv :: "(string, SpendUpdateQueueItem) dict \<Rightarrow> bool" where
  "agg_inv m \<longleftrightarrow> dict_wf m \<and> (\<forall>(k, v) \<in> set m. entity_key v = k \<and> proper_id v)"

lemma agg_inv_lookup: "agg_inv m \<Longrightarrow> map_of m k = Some v \<Longrightarrow> entity_key v = k \<and> proper_id v"
  unfolding agg_inv_def by (blast dest: map_of_SomeD)

lemma set_update: "set (AList.update k w m) \<subseteq> insert (k, w) (set m)"
  by (induction m) auto

lemma agg_inv_update: "agg_inv m \<Longrightarrow> entity_key w = k \<Longrightarrow> proper_id w \<Longrightarrow> agg_inv (AList.update k w m)"
  unfolding agg_inv_def using set_update [of k w m] by fastforce

lemma agg_step_total:
  assumes "agg_inv m" "proper_id u"
  shows "agg_inv (agg_step u m) \<and> (\<Sum>p\<leftarrow>agg_step u m. spent_where P (snd p)) = spent_where P u + (\<Sum>p\<leftarrow>m. spent_where P (snd p))"
proof (cases "map_of m (entity_key u)")
  case None
  then have "entity_key u \<notin> set (dict_keys m)" by (simp add: map_of_None_key)
  then have "agg_step u m = m @ [(entity_key u, u)]" using None by (simp add: agg_step_def update_absent)
  moreover have "agg_inv (agg_step u m)" using None assms agg_inv_update by (simp add: agg_step_def)
  ultimately show ?thesis by simp
next
  case (Some v)
  let ?w = "v\<lparr>response_cost := Some (cost v + cost u)\<rparr>"
  note v = agg_inv_lookup [OF assms(1) Some]
  have same: "entity_type u = entity_type v" "entity_id u = entity_id v"
    using entity_key_eq [OF assms(2), of v] v by auto
  have "spent_where P ?w = spent_where P v + spent_where P u" using same by (simp add: spent_where_def cost_def)
  moreover have "entity_key ?w = entity_key u" "proper_id ?w" using v by (simp_all add: entity_key_def proper_id_def)
  moreover have "dict_wf m" using assms(1) by (simp add: agg_inv_def)
  ultimately show ?thesis
    using Some agg_inv_update [OF assms(1), of ?w "entity_key u"]
      sum_update_old [of m "entity_key u" v "spent_where P" ?w]
    by (simp add: agg_step_def)
qed

lemma agg_fold_total:
  "agg_inv m \<Longrightarrow> list_all proper_id us \<Longrightarrow>
   agg_inv (fold agg_step us m) \<and>
   (\<Sum>p\<leftarrow>fold agg_step us m. spent_where P (snd p)) = (\<Sum>u\<leftarrow>us. spent_where P u) + (\<Sum>p\<leftarrow>m. spent_where P (snd p))"
proof (induction us arbitrary: m)
  case (Cons u us)
  then show ?case using agg_step_total [of m u P] Cons.IH [of "agg_step u m"] by simp
qed simp

lemma agg_step_keys: "set (dict_keys (agg_step u m)) = insert (entity_key u) (set (dict_keys m))"
  unfolding agg_step_def Let_def by (cases "map_of m (entity_key u)") (simp_all only: option.case keys_update_set)

lemma agg_fold_keys: "set (dict_keys (fold agg_step us m)) = entity_key ` set us \<union> set (dict_keys m)"
proof (induction us arbitrary: m)
  case (Cons u us)
  then show ?case using agg_step_keys [of u m] by (simp del: set_map)
qed simp

lemma agg_fold_wf: "dict_wf m \<Longrightarrow> dict_wf (fold agg_step us m)"
  by (induction us arbitrary: m) (auto simp: agg_step_def Let_def split: option.split)

lemma aggregated_length:
  "length (get_aggregated_spend_update_queue_item us) = card (entity_key ` set us)"
  using agg_fold_keys [of us "[]"] distinct_card [OF agg_fold_wf [of "[]" us]]
  by (simp add: get_aggregated_spend_update_queue_item_def)

lemma aggregated_keys:
  "entity_key ` set (get_aggregated_spend_update_queue_item us) \<subseteq> entity_key ` set us"
proof -
  have "\<forall>(k, v) \<in> set (fold agg_step us m). entity_key v = k" if "\<forall>(k, v) \<in> set m. entity_key v = k" for m
    using that
  proof (induction us arbitrary: m)
    case (Cons u us)
    have "\<forall>(k, v) \<in> set (agg_step u m). entity_key v = k"
    proof (cases "map_of m (entity_key u)")
      case None
      then show ?thesis using Cons.prems set_update [of "entity_key u" u m] by (fastforce simp: agg_step_def)
    next
      case (Some v)
      then have "entity_key v = entity_key u" using Cons.prems by (auto dest: map_of_SomeD)
      then have "entity_key (v\<lparr>response_cost := c\<rparr>) = entity_key u" for c by (simp add: entity_key_def)
      then show ?thesis
        using Some Cons.prems set_update [of "entity_key u" "v\<lparr>response_cost := Some (cost v + cost u)\<rparr>" m]
        by (fastforce simp: agg_step_def)
    qed
    then show ?case using Cons.IH by simp
  qed simp
  from this [of "[]"] have "entity_key (snd p) = fst p" if "p \<in> set (fold agg_step us [])" for p
    using that by (cases p) auto
  then have "entity_key ` set (map snd (fold agg_step us [])) = set (dict_keys (fold agg_step us []))"
    unfolding set_map image_image by (rule image_cong [OF refl])
  then show ?thesis
    using agg_fold_keys [of us "[]"] unfolding get_aggregated_spend_update_queue_item_def by simp
qed

interpretation spendw: spend_buffer spend_agg spent_where proper_id
proof
  fix us :: "SpendUpdateQueueItem list"
  assume ok: "list_all proper_id us" "us \<noteq> []"
  let ?vs = "get_aggregated_spend_update_queue_item us"
  have "agg_inv []" by (simp add: agg_inv_def)
  note t = agg_fold_total [OF this ok(1)]
  have "list_all proper_id ?vs"
    using t by (fastforce simp: get_aggregated_spend_update_queue_item_def list_all_iff agg_inv_def)
  moreover have "length ?vs \<le> length us"
    using aggregated_length [of us] card_image_le [of "set us" entity_key] card_length [of us] by simp
  moreover have "(\<Sum>v\<leftarrow>?vs. spent_where P v) = (\<Sum>u\<leftarrow>us. spent_where P u)" for P
    using t by (simp add: get_aggregated_spend_update_queue_item_def comp_def)
  ultimately show "\<exists>vs. spend_agg us = Inr vs \<and> list_all proper_id vs \<and> length vs \<le> length us \<and>
      (\<forall>P. (\<Sum>v\<leftarrow>vs. spent_where P v) = (\<Sum>u\<leftarrow>us. spent_where P u))"
    by (auto simp: spend_agg_def)
qed

interpretation spendq: spend_buffer spend_agg spent proper_id
proof
  fix us :: "SpendUpdateQueueItem list"
  assume "list_all proper_id us" "us \<noteq> []"
  from spendw.agg_ok [OF this] show "\<exists>vs. spend_agg us = Inr vs \<and> list_all proper_id vs \<and> length vs \<le> length us \<and>
      (\<forall>k. (\<Sum>v\<leftarrow>vs. spent k v) = (\<Sum>u\<leftarrow>us. spent k u))"
    unfolding spent_is_where by blast
qed

text \<open>The dict of an entity type in the transactions.\<close>

definition tx_of :: "Litellm_EntityType \<Rightarrow> DBSpendUpdateTransactions \<Rightarrow> (string, rat) dict" where
  "tx_of t tx =
     (case t of USER \<Rightarrow> user_list_transactions tx | END_USER \<Rightarrow> end_user_list_transactions tx
      | KEY \<Rightarrow> key_list_transactions tx | TEAM \<Rightarrow> team_list_transactions tx
      | TEAM_MEMBER \<Rightarrow> team_member_list_transactions tx | ORGANIZATION \<Rightarrow> org_list_transactions tx
      | TAG \<Rightarrow> tag_list_transactions tx | AGENT \<Rightarrow> agent_list_transactions tx
      | PROJECT \<Rightarrow> [] | PROXY \<Rightarrow> [])"

lemma transaction_step_total:
  "t \<noteq> PROJECT \<Longrightarrow> t \<noteq> PROXY \<Longrightarrow>
   dict_get (tx_of t (transaction_step u tx)) i 0 = spent (t, i) u + dict_get (tx_of t tx) i 0"
  by (cases "entity_type u"; cases "the (entity_type u)"; cases t)
    (auto simp: transaction_step_def tx_of_def spent_def id_or_empty_def add_cost_def dict_get_update Let_def
      split: option.splits)

lemma transactions_total:
  assumes "t \<noteq> PROJECT" "t \<noteq> PROXY"
  shows "dict_get (tx_of t (fold transaction_step us tx)) i 0 =
    (\<Sum>u\<leftarrow>us. spent (t, i) u) + dict_get (tx_of t tx) i 0"
proof (induction us arbitrary: tx)
  case (Cons u us)
  then show ?case using transaction_step_total [OF assms, of u tx i] by simp
qed simp

subsection \<open>Properties\<close>

abbreviation item :: "Litellm_EntityType \<Rightarrow> string \<Rightarrow> rat \<Rightarrow> SpendUpdateQueueItem" where
  "item t i c \<equiv> \<lparr>entity_type = Some t, entity_id = Some i, response_cost = Some c\<rparr>"

text \<open>
  No spend is lost or made up in the buffer: after any sequence of updates to an empty
  queue, with the aggregations it triggers, the flush leaves the queue empty and the transactions hold
  for every entity exactly the sum of the costs of its updates. Entities of the kinds the database does
  not track are left out, and no id may be the text \<^verbatim>\<open>None\<close>.
\<close>

lemma spend_conserved:
  assumes "list_all proper_id us" "add_updates_with spend_agg us [] = Some (r, q)"
    and "flush_and_get_aggregated_db_spend q = (tx, rest)" "t \<noteq> PROJECT" "t \<noteq> PROXY"
  shows "r = Inr () \<and> rest = [] \<and> dict_get (tx_of t tx) i 0 = (\<Sum>u\<leftarrow>us. spent (t, i) u)"
proof -
  have q: "r = Inr ()" "length q \<le> LITELLM_ASYNCIO_QUEUE_MAXSIZE" "(\<Sum>v\<leftarrow>q. spent (t, i) v) = (\<Sum>u\<leftarrow>us. spent (t, i) u)"
    using spendq.add_updates_total [OF assms(1) _ _ assms(2)] by auto
  have "dict_get (tx_of t empty_transactions) i 0 = 0"
    by (cases t) (simp_all add: tx_of_def empty_transactions_def)
  then show ?thesis
    using q assms(3) transactions_total [OF assms(4,5), of q empty_transactions i]
    by (simp add: flush_and_get_aggregated_db_spend_def flush_all_within get_aggregated_db_spend_update_transactions_def)
qed

text \<open>
  Adding updates never waits while fewer than 800 different entities are in play: the
  aggregation keeps the queue below its threshold, however many updates come before a flush.
\<close>

lemma spend_queue_never_blocks:
  assumes "card (entity_key ` set us) < MAX_SIZE_IN_MEMORY_QUEUE"
  shows "\<exists>q. add_updates_with spend_agg us [] = Some (Inr (), q) \<and> length q < MAX_SIZE_IN_MEMORY_QUEUE"
proof -
  let ?K = "entity_key ` set us"
  have "\<exists>q'. add_updates_with spend_agg vs q = Some (Inr (), q') \<and> length q' < MAX_SIZE_IN_MEMORY_QUEUE"
    if "entity_key ` set vs \<subseteq> ?K" "entity_key ` set q \<subseteq> ?K" "length q < MAX_SIZE_IN_MEMORY_QUEUE" for vs q
    using that
  proof (induction vs arbitrary: q)
    case (Cons v vs)
    let ?q = "q @ [v]" let ?a = "get_aggregated_spend_update_queue_item ?q"
    have put: "queue_put v q = Some ?q"
      using Cons.prems(3) by (simp add: queue_put_def LITELLM_ASYNCIO_QUEUE_MAXSIZE_def MAX_SIZE_IN_MEMORY_QUEUE_def)
    have keys: "entity_key ` set ?q \<subseteq> ?K" using Cons.prems by auto
    have "card (entity_key ` set ?q) \<le> card ?K" using keys by (intro card_mono) simp_all
    then have len: "length ?a < MAX_SIZE_IN_MEMORY_QUEUE" "entity_key ` set ?a \<subseteq> ?K"
      using aggregated_length [of ?q] assms order_trans [OF aggregated_keys [of ?q] keys] by linarith+
    have agg: "aggregate_queue_with spend_agg ?q = Some (Inr (), ?a)"
      using Cons.prems(3) len(1)
      by (simp add: aggregate_queue_with_def flush_all_within queue_put_all_room spend_agg_def
          LITELLM_ASYNCIO_QUEUE_MAXSIZE_def MAX_SIZE_IN_MEMORY_QUEUE_def)
    show ?case
      using Cons.IH [of ?a] Cons.IH [of ?q] Cons.prems keys len put agg
      by (auto simp: add_update_with_def)
  qed simp
  from this [of us "[]"] show ?thesis by (simp add: MAX_SIZE_IN_MEMORY_QUEUE_def)
qed

text \<open>
  An update without an id and one whose id is the text \<^verbatim>\<open>None\<close> are aggregated
  into one item: the cost of the second is booked on the entity of the first.
\<close>

lemma none_id_merged:
  "get_aggregated_spend_update_queue_item
     [\<lparr>entity_type = Some t, entity_id = None, response_cost = Some a\<rparr>,
      \<lparr>entity_type = Some t, entity_id = Some ''None'', response_cost = Some b\<rparr>] =
   [\<lparr>entity_type = Some t, entity_id = None, response_cost = Some (a + b)\<rparr>]"
  by (simp add: get_aggregated_spend_update_queue_item_def agg_step_def entity_key_def cost_def)

subsection \<open>Daily spend\<close>

record BaseDailySpendTransaction =
  tx_date :: string
  api_key :: string
  tx_model :: "string option"
  model_group :: "string option"
  mcp_namespaced_tool_name :: "string option"
  custom_llm_provider :: "string option"
  endpoint :: "string option"
  prompt_tokens :: int
  completion_tokens :: int
  cache_read_input_tokens :: "int option option" \<comment> \<open>a missing key, \<^verbatim>\<open>None\<close> or a number\<close>
  cache_creation_input_tokens :: "int option option"
  tx_spend :: rat
  api_requests :: int
  successful_requests :: int
  failed_requests :: int
  tx_entity :: "string option" \<comment> \<open>\<^verbatim>\<open>user_id\<close>, \<^verbatim>\<open>team_id\<close>, \<^verbatim>\<open>organization_id\<close>, \<^verbatim>\<open>end_user_id\<close>, \<^verbatim>\<open>agent_id\<close> or \<^verbatim>\<open>tag\<close> of the subclasses\<close>
  tx_request_id :: "string option option" \<comment> \<open>only for tags\<close>

type_synonym daily_update = "(string, BaseDailySpendTransaction) dict"

text \<open>\<^verbatim>\<open>(payload.get(k, 0) or 0) + daily_transaction.get(k, 0)\<close>.\<close>

definition add_optional :: "int option option \<Rightarrow> int option option \<Rightarrow> int option option pyres" where
  "add_optional payload daily =
     (let p = (case payload of Some (Some n) \<Rightarrow> n | _ \<Rightarrow> 0) in
      case daily of
        None \<Rightarrow> Inr (Some (Some p))
      | Some None \<Rightarrow> Inl TypeError
      | Some (Some n) \<Rightarrow> Inr (Some (Some (p + n))))"

text \<open>The body of the inner loop; the aggregate is local to the call, so an exception drops it.\<close>

definition daily_step :: "string \<times> BaseDailySpendTransaction \<Rightarrow> daily_update \<Rightarrow> daily_update pyres" where
  "daily_step kp agg =
     (case map_of agg (fst kp) of
        None \<Rightarrow> Inr (AList.update (fst kp) (snd kp) agg)
      | Some d \<Rightarrow>
        let p = snd kp;
            d1 = d\<lparr>tx_spend := tx_spend d + tx_spend p,
                   prompt_tokens := prompt_tokens d + prompt_tokens p,
                   completion_tokens := completion_tokens d + completion_tokens p,
                   api_requests := api_requests d + api_requests p,
                   successful_requests := successful_requests d + successful_requests p,
                   failed_requests := failed_requests d + failed_requests p\<rparr> in
        (case add_optional (cache_read_input_tokens p) (cache_read_input_tokens d1) of
           Inl e \<Rightarrow> Inl e
         | Inr r \<Rightarrow>
           (case add_optional (cache_creation_input_tokens p) (cache_creation_input_tokens d1) of
              Inl e \<Rightarrow> Inl e
            | Inr c \<Rightarrow>
              Inr (AList.update (fst kp)
                (d1\<lparr>cache_read_input_tokens := r, cache_creation_input_tokens := c\<rparr>) agg))))"

fun daily_loop :: "(string \<times> BaseDailySpendTransaction) list \<Rightarrow> daily_update \<Rightarrow> daily_update pyres" where
  "daily_loop [] agg = Inr agg"
| "daily_loop (kp # kps) agg = (case daily_step kp agg of Inl e \<Rightarrow> Inl e | Inr agg1 \<Rightarrow> daily_loop kps agg1)"

definition get_aggregated_daily_spend :: "daily_update list \<Rightarrow> daily_update pyres" where
  "get_aggregated_daily_spend updates = daily_loop (concat updates) []"

definition daily_agg :: "daily_update list \<Rightarrow> daily_update list pyres" where
  "daily_agg us = (case get_aggregated_daily_spend us of Inl e \<Rightarrow> Inl e | Inr m \<Rightarrow> Inr [m])"

definition daily_aggregate_queue_updates where
  "daily_aggregate_queue_updates q = aggregate_queue_with daily_agg q"

definition daily_add_update where
  "daily_add_update u q = add_update_with daily_agg u q"

definition flush_and_get_aggregated_daily_spend :: "daily_update list \<Rightarrow> daily_update pyres \<times> daily_update list" where
  "flush_and_get_aggregated_daily_spend q =
     (case flush_all_updates q of (ups, rest) \<Rightarrow> (get_aggregated_daily_spend ups, rest))"

text \<open>The counters of a transaction, a missing one being zero.\<close>

datatype counter = Spend | Prompt | Completion | Requests | Successes | Failures | CacheRead | CacheCreation

definition count_opt :: "int option option \<Rightarrow> rat" where
  "count_opt x = (case x of Some (Some n) \<Rightarrow> of_int n | _ \<Rightarrow> 0)"

definition counter_of :: "counter \<Rightarrow> BaseDailySpendTransaction \<Rightarrow> rat" where
  "counter_of c d =
     (case c of Spend \<Rightarrow> tx_spend d | Prompt \<Rightarrow> of_int (prompt_tokens d) | Completion \<Rightarrow> of_int (completion_tokens d)
      | Requests \<Rightarrow> of_int (api_requests d) | Successes \<Rightarrow> of_int (successful_requests d)
      | Failures \<Rightarrow> of_int (failed_requests d) | CacheRead \<Rightarrow> count_opt (cache_read_input_tokens d)
      | CacheCreation \<Rightarrow> count_opt (cache_creation_input_tokens d))"

definition daily_total :: "string \<times> counter \<Rightarrow> daily_update \<Rightarrow> rat" where
  "daily_total kc u = (\<Sum>p\<leftarrow>u. if fst p = fst kc then counter_of (snd kc) (snd p) else 0)"

definition no_none :: "daily_update \<Rightarrow> bool" where
  "no_none u \<longleftrightarrow> list_all (\<lambda>(k, d). cache_read_input_tokens d \<noteq> Some None \<and>
     cache_creation_input_tokens d \<noteq> Some None) u"

definition clean :: "BaseDailySpendTransaction \<Rightarrow> bool" where
  "clean d \<longleftrightarrow> cache_read_input_tokens d \<noteq> Some None \<and> cache_creation_input_tokens d \<noteq> Some None"

lemma add_optional_ok:
  "d \<noteq> Some None \<Longrightarrow> \<exists>x. add_optional p d = Inr x \<and> x \<noteq> Some None \<and> count_opt x = count_opt p + count_opt d"
  by (auto simp: add_optional_def count_opt_def split: option.splits)

lemma sum_update_key:
  "dict_wf m \<Longrightarrow> map_of m k = Some d \<Longrightarrow>
   daily_total kc (AList.update k w m) =
     daily_total kc m + (if k = fst kc then counter_of (snd kc) w - counter_of (snd kc) d else 0)"
  by (induction m) (auto simp: daily_total_def)

definition daily_inv :: "daily_update \<Rightarrow> bool" where
  "daily_inv m \<longleftrightarrow> dict_wf m \<and> (\<forall>d \<in> snd ` set m. clean d)"

lemma daily_inv_update: "daily_inv m \<Longrightarrow> clean w \<Longrightarrow> daily_inv (AList.update k w m)"
  unfolding daily_inv_def using set_update [of k w m] by fastforce

lemma daily_step_ok:
  assumes "daily_inv m" "clean (snd kp)"
  shows "\<exists>m'. daily_step kp m = Inr m' \<and> daily_inv m' \<and> (\<forall>kc. daily_total kc m' = daily_total kc [kp] + daily_total kc m)"
proof (cases "map_of m (fst kp)")
  case None
  then have "AList.update (fst kp) (snd kp) m = m @ [kp]" by (simp add: update_absent map_of_None_key)
  then show ?thesis
    using None assms daily_inv_update [of m "snd kp" "fst kp"] by (simp add: daily_step_def daily_total_def)
next
  case (Some d)
  let ?p = "snd kp"
  have d: "clean d" "dict_wf m" using assms(1) Some map_of_SomeD [OF Some] by (force simp: daily_inv_def)+
  obtain x where x: "add_optional (cache_read_input_tokens ?p) (cache_read_input_tokens d) = Inr x" "x \<noteq> Some None"
    "count_opt x = count_opt (cache_read_input_tokens ?p) + count_opt (cache_read_input_tokens d)"
    using add_optional_ok d(1) unfolding clean_def by blast
  obtain y where y: "add_optional (cache_creation_input_tokens ?p) (cache_creation_input_tokens d) = Inr y" "y \<noteq> Some None"
    "count_opt y = count_opt (cache_creation_input_tokens ?p) + count_opt (cache_creation_input_tokens d)"
    using add_optional_ok d(1) unfolding clean_def by blast
  let ?w = "d\<lparr>tx_spend := tx_spend d + tx_spend ?p, prompt_tokens := prompt_tokens d + prompt_tokens ?p,
     completion_tokens := completion_tokens d + completion_tokens ?p, api_requests := api_requests d + api_requests ?p,
     successful_requests := successful_requests d + successful_requests ?p,
     failed_requests := failed_requests d + failed_requests ?p,
     cache_read_input_tokens := x, cache_creation_input_tokens := y\<rparr>"
  have step: "daily_step kp m = Inr (AList.update (fst kp) ?w m)" using Some x(1) y(1) by (simp add: daily_step_def Let_def)
  have cnt: "counter_of c ?w = counter_of c ?p + counter_of c d" for c
    using x(3) y(3) by (cases c) (simp_all add: counter_of_def)
  have "daily_total kc (AList.update (fst kp) ?w m) = daily_total kc [kp] + daily_total kc m" for kc
    using sum_update_key [OF d(2) Some, of kc ?w] cnt by (simp add: daily_total_def)
  moreover have "daily_inv (AList.update (fst kp) ?w m)"
    using x(2) y(2) by (intro daily_inv_update [OF assms(1)]) (simp add: clean_def)
  ultimately show ?thesis using step by blast
qed

lemma daily_loop_ok:
  "daily_inv m \<Longrightarrow> \<forall>kp \<in> set kps. clean (snd kp) \<Longrightarrow>
   \<exists>m'. daily_loop kps m = Inr m' \<and> daily_inv m' \<and> (\<forall>kc. daily_total kc m' = daily_total kc kps + daily_total kc m)"
proof (induction kps arbitrary: m)
  case (Cons kp kps)
  obtain m1 where m1: "daily_step kp m = Inr m1" "daily_inv m1"
    "\<forall>kc. daily_total kc m1 = daily_total kc [kp] + daily_total kc m"
    using daily_step_ok [OF Cons.prems(1), of kp] Cons.prems(2) by auto
  from Cons.IH [OF m1(2)] Cons.prems(2) m1(1,3) show ?case by (auto simp: daily_total_def)
qed (simp add: daily_total_def)

lemma daily_total_concat: "daily_total kc (concat us) = (\<Sum>u\<leftarrow>us. daily_total kc u)"
  by (induction us) (simp_all add: daily_total_def)

lemma no_none_clean: "no_none u \<longleftrightarrow> (\<forall>kp \<in> set u. clean (snd kp))"
  by (auto simp: no_none_def clean_def list_all_iff)

lemma daily_aggregated:
  assumes "list_all no_none us"
  shows "\<exists>m. get_aggregated_daily_spend us = Inr m \<and> no_none m \<and> dict_wf m \<and>
    (\<forall>kc. daily_total kc m = (\<Sum>u\<leftarrow>us. daily_total kc u))"
proof -
  have "\<forall>kp \<in> set (concat us). clean (snd kp)" using assms by (auto simp: list_all_iff no_none_clean)
  moreover have "daily_inv []" "daily_total kc [] = 0" for kc by (simp_all add: daily_inv_def daily_total_def)
  ultimately show ?thesis
    using daily_loop_ok [of "[]" "concat us"]
    by (auto simp: get_aggregated_daily_spend_def daily_inv_def daily_total_concat no_none_clean)
qed

interpretation dailyq: spend_buffer daily_agg daily_total no_none
proof
  fix us :: "daily_update list"
  assume us: "list_all no_none us" "us \<noteq> []"
  obtain m where m: "get_aggregated_daily_spend us = Inr m" "no_none m"
    "\<forall>kc. daily_total kc m = (\<Sum>u\<leftarrow>us. daily_total kc u)" using daily_aggregated [OF us(1)] by blast
  have "length [m] \<le> length us" using us(2) by (cases us) auto
  then show "\<exists>vs. daily_agg us = Inr vs \<and> list_all no_none vs \<and> length vs \<le> length us \<and>
      (\<forall>kc. (\<Sum>v\<leftarrow>vs. daily_total kc v) = (\<Sum>u\<leftarrow>us. daily_total kc u))"
    using m by (intro exI [of _ "[m]"]) (simp add: daily_agg_def)
qed

lemma daily_total_lookup:
  "dict_wf m \<Longrightarrow> daily_total (k, c) m = (case map_of m k of None \<Rightarrow> 0 | Some d \<Rightarrow> counter_of c d)"
proof (induction m)
  case (Cons p m)
  have "daily_total (k, c) m = 0" if "fst p = k"
    using Cons that by (auto simp: map_of_None_key split: option.splits dest: map_of_Some_key)
  with Cons show ?case by (cases "fst p = k") (auto simp: daily_total_def)
qed (simp add: daily_total_def)

text \<open>A transaction for the witnesses.\<close>

definition daily_item :: "int option option \<Rightarrow> rat \<Rightarrow> BaseDailySpendTransaction" where
  "daily_item cr s = \<lparr>tx_date = ''2025-01-01'', api_key = ''k'', tx_model = None, model_group = None,
     mcp_namespaced_tool_name = None, custom_llm_provider = None, endpoint = None, prompt_tokens = 10,
     completion_tokens = 5, cache_read_input_tokens = cr, cache_creation_input_tokens = None, tx_spend = s,
     api_requests = 1, successful_requests = 1, failed_requests = 0, tx_entity = Some ''u'', tx_request_id = None\<rparr>"

text \<open>
  The daily buffer keeps every counter: after any sequence of updates to an empty
  queue, with the aggregations it triggers, the flush returns for every transaction key and each of
  the eight counters the sum over the updates, provided no update has \<^verbatim>\<open>None\<close> for a cache
  counter.
\<close>

lemma daily_spend_conserved:
  assumes "list_all no_none us" "add_updates_with daily_agg us [] = Some (r, q)"
  shows "\<exists>m. r = Inr () \<and> flush_and_get_aggregated_daily_spend q = (Inr m, []) \<and>
    (\<forall>k c. (case map_of m k of None \<Rightarrow> 0 | Some d \<Rightarrow> counter_of c d) = (\<Sum>u\<leftarrow>us. daily_total (k, c) u))"
proof -
  have q: "r = Inr ()" "list_all no_none q" "length q \<le> LITELLM_ASYNCIO_QUEUE_MAXSIZE"
    "\<And>kc. (\<Sum>v\<leftarrow>q. daily_total kc v) = (\<Sum>u\<leftarrow>us. daily_total kc u)"
    using dailyq.add_updates_total [OF assms(1) _ _ assms(2)] by auto
  obtain m where m: "get_aggregated_daily_spend q = Inr m" "dict_wf m"
    "\<forall>kc. daily_total kc m = (\<Sum>u\<leftarrow>q. daily_total kc u)" using daily_aggregated [OF q(2)] by blast
  then show ?thesis
    using q daily_total_lookup [OF m(2)] by (auto simp: flush_and_get_aggregated_daily_spend_def flush_all_within)
qed

text \<open>
  A cache counter that is \<^verbatim>\<open>None\<close> in the first update of a transaction key makes
  the aggregation raise when a second update of the key follows, although the same value in the second
  one counts as zero; the flush has emptied the queue by then, so every update of the batch is lost.
\<close>

lemma daily_none_loses_batch:
  assumes "cache_read_input_tokens a = Some None" "length rest < 900"
  shows "flush_and_get_aggregated_daily_spend ([(k, a)] # [(k, b)] # rest) = (Inl TypeError, [])"
proof -
  have "daily_step (k, b) [(k, a)] = Inl TypeError" using assms(1) by (simp add: daily_step_def add_optional_def)
  then have "get_aggregated_daily_spend ([(k, a)] # [(k, b)] # rest) = Inl TypeError"
    by (simp add: get_aggregated_daily_spend_def daily_step_def [of "(k, a)"])
  then show ?thesis
    using assms(2) by (simp add: flush_and_get_aggregated_daily_spend_def flush_all_within LITELLM_ASYNCIO_QUEUE_MAXSIZE_def)
qed

end
