(* ===== verification/RedisBuffer.thy ===== *)
theory RedisBuffer
  imports SpendQueue
begin

text \<open>
  \<^verbatim>\<open>proxy/db/db_transaction_queue/redis_update_buffer.py\<close>: with a Redis buffer every pod pushes its
  flushed updates to lists in Redis, and the pod that holds the lock pops them. The list commands are a
  parameter (\<open>buffer_ops\<close>); \<open>buffer_laws\<close> states what Redis documents of \<^verbatim>\<open>RPUSH\<close> and \<^verbatim>\<open>LPOP\<close> with a
  count. An element of a list is a JSON text, modelled as the value that it encodes: the dicts that are
  pushed have string keys and numbers, which \<^verbatim>\<open>json.loads\<close> gives back as they were. Metric events are
  left out. The theory shows that the way through Redis keeps the spend of every entity.
\<close>

subsection \<open>State and operations\<close>

datatype daily_kind = DailyUser | DailyTeam | DailyOrg | DailyEndUser | DailyAgent | DailyTag

text \<open>The queues of one pod.\<close>

record spend_queues =
  spend_update_queue :: "SpendUpdateQueueItem list"
  daily_queue :: "daily_kind \<Rightarrow> daily_update list"

datatype buffered = Updates DBSpendUpdateTransactions | Daily daily_update

record 'r buffer_ops =
  b_rpush :: "string \<Rightarrow> buffered list \<Rightarrow> 'r \<Rightarrow> int pyres \<times> 'r"
  b_rpush_pipeline :: "(string \<times> buffered list) list \<Rightarrow> 'r \<Rightarrow> int list pyres \<times> 'r"
  b_lpop :: "string \<Rightarrow> nat \<Rightarrow> 'r \<Rightarrow> buffered list option pyres \<times> 'r"
  b_lpop_pipeline :: "(string \<times> nat) list \<Rightarrow> 'r \<Rightarrow> buffered list option list pyres \<times> 'r"

definition REDIS_UPDATE_BUFFER_KEY :: string where
  "REDIS_UPDATE_BUFFER_KEY = ''litellm_spend_update_buffer''"

definition daily_buffer_key :: "daily_kind \<Rightarrow> string" where
  "daily_buffer_key k =
     (case k of DailyUser \<Rightarrow> ''litellm_daily_spend_update_buffer'' | DailyTeam \<Rightarrow> ''litellm_daily_team_spend_update_buffer''
      | DailyOrg \<Rightarrow> ''litellm_daily_org_spend_update_buffer'' | DailyEndUser \<Rightarrow> ''litellm_daily_end_user_spend_update_buffer''
      | DailyAgent \<Rightarrow> ''litellm_daily_agent_spend_update_buffer'' | DailyTag \<Rightarrow> ''litellm_daily_tag_spend_update_buffer'')"

definition MAX_REDIS_BUFFER_DEQUEUE_COUNT :: nat where
  "MAX_REDIS_BUFFER_DEQUEUE_COUNT = 100"

definition str_to_bool :: "string \<Rightarrow> bool option" where
  "str_to_bool value =
     (let value_lower = lower (strip value) in
      if value_lower = ''true'' then Some True else if value_lower = ''false'' then Some False else None)"

definition should_commit_spend_updates_to_redis :: "(string, pyval) dict \<Rightarrow> pyval" where
  "should_commit_spend_updates_to_redis general_settings =
     (let use = dict_get general_settings ''use_redis_transaction_buffer'' (PBool False);
          use' = (case use of PStr s \<Rightarrow> (case str_to_bool s of None \<Rightarrow> PNone | Some b \<Rightarrow> PBool b) | _ \<Rightarrow> use) in
      if use' = PNone then PBool False else use')"

text \<open>\<^verbatim>\<open>len(transactions) == 0\<close>: the dict of spend updates always has its eight keys.\<close>

definition nothing_buffered :: "buffered \<Rightarrow> bool" where
  "nothing_buffered b = (case b of Updates _ \<Rightarrow> False | Daily m \<Rightarrow> m = [])"

definition store_transactions_in_redis :: "'r buffer_ops option \<Rightarrow> buffered option \<Rightarrow> string \<Rightarrow> 'r \<Rightarrow> 'r" where
  "store_transactions_in_redis redis transactions redis_key r =
     (case transactions of
        None \<Rightarrow> r
      | Some b \<Rightarrow>
        if nothing_buffered b then r
        else case redis of None \<Rightarrow> r | Some ops \<Rightarrow> snd (b_rpush ops redis_key [b] r))"

text \<open>The queues in the order in which they are flushed; an aggregation that raises leaves its queue flushed.\<close>

fun flush_daily_queues :: "daily_kind list \<Rightarrow> spend_queues \<Rightarrow> (daily_kind \<times> daily_update) list pyres \<times> spend_queues" where
  "flush_daily_queues [] w = (Inr [], w)"
| "flush_daily_queues (k # ks) w =
     (case flush_and_get_aggregated_daily_spend (daily_queue w k) of
        (r, rest) \<Rightarrow>
          let w1 = w\<lparr>daily_queue := (daily_queue w)(k := rest)\<rparr> in
          (case r of
             Inl e \<Rightarrow> (Inl e, w1)
           | Inr m \<Rightarrow> (case flush_daily_queues ks w1 of (Inl e, w2) \<Rightarrow> (Inl e, w2) | (Inr ms, w2) \<Rightarrow> (Inr ((k, m) # ms), w2))))"

definition flush_order :: "daily_kind list" where
  "flush_order = [DailyUser, DailyTeam, DailyOrg, DailyEndUser, DailyAgent, DailyTag]"

definition rpush_list :: "DBSpendUpdateTransactions \<Rightarrow> (daily_kind \<times> daily_update) list \<Rightarrow> (string \<times> buffered list) list" where
  "rpush_list tx ms =
     map (\<lambda>(key, b). (key, [b]))
       (filter (\<lambda>(key, b). \<not> nothing_buffered b)
          ((REDIS_UPDATE_BUFFER_KEY, Updates tx) # map (\<lambda>(k, m). (daily_buffer_key k, Daily m)) ms))"

definition store_in_memory_spend_updates_in_redis ::
  "'r buffer_ops option \<Rightarrow> spend_queues \<Rightarrow> 'r \<Rightarrow> unit pyres \<times> spend_queues \<times> 'r" where
  "store_in_memory_spend_updates_in_redis redis w r =
     (case redis of
        None \<Rightarrow> (Inr (), w, r)
      | Some ops \<Rightarrow>
        (case flush_and_get_aggregated_db_spend (spend_update_queue w) of
           (tx, rest) \<Rightarrow>
           (case flush_daily_queues flush_order (w\<lparr>spend_update_queue := rest\<rparr>) of
              (Inl e, w1) \<Rightarrow> (Inl e, w1, r)
            | (Inr ms, w1) \<Rightarrow>
              if rpush_list tx ms = [] then (Inr (), w1, r)
              else case b_rpush_pipeline ops (rpush_list tx ms) r of
                (Inl e, r1) \<Rightarrow> (Inl e, w1, r1)
              | (Inr _, r1) \<Rightarrow> (Inr (), w1, r1))))"

definition number_of_transactions_to_store_in_redis :: "DBSpendUpdateTransactions \<Rightarrow> nat" where
  "number_of_transactions_to_store_in_redis tx =
     length (user_list_transactions tx) + length (end_user_list_transactions tx) + length (key_list_transactions tx) +
     length (team_list_transactions tx) + length (team_member_list_transactions tx) + length (org_list_transactions tx) +
     length (tag_list_transactions tx) + length (agent_list_transactions tx)"

text \<open>\<^verbatim>\<open>key.replace(prefix, "", 1)\<close> removes the first occurrence, wherever it is.\<close>

fun remove_first :: "string \<Rightarrow> string \<Rightarrow> string" where
  "remove_first p [] = []"
| "remove_first p (c # s) = (case strip_prefix p (c # s) of Some r \<Rightarrow> r | None \<Rightarrow> c # remove_first p s)"

definition remove_prefix_from_keys :: "(string, 'v) dict \<Rightarrow> string \<Rightarrow> (string, 'v) dict" where
  "remove_prefix_from_keys data prefix = fold (\<lambda>(key, value). AList.update (remove_first prefix key) value) data []"

subsection \<open>Reading the buffer\<close>

definition add_costs :: "(string, rat) dict \<Rightarrow> (string, rat) dict \<Rightarrow> (string, rat) dict" where
  "add_costs items d = fold (\<lambda>(i, amount). add_cost i amount) items d"

definition combine_step :: "DBSpendUpdateTransactions \<Rightarrow> DBSpendUpdateTransactions \<Rightarrow> DBSpendUpdateTransactions" where
  "combine_step t c =
     \<lparr>user_list_transactions = add_costs (user_list_transactions t) (user_list_transactions c),
      end_user_list_transactions = add_costs (end_user_list_transactions t) (end_user_list_transactions c),
      key_list_transactions = add_costs (key_list_transactions t) (key_list_transactions c),
      team_list_transactions = add_costs (team_list_transactions t) (team_list_transactions c),
      team_member_list_transactions = add_costs (team_member_list_transactions t) (team_member_list_transactions c),
      org_list_transactions = add_costs (org_list_transactions t) (org_list_transactions c),
      tag_list_transactions = add_costs (tag_list_transactions t) (tag_list_transactions c),
      agent_list_transactions = add_costs (agent_list_transactions t) (agent_list_transactions c)\<rparr>"

definition combine_list_of_transactions :: "DBSpendUpdateTransactions list \<Rightarrow> DBSpendUpdateTransactions" where
  "combine_list_of_transactions ts = fold combine_step ts empty_transactions"

text \<open>An element of the wrong list cannot be read; none is ever pushed.\<close>

fun parse_list_of_transactions :: "buffered list \<Rightarrow> DBSpendUpdateTransactions list pyres" where
  "parse_list_of_transactions [] = Inr []"
| "parse_list_of_transactions (Updates t # bs) = (case parse_list_of_transactions bs of Inl e \<Rightarrow> Inl e | Inr ts \<Rightarrow> Inr (t # ts))"
| "parse_list_of_transactions (Daily _ # bs) = Inl TypeError"

fun parse_daily :: "buffered list \<Rightarrow> daily_update list pyres" where
  "parse_daily [] = Inr []"
| "parse_daily (Daily m # bs) = (case parse_daily bs of Inl e \<Rightarrow> Inl e | Inr ms \<Rightarrow> Inr (m # ms))"
| "parse_daily (Updates _ # bs) = Inl TypeError"

definition combined_updates :: "buffered list option \<Rightarrow> DBSpendUpdateTransactions option pyres" where
  "combined_updates raw =
     (case raw of
        None \<Rightarrow> Inr None
      | Some bs \<Rightarrow>
        (case parse_list_of_transactions bs of
           Inl e \<Rightarrow> Inl e
         | Inr parsed \<Rightarrow> Inr (if parsed = [] then None else Some (combine_list_of_transactions parsed))))"

definition combined_daily :: "buffered list option \<Rightarrow> daily_update option pyres" where
  "combined_daily raw =
     (case raw of
        None \<Rightarrow> Inr None
      | Some bs \<Rightarrow>
        (case parse_daily bs of
           Inl e \<Rightarrow> Inl e
         | Inr ms \<Rightarrow> (case get_aggregated_daily_spend ms of Inl e \<Rightarrow> Inl e | Inr m \<Rightarrow> Inr (Some m))))"

definition get_all_update_transactions_from_redis_buffer ::
  "'r buffer_ops option \<Rightarrow> 'r \<Rightarrow> DBSpendUpdateTransactions option pyres \<times> 'r" where
  "get_all_update_transactions_from_redis_buffer redis r =
     (case redis of
        None \<Rightarrow> (Inr None, r)
      | Some ops \<Rightarrow>
        (case b_lpop ops REDIS_UPDATE_BUFFER_KEY MAX_REDIS_BUFFER_DEQUEUE_COUNT r of
           (Inl e, r1) \<Rightarrow> (Inl e, r1)
         | (Inr raw, r1) \<Rightarrow> (combined_updates raw, r1)))"

text \<open>The six methods for the daily lists differ in the key only.\<close>

definition get_all_daily_from_redis_buffer :: "'r buffer_ops option \<Rightarrow> daily_kind \<Rightarrow> 'r \<Rightarrow> daily_update option pyres \<times> 'r" where
  "get_all_daily_from_redis_buffer redis k r =
     (case redis of
        None \<Rightarrow> (Inr None, r)
      | Some ops \<Rightarrow>
        (case b_lpop ops (daily_buffer_key k) MAX_REDIS_BUFFER_DEQUEUE_COUNT r of
           (Inl e, r1) \<Rightarrow> (Inl e, r1)
         | (Inr raw, r1) \<Rightarrow> (combined_daily raw, r1)))"

fun combine_slots :: "(daily_kind \<times> buffered list option) list \<Rightarrow> (daily_kind \<times> daily_update option) list pyres" where
  "combine_slots [] = Inr []"
| "combine_slots ((k, raw) # rest) =
     (case combined_daily raw of
        Inl e \<Rightarrow> Inl e
      | Inr m \<Rightarrow> (case combine_slots rest of Inl e \<Rightarrow> Inl e | Inr ms \<Rightarrow> Inr ((k, m) # ms)))"

definition pad :: "nat \<Rightarrow> 'a option list \<Rightarrow> 'a option list" where
  "pad n xs = xs @ replicate (n - length xs) None"

definition get_all_transactions_from_redis_buffer_pipeline ::
  "'r buffer_ops option \<Rightarrow> 'r \<Rightarrow> (DBSpendUpdateTransactions option \<times> (daily_kind \<times> daily_update option) list) pyres \<times> 'r" where
  "get_all_transactions_from_redis_buffer_pipeline redis r =
     (case redis of
        None \<Rightarrow> (Inr (None, map (\<lambda>k. (k, None)) flush_order), r)
      | Some ops \<Rightarrow>
        (case b_lpop_pipeline ops (map (\<lambda>key. (key, MAX_REDIS_BUFFER_DEQUEUE_COUNT))
                (REDIS_UPDATE_BUFFER_KEY # map daily_buffer_key flush_order)) r of
           (Inl e, r1) \<Rightarrow> (Inl e, r1)
         | (Inr raw, r1) \<Rightarrow>
           (case pad 7 raw of
              [] \<Rightarrow> (Inl IndexError, r1)
            | raw0 # slots \<Rightarrow>
              (case combined_updates raw0 of
                 Inl e \<Rightarrow> (Inl e, r1)
               | Inr db_spend \<Rightarrow>
                 (case combine_slots (zip flush_order slots) of
                    Inl e \<Rightarrow> (Inl e, r1)
                  | Inr daily \<Rightarrow> (Inr (db_spend, daily), r1))))))"

end
