(* ===== verification/PodLock.thy ===== *)
theory PodLock
  imports PyValue
begin

text \<open>
  \<^verbatim>\<open>proxy/db/db_transaction_queue/pod_lock_manager.py\<close>: the lock in Redis that lets one pod at
  a time run a cron job. The three Redis calls are a parameter (\<open>lock_ops\<close>); \<open>lock_laws\<close> states
  what Redis documents of \<^verbatim>\<open>SET key value NX EX ttl\<close>, \<^verbatim>\<open>GET\<close> and \<^verbatim>\<open>DEL\<close> in terms of
  the holder of a lock key. \<^verbatim>\<open>release_lock\<close> waits between its \<^verbatim>\<open>GET\<close> and its
  \<^verbatim>\<open>DEL\<close>, so its two halves are definitions of their own.
\<close>

record 'r lock_ops =
  l_set_nx :: "string \<Rightarrow> string \<Rightarrow> rat \<Rightarrow> 'r \<Rightarrow> bool pyres \<times> 'r"
  l_get :: "string \<Rightarrow> 'r \<Rightarrow> pyval pyres \<times> 'r"
  l_delete :: "string \<Rightarrow> 'r \<Rightarrow> int pyres \<times> 'r"

definition DEFAULT_CRON_JOB_LOCK_TTL_SECONDS :: rat where
  "DEFAULT_CRON_JOB_LOCK_TTL_SECONDS = 60"

definition get_redis_lock_key :: "string \<Rightarrow> string" where
  "get_redis_lock_key cronjob_id = ''cronjob_lock:'' @ cronjob_id"

text \<open>
  \<^verbatim>\<open>acquire_lock\<close> of the pod \<open>pod_id\<close>; the operations are \<^term>\<open>None\<close> when there is no Redis, and
  so is the answer.
\<close>

definition acquire_lock :: "'r lock_ops option \<Rightarrow> string \<Rightarrow> string \<Rightarrow> 'r \<Rightarrow> bool option \<times> 'r" where
  "acquire_lock redis pod_id cronjob_id r =
     (case redis of
        None \<Rightarrow> (None, r)
      | Some ops \<Rightarrow>
        (case l_set_nx ops (get_redis_lock_key cronjob_id) pod_id DEFAULT_CRON_JOB_LOCK_TTL_SECONDS r of
           (Inl _, r1) \<Rightarrow> (Some False, r1)
         | (Inr True, r1) \<Rightarrow> (Some True, r1)
         | (Inr False, r1) \<Rightarrow>
           (case l_get ops (get_redis_lock_key cronjob_id) r1 of
              (Inl _, r2) \<Rightarrow> (Some False, r2)
            | (Inr current_value, r2) \<Rightarrow> (Some (current_value = PStr pod_id), r2))))"

text \<open>The first half of \<^verbatim>\<open>release_lock\<close>: does the pod hold the lock?\<close>

definition release_check :: "'r lock_ops \<Rightarrow> string \<Rightarrow> string \<Rightarrow> 'r \<Rightarrow> bool \<times> 'r" where
  "release_check ops pod_id cronjob_id r =
     (case l_get ops (get_redis_lock_key cronjob_id) r of
        (Inl _, r1) \<Rightarrow> (False, r1)
      | (Inr current_value, r1) \<Rightarrow> (current_value = PStr pod_id, r1))"

definition release_delete :: "'r lock_ops \<Rightarrow> string \<Rightarrow> 'r \<Rightarrow> 'r" where
  "release_delete ops cronjob_id r = snd (l_delete ops (get_redis_lock_key cronjob_id) r)"

definition release_lock :: "'r lock_ops option \<Rightarrow> string \<Rightarrow> string \<Rightarrow> 'r \<Rightarrow> 'r" where
  "release_lock redis pod_id cronjob_id r =
     (case redis of
        None \<Rightarrow> r
      | Some ops \<Rightarrow>
        (case release_check ops pod_id cronjob_id r of
           (True, r1) \<Rightarrow> release_delete ops cronjob_id r1
         | (False, r1) \<Rightarrow> r1))"

text \<open>What Redis promises, for the holder of each key.\<close>

definition lock_laws :: "'r lock_ops \<Rightarrow> (string \<Rightarrow> 'r \<Rightarrow> string option) \<Rightarrow> bool" where
  "lock_laws ops holder \<longleftrightarrow>
     (\<forall>k p t r. \<exists>r'. l_set_nx ops k p t r = (Inr (holder k r = None), r') \<and>
        (\<forall>k'. holder k' r' = (if k' = k \<and> holder k r = None then Some p else holder k' r))) \<and>
     (\<forall>k r. \<exists>r'. l_get ops k r = (Inr (case holder k r of None \<Rightarrow> PNone | Some p \<Rightarrow> PStr p), r') \<and>
        (\<forall>k'. holder k' r' = holder k' r)) \<and>
     (\<forall>k r. \<forall>k'. holder k' (snd (l_delete ops k r)) = (if k' = k then None else holder k' r))"

lemma lock_laws_acquire:
  assumes "lock_laws ops holder"
  shows "\<exists>r'. acquire_lock (Some ops) p j r =
      (Some (holder (get_redis_lock_key j) r \<in> {None, Some p}), r') \<and>
    (\<forall>k. holder k r' = (if k = get_redis_lock_key j \<and> holder k r = None then Some p else holder k r))"
proof -
  let ?k = "get_redis_lock_key j"
  obtain r1 where r1: "l_set_nx ops ?k p DEFAULT_CRON_JOB_LOCK_TTL_SECONDS r = (Inr (holder ?k r = None), r1)"
    "\<forall>k'. holder k' r1 = (if k' = ?k \<and> holder ?k r = None then Some p else holder k' r)"
    using assms unfolding lock_laws_def by blast
  obtain r2 where r2: "l_get ops ?k r1 = (Inr (case holder ?k r1 of None \<Rightarrow> PNone | Some q \<Rightarrow> PStr q), r2)"
    "\<forall>k'. holder k' r2 = holder k' r1"
    using assms unfolding lock_laws_def by blast
  show ?thesis
  proof (cases "holder ?k r")
    case None
    then show ?thesis using r1 by (auto simp: acquire_lock_def)
  next
    case (Some q)
    then show ?thesis using r1 r2 by (auto simp: acquire_lock_def)
  qed
qed

lemma lock_laws_check:
  assumes "lock_laws ops holder"
  shows "\<exists>r'. release_check ops p j r = (holder (get_redis_lock_key j) r = Some p, r') \<and>
    (\<forall>k. holder k r' = holder k r)"
proof -
  obtain r1 where "l_get ops (get_redis_lock_key j) r =
      (Inr (case holder (get_redis_lock_key j) r of None \<Rightarrow> PNone | Some q \<Rightarrow> PStr q), r1)"
    "\<forall>k'. holder k' r1 = holder k' r"
    using assms unfolding lock_laws_def by blast
  then show ?thesis by (auto simp: release_check_def split: option.splits)
qed

lemma lock_laws_delete:
  "lock_laws ops holder \<Longrightarrow>
   holder k (release_delete ops j r) = (if k = get_redis_lock_key j then None else holder k r)"
  by (simp add: lock_laws_def release_delete_def)

subsection \<open>Properties\<close>

text \<open>A Redis for the witnesses: a dict of the locks.\<close>

abbreviation dict_locks :: "(string, string) dict lock_ops" where
  "dict_locks \<equiv> \<lparr>l_set_nx = (\<lambda>k p _ r. if map_of r k = None then (Inr True, AList.update k p r) else (Inr False, r)),
     l_get = (\<lambda>k r. (Inr (case map_of r k of None \<Rightarrow> PNone | Some p \<Rightarrow> PStr p), r)),
     l_delete = (\<lambda>k r. (Inr (if map_of r k = None then 0 else 1), AList.delete k r))\<rparr>"

lemma dict_locks_laws: "lock_laws dict_locks (\<lambda>k r. map_of r k)"
  by (auto simp: lock_laws_def)

text \<open>
  Property C32. Mutual exclusion: when \<^verbatim>\<open>acquire_lock\<close> says yes to a pod, the pod holds the lock
  of the job, and until the lock is released or expires every other pod that asks is told no and the
  holder does not change, while the holder itself may ask again.
\<close>

theorem lock_mutual_exclusion:
  assumes "lock_laws ops holder" "acquire_lock (Some ops) p j r = (Some True, r1)"
  shows "holder (get_redis_lock_key j) r1 = Some p \<and>
    (\<forall>q. \<exists>r2. acquire_lock (Some ops) q j r1 = (Some (q = p), r2) \<and> holder (get_redis_lock_key j) r2 = Some p)"
proof -
  have h: "holder (get_redis_lock_key j) r1 = Some p"
    using lock_laws_acquire [OF assms(1), of p j r] assms(2) by auto
  moreover have "\<exists>r2. acquire_lock (Some ops) q j r1 = (Some (q = p), r2) \<and> holder (get_redis_lock_key j) r2 = Some p" for q
    using lock_laws_acquire [OF assms(1), of q j r1] h by auto
  ultimately show ?thesis by blast
qed

theorem lock_mutual_exclusion_witness:
  "\<exists>r2. acquire_lock (Some dict_locks) ''pod2'' ''job'' [(''cronjob_lock:job'', ''pod1'')] = (Some False, r2)"
proof -
  have "acquire_lock (Some dict_locks) ''pod1'' ''job'' [] = (Some True, [(''cronjob_lock:job'', ''pod1'')])"
    by code_simp
  from lock_mutual_exclusion [OF dict_locks_laws this]
  have "\<exists>r2. acquire_lock (Some dict_locks) ''pod2'' ''job'' [(''cronjob_lock:job'', ''pod1'')] =
      (Some (''pod2'' = ''pod1''), r2)" by blast
  then show ?thesis by simp
qed

text \<open>
  \<^verbatim>\<open>release_lock\<close> frees the lock of the pod and never that of another one, when
  nothing happens between its two Redis calls.
\<close>

lemma release_only_own_lock:
  assumes "lock_laws ops holder"
  shows "holder k (release_lock (Some ops) p j r) =
    (if k = get_redis_lock_key j \<and> holder k r = Some p then None else holder k r)"
proof -
  obtain r1 where r1: "release_check ops p j r = (holder (get_redis_lock_key j) r = Some p, r1)"
    "\<forall>k. holder k r1 = holder k r" using lock_laws_check [OF assms] by blast
  then show ?thesis
    using lock_laws_delete [OF assms, of k j r1]
    by (cases "holder (get_redis_lock_key j) r = Some p") (auto simp: release_lock_def)
qed

text \<open>
  Between the two Redis calls of \<^verbatim>\<open>release_lock\<close> the lock may expire and pass to
  another pod; the second call then frees the lock of that pod, and a third pod may take it while the
  second one still works under it.
\<close>

lemma release_race_frees_foreign_lock:
  assumes "lock_laws ops holder" "release_check ops p j r = (True, r1)"
    and "holder (get_redis_lock_key j) expired = None" "acquire_lock (Some ops) q j expired = (Some True, r2)"
  shows "\<exists>r3. acquire_lock (Some ops) s j (release_delete ops j r2) = (Some True, r3) \<and>
    holder (get_redis_lock_key j) r2 = Some q \<and> holder (get_redis_lock_key j) r3 = Some s"
proof -
  have "holder (get_redis_lock_key j) r2 = Some q"
    using lock_laws_acquire [OF assms(1), of q j expired] assms(3,4) by auto
  then show ?thesis
    using lock_laws_acquire [OF assms(1), of s j "release_delete ops j r2"] lock_laws_delete [OF assms(1)] by auto
qed

end
