(* ===== verification/SpendCommit.thy ===== *)
theory SpendCommit
  imports RedisBuffer PodLock DualCache
begin

text \<open>
  The committing half of \<^verbatim>\<open>proxy/db/db_spend_update_writer.py\<close>: every minute a pod writes its spend
  updates to the database, directly or through the buffer in Redis, where the pod with the lock writes
  what all pods have pushed. The database is a parameter (\<open>db_ops\<close>): \<^verbatim>\<open>d_tx\<close> runs a batch of writes in a
  transaction and \<^verbatim>\<open>d_batch\<close> one without; \<open>db_laws\<close> states that a transaction that raises has changed
  nothing. Waits between attempts, alerts, the time stamp \<^verbatim>\<open>last_active\<close> and tool registries are left out.
  The theory shows that no spend is lost or counted twice between the queues of any number of pods and
  the database while Redis and the database answer.
\<close>

subsection \<open>The database\<close>

datatype row =
  UserRow string | EndUserRow string | KeyRow string | TeamRow string | MemberRow string string
| OrgRow string | TagRow string | AgentRow string

text \<open>The unique constraint of the daily tables.\<close>

record daily_row =
  dr_entity :: "string option"
  dr_date :: string
  dr_api_key :: string
  dr_model :: "string option"
  dr_provider :: string
  dr_tool :: string
  dr_endpoint :: string

datatype db_write =
  UpdateMany row rat \<comment> \<open>\<^verbatim>\<open>update_many\<close> with an increment of \<^verbatim>\<open>spend\<close>\<close>
| Upsert row rat
| UpsertDaily daily_kind daily_row BaseDailySpendTransaction

record 'd db_ops =
  d_tx :: "db_write list \<Rightarrow> 'd \<Rightarrow> unit pyres \<times> 'd"
  d_batch :: "db_write list \<Rightarrow> 'd \<Rightarrow> unit pyres \<times> 'd"

definition DB_CONNECTION_ERROR_TYPES :: "pyexc list" where
  "DB_CONNECTION_ERROR_TYPES = [OtherError ''ConnectError'', OtherError ''ReadError'', OtherError ''ReadTimeout'']"

text \<open>
  The loop over \<^verbatim>\<open>range(n_retry_times + 1)\<close>, with the number of attempts that are left after this one:
  connection errors are retried, all others and the last one are raised.
\<close>

fun with_retries :: "('s \<Rightarrow> unit pyres \<times> 's) \<Rightarrow> nat \<Rightarrow> 's \<Rightarrow> unit pyres \<times> 's" where
  "with_retries f 0 s = f s"
| "with_retries f (Suc n) s =
     (case f s of
        (Inr _, s1) \<Rightarrow> (Inr (), s1)
      | (Inl e, s1) \<Rightarrow> if e \<in> set DB_CONNECTION_ERROR_TYPES then with_retries f n s1 else (Inl e, s1))"

text \<open>One table: nothing is done for an empty dict.\<close>

definition update_table :: "'d db_ops \<Rightarrow> nat \<Rightarrow> db_write list \<Rightarrow> 'd \<Rightarrow> unit pyres \<times> 'd" where
  "update_table ops n_retry_times writes d =
     (if writes = [] then (Inr (), d) else with_retries (d_tx ops writes) n_retry_times d)"

definition update_end_user_spend :: "'d db_ops \<Rightarrow> nat \<Rightarrow> (string, rat) dict \<Rightarrow> 'd \<Rightarrow> unit pyres \<times> 'd" where
  "update_end_user_spend ops n_retry_times transactions d =
     with_retries (d_tx ops (map (\<lambda>(i, c). Upsert (EndUserRow i) c) transactions)) n_retry_times d"

definition update_entity_spend_in_db :: "'d db_ops \<Rightarrow> nat \<Rightarrow> (string \<Rightarrow> row) \<Rightarrow> (string, rat) dict \<Rightarrow> 'd \<Rightarrow> unit pyres \<times> 'd" where
  "update_entity_spend_in_db ops n_retry_times table transactions d =
     update_table ops n_retry_times (map (\<lambda>(i, c). UpdateMany (table i) c) transactions) d"

text \<open>\<^verbatim>\<open>key.split("::")\<close>.\<close>

fun split_colons :: "string \<Rightarrow> string list" where
  "split_colons [] = [[]]"
| "split_colons [c] = [[c]]"
| "split_colons (a # b # s) =
     (if a = CHR '':'' \<and> b = CHR '':'' then [] # split_colons s
      else (case split_colons (b # s) of [] \<Rightarrow> [[a]] | w # ws \<Rightarrow> (a # w) # ws))"

text \<open>\<^verbatim>\<open>(key.split("::")[1], key.split("::")[3])\<close>: team and user.\<close>

definition member_of_key :: "string \<Rightarrow> (string \<times> string) pyres" where
  "member_of_key key =
     (let parts = split_colons key in
      case nth_or_raise parts 1 of
        Inl e \<Rightarrow> Inl e
      | Inr team_id \<Rightarrow> (case nth_or_raise parts 3 of Inl e \<Rightarrow> Inl e | Inr user_id \<Rightarrow> Inr (team_id, user_id)))"

fun member_writes :: "(string, rat) dict \<Rightarrow> ((string \<times> string) \<times> rat) list pyres" where
  "member_writes [] = Inr []"
| "member_writes ((key, c) # rest) =
     (case member_of_key key of
        Inl e \<Rightarrow> Inl e
      | Inr m \<Rightarrow> (case member_writes rest of Inl e \<Rightarrow> Inl e | Inr ms \<Rightarrow> Inr ((m, c) # ms)))"

definition membership_cache_key :: "string \<Rightarrow> string \<Rightarrow> string" where
  "membership_cache_key user_id team_id = ''team_membership:'' @ user_id @ '':'' @ team_id"

fun invalidate_memberships :: "'c redis_ops \<Rightarrow> (string \<times> string) list \<Rightarrow> 'c dual \<Rightarrow> unit pyres \<times> 'c dual" where
  "invalidate_memberships cops [] c = (Inr (), c)"
| "invalidate_memberships cops ((team_id, user_id) # ms) c =
     (case dual_delete_cache cops (membership_cache_key user_id team_id) c of
        (Inl e, c1) \<Rightarrow> (Inl e, c1)
      | (Inr _, c1) \<Rightarrow> invalidate_memberships cops ms c1)"

definition update_members :: "'d db_ops \<Rightarrow> 'c redis_ops \<Rightarrow> nat \<Rightarrow> (string, rat) dict \<Rightarrow> 'd \<times> 'c dual option \<Rightarrow> unit pyres \<times> 'd \<times> 'c dual option" where
  "update_members ops cops n_retry_times transactions s =
     (if transactions = [] then (Inr (), s)
      else case member_writes transactions of
        Inl e \<Rightarrow> (Inl e, s)
      | Inr ms \<Rightarrow>
        (case update_table ops n_retry_times (map (\<lambda>((t, u), c). UpdateMany (MemberRow t u) c) ms) (fst s) of
           (Inl e, d1) \<Rightarrow> (Inl e, d1, snd s)
         | (Inr _, d1) \<Rightarrow>
           (case snd s of
              None \<Rightarrow> (Inr (), d1, None)
            | Some c \<Rightarrow> (case invalidate_memberships cops (map fst ms) c of (r, c1) \<Rightarrow> (r, d1, Some c1)))))"

text \<open>Steps that run one after the other until one raises.\<close>

fun run_steps :: "('s \<Rightarrow> unit pyres \<times> 's) list \<Rightarrow> 's \<Rightarrow> unit pyres \<times> 's" where
  "run_steps [] s = (Inr (), s)"
| "run_steps (f # fs) s = (case f s of (Inl e, s1) \<Rightarrow> (Inl e, s1) | (Inr _, s1) \<Rightarrow> run_steps fs s1)"

definition on_db :: "('d \<Rightarrow> unit pyres \<times> 'd) \<Rightarrow> 'd \<times> 'c \<Rightarrow> unit pyres \<times> 'd \<times> 'c" where
  "on_db f s = (case f (fst s) of (r, d) \<Rightarrow> (r, d, snd s))"

definition commit_spend_updates_to_db ::
  "'d db_ops \<Rightarrow> 'c redis_ops \<Rightarrow> nat \<Rightarrow> DBSpendUpdateTransactions \<Rightarrow> 'd \<times> 'c dual option \<Rightarrow> unit pyres \<times> 'd \<times> 'c dual option" where
  "commit_spend_updates_to_db ops cops n tx =
     run_steps
       [on_db (update_entity_spend_in_db ops n UserRow (user_list_transactions tx)),
        on_db (\<lambda>d. if end_user_list_transactions tx = [] then (Inr (), d)
                   else update_end_user_spend ops n (end_user_list_transactions tx) d),
        on_db (update_entity_spend_in_db ops n KeyRow (key_list_transactions tx)),
        on_db (update_entity_spend_in_db ops n TeamRow (team_list_transactions tx)),
        update_members ops cops n (team_member_list_transactions tx),
        on_db (update_entity_spend_in_db ops n OrgRow (org_list_transactions tx)),
        on_db (update_entity_spend_in_db ops n TagRow (tag_list_transactions tx)),
        on_db (update_entity_spend_in_db ops n AgentRow (agent_list_transactions tx))]"

subsection \<open>Daily spend\<close>

definition BATCH_SIZE :: nat where
  "BATCH_SIZE = 100"

definition or_empty :: "string option \<Rightarrow> string" where
  "or_empty x = (case x of None \<Rightarrow> [] | Some s \<Rightarrow> s)"

definition daily_sort_key :: "BaseDailySpendTransaction \<Rightarrow> string \<times> string \<times> string \<times> string \<times> string" where
  "daily_sort_key t = (tx_date t, or_empty (tx_entity t), api_key t, or_empty (tx_model t), or_empty (custom_llm_provider t))"

definition transactions_to_process :: "daily_update \<Rightarrow> daily_update" where
  "transactions_to_process m = take BATCH_SIZE (sort_key (daily_sort_key \<circ> snd) m)"

definition where_clause :: "BaseDailySpendTransaction \<Rightarrow> daily_row" where
  "where_clause t = \<lparr>dr_entity = tx_entity t, dr_date = tx_date t, dr_api_key = api_key t, dr_model = tx_model t,
     dr_provider = or_empty (custom_llm_provider t), dr_tool = or_empty (mcp_namespaced_tool_name t),
     dr_endpoint = or_empty (endpoint t)\<rparr>"

text \<open>
  The outcome, the transactions that are left in the dict and the database. Both when the batch is
  written and when an error is raised in the end, the transactions of the batch are removed.
\<close>

definition without :: "daily_update \<Rightarrow> daily_update \<Rightarrow> daily_update" where
  "without batch m = filter (\<lambda>(k, _). k \<notin> fst ` set batch) m"

definition update_daily_spend :: "'d db_ops \<Rightarrow> nat \<Rightarrow> daily_kind \<Rightarrow> daily_update \<Rightarrow> 'd \<Rightarrow> unit pyres \<times> daily_update \<times> 'd" where
  "update_daily_spend ops n_retry_times k m d =
     (let batch = transactions_to_process m in
      if batch = [] then (Inr (), m, d)
      else case with_retries (d_batch ops (map (\<lambda>(_, t). UpsertDaily k (where_clause t) t) batch)) n_retry_times d of
        (r, d1) \<Rightarrow> (r, without batch m, d1))"

fun update_daily_tables :: "'d db_ops \<Rightarrow> nat \<Rightarrow> (daily_kind \<times> daily_update) list \<Rightarrow> 'd \<Rightarrow> unit pyres \<times> 'd" where
  "update_daily_tables ops n [] d = (Inr (), d)"
| "update_daily_tables ops n ((k, m) # kms) d =
     (case update_daily_spend ops n k m d of
        (Inl e, _, d1) \<Rightarrow> (Inl e, d1)
      | (Inr _, _, d1) \<Rightarrow> update_daily_tables ops n kms d1)"

subsection \<open>The job\<close>

definition DB_SPEND_UPDATE_JOB_NAME :: string where
  "DB_SPEND_UPDATE_JOB_NAME = ''db_spend_update_job''"

text \<open>Without Redis each queue is flushed just before it is written.\<close>

definition direct_order :: "daily_kind list" where
  "direct_order = [DailyUser, DailyTeam, DailyOrg, DailyTag, DailyEndUser, DailyAgent]"

fun commit_daily_queues :: "'d db_ops \<Rightarrow> nat \<Rightarrow> daily_kind list \<Rightarrow> spend_queues \<times> 'd \<Rightarrow> unit pyres \<times> spend_queues \<times> 'd" where
  "commit_daily_queues ops n [] s = (Inr (), s)"
| "commit_daily_queues ops n (k # ks) (w, d) =
     (case flush_daily_queues [k] w of
        (Inl e, w1) \<Rightarrow> (Inl e, w1, d)
      | (Inr kms, w1) \<Rightarrow>
        (case update_daily_tables ops n kms d of
           (Inl e, d1) \<Rightarrow> (Inl e, w1, d1)
         | (Inr _, d1) \<Rightarrow> commit_daily_queues ops n ks (w1, d1)))"

record ('d, 'c) store =
  database :: 'd
  user_api_key_cache :: "'c dual option"

definition commit_spend_updates_to_db_without_redis_buffer ::
  "'d db_ops \<Rightarrow> 'c redis_ops \<Rightarrow> nat \<Rightarrow> spend_queues \<Rightarrow> ('d, 'c) store \<Rightarrow> unit pyres \<times> spend_queues \<times> ('d, 'c) store" where
  "commit_spend_updates_to_db_without_redis_buffer ops cops n w s =
     (case flush_and_get_aggregated_db_spend (spend_update_queue w) of
        (tx, rest) \<Rightarrow>
          let w1 = w\<lparr>spend_update_queue := rest\<rparr> in
          (case commit_spend_updates_to_db ops cops n tx (database s, user_api_key_cache s) of
             (Inl e, d, c) \<Rightarrow> (Inl e, w1, \<lparr>database = d, user_api_key_cache = c\<rparr>)
           | (Inr _, d, c) \<Rightarrow>
             (case commit_daily_queues ops n direct_order (w1, d) of
                (r, w2, d2) \<Rightarrow> (r, w2, \<lparr>database = d2, user_api_key_cache = c\<rparr>))))"

text \<open>What the leader does with what it has popped; the order of the daily tables is again that of \<open>direct_order\<close>.\<close>

definition commit_popped ::
  "'d db_ops \<Rightarrow> 'c redis_ops \<Rightarrow> nat \<Rightarrow> DBSpendUpdateTransactions option \<times> (daily_kind \<times> daily_update option) list \<Rightarrow>
    ('d, 'c) store \<Rightarrow> unit pyres \<times> ('d, 'c) store" where
  "commit_popped ops cops n p s =
     (case (case fst p of
              None \<Rightarrow> (Inr (), database s, user_api_key_cache s)
            | Some tx \<Rightarrow> commit_spend_updates_to_db ops cops n tx (database s, user_api_key_cache s)) of
        (Inl e, d, c) \<Rightarrow> (Inl e, \<lparr>database = d, user_api_key_cache = c\<rparr>)
      | (Inr _, d, c) \<Rightarrow>
        (case update_daily_tables ops n
                (List.map_filter (\<lambda>k. case map_of (snd p) k of Some (Some m) \<Rightarrow> Some (k, m) | _ \<Rightarrow> None) direct_order) d of
           (r, d2) \<Rightarrow> (r, \<lparr>database = d2, user_api_key_cache = c\<rparr>)))"

text \<open>
  The first component is the outcome of the method, the second the error it only logs: whatever is
  raised while the lock is held.
\<close>

definition commit_spend_updates_to_db_with_redis ::
  "'r buffer_ops option \<Rightarrow> 'r lock_ops option \<Rightarrow> 'd db_ops \<Rightarrow> 'c redis_ops \<Rightarrow> string \<Rightarrow> nat \<Rightarrow> spend_queues \<Rightarrow> 'r \<Rightarrow>
    ('d, 'c) store \<Rightarrow> (unit pyres \<times> pyexc option) \<times> spend_queues \<times> 'r \<times> ('d, 'c) store" where
  "commit_spend_updates_to_db_with_redis bops lops ops cops pod_id n w r s =
     (case store_in_memory_spend_updates_in_redis bops w r of
        (Inl e, w1, r1) \<Rightarrow> ((Inl e, None), w1, r1, s)
      | (Inr _, w1, r1) \<Rightarrow>
        (case acquire_lock lops pod_id DB_SPEND_UPDATE_JOB_NAME r1 of
           (Some True, r2) \<Rightarrow>
             (case get_all_transactions_from_redis_buffer_pipeline bops r2 of
                (Inl e, r3) \<Rightarrow> ((Inr (), Some e), w1, release_lock lops pod_id DB_SPEND_UPDATE_JOB_NAME r3, s)
              | (Inr p, r3) \<Rightarrow>
                (case commit_popped ops cops n p s of
                   (res, s1) \<Rightarrow>
                     ((Inr (), case res of Inl e \<Rightarrow> Some e | Inr _ \<Rightarrow> None), w1,
                      release_lock lops pod_id DB_SPEND_UPDATE_JOB_NAME r3, s1)))
         | (_, r2) \<Rightarrow> ((Inr (), None), w1, r2, s)))"

definition db_update_spend_transaction_handler ::
  "(string, pyval) dict \<Rightarrow> 'r buffer_ops option \<Rightarrow> 'r lock_ops option \<Rightarrow> 'd db_ops \<Rightarrow> 'c redis_ops \<Rightarrow> string \<Rightarrow> nat \<Rightarrow> spend_queues \<Rightarrow> 'r \<Rightarrow>
    ('d, 'c) store \<Rightarrow> (unit pyres \<times> pyexc option) \<times> spend_queues \<times> 'r \<times> ('d, 'c) store" where
  "db_update_spend_transaction_handler general_settings bops lops ops cops pod_id n w r s =
     (if truthy (should_commit_spend_updates_to_redis general_settings)
      then commit_spend_updates_to_db_with_redis bops lops ops cops pod_id n w r s
      else case commit_spend_updates_to_db_without_redis_buffer ops cops n w s of
        (res, w1, s1) \<Rightarrow> ((res, None), w1, r, s1))"

subsection \<open>What the parameters promise\<close>

definition buffer_laws :: "'r buffer_ops \<Rightarrow> (string \<Rightarrow> 'r \<Rightarrow> buffered list) \<Rightarrow> bool" where
  "buffer_laws ops contents \<longleftrightarrow>
     (\<forall>xs r ls r' k. b_rpush_pipeline ops xs r = (Inr ls, r') \<longrightarrow>
        contents k r' = contents k r @ concat (map snd (filter (\<lambda>x. fst x = k) xs))) \<and>
     (\<forall>xs r out r'. b_lpop_pipeline ops xs r = (Inr out, r') \<longrightarrow> distinct (map fst xs) \<longrightarrow>
        out = map (\<lambda>(k, n). if contents k r = [] then None else Some (take n (contents k r))) xs \<and>
        (\<forall>k n. (k, n) \<in> set xs \<longrightarrow> contents k r' = drop n (contents k r)))"

fun apply_write :: "db_write \<Rightarrow> (row \<Rightarrow> rat option) \<Rightarrow> row \<Rightarrow> rat option" where
  "apply_write (UpdateMany r c) f = f(r := map_option (\<lambda>s. s + c) (f r))"
| "apply_write (Upsert r c) f = f(r := Some (case f r of None \<Rightarrow> c | Some s \<Rightarrow> s + c))"
| "apply_write (UpsertDaily k r t) f = f"

definition db_laws :: "'d db_ops \<Rightarrow> ('d \<Rightarrow> row \<Rightarrow> rat option) \<Rightarrow> bool" where
  "db_laws ops spend \<longleftrightarrow>
     (\<forall>ws d d'. d_tx ops ws d = (Inr (), d') \<longrightarrow> spend d' = fold apply_write ws (spend d)) \<and>
     (\<forall>ws d e d'. d_tx ops ws d = (Inl e, d') \<longrightarrow> spend d' = spend d) \<and>
     (\<forall>ws d res d'. d_batch ops ws d = (res, d') \<longrightarrow> (\<forall>w \<in> set ws. \<exists>k r t. w = UpsertDaily k r t) \<longrightarrow> spend d' = spend d)"

subsection \<open>Totals per row\<close>

definition row_of :: "Litellm_EntityType \<Rightarrow> string \<Rightarrow> row option" where
  "row_of t i =
     (case t of USER \<Rightarrow> Some (UserRow i) | END_USER \<Rightarrow> Some (EndUserRow i) | KEY \<Rightarrow> Some (KeyRow i) | TEAM \<Rightarrow> Some (TeamRow i)
      | TEAM_MEMBER \<Rightarrow> (case member_of_key i of Inl _ \<Rightarrow> None | Inr (team, user) \<Rightarrow> Some (MemberRow team user))
      | ORGANIZATION \<Rightarrow> Some (OrgRow i) | TAG \<Rightarrow> Some (TagRow i) | AGENT \<Rightarrow> Some (AgentRow i) | PROJECT \<Rightarrow> None | PROXY \<Rightarrow> None)"

definition row_cost :: "row \<Rightarrow> SpendUpdateQueueItem \<Rightarrow> rat" where
  "row_cost r = spent_where (\<lambda>t i. case t of None \<Rightarrow> False | Some x \<Rightarrow> row_of x (or_empty i) = Some r)"

definition weight :: "(string \<Rightarrow> bool) \<Rightarrow> (string, rat) dict \<Rightarrow> rat" where
  "weight P d = (\<Sum>p\<leftarrow>d. if P (fst p) then snd p else 0)"

abbreviation tables :: "Litellm_EntityType list" where
  "tables \<equiv> [USER, END_USER, KEY, TEAM, TEAM_MEMBER, ORGANIZATION, TAG, AGENT]"

definition tx_row :: "row \<Rightarrow> DBSpendUpdateTransactions \<Rightarrow> rat" where
  "tx_row r tx = (\<Sum>t\<leftarrow>tables. weight (\<lambda>i. row_of t i = Some r) (tx_of t tx))"

definition tx_wf :: "DBSpendUpdateTransactions \<Rightarrow> bool" where
  "tx_wf tx \<longleftrightarrow> (\<forall>t. dict_wf (tx_of t tx))"

lemma weight_simps [simp]: "weight P [] = 0" "weight P (p # d) = (if P (fst p) then snd p else 0) + weight P d"
  by (simp_all add: weight_def)

lemma weight_add_cost: "dict_wf d \<Longrightarrow> weight P (add_cost i c d) = weight P d + (if P i then c else 0)"
proof (induction d)
  case (Cons p d)
  have "AList.update i x d = d @ [(i, x)]" if "i \<notin> fst ` set d" for x using that by (simp add: update_absent)
  then show ?case using Cons by (cases p) (auto simp: add_cost_def dict_get_def)
qed (simp add: add_cost_def dict_get_def)

lemma add_cost_wf [simp]: "dict_wf d \<Longrightarrow> dict_wf (add_cost i c d)"
  by (simp add: add_cost_def)

lemma weight_add_costs: "dict_wf d \<Longrightarrow> dict_wf (add_costs items d) \<and> weight P (add_costs items d) = weight P items + weight P d"
proof (induction items arbitrary: d)
  case (Cons p items)
  then show ?case using weight_add_cost [of d P "fst p" "snd p"] by (simp add: add_costs_def case_prod_beta)
qed (simp add: add_costs_def)

lemma tx_of_combine: "tx_of t (combine_step a c) = (if t \<in> {PROJECT, PROXY} then [] else add_costs (tx_of t a) (tx_of t c))"
  by (cases t) (simp_all add: tx_of_def combine_step_def)

lemma combine_step_row:
  assumes "tx_wf c"
  shows "tx_wf (combine_step a c) \<and> tx_row r (combine_step a c) = tx_row r a + tx_row r c"
proof -
  have wf: "dict_wf (tx_of t c)" for t using assms by (simp add: tx_wf_def)
  have "tx_wf (combine_step a c)" using weight_add_costs wf by (auto simp: tx_wf_def tx_of_combine)
  moreover have "tx_row r (combine_step a c) = tx_row r a + tx_row r c"
    using weight_add_costs [OF wf] by (simp add: tx_row_def tx_of_combine)
  ultimately show ?thesis by simp
qed

lemma empty_transactions_row [simp]: "tx_wf empty_transactions" "tx_row r empty_transactions = 0"
  by (auto simp: tx_wf_def tx_row_def tx_of_def empty_transactions_def split: Litellm_EntityType.split)

lemma combined_row: "tx_row r (combine_list_of_transactions ts) = (\<Sum>t\<leftarrow>ts. tx_row r t)"
proof -
  have "tx_row r (fold combine_step ts c) = (\<Sum>t\<leftarrow>ts. tx_row r t) + tx_row r c" if "tx_wf c" for c
    using that by (induction ts arbitrary: c) (simp_all add: combine_step_row)
  then show ?thesis by (simp add: combine_list_of_transactions_def)
qed

lemma tx_of_step:
  "tx_of t (transaction_step u tx) =
     (if entity_type u = Some t \<and> t \<notin> {PROJECT, PROXY} then add_cost (or_empty (entity_id u)) (cost u) (tx_of t tx) else tx_of t tx)"
  by (cases "entity_type u"; cases "the (entity_type u)"; cases t)
    (simp_all add: transaction_step_def tx_of_def or_empty_def Let_def)

lemma transaction_step_row:
  assumes "tx_wf tx"
  shows "tx_wf (transaction_step u tx) \<and> tx_row r (transaction_step u tx) = row_cost r u + tx_row r tx"
proof -
  have wf: "dict_wf (tx_of t tx)" for t using assms by (simp add: tx_wf_def)
  have "weight (\<lambda>i. row_of t i = Some r) (tx_of t (transaction_step u tx)) =
      weight (\<lambda>i. row_of t i = Some r) (tx_of t tx) + (if entity_type u = Some t then row_cost r u else 0)" if "t \<notin> {PROJECT, PROXY}" for t
    using that weight_add_cost [OF wf] by (simp add: tx_of_step row_cost_def spent_where_def)
  moreover have "row_cost r u = (\<Sum>t\<leftarrow>tables. if entity_type u = Some t then row_cost r u else 0)"
    by (cases "entity_type u"; cases "the (entity_type u)") (simp_all add: row_cost_def spent_where_def row_of_def)
  ultimately have "tx_row r (transaction_step u tx) = row_cost r u + tx_row r tx" by (simp add: tx_row_def)
  moreover have "tx_wf (transaction_step u tx)" using wf by (simp add: tx_wf_def tx_of_step)
  ultimately show ?thesis by simp
qed

lemma transactions_row: "tx_row r (get_aggregated_db_spend_update_transactions us) = (\<Sum>u\<leftarrow>us. row_cost r u)"
proof -
  have "tx_row r (fold transaction_step us tx) = (\<Sum>u\<leftarrow>us. row_cost r u) + tx_row r tx" if "tx_wf tx" for tx
    using that by (induction us arbitrary: tx) (simp_all add: transaction_step_row)
  then show ?thesis by (simp add: get_aggregated_db_spend_update_transactions_def)
qed

subsection \<open>A commit adds its transactions\<close>

text \<open>Rows whose spend is kept: those that exist, and those of end users, which are created.\<close>

definition tracked :: "(row \<Rightarrow> rat option) \<Rightarrow> row \<Rightarrow> bool" where
  "tracked f r \<longleftrightarrow> f r \<noteq> None \<or> (\<exists>i. r = EndUserRow i)"

definition spend_of :: "(row \<Rightarrow> rat option) \<Rightarrow> row \<Rightarrow> rat" where
  "spend_of f r = (case f r of None \<Rightarrow> 0 | Some s \<Rightarrow> s)"

definition adds :: "(row \<Rightarrow> rat option) \<Rightarrow> (row \<Rightarrow> rat option) \<Rightarrow> (row \<Rightarrow> rat) \<Rightarrow> bool" where
  "adds f f' g \<longleftrightarrow> (\<forall>r. tracked f r \<longrightarrow> tracked f' r \<and> spend_of f' r = spend_of f r + g r)"

lemma adds_refl: "(\<And>r. g r = 0) \<Longrightarrow> adds f f g"
  by (simp add: adds_def)

lemma adds_trans: "adds f f' g \<Longrightarrow> adds f' f'' h \<Longrightarrow> (\<And>r. k r = g r + h r) \<Longrightarrow> adds f f'' k"
  by (simp add: adds_def)

fun write_cost :: "row \<Rightarrow> db_write \<Rightarrow> rat" where
  "write_cost r (UpdateMany q c) = (if q = r then c else 0)"
| "write_cost r (Upsert q c) = (if q = r then c else 0)"
| "write_cost r (UpsertDaily _ _ _) = 0"

definition creates_end_users :: "db_write \<Rightarrow> bool" where
  "creates_end_users w \<longleftrightarrow> (\<forall>i c. w \<noteq> UpdateMany (EndUserRow i) c)"

lemma adds_write: "creates_end_users w \<Longrightarrow> adds f (apply_write w f) (\<lambda>r. write_cost r w)"
  by (cases w) (auto simp: creates_end_users_def adds_def tracked_def spend_of_def split: option.split)

lemma adds_writes: "\<forall>w \<in> set ws. creates_end_users w \<Longrightarrow> adds f (fold apply_write ws f) (\<lambda>r. \<Sum>w\<leftarrow>ws. write_cost r w)"
proof (induction ws arbitrary: f)
  case (Cons w ws)
  have "adds f (apply_write w f) (\<lambda>r. write_cost r w)" using Cons.prems by (simp add: adds_write)
  moreover have "adds (apply_write w f) (fold apply_write ws (apply_write w f)) (\<lambda>r. \<Sum>w\<leftarrow>ws. write_cost r w)"
    using Cons by simp
  ultimately show ?case using adds_trans by fastforce
qed (simp add: adds_refl)

text \<open>However many attempts fail, the writes of a transaction that returns are applied once.\<close>

lemma retried_once:
  assumes "db_laws ops spend" "with_retries (d_tx ops ws) n d = (Inr (), d')"
  shows "spend d' = fold apply_write ws (spend d)"
  using assms(2)
proof (induction n arbitrary: d)
  case 0
  then show ?case using assms(1) by (simp add: db_laws_def)
next
  case (Suc n)
  obtain res d1 where f: "d_tx ops ws d = (res, d1)" by fastforce
  show ?case
  proof (cases res)
    case (Inl e)
    then have "spend d1 = spend d" "with_retries (d_tx ops ws) n d1 = (Inr (), d')"
      using f Suc.prems assms(1) by (auto simp: db_laws_def split: if_splits)
    then show ?thesis using Suc.IH by simp
  next
    case (Inr x)
    then show ?thesis using f Suc.prems assms(1) by (simp add: db_laws_def)
  qed
qed

lemma update_entity_adds:
  assumes "db_laws ops spend" "\<And>i. table i \<notin> range EndUserRow"
    and "update_entity_spend_in_db ops n table xs d = (Inr (), d')"
  shows "adds (spend d) (spend d') (\<lambda>r. weight (\<lambda>i. table i = r) xs)"
proof (cases "xs = []")
  case False
  have c: "(\<Sum>w\<leftarrow>map (\<lambda>(i, c). UpdateMany (table i) c) xs. write_cost r w) = weight (\<lambda>i. table i = r) xs" for r
    by (induction xs) auto
  have "\<forall>w \<in> set (map (\<lambda>(i, c). UpdateMany (table i) c) xs). creates_end_users w"
    using assms(2) by (auto simp: creates_end_users_def)
  from adds_writes [OF this, of "spend d"] show ?thesis
    unfolding c using retried_once [OF assms(1)] assms(3) False by (simp add: update_entity_spend_in_db_def update_table_def)
qed (use assms(3) in \<open>simp add: update_entity_spend_in_db_def update_table_def adds_refl\<close>)

lemma update_end_user_adds:
  assumes "db_laws ops spend" "(if xs = [] then (Inr (), d) else update_end_user_spend ops n xs d) = (Inr (), d')"
  shows "adds (spend d) (spend d') (\<lambda>r. weight (\<lambda>i. EndUserRow i = r) xs)"
proof (cases "xs = []")
  case False
  have c: "(\<Sum>w\<leftarrow>map (\<lambda>(i, c). Upsert (EndUserRow i) c) xs. write_cost r w) = weight (\<lambda>i. EndUserRow i = r) xs" for r
    by (induction xs) auto
  have "\<forall>w \<in> set (map (\<lambda>(i, c). Upsert (EndUserRow i) c) xs). creates_end_users w" by (auto simp: creates_end_users_def)
  from adds_writes [OF this, of "spend d"] show ?thesis
    unfolding c using retried_once [OF assms(1)] assms(2) False by (simp add: update_end_user_spend_def)
qed (use assms(2) in \<open>simp add: adds_refl\<close>)

abbreviation member_updates :: "((string \<times> string) \<times> rat) list \<Rightarrow> db_write list" where
  "member_updates ms \<equiv> map (\<lambda>((t, u), c). UpdateMany (MemberRow t u) c) ms"

lemma member_writes_weight:
  "member_writes xs = Inr ms \<Longrightarrow>
   (\<Sum>w\<leftarrow>member_updates ms. write_cost r w) = weight (\<lambda>i. row_of TEAM_MEMBER i = Some r) xs"
  by (induction xs arbitrary: ms rule: member_writes.induct) (auto simp: row_of_def split: sum.splits)

lemma update_members_adds:
  assumes "db_laws ops spend" "update_members ops cops n xs s = (Inr (), s')"
  shows "adds (spend (fst s)) (spend (fst s')) (\<lambda>r. weight (\<lambda>i. row_of TEAM_MEMBER i = Some r) xs)"
proof (cases "xs = []")
  case True
  then show ?thesis using assms(2) by (simp add: update_members_def adds_refl)
next
  case False
  then obtain ms where ms: "member_writes xs = Inr ms"
    using assms(2) by (auto simp: update_members_def split: sum.splits)
  then have ne: "ms \<noteq> []" using False by (cases xs) (auto split: sum.splits)
  have "update_table ops n (member_updates ms) (fst s) = (Inr (), fst s')"
    using assms(2) False ms by (auto simp: update_members_def split: prod.splits sum.splits option.splits)
  then have "spend (fst s') = fold apply_write (member_updates ms) (spend (fst s))"
    using retried_once [OF assms(1)] ne by (simp add: update_table_def)
  moreover have "\<forall>w \<in> set (member_updates ms). creates_end_users w" by (auto simp: creates_end_users_def)
  ultimately show ?thesis using adds_writes [of "member_updates ms" "spend (fst s)"] member_writes_weight [OF ms] by simp
qed

text \<open>A step on the database and the cache that adds \<open>g\<close> when it returns.\<close>

definition step_adds :: "('d \<Rightarrow> row \<Rightarrow> rat option) \<Rightarrow> ('d \<times> 'c \<Rightarrow> unit pyres \<times> 'd \<times> 'c) \<Rightarrow> (row \<Rightarrow> rat) \<Rightarrow> bool" where
  "step_adds spend f g \<longleftrightarrow> (\<forall>s s'. f s = (Inr (), s') \<longrightarrow> adds (spend (fst s)) (spend (fst s')) g)"

lemma step_addsD: "step_adds spend f g \<Longrightarrow> f s = (Inr (), s') \<Longrightarrow> adds (spend (fst s)) (spend (fst s')) g"
  unfolding step_adds_def by blast

lemma run_steps_adds:
  assumes "list_all (\<lambda>fg. step_adds spend (fst fg) (snd fg)) fgs" "run_steps (map fst fgs) s = (Inr (), s')"
  shows "adds (spend (fst s)) (spend (fst s')) (\<lambda>r. \<Sum>x\<leftarrow>fgs. snd x r)"
  using assms
proof (induction fgs arbitrary: s)
  case (Cons fg fgs)
  obtain s1 where s1: "fst fg s = (Inr (), s1)" "run_steps (map fst fgs) s1 = (Inr (), s')"
    using Cons.prems(2) by (auto split: prod.splits sum.splits)
  have "adds (spend (fst s)) (spend (fst s1)) (snd fg)" using step_addsD [of spend "fst fg" "snd fg" s s1] s1(1) Cons.prems(1) by simp
  moreover have "adds (spend (fst s1)) (spend (fst s')) (\<lambda>r. \<Sum>x\<leftarrow>fgs. snd x r)" using Cons s1(2) by simp
  ultimately show ?case by (rule adds_trans) simp
qed (simp add: adds_refl)

lemma entity_step:
  assumes "db_laws ops spend" "\<And>i. row_of t i = Some (table i)" "\<And>i. table i \<notin> range EndUserRow"
  shows "step_adds spend (on_db (update_entity_spend_in_db ops n table xs)) (\<lambda>r. weight (\<lambda>i. row_of t i = Some r) xs)"
  using update_entity_adds [OF assms(1,3)] by (auto simp: step_adds_def on_db_def assms(2) split: prod.splits)

lemma end_user_step:
  assumes "db_laws ops spend"
  shows "step_adds spend (on_db (\<lambda>d. if xs = [] then (Inr (), d) else update_end_user_spend ops n xs d))
    (\<lambda>r. weight (\<lambda>i. row_of END_USER i = Some r) xs)"
  using update_end_user_adds [OF assms]
  by (auto simp: step_adds_def on_db_def row_of_def adds_refl split: prod.splits if_splits)

lemma member_step:
  "db_laws ops spend \<Longrightarrow> step_adds spend (update_members ops cops n xs) (\<lambda>r. weight (\<lambda>i. row_of TEAM_MEMBER i = Some r) xs)"
  using update_members_adds by (auto simp: step_adds_def)

lemma commit_adds:
  assumes "db_laws ops spend" "commit_spend_updates_to_db ops cops n tx s = (Inr (), s')"
  shows "adds (spend (fst s)) (spend (fst s')) (\<lambda>r. tx_row r tx)"
proof -
  let ?w = "\<lambda>t r. weight (\<lambda>i. row_of t i = Some r) (tx_of t tx)"
  let ?e = "\<lambda>table t. (on_db (update_entity_spend_in_db ops n table (tx_of t tx)), ?w t)"
  let ?fgs = "[?e UserRow USER,
    (on_db (\<lambda>d. if tx_of END_USER tx = [] then (Inr (), d) else update_end_user_spend ops n (tx_of END_USER tx) d), ?w END_USER),
    ?e KeyRow KEY, ?e TeamRow TEAM, (update_members ops cops n (tx_of TEAM_MEMBER tx), ?w TEAM_MEMBER),
    ?e OrgRow ORGANIZATION, ?e TagRow TAG, ?e AgentRow AGENT]"
  have run: "run_steps (map fst ?fgs) s = (Inr (), s')"
    using assms(2) by (simp add: commit_spend_updates_to_db_def tx_of_def del: run_steps.simps cong: if_cong)
  have "list_all (\<lambda>fg. step_adds spend (fst fg) (snd fg)) ?fgs"
    unfolding list.pred_inject fst_conv snd_conv
    by (intro conjI TrueI entity_step end_user_step member_step assms(1)) (auto simp: row_of_def)
  from run_steps_adds [OF this run] show ?thesis by (simp add: tx_row_def)
qed

subsection \<open>A fleet of pods\<close>

text \<open>
  Any number of pods share Redis and the database. Between the pop and the commit of a batch other pods
  may run, so the batches on their way are part of the state; \<open>booked\<close> adds up what the requests cost.
  Whatever does not change the list of updates in Redis, such as the lock, or the spend of the rows, such
  as the daily tables, may happen at any time.
\<close>

record ('r, 'd) fleet =
  pods :: "spend_queues list"
  in_flight :: "DBSpendUpdateTransactions list"
  redis :: 'r
  db :: 'd
  booked :: "row \<Rightarrow> rat"

inductive fleet_step ::
  "'r buffer_ops \<Rightarrow> (string \<Rightarrow> 'r \<Rightarrow> buffered list) \<Rightarrow> 'd db_ops \<Rightarrow> ('d \<Rightarrow> row \<Rightarrow> rat option) \<Rightarrow>
    'c redis_ops \<Rightarrow> ('r, 'd) fleet \<Rightarrow> ('r, 'd) fleet \<Rightarrow> bool"
  for bops :: "'r buffer_ops" and contents and ops :: "'d db_ops" and spend and cops :: "'c redis_ops" where
  fleet_request: "i < length (pods f) \<Longrightarrow> list_all proper_id us \<Longrightarrow>
    add_updates_with spend_agg us (spend_update_queue (pods f ! i)) = Some (res, q) \<Longrightarrow>
    fleet_step bops contents ops spend cops f
      (f\<lparr>pods := (pods f)[i := (pods f ! i)\<lparr>spend_update_queue := q\<rparr>], booked := \<lambda>r. booked f r + (\<Sum>u\<leftarrow>us. row_cost r u)\<rparr>)"
| fleet_push: "i < length (pods f) \<Longrightarrow>
    store_in_memory_spend_updates_in_redis (Some bops) (pods f ! i) (redis f) = (Inr (), w, r) \<Longrightarrow>
    fleet_step bops contents ops spend cops f (f\<lparr>pods := (pods f)[i := w], redis := r\<rparr>)"
| fleet_pop: "get_all_transactions_from_redis_buffer_pipeline (Some bops) (redis f) = (Inr (tx, daily), r) \<Longrightarrow>
    fleet_step bops contents ops spend cops f
      (f\<lparr>in_flight := (case tx of None \<Rightarrow> in_flight f | Some t \<Rightarrow> in_flight f @ [t]), redis := r\<rparr>)"
| fleet_commit: "in_flight f = xs @ tx # ys \<Longrightarrow> commit_spend_updates_to_db ops cops n tx (db f, c) = (Inr (), d, c') \<Longrightarrow>
    fleet_step bops contents ops spend cops f (f\<lparr>in_flight := xs @ ys, db := d\<rparr>)"
| fleet_redis: "contents REDIS_UPDATE_BUFFER_KEY r = contents REDIS_UPDATE_BUFFER_KEY (redis f) \<Longrightarrow>
    fleet_step bops contents ops spend cops f (f\<lparr>redis := r\<rparr>)"
| fleet_db: "spend d = spend (db f) \<Longrightarrow> fleet_step bops contents ops spend cops f (f\<lparr>db := d\<rparr>)"

definition buffered_row :: "row \<Rightarrow> buffered \<Rightarrow> rat" where
  "buffered_row r b = (case b of Updates t \<Rightarrow> tx_row r t | Daily _ \<Rightarrow> 0)"

text \<open>What is not in the database yet.\<close>

definition waiting :: "(string \<Rightarrow> 'r \<Rightarrow> buffered list) \<Rightarrow> ('r, 'd) fleet \<Rightarrow> row \<Rightarrow> rat" where
  "waiting contents f r =
     (\<Sum>w\<leftarrow>pods f. \<Sum>u\<leftarrow>spend_update_queue w. row_cost r u) + (\<Sum>t\<leftarrow>in_flight f. tx_row r t) +
     (\<Sum>b\<leftarrow>contents REDIS_UPDATE_BUFFER_KEY (redis f). buffered_row r b)"

definition fleet_inv :: "(string \<Rightarrow> 'r \<Rightarrow> buffered list) \<Rightarrow> ('d \<Rightarrow> row \<Rightarrow> rat option) \<Rightarrow> 'd \<Rightarrow> ('r, 'd) fleet \<Rightarrow> bool" where
  "fleet_inv contents spend d0 f \<longleftrightarrow>
     list_all (\<lambda>w. list_all proper_id (spend_update_queue w) \<and> length (spend_update_queue w) \<le> LITELLM_ASYNCIO_QUEUE_MAXSIZE) (pods f) \<and>
     (\<forall>r. tracked (spend d0) r \<longrightarrow> tracked (spend (db f)) r \<and>
        spend_of (spend (db f)) r + waiting contents f r = spend_of (spend d0) r + booked f r)"

lemma sum_list_update:
  "i < length xs \<Longrightarrow> (\<Sum>x\<leftarrow>xs[i := y]. g x) = (\<Sum>x\<leftarrow>xs. g x) - g (xs ! i) + (g y :: rat)"
  by (induction xs arbitrary: i) (auto simp: nth_Cons' split: nat.split)

lemma flush_daily_keeps: "flush_daily_queues ks w = (res, w') \<Longrightarrow> spend_update_queue w' = spend_update_queue w"
proof (induction ks arbitrary: w res w')
  case (Cons k ks)
  obtain x rest where x: "flush_and_get_aggregated_daily_spend (daily_queue w k) = (x, rest)" by fastforce
  show ?case
  proof (cases x)
    case (Inr m)
    obtain y w2 where y: "flush_daily_queues ks (w\<lparr>daily_queue := (daily_queue w)(k := rest)\<rparr>) = (y, w2)" by fastforce
    then have "w' = w2" using Cons.prems x Inr by (cases y) auto
    then show ?thesis using Cons.IH [OF y] by simp
  qed (use Cons.prems x in auto)
qed simp

lemma daily_key_other [simp]: "daily_buffer_key k \<noteq> REDIS_UPDATE_BUFFER_KEY"
  by (cases k) (simp_all add: daily_buffer_key_def REDIS_UPDATE_BUFFER_KEY_def)

lemma rpush_list_updates: "concat (map snd (filter (\<lambda>x. fst x = REDIS_UPDATE_BUFFER_KEY) (rpush_list tx ms))) = [Updates tx]"
proof -
  have "filter (\<lambda>x. fst x = REDIS_UPDATE_BUFFER_KEY) (map (\<lambda>(key, b). (key, [b]))
      (filter (\<lambda>(key, b). \<not> nothing_buffered b) (map (\<lambda>(k, m). (daily_buffer_key k, Daily m)) ms))) = []"
    by (induction ms) auto
  then show ?thesis by (simp add: rpush_list_def nothing_buffered_def)
qed

lemma push_effect:
  assumes "buffer_laws bops contents" "length (spend_update_queue w) \<le> LITELLM_ASYNCIO_QUEUE_MAXSIZE"
    and "store_in_memory_spend_updates_in_redis (Some bops) w r = (Inr (), w', r')"
  shows "spend_update_queue w' = [] \<and> contents REDIS_UPDATE_BUFFER_KEY r' = contents REDIS_UPDATE_BUFFER_KEY r @
    [Updates (get_aggregated_db_spend_update_transactions (spend_update_queue w))]"
proof -
  let ?tx = "get_aggregated_db_spend_update_transactions (spend_update_queue w)"
  have fl: "flush_and_get_aggregated_db_spend (spend_update_queue w) = (?tx, [])"
    using assms(2) by (simp add: flush_and_get_aggregated_db_spend_def flush_all_within)
  obtain res w1 where d: "flush_daily_queues flush_order (w\<lparr>spend_update_queue := []\<rparr>) = (res, w1)" by fastforce
  then obtain ms where ms: "res = Inr ms" using assms(3) fl by (auto simp: store_in_memory_spend_updates_in_redis_def split: sum.splits)
  have ne: "rpush_list ?tx ms \<noteq> []" by (simp add: rpush_list_def nothing_buffered_def)
  obtain ls where p: "b_rpush_pipeline bops (rpush_list ?tx ms) r = (Inr ls, r')" "w' = w1"
    using assms(3) fl d ms ne by (auto simp: store_in_memory_spend_updates_in_redis_def split: prod.splits sum.splits)
  have "spend_update_queue w1 = []" using flush_daily_keeps [OF d] by simp
  moreover have "contents REDIS_UPDATE_BUFFER_KEY r' = contents REDIS_UPDATE_BUFFER_KEY r @
      concat (map snd (filter (\<lambda>x. fst x = REDIS_UPDATE_BUFFER_KEY) (rpush_list ?tx ms)))"
    using assms(1) p(1) unfolding buffer_laws_def by blast
  ultimately show ?thesis using p(2) by (simp add: rpush_list_updates)
qed

lemma combined_updates_row:
  "combined_updates (Some bs) = Inr tx \<Longrightarrow>
   (case tx of None \<Rightarrow> 0 | Some t \<Rightarrow> tx_row r t) = (\<Sum>b\<leftarrow>bs. buffered_row r b)"
proof -
  have "parse_list_of_transactions bs = Inr ts \<Longrightarrow> (\<Sum>t\<leftarrow>ts. tx_row r t) = (\<Sum>b\<leftarrow>bs. buffered_row r b)" for ts
    by (induction bs arbitrary: ts rule: parse_list_of_transactions.induct) (auto simp: buffered_row_def split: sum.splits)
  then show "combined_updates (Some bs) = Inr tx \<Longrightarrow> ?thesis"
    by (auto simp: combined_updates_def combined_row split: sum.splits if_splits)
qed

lemma pop_effect:
  assumes "buffer_laws bops contents" "get_all_transactions_from_redis_buffer_pipeline (Some bops) r = (Inr (tx, daily), r')"
  shows "(case tx of None \<Rightarrow> 0 | Some t \<Rightarrow> tx_row q t) + (\<Sum>b\<leftarrow>contents REDIS_UPDATE_BUFFER_KEY r'. buffered_row q b) =
    (\<Sum>b\<leftarrow>contents REDIS_UPDATE_BUFFER_KEY r. buffered_row q b)"
proof -
  let ?k = REDIS_UPDATE_BUFFER_KEY and ?n = MAX_REDIS_BUFFER_DEQUEUE_COUNT
  let ?xs = "map (\<lambda>key. (key, ?n)) (?k # map daily_buffer_key flush_order)"
  have di: "distinct (map fst ?xs)" by (simp add: flush_order_def daily_buffer_key_def REDIS_UPDATE_BUFFER_KEY_def)
  obtain raw where raw: "b_lpop_pipeline bops ?xs r = (Inr raw, r')"
    using assms(2) by (auto simp: get_all_transactions_from_redis_buffer_pipeline_def split: prod.splits sum.splits list.splits)
  have law: "raw = map (\<lambda>(k, n). if contents k r = [] then None else Some (take n (contents k r))) ?xs"
    "contents ?k r' = drop ?n (contents ?k r)"
    using assms(1) raw di unfolding buffer_laws_def by (blast, fastforce)
  define raw0 where "raw0 = (if contents ?k r = [] then None else Some (take ?n (contents ?k r)))"
  have "pad 7 raw = raw0 # tl raw" using law(1) by (simp add: pad_def raw0_def flush_order_def)
  then have tx: "combined_updates raw0 = Inr tx"
    using assms(2) raw by (auto simp: get_all_transactions_from_redis_buffer_pipeline_def split: sum.splits)
  show ?thesis
  proof (cases "contents ?k r = []")
    case True
    then have "tx = None" "contents ?k r' = []" using tx law(2) by (simp_all add: raw0_def combined_updates_def)
    then show ?thesis using True by simp
  next
    case False
    then have "(case tx of None \<Rightarrow> 0 | Some t \<Rightarrow> tx_row q t) = (\<Sum>b\<leftarrow>take ?n (contents ?k r). buffered_row q b)"
      using combined_updates_row tx by (simp add: raw0_def)
    moreover have "(\<Sum>b\<leftarrow>contents ?k r. buffered_row q b) =
        (\<Sum>b\<leftarrow>take ?n (contents ?k r). buffered_row q b) + (\<Sum>b\<leftarrow>drop ?n (contents ?k r). buffered_row q b)"
      by (metis append_take_drop_id map_append sum_list_append)
    ultimately show ?thesis using law(2) by simp
  qed
qed

lemma fleet_inv_step:
  assumes "buffer_laws bops contents" "db_laws ops spend" "fleet_step bops contents ops spend cops f f'" "fleet_inv contents spend d0 f"
  shows "fleet_inv contents spend d0 f'"
  using assms(3)
proof cases
  case (fleet_request i us res q)
  note ok = assms(4) [unfolded fleet_inv_def]
  have w: "list_all proper_id (spend_update_queue (pods f ! i))" "length (spend_update_queue (pods f ! i)) \<le> LITELLM_ASYNCIO_QUEUE_MAXSIZE"
    using ok fleet_request(2) by (auto simp: list_all_iff)
  have q: "list_all proper_id q" "length q \<le> LITELLM_ASYNCIO_QUEUE_MAXSIZE"
    "\<And>r. (\<Sum>u\<leftarrow>q. row_cost r u) = (\<Sum>u\<leftarrow>us. row_cost r u) + (\<Sum>u\<leftarrow>spend_update_queue (pods f ! i). row_cost r u)"
    using spendw.add_updates_total [OF fleet_request(3) w fleet_request(4)] by (auto simp: row_cost_def)
  have "list_all (\<lambda>w. list_all proper_id (spend_update_queue w) \<and> length (spend_update_queue w) \<le> LITELLM_ASYNCIO_QUEUE_MAXSIZE) (pods f')"
    using ok q(1,2) by (auto simp: fleet_request(1) list_all_iff dest!: set_update_subset_insert [THEN subsetD])
  moreover have "waiting contents f' r = waiting contents f r + (\<Sum>u\<leftarrow>us. row_cost r u)" for r
    by (simp add: fleet_request(1) waiting_def sum_list_update [OF fleet_request(2)] q(3))
  ultimately show ?thesis using ok by (simp add: fleet_request(1) fleet_inv_def)
next
  case (fleet_push i w r)
  note ok = assms(4) [unfolded fleet_inv_def]
  have "length (spend_update_queue (pods f ! i)) \<le> LITELLM_ASYNCIO_QUEUE_MAXSIZE" using ok fleet_push(2) by (auto simp: list_all_iff)
  note e = push_effect [OF assms(1) this fleet_push(3)]
  have "list_all (\<lambda>w. list_all proper_id (spend_update_queue w) \<and> length (spend_update_queue w) \<le> LITELLM_ASYNCIO_QUEUE_MAXSIZE) (pods f')"
    using ok e by (auto simp: fleet_push(1) list_all_iff dest!: set_update_subset_insert [THEN subsetD])
  moreover have "waiting contents f' q = waiting contents f q" for q
    using e by (simp add: fleet_push(1) waiting_def sum_list_update [OF fleet_push(2)] buffered_row_def transactions_row)
  ultimately show ?thesis using ok by (simp add: fleet_push(1) fleet_inv_def)
next
  case (fleet_pop tx daily r)
  have "waiting contents f' q = waiting contents f q" for q
    using pop_effect [OF assms(1) fleet_pop(2), of q] by (auto simp: fleet_pop(1) waiting_def split: option.splits)
  then show ?thesis using assms(4) by (simp add: fleet_pop(1) fleet_inv_def)
next
  case (fleet_commit xs tx ys n c d c')
  have "adds (spend (db f)) (spend d) (\<lambda>r. tx_row r tx)" using commit_adds [OF assms(2) fleet_commit(3)] by simp
  moreover have "waiting contents f r = waiting contents f' r + tx_row r tx" for r
    by (simp add: fleet_commit(1,2) waiting_def)
  ultimately show ?thesis using assms(4) by (simp add: fleet_commit(1) fleet_inv_def adds_def algebra_simps)
qed (use assms(4) in \<open>simp_all add: fleet_inv_def waiting_def\<close>)

text \<open>The daily tables are no rows of entities.\<close>

lemma daily_tables_keep:
  assumes "db_laws ops spend" "update_daily_tables ops n kms d = (res, d')"
  shows "spend d' = spend d"
proof -
  have one: "with_retries (d_batch ops ws) n d = (x, d1) \<Longrightarrow> spend d1 = spend d"
    if "\<forall>w \<in> set ws. \<exists>k r t. w = UpsertDaily k r t" for ws n d x d1
  proof (induction n arbitrary: d)
    case 0
    then show ?case using assms(1) that unfolding db_laws_def by auto
  next
    case (Suc n)
    obtain y d2 where y: "d_batch ops ws d = (y, d2)" by fastforce
    then have "spend d2 = spend d" using assms(1) that unfolding db_laws_def by blast
    then show ?case using Suc y by (cases y) (auto split: if_splits)
  qed
  have "update_daily_spend ops n k m d = (x, m', d1) \<Longrightarrow> spend d1 = spend d" for k m d x m' d1
    using one [of "map (\<lambda>(_, t). UpsertDaily k (where_clause t) t) (transactions_to_process m)"]
    by (auto simp: update_daily_spend_def Let_def split: if_splits prod.splits)
  then show ?thesis using assms(2)
    by (induction kms arbitrary: d) (auto split: prod.splits sum.splits)
qed

definition lock_keeps :: "'r lock_ops \<Rightarrow> (string \<Rightarrow> 'r \<Rightarrow> buffered list) \<Rightarrow> bool" where
  "lock_keeps lops contents \<longleftrightarrow>
     (\<forall>k p t r. contents REDIS_UPDATE_BUFFER_KEY (snd (l_set_nx lops k p t r)) = contents REDIS_UPDATE_BUFFER_KEY r) \<and>
     (\<forall>k r. contents REDIS_UPDATE_BUFFER_KEY (snd (l_get lops k r)) = contents REDIS_UPDATE_BUFFER_KEY r) \<and>
     (\<forall>k r. contents REDIS_UPDATE_BUFFER_KEY (snd (l_delete lops k r)) = contents REDIS_UPDATE_BUFFER_KEY r)"

lemma lock_keeps_list:
  assumes "lock_keeps lops contents"
  shows "contents REDIS_UPDATE_BUFFER_KEY (snd (acquire_lock (Some lops) p j r)) = contents REDIS_UPDATE_BUFFER_KEY r"
    "contents REDIS_UPDATE_BUFFER_KEY (release_lock (Some lops) p j r) = contents REDIS_UPDATE_BUFFER_KEY r"
proof -
  note k = assms [unfolded lock_keeps_def]
  have g: "contents REDIS_UPDATE_BUFFER_KEY x = contents REDIS_UPDATE_BUFFER_KEY r" if "l_get lops i r = (y, x)" for i r y x
    using k that by (metis snd_conv)
  have s: "contents REDIS_UPDATE_BUFFER_KEY x = contents REDIS_UPDATE_BUFFER_KEY r" if "l_set_nx lops i p t r = (y, x)" for i p t r y x
    using k that by (metis snd_conv)
  show "contents REDIS_UPDATE_BUFFER_KEY (snd (acquire_lock (Some lops) p j r)) = contents REDIS_UPDATE_BUFFER_KEY r"
    by (auto simp: acquire_lock_def dest!: g s split: prod.split sum.split bool.split)
  show "contents REDIS_UPDATE_BUFFER_KEY (release_lock (Some lops) p j r) = contents REDIS_UPDATE_BUFFER_KEY r"
    using k by (auto simp: release_lock_def release_check_def release_delete_def dest!: g split: prod.split sum.split bool.split)
qed

abbreviation fleet_steps where
  "fleet_steps bops contents ops spend cops \<equiv> (fleet_step bops contents ops spend cops)\<^sup>*\<^sup>*"

lemma popped_steps:
  assumes "db_laws ops spend" "get_all_transactions_from_redis_buffer_pipeline (Some bops) (redis f) = (Inr p, r)"
    and "commit_popped ops cops n p s = (Inr (), s')" "database s = db f"
  shows "fleet_steps bops contents ops spend cops f (f\<lparr>redis := r, db := database s'\<rparr>)"
proof -
  let ?f1 = "f\<lparr>in_flight := (case fst p of None \<Rightarrow> in_flight f | Some t \<Rightarrow> in_flight f @ [t]), redis := r\<rparr>"
  have pop: "fleet_step bops contents ops spend cops f ?f1"
    using fleet_pop [of bops f "fst p" "snd p" r] assms(2) by simp
  let ?rest = "List.map_filter (\<lambda>k. case map_of (snd p) k of Some (Some m) \<Rightarrow> Some (k, m) | _ \<Rightarrow> None) direct_order"
  obtain d c where d: "(case fst p of None \<Rightarrow> (Inr (), database s, user_api_key_cache s)
      | Some tx \<Rightarrow> commit_spend_updates_to_db ops cops n tx (database s, user_api_key_cache s)) = (Inr (), d, c)"
    "update_daily_tables ops n ?rest d = (Inr (), database s')"
    using assms(3) unfolding commit_popped_def by (auto split: prod.splits sum.splits)
  have "fleet_steps bops contents ops spend cops ?f1 (f\<lparr>redis := r, db := d\<rparr>)"
  proof (cases "fst p")
    case None
    then have "f\<lparr>redis := r, db := d\<rparr> = ?f1" using d(1) assms(4) by simp
    then show ?thesis by simp
  next
    case (Some tx)
    have "fleet_step bops contents ops spend cops ?f1 (?f1\<lparr>in_flight := in_flight f @ [], db := d\<rparr>)"
      using d(1) Some assms(4) by (intro fleet_commit [of _ "in_flight f" tx "[]" _ _ n "user_api_key_cache s" d c]) simp_all
    then show ?thesis by (intro r_into_rtranclp) simp
  qed
  moreover have "fleet_step bops contents ops spend cops (f\<lparr>redis := r, db := d\<rparr>) (f\<lparr>redis := r, db := database s'\<rparr>)"
    using fleet_db [of spend "database s'" "f\<lparr>redis := r, db := d\<rparr>"] daily_tables_keep [OF assms(1) d(2)] by simp
  ultimately show ?thesis using pop by (meson converse_rtranclp_into_rtranclp rtranclp.rtrancl_into_rtrancl)
qed

lemma job_steps:
  assumes "db_laws ops spend" "lock_keeps lops contents" "i < length (pods f)"
    and "commit_spend_updates_to_db_with_redis (Some bops) (Some lops) ops cops pod_id n (pods f ! i) (redis f)
      \<lparr>database = db f, user_api_key_cache = c\<rparr> = ((Inr (), None), w, r, s)"
  shows "fleet_steps bops contents ops spend cops f (f\<lparr>pods := (pods f)[i := w], redis := r, db := database s\<rparr>)"
proof -
  let ?s = "\<lparr>database = db f, user_api_key_cache = c\<rparr>"
  obtain r1 where st: "store_in_memory_spend_updates_in_redis (Some bops) (pods f ! i) (redis f) = (Inr (), w, r1)"
    using assms(4) unfolding commit_spend_updates_to_db_with_redis_def
    by (cases "fst (store_in_memory_spend_updates_in_redis (Some bops) (pods f ! i) (redis f))")
      (auto split: prod.splits sum.splits option.splits bool.splits)
  let ?f1 = "f\<lparr>pods := (pods f)[i := w], redis := r1\<rparr>"
  have push: "fleet_step bops contents ops spend cops f ?f1" by (rule fleet_push [OF assms(3) st])
  obtain got r2 where lock: "acquire_lock (Some lops) pod_id DB_SPEND_UPDATE_JOB_NAME r1 = (got, r2)" by fastforce
  have "contents REDIS_UPDATE_BUFFER_KEY r2 = contents REDIS_UPDATE_BUFFER_KEY r1"
    using lock_keeps_list(1) [OF assms(2), of pod_id DB_SPEND_UPDATE_JOB_NAME r1] lock by simp
  then have locked: "fleet_step bops contents ops spend cops ?f1 (?f1\<lparr>redis := r2\<rparr>)" by (intro fleet_redis) simp
  show ?thesis
  proof (cases "got = Some True")
    case False
    then have "r = r2" "s = ?s"
      using assms(4) st lock by (auto simp: commit_spend_updates_to_db_with_redis_def split: option.splits bool.splits)
    then show ?thesis using push locked by (simp add: converse_rtranclp_into_rtranclp)
  next
    case True
    obtain p r3 where g: "get_all_transactions_from_redis_buffer_pipeline (Some bops) r2 = (Inr p, r3)"
      and cm: "commit_popped ops cops n p ?s = (Inr (), s)" and r: "r = release_lock (Some lops) pod_id DB_SPEND_UPDATE_JOB_NAME r3"
      using assms(4) st lock True
      by (auto simp: commit_spend_updates_to_db_with_redis_def split: prod.splits sum.splits)
    let ?f3 = "?f1\<lparr>redis := r3, db := database s\<rparr>"
    have "fleet_steps bops contents ops spend cops (?f1\<lparr>redis := r2\<rparr>) (?f1\<lparr>redis := r2, redis := r3, db := database s\<rparr>)"
      by (rule popped_steps [OF assms(1) _ cm]) (simp_all add: g)
    then have pop: "fleet_steps bops contents ops spend cops (?f1\<lparr>redis := r2\<rparr>) ?f3" by simp
    have "contents REDIS_UPDATE_BUFFER_KEY r = contents REDIS_UPDATE_BUFFER_KEY (redis ?f3)"
      using lock_keeps_list(2) [OF assms(2)] r by simp
    from fleet_redis [of contents, OF this, of bops ops spend cops]
    have released: "fleet_step bops contents ops spend cops ?f3 (?f3\<lparr>redis := r\<rparr>)" .
    have "?f3\<lparr>redis := r\<rparr> = f\<lparr>pods := (pods f)[i := w], redis := r, db := database s\<rparr>" by (cases f) simp
    with rtranclp.rtrancl_into_rtrancl [OF converse_rtranclp_into_rtranclp [OF push converse_rtranclp_into_rtranclp [OF locked pop]] released]
    show ?thesis by (simp only:)
  qed
qed

lemma fleet_steps_inv:
  assumes "fleet_steps bops contents ops spend cops f f'" "buffer_laws bops contents" "db_laws ops spend" "fleet_inv contents spend d0 f"
  shows "fleet_inv contents spend d0 f'"
  using assms(1,4) by (induction rule: rtranclp_induct) (auto intro: fleet_inv_step [OF assms(2,3)])

subsection \<open>Properties\<close>

text \<open>
  Property C1. Spend is conserved by the whole fleet: however requests, pushes, pops and commits of any
  number of pods interleave, for every row that the database keeps the spend in the database plus what
  waits in the queues, in Redis and in batches that are being committed is what the row had at the
  start plus the costs of all requests. Only steps that return are taken; failed attempts inside a
  commit are retried and count once. Ids may not be the text \<^verbatim>\<open>None\<close>.
\<close>

theorem fleet_spend_conserved:
  assumes "buffer_laws bops contents" "db_laws ops spend" "contents REDIS_UPDATE_BUFFER_KEY r0 = []" "tracked (spend d0) row"
    and "fleet_steps bops contents ops spend cops
      \<lparr>pods = replicate k \<lparr>spend_update_queue = [], daily_queue = \<lambda>_. []\<rparr>, in_flight = [], redis = r0, db = d0, booked = \<lambda>_. 0\<rparr> f"
  shows "spend_of (spend (db f)) row + waiting contents f row = spend_of (spend d0) row + booked f row"
proof -
  have "fleet_inv contents spend d0
      \<lparr>pods = replicate k \<lparr>spend_update_queue = [], daily_queue = \<lambda>_. []\<rparr>, in_flight = [], redis = r0, db = d0, booked = \<lambda>_. 0\<rparr>"
    using assms(3) by (simp add: fleet_inv_def waiting_def list_all_iff sum_list_replicate)
  from fleet_steps_inv [OF assms(5,1,2) this] assms(4) show ?thesis by (simp add: fleet_inv_def)
qed

text \<open>
  Property C13. The job of a pod refines these steps: a run of the committing job with the Redis buffer that
  raises and logs no error, whether or not it gets the lock, is a sequence of steps of the fleet that
  ends in the state the job leaves, with no batch on its way that was not before.
\<close>

theorem commit_job_refines_steps:
  assumes "db_laws ops spend" "lock_keeps lops contents" "i < length (pods f)"
    and "commit_spend_updates_to_db_with_redis (Some bops) (Some lops) ops cops pod_id n (pods f ! i) (redis f)
      \<lparr>database = db f, user_api_key_cache = c\<rparr> = ((Inr (), None), w, r, s)"
  shows "fleet_steps bops contents ops spend cops f (f\<lparr>pods := (pods f)[i := w], redis := r, db := database s\<rparr>)"
  by (rule job_steps [OF assms])

text \<open>Redis and a database for the witnesses: dicts of locks and lists, and a dict of rows.\<close>

type_synonym toy_redis = "(string, string) dict \<times> (string, buffered list) dict"

definition toy_buffer :: "toy_redis buffer_ops" where
  "toy_buffer = \<lparr>b_rpush = (\<lambda>k bs r. (Inr 0, fst r, AList.update k (dict_get (snd r) k [] @ bs) (snd r))),
     b_rpush_pipeline = (\<lambda>xs r. (Inr [], fst r, fold (\<lambda>(k, bs) l. AList.update k (dict_get l k [] @ bs) l) xs (snd r))),
     b_lpop = (\<lambda>k n r. (Inr (Some (take n (dict_get (snd r) k []))), fst r, AList.update k (drop n (dict_get (snd r) k [])) (snd r))),
     b_lpop_pipeline = (\<lambda>xs r. (Inr (map (\<lambda>(k, n). let l = dict_get (snd r) k [] in if l = [] then None else Some (take n l)) xs), fst r,
        fold (\<lambda>(k, n) l. AList.update k (drop n (dict_get l k [])) l) xs (snd r)))\<rparr>"

definition toy_contents :: "string \<Rightarrow> toy_redis \<Rightarrow> buffered list" where
  "toy_contents k r = dict_get (snd r) k []"

definition toy_locks :: "toy_redis lock_ops" where
  "toy_locks = \<lparr>l_set_nx = (\<lambda>k p t r. case l_set_nx dict_locks k p t (fst r) of (x, l) \<Rightarrow> (x, l, snd r)),
     l_get = (\<lambda>k r. case l_get dict_locks k (fst r) of (x, l) \<Rightarrow> (x, l, snd r)),
     l_delete = (\<lambda>k r. case l_delete dict_locks k (fst r) of (x, l) \<Rightarrow> (x, l, snd r))\<rparr>"

text \<open>The number of connection errors that are to come, and the rows.\<close>

type_synonym toy_db = "nat \<times> (row, rat) dict"

fun toy_write :: "db_write \<Rightarrow> (row, rat) dict \<Rightarrow> (row, rat) dict" where
  "toy_write (UpdateMany r c) d = (case map_of d r of None \<Rightarrow> d | Some s \<Rightarrow> AList.update r (s + c) d)"
| "toy_write (Upsert r c) d = AList.update r (dict_get d r 0 + c) d"
| "toy_write (UpsertDaily _ _ _) d = d"

definition toy_db_ops :: "toy_db db_ops" where
  "toy_db_ops = \<lparr>d_tx = (\<lambda>ws d. if 0 < fst d then (Inl (OtherError ''ReadTimeout''), fst d - 1, snd d) else (Inr (), 0, fold toy_write ws (snd d))),
     d_batch = (\<lambda>ws d. (Inr (), fst d, fold toy_write ws (snd d)))\<rparr>"

definition toy_spend :: "toy_db \<Rightarrow> row \<Rightarrow> rat option" where
  "toy_spend d = map_of (snd d)"

lemma toy_write_applies: "map_of (toy_write w d) = apply_write w (map_of d)"
  by (cases w) (auto simp: fun_eq_iff dict_get_def update_conv' split: option.split)

lemma toy_db_laws: "db_laws toy_db_ops toy_spend"
proof -
  have "map_of (fold toy_write ws d) = fold apply_write ws (map_of d)" for ws d
    by (induction ws arbitrary: d) (simp_all add: toy_write_applies)
  moreover have "fold apply_write ws f = f" if "\<forall>w \<in> set ws. \<exists>k r t. w = UpsertDaily k r t" for ws f
    using that by (induction ws) auto
  ultimately show ?thesis by (auto simp: db_laws_def toy_db_ops_def toy_spend_def split: if_splits)
qed

lemma toy_lock_keeps: "lock_keeps toy_locks toy_contents"
  by (auto simp: lock_keeps_def toy_locks_def toy_contents_def)

lemma toy_buffer_laws: "buffer_laws toy_buffer toy_contents"
proof -
  have push: "dict_get (fold (\<lambda>(k, bs) l. AList.update k (dict_get l k [] @ bs) l) xs l) k [] =
      dict_get l k [] @ concat (map snd (filter (\<lambda>x. fst x = k) xs))" for xs l k
    by (induction xs arbitrary: l) (auto simp: dict_get_update)
  have other: "k \<notin> fst ` set xs \<Longrightarrow>
      dict_get (fold (\<lambda>(k, n) l. AList.update k (drop n (dict_get l k [])) l) xs l) k [] = dict_get l k []"
    for xs and l :: "(string, buffered list) dict" and k
    by (induction xs arbitrary: l) (auto simp: dict_get_update)
  have pop: "distinct (map fst xs) \<Longrightarrow> (k, n) \<in> set xs \<Longrightarrow>
      dict_get (fold (\<lambda>(k, n) l. AList.update k (drop n (dict_get l k [])) l) xs l) k [] = drop n (dict_get l k [])"
    for xs and l :: "(string, buffered list) dict" and k n
  proof (induction xs arbitrary: l)
    case (Cons x xs)
    show ?case
    proof (cases "x = (k, n)")
      case True
      then show ?thesis using other [of k xs] Cons.prems(1) by (simp add: dict_get_update)
    next
      case False
      then have "fst x \<noteq> k" using Cons.prems by (auto simp: image_iff)
      then show ?thesis using Cons False by (cases x) (simp add: dict_get_update)
    qed
  qed simp
  show ?thesis
    by (auto simp: buffer_laws_def toy_buffer_def toy_contents_def push pop Let_def)
qed

text \<open>Two pods: the first has written what it had, the second has the lock refused.\<close>

definition toy_fleet :: "(toy_redis, toy_db) fleet" where
  "toy_fleet = \<lparr>pods = replicate 2 \<lparr>spend_update_queue = [], daily_queue = \<lambda>_. []\<rparr>, in_flight = [], redis = ([], []),
     db = (1, [(KeyRow ''k'', 10)]), booked = \<lambda>_. 0\<rparr>"

definition toy_after_request :: "(toy_redis, toy_db) fleet" where
  "toy_after_request = toy_fleet\<lparr>pods := (pods toy_fleet)[1 := \<lparr>spend_update_queue = [item KEY ''k'' 3], daily_queue = \<lambda>_. []\<rparr>],
     booked := \<lambda>r. if r = KeyRow ''k'' then 3 else 0\<rparr>"

lemma toy_request: "fleet_step toy_buffer toy_contents toy_db_ops toy_spend redis_up toy_fleet toy_after_request"
proof -
  have a: "add_updates_with spend_agg [item KEY ''k'' 3] [] = Some (Inr (), [item KEY ''k'' 3])"
    by (simp add: add_update_with_def queue_put_def LITELLM_ASYNCIO_QUEUE_MAXSIZE_def MAX_SIZE_IN_MEMORY_QUEUE_def)
  have eq: "toy_after_request = toy_fleet\<lparr>pods := (pods toy_fleet)[1 := (pods toy_fleet ! 1)\<lparr>spend_update_queue := [item KEY ''k'' 3]\<rparr>],
      booked := \<lambda>r. booked toy_fleet r + (\<Sum>u\<leftarrow>[item KEY ''k'' 3]. row_cost r u)\<rparr>"
    by (auto simp: toy_after_request_def toy_fleet_def row_cost_def spent_where_def row_of_def or_empty_def cost_def fun_eq_iff)
  have q: "spend_update_queue (pods toy_fleet ! 1) = []" by (simp add: toy_fleet_def)
  show ?thesis unfolding eq
    by (rule fleet_request) (simp_all only: q a, simp_all add: toy_fleet_def proper_id_def)
qed

definition toy_job :: "(unit pyres \<times> pyexc option) \<times> spend_queues \<times> toy_redis \<times> (toy_db, (string, pyval) dict) store" where
  "toy_job = commit_spend_updates_to_db_with_redis (Some toy_buffer) (Some toy_locks) toy_db_ops redis_up ''pod'' 3 (pods toy_after_request ! 1)
     (redis toy_after_request) \<lparr>database = db toy_after_request, user_api_key_cache = None\<rparr>"

lemma toy_job_runs:
  "fst toy_job = (Inr (), None)" "database (snd (snd (snd toy_job))) = (0, [(KeyRow ''k'', 13)])"
  by code_simp+

theorem commit_job_refines_steps_witness:
  "\<exists>f. fleet_steps toy_buffer toy_contents toy_db_ops toy_spend redis_up toy_after_request f \<and> db f = (0, [(KeyRow ''k'', 13)])"
proof -
  have i: "1 < length (pods toy_after_request)" by (simp add: toy_after_request_def toy_fleet_def)
  have "toy_job = ((Inr (), None), fst (snd toy_job), fst (snd (snd toy_job)), snd (snd (snd toy_job)))"
    by (simp add: toy_job_runs(1) [symmetric])
  from commit_job_refines_steps [OF toy_db_laws toy_lock_keeps i this [unfolded toy_job_def]]
  show ?thesis using toy_job_runs(2) unfolding toy_job_def by (intro exI conjI) (assumption, simp)
qed

theorem fleet_spend_conserved_witness:
  "\<exists>f. waiting toy_contents f (KeyRow ''k'') = 3 \<and> booked f (KeyRow ''k'') = 3 \<and>
     fleet_steps toy_buffer toy_contents toy_db_ops toy_spend redis_up toy_fleet f"
proof -
  have s: "fleet_steps toy_buffer toy_contents toy_db_ops toy_spend redis_up toy_fleet toy_after_request"
    using toy_request by blast
  have c: "toy_contents REDIS_UPDATE_BUFFER_KEY ([], []) = []" by (simp add: toy_contents_def)
  have t: "tracked (toy_spend (1, [(KeyRow ''k'', 10)])) (KeyRow ''k'')" by (simp add: tracked_def toy_spend_def)
  from fleet_spend_conserved [OF toy_buffer_laws toy_db_laws c t s [unfolded toy_fleet_def]]
  have "spend_of (toy_spend (db toy_after_request)) (KeyRow ''k'') + waiting toy_contents toy_after_request (KeyRow ''k'') =
      spend_of (toy_spend (1, [(KeyRow ''k'', 10)])) (KeyRow ''k'') + booked toy_after_request (KeyRow ''k'')" .
  then have "waiting toy_contents toy_after_request (KeyRow ''k'') = 3 \<and> booked toy_after_request (KeyRow ''k'') = 3"
    by (simp add: toy_after_request_def toy_fleet_def)
  then show ?thesis using s by blast
qed

text \<open>
  After a commit that returns, the cache in memory holds no membership whose spend was written, so that the next
  check of the budget of the member reads the database.
\<close>

lemma deleted_stays:
  "invalidate_memberships cops ms c = (res, c') \<Longrightarrow> map_of (cache_dict (in_memory_cache c)) k = None \<Longrightarrow>
   map_of (cache_dict (in_memory_cache c')) k = None"
proof (induction cops ms c rule: invalidate_memberships.induct)
  case (2 cops team user ms c)
  have "map_of (cache_dict (in_memory_cache (snd (dual_delete_cache cops key c)))) k = None" for key
    using 2(3) by (auto simp: dual_delete_cache_def with_redis_def imc_delete_cache_def remove_key_def delete_conv' Let_def
        split: option.split prod.split)
  then have d: "map_of (cache_dict (in_memory_cache c1)) k = None" if "dual_delete_cache cops key c = (x, c1)" for key x c1
    using that by (metis snd_conv)
  obtain x c1 where x: "dual_delete_cache cops (membership_cache_key user team) c = (x, c1)" by fastforce
  show ?case
  proof (cases x)
    case (Inr y)
    then show ?thesis using 2(1) [OF x [symmetric]] 2(2) x d [OF x] by simp
  qed (use 2(2) x d [OF x] in simp)
qed simp

lemma invalidated:
  "invalidate_memberships cops ms c = (Inr (), c') \<Longrightarrow> (team, user) \<in> set ms \<Longrightarrow>
   map_of (cache_dict (in_memory_cache c')) (membership_cache_key user team) = None"
proof (induction cops ms c rule: invalidate_memberships.induct)
  case (2 cops t u ms c)
  obtain c1 where c1: "dual_delete_cache cops (membership_cache_key u t) c = (Inr (), c1)" "invalidate_memberships cops ms c1 = (Inr (), c')"
    using 2(2) by (auto split: prod.splits sum.splits)
  have "map_of (cache_dict (in_memory_cache c1)) (membership_cache_key u t) = None"
    using c1(1) by (auto simp: dual_delete_cache_def with_redis_def imc_delete_cache_def remove_key_def delete_conv' Let_def
        split: option.splits prod.splits)
  then show ?case using deleted_stays [OF c1(2)] 2(1) [OF c1(1) [symmetric] refl c1(2)] 2(3) by auto
qed simp

lemma run_steps_Inr: "run_steps (f # fs) s = (Inr (), s') \<longleftrightarrow> (\<exists>s1. f s = (Inr (), s1) \<and> run_steps fs s1 = (Inr (), s'))"
  by (auto split: prod.splits sum.splits)

lemma on_db_keeps: "on_db f s = (x, s1) \<Longrightarrow> snd s1 = snd s"
  by (auto simp: on_db_def split: prod.splits)

lemma committed_membership_not_cached:
  assumes "commit_spend_updates_to_db ops cops n tx (d, Some c) = (Inr (), d', c')"
    and "(key, x) \<in> set (team_member_list_transactions tx)" "member_of_key key = Inr (team, user)"
  shows "\<exists>c1. c' = Some c1 \<and> map_of (cache_dict (in_memory_cache c1)) (membership_cache_key user team) = None"
proof -
  obtain s1 s2 where s: "snd s1 = Some c" "update_members ops cops n (team_member_list_transactions tx) s1 = (Inr (), s2)" "snd s2 = c'"
    using assms(1) unfolding commit_spend_updates_to_db_def run_steps_Inr by (auto dest!: on_db_keeps)
  obtain ms where ms: "member_writes (team_member_list_transactions tx) = Inr ms"
    using s(2) assms(2) by (auto simp: update_members_def split: if_splits sum.splits)
  have "member_writes xs = Inr ms \<Longrightarrow> (key, x) \<in> set xs \<Longrightarrow> (team, user) \<in> fst ` set ms" for xs ms
    by (induction xs arbitrary: ms rule: member_writes.induct) (use assms(3) in \<open>force split: sum.splits\<close>)+
  from this [OF ms assms(2)] have "(team, user) \<in> set (map fst ms)" by force
  moreover obtain c1 where "invalidate_memberships cops (map fst ms) c = (Inr (), c1)" "c' = Some c1"
    using s ms assms(2) by (auto simp: update_members_def split: if_splits prod.splits sum.splits)
  ultimately show ?thesis using invalidated by blast
qed

subsection \<open>Deviations\<close>

text \<open>
  Of a daily queue with more than a hundred transactions only a hundred are written: the rest stays
  in a dict that is dropped, after the queue has been flushed.
\<close>

lemma daily_overflow_lost:
  assumes "flush_and_get_aggregated_daily_spend (daily_queue w k) = (Inr m, [])" "length m > BATCH_SIZE"
    and "commit_daily_queues ops n [k] (w, d) = (Inr (), w', d')"
  shows "daily_queue w' k = [] \<and> (\<exists>ws. length ws = BATCH_SIZE \<and> with_retries (d_batch ops ws) n d = (Inr (), d'))"
proof -
  let ?ws = "map (\<lambda>(_, t). UpsertDaily k (where_clause t) t) (transactions_to_process m)"
  have l: "length ?ws = BATCH_SIZE" using assms(2) by (simp add: transactions_to_process_def)
  then have "transactions_to_process m \<noteq> []" by (auto simp: BATCH_SIZE_def)
  then have "with_retries (d_batch ops ?ws) n d = (Inr (), d')" "daily_queue w' k = []"
    using assms(1,3) by (auto simp: update_daily_spend_def Let_def split: prod.splits sum.splits)
  then show ?thesis using l by blast
qed

text \<open>
  When a table cannot be written, the queue is already empty and the updates of all tables after it
  are lost, here those of every key and team after the table of users.
\<close>

lemma failed_commit_loses_batch:
  assumes "length (spend_update_queue w) \<le> LITELLM_ASYNCIO_QUEUE_MAXSIZE"
    and "tx = get_aggregated_db_spend_update_transactions (spend_update_queue w)"
    and "update_entity_spend_in_db ops n UserRow (user_list_transactions tx) (database s) = (Inl e, d)"
  shows "commit_spend_updates_to_db_without_redis_buffer ops cops n w s = (Inl e, w\<lparr>spend_update_queue := []\<rparr>, s\<lparr>database := d\<rparr>)"
  using assms by (simp add: commit_spend_updates_to_db_without_redis_buffer_def flush_and_get_aggregated_db_spend_def flush_all_within
      commit_spend_updates_to_db_def on_db_def)

text \<open>When Redis does not take the push, what was flushed is lost too.\<close>

lemma failed_push_loses_batch:
  assumes "length (spend_update_queue w) \<le> LITELLM_ASYNCIO_QUEUE_MAXSIZE" "\<And>xs. b_rpush_pipeline bops xs r = (Inl e, r)"
    and "flush_daily_queues flush_order (w\<lparr>spend_update_queue := []\<rparr>) = (Inr ms, w1)"
  shows "store_in_memory_spend_updates_in_redis (Some bops) w r = (Inl e, w1, r) \<and> spend_update_queue w1 = []"
  using assms flush_daily_keeps [OF assms(3)]
  by (simp add: store_in_memory_spend_updates_in_redis_def flush_and_get_aggregated_db_spend_def flush_all_within rpush_list_def nothing_buffered_def)

text \<open>The test for an empty set of updates is never true, so that an idle pod pushes an element in each run.\<close>

lemma empty_updates_pushed: "rpush_list empty_transactions [] = [(REDIS_UPDATE_BUFFER_KEY, [Updates empty_transactions])]"
  by (simp add: rpush_list_def nothing_buffered_def)

text \<open>The spend of a member of a team with two colons in its id is booked on another row.\<close>

lemma member_of_colon_team: "member_of_key ''team_id::a::b::user_id::u'' = Inr (''a'', ''user_id'')"
  by code_simp

end
