(* ===== verification/SpendWriter.thy ===== *)
theory SpendWriter
  imports SpendCommit
begin

text \<open>
  The first half of \<^verbatim>\<open>proxy/db/db_spend_update_writer.py\<close>: what a finished request puts into the queues.
  \<^verbatim>\<open>update_database\<close> appends the spend log and schedules \<^verbatim>\<open>_batch_database_updates\<close>, which books the cost on
  the key, the user, the team and its member, the organization, the tags, the agent and the end user, and
  the usage of the day on six of them. The payload that \<^verbatim>\<open>get_logging_payload\<close> assembles is an argument, with
  values of the types that are declared for it; the hash of tokens, the texts of floats and the look-up of
  the user in the cache are parameters, as are the names of the tools that a response calls. \<^term>\<open>None\<close> as a state means that a queue is full and the task waits.
\<close>

subsection \<open>Tools\<close>

text \<open>\<^verbatim>\<open>tool_discovery_queue.py\<close>: each tool is queued once until the next flush.\<close>

record tool_item =
  tool_name :: string
  tool_origin :: string
  tool_key_hash :: "string option"
  tool_team_id :: "string option"
  tool_key_alias :: pyval
  tool_user_agent :: pyval

record tool_queue =
  seen_tool_names :: "string list"
  pending :: "tool_item list"

definition tool_add_update :: "tool_item \<Rightarrow> tool_queue \<Rightarrow> tool_queue" where
  "tool_add_update x q =
     (if tool_name x = [] then q
      else if tool_name x \<in> set (seen_tool_names q) then q
      else q\<lparr>seen_tool_names := tool_name x # seen_tool_names q, pending := pending q @ [x]\<rparr>)"

definition tool_flush :: "tool_queue \<Rightarrow> tool_item list \<times> tool_queue" where
  "tool_flush q = (pending q, \<lparr>seen_tool_names = [], pending = []\<rparr>)"

type_synonym payload = "(string, pyval) dict"

text \<open>The values that a loop over a value runs through.\<close>

definition iterate :: "pyval \<Rightarrow> pyval list pyres" where
  "iterate v =
     (case v of PList xs \<Rightarrow> Inr xs | PTuple xs \<Rightarrow> Inr xs | PDict d \<Rightarrow> Inr (map (PStr \<circ> fst) d) | PStr s \<Rightarrow> Inr (map PStr (py_chars s))
      | _ \<Rightarrow> Inl TypeError)"

definition opt_str :: "pyval \<Rightarrow> string option" where
  "opt_str v = (case v of PStr s \<Rightarrow> Some s | _ \<Rightarrow> None)"

text \<open>\<^verbatim>\<open>v.get(key)\<close>.\<close>

definition get_of :: "pyval \<Rightarrow> string \<Rightarrow> pyval pyres" where
  "get_of v key = (case v of PDict d \<Rightarrow> Inr (dict_get d key PNone) | _ \<Rightarrow> Inl AttributeError)"

text \<open>The names in each part of a request, with their origins; an error ends the search.\<close>

definition mcp_tool_names :: "payload \<Rightarrow> (string \<times> string) list pyres" where
  "mcp_tool_names kwargs =
     (case dict_get kwargs ''standard_logging_object'' PNone of
        PNone \<Rightarrow> Inr []
      | sl \<Rightarrow>
        (case get_of sl ''metadata'' of
           Inl e \<Rightarrow> Inl e
         | Inr md \<Rightarrow>
           (case get_of (py_or md (PDict [])) ''mcp_tool_call_metadata'' of
              Inl e \<Rightarrow> Inl e
            | Inr (PDict m) \<Rightarrow>
              (case opt_str (py_or (dict_get m ''namespaced_tool_name'' PNone) (dict_get m ''name'' PNone)) of
                 None \<Rightarrow> Inr []
               | Some n \<Rightarrow> Inr [(n, or_empty (opt_str (py_or (dict_get m ''mcp_server_name'' PNone) (PStr ''user_defined''))))])
            | Inr _ \<Rightarrow> Inr [])))"

definition openai_tool_name :: "pyval \<Rightarrow> string option" where
  "openai_tool_name tool_def =
     (case tool_def of
        PDict t \<Rightarrow> (case py_or (dict_get t ''function'' PNone) (PDict []) of PDict fn \<Rightarrow> opt_str (dict_get fn ''name'' PNone) | _ \<Rightarrow> None)
      | _ \<Rightarrow> None)"

definition anthropic_tool_name :: "pyval \<Rightarrow> string option" where
  "anthropic_tool_name tool_def = (case tool_def of PDict t \<Rightarrow> opt_str (dict_get t ''name'' PNone) | _ \<Rightarrow> None)"

definition user_defined_names :: "(pyval \<Rightarrow> string option) \<Rightarrow> pyval \<Rightarrow> (string \<times> string) list pyres" where
  "user_defined_names f tools =
     (case iterate (py_or tools (PList [])) of
        Inl e \<Rightarrow> Inl e
      | Inr xs \<Rightarrow> Inr (map (\<lambda>n. (n, ''user_defined'')) (List.map_filter f xs)))"

definition passthrough_tool_names :: "payload \<Rightarrow> (string \<times> string) list pyres" where
  "passthrough_tool_names kwargs =
     (let body = py_or (case py_or (dict_get kwargs ''passthrough_logging_payload'' PNone) (PDict []) of
                          PDict d \<Rightarrow> dict_get d ''request_body'' PNone | _ \<Rightarrow> PNone) (PDict []) in
      case get_of body ''tools'' of Inl e \<Rightarrow> Inl e | Inr tools \<Rightarrow> user_defined_names anthropic_tool_name tools)"

fun names_until_error :: "(string \<times> string) list pyres list \<Rightarrow> (string \<times> string) list" where
  "names_until_error [] = []"
| "names_until_error (Inl _ # rs) = []"
| "names_until_error (Inr ns # rs) = ns @ names_until_error rs"

definition enqueue_tool_registry_upsert ::
  "payload option \<Rightarrow> string list \<Rightarrow> string option \<Rightarrow> string option \<Rightarrow> tool_queue \<Rightarrow> tool_queue" where
  "enqueue_tool_registry_upsert kwargs response_tools hashed_token team_id q =
     (case kwargs of
        None \<Rightarrow> q
      | Some kw \<Rightarrow>
        (case get_of (py_or (dict_get kw ''litellm_params'' PNone) (PDict [])) ''metadata'' of
           Inl _ \<Rightarrow> q
         | Inr md \<Rightarrow>
           (case py_or md (PDict []) of
              PDict m \<Rightarrow>
                fold (\<lambda>(n, origin). tool_add_update
                    \<lparr>tool_name = n, tool_origin = origin, tool_key_hash = hashed_token, tool_team_id = team_id,
                     tool_key_alias = py_or (dict_get m ''user_api_key_alias'' PNone) PNone,
                     tool_user_agent = py_or (dict_get m ''user_agent'' PNone) PNone\<rparr>)
                  (names_until_error
                    [mcp_tool_names kw, user_defined_names openai_tool_name (dict_get kw ''tools'' PNone), passthrough_tool_names kw,
                     Inr (map (\<lambda>n. (n, ''user_defined'')) response_tools)]) q
            | _ \<Rightarrow> q)))"

subsection \<open>State\<close>

record writer =
  queues :: spend_queues
  tool_discovery_queue :: tool_queue
  spend_log_transactions :: "payload list"

record batch_args =
  arg_response_cost :: "rat option"
  arg_user_id :: "string option"
  arg_hashed_token :: "string option"
  arg_team_id :: "string option"
  arg_org_id :: "string option"
  arg_end_user_id :: "string option"
  payload_copy :: payload
  arg_request_tags :: pyval

record writer_env =
  prisma_client :: bool \<comment> \<open>is there a database\<close>
  litellm_max_budget_set :: bool \<comment> \<open>\<^verbatim>\<open>litellm.max_budget > 0\<close>\<close>
  litellm_proxy_budget_name :: "string option"
  cached_user :: "string option \<Rightarrow> unit pyres" \<comment> \<open>the read of the user, which may raise\<close>
  text_of :: "pyval \<Rightarrow> string"
  hash_token :: "string \<Rightarrow> string"
  disable_spend_updates :: bool
  disable_spend_logs :: bool

abbreviation fstr :: "writer_env \<Rightarrow> pyval \<Rightarrow> string" where
  "fstr V \<equiv> val_str (text_of V)"

subsection \<open>Spend of the entities\<close>

type_synonym 'q queued = "(unit pyres \<times> 'q) option"

abbreviation skipped :: "'q \<Rightarrow> 'q queued" where
  "skipped q \<equiv> Some (Inr (), q)"

definition cost_item :: "Litellm_EntityType \<Rightarrow> string \<Rightarrow> batch_args \<Rightarrow> SpendUpdateQueueItem" where
  "cost_item t i a = \<lparr>entity_type = Some t, entity_id = Some i, response_cost = arg_response_cost a\<rparr>"

definition enqueue :: "SpendUpdateQueueItem list \<Rightarrow> spend_queues \<Rightarrow> spend_queues queued" where
  "enqueue us w = map_option (\<lambda>(r, q). (r, w\<lparr>spend_update_queue := q\<rparr>)) (add_updates_with spend_agg us (spend_update_queue w))"

definition update_key_db :: "writer_env \<Rightarrow> batch_args \<Rightarrow> spend_queues \<Rightarrow> spend_queues queued" where
  "update_key_db V a w =
     (case arg_hashed_token a of
        None \<Rightarrow> skipped w
      | Some i \<Rightarrow> if \<not> prisma_client V then skipped w else enqueue [cost_item KEY i a] w)"

definition update_user_db :: "writer_env \<Rightarrow> batch_args \<Rightarrow> spend_queues \<Rightarrow> spend_queues queued" where
  "update_user_db V a w =
     (case cached_user V (arg_user_id a) of
        Inl e \<Rightarrow> Some (Inl e, w)
      | Inr _ \<Rightarrow>
        if \<not> prisma_client V then skipped w
        else enqueue
          (List.map_filter (map_option (\<lambda>i. cost_item USER i a))
             (arg_user_id a # (if litellm_max_budget_set V then [litellm_proxy_budget_name V] else [])) @
           (case arg_end_user_id a of None \<Rightarrow> [] | Some i \<Rightarrow> [cost_item END_USER i a])) w)"

definition team_member_key :: "string \<Rightarrow> string \<Rightarrow> string" where
  "team_member_key team_id user_id = ''team_id::'' @ team_id @ ''::user_id::'' @ user_id"

definition update_team_db :: "writer_env \<Rightarrow> batch_args \<Rightarrow> spend_queues \<Rightarrow> spend_queues queued" where
  "update_team_db V a w =
     (case arg_team_id a of
        None \<Rightarrow> skipped w
      | Some t \<Rightarrow>
        if \<not> prisma_client V then skipped w
        else enqueue (cost_item TEAM t a #
          (case arg_user_id a of None \<Rightarrow> [] | Some u \<Rightarrow> [cost_item TEAM_MEMBER (team_member_key t u) a])) w)"

definition update_org_db :: "writer_env \<Rightarrow> batch_args \<Rightarrow> spend_queues \<Rightarrow> spend_queues queued" where
  "update_org_db V a w =
     (case arg_org_id a of
        None \<Rightarrow> skipped w
      | Some i \<Rightarrow> if \<not> prisma_client V then skipped w else enqueue [cost_item ORGANIZATION i a] w)"

text \<open>The strings of a list of tags that are not empty; a JSON text is parsed, and ignored if it is none.\<close>

definition parsed_tags :: "pyval \<Rightarrow> pyval" where
  "parsed_tags v =
     (case v of
        PStr s \<Rightarrow> (case json_loads s of None \<Rightarrow> PList [] | Some x \<Rightarrow> py_or x (PList []))
      | PList _ \<Rightarrow> v
      | _ \<Rightarrow> PList [])"

definition tag_names :: "pyval list \<Rightarrow> string list" where
  "tag_names xs = List.map_filter (\<lambda>v. case v of PStr s \<Rightarrow> if s = [] then None else Some s | _ \<Rightarrow> None) xs"

definition update_tag_db :: "writer_env \<Rightarrow> batch_args \<Rightarrow> spend_queues \<Rightarrow> spend_queues queued" where
  "update_tag_db V a w =
     (if arg_request_tags a = PNone \<or> \<not> prisma_client V then skipped w
      else case iterate (parsed_tags (arg_request_tags a)) of
        Inl e \<Rightarrow> Some (Inl e, w)
      | Inr xs \<Rightarrow> enqueue (map (\<lambda>i. cost_item TAG i a) (tag_names xs)) w)"

definition update_agent_db :: "writer_env \<Rightarrow> batch_args \<Rightarrow> spend_queues \<Rightarrow> spend_queues queued" where
  "update_agent_db V a w =
     (case dict_get (payload_copy a) ''agent_id'' PNone of
        PStr i \<Rightarrow> if \<not> prisma_client V then skipped w else enqueue [cost_item AGENT i a] w
      | _ \<Rightarrow> skipped w)"

subsection \<open>Usage of the day\<close>

definition ROUTE_ENDPOINT_MAPPING :: "(string, string) dict" where
  "ROUTE_ENDPOINT_MAPPING = [
    (''acompletion'', ''/chat/completions''), (''atext_completion'', ''/completions''), (''aembedding'', ''/embeddings''),
    (''aimage_generation'', ''/image/generations''), (''aspeech'', ''/audio/speech''),
    (''atranscription'', ''/audio/transcriptions''), (''amoderation'', ''/moderations''), (''arerank'', ''/rerank''),
    (''aresponses'', ''/responses''), (''_aresponses_websocket'', ''/responses''),
    (''alist_input_items'', ''/responses/{response_id}/input_items''), (''aimage_edit'', ''/images/edits''),
    (''acancel_responses'', ''/responses/{response_id}/cancel''), (''acompact_responses'', ''/responses/compact''),
    (''aocr'', ''/ocr''), (''asearch'', ''/search''), (''avideo_generation'', ''/videos''), (''avideo_list'', ''/videos''),
    (''avideo_status'', ''/videos/{video_id}''), (''avideo_content'', ''/videos/{video_id}/content''),
    (''avideo_remix'', ''/videos/{video_id}/remix''), (''acreate_realtime_client_secret'', ''/realtime/client_secrets''),
    (''arealtime_calls'', ''/realtime/calls''), (''acreate_container'', ''/containers''),
    (''alist_containers'', ''/containers''), (''aretrieve_container'', ''/containers/{container_id}''),
    (''adelete_container'', ''/containers/{container_id}''),
    (''aupload_container_file'', ''/containers/{container_id}/files''),
    (''alist_container_files'', ''/containers/{container_id}/files''),
    (''aretrieve_container_file'', ''/containers/{container_id}/files/{file_id}''),
    (''adelete_container_file'', ''/containers/{container_id}/files/{file_id}''),
    (''aretrieve_container_file_content'', ''/containers/{container_id}/files/{file_id}/content''),
    (''acreate_skill'', ''/skills''), (''alist_skills'', ''/skills''), (''aget_skill'', ''/skills/{skill_id}''),
    (''adelete_skill'', ''/skills/{skill_id}''), (''aingest'', ''/rag/ingest''), (''acreate_interaction'', ''/interactions''),
    (''aget_interaction'', ''/interactions/{interaction_id}''), (''adelete_interaction'', ''/interactions/{interaction_id}''),
    (''acancel_interaction'', ''/interactions/{interaction_id}/cancel''), (''acreate_eval'', ''/evals''),
    (''alist_evals'', ''/evals''), (''aget_eval'', ''/evals/{eval_id}''), (''aupdate_eval'', ''/evals/{eval_id}''),
    (''adelete_eval'', ''/evals/{eval_id}''), (''acancel_eval'', ''/evals/{eval_id}/cancel''),
    (''acreate_run'', ''/evals/{eval_id}/runs''), (''alist_runs'', ''/evals/{eval_id}/runs''),
    (''aget_run'', ''/evals/{eval_id}/runs/{run_id}''), (''acancel_run'', ''/evals/{eval_id}/runs/{run_id}/cancel''),
    (''adelete_run'', ''/evals/{eval_id}/runs/{run_id}'')]"

definition get_request_status :: "payload \<Rightarrow> string" where
  "get_request_status p =
     (let status = (\<lambda>m. case m of PDict d \<Rightarrow> if dict_get d ''status'' PNone = PStr ''failure'' then ''failure'' else ''success''
                        | _ \<Rightarrow> ''success'') in
      case dict_get p ''metadata'' (PDict []) of
        PStr s \<Rightarrow> (case json_loads s of None \<Rightarrow> ''success'' | Some m \<Rightarrow> status m)
      | m \<Rightarrow> status m)"

definition int_or_0 :: "pyval \<Rightarrow> int" where
  "int_or_0 v = (case as_int v of None \<Rightarrow> 0 | Some n \<Rightarrow> n)"

definition rat_or_0 :: "pyval \<Rightarrow> rat" where
  "rat_or_0 v = (case as_rat v of None \<Rightarrow> 0 | Some q \<Rightarrow> q)"

text \<open>\<^verbatim>\<open>payload[key]\<close>.\<close>

definition item_of :: "payload \<Rightarrow> string \<Rightarrow> pyval pyres" where
  "item_of p k = (case map_of p k of None \<Rightarrow> Inl KeyError | Some v \<Rightarrow> Inr v)"

definition expected_key :: "daily_kind \<Rightarrow> string" where
  "expected_key k =
     (case k of DailyUser \<Rightarrow> ''user'' | DailyTeam \<Rightarrow> ''team_id'' | DailyOrg \<Rightarrow> ''organization_id'' | DailyTag \<Rightarrow> ''request_tags''
      | DailyEndUser \<Rightarrow> ''end_user_id'' | DailyAgent \<Rightarrow> ''agent_id'')"

definition usage_object :: "payload \<Rightarrow> pyval pyres" where
  "usage_object p =
     (case item_of p ''metadata'' of
        Inl e \<Rightarrow> Inl e
      | Inr (PStr s) \<Rightarrow>
        (case json_loads s of
           None \<Rightarrow> Inl ValueError
         | Some (PDict m) \<Rightarrow> Inr (py_or (dict_get m ''usage_object'' (PDict [])) (PDict []))
         | Some _ \<Rightarrow> Inl AttributeError)
      | Inr _ \<Rightarrow> Inl TypeError)"

definition common_daily_transaction :: "payload \<Rightarrow> daily_kind \<Rightarrow> BaseDailySpendTransaction option pyres" where
  "common_daily_transaction p k =
     (if \<not> (\<forall>key \<in> set [expected_key k, ''startTime'', ''api_key'']. map_of p key \<noteq> None) then Inr None
      else if map_of p ''model'' = None \<and> map_of p ''mcp_namespaced_tool_name'' = None then Inr None
      else if map_of p ''mcp_namespaced_tool_name'' = None \<and> (map_of p ''custom_llm_provider'' = None \<or> map_of p ''model_group'' = None) then Inr None
      else case usage_object p of
        Inl e \<Rightarrow> Inl e
      | Inr usage_obj \<Rightarrow>
        (case dict_get p ''startTime'' PNone of
           PStr start_time \<Rightarrow>
             (case (item_of p ''prompt_tokens'', item_of p ''completion_tokens'', item_of p ''spend'', usage_obj) of
                (Inr prompt, Inr completion, Inr spend, PDict usage) \<Rightarrow>
                  Inr (Some \<lparr>tx_date = hd (split_on (CHR ''T'') start_time), api_key = or_empty (opt_str (dict_get p ''api_key'' PNone)),
                    tx_model = opt_str (dict_get p ''model'' PNone), model_group = opt_str (dict_get p ''model_group'' PNone),
                    mcp_namespaced_tool_name = opt_str (dict_get p ''mcp_namespaced_tool_name'' PNone),
                    custom_llm_provider = opt_str (dict_get p ''custom_llm_provider'' PNone),
                    endpoint = (case dict_get p ''call_type'' PNone of PStr c \<Rightarrow> map_of ROUTE_ENDPOINT_MAPPING c | _ \<Rightarrow> None),
                    prompt_tokens = int_or_0 prompt, completion_tokens = int_or_0 completion,
                    cache_read_input_tokens = Some (Some (int_or_0 (dict_get usage ''cache_read_input_tokens'' (PInt 0)))),
                    cache_creation_input_tokens = Some (Some (int_or_0 (dict_get usage ''cache_creation_input_tokens'' (PInt 0)))),
                    tx_spend = rat_or_0 spend, api_requests = 1,
                    successful_requests = (if get_request_status p = ''success'' then 1 else 0),
                    failed_requests = (if get_request_status p \<noteq> ''success'' then 1 else 0),
                    tx_entity = None, tx_request_id = None\<rparr>)
              | (Inr _, Inr _, Inr _, _) \<Rightarrow> Inl AttributeError
              | _ \<Rightarrow> Inl KeyError)
         | _ \<Rightarrow> Inr None))"

text \<open>\<^verbatim>\<open>f"{id}_{date}_{api_key}_{model}_{custom_llm_provider}_{endpoint}"\<close>.\<close>

definition daily_transaction_key :: "writer_env \<Rightarrow> payload \<Rightarrow> string \<Rightarrow> BaseDailySpendTransaction \<Rightarrow> string pyres" where
  "daily_transaction_key V p i t =
     (case (item_of p ''api_key'', item_of p ''model'', item_of p ''custom_llm_provider'') of
        (Inr k, Inr m, Inr q) \<Rightarrow>
          Inr (i @ ''_'' @ tx_date t @ ''_'' @ fstr V k @ ''_'' @ fstr V m @ ''_'' @ fstr V q @ ''_'' @ or_empty (endpoint t))
      | _ \<Rightarrow> Inl KeyError)"

definition enqueue_daily :: "daily_kind \<Rightarrow> daily_update list \<Rightarrow> spend_queues \<Rightarrow> spend_queues queued" where
  "enqueue_daily k us w = map_option (\<lambda>(r, q). (r, w\<lparr>daily_queue := (daily_queue w)(k := q)\<rparr>)) (add_updates_with daily_agg us (daily_queue w k))"

text \<open>The entity of a table and its id as text, for all tables but that of tags.\<close>

definition add_daily :: "writer_env \<Rightarrow> daily_kind \<Rightarrow> payload \<Rightarrow> pyval \<Rightarrow> BaseDailySpendTransaction \<Rightarrow> spend_queues \<Rightarrow> spend_queues queued" where
  "add_daily V k p i t w =
     (case daily_transaction_key V p (fstr V i) t of
        Inl e \<Rightarrow> Some (Inl e, w)
      | Inr key \<Rightarrow> enqueue_daily k [[(key, t\<lparr>tx_entity := opt_str i\<rparr>)]] w)"

definition add_daily_user :: "writer_env \<Rightarrow> payload \<Rightarrow> spend_queues \<Rightarrow> spend_queues queued" where
  "add_daily_user V p w =
     (if \<not> prisma_client V then skipped w
      else case common_daily_transaction p DailyUser of
        Inl e \<Rightarrow> Some (Inl e, w)
      | Inr None \<Rightarrow> skipped w
      | Inr (Some t) \<Rightarrow> add_daily V DailyUser p (dict_get p ''user'' PNone) t w)"

definition add_daily_team :: "writer_env \<Rightarrow> payload \<Rightarrow> spend_queues \<Rightarrow> spend_queues queued" where
  "add_daily_team V p w =
     (if \<not> prisma_client V then skipped w
      else case common_daily_transaction p DailyTeam of
        Inl e \<Rightarrow> Some (Inl e, w)
      | Inr None \<Rightarrow> skipped w
      | Inr (Some t) \<Rightarrow>
        if dict_get p ''team_id'' PNone = PNone then skipped w else add_daily V DailyTeam p (dict_get p ''team_id'' PNone) t w)"

definition add_daily_org :: "writer_env \<Rightarrow> payload \<Rightarrow> string option \<Rightarrow> spend_queues \<Rightarrow> spend_queues queued" where
  "add_daily_org V p org_id w =
     (if \<not> prisma_client V then skipped w
      else case org_id of
        None \<Rightarrow> skipped w
      | Some i \<Rightarrow>
        let p1 = AList.update ''organization_id'' (PStr i) p in
        (case common_daily_transaction p1 DailyOrg of
           Inl e \<Rightarrow> Some (Inl e, w)
         | Inr None \<Rightarrow> skipped w
         | Inr (Some t) \<Rightarrow> add_daily V DailyOrg p1 (PStr i) t w))"

definition add_daily_end_user :: "writer_env \<Rightarrow> payload \<Rightarrow> spend_queues \<Rightarrow> spend_queues queued" where
  "add_daily_end_user V p w =
     (if \<not> prisma_client V then skipped w
      else let i = dict_get p ''end_user'' PNone in
        if i = PNone \<or> i = PStr [] then skipped w
        else let p1 = AList.update ''end_user_id'' i p in
          (case common_daily_transaction p1 DailyEndUser of
             Inl e \<Rightarrow> Some (Inl e, w)
           | Inr None \<Rightarrow> skipped w
           | Inr (Some t) \<Rightarrow> add_daily V DailyEndUser p1 i t w))"

definition add_daily_agent :: "writer_env \<Rightarrow> payload \<Rightarrow> spend_queues \<Rightarrow> spend_queues queued" where
  "add_daily_agent V p w =
     (if \<not> prisma_client V then skipped w
      else case item_of p ''agent_id'' of
        Inl e \<Rightarrow> Some (Inl e, w)
      | Inr i \<Rightarrow>
        if i = PNone then skipped w
        else case common_daily_transaction p DailyAgent of
          Inl e \<Rightarrow> Some (Inl e, w)
        | Inr None \<Rightarrow> skipped w
        | Inr (Some t) \<Rightarrow> add_daily V DailyAgent p i t w)"

fun daily_tag_loop :: "writer_env \<Rightarrow> payload \<Rightarrow> BaseDailySpendTransaction \<Rightarrow> pyval list \<Rightarrow> spend_queues \<Rightarrow> spend_queues queued" where
  "daily_tag_loop V p t [] w = skipped w"
| "daily_tag_loop V p t (tag # tags) w =
     (case (daily_transaction_key V p (fstr V tag) t, item_of p ''request_id'') of
        (Inr key, Inr request_id) \<Rightarrow>
          (case enqueue_daily DailyTag [[(key, t\<lparr>tx_entity := opt_str tag, tx_request_id := Some (opt_str request_id)\<rparr>)]] w of
             None \<Rightarrow> None
           | Some (Inl e, w1) \<Rightarrow> Some (Inl e, w1)
           | Some (Inr _, w1) \<Rightarrow> daily_tag_loop V p t tags w1)
      | _ \<Rightarrow> Some (Inl KeyError, w))"

definition add_daily_tag :: "writer_env \<Rightarrow> payload \<Rightarrow> spend_queues \<Rightarrow> spend_queues queued" where
  "add_daily_tag V p w =
     (if \<not> prisma_client V then skipped w
      else case common_daily_transaction p DailyTag of
        Inl e \<Rightarrow> Some (Inl e, w)
      | Inr None \<Rightarrow> skipped w
      | Inr (Some t) \<Rightarrow>
        (case dict_get p ''request_tags'' PNone of
           PNone \<Rightarrow> skipped w
         | PStr s \<Rightarrow>
           (case json_loads s of
              None \<Rightarrow> Some (Inl ValueError, w)
            | Some v \<Rightarrow> (case iterate v of Inl e \<Rightarrow> Some (Inl e, w) | Inr tags \<Rightarrow> daily_tag_loop V p t tags w))
         | PList tags \<Rightarrow> daily_tag_loop V p t tags w
         | _ \<Rightarrow> Some (Inl ValueError, w)))"

subsection \<open>A request\<close>

text \<open>The helpers run one after the other, each in its own \<^verbatim>\<open>try\<close>.\<close>

fun run_helpers :: "(spend_queues \<Rightarrow> spend_queues queued) list \<Rightarrow> spend_queues \<Rightarrow> spend_queues option" where
  "run_helpers [] w = Some w"
| "run_helpers (h # hs) w = (case h w of None \<Rightarrow> None | Some (_, w1) \<Rightarrow> run_helpers hs w1)"

definition batch_database_updates :: "writer_env \<Rightarrow> batch_args \<Rightarrow> spend_queues \<Rightarrow> spend_queues option" where
  "batch_database_updates V a =
     run_helpers
       [update_user_db V a, update_key_db V a, update_team_db V a, update_org_db V a, update_tag_db V a, update_agent_db V a,
        add_daily_user V (payload_copy a), add_daily_end_user V (payload_copy a), add_daily_agent V (payload_copy a),
        add_daily_team V (payload_copy a), add_daily_org V (payload_copy a) (arg_org_id a), add_daily_tag V (payload_copy a)]"

definition insert_spend_log_to_db :: "writer_env \<Rightarrow> payload \<Rightarrow> writer \<Rightarrow> writer" where
  "insert_spend_log_to_db V p w =
     (if prisma_client V then w\<lparr>spend_log_transactions := spend_log_transactions w @ [p]\<rparr> else w)"

text \<open>The payload with the spend and the ids of the request.\<close>

definition completed_payload :: "payload \<Rightarrow> rat option \<Rightarrow> string option \<Rightarrow> string option \<Rightarrow> payload" where
  "completed_payload p paid org_id team_id =
     (let p1 = AList.update ''spend'' (PFloat (case paid of None \<Rightarrow> 0 | Some c \<Rightarrow> c)) p;
          p2 = (if org_id \<noteq> None \<and> org_id \<noteq> Some [] then AList.update ''organization_id'' (PStr (the org_id)) p1 else p1) in
      if team_id \<noteq> None \<and> team_id \<noteq> Some [] then AList.update ''team_id'' (PStr (the team_id)) p2 else p2)"

text \<open>The state after the call and the arguments of the task it schedules; an exception is only logged.\<close>

definition update_database ::
  "writer_env \<Rightarrow> string option \<Rightarrow> string option \<Rightarrow> string option \<Rightarrow> string option \<Rightarrow> string option \<Rightarrow> payload pyres \<Rightarrow> rat option \<Rightarrow>
    payload option \<Rightarrow> string list \<Rightarrow> writer \<Rightarrow> batch_args option \<times> writer" where
  "update_database V token user_id end_user_id team_id org_id logging_payload paid kwargs response_tools w =
     (if disable_spend_updates V then (None, w)
      else let hashed_token = map_option (\<lambda>t. if starts_with ''sk-'' t then hash_token V t else t) token in
        case logging_payload of
          Inl _ \<Rightarrow> (None, w)
        | Inr p0 \<Rightarrow>
          let p = completed_payload p0 paid org_id team_id;
              w1 = (if disable_spend_logs V then w else insert_spend_log_to_db V p w) in
          (Some \<lparr>arg_response_cost = paid, arg_user_id = user_id, arg_hashed_token = hashed_token, arg_team_id = team_id,
             arg_org_id = org_id, arg_end_user_id = end_user_id, payload_copy = p,
             arg_request_tags = dict_get p ''request_tags'' PNone\<rparr>, 
           w1\<lparr>tool_discovery_queue := enqueue_tool_registry_upsert kwargs response_tools hashed_token team_id (tool_discovery_queue w1)\<rparr>))"

subsection \<open>What a request adds\<close>

definition user_items :: "writer_env \<Rightarrow> batch_args \<Rightarrow> SpendUpdateQueueItem list" where
  "user_items V a = List.map_filter (map_option (\<lambda>i. cost_item USER i a))
     (arg_user_id a # (if litellm_max_budget_set V then [litellm_proxy_budget_name V] else []))"

definition items_for :: "Litellm_EntityType \<Rightarrow> string option \<Rightarrow> batch_args \<Rightarrow> SpendUpdateQueueItem list" where
  "items_for t i a = (case i of None \<Rightarrow> [] | Some x \<Rightarrow> [cost_item t x a])"

definition request_tag_names :: "batch_args \<Rightarrow> string list" where
  "request_tag_names a = (case iterate (parsed_tags (arg_request_tags a)) of Inl _ \<Rightarrow> [] | Inr xs \<Rightarrow> tag_names xs)"

definition member_id :: "batch_args \<Rightarrow> string option" where
  "member_id a = (case (arg_team_id a, arg_user_id a) of (Some t, Some u) \<Rightarrow> Some (team_member_key t u) | _ \<Rightarrow> None)"

definition agent_id :: "batch_args \<Rightarrow> string option" where
  "agent_id a = opt_str (dict_get (payload_copy a) ''agent_id'' PNone)"

definition request_items :: "writer_env \<Rightarrow> batch_args \<Rightarrow> SpendUpdateQueueItem list" where
  "request_items V a =
     user_items V a @ items_for END_USER (arg_end_user_id a) a @ items_for KEY (arg_hashed_token a) a @
     items_for TEAM (arg_team_id a) a @ items_for TEAM_MEMBER (member_id a) a @ items_for ORGANIZATION (arg_org_id a) a @
     map (\<lambda>i. cost_item TAG i a) (request_tag_names a) @ items_for AGENT (agent_id a) a"

lemma spend_adds_return: "add_updates_with spend_agg us q = Some (r, q') \<Longrightarrow> r = Inr ()"
proof (induction us arbitrary: q)
  case (Cons u us)
  have "x = Inr ()" if "add_update_with spend_agg u q = Some (x, q1)" for x q1
    using that by (auto simp: add_update_with_def aggregate_queue_with_def spend_agg_def split: option.splits if_splits prod.splits)
  then show ?case using Cons by (auto split: option.splits prod.splits sum.splits)
qed simp

lemma adds_append:
  "add_updates_with agg (us @ vs) q =
     (case add_updates_with agg us q of Some (Inr _, q1) \<Rightarrow> add_updates_with agg vs q1 | x \<Rightarrow> x)"
  by (induction us arbitrary: q) (auto split: option.split prod.split sum.split)

text \<open>A helper that adds the items \<open>us\<close> to the queue of spend updates and nothing else to it.\<close>

definition helper_adds :: "(spend_queues \<Rightarrow> spend_queues queued) \<Rightarrow> SpendUpdateQueueItem list \<Rightarrow> bool" where
  "helper_adds h us \<longleftrightarrow> (\<forall>w res w'. h w = Some (res, w') \<longrightarrow>
     add_updates_with spend_agg us (spend_update_queue w) = Some (Inr (), spend_update_queue w'))"

lemma helpers_add:
  "list_all2 helper_adds hs uss \<Longrightarrow> run_helpers hs w = Some w' \<Longrightarrow>
   add_updates_with spend_agg (concat uss) (spend_update_queue w) = Some (Inr (), spend_update_queue w')"
proof (induction hs uss arbitrary: w rule: list_all2_induct)
  case (Cons h hs us uss)
  obtain res w1 where w1: "h w = Some (res, w1)" "run_helpers hs w1 = Some w'"
    using Cons.prems by (auto split: option.splits)
  then show ?case using Cons by (simp add: helper_adds_def adds_append)
qed simp

lemma enqueue_adds: "helper_adds (enqueue us) us"
  by (auto simp: helper_adds_def enqueue_def dest: spend_adds_return)

lemma spend_helpers_add:
  assumes "prisma_client V" "cached_user V (arg_user_id a) = Inr ()"
  shows "helper_adds (update_user_db V a) (user_items V a @ items_for END_USER (arg_end_user_id a) a)"
    "helper_adds (update_key_db V a) (items_for KEY (arg_hashed_token a) a)"
    "helper_adds (update_team_db V a) (items_for TEAM (arg_team_id a) a @ items_for TEAM_MEMBER (member_id a) a)"
    "helper_adds (update_org_db V a) (items_for ORGANIZATION (arg_org_id a) a)"
    "helper_adds (update_tag_db V a) (map (\<lambda>i. cost_item TAG i a) (request_tag_names a))"
    "helper_adds (update_agent_db V a) (items_for AGENT (agent_id a) a)"
proof -
  have skip: "helper_adds h []" if "\<And>w. \<exists>x. h w = Some (x, w)" for h
    unfolding helper_adds_def using that by (metis add_updates_with.simps(1) option.inject prod.inject)
  have enq: "helper_adds h us" if "\<And>w. h w = enqueue us w" for h us
    using enqueue_adds [of us] unfolding helper_adds_def that by blast
  show "helper_adds (update_user_db V a) (user_items V a @ items_for END_USER (arg_end_user_id a) a)"
    by (rule enq) (simp add: update_user_db_def assms user_items_def items_for_def)
  show "helper_adds (update_key_db V a) (items_for KEY (arg_hashed_token a) a)"
    by (cases "arg_hashed_token a") (auto simp: update_key_db_def assms items_for_def intro: skip enq)
  show "helper_adds (update_team_db V a) (items_for TEAM (arg_team_id a) a @ items_for TEAM_MEMBER (member_id a) a)"
    by (cases "arg_team_id a"; cases "arg_user_id a") (auto simp: update_team_db_def assms items_for_def member_id_def intro: skip enq)
  show "helper_adds (update_org_db V a) (items_for ORGANIZATION (arg_org_id a) a)"
    by (cases "arg_org_id a") (auto simp: update_org_db_def assms items_for_def intro: skip enq)
  show "helper_adds (update_tag_db V a) (map (\<lambda>i. cost_item TAG i a) (request_tag_names a))"
    by (cases "arg_request_tags a = PNone"; cases "iterate (parsed_tags (arg_request_tags a))")
      (auto simp: update_tag_db_def assms request_tag_names_def parsed_tags_def iterate_def tag_names_def List.map_filter_def intro: skip enq)
  show "helper_adds (update_agent_db V a) (items_for AGENT (agent_id a) a)"
    by (cases "dict_get (payload_copy a) ''agent_id'' PNone")
      (auto simp: update_agent_db_def assms items_for_def agent_id_def opt_str_def intro: skip enq)
qed

text \<open>The daily helpers leave the queue of spend updates alone.\<close>

definition keeps_spend :: "(spend_queues \<Rightarrow> spend_queues queued) \<Rightarrow> bool" where
  "keeps_spend h \<longleftrightarrow> (\<forall>w res w'. h w = Some (res, w') \<longrightarrow> spend_update_queue w' = spend_update_queue w)"

lemma keeps_adds: "keeps_spend h \<Longrightarrow> helper_adds h []"
  by (auto simp: keeps_spend_def helper_adds_def)

lemma enqueue_daily_keeps: "enqueue_daily k us w = Some (res, w') \<Longrightarrow> spend_update_queue w' = spend_update_queue w"
  by (auto simp: enqueue_daily_def)

lemma add_daily_keeps: "add_daily V k p i t w = Some (res, w') \<Longrightarrow> spend_update_queue w' = spend_update_queue w"
  by (auto simp: add_daily_def dest: enqueue_daily_keeps split: sum.splits)

lemma daily_tag_loop_keeps: "daily_tag_loop V p t tags w = Some (res, w') \<Longrightarrow> spend_update_queue w' = spend_update_queue w"
proof (induction tags arbitrary: w)
  case (Cons tag tags)
  then show ?case by (auto split: sum.splits option.splits prod.splits dest!: enqueue_daily_keeps)
qed simp

lemma daily_helpers_keep:
  "keeps_spend (add_daily_user V p)" "keeps_spend (add_daily_end_user V p)" "keeps_spend (add_daily_agent V p)"
  "keeps_spend (add_daily_team V p)" "keeps_spend (add_daily_org V p org)" "keeps_spend (add_daily_tag V p)"
  unfolding keeps_spend_def add_daily_user_def add_daily_end_user_def add_daily_agent_def add_daily_team_def add_daily_org_def add_daily_tag_def Let_def
  by (auto split: if_splits sum.splits option.splits pyval.splits dest: add_daily_keeps daily_tag_loop_keeps)

lemma batch_adds_items:
  assumes "prisma_client V" "cached_user V (arg_user_id a) = Inr ()" "batch_database_updates V a w = Some w'"
  shows "add_updates_with spend_agg (request_items V a) (spend_update_queue w) = Some (Inr (), spend_update_queue w')"
proof -
  let ?uss = "[user_items V a @ items_for END_USER (arg_end_user_id a) a, items_for KEY (arg_hashed_token a) a,
    items_for TEAM (arg_team_id a) a @ items_for TEAM_MEMBER (member_id a) a, items_for ORGANIZATION (arg_org_id a) a,
    map (\<lambda>i. cost_item TAG i a) (request_tag_names a), items_for AGENT (agent_id a) a, [], [], [], [], [], []]"
  have e: "request_items V a = concat ?uss" by (simp add: request_items_def)
  show ?thesis unfolding e
    by (rule helpers_add [OF _ assms(3) [unfolded batch_database_updates_def]])
      (simp add: spend_helpers_add [OF assms(1,2)] daily_helpers_keep keeps_adds)
qed

subsection \<open>Properties\<close>

text \<open>The cost that is due to an entity, as the request names it.\<close>

definition due :: "writer_env \<Rightarrow> batch_args \<Rightarrow> Litellm_EntityType \<Rightarrow> string \<Rightarrow> rat" where
  "due V a t i =
     (case arg_response_cost a of None \<Rightarrow> 0 | Some c \<Rightarrow> c) *
     (case t of KEY \<Rightarrow> of_bool (arg_hashed_token a = Some i)
      | USER \<Rightarrow> of_bool (arg_user_id a = Some i) + of_bool (litellm_max_budget_set V \<and> litellm_proxy_budget_name V = Some i)
      | END_USER \<Rightarrow> of_bool (arg_end_user_id a = Some i) | TEAM \<Rightarrow> of_bool (arg_team_id a = Some i)
      | TEAM_MEMBER \<Rightarrow> of_bool (member_id a = Some i) | ORGANIZATION \<Rightarrow> of_bool (arg_org_id a = Some i)
      | TAG \<Rightarrow> of_nat (count_list (request_tag_names a) i) | AGENT \<Rightarrow> of_bool (agent_id a = Some i)
      | PROJECT \<Rightarrow> 0 | PROXY \<Rightarrow> 0)"

lemma items_spent: "(\<Sum>u\<leftarrow>request_items V a. spent (t, i) u) = due V a t i"
proof -
  let ?c = "case arg_response_cost a of None \<Rightarrow> 0 | Some c \<Rightarrow> c"
  have one: "spent (t, i) (cost_item s x a) = (if s = t \<and> x = i then ?c else 0)" for s x t
    by (simp add: spent_def cost_item_def id_or_empty_def cost_def)
  have opt: "(\<Sum>u\<leftarrow>items_for s x a. spent (t, i) u) = (if s = t \<and> x = Some i then ?c else 0)" for s x t
    by (auto simp: items_for_def one split: option.split)
  have tags: "(\<Sum>x\<leftarrow>xs. spent (t, i) (cost_item TAG x a)) = (if t = TAG then ?c * of_nat (count_list xs i) else 0)" for xs t
    by (induction xs) (auto simp: one algebra_simps)
  have user: "(\<Sum>u\<leftarrow>user_items V a. spent (t, i) u) = (if t = USER then ?c * (of_bool (arg_user_id a = Some i) +
      of_bool (litellm_max_budget_set V \<and> litellm_proxy_budget_name V = Some i)) else 0)" for t
    by (cases "arg_user_id a"; cases "litellm_proxy_budget_name V") (auto simp: user_items_def one List.map_filter_def algebra_simps)
  show ?thesis
    by (cases t) (simp_all add: request_items_def opt tags user due_def comp_def)
qed

text \<open>
  Property C12. A finished request is booked in full: when its task has run, the queue holds for every entity
  what it held before plus the cost of the request, once for its key, user, team, team member,
  organization, agent and end user, once for each of its tags, once more for the user that stands for the
  proxy if there is a global budget, and nothing for any other entity.
\<close>

theorem request_booked_on_entities:
  assumes "prisma_client V" "cached_user V (arg_user_id a) = Inr ()" "batch_database_updates V a w = Some w'"
    and "list_all proper_id (request_items V a)" "list_all proper_id (spend_update_queue w)"
    and "length (spend_update_queue w) \<le> LITELLM_ASYNCIO_QUEUE_MAXSIZE"
  shows "(\<Sum>u\<leftarrow>spend_update_queue w'. spent (t, i) u) = due V a t i + (\<Sum>u\<leftarrow>spend_update_queue w. spent (t, i) u)"
  using spendq.add_updates_total [OF assms(4,5,6) batch_adds_items [OF assms(1-3)]] items_spent [of t i V a] by simp

definition plain_writer_env :: writer_env where
  "plain_writer_env = \<lparr>prisma_client = True, litellm_max_budget_set = True, litellm_proxy_budget_name = Some ''litellm-proxy-budget'',
     cached_user = (\<lambda>_. Inr ()), text_of = (\<lambda>_. []), hash_token = id, disable_spend_updates = False, disable_spend_logs = False\<rparr>"

definition plain_args :: batch_args where
  "plain_args = \<lparr>arg_response_cost = Some 2, arg_user_id = Some ''u'', arg_hashed_token = Some ''k'', arg_team_id = Some ''t'',
     arg_org_id = None, arg_end_user_id = None, payload_copy = [(''agent_id'', PNone)], arg_request_tags = PList [PStr ''x'', PStr ''y'', PStr ''x'']\<rparr>"

definition no_queues :: spend_queues where
  "no_queues = \<lparr>spend_update_queue = [], daily_queue = \<lambda>_. []\<rparr>"

theorem request_booked_on_entities_witness:
  "\<exists>w'. batch_database_updates plain_writer_env plain_args no_queues = Some w' \<and>
     (\<Sum>u\<leftarrow>spend_update_queue w'. spent (TAG, ''x'') u) = 4 \<and>
     (\<Sum>u\<leftarrow>spend_update_queue w'. spent (TEAM_MEMBER, ''team_id::t::user_id::u'') u) = 2"
proof -
  have "(case batch_database_updates plain_writer_env plain_args no_queues of None \<Rightarrow> False | Some _ \<Rightarrow> True)" by code_simp
  then obtain w' where w': "batch_database_updates plain_writer_env plain_args no_queues = Some w'"
    by (cases "batch_database_updates plain_writer_env plain_args no_queues") auto
  have p: "prisma_client plain_writer_env" "cached_user plain_writer_env (arg_user_id plain_args) = Inr ()"
    "list_all proper_id (spend_update_queue no_queues)" "length (spend_update_queue no_queues) \<le> LITELLM_ASYNCIO_QUEUE_MAXSIZE"
    "spend_update_queue no_queues = []"
    by (simp_all add: plain_writer_env_def no_queues_def)
  have i: "list_all proper_id (request_items plain_writer_env plain_args)" by code_simp
  have d: "due plain_writer_env plain_args TAG ''x'' = 4" "due plain_writer_env plain_args TEAM_MEMBER ''team_id::t::user_id::u'' = 2"
    by code_simp+
  show ?thesis
    using w' request_booked_on_entities [OF p(1,2) w' i p(3,4), of TAG "''x''"]
      request_booked_on_entities [OF p(1,2) w' i p(3,4), of TEAM_MEMBER "''team_id::t::user_id::u''"]
    by (simp add: d p(5))
qed

text \<open>A request is one step of a fleet, with the updates of its task.\<close>

lemma request_is_step:
  assumes "prisma_client V" "cached_user V (arg_user_id a) = Inr ()" "i < length (pods f)" "batch_database_updates V a (pods f ! i) = Some w'"
    and "list_all proper_id (request_items V a)"
  shows "fleet_step bops contents ops spend cops f
    (f\<lparr>pods := (pods f)[i := (pods f ! i)\<lparr>spend_update_queue := spend_update_queue w'\<rparr>],
       booked := \<lambda>r. booked f r + (\<Sum>u\<leftarrow>request_items V a. row_cost r u)\<rparr>)"
  by (rule fleet_request [OF assms(3,5) batch_adds_items [OF assms(1,2,4)]])

text \<open>A tool is queued once between two flushes, however often it is called.\<close>

definition tool_inv :: "tool_queue \<Rightarrow> bool" where
  "tool_inv q \<longleftrightarrow> distinct (map tool_name (pending q)) \<and> set (map tool_name (pending q)) = set (seen_tool_names q)"

lemma tool_queue_deduplicates:
  "tool_inv q \<Longrightarrow> tool_inv (enqueue_tool_registry_upsert kwargs response_tools h t q)"
  "tool_inv (snd (tool_flush q))"
proof -
  have "tool_inv q \<Longrightarrow> tool_inv (tool_add_update x q)" for x q
    by (auto simp: tool_inv_def tool_add_update_def)
  then have "tool_inv q \<Longrightarrow> tool_inv (fold (\<lambda>(n, origin). tool_add_update (f n origin)) xs q)" for f xs q
    by (induction xs arbitrary: q) auto
  then show "tool_inv q \<Longrightarrow> tool_inv (enqueue_tool_registry_upsert kwargs response_tools h t q)"
    unfolding enqueue_tool_registry_upsert_def by (auto split: option.split sum.split pyval.split)
  show "tool_inv (snd (tool_flush q))" by (simp add: tool_inv_def tool_flush_def)
qed

text \<open>
  The key of a daily transaction leaves out the name of the tool, which the unique constraint of the tables has:
  two requests that differ in their tools are aggregated into one row, that of the first.
\<close>

lemma tool_not_in_daily_key:
  "daily_transaction_key V (AList.update ''mcp_namespaced_tool_name'' x p) i t = daily_transaction_key V p i t"
  by (simp add: daily_transaction_key_def item_of_def update_conv')

end
