(* ===== verification/SpendLogs.thy ===== *)
theory SpendLogs
  imports SpendWriter
begin

text \<open>
  The spend logs of \<^verbatim>\<open>proxy/utils.py\<close> (\<^verbatim>\<open>update_spend_logs\<close>, \<^verbatim>\<open>update_spend_logs_job\<close>, \<^verbatim>\<open>_monitor_spend_logs_queue\<close> and
  \<^verbatim>\<open>update_spend\<close>): the list that \<open>SpendWriter\<close> appends to is written to the database in batches, by a job that
  a monitor starts at growing intervals. The table is a parameter (\<open>log_ops\<close>), as is the service that may take
  the logs instead; \<open>log_laws\<close> states that \<^verbatim>\<open>create_many\<close> with \<^verbatim>\<open>skip_duplicates\<close> adds the rows that are not there and
  that a call that raises adds none. Usage tracking of guardrails and tools, which reads the same logs, is
  left out.
\<close>

subsection \<open>Operations\<close>

definition LOG_BATCH_SIZE :: nat where
  "LOG_BATCH_SIZE = 1000"

definition MAX_LOGS_PER_INTERVAL :: nat where
  "MAX_LOGS_PER_INTERVAL = 10000"

record 'd log_ops =
  create_many :: "payload list \<Rightarrow> 'd \<Rightarrow> unit pyres \<times> 'd"
  post_logs :: "(payload list \<Rightarrow> 'd \<Rightarrow> int pyres \<times> 'd) option" \<comment> \<open>\<^verbatim>\<open>SPEND_LOGS_URL\<close> and a client: the status code\<close>

text \<open>\<^verbatim>\<open>for j in range(0, len(logs_to_process), BATCH_SIZE)\<close>.\<close>

function write_batches :: "'d log_ops \<Rightarrow> payload list \<Rightarrow> 'd \<Rightarrow> unit pyres \<times> 'd" where
  "write_batches ops logs d =
     (if logs = [] then (Inr (), d)
      else case create_many ops (take LOG_BATCH_SIZE logs) d of
        (Inl e, d1) \<Rightarrow> (Inl e, d1)
      | (Inr _, d1) \<Rightarrow> write_batches ops (drop LOG_BATCH_SIZE logs) d1)"
  by pat_completeness auto
termination by (relation "measure (\<lambda>(_, logs, _). length logs)") (auto simp: LOG_BATCH_SIZE_def)

declare write_batches.simps [simp del]

text \<open>One attempt; any status code of the service ends the loop.\<close>

definition write_logs :: "'d log_ops \<Rightarrow> payload list \<Rightarrow> 'd \<Rightarrow> unit pyres \<times> 'd" where
  "write_logs ops logs d =
     (case (logs, post_logs ops) of
        (_ # _, Some post) \<Rightarrow> (case post logs d of (Inl e, d1) \<Rightarrow> (Inl e, d1) | (Inr status_code, d1) \<Rightarrow> (Inr (), d1))
      | _ \<Rightarrow> write_batches ops logs d)"

text \<open>\<^verbatim>\<open>update_spend_logs\<close>: without logs to process it pops them itself.\<close>

definition update_spend_logs ::
  "'d log_ops \<Rightarrow> nat \<Rightarrow> payload list option \<Rightarrow> payload list \<times> 'd \<Rightarrow> unit pyres \<times> payload list \<times> 'd" where
  "update_spend_logs ops n_retry_times logs_to_process s =
     (let (logs, rest) = (case logs_to_process of
            Some l \<Rightarrow> (l, fst s)
          | None \<Rightarrow> (take MAX_LOGS_PER_INTERVAL (fst s), drop (length (take MAX_LOGS_PER_INTERVAL (fst s))) (fst s))) in
      case with_retries (write_logs ops logs) n_retry_times (snd s) of (r, d) \<Rightarrow> (r, rest, d))"

definition update_spend_logs_job :: "'d log_ops \<Rightarrow> payload list \<times> 'd \<Rightarrow> unit pyres \<times> payload list \<times> 'd" where
  "update_spend_logs_job ops s =
     (if fst s = [] then (Inr (), s)
      else let logs = take MAX_LOGS_PER_INTERVAL (fst s) in
        update_spend_logs ops 3 (Some logs) (drop (length logs) (fst s), snd s))"

text \<open>The monitor: what it does in a round and how long it sleeps after it.\<close>

definition SPEND_LOG_QUEUE_SIZE_THRESHOLD :: nat where
  "SPEND_LOG_QUEUE_SIZE_THRESHOLD = 100"

definition SPEND_LOG_QUEUE_POLL_INTERVAL :: rat where
  "SPEND_LOG_QUEUE_POLL_INTERVAL = 2"

definition backed_off :: "rat \<Rightarrow> rat" where
  "backed_off current_interval = min (current_interval * 3 / 2) 30"

definition monitor_spend_logs_round ::
  "'d log_ops \<Rightarrow> rat \<Rightarrow> payload list \<times> 'd \<Rightarrow> rat \<times> payload list \<times> 'd" where
  "monitor_spend_logs_round ops current_interval s =
     (let queue_size = length (fst s) in
      if queue_size = 0 then (backed_off current_interval, s)
      else let interval = (if queue_size \<ge> SPEND_LOG_QUEUE_SIZE_THRESHOLD then SPEND_LOG_QUEUE_POLL_INTERVAL else backed_off current_interval) in
        case update_spend_logs_job ops s of
          (Inr _, s1) \<Rightarrow> (interval, s1)
        | (Inl _, s1) \<Rightarrow> (backed_off interval, s1))"

subsection \<open>Every log reaches the table\<close>

definition request_id :: "payload \<Rightarrow> pyval" where
  "request_id p = dict_get p ''request_id'' PNone"

definition log_laws :: "'d log_ops \<Rightarrow> ('d \<Rightarrow> pyval set) \<Rightarrow> bool" where
  "log_laws ops table \<longleftrightarrow>
     (\<forall>ls d d'. create_many ops ls d = (Inr (), d') \<longrightarrow> table d' = table d \<union> request_id ` set ls) \<and>
     (\<forall>ls d e d'. create_many ops ls d = (Inl e, d') \<longrightarrow> table d' = table d)"

lemma write_batches_table:
  assumes "log_laws ops table" "write_batches ops logs d = (res, d')"
  shows "table d \<subseteq> table d' \<and> table d' \<subseteq> table d \<union> request_id ` set logs \<and> (res = Inr () \<longrightarrow> table d' = table d \<union> request_id ` set logs)"
  using assms
proof (induction ops logs d rule: write_batches.induct)
  case (1 ops logs d)
  show ?case
  proof (cases "logs = []")
    case True
    then show ?thesis using 1(3) by (simp add: write_batches.simps)
  next
    case False
    obtain x d1 where x: "create_many ops (take LOG_BATCH_SIZE logs) d = (x, d1)" by fastforce
    have set: "set logs = set (take LOG_BATCH_SIZE logs) \<union> set (drop LOG_BATCH_SIZE logs)"
      by (metis append_take_drop_id set_append)
    show ?thesis
    proof (cases x)
      case (Inl e)
      then show ?thesis using 1(2,3) False x by (auto simp: write_batches.simps [of ops logs] log_laws_def)
    next
      case (Inr y)
      then have t: "table d1 = table d \<union> request_id ` set (take LOG_BATCH_SIZE logs)" using 1(2) x by (simp add: log_laws_def)
      have "write_batches ops (drop LOG_BATCH_SIZE logs) d1 = (res, d')"
        using 1(3) False x Inr by (simp add: write_batches.simps [of ops logs])
      from 1(1) [OF False x [symmetric] Inr 1(2) this] show ?thesis using t set by (auto simp: image_Un)
    qed
  qed
qed

lemma retried_logs_table:
  assumes "log_laws ops table" "with_retries (write_batches ops logs) n d = (Inr (), d')"
  shows "table d' = table d \<union> request_id ` set logs"
  using assms(2)
proof (induction n arbitrary: d)
  case 0
  then show ?case using write_batches_table [OF assms(1)] by fastforce
next
  case (Suc n)
  obtain x d1 where x: "write_batches ops logs d = (x, d1)" by fastforce
  note t = write_batches_table [OF assms(1) x]
  show ?case
  proof (cases x)
    case (Inl e)
    then have "with_retries (write_batches ops logs) n d1 = (Inr (), d')" using Suc.prems x by (simp split: if_splits)
    from Suc.IH [OF this] show ?thesis using t by blast
  next
    case (Inr y)
    then show ?thesis using Suc.prems x t by simp
  qed
qed

lemma write_logs_direct: "post_logs ops = None \<Longrightarrow> write_logs ops logs = write_batches ops logs"
  by (auto simp: write_logs_def fun_eq_iff split: list.split)

lemma job_writes_front:
  assumes "log_laws ops table" "post_logs ops = None" "update_spend_logs_job ops (logs, d) = (Inr (), logs', d')"
  shows "logs' = drop MAX_LOGS_PER_INTERVAL logs \<and> table d' = table d \<union> request_id ` set (take MAX_LOGS_PER_INTERVAL logs)"
proof (cases "logs = []")
  case False
  then have "with_retries (write_batches ops (take MAX_LOGS_PER_INTERVAL logs)) 3 d = (Inr (), d')"
    "logs' = drop (length (take MAX_LOGS_PER_INTERVAL logs)) logs"
    using assms(3) by (auto simp: update_spend_logs_job_def update_spend_logs_def write_logs_direct [OF assms(2)] Let_def split: prod.splits)
  then show ?thesis using retried_logs_table [OF assms(1)] by (simp add: drop_eq_Nil min_def split: if_splits)
qed (use assms(3) in \<open>simp add: update_spend_logs_job_def\<close>)

text \<open>The job again and again, until the list is empty.\<close>

fun run_jobs :: "'d log_ops \<Rightarrow> nat \<Rightarrow> payload list \<times> 'd \<Rightarrow> unit pyres \<times> payload list \<times> 'd" where
  "run_jobs ops 0 s = (Inr (), s)"
| "run_jobs ops (Suc n) s = (case update_spend_logs_job ops s of (Inl e, s1) \<Rightarrow> (Inl e, s1) | (Inr _, s1) \<Rightarrow> run_jobs ops n s1)"

lemma run_jobs_table:
  assumes "log_laws ops table" "post_logs ops = None" "run_jobs ops n (logs, d) = (Inr (), logs', d')"
  shows "logs' = drop (n * MAX_LOGS_PER_INTERVAL) logs \<and> table d' = table d \<union> request_id ` set (take (n * MAX_LOGS_PER_INTERVAL) logs)"
  using assms(3)
proof (induction n arbitrary: logs d)
  case (Suc n)
  obtain logs1 d1 where j: "update_spend_logs_job ops (logs, d) = (Inr (), logs1, d1)" "run_jobs ops n (logs1, d1) = (Inr (), logs', d')"
    using Suc.prems by (auto split: prod.splits sum.splits)
  note a = job_writes_front [OF assms(1,2) j(1)] and b = Suc.IH [OF j(2)]
  have "take (Suc n * MAX_LOGS_PER_INTERVAL) logs = take MAX_LOGS_PER_INTERVAL logs @ take (n * MAX_LOGS_PER_INTERVAL) (drop MAX_LOGS_PER_INTERVAL logs)"
    by (simp add: take_add)
  then show ?case using a b by (auto simp: add.commute)
qed simp

subsection \<open>Properties\<close>


definition toy_logs :: "(nat \<times> pyval list) log_ops" where
  "toy_logs = \<lparr>create_many = (\<lambda>ls d. if 0 < fst d then (Inl (OtherError ''ReadError''), fst d - 1, snd d)
       else (Inr (), 0, map request_id ls @ snd d)), post_logs = None\<rparr>"


text \<open>The monitor sleeps between two and thirty seconds.\<close>

lemma monitor_interval_bounds:
  assumes "2 \<le> i" "i \<le> 30"
  shows "2 \<le> fst (monitor_spend_logs_round ops i s) \<and> fst (monitor_spend_logs_round ops i s) \<le> 30"
  using assms by (auto simp: monitor_spend_logs_round_def Let_def backed_off_def SPEND_LOG_QUEUE_POLL_INTERVAL_def min_def
      split: prod.split sum.split)

text \<open>Whatever status the service answers, the logs are taken as delivered.\<close>

lemma refused_logs_dropped:
  assumes "post_logs ops = Some (\<lambda>_ d. (Inr 500, d))" "logs \<noteq> []" "length logs \<le> MAX_LOGS_PER_INTERVAL"
  shows "update_spend_logs_job ops (logs, d) = (Inr (), [], d)"
  using assms by (cases logs) (simp_all add: update_spend_logs_job_def update_spend_logs_def write_logs_def eval_nat_numeral Let_def)

end
