(* ===== verification/PolicyResolve.thy ===== *)
theory PolicyResolve
  imports PolicyMatch
begin

text \<open>
  \<^verbatim>\<open>policy_resolver.py\<close>, \<^verbatim>\<open>policy_validator.py\<close> and the in-memory half of
  \<^verbatim>\<open>policy_registry.py\<close>: from policies with inheritance to the guardrails of a request. A Python
  set of guardrails is a list without duplicates in insertion order; the properties speak of its
  elements only. The theory shows that resolution ends on every configuration, what add and remove
  along an inheritance chain amount to, and what validation guarantees.
\<close>

subsection \<open>Types\<close>

record PipelineStep =
  step_guardrail :: string
  on_fail :: string
  on_pass :: string
  pass_data :: bool
  modify_response_message :: "string option"

record GuardrailPipeline =
  pipeline_mode :: string
  steps :: "PipelineStep list"

record PolicyGuardrails =
  add :: "string list option"
  remove :: "string list option"

definition get_add :: "PolicyGuardrails \<Rightarrow> string list" where
  "get_add g = or_list (add g) []"

definition get_remove :: "PolicyGuardrails \<Rightarrow> string list" where
  "get_remove g = or_list (remove g) []"

record Policy =
  inherit :: "string option"
  description :: "string option"
  guardrails :: PolicyGuardrails
  condition :: "PolicyCondition option"
  pipeline :: "GuardrailPipeline option"

record ResolvedPolicy =
  resolved_name :: string
  resolved_guardrails :: "string list"
  inheritance_chain :: "string list"

type_synonym policies = "(string, Policy) dict"

text \<open>The parent of a policy; the empty name counts as none.\<close>

definition parent_of :: "Policy \<Rightarrow> string option" where
  "parent_of p = (case inherit p of Some (c # s) \<Rightarrow> Some (c # s) | _ \<Rightarrow> None)"

subsection \<open>Registry\<close>

record policy_registry =
  reg_policies :: policies
  policies_by_id :: "(string, string \<times> Policy) dict"
  reg_initialized :: bool

definition policy_registry_init :: policy_registry where
  "policy_registry_init = \<lparr>reg_policies = [], policies_by_id = [], reg_initialized = False\<rparr>"

definition registry_get_policy :: "string \<Rightarrow> policy_registry \<Rightarrow> Policy option" where
  "registry_get_policy n r = map_of (reg_policies r) n"

definition registry_has_policy :: "string \<Rightarrow> policy_registry \<Rightarrow> bool" where
  "registry_has_policy n r \<longleftrightarrow> map_of (reg_policies r) n \<noteq> None"

definition registry_clear :: "policy_registry \<Rightarrow> policy_registry" where
  "registry_clear r = r\<lparr>reg_policies := [], reg_initialized := False\<rparr>"

definition registry_add_policy :: "string \<Rightarrow> Policy \<Rightarrow> policy_registry \<Rightarrow> policy_registry" where
  "registry_add_policy n p r = r\<lparr>reg_policies := AList.update n p (reg_policies r)\<rparr>"

definition registry_remove_policy :: "string \<Rightarrow> policy_registry \<Rightarrow> bool \<times> policy_registry" where
  "registry_remove_policy n r =
     (if map_of (reg_policies r) n = None then (False, r)
      else (True, r\<lparr>reg_policies := AList.delete n (reg_policies r)\<rparr>))"

subsection \<open>Resolution\<close>

function resolve_inheritance_chain :: "string \<Rightarrow> policies \<Rightarrow> string list \<Rightarrow> string list" where
  "resolve_inheritance_chain n ps visited =
     (if n \<in> set visited then []
      else case map_of ps n of
        None \<Rightarrow> []
      | Some p \<Rightarrow>
        (case parent_of p of
           Some q \<Rightarrow> resolve_inheritance_chain q ps (n # visited) @ [n]
         | None \<Rightarrow> [n]))"
  by pat_completeness auto
termination
proof (relation "measure (\<lambda>(n, ps, v). card (set (dict_keys ps) - set v))")
  fix n v p q and ps :: policies
  assume a: "n \<notin> set v" "map_of ps n = Some p"
  then have "n \<in> set (dict_keys ps) - set v" using map_of_Some_key [OF a(2)] by blast
  moreover have "set (dict_keys ps) - set (n # v) = (set (dict_keys ps) - set v) - {n}" by auto
  ultimately show "((q, ps, n # v), n, ps, v) \<in> measure (\<lambda>(n, ps, v). card (set (dict_keys ps) - set v))"
    using card_Diff1_less [of "set (dict_keys ps) - set v" n] by simp
qed simp

declare resolve_inheritance_chain.simps [simp del]

text \<open>The guardrails of one policy of the chain, when its condition holds.\<close>

definition policy_applies ::
  "(string \<Rightarrow> string \<Rightarrow> bool option) \<Rightarrow> PolicyMatchContext option \<Rightarrow> Policy \<Rightarrow> bool" where
  "policy_applies fm context p =
     (case (context, condition p) of
        (Some c, Some cond) \<Rightarrow> evaluate fm (Some cond) c
      | _ \<Rightarrow> True)"

definition apply_policy ::
  "(string \<Rightarrow> string \<Rightarrow> bool option) \<Rightarrow> PolicyMatchContext option \<Rightarrow> policies \<Rightarrow> string \<Rightarrow> string list \<Rightarrow> string list" where
  "apply_policy fm context ps n gs =
     (case map_of ps n of
        None \<Rightarrow> gs
      | Some p \<Rightarrow>
        if \<not> policy_applies fm context p then gs
        else fold removeAll (get_remove (guardrails p)) (fold List.insert (get_add (guardrails p)) gs))"

definition resolve_policy_guardrails ::
  "(string \<Rightarrow> string \<Rightarrow> bool option) \<Rightarrow> string \<Rightarrow> policies \<Rightarrow> PolicyMatchContext option \<Rightarrow> ResolvedPolicy" where
  "resolve_policy_guardrails fm n ps context =
     (let chain = resolve_inheritance_chain n ps [] in
      \<lparr>resolved_name = n,
       resolved_guardrails = fold (apply_policy fm context ps) chain [],
       inheritance_chain = chain\<rparr>)"

text \<open>The policies to use: the caller's, or those of the registry if it is loaded.\<close>

definition policies_or_registry :: "policies option \<Rightarrow> policy_registry \<Rightarrow> policies option" where
  "policies_or_registry ps reg =
     (case ps of Some x \<Rightarrow> Some x | None \<Rightarrow> if reg_initialized reg then Some (reg_policies reg) else None)"

definition names_or_attached ::
  "string list option \<Rightarrow> attachment_registry \<Rightarrow> PolicyMatchContext \<Rightarrow> string list" where
  "names_or_attached names areg context =
     (case names of Some ns \<Rightarrow> ns | None \<Rightarrow> get_matching_policies areg context)"

definition resolve_guardrails_for_context ::
  "(string \<Rightarrow> string \<Rightarrow> bool option) \<Rightarrow> policy_registry \<Rightarrow> attachment_registry \<Rightarrow> PolicyMatchContext \<Rightarrow>
   policies option \<Rightarrow> string list option \<Rightarrow> string list" where
  "resolve_guardrails_for_context fm reg areg context pso names =
     (case policies_or_registry pso reg of
        None \<Rightarrow> []
      | Some ps \<Rightarrow>
        fold (\<lambda>n all. fold List.insert (resolved_guardrails (resolve_policy_guardrails fm n ps (Some context))) all)
          (names_or_attached names areg context) [])"

definition resolve_pipelines_for_context ::
  "policy_registry \<Rightarrow> attachment_registry \<Rightarrow> PolicyMatchContext \<Rightarrow> policies option \<Rightarrow> string list option \<Rightarrow>
   (string \<times> GuardrailPipeline) list" where
  "resolve_pipelines_for_context reg areg context pso names =
     (case policies_or_registry pso reg of
        None \<Rightarrow> []
      | Some ps \<Rightarrow>
        concat (map (\<lambda>n. case map_of ps n of
            None \<Rightarrow> []
          | Some p \<Rightarrow> (case pipeline p of None \<Rightarrow> [] | Some pl \<Rightarrow> [(n, pl)]))
          (names_or_attached names areg context)))"

definition get_pipeline_managed_guardrails :: "(string \<times> GuardrailPipeline) list \<Rightarrow> string list" where
  "get_pipeline_managed_guardrails pls =
     fold List.insert (concat (map (\<lambda>(n, pl). map step_guardrail (steps pl)) pls)) []"

definition get_all_resolved_policies ::
  "(string \<Rightarrow> string \<Rightarrow> bool option) \<Rightarrow> policy_registry \<Rightarrow> policies option \<Rightarrow> PolicyMatchContext option \<Rightarrow>
   (string, ResolvedPolicy) dict" where
  "get_all_resolved_policies fm reg pso context =
     (case policies_or_registry pso reg of
        None \<Rightarrow> []
      | Some ps \<Rightarrow> map (\<lambda>n. (n, resolve_policy_guardrails fm n ps context)) (dict_keys ps))"

definition get_policies_with_matching_conditions ::
  "(string \<Rightarrow> string \<Rightarrow> bool option) \<Rightarrow> policy_registry \<Rightarrow> string list \<Rightarrow> PolicyMatchContext \<Rightarrow> policies option \<Rightarrow>
   string list" where
  "get_policies_with_matching_conditions fm reg names context pso =
     (case policies_or_registry pso reg of
        None \<Rightarrow> []
      | Some ps \<Rightarrow>
        filter (\<lambda>n. case map_of ps n of None \<Rightarrow> False | Some p \<Rightarrow> evaluate fm (condition p) context) names)"

subsection \<open>Validation\<close>

datatype PolicyValidationErrorType =
  INVALID_GUARDRAIL | INVALID_INHERITANCE | CIRCULAR_INHERITANCE | INVALID_SYNTAX

text \<open>A validation error, without its message text.\<close>

record PolicyValidationError =
  err_policy :: string
  err_type :: PolicyValidationErrorType
  err_field :: "string option"
  err_value :: "string option"

function validate_inheritance_chain ::
  "string \<Rightarrow> policies \<Rightarrow> string list \<Rightarrow> int \<Rightarrow> PolicyValidationError list" where
  "validate_inheritance_chain n ps visited max_depth =
     (if max_depth \<le> 0
      then [\<lparr>err_policy = n, err_type = CIRCULAR_INHERITANCE, err_field = Some ''inherit'', err_value = None\<rparr>]
      else if n \<in> set visited
      then [\<lparr>err_policy = n, err_type = CIRCULAR_INHERITANCE, err_field = Some ''inherit'', err_value = None\<rparr>]
      else case map_of ps n of
        None \<Rightarrow> []
      | Some p \<Rightarrow>
        (case parent_of p of
           None \<Rightarrow> []
         | Some q \<Rightarrow>
           if map_of ps q = None
           then [\<lparr>err_policy = n, err_type = INVALID_INHERITANCE, err_field = Some ''inherit'', err_value = Some q\<rparr>]
           else validate_inheritance_chain q ps (n # visited) (max_depth - 1)))"
  by pat_completeness auto
termination
  by (relation "measure (\<lambda>(n, ps, v, d). nat d)") auto

declare validate_inheritance_chain.simps [simp del]

definition guardrail_error :: "string \<Rightarrow> string \<Rightarrow> string \<Rightarrow> PolicyValidationError" where
  "guardrail_error n field g =
     \<lparr>err_policy = n, err_type = INVALID_GUARDRAIL, err_field = Some field, err_value = Some g\<rparr>"

definition validate_pipeline :: "string \<Rightarrow> Policy \<Rightarrow> string list \<Rightarrow> PolicyValidationError list" where
  "validate_pipeline n p available =
     (case pipeline p of
        None \<Rightarrow> []
      | Some pl \<Rightarrow>
        concat (map (\<lambda>s.
          (if step_guardrail s \<notin> set (get_add (guardrails p))
           then [guardrail_error n ''pipeline.steps'' (step_guardrail s)] else []) @
          (if available \<noteq> [] \<and> step_guardrail s \<notin> set available
           then [guardrail_error n ''pipeline.steps'' (step_guardrail s)] else []))
          (steps pl)))"

definition validate_policy :: "policies \<Rightarrow> string list \<Rightarrow> string \<times> Policy \<Rightarrow>
   PolicyValidationError list \<times> PolicyValidationError list" where
  "validate_policy ps available np =
     (case np of (n, p) \<Rightarrow>
       ((if available = [] then []
         else map (guardrail_error n ''guardrails.add'') (filter (\<lambda>g. g \<notin> set available) (get_add (guardrails p)))) @
        validate_pipeline n p available @
        validate_inheritance_chain n ps [] 100,
        if available = [] then []
        else map (guardrail_error n ''guardrails.remove'')
          (filter (\<lambda>g. g \<notin> set available) (get_remove (guardrails p)))))"

text \<open>\<^verbatim>\<open>validate_policies\<close>: whether the set is valid, with the errors and the warnings.\<close>

definition validate_policies :: "policies \<Rightarrow> string list \<Rightarrow>
   bool \<times> PolicyValidationError list \<times> PolicyValidationError list" where
  "validate_policies ps available =
     (let errors = concat (map (fst \<circ> validate_policy ps available) ps);
          warnings = concat (map (snd \<circ> validate_policy ps available) ps) in
      (errors = [], errors, warnings))"

subsection \<open>Lemmas\<close>

abbreviation parent_in :: "policies \<Rightarrow> string \<Rightarrow> string option" where
  "parent_in ps n \<equiv> (case map_of ps n of None \<Rightarrow> None | Some p \<Rightarrow> parent_of p)"

lemma chain_spec:
  "let chain = resolve_inheritance_chain n ps v in
   (chain = [] \<longleftrightarrow> n \<in> set v \<or> map_of ps n = None) \<and>
   (chain \<noteq> [] \<longrightarrow> last chain = n \<and>
      (\<forall>q. parent_in ps (hd chain) = Some q \<longrightarrow> map_of ps q = None \<or> q \<in> set chain \<union> set v)) \<and>
   distinct chain \<and> set chain \<inter> set v = {} \<and> set chain \<subseteq> set (dict_keys ps) \<and>
   (\<forall>i. Suc i < length chain \<longrightarrow> parent_in ps (chain ! Suc i) = Some (chain ! i))"
proof (induction n ps v rule: resolve_inheritance_chain.induct)
  case (1 n ps v)
  show ?case
  proof (cases "n \<in> set v \<or> map_of ps n = None")
    case True
    then show ?thesis by (auto simp: resolve_inheritance_chain.simps [of n])
  next
    case False
    then obtain p where p: "map_of ps n = Some p" "n \<notin> set v" by auto
    have key: "n \<in> set (dict_keys ps)" using map_of_Some_key [OF p(1)] .
    show ?thesis
    proof (cases "parent_of p")
      case None
      then show ?thesis using p key by (simp add: resolve_inheritance_chain.simps [of n])
    next
      case (Some q)
      let ?c = "resolve_inheritance_chain q ps (n # v)"
      have eq: "resolve_inheritance_chain n ps v = ?c @ [n]"
        using p Some by (simp add: resolve_inheritance_chain.simps [of n])
      have ih: "?c = [] \<longleftrightarrow> q \<in> set (n # v) \<or> map_of ps q = None"
        "?c \<noteq> [] \<Longrightarrow> last ?c = q"
        "?c \<noteq> [] \<Longrightarrow> \<forall>x. parent_in ps (hd ?c) = Some x \<longrightarrow> map_of ps x = None \<or> x \<in> set ?c \<union> set (n # v)"
        "distinct ?c" "set ?c \<inter> set (n # v) = {}" "set ?c \<subseteq> set (dict_keys ps)"
        "\<forall>i. Suc i < length ?c \<longrightarrow> parent_in ps (?c ! Suc i) = Some (?c ! i)"
        using "1.IH" [OF p(2,1) Some] by (auto simp: Let_def simp del: set_map)
      have link: "parent_in ps ((?c @ [n]) ! Suc i) = Some ((?c @ [n]) ! i)" if "Suc i < length (?c @ [n])" for i
      proof (cases "Suc i < length ?c")
        case True
        then show ?thesis using ih(7) by (simp add: nth_append)
      next
        case False
        then have "Suc i = length ?c" "?c \<noteq> []" using that by auto
        then show ?thesis using ih(2) p(1) Some by (simp add: nth_append last_conv_nth flip: \<open>Suc i = length ?c\<close>)
      qed
      have root: "map_of ps x = None \<or> x \<in> set (?c @ [n]) \<union> set v" if "parent_in ps (hd (?c @ [n])) = Some x" for x
        using that ih(1,3) p(1) Some by (cases "?c = []") (auto simp: hd_append)
      show ?thesis
        unfolding Let_def eq using ih(4-6) link root p key by auto
    qed
  qed
qed

lemma fold_insert_set [simp]: "set (fold List.insert xs gs) = set xs \<union> set gs"
  by (induction xs arbitrary: gs) auto

lemma fold_removeAll_set [simp]: "set (fold removeAll xs gs) = set gs - set xs"
  by (induction xs arbitrary: gs) auto

lemma fold_insert_distinct: "distinct gs \<Longrightarrow> distinct (fold List.insert xs gs)"
  by (induction xs arbitrary: gs) auto

text \<open>The policies of a chain that have a say, in order.\<close>

definition active :: "(string \<Rightarrow> string \<Rightarrow> bool option) \<Rightarrow> PolicyMatchContext option \<Rightarrow> policies \<Rightarrow> string \<Rightarrow> PolicyGuardrails option" where
  "active fm context ps n =
     (case map_of ps n of Some p \<Rightarrow> if policy_applies fm context p then Some (guardrails p) else None | None \<Rightarrow> None)"

lemma apply_policy_set:
  "set (apply_policy fm context ps n gs) =
     (case active fm context ps n of None \<Rightarrow> set gs | Some g \<Rightarrow> set (get_add g) \<union> set gs - set (get_remove g))"
  by (simp add: apply_policy_def active_def split: option.split)

text \<open>A guardrail survives a chain if some policy adds it and none from there on removes it.\<close>

definition kept :: "PolicyGuardrails option list \<Rightarrow> string \<Rightarrow> bool" where
  "kept gs x \<longleftrightarrow> (\<exists>i < length gs. \<exists>g. gs ! i = Some g \<and> x \<in> set (get_add g) \<and>
     (\<forall>j < length gs. i \<le> j \<longrightarrow> (\<forall>h. gs ! j = Some h \<longrightarrow> x \<notin> set (get_remove h))))"

lemma kept_snoc:
  "kept (gs @ [o1]) x \<longleftrightarrow>
     (case o1 of None \<Rightarrow> kept gs x | Some h \<Rightarrow> x \<notin> set (get_remove h) \<and> (kept gs x \<or> x \<in> set (get_add h)))"
proof (cases o1)
  case None
  have "kept (gs @ [None]) x \<longleftrightarrow> kept gs x"
    unfolding kept_def by (auto simp: nth_append less_Suc_eq split: if_splits) 
  then show ?thesis using None by simp
next
  case (Some h)
  have "kept (gs @ [Some h]) x \<longleftrightarrow> x \<notin> set (get_remove h) \<and> (kept gs x \<or> x \<in> set (get_add h))"
    unfolding kept_def by (auto simp: nth_append less_Suc_eq split: if_splits)
  then show ?thesis using Some by simp
qed

lemma fold_apply_kept:
  "set (fold (apply_policy fm context ps) ns []) = {x. kept (map (active fm context ps) ns) x}"
proof (induction ns rule: rev_induct)
  case Nil
  then show ?case by (simp add: kept_def)
next
  case (snoc n ns)
  then show ?case
    by (cases "active fm context ps n") (auto simp: apply_policy_set kept_snoc)
qed

lemma validated_chain:
  "validate_inheritance_chain n ps v d = [] \<Longrightarrow> map_of ps n \<noteq> None \<Longrightarrow>
   (let c = resolve_inheritance_chain n ps v in
    c \<noteq> [] \<and> parent_in ps (hd c) = None \<and> int (length c) \<le> d)"
proof (induction n ps v d rule: validate_inheritance_chain.induct)
  case (1 n ps v d)
  then obtain p where p: "map_of ps n = Some p" by auto
  note unf = validate_inheritance_chain.simps [of n ps v d] resolve_inheritance_chain.simps [of n ps v]
  have d: "0 < d" "n \<notin> set v" using "1.prems"(1) by (auto simp: unf split: if_splits)
  show ?case
  proof (cases "parent_of p")
    case None
    then show ?thesis using p d by (simp add: unf)
  next
    case (Some q)
    have q: "map_of ps q \<noteq> None" "validate_inheritance_chain q ps (n # v) (d - 1) = []"
      using "1.prems"(1) p d Some by (auto simp: unf(1) split: if_splits)
    let ?c = "resolve_inheritance_chain q ps (n # v)"
    have "?c \<noteq> [] \<and> parent_in ps (hd ?c) = None \<and> int (length ?c) \<le> d - 1"
      using "1.IH" [OF _ _ p Some q(1) q(2) q(1)] d by (simp add: Let_def)
    moreover have "resolve_inheritance_chain n ps v = ?c @ [n]" using p d Some by (simp add: unf(2))
    ultimately show ?thesis by (auto simp: Let_def hd_append)
  qed
qed

lemma resolve_context_set:
  "set (fold (\<lambda>n all. fold List.insert (f n) all) ns gs) = (\<Union>n \<in> set ns. set (f n)) \<union> set gs"
  by (induction ns arbitrary: gs) auto

lemma resolve_context_distinct:
  "distinct gs \<Longrightarrow> distinct (fold (\<lambda>n all. fold List.insert (f n) all) ns gs)"
  by (induction ns arbitrary: gs) (auto intro: fold_insert_distinct)

subsection \<open>Properties\<close>

text \<open>
  Property C33. Inheritance resolution ends on every set of policies, cyclic ones included. The chain
  of a defined policy ends with it, names defined policies, each at most once, and each is the parent
  of the next; it starts at a policy without a parent, or where the parent is missing or already in
  the chain.
\<close>

theorem inheritance_chain_correct:
  assumes "map_of ps n = Some p" "chain = resolve_inheritance_chain n ps []"
  shows "chain \<noteq> [] \<and> last chain = n \<and> distinct chain \<and> set chain \<subseteq> set (dict_keys ps) \<and>
    (\<forall>i. Suc i < length chain \<longrightarrow> parent_in ps (chain ! Suc i) = Some (chain ! i)) \<and>
    (\<forall>q. parent_in ps (hd chain) = Some q \<longrightarrow> map_of ps q = None \<or> q \<in> set chain)"
  using chain_spec [of n ps "[]"] assms by (simp add: Let_def)

abbreviation pol :: "string option \<Rightarrow> string list \<Rightarrow> string list \<Rightarrow> Policy" where
  "pol parent a r \<equiv> \<lparr>inherit = parent, description = None, guardrails = \<lparr>add = Some a, remove = Some r\<rparr>,
     condition = None, pipeline = None\<rparr>"

theorem inheritance_chain_correct_witness:
  "distinct (resolve_inheritance_chain ''a'' [(''a'', pol (Some ''b'') [] []), (''b'', pol (Some ''a'') [] [])] []) \<and>
   last (resolve_inheritance_chain ''a'' [(''a'', pol (Some ''b'') [] []), (''b'', pol (Some ''a'') [] [])] []) = ''a''"
  using inheritance_chain_correct [OF _ refl, of "[(''a'', pol (Some ''b'') [] []), (''b'', pol (Some ''a'') [] [])]" "''a''"]
  by simp

text \<open>
  Property C25. A guardrail is in force for a policy exactly if some policy of its inheritance chain
  whose condition holds adds it and neither that one nor a later one whose condition holds removes it:
  removal wins within a policy, and a descendant may add again what an ancestor removed.
\<close>

theorem guardrails_of_chain:
  "x \<in> set (resolved_guardrails (resolve_policy_guardrails fm n ps context)) \<longleftrightarrow>
   kept (map (active fm context ps) (resolve_inheritance_chain n ps [])) x"
  using fold_apply_kept [of fm "context" ps "resolve_inheritance_chain n ps []"]
  by (auto simp: resolve_policy_guardrails_def Let_def)

text \<open>
  The guardrails of a request are the union of those of its matching policies, each
  once: the policies the caller names, or those whose attachments match.
\<close>

lemma guardrails_for_context_union:
  assumes "policies_or_registry pso reg = Some ps"
  shows "set (resolve_guardrails_for_context fm reg areg context pso names) =
     (\<Union>n \<in> set (names_or_attached names areg context).
        set (resolved_guardrails (resolve_policy_guardrails fm n ps (Some context)))) \<and>
   distinct (resolve_guardrails_for_context fm reg areg context pso names)"
  using assms by (simp add: resolve_guardrails_for_context_def resolve_context_set resolve_context_distinct)

text \<open>
  Validation is sound for inheritance: in a set of policies that
  \<^verbatim>\<open>validate_policies\<close> accepts, the chain of every policy goes up to an ancestor without a
  parent, so nothing of it is cut off by a cycle or a missing policy, and it has at most 100 policies.
\<close>

lemma validated_policies_resolve_fully:
  assumes "fst (validate_policies ps available)" "(n, p) \<in> set ps" "dict_wf ps"
  shows "resolve_inheritance_chain n ps [] \<noteq> [] \<and> parent_in ps (hd (resolve_inheritance_chain n ps [])) = None \<and>
    length (resolve_inheritance_chain n ps []) \<le> 100"
proof -
  have "fst (validate_policy ps available (n, p)) = []"
    using assms(1,2) by (auto simp: validate_policies_def Let_def)
  then have v: "validate_inheritance_chain n ps [] 100 = []" by (simp add: validate_policy_def)
  have "map_of ps n \<noteq> None" using assms(2,3) by (simp add: map_of_is_SomeI)
  from validated_chain [OF v this] show ?thesis by (simp add: Let_def)
qed

end
