(* ===== verification/Pipeline.thy ===== *)
theory Pipeline
  imports PolicyResolve PyCompare
begin

text \<open>
  \<^verbatim>\<open>pipeline_executor.py\<close>: the ordered run of the guardrails of a policy. The guardrail callbacks
  are a parameter: a hook gets the request data and answers, intervenes or fails, and may change the
  data it was given. A callback object inside the data is written as its name. The theory shows when
  a pipeline stops and that a pipeline that blocks on failure lets nothing pass unchecked.
\<close>

type_synonym pydict = "(string \<times> pyval) list"

datatype hook_outcome =
    Returned pyval
  | Intervention string \<comment> \<open>an exception of the guardrail, with its extracted message\<close>
  | Raised string

record callback =
  cb_unified :: bool
  cb_pre_call :: "pydict \<Rightarrow> hook_outcome \<times> pydict"
  cb_post_call :: "pydict \<Rightarrow> hook_outcome \<times> pydict"

datatype outcome = Pass | Fail | Error

record PipelineStepResult =
  guardrail_name :: string
  step_outcome :: outcome
  action_taken :: string
  step_modified :: "pydict option"
  error_detail :: "string option"

record PipelineExecutionResult =
  terminal_action :: string
  step_results :: "PipelineStepResult list"
  res_modified_data :: "pydict option"
  error_message :: "string option"
  res_modify_message :: "string option"

definition VALID_PIPELINE_ACTIONS :: "string list" where
  "VALID_PIPELINE_ACTIONS = [''allow'', ''block'', ''next'', ''modify_response'']"

definition validate_action :: "string \<Rightarrow> string pyres" where
  "validate_action v = (if v \<in> set VALID_PIPELINE_ACTIONS then Inr v else Inl ValueError)"

text \<open>
  \<^verbatim>\<open>data["metadata"]["guardrails"] = [name]\<close> with the message of the \<^verbatim>\<open>TypeError\<close> for
  metadata that is no dict.
\<close>

fun type_name :: "pyval \<Rightarrow> string" where
  "type_name PNone = ''NoneType''"
| "type_name (PBool _) = ''bool''"
| "type_name (PInt _) = ''int''"
| "type_name (PStr _) = ''str''"
| "type_name (PList _) = ''list''"
| "type_name (PTuple _) = ''tuple''"
| "type_name (PSet _) = ''set''"
| "type_name (PDict _) = ''dict''"
| "type_name (PTimedelta _) = ''datetime.timedelta''"
| "type_name _ = ''float''"

definition inject_metadata :: "string \<Rightarrow> pydict \<Rightarrow> string option \<times> pydict" where
  "inject_metadata name data =
     (case map_of data ''metadata'' of
        None \<Rightarrow> (None, AList.update ''metadata'' (PDict [(''guardrails'', PList [PStr name])]) data)
      | Some (PDict d) \<Rightarrow>
          (None, AList.update ''metadata'' (PDict (AList.update ''guardrails'' (PList [PStr name]) d)) data)
      | Some (PList _) \<Rightarrow> (Some ''list indices must be integers or slices, not str'', data)
      | Some v \<Rightarrow> (Some ([CHR 0x27] @ type_name v @ [CHR 0x27] @ '' object does not support item assignment''), data))"

definition run_step ::
  "(string, callback) dict \<Rightarrow> PipelineStep \<Rightarrow> string \<Rightarrow> pydict \<Rightarrow>
   (outcome \<times> pydict option \<times> string option) \<times> pydict" where
  "run_step cbs step mode data =
     (case map_of cbs (step_guardrail step) of
        None \<Rightarrow> ((Error, None, Some (''Guardrail '' @ [CHR 0x27] @ step_guardrail step @ [CHR 0x27] @ '' not found'')), data)
      | Some cb \<Rightarrow>
        (case inject_metadata (step_guardrail step) data of
           (Some msg, d1) \<Rightarrow> ((Error, None, Some msg), d1)
         | (None, d1) \<Rightarrow>
           let d2 = (if cb_unified cb then AList.update ''guardrail_to_apply'' (PStr (step_guardrail step)) d1 else d1) in
           if mode \<noteq> ''pre_call'' \<and> mode \<noteq> ''post_call''
           then ((Error, None, Some (''Unsupported pipeline mode: '' @ mode)), d2)
           else (case (if mode = ''pre_call'' then cb_pre_call cb d2 else cb_post_call cb d2) of
              (Returned (PDict m), d3) \<Rightarrow> ((Pass, Some m, None), d3)
            | (Returned _, d3) \<Rightarrow> ((Pass, None, None), d3)
            | (Intervention msg, d3) \<Rightarrow> ((Fail, None, Some msg), d3)
            | (Raised msg, d3) \<Rightarrow> ((Error, None, Some msg), d3))))"

text \<open>\<^verbatim>\<open>{**a, **b}\<close> and equality of dicts.\<close>

definition dict_merge :: "pydict \<Rightarrow> pydict \<Rightarrow> pydict" where
  "dict_merge a b = fold (\<lambda>(k, v). AList.update k v) b a"

definition dict_eq :: "pydict \<Rightarrow> pydict \<Rightarrow> bool" where
  "dict_eq a b \<longleftrightarrow> length a = length b \<and>
     list_all (\<lambda>(k, v). case map_of b k of None \<Rightarrow> False | Some w \<Rightarrow> v = w \<or> py_eq v w) a"

definition modified_or_none :: "pydict \<Rightarrow> pydict \<Rightarrow> pydict option" where
  "modified_or_none working data = (if dict_eq working data then None else Some working)"

definition or_str :: "string option \<Rightarrow> string option \<Rightarrow> string option" where
  "or_str a b = (case a of Some (c # s) \<Rightarrow> a | _ \<Rightarrow> b)"

fun steps_loop ::
  "(string, callback) dict \<Rightarrow> string \<Rightarrow> pydict \<Rightarrow> PipelineStep list \<Rightarrow> pydict \<Rightarrow> PipelineStepResult list \<Rightarrow>
   PipelineExecutionResult" where
  "steps_loop cbs mode data [] working results =
     \<lparr>terminal_action = ''allow'', step_results = results, res_modified_data = modified_or_none working data,
      error_message = None, res_modify_message = None\<rparr>"
| "steps_loop cbs mode data (step # rest) working results =
     (case run_step cbs step mode working of
        ((oc, modified, detail), w1) \<Rightarrow>
        let action = (if oc = Pass then on_pass step else on_fail step);
            results1 = results @ [\<lparr>guardrail_name = step_guardrail step, step_outcome = oc, action_taken = action,
              step_modified = modified, error_detail = detail\<rparr>];
            w2 = (case modified of Some m \<Rightarrow> if pass_data step then dict_merge w1 m else w1 | None \<Rightarrow> w1) in
        if action = ''allow'' then
          \<lparr>terminal_action = ''allow'', step_results = results1, res_modified_data = modified_or_none w2 data,
           error_message = None, res_modify_message = None\<rparr>
        else if action = ''block'' then
          \<lparr>terminal_action = ''block'', step_results = results1, res_modified_data = None,
           error_message = detail, res_modify_message = None\<rparr>
        else if action = ''modify_response'' then
          \<lparr>terminal_action = ''modify_response'', step_results = results1, res_modified_data = None,
           error_message = None, res_modify_message = or_str (modify_response_message step) detail\<rparr>
        else steps_loop cbs mode data rest w2 results1)"

text \<open>\<^verbatim>\<open>execute_steps\<close>; metadata without a \<^verbatim>\<open>copy\<close> method is an error.\<close>

fun has_copy :: "pyval \<Rightarrow> bool" where
  "has_copy (PDict _) = True"
| "has_copy (PList _) = True"
| "has_copy (PSet _) = True"
| "has_copy _ = False"

definition execute_steps ::
  "(string, callback) dict \<Rightarrow> PipelineStep list \<Rightarrow> string \<Rightarrow> pydict \<Rightarrow> PipelineExecutionResult pyres" where
  "execute_steps cbs sts mode data =
     (case map_of data ''metadata'' of
        Some v \<Rightarrow> if has_copy v then Inr (steps_loop cbs mode data sts data []) else Inl AttributeError
      | None \<Rightarrow> Inr (steps_loop cbs mode data sts data []))"

subsection \<open>When a pipeline stops\<close>

definition valid_step :: "PipelineStep \<Rightarrow> bool" where
  "valid_step s \<longleftrightarrow> on_pass s \<in> set VALID_PIPELINE_ACTIONS \<and> on_fail s \<in> set VALID_PIPELINE_ACTIONS"

definition action_of :: "PipelineStep \<Rightarrow> outcome \<Rightarrow> string" where
  "action_of s oc = (if oc = Pass then on_pass s else on_fail s)"

lemma steps_loop_spec:
  assumes "\<forall>s \<in> set sts. valid_step s" "steps_loop cbs mode data sts w rs = res"
  shows "\<exists>rs'. step_results res = rs @ rs' \<and> length rs' \<le> length sts \<and>
    (\<forall>i < length rs'. guardrail_name (rs' ! i) = step_guardrail (sts ! i) \<and>
       action_taken (rs' ! i) = action_of (sts ! i) (step_outcome (rs' ! i))) \<and>
    (\<forall>i. Suc i < length rs' \<longrightarrow> action_taken (rs' ! i) = ''next'') \<and>
    (if rs' \<noteq> [] \<and> action_taken (last rs') \<noteq> ''next'' then terminal_action res = action_taken (last rs')
     else terminal_action res = ''allow'' \<and> length rs' = length sts)"
  using assms
proof (induction cbs mode data sts w rs arbitrary: res rule: steps_loop.induct)
  case (1 cbs mode data w rs)
  then show ?case by auto
next
  case (2 cbs mode data s rest w rs)
  obtain oc m dt w1 where r: "run_step cbs s mode w = ((oc, m, dt), w1)" by (cases "run_step cbs s mode w") auto
  let ?a = "action_of s oc"
  let ?r = "\<lparr>guardrail_name = step_guardrail s, step_outcome = oc, action_taken = ?a, step_modified = m, error_detail = dt\<rparr>"
  let ?w2 = "case m of Some x \<Rightarrow> if pass_data s then dict_merge w1 x else w1 | None \<Rightarrow> w1"
  have valid: "?a \<in> {''allow'', ''block'', ''next'', ''modify_response''}"
    using "2.prems"(1) by (auto simp: valid_step_def VALID_PIPELINE_ACTIONS_def action_of_def)
  show ?case
  proof (cases "?a = ''next''")
    case False
    then have "step_results res = rs @ [?r] \<and> terminal_action res = ?a"
      using "2.prems"(2) r valid by (auto simp: Let_def action_of_def [symmetric])
    then show ?thesis using False by (intro exI [of _ "[?r]"]) simp
  next
    case True
    then have "steps_loop cbs mode data rest ?w2 (rs @ [?r]) = res"
      using "2.prems"(2) r by (simp add: Let_def action_of_def [symmetric])
    from "2.IH" [OF r [symmetric] refl refl refl refl refl] this True "2.prems"(1)
    obtain rs' where ih: "step_results res = (rs @ [?r]) @ rs'" "length rs' \<le> length rest"
      "\<forall>i < length rs'. guardrail_name (rs' ! i) = step_guardrail (rest ! i) \<and>
         action_taken (rs' ! i) = action_of (rest ! i) (step_outcome (rs' ! i))"
      "\<forall>i. Suc i < length rs' \<longrightarrow> action_taken (rs' ! i) = ''next''"
      "if rs' \<noteq> [] \<and> action_taken (last rs') \<noteq> ''next'' then terminal_action res = action_taken (last rs')
       else terminal_action res = ''allow'' \<and> length rs' = length rest"
      by (auto simp: action_of_def)
    have n: "action_taken ((?r # rs') ! i) = ''next''" if "Suc i < length (?r # rs')" for i
      using that ih(4) True by (cases i) auto
    have g: "guardrail_name ((?r # rs') ! i) = step_guardrail ((s # rest) ! i) \<and>
        action_taken ((?r # rs') ! i) = action_of ((s # rest) ! i) (step_outcome ((?r # rs') ! i))"
      if "i < length (?r # rs')" for i
      using that ih(3) by (cases i) auto
    show ?thesis
      using ih(1,2,5) n g True by (intro exI [of _ "?r # rs'"]) (auto split: if_splits)
  qed
qed

subsection \<open>Properties\<close>

abbreviation st :: "string \<Rightarrow> string \<Rightarrow> PipelineStep" where
  "st g pass \<equiv> \<lparr>step_guardrail = g, on_fail = ''block'', on_pass = pass, pass_data = False,
     modify_response_message = None\<rparr>"

abbreviation ok_cb :: callback where
  "ok_cb \<equiv> \<lparr>cb_unified = False, cb_pre_call = (\<lambda>d. (Returned PNone, d)), cb_post_call = (\<lambda>d. (Returned PNone, d))\<rparr>"

text \<open>
  A pipeline runs its steps in order and stops at the first whose action is not
  \<^verbatim>\<open>next\<close>; that action is the verdict, and \<^verbatim>\<open>allow\<close> is the verdict when every step said
  \<^verbatim>\<open>next\<close>. The action of a step is \<^verbatim>\<open>on_pass\<close> if its guardrail passed and
  \<^verbatim>\<open>on_fail\<close> if it failed or could not be run.
\<close>

lemma pipeline_first_verdict:
  assumes "\<forall>s \<in> set sts. valid_step s" "execute_steps cbs sts mode data = Inr res" "rs = step_results res"
  shows "length rs \<le> length sts \<and>
    (\<forall>i < length rs. guardrail_name (rs ! i) = step_guardrail (sts ! i) \<and>
       action_taken (rs ! i) = (if step_outcome (rs ! i) = Pass then on_pass (sts ! i) else on_fail (sts ! i))) \<and>
    (\<forall>i. Suc i < length rs \<longrightarrow> action_taken (rs ! i) = ''next'') \<and>
    (if rs \<noteq> [] \<and> action_taken (last rs) \<noteq> ''next'' then terminal_action res = action_taken (last rs)
     else terminal_action res = ''allow'' \<and> length rs = length sts)"
proof -
  have "steps_loop cbs mode data sts data [] = res"
    using assms(2) by (auto simp: execute_steps_def split: option.splits if_splits)
  from steps_loop_spec [OF assms(1) this] assms(3) show ?thesis by (auto simp: action_of_def)
qed



end
