(* ===== verification/MockServer.thy ===== *)
theory MockServer
  imports PyText
begin

text \<open>
  \<^verbatim>\<open>scripts/mock/supply_gateway_mock_server.py\<close>: the mock of the supply gateway that the
  repository's own gateway scripts are run against. The record \<open>STATE\<close> is the module's state, a
  handler takes the request target of a request line (\<^verbatim>\<open>/path?query\<close>), and for a
  \<^verbatim>\<open>POST\<close> the \<^verbatim>\<open>Content-Length\<close> header and the bytes that follow. Its result is the
  status with the payload before serialisation, or the exception that ends the request without an
  answer. \<^verbatim>\<open>urlparse\<close> and \<^verbatim>\<open>parse_qs\<close> are modelled for targets that start with a slash.
\<close>

subsection \<open>Request targets\<close>

definition before_char :: "char \<Rightarrow> string \<Rightarrow> string" where
  "before_char c s = takeWhile (\<lambda>d. d \<noteq> c) s"

definition after_char :: "char \<Rightarrow> string \<Rightarrow> string" where
  "after_char c s = drop 1 (dropWhile (\<lambda>d. d \<noteq> c) s)"

text \<open>\<^verbatim>\<open>urlparse(target).path\<close>: without fragment, query and the parameters of the last segment.\<close>

definition split_params :: "string \<Rightarrow> string" where
  "split_params p =
     (let segs = split_on (CHR ''/'') p in join_with ''/'' (butlast segs @ [before_char (CHR '';'') (last segs)]))"

definition url_path :: "string \<Rightarrow> string" where
  "url_path target = split_params (before_char (CHR ''?'') (before_char (CHR ''#'') target))"

definition url_query :: "string \<Rightarrow> string" where
  "url_query target = after_char (CHR ''?'') (before_char (CHR ''#'') target)"

fun unquote :: "string \<Rightarrow> string" where
  "unquote [] = []"
| "unquote (c # s) =
     (if c = CHR ''%'' then
        (case s of
           a # b # r \<Rightarrow>
             (case (hex_digit a, hex_digit b) of
                (Some x, Some y) \<Rightarrow> byte (16 * x + y) # unquote r
              | _ \<Rightarrow> c # unquote s)
         | _ \<Rightarrow> c # unquote s)
      else c # unquote s)"

definition unquote_plus :: "string \<Rightarrow> string" where
  "unquote_plus s = unquote (map (\<lambda>c. if c = CHR ''+'' then CHR '' '' else c) s)"

text \<open>\<^verbatim>\<open>parse_qs\<close> as the list of its pairs in order; pairs with no or an empty value are dropped.\<close>

definition parse_qs :: "string \<Rightarrow> (string \<times> string) list" where
  "parse_qs q =
     map (\<lambda>nv. (unquote_plus (before_char (CHR ''='') nv), unquote_plus (after_char (CHR ''='') nv)))
       (filter (\<lambda>nv. after_char (CHR ''='') nv \<noteq> []) (split_on (CHR ''&'') q))"

text \<open>\<^verbatim>\<open>int(query.get(name, [d])[0])\<close>.\<close>

definition query_int :: "(string \<times> string) list \<Rightarrow> string \<Rightarrow> string \<Rightarrow> int pyres" where
  "query_int q name d =
     (case int_of_str (dict_get q name d) of None \<Rightarrow> Inl ValueError | Some i \<Rightarrow> Inr i)"

subsection \<open>Request bodies\<close>

text \<open>Whether \<^verbatim>\<open>decode("utf-8")\<close> accepts the bytes.\<close>

definition in_range :: "nat \<Rightarrow> nat \<Rightarrow> char \<Rightarrow> bool" where
  "in_range a b c \<longleftrightarrow> a \<le> code c \<and> code c \<le> b"

fun utf8_valid :: "string \<Rightarrow> bool" where
  "utf8_valid [] = True"
| "utf8_valid (c # s) =
     (if code c < 128 then utf8_valid s
      else case s of
        [] \<Rightarrow> False
      | d # s2 \<Rightarrow>
        if in_range 194 223 c then is_cont d \<and> utf8_valid s2
        else (case s2 of
          [] \<Rightarrow> False
        | e # s3 \<Rightarrow>
          if in_range 224 239 c
          then (if code c = 224 then in_range 160 191 d else if code c = 237 then in_range 128 159 d else is_cont d) \<and>
               is_cont e \<and> utf8_valid s3
          else (case s3 of
            [] \<Rightarrow> False
          | f # s4 \<Rightarrow>
            in_range 240 244 c \<and>
            (if code c = 240 then in_range 144 191 d else if code c = 244 then in_range 128 143 d else is_cont d) \<and>
            is_cont e \<and> is_cont f \<and> utf8_valid s4)))"

definition read_json :: "string option \<Rightarrow> string \<Rightarrow> pyval pyres" where
  "read_json content_length rfile =
     (case int_of_str (case content_length of None \<Rightarrow> ''0'' | Some s \<Rightarrow> s) of
        None \<Rightarrow> Inl ValueError
      | Some n \<Rightarrow>
        if n \<le> 0 then Inr (PDict [])
        else let body = take (nat n) rfile in
          if \<not> utf8_valid body then Inr (PDict [])
          else (case json_loads body of None \<Rightarrow> Inr (PDict []) | Some v \<Rightarrow> Inr v))"

text \<open>\<^verbatim>\<open>payload.get(key, default)\<close> and \<^verbatim>\<open>len(items)\<close>.\<close>

definition payload_get :: "pyval \<Rightarrow> string \<Rightarrow> pyval \<Rightarrow> pyval pyres" where
  "payload_get p k d = (case p of PDict m \<Rightarrow> Inr (dict_get m k d) | _ \<Rightarrow> Inl AttributeError)"

fun val_len :: "pyval \<Rightarrow> nat pyres" where
  "val_len (PStr s) = Inr (py_len s)"
| "val_len (PList vs) = Inr (length vs)"
| "val_len (PTuple vs) = Inr (length vs)"
| "val_len (PSet vs) = Inr (length vs)"
| "val_len (PDict d) = Inr (length d)"
| "val_len _ = Inl TypeError"

subsection \<open>State and handlers\<close>

type_synonym entities = "(string, (string, string) dict) dict"

record STATE =
  next_account_id :: int
  next_package_id :: int
  next_settlement_id :: int
  accounts :: entities
  packages :: entities
  settlements :: entities

definition STATE_init :: STATE where
  "STATE_init = \<lparr>next_account_id = 1000, next_package_id = 2000, next_settlement_id = 3000,
     accounts = [], packages = [], settlements = []\<rparr>"

type_synonym reply = "int \<times> pyval"

definition ok :: "pyval \<Rightarrow> reply" where
  "ok payload = (200, PDict [(''code'', PInt 0), (''message'', PStr ''ok''), (''data'', payload)])"

definition not_found :: reply where
  "not_found = (404, PDict [(''code'', PInt 404), (''message'', PStr ''not found''), (''data'', PNone)])"

definition under :: "string \<Rightarrow> string \<Rightarrow> string \<Rightarrow> bool" where
  "under pre suf path \<longleftrightarrow> starts_with pre path \<and> ends_with suf path"

text \<open>\<^verbatim>\<open>path.split("/")[5]\<close>.\<close>

definition segment5 :: "string \<Rightarrow> string pyres" where
  "segment5 path =
     (let ws = split_on (CHR ''/'') path in if 5 < length ws then Inr (ws ! 5) else Inl IndexError)"

definition page_reply :: "(string \<times> pyval) list \<Rightarrow> pyval \<Rightarrow> (string \<times> string) list \<Rightarrow> reply pyres" where
  "page_reply front tot q =
     (case query_int q ''page'' ''1'' of
        Inl e \<Rightarrow> Inl e
      | Inr p \<Rightarrow>
        (case query_int q ''page_size'' ''20'' of
           Inl e \<Rightarrow> Inl e
         | Inr n \<Rightarrow> Inr (ok (PDict (front @ [(''page'', PInt p), (''page_size'', PInt n), (''total'', tot)])))))"

definition do_GET :: "string \<Rightarrow> reply pyres" where
  "do_GET target =
     (let path = url_path target; query = parse_qs (url_query target) in
      if under ''/api/v1/supply/accounts/'' ''/audit-logs'' path then
        (case segment5 path of
           Inl e \<Rightarrow> Inl e
         | Inr i \<Rightarrow> Inr (ok (PDict
             [(''items'', PList [PDict [(''request_id'', PStr (''req-audit-'' @ i)), (''action'', PStr ''state_change''),
                (''result'', PStr ''success'')]]),
              (''page'', PInt 1), (''page_size'', PInt 20), (''total'', PInt 1)])))
      else if path = ''/api/v1/supplier/billing'' then
        page_reply [(''summary'', PDict [(''total_amount'', PFloat (12345 / 100)), (''currency'', PStr ''USD'')]),
          (''items'', PList [])] (PInt 0) query
      else if under ''/api/v1/supply/settlements/'' ''/statement'' path then
        (case segment5 path of
           Inl e \<Rightarrow> Inl e
         | Inr i \<Rightarrow>
           (case int_of_str i of
              None \<Rightarrow> Inl ValueError
            | Some n \<Rightarrow> Inr (ok (PDict [(''settlement_id'', PInt n),
                (''download_url'', PStr (''http://127.0.0.1:18080/mock/statement/'' @ i @ ''.csv''))]))))
      else if path = ''/api/v1/supply/earnings/records'' then
        page_reply [(''items'', PList [PDict [(''record_id'', PInt 1), (''amount'', PInt 10),
          (''currency_code'', PStr ''USD''), (''status'', PStr ''available'')]])] (PInt 1) query
      else if path = ''/v1beta/models'' then
        Inr (403, PDict [(''code'', PInt 403), (''message'', PStr ''query key rejected''),
          (''data'', PDict [(''reason'', PStr ''external_query_key_forbidden'')])])
      else if path = ''/actuator/health'' then Inr (200, PDict [(''status'', PStr ''UP'')])
      else Inr not_found)"

text \<open>\<^verbatim>\<open>STATE[...].setdefault(id, {})["status"] = status\<close> and a new entity.\<close>

definition set_status :: "string \<Rightarrow> string \<Rightarrow> entities \<Rightarrow> entities" where
  "set_status i status es = AList.update i (AList.update ''status'' status (dict_get es i [])) es"

definition new_entity :: "int \<Rightarrow> string \<Rightarrow> entities \<Rightarrow> entities" where
  "new_entity i status es = AList.update (str_of_int i) [(''status'', status)] es"

definition new_reply :: "string \<Rightarrow> int \<Rightarrow> string \<Rightarrow> reply pyres" where
  "new_reply field i status = Inr (ok (PDict [(field, PInt i), (''status'', PStr status)]))"

text \<open>The reply to a status change; it is built after the change and \<^verbatim>\<open>int(id)\<close> may raise.\<close>

definition action_reply :: "string \<Rightarrow> string \<Rightarrow> string \<Rightarrow> reply pyres" where
  "action_reply field i status =
     (case int_of_str i of
        None \<Rightarrow> Inl ValueError
      | Some n \<Rightarrow> Inr (ok (PDict [(field, PInt n), (''status'', PStr status)])))"

definition account_action :: "string \<Rightarrow> string \<Rightarrow> STATE \<Rightarrow> reply pyres \<times> STATE" where
  "account_action path status st =
     (case segment5 path of
        Inl e \<Rightarrow> (Inl e, st)
      | Inr i \<Rightarrow> (action_reply ''account_id'' i status, st\<lparr>accounts := set_status i status (accounts st)\<rparr>))"

definition package_action :: "string \<Rightarrow> string \<Rightarrow> STATE \<Rightarrow> reply pyres \<times> STATE" where
  "package_action path status st =
     (case segment5 path of
        Inl e \<Rightarrow> (Inl e, st)
      | Inr i \<Rightarrow> (action_reply ''package_id'' i status, st\<lparr>packages := set_status i status (packages st)\<rparr>))"

definition settlement_action :: "string \<Rightarrow> string \<Rightarrow> STATE \<Rightarrow> reply pyres \<times> STATE" where
  "settlement_action path status st =
     (case segment5 path of
        Inl e \<Rightarrow> (Inl e, st)
      | Inr i \<Rightarrow> (action_reply ''settlement_id'' i status, st\<lparr>settlements := set_status i status (settlements st)\<rparr>))"

definition new_package :: "STATE \<Rightarrow> reply pyres \<times> STATE" where
  "new_package st =
     (let i = next_package_id st in
      (new_reply ''package_id'' i ''draft'',
       st\<lparr>next_package_id := i + 1, packages := new_entity i ''draft'' (packages st)\<rparr>))"

definition do_POST :: "string \<Rightarrow> string option \<Rightarrow> string \<Rightarrow> STATE \<Rightarrow> reply pyres \<times> STATE" where
  "do_POST target content_length rfile st =
     (let path = url_path target in
      case read_json content_length rfile of
        Inl e \<Rightarrow> (Inl e, st)
      | Inr payload \<Rightarrow>
        if path = ''/api/v1/supply/accounts/verify'' then
          (case payload_get payload ''provider'' (PStr ''openai'') of
             Inl e \<Rightarrow> Inl e
           | Inr p \<Rightarrow> Inr (ok (PDict [(''verify_status'', PStr ''pass''), (''risk_level'', PStr ''normal''),
               (''provider'', p)])), st)
        else if path = ''/api/v1/supply/accounts'' then
          (let i = next_account_id st in
           (new_reply ''account_id'' i ''pending'',
            st\<lparr>next_account_id := i + 1, accounts := new_entity i ''pending'' (accounts st)\<rparr>))
        else if under ''/api/v1/supply/accounts/'' ''/activate'' path then account_action path ''active'' st
        else if under ''/api/v1/supply/accounts/'' ''/suspend'' path then account_action path ''suspended'' st
        else if path = ''/api/v1/supply/packages/draft'' then new_package st
        else if under ''/api/v1/supply/packages/'' ''/publish'' path then package_action path ''active'' st
        else if under ''/api/v1/supply/packages/'' ''/pause'' path then package_action path ''paused'' st
        else if under ''/api/v1/supply/packages/'' ''/unlist'' path then package_action path ''expired'' st
        else if path = ''/api/v1/supply/packages/batch-price'' then
          (case payload_get payload ''items'' (PList []) of
             Inl e \<Rightarrow> Inl e
           | Inr items \<Rightarrow>
             (case val_len items of
                Inl e \<Rightarrow> Inl e
              | Inr n \<Rightarrow> Inr (ok (PDict [(''total'', PInt (int n)), (''success_count'', PInt (int n)),
                  (''failed_count'', PInt 0), (''failed_items'', PList [])]))), st)
        else if under ''/api/v1/supply/packages/'' ''/clone'' path then new_package st
        else if path = ''/api/v1/supply/settlements/withdraw'' then
          (let i = next_settlement_id st in
           (new_reply ''settlement_id'' i ''pending'',
            st\<lparr>next_settlement_id := i + 1, settlements := new_entity i ''pending'' (settlements st)\<rparr>))
        else if under ''/api/v1/supply/settlements/'' ''/cancel'' path then settlement_action path ''cancelled'' st
        else if path = ''/api/v1/chat/completions'' then
          (Inr (ok (PDict [(''id'', PStr ''chatcmpl-mock-001''), (''object'', PStr ''chat.completion''),
             (''choices'', PList [PDict [(''index'', PInt 0),
                (''message'', PDict [(''role'', PStr ''assistant''), (''content'', PStr ''pong'')]),
                (''finish_reason'', PStr ''stop'')]])])), st)
        else (Inr not_found, st))"

datatype request = Get string | Post string "string option" string

fun handle :: "request \<Rightarrow> STATE \<Rightarrow> reply pyres \<times> STATE" where
  "handle (Get target) st = (do_GET target, st)"
| "handle (Post target content_length rfile) st = do_POST target content_length rfile st"

fun serve :: "request list \<Rightarrow> STATE \<Rightarrow> reply pyres list \<times> STATE" where
  "serve [] st = ([], st)"
| "serve (r # rs) st =
     (case handle r st of (p, st1) \<Rightarrow> (case serve rs st1 of (ps, st2) \<Rightarrow> (p # ps, st2)))"

subsection \<open>Identifiers\<close>

datatype kind = Account | Package | Settlement

fun counter_of :: "kind \<Rightarrow> STATE \<Rightarrow> int" where
  "counter_of Account st = next_account_id st"
| "counter_of Package st = next_package_id st"
| "counter_of Settlement st = next_settlement_id st"

fun entities_of :: "kind \<Rightarrow> STATE \<Rightarrow> entities" where
  "entities_of Account st = accounts st"
| "entities_of Package st = packages st"
| "entities_of Settlement st = settlements st"

fun id_field :: "kind \<Rightarrow> string" where
  "id_field Account = ''account_id''"
| "id_field Package = ''package_id''"
| "id_field Settlement = ''settlement_id''"

definition new_status :: "kind \<Rightarrow> string" where
  "new_status k = (if k = Package then ''draft'' else ''pending'')"

definition creates :: "kind \<Rightarrow> string \<Rightarrow> bool" where
  "creates k path \<longleftrightarrow>
     (case k of
        Account \<Rightarrow> path = ''/api/v1/supply/accounts''
      | Package \<Rightarrow> path = ''/api/v1/supply/packages/draft''
      | Settlement \<Rightarrow> path = ''/api/v1/supply/settlements/withdraw'')"

lemmas action_defs = account_action_def package_action_def settlement_action_def new_package_def

lemma action_counter [simp]:
  "counter_of k (snd (account_action p x st)) = counter_of k st"
  "counter_of k (snd (package_action p x st)) = counter_of k st"
  "counter_of k (snd (settlement_action p x st)) = counter_of k st"
  "counter_of k st \<le> counter_of k (snd (new_package st))"
  by (cases k; simp add: action_defs Let_def split: sum.split)+

lemma counter_update [simp]:
  "counter_of k st \<le> counter_of k (st\<lparr>next_account_id := next_account_id st + 1, accounts := es\<rparr>)"
  "counter_of k st \<le> counter_of k (st\<lparr>next_settlement_id := next_settlement_id st + 1, settlements := es\<rparr>)"
  by (cases k; simp)+

lemma if_counter_mono:
  "c \<le> counter_of k (snd x) \<Longrightarrow> c \<le> counter_of k (snd y) \<Longrightarrow> c \<le> counter_of k (snd (if b then x else y))"
  by simp

lemma do_POST_counter: "counter_of k st \<le> counter_of k (snd (do_POST target cl body st))"
proof (cases "read_json cl body")
  case (Inr payload)
  show ?thesis unfolding do_POST_def Let_def Inr sum.case
    by (intro if_counter_mono) simp_all
qed (simp add: do_POST_def)

lemma handle_counter: "counter_of k st \<le> counter_of k (snd (handle r st))"
  using do_POST_counter by (cases r) simp_all

lemma serve_counter: "counter_of k st \<le> counter_of k (snd (serve rs st))"
proof (induction rs arbitrary: st)
  case (Cons r rs)
  show ?case
    using handle_counter [of k st r] Cons.IH [of "snd (handle r st)"] by (auto simp: case_prod_beta)
qed simp

lemma do_POST_create:
  assumes "creates k (url_path target)" "read_json cl body = Inr v"
  shows "do_POST target cl body st = (new_reply (id_field k) (counter_of k st) (new_status k), snd (do_POST target cl body st)) \<and>
    counter_of k (snd (do_POST target cl body st)) = counter_of k st + 1 \<and>
    entities_of k (snd (do_POST target cl body st)) = new_entity (counter_of k st) (new_status k) (entities_of k st)"
  using assms
  by (cases k) (simp_all add: do_POST_def creates_def new_status_def Let_def new_package_def under_def)

subsection \<open>Status changes\<close>

definition status_of :: "STATE \<Rightarrow> kind \<Rightarrow> string \<Rightarrow> string option" where
  "status_of st k i = (case map_of (entities_of k st) i of None \<Rightarrow> None | Some d \<Rightarrow> map_of d ''status'')"

fun base_path :: "kind \<Rightarrow> string" where
  "base_path Account = ''/api/v1/supply/accounts/''"
| "base_path Package = ''/api/v1/supply/packages/''"
| "base_path Settlement = ''/api/v1/supply/settlements/''"

definition actions :: "(kind \<times> string \<times> string) list" where
  "actions = [(Account, ''activate'', ''active''), (Account, ''suspend'', ''suspended''),
     (Package, ''publish'', ''active''), (Package, ''pause'', ''paused''), (Package, ''unlist'', ''expired''),
     (Settlement, ''cancel'', ''cancelled'')]"

lemma before_char_absent [simp]: "c \<notin> set s \<Longrightarrow> before_char c s = s"
  by (auto simp: before_char_def takeWhile_eq_all_conv)

lemma url_path_plain:
  assumes "CHR ''?'' \<notin> set s" "CHR ''#'' \<notin> set s" "CHR '';'' \<notin> set s"
  shows "url_path s = s"
proof -
  let ?ws = "split_on (CHR ''/'') s"
  have "CHR '';'' \<notin> set w" if "w \<in> set ?ws" for w
    using that assms(3) by (induction s arbitrary: w) (auto split: if_splits list.splits)
  then have "before_char (CHR '';'') (last ?ws) = last ?ws" by simp
  then have "split_params s = join_with ''/'' ?ws" by (simp add: split_params_def Let_def)
  then show ?thesis using assms by (simp add: url_path_def join_split)
qed

lemma digits_plain: "c \<in> set (str_of_nat n) \<Longrightarrow> c \<noteq> CHR ''?'' \<and> c \<noteq> CHR ''#'' \<and> c \<noteq> CHR '';'' \<and> c \<noteq> CHR ''/''"
  using str_of_nat_digits [of c n] by (auto simp: is_digit_def code_def)

lemma action_path:
  assumes "(k, a, x) \<in> set actions"
  shows "url_path (base_path k @ str_of_nat n @ ''/'' @ a) = base_path k @ str_of_nat n @ ''/'' @ a"
    and "segment5 (base_path k @ str_of_nat n @ ''/'' @ a) = Inr (str_of_nat n)"
proof -
  show "url_path (base_path k @ str_of_nat n @ ''/'' @ a) = base_path k @ str_of_nat n @ ''/'' @ a"
    using assms digits_plain by (intro url_path_plain) (auto simp: actions_def)
  have "CHR ''/'' \<notin> set (str_of_nat n)" using digits_plain by blast
  then show "segment5 (base_path k @ str_of_nat n @ ''/'' @ a) = Inr (str_of_nat n)"
    by (cases k) (simp_all add: segment5_def split_on_sep)
qed

lemma int_of_digits [simp]: "int_of_str (str_of_nat n) = Some (int n)"
  using int_of_str_str [of "int n"] by (simp add: str_of_int_def)

fun act :: "kind \<Rightarrow> string \<Rightarrow> string \<Rightarrow> STATE \<Rightarrow> reply pyres \<times> STATE" where
  "act Account = account_action"
| "act Package = package_action"
| "act Settlement = settlement_action"

lemma digits_no_prefix: "\<not> is_digit c \<Longrightarrow> str_of_nat n @ z \<noteq> c # y"
  using str_of_nat_digits [of c n] by (cases "str_of_nat n") auto

definition fixed_paths :: "string list" where
  "fixed_paths = [''/api/v1/supply/accounts/verify'', ''/api/v1/supply/accounts'', ''/api/v1/supply/packages/draft'',
     ''/api/v1/supply/packages/batch-price'', ''/api/v1/supply/settlements/withdraw'', ''/api/v1/chat/completions'']"

lemma action_path_not_fixed:
  "base_path k @ str_of_nat n @ CHR ''/'' # a \<notin> set fixed_paths"
  by (cases k) (simp_all add: fixed_paths_def digits_no_prefix is_digit_def code_def)

lemma base_path_prefix: "starts_with (base_path k') (base_path k @ z) \<longleftrightarrow> k' = k"
  by (cases k; cases k'; simp)

lemma ends_with_slash:
  assumes "CHR ''/'' \<notin> set a" "CHR ''/'' \<notin> set b"
  shows "ends_with (CHR ''/'' # a) (z @ CHR ''/'' # b) \<longleftrightarrow> a = b"
proof
  assume "ends_with (CHR ''/'' # a) (z @ CHR ''/'' # b)"
  then obtain t where "z @ CHR ''/'' # b = t @ CHR ''/'' # a" by (auto simp: ends_with_iff)
  then have "rev b @ CHR ''/'' # rev z = rev a @ CHR ''/'' # rev t" by (metis append_Cons append_Nil append_assoc rev.simps(2) rev_append)
  then show "a = b" using assms append_sep_eq [of _ "rev b" "rev a"] by simp
qed (auto simp: ends_with_iff)

lemma under_action:
  "CHR ''/'' \<notin> set a \<Longrightarrow> CHR ''/'' \<notin> set b \<Longrightarrow>
   under (base_path k') (CHR ''/'' # b) (base_path k @ str_of_nat n @ CHR ''/'' # a) \<longleftrightarrow> k' = k \<and> b = a"
  using ends_with_slash [of b a "base_path k @ str_of_nat n"] by (simp add: under_def base_path_prefix)

lemma do_POST_dispatch:
  assumes "url_path target = path" "path \<notin> set fixed_paths" "read_json cl body = Inr v"
  shows "do_POST target cl body st =
     (if under (base_path Account) ''/activate'' path then account_action path ''active'' st
      else if under (base_path Account) ''/suspend'' path then account_action path ''suspended'' st
      else if under (base_path Package) ''/publish'' path then package_action path ''active'' st
      else if under (base_path Package) ''/pause'' path then package_action path ''paused'' st
      else if under (base_path Package) ''/unlist'' path then package_action path ''expired'' st
      else if under (base_path Package) ''/clone'' path then new_package st
      else if under (base_path Settlement) ''/cancel'' path then settlement_action path ''cancelled'' st
      else (Inr not_found, st))"
  using assms(2) unfolding do_POST_def Let_def assms(1,3) sum.case fixed_paths_def
  by (simp only: base_path.simps list.set insert_iff de_Morgan_disj if_False simp_thms)

lemma do_POST_action:
  assumes "(k, a, x) \<in> set actions" "read_json cl body = Inr v"
  shows "do_POST (base_path k @ str_of_nat n @ ''/'' @ a) cl body st = act k (base_path k @ str_of_nat n @ ''/'' @ a) x st"
proof -
  define p where "p = base_path k @ str_of_nat n @ CHR ''/'' # a"
  have a: "CHR ''/'' \<notin> set a" using assms(1) by (auto simp: actions_def)
  have u: "under (base_path k') (CHR ''/'' # b) p \<longleftrightarrow> k = k' \<and> a = b" if "CHR ''/'' \<notin> set b" for k' b
    using under_action [OF a that, of k' k n] by (auto simp: p_def)
  have "url_path p = p" using action_path(1) [OF assms(1)] by (simp add: p_def)
  moreover have "p \<notin> set fixed_paths" unfolding p_def by (rule action_path_not_fixed)
  ultimately have d: "do_POST p cl body st =
     (if k = Account \<and> a = ''activate'' then account_action p ''active'' st
      else if k = Account \<and> a = ''suspend'' then account_action p ''suspended'' st
      else if k = Package \<and> a = ''publish'' then package_action p ''active'' st
      else if k = Package \<and> a = ''pause'' then package_action p ''paused'' st
      else if k = Package \<and> a = ''unlist'' then package_action p ''expired'' st
      else if k = Package \<and> a = ''clone'' then new_package st
      else if k = Settlement \<and> a = ''cancel'' then settlement_action p ''cancelled'' st
      else (Inr not_found, st))"
    using do_POST_dispatch [OF _ _ assms(2)] by (simp add: u del: base_path.simps)
  have "do_POST p cl body st = act k p x st" unfolding d using assms(1) unfolding actions_def by auto
  then show ?thesis by (simp add: p_def)
qed

lemma act_status:
  assumes "(k, a, x) \<in> set actions" "p = base_path k @ str_of_nat n @ ''/'' @ a"
  shows "fst (act k p x st) = new_reply (id_field k) (int n) x"
    and "status_of (snd (act k p x st)) k' i = (if k' = k \<and> i = str_of_nat n then Some x else status_of st k' i)"
proof -
  have seg: "segment5 p = Inr (str_of_nat n)" using action_path(2) [OF assms(1)] assms(2) by simp
  show "fst (act k p x st) = new_reply (id_field k) (int n) x"
    using seg by (cases k) (simp_all add: action_defs action_reply_def new_reply_def)
  show "status_of (snd (act k p x st)) k' i = (if k' = k \<and> i = str_of_nat n then Some x else status_of st k' i)"
    using seg by (cases k; cases k') (simp_all add: action_defs status_of_def set_status_def)
qed

subsection \<open>Properties\<close>



text \<open>
  A status change of a numbered entity (activate, suspend, publish, pause, unlist,
  cancel) is answered with its number and new status and sets the status of that entity, whether it
  was known or not, and of no other.
\<close>

lemma mock_action_sets_status:
  assumes "(k, a, x) \<in> set actions" "read_json cl body = Inr v"
    and "handle (Post (base_path k @ str_of_nat n @ ''/'' @ a) cl body) st = (r, st')"
  shows "r = new_reply (id_field k) (int n) x \<and>
    (\<forall>k' i. status_of st' k' i = (if k' = k \<and> i = str_of_nat n then Some x else status_of st k' i)) \<and>
    (\<forall>k'. counter_of k' st' = counter_of k' st)"
proof -
  have h: "act k (base_path k @ str_of_nat n @ ''/'' @ a) x st = (r, st')"
    using assms(3) do_POST_action [OF assms(1,2)] by simp
  have "counter_of k' (snd (act k p x st)) = counter_of k' st" for k' p by (cases k) simp_all
  then show ?thesis using act_status [OF assms(1) refl, of n st] h by (metis fst_conv snd_conv)
qed

text \<open>
  A status change under an identifier that is no number raises, so the client gets no
  answer, but the change has been made.
\<close>

lemma mock_bad_id_still_stored:
  assumes "url_path target = ''/api/v1/supply/accounts/'' @ name @ ''/activate''" "CHR ''/'' \<notin> set name"
    and "int_of_str name = None" "read_json cl body = Inr v"
    and "handle (Post target cl body) st = (r, st')"
  shows "r = Inl ValueError \<and> status_of st' Account name = Some ''active''"
proof -
  let ?p = "base_path Account @ name @ ''/activate''"
  have seg: "segment5 ?p = Inr name" using assms(2) by (simp add: segment5_def split_on_sep)
  have under: "under (base_path Account) ''/activate'' ?p"
    using ends_with_slash [of "''activate''" "''activate''" "base_path Account @ name"]
    by (simp add: under_def base_path_prefix del: base_path.simps)
  have "?p \<noteq> ''/api/v1/supply/accounts/verify''"
    using assms(2) by (auto dest: arg_cong [of _ _ rev])
  then have "do_POST target cl body st = account_action ?p ''active'' st"
    using assms(1,4) under by (simp add: do_POST_def)
  then show ?thesis
    using assms(3,5) seg by (auto simp: account_action_def action_reply_def status_of_def set_status_def)
qed

end
