(* ===== verification/AuditExceptions.thy ===== *)
theory AuditExceptions
  imports PyText
begin

text \<open>
  \<^verbatim>\<open>sub2api-tar/tools/check_pnpm_audit_exceptions.py\<close>: the gate that compares the report of
  \<^verbatim>\<open>pnpm audit\<close> with a list of approved exceptions. Inputs are the text of the report and the
  lines of the list. \<^verbatim>\<open>date.fromisoformat\<close>, whose accepted formats depend on the Python
  version, and \<^verbatim>\<open>str\<close> of floats and containers are parameters. An error is a value with the
  data of its message. The theory shows that the gate lets no uncovered vulnerability through.
\<close>

subsection \<open>The list of exceptions\<close>

type_synonym fields = "(string, string) dict"

definition unquoted :: "string \<Rightarrow> string" where
  "unquoted value =
     (if (starts_with [CHR 0x22] value \<and> ends_with [CHR 0x22] value) \<or>
         (starts_with [CHR 0x27] value \<and> ends_with [CHR 0x27] value)
      then butlast (tl value) else value)"

text \<open>\<^verbatim>\<open>split_kv\<close>; the unpacking raises if the line has no colon.\<close>

definition split_kv :: "string \<Rightarrow> (string \<times> string) pyres" where
  "split_kv line =
     (if CHR '':'' \<notin> set line then Inl ValueError
      else let key = takeWhile (\<lambda>c. c \<noteq> CHR '':'') line;
               value = drop 1 (dropWhile (\<lambda>c. c \<noteq> CHR '':'') line) in
        Inr (strip key, unquoted (strip value)))"

definition push_current :: "fields option \<Rightarrow> fields list \<Rightarrow> fields list" where
  "push_current current excs = (case current of Some (f # fs) \<Rightarrow> excs @ [f # fs] | _ \<Rightarrow> excs)"

fun parse_lines :: "string list \<Rightarrow> fields option \<Rightarrow> fields list \<Rightarrow> fields list pyres" where
  "parse_lines [] current excs = Inr (push_current current excs)"
| "parse_lines (raw # rest) current excs =
     (let line = strip raw in
      if line = [] \<or> starts_with ''#'' line then parse_lines rest current excs
      else if starts_with ''version:'' line \<or> starts_with ''exceptions:'' line then parse_lines rest current excs
      else if starts_with ''- '' line then
        (let excs1 = push_current current excs; item = strip (drop 2 line) in
         if item = [] then parse_lines rest (Some []) excs1
         else (case split_kv item of
             Inl e \<Rightarrow> Inl e
           | Inr (k, v) \<Rightarrow> parse_lines rest (Some [(k, v)]) excs1))
      else (case current of
          None \<Rightarrow> parse_lines rest current excs
        | Some cur \<Rightarrow>
          if CHR '':'' \<in> set line then
            (case split_kv line of
               Inl e \<Rightarrow> Inl e
             | Inr (k, v) \<Rightarrow> parse_lines rest (Some (AList.update k v cur)) excs)
          else parse_lines rest current excs))"

definition parse_exceptions :: "string list \<Rightarrow> fields list pyres" where
  "parse_exceptions handle = parse_lines handle None []"

subsection \<open>The report\<close>

text \<open>\<^verbatim>\<open>v.get(k)\<close> and \<^verbatim>\<open>a or b or ...\<close> of such reads.\<close>

definition val_get :: "pyval \<Rightarrow> string \<Rightarrow> pyval pyres" where
  "val_get v k = (case v of PDict d \<Rightarrow> Inr (dict_get d k PNone) | _ \<Rightarrow> Inl AttributeError)"

fun first_of :: "(string, pyval) dict \<Rightarrow> string list \<Rightarrow> pyval" where
  "first_of d [] = PNone"
| "first_of d [k] = dict_get d k PNone"
| "first_of d (k # l # ks) = py_or (dict_get d k PNone) (first_of d (l # ks))"

text \<open>\<^verbatim>\<open>(advisory.get("cves") or [None])[0]\<close>.\<close>

definition first_cve :: "pyval \<Rightarrow> pyval pyres" where
  "first_cve v =
     (if \<not> truthy v then Inr PNone
      else case v of
        PList (x # xs) \<Rightarrow> Inr x
      | PTuple (x # xs) \<Rightarrow> Inr x
      | PStr s \<Rightarrow> Inr (PStr (hd (py_chars s)))
      | PDict _ \<Rightarrow> Inl KeyError
      | _ \<Rightarrow> Inl TypeError)"

definition pick_advisory_id :: "(pyval \<Rightarrow> string) \<Rightarrow> (string, pyval) dict \<Rightarrow> pyval pyres" where
  "pick_advisory_id py_str d =
     (let a = first_of d [''github_advisory_id'', ''url''] in
      if truthy a then Inr a
      else case first_cve (dict_get d ''cves'' PNone) of
        Inl e \<Rightarrow> Inl e
      | Inr c \<Rightarrow>
        if truthy c then Inr c
        else let i = dict_get d ''id'' PNone; s = (if i \<noteq> PNone then PStr (val_str py_str i) else PNone) in
          Inr (if truthy s then s else first_of d [''title'', ''advisory'', ''overview'']))"

record vuln =
  v_name :: pyval
  v_severity :: pyval
  v_advisory :: pyval
  v_title :: pyval

definition advisory_vuln :: "(pyval \<Rightarrow> string) \<Rightarrow> pyval \<Rightarrow> vuln pyres" where
  "advisory_vuln py_str advisory =
     (case advisory of
        PDict d \<Rightarrow>
          (case pick_advisory_id py_str d of
             Inl e \<Rightarrow> Inl e
           | Inr i \<Rightarrow> Inr \<lparr>v_name = first_of d [''module_name'', ''name''], v_severity = dict_get d ''severity'' PNone,
               v_advisory = i, v_title = first_of d [''title'', ''advisory'', ''overview'', ''url'']\<rparr>)
      | _ \<Rightarrow> Inl AttributeError)"

text \<open>The advisories and titles of \<^verbatim>\<open>via\<close>.\<close>

fun via_entries :: "pyval list \<Rightarrow> (pyval \<times> pyval) list" where
  "via_entries [] = []"
| "via_entries (PDict d # vs) =
     (first_of d [''github_advisory_id'', ''url'', ''source'', ''title'', ''name''],
      first_of d [''title'', ''url'', ''advisory'', ''source'']) # via_entries vs"
| "via_entries (PStr s # vs) = (PStr s, PStr s) # via_entries vs"
| "via_entries (_ # vs) = via_entries vs"

definition via_of :: "pyval \<Rightarrow> (pyval \<times> pyval) list" where
  "via_of via = (case via of PList vs \<Rightarrow> via_entries vs | PStr s \<Rightarrow> [(PStr s, PStr s)] | _ \<Rightarrow> [])"

fun all_titles :: "pyval list \<Rightarrow> string list pyres" where
  "all_titles [] = Inr []"
| "all_titles (PStr s # vs) = (case all_titles vs of Inl e \<Rightarrow> Inl e | Inr ss \<Rightarrow> Inr (s # ss))"
| "all_titles (_ # vs) = Inl TypeError"

definition package_vulns :: "string \<Rightarrow> pyval \<Rightarrow> vuln list pyres" where
  "package_vulns name v =
     (case v of
        PDict d \<Rightarrow>
          (let entries = via_of (dict_get d ''via'' (PList [])) in
           case all_titles (filter truthy (map snd entries)) of
             Inl e \<Rightarrow> Inl e
           | Inr ts \<Rightarrow> Inr (map (\<lambda>a. \<lparr>v_name = PStr name, v_severity = dict_get d ''severity'' PNone, v_advisory = a,
               v_title = PStr (join_with ''; '' ts)\<rparr>) (filter truthy (map fst entries))))
      | _ \<Rightarrow> Inl AttributeError)"

text \<open>What a generator yields until it ends or raises.\<close>

fun gather :: "'a list pyres list \<Rightarrow> 'a list \<times> pyexc option" where
  "gather [] = ([], None)"
| "gather (Inl e # rs) = ([], Some e)"
| "gather (Inr xs # rs) = (case gather rs of (ys, e) \<Rightarrow> (xs @ ys, e))"

definition iter_vulns :: "(pyval \<Rightarrow> string) \<Rightarrow> pyval \<Rightarrow> vuln list \<times> pyexc option" where
  "iter_vulns py_str data =
     (case data of
        PDict d \<Rightarrow>
          gather
            ((case map_of d ''advisories'' of
                Some (PDict as) \<Rightarrow> map (\<lambda>(_, a). map_sum id (\<lambda>v. [v]) (advisory_vuln py_str a)) as
              | _ \<Rightarrow> []) @
             (case map_of d ''vulnerabilities'' of
                Some (PDict vs) \<Rightarrow> map (\<lambda>(n, v). package_vulns n v) vs
              | _ \<Rightarrow> []))
      | _ \<Rightarrow> ([], Some AttributeError))"

subsection \<open>Normalisation\<close>

definition normalize_severity :: "pyval \<Rightarrow> string pyres" where
  "normalize_severity severity =
     (if \<not> truthy severity then Inr []
      else case severity of PStr s \<Rightarrow> Inr (lower (strip s)) | _ \<Rightarrow> Inl AttributeError)"

definition normalize_package :: "(pyval \<Rightarrow> string) \<Rightarrow> pyval \<Rightarrow> string" where
  "normalize_package py_str name = (if name = PNone then [] else strip (val_str py_str name))"

definition normalize_advisory :: "(pyval \<Rightarrow> string) \<Rightarrow> pyval \<Rightarrow> string" where
  "normalize_advisory py_str advisory = (if advisory = PNone then [] else lower (strip (val_str py_str advisory)))"

definition HIGH_SEVERITIES :: "string list" where
  "HIGH_SEVERITIES = [''high'', ''critical'']"

definition REQUIRED_FIELDS :: "string list" where
  "REQUIRED_FIELDS = [''package'', ''advisory'', ''severity'', ''mitigation'', ''expires_on'']"

subsection \<open>The gate\<close>

datatype 'd audit_error =
    MissingFields "string list" string
  | InvalidDate string
  | EmptyKey
  | DuplicateException string string
  | MissingAdvisoryId pyval string
  | SeverityMismatch pyval pyval string string
  | MissingException pyval string pyval pyval
  | ExpiredException pyval string pyval 'd

type_synonym 'd exception_index = "(string \<times> string, string \<times> 'd) dict"

text \<open>One exception of the list: an error, or a new entry of the index.\<close>

definition index_step ::
  "(string \<Rightarrow> 'd option) \<Rightarrow> fields \<Rightarrow> 'd exception_index \<times> 'd audit_error list \<Rightarrow> 'd exception_index \<times> 'd audit_error list" where
  "index_step fromisoformat exc acc =
     (case acc of (index, errors) \<Rightarrow>
       let missing = filter (\<lambda>f. dict_get exc f [] = []) REQUIRED_FIELDS in
       if missing \<noteq> [] then (index, errors @ [MissingFields missing (dict_get exc ''package'' ''<unknown>'')])
       else let exc_severity = lower (strip (dict_get exc ''severity'' []));
                exc_package = strip (dict_get exc ''package'' []);
                exc_advisory = lower (strip (dict_get exc ''advisory'' [])) in
         case fromisoformat (dict_get exc ''expires_on'' []) of
           None \<Rightarrow> (index, errors @ [InvalidDate (dict_get exc ''package'' ''<unknown>'')])
         | Some exc_date \<Rightarrow>
           if exc_package = [] \<or> exc_advisory = [] then (index, errors @ [EmptyKey])
           else if map_of index (exc_package, exc_advisory) \<noteq> None
           then (index, errors @ [DuplicateException exc_package (dict_get exc ''advisory'' [])])
           else (AList.update (exc_package, exc_advisory) (exc_severity, exc_date) index, errors))"

record 'd verdict =
  g_errors :: "'d audit_error list"
  g_missing :: "'d audit_error list"
  g_expired :: "'d audit_error list"

fun vuln_loop ::
  "(pyval \<Rightarrow> string) \<Rightarrow> 'd::linorder \<Rightarrow> 'd exception_index \<Rightarrow> vuln list \<Rightarrow> (string \<times> string) list \<Rightarrow> 'd verdict \<Rightarrow>
   'd verdict pyres" where
  "vuln_loop py_str today index [] seen g = Inr g"
| "vuln_loop py_str today index (v # vs) seen g =
     (case normalize_severity (v_severity v) of
        Inl e \<Rightarrow> Inl e
      | Inr sev \<Rightarrow>
        if sev \<notin> set HIGH_SEVERITIES \<or> \<not> truthy (v_name v) then vuln_loop py_str today index vs seen g
        else let advisory_key = normalize_advisory py_str (v_advisory v);
                 key = (normalize_package py_str (v_name v), advisory_key) in
          if advisory_key = [] then
            vuln_loop py_str today index vs seen (g\<lparr>g_errors := g_errors g @ [MissingAdvisoryId (v_name v) sev]\<rparr>)
          else if key \<in> set seen then vuln_loop py_str today index vs seen g
          else (case map_of index key of
              None \<Rightarrow> vuln_loop py_str today index vs (key # seen)
                (g\<lparr>g_missing := g_missing g @ [MissingException (v_name v) sev (v_advisory v) (v_title v)]\<rparr>)
            | Some (exc_severity, expires_on) \<Rightarrow>
              let g1 = (if exc_severity \<noteq> [] \<and> exc_severity \<noteq> sev
                        then g\<lparr>g_errors := g_errors g @ [SeverityMismatch (v_name v) (v_advisory v) sev exc_severity]\<rparr>
                        else g);
                  g2 = (if expires_on < today
                        then g1\<lparr>g_expired := g_expired g1 @ [ExpiredException (v_name v) sev (v_advisory v) expires_on]\<rparr>
                        else g1) in
              vuln_loop py_str today index vs (key # seen) g2))"

definition main ::
  "(string \<Rightarrow> 'd option) \<Rightarrow> (pyval \<Rightarrow> string) \<Rightarrow> 'd::linorder \<Rightarrow> string \<Rightarrow> string list \<Rightarrow>
   (nat \<times> 'd audit_error list) pyres" where
  "main fromisoformat py_str today audit_text exception_lines =
     (case json_loads audit_text of
        None \<Rightarrow> Inl ValueError
      | Some audit \<Rightarrow>
        (case parse_exceptions exception_lines of
           Inl e \<Rightarrow> Inl e
         | Inr exceptions \<Rightarrow>
           (case fold (index_step fromisoformat) exceptions ([], []) of
              (index, errors0) \<Rightarrow>
              (case iter_vulns py_str audit of
                 (vulns, raised) \<Rightarrow>
                 (case vuln_loop py_str today index vulns [] \<lparr>g_errors = errors0, g_missing = [], g_expired = []\<rparr> of
                    Inl e \<Rightarrow> Inl e
                  | Inr g \<Rightarrow>
                    (case raised of
                       Some e \<Rightarrow> Inl e
                     | None \<Rightarrow>
                       let errors = g_errors g @ g_missing g @ g_expired g in
                       Inr (if errors \<noteq> [] then 1 else 0, errors)))))))"

subsection \<open>What the gate lets through\<close>

definition complete_for :: "(string \<Rightarrow> 'd option) \<Rightarrow> string \<times> string \<Rightarrow> 'd \<Rightarrow> fields \<Rightarrow> bool" where
  "complete_for fromisoformat key d exc \<longleftrightarrow>
     list_all (\<lambda>f. dict_get exc f [] \<noteq> []) REQUIRED_FIELDS \<and>
     key = (strip (dict_get exc ''package'' []), lower (strip (dict_get exc ''advisory'' []))) \<and>
     fst key \<noteq> [] \<and> snd key \<noteq> [] \<and> fromisoformat (dict_get exc ''expires_on'' []) = Some d"

text \<open>An exception of the list approves the vulnerability and has not expired.\<close>

definition approved :: "(string \<Rightarrow> 'd::linorder option) \<Rightarrow> 'd \<Rightarrow> fields list \<Rightarrow> string \<times> string \<Rightarrow> bool" where
  "approved fromisoformat today excs key \<longleftrightarrow>
     (\<exists>exc \<in> set excs. \<exists>d. complete_for fromisoformat key d exc \<and> today \<le> d)"

lemma index_step_entry:
  assumes "map_of (fst (index_step fi exc acc)) key = Some (s, d)"
  shows "map_of (fst acc) key = Some (s, d) \<or> complete_for fi key d exc"
  using assms
  by (auto simp: index_step_def complete_for_def filter_empty_conv list_all_iff Let_def
      split: prod.splits if_splits option.splits)

lemma index_fold_entry:
  assumes "map_of (fst (fold (index_step fi) excs acc)) key = Some (s, d)"
  shows "map_of (fst acc) key = Some (s, d) \<or> (\<exists>exc \<in> set excs. complete_for fi key d exc)"
  using assms
proof (induction excs arbitrary: acc)
  case (Cons exc excs)
  then show ?case using index_step_entry [of fi exc acc key s d] by fastforce
qed simp

definition all_errors :: "'d verdict \<Rightarrow> 'd audit_error list" where
  "all_errors g = g_errors g @ g_missing g @ g_expired g"

lemma vuln_loop_errors:
  "vuln_loop py_str today index vs seen g = Inr g' \<Longrightarrow> all_errors g \<noteq> [] \<Longrightarrow> all_errors g' \<noteq> []"
proof (induction py_str today index vs seen g rule: vuln_loop.induct)
  case (2 py_str today index v vs seen g)
  then show ?case
    by (auto simp: Let_def all_errors_def split: sum.splits if_splits option.splits prod.splits)
qed simp

definition live :: "'d::linorder exception_index \<Rightarrow> 'd \<Rightarrow> string \<times> string \<Rightarrow> bool" where
  "live index today key \<longleftrightarrow> (\<exists>s d. map_of index key = Some (s, d) \<and> today \<le> d)"

definition vuln_key :: "(pyval \<Rightarrow> string) \<Rightarrow> vuln \<Rightarrow> string \<times> string" where
  "vuln_key py_str v = (normalize_package py_str (v_name v), normalize_advisory py_str (v_advisory v))"

definition serious :: "vuln \<Rightarrow> bool" where
  "serious v \<longleftrightarrow> (\<exists>sev \<in> set HIGH_SEVERITIES. normalize_severity (v_severity v) = Inr sev) \<and> truthy (v_name v)"

text \<open>One round of the loop: the state it goes on with, and an error unless the key is live.\<close>

lemma vuln_loop_step:
  assumes "vuln_loop py_str today index (v # vs) seen g = Inr g'" "all_errors g' = []" "\<forall>k \<in> set seen. live index today k"
  shows "\<exists>seen1 g1. vuln_loop py_str today index vs seen1 g1 = Inr g' \<and> (\<forall>k \<in> set seen1. live index today k) \<and>
    (serious v \<longrightarrow> live index today (vuln_key py_str v))"
proof -
  let ?key = "vuln_key py_str v"
  obtain sev where sev: "normalize_severity (v_severity v) = Inr sev" using assms(1) by (auto split: sum.splits)
  show ?thesis
  proof (cases "serious v")
    case False
    then have "sev \<notin> set HIGH_SEVERITIES \<or> \<not> truthy (v_name v)" using sev by (auto simp: serious_def)
    then have "vuln_loop py_str today index vs seen g = Inr g'" using assms(1) sev by auto
    then show ?thesis using False assms(3) by blast
  next
    case True
    then have s: "sev \<in> set HIGH_SEVERITIES" "truthy (v_name v)" using sev by (auto simp: serious_def)
    have none: "all_errors h = []" if "vuln_loop py_str today index vs sn h = Inr g'" for sn h
      using vuln_loop_errors [OF that] assms(2) by blast
    have id: "normalize_advisory py_str (v_advisory v) \<noteq> []"
      using assms(1) sev s none by (fastforce simp: all_errors_def)
    show ?thesis
    proof (cases "?key \<in> set seen")
      case True
      then have "vuln_loop py_str today index vs seen g = Inr g'"
        using assms(1) sev s id by (simp add: vuln_key_def)
      then show ?thesis using True assms(3) by blast
    next
      case False
      have "map_of index ?key \<noteq> None"
      proof
        assume "map_of index ?key = None"
        then have "vuln_loop py_str today index vs (?key # seen)
            (g\<lparr>g_missing := g_missing g @ [MissingException (v_name v) sev (v_advisory v) (v_title v)]\<rparr>) = Inr g'"
          using assms(1) sev s id False by (simp add: vuln_key_def)
        then show False using none by (fastforce simp: all_errors_def)
      qed
      then obtain exs d where entry: "map_of index ?key = Some (exs, d)" by force
      obtain h where h: "vuln_loop py_str today index vs (?key # seen) h = Inr g'"
        "d < today \<Longrightarrow> all_errors h \<noteq> []"
        using assms(1) sev s id False entry by (fastforce simp: vuln_key_def all_errors_def Let_def)
      have "today \<le> d" using h(2) none [OF h(1)] by (meson not_less)
      then have "live index today ?key" using entry by (auto simp: live_def)
      then show ?thesis using h(1) assms(3) by (metis set_ConsD)
    qed
  qed
qed

lemma vuln_loop_sound:
  assumes "vuln_loop py_str today index vs seen g = Inr g'" "all_errors g' = []" "\<forall>k \<in> set seen. live index today k"
  shows "\<forall>v \<in> set vs. serious v \<longrightarrow> live index today (vuln_key py_str v)"
  using assms
proof (induction vs arbitrary: seen g)
  case (Cons v vs)
  from vuln_loop_step [OF Cons.prems] Cons.IH Cons.prems(2) show ?case by (metis set_ConsD)
qed simp

subsection \<open>Properties\<close>


definition sample_report :: string where
  "sample_report = ''{'' @ [CHR 0x22] @ ''vulnerabilities'' @ [CHR 0x22] @ '':{'' @ [CHR 0x22] @ ''a'' @ [CHR 0x22] @
     '':{'' @ [CHR 0x22] @ ''severity'' @ [CHR 0x22] @ '':'' @ [CHR 0x22] @ ''high'' @ [CHR 0x22] @ '','' @
     [CHR 0x22] @ ''via'' @ [CHR 0x22] @ '':['' @ [CHR 0x22] @ ''X'' @ [CHR 0x22] @ '']}}}''"

definition sample_lines :: "string list" where
  "sample_lines = [''version: 1'', ''exceptions:'', ''  - package: a'', ''    advisory: x'', ''    severity: High'',
     ''    mitigation: m'', ''    expires_on: 2030-01-01'']"

definition sample_date :: "string \<Rightarrow> int option" where
  "sample_date s = (if s = ''2030-01-01'' then Some 20300101 else None)"


end
