(* ===== verification/Duration.thy ===== *)
theory Duration
  imports PyText Calendar
begin

text \<open>
  \<^verbatim>\<open>litellm_core_utils/duration_parser.py\<close>: durations such as \<^verbatim>\<open>30d\<close> or \<^verbatim>\<open>1mo\<close> and the
  time at which a budget is reset next. The time-zone database is a parameter. The theory shows that
  printed durations are read back, how long a duration in months is, and where the next reset lies.
\<close>

subsection \<open>Durations in seconds\<close>

text \<open>\<^verbatim>\<open>(\d+)(mo|[smhdw]?)\<close> at the start of the text.\<close>

definition extract_from_regex :: "string \<Rightarrow> (int \<times> string) pyres" where
  "extract_from_regex duration =
     (let ds = takeWhile is_digit duration; rest = dropWhile is_digit duration in
      if ds = [] then Inl ValueError
      else Inr (int (dec_value ds),
        if starts_with ''mo'' rest then ''mo''
        else case rest of c # _ \<Rightarrow> (if c \<in> set ''smhdw'' then [c] else []) | [] \<Rightarrow> []))"

definition get_last_day_of_month :: "int \<Rightarrow> int \<Rightarrow> int pyres" where
  "get_last_day_of_month y m =
     (if m = 12 then Inr 31
      else case mk_date y (m + 1) 1 of
        Inl e \<Rightarrow> Inl e
      | Inr next_month \<Rightarrow> (case add_days next_month (- 1) of Inl e \<Rightarrow> Inl e | Inr t \<Rightarrow> Inr (day t)))"

text \<open>The branch of \<^verbatim>\<open>duration_in_seconds\<close> for months; \<open>now\<close> is the local time.\<close>

definition months_in_seconds :: "datetime \<Rightarrow> int \<Rightarrow> int pyres" where
  "months_in_seconds now value =
     (let total_months = month now - 1 + value;
          target_year = year now + total_months div 12;
          target_month = total_months mod 12 + 1 in
      case get_last_day_of_month target_year target_month of
        Inl e \<Rightarrow> Inl e
      | Inr last_day \<Rightarrow>
        let target_day = (if last_day < day now then last_day else day now) in
        (case mk_date target_year target_month target_day of
           Inl e \<Rightarrow> Inl e
         | Inr d \<Rightarrow>
           let next_month = d\<lparr>hour := hour now, minute := minute now, second := second now,
                 microsecond := microsecond now\<rparr> in
           Inr ((wall next_month - wall now) div 1000000)))"

definition duration_in_seconds :: "datetime \<Rightarrow> string \<Rightarrow> int pyres" where
  "duration_in_seconds now duration =
     (case extract_from_regex duration of
        Inl e \<Rightarrow> Inl e
      | Inr (value, unit) \<Rightarrow>
        if unit = ''s'' then Inr value
        else if unit = ''m'' then Inr (value * 60)
        else if unit = ''h'' then Inr (value * 3600)
        else if unit = ''d'' then Inr (value * 86400)
        else if unit = ''w'' then Inr (value * 604800)
        else if unit = ''mo'' then months_in_seconds now value
        else Inl ValueError)"

subsection \<open>The next reset\<close>

definition setup_timezone ::
  "(string \<Rightarrow> 'z option) \<Rightarrow> 'z \<Rightarrow> ('z \<Rightarrow> 'i \<Rightarrow> datetime) \<Rightarrow> 'i \<Rightarrow> string option \<Rightarrow> datetime \<times> 'z" where
  "setup_timezone zone_info utc astimezone current_time timezone_str =
     (let tz = (case timezone_str of
                  None \<Rightarrow> utc
                | Some s \<Rightarrow> (case zone_info s of None \<Rightarrow> utc | Some z \<Rightarrow> z)) in
      (astimezone tz current_time, tz))"

text \<open>\<^verbatim>\<open>(\d+)([a-z]+)\<close> at the start of the text.\<close>

definition is_az :: "char \<Rightarrow> bool" where
  "is_az c \<longleftrightarrow> 97 \<le> code c \<and> code c \<le> 122"

definition parse_duration :: "string \<Rightarrow> (int \<times> string) option" where
  "parse_duration duration =
     (let ds = takeWhile is_digit duration; us = takeWhile is_az (dropWhile is_digit duration) in
      if ds = [] \<or> us = [] then None else Some (int (dec_value ds), us))"

definition first_of_next_month :: "datetime \<Rightarrow> datetime pyres" where
  "first_of_next_month t = (if month t = 12 then mk_date (year t + 1) 1 1 else mk_date (year t) (month t + 1) 1)"

definition handle_day_reset :: "datetime \<Rightarrow> datetime \<Rightarrow> int \<Rightarrow> datetime pyres" where
  "handle_day_reset current_time base_midnight value =
     (if value = 0 then Inr current_time
      else if value = 1 then add_days base_midnight 1
      else if value = 7 then
        (let days_until_monday = (7 - weekday current_time) mod 7 in
         add_days base_midnight (if days_until_monday = 0 then 7 else days_until_monday))
      else if value = 30 then first_of_next_month current_time
      else add_days (midnight current_time) value)"

text \<open>\<^verbatim>\<open>x + value - (x % value) if x % value != 0 else x + value\<close>.\<close>

definition next_aligned :: "int \<Rightarrow> int \<Rightarrow> int" where
  "next_aligned x value = (if x mod value \<noteq> 0 then x + value - x mod value else x + value)"

text \<open>The end of the three handlers below: today, or overnight on the next day.\<close>

definition at_time :: "datetime \<Rightarrow> datetime \<Rightarrow> int \<Rightarrow> int \<Rightarrow> int \<Rightarrow> datetime pyres" where
  "at_time current_time base_midnight next_hour next_minute next_second =
     (if 24 \<le> next_hour then
        (case add_days base_midnight 1 of
           Inl e \<Rightarrow> Inl e
         | Inr next_day \<Rightarrow> Inr (next_day\<lparr>hour := next_hour mod 24, minute := next_minute, second := next_second,
             microsecond := 0\<rparr>))
      else Inr (current_time\<lparr>hour := next_hour, minute := next_minute, second := next_second, microsecond := 0\<rparr>))"

definition handle_hour_reset :: "datetime \<Rightarrow> datetime \<Rightarrow> int \<Rightarrow> datetime pyres" where
  "handle_hour_reset current_time base_midnight value =
     (if value = 0 then Inr current_time
      else at_time current_time base_midnight (next_aligned (hour current_time) value) 0 0)"

definition handle_minute_reset :: "datetime \<Rightarrow> datetime \<Rightarrow> int \<Rightarrow> datetime pyres" where
  "handle_minute_reset current_time base_midnight value =
     (if value = 0 then Inr current_time
      else let next_minute = next_aligned (minute current_time) value in
        at_time current_time base_midnight (hour current_time + next_minute div 60) (next_minute mod 60) 0)"

definition handle_second_reset :: "datetime \<Rightarrow> datetime \<Rightarrow> int \<Rightarrow> datetime pyres" where
  "handle_second_reset current_time base_midnight value =
     (if value = 0 then Inr current_time
      else let next_second = next_aligned (second current_time) value;
               next_minute = minute current_time + next_second div 60 in
        at_time current_time base_midnight (hour current_time + next_minute div 60) (next_minute mod 60)
          (next_second mod 60))"

definition handle_month_reset :: "datetime \<Rightarrow> int \<Rightarrow> datetime pyres" where
  "handle_month_reset current_time value =
     (if value \<noteq> 1 then Inl ValueError else first_of_next_month current_time)"

definition get_next_standardized_reset_time ::
  "(string \<Rightarrow> 'z option) \<Rightarrow> 'z \<Rightarrow> ('z \<Rightarrow> 'i \<Rightarrow> datetime) \<Rightarrow> string \<Rightarrow> 'i \<Rightarrow> string option \<Rightarrow> datetime pyres" where
  "get_next_standardized_reset_time zone_info utc astimezone duration now timezone_str =
     (case setup_timezone zone_info utc astimezone now timezone_str of
        (current_time, tz) \<Rightarrow>
        (case parse_duration duration of
           None \<Rightarrow> add_days (midnight current_time) 1
         | Some (value, unit) \<Rightarrow>
           let base_midnight = midnight current_time in
           if unit = ''d'' then handle_day_reset current_time base_midnight value
           else if unit = ''h'' then handle_hour_reset current_time base_midnight value
           else if unit = ''m'' then handle_minute_reset current_time base_midnight value
           else if unit = ''s'' then handle_second_reset current_time base_midnight value
           else if unit = ''mo'' then handle_month_reset current_time value
           else add_days base_midnight 1))"

subsection \<open>Parsing\<close>

lemma dec_value_snoc: "dec_value (ds @ [c]) = 10 * dec_value ds + (code c - 48)"
  by (simp add: dec_value_def)

lemma dec_value_str [simp]: "dec_value (str_of_nat n) = n"
proof (induction n rule: str_of_nat.induct)
  case (1 n)
  show ?case
  proof (cases "n < 10")
    case True
    then show ?thesis by (simp add: str_of_nat.simps [of n] dec_value_def)
  next
    case False
    then show ?thesis using 1 by (simp add: str_of_nat.simps [of n] dec_value_snoc)
  qed
qed

lemma digits_split:
  assumes "u = [] \<or> \<not> is_digit (hd u)"
  shows "takeWhile is_digit (str_of_nat n @ u) = str_of_nat n" "dropWhile is_digit (str_of_nat n @ u) = u"
proof -
  have "\<forall>c \<in> set (str_of_nat n). is_digit c" using str_of_nat_digits by blast
  then show "takeWhile is_digit (str_of_nat n @ u) = str_of_nat n" "dropWhile is_digit (str_of_nat n @ u) = u"
    using assms by (cases u; simp)+
qed

definition UNITS :: "string list" where
  "UNITS = [''s'', ''m'', ''h'', ''d'', ''w'', ''mo'']"

lemma unit_chars: "u \<in> set UNITS \<Longrightarrow> u \<noteq> [] \<and> \<not> is_digit (hd u) \<and> (\<forall>c \<in> set u. is_az c)"
  by (auto simp: UNITS_def is_digit_def is_az_def code_def)

text \<open>Both parsers read back a printed duration.\<close>

lemma extract_printed:
  assumes "u \<in> set UNITS"
  shows "extract_from_regex (str_of_nat n @ u) = Inr (int n, u)"
  using assms digits_split [of u n] unit_chars [OF assms]
  by (auto simp: extract_from_regex_def Let_def UNITS_def)

lemma parse_printed:
  assumes "u \<in> set UNITS"
  shows "parse_duration (str_of_nat n @ u) = Some (int n, u)"
proof -
  have "takeWhile is_az u = u" using unit_chars [OF assms] by (auto simp: takeWhile_eq_all_conv)
  then show ?thesis
    using digits_split [of u n] unit_chars [OF assms] unfolding parse_duration_def Let_def by (metis str_of_nat_nonempty dec_value_str)
qed

subsection \<open>Months\<close>

lemma last_day_correct:
  assumes "1 \<le> y" "y \<le> 9999" "1 \<le> m" "m \<le> 12"
  shows "get_last_day_of_month y m = Inr (days_in_month y m)"
proof (cases "m = 12")
  case True
  then show ?thesis by (simp add: get_last_day_of_month_def days_in_month_def)
next
  case False
  let ?t = "\<lparr>year = y, month = m + 1, day = 1, hour = 0, minute = 0, second = 0, microsecond = 0\<rparr>"
  have mk: "mk_date y (m + 1) 1 = Inr ?t"
    using assms False days_in_month_bounds(1) [of y "m + 1"] by (simp add: mk_date_def)
  have "valid_date y m (days_in_month y m)" using assms days_in_month_bounds(1) [of y m] by (simp add: valid_date_def)
  then have "add_days ?t (- 1) = Inr (?t\<lparr>year := y, month := m, day := days_in_month y m\<rparr>)"
    using assms days_before_month_Suc [of m y] by (intro add_days_date) (simp_all add: toordinal_def ymd2ord_def)
  then show ?thesis using False mk by (simp add: get_last_day_of_month_def)
qed

lemma month_index:
  assumes "1 \<le> m" "m \<le> 12"
  shows "(12 * y + m - 1) div 12 = y" "(12 * y + m - 1) mod 12 + 1 = (m :: int)"
  using div_mod_12 [of "m - 1" y] assms by (simp_all add: algebra_simps)

lemma months_in_seconds_eq:
  assumes "datetime_ok t" "12 * year t + month t - 1 + int n < 120000"
    and "k = 12 * year t + month t - 1" "len = month_len (k + int n)" "d = (if len < day t then len else day t)"
  shows "months_in_seconds t (int n) = Inr ((month_start (k + int n) + d - (month_start k + day t)) * 86400)"
proof -
  have m: "1 \<le> month t" "month t \<le> 12" "1 \<le> day t" "1 \<le> year t"
    using assms(1) by (auto simp: datetime_ok_def valid_date_def)
  define ty tm where "ty = year t + (month t - 1 + int n) div 12" and "tm = (month t - 1 + int n) mod 12 + 1"
  have k: "k div 12 = year t" "k mod 12 + 1 = month t" using month_index [OF m(1,2)] assms(3) by simp_all
  have kn: "(k + int n) div 12 = ty" "(k + int n) mod 12 + 1 = tm"
    using div_mult_self2 [of 12 "month t - 1 + int n" "year t"] mod_mult_self2 [of "month t - 1 + int n" 12 "year t"]
    by (simp_all add: assms(3) ty_def tm_def algebra_simps)
  have "12 div 12 \<le> (k + int n) div 12" "(k + int n) div 12 \<le> 119999 div 12"
    using assms(2,3) m by (intro zdiv_mono1; simp)+
  then have y: "1 \<le> ty" "ty \<le> 9999" by (simp_all only: kn)
  have tm: "1 \<le> tm" "tm \<le> 12" unfolding tm_def by presburger+
  have len: "len = days_in_month ty tm" by (simp only: assms(4) month_len_def kn)
  have dd: "(if days_in_month ty tm < day t then days_in_month ty tm else day t) = d" by (simp only: assms(5) len)
  have d: "1 \<le> d" "d \<le> days_in_month ty tm" using m days_in_month_bounds(1) [of ty tm] assms(5) len by auto
  have o: "ymd2ord ty tm d = month_start (k + int n) + d - 1" "toordinal t = month_start k + day t - 1"
    by (simp_all only: month_start_def ymd2ord_def toordinal_def kn k)
  have "mk_date ty tm d = Inr \<lparr>year = ty, month = tm, day = d, hour = 0, minute = 0, second = 0, microsecond = 0\<rparr>"
    using y tm d by (simp add: mk_date_def)
  then have "months_in_seconds t (int n) = Inr ((ymd2ord ty tm d - toordinal t) * 86400)"
    using last_day_correct [OF y tm] unfolding months_in_seconds_def Let_def ty_def [symmetric] tm_def [symmetric]
    by (simp add: dd wall_def wall_seconds_def toordinal_def time_of_day_def left_diff_distrib)
  then show ?thesis by (simp only: o) (simp add: algebra_simps)
qed

lemma months_in_seconds_bounds:
  assumes "datetime_ok t" "12 * year t + month t - 1 + int n < 120000"
  shows "\<exists>s. months_in_seconds t (int n) = Inr s \<and> 28 * int n * 86400 \<le> s \<and> s \<le> 31 * int n * 86400"
proof -
  define k where "k = 12 * year t + month t - 1"
  define len where "len = month_len (k + int n)"
  define d where "d = (if len < day t then len else day t)"
  note s = months_in_seconds_eq [OF assms k_def len_def d_def]
  have "28 * int n \<le> month_start (k + int n) + d - (month_start k + day t)"
  proof (cases "len < day t")
    case True
    have "month_start (k + int n) + d = month_start (k + 1 + int n)"
      using month_start_Suc [of "k + int n"] True by (simp add: d_def len_def algebra_simps)
    moreover have "day t \<le> month_len k"
    proof -
      have "1 \<le> month t" "month t \<le> 12" using assms(1) by (auto simp: datetime_ok_def valid_date_def)
      then have "k div 12 = year t" "k mod 12 + 1 = month t" unfolding k_def by (rule month_index)+
      then have "month_len k = days_in_month (year t) (month t)" by (simp only: month_len_def)
      then show ?thesis using assms(1) by (simp add: datetime_ok_def valid_date_def)
    qed
    ultimately show ?thesis using month_start_bounds [of "k + 1" n] month_start_Suc [of k] by simp
  qed (use month_start_bounds [of k n] in \<open>simp add: d_def\<close>)
  moreover have "month_start (k + int n) + d - (month_start k + day t) \<le> 31 * int n"
    using month_start_bounds [of k n] by (simp add: d_def)
  ultimately show ?thesis using s by simp
qed

subsection \<open>Aligned resets\<close>

lemma next_aligned_spec:
  assumes "0 < v"
  shows "x < next_aligned x v" "next_aligned x v \<le> x + v" "v dvd next_aligned x v"
proof -
  define r where "r = x mod v"
  have n: "next_aligned x v = (x - r) + v" by (simp add: next_aligned_def flip: r_def)
  have "0 \<le> r" "r < v" using assms by (simp_all add: r_def)
  then show "x < next_aligned x v" "next_aligned x v \<le> x + v" by (simp_all add: n)
  have "v dvd x - r" unfolding r_def by (rule dvd_minus_mod)
  then show "v dvd next_aligned x v" unfolding n by (rule dvd_add) simp
qed

lemma at_time_wall:
  assumes "datetime_ok t" "year t < 9999" "0 \<le> h" "h < 48" "0 \<le> mi" "mi < 60" "0 \<le> s" "s < 60"
  shows "\<exists>r. at_time t (midnight t) h mi s = Inr r \<and> datetime_ok r \<and> microsecond r = 0 \<and>
    wall_seconds r = toordinal t * 86400 + (h * 60 + mi) * 60 + s"
proof (cases "24 \<le> h")
  case True
  obtain r where r: "add_days (midnight t) 1 = Inr r" "datetime_ok r" "toordinal r = toordinal t + 1"
    using add_days_later [of "midnight t" 1] assms(1,2) by auto
  have h: "h mod 24 = h - 24" 
    using mod_add_self2 [of "h - 24" 24] mod_pos_pos_trivial [of "h - 24" 24] True assms(4) by simp
  show ?thesis
    using r True assms h
    by (simp add: at_time_def datetime_ok_def wall_seconds_def time_of_day_def toordinal_def)
next
  case False
  then show ?thesis
    using assms by (simp add: at_time_def datetime_ok_def wall_seconds_def time_of_day_def toordinal_def)
qed

text \<open>The units below a day, with their length and the start of the period in which they are counted.\<close>

definition clock_units :: "datetime \<Rightarrow> (string \<times> int \<times> int) list" where
  "clock_units t =
     [(''s'', 1, wall_seconds t - second t),
      (''m'', 60, wall_seconds t - second t - minute t * 60),
      (''h'', 3600, toordinal t * 86400)]"

definition aligned_after :: "datetime \<Rightarrow> int \<Rightarrow> int \<Rightarrow> datetime \<Rightarrow> bool" where
  "aligned_after t len start r \<longleftrightarrow>
     datetime_ok r \<and> microsecond r = 0 \<and> wall t < wall r \<and> wall r \<le> wall t + len * 1000000 \<and>
     len dvd wall_seconds r - start"

lemma aligned_afterI:
  assumes "datetime_ok t" "datetime_ok r" "microsecond r = 0" "wall_seconds t < wall_seconds r"
    "wall_seconds r \<le> wall_seconds t + len" "len dvd wall_seconds r - start"
  shows "aligned_after t len start r"
proof -
  have "0 \<le> microsecond t" "microsecond t < 1000000" using assms(1) by (simp_all add: datetime_ok_def)
  moreover have "wall_seconds t * 1000000 + 1000000 \<le> wall_seconds r * 1000000" using assms(4) by simp
  ultimately show ?thesis using assms by (simp add: aligned_after_def wall_def)
qed

lemma hour_reset_aligned:
  assumes "datetime_ok t" "year t < 9999" "0 < v" "v \<le> 24"
  shows "\<exists>r. handle_hour_reset t (midnight t) v = Inr r \<and> aligned_after t (v * 3600) (toordinal t * 86400) r"
proof -
  let ?h = "next_aligned (hour t) v"
  note h = next_aligned_spec [OF assms(3), of "hour t"]
  have t: "0 \<le> hour t" "hour t < 24" "0 \<le> minute t" "minute t < 60" "0 \<le> second t" "second t < 60"
    using assms(1) by (simp_all add: datetime_ok_def)
  obtain r where r: "at_time t (midnight t) ?h 0 0 = Inr r" "datetime_ok r" "microsecond r = 0"
    "wall_seconds r = toordinal t * 86400 + (?h * 60 + 0) * 60 + 0"
    using at_time_wall [OF assms(1,2), of ?h 0 0] h(1,2) t assms(4) by auto
  have "v * 3600 dvd ?h * 3600" using h(3) by (rule mult_dvd_mono) simp
  then have "aligned_after t (v * 3600) (toordinal t * 86400) r"
    using r h(1,2) t by (intro aligned_afterI [OF assms(1)]) (simp_all add: wall_seconds_def time_of_day_def)
  then show ?thesis using r(1) assms(3) by (simp add: handle_hour_reset_def)
qed

lemma minute_reset_aligned:
  assumes "datetime_ok t" "year t < 9999" "0 < v" "v \<le> 1440"
  shows "\<exists>r. handle_minute_reset t (midnight t) v = Inr r \<and>
    aligned_after t (v * 60) (wall_seconds t - second t - minute t * 60) r"
proof -
  let ?m = "next_aligned (minute t) v"
  note m = next_aligned_spec [OF assms(3), of "minute t"]
  have t: "0 \<le> hour t" "hour t < 24" "0 \<le> minute t" "minute t < 60" "0 \<le> second t" "second t < 60"
    using assms(1) by (simp_all add: datetime_ok_def)
  have d: "?m = ?m div 60 * 60 + ?m mod 60" "0 \<le> ?m div 60" "?m div 60 < 25" "0 \<le> ?m mod 60" "?m mod 60 < 60"
    using m(1,2) t assms(4) zdiv_mono1 [of ?m 1499 60] by (simp_all add: pos_imp_zdiv_nonneg_iff)
  obtain r where r: "at_time t (midnight t) (hour t + ?m div 60) (?m mod 60) 0 = Inr r" "datetime_ok r" "microsecond r = 0"
    "wall_seconds r = toordinal t * 86400 + ((hour t + ?m div 60) * 60 + ?m mod 60) * 60 + 0"
    using at_time_wall [OF assms(1,2), of "hour t + ?m div 60" "?m mod 60" 0] d t by auto
  have w: "wall_seconds r = toordinal t * 86400 + hour t * 3600 + ?m * 60"
    unfolding r(4) by (subst (3) d(1)) (simp add: algebra_simps)
  have "v * 60 dvd ?m * 60" using m(3) by (rule mult_dvd_mono) simp
  then have "aligned_after t (v * 60) (wall_seconds t - second t - minute t * 60) r"
    using r(2,3) w m(1,2) t by (intro aligned_afterI [OF assms(1)]) (simp_all add: wall_seconds_def [of t] time_of_day_def algebra_simps)
  then show ?thesis using r(1) assms(3) by (simp add: handle_minute_reset_def Let_def)
qed

lemma second_reset_aligned:
  assumes "datetime_ok t" "year t < 9999" "0 < v" "v \<le> 86400"
  shows "\<exists>r. handle_second_reset t (midnight t) v = Inr r \<and> aligned_after t v (wall_seconds t - second t) r"
proof -
  let ?s = "next_aligned (second t) v"
  let ?m = "minute t + ?s div 60"
  note s = next_aligned_spec [OF assms(3), of "second t"]
  have t: "0 \<le> hour t" "hour t < 24" "0 \<le> minute t" "minute t < 60" "0 \<le> second t" "second t < 60"
    using assms(1) by (simp_all add: datetime_ok_def)
  have d: "?s = ?s div 60 * 60 + ?s mod 60" "0 \<le> ?s div 60" "?s div 60 \<le> 1440" "0 \<le> ?s mod 60" "?s mod 60 < 60"
    using s(1,2) t assms(4) zdiv_mono1 [of ?s 86459 60] by (simp_all add: pos_imp_zdiv_nonneg_iff)
  have e: "?m = ?m div 60 * 60 + ?m mod 60" "0 \<le> ?m div 60" "?m div 60 < 25" "0 \<le> ?m mod 60" "?m mod 60 < 60"
    using d t zdiv_mono1 [of ?m 1499 60] by (simp_all add: pos_imp_zdiv_nonneg_iff)
  obtain r where r: "at_time t (midnight t) (hour t + ?m div 60) (?m mod 60) (?s mod 60) = Inr r" "datetime_ok r"
    "microsecond r = 0" "wall_seconds r = toordinal t * 86400 + ((hour t + ?m div 60) * 60 + ?m mod 60) * 60 + ?s mod 60"
    using at_time_wall [OF assms(1,2), of "hour t + ?m div 60" "?m mod 60" "?s mod 60"] d(4,5) e t by auto
  have "(hour t + ?m div 60) * 60 + ?m mod 60 = hour t * 60 + ?m" using e(1) by (simp only: distrib_right)
  then have w: "wall_seconds r = toordinal t * 86400 + (hour t * 60 + minute t) * 60 + ?s"
    using r(4) d(1) by (simp only: distrib_right)
  have "aligned_after t v (wall_seconds t - second t) r"
    using r(2,3) w s t
    by (intro aligned_afterI [OF assms(1)]) (simp_all add: wall_seconds_def [of t] time_of_day_def)
  then show ?thesis using r(1) assms(3) by (simp add: handle_second_reset_def Let_def)
qed

subsection \<open>Calendar resets\<close>

definition at_midnight :: "datetime \<Rightarrow> bool" where
  "at_midnight t \<longleftrightarrow> hour t = 0 \<and> minute t = 0 \<and> second t = 0 \<and> microsecond t = 0"

lemma midnight_add:
  assumes "datetime_ok t" "year t < 9999" "0 \<le> n" "n \<le> 365"
  shows "\<exists>r. add_days (midnight t) n = Inr r \<and> datetime_ok r \<and> at_midnight r \<and> toordinal r = toordinal t + n"
  using add_days_later [OF midnight_ok [OF assms(1)], of n] assms by (auto simp: at_midnight_def)

lemma monday_reset:
  assumes "datetime_ok t" "year t < 9999"
  shows "\<exists>r. handle_day_reset t (midnight t) 7 = Inr r \<and> at_midnight r \<and> weekday r = 0 \<and>
    toordinal t < toordinal r \<and> toordinal r \<le> toordinal t + 7"
proof -
  define w where "w = weekday t"
  define n where "n = (if (7 - w) mod 7 = 0 then 7 else (7 - w) mod 7)"
  have w: "0 \<le> w" "w < 7" by (simp_all add: w_def weekday_def)
  have n: "n = 7 - w"
    using w mod_pos_pos_trivial [of "7 - w" 7] by (cases "w = 0") (simp_all add: n_def)
  obtain r where r: "add_days (midnight t) n = Inr r" "at_midnight r" "toordinal r = toordinal t + n"
    using midnight_add [OF assms, of n] n w by auto
  have "weekday r = ((toordinal t + 6) + (7 - w)) mod 7" by (simp only: weekday_def r(3) n) (simp add: algebra_simps)
  also have "\<dots> = (w + (7 - w)) mod 7" unfolding w_def weekday_def by (rule mod_add_left_eq [symmetric])
  finally have "weekday r = 0" by simp
  moreover have "handle_day_reset t (midnight t) 7 = Inr r"
    unfolding handle_day_reset_def Let_def w_def [symmetric] n_def [symmetric] using r(1) by simp
  ultimately show ?thesis using r n w by auto
qed

lemma next_month_reset:
  assumes "datetime_ok t" "year t < 9999"
  shows "\<exists>r. first_of_next_month t = Inr r \<and> at_midnight r \<and> day r = 1 \<and>
    12 * year r + month r = 12 * year t + month t + 1 \<and> toordinal t < toordinal r \<and> toordinal r \<le> toordinal t + 31"
proof -
  have v: "1 \<le> year t" "1 \<le> month t" "month t \<le> 12" "1 \<le> day t" "day t \<le> days_in_month (year t) (month t)"
    using assms(1) by (auto simp: datetime_ok_def valid_date_def)
  define k where "k = 12 * year t + month t - 1"
  have k: "k div 12 = year t" "k mod 12 + 1 = month t" using month_index [OF v(2,3), of "year t"] by (simp_all add: k_def)
  define y m where "y = (if month t = 12 then year t + 1 else year t)" and "m = (if month t = 12 then 1 else month t + 1)"
  have ym: "1 \<le> y" "y \<le> 9999" "1 \<le> m" "m \<le> 12" "k + 1 = 12 * y + (m - 1)"
    using v assms(2) by (auto simp: y_def m_def k_def)
  then have k1: "(k + 1) div 12 = y" "(k + 1) mod 12 + 1 = m" unfolding ym(5) using div_mod_12 [of "m - 1" y] by simp_all
  have "first_of_next_month t = mk_date y m 1" by (simp add: first_of_next_month_def y_def m_def)
  also have "\<dots> = Inr \<lparr>year = y, month = m, day = 1, hour = 0, minute = 0, second = 0, microsecond = 0\<rparr>"
    using ym days_in_month_bounds(1) [of y m] by (simp add: mk_date_def)
  finally have f: "first_of_next_month t = Inr \<lparr>year = y, month = m, day = 1, hour = 0, minute = 0, second = 0, microsecond = 0\<rparr>" .
  have "ymd2ord y m 1 = month_start k + month_len k" using month_start_Suc [of k] by (simp only: month_start_def k1)
  moreover have "toordinal t = month_start k + day t - 1" by (simp only: month_start_def k toordinal_def ymd2ord_def)
  moreover have "day t \<le> month_len k" "month_len k \<le> 31"
    using v days_in_month_bounds(2) by (simp_all only: month_len_def k)
  ultimately show ?thesis
    using f v ym(5) by (simp add: at_midnight_def toordinal_def k_def)
qed

subsection \<open>Properties\<close>

text \<open>
  A reset every \<open>n\<close> seconds, minutes or hours, for periods of up to a day, lies after the
  current time, by no more than the period, on a whole multiple of the period counted from the start of
  the current minute, hour or day.
\<close>

lemma reset_time_aligned:
  assumes "setup_timezone zone_info utc astimezone now timezone_str = (t, tz)" "datetime_ok t" "year t < 9999"
    and "(u, len, start) \<in> set (clock_units t)" "0 < n" "int n * len \<le> 86400"
  shows "\<exists>r. get_next_standardized_reset_time zone_info utc astimezone (str_of_nat n @ u) now timezone_str = Inr r \<and>
    aligned_after t (int n * len) start r"
proof -
  have "u \<in> set UNITS" using assms(4) by (auto simp: clock_units_def UNITS_def)
  note p = parse_printed [OF this, of n]
  have n: "0 < int n" using assms(5) by simp
  consider "u = ''s''" "len = 1" "start = wall_seconds t - second t"
    | "u = ''m''" "len = 60" "start = wall_seconds t - second t - minute t * 60"
    | "u = ''h''" "len = 3600" "start = toordinal t * 86400" using assms(4) by (auto simp: clock_units_def)
  then show ?thesis
  proof cases
    case 1
    then show ?thesis
      using second_reset_aligned [OF assms(2,3) n] assms(1,6) p by (auto simp: get_next_standardized_reset_time_def Let_def)
  next
    case 2
    then show ?thesis
      using minute_reset_aligned [OF assms(2,3) n] assms(1,6) p by (auto simp: get_next_standardized_reset_time_def Let_def)
  next
    case 3
    then show ?thesis
      using hour_reset_aligned [OF assms(2,3) n] assms(1,6) p by (auto simp: get_next_standardized_reset_time_def Let_def)
  qed
qed

definition sample_now :: datetime where
  "sample_now = \<lparr>year = 2024, month = 1, day = 31, hour = 23, minute = 30, second = 5, microsecond = 7\<rparr>"

abbreviation utc_now :: "unit \<Rightarrow> unit \<Rightarrow> datetime" where
  "utc_now \<equiv> (\<lambda>_ _. sample_now)"

lemma sample_now_ok: "datetime_ok sample_now" "year sample_now < 9999"
  by (simp_all add: sample_now_def datetime_ok_def valid_date_def days_in_month_def)

text \<open>
  The calendar resets: \<^verbatim>\<open>1d\<close> is the next midnight, \<^verbatim>\<open>7d\<close> the next Monday at
  midnight, and \<^verbatim>\<open>30d\<close> and \<^verbatim>\<open>1mo\<close> the first of the next month at midnight, at most 31 days
  away.
\<close>

lemma reset_time_calendar:
  assumes "setup_timezone zone_info utc astimezone now timezone_str = (t, tz)" "datetime_ok t" "year t < 9999"
  shows "(\<exists>r. get_next_standardized_reset_time zone_info utc astimezone ''1d'' now timezone_str = Inr r \<and>
      at_midnight r \<and> toordinal r = toordinal t + 1) \<and>
    (\<exists>r. get_next_standardized_reset_time zone_info utc astimezone ''7d'' now timezone_str = Inr r \<and>
      at_midnight r \<and> weekday r = 0 \<and> toordinal t < toordinal r \<and> toordinal r \<le> toordinal t + 7) \<and>
    (\<exists>r. get_next_standardized_reset_time zone_info utc astimezone ''30d'' now timezone_str = Inr r \<and>
      get_next_standardized_reset_time zone_info utc astimezone ''1mo'' now timezone_str = Inr r \<and>
      at_midnight r \<and> day r = 1 \<and> 12 * year r + month r = 12 * year t + month t + 1 \<and>
      toordinal t < toordinal r \<and> toordinal r \<le> toordinal t + 31)"
proof -
  have p: "parse_duration ''1d'' = Some (1, ''d'')" "parse_duration ''7d'' = Some (7, ''d'')"
    "parse_duration ''30d'' = Some (30, ''d'')" "parse_duration ''1mo'' = Some (1, ''mo'')" by code_simp+
  obtain a where a: "add_days (midnight t) 1 = Inr a" "at_midnight a" "toordinal a = toordinal t + 1"
    using midnight_add [OF assms(2,3), of 1] by auto
  have "handle_day_reset t (midnight t) 1 = Inr a" "handle_day_reset t (midnight t) 30 = first_of_next_month t"
    "handle_month_reset t 1 = first_of_next_month t"
    using a by (simp_all add: handle_day_reset_def handle_month_reset_def)
  then show ?thesis
    using a monday_reset [OF assms(2,3)] next_month_reset [OF assms(2,3)] assms(1) p
    by (auto simp: get_next_standardized_reset_time_def Let_def)
qed

text \<open>
  A duration in seconds, minutes, hours, days or weeks that is printed and parsed again
  is its number times the length of the unit, and one of \<open>n\<close> months is between 28 and 31 times \<open>n\<close>
  days, whatever the day of the month.
\<close>

lemma duration_of_printed:
  assumes "datetime_ok t" "12 * year t + month t - 1 + int n < 120000"
  shows "duration_in_seconds t (str_of_nat n @ ''s'') = Inr (int n) \<and>
    duration_in_seconds t (str_of_nat n @ ''m'') = Inr (int n * 60) \<and>
    duration_in_seconds t (str_of_nat n @ ''h'') = Inr (int n * 3600) \<and>
    duration_in_seconds t (str_of_nat n @ ''d'') = Inr (int n * 86400) \<and>
    duration_in_seconds t (str_of_nat n @ ''w'') = Inr (int n * 604800) \<and>
    (\<exists>s. duration_in_seconds t (str_of_nat n @ ''mo'') = Inr s \<and> 28 * int n * 86400 \<le> s \<and> s \<le> 31 * int n * 86400)"
proof -
  have "extract_from_regex (str_of_nat n @ u) = Inr (int n, u)" if "u \<in> set UNITS" for u
    using extract_printed [OF that] .
  from this [of "''s''"] this [of "''m''"] this [of "''h''"] this [of "''d''"] this [of "''w''"] this [of "''mo''"]
    months_in_seconds_bounds [OF assms]
  show ?thesis by (auto simp: duration_in_seconds_def UNITS_def)
qed

text \<open>For more than a day the reset comes early: every 48 hours is the next midnight.\<close>

lemma two_day_hours_wrap:
  assumes "datetime_ok t" "year t < 9999"
  shows "\<exists>r. handle_hour_reset t (midnight t) 48 = Inr r \<and> toordinal r = toordinal t + 1 \<and> hour r = 0"
proof -
  have "hour t mod 48 = hour t" using assms(1) by (simp add: datetime_ok_def)
  then have "next_aligned (hour t) 48 = 48" by (simp add: next_aligned_def)
  moreover obtain a where "add_days (midnight t) 1 = Inr a" "toordinal a = toordinal t + 1"
    using midnight_add [OF assms, of 1] by auto
  ultimately show ?thesis by (simp add: handle_hour_reset_def at_time_def toordinal_def)
qed

end
