(* ===== verification/BudgetLimiter.thy ===== *)
theory BudgetLimiter
  imports BaseRouting Deployments Duration
begin

text \<open>
  \<^verbatim>\<open>router_strategy/budget_limiter.py\<close>: budgets of providers, deployments and request tags. The spend of
  a budget window is a counter in the two-level cache beside the start of the window; deployments
  over budget are filtered out before a pick. Increments are queued for Redis, and a periodic task hands
  the queue to a background task (\<open>push_tasks\<close>, which run at some later moment) and overwrites
  the counters in memory with what Redis has. All readings of the clock in one call are the argument
  \<open>t\<close>; the provider of a deployment is a function of it, and tags are a list of strings. The metrics that
  are sent to Prometheus and the texts of error messages are left out. The theory shows which
  deployments pass the filter, and that a provider is blocked from the moment its spend reaches the
  budget until the window ends.
\<close>

subsection \<open>State\<close>

text \<open>\<^verbatim>\<open>BudgetConfig\<close>.\<close>

record budget_config =
  max_budget :: "rat option"
  budget_duration :: "string option"

record 'r limiter =
  budget_cache :: "'r dual"
  budget_queue :: "increment_op list"
  push_tasks :: "increment_op list list"
  provider_budget_config :: "(string, budget_config) dict option"
  deployment_budget_config :: "(string, budget_config) dict option"
  tag_budget_config :: "(string, budget_config) dict option"

text \<open>\<^verbatim>\<open>if config:\<close> for an optional dict.\<close>

definition configured :: "(string, budget_config) dict option \<Rightarrow> bool" where
  "configured c \<longleftrightarrow> c \<noteq> None \<and> c \<noteq> Some []"

definition config_for :: "(string, budget_config) dict option \<Rightarrow> string \<Rightarrow> budget_config option" where
  "config_for c k = (case c of None \<Rightarrow> None | Some m \<Rightarrow> map_of m k)"

definition get_budget_config_for_provider :: "string \<Rightarrow> 'r limiter \<Rightarrow> budget_config option" where
  "get_budget_config_for_provider provider l = config_for (provider_budget_config l) provider"

definition get_budget_config_for_deployment :: "string \<Rightarrow> 'r limiter \<Rightarrow> budget_config option" where
  "get_budget_config_for_deployment model_id l = config_for (deployment_budget_config l) model_id"

definition get_budget_config_for_tag :: "string \<Rightarrow> 'r limiter \<Rightarrow> budget_config option" where
  "get_budget_config_for_tag tag l = config_for (tag_budget_config l) tag"

text \<open>The keys of the counters; a missing duration is printed as \<^verbatim>\<open>None\<close>.\<close>

definition spend_key :: "string \<Rightarrow> string \<Rightarrow> budget_config \<Rightarrow> string" where
  "spend_key kind name c =
     kind @ ''_spend:'' @ name @ '':'' @ (case budget_duration c of None \<Rightarrow> ''None'' | Some s \<Rightarrow> s)"

definition start_time_key :: "string \<Rightarrow> string \<Rightarrow> string" where
  "start_time_key kind name = kind @ ''_budget_start_time:'' @ name"

subsection \<open>Initialisation\<close>

definition should_init_router_budget_limiter ::
  "'c option \<Rightarrow> 'd option \<Rightarrow> deployment list option \<Rightarrow> bool" where
  "should_init_router_budget_limiter provider_config tag_config model_list =
     (provider_config \<noteq> None \<or> tag_config \<noteq> None \<or>
      (case model_list of
         None \<Rightarrow> False
       | Some ds \<Rightarrow> \<exists>d \<in> set ds.
           truthy (dict_get (lp_rest d) ''max_budget'' PNone) \<or> dict_get (lp_rest d) ''budget_duration'' PNone \<noteq> PNone))"

text \<open>The deployments with a budget and a duration; other types than a number and a string do not occur.\<close>

definition init_deployment_budgets :: "deployment list option \<Rightarrow> (string, budget_config) dict option" where
  "init_deployment_budgets model_list =
     (case model_list of
        None \<Rightarrow> None
      | Some ds \<Rightarrow>
        fold (\<lambda>d acc.
          case (map_of (lp_rest d) ''max_budget'', map_of (lp_rest d) ''budget_duration'') of
            (Some m, Some (PStr s)) \<Rightarrow>
              if as_rat m = None then acc
              else Some (AList.update (dep_id d) \<lparr>max_budget = as_rat m, budget_duration = Some s\<rparr> (case acc of None \<Rightarrow> [] | Some c \<Rightarrow> c))
          | _ \<Rightarrow> acc) ds None)"

definition init_tag_budgets :: "bool \<Rightarrow> (string, budget_config) dict option \<Rightarrow> (string, budget_config) dict option pyres" where
  "init_tag_budgets premium_user configured_tags =
     (case configured_tags of
        None \<Rightarrow> Inr None
      | Some tags \<Rightarrow>
        if \<not> premium_user then Inl ValueError
        else Inr (Some (fold (\<lambda>(tag, c). AList.update tag c) tags [])))"

definition init_provider_budget_in_cache ::
  "'r redis_ops \<Rightarrow> py_runtime \<Rightarrow> time \<Rightarrow> datetime \<Rightarrow> string \<Rightarrow> budget_config \<Rightarrow> 'r limiter \<Rightarrow> unit pyres \<times> 'r limiter" where
  "init_provider_budget_in_cache ops rt t now provider c l =
     (case (case budget_duration c of None \<Rightarrow> Inr None | Some s \<Rightarrow> map_sum id Some (duration_in_seconds now s)) of
        Inl e \<Rightarrow> (Inl e, l)
      | Inr ttl_seconds \<Rightarrow>
        (let ttl = Some (map_option of_int ttl_seconds);
             (budget_start, d1) = dual_get_cache ops rt t t (start_time_key ''provider'' provider) False None (budget_cache l);
             d2 = (if budget_start = PNone
                   then dual_set_cache ops rt t (start_time_key ''provider'' provider) (PFloat t) False ttl d1 else d1);
             (spend, d3) = dual_get_cache ops rt t t (spend_key ''provider'' provider c) False None d2;
             d4 = (if spend = PNone
                   then dual_set_cache ops rt t (spend_key ''provider'' provider c) (PFloat 0) False ttl d3 else d3) in
         (Inr (), l\<lparr>budget_cache := d4\<rparr>)))"

subsection \<open>The filter\<close>

record budget_keys =
  cache_keys :: "string list"
  provider_configs :: "(string, budget_config) dict"
  deployment_configs :: "(string, budget_config) dict"
  deployment_providers :: "string option list"

definition keys_of_deployment ::
  "(deployment \<Rightarrow> string option) \<Rightarrow> string list \<Rightarrow> 'r limiter \<Rightarrow> deployment \<Rightarrow> budget_keys \<Rightarrow> budget_keys" where
  "keys_of_deployment get_llm_provider request_tags l d k =
     (let k1 = (if configured (provider_budget_config l)
                then (let provider = get_llm_provider d;
                          k' = k\<lparr>deployment_providers := deployment_providers k @ [provider]\<rparr> in
                      case provider of
                        None \<Rightarrow> k'
                      | Some p \<Rightarrow>
                        (case get_budget_config_for_provider p l of
                           None \<Rightarrow> k'
                         | Some c \<Rightarrow>
                           if budget_duration c = None then k'
                           else k'\<lparr>provider_configs := AList.update p c (provider_configs k'),
                                   cache_keys := cache_keys k' @ [spend_key ''provider'' p c]\<rparr>))
                else k);
          k2 = (if configured (deployment_budget_config l)
                then (case get_budget_config_for_deployment (dep_id d) l of
                        None \<Rightarrow> k1
                      | Some c \<Rightarrow> k1\<lparr>deployment_configs := AList.update (dep_id d) c (deployment_configs k1),
                                     cache_keys := cache_keys k1 @ [spend_key ''deployment'' (dep_id d) c]\<rparr>)
                else k1) in
      if configured (tag_budget_config l)
      then k2\<lparr>cache_keys := cache_keys k2 @
             concat (map (\<lambda>tag. case get_budget_config_for_tag tag l of None \<Rightarrow> [] | Some c \<Rightarrow> [spend_key ''tag'' tag c]) request_tags)\<rparr>
      else k2)"

definition get_cache_keys_for_router_budget_limiting ::
  "(deployment \<Rightarrow> string option) \<Rightarrow> string list \<Rightarrow> 'r limiter \<Rightarrow> deployment list \<Rightarrow> budget_keys" where
  "get_cache_keys_for_router_budget_limiting get_llm_provider request_tags l ds =
     fold (keys_of_deployment get_llm_provider request_tags l) ds
       \<lparr>cache_keys = [], provider_configs = [], deployment_configs = [], deployment_providers = []\<rparr>"

text \<open>\<^verbatim>\<open>config.max_budget and spend >= config.max_budget\<close>.\<close>

definition over_budget :: "budget_config \<Rightarrow> pyval \<Rightarrow> bool" where
  "over_budget c spend \<longleftrightarrow> (case max_budget c of None \<Rightarrow> False | Some m \<Rightarrow> m \<noteq> 0 \<and> py_ge spend (PFloat m) = Inr True)"

text \<open>
  One round of \<^verbatim>\<open>_filter_out_deployments_above_budget\<close>: whether the deployment is kept. A provider
  budget without a limit ends the round, so the deployment is not kept.
\<close>

definition above_budget_round ::
  "'r limiter \<Rightarrow> (string, budget_config) dict \<Rightarrow> (string, budget_config) dict \<Rightarrow> (string, pyval) dict \<Rightarrow> string list \<Rightarrow>
   string option \<Rightarrow> deployment \<Rightarrow> bool" where
  "above_budget_round l pconfigs dconfigs spend_map request_tags provider d =
     (if configured (provider_budget_config l) \<and>
         (case provider of None \<Rightarrow> False | Some p \<Rightarrow>
            (case map_of pconfigs p of None \<Rightarrow> False | Some c \<Rightarrow>
               max_budget c = None \<or> over_budget c (dict_get spend_map (spend_key ''provider'' p c) (PFloat 0))))
      then False
      else if configured (deployment_budget_config l) \<and>
         (case map_of dconfigs (dep_id d) of None \<Rightarrow> False | Some c \<Rightarrow>
            over_budget c (dict_get spend_map (spend_key ''deployment'' (dep_id d) c) (PFloat 0)))
      then False
      else \<not> (configured (tag_budget_config l) \<and>
         (\<exists>tag \<in> set request_tags.
            (case get_budget_config_for_tag tag l of None \<Rightarrow> False | Some c \<Rightarrow>
               over_budget c (dict_get spend_map (spend_key ''tag'' tag c) (PFloat 0))))))"

fun filter_out_deployments_above_budget ::
  "(deployment \<Rightarrow> string option) \<Rightarrow> 'r limiter \<Rightarrow> (string, budget_config) dict \<Rightarrow> (string, budget_config) dict \<Rightarrow> (string, pyval) dict \<Rightarrow>
   string list \<Rightarrow> string option list \<Rightarrow> deployment list \<Rightarrow> deployment list" where
  "filter_out_deployments_above_budget get_llm_provider l pconfigs dconfigs spend_map request_tags providers [] = []"
| "filter_out_deployments_above_budget get_llm_provider l pconfigs dconfigs spend_map request_tags providers (d # ds) =
     (let provider = (case providers of [] \<Rightarrow> get_llm_provider d | p # _ \<Rightarrow> p);
          rest = filter_out_deployments_above_budget get_llm_provider l pconfigs dconfigs spend_map request_tags (tl providers) ds in
      if above_budget_round l pconfigs dconfigs spend_map request_tags provider d then d # rest else rest)"

text \<open>The spends by key; a value that is no number raises.\<close>

fun spends_by_key :: "(string \<Rightarrow> pyval pyres) \<Rightarrow> string list \<Rightarrow> pyval list \<Rightarrow> (string, pyval) dict \<Rightarrow> (string, pyval) dict pyres" where
  "spends_by_key float_str [] vs acc = Inr acc"
| "spends_by_key float_str (k # ks) [] acc = Inl IndexError"
| "spends_by_key float_str (k # ks) (v # vs) acc =
     (case float_or_zero float_str v of
        Inl e \<Rightarrow> Inl e
      | Inr f \<Rightarrow> spends_by_key float_str ks vs (AList.update k f acc))"

definition async_filter_deployments ::
  "'r redis_ops \<Rightarrow> py_runtime \<Rightarrow> (string \<Rightarrow> pyval pyres) \<Rightarrow> (deployment \<Rightarrow> string option) \<Rightarrow> time \<Rightarrow> time \<Rightarrow> string list \<Rightarrow>
   deployment list \<Rightarrow> 'r limiter \<Rightarrow> deployment list pyres \<times> 'r limiter" where
  "async_filter_deployments ops rt float_str get_llm_provider t t' request_tags ds l =
     (if ds = [] then (Inr ds, l)
      else
        (let k = get_cache_keys_for_router_budget_limiting get_llm_provider request_tags l ds in
         if cache_keys k = [] then (Inr ds, l)
         else
           (let (values, d1) = dual_batch_get_cache ops rt t t' (cache_keys k) False None (budget_cache l);
                l1 = l\<lparr>budget_cache := d1\<rparr>;
                current_spends = (case values of Some (v # vs) \<Rightarrow> v # vs | _ \<Rightarrow> replicate (length (cache_keys k)) (PFloat 0)) in
            case spends_by_key float_str (cache_keys k) current_spends [] of
              Inl e \<Rightarrow> (Inl e, l1)
            | Inr spend_map \<Rightarrow>
              (case filter_out_deployments_above_budget get_llm_provider l1 (provider_configs k) (deployment_configs k)
                      spend_map request_tags (deployment_providers k) ds of
                 [] \<Rightarrow> (Inl ValueError, l1)
               | potential \<Rightarrow> (Inr potential, l1)))))"

subsection \<open>Counting spend\<close>

definition get_or_set_budget_start_time ::
  "'r redis_ops \<Rightarrow> py_runtime \<Rightarrow> (string \<Rightarrow> pyval pyres) \<Rightarrow> time \<Rightarrow> string \<Rightarrow> int \<Rightarrow> 'r limiter \<Rightarrow> pyval pyres \<times> 'r limiter" where
  "get_or_set_budget_start_time ops rt float_str t start_key ttl_seconds l =
     (let (budget_start, d1) = dual_get_cache ops rt t t start_key False None (budget_cache l) in
      if budget_start = PNone
      then (Inr (PFloat t), l\<lparr>budget_cache := dual_set_cache ops rt t start_key (PFloat t) False (Some (Some (of_int ttl_seconds))) d1\<rparr>)
      else (py_float float_str budget_start, l\<lparr>budget_cache := d1\<rparr>))"

definition handle_new_budget_window ::
  "'r redis_ops \<Rightarrow> py_runtime \<Rightarrow> time \<Rightarrow> string \<Rightarrow> string \<Rightarrow> pyval \<Rightarrow> int \<Rightarrow> 'r limiter \<Rightarrow> 'r limiter" where
  "handle_new_budget_window ops rt t key start_key response_cost ttl_seconds l =
     (let ttl = Some (Some (of_int ttl_seconds)) in
      l\<lparr>budget_cache := dual_set_cache ops rt t start_key (PFloat t) False ttl
           (dual_set_cache ops rt t key response_cost False ttl (budget_cache l))\<rparr>)"

definition increment_spend_in_current_window ::
  "py_runtime \<Rightarrow> time \<Rightarrow> string \<Rightarrow> pyval \<Rightarrow> int \<Rightarrow> 'r limiter \<Rightarrow> unit pyres \<times> 'r limiter" where
  "increment_spend_in_current_window rt t key response_cost ttl l =
     (case with_mem (budget_cache l) (imc_increment_cache rt t key response_cost (Some (of_int ttl)) (in_memory_cache (budget_cache l))) of
        (Inl e, d) \<Rightarrow> (Inl e, l\<lparr>budget_cache := d\<rparr>)
      | (Inr _, d) \<Rightarrow>
        (Inr (), l\<lparr>budget_cache := d,
                   budget_queue := budget_queue l @ [\<lparr>op_key = key, increment_value = response_cost, op_ttl = Some ttl\<rparr>]\<rparr>))"

text \<open>\<^verbatim>\<open>int(x)\<close> of a float.\<close>

definition py_trunc :: "pyval \<Rightarrow> int pyres" where
  "py_trunc v =
     (case v of
        PFloat q \<Rightarrow> Inr (if 0 \<le> q then \<lfloor>q\<rfloor> else \<lceil>q\<rceil>)
      | PInf _ \<Rightarrow> Inl (OtherError ''OverflowError'')
      | _ \<Rightarrow> Inl ValueError)"

definition increment_spend_for_key ::
  "'r redis_ops \<Rightarrow> py_runtime \<Rightarrow> (string \<Rightarrow> pyval pyres) \<Rightarrow> time \<Rightarrow> datetime \<Rightarrow> budget_config \<Rightarrow> string \<Rightarrow> string \<Rightarrow> pyval \<Rightarrow>
   'r limiter \<Rightarrow> unit pyres \<times> 'r limiter" where
  "increment_spend_for_key ops rt float_str t now c key start_key response_cost l =
     (case budget_duration c of
        None \<Rightarrow> (Inr (), l)
      | Some duration \<Rightarrow>
        (case duration_in_seconds now duration of
           Inl e \<Rightarrow> (Inl e, l)
         | Inr ttl_seconds \<Rightarrow>
           (case get_or_set_budget_start_time ops rt float_str t start_key ttl_seconds l of
              (Inl e, l1) \<Rightarrow> (Inl e, l1)
            | (Inr budget_start, l1) \<Rightarrow>
              (case py_add (PFloat t) (py_neg budget_start) of
                 Inl e \<Rightarrow> (Inl e, l1)
               | Inr elapsed \<Rightarrow>
                 if py_gt elapsed (PInt ttl_seconds) = Inr True
                 then (Inr (), handle_new_budget_window ops rt t key start_key response_cost ttl_seconds l1)
                 else (case py_add (PInt ttl_seconds) (py_neg elapsed) of
                    Inl e \<Rightarrow> (Inl e, l1)
                  | Inr remaining_time \<Rightarrow>
                    (case py_trunc remaining_time of
                       Inl e \<Rightarrow> (Inl e, l1)
                     | Inr ttl \<Rightarrow> increment_spend_in_current_window rt t key response_cost ttl l1))))))"

text \<open>The budgets a request counts against, in order.\<close>

definition spend_targets :: "string \<Rightarrow> string \<Rightarrow> string list \<Rightarrow> 'r limiter \<Rightarrow> (budget_config \<times> string \<times> string) list" where
  "spend_targets provider model_id request_tags l =
     (case get_budget_config_for_provider provider l of
        None \<Rightarrow> [] | Some c \<Rightarrow> [(c, spend_key ''provider'' provider c, start_time_key ''provider'' provider)]) @
     (case get_budget_config_for_deployment model_id l of
        None \<Rightarrow> [] | Some c \<Rightarrow> [(c, spend_key ''deployment'' model_id c, start_time_key ''deployment'' model_id)]) @
     concat (map (\<lambda>tag. case get_budget_config_for_tag tag l of
        None \<Rightarrow> [] | Some c \<Rightarrow> [(c, spend_key ''tag'' tag c, start_time_key ''tag'' tag)]) request_tags)"

fun increment_targets ::
  "'r redis_ops \<Rightarrow> py_runtime \<Rightarrow> (string \<Rightarrow> pyval pyres) \<Rightarrow> time \<Rightarrow> datetime \<Rightarrow> pyval \<Rightarrow> (budget_config \<times> string \<times> string) list \<Rightarrow>
   'r limiter \<Rightarrow> unit pyres \<times> 'r limiter" where
  "increment_targets ops rt float_str t now response_cost [] l = (Inr (), l)"
| "increment_targets ops rt float_str t now response_cost ((c, key, start_key) # rest) l =
     (case increment_spend_for_key ops rt float_str t now c key start_key response_cost l of
        (Inl e, l1) \<Rightarrow> (Inl e, l1)
      | (Inr _, l1) \<Rightarrow> increment_targets ops rt float_str t now response_cost rest l1)"

definition budget_log_success_event ::
  "'r redis_ops \<Rightarrow> py_runtime \<Rightarrow> (string \<Rightarrow> pyval pyres) \<Rightarrow> (pyval \<Rightarrow> string) \<Rightarrow> time \<Rightarrow> datetime \<Rightarrow> (string, pyval) dict \<Rightarrow> string list \<Rightarrow>
   'r limiter \<Rightarrow> unit pyres \<times> 'r limiter" where
  "budget_log_success_event ops rt float_str py_str t now kwargs request_tags l =
     (case dict_get kwargs ''standard_logging_object'' PNone of
        PNone \<Rightarrow> (Inl ValueError, l)
      | PDict payload \<Rightarrow>
        (case dict_get kwargs ''litellm_params'' (PDict []) of
           PDict params \<Rightarrow>
             (case dict_get params ''custom_llm_provider'' PNone of
                PNone \<Rightarrow> (Inl ValueError, l)
              | v \<Rightarrow> increment_targets ops rt float_str t now (dict_get payload ''response_cost'' (PInt 0))
                       (spend_targets (val_str py_str v) (val_str py_str (dict_get payload ''model_id'' (PStr []))) request_tags l) l)
         | _ \<Rightarrow> (Inl AttributeError, l))
      | _ \<Rightarrow> (Inl AttributeError, l))"

subsection \<open>Synchronisation with Redis\<close>

text \<open>The queue goes to a task that runs later.\<close>

definition budget_push :: "'r limiter \<Rightarrow> 'r limiter" where
  "budget_push l =
     (if redis_cache (budget_cache l) = None then l
      else l\<lparr>push_tasks := (if budget_queue l = [] then push_tasks l else push_tasks l @ [budget_queue l]), budget_queue := []\<rparr>)"

definition run_push_task :: "'r redis_ops \<Rightarrow> 'r limiter \<Rightarrow> 'r limiter" where
  "run_push_task ops l =
     (case (push_tasks l, redis_cache (budget_cache l)) of
        (q # rest, Some r) \<Rightarrow> l\<lparr>push_tasks := rest, budget_cache := snd (with_redis (budget_cache l) (r_increment_pipeline ops q r))\<rparr>
      | _ \<Rightarrow> l)"

definition config_keys :: "string \<Rightarrow> (string, budget_config) dict option \<Rightarrow> string list" where
  "config_keys kind c = (case c of None \<Rightarrow> [] | Some m \<Rightarrow> map (\<lambda>(name, cfg). spend_key kind name cfg) m)"

fun overwrite_spends ::
  "py_runtime \<Rightarrow> (string \<Rightarrow> pyval pyres) \<Rightarrow> time \<Rightarrow> (string \<times> pyval) list \<Rightarrow> imc \<Rightarrow> unit pyres \<times> imc" where
  "overwrite_spends rt float_str t [] c = (Inr (), c)"
| "overwrite_spends rt float_str t ((key, value) # rest) c =
     (if value = PNone then overwrite_spends rt float_str t rest c
      else case py_float float_str value of
        Inl e \<Rightarrow> (Inl e, c)
      | Inr f \<Rightarrow>
        (case imc_set_cache rt t key f None c of
           (Inl e, c1) \<Rightarrow> (Inl e, c1)
         | (Inr _, c1) \<Rightarrow> overwrite_spends rt float_str t rest c1))"

definition budget_sync ::
  "'r redis_ops \<Rightarrow> py_runtime \<Rightarrow> (string \<Rightarrow> pyval pyres) \<Rightarrow> time \<Rightarrow> 'r limiter \<Rightarrow> 'r limiter" where
  "budget_sync ops rt float_str t l =
     (case redis_cache (budget_cache l) of
        None \<Rightarrow> l
      | Some r \<Rightarrow>
        (let l1 = budget_push l;
             keys = config_keys ''provider'' (provider_budget_config l) @ config_keys ''deployment'' (deployment_budget_config l) @
               config_keys ''tag'' (tag_budget_config l) in
         case with_redis (budget_cache l1) (r_batch_get ops keys r) of
           (Inr (Some redis_values), d) \<Rightarrow>
             l1\<lparr>budget_cache := snd (with_mem d (overwrite_spends rt float_str t redis_values (in_memory_cache d)))\<rparr>
         | (_, d) \<Rightarrow> l1\<lparr>budget_cache := d\<rparr>))"

text \<open>What the endpoint for provider budgets reads.\<close>

definition get_current_provider_spend ::
  "'r redis_ops \<Rightarrow> py_runtime \<Rightarrow> (string \<Rightarrow> pyval pyres) \<Rightarrow> time \<Rightarrow> string \<Rightarrow> 'r limiter \<Rightarrow> pyval option pyres \<times> 'r limiter" where
  "get_current_provider_spend ops rt float_str t provider l =
     (case get_budget_config_for_provider provider l of
        None \<Rightarrow> (Inr None, l)
      | Some c \<Rightarrow>
        (case (case redis_cache (budget_cache l) of
                 Some r \<Rightarrow> with_redis (budget_cache l) (r_get ops (spend_key ''provider'' provider c) r)
               | None \<Rightarrow> (case dual_get_cache ops rt t t (spend_key ''provider'' provider c) False None (budget_cache l) of (v, d) \<Rightarrow> (Inr v, d))) of
           (Inl e, d) \<Rightarrow> (Inl e, l\<lparr>budget_cache := d\<rparr>)
         | (Inr v, d) \<Rightarrow>
           (if v = PNone then Inr (Some (PFloat 0)) else map_sum id Some (py_float float_str v), l\<lparr>budget_cache := d\<rparr>)))"

subsection \<open>Which deployments pass\<close>

text \<open>The budget that stops a deployment, given the spend of every key.\<close>

definition within_budgets ::
  "(deployment \<Rightarrow> string option) \<Rightarrow> 'r limiter \<Rightarrow> (string \<Rightarrow> pyval) \<Rightarrow> string list \<Rightarrow> deployment \<Rightarrow> bool" where
  "within_budgets provider l sp tags d \<longleftrightarrow>
     (\<forall>p c. provider d = Some p \<and> get_budget_config_for_provider p l = Some c \<and> budget_duration c \<noteq> None \<longrightarrow>
        max_budget c \<noteq> None \<and> \<not> over_budget c (sp (spend_key ''provider'' p c))) \<and>
     (\<forall>c. get_budget_config_for_deployment (dep_id d) l = Some c \<longrightarrow> \<not> over_budget c (sp (spend_key ''deployment'' (dep_id d) c))) \<and>
     (\<forall>tag \<in> set tags. \<forall>c. get_budget_config_for_tag tag l = Some c \<longrightarrow> \<not> over_budget c (sp (spend_key ''tag'' tag c)))"

lemma config_configured: "config_for c k = Some x \<Longrightarrow> configured c"
  by (auto simp: config_for_def configured_def split: option.splits)

definition provider_config :: "(deployment \<Rightarrow> string option) \<Rightarrow> 'r limiter \<Rightarrow> deployment \<Rightarrow> (string \<times> budget_config) option" where
  "provider_config provider l d =
     (case provider d of None \<Rightarrow> None | Some p \<Rightarrow>
        (case get_budget_config_for_provider p l of None \<Rightarrow> None | Some c \<Rightarrow> if budget_duration c = None then None else Some (p, c)))"

definition keys_for :: "(deployment \<Rightarrow> string option) \<Rightarrow> string list \<Rightarrow> 'r limiter \<Rightarrow> deployment \<Rightarrow> string list" where
  "keys_for provider tags l d =
     (case provider_config provider l d of None \<Rightarrow> [] | Some (p, c) \<Rightarrow> [spend_key ''provider'' p c]) @
     (case get_budget_config_for_deployment (dep_id d) l of None \<Rightarrow> [] | Some c \<Rightarrow> [spend_key ''deployment'' (dep_id d) c]) @
     concat (map (\<lambda>tag. case get_budget_config_for_tag tag l of None \<Rightarrow> [] | Some c \<Rightarrow> [spend_key ''tag'' tag c]) tags)"

lemma keys_of_deployment_eq:
  "keys_of_deployment provider tags l d k =
     \<lparr>cache_keys = cache_keys k @ keys_for provider tags l d,
      provider_configs = (case provider_config provider l d of None \<Rightarrow> provider_configs k | Some (p, c) \<Rightarrow> AList.update p c (provider_configs k)),
      deployment_configs = (case get_budget_config_for_deployment (dep_id d) l of
         None \<Rightarrow> deployment_configs k | Some c \<Rightarrow> AList.update (dep_id d) c (deployment_configs k)),
      deployment_providers = deployment_providers k @ (if configured (provider_budget_config l) then [provider d] else [])\<rparr>"
proof -
  have n: "\<not> configured (provider_budget_config l) \<Longrightarrow> get_budget_config_for_provider p l = None"
    "\<not> configured (deployment_budget_config l) \<Longrightarrow> get_budget_config_for_deployment i l = None"
    "\<not> configured (tag_budget_config l) \<Longrightarrow> get_budget_config_for_tag g l = None" for p i g
    using config_configured by (fastforce simp: get_budget_config_for_provider_def get_budget_config_for_deployment_def get_budget_config_for_tag_def)+
  show ?thesis
    using n by (auto simp: keys_of_deployment_def keys_for_def provider_config_def Let_def split: option.split)
qed

text \<open>What the loop over the deployments collects.\<close>

lemma collected_keys:
  fixes l :: "'r limiter"
  assumes "k = get_cache_keys_for_router_budget_limiting provider tags l ds"
  shows "cache_keys k = concat (map (keys_for provider tags l) ds)"
    and "deployment_providers k = (if configured (provider_budget_config l) then map provider ds else [])"
    and "d \<in> set ds \<Longrightarrow> provider d = Some p \<Longrightarrow> map_of (provider_configs k) p = map_option snd (provider_config provider l d)"
    and "d \<in> set ds \<Longrightarrow> map_of (deployment_configs k) (dep_id d) = get_budget_config_for_deployment (dep_id d) l"
proof -
  let ?e = "\<lparr>cache_keys = [], provider_configs = [], deployment_configs = [], deployment_providers = []\<rparr>"
  let ?f = "\<lambda>ds. fold (keys_of_deployment provider tags l) ds ?e"
  have k: "k = ?f ds" by (simp add: assms get_cache_keys_for_router_budget_limiting_def)
  show "cache_keys k = concat (map (keys_for provider tags l) ds)"
    unfolding k by (induction ds rule: rev_induct) (simp_all add: keys_of_deployment_eq)
  show "deployment_providers k = (if configured (provider_budget_config l) then map provider ds else [])"
    unfolding k by (induction ds rule: rev_induct) (simp_all add: keys_of_deployment_eq)
  define cfg where "cfg q = (case get_budget_config_for_provider q l of None \<Rightarrow> None | Some c \<Rightarrow> if budget_duration c = None then None else Some c)" for q
  have pf: "provider_config provider l x = (case provider x of None \<Rightarrow> None | Some q \<Rightarrow> map_option (Pair q) (cfg q))" for x
    by (simp add: provider_config_def cfg_def split: option.split)
  have "map_of (provider_configs (?f ds)) p = (if Some p \<in> provider ` set ds then cfg p else None)"
    by (induction ds rule: rev_induct) (auto simp: keys_of_deployment_eq pf split: option.split)
  then show "d \<in> set ds \<Longrightarrow> provider d = Some p \<Longrightarrow> map_of (provider_configs k) p = map_option snd (provider_config provider l d)"
    unfolding k using image_eqI [of "Some p" provider d "set ds"] by (cases "cfg p") (simp_all add: pf)
  have "map_of (deployment_configs (?f ds)) i = (if i \<in> dep_id ` set ds then get_budget_config_for_deployment i l else None)" for i
    by (induction ds rule: rev_induct) (auto simp: keys_of_deployment_eq split: option.split)
  then show "d \<in> set ds \<Longrightarrow> map_of (deployment_configs k) (dep_id d) = get_budget_config_for_deployment (dep_id d) l"
    unfolding k by simp
qed

lemma filter_is_filter:
  assumes "providers = [] \<or> providers = map provider ds"
  shows "filter_out_deployments_above_budget provider l pc dc sm tags providers ds =
    filter (\<lambda>d. above_budget_round l pc dc sm tags (provider d) d) ds"
  using assms
proof (induction ds arbitrary: providers)
  case (Cons d ds)
  have "(case providers of [] \<Rightarrow> provider d | p # _ \<Rightarrow> p) = provider d" "tl providers = [] \<or> tl providers = map provider ds"
    using Cons.prems by auto
  then show ?case using Cons.IH by (simp add: Let_def)
qed simp

lemma spends_lookup:
  assumes "\<forall>k \<in> set ks. float_or_zero fs (v k) = Inr (sp k)"
  shows "\<exists>m. spends_by_key fs ks (map v ks) acc = Inr m \<and>
    (\<forall>k. map_of m k = (if k \<in> set ks then Some (sp k) else map_of acc k))"
  using assms
proof (induction ks arbitrary: acc)
  case (Cons k ks)
  from Cons.IH [of "AList.update k (sp k) acc"] Cons.prems show ?case by auto
qed simp

lemma round_within:
  fixes l :: "'r limiter"
  assumes "k = get_cache_keys_for_router_budget_limiting provider tags l ds" "d \<in> set ds"
    and "\<forall>key \<in> set (cache_keys k). map_of sm key = Some (sp key)"
    and "provider_budget_config l1 = provider_budget_config l" "deployment_budget_config l1 = deployment_budget_config l"
      "tag_budget_config l1 = tag_budget_config l"
  shows "above_budget_round l1 (provider_configs k) (deployment_configs k) sm tags (provider d) d = within_budgets provider l sp tags d"
proof -
  note c = collected_keys [OF assms(1)]
  have keys: "key \<in> set (keys_for provider tags l d) \<Longrightarrow> dict_get sm key (PFloat 0) = sp key" for key
    using assms(2,3) unfolding c(1) by (auto simp: dict_get_def)
  have conf: "get_budget_config_for_provider p l = Some x \<Longrightarrow> configured (provider_budget_config l)"
    "get_budget_config_for_deployment i l = Some x \<Longrightarrow> configured (deployment_budget_config l)"
    "get_budget_config_for_tag g l = Some x \<Longrightarrow> configured (tag_budget_config l)" for p i g x
    using config_configured by (auto simp: get_budget_config_for_provider_def get_budget_config_for_deployment_def get_budget_config_for_tag_def)
  have p: "(configured (provider_budget_config l) \<and> (case provider d of None \<Rightarrow> False | Some p \<Rightarrow>
      (case map_of (provider_configs k) p of None \<Rightarrow> False | Some c \<Rightarrow>
        max_budget c = None \<or> over_budget c (dict_get sm (spend_key ''provider'' p c) (PFloat 0))))) \<longleftrightarrow>
    (\<exists>p c. provider d = Some p \<and> get_budget_config_for_provider p l = Some c \<and> budget_duration c \<noteq> None \<and>
      (max_budget c = None \<or> over_budget c (sp (spend_key ''provider'' p c))))"
  proof (cases "provider_config provider l d")
    case None
    then have "provider d = Some p \<Longrightarrow> map_of (provider_configs k) p = None" for p using c(3) [OF assms(2)] by simp
    then show ?thesis using None by (auto simp: provider_config_def split: option.splits if_splits)
  next
    case (Some x)
    obtain q cf where x: "x = (q, cf)" by (cases x)
    have q: "provider d = Some q" "get_budget_config_for_provider q l = Some cf" "budget_duration cf \<noteq> None"
      using Some x by (auto simp: provider_config_def split: option.splits if_splits)
    have "map_of (provider_configs k) q = Some cf" using c(3) [OF assms(2) q(1)] Some x by simp
    moreover have "dict_get sm (spend_key ''provider'' q cf) (PFloat 0) = sp (spend_key ''provider'' q cf)"
      by (rule keys) (simp add: keys_for_def Some x)
    ultimately show ?thesis using q conf(1) [OF q(2)] by simp
  qed
  have dp: "(configured (deployment_budget_config l) \<and> (case map_of (deployment_configs k) (dep_id d) of None \<Rightarrow> False | Some c \<Rightarrow>
      over_budget c (dict_get sm (spend_key ''deployment'' (dep_id d) c) (PFloat 0)))) \<longleftrightarrow>
    (\<exists>c. get_budget_config_for_deployment (dep_id d) l = Some c \<and> over_budget c (sp (spend_key ''deployment'' (dep_id d) c)))"
  proof (cases "get_budget_config_for_deployment (dep_id d) l")
    case (Some cf)
    have "dict_get sm (spend_key ''deployment'' (dep_id d) cf) (PFloat 0) = sp (spend_key ''deployment'' (dep_id d) cf)"
      by (rule keys) (simp add: keys_for_def Some)
    then show ?thesis using Some c(4) [OF assms(2)] conf(2) by simp
  qed (use c(4) [OF assms(2)] in simp)
  have tg: "(configured (tag_budget_config l) \<and> (\<exists>tag \<in> set tags. (case get_budget_config_for_tag tag l of None \<Rightarrow> False | Some c \<Rightarrow>
      over_budget c (dict_get sm (spend_key ''tag'' tag c) (PFloat 0))))) \<longleftrightarrow>
    (\<exists>tag \<in> set tags. \<exists>c. get_budget_config_for_tag tag l = Some c \<and> over_budget c (sp (spend_key ''tag'' tag c)))"
  proof -
    have "dict_get sm (spend_key ''tag'' g x) (PFloat 0) = sp (spend_key ''tag'' g x)"
      if "g \<in> set tags" "get_budget_config_for_tag g l = Some x" for g x
      by (rule keys) (use that in \<open>auto simp: keys_for_def intro!: bexI [of _ g]\<close>)
    then show ?thesis using conf(3) by (fastforce split: option.splits)
  qed
  have t: "get_budget_config_for_tag g l1 = get_budget_config_for_tag g l" for g using assms(6) by (simp add: get_budget_config_for_tag_def)
  show ?thesis
    unfolding above_budget_round_def assms(4-6) t p dp tg within_budgets_def by auto
qed

lemma no_keys_within:
  assumes "keys_for provider tags l d = []"
  shows "within_budgets provider l sp tags d"
proof -
  have "provider_config provider l d = None" "get_budget_config_for_deployment (dep_id d) l = None"
    "\<forall>tag \<in> set tags. get_budget_config_for_tag tag l = None"
    using assms by (auto simp: keys_for_def split: option.splits)
  then show ?thesis by (auto simp: within_budgets_def provider_config_def split: option.splits if_splits)
qed

lemma budget_filter_aux:
  assumes "redis_cache (budget_cache l) = None" "ds \<noteq> []"
    and "\<forall>k \<in> set (cache_keys (get_cache_keys_for_router_budget_limiting provider tags l ds)).
      float_or_zero float_str (dual_peek t k (budget_cache l)) = Inr (sp k)"
  shows "fst (async_filter_deployments ops rt float_str provider t t' tags ds l) =
    (let kept = filter (within_budgets provider l sp tags) ds in if kept = [] then Inl ValueError else Inr kept)"
proof -
  define k where "k = get_cache_keys_for_router_budget_limiting provider tags l ds"
  note c = collected_keys [OF k_def]
  show ?thesis
  proof (cases "cache_keys k = []")
    case True
    then have "\<forall>d \<in> set ds. within_budgets provider l sp tags d" using no_keys_within unfolding c(1) by fastforce
    then have "filter (within_budgets provider l sp tags) ds = ds" by (simp add: filter_id_conv)
    then show ?thesis using True assms(2) by (simp add: async_filter_deployments_def flip: k_def)
  next
    case False
    let ?d = "(budget_cache l)\<lparr>in_memory_cache := snd (imc_batch_get_cache t (cache_keys k) (in_memory_cache (budget_cache l)))\<rparr>"
    let ?l = "l\<lparr>budget_cache := ?d\<rparr>"
    let ?v = "map (\<lambda>k. dual_peek t k (budget_cache l)) (cache_keys k)"
    obtain v vs where v: "?v = v # vs" using False by (cases "cache_keys k") auto
    obtain sm where sm: "spends_by_key float_str (cache_keys k) ?v [] = Inr sm" "\<forall>key \<in> set (cache_keys k). map_of sm key = Some (sp key)"
      using spends_lookup [of "cache_keys k" float_str "\<lambda>k. dual_peek t k (budget_cache l)" sp "[]"] assms(3) unfolding k_def [symmetric] by auto
    have "deployment_providers k = [] \<or> deployment_providers k = map provider ds" using c(2) by auto
    from filter_is_filter [OF this, of ?l "provider_configs k" "deployment_configs k" sm tags]
    have "filter_out_deployments_above_budget provider ?l (provider_configs k) (deployment_configs k) sm tags (deployment_providers k) ds =
      filter (within_budgets provider l sp tags) ds"
      using round_within [OF k_def _ sm(2), of _ ?l] by (auto intro: filter_cong)
    then show ?thesis
      using False assms(2) sm(1) v
      by (simp add: async_filter_deployments_def batch_get_local [OF assms(1)] Let_def flip: k_def split: list.split)
  qed
qed

text \<open>
  Without Redis, when the counters of the budgets are numbers (\<open>sp\<close>), the filter returns exactly the
  deployments whose provider, own and tag budgets are not used up, in their order; it raises exactly if
  there is none.
\<close>

lemma budget_filter_exact:
  assumes "redis_cache (budget_cache l) = None" "ds \<noteq> []"
    and "\<forall>k \<in> set (cache_keys (get_cache_keys_for_router_budget_limiting provider tags l ds)).
      float_or_zero float_str (dual_peek t k (budget_cache l)) = Inr (sp k)"
  shows "fst (async_filter_deployments ops rt float_str provider t t' tags ds l) =
    (let kept = filter (within_budgets provider l sp tags) ds in if kept = [] then Inl ValueError else Inr kept)"
  using budget_filter_aux [OF assms] .

definition openai_budget :: "rat option \<Rightarrow> 'r dual \<Rightarrow> 'r limiter" where
  "openai_budget m d = \<lparr>budget_cache = d, budget_queue = [], push_tasks = [],
     provider_budget_config = Some [(''openai'', \<lparr>max_budget = m, budget_duration = Some ''1d''\<rparr>)],
     deployment_budget_config = None, tag_budget_config = None\<rparr>"

subsection \<open>A budget window\<close>

text \<open>An entry of the in-memory cache with its expiry.\<close>

definition entry :: "string \<Rightarrow> pyval \<Rightarrow> time \<Rightarrow> imc \<Rightarrow> bool" where
  "entry k v e c \<longleftrightarrow> map_of (cache_dict c) k = Some v \<and> map_of (ttl_dict c) k = Some e"

lemma entry_get: "entry k v e c \<Longrightarrow> t \<le> e \<Longrightarrow> imc_get_cache t k c = (json_view v, c)"
  by (simp add: entry_def imc_get_cache_def evict_element_if_expired_def is_key_expired_def)

lemma absent_get: "map_of (cache_dict c) k = None \<Longrightarrow> imc_get_cache t k c = (PNone, c)"
  by (simp add: imc_get_cache_def)

lemma set_absent:
  assumes "map_of (ttl_dict c) k = None" "int (length (cache_dict c)) < max_size_in_memory c" "check_value_size rt c v"
  shows "\<exists>c'. imc_set_cache rt t k v (Some x) c = (Inr (), c') \<and> entry k v (t + x) c' \<and>
    cache_dict c' = AList.update k v (cache_dict c) \<and> ttl_dict c' = AList.update k (t + x) (ttl_dict c) \<and> same_config c c'"
  using assms by (simp add: imc_set_cache_eq make_room_def imc_store_def Let_def allow_ttl_override_def entry_def same_config_def)

lemma increment_entry:
  assumes "entry k (PFloat a) e c" "t \<le> e" "int (length (cache_dict c)) < max_size_in_memory c" "\<forall>q. check_value_size rt c (PFloat q)"
  shows "imc_increment_cache rt t k (PFloat b) x c = (Inr (PFloat (a + b)), c\<lparr>cache_dict := AList.update k (PFloat (a + b)) (cache_dict c)\<rparr>)"
proof -
  have "py_add (py_or (PFloat a) (PInt 0)) (PFloat b) = Inr (PFloat (a + b))" by (simp add: py_or_def py_add_def)
  moreover have "imc_set_cache rt t k (PFloat (a + b)) x c = (Inr (), c\<lparr>cache_dict := AList.update k (PFloat (a + b)) (cache_dict c)\<rparr>)"
    using assms by (auto simp: entry_def imc_set_cache_eq make_room_def imc_store_def Let_def allow_ttl_override_def)
  ultimately show ?thesis using entry_get [OF assms(1,2)] by (simp add: imc_increment_cache_def json_view_def)
qed

text \<open>A window that began at \<open>b\<close> with \<open>a\<close> spent in it.\<close>

definition window :: "py_runtime \<Rightarrow> string \<Rightarrow> string \<Rightarrow> time \<Rightarrow> int \<Rightarrow> rat \<Rightarrow> 'r limiter \<Rightarrow> bool" where
  "window rt key start_key b ttl a l \<longleftrightarrow>
     (let c = in_memory_cache (budget_cache l) in
      redis_cache (budget_cache l) = None \<and> entry start_key (PFloat b) (b + of_int ttl) c \<and> entry key (PFloat a) (b + of_int ttl) c \<and>
      int (length (cache_dict c)) < max_size_in_memory c \<and> (\<forall>q. check_value_size rt c (PFloat q)))"

lemma window_step:
  assumes "window rt key sk b ttl a l" "key \<noteq> sk" "budget_duration c = Some s" "duration_in_seconds now s = Inr ttl"
    and "b \<le> t" "t \<le> b + of_int ttl"
  shows "\<exists>l'. increment_spend_for_key ops rt fs t now c key sk (PFloat x) l = (Inr (), l') \<and> window rt key sk b ttl (a + x) l' \<and>
    provider_budget_config l' = provider_budget_config l \<and> deployment_budget_config l' = deployment_budget_config l \<and>
    tag_budget_config l' = tag_budget_config l"
proof -
  let ?c = "in_memory_cache (budget_cache l)"
  let ?c' = "?c\<lparr>cache_dict := AList.update key (PFloat (a + x)) (cache_dict ?c)\<rparr>"
  have w: "redis_cache (budget_cache l) = None" "entry sk (PFloat b) (b + of_int ttl) ?c" "entry key (PFloat a) (b + of_int ttl) ?c"
    "int (length (cache_dict ?c)) < max_size_in_memory ?c" "\<forall>q. check_value_size rt ?c (PFloat q)"
    using assms(1) by (simp_all add: window_def Let_def)
  have "dual_get_cache ops rt t t sk False None (budget_cache l) = (PFloat b, budget_cache l)"
    using w(1) entry_get [OF w(2) assms(6)] by (simp add: dual_get_cache_def with_mem_def json_view_def)
  then have start: "get_or_set_budget_start_time ops rt fs t sk ttl l = (Inr (PFloat b), l)"
    by (simp add: get_or_set_budget_start_time_def)
  have el: "py_add (PFloat t) (py_neg (PFloat b)) = Inr (PFloat (t - b))" by (simp add: py_add_def)
  have late: "py_gt (PFloat (t - b)) (PInt ttl) \<noteq> Inr True" using assms(6) by (simp add: py_gt_def num_lt_def is_number_def)
  have rem: "py_add (PInt ttl) (PFloat (b - t)) = Inr (PFloat (of_int ttl + (b - t)))" by (simp add: py_add_def)
  note inc = increment_entry [OF w(3) assms(6) w(4,5)]
  obtain l' where l': "increment_spend_for_key ops rt fs t now c key sk (PFloat x) l = (Inr (), l')"
    "budget_cache l' = (budget_cache l)\<lparr>in_memory_cache := ?c'\<rparr>" "provider_budget_config l' = provider_budget_config l"
    "deployment_budget_config l' = deployment_budget_config l" "tag_budget_config l' = tag_budget_config l"
    by (simp add: increment_spend_for_key_def assms(3,4) start el late rem py_trunc_def increment_spend_in_current_window_def inc with_mem_def)
  have "entry sk (PFloat b) (b + of_int ttl) ?c'" "entry key (PFloat (a + x)) (b + of_int ttl) ?c'"
    using w(2,3) assms(2) by (auto simp: entry_def)
  moreover have "int (length (cache_dict ?c')) < max_size_in_memory ?c'"
    using w(3,4) by (auto simp: entry_def length_update dest: map_of_Some_key)
  moreover have "\<forall>q. check_value_size rt ?c' (PFloat q)" using w(5) check_value_size_cong [of ?c ?c'] by simp
  ultimately have "window rt key sk b ttl (a + x) l'" using w(1) l'(2) by (simp add: window_def Let_def)
  then show ?thesis using l' by blast
qed

lemma window_first:
  assumes "redis_cache (budget_cache l) = None" "c = in_memory_cache (budget_cache l)" "key \<noteq> sk"
    and "map_of (cache_dict c) sk = None" "map_of (ttl_dict c) sk = None" "map_of (cache_dict c) key = None" "map_of (ttl_dict c) key = None"
    and "int (length (cache_dict c)) + 2 < max_size_in_memory c" "\<forall>q. check_value_size rt c (PFloat q)" "default_in_memory_ttl (budget_cache l) = None"
    and "budget_duration cf = Some s" "duration_in_seconds now s = Inr ttl" "0 \<le> ttl"
  shows "\<exists>l'. increment_spend_for_key ops rt fs t now cf key sk (PFloat x) l = (Inr (), l') \<and> window rt key sk t ttl x l' \<and>
    provider_budget_config l' = provider_budget_config l \<and> deployment_budget_config l' = deployment_budget_config l \<and>
    tag_budget_config l' = tag_budget_config l"
proof -
  let ?d = "budget_cache l" and ?ttl = "Some (Some (rat_of_int ttl))"
  obtain c1 where c1: "imc_set_cache rt t sk (PFloat t) (Some (of_int ttl)) c = (Inr (), c1)" "entry sk (PFloat t) (t + of_int ttl) c1"
    "cache_dict c1 = AList.update sk (PFloat t) (cache_dict c)" "ttl_dict c1 = AList.update sk (t + of_int ttl) (ttl_dict c)" "same_config c c1"
    using set_absent [of c sk rt "PFloat t" t "of_int ttl"] assms(5,8,9) by auto
  have get: "dual_get_cache ops rt t t sk False None ?d = (PNone, ?d)"
    using assms(1) absent_get [OF assms(4)] by (simp add: dual_get_cache_def with_mem_def flip: assms(2))
  have set: "dual_set_cache ops rt t sk (PFloat t) False ?ttl ?d = ?d\<lparr>in_memory_cache := c1\<rparr>"
    using assms(1,10) c1(1) by (simp add: dual_set_cache_def dual_ttl_def kw_ttl_def with_mem_def Let_def flip: assms(2))
  let ?l = "l\<lparr>budget_cache := ?d\<lparr>in_memory_cache := c1\<rparr>\<rparr>"
  have start: "get_or_set_budget_start_time ops rt fs t sk ttl l = (Inr (PFloat t), ?l)"
    by (simp add: get_or_set_budget_start_time_def get set)
  have abs: "map_of (cache_dict c1) key = None" "map_of (ttl_dict c1) key = None"
    using assms(3,6,7) c1(3,4) by simp_all
  have room: "int (length (cache_dict c1)) + 1 < max_size_in_memory c1"
    using assms(8) c1(3,5) length_update_le [of sk "PFloat t" "cache_dict c"] by (simp add: same_config_def)
  have fits: "\<forall>q. check_value_size rt c1 (PFloat q)" using assms(9) c1(5) check_value_size_cong by blast
  obtain c2 where c2: "imc_set_cache rt t key (PFloat x) (Some (of_int ttl)) c1 = (Inr (), c2)" "entry key (PFloat x) (t + of_int ttl) c2"
    "cache_dict c2 = AList.update key (PFloat x) (cache_dict c1)" "ttl_dict c2 = AList.update key (t + of_int ttl) (ttl_dict c1)" "same_config c1 c2"
    using set_absent [of c1 key rt "PFloat x" t "of_int ttl"] abs room fits by auto
  have inc: "imc_increment_cache rt t key (PFloat x) (Some (of_int ttl)) c1 = (Inr (PFloat x), c2)"
    using absent_get [OF abs(1)] c2(1) by (simp add: imc_increment_cache_def py_or_def py_add_def)
  have el: "py_add (PFloat t) (py_neg (PFloat t)) = Inr (PFloat 0)" by (simp add: py_add_def)
  have late: "py_gt (PFloat 0) (PInt ttl) \<noteq> Inr True" using assms(13) by (simp add: py_gt_def num_lt_def is_number_def)
  have rem: "py_add (PInt ttl) (PFloat 0) = Inr (PFloat (of_int ttl))" by (simp add: py_add_def)
  obtain l' where l': "increment_spend_for_key ops rt fs t now cf key sk (PFloat x) l = (Inr (), l')"
    "budget_cache l' = ?d\<lparr>in_memory_cache := c2\<rparr>" "provider_budget_config l' = provider_budget_config l"
    "deployment_budget_config l' = deployment_budget_config l" "tag_budget_config l' = tag_budget_config l"
    using assms(13) by (simp add: increment_spend_for_key_def assms(11,12) start el late rem py_trunc_def increment_spend_in_current_window_def inc with_mem_def)
  have "entry sk (PFloat t) (t + of_int ttl) c2" using c1(2) c2(3,4) assms(3) by (simp add: entry_def)
  moreover have "int (length (cache_dict c2)) < max_size_in_memory c2"
    using room c2(3,5) length_update_le [of key "PFloat x" "cache_dict c1"] by (simp add: same_config_def)
  moreover have "\<forall>q. check_value_size rt c2 (PFloat q)" using fits c2(5) check_value_size_cong by blast
  ultimately have "window rt key sk t ttl x l'" using assms(1) l'(2) c2(2) by (simp add: window_def Let_def)
  then show ?thesis using l' by blast
qed

text \<open>Requests of a provider, each with its time and cost.\<close>

definition spend_kwargs :: "string \<Rightarrow> rat \<Rightarrow> (string, pyval) dict" where
  "spend_kwargs p x = [(''standard_logging_object'', PDict [(''response_cost'', PFloat x)]),
     (''litellm_params'', PDict [(''custom_llm_provider'', PStr p)])]"

fun spend_events ::
  "'r redis_ops \<Rightarrow> py_runtime \<Rightarrow> (string \<Rightarrow> pyval pyres) \<Rightarrow> (pyval \<Rightarrow> string) \<Rightarrow> datetime \<Rightarrow> string \<Rightarrow> (time \<times> rat) list \<Rightarrow> 'r limiter \<Rightarrow> 'r limiter" where
  "spend_events ops rt fs py_str now p [] l = l"
| "spend_events ops rt fs py_str now p ((t, x) # es) l =
     spend_events ops rt fs py_str now p es (snd (budget_log_success_event ops rt fs py_str t now (spend_kwargs p x) [] l))"

definition only_provider :: "string \<Rightarrow> budget_config \<Rightarrow> 'r limiter \<Rightarrow> bool" where
  "only_provider p c l \<longleftrightarrow> provider_budget_config l = Some [(p, c)] \<and> deployment_budget_config l = None \<and> tag_budget_config l = None"

lemma spend_event_eq:
  assumes "only_provider p c l"
  shows "budget_log_success_event ops rt fs py_str t now (spend_kwargs p x) [] l =
    (case increment_spend_for_key ops rt fs t now c (spend_key ''provider'' p c) (start_time_key ''provider'' p) (PFloat x) l of
       (Inl e, l1) \<Rightarrow> (Inl e, l1) | (Inr _, l1) \<Rightarrow> (Inr (), l1))"
  using assms by (simp add: budget_log_success_event_def spend_kwargs_def dict_get_def spend_targets_def only_provider_def
      get_budget_config_for_provider_def get_budget_config_for_deployment_def config_for_def val_str_def
      split: prod.split sum.split)

lemma window_events:
  assumes "window rt (spend_key ''provider'' p c) (start_time_key ''provider'' p) b ttl a l" "only_provider p c l"
    and "budget_duration c = Some s" "duration_in_seconds now s = Inr ttl" "\<forall>(t, x) \<in> set es. b \<le> t \<and> t \<le> b + of_int ttl"
  shows "window rt (spend_key ''provider'' p c) (start_time_key ''provider'' p) b ttl (a + sum_list (map snd es)) (spend_events ops rt fs py_str now p es l) \<and>
    only_provider p c (spend_events ops rt fs py_str now p es l)"
  using assms(1,2,5)
proof (induction es arbitrary: a l)
  case (Cons e es)
  obtain t x where e: "e = (t, x)" by (cases e)
  have ne: "spend_key ''provider'' p c \<noteq> start_time_key ''provider'' p" by (simp add: spend_key_def start_time_key_def)
  have t: "b \<le> t" "t \<le> b + of_int ttl" using Cons.prems(3) e by auto
  obtain l' where l': "increment_spend_for_key ops rt fs t now c (spend_key ''provider'' p c) (start_time_key ''provider'' p) (PFloat x) l = (Inr (), l')"
    "window rt (spend_key ''provider'' p c) (start_time_key ''provider'' p) b ttl (a + x) l'" "only_provider p c l'"
    using window_step [OF Cons.prems(1) ne assms(3,4) t, of ops fs x] Cons.prems(2) unfolding only_provider_def by metis
  from Cons.IH [OF l'(2,3)] Cons.prems(3) show ?case
    by (simp add: e spend_event_eq [OF Cons.prems(2)] l'(1) add.assoc)
qed simp



subsection \<open>Where the budgets do not hold\<close>

text \<open>A provider with a period but no limit is refused, one with a limit of 0 is not limited.\<close>

lemma provider_without_limit_refused:
  "fst (async_filter_deployments ops0 rt0 (\<lambda>_. Inl ValueError) (\<lambda>_. Some ''openai'') 0 0 [] [dep ''a'' None] (openai_budget None mem_dual)) =
     Inl ValueError"
  by code_simp

lemma zero_budget_unlimited: "max_budget c = Some 0 \<Longrightarrow> \<not> over_budget c spend"
  by (simp add: over_budget_def)

text \<open>
  The queue is pushed by a task, so the synchronisation may read Redis before the push has arrived:
  spend that memory had already counted is taken back and the provider is no longer blocked.
\<close>

abbreviation openai_spent :: "(string, pyval) dict limiter" where
  "openai_spent \<equiv> (openai_budget (Some 5) dual0)\<lparr>
     budget_cache := dual_set_cache redis_counting rt0 0 ''provider_spend:openai:1d'' (PFloat 1) False None dual0\<rparr>"

lemma sync_takes_spend_back:
  "let l = snd (increment_spend_in_current_window rt0 1 ''provider_spend:openai:1d'' (PFloat 7) 60 openai_spent);
       l' = budget_sync redis_counting rt0 (\<lambda>_. Inl ValueError) 2 l in
   dual_peek 2 ''provider_spend:openai:1d'' (budget_cache l) = PFloat 8 \<and>
   dual_peek 2 ''provider_spend:openai:1d'' (budget_cache l') = PFloat 1 \<and> push_tasks l' \<noteq> []"
  by code_simp

end
