(* ===== verification/BudgetManager.thy ===== *)
theory BudgetManager
  imports PyText
begin

text \<open>
  \<^verbatim>\<open>budget_manager.py\<close>: budgets per user. The entry of a user is a record whose optional fields
  are the keys that may be missing from its dict. The prices come from \<open>pricing\<close>: the token counter
  and the price tables of the library, and the cost of a completion object with its model. A save runs
  in a thread of its own, so it is a step that may run later (\<open>pending\<close> counts the threads that
  were started and have not run) and writes the budgets of that moment.
\<close>

record user_budget =
  total_budget :: rat
  b_duration :: "rat option"
  created_at :: "rat option"
  last_updated_at :: "rat option"
  current_cost :: "rat option"
  model_cost :: "(string, rat) dict option"

type_synonym user_dict = "(string, user_budget) dict"

record manager =
  users :: user_dict
  stored :: "user_dict option"
  pending :: nat

record 'c pricing =
  token_counter :: "string \<Rightarrow> string \<Rightarrow> nat"
  cost_per_token :: "string \<Rightarrow> nat \<Rightarrow> nat \<Rightarrow> rat \<times> rat"
  completion_cost :: "'c \<Rightarrow> rat"
  completion_model :: "'c \<Rightarrow> string"

definition DAYS_IN_A_WEEK :: rat where
  "DAYS_IN_A_WEEK = 7"

definition DAYS_IN_A_MONTH :: rat where
  "DAYS_IN_A_MONTH = 28"

definition DAYS_IN_A_YEAR :: rat where
  "DAYS_IN_A_YEAR = 365"

definition HOURS_IN_A_DAY :: rat where
  "HOURS_IN_A_DAY = 24"

definition load_data :: "user_dict option \<Rightarrow> manager" where
  "load_data file = \<lparr>users = (case file of Some d \<Rightarrow> d | None \<Rightarrow> []), stored = file, pending = 0\<rparr>"

definition save_data_thread :: "manager \<Rightarrow> manager" where
  "save_data_thread b = b\<lparr>pending := Suc (pending b)\<rparr>"

definition save_data :: "manager \<Rightarrow> manager" where
  "save_data b = b\<lparr>stored := Some (users b), pending := pending b - 1\<rparr>"

text \<open>
  \<open>import_time\<close> is the value of the default \<^verbatim>\<open>created_at: float = time.time()\<close>, which is
  computed once, when the module is loaded.
\<close>

definition create_budget ::
  "rat \<Rightarrow> rat \<Rightarrow> string \<Rightarrow> string option \<Rightarrow> rat option \<Rightarrow> manager \<Rightarrow> user_budget pyres \<times> manager" where
  "create_budget import_time budget user duration created b =
     (let e = \<lparr>total_budget = budget, b_duration = None, created_at = None, last_updated_at = None,
                current_cost = None, model_cost = None\<rparr>;
          b1 = b\<lparr>users := AList.update user e (users b)\<rparr>;
          c = (case created of None \<Rightarrow> import_time | Some x \<Rightarrow> x);
          with_days = (\<lambda>d. let e1 = e\<lparr>b_duration := Some d, created_at := Some c, last_updated_at := Some c\<rparr> in
            (Inr e1, save_data_thread (b1\<lparr>users := AList.update user e1 (users b1)\<rparr>))) in
      case duration of
        None \<Rightarrow> (Inr e, b1)
      | Some s \<Rightarrow>
        if s = ''daily'' then with_days 1
        else if s = ''weekly'' then with_days DAYS_IN_A_WEEK
        else if s = ''monthly'' then with_days DAYS_IN_A_MONTH
        else if s = ''yearly'' then with_days DAYS_IN_A_YEAR
        else (Inl ValueError, b1))"

definition get_user :: "string \<Rightarrow> manager \<Rightarrow> user_budget pyres" where
  "get_user user b = (case map_of (users b) user of None \<Rightarrow> Inl KeyError | Some e \<Rightarrow> Inr e)"

definition put_user :: "string \<Rightarrow> user_budget \<Rightarrow> manager \<Rightarrow> manager" where
  "put_user user e b = b\<lparr>users := AList.update user e (users b)\<rparr>"

definition zero_or :: "rat option \<Rightarrow> rat" where
  "zero_or x = (case x of None \<Rightarrow> 0 | Some y \<Rightarrow> y)"

definition projected_cost :: "'c pricing \<Rightarrow> string \<Rightarrow> string list \<Rightarrow> string \<Rightarrow> manager \<Rightarrow> rat pyres" where
  "projected_cost p model contents user b =
     (let prompt_cost = fst (cost_per_token p model (token_counter p model (concat contents)) 0) in
      map_sum id (\<lambda>e. prompt_cost + zero_or (current_cost e)) (get_user user b))"

definition get_total_budget :: "string \<Rightarrow> manager \<Rightarrow> rat pyres" where
  "get_total_budget user b = map_sum id total_budget (get_user user b)"

definition get_current_cost :: "string \<Rightarrow> manager \<Rightarrow> rat pyres" where
  "get_current_cost user b = map_sum id (\<lambda>e. zero_or (current_cost e)) (get_user user b)"

definition nonempty :: "string option \<Rightarrow> bool" where
  "nonempty s \<longleftrightarrow> s \<noteq> None \<and> s \<noteq> Some []"

text \<open>The cost of a request and the model it is booked on.\<close>

definition request_cost ::
  "'c pricing \<Rightarrow> 'c option \<Rightarrow> string option \<Rightarrow> string option \<Rightarrow> string option \<Rightarrow> (rat \<times> string) pyres" where
  "request_cost p completion_obj model input_text output_text =
     (if nonempty model \<and> nonempty input_text \<and> nonempty output_text then
        (let m = the model;
             costs = cost_per_token p m (token_counter p m (the input_text)) (token_counter p m (the output_text)) in
         Inr (fst costs + snd costs, m))
      else case completion_obj of
        Some c \<Rightarrow> Inr (completion_cost p c, completion_model p c)
      | None \<Rightarrow> Inl ValueError)"

definition book_cost :: "rat \<Rightarrow> string \<Rightarrow> user_budget \<Rightarrow> user_budget" where
  "book_cost cost model e =
     e\<lparr>current_cost := Some (cost + zero_or (current_cost e)),
       model_cost := Some (case model_cost e of
           Some mc \<Rightarrow> AList.update model (cost + dict_get mc model 0) mc
         | None \<Rightarrow> [(model, cost)])\<rparr>"

definition update_cost ::
  "'c pricing \<Rightarrow> string \<Rightarrow> 'c option \<Rightarrow> string option \<Rightarrow> string option \<Rightarrow> string option \<Rightarrow> manager \<Rightarrow>
   user_budget pyres \<times> manager" where
  "update_cost p user completion_obj model input_text output_text b =
     (case request_cost p completion_obj model input_text output_text of
        Inl e \<Rightarrow> (Inl e, b)
      | Inr (cost, m) \<Rightarrow>
        (case get_user user b of
           Inl e \<Rightarrow> (Inl e, b)
         | Inr e \<Rightarrow> let e1 = book_cost cost m e in (Inr e1, save_data_thread (put_user user e1 b))))"

definition reset_cost :: "string \<Rightarrow> manager \<Rightarrow> user_budget pyres \<times> manager" where
  "reset_cost user b =
     (case get_user user b of
        Inl e \<Rightarrow> (Inl e, b)
      | Inr e \<Rightarrow> let e1 = e\<lparr>current_cost := Some 0, model_cost := Some []\<rparr> in (Inr e1, put_user user e1 b))"

definition reset_on_duration :: "rat \<Rightarrow> string \<Rightarrow> manager \<Rightarrow> unit pyres \<times> manager" where
  "reset_on_duration now user b =
     (case get_user user b of
        Inl e \<Rightarrow> (Inl e, b)
      | Inr e \<Rightarrow>
        (case (last_updated_at e, b_duration e) of
           (Some t, Some d) \<Rightarrow>
             if now - t \<ge> d * HOURS_IN_A_DAY * 60 * 60
             then let b1 = snd (reset_cost user b) in
               (case get_user user b1 of
                  Inl x \<Rightarrow> (Inl x, b1)
                | Inr e1 \<Rightarrow> (Inr (), save_data_thread (put_user user (e1\<lparr>last_updated_at := Some now\<rparr>) b1)))
             else (Inr (), b)
         | _ \<Rightarrow> (Inl KeyError, b)))"

fun update_budgets :: "(string \<Rightarrow> rat) \<Rightarrow> string list \<Rightarrow> manager \<Rightarrow> unit pyres \<times> manager" where
  "update_budgets clock [] b = (Inr (), b)"
| "update_budgets clock (u # us) b =
     (case get_user u b of
        Inl e \<Rightarrow> (Inl e, b)
      | Inr e \<Rightarrow>
        if b_duration e = None then update_budgets clock us b
        else (case reset_on_duration (clock u) u b of
            (Inl x, b1) \<Rightarrow> (Inl x, b1)
          | (Inr _, b1) \<Rightarrow> update_budgets clock us b1))"

definition update_budget_all_users :: "(string \<Rightarrow> rat) \<Rightarrow> manager \<Rightarrow> unit pyres \<times> manager" where
  "update_budget_all_users clock b = update_budgets clock (dict_keys (users b)) b"

subsection \<open>Costs agree\<close>

definition costs_agree :: "user_budget \<Rightarrow> bool" where
  "costs_agree e \<longleftrightarrow>
     (case model_cost e of
        None \<Rightarrow> zero_or (current_cost e) = 0
      | Some mc \<Rightarrow> dict_wf mc \<and> zero_or (current_cost e) = (\<Sum>p\<leftarrow>mc. snd p))"

definition budget_inv :: "user_dict \<Rightarrow> bool" where
  "budget_inv d \<longleftrightarrow> (\<forall>u e. map_of d u = Some e \<longrightarrow> costs_agree e)"

inductive budget_step :: "'c pricing \<Rightarrow> manager \<Rightarrow> manager \<Rightarrow> bool" for p where
  create: "budget_step p b (snd (create_budget it tot u d c b))"
| update: "budget_step p b (snd (update_cost p u obj m i out b))"
| reset: "budget_step p b (snd (reset_cost u b))"
| reset_due: "budget_step p b (snd (reset_on_duration now u b))"
| reset_all: "budget_step p b (snd (update_budget_all_users clock b))"
| save: "0 < pending b \<Longrightarrow> budget_step p b (save_data b)"

inductive budget_reachable :: "'c pricing \<Rightarrow> manager \<Rightarrow> bool" for p where
  start: "budget_reachable p (load_data None)"
| step: "budget_reachable p b \<Longrightarrow> budget_step p b b' \<Longrightarrow> budget_reachable p b'"

lemma sum_update:
  "dict_wf m \<Longrightarrow> (\<Sum>p\<leftarrow>AList.update k v m. snd p) = (\<Sum>p\<leftarrow>m. snd p) - dict_get m k 0 + (v :: rat)"
  by (induction m) (auto simp: dict_get_def split: option.split dest: map_of_SomeD)

lemma book_cost_agree: "costs_agree e \<Longrightarrow> costs_agree (book_cost c m e)"
  by (auto simp: costs_agree_def book_cost_def zero_or_def sum_update distinct_update split: option.splits)

lemma inv_put: "budget_inv (users b) \<Longrightarrow> costs_agree e \<Longrightarrow> budget_inv (users (put_user u e b))"
  by (auto simp: budget_inv_def put_user_def)

lemma inv_get: "budget_inv (users b) \<Longrightarrow> get_user u b = Inr e \<Longrightarrow> costs_agree e"
  by (auto simp: budget_inv_def get_user_def split: option.splits)

lemma users_save_thread [simp]: "users (save_data_thread b) = users b" "stored (save_data_thread b) = stored b"
  by (simp_all add: save_data_thread_def)

lemma create_inv: "budget_inv (users b) \<Longrightarrow> budget_inv (users (snd (create_budget it t u d c b)))"
  by (auto simp: create_budget_def Let_def budget_inv_def costs_agree_def zero_or_def split: option.splits)

lemma update_inv: "budget_inv (users b) \<Longrightarrow> budget_inv (users (snd (update_cost p u obj m i out b)))"
  by (auto simp: update_cost_def Let_def split: sum.split dest: inv_get intro!: inv_put book_cost_agree)

lemma reset_inv: "budget_inv (users b) \<Longrightarrow> budget_inv (users (snd (reset_cost u b)))"
  by (auto simp: reset_cost_def Let_def costs_agree_def zero_or_def split: sum.split intro!: inv_put)

lemma reset_due_inv:
  assumes "budget_inv (users b)"
  shows "budget_inv (users (snd (reset_on_duration now u b)))"
proof -
  have "costs_agree (e\<lparr>last_updated_at := Some now\<rparr>)" if "get_user u (snd (reset_cost u b)) = Inr e" for e
    using inv_get [OF reset_inv [OF assms] that] by (auto simp: costs_agree_def split: option.splits)
  then show ?thesis
    using assms reset_inv [OF assms]
    by (auto simp: reset_on_duration_def Let_def split: sum.split option.split intro!: inv_put)
qed

lemma reset_all_inv: "budget_inv (users b) \<Longrightarrow> budget_inv (users (snd (update_budgets clock us b)))"
proof (induction clock us b rule: update_budgets.induct)
  case (2 clock u us b)
  then show ?case
    using reset_due_inv [of b "clock u" u] by (auto split: sum.split prod.split)
qed simp

lemma stored_same:
  "stored (snd (create_budget it t u d c b)) = stored b" "stored (snd (update_cost p u obj m i out b)) = stored b"
  "stored (snd (reset_cost u b)) = stored b" "stored (snd (reset_on_duration now u b)) = stored b"
  by (auto simp: create_budget_def update_cost_def reset_cost_def reset_on_duration_def put_user_def Let_def
      split: option.splits sum.splits)

lemma stored_same_all: "stored (snd (update_budgets clock us b)) = stored b"
proof (induction clock us b rule: update_budgets.induct)
  case (2 clock u us b)
  then show ?case
    using stored_same(4) [of "clock u" u b] by (auto split: sum.split prod.split)
qed simp

lemmas budget_inv_intros = create_inv update_inv reset_inv reset_due_inv reset_all_inv

subsection \<open>Properties\<close>

text \<open>
  In every reachable state of a budget manager, in memory and in what was saved, the
  current cost of a user is the sum of the costs booked per model, whatever the order of updates,
  resets and saves.
\<close>

lemma budget_costs_agree:
  assumes "budget_reachable p b"
  shows "budget_inv (users b) \<and> (\<forall>d. stored b = Some d \<longrightarrow> budget_inv d)"
  using assms
proof (induction rule: budget_reachable.induct)
  case start
  then show ?case by (simp add: load_data_def budget_inv_def)
next
  case (step b b')
  from step(2) step.IH show ?case
    by cases (auto simp: stored_same stored_same_all update_budget_all_users_def save_data_def intro!: budget_inv_intros)
qed

definition sample_pricing :: "unit pricing" where
  "sample_pricing = \<lparr>token_counter = (\<lambda>_ s. length s), cost_per_token = (\<lambda>_ a b. (of_nat a, 2 * of_nat b)),
     completion_cost = (\<lambda>_. 5), completion_model = (\<lambda>_. ''m'')\<rparr>"

text \<open>
  The cost of a user with a duration is reset when that many days have passed since its
  last reset and not before; the reset starts the next period and changes no other user.
\<close>

lemma budget_reset_on_time:
  assumes "map_of (users b) u = Some e" "last_updated_at e = Some t" "b_duration e = Some d"
    and "reset_on_duration now u b = (r, b')"
  shows "r = Inr () \<and>
    map_of (users b') u = Some (if t + d * 86400 \<le> now
      then e\<lparr>current_cost := Some 0, model_cost := Some [], last_updated_at := Some now\<rparr> else e) \<and>
    (\<forall>v. v \<noteq> u \<longrightarrow> map_of (users b') v = map_of (users b) v)"
proof -
  have g: "get_user u b = Inr e" using assms(1) by (simp add: get_user_def)
  have "now - t \<ge> d * HOURS_IN_A_DAY * 60 * 60 \<longleftrightarrow> t + d * 86400 \<le> now"
    by (auto simp: HOURS_IN_A_DAY_def)
  moreover have "get_user u (snd (reset_cost u b)) = Inr (e\<lparr>current_cost := Some 0, model_cost := Some []\<rparr>)"
    using g by (simp add: reset_cost_def Let_def put_user_def get_user_def)
  ultimately show ?thesis
    using assms g
    by (auto simp: reset_on_duration_def Let_def reset_cost_def put_user_def save_data_thread_def split: if_splits)
qed

end
