(* ===== verification/RateDescriptors.thy ===== *)
theory RateDescriptors
  imports DualCache PyText
begin

text \<open>
  What the rate limiter of the proxy is asked to check (\<^verbatim>\<open>proxy/hooks/parallel_request_limiter_v3.py\<close>,
  with the lookups of \<^verbatim>\<open>proxy/auth/auth_utils.py\<close>): from the limits of an API key, its user, team,
  team member, end user, organization, models and agent, the list of rate limit descriptors of a
  request. A descriptor names a counter by its key and value, and carries the limits to enforce.

  The limits by model in a metadata dict are dicts from models to limits, as they are declared, and the
  model of a request is a string or absent. The registry of agents is an argument.
\<close>

subsection \<open>Data\<close>

record rate_limit_object =
  requests_per_unit :: pyval
  tokens_per_unit :: pyval
  max_parallel_requests :: pyval
  unit_window :: "int option" \<comment> \<open>\<^verbatim>\<open>window_size\<close>\<close>

record rate_limit_descriptor =
  descriptor_key :: string
  descriptor_value :: string
  rate_limit :: "rate_limit_object option"

text \<open>The fields of \<^verbatim>\<open>UserAPIKeyAuth\<close> that the limiter reads.\<close>

record api_key_auth =
  auth_api_key :: "string option"
  auth_rpm_limit :: "int option"
  auth_tpm_limit :: "int option"
  auth_max_parallel_requests :: "int option"
  auth_user_id :: "string option"
  auth_user_rpm_limit :: "int option"
  auth_user_tpm_limit :: "int option"
  auth_team_id :: "string option"
  auth_team_rpm_limit :: "int option"
  auth_team_tpm_limit :: "int option"
  auth_team_member_rpm_limit :: "int option"
  auth_team_member_tpm_limit :: "int option"
  auth_end_user_id :: "string option"
  auth_end_user_rpm_limit :: "int option"
  auth_end_user_tpm_limit :: "int option"
  auth_org_id :: "string option"
  auth_organization_rpm_limit :: "int option"
  auth_organization_tpm_limit :: "int option"
  auth_agent_id :: "string option"
  auth_metadata :: "(string, pyval) dict"
  auth_team_metadata :: "(string, pyval) dict option"
  auth_organization_metadata :: "(string, pyval) dict option"
  auth_model_max_budget :: "(string, pyval) dict"

record request_data =
  req_model :: "string option"
  req_rest :: "(string, pyval) dict" \<comment> \<open>the other items of the request\<close>

record agent =
  agent_key :: string \<comment> \<open>\<^verbatim>\<open>agent_id\<close>\<close>
  agent_rpm_limit :: "int option"
  agent_tpm_limit :: "int option"
  session_rpm_limit :: "int option"
  session_tpm_limit :: "int option"

type_synonym model_limits = "(string, pyval) dict option"

definition opt_int :: "int option \<Rightarrow> pyval" where
  "opt_int x = (case x of None \<Rightarrow> PNone | Some n \<Rightarrow> PInt n)"

text \<open>An optional string in an f-string, and its truth value.\<close>

definition opt_text :: "string option \<Rightarrow> string" where
  "opt_text x = (case x of None \<Rightarrow> ''None'' | Some s \<Rightarrow> s)"

definition nonempty :: "string option \<Rightarrow> bool" where
  "nonempty x \<longleftrightarrow> x \<noteq> None \<and> x \<noteq> Some []"

subsection \<open>Limits by model\<close>

definition as_limits :: "pyval \<Rightarrow> model_limits" where
  "as_limits v = (case v of PDict d \<Rightarrow> Some d | _ \<Rightarrow> None)"

definition get_model_rate_limit_from_metadata :: "(string, pyval) dict option \<Rightarrow> string \<Rightarrow> model_limits" where
  "get_model_rate_limit_from_metadata md rate_limit_key =
     (case md of
        None \<Rightarrow> None
      | Some m \<Rightarrow> if m = [] then None else as_limits (dict_get m rate_limit_key PNone))"

definition get_team_model_rpm_limit :: "api_key_auth \<Rightarrow> model_limits" where
  "get_team_model_rpm_limit a =
     (case auth_team_metadata a of
        None \<Rightarrow> None
      | Some m \<Rightarrow> if m = [] then None else as_limits (dict_get m ''model_rpm_limit'' PNone))"

definition get_team_model_tpm_limit :: "api_key_auth \<Rightarrow> model_limits" where
  "get_team_model_tpm_limit a =
     (case auth_team_metadata a of
        None \<Rightarrow> None
      | Some m \<Rightarrow> if m = [] then None else as_limits (dict_get m ''model_tpm_limit'' PNone))"

text \<open>The limits in \<^verbatim>\<open>model_max_budget\<close>.\<close>

definition budget_limits :: "string \<Rightarrow> (string, pyval) dict \<Rightarrow> (string, pyval) dict" where
  "budget_limits name budgets =
     List.map_filter (\<lambda>(model, budget). case budget of
         PDict b \<Rightarrow> if dict_get b name PNone \<noteq> PNone then Some (model, dict_get b name PNone) else None
       | _ \<Rightarrow> None) budgets"

definition get_key_model_rpm_limit :: "api_key_auth \<Rightarrow> model_limits" where
  "get_key_model_rpm_limit a =
     (let result = dict_get (auth_metadata a) ''model_rpm_limit'' PNone;
          from_budget = budget_limits ''rpm_limit'' (auth_model_max_budget a) in
      if truthy result then as_limits result
      else if from_budget \<noteq> [] then Some from_budget
      else get_team_model_rpm_limit a)"

definition get_key_model_tpm_limit :: "api_key_auth \<Rightarrow> model_limits" where
  "get_key_model_tpm_limit a =
     (let result = dict_get (auth_metadata a) ''model_tpm_limit'' PNone;
          from_budget = budget_limits ''tpm_limit'' (auth_model_max_budget a) in
      if truthy result then as_limits result
      else if from_budget \<noteq> [] then Some from_budget
      else get_team_model_tpm_limit a)"

text \<open>\<^verbatim>\<open>limits or {}\<close>, \<^verbatim>\<open>model in limits\<close> and \<^verbatim>\<open>limits.get(model)\<close>.\<close>

definition limits_or_empty :: "model_limits \<Rightarrow> (string, pyval) dict" where
  "limits_or_empty l = (case l of None \<Rightarrow> [] | Some d \<Rightarrow> d)"

definition model_in :: "string option \<Rightarrow> model_limits \<Rightarrow> bool" where
  "model_in m l = (case m of None \<Rightarrow> False | Some s \<Rightarrow> s \<in> set (dict_keys (limits_or_empty l)))"

definition limit_of :: "string option \<Rightarrow> model_limits \<Rightarrow> pyval" where
  "limit_of m l = (case m of None \<Rightarrow> PNone | Some s \<Rightarrow> dict_get (limits_or_empty l) s PNone)"

subsection \<open>Which limits are enforced\<close>

definition should_enforce_rate_limit :: "pyval \<Rightarrow> bool \<Rightarrow> bool" where
  "should_enforce_rate_limit limit_type model_has_failures =
     (if limit_type = PStr ''dynamic'' then model_has_failures else True)"

definition get_enforced_limit :: "int option \<Rightarrow> pyval \<Rightarrow> bool \<Rightarrow> int option" where
  "get_enforced_limit limit_value limit_type model_has_failures =
     (if limit_value = None then None
      else if should_enforce_rate_limit limit_type model_has_failures then limit_value
      else None)"

definition is_dynamic_rate_limiting_enabled :: "pyval \<Rightarrow> pyval \<Rightarrow> bool" where
  "is_dynamic_rate_limiting_enabled rpm_limit_type tpm_limit_type \<longleftrightarrow>
     rpm_limit_type = PStr ''dynamic'' \<or> tpm_limit_type = PStr ''dynamic''"

subsection \<open>Descriptors\<close>

text \<open>The window of the limiter is the first argument of the definitions below.\<close>

definition descriptor :: "int \<Rightarrow> string \<Rightarrow> string \<Rightarrow> pyval \<Rightarrow> pyval \<Rightarrow> rate_limit_descriptor" where
  "descriptor w key value rpm tpm =
     \<lparr>descriptor_key = key, descriptor_value = value,
      rate_limit = Some \<lparr>requests_per_unit = rpm, tokens_per_unit = tpm, max_parallel_requests = PNone,
        unit_window = Some w\<rparr>\<rparr>"

text \<open>The descriptor of the limits of a model for an entity, when there are limits for the model.\<close>

definition model_descriptor ::
  "int \<Rightarrow> string \<Rightarrow> string option \<Rightarrow> string option \<Rightarrow> model_limits \<Rightarrow> model_limits \<Rightarrow> rate_limit_descriptor list" where
  "model_descriptor w key entity m rpms tpms =
     (if (rpms \<noteq> None \<or> tpms \<noteq> None) \<and> (model_in m tpms \<or> model_in m rpms)
      then [descriptor w key (opt_text entity @ '':'' @ opt_text m) (limit_of m rpms) (limit_of m tpms)]
      else [])"

definition create_organization_rate_limit_descriptor ::
  "int \<Rightarrow> api_key_auth \<Rightarrow> string option \<Rightarrow> rate_limit_descriptor list" where
  "create_organization_rate_limit_descriptor w a requested_model =
     (if auth_org_id a \<noteq> None \<and> (auth_organization_rpm_limit a \<noteq> None \<or> auth_organization_tpm_limit a \<noteq> None)
      then [descriptor w ''organization'' (opt_text (auth_org_id a)) (opt_int (auth_organization_rpm_limit a))
              (opt_int (auth_organization_tpm_limit a))]
      else []) @
     model_descriptor w ''model_per_organization'' (auth_org_id a) requested_model
       (get_model_rate_limit_from_metadata (auth_organization_metadata a) ''model_rpm_limit'')
       (get_model_rate_limit_from_metadata (auth_organization_metadata a) ''model_tpm_limit'')"

definition add_model_per_key_rate_limit_descriptor ::
  "int \<Rightarrow> api_key_auth \<Rightarrow> string option \<Rightarrow> rate_limit_descriptor list \<Rightarrow> rate_limit_descriptor list" where
  "add_model_per_key_rate_limit_descriptor w a requested_model descriptors =
     (if \<not> nonempty requested_model then descriptors
      else descriptors @
        model_descriptor w ''model_per_key'' (auth_api_key a) requested_model
          (get_key_model_rpm_limit a) (get_key_model_tpm_limit a))"

definition add_team_model_rate_limit_descriptor_from_metadata ::
  "int \<Rightarrow> api_key_auth \<Rightarrow> string option \<Rightarrow> rate_limit_descriptor list \<Rightarrow> rate_limit_descriptor list" where
  "add_team_model_rate_limit_descriptor_from_metadata w a requested_model descriptors =
     descriptors @
     model_descriptor w ''model_per_team'' (auth_team_id a) requested_model
       (get_model_rate_limit_from_metadata (auth_team_metadata a) ''model_rpm_limit'')
       (get_model_rate_limit_from_metadata (auth_team_metadata a) ''model_tpm_limit'')"

text \<open>\<^verbatim>\<open>metadata.get(key)\<close> of the metadata under a name of the request.\<close>

definition request_metadata_get :: "(string, pyval) dict \<Rightarrow> string \<Rightarrow> string \<Rightarrow> pyval pyres" where
  "request_metadata_get data name key =
     (case py_or (dict_get data name PNone) (PDict []) of
        PDict d \<Rightarrow> Inr (dict_get d key PNone)
      | _ \<Rightarrow> Inl AttributeError)"

definition get_resolved_agent_id :: "api_key_auth \<Rightarrow> request_data \<Rightarrow> pyval pyres" where
  "get_resolved_agent_id a data =
     (if nonempty (auth_agent_id a) then Inr (PStr (the (auth_agent_id a)))
      else request_metadata_get (req_rest data) ''metadata'' ''agent_id'')"

definition get_session_id_from_data :: "(pyval \<Rightarrow> string) \<Rightarrow> request_data \<Rightarrow> string option pyres" where
  "get_session_id_from_data py_str data =
     (let session_id = dict_get (req_rest data) ''litellm_session_id'' PNone in
      if truthy session_id then Inr (Some (val_str py_str session_id))
      else case request_metadata_get (req_rest data) ''metadata'' ''session_id'' of
        Inl e \<Rightarrow> Inl e
      | Inr s1 \<Rightarrow>
        if truthy s1 then Inr (Some (val_str py_str s1))
        else case request_metadata_get (req_rest data) ''litellm_metadata'' ''session_id'' of
          Inl e \<Rightarrow> Inl e
        | Inr s2 \<Rightarrow> Inr (if truthy s2 then Some (val_str py_str s2) else None))"

definition get_agent_by_id :: "agent list \<Rightarrow> pyval \<Rightarrow> agent option" where
  "get_agent_by_id agents agent_id = find (\<lambda>g. PStr (agent_key g) = agent_id) agents"

definition create_agent_rate_limit_descriptors ::
  "(pyval \<Rightarrow> string) \<Rightarrow> agent list \<Rightarrow> int \<Rightarrow> pyval \<Rightarrow> request_data \<Rightarrow> rate_limit_descriptor list pyres" where
  "create_agent_rate_limit_descriptors py_str agents w agent_id data =
     (case get_agent_by_id agents agent_id of
        None \<Rightarrow> Inr []
      | Some g \<Rightarrow>
        let agent_level =
              (if agent_rpm_limit g \<noteq> None \<or> agent_tpm_limit g \<noteq> None
               then [descriptor w ''agent'' (val_str py_str agent_id) (opt_int (agent_rpm_limit g))
                       (opt_int (agent_tpm_limit g))]
               else []) in
        if session_rpm_limit g \<noteq> None \<or> session_tpm_limit g \<noteq> None then
          (case get_session_id_from_data py_str data of
             Inl e \<Rightarrow> Inl e
           | Inr None \<Rightarrow> Inr agent_level
           | Inr (Some s) \<Rightarrow>
             Inr (agent_level @ [descriptor w ''agent_session'' (val_str py_str agent_id @ '':'' @ s)
               (opt_int (session_rpm_limit g)) (opt_int (session_tpm_limit g))]))
        else Inr agent_level)"

text \<open>The descriptor of an entity with a name and two limits.\<close>

definition entity_descriptor ::
  "int \<Rightarrow> string \<Rightarrow> string option \<Rightarrow> string \<Rightarrow> int option \<Rightarrow> int option \<Rightarrow> rate_limit_descriptor list" where
  "entity_descriptor w key entity value rpm tpm =
     (if nonempty entity \<and> (rpm \<noteq> None \<or> tpm \<noteq> None)
      then [descriptor w key value (opt_int rpm) (opt_int tpm)] else [])"

definition api_key_descriptor ::
  "int \<Rightarrow> api_key_auth \<Rightarrow> pyval \<Rightarrow> pyval \<Rightarrow> bool \<Rightarrow> rate_limit_descriptor list" where
  "api_key_descriptor w a rpm_limit_type tpm_limit_type model_has_failures =
     (if nonempty (auth_api_key a) \<and>
         (auth_rpm_limit a \<noteq> None \<or> auth_tpm_limit a \<noteq> None \<or> auth_max_parallel_requests a \<noteq> None)
      then [\<lparr>descriptor_key = ''api_key'', descriptor_value = opt_text (auth_api_key a),
             rate_limit = Some
               \<lparr>requests_per_unit = opt_int (get_enforced_limit (auth_rpm_limit a) rpm_limit_type model_has_failures),
                tokens_per_unit = opt_int (get_enforced_limit (auth_tpm_limit a) tpm_limit_type model_has_failures),
                max_parallel_requests = opt_int (auth_max_parallel_requests a),
                unit_window = Some w\<rparr>\<rparr>]
      else [])"

definition create_rate_limit_descriptors ::
  "(pyval \<Rightarrow> string) \<Rightarrow> agent list \<Rightarrow> int \<Rightarrow> api_key_auth \<Rightarrow> request_data \<Rightarrow> pyval \<Rightarrow> pyval \<Rightarrow> bool \<Rightarrow>
   rate_limit_descriptor list pyres" where
  "create_rate_limit_descriptors py_str agents w a data rpm_limit_type tpm_limit_type model_has_failures =
     (let entities =
            api_key_descriptor w a rpm_limit_type tpm_limit_type model_has_failures @
            entity_descriptor w ''user'' (auth_user_id a) (opt_text (auth_user_id a))
              (auth_user_rpm_limit a) (auth_user_tpm_limit a) @
            entity_descriptor w ''team'' (auth_team_id a) (opt_text (auth_team_id a))
              (auth_team_rpm_limit a) (auth_team_tpm_limit a) @
            entity_descriptor w ''team_member'' (auth_user_id a)
              (opt_text (auth_team_id a) @ '':'' @ opt_text (auth_user_id a))
              (auth_team_member_rpm_limit a) (auth_team_member_tpm_limit a) @
            entity_descriptor w ''end_user'' (auth_end_user_id a) (opt_text (auth_end_user_id a))
              (auth_end_user_rpm_limit a) (auth_end_user_tpm_limit a);
          with_models =
            add_model_per_key_rate_limit_descriptor w a (req_model data) entities @
            model_descriptor w ''model_per_team'' (auth_team_id a) (req_model data)
              (get_team_model_rpm_limit a) (get_team_model_tpm_limit a) in
      case get_resolved_agent_id a data of
        Inl e \<Rightarrow> Inl e
      | Inr resolved_agent_id \<Rightarrow>
        if truthy resolved_agent_id then
          (case create_agent_rate_limit_descriptors py_str agents w resolved_agent_id data of
             Inl e \<Rightarrow> Inl e
           | Inr ds \<Rightarrow> Inr (with_models @ ds))
        else Inr with_models)"

end
