(* ===== verification/ParallelLimiter.thy ===== *)
theory ParallelLimiter
  imports RateDescriptors RouterSelect "HOL-Library.Word"
begin

text \<open>
  The rate limiter of the proxy, \<^verbatim>\<open>proxy/hooks/parallel_request_limiter_v3.py\<close>: the counters of a
  window in memory and in Redis, the check of a request before it is sent, and the booking of its
  tokens when it ends. The state is the two-level cache behind \<^verbatim>\<open>InternalUsageCache\<close>, whose methods
  only pass their arguments on. A call reads the clock once.

  The two Lua scripts are definitions over the commands of a Redis server, which are a parameter
  (\<open>redis_cmds\<close>). The limiter calls them through the objects that the client library made of them
  (\<open>batch_script\<close>, \<open>token_script\<close>), which exist when there is a Redis cache.
\<close>

subsection \<open>Integers and keys\<close>

text \<open>\<^verbatim>\<open>int(v)\<close>.\<close>

definition py_int :: "pyval \<Rightarrow> int pyres" where
  "py_int v =
     (case v of
        PInt i \<Rightarrow> Inr i
      | PBool b \<Rightarrow> Inr (if b then 1 else 0)
      | PFloat q \<Rightarrow> Inr (if 0 \<le> q then \<lfloor>q\<rfloor> else \<lceil>q\<rceil>)
      | PInf _ \<Rightarrow> Inl (OtherError ''OverflowError'')
      | PNaN \<Rightarrow> Inl ValueError
      | PStr s \<Rightarrow> (case int_of_str s of Some i \<Rightarrow> Inr i | None \<Rightarrow> Inl ValueError)
      | _ \<Rightarrow> Inl TypeError)"

text \<open>\<^verbatim>\<open>int(now)\<close> of the time stamp.\<close>

definition int_time :: "time \<Rightarrow> int" where
  "int_time now = (if 0 \<le> now then \<lfloor>now\<rfloor> else \<lceil>now\<rceil>)"

definition window_key :: "string \<Rightarrow> string \<Rightarrow> string" where
  "window_key key value = ''{'' @ key @ '':'' @ value @ ''}'' @ '':window''"

definition create_rate_limit_keys :: "string \<Rightarrow> string \<Rightarrow> string \<Rightarrow> string" where
  "create_rate_limit_keys key value rate_limit_type = ''{'' @ key @ '':'' @ value @ ''}'' @ '':'' @ rate_limit_type"

subsection \<open>The Lua scripts\<close>

text \<open>The commands of the server: each returns its reply, or an error that ends the script.\<close>

record 'r redis_cmds =
  cmd_get :: "string \<Rightarrow> 'r \<Rightarrow> string option pyres \<times> 'r"
  cmd_set :: "string \<Rightarrow> string \<Rightarrow> 'r \<Rightarrow> unit pyres \<times> 'r"
  cmd_expire :: "string \<Rightarrow> int \<Rightarrow> 'r \<Rightarrow> unit pyres \<times> 'r"
  cmd_incr :: "string \<Rightarrow> 'r \<Rightarrow> int pyres \<times> 'r"
  cmd_incrbyfloat :: "string \<Rightarrow> pyval \<Rightarrow> 'r \<Rightarrow> unit pyres \<times> 'r"
  cmd_ttl :: "string \<Rightarrow> 'r \<Rightarrow> int pyres \<times> 'r"

text \<open>Run a command, then what follows it.\<close>

definition seq :: "('s \<Rightarrow> 'a pyres \<times> 's) \<Rightarrow> ('a \<Rightarrow> 's \<Rightarrow> 'b pyres \<times> 's) \<Rightarrow> 's \<Rightarrow> 'b pyres \<times> 's" where
  "seq f g s = (case f s of (Inl e, s1) \<Rightarrow> (Inl e, s1) | (Inr x, s1) \<Rightarrow> g x s1)"

definition reply :: "'a \<Rightarrow> 's \<Rightarrow> 'a pyres \<times> 's" where
  "reply x s = (Inr x, s)"

text \<open>
  One pair of keys of \<^verbatim>\<open>BATCH_RATE_LIMITER_SCRIPT\<close>. \<^verbatim>\<open>tonumber\<close> of a text that is no number is
  \<^verbatim>\<open>nil\<close>, and the subtraction then ends the script; only the script writes the start of a window, as
  an integer.
\<close>

definition script_pair :: "'r redis_cmds \<Rightarrow> int \<Rightarrow> int \<Rightarrow> string \<Rightarrow> string \<Rightarrow> 'r \<Rightarrow> pyval list pyres \<times> 'r" where
  "script_pair C now_int window_size wk ck =
     seq (cmd_get C wk) (\<lambda>window_start.
       case (case window_start of
               None \<Rightarrow> Some True
             | Some s \<Rightarrow> map_option (\<lambda>i. now_int - i \<ge> window_size) (int_of_str s)) of
         None \<Rightarrow> Pair (Inl (OtherError ''ResponseError''))
       | Some True \<Rightarrow>
           seq (cmd_set C wk (str_of_int now_int)) (\<lambda>_.
           seq (cmd_set C ck (str_of_int 1)) (\<lambda>_.
           seq (cmd_expire C wk window_size) (\<lambda>_.
           seq (cmd_expire C ck window_size) (\<lambda>_.
           reply [PStr (str_of_int now_int), PInt 1]))))
       | Some False \<Rightarrow>
           seq (cmd_incr C ck) (\<lambda>counter.
           seq (cmd_ttl C ck) (\<lambda>current_ttl.
           seq (if current_ttl = - 1 then cmd_expire C ck window_size else reply ()) (\<lambda>_.
           reply [PStr (the window_start), PInt counter]))))"

fun BATCH_RATE_LIMITER_SCRIPT ::
  "'r redis_cmds \<Rightarrow> string list \<Rightarrow> int \<Rightarrow> int \<Rightarrow> 'r \<Rightarrow> pyval list pyres \<times> 'r" where
  "BATCH_RATE_LIMITER_SCRIPT C (wk # ck # rest) now_int window_size =
     seq (script_pair C now_int window_size wk ck) (\<lambda>vs.
     seq (BATCH_RATE_LIMITER_SCRIPT C rest now_int window_size) (\<lambda>ws. reply (vs @ ws)))"
| "BATCH_RATE_LIMITER_SCRIPT C [] now_int window_size = reply []"
| "BATCH_RATE_LIMITER_SCRIPT C [wk] now_int window_size = Pair (Inl (OtherError ''ResponseError''))"

fun TOKEN_INCREMENT_SCRIPT :: "'r redis_cmds \<Rightarrow> (string \<times> pyval \<times> int) list \<Rightarrow> 'r \<Rightarrow> unit pyres \<times> 'r" where
  "TOKEN_INCREMENT_SCRIPT C [] = reply ()"
| "TOKEN_INCREMENT_SCRIPT C ((key, increment, ttl_seconds) # rest) =
     seq (cmd_incrbyfloat C key increment) (\<lambda>_.
     seq (if ttl_seconds > 0
          then seq (cmd_ttl C key) (\<lambda>current_ttl. if current_ttl = - 1 then cmd_expire C key ttl_seconds else reply ())
          else reply ()) (\<lambda>_.
     TOKEN_INCREMENT_SCRIPT C rest))"

subsection \<open>The limiter\<close>

record 'r limiter_env =
  usage_ops :: "'r redis_ops"
  usage_rt :: py_runtime
  limiter_window :: int \<comment> \<open>\<^verbatim>\<open>self.window_size\<close>\<close>
  batch_script :: "string list \<Rightarrow> int \<Rightarrow> int \<Rightarrow> 'r \<Rightarrow> pyval list pyres \<times> 'r"
  token_script :: "(string \<times> pyval \<times> int) list \<Rightarrow> 'r \<Rightarrow> unit pyres \<times> 'r"
  redis_cluster :: bool
  env_str :: "pyval \<Rightarrow> string" \<comment> \<open>\<^verbatim>\<open>str\<close> of a float or a container\<close>
  agent_list :: "agent list"
  token_rate_limit_type :: pyval \<comment> \<open>a general setting, \<^verbatim>\<open>'total'\<close> by default\<close>

definition local_get :: "'r limiter_env \<Rightarrow> time \<Rightarrow> string \<Rightarrow> 'r dual \<Rightarrow> pyval \<times> 'r dual" where
  "local_get E now key d = dual_get_cache (usage_ops E) (usage_rt E) now now key True None d"

definition local_set :: "'r limiter_env \<Rightarrow> time \<Rightarrow> int \<Rightarrow> string \<Rightarrow> pyval \<Rightarrow> 'r dual \<Rightarrow> 'r dual" where
  "local_set E now ttl key value d =
     dual_set_cache (usage_ops E) (usage_rt E) now key value True (Some (Some (of_int ttl))) d"

text \<open>One pair of keys of \<^verbatim>\<open>in_memory_cache_sliding_window\<close>.\<close>

definition window_pair ::
  "'r limiter_env \<Rightarrow> time \<Rightarrow> int \<Rightarrow> int \<Rightarrow> string \<Rightarrow> string \<Rightarrow> 'r dual \<Rightarrow> pyval list pyres \<times> 'r dual" where
  "window_pair E now now_int window_size wk ck d =
     (case local_get E now wk d of
        (window_start, d1) \<Rightarrow>
        (case (if window_start = PNone then Inr True
               else map_sum id (\<lambda>i. now_int - i \<ge> window_size) (py_int window_start)) of
           Inl e \<Rightarrow> (Inl e, d1)
         | Inr True \<Rightarrow>
           (Inr [PStr (str_of_int now_int), PInt 1],
            local_set E now window_size ck (PInt 1) (local_set E now window_size wk (PStr (str_of_int now_int)) d1))
         | Inr False \<Rightarrow>
           (case local_get E now ck d1 of
              (current_counter, d2) \<Rightarrow>
              (case (if current_counter = PNone then Inr 0 else py_int current_counter) of
                 Inl e \<Rightarrow> (Inl e, d2)
               | Inr n \<Rightarrow> (Inr [window_start, PInt (n + 1)], local_set E now window_size ck (PInt (n + 1)) d2)))))"

fun in_memory_cache_sliding_window ::
  "'r limiter_env \<Rightarrow> time \<Rightarrow> string list \<Rightarrow> int \<Rightarrow> int \<Rightarrow> 'r dual \<Rightarrow> pyval list pyres \<times> 'r dual" where
  "in_memory_cache_sliding_window E now (wk # ck # rest) now_int window_size d =
     (case window_pair E now now_int window_size wk ck d of
        (Inl e, d1) \<Rightarrow> (Inl e, d1)
      | (Inr vs, d1) \<Rightarrow>
        (case in_memory_cache_sliding_window E now rest now_int window_size d1 of
           (Inl e, d2) \<Rightarrow> (Inl e, d2)
         | (Inr ws, d2) \<Rightarrow> (Inr (vs @ ws), d2)))"
| "in_memory_cache_sliding_window E now [] now_int window_size d = (Inr [], d)"
| "in_memory_cache_sliding_window E now [wk] now_int window_size d = (Inl IndexError, d)"

subsection \<open>Verdict\<close>

datatype limit_code = CodeOK | CodeOverLimit

datatype limit_type = LimitRequests | LimitTokens | LimitParallel

fun type_name :: "limit_type \<Rightarrow> string" where
  "type_name LimitRequests = ''requests''"
| "type_name LimitTokens = ''tokens''"
| "type_name LimitParallel = ''max_parallel_requests''"

record rate_limit_status =
  status_code :: limit_code
  current_limit :: int
  limit_remaining :: int
  rate_limit_type :: limit_type
  status_descriptor_key :: string

record rate_limit_response =
  overall_code :: limit_code
  statuses :: "rate_limit_status list"

text \<open>An entry of \<^verbatim>\<open>key_metadata\<close>.\<close>

record key_limits =
  requests_limit :: "int option"
  tokens_limit :: "int option"
  max_parallel_requests_limit :: "int option"
  meta_window_size :: int
  meta_descriptor_key :: string

text \<open>The limit that a counter key stands for.\<close>

definition limit_for :: "string \<Rightarrow> key_limits \<Rightarrow> (int \<times> limit_type) option" where
  "limit_for counter_key m =
     (if ends_with '':requests'' counter_key then map_option (\<lambda>n. (n, LimitRequests)) (requests_limit m)
      else if ends_with '':max_parallel_requests'' counter_key
      then map_option (\<lambda>n. (n, LimitParallel)) (max_parallel_requests_limit m)
      else if ends_with '':tokens'' counter_key then map_option (\<lambda>n. (n, LimitTokens)) (tokens_limit m)
      else None)"

text \<open>The loop of \<^verbatim>\<open>is_cache_list_over_limit\<close> with its two variables.\<close>

fun over_limit_loop ::
  "(string, key_limits) dict \<Rightarrow> string list \<Rightarrow> pyval list \<Rightarrow> limit_code \<Rightarrow> rate_limit_status list \<Rightarrow>
   rate_limit_response pyres" where
  "over_limit_loop md ks [] overall sts = Inr \<lparr>overall_code = overall, statuses = sts\<rparr>"
| "over_limit_loop md (wk # ck # ks) (_ # counter_value # vs) overall sts =
     (case map_of md wk of
        None \<Rightarrow> Inl KeyError
      | Some m \<Rightarrow>
        (case limit_for ck m of
           None \<Rightarrow> over_limit_loop md ks vs overall sts
         | Some (cap, ty) \<Rightarrow>
           (case (if counter_value = PNone then Inr None else map_sum id Some (py_int counter_value)) of
              Inl e \<Rightarrow> Inl e
            | Inr c \<Rightarrow>
              let over = (case c of None \<Rightarrow> False | Some n \<Rightarrow> n > cap) in
              over_limit_loop md ks vs (if over then CodeOverLimit else overall)
                (sts @ [\<lparr>status_code = (if over then CodeOverLimit else CodeOK), current_limit = cap,
                         limit_remaining = (case c of None \<Rightarrow> cap | Some n \<Rightarrow> cap - n),
                         rate_limit_type = ty, status_descriptor_key = meta_descriptor_key m\<rparr>]))))"
| "over_limit_loop md _ _ overall sts = Inl IndexError"

definition is_cache_list_over_limit ::
  "string list \<Rightarrow> pyval list \<Rightarrow> (string, key_limits) dict \<Rightarrow> rate_limit_response pyres" where
  "is_cache_list_over_limit keys_to_fetch cache_values key_metadata =
     over_limit_loop key_metadata keys_to_fetch cache_values CodeOK []"

subsection \<open>Redis cluster\<close>

definition REDIS_CLUSTER_SLOTS :: nat where "REDIS_CLUSTER_SLOTS = 16384"

text \<open>\<^verbatim>\<open>binascii.crc_hqx(data, crc)\<close>: the 16-bit CRC of the polynomial 0x1021.\<close>

definition crc_bit :: "16 word \<Rightarrow> 16 word" where
  "crc_bit crc = (if bit crc 15 then xor (push_bit 1 crc) 0x1021 else push_bit 1 crc)"

definition crc_byte :: "char \<Rightarrow> 16 word \<Rightarrow> 16 word" where
  "crc_byte c crc = (crc_bit ^^ 8) (xor crc (push_bit 8 (of_nat (code c))))"

definition crc_hqx :: "string \<Rightarrow> 16 word \<Rightarrow> 16 word" where
  "crc_hqx s crc = fold crc_byte s crc"

text \<open>The part of a key between its first opening brace and the next closing one.\<close>

definition hash_tag :: "string \<Rightarrow> string" where
  "hash_tag key =
     (case dropWhile (\<lambda>c. c \<noteq> CHR ''{'') key of
        [] \<Rightarrow> key
      | _ # rest \<Rightarrow>
        if CHR ''}'' \<in> set rest \<and> takeWhile (\<lambda>c. c \<noteq> CHR ''}'') rest \<noteq> []
        then takeWhile (\<lambda>c. c \<noteq> CHR ''}'') rest else key)"

definition keyslot_for_redis_cluster :: "string \<Rightarrow> nat" where
  "keyslot_for_redis_cluster key = unat (crc_hqx (hash_tag key) 0) mod REDIS_CLUSTER_SLOTS"

definition group_keys_by_hash_tag :: "bool \<Rightarrow> string list \<Rightarrow> (string, string list) dict" where
  "group_keys_by_hash_tag cluster keys =
     (if cluster
      then fold (\<lambda>key groups.
             let slot_key = ''slot_'' @ str_of_nat (keyslot_for_redis_cluster key) in
             AList.update slot_key (dict_get groups slot_key [] @ [key]) groups) keys []
      else [(''all_keys'', keys)])"

text \<open>Call a script object; there is none without a Redis cache.\<close>

definition on_redis :: "('r \<Rightarrow> 'a pyres \<times> 'r) \<Rightarrow> 'r dual \<Rightarrow> 'a pyres \<times> 'r dual" where
  "on_redis f d =
     (case redis_cache d of None \<Rightarrow> (Inl TypeError, d) | Some r \<Rightarrow> with_redis d (f r))"

text \<open>A group whose script fails is counted in memory.\<close>

fun run_groups ::
  "'r limiter_env \<Rightarrow> time \<Rightarrow> int \<Rightarrow> (string, string list) dict \<Rightarrow> pyval list \<Rightarrow> 'r dual \<Rightarrow>
   pyval list pyres \<times> 'r dual" where
  "run_groups E now now_int [] vals d = (Inr vals, d)"
| "run_groups E now now_int ((tag, ks) # groups) vals d =
     (case on_redis (batch_script E ks now_int (limiter_window E)) d of
        (Inr vs, d1) \<Rightarrow> run_groups E now now_int groups (vals @ vs) d1
      | (Inl _, d1) \<Rightarrow>
        (case in_memory_cache_sliding_window E now ks now_int (limiter_window E) d1 of
           (Inl e, d2) \<Rightarrow> (Inl e, d2)
         | (Inr vs, d2) \<Rightarrow> run_groups E now now_int groups (vals @ vs) d2))"

definition execute_redis_batch_rate_limiter_script ::
  "'r limiter_env \<Rightarrow> time \<Rightarrow> string list \<Rightarrow> int \<Rightarrow> 'r dual \<Rightarrow> pyval list pyres \<times> 'r dual" where
  "execute_redis_batch_rate_limiter_script E now keys_to_fetch now_int d =
     (if redis_cache d = None then (Inr [], d)
      else run_groups E now now_int (group_keys_by_hash_tag (redis_cluster E) keys_to_fetch) [] d)"

subsection \<open>The check of a request\<close>

text \<open>\<^verbatim>\<open>int(limit) if limit is not None else None\<close>.\<close>

definition int_limit :: "pyval \<Rightarrow> int option pyres" where
  "int_limit v = (if v = PNone then Inr None else map_sum id Some (py_int v))"

definition no_limits :: rate_limit_object where
  "no_limits = \<lparr>requests_per_unit = PNone, tokens_per_unit = PNone, max_parallel_requests = PNone, unit_window = None\<rparr>"

definition limits_of :: "rate_limit_descriptor \<Rightarrow> rate_limit_object" where
  "limits_of x = (case rate_limit x of None \<Rightarrow> no_limits | Some l \<Rightarrow> l)"

definition descriptor_keys :: "rate_limit_descriptor \<Rightarrow> string list" where
  "descriptor_keys x =
     (let wk = window_key (descriptor_key x) (descriptor_value x);
          pair = (\<lambda>cap ty. if cap \<noteq> PNone
                    then [wk, create_rate_limit_keys (descriptor_key x) (descriptor_value x) ty] else []) in
      pair (requests_per_unit (limits_of x)) ''requests'' @
      pair (tokens_per_unit (limits_of x)) ''tokens'' @
      pair (max_parallel_requests (limits_of x)) ''max_parallel_requests'')"

definition descriptor_limits :: "int \<Rightarrow> rate_limit_descriptor \<Rightarrow> key_limits pyres" where
  "descriptor_limits w x =
     (let l = limits_of x in
      case int_limit (requests_per_unit l) of Inl e \<Rightarrow> Inl e | Inr r \<Rightarrow>
      case int_limit (tokens_per_unit l) of Inl e \<Rightarrow> Inl e | Inr t \<Rightarrow>
      case int_limit (max_parallel_requests l) of Inl e \<Rightarrow> Inl e | Inr p \<Rightarrow>
      Inr \<lparr>requests_limit = r, tokens_limit = t, max_parallel_requests_limit = p,
           meta_window_size = or_num (unit_window l) w, meta_descriptor_key = descriptor_key x\<rparr>)"

text \<open>The keys to fetch and \<^verbatim>\<open>key_metadata\<close>.\<close>

fun collect_keys ::
  "int \<Rightarrow> rate_limit_descriptor list \<Rightarrow> string list \<Rightarrow> (string, key_limits) dict \<Rightarrow>
   (string list \<times> (string, key_limits) dict) pyres" where
  "collect_keys w [] keys md = Inr (keys, md)"
| "collect_keys w (x # xs) keys md =
     (if descriptor_keys x = [] then collect_keys w xs keys md
      else case descriptor_limits w x of
        Inl e \<Rightarrow> Inl e
      | Inr m \<Rightarrow>
        collect_keys w xs (keys @ descriptor_keys x)
          (AList.update (window_key (descriptor_key x) (descriptor_value x)) m md))"

text \<open>The loop that stores the values of Redis in memory.\<close>

fun store_values :: "'r limiter_env \<Rightarrow> time \<Rightarrow> string list \<Rightarrow> pyval list \<Rightarrow> 'r dual \<Rightarrow> unit pyres \<times> 'r dual" where
  "store_values E now ks [] d = (Inr (), d)"
| "store_values E now (wk # ck # ks) (wv # cv # vs) d =
     store_values E now ks vs
       (local_set E now (limiter_window E) wk wv (local_set E now (limiter_window E) ck cv d))"
| "store_values E now _ _ d = (Inl IndexError, d)"

text \<open>The values a request is judged by, after the check in memory.\<close>

definition fetch_values ::
  "'r limiter_env \<Rightarrow> time \<Rightarrow> bool \<Rightarrow> string list \<Rightarrow> 'r dual \<Rightarrow> pyval list pyres \<times> 'r dual" where
  "fetch_values E now read_only keys d =
     (let now_int = int_time now in
      if read_only then
        (case dual_batch_get_cache (usage_ops E) (usage_rt E) now now keys False None d of
           (Some vs, d1) \<Rightarrow> (Inr vs, d1)
         | (None, d1) \<Rightarrow>
           (Inr (map (\<lambda>k. if ends_with '':window'' k then PStr (str_of_int now_int) else PInt 0) keys), d1))
      else if redis_cache d \<noteq> None then
        (case execute_redis_batch_rate_limiter_script E now keys now_int d of
           (Inl e, d1) \<Rightarrow> (Inl e, d1)
         | (Inr vs, d1) \<Rightarrow>
           (case store_values E now keys vs d1 of
              (Inl e, d2) \<Rightarrow> (Inl e, d2)
            | (Inr _, d2) \<Rightarrow> (Inr vs, d2)))
      else in_memory_cache_sliding_window E now keys now_int (limiter_window E) d)"

definition should_rate_limit ::
  "'r limiter_env \<Rightarrow> time \<Rightarrow> bool \<Rightarrow> rate_limit_descriptor list \<Rightarrow> 'r dual \<Rightarrow>
   rate_limit_response pyres \<times> 'r dual" where
  "should_rate_limit E now read_only descriptors d =
     (case collect_keys (limiter_window E) descriptors [] [] of
        Inl e \<Rightarrow> (Inl e, d)
      | Inr (keys, md) \<Rightarrow>
        (case dual_batch_get_cache (usage_ops E) (usage_rt E) now now keys True None d of
           (cached, d1) \<Rightarrow>
           (case (case cached of None \<Rightarrow> Inr None
                  | Some vs \<Rightarrow> map_sum id Some (is_cache_list_over_limit keys vs md)) of
              Inl e \<Rightarrow> (Inl e, d1)
            | Inr first \<Rightarrow>
              if (case first of None \<Rightarrow> False | Some r \<Rightarrow> overall_code r = CodeOverLimit)
              then (Inr (the first), d1)
              else (case fetch_values E now read_only keys d1 of
                 (Inl e, d2) \<Rightarrow> (Inl e, d2)
               | (Inr vs, d2) \<Rightarrow> (is_cache_list_over_limit keys vs md, d2)))))"

subsection \<open>The hook before a call\<close>

text \<open>The exception 429 with what its message and headers tell; the time of the reset is not formatted.\<close>

record rate_limit_error =
  error_descriptor_key :: string
  error_descriptor_value :: string
  error_limit_type :: limit_type
  error_limit :: int
  error_remaining :: int
  error_retry_after :: int
  error_reset_at :: time
  error_requested :: "int option" \<comment> \<open>what a batch asked for\<close>

datatype limiter_exc = Raised pyexc | TooManyRequests rate_limit_error

definition handle_rate_limit_error ::
  "'r limiter_env \<Rightarrow> time \<Rightarrow> rate_limit_response \<Rightarrow> rate_limit_descriptor list \<Rightarrow> rate_limit_error option" where
  "handle_rate_limit_error E now resp descriptors =
     map_option (\<lambda>st.
         \<lparr>error_descriptor_key = status_descriptor_key st,
          error_descriptor_value =
            (case find (\<lambda>x. descriptor_key x = status_descriptor_key st) descriptors of
               Some x \<Rightarrow> descriptor_value x | None \<Rightarrow> ''unknown''),
          error_limit_type = rate_limit_type st, error_limit = current_limit st,
          error_remaining = max 0 (limit_remaining st), error_retry_after = limiter_window E,
          error_reset_at = now + of_int (limiter_window E), error_requested = None\<rparr>)
       (find (\<lambda>st. status_code st = CodeOverLimit) (statuses resp))"

definition DYNAMIC_RATE_LIMIT_ERROR_THRESHOLD_PER_MINUTE :: rat where
  "DYNAMIC_RATE_LIMIT_ERROR_THRESHOLD_PER_MINUTE = 1"

text \<open>\<^verbatim>\<open>failure_count > DYNAMIC_RATE_LIMIT_ERROR_THRESHOLD_PER_MINUTE\<close>.\<close>

definition many_failures :: "pyval \<Rightarrow> bool pyres" where
  "many_failures v =
     (case as_rat v of
        Some q \<Rightarrow> Inr (q > DYNAMIC_RATE_LIMIT_ERROR_THRESHOLD_PER_MINUTE)
      | None \<Rightarrow> if is_nonfinite v then Inr (v = PInf True) else Inl TypeError)"

fun failures_loop ::
  "'r limiter_env \<Rightarrow> time \<Rightarrow> deployment list \<Rightarrow> 'r crouter \<Rightarrow> bool pyres \<times> 'r crouter" where
  "failures_loop E now [] c = (Inr False, c)"
| "failures_loop E now (x # xs) c =
     (if dep_id x = [] then failures_loop E now xs c
      else case get_deployment_failures (usage_ops E) (usage_rt E) now (dep_id x) c of
        (failure_count, c1) \<Rightarrow>
        (case many_failures failure_count of
           Inl e \<Rightarrow> (Inl e, c1)
         | Inr True \<Rightarrow> (Inr True, c1)
         | Inr False \<Rightarrow> failures_loop E now xs c1))"

text \<open>The router with its deployments and its cache; an exception means that limits are enforced.\<close>

type_synonym 'r llm_router = "(router \<times> 'r crouter) option"

definition check_model_has_recent_failures ::
  "'r limiter_env \<Rightarrow> time \<Rightarrow> string \<Rightarrow> 'r llm_router \<Rightarrow> bool \<times> 'r llm_router" where
  "check_model_has_recent_failures E now model rr =
     (case rr of
        None \<Rightarrow> (False, None)
      | Some (ro, c) \<Rightarrow>
        (case get_model_list (Some model) None ro of
           Inl _ \<Rightarrow> (True, rr)
         | Inr ds \<Rightarrow>
           if ds = [] then (False, rr)
           else (case failures_loop E now ds c of
              (Inl _, c1) \<Rightarrow> (True, Some (ro, c1))
            | (Inr b, c1) \<Rightarrow> (b, Some (ro, c1)))))"

text \<open>All descriptors of a request, in the order of the hook.\<close>

definition request_descriptors ::
  "'r limiter_env \<Rightarrow> api_key_auth \<Rightarrow> request_data \<Rightarrow> bool \<Rightarrow> rate_limit_descriptor list pyres" where
  "request_descriptors E a data model_has_failures =
     map_sum id
       (\<lambda>ds. add_team_model_rate_limit_descriptor_from_metadata (limiter_window E) a (req_model data) ds @
             create_organization_rate_limit_descriptor (limiter_window E) a (req_model data))
       (create_rate_limit_descriptors (env_str E) (agent_list E) (limiter_window E) a data
          (dict_get (auth_metadata a) ''rpm_limit_type'' PNone) (dict_get (auth_metadata a) ''tpm_limit_type'' PNone)
          model_has_failures)"

text \<open>
  \<^verbatim>\<open>async_pre_call_hook\<close> for every call type but the creation of a batch: the response that is put
  into the request, if any, or the exception that refuses the request.
\<close>

definition request_pre_call_hook ::
  "'r limiter_env \<Rightarrow> time \<Rightarrow> api_key_auth \<Rightarrow> request_data \<Rightarrow> 'r dual \<times> 'r llm_router \<Rightarrow>
   (limiter_exc + rate_limit_response option) \<times> ('r dual \<times> 'r llm_router)" where
  "request_pre_call_hook E now a data s =
     (let (d, rr) = s;
          dynamic = is_dynamic_rate_limiting_enabled (dict_get (auth_metadata a) ''rpm_limit_type'' PNone)
                      (dict_get (auth_metadata a) ''tpm_limit_type'' PNone);
          (failures, rr1) = (if dynamic \<and> nonempty (req_model data)
                             then check_model_has_recent_failures E now (the (req_model data)) rr else (False, rr)) in
      case request_descriptors E a data failures of
        Inl e \<Rightarrow> (Inl (Raised e), (d, rr1))
      | Inr descriptors \<Rightarrow>
        if descriptors = [] then (Inr None, (d, rr1))
        else (case should_rate_limit E now False descriptors d of
           (Inl e, d1) \<Rightarrow> (Inl (Raised e), (d1, rr1))
         | (Inr resp, d1) \<Rightarrow>
           if overall_code resp = CodeOverLimit
           then ((case handle_rate_limit_error E now resp descriptors of
                    Some err \<Rightarrow> Inl (TooManyRequests err) | None \<Rightarrow> Inr None), (d1, rr1))
           else (Inr (Some resp), (d1, rr1))))"

subsection \<open>Booking the tokens of a call\<close>

text \<open>The counts of a usage object or a usage dict; \<^term>\<open>None\<close> for a value that is absent.\<close>

record token_usage =
  completion_tokens :: "int option"
  prompt_tokens :: "int option"
  total_tokens :: "int option"
  cached_tokens :: "int option"

definition get_rate_limit_type :: "'r limiter_env \<Rightarrow> string" where
  "get_rate_limit_type E =
     (case token_rate_limit_type E of
        PStr s \<Rightarrow> if s \<in> {''output'', ''input'', ''total''} then s else ''total''
      | _ \<Rightarrow> ''total'')"

definition get_total_tokens_from_usage :: "token_usage option \<Rightarrow> string \<Rightarrow> int" where
  "get_total_tokens_from_usage usage ty =
     (case usage of
        None \<Rightarrow> 0
      | Some u \<Rightarrow>
        let tokens = or_num (if ty = ''output'' then completion_tokens u
                            else if ty = ''input'' then prompt_tokens u
                            else if ty = ''total'' then total_tokens u else None) 0;
            cached = (if ty = ''input'' \<or> ty = ''total'' then or_num (cached_tokens u) 0 else 0) in
        if cached > 0 then max 0 (tokens - cached) else tokens)"

definition create_pipeline_operations :: "'r limiter_env \<Rightarrow> string \<Rightarrow> string \<Rightarrow> int \<Rightarrow> increment_op list" where
  "create_pipeline_operations E key value tokens =
     [\<lparr>op_key = create_rate_limit_keys key value ''tokens'', increment_value = PInt tokens,
       op_ttl = Some (limiter_window E)\<rparr>]"

definition parallel_decrement :: "'r limiter_env \<Rightarrow> string \<Rightarrow> increment_op" where
  "parallel_decrement E user_api_key =
     \<lparr>op_key = create_rate_limit_keys ''api_key'' user_api_key ''max_parallel_requests'', increment_value = PInt (- 1),
      op_ttl = Some (limiter_window E)\<rparr>"

definition op_triple :: "increment_op \<Rightarrow> string \<times> pyval \<times> int" where
  "op_triple i = (op_key i, increment_value i, (case op_ttl i of Some t \<Rightarrow> t | None \<Rightarrow> 0))"

fun token_groups ::
  "'r limiter_env \<Rightarrow> increment_op list \<Rightarrow> (string, string list) dict \<Rightarrow> 'r dual \<Rightarrow> unit pyres \<times> 'r dual" where
  "token_groups E is [] d = (Inr (), d)"
| "token_groups E is ((tag, ks) # groups) d =
     (case on_redis (token_script E (map op_triple (filter (\<lambda>i. op_key i \<in> set ks) is))) d of
        (Inl e, d1) \<Rightarrow> (Inl e, d1)
      | (Inr _, d1) \<Rightarrow> token_groups E is groups d1)"

definition execute_token_increment_script ::
  "'r limiter_env \<Rightarrow> increment_op list \<Rightarrow> 'r dual \<Rightarrow> unit pyres \<times> 'r dual" where
  "execute_token_increment_script E is d =
     (if redis_cache d = None then (Inr (), d)
      else token_groups E is (group_keys_by_hash_tag (redis_cluster E) (map op_key is)) d)"

definition async_increment_tokens_with_ttl_preservation ::
  "'r limiter_env \<Rightarrow> time \<Rightarrow> increment_op list \<Rightarrow> 'r dual \<Rightarrow> unit pyres \<times> 'r dual" where
  "async_increment_tokens_with_ttl_preservation E now is d =
     (let pipeline = (\<lambda>d. apfst (map_sum id (\<lambda>_. ())) (dual_increment_cache_pipeline (usage_ops E) (usage_rt E) now is False d)) in
      if is = [] then (Inr (), d)
      else if redis_cache d = None then pipeline d
      else case execute_token_increment_script E is d of
        (Inr _, d1) \<Rightarrow> (Inr (), d1)
      | (Inl _, d1) \<Rightarrow> pipeline d1)"

text \<open>\<^verbatim>\<open>(v or {}).get(key)\<close>.\<close>

definition or_dict_get :: "pyval \<Rightarrow> string \<Rightarrow> pyval pyres" where
  "or_dict_get v key =
     (case py_or v (PDict []) of PDict d \<Rightarrow> Inr (dict_get d key PNone) | _ \<Rightarrow> Inl AttributeError)"

definition get_model_group_from_litellm_kwargs :: "(string, pyval) dict \<Rightarrow> pyval pyres" where
  "get_model_group_from_litellm_kwargs kw =
     (case or_dict_get (dict_get kw ''litellm_params'' PNone) (get_metadata_variable_name_from_kwargs kw) of
        Inl e \<Rightarrow> Inl e
      | Inr md \<Rightarrow> or_dict_get md ''model_group'')"

text \<open>\<^verbatim>\<open>standard_logging_metadata\<close>: a dict, or the exception that its first \<^verbatim>\<open>get\<close> raises.\<close>

definition standard_logging_metadata :: "(string, pyval) dict \<Rightarrow> (string, pyval) dict pyres" where
  "standard_logging_metadata kw =
     (case or_dict_get (dict_get kw ''standard_logging_object'' PNone) ''metadata'' of
        Inl e \<Rightarrow> Inl e
      | Inr md \<Rightarrow> (case py_or md (PDict []) of PDict d \<Rightarrow> Inr d | _ \<Rightarrow> Inl AttributeError))"

text \<open>The increments that a call is booked with, in the order of the code.\<close>

definition token_operations ::
  "'r limiter_env \<Rightarrow> (string, pyval) dict \<Rightarrow> pyval \<Rightarrow> pyval \<Rightarrow> int \<Rightarrow> increment_op list" where
  "token_operations E md end_user model_group tokens =
     (let get = (\<lambda>k. dict_get md k PNone); txt = val_str (env_str E);
          user_api_key = get ''user_api_key_hash''; user_id = get ''user_api_key_user_id'';
          team_id = get ''user_api_key_team_id''; org_id = get ''user_api_key_org_id'';
          agent = get ''agent_id''; session_id = py_or (get ''session_id'') (get ''trace_id'');
          ops = (\<lambda>key value. create_pipeline_operations E key value tokens) in
      (if truthy user_api_key then parallel_decrement E (txt user_api_key) # ops ''api_key'' (txt user_api_key) else []) @
      (if truthy user_id then ops ''user'' (txt user_id) else []) @
      (if truthy team_id then ops ''team'' (txt team_id) else []) @
      (if truthy team_id \<and> truthy user_id then ops ''team_member'' (txt team_id @ '':'' @ txt user_id) else []) @
      (if truthy end_user then ops ''end_user'' (txt end_user) else []) @
      (if truthy model_group \<and> truthy user_api_key
       then ops ''model_per_key'' (txt user_api_key @ '':'' @ txt model_group) else []) @
      (if truthy model_group \<and> truthy team_id
       then ops ''model_per_team'' (txt team_id @ '':'' @ txt model_group) else []) @
      (if truthy model_group \<and> truthy org_id
       then ops ''model_per_organization'' (txt org_id @ '':'' @ txt model_group) else []) @
      (if truthy agent
       then ops ''agent'' (txt agent) @
         (if truthy session_id then ops ''agent_session'' (txt agent @ '':'' @ txt session_id) else [])
       else []))"

text \<open>\<^verbatim>\<open>async_log_success_event\<close>; the usage is \<^term>\<open>None\<close> for a response without one. Exceptions are logged.\<close>

definition async_log_success_event ::
  "'r limiter_env \<Rightarrow> time \<Rightarrow> (string, pyval) dict \<Rightarrow> token_usage option \<Rightarrow> 'r dual \<Rightarrow> 'r dual" where
  "async_log_success_event E now kw usage d =
     (case standard_logging_metadata kw of
        Inl _ \<Rightarrow> d
      | Inr md \<Rightarrow>
        (case get_model_group_from_litellm_kwargs kw of
           Inl _ \<Rightarrow> d
         | Inr model_group \<Rightarrow>
           let is = token_operations E md
                      (py_or (dict_get kw ''user'' PNone) (dict_get md ''user_api_key_end_user_id'' PNone)) model_group
                      (get_total_tokens_from_usage usage (get_rate_limit_type E)) in
           if is = [] then d else snd (async_increment_tokens_with_ttl_preservation E now is d)))"

definition async_log_failure_event ::
  "'r limiter_env \<Rightarrow> time \<Rightarrow> (string, pyval) dict \<Rightarrow> 'r dual \<Rightarrow> 'r dual" where
  "async_log_failure_event E now kw d =
     (case standard_logging_metadata kw of
        Inl _ \<Rightarrow> d
      | Inr md \<Rightarrow>
        let user_api_key = dict_get md ''user_api_key_hash'' PNone in
        if truthy user_api_key
        then snd (dual_increment_cache_pipeline (usage_ops E) (usage_rt E) now
                    [parallel_decrement E (val_str (env_str E) user_api_key)] False d)
        else d)"

subsection \<open>Headers of the response\<close>

definition add_status_headers :: "rate_limit_status \<Rightarrow> (string, pyval) dict \<Rightarrow> (string, pyval) dict" where
  "add_status_headers st headers =
     (let prefix = ''x-ratelimit-'' @ status_descriptor_key st in
      AList.update (prefix @ ''-limit-'' @ type_name (rate_limit_type st)) (PInt (current_limit st))
        (AList.update (prefix @ ''-remaining-'' @ type_name (rate_limit_type st)) (PInt (limit_remaining st)) headers))"

text \<open>The hidden parameters of the response, \<^term>\<open>None\<close> when it has none that are a dict or a model.\<close>

definition async_post_call_success_hook ::
  "rate_limit_response option \<Rightarrow> (string, pyval) dict option \<Rightarrow> (string, pyval) dict option" where
  "async_post_call_success_hook resp hidden_params =
     (case (resp, hidden_params) of
        (Some r, Some h) \<Rightarrow>
          (case py_or (dict_get h ''additional_headers'' (PDict [])) (PDict []) of
             PDict headers \<Rightarrow>
               Some (AList.update ''additional_headers'' (PDict (fold add_status_headers (statuses r) headers)) h)
           | _ \<Rightarrow> hidden_params)
      | _ \<Rightarrow> hidden_params)"

end
