(* ===== verification/LimiterWindow.thy ===== *)
theory LimiterWindow
  imports ParallelLimiter Duration
begin

text \<open>
  What the counters of the rate limiter guarantee. The memory level of the cache is a store whose
  entries expire (\<open>expiring_store\<close>); on this interface, one pair of keys of the window algorithm
  either opens the window or counts in it, and nothing else touches its entries. From this follow the
  bound on the requests that are admitted in a window, and that counting in memory gives the same
  answers as the Lua script on a server that holds the same values.
\<close>

subsection \<open>Numbers as text\<close>

lemma str_of_nat_hd: "str_of_nat n = c # t \<Longrightarrow> c = CHR ''0'' \<Longrightarrow> t = []"
proof (induction n arbitrary: c t rule: str_of_nat.induct)
  case (1 n)
  show ?case
  proof (cases "n < 10")
    case True
    then show ?thesis using "1.prems" by (simp add: str_of_nat.simps [of n])
  next
    case False
    obtain e u where eu: "str_of_nat (n div 10) = e # u" by (cases "str_of_nat (n div 10)") auto
    have "e = CHR ''0''" using "1.prems" False eu by (simp add: str_of_nat.simps [of n])
    then have "str_of_nat (n div 10) = [CHR ''0'']" using "1.IH" [OF False eu] eu by simp
    then have "int_digits False 0 [CHR ''0''] = Some (n div 10)" using int_digits_str [of "n div 10"] by simp
    then have "n div 10 = 0" by (simp add: is_digit_def code_def digit_val_def)
    then show ?thesis using False by simp
  qed
qed

lemma scan_int_str: "scan_int (str_of_nat n) = Some (str_of_nat n, [])"
proof (cases "str_of_nat n")
  case (Cons c t)
  have "\<forall>x \<in> set (c # t). is_digit x" using str_of_nat_digits [of _ n] Cons by auto
  then show ?thesis using str_of_nat_hd [OF Cons] Cons by (auto simp: scan_int_def takeWhile_eq_all_conv)
qed simp

lemma json_number_str: "json_number (str_of_nat n) = Some (PInt (int n), [])"
proof (cases "str_of_nat n")
  case (Cons c t)
  have "c \<noteq> CHR ''-''" using str_of_nat_digits [of c n] Cons by (auto simp: is_digit_def code_def)
  then show ?thesis
    using scan_int_str [of n] Cons dec_value_str [of n]
    by (simp add: json_number_def scan_frac_def scan_exp_def)
qed simp

lemma json_loads_str: "json_loads (str_of_nat n) = Some (PInt (int n))"
proof (cases "str_of_nat n")
  case (Cons c t)
  have d: "is_digit c" using str_of_nat_digits [of c n] Cons by auto
  have ws: "skip_ws (str_of_nat n) = str_of_nat n"
    using d Cons by (auto simp: skip_ws_def is_json_ws_def is_digit_def)
  have lit: "json_literal (str_of_nat n) = Some (PInt (int n), [])"
    using json_number_str [of n] d Cons by (auto simp: json_literal_def is_digit_def code_def)
  have "json_value (Suc k) (c # t) = json_literal (c # t)" for k
    using d by (auto simp: is_digit_def code_def)
  then show ?thesis using ws lit Cons by (simp add: json_loads_def skip_ws_def)
qed simp

lemma json_view_int [simp]: "0 \<le> i \<Longrightarrow> json_view (PStr (str_of_int i)) = PInt i"
  by (simp add: json_view_def str_of_int_def json_loads_str)

lemma json_view_PInt [simp]: "json_view (PInt i) = PInt i"
  by (simp add: json_view_def)

lemma py_int_simps [simp]: "py_int (PInt i) = Inr i" "py_int (PStr (str_of_int i)) = Inr i"
  by (simp_all add: py_int_def int_of_str_str)

subsection \<open>Times of a window\<close>

text \<open>A time in the window of \<open>t0\<close>.\<close>

definition in_span :: "time \<Rightarrow> int \<Rightarrow> time \<Rightarrow> bool" where
  "in_span t0 w now \<longleftrightarrow> 0 \<le> t0 \<and> t0 \<le> now \<and> int_time now - int_time t0 < w"

lemma in_span_before: "in_span t0 w now \<Longrightarrow> now < t0 + of_int w"
proof -
  assume a: "in_span t0 w now"
  then have "\<lfloor>now\<rfloor> < \<lfloor>t0\<rfloor> + w" by (auto simp: in_span_def int_time_def)
  then have "now < of_int (\<lfloor>t0\<rfloor> + w)" by (simp add: floor_less_iff)
  then show ?thesis using of_int_floor_le [of t0] unfolding of_int_add by linarith
qed

lemma in_span_int: "in_span t0 w now \<Longrightarrow> int_time t0 \<le> int_time now \<and> 0 \<le> int_time t0 \<and> 0 < w"
  using floor_mono [of t0 now] by (auto simp: in_span_def int_time_def)

subsection \<open>The counter of a window\<close>

text \<open>
  The specification that the Lua script and its version in memory share, on the numbers that keys stand
  for: the start of the window and the count, and the numbers after it.
\<close>

definition window_spec :: "int \<Rightarrow> int \<Rightarrow> string \<Rightarrow> string \<Rightarrow> (string \<rightharpoonup> int) \<Rightarrow> (int \<times> int) \<times> (string \<rightharpoonup> int)" where
  "window_spec now_int w wk ck f =
     (let n = (case f ck of None \<Rightarrow> 0 | Some n \<Rightarrow> n) in
      case f wk of
        Some i \<Rightarrow> if now_int - i < w then ((i, n + 1), f(ck \<mapsto> n + 1)) else ((now_int, 1), f(wk \<mapsto> now_int, ck \<mapsto> 1))
      | None \<Rightarrow> ((now_int, 1), f(wk \<mapsto> now_int, ck \<mapsto> 1)))"

fun windows_spec :: "int \<Rightarrow> int \<Rightarrow> string list \<Rightarrow> (string \<rightharpoonup> int) \<Rightarrow> int list \<times> (string \<rightharpoonup> int)" where
  "windows_spec now_int w (wk # ck # rest) f =
     (case window_spec now_int w wk ck f of
        ((i, n), f1) \<Rightarrow> (case windows_spec now_int w rest f1 of (vs, f2) \<Rightarrow> (i # n # vs, f2)))"
| "windows_spec now_int w _ f = ([], f)"

definition number :: "int option \<Rightarrow> pyval" where
  "number x = (case x of None \<Rightarrow> PNone | Some i \<Rightarrow> PInt i)"

subsection \<open>A store with expiry\<close>

text \<open>
  \<open>put w now k v\<close> writes with a time to live of \<open>w\<close>, which counts only when there is no live entry;
  \<open>entry\<close> is what the store holds, live or not. \<open>room K\<close> says that the store holds only keys of \<open>K\<close>
  and has room for all of them.
\<close>

locale expiring_store =
  fixes put :: "int \<Rightarrow> time \<Rightarrow> string \<Rightarrow> pyval \<Rightarrow> 'c \<Rightarrow> 'c"
    and peek :: "time \<Rightarrow> string \<Rightarrow> 'c \<Rightarrow> pyval"
    and after_get :: "time \<Rightarrow> string \<Rightarrow> 'c \<Rightarrow> 'c"
    and entry :: "'c \<Rightarrow> string \<Rightarrow> (pyval \<times> time) option"
    and view :: "pyval \<Rightarrow> pyval"
    and fits :: "'c \<Rightarrow> bool"
    and room :: "string set \<Rightarrow> 'c \<Rightarrow> bool"
  assumes put_room: "room K c \<Longrightarrow> k \<in> K \<Longrightarrow> 0 \<le> w \<Longrightarrow> room K (put w now k v c)"
    and get_room: "room K c \<Longrightarrow> room K (after_get now k c)"
    and put_fits: "room K c \<Longrightarrow> fits c \<Longrightarrow> k \<in> K \<Longrightarrow> 0 \<le> w \<Longrightarrow> fits (put w now k v c)"
    and get_fits: "room K c \<Longrightarrow> fits c \<Longrightarrow> fits (after_get now k c)"
    and entry_put_same: "room K c \<Longrightarrow> fits c \<Longrightarrow> k \<in> K \<Longrightarrow> 0 \<le> w \<Longrightarrow> v = PInt i \<or> v = PStr (str_of_int i) \<Longrightarrow>
      entry (put w now k v c) k =
        Some (v, case entry c k of None \<Rightarrow> now + of_int w | Some (_, t) \<Rightarrow> if t < now then now + of_int w else t)"
    and entry_put_other: "room K c \<Longrightarrow> k \<in> K \<Longrightarrow> 0 \<le> w \<Longrightarrow> k' \<noteq> k \<Longrightarrow> entry (put w now k v c) k' = entry c k'"
    and entry_get: "room K c \<Longrightarrow> entry (after_get now k c) k' =
        (if k' = k then (case entry c k of None \<Rightarrow> None | Some (v, t) \<Rightarrow> if t < now then None else Some (v, t))
         else entry c k')"
    and peek_entry: "room K c \<Longrightarrow> peek now k c =
        (case entry c k of None \<Rightarrow> PNone | Some (v, t) \<Rightarrow> if t < now then PNone else view v)"
    and view_int: "view (PInt i) = PInt i"
    and view_text: "0 \<le> i \<Longrightarrow> view (PStr (str_of_int i)) = PInt i"
begin

text \<open>One pair of keys of the window algorithm.\<close>

definition tick :: "time \<Rightarrow> int \<Rightarrow> int \<Rightarrow> string \<Rightarrow> string \<Rightarrow> 'c \<Rightarrow> pyval list pyres \<times> 'c" where
  "tick now now_int w wk ck c =
     (let c1 = after_get now wk c; start = peek now wk c in
      case (if start = PNone then Inr True else map_sum id (\<lambda>i. now_int - i \<ge> w) (py_int start)) of
        Inl e \<Rightarrow> (Inl e, c1)
      | Inr True \<Rightarrow>
        (Inr [PStr (str_of_int now_int), PInt 1], put w now ck (PInt 1) (put w now wk (PStr (str_of_int now_int)) c1))
      | Inr False \<Rightarrow>
        (case (if peek now ck c1 = PNone then Inr 0 else py_int (peek now ck c1)) of
           Inl e \<Rightarrow> (Inl e, after_get now ck c1)
         | Inr n \<Rightarrow> (Inr [start, PInt (n + 1)], put w now ck (PInt (n + 1)) (after_get now ck c1))))"

text \<open>One pair in the store is one step of the specification.\<close>

lemma peek_put:
  assumes "room K c" "fits c" "k \<in> K" "0 \<le> w" "v = PInt i \<or> v = PStr (str_of_int i)" "k' \<in> K"
  shows "peek now k' (put w now k v c) = (if k' = k then view v else peek now k' c)"
proof (cases "k' = k")
  case True
  then show ?thesis
    using assms(4) entry_put_same [OF assms(1-5), of now]
    by (auto simp: peek_entry [OF put_room [OF assms(1,3,4)]] split: option.splits)
next
  case False
  then show ?thesis
    using entry_put_other [OF assms(1,3,4)] by (simp add: peek_entry [OF put_room [OF assms(1,3,4)]] peek_entry [OF assms(1)])
qed

lemma peek_get: "room K c \<Longrightarrow> peek now k' (after_get now k c) = peek now k' c"
  by (auto simp: peek_entry [of K] get_room entry_get [of K] split: option.splits)

definition shows_numbers :: "string set \<Rightarrow> time \<Rightarrow> (string \<rightharpoonup> int) \<Rightarrow> 'c \<Rightarrow> bool" where
  "shows_numbers K now f c \<longleftrightarrow> (\<forall>k \<in> K. peek now k c = number (f k))"

lemma tick_refines:
  assumes "room K c" "fits c" "wk \<in> K" "ck \<in> K" "0 \<le> w" "0 \<le> now_int" "shows_numbers K now f c"
    and "window_spec now_int w wk ck f = ((i, n), f')"
  shows "\<exists>a. fst (tick now now_int w wk ck c) = Inr [a, PInt n] \<and> py_int a = Inr i \<and>
     shows_numbers K now f' (snd (tick now now_int w wk ck c))"
proof -
  let ?c1 = "after_get now wk c" let ?c2 = "after_get now ck ?c1" let ?s = "PStr (str_of_int now_int)"
  have r1: "room K ?c1" and r2: "room K ?c2" and f1: "fits ?c1" and f2: "fits ?c2"
    using assms(1,2) by (auto intro: get_room get_fits [of K])
  have p: "peek now k c = number (f k)" "peek now k ?c1 = number (f k)" "peek now k ?c2 = number (f k)" if "k \<in> K" for k
    using that assms(7) by (simp_all add: shows_numbers_def peek_get [OF r1] peek_get [OF assms(1)])
  have put1: "shows_numbers K now (f(ck \<mapsto> m)) (put w now ck (PInt m) ?c2)" for m
    using peek_put [OF r2 f2 assms(4,5), of "PInt m" m] p by (simp add: shows_numbers_def number_def view_int)
  let ?c3 = "put w now wk ?s ?c1"
  have r3: "room K ?c3" and f3: "fits ?c3" using r1 f1 assms(3,5) by (auto intro: put_room put_fits [of K])
  have "peek now k ?c3 = number ((f(wk \<mapsto> now_int)) k)" if "k \<in> K" for k
    using peek_put [OF r1 f1 assms(3,5), of ?s now_int k] that p view_text [OF assms(6)] by (simp add: number_def)
  then have reset: "shows_numbers K now (f(wk \<mapsto> now_int, ck \<mapsto> 1)) (put w now ck (PInt 1) ?c3)"
    using peek_put [OF r3 f3 assms(4,5), of "PInt 1" 1] by (simp add: shows_numbers_def number_def view_int)
  show ?thesis
  proof (cases "\<exists>j. f wk = Some j \<and> now_int - j < w")
    case True
    then obtain j where j: "f wk = Some j" "now_int - j < w" by blast
    have "(i, n) = (j, (case f ck of None \<Rightarrow> 0 | Some n \<Rightarrow> n) + 1)" "f' = f(ck \<mapsto> n)"
      using assms(8) j by (auto simp: window_spec_def Let_def)
    then show ?thesis
      using j p [OF assms(3)] p [OF assms(4)] put1 by (auto simp: tick_def Let_def number_def split: option.splits)
  next
    case False
    then have "(i, n) = (now_int, 1)" "f' = f(wk \<mapsto> now_int, ck \<mapsto> 1)"
      using assms(8) by (auto simp: window_spec_def Let_def split: option.splits if_splits)
    moreover have "tick now now_int w wk ck c = (Inr [?s, PInt 1], put w now ck (PInt 1) ?c3)"
      using False p [OF assms(3)] by (auto simp: tick_def Let_def number_def split: option.splits)
    ultimately show ?thesis using reset by simp
  qed
qed

lemma tick_room: "room K c \<Longrightarrow> wk \<in> K \<Longrightarrow> ck \<in> K \<Longrightarrow> 0 \<le> w \<Longrightarrow> room K (snd (tick now now_int w wk ck c))"
  by (auto simp: tick_def Let_def put_room get_room split: sum.split bool.split)

lemma tick_fits:
  "room K c \<Longrightarrow> fits c \<Longrightarrow> wk \<in> K \<Longrightarrow> ck \<in> K \<Longrightarrow> 0 \<le> w \<Longrightarrow> fits (snd (tick now now_int w wk ck c))"
  by (auto simp: tick_def Let_def split: sum.split bool.split
      intro!: put_fits [of K] get_fits [of K] put_room get_room)

text \<open>Entries of other keys stay.\<close>

lemma tick_other:
  assumes "room K c" "wk \<in> K" "ck \<in> K" "0 \<le> w" "k \<noteq> wk" "k \<noteq> ck"
  shows "entry (snd (tick now now_int w wk ck c)) k = entry c k"
proof -
  have g: "entry (after_get now wk c) k = entry c k" using entry_get [OF assms(1)] assms(5) by simp
  have g2: "entry (after_get now ck (after_get now wk c)) k = entry c k"
    using entry_get [OF get_room [OF assms(1)]] assms(6) g by simp
  have p: "entry (put w now ck v (put w now wk v' (after_get now wk c))) k = entry c k" for v v'
    using entry_put_other [OF put_room [OF get_room [OF assms(1)] assms(2,4)] assms(3,4,6)]
      entry_put_other [OF get_room [OF assms(1)] assms(2,4,5)] g by simp
  have p2: "entry (put w now ck v (after_get now ck (after_get now wk c))) k = entry c k" for v
    using entry_put_other [OF get_room [OF get_room [OF assms(1)]] assms(3,4,6)] g2 by simp
  show ?thesis using g g2 p p2 by (auto simp: tick_def Let_def split: sum.split bool.split)
qed

subsection \<open>Counting in a window\<close>

text \<open>
  \<open>counted\<close>: after time \<open>t0\<close>, at which the counter had no live entries, it has counted at least
  \<open>n\<close> requests. Its window opened at a second \<open>s\<close> after that of \<open>t0\<close>, and the entries live at least
  \<open>w\<close> seconds from \<open>t0\<close>.
\<close>

definition stale :: "time \<Rightarrow> string \<Rightarrow> 'c \<Rightarrow> bool" where
  "stale t0 k c \<longleftrightarrow> (case entry c k of None \<Rightarrow> True | Some (_, t) \<Rightarrow> t < t0)"

definition opened :: "time \<Rightarrow> int \<Rightarrow> string \<Rightarrow> 'c \<Rightarrow> bool" where
  "opened t0 w wk c \<longleftrightarrow>
     (\<exists>s t. entry c wk = Some (PStr (str_of_int s), t) \<and> int_time t0 \<le> s \<and> t0 + of_int w \<le> t)"

definition counts :: "time \<Rightarrow> int \<Rightarrow> string \<Rightarrow> int \<Rightarrow> 'c \<Rightarrow> bool" where
  "counts t0 w ck n c \<longleftrightarrow>
     (\<exists>m t. entry c ck = Some (PInt m, t) \<and> n \<le> m \<and> t0 + of_int w \<le> t) \<or> n \<le> 0 \<and> stale t0 ck c"

definition counted :: "time \<Rightarrow> int \<Rightarrow> string \<Rightarrow> string \<Rightarrow> int \<Rightarrow> 'c \<Rightarrow> bool" where
  "counted t0 w wk ck n c \<longleftrightarrow>
     stale t0 wk c \<and> stale t0 ck c \<and> n \<le> 0 \<or> opened t0 w wk c \<and> counts t0 w ck n c"

lemma counted_mono: "counted t0 w wk ck n c \<Longrightarrow> m \<le> n \<Longrightarrow> counted t0 w wk ck m c"
  by (fastforce simp: counted_def counts_def)

lemma counted_cong:
  "entry c' wk = entry c wk \<Longrightarrow> entry c' ck = entry c ck \<Longrightarrow> counted t0 w wk ck n c' = counted t0 w wk ck n c"
  by (simp add: counted_def opened_def counts_def stale_def)

lemma stale_get: "room K c \<Longrightarrow> stale t0 k c \<Longrightarrow> stale t0 k (after_get now k' c)"
  by (auto simp: stale_def entry_get [of K] split: option.splits if_splits)

lemma live_get:
  "room K c \<Longrightarrow> entry c k = Some (v, t) \<Longrightarrow> now \<le> t \<Longrightarrow> entry (after_get now k' c) k = Some (v, t)"
  by (auto simp: entry_get [of K])

lemma counted_get:
  assumes "room K c" "in_span t0 w now" "counted t0 w wk ck n c"
  shows "counted t0 w wk ck n (after_get now k c)"
proof -
  note live = live_get [OF assms(1), of _ _ _ now k]
  have "opened t0 w wk (after_get now k c)" if "opened t0 w wk c"
    using that in_span_before [OF assms(2)] live unfolding opened_def by (metis less_le_trans order_less_imp_le)
  moreover have "counts t0 w ck n (after_get now k c)" if "counts t0 w ck n c"
    using that in_span_before [OF assms(2)] live stale_get [OF assms(1)] unfolding counts_def
    by (metis less_le_trans order_less_imp_le)
  ultimately show ?thesis using assms(3) stale_get [OF assms(1)] unfolding counted_def by blast
qed

text \<open>A stale key reads as absent, and a write then takes its time to live from now on.\<close>

lemma stale_peek: "room K c \<Longrightarrow> stale t0 k c \<Longrightarrow> t0 \<le> now \<Longrightarrow> peek now k c = PNone"
  by (auto simp: stale_def peek_entry [of K] split: option.splits)

lemma stale_put:
  assumes "room K c" "fits c" "k \<in> K" "0 \<le> w" "v = PInt i \<or> v = PStr (str_of_int i)" "stale t0 k c" "t0 \<le> now"
  shows "entry (put w now k v c) k = Some (v, now + of_int w)"
  using assms(6,7) by (auto simp: entry_put_same [OF assms(1-5)] stale_def split: option.splits)

lemma opened_peek:
  assumes "room K c" "in_span t0 w now" "opened t0 w wk c"
  obtains s where "peek now wk c = PInt s" "int_time now - s < w"
proof -
  obtain s t where st: "entry c wk = Some (PStr (str_of_int s), t)" "int_time t0 \<le> s" "t0 + of_int w \<le> t"
    using assms(3) by (auto simp: opened_def)
  have "\<not> t < now" using st(3) in_span_before [OF assms(2)] by simp
  then have "peek now wk c = PInt s"
    using st(1,2) view_text [of s] in_span_int [OF assms(2)] by (simp add: peek_entry [OF assms(1)])
  moreover have "int_time now - s < w" using assms(2) st(2) by (simp add: in_span_def)
  ultimately show thesis using that by blast
qed

text \<open>The first pair opens the window and counts one.\<close>

lemma tick_opens:
  assumes "room K c" "fits c" "wk \<in> K" "ck \<in> K" "wk \<noteq> ck" "in_span t0 w now" "stale t0 wk c"
  shows "fst (tick now (int_time now) w wk ck c) = Inr [PStr (str_of_int (int_time now)), PInt 1]"
    and "opened t0 w wk (snd (tick now (int_time now) w wk ck c))"
    and "stale t0 ck c \<Longrightarrow> entry (snd (tick now (int_time now) w wk ck c)) ck = Some (PInt 1, now + of_int w)"
proof -
  let ?s = "PStr (str_of_int (int_time now))" let ?c1 = "after_get now wk c" let ?c2 = "put w now wk ?s ?c1"
  have w: "0 \<le> w" and t: "t0 \<le> now" and i: "int_time t0 \<le> int_time now"
    using in_span_int [OF assms(6)] assms(6) by (auto simp: in_span_def)
  have r: "room K ?c1" and r2: "room K ?c2" and f: "fits ?c1" and f2: "fits ?c2"
    using assms(1-3) w by (auto intro: put_room get_room put_fits [of K] get_fits [of K])
  have tick: "tick now (int_time now) w wk ck c = (Inr [?s, PInt 1], put w now ck (PInt 1) ?c2)"
    using stale_peek [OF assms(1,7) t] by (simp add: tick_def)
  then show "fst (tick now (int_time now) w wk ck c) = Inr [?s, PInt 1]" by simp
  have "entry ?c2 wk = Some (?s, now + of_int w)"
    using stale_put [OF r f assms(3) w _ stale_get [OF assms(1,7)] t] by blast
  then have "entry (put w now ck (PInt 1) ?c2) wk = Some (?s, now + of_int w)"
    using entry_put_other [OF r2 assms(4) w assms(5)] by simp
  then show "opened t0 w wk (snd (tick now (int_time now) w wk ck c))"
    unfolding tick snd_conv opened_def using i t by (intro exI [of _ "int_time now"] exI [of _ "now + of_int w"]) simp
  assume "stale t0 ck c"
  then have "stale t0 ck ?c1" using stale_get [OF assms(1)] by simp
  moreover have "entry ?c2 ck = entry ?c1 ck" by (rule entry_put_other [OF r assms(3) w assms(5) [symmetric]])
  ultimately have "stale t0 ck ?c2" by (simp add: stale_def)
  then show "entry (snd (tick now (int_time now) w wk ck c)) ck = Some (PInt 1, now + of_int w)"
    unfolding tick snd_conv using stale_put [OF r2 f2 assms(4) w _ _ t] by blast
qed

text \<open>A pair of the open window counts one more.\<close>

lemma tick_counts:
  assumes "room K c" "fits c" "wk \<in> K" "ck \<in> K" "wk \<noteq> ck" "in_span t0 w now" "opened t0 w wk c" "counts t0 w ck n c"
  shows "\<exists>s m t. tick now (int_time now) w wk ck c = (Inr [PInt s, PInt m], snd (tick now (int_time now) w wk ck c)) \<and>
     n + 1 \<le> m \<and> entry (snd (tick now (int_time now) w wk ck c)) ck = Some (PInt m, t) \<and> t0 + of_int w \<le> t"
proof -
  let ?c1 = "after_get now wk c" let ?c2 = "after_get now ck ?c1"
  have w: "0 \<le> w" and t: "t0 \<le> now" using in_span_int [OF assms(6)] assms(6) by (auto simp: in_span_def)
  have r1: "room K ?c1" and r2: "room K ?c2" and f2: "fits ?c2"
    using assms(1,2) by (auto intro: get_room get_fits [of K])
  obtain s where s: "peek now wk c = PInt s" "int_time now - s < w" using opened_peek [OF assms(1,6,7)] .
  define m where "m = (if peek now ck ?c1 = PNone then 0 else case peek now ck ?c1 of PInt i \<Rightarrow> i | _ \<Rightarrow> 0)"
  have e: "entry ?c1 ck = entry c ck" using entry_get [OF assms(1)] assms(5) by simp
  have cases: "(peek now ck ?c1 = PNone \<or> (\<exists>i. peek now ck ?c1 = PInt i)) \<and> n \<le> m \<and>
      (case entry ?c2 ck of None \<Rightarrow> True | Some (_, t) \<Rightarrow> \<not> t < now \<and> t0 + of_int w \<le> t)"
  proof (cases "\<exists>m t. entry c ck = Some (PInt m, t) \<and> n \<le> m \<and> t0 + of_int w \<le> t")
    case True
    then obtain i u where iu: "entry c ck = Some (PInt i, u)" "n \<le> i" "t0 + of_int w \<le> u" by blast
    have "\<not> u < now" using iu(3) in_span_before [OF assms(6)] by linarith
    then show ?thesis using iu e view_int by (simp add: m_def peek_entry [OF r1] entry_get [OF r1])
  next
    case False
    then have st: "stale t0 ck c" "n \<le> 0" using assms(8) by (auto simp: counts_def)
    then have "peek now ck ?c1 = PNone" using stale_peek [OF r1 stale_get [OF assms(1) st(1)] t] by simp
    moreover have "entry ?c2 ck = None"
      using st(1) t by (auto simp: entry_get [OF r1] e stale_def split: option.splits)
    ultimately show ?thesis using st(2) by (simp add: m_def)
  qed
  then have tick: "tick now (int_time now) w wk ck c = (Inr [PInt s, PInt (m + 1)], put w now ck (PInt (m + 1)) ?c2)"
    using s by (auto simp: tick_def Let_def m_def)
  have "\<exists>u. entry (put w now ck (PInt (m + 1)) ?c2) ck = Some (PInt (m + 1), u) \<and> t0 + of_int w \<le> u"
    using cases t entry_put_same [OF r2 f2 assms(4) w, of "PInt (m + 1)" "m + 1" now] by (auto split: option.splits)
  then show ?thesis using tick cases by auto
qed

lemma tick_keeps_open:
  assumes "room K c" "wk \<in> K" "ck \<in> K" "wk \<noteq> ck" "in_span t0 w now" "opened t0 w wk c"
  shows "opened t0 w wk (snd (tick now (int_time now) w wk ck c))"
proof -
  let ?c1 = "after_get now wk c" let ?c2 = "after_get now ck ?c1"
  have w: "0 \<le> w" using in_span_int [OF assms(5)] by simp
  have r2: "room K ?c2" using assms(1) by (intro get_room)
  obtain u t where ut: "entry c wk = Some (PStr (str_of_int u), t)" "int_time t0 \<le> u" "t0 + of_int w \<le> t"
    using assms(6) by (auto simp: opened_def)
  have "now \<le> t" using ut(3) in_span_before [OF assms(5)] by simp
  then have "entry ?c2 wk = entry c wk"
    using live_get [OF get_room [OF assms(1)] live_get [OF assms(1) ut(1)]] ut(1) by simp
  moreover have "entry (put w now ck v ?c2) wk = entry ?c2 wk" for v
    by (rule entry_put_other [OF r2 assms(3) w assms(4)])
  moreover obtain s where "peek now wk c = PInt s" "int_time now - s < w" using opened_peek [OF assms(1,5,6)] .
  ultimately have "entry (snd (tick now (int_time now) w wk ck c)) wk = entry c wk"
    by (simp add: tick_def Let_def split: sum.split)
  then show ?thesis using assms(6) by (simp add: opened_def)
qed

text \<open>What a pair of keys does to the count of another or of its own counter.\<close>

lemma tick_counted:
  assumes "room K c" "fits c" "{wk, ck, wk', ck'} \<subseteq> K" "wk \<noteq> ck" "wk' \<noteq> ck'" "wk' \<noteq> ck" "ck' \<noteq> wk"
    and "ck' = ck \<longrightarrow> wk' = wk" "in_span t0 w now" "counted t0 w wk ck n c"
  shows "counted t0 w wk ck (if ck' = ck then n + 1 else n) (snd (tick now (int_time now) w wk' ck' c)) \<and>
     (ck' = ck \<longrightarrow> (\<exists>s m. fst (tick now (int_time now) w wk' ck' c) = Inr [s, PInt m] \<and> n + 1 \<le> m))"
proof -
  let ?T = "tick now (int_time now) w wk' ck' c"
  have w: "0 \<le> w" and t: "t0 \<le> now" using in_span_int [OF assms(9)] assms(9) by (auto simp: in_span_def)
  have K: "wk' \<in> K" "ck' \<in> K" "ck \<in> K" using assms(3) by auto
  have other: "entry (snd ?T) ck = entry c ck" if "ck' \<noteq> ck"
    using tick_other [OF assms(1) K(1,2) w] assms(6) that by metis
  show ?thesis
  proof (cases "wk' = wk")
    case False
    then have "ck' \<noteq> ck" using assms(8) by blast
    moreover have "entry (snd ?T) wk = entry c wk" using tick_other [OF assms(1) K(1,2) w] False assms(7) by metis
    ultimately show ?thesis using other assms(10) counted_cong [of "snd ?T" wk c ck] by simp
  next
    case True
    note kk = assms(5) [unfolded True] K(1) [unfolded True]
    show ?thesis
    proof (cases "opened t0 w wk c \<and> counts t0 w ck n c")
      case oc: True
      have op: "opened t0 w wk (snd ?T)"
        using tick_keeps_open [OF assms(1) kk(2) K(2) kk(1) assms(9)] oc True by simp
      show ?thesis
      proof (cases "ck' = ck")
        case same: True
        obtain s m u where m: "fst ?T = Inr [PInt s, PInt m]" "n + 1 \<le> m" "entry (snd ?T) ck = Some (PInt m, u)" "t0 + of_int w \<le> u"
          using tick_counts [OF assms(1,2) kk(2) K(3) assms(4,9)] oc True same by (metis fst_conv)
        then have "counts t0 w ck (n + 1) (snd ?T)" by (auto simp: counts_def)
        then show ?thesis using m op same by (auto simp: counted_def)
      next
        case no: False
        then have "counts t0 w ck n (snd ?T)" using other oc by (simp add: counts_def stale_def)
        then show ?thesis using op no by (auto simp: counted_def)
      qed
    next
      case False
      then have st: "stale t0 wk c" "stale t0 ck c" "n \<le> 0" using assms(10) by (auto simp: counted_def)
      note o = tick_opens [OF assms(1,2) kk(2) K(2) kk(1) assms(9) st(1)]
      show ?thesis
      proof (cases "ck' = ck")
        case same: True
        have "counts t0 w ck (n + 1) (snd ?T)" using o(3) st(2,3) same t True by (auto simp: counts_def)
        then show ?thesis using o(1,2) st(3) same True by (auto simp: counted_def)
      next
        case no: False
        then have "counts t0 w ck n (snd ?T)" using other st by (simp add: counts_def stale_def)
        then show ?thesis using o(2) no True by (auto simp: counted_def)
      qed
    qed
  qed
qed

end

subsection \<open>The memory level\<close>

definition imc_entry :: "imc \<Rightarrow> string \<Rightarrow> (pyval \<times> time) option" where
  "imc_entry c k =
     (case (map_of (cache_dict c) k, map_of (ttl_dict c) k) of (Some v, Some t) \<Rightarrow> Some (v, t) | _ \<Rightarrow> None)"

definition imc_room :: "string set \<Rightarrow> imc \<Rightarrow> bool" where
  "imc_room K c \<longleftrightarrow>
     imc_inv c \<and> finite K \<and> int (card K) < max_size_in_memory c \<and> dom (map_of (cache_dict c)) \<subseteq> K"

definition takes_counts :: "py_runtime \<Rightarrow> imc \<Rightarrow> bool" where
  "takes_counts rt c \<longleftrightarrow> (\<forall>i. check_value_size rt c (PInt i) \<and> check_value_size rt c (PStr (str_of_int i)))"

lemma imc_room_roomy:
  assumes "imc_room K c"
  shows "int (length (cache_dict c)) < max_size_in_memory c"
proof -
  have "dom (map_of (cache_dict c)) = set (map fst (cache_dict c))" by (simp add: dom_map_of_conv_image_fst)
  then have "length (cache_dict c) = card (dom (map_of (cache_dict c)))"
    using assms distinct_card [of "map fst (cache_dict c)"] by (simp add: imc_room_def imc_inv_def)
  also have "\<dots> \<le> card K" using assms by (auto simp: imc_room_def intro: card_mono)
  finally show ?thesis using assms by (simp add: imc_room_def)
qed

lemma imc_put_room_eq:
  assumes "imc_room K c"
  shows "imc_put rt ttl now k v c = (if check_value_size rt c v then imc_store now k v ttl c else c)"
  using imc_room_roomy [OF assms] assms
  by (auto simp: imc_put_def imc_set_cache_eq make_room_def imc_room_def)

lemma imc_entry_keys: "imc_inv c \<Longrightarrow> map_of (cache_dict c) k = None \<longleftrightarrow> map_of (ttl_dict c) k = None"
  using imc_inv0_keys [of c k] by (auto simp: imc_inv_iff)

interpretation mem: expiring_store "\<lambda>w. imc_put rt (Some (of_int w))" imc_peek imc_after_get imc_entry json_view
  "takes_counts rt" imc_room for rt
proof unfold_locales
  fix i :: int
  show "json_view (PInt i) = PInt i" by simp
  show "json_view (PStr (str_of_int i)) = PInt i" if "0 \<le> i" using that by simp
next
  fix K c k w now v k' i
  assume room: "imc_room K c"
  then have inv: "imc_inv c" by (simp add: imc_room_def)
  note eq = imc_put_room_eq [OF room]
  show get: "imc_room K (imc_after_get now k c)"
    using room imc_after_get_inv [OF inv, of now k]
    by (auto simp: imc_room_def imc_after_get_def imc_get_cache_state same_config_def remove_key_def split: if_splits)
  show "takes_counts rt (imc_after_get now k c)" if "takes_counts rt c"
    using that imc_after_get_inv [OF inv, of now k] check_value_size_cong unfolding takes_counts_def by blast
  show "imc_entry (imc_after_get now k c) k' =
        (if k' = k then (case imc_entry c k of None \<Rightarrow> None | Some (v, t) \<Rightarrow> if t < now then None else Some (v, t))
         else imc_entry c k')"
    using imc_entry_keys [OF inv, of k]
    by (auto simp: imc_entry_def imc_after_get_def imc_get_cache_state is_key_expired_def remove_key_def split: option.splits)
  show "imc_peek now k c =
        (case imc_entry c k of None \<Rightarrow> PNone | Some (v, t) \<Rightarrow> if t < now then PNone else json_view v)"
    using imc_entry_keys [OF inv, of k]
    by (auto simp: imc_peek_eq imc_entry_def is_key_expired_def split: option.splits)
  note p = imc_put_inv [OF inv, of rt "Some (of_int w)" now k v]
  show "imc_room K (imc_put rt (Some (of_int w)) now k v c)" if "k \<in> K" "0 \<le> w"
    using p room that by (auto simp: imc_room_def same_config_def eq imc_store_def Let_def split: if_splits)
  show "takes_counts rt (imc_put rt (Some (of_int w)) now k v c)" if "takes_counts rt c" "k \<in> K" "0 \<le> w"
    using that p check_value_size_cong unfolding takes_counts_def by blast
  show "imc_entry (imc_put rt (Some (of_int w)) now k v c) k' = imc_entry c k'" if "k \<in> K" "0 \<le> w" "k' \<noteq> k"
    using that by (auto simp: eq imc_entry_def imc_store_def Let_def split: option.split)
  show "imc_entry (imc_put rt (Some (of_int w)) now k v c) k =
      Some (v, case imc_entry c k of None \<Rightarrow> now + of_int w | Some (_, t) \<Rightarrow> if t < now then now + of_int w else t)"
    if "takes_counts rt c" "k \<in> K" "0 \<le> w" "v = PInt i \<or> v = PStr (str_of_int i)"
  proof -
    have "check_value_size rt c v" using that by (auto simp: takes_counts_def)
    then show ?thesis
      using imc_entry_keys [OF inv, of k]
      by (simp add: eq imc_entry_def imc_store_def Let_def allow_ttl_override_def split: option.splits)
  qed
qed

subsection \<open>The limiter in memory\<close>

lemma local_get_eq:
  "local_get E now k d = (imc_peek now k (in_memory_cache d), d\<lparr>in_memory_cache := imc_after_get now k (in_memory_cache d)\<rparr>)"
  by (simp add: local_get_def dual_get_cache_def with_mem_def imc_peek_def imc_after_get_def split: option.split)

lemma local_set_eq:
  "local_set E now w k v d =
     d\<lparr>in_memory_cache := imc_put (usage_rt E) (Some (of_int w)) now k v (in_memory_cache d)\<rparr>"
  by (simp add: local_set_def dual_set_cache_def with_mem_def imc_put_def dual_ttl_def kw_ttl_def Let_def
      split: option.split sum.split)

lemma window_pair_tick:
  "window_pair E now now_int w wk ck d =
     with_mem d (mem.tick (usage_rt E) now now_int w wk ck (in_memory_cache d))"
  by (simp add: window_pair_def mem.tick_def with_mem_def local_get_eq local_set_eq Let_def
      split: sum.split bool.split)

text \<open>The keys of a call as pairs of a window and a counter.\<close>

fun pairs :: "'a list \<Rightarrow> ('a \<times> 'a) list" where
  "pairs (a # b # xs) = (a, b) # pairs xs"
| "pairs _ = []"

lemma pairs_append: "even (length xs) \<Longrightarrow> pairs (xs @ ys) = pairs xs @ pairs ys"
  by (induction xs rule: pairs.induct) auto

lemma pairs_concat:
  "\<forall>x \<in> set xs. even (length (f x)) \<Longrightarrow>
   even (length (concat (map f xs))) \<and> pairs (concat (map f xs)) = concat (map (pairs \<circ> f) xs)"
  by (induction xs) (auto simp: pairs_append)

lemma pairs_elems: "(a, b) \<in> set (pairs xs) \<Longrightarrow> a \<in> set xs \<and> b \<in> set xs"
  by (induction xs rule: pairs.induct) auto

text \<open>Two counters do not interfere when their keys differ as those of descriptors do.\<close>

definition apart :: "string \<Rightarrow> string \<Rightarrow> string \<times> string \<Rightarrow> bool" where
  "apart wk ck p \<longleftrightarrow> fst p \<noteq> snd p \<and> fst p \<noteq> ck \<and> snd p \<noteq> wk \<and> (snd p = ck \<longrightarrow> fst p = wk)"

lemma tick_pair: "fst (mem.tick rt now i w wk ck c) = Inr vs \<Longrightarrow> \<exists>a b. vs = [a, b]"
  by (auto simp: mem.tick_def Let_def split: sum.splits bool.splits)

text \<open>One pair: the state keeps its properties, and a pair of the counter is answered with its count.\<close>

lemma window_pair_counted:
  assumes "imc_room K (in_memory_cache d)" "takes_counts (usage_rt E) (in_memory_cache d)"
    "{wk, ck, a, b} \<subseteq> K" "wk \<noteq> ck" "apart wk ck (a, b)" "in_span t0 w now" "mem.counted t0 w wk ck n (in_memory_cache d)"
    "window_pair E now (int_time now) w a b d = (r, d')"
  shows "d' = d\<lparr>in_memory_cache := in_memory_cache d'\<rparr>" "imc_room K (in_memory_cache d')"
    "takes_counts (usage_rt E) (in_memory_cache d')"
    "mem.counted t0 w wk ck (if b = ck then n + 1 else n) (in_memory_cache d')"
    "r = Inr v \<Longrightarrow> \<exists>x y. v = [x, y] \<and> (b = ck \<longrightarrow> a = wk \<and> (\<exists>m. y = PInt m \<and> n + 1 \<le> m))"
proof -
  let ?T = "mem.tick (usage_rt E) now (int_time now) w a b (in_memory_cache d)"
  have w: "0 \<le> w" using in_span_int [OF assms(6)] by simp
  have K: "a \<in> K" "b \<in> K" using assms(3) by auto
  have ab: "a \<noteq> b" "a \<noteq> ck" "b \<noteq> wk" "b = ck \<longrightarrow> a = wk" using assms(5) by (auto simp: apart_def)
  have step: "r = fst ?T" "d' = d\<lparr>in_memory_cache := snd ?T\<rparr>" using assms(8) by (auto simp: window_pair_tick with_mem_def)
  note count = mem.tick_counted [OF assms(1,2,3,4) ab assms(6,7)]
  show "d' = d\<lparr>in_memory_cache := in_memory_cache d'\<rparr>" using step by simp
  show "imc_room K (in_memory_cache d')" using mem.tick_room [OF assms(1) K w] step by simp
  show "takes_counts (usage_rt E) (in_memory_cache d')" using mem.tick_fits [OF assms(1,2) K w] step by simp
  show "mem.counted t0 w wk ck (if b = ck then n + 1 else n) (in_memory_cache d')" using count step by simp
  assume v: "r = Inr v"
  obtain x y where "v = [x, y]" using tick_pair [of "usage_rt E"] step(1) v by metis
  then show "\<exists>x y. v = [x, y] \<and> (b = ck \<longrightarrow> a = wk \<and> (\<exists>m. y = PInt m \<and> n + 1 \<le> m))"
    using count step(1) v ab(4) by auto
qed

text \<open>The answers to a list of keys tell the count of a counter, if it is among them.\<close>

definition answered :: "string \<Rightarrow> string \<Rightarrow> int \<Rightarrow> string list \<Rightarrow> pyval list \<Rightarrow> bool" where
  "answered wk ck n keys vs \<longleftrightarrow>
     ((wk, ck) \<in> set (pairs keys) \<longrightarrow>
        (\<exists>s m. ((wk, ck), (s, PInt m)) \<in> set (zip (pairs keys) (pairs vs)) \<and> n + 1 \<le> m))"

lemma answered_Cons:
  assumes "answered wk ck (if b = ck then n + 1 else n) keys ws" "b = ck \<longrightarrow> a = wk \<and> (\<exists>m. y = PInt m \<and> n + 1 \<le> m)"
  shows "answered wk ck n (a # b # keys) ([x, y] @ ws)"
  using assms unfolding answered_def by (cases "b = ck") fastforce+

lemma sliding_window_counted:
  assumes "imc_room K (in_memory_cache d)" "takes_counts (usage_rt E) (in_memory_cache d)"
    "set keys \<subseteq> K" "wk \<in> K" "ck \<in> K" "wk \<noteq> ck" "even (length keys)" "\<forall>p \<in> set (pairs keys). apart wk ck p"
    "in_span t0 w now" "mem.counted t0 w wk ck n (in_memory_cache d)"
    "in_memory_cache_sliding_window E now keys (int_time now) w d = (r, d')"
  shows "d' = d\<lparr>in_memory_cache := in_memory_cache d'\<rparr> \<and>
     imc_room K (in_memory_cache d') \<and> takes_counts (usage_rt E) (in_memory_cache d') \<and>
     mem.counted t0 w wk ck n (in_memory_cache d') \<and>
     (\<forall>vs. r = Inr vs \<longrightarrow> answered wk ck n keys vs \<and>
        ((wk, ck) \<in> set (pairs keys) \<longrightarrow> mem.counted t0 w wk ck (n + 1) (in_memory_cache d')))"
  using assms(1-3,7,8,10,11)
proof (induction keys arbitrary: d n r d' rule: pairs.induct)
  case (1 a b keys)
  let ?n = "if b = ck then n + 1 else n"
  obtain r1 d1 where step: "window_pair E now (int_time now) w a b d = (r1, d1)" by fastforce
  have K: "{wk, ck, a, b} \<subseteq> K" and ap: "apart wk ck (a, b)" using "1.prems"(3,5) assms(4,5) by auto
  note pair = window_pair_counted [OF "1.prems"(1,2) K assms(6) ap assms(9) "1.prems"(6) step]
  have weak: "mem.counted t0 w wk ck n c" if "mem.counted t0 w wk ck ?n c" for c
    by (rule mem.counted_mono [OF that]) simp
  show ?case
  proof (cases r1)
    case (Inl e)
    then show ?thesis using "1.prems"(7) step pair(1-3) weak [OF pair(4)] by auto
  next
    case (Inr v)
    obtain x y where v: "v = [x, y]" "b = ck \<longrightarrow> a = wk \<and> (\<exists>m. y = PInt m \<and> n + 1 \<le> m)" using pair(5) [OF Inr] by blast
    obtain r2 d2 where rest: "in_memory_cache_sliding_window E now keys (int_time now) w d1 = (r2, d2)" by fastforce
    have res: "d' = d2" "r = map_sum id (\<lambda>ws. v @ ws) r2" using "1.prems"(7) step Inr rest by (auto split: sum.splits)
    note IH = "1.IH" [of d1 ?n r2 d2, OF pair(2,3) _ _ _ pair(4) rest]
    have IH': "d2 = d1\<lparr>in_memory_cache := in_memory_cache d2\<rparr>" "imc_room K (in_memory_cache d2)"
      "takes_counts (usage_rt E) (in_memory_cache d2)" "mem.counted t0 w wk ck ?n (in_memory_cache d2)"
      "\<And>ws. r2 = Inr ws \<Longrightarrow> answered wk ck ?n keys ws"
      "\<And>ws. r2 = Inr ws \<Longrightarrow> (wk, ck) \<in> set (pairs keys) \<Longrightarrow> mem.counted t0 w wk ck (?n + 1) (in_memory_cache d2)"
      using IH "1.prems"(3-5) by auto
    have up: "mem.counted t0 w wk ck (n + 1) (in_memory_cache d2)" if "r2 = Inr ws" "(wk, ck) \<in> set (pairs (a # b # keys))" for ws
      using that IH'(4) IH'(6) [OF that(1)] by (cases "b = ck") auto
    have frame: "d2 = d\<lparr>in_memory_cache := in_memory_cache d2\<rparr>" using IH'(1) pair(1) by (metis dual.update_convs(1) dual.surjective)
    show ?thesis
      using frame IH'(2,3) weak [OF IH'(4)] up answered_Cons [OF IH'(5) v(2)] res v(1)
      by (cases r2) auto
  qed
qed (use assms in \<open>auto simp: answered_def\<close>)

subsection \<open>The same counts in memory and in Redis\<close>

text \<open>
  What Redis documents of its commands, for keys that hold integers: \<open>vals\<close> are the values of the live keys
  while the script runs.
\<close>

definition redis_counters :: "'r redis_cmds \<Rightarrow> ('r \<Rightarrow> string \<rightharpoonup> int) \<Rightarrow> bool" where
  "redis_counters C vals \<longleftrightarrow>
     (\<forall>k r. cmd_get C k r = (Inr (map_option str_of_int (vals r k)), r)) \<and>
     (\<forall>k i r. \<exists>r'. cmd_set C k (str_of_int i) r = (Inr (), r') \<and> vals r' = (vals r)(k \<mapsto> i)) \<and>
     (\<forall>k s r. s > 0 \<longrightarrow> (\<exists>r'. cmd_expire C k s r = (Inr (), r') \<and> vals r' = vals r)) \<and>
     (\<forall>k r. \<exists>r'. let n = (case vals r k of None \<Rightarrow> 0 | Some n \<Rightarrow> n) in
        cmd_incr C k r = (Inr (n + 1), r') \<and> vals r' = (vals r)(k \<mapsto> n + 1)) \<and>
     (\<forall>k r. \<exists>t r'. cmd_ttl C k r = (Inr t, r') \<and> vals r' = vals r)"

lemma script_pair_refines:
  assumes C: "redis_counters C vals" and w: "0 < w"
    and spec: "window_spec now_int w wk ck (vals r) = ((i, n), f')"
  shows "\<exists>a r'. script_pair C now_int w wk ck r = (Inr [a, PInt n], r') \<and> py_int a = Inr i \<and> vals r' = f'"
proof -
  have get: "cmd_get C k r = (Inr (map_option str_of_int (vals r k)), r)" for k r
    using C by (simp add: redis_counters_def)
  have set: "\<exists>r'. cmd_set C k (str_of_int i) r = (Inr (), r') \<and> vals r' = (vals r)(k \<mapsto> i)" for k i r
    using C by (simp add: redis_counters_def)
  have expire: "\<exists>r'. cmd_expire C k w r = (Inr (), r') \<and> vals r' = vals r" for k r
    using C w by (simp add: redis_counters_def)
  have incr: "\<exists>r'. cmd_incr C k r = (Inr ((case vals r k of None \<Rightarrow> 0 | Some n \<Rightarrow> n) + 1), r') \<and>
      vals r' = (vals r)(k \<mapsto> (case vals r k of None \<Rightarrow> 0 | Some n \<Rightarrow> n) + 1)" for k r
    using C by (simp add: redis_counters_def Let_def)
  have ttl: "\<exists>t r'. cmd_ttl C k r = (Inr t, r') \<and> vals r' = vals r" for k r
    using C by (simp add: redis_counters_def)
  show ?thesis
  proof (cases "\<exists>j. vals r wk = Some j \<and> now_int - j < w")
    case True
    then obtain j where j: "vals r wk = Some j" "now_int - j < w" by blast
    let ?n = "(case vals r ck of None \<Rightarrow> 0 | Some n \<Rightarrow> n) + 1"
    obtain r1 where r1: "cmd_incr C ck r = (Inr ?n, r1)" "vals r1 = (vals r)(ck \<mapsto> ?n)" using incr by blast
    obtain t r2 where r2: "cmd_ttl C ck r1 = (Inr t, r2)" "vals r2 = vals r1" using ttl by blast
    obtain r3 where r3: "(if t = - 1 then cmd_expire C ck w else reply ()) r2 = (Inr (), r3)" "vals r3 = vals r2"
      using expire [of ck r2] by (cases "t = - 1") (auto simp: reply_def)
    have "script_pair C now_int w wk ck r = (Inr [PStr (str_of_int j), PInt ?n], r3)"
      using j get [of wk r] r1(1) r2(1) r3(1) by (simp add: script_pair_def seq_def reply_def int_of_str_str)
    then show ?thesis
      using j r1 r2 r3 spec by (auto simp: window_spec_def Let_def)
  next
    case False
    have reset: "(case map_option str_of_int (vals r wk) of None \<Rightarrow> Some True
        | Some s \<Rightarrow> map_option (\<lambda>i. now_int - i \<ge> w) (int_of_str s)) = Some True"
      using False by (auto simp: int_of_str_str split: option.splits)
    obtain r1 where r1: "cmd_set C wk (str_of_int now_int) r = (Inr (), r1)" "vals r1 = (vals r)(wk \<mapsto> now_int)"
      using set by blast
    obtain r2 where r2: "cmd_set C ck (str_of_int 1) r1 = (Inr (), r2)" "vals r2 = (vals r1)(ck \<mapsto> 1)" using set by blast
    obtain r3 where r3: "cmd_expire C wk w r2 = (Inr (), r3)" "vals r3 = vals r2" using expire by blast
    obtain r4 where r4: "cmd_expire C ck w r3 = (Inr (), r4)" "vals r4 = vals r3" using expire by blast
    have "script_pair C now_int w wk ck r = (Inr [PStr (str_of_int now_int), PInt 1], r4)"
      using get [of wk r] reset r1(1) r2(1) r3(1) r4(1) by (simp add: script_pair_def seq_def reply_def)
    then show ?thesis
      using False r1 r2 r3 r4 spec by (auto simp: window_spec_def Let_def split: option.splits if_splits)
  qed
qed

lemma script_refines:
  assumes "redis_counters C vals" "0 < w" "even (length keys)" "windows_spec now_int w keys (vals r) = (ns, f')"
  shows "\<exists>vs r'. BATCH_RATE_LIMITER_SCRIPT C keys now_int w r = (Inr vs, r') \<and> map py_int vs = map Inr ns \<and> vals r' = f'"
  using assms(3,4)
proof (induction keys arbitrary: r ns f' rule: pairs.induct)
  case (1 a b keys)
  obtain i n f1 where s1: "window_spec now_int w a b (vals r) = ((i, n), f1)" by (metis surj_pair)
  obtain v r1 where v: "script_pair C now_int w a b r = (Inr [v, PInt n], r1)" "py_int v = Inr i" "vals r1 = f1"
    using script_pair_refines [OF assms(1,2) s1] by blast
  obtain ns1 f2 where s2: "windows_spec now_int w keys (vals r1) = (ns1, f2)" by fastforce
  obtain vs r2 where vs: "BATCH_RATE_LIMITER_SCRIPT C keys now_int w r1 = (Inr vs, r2)" "map py_int vs = map Inr ns1" "vals r2 = f2"
    using "1.IH" [OF _ s2] "1.prems"(1) by auto
  have "ns = i # n # ns1" "f' = f2" using "1.prems"(2) s1 s2 v(3) by auto
  then show ?case using v vs by (simp add: seq_def reply_def)
qed (auto simp: reply_def)

lemma memory_refines:
  assumes "imc_room K (in_memory_cache d)" "takes_counts (usage_rt E) (in_memory_cache d)" "set keys \<subseteq> K" "even (length keys)"
    "0 \<le> w" "0 \<le> now_int" "mem.shows_numbers K now f (in_memory_cache d)" "windows_spec now_int w keys f = (ns, f')"
  shows "\<exists>vs d'. in_memory_cache_sliding_window E now keys now_int w d = (Inr vs, d') \<and> map py_int vs = map Inr ns \<and>
     mem.shows_numbers K now f' (in_memory_cache d')"
  using assms(1-4,7,8)
proof (induction keys arbitrary: d f ns f' rule: pairs.induct)
  case (1 a b keys)
  obtain i n f1 where s1: "window_spec now_int w a b f = ((i, n), f1)" by (metis surj_pair)
  obtain ns1 f2 where s2: "windows_spec now_int w keys f1 = (ns1, f2)" by fastforce
  let ?T = "mem.tick (usage_rt E) now now_int w a b (in_memory_cache d)"
  have K: "a \<in> K" "b \<in> K" "set keys \<subseteq> K" using "1.prems"(3) by auto
  obtain v where v: "fst ?T = Inr [v, PInt n]" "py_int v = Inr i" "mem.shows_numbers K now f1 (snd ?T)"
    using mem.tick_refines [OF "1.prems"(1,2) K(1,2) assms(5,6) "1.prems"(5) s1] by blast
  define d1 where "d1 = d\<lparr>in_memory_cache := snd ?T\<rparr>"
  have step: "window_pair E now now_int w a b d = (Inr [v, PInt n], d1)"
    using v(1) by (simp add: window_pair_tick with_mem_def d1_def)
  have "imc_room K (in_memory_cache d1)" "takes_counts (usage_rt E) (in_memory_cache d1)"
    using mem.tick_room [OF "1.prems"(1) K(1,2) assms(5)] mem.tick_fits [OF "1.prems"(1,2) K(1,2) assms(5)]
    by (auto simp: d1_def)
  then obtain vs d2 where vs: "in_memory_cache_sliding_window E now keys now_int w d1 = (Inr vs, d2)"
      "map py_int vs = map Inr ns1" "mem.shows_numbers K now f2 (in_memory_cache d2)"
    using "1.IH" [of d1 f1 ns1 f2] K(3) "1.prems"(4) v(3) s2 by (auto simp: d1_def)
  have "ns = i # n # ns1" "f' = f2" using "1.prems"(6) s1 s2 by auto
  then show ?case using step vs v(2) by simp
qed auto

text \<open>The numbers that reads at a time see in the memory level.\<close>

definition memory_shows :: "string set \<Rightarrow> time \<Rightarrow> (string \<rightharpoonup> int) \<Rightarrow> 'r dual \<Rightarrow> bool" where
  "memory_shows K now f d \<longleftrightarrow> (\<forall>k \<in> K. dual_peek now k d = number (f k))"

lemma memory_shows_eq: "memory_shows K now f d \<longleftrightarrow> mem.shows_numbers K now f (in_memory_cache d)"
  by (simp add: memory_shows_def mem.shows_numbers_def dual_peek_def)

text \<open>
  Property C9. Counting in memory follows the Lua script. On a server whose commands behave as documented
  and a memory level that shows the same numbers, a batch of keys is answered with the same window starts
  and counters, and the two show the same numbers afterwards.
\<close>

theorem memory_counts_as_script:
  assumes "redis_counters C vals" "memory_shows K now (vals r) d"
    "imc_room K (in_memory_cache d)" "takes_counts (usage_rt E) (in_memory_cache d)"
    "set keys \<subseteq> K" "even (length keys)" "0 < w" "0 \<le> now_int"
  shows "\<exists>vs ws r' d'. BATCH_RATE_LIMITER_SCRIPT C keys now_int w r = (Inr vs, r') \<and>
     in_memory_cache_sliding_window E now keys now_int w d = (Inr ws, d') \<and>
     length ws = length keys \<and> map py_int ws = map py_int vs \<and> memory_shows K now (vals r') d'"
proof -
  obtain ns f' where spec: "windows_spec now_int w keys (vals r) = (ns, f')" by fastforce
  have len: "length ns = length keys" if "windows_spec now_int w keys f = (ns, f')" "even (length keys)" for keys f ns f'
    using that by (induction keys arbitrary: f ns f' rule: pairs.induct) (auto split: prod.splits)
  obtain vs r' where vs: "BATCH_RATE_LIMITER_SCRIPT C keys now_int w r = (Inr vs, r')" "map py_int vs = map Inr ns" "vals r' = f'"
    using script_refines [OF assms(1,7,6) spec] by blast
  obtain ws d' where ws: "in_memory_cache_sliding_window E now keys now_int w d = (Inr ws, d')" "map py_int ws = map Inr ns"
      "mem.shows_numbers K now f' (in_memory_cache d')"
    using memory_refines [OF assms(3-6) _ assms(8) assms(2) [unfolded memory_shows_eq] spec] assms(7) by auto
  have "length ws = length keys" using len [OF spec assms(6)] arg_cong [OF ws(2), of length] by simp
  then show ?thesis using vs ws by (simp add: memory_shows_eq)
qed

subsection \<open>Verdict\<close>

lemma over_limit_loop_ok:
  "over_limit_loop md ks vs overall sts = Inr resp \<Longrightarrow> overall_code resp = CodeOK \<Longrightarrow>
   overall = CodeOK \<and>
   (\<forall>wk ck s m l n ty. ((wk, ck), (s, PInt m)) \<in> set (zip (pairs ks) (pairs vs)) \<longrightarrow> map_of md wk = Some l \<longrightarrow>
      limit_for ck l = Some (n, ty) \<longrightarrow> m \<le> n)"
proof (induction md ks vs overall sts arbitrary: resp rule: over_limit_loop.induct)
  case (2 md wk ck ks u v vs overall sts)
  obtain l where l: "map_of md wk = Some l" using "2.prems"(1) by (auto split: option.splits)
  show ?case
  proof (cases "limit_for ck l")
    case None
    then show ?thesis using "2.IH"(1) [OF l None] "2.prems" l by auto
  next
    case (Some nt)
    obtain n ty where nt: "nt = (n, ty)" by (cases nt)
    obtain c where c: "(if v = PNone then Inr None else map_sum id Some (py_int v)) = Inr c"
      using "2.prems"(1) l Some nt by (auto split: sum.splits)
    define over where "over = (case c of None \<Rightarrow> False | Some m \<Rightarrow> m > n)"
    have ih: "(if over then CodeOverLimit else overall) = CodeOK \<and>
       (\<forall>wk ck s m l n ty. ((wk, ck), (s, PInt m)) \<in> set (zip (pairs ks) (pairs vs)) \<longrightarrow> map_of md wk = Some l \<longrightarrow>
          limit_for ck l = Some (n, ty) \<longrightarrow> m \<le> n)"
      using "2.IH"(2) [OF l Some nt [symmetric] c over_def] "2.prems" l Some nt c by (simp add: Let_def over_def)
    then have "\<not> over" "overall = CodeOK" by (auto split: if_splits)
    moreover have "m \<le> n" if "v = PInt m" for m using that c \<open>\<not> over\<close> by (auto simp: over_def)
    ultimately show ?thesis using ih l Some nt by auto
  qed
qed (auto simp: zip_eq_Nil_iff)

lemma verdict_within:
  assumes "is_cache_list_over_limit ks vs md = Inr resp" "overall_code resp \<noteq> CodeOverLimit"
    "((wk, ck), (s, PInt m)) \<in> set (zip (pairs ks) (pairs vs))" "map_of md wk = Some l" "limit_for ck l = Some (n, ty)"
  shows "m \<le> n"
proof -
  have "overall_code resp = CodeOK" using assms(2) by (cases "overall_code resp") auto
  then show ?thesis
    using over_limit_loop_ok [OF assms(1) [unfolded is_cache_list_over_limit_def]] assms(3-5) by simp
qed

text \<open>The overall code tells whether a status is over its limit, and a status whether nothing remains.\<close>

lemma over_limit_loop_code:
  "over_limit_loop md ks vs overall sts = Inr resp \<Longrightarrow>
   \<exists>ys. statuses resp = sts @ ys \<and> (\<forall>st \<in> set ys. status_code st = CodeOverLimit \<longrightarrow> limit_remaining st < 0) \<and>
     (overall_code resp = CodeOverLimit \<longleftrightarrow> overall = CodeOverLimit \<or> (\<exists>st \<in> set ys. status_code st = CodeOverLimit))"
proof (induction md ks vs overall sts arbitrary: resp rule: over_limit_loop.induct)
  case (2 md wk ck ks u v vs overall sts)
  obtain l where l: "map_of md wk = Some l" using "2.prems"(1) by (auto split: option.splits)
  show ?case
  proof (cases "limit_for ck l")
    case None
    then show ?thesis using "2.IH"(1) [OF l None] "2.prems" l by auto
  next
    case (Some nt)
    obtain n ty where nt: "nt = (n, ty)" by (cases nt)
    obtain c where c: "(if v = PNone then Inr None else map_sum id Some (py_int v)) = Inr c"
      using "2.prems"(1) l Some nt by (auto split: sum.splits)
    define over where "over = (case c of None \<Rightarrow> False | Some m \<Rightarrow> m > n)"
    define st where "st = \<lparr>status_code = (if over then CodeOverLimit else CodeOK), current_limit = n,
        limit_remaining = (case c of None \<Rightarrow> n | Some m \<Rightarrow> n - m), rate_limit_type = ty,
        status_descriptor_key = meta_descriptor_key l\<rparr>"
    have "over_limit_loop md ks vs (if over then CodeOverLimit else overall) (sts @ [st]) = Inr resp"
      using "2.prems"(1) l Some nt c by (simp add: Let_def over_def st_def)
    then obtain ys where ys: "statuses resp = (sts @ [st]) @ ys"
      "\<forall>st \<in> set ys. status_code st = CodeOverLimit \<longrightarrow> limit_remaining st < 0"
      "overall_code resp = CodeOverLimit \<longleftrightarrow>
         (if over then CodeOverLimit else overall) = CodeOverLimit \<or> (\<exists>st \<in> set ys. status_code st = CodeOverLimit)"
      using "2.IH"(2) [OF l Some nt [symmetric] c over_def, of resp] st_def by auto
    have "status_code st = CodeOverLimit \<longrightarrow> limit_remaining st < 0"
      by (auto simp: st_def over_def split: option.splits)
    then show ?thesis using ys by (intro exI [of _ "st # ys"]) (auto simp: st_def)
  qed
qed auto

subsection \<open>Keys\<close>

text \<open>A descriptor whose key has no colon is recovered from the key of its window.\<close>

lemma window_key_inj:
  assumes "CHR '':'' \<notin> set k" "CHR '':'' \<notin> set k'" "window_key k v = window_key k' v'"
  shows "k = k' \<and> v = v'"
proof -
  have "k @ CHR '':'' # (v @ ''}:window'') = k' @ CHR '':'' # (v' @ ''}:window'')"
    using assms(3) by (simp add: window_key_def)
  then show ?thesis using append_sep_eq [OF assms(1,2)] by blast
qed

lemma counter_key_last: "last (create_rate_limit_keys k v (type_name ty)) = CHR ''s''"
  by (cases ty) (simp_all add: create_rate_limit_keys_def)

lemma window_not_counter: "window_key k v \<noteq> create_rate_limit_keys k' v' (type_name ty)"
proof
  assume "window_key k v = create_rate_limit_keys k' v' (type_name ty)"
  then have "last (window_key k v) = CHR ''s''" using counter_key_last by metis
  then show False by (simp add: window_key_def)
qed

lemma limit_for_key:
  "limit_for (create_rate_limit_keys k v (type_name ty)) m =
     (case ty of LimitRequests \<Rightarrow> map_option (\<lambda>n. (n, ty)) (requests_limit m)
      | LimitTokens \<Rightarrow> map_option (\<lambda>n. (n, ty)) (tokens_limit m)
      | LimitParallel \<Rightarrow> map_option (\<lambda>n. (n, ty)) (max_parallel_requests_limit m))"
  by (cases ty) (simp_all add: limit_for_def create_rate_limit_keys_def ends_with_def)

lemma counter_key_type:
  assumes "create_rate_limit_keys k v (type_name ty) = create_rate_limit_keys k' v' (type_name ty')"
  shows "ty = ty'"
proof -
  let ?m = "\<lparr>requests_limit = Some 1, tokens_limit = Some 2, max_parallel_requests_limit = Some 3,
    meta_window_size = 0, meta_descriptor_key = []\<rparr> :: key_limits"
  have "limit_for (create_rate_limit_keys k v (type_name ty)) ?m = limit_for (create_rate_limit_keys k' v' (type_name ty')) ?m"
    using assms by simp
  then show ?thesis unfolding limit_for_key by (cases ty; cases ty') simp_all
qed

lemma counter_key_inj:
  assumes "CHR '':'' \<notin> set k" "CHR '':'' \<notin> set k'"
    "create_rate_limit_keys k v (type_name ty) = create_rate_limit_keys k' v' (type_name ty')"
  shows "k = k' \<and> v = v' \<and> ty = ty'"
proof -
  have ty: "ty = ty'" by (rule counter_key_type [OF assms(3)])
  then have "k @ CHR '':'' # (v @ ''}:'' @ type_name ty) = k' @ CHR '':'' # (v' @ ''}:'' @ type_name ty)"
    using assms(3) by (simp add: create_rate_limit_keys_def)
  then show ?thesis using append_sep_eq [OF assms(1,2)] ty by blast
qed

text \<open>The pairs of a descriptor.\<close>

definition type_limit :: "limit_type \<Rightarrow> rate_limit_object \<Rightarrow> pyval" where
  "type_limit ty l =
     (case ty of LimitRequests \<Rightarrow> requests_per_unit l | LimitTokens \<Rightarrow> tokens_per_unit l
      | LimitParallel \<Rightarrow> max_parallel_requests l)"

lemma descriptor_pairs:
  "even (length (descriptor_keys x)) \<and>
   set (pairs (descriptor_keys x)) =
     {(window_key (descriptor_key x) (descriptor_value x),
       create_rate_limit_keys (descriptor_key x) (descriptor_value x) (type_name ty)) | ty.
      type_limit ty (limits_of x) \<noteq> PNone}"
proof -
  have "(\<exists>ty. P ty) \<longleftrightarrow> P LimitRequests \<or> P LimitTokens \<or> P LimitParallel" for P
    by (metis limit_type.exhaust)
  then show ?thesis
    by (auto simp: descriptor_keys_def Let_def type_limit_def)
qed

lemma descriptor_pair_apart:
  assumes "CHR '':'' \<notin> set (descriptor_key x)" "CHR '':'' \<notin> set k" "p \<in> set (pairs (descriptor_keys x))"
  shows "apart (window_key k v) (create_rate_limit_keys k v (type_name ty)) p"
proof -
  obtain ty' where p: "p = (window_key (descriptor_key x) (descriptor_value x),
      create_rate_limit_keys (descriptor_key x) (descriptor_value x) (type_name ty'))"
    using assms(3) descriptor_pairs [of x] by auto
  show ?thesis
    using window_not_counter counter_key_inj [OF assms(1,2)] unfolding apart_def p by (metis fst_conv snd_conv)
qed

lemma collect_keys_eq:
  "collect_keys w xs keys md = Inr (ks, md') \<Longrightarrow> ks = keys @ concat (map descriptor_keys xs)"
  by (induction w xs keys md rule: collect_keys.induct) (auto split: if_splits sum.splits)

text \<open>The limit of a window is that of its descriptors.\<close>

lemma collect_keys_limit:
  assumes "collect_keys w xs keys md = Inr (ks, md')"
    "\<forall>y \<in> set xs. window_key (descriptor_key y) (descriptor_value y) = wk \<longrightarrow> requests_per_unit (limits_of y) = PInt L"
    "(\<exists>m. map_of md wk = Some m \<and> requests_limit m = Some L) \<or>
     (\<exists>y \<in> set xs. window_key (descriptor_key y) (descriptor_value y) = wk)"
  shows "\<exists>m. map_of md' wk = Some m \<and> requests_limit m = Some L"
  using assms
proof (induction w xs keys md rule: collect_keys.induct)
  case (2 w x xs keys md)
  let ?k = "window_key (descriptor_key x) (descriptor_value x)"
  show ?case
  proof (cases "descriptor_keys x = []")
    case True
    then have "requests_per_unit (limits_of x) = PNone" by (auto simp: descriptor_keys_def Let_def split: if_splits)
    then have "?k \<noteq> wk" using "2.prems"(2) by auto
    then show ?thesis using "2.IH"(1) [OF True] "2.prems" True by auto
  next
    case False
    obtain m where m: "descriptor_limits w x = Inr m" using "2.prems"(1) False by (auto split: sum.splits)
    have "requests_limit m = Some L" if "?k = wk"
      using that m "2.prems"(2) by (auto simp: descriptor_limits_def Let_def int_limit_def split: sum.splits)
    then show ?thesis using "2.IH"(2) [OF False m] "2.prems" False m by (cases "?k = wk") auto
  qed
qed auto

subsection \<open>Requests in a window\<close>

lemma batch_get_state: "snd (imc_batch_get_cache now ks c) = fold (imc_after_get now) ks c"
proof (induction ks arbitrary: c)
  case (Cons k ks)
  then show ?case by (simp add: imc_after_get_def case_prod_beta)
qed simp

lemma local_batch_get_eq:
  "dual_batch_get_cache ops rt now now' ks True ttl d =
     (Some (fst (imc_batch_get_cache now ks (in_memory_cache d))),
      d\<lparr>in_memory_cache := fold (imc_after_get now) ks (in_memory_cache d)\<rparr>)"
  by (simp add: dual_batch_get_cache_def with_mem_def batch_get_state split: option.split)

lemma fold_get_counted:
  assumes "in_span t0 w now"
  shows "imc_room K c \<Longrightarrow> takes_counts rt c \<Longrightarrow> mem.counted t0 w wk ck n c \<Longrightarrow>
    imc_room K (fold (imc_after_get now) ks c) \<and> takes_counts rt (fold (imc_after_get now) ks c) \<and>
    mem.counted t0 w wk ck n (fold (imc_after_get now) ks c)"
proof (induction ks arbitrary: c)
  case (Cons k ks)
  then show ?case
    using mem.get_room [of K c now k] mem.get_fits [of K c rt now k] mem.counted_get [OF _ assms, of K c wk ck n k] by simp
qed simp

text \<open>The state of the limiter in memory, with what it has counted of one descriptor.\<close>

definition window_state :: "'r limiter_env \<Rightarrow> string set \<Rightarrow> time \<Rightarrow> string \<Rightarrow> string \<Rightarrow> int \<Rightarrow> 'r dual \<Rightarrow> bool" where
  "window_state E K t0 k v n d \<longleftrightarrow>
     redis_cache d = None \<and> imc_room K (in_memory_cache d) \<and> takes_counts (usage_rt E) (in_memory_cache d) \<and>
     mem.counted t0 (limiter_window E) (window_key k v) (create_rate_limit_keys k v ''requests'') n (in_memory_cache d)"

text \<open>The descriptors of a request limit the requests of \<open>k\<close> and \<open>v\<close> to \<open>L\<close>.\<close>

definition limits_requests :: "string set \<Rightarrow> string \<Rightarrow> string \<Rightarrow> int \<Rightarrow> rate_limit_descriptor list \<Rightarrow> bool" where
  "limits_requests K k v L ds \<longleftrightarrow>
     (\<forall>x \<in> set ds. CHR '':'' \<notin> set (descriptor_key x) \<and> set (descriptor_keys x) \<subseteq> K \<and>
        (descriptor_key x = k \<and> descriptor_value x = v \<longrightarrow> requests_per_unit (limits_of x) = PInt L)) \<and>
     (\<exists>x \<in> set ds. descriptor_key x = k \<and> descriptor_value x = v)"

lemma limits_requests_keys:
  assumes "limits_requests K k v L ds"
  shows "set (concat (map descriptor_keys ds)) \<subseteq> K" "even (length (concat (map descriptor_keys ds)))"
    "\<forall>p \<in> set (pairs (concat (map descriptor_keys ds))). apart (window_key k v) (create_rate_limit_keys k v ''requests'') p"
    "(window_key k v, create_rate_limit_keys k v ''requests'') \<in> set (pairs (concat (map descriptor_keys ds)))"
    "CHR '':'' \<notin> set k"
proof -
  let ?ks = "concat (map descriptor_keys ds)"
  obtain x where x: "x \<in> set ds" "descriptor_key x = k" "descriptor_value x = v" "requests_per_unit (limits_of x) = PInt L"
    using assms by (auto simp: limits_requests_def)
  show k: "CHR '':'' \<notin> set k" using assms x by (auto simp: limits_requests_def)
  show "set ?ks \<subseteq> K" using assms by (auto simp: limits_requests_def)
  have ev: "even (length ?ks) \<and> pairs ?ks = concat (map (pairs \<circ> descriptor_keys) ds)"
    by (rule pairs_concat) (simp add: descriptor_pairs)
  then show "even (length ?ks)" ..
  show "\<forall>p \<in> set (pairs ?ks). apart (window_key k v) (create_rate_limit_keys k v ''requests'') p"
    using ev assms descriptor_pair_apart [OF _ k, of _ _ v LimitRequests] by (fastforce simp: limits_requests_def)
  have "(window_key k v, create_rate_limit_keys k v ''requests'') \<in> set (pairs (descriptor_keys x))"
    using descriptor_pairs [of x] x by (auto simp: type_limit_def intro!: exI [of _ LimitRequests])
  then show "(window_key k v, create_rate_limit_keys k v ''requests'') \<in> set (pairs ?ks)" using ev x(1) by auto
qed

text \<open>A check in memory: the values that are there are judged first, then those after counting.\<close>

lemma should_rate_limit_in_memory:
  assumes "redis_cache d = None" "collect_keys (limiter_window E) ds [] [] = Inr (keys, md)"
    "d1 = d\<lparr>in_memory_cache := fold (imc_after_get now) keys (in_memory_cache d)\<rparr>"
    "in_memory_cache_sliding_window E now keys (int_time now) (limiter_window E) d1 = (r2, d2)"
    "should_rate_limit E now False ds d = (r, d')"
  shows "(\<exists>e. (r, d') = (Inl e, d1)) \<or> (\<exists>resp. (r, d') = (Inr resp, d1) \<and> overall_code resp = CodeOverLimit) \<or>
     (\<exists>e. r2 = Inl e \<and> (r, d') = (Inl e, d2)) \<or> (\<exists>vs. r2 = Inr vs \<and> (r, d') = (is_cache_list_over_limit keys vs md, d2))"
proof -
  have "redis_cache d1 = None" using assms(1,3) by simp
  then have "should_rate_limit E now False ds d =
     (case map_sum id Some (is_cache_list_over_limit keys (fst (imc_batch_get_cache now keys (in_memory_cache d))) md) of
        Inl e \<Rightarrow> (Inl e, d1)
      | Inr first \<Rightarrow>
        if (case first of None \<Rightarrow> False | Some r \<Rightarrow> overall_code r = CodeOverLimit) then (Inr (the first), d1)
        else (case r2 of Inl e \<Rightarrow> (Inl e, d2) | Inr vs \<Rightarrow> (is_cache_list_over_limit keys vs md, d2)))"
    by (simp add: should_rate_limit_def assms(2,4) local_batch_get_eq assms(3) [symmetric] fetch_values_def Let_def
        split: sum.split option.split)
  then show ?thesis
    using assms(5)
    by (cases "is_cache_list_over_limit keys (fst (imc_batch_get_cache now keys (in_memory_cache d))) md"; cases r2)
      (auto split: if_splits)
qed

lemma request_limit_of:
  assumes "limits_requests K k v L ds" "collect_keys w ds [] [] = Inr (keys, md)"
  shows "\<exists>m. map_of md (window_key k v) = Some m \<and> limit_for (create_rate_limit_keys k v ''requests'') m = Some (L, LimitRequests)"
proof -
  have "window_key (descriptor_key y) (descriptor_value y) = window_key k v \<longrightarrow> requests_per_unit (limits_of y) = PInt L"
    if "y \<in> set ds" for y
    using that assms(1) window_key_inj [OF _ limits_requests_keys(5) [OF assms(1)], of "descriptor_key y"]
    by (auto simp: limits_requests_def)
  then have "\<exists>m. map_of md (window_key k v) = Some m \<and> requests_limit m = Some L"
    using collect_keys_limit [OF assms(2), of "window_key k v" L] assms(1) by (auto simp: limits_requests_def)
  then show ?thesis using limit_for_key [of k v LimitRequests] by auto
qed

text \<open>One check: an admitted request is counted, and the count is within the limit.\<close>

lemma should_rate_limit_counted:
  assumes st: "window_state E K t0 k v n d" and lim: "limits_requests K k v L ds"
    and span: "in_span t0 (limiter_window E) now" and call: "should_rate_limit E now False ds d = (r, d')"
  shows "window_state E K t0 k v n d'"
    "r = Inr resp \<Longrightarrow> overall_code resp \<noteq> CodeOverLimit \<Longrightarrow> window_state E K t0 k v (n + 1) d' \<and> n + 1 \<le> L"
proof -
  let ?wk = "window_key k v" let ?ck = "create_rate_limit_keys k v ''requests''" let ?w = "limiter_window E"
  let ?keys = "concat (map descriptor_keys ds)"
  note K = limits_requests_keys [OF lim]
  have wK: "?wk \<in> K" "?ck \<in> K" "?wk \<noteq> ?ck"
    using pairs_elems [OF K(4)] K(1) window_not_counter [of k v k v LimitRequests] by auto
  define d1 where "d1 = d\<lparr>in_memory_cache := fold (imc_after_get now) ?keys (in_memory_cache d)\<rparr>"
  have st1: "window_state E K t0 k v n d1"
    using st fold_get_counted [OF span, of K "in_memory_cache d" "usage_rt E" ?wk ?ck n ?keys]
    by (simp add: window_state_def d1_def)
  then have w1: "redis_cache d = None" "imc_room K (in_memory_cache d1)" "takes_counts (usage_rt E) (in_memory_cache d1)"
    "mem.counted t0 ?w ?wk ?ck n (in_memory_cache d1)" using st by (auto simp: window_state_def)
  obtain r2 d2 where sl: "in_memory_cache_sliding_window E now ?keys (int_time now) ?w d1 = (r2, d2)" by fastforce
  note count = sliding_window_counted [OF w1(2,3) K(1) wK K(2,3) span w1(4) sl]
  have "redis_cache d2 = redis_cache d1" using count by (metis dual.select_convs(2) dual.surjective dual.update_convs(1))
  then have red: "redis_cache d2 = None" using w1(1) by (simp add: d1_def)
  have kept: "window_state E K t0 k v p d2" if "mem.counted t0 ?w ?wk ?ck p (in_memory_cache d2)" for p
    using that red count by (simp add: window_state_def)
  have ends: "d' = d \<and> (\<exists>e. r = Inl e) \<or> d' = d1 \<and> ((\<exists>e. r = Inl e) \<or> (\<exists>x. r = Inr x \<and> overall_code x = CodeOverLimit)) \<or>
      d' = d2 \<and> ((\<exists>e. r = Inl e) \<or> (\<exists>vs md. r2 = Inr vs \<and> collect_keys ?w ds [] [] = Inr (?keys, md) \<and> r = is_cache_list_over_limit ?keys vs md))"
  proof (cases "collect_keys ?w ds [] []")
    case (Inl e)
    then show ?thesis using call by (auto simp: should_rate_limit_def)
  next
    case (Inr km)
    then obtain md where md: "collect_keys ?w ds [] [] = Inr (?keys, md)" using collect_keys_eq [of ?w ds "[]" "[]"] by (cases km) auto
    show ?thesis using should_rate_limit_in_memory [OF w1(1) md d1_def sl call] md by auto
  qed
  then show "window_state E K t0 k v n d'" using st st1 kept count by blast
  assume ok: "r = Inr resp" "overall_code resp \<noteq> CodeOverLimit"
  then obtain vs md where vs: "r2 = Inr vs" "d' = d2" "collect_keys ?w ds [] [] = Inr (?keys, md)"
    "is_cache_list_over_limit ?keys vs md = Inr resp" using ends by auto
  obtain m where m: "map_of md ?wk = Some m" "limit_for ?ck m = Some (L, LimitRequests)" using request_limit_of [OF lim vs(3)] by blast
  obtain s i where i: "((?wk, ?ck), (s, PInt i)) \<in> set (zip (pairs ?keys) (pairs vs))" "n + 1 \<le> i"
    using count vs(1) K(4) by (auto simp: answered_def)
  show "window_state E K t0 k v (n + 1) d' \<and> n + 1 \<le> L"
    using verdict_within [OF vs(4) ok(2) i(1) m] i(2) count vs(1,2) K(4) kept by auto
qed

subsection \<open>Requests of an API key\<close>

text \<open>The code of a response and its statuses agree, so a refused request always raises the error 429.\<close>

lemma map_sum_Inr [simp]: "map_sum id f x = Inr y \<longleftrightarrow> (\<exists>z. x = Inr z \<and> y = f z)"
  by (cases x) auto

lemma should_rate_limit_code:
  assumes "should_rate_limit E now ro ds d = (Inr resp, d')"
  shows "overall_code resp = CodeOverLimit \<longleftrightarrow> (\<exists>st \<in> set (statuses resp). status_code st = CodeOverLimit)"
proof -
  have "\<exists>ks vs md. is_cache_list_over_limit ks vs md = Inr resp"
    using assms by (auto simp: should_rate_limit_def split: sum.splits prod.splits option.splits if_splits)
  then show ?thesis using over_limit_loop_code [of _ _ _ CodeOK "[]" resp] by (auto simp: is_cache_list_over_limit_def)
qed

lemma refused_raises:
  assumes "should_rate_limit E now ro ds d = (Inr resp, d')" "overall_code resp = CodeOverLimit"
  shows "handle_rate_limit_error E now resp xs \<noteq> None"
  using assms should_rate_limit_code [OF assms(1)] by (auto simp: handle_rate_limit_error_def find_None_iff)

lemma hook_counted:
  assumes st: "window_state E K t0 k v n d" and span: "in_span t0 (limiter_window E) now"
    and lim: "\<And>f ds. request_descriptors E a data f = Inr ds \<Longrightarrow> limits_requests K k v L ds"
    and call: "request_pre_call_hook E now a data (d, rr) = (r, (d', rr'))"
  shows "case r of Inl _ \<Rightarrow> window_state E K t0 k v n d' | Inr _ \<Rightarrow> window_state E K t0 k v (n + 1) d' \<and> n + 1 \<le> L"
proof -
  obtain f rr1 where f: "(if is_dynamic_rate_limiting_enabled (dict_get (auth_metadata a) ''rpm_limit_type'' PNone)
        (dict_get (auth_metadata a) ''tpm_limit_type'' PNone) \<and> nonempty (req_model data)
      then check_model_has_recent_failures E now (the (req_model data)) rr else (False, rr)) = (f, rr1)" by fastforce
  show ?thesis
  proof (cases "request_descriptors E a data f")
    case (Inl e)
    then show ?thesis using call st by (auto simp: request_pre_call_hook_def Let_def f)
  next
    case (Inr ds)
    note l = lim [OF Inr]
    then have ne: "ds \<noteq> []" by (auto simp: limits_requests_def)
    obtain r1 d1 where c: "should_rate_limit E now False ds d = (r1, d1)" by fastforce
    note count = should_rate_limit_counted [OF st l span c]
    have "handle_rate_limit_error E now resp ds \<noteq> None" if "r1 = Inr resp" "overall_code resp = CodeOverLimit" for resp
      using refused_raises [of E now False ds d resp] c that by simp
    then show ?thesis
      using call ne count c
      by (auto simp: request_pre_call_hook_def Let_def f Inr split: sum.splits if_splits option.splits)
  qed
qed

text \<open>The number of requests, each with the time it arrives, that the hook lets pass.\<close>

fun admitted :: "'r limiter_env \<Rightarrow> (time \<times> api_key_auth \<times> request_data) list \<Rightarrow> 'r dual \<times> 'r llm_router \<Rightarrow> nat" where
  "admitted E [] s = 0"
| "admitted E ((now, a, data) # qs) s =
     (case request_pre_call_hook E now a data s of
        (r, s') \<Rightarrow> (case r of Inl _ \<Rightarrow> 0 | Inr _ \<Rightarrow> 1) + admitted E qs s')"

lemma admitted_within:
  assumes "window_state E K t0 k v n (fst s)"
    "\<forall>(now, a, data) \<in> set qs. in_span t0 (limiter_window E) now \<and>
       (\<forall>f ds. request_descriptors E a data f = Inr ds \<longrightarrow> limits_requests K k v L ds)"
  shows "n + int (admitted E qs s) \<le> max n L"
  using assms
proof (induction qs arbitrary: n s)
  case (Cons q qs)
  obtain now a data where q: "q = (now, a, data)" by (cases q)
  obtain d rr where s: "s = (d, rr)" by (cases s)
  obtain r d' rr' where c: "request_pre_call_hook E now a data (d, rr) = (r, (d', rr'))"
    by (cases "request_pre_call_hook E now a data (d, rr)") auto
  have span: "in_span t0 (limiter_window E) now"
    and lim: "\<And>f ds. request_descriptors E a data f = Inr ds \<Longrightarrow> limits_requests K k v L ds"
    using Cons.prems(2) q by auto
  note h = hook_counted [OF _ span lim c, of n]
  show ?case
  proof (cases r)
    case (Inl e)
    then have "window_state E K t0 k v n d'" using h Cons.prems(1) s by simp
    then show ?thesis using Cons.IH [of n "(d', rr')"] Cons.prems(2) q s c Inl by simp
  next
    case (Inr x)
    then have "window_state E K t0 k v (n + 1) d'" "n + 1 \<le> L" using h Cons.prems(1) s by auto
    then show ?thesis using Cons.IH [of "n + 1" "(d', rr')"] Cons.prems(2) q s c Inr by simp
  qed
qed simp

text \<open>The scopes of the descriptors of a request.\<close>

definition SCOPES :: "string set" where
  "SCOPES = {''api_key'', ''user'', ''team'', ''team_member'', ''end_user'', ''model_per_key'', ''model_per_team'',
     ''agent'', ''agent_session'', ''organization'', ''model_per_organization''}"

lemma piece_scopes:
  "x \<in> set (entity_descriptor w key e u rpm tpm) \<Longrightarrow> descriptor_key x = key"
  "x \<in> set (model_descriptor w key e m rpms tpms) \<Longrightarrow> descriptor_key x = key"
  "x \<in> set (create_organization_rate_limit_descriptor w a m) \<Longrightarrow> descriptor_key x \<in> {''organization'', ''model_per_organization''}"
  "create_agent_rate_limit_descriptors ps ags w i data = Inr ds \<Longrightarrow> \<forall>x \<in> set ds. descriptor_key x \<in> {''agent'', ''agent_session''}"
  by (auto simp: entity_descriptor_def model_descriptor_def descriptor_def create_organization_rate_limit_descriptor_def
      create_agent_rate_limit_descriptors_def Let_def split: if_splits option.splits sum.splits)

lemma request_descriptors_scope:
  assumes "request_descriptors E a data f = Inr ds"
  shows "\<exists>rest. ds = api_key_descriptor (limiter_window E) a (dict_get (auth_metadata a) ''rpm_limit_type'' PNone)
      (dict_get (auth_metadata a) ''tpm_limit_type'' PNone) f @ rest \<and>
    (\<forall>x \<in> set rest. descriptor_key x \<in> SCOPES - {''api_key''})"
proof -
  let ?A = "api_key_descriptor (limiter_window E) a (dict_get (auth_metadata a) ''rpm_limit_type'' PNone)
      (dict_get (auth_metadata a) ''tpm_limit_type'' PNone) f"
  obtain ds1 where ds1: "create_rate_limit_descriptors (env_str E) (agent_list E) (limiter_window E) a data
      (dict_get (auth_metadata a) ''rpm_limit_type'' PNone) (dict_get (auth_metadata a) ''tpm_limit_type'' PNone) f = Inr ds1"
    and ds: "ds = ds1 @ model_descriptor (limiter_window E) ''model_per_team'' (auth_team_id a) (req_model data)
       (get_model_rate_limit_from_metadata (auth_team_metadata a) ''model_rpm_limit'')
       (get_model_rate_limit_from_metadata (auth_team_metadata a) ''model_tpm_limit'') @
      create_organization_rate_limit_descriptor (limiter_window E) a (req_model data)"
    using assms by (auto simp: request_descriptors_def add_team_model_rate_limit_descriptor_from_metadata_def)
  have "\<exists>rest. ds1 = ?A @ rest \<and> (\<forall>x \<in> set rest. descriptor_key x \<in> SCOPES - {''api_key''})"
    using ds1
    by (auto simp: create_rate_limit_descriptors_def add_model_per_key_rate_limit_descriptor_def Let_def SCOPES_def
        dest!: piece_scopes split: sum.splits if_splits)
  then show ?thesis using ds by (auto simp: SCOPES_def dest!: piece_scopes)
qed

definition no_live_entry :: "time \<Rightarrow> string \<Rightarrow> imc \<Rightarrow> bool" where
  "no_live_entry t0 k c \<longleftrightarrow> (case imc_entry c k of None \<Rightarrow> True | Some (_, t) \<Rightarrow> t < t0)"

text \<open>The keys of a request are among \<open>K\<close>.\<close>

definition keys_within :: "'r limiter_env \<Rightarrow> string set \<Rightarrow> api_key_auth \<Rightarrow> request_data \<Rightarrow> bool" where
  "keys_within E K a data \<longleftrightarrow>
     list_all (\<lambda>f. case request_descriptors E a data f of
        Inl _ \<Rightarrow> True | Inr ds \<Rightarrow> list_all (\<lambda>x. set (descriptor_keys x) \<subseteq> K) ds) [True, False]"

lemma api_key_limits:
  assumes "request_descriptors E a data f = Inr ds" "auth_api_key a = Some key" "key \<noteq> []" "auth_rpm_limit a = Some L"
    "dict_get (auth_metadata a) ''rpm_limit_type'' PNone \<noteq> PStr ''dynamic''" "keys_within E K a data"
  shows "limits_requests K ''api_key'' key L ds"
proof -
  obtain rest where ds: "ds = api_key_descriptor (limiter_window E) a (dict_get (auth_metadata a) ''rpm_limit_type'' PNone)
      (dict_get (auth_metadata a) ''tpm_limit_type'' PNone) f @ rest"
    and rest: "\<forall>x \<in> set rest. descriptor_key x \<in> SCOPES - {''api_key''}"
    using request_descriptors_scope [OF assms(1)] by blast
  have within: "set (descriptor_keys x) \<subseteq> K" if "x \<in> set ds" for x
    using assms(1,6) that by (cases f) (auto simp: keys_within_def list_all_iff split: sum.splits)
  have colon: "CHR '':'' \<notin> set k" if "k \<in> SCOPES" for k using that by (auto simp: SCOPES_def)
  obtain x where x: "api_key_descriptor (limiter_window E) a (dict_get (auth_metadata a) ''rpm_limit_type'' PNone)
      (dict_get (auth_metadata a) ''tpm_limit_type'' PNone) f = [x]"
    "descriptor_key x = ''api_key''" "descriptor_value x = key" "requests_per_unit (limits_of x) = PInt L"
    using assms(2-5)
    by (auto simp: api_key_descriptor_def nonempty_def opt_text_def limits_of_def get_enforced_limit_def
        should_enforce_rate_limit_def opt_int_def)
  have "CHR '':'' \<notin> set (descriptor_key y)" if "y \<in> set ds" for y
    using that ds x rest colon [of "descriptor_key y"] by auto
  then show ?thesis using within ds x rest by (auto simp: limits_requests_def)
qed


definition plain_auth :: "string \<Rightarrow> api_key_auth" where
  "plain_auth key =
     \<lparr>auth_api_key = Some key, auth_rpm_limit = None, auth_tpm_limit = None, auth_max_parallel_requests = None,
      auth_user_id = None, auth_user_rpm_limit = None, auth_user_tpm_limit = None,
      auth_team_id = None, auth_team_rpm_limit = None, auth_team_tpm_limit = None,
      auth_team_member_rpm_limit = None, auth_team_member_tpm_limit = None,
      auth_end_user_id = None, auth_end_user_rpm_limit = None, auth_end_user_tpm_limit = None,
      auth_org_id = None, auth_organization_rpm_limit = None, auth_organization_tpm_limit = None,
      auth_agent_id = None, auth_metadata = [], auth_team_metadata = None, auth_organization_metadata = None,
      auth_model_max_budget = []\<rparr>"

definition plain_request :: request_data where
  "plain_request = \<lparr>req_model = Some ''m'', req_rest = []\<rparr>"

definition plain_limiter :: "unit limiter_env" where
  "plain_limiter =
     \<lparr>usage_ops = no_redis, usage_rt = rt0, limiter_window = 60, batch_script = (\<lambda>ks i w r. (Inr [], r)),
      token_script = (\<lambda>is r. (Inr (), r)), redis_cluster = False, env_str = (\<lambda>v. []), agent_list = [],
      token_rate_limit_type = PStr ''total''\<rparr>"

definition empty_cache :: "unit dual" where
  "empty_cache = dual_init no_settings None None None None None 1000"

lemma empty_cache_simps:
  "in_memory_cache empty_cache = imc_init None None None" "redis_cache empty_cache = None"
  by (simp_all add: empty_cache_def dual_init_def)

lemma empty_cache_room: "finite K \<Longrightarrow> card K < 200 \<Longrightarrow> imc_room K (in_memory_cache empty_cache)"
  using imc_inv_init [of None None None] unfolding empty_cache_simps imc_room_def by (auto simp: imc_init_def)

lemma empty_cache_counts: "takes_counts (usage_rt plain_limiter) (in_memory_cache empty_cache)"
  by (simp add: takes_counts_def plain_limiter_def check_value_size_def empty_cache_simps imc_init_def Prelude.or_num_def
      MAX_SIZE_PER_ITEM_IN_MEMORY_CACHE_IN_KB_def)


text \<open>A server with the counters as its state.\<close>

definition counter_server :: "(string \<rightharpoonup> int) redis_cmds" where
  "counter_server =
     \<lparr>cmd_get = (\<lambda>k r. (Inr (map_option str_of_int (r k)), r)),
      cmd_set = (\<lambda>k s r. case int_of_str s of Some i \<Rightarrow> (Inr (), r(k \<mapsto> i)) | None \<Rightarrow> (Inl (OtherError ''ResponseError''), r)),
      cmd_expire = (\<lambda>k s r. (Inr (), if s > 0 then r else r(k := None))),
      cmd_incr = (\<lambda>k r. let n = (case r k of None \<Rightarrow> 0 | Some n \<Rightarrow> n) in (Inr (n + 1), r(k \<mapsto> n + 1))),
      cmd_incrbyfloat = (\<lambda>k v r. (Inr (), r)),
      cmd_ttl = (\<lambda>k r. (Inr 60, r))\<rparr>"

lemma counter_server_counts: "redis_counters counter_server id"
  by (simp add: redis_counters_def counter_server_def int_of_str_str Let_def)

theorem memory_counts_as_script_witness:
  "let keys = [''w'', ''r'', ''w'', ''t'']; answer = in_memory_cache_sliding_window plain_limiter 100 keys 100 60 empty_cache in
   \<exists>vs ws r' d'. BATCH_RATE_LIMITER_SCRIPT counter_server keys 100 60 Map.empty = (Inr vs, r') \<and>
     answer = (Inr ws, d') \<and> length ws = length keys \<and> map py_int ws = map py_int vs \<and> memory_shows (set keys) 100 r' d'"
proof -
  let ?keys = "[''w'', ''r'', ''w'', ''t'']"
  have show0: "memory_shows (set ?keys) 100 (id Map.empty) empty_cache"
    by (simp add: memory_shows_def dual_peek_def imc_peek_eq empty_cache_simps imc_init_def number_def)
  have room: "imc_room (set ?keys) (in_memory_cache empty_cache)" by (rule empty_cache_room) (simp_all add: card_insert_if)
  show ?thesis
    using memory_counts_as_script [of counter_server id "set ?keys" 100 Map.empty empty_cache plain_limiter ?keys 60 100]
      counter_server_counts show0 room empty_cache_counts
    by (simp add: Let_def)
qed

end
