(* ===== verification/BatchLimiter.thy ===== *)
theory BatchLimiter
  imports LimiterWindow
begin

text \<open>
  \<^verbatim>\<open>proxy/hooks/batch_rate_limiter.py\<close>: before a batch is created, its input file is counted, the
  limits are read without counting, and the requests and tokens of the whole batch are booked at once.
  The count of a file is an argument. The theory shows that a batch that passes leaves every counter it
  was checked against within its limit, and composes the hook with that of the other calls.
\<close>

subsection \<open>Model\<close>

record batch_file_usage =
  batch_total_tokens :: int
  batch_request_count :: int

definition raise_rate_limit_error ::
  "'r limiter_env \<Rightarrow> time \<Rightarrow> rate_limit_status \<Rightarrow> rate_limit_descriptor list \<Rightarrow> batch_file_usage \<Rightarrow> rate_limit_error" where
  "raise_rate_limit_error E now st descriptors usage =
     (let x = (case find (\<lambda>x. descriptor_key x = status_descriptor_key st) descriptors of
                 Some x \<Rightarrow> x
               | None \<Rightarrow> (case descriptors of
                   x # _ \<Rightarrow> x
                 | [] \<Rightarrow> \<lparr>descriptor_key = [], descriptor_value = [], rate_limit = None\<rparr>)) in
      \<lparr>error_descriptor_key = descriptor_key x, error_descriptor_value = descriptor_value x,
       error_limit_type = rate_limit_type st, error_limit = current_limit st,
       error_remaining = max 0 (limit_remaining st), error_retry_after = limiter_window E,
       error_reset_at = now + of_int (limiter_window E),
       error_requested = Some (if rate_limit_type st = LimitRequests then batch_request_count usage
                               else batch_total_tokens usage)\<rparr>)"

definition required_capacity :: "batch_file_usage \<Rightarrow> limit_type \<Rightarrow> int" where
  "required_capacity usage ty =
     (case ty of LimitRequests \<Rightarrow> batch_request_count usage | LimitTokens \<Rightarrow> batch_total_tokens usage | LimitParallel \<Rightarrow> 0)"

text \<open>The increments of a descriptor.\<close>

definition batch_operations :: "'r limiter_env \<Rightarrow> batch_file_usage \<Rightarrow> rate_limit_descriptor \<Rightarrow> increment_op list" where
  "batch_operations E usage x =
     (case rate_limit x of
        None \<Rightarrow> []
      | Some l \<Rightarrow>
        (if requests_per_unit l \<noteq> PNone
         then [\<lparr>op_key = create_rate_limit_keys (descriptor_key x) (descriptor_value x) ''requests'',
                increment_value = PInt (batch_request_count usage), op_ttl = Some (limiter_window E)\<rparr>] else []) @
        (if tokens_per_unit l \<noteq> PNone
         then [\<lparr>op_key = create_rate_limit_keys (descriptor_key x) (descriptor_value x) ''tokens'',
                increment_value = PInt (batch_total_tokens usage), op_ttl = Some (limiter_window E)\<rparr>] else []))"

definition check_and_increment_batch_counters ::
  "'r limiter_env \<Rightarrow> time \<Rightarrow> api_key_auth \<Rightarrow> request_data \<Rightarrow> batch_file_usage \<Rightarrow> 'r dual \<Rightarrow>
   (limiter_exc + unit) \<times> 'r dual" where
  "check_and_increment_batch_counters E now a data usage d =
     (case create_rate_limit_descriptors (env_str E) (agent_list E) (limiter_window E) a data PNone PNone False of
        Inl e \<Rightarrow> (Inl (Raised e), d)
      | Inr descriptors \<Rightarrow>
        (case should_rate_limit E now True descriptors d of
           (Inl e, d1) \<Rightarrow> (Inl (Raised e), d1)
         | (Inr resp, d1) \<Rightarrow>
           (case find (\<lambda>st. required_capacity usage (rate_limit_type st) > limit_remaining st) (statuses resp) of
              Some st \<Rightarrow> (Inl (TooManyRequests (raise_rate_limit_error E now st descriptors usage)), d1)
            | None \<Rightarrow>
              (case async_increment_tokens_with_ttl_preservation E now (concat (map (batch_operations E usage) descriptors)) d1 of
                 (Inl e, d2) \<Rightarrow> (Inl (Raised e), d2)
               | (Inr _, d2) \<Rightarrow> (Inr (), d2)))))"

text \<open>
  \<^verbatim>\<open>async_pre_call_hook\<close> of the batch limiter: the usage that is put into the request, if any. An
  exception other than 429 is logged, and the request passes.
\<close>

definition batch_pre_call_hook ::
  "'r limiter_env \<Rightarrow> (pyval \<Rightarrow> pyval \<Rightarrow> batch_file_usage pyres) \<Rightarrow> time \<Rightarrow> api_key_auth \<Rightarrow> request_data \<Rightarrow> 'r dual \<Rightarrow>
   (rate_limit_error + batch_file_usage option) \<times> 'r dual" where
  "batch_pre_call_hook E count_input_file_usage now a data d =
     (let input_file_id = dict_get (req_rest data) ''input_file_id'' PNone in
      if \<not> truthy input_file_id then (Inr None, d)
      else case count_input_file_usage input_file_id (dict_get (req_rest data) ''custom_llm_provider'' (PStr ''openai'')) of
        Inl _ \<Rightarrow> (Inr None, d)
      | Inr usage \<Rightarrow>
        (case check_and_increment_batch_counters E now a data usage d of
           (Inl (TooManyRequests err), d1) \<Rightarrow> (Inl err, d1)
         | (_, d1) \<Rightarrow> (Inr (Some usage), d1)))"

text \<open>\<^verbatim>\<open>async_pre_call_hook\<close> of the limiter: the creation of a batch has its own limiter.\<close>

definition async_pre_call_hook ::
  "'r limiter_env \<Rightarrow> (pyval \<Rightarrow> pyval \<Rightarrow> batch_file_usage pyres) \<Rightarrow> time \<Rightarrow> string \<Rightarrow> api_key_auth \<Rightarrow> request_data \<Rightarrow>
   'r dual \<times> 'r llm_router \<Rightarrow>
   (limiter_exc + rate_limit_response option + batch_file_usage option) \<times> ('r dual \<times> 'r llm_router)" where
  "async_pre_call_hook E count_input_file_usage now call_type a data s =
     (if call_type = ''acreate_batch'' then
        (case batch_pre_call_hook E count_input_file_usage now a data (fst s) of
           (Inl err, d) \<Rightarrow> (Inl (TooManyRequests err), (d, snd s))
         | (Inr u, d) \<Rightarrow> (Inr (Inr u), (d, snd s)))
      else (case request_pre_call_hook E now a data s of
           (Inl e, s1) \<Rightarrow> (Inl e, s1)
         | (Inr r, s1) \<Rightarrow> (Inr (Inl r), s1)))"

subsection \<open>Statuses of a read\<close>

lemma over_limit_loop_status:
  "over_limit_loop md ks vs overall sts = Inr resp \<Longrightarrow>
   (\<forall>st \<in> set sts. st \<in> set (statuses resp)) \<and>
   (\<forall>wk ck u x l n ty. ((wk, ck), (u, number x)) \<in> set (zip (pairs ks) (pairs vs)) \<longrightarrow> map_of md wk = Some l \<longrightarrow>
      limit_for ck l = Some (n, ty) \<longrightarrow>
      (\<exists>st \<in> set (statuses resp). rate_limit_type st = ty \<and> limit_remaining st = n - (case x of None \<Rightarrow> 0 | Some m \<Rightarrow> m)))"
proof (induction md ks vs overall sts arbitrary: resp rule: over_limit_loop.induct)
  case (2 md wk ck ks u v vs overall sts)
  obtain l where l: "map_of md wk = Some l" using "2.prems"(1) by (auto split: option.splits)
  show ?case
  proof (cases "limit_for ck l")
    case None
    then show ?thesis using "2.IH"(1) [OF l None] "2.prems" l by auto
  next
    case (Some nt)
    obtain n ty where nt: "nt = (n, ty)" by (cases nt)
    obtain c where c: "(if v = PNone then Inr None else map_sum id Some (py_int v)) = Inr c"
      using "2.prems"(1) l Some nt by (auto split: sum.splits)
    define over where "over = (case c of None \<Rightarrow> False | Some m \<Rightarrow> m > n)"
    define st where "st = \<lparr>status_code = (if over then CodeOverLimit else CodeOK), current_limit = n,
        limit_remaining = (case c of None \<Rightarrow> n | Some m \<Rightarrow> n - m), rate_limit_type = ty,
        status_descriptor_key = meta_descriptor_key l\<rparr>"
    have "over_limit_loop md ks vs (if over then CodeOverLimit else overall) (sts @ [st]) = Inr resp"
      using "2.prems"(1) l Some nt c by (simp add: Let_def over_def st_def)
    note IH = "2.IH"(2) [OF l Some nt [symmetric] c over_def, of resp, folded st_def, OF this]
    have "limit_remaining st = n - (case x of None \<Rightarrow> 0 | Some m \<Rightarrow> m)" if "v = number x" for x
      using that c by (auto simp: st_def number_def split: option.splits)
    moreover have "st \<in> set (statuses resp)" "rate_limit_type st = ty" using IH by (auto simp: st_def)
    ultimately show ?thesis using IH l Some nt by auto
  qed
qed (auto simp: zip_eq_Nil_iff)

lemma collect_keys_meta:
  assumes "collect_keys w xs keys md = Inr (ks, md')" "x \<in> set xs \<or> (\<exists>m. descriptor_limits w x = Inr m \<and>
      map_of md (window_key (descriptor_key x) (descriptor_value x)) = Some m)" "descriptor_keys x \<noteq> []"
    "\<forall>y \<in> set xs. window_key (descriptor_key y) (descriptor_value y) = window_key (descriptor_key x) (descriptor_value x) \<longrightarrow> y = x"
  shows "\<exists>m. descriptor_limits w x = Inr m \<and> map_of md' (window_key (descriptor_key x) (descriptor_value x)) = Some m"
  using assms
proof (induction w xs keys md rule: collect_keys.induct)
  case (2 w y xs keys md)
  show ?case
  proof (cases "descriptor_keys y = []")
    case True
    then show ?thesis using "2.IH"(1) [OF True] "2.prems" by auto
  next
    case False
    obtain m where m: "descriptor_limits w y = Inr m" using "2.prems"(1) False by (auto split: sum.splits)
    show ?thesis using "2.IH"(2) [OF False m] "2.prems" False m by (cases "y = x") auto
  qed
qed auto

lemma descriptor_limit:
  assumes "descriptor_limits w x = Inr m" "type_limit ty (limits_of x) = PInt L"
  shows "limit_for (create_rate_limit_keys k v (type_name ty)) m = Some (L, ty)"
  using assms unfolding limit_for_key
  by (cases ty) (auto simp: descriptor_limits_def Let_def int_limit_def type_limit_def split: sum.splits)

text \<open>A read in memory judges the numbers that it shows.\<close>

lemma fold_get_peek: "imc_peek now k (fold (imc_after_get now) ks c) = imc_peek now k c"
  by (induction ks arbitrary: c) (simp_all add: imc_after_get_def imc_peek_get)

lemma should_rate_limit_read:
  assumes "redis_cache d = None" "should_rate_limit E now True ds d = (Inr resp, d')"
  shows "\<exists>md. collect_keys (limiter_window E) ds [] [] = Inr (concat (map descriptor_keys ds), md) \<and>
      over_limit_loop md (concat (map descriptor_keys ds)) (map (\<lambda>k. dual_peek now k d) (concat (map descriptor_keys ds))) CodeOK []
        = Inr resp"
    and "\<exists>ks. d' = d\<lparr>in_memory_cache := fold (imc_after_get now) ks (in_memory_cache d)\<rparr>"
proof -
  let ?keys = "concat (map descriptor_keys ds)"
  obtain ks md where km: "collect_keys (limiter_window E) ds [] [] = Inr (ks, md)"
    using assms(2) by (auto simp: should_rate_limit_def split: sum.splits)
  have ks: "ks = ?keys" using collect_keys_eq [OF km] by simp
  let ?c = "in_memory_cache d" let ?c1 = "fold (imc_after_get now) ?keys ?c"
  let ?vals = "map (\<lambda>k. dual_peek now k d) ?keys"
  have second: "fetch_values E now True ?keys (d\<lparr>in_memory_cache := ?c1\<rparr>) =
      (Inr ?vals, d\<lparr>in_memory_cache := fold (imc_after_get now) ?keys ?c1\<rparr>)"
    using assms(1) by (simp add: fetch_values_def Let_def dual_batch_get_cache_def with_mem_def imc_batch_get_cache_eq
        case_prod_beta fold_get_peek dual_peek_def batch_get_state)
  have eq: "should_rate_limit E now True ds d =
      (case map_sum id Some (is_cache_list_over_limit ?keys ?vals md) of
         Inl e \<Rightarrow> (Inl e, d\<lparr>in_memory_cache := ?c1\<rparr>)
       | Inr first \<Rightarrow>
         if (case first of None \<Rightarrow> False | Some r \<Rightarrow> overall_code r = CodeOverLimit) then (Inr (the first), d\<lparr>in_memory_cache := ?c1\<rparr>)
         else (is_cache_list_over_limit ?keys ?vals md, d\<lparr>in_memory_cache := fold (imc_after_get now) ?keys ?c1\<rparr>))"
    by (cases "is_cache_list_over_limit ?keys ?vals md")
      (simp_all add: should_rate_limit_def km ks local_batch_get_eq imc_batch_get_cache_eq second flip: dual_peek_def)
  have "is_cache_list_over_limit ?keys ?vals md = Inr resp"
    using assms(2) unfolding eq by (auto split: sum.splits if_splits)
  then show "\<exists>md. collect_keys (limiter_window E) ds [] [] = Inr (?keys, md) \<and> over_limit_loop md ?keys ?vals CodeOK [] = Inr resp"
    using km ks by (auto simp: is_cache_list_over_limit_def)
  have "d' = d\<lparr>in_memory_cache := ?c1\<rparr> \<or> d' = d\<lparr>in_memory_cache := fold (imc_after_get now) (?keys @ ?keys) ?c\<rparr>"
    using assms(2) unfolding eq by (auto split: sum.splits if_splits)
  then show "\<exists>ks. d' = d\<lparr>in_memory_cache := fold (imc_after_get now) ks ?c\<rparr>" by blast
qed

subsection \<open>Descriptors of a batch\<close>

lemma distinct_pieces:
  "list_all2 (\<lambda>k p. p = [] \<or> (\<exists>x. p = [x] \<and> descriptor_key x = k)) ks ps \<Longrightarrow> distinct ks \<Longrightarrow>
   distinct (map descriptor_key (concat ps)) \<and> set (map descriptor_key (concat ps)) \<subseteq> set ks"
proof (induction rule: list_all2_induct)
  case (Cons k ks p ps)
  then have IH: "distinct (map descriptor_key (concat ps))" "set (map descriptor_key (concat ps)) \<subseteq> set ks" "k \<notin> set ks" by auto
  show ?case
  proof (cases "p = []")
    case True
    then show ?thesis using IH by auto
  next
    case False
    then obtain x where x: "p = [x]" "descriptor_key x = k" using Cons.hyps by auto
    have "k \<notin> set (map descriptor_key (concat ps))" using IH(2,3) by blast
    then show ?thesis using IH(1,2) x by auto
  qed
qed simp

lemma singletons:
  "entity_descriptor w key e u rpm tpm = [] \<or> (\<exists>x. entity_descriptor w key e u rpm tpm = [x] \<and> descriptor_key x = key)"
  "model_descriptor w key e m rpms tpms = [] \<or> (\<exists>x. model_descriptor w key e m rpms tpms = [x] \<and> descriptor_key x = key)"
  "api_key_descriptor w a rt tt f = [] \<or> (\<exists>x. api_key_descriptor w a rt tt f = [x] \<and> descriptor_key x = ''api_key'')"
  "(if b then [] else model_descriptor w key e m rpms tpms) = [] \<or>
   (\<exists>x. (if b then [] else model_descriptor w key e m rpms tpms) = [x] \<and> descriptor_key x = key)"
  by (auto simp: entity_descriptor_def model_descriptor_def api_key_descriptor_def descriptor_def)

lemma agent_singletons:
  assumes "create_agent_rate_limit_descriptors ps ags w i data = Inr ds"
  obtains p q where "ds = p @ q" "p = [] \<or> (\<exists>x. p = [x] \<and> descriptor_key x = ''agent'')"
    "q = [] \<or> (\<exists>x. q = [x] \<and> descriptor_key x = ''agent_session'')"
proof -
  have "ds = filter (\<lambda>x. descriptor_key x = ''agent'') ds @ filter (\<lambda>x. descriptor_key x = ''agent_session'') ds \<and>
      length (filter (\<lambda>x. descriptor_key x = ''agent'') ds) \<le> 1 \<and> length (filter (\<lambda>x. descriptor_key x = ''agent_session'') ds) \<le> 1"
    using assms by (auto simp: create_agent_rate_limit_descriptors_def descriptor_def Let_def split: option.splits if_splits sum.splits)
  moreover have "xs = [] \<or> (\<exists>x. xs = [x] \<and> P x)" if "xs = filter P ds" "length xs \<le> 1" for xs P
  proof -
    have "\<forall>x \<in> set xs. P x" using that(1) by simp
    then show ?thesis using that(2) by (cases xs) auto
  qed
  ultimately show thesis
    by (intro that [of "filter (\<lambda>x. descriptor_key x = ''agent'') ds" "filter (\<lambda>x. descriptor_key x = ''agent_session'') ds"]) simp_all
qed

text \<open>No scope is checked twice, and its key has no colon.\<close>

lemma create_descriptors_distinct:
  assumes "create_rate_limit_descriptors ps ags w a data rt tt f = Inr ds"
  shows "distinct (map descriptor_key ds) \<and> (\<forall>x \<in> set ds. CHR '':'' \<notin> set (descriptor_key x))"
proof -
  let ?pieces = "\<lambda>p q. [api_key_descriptor w a rt tt f,
      entity_descriptor w ''user'' (auth_user_id a) (opt_text (auth_user_id a)) (auth_user_rpm_limit a) (auth_user_tpm_limit a),
      entity_descriptor w ''team'' (auth_team_id a) (opt_text (auth_team_id a)) (auth_team_rpm_limit a) (auth_team_tpm_limit a),
      entity_descriptor w ''team_member'' (auth_user_id a) (opt_text (auth_team_id a) @ '':'' @ opt_text (auth_user_id a))
        (auth_team_member_rpm_limit a) (auth_team_member_tpm_limit a),
      entity_descriptor w ''end_user'' (auth_end_user_id a) (opt_text (auth_end_user_id a)) (auth_end_user_rpm_limit a) (auth_end_user_tpm_limit a),
      (if \<not> nonempty (req_model data) then [] else
        model_descriptor w ''model_per_key'' (auth_api_key a) (req_model data) (get_key_model_rpm_limit a) (get_key_model_tpm_limit a)),
      model_descriptor w ''model_per_team'' (auth_team_id a) (req_model data) (get_team_model_rpm_limit a) (get_team_model_tpm_limit a),
      p, q]"
  let ?ks = "[''api_key'', ''user'', ''team'', ''team_member'', ''end_user'', ''model_per_key'', ''model_per_team'', ''agent'', ''agent_session'']"
  have "\<exists>p q. ds = concat (?pieces p q) \<and> (p = [] \<or> (\<exists>x. p = [x] \<and> descriptor_key x = ''agent'')) \<and>
      (q = [] \<or> (\<exists>x. q = [x] \<and> descriptor_key x = ''agent_session''))"
  proof (cases "\<exists>i ag. create_agent_rate_limit_descriptors ps ags w i data = Inr ag \<and> ds = concat (?pieces ag [])")
    case True
    then obtain i ag where ag: "create_agent_rate_limit_descriptors ps ags w i data = Inr ag" "ds = concat (?pieces ag [])" by blast
    obtain p q where "ag = p @ q" "p = [] \<or> (\<exists>x. p = [x] \<and> descriptor_key x = ''agent'')"
      "q = [] \<or> (\<exists>x. q = [x] \<and> descriptor_key x = ''agent_session'')" using agent_singletons [OF ag(1)] .
    then show ?thesis using ag(2) by (intro exI [of _ p] exI [of _ q]) simp
  next
    case False
    then have "ds = concat (?pieces [] [])"
      using assms by (auto simp: create_rate_limit_descriptors_def add_model_per_key_rate_limit_descriptor_def Let_def
          split: sum.splits if_splits)
    then show ?thesis by (intro exI [of _ "[]"]) simp
  qed
  then obtain p q where pq: "ds = concat (?pieces p q)" "p = [] \<or> (\<exists>x. p = [x] \<and> descriptor_key x = ''agent'')"
    "q = [] \<or> (\<exists>x. q = [x] \<and> descriptor_key x = ''agent_session'')" by blast
  have "list_all2 (\<lambda>k p. p = [] \<or> (\<exists>x. p = [x] \<and> descriptor_key x = k)) ?ks (?pieces p q)"
    by (simp only: list_all2_Cons list_all2_Nil singletons pq simp_thms)
  note d = distinct_pieces [OF this, folded pq(1)]
  have "CHR '':'' \<notin> set k" if "k \<in> set ?ks" for k using that by auto
  then show ?thesis using d by fastforce
qed

subsection \<open>Increments in memory\<close>

definition add_to :: "string \<times> int \<Rightarrow> (string \<rightharpoonup> int) \<Rightarrow> (string \<rightharpoonup> int)" where
  "add_to ki f = f(fst ki \<mapsto> (case f (fst ki) of None \<Rightarrow> 0 | Some n \<Rightarrow> n) + snd ki)"

lemma increment_numbers:
  assumes "imc_room K c" "takes_counts rt c" "k \<in> K" "mem.shows_numbers K now f c" "default_ttl c = of_int w" "0 \<le> w"
  shows "\<exists>v c'. imc_increment_cache rt now k (PInt i) None c = (Inr v, c') \<and> imc_room K c' \<and> takes_counts rt c' \<and>
     mem.shows_numbers K now (add_to (k, i) f) c' \<and> default_ttl c' = of_int w"
proof -
  let ?n = "(case f k of None \<Rightarrow> 0 | Some n \<Rightarrow> n) + i" let ?c1 = "imc_after_get now k c"
  have r1: "imc_room K ?c1" and f1: "takes_counts rt ?c1"
    using assms(1,2) mem.get_room mem.get_fits by blast+
  have inv1: "imc_inv ?c1" "same_config c ?c1"
    using assms(1) imc_after_get_inv [of c now k] by (auto simp: imc_room_def)
  have peek: "imc_peek now k' ?c1 = number (f k')" if "k' \<in> K" for k'
    using that assms(4) mem.peek_get [OF assms(1)] by (simp add: mem.shows_numbers_def)
  have add: "py_add (py_or (imc_peek now k c) (PInt 0)) (PInt i) = Inr (PInt ?n)"
    using assms(3,4) by (auto simp: mem.shows_numbers_def number_def py_or_def split: option.splits)
  have dt: "default_ttl ?c1 = of_int w" using inv1(2) assms(5) by (simp add: same_config_def)
  let ?c2 = "imc_put rt (Some (of_int w)) now k (PInt ?n) ?c1"
  have "imc_put rt None now k (PInt ?n) ?c1 = ?c2"
    using dt by (simp add: imc_put_room_eq [OF r1] imc_store_def Let_def)
  moreover obtain c' where "imc_set_cache rt now k (PInt ?n) None ?c1 = (Inr (), c')"
    using imc_set_cache_total [OF inv1(1)] r1 by (force simp: imc_room_def)
  ultimately have inc: "imc_increment_cache rt now k (PInt i) None c = (Inr (PInt ?n), ?c2)"
    using add by (auto simp: imc_increment_cache_def imc_put_def imc_peek_def imc_after_get_def case_prod_beta)
  have "mem.shows_numbers K now (add_to (k, i) f) ?c2"
    using mem.peek_put [OF r1 f1 assms(3,6), of "PInt ?n" ?n] peek
    by (simp add: mem.shows_numbers_def add_to_def number_def)
  moreover have "default_ttl ?c2 = of_int w" using imc_put_inv [OF inv1(1)] dt unfolding same_config_def by metis
  ultimately show ?thesis
    using inc mem.put_room [OF r1 assms(3,6)] mem.put_fits [OF r1 f1 assms(3,6)] by blast
qed

lemma pipeline_numbers:
  assumes "fst ` set kis \<subseteq> K" "imc_room K c" "takes_counts rt c" "mem.shows_numbers K now f c" "default_ttl c = of_int w" "0 \<le> w"
  shows "\<exists>vs c'. imc_increment_pipeline rt now (map (\<lambda>(k, i). (k, PInt i)) kis) c = (Inr vs, c') \<and>
     mem.shows_numbers K now (fold add_to kis f) c'"
  using assms(1-5)
proof (induction kis arbitrary: c f)
  case (Cons ki kis)
  obtain k i where ki: "ki = (k, i)" by (cases ki)
  have k: "k \<in> K" "fst ` set kis \<subseteq> K" using Cons.prems(1) ki by auto
  obtain v c1 where c1: "imc_increment_cache rt now k (PInt i) None c = (Inr v, c1)" "imc_room K c1" "takes_counts rt c1"
      "mem.shows_numbers K now (add_to (k, i) f) c1" "default_ttl c1 = of_int w"
    using increment_numbers [OF Cons.prems(2,3) k(1) Cons.prems(4,5) assms(6)] by blast
  then show ?case using Cons.IH [OF k(2) c1(2-5)] ki by auto
qed simp

lemma fold_add_to:
  "distinct (map fst kis) \<Longrightarrow> fold add_to kis f k =
     (case map_of kis k of None \<Rightarrow> f k | Some i \<Rightarrow> Some ((case f k of None \<Rightarrow> 0 | Some n \<Rightarrow> n) + i))"
proof (induction kis arbitrary: f)
  case (Cons ki kis)
  show ?case
  proof (cases "k = fst ki")
    case True
    then have "map_of kis k = None" using Cons.prems by (simp add: map_of_eq_None_iff)
    moreover have "add_to ki f k = Some ((case f k of None \<Rightarrow> 0 | Some n \<Rightarrow> n) + snd ki)" using True by (simp add: add_to_def)
    ultimately show ?thesis using Cons.IH [of "add_to ki f"] Cons.prems True by (cases ki) simp
  next
    case False
    then have same: "add_to ki f k = f k" "map_of (ki # kis) k = map_of kis k" by (auto simp: add_to_def)
    show ?thesis unfolding same(2) using Cons.IH [of "add_to ki f", unfolded same(1)] Cons.prems by simp
  qed
qed simp

subsection \<open>A batch stays within the limits\<close>

text \<open>The numbers that a batch adds for a descriptor.\<close>

definition batch_adds :: "batch_file_usage \<Rightarrow> rate_limit_descriptor \<Rightarrow> (string \<times> int) list" where
  "batch_adds usage x =
     concat (map (\<lambda>ty. if type_limit ty (limits_of x) \<noteq> PNone
       then [(create_rate_limit_keys (descriptor_key x) (descriptor_value x) (type_name ty), required_capacity usage ty)] else [])
       [LimitRequests, LimitTokens])"

lemma batch_operations_adds:
  "map (\<lambda>i. (op_key i, increment_value i)) (batch_operations E usage x) = map (\<lambda>(k, i). (k, PInt i)) (batch_adds usage x)"
  by (simp add: batch_operations_def batch_adds_def limits_of_def no_limits_def type_limit_def required_capacity_def
      split: option.split)

lemma batch_adds_keys: "(k, i) \<in> set (batch_adds usage x) \<longleftrightarrow>
    (\<exists>ty. ty \<noteq> LimitParallel \<and> type_limit ty (limits_of x) \<noteq> PNone \<and> i = required_capacity usage ty \<and>
      k = create_rate_limit_keys (descriptor_key x) (descriptor_value x) (type_name ty))"
proof -
  have "(\<exists>ty. P ty) \<longleftrightarrow> P LimitRequests \<or> P LimitTokens \<or> P LimitParallel" for P by (metis limit_type.exhaust)
  then show ?thesis by (auto simp: batch_adds_def)
qed

lemma batch_adds_distinct:
  assumes "distinct (map descriptor_key ds)" "\<forall>x \<in> set ds. CHR '':'' \<notin> set (descriptor_key x)"
  shows "distinct (map fst (concat (map (batch_adds usage) ds)))"
  using assms
proof (induction ds)
  case (Cons x ds)
  have "distinct (map fst (batch_adds usage x))"
    using counter_key_type [of _ _ LimitRequests _ _ LimitTokens] by (auto simp: batch_adds_def)
  moreover have "k \<notin> fst ` set (batch_adds usage x)" if y: "y \<in> set ds" and k: "k \<in> fst ` set (batch_adds usage y)" for y k
  proof
    assume "k \<in> fst ` set (batch_adds usage x)"
    then obtain ty ty' where eq: "create_rate_limit_keys (descriptor_key x) (descriptor_value x) (type_name ty) =
        create_rate_limit_keys (descriptor_key y) (descriptor_value y) (type_name ty')"
      using k by (auto simp: batch_adds_keys)
    have "descriptor_key x = descriptor_key y" using counter_key_inj [OF _ _ eq] Cons.prems(2) y by simp
    then show False using Cons.prems(1) y by auto
  qed
  then have "set (map fst (batch_adds usage x)) \<inter> set (map fst (concat (map (batch_adds usage) ds))) = {}"
    by (force simp: disjoint_iff)
  ultimately show ?case using Cons by simp
qed simp

lemma increments_in_memory:
  "redis_cache d = None \<Longrightarrow> is \<noteq> [] \<Longrightarrow>
   in_memory_cache (snd (async_increment_tokens_with_ttl_preservation E now is d)) =
     snd (imc_increment_pipeline (usage_rt E) now (map (\<lambda>i. (op_key i, increment_value i)) is) (in_memory_cache d))"
  by (cases "imc_increment_pipeline (usage_rt E) now (map (\<lambda>i. (op_key i, increment_value i)) is) (in_memory_cache d)";
      cases "fst (imc_increment_pipeline (usage_rt E) now (map (\<lambda>i. (op_key i, increment_value i)) is) (in_memory_cache d))")
    (simp_all add: async_increment_tokens_with_ttl_preservation_def dual_increment_cache_pipeline_def with_mem_def)

lemma fold_get_state:
  assumes "imc_room K c" "takes_counts rt c"
  shows "imc_room K (fold (imc_after_get now) ks c) \<and> takes_counts rt (fold (imc_after_get now) ks c) \<and>
    default_ttl (fold (imc_after_get now) ks c) = default_ttl c"
  using assms
proof (induction ks arbitrary: c)
  case (Cons k ks)
  have "default_ttl (imc_after_get now k c) = default_ttl c"
    using imc_after_get_inv [of c now k] Cons.prems(1) by (simp add: imc_room_def same_config_def)
  then show ?case
    using Cons.IH [of "imc_after_get now k c"] mem.get_room [OF Cons.prems(1)] mem.get_fits [OF Cons.prems] by simp
qed simp

lemma zip_pairs_map: "(a, b) \<in> set (pairs ks) \<Longrightarrow> ((a, b), (g a, g b)) \<in> set (zip (pairs ks) (pairs (map g ks)))"
  by (induction ks rule: pairs.induct) auto

text \<open>The status of a descriptor that a read judges.\<close>

lemma read_status:
  assumes "redis_cache d = None" "should_rate_limit E now True ds d = (Inr resp, d')" "memory_shows K now f d"
    "distinct (map descriptor_key ds)" "\<forall>y \<in> set ds. CHR '':'' \<notin> set (descriptor_key y) \<and> set (descriptor_keys y) \<subseteq> K"
    "x \<in> set ds" "type_limit ty (limits_of x) = PInt L"
    "ck = create_rate_limit_keys (descriptor_key x) (descriptor_value x) (type_name ty)"
  shows "ck \<in> K \<and> (\<exists>st \<in> set (statuses resp). rate_limit_type st = ty \<and>
     limit_remaining st = L - (case f ck of None \<Rightarrow> 0 | Some m \<Rightarrow> m))"
proof -
  let ?wk = "window_key (descriptor_key x) (descriptor_value x)" let ?keys = "concat (map descriptor_keys ds)"
  obtain md where md: "collect_keys (limiter_window E) ds [] [] = Inr (?keys, md)"
    "over_limit_loop md ?keys (map (\<lambda>k. dual_peek now k d) ?keys) CodeOK [] = Inr resp"
    using should_rate_limit_read(1) [OF assms(1,2)] by blast
  have ev: "pairs ?keys = concat (map (pairs \<circ> descriptor_keys) ds)"
    using pairs_concat [of ds descriptor_keys] by (simp add: descriptor_pairs)
  have px: "(?wk, ck) \<in> set (pairs (descriptor_keys x))" using descriptor_pairs [of x] assms(7,8) by auto
  then have pk: "(?wk, ck) \<in> set (pairs ?keys)" using ev assms(6) by auto
  have uniq: "window_key (descriptor_key y) (descriptor_value y) = ?wk \<longrightarrow> y = x" if "y \<in> set ds" for y
  proof
    assume "window_key (descriptor_key y) (descriptor_value y) = ?wk"
    then have "descriptor_key y = descriptor_key x"
      using window_key_inj [of "descriptor_key y" "descriptor_key x"] assms(5,6) that by blast
    then show "y = x" using assms(4,6) that unfolding distinct_map by (blast dest: inj_onD)
  qed
  have "descriptor_keys x \<noteq> []" using px by auto
  then obtain m where m: "descriptor_limits (limiter_window E) x = Inr m" "map_of md ?wk = Some m"
    using collect_keys_meta [OF md(1), of x] uniq assms(6) by blast
  have ck: "ck \<in> K" using pairs_elems [OF px] assms(5,6) by auto
  have val: "dual_peek now ck d = number (f ck)" using assms(3) ck by (simp add: memory_shows_def)
  have "((?wk, ck), (dual_peek now ?wk d, number (f ck))) \<in> set (zip (pairs ?keys) (pairs (map (\<lambda>k. dual_peek now k d) ?keys)))"
    using zip_pairs_map [OF pk, of "\<lambda>k. dual_peek now k d"] val by simp
  then show ?thesis
    using over_limit_loop_status [OF md(2)] m(2) descriptor_limit [OF m(1) assms(7)] assms(8) ck by blast
qed

lemma batch_adds_within:
  assumes "\<forall>y \<in> set ds. set (descriptor_keys y) \<subseteq> K"
  shows "fst ` set (concat (map (batch_adds usage) ds)) \<subseteq> K"
proof
  fix k assume "k \<in> fst ` set (concat (map (batch_adds usage) ds))"
  then obtain y ty where y: "y \<in> set ds" "type_limit ty (limits_of y) \<noteq> PNone"
      "k = create_rate_limit_keys (descriptor_key y) (descriptor_value y) (type_name ty)"
    by (auto simp: batch_adds_keys)
  then have "(window_key (descriptor_key y) (descriptor_value y), k) \<in> set (pairs (descriptor_keys y))"
    using descriptor_pairs [of y] by auto
  then have "k \<in> set (descriptor_keys y)" by (rule pairs_elems [THEN conjunct2])
  then show "k \<in> K" using assms y(1) by auto
qed

text \<open>
  Property C11. A batch that passes is booked in full and stays within the limits. In memory, when the
  check of a batch succeeds, every request and token counter that it was checked against has grown by
  the requests or tokens of the batch and is at most its limit.
\<close>

theorem batch_booked_within_limits:
  assumes "redis_cache d = None" "imc_room K (in_memory_cache d)" "takes_counts (usage_rt E) (in_memory_cache d)"
    "memory_shows K now f d" "default_ttl (in_memory_cache d) = of_int w" "0 \<le> w"
    "create_rate_limit_descriptors (env_str E) (agent_list E) (limiter_window E) a data PNone PNone False = Inr ds"
    "\<forall>y \<in> set ds. set (descriptor_keys y) \<subseteq> K"
    "check_and_increment_batch_counters E now a data usage d = (Inr (), d')"
    "x \<in> set ds" "ty \<noteq> LimitParallel" "type_limit ty (limits_of x) = PInt L"
    "ck = create_rate_limit_keys (descriptor_key x) (descriptor_value x) (type_name ty)"
  shows "\<exists>n. dual_peek now ck d' = PInt n \<and> n = (case f ck of None \<Rightarrow> 0 | Some m \<Rightarrow> m) + required_capacity usage ty \<and> n \<le> L"
proof -
  let ?wk = "window_key (descriptor_key x) (descriptor_value x)" let ?keys = "concat (map descriptor_keys ds)"
  let ?adds = "concat (map (batch_adds usage) ds)" let ?old = "case f ck of None \<Rightarrow> 0 | Some m \<Rightarrow> m"
  note dist = create_descriptors_distinct [OF assms(7)]
  obtain resp d1 where resp: "should_rate_limit E now True ds d = (Inr resp, d1)"
    and none: "find (\<lambda>st. required_capacity usage (rate_limit_type st) > limit_remaining st) (statuses resp) = None"
    and inc: "async_increment_tokens_with_ttl_preservation E now (concat (map (batch_operations E usage) ds)) d1 = (Inr (), d')"
    using assms(9) by (auto simp: check_and_increment_batch_counters_def assms(7) split: sum.splits option.splits prod.splits)
  have colon: "\<forall>y \<in> set ds. CHR '':'' \<notin> set (descriptor_key y) \<and> set (descriptor_keys y) \<subseteq> K" using dist assms(8) by blast
  obtain st where ckK: "ck \<in> K" and st: "st \<in> set (statuses resp)" "rate_limit_type st = ty" "limit_remaining st = L - ?old"
    using read_status [OF assms(1) resp assms(4) _ colon assms(10,12,13)] dist by blast
  have fits: "?old + required_capacity usage ty \<le> L" using none st by (fastforce simp: find_None_iff)
  obtain ks where d1: "d1 = d\<lparr>in_memory_cache := fold (imc_after_get now) ks (in_memory_cache d)\<rparr>"
    using should_rate_limit_read(2) [OF assms(1) resp] by blast
  define c1 where "c1 = fold (imc_after_get now) ks (in_memory_cache d)"
  have c1: "imc_room K c1" "takes_counts (usage_rt E) c1" "mem.shows_numbers K now f c1" "default_ttl c1 = of_int w"
    using fold_get_state [OF assms(2,3)] assms(4,5) by (auto simp: c1_def memory_shows_eq mem.shows_numbers_def fold_get_peek)
  have own: "(ck, required_capacity usage ty) \<in> set ?adds" using assms(10-13) by (force simp: batch_adds_keys)
  have keys: "fst ` set ?adds \<subseteq> K" by (rule batch_adds_within [OF assms(8)])
  obtain vs c2 where c2: "imc_increment_pipeline (usage_rt E) now (map (\<lambda>(k, i). (k, PInt i)) ?adds) c1 = (Inr vs, c2)"
      "mem.shows_numbers K now (fold add_to ?adds f) c2"
    using pipeline_numbers [OF keys c1 assms(6)] by blast
  have ops: "map (\<lambda>i. (op_key i, increment_value i)) (concat (map (batch_operations E usage) ds)) = map (\<lambda>(k, i). (k, PInt i)) ?adds"
    by (simp add: map_concat batch_operations_adds [of E] comp_def)
  have ne: "concat (map (batch_operations E usage) ds) \<noteq> []" using own ops by fastforce
  have r1: "redis_cache d1 = None" using assms(1) d1 by simp
  have "in_memory_cache d' = c2"
    using increments_in_memory [OF r1 ne, of E now] inc c2(1) unfolding ops by (simp add: d1 flip: c1_def)
  moreover have "fold add_to ?adds f ck = Some (?old + required_capacity usage ty)"
    using fold_add_to [OF batch_adds_distinct, of ds usage f ck] dist own batch_adds_distinct [of ds usage] by (simp add: map_of_is_SomeI)
  ultimately show ?thesis using c2(2) ckK fits by (auto simp: mem.shows_numbers_def dual_peek_def number_def)
qed

theorem batch_booked_within_limits_witness:
  "let a = (plain_auth ''k'')\<lparr>auth_rpm_limit := Some 10\<rparr>; u = \<lparr>batch_total_tokens = 50, batch_request_count = 3\<rparr>;
     ck = create_rate_limit_keys ''api_key'' ''k'' ''requests'' in
   \<exists>n. dual_peek 100 ck (snd (check_and_increment_batch_counters plain_limiter 100 a plain_request u empty_cache)) = PInt n \<and>
     n = 0 + required_capacity u LimitRequests \<and> n \<le> 10"
proof -
  let ?a = "(plain_auth ''k'')\<lparr>auth_rpm_limit := Some 10\<rparr>" let ?u = "\<lparr>batch_total_tokens = 50, batch_request_count = 3\<rparr>"
  let ?x = "\<lparr>descriptor_key = ''api_key'', descriptor_value = ''k'', rate_limit = Some \<lparr>requests_per_unit = PInt 10,
      tokens_per_unit = PNone, max_parallel_requests = PNone, unit_window = Some 60\<rparr>\<rparr>"
  let ?K = "set (descriptor_keys ?x)" let ?d = "check_and_increment_batch_counters plain_limiter 100 ?a plain_request ?u empty_cache"
  have x: "create_rate_limit_descriptors (env_str plain_limiter) (agent_list plain_limiter) (limiter_window plain_limiter) ?a
      plain_request PNone PNone False = Inr [?x]" by code_simp
  have room: "imc_room ?K (in_memory_cache empty_cache)"
    by (rule empty_cache_room) (simp_all add: descriptor_keys_def limits_of_def card_insert_if)
  have shows0: "memory_shows ?K 100 Map.empty empty_cache"
    by (simp add: memory_shows_def dual_peek_def imc_peek_eq empty_cache_simps imc_init_def number_def)
  have dt: "default_ttl (in_memory_cache empty_cache) = of_int 600"
    by (simp add: empty_cache_simps imc_init_def Prelude.or_num_def)
  have ok: "?d = (Inr (), snd ?d)"
  proof -
    have "fst ?d = Inr ()" by code_simp
    then show ?thesis by (metis prod.collapse)
  qed
  have lim: "type_limit LimitRequests (limits_of ?x) = PInt 10" by (simp add: type_limit_def limits_of_def)
  show ?thesis
    using batch_booked_within_limits [OF empty_cache_simps(2) room empty_cache_counts shows0 dt _ x _ ok _ _ lim]
    by (simp add: Let_def)
qed

end
