(* ===== verification/LimiterCases.thy ===== *)
theory LimiterCases
  imports BatchLimiter
begin

text \<open>
  How the descriptors, the counters and the booking of the rate limiter fit together: the keys of a
  descriptor share a slot of a Redis cluster, and the cases in which what is counted is not what a limit
  speaks of.
\<close>

subsection \<open>Slots\<close>

lemma takeWhile_stop: "\<not> P y \<Longrightarrow> takeWhile P (xs @ y # zs) = takeWhile P xs"
  by (induction xs) auto

text \<open>All keys of a descriptor have the same hash tag, so a script on them runs on one node.\<close>

lemma descriptor_keys_one_slot:
  assumes "k \<noteq> []" "hd k \<noteq> CHR ''}''"
  shows "keyslot_for_redis_cluster (create_rate_limit_keys k v ty) = keyslot_for_redis_cluster (window_key k v)"
proof -
  have tag: "hash_tag (CHR ''{'' # k @ CHR '':'' # v @ CHR ''}'' # t) = takeWhile (\<lambda>c. c \<noteq> CHR ''}'') (k @ CHR '':'' # v)" for t
  proof -
    have "takeWhile (\<lambda>c. c \<noteq> CHR ''}'') (k @ CHR '':'' # v @ CHR ''}'' # t) = takeWhile (\<lambda>c. c \<noteq> CHR ''}'') (k @ CHR '':'' # v)"
      using takeWhile_stop [of "\<lambda>c. c \<noteq> CHR ''}''" "CHR ''}''" "k @ CHR '':'' # v" t] by simp
    moreover have "takeWhile (\<lambda>c. c \<noteq> CHR ''}'') (k @ CHR '':'' # v) \<noteq> []" using assms by (cases k) auto
    ultimately show ?thesis by (simp add: hash_tag_def)
  qed
  show ?thesis using tag [of "CHR '':'' # ty"] tag [of "'':window''"]
    by (simp add: keyslot_for_redis_cluster_def create_rate_limit_keys_def window_key_def)
qed

text \<open>
  The answers of the slots are put together slot by slot, not in the order of the keys: when the descriptors
  of a slot are not next to each other, counters are compared with the limits of other descriptors.
\<close>

lemma cluster_answers_out_of_order:
  assumes "keyslot_for_redis_cluster c = keyslot_for_redis_cluster a" "keyslot_for_redis_cluster b \<noteq> keyslot_for_redis_cluster a"
  shows "concat (map snd (group_keys_by_hash_tag True [a, b, c])) = [a, c, b]"
proof -
  have "str_of_nat (keyslot_for_redis_cluster a) \<noteq> str_of_nat (keyslot_for_redis_cluster b)"
    using int_digits_str assms(2) by (metis option.inject)
  then show ?thesis using assms(1) by (simp add: group_keys_by_hash_tag_def Let_def dict_get_def)
qed

subsection \<open>Limits that count something else\<close>

text \<open>A limit of a team for a model is checked, and counted, twice per request.\<close>

lemma team_model_checked_twice:
  assumes "request_descriptors E a data f = Inr ds" "model_in (req_model data) (get_team_model_rpm_limit a)"
    "get_team_model_rpm_limit a \<noteq> None"
  shows "2 \<le> length (filter (\<lambda>x. descriptor_key x = ''model_per_team'') ds)"
  using assms
  by (auto simp: request_descriptors_def create_rate_limit_descriptors_def Let_def model_descriptor_def descriptor_def
      add_team_model_rate_limit_descriptor_from_metadata_def get_model_rate_limit_from_metadata_def get_team_model_rpm_limit_def
      split: sum.splits if_splits)

definition team_auth :: api_key_auth where
  "team_auth = (plain_auth ''k'')\<lparr>auth_team_id := Some ''t'',
     auth_team_metadata := Some [(''model_rpm_limit'', PDict [(''m'', PInt 2)])]\<rparr>"

lemma team_model_limit_halved:
  "admitted plain_limiter [(100, team_auth, plain_request), (101, team_auth, plain_request)] (empty_cache, None) = 1"
  by code_simp

text \<open>A request counts as one token when it is checked.\<close>

lemma token_limit_counts_requests:
  "admitted plain_limiter
     [(100, (plain_auth ''k'')\<lparr>auth_tpm_limit := Some 2\<rparr>, plain_request),
      (101, (plain_auth ''k'')\<lparr>auth_tpm_limit := Some 2\<rparr>, plain_request),
      (102, (plain_auth ''k'')\<lparr>auth_tpm_limit := Some 2\<rparr>, plain_request)] (empty_cache, None) = 2"
  by code_simp

text \<open>The tokens of an organization are never booked, so its token limit counts only requests.\<close>

lemma organization_tokens_not_booked:
  "create_rate_limit_keys ''organization'' v (type_name ty) \<notin> op_key ` set (token_operations E md end_user model_group n)"
  by (auto simp: token_operations_def Let_def create_pipeline_operations_def parallel_decrement_def create_rate_limit_keys_def
      split: if_splits)

subsection \<open>Windows that end early or late\<close>

text \<open>
  The window starts anew with the second in which it ends, but its entries keep their expiry, so that it starts
  once more within that second.
\<close>

lemma window_starts_twice:
  "admitted plain_limiter
     [(1009 / 10, (plain_auth ''k'')\<lparr>auth_rpm_limit := Some 1\<rparr>, plain_request),
      (1605 / 10, (plain_auth ''k'')\<lparr>auth_rpm_limit := Some 1\<rparr>, plain_request),
      (161, (plain_auth ''k'')\<lparr>auth_rpm_limit := Some 1\<rparr>, plain_request)] (empty_cache, None) = 3"
  by code_simp

text \<open>
  A call that ends after its window, with no counter left, leaves one of minus one that lives for the ten
  minutes of the cache and lets a request more run in parallel.
\<close>

definition late_failure :: "unit dual" where
  "late_failure = async_log_failure_event plain_limiter 200
     [(''standard_logging_object'', PDict [(''metadata'', PDict [(''user_api_key_hash'', PStr ''k'')])])] empty_cache"

lemma late_decrement_outlives_window:
  "imc_get_ttl (create_rate_limit_keys ''api_key'' ''k'' ''max_parallel_requests'') (in_memory_cache late_failure) = Some 800"
  by code_simp

lemma late_decrement_admits_more:
  "admitted plain_limiter
     [(201, (plain_auth ''k'')\<lparr>auth_rpm_limit := Some 10, auth_max_parallel_requests := Some 1\<rparr>, plain_request),
      (202, (plain_auth ''k'')\<lparr>auth_rpm_limit := Some 10, auth_max_parallel_requests := Some 1\<rparr>, plain_request)]
     (late_failure, None) = 2"
  by code_simp

end
