(* ===== verification/Spec2Isabelle.thy ===== *)
theory Spec2Isabelle
  imports Scheduler RouterSelect CommonChecks SpendLogs Pipeline MockServer AuditExceptions
    Fallbacks RateLimit BudgetLimiter BudgetManager LimiterCases
begin

text \<open>
  A verification library for the stateful core of the gateway's Python code: the LiteLLM gateway
  under \<^verbatim>\<open>llm-gateway-competitors/litellm-wheel-src/litellm\<close> (paths below are relative to it)
  and the repository's own Python scripts.

  \<^bold>\<open>Parts and theories.\<close>

  \<^item> \<open>Prelude\<close>, \<open>PyValue\<close>, \<open>PyText\<close>, \<open>PyHeapq\<close>, \<open>PyCompare\<close>: what the code uses
    of Python: dicts as association lists in insertion order, exceptions as the left side of a sum,
    JSON values and \<^verbatim>\<open>json.loads\<close>, strings as UTF-8, \<^verbatim>\<open>heapq\<close> on a linear order and on
    values whose comparison may raise. The parser runs on fuel of twice the length of the text plus
    two; a lemma shows that more fuel never changes its answer.
  \<^item> \<open>Errors\<close>, \<open>Retries\<close>, \<open>Fallbacks\<close> (\<^verbatim>\<open>router.py\<close>,
    \<^verbatim>\<open>router_utils/fallback_event_handlers.py\<close>, \<^verbatim>\<open>get_retry_from_policy.py\<close>,
    \<^verbatim>\<open>add_retry_fallback_headers.py\<close>): how a request survives failing deployments. A call is
    retried in place (\<open>async_function_with_retries\<close>) and then sent to other model groups, each with
    retries and fallbacks of its own (\<open>async_function_with_fallbacks\<close>, a mutual recursion that ends
    because the depth grows towards its maximum). The lemmas count the attempts, name the models they
    can reach, and say which errors are retried, how long the waits are and whose error is raised.
  \<^item> \<open>Deployments\<close>, \<open>RequestCounts\<close>, \<open>UsageMap\<close>, \<open>LeastBusy\<close>, \<open>LowestTpm\<close>, \<open>LowestCost\<close>,
    \<open>LowestLatency\<close>, \<open>TagRouting\<close> (\<^verbatim>\<open>router_strategy\<close>) and \<open>Wildcards\<close>
    (\<^verbatim>\<open>router_utils/pattern_match_deployments.py\<close>): which deployment serves a request. The counters and
    usage maps are dicts inside the two-level cache; \<open>CacheAlias\<close> describes callers that change the
    object a cache handed out. Each pick is shown to be the one the strategy promises; for the latency
    strategy the usage map is shown to keep its type in every reachable state, so that a pick never
    raises. \<open>RateLimit\<close> (\<^verbatim>\<open>router_utils/pre_call_checks/model_rate_limit_check.py\<close>) admits exactly as
    many requests in a minute as a limit says.
  \<^item> \<open>BaseRouting\<close>, \<open>LowestTpmV2\<close>, \<open>BudgetLimiter\<close> (\<^verbatim>\<open>router_strategy/base_routing_strategy.py\<close>,
    \<^verbatim>\<open>lowest_tpm_rpm_v2.py\<close>, \<^verbatim>\<open>budget_limiter.py\<close>): counters that are kept in memory and pushed to Redis
    by a periodic task. The task is cut where it waits for Redis; \<open>sync_run\<close> interleaves it with
    increments, and none is lost or counted twice while Redis answers. The second usage strategy picks the
    least used deployment within its limits; a provider whose budget is used up is filtered out until
    the window ends.
  \<^item> \<open>RouterModels\<close> (\<^verbatim>\<open>router.py\<close>): the deployments a router holds, as a list with an index by id, an
    index by model name, the wildcard patterns and the cached access groups. \<open>router_reachable\<close> closes
    the empty router under the operations that set, add, replace and delete deployments; in all reachable
    states the indices answer as a scan of the list does and the cache is not stale, and with unique ids
    the router refines a map from ids to deployments. \<open>common_checks_available_deployment\<close> gives the
    deployments that may serve a request.
  \<^item> \<open>PreCallChecks\<close>, \<open>StrategyPick\<close>, \<open>RouterSelect\<close> (\<^verbatim>\<open>router.py\<close>, \<^verbatim>\<open>router_utils/common_utils.py\<close>,
    \<^verbatim>\<open>handle_error.py\<close>): the way from these candidates to one deployment, through the filters for teams,
    web search, cooldown, callbacks, pre-call checks and tags to the pick of a strategy. The locale
    \<open>strategy_pick\<close> states what the router expects of a strategy, and all of them interpret it. The record
    \<open>selector\<close> joins the deployments with the cooldowns and the cache they share with the strategies; a
    chosen deployment is shown to be one the request may use, and none is chosen while it cools down.
  \<^item> \<open>ModelAccess\<close>, \<open>CommonChecks\<close> (\<^verbatim>\<open>proxy/auth/auth_checks.py\<close>, \<^verbatim>\<open>auth_utils.py\<close>): the checks
    that the proxy makes before it passes a request to the router: which models a key, a team, a user or
    a project may call, over the access groups of the deployments of \<open>RouterModels\<close>, and the budgets. A
    request that passes is shown to be allowed all the models it asks for and to be within the budgets.
  \<^item> \<open>RouteTables\<close>, \<open>RouteMatch\<close>, \<open>RouteChecks\<close> (\<^verbatim>\<open>proxy/_types.py\<close>, \<^verbatim>\<open>proxy/auth/route_checks.py\<close>,
    \<^verbatim>\<open>auth_checks_organization.py\<close>): the tables of routes, how a path is compared with their entries, and which
    routes a key and the role of its user open; \<open>CommonChecks\<close> runs these checks on every request. Entries
    with placeholders are shown to match segment by segment, a key with routes of its own to be confined
    to them, and the routes that change users and teams to be open to admins only. The lemmas at the end of
    \<open>RouteChecks\<close> show what the checks let pass against their intent.
  \<^item> \<open>RateDescriptors\<close>, \<open>ParallelLimiter\<close>, \<open>LimiterWindow\<close>, \<open>BatchLimiter\<close>, \<open>LimiterCases\<close>
    (\<^verbatim>\<open>proxy/hooks/parallel_request_limiter_v3.py\<close>, \<^verbatim>\<open>batch_rate_limiter.py\<close>): the limits on requests, tokens and
    parallel calls. The descriptors name the counters of a request; a counter lives in a window that the first
    request opens, in memory or, through Lua scripts, in Redis. The locale \<open>expiring_store\<close> states what the
    windows rely on of the in-memory cache, which interprets it. The request limit of a key is shown to hold in
    every window, memory and script are shown to count alike (both refine \<open>windows_spec\<close>), and a batch to be
    booked within the limits; \<open>LimiterCases\<close> shows where counters and limits do not fit together.
  \<^item> \<open>Calendar\<close>, \<open>Duration\<close> (\<^verbatim>\<open>litellm_core_utils/duration_parser.py\<close>) and \<open>BudgetManager\<close>
    (\<^verbatim>\<open>budget_manager.py\<close>): when budgets are reset, on the Gregorian calendar of \<^verbatim>\<open>datetime\<close>, and
    the costs booked against them.
  \<^item> \<open>KvStore\<close>: the locale of a cache as its clients see it. \<open>InMemoryCache\<close>
    (\<^verbatim>\<open>caching/in_memory_cache.py\<close>) and \<open>DualCache\<close> (\<^verbatim>\<open>caching/dual_cache.py\<close>) interpret it.
    The record \<open>imc\<close> is the state of the in-memory cache, \<open>dual\<close> that of the two-level cache;
    each method is one definition on it. The lemmas show the agreement of the dicts and the heap in
    every reachable state, what eviction keeps, what a read returns after a write, and that batch reads
    of Redis are throttled and rolled back.
  \<^item> \<open>Scheduler\<close> (\<^verbatim>\<open>scheduler.py\<close>): the queue of waiting requests inside the two-level cache,
    with the aliasing of the cached list; requests are served by priority.
  \<^item> \<open>Cooldown\<close> (\<^verbatim>\<open>router_utils/cooldown_cache.py\<close>, \<^verbatim>\<open>cooldown_handlers.py\<close>,
    \<^verbatim>\<open>router_callbacks/track_deployment_metrics.py\<close>): when a deployment is taken out of rotation
    and for how long. \<open>Masker\<close> (\<^verbatim>\<open>litellm_core_utils/sensitive_data_masker.py\<close>) masks the
    exception text that is stored with a cooldown; masked data do not depend on the hidden part.
  \<^item> \<open>SpendQueue\<close>, \<open>RedisBuffer\<close>, \<open>PodLock\<close>, \<open>SpendCommit\<close>, \<open>SpendWriter\<close>, \<open>SpendLogs\<close>
    (\<^verbatim>\<open>proxy/db/db_transaction_queue\<close>, \<^verbatim>\<open>proxy/db/db_spend_update_writer.py\<close>, \<^verbatim>\<open>proxy/utils.py\<close>): the way of the cost of a
    request to the database. A request queues an update for each entity (\<open>batch_database_updates\<close>); the locale
    \<open>spend_buffer\<close> states what an aggregation of queued updates promises and both kinds of queue interpret it.
    A job flushes the queues to the database or to lists in Redis, from which the pod that holds the lock
    commits them. \<open>fleet_step\<close> interleaves the requests and jobs of any number of pods; no spend is lost or
    counted twice while Redis and the database answer, and a run of the job is a sequence of such steps.
    The lemmas under "Deviations" show what is lost when they do not, and that a run writes at most
    a hundred daily transactions of a kind.
  \<^item> \<open>PolicyMatch\<close>, \<open>PolicyResolve\<close>, \<open>Pipeline\<close> (\<^verbatim>\<open>proxy/policy_engine\<close>): which policies
    apply to a request, the guardrails they amount to along the inheritance chains, what validation
    guarantees, and how a guardrail pipeline reaches its verdict.
  \<^item> \<open>MockServer\<close> (\<^verbatim>\<open>scripts/mock/supply_gateway_mock_server.py\<close>) and \<open>AuditExceptions\<close>
    (\<^verbatim>\<open>sub2api-tar/tools/check_pnpm_audit_exceptions.py\<close>): the scripts the repository runs itself.

  \<^bold>\<open>Parameters.\<close> The Redis server (\<open>redis_ops\<close>, \<open>lock_ops\<close>, \<open>buffer_ops\<close>) may answer anything and raise at
  any call; only the properties of the lock and of the fleet assume the documented laws of \<^verbatim>\<open>SET NX\<close>, \<^verbatim>\<open>GET\<close>,
  \<^verbatim>\<open>DEL\<close>, \<^verbatim>\<open>RPUSH\<close> and \<^verbatim>\<open>LPOP\<close>, of the commands that the scripts of the rate limiter use (\<open>redis_cmds\<close>), and of the database (\<open>db_ops\<close>) that a transaction that raises changes nothing. Object sizes in the interpreter (\<open>py_runtime\<close>), \<^verbatim>\<open>re.fullmatch\<close>,
  \<^verbatim>\<open>date.fromisoformat\<close>, \<^verbatim>\<open>str\<close> of floats and containers, and the guardrail callbacks are
  functions the definitions take, as are calls of a model, sleeping, random draws, time zones, token
  counts and prices, and the rows the proxy reads from its database. Every reading of the clock is an argument.

  \<^bold>\<open>Not modelled.\<close> Calls of model providers and their transformations (\<^verbatim>\<open>llms/\<close>,
  \<^verbatim>\<open>main.py\<close>), logging integrations and the request metadata they read, the HTTP endpoints of the
  proxy and its database layer, Redis and the other cache back ends, the assembly of keyword
  arguments in \<^verbatim>\<open>router.py\<close>: they are input and output around libraries. Floats are exact rationals, so rounding is
  not modelled; the Go services of the repository are outside this library.
\<close>

end
